(* ===== verification/Dvp_Prelude.thy ===== *)
theory Dvp_Prelude
  imports Main "HOL-Library.Word" "HOL-Library.Monad_Syntax"
begin

text \<open>
  Shared vocabulary of the development: the machine integer types of the C sources, the
  unsigned \<open>size_t\<close> arithmetic with its wrap-around written out (the OMAP targets are 32-bit,
  so \<open>size_t\<close> and \<open>value_t\<close> have 32 bits), byte buffers with bounds-checked copies, and the
  generic list lemmas the components use.

  Conventions used by every theory. A C function that can dereference a null pointer, run
  outside a buffer, fail an \<open>assert\<close> or loop forever returns an \<open>option\<close> whose \<open>None\<close> stands for
  exactly these faults, so that a theorem \<open>f x = Some y\<close> says that the call returns normally.
  A pointer is an \<open>option\<close> as well, \<open>None\<close> being \<open>NULL\<close>.
\<close>

section \<open>Machine integers\<close>

type_synonym u8 = "8 word"
type_synonym u32 = "32 word"
type_synonym s32 = "32 word"

named_theorems size_simps \<comment> \<open>size\_t arithmetic without wrap-around\<close>
named_theorems mem_simps \<comment> \<open>bounds-checked buffer accesses\<close>

abbreviation size_max :: nat where
  "size_max \<equiv> 4294967296"

definition size_add :: "nat \<Rightarrow> nat \<Rightarrow> nat" where
  "size_add a b = (a + b) mod size_max"

definition size_sub :: "nat \<Rightarrow> nat \<Rightarrow> nat" where
  "size_sub a b = (a + (size_max - b mod size_max)) mod size_max"

definition size_mul :: "nat \<Rightarrow> nat \<Rightarrow> nat" where
  "size_mul a b = (a * b) mod size_max"

lemma size_add_eq [size_simps]: "a + b < size_max \<Longrightarrow> size_add a b = a + b"
  by (simp add: size_add_def)

lemma size_sub_eq [size_simps]:
  assumes "b \<le> a" and "a < size_max"
  shows "size_sub a b = a - b"
proof -
  have "b mod size_max = b" using assms by simp
  moreover have "a + (size_max - b) = (a - b) + size_max" using assms by linarith
  ultimately show ?thesis using assms unfolding size_sub_def by (simp only: mod_add_self2) simp
qed

lemma size_mul_eq [size_simps]: "a * b < size_max \<Longrightarrow> size_mul a b = a * b"
  by (simp add: size_mul_def)

lemma size_add_less: "size_add a b < size_max"
  by (simp add: size_add_def)

lemma size_mul_less: "size_mul a b < size_max"
  by (simp add: size_mul_def)

lemma u32_top: "x \<le> (0xFFFFFFFF :: u32)"
  using unsigned_less[where 'a=nat, of x] by (simp add: word_le_nat_alt)

lemma u32_top_iff: "(0xFFFFFFFF :: u32) \<le> x \<longleftrightarrow> x = 0xFFFFFFFF" "\<not> (0xFFFFFFFF :: u32) < x"
  using u32_top[of x] by (auto simp: not_less)

lemma unat_of_nat_u32: "k < size_max \<Longrightarrow> unat (of_nat k :: u32) = k"
  by (simp add: unsigned_of_nat take_bit_nat_eq_self)

lemma unat_u32_less: "unat (x :: u32) < size_max"
  using unsigned_less[where 'a=nat, of x] by simp

lemma unat_add_small: "unat (a :: u32) + unat b < 2 ^ 32 \<Longrightarrow> unat (a + b) = unat a + unat b"
  by (simp add: unat_word_ariths)

lemma unat_mult_small: "unat (a :: u32) * unat b < 2 ^ 32 \<Longrightarrow> unat (a * b) = unat a * unat b"
  by (simp add: unat_word_ariths)

section \<open>Pointers returned to a caller\<close>

text \<open>
  A pointer a constructor returns: null, to an object that has already been freed, or to a live
  object.
\<close>

datatype 'a cptr = Null | Freed | Live 'a

text \<open>A call either returns or is still asleep in a wait of its own.\<close>

datatype 'a call = Blocks | Returns 'a

section \<open>Byte buffers\<close>

text \<open>
  A block of memory is the list of its cells. \<open>mem_put\<close> is \<open>memcpy\<close> into the block at an
  offset and \<open>mem_get\<close> is \<open>memcpy\<close> out of it; both are \<open>None\<close> when the access leaves the block.
\<close>

definition mem_put :: "'a list \<Rightarrow> nat \<Rightarrow> 'a list \<Rightarrow> 'a list option" where
  "mem_put m off xs =
     (if off + length xs \<le> length m
      then Some (take off m @ xs @ drop (off + length xs) m) else None)"

definition mem_get :: "'a list \<Rightarrow> nat \<Rightarrow> nat \<Rightarrow> 'a list option" where
  "mem_get m off n = (if off + n \<le> length m then Some (take n (drop off m)) else None)"

lemma mem_put_Some [mem_simps]:
  "off + length xs \<le> length m \<Longrightarrow>
   mem_put m off xs = Some (take off m @ xs @ drop (off + length xs) m)"
  by (simp add: mem_put_def)

lemma mem_get_Some [mem_simps]:
  "off + n \<le> length m \<Longrightarrow> mem_get m off n = Some (take n (drop off m))"
  by (simp add: mem_get_def)

lemma mem_put_length: "mem_put m off xs = Some m' \<Longrightarrow> length m' = length m"
  by (auto simp: mem_put_def split: if_splits)

lemma mem_get_length: "mem_get m off n = Some xs \<Longrightarrow> length xs = n"
  by (auto simp: mem_get_def split: if_splits)

text \<open>What was copied in is what is copied out.\<close>

lemma mem_get_put:
  "mem_put m off xs = Some m' \<Longrightarrow> mem_get m' off (length xs) = Some xs"
  by (auto simp: mem_put_def mem_get_def split: if_splits)

section \<open>Arrays with a checked index\<close>

definition nth_chk :: "'a list \<Rightarrow> nat \<Rightarrow> 'a option" where
  "nth_chk xs i = (if i < length xs then Some (xs ! i) else None)"

definition upd_chk :: "'a list \<Rightarrow> nat \<Rightarrow> 'a \<Rightarrow> 'a list option" where
  "upd_chk xs i x = (if i < length xs then Some (xs[i := x]) else None)"

lemma nth_chk_Some [mem_simps]: "i < length xs \<Longrightarrow> nth_chk xs i = Some (xs ! i)"
  by (simp add: nth_chk_def)

lemma upd_chk_Some [mem_simps]: "i < length xs \<Longrightarrow> upd_chk xs i x = Some (xs[i := x])"
  by (simp add: upd_chk_def)

section \<open>Counting loops\<close>

text \<open>
  \<open>for_range i n f s\<close> is the loop over \<open>i, ..., i + n - 1\<close> whose body may fault; \<open>all_range\<close> is a
  loop that returns false at the first index its body rejects.
\<close>

fun for_range :: "nat \<Rightarrow> nat \<Rightarrow> (u32 \<Rightarrow> 's \<Rightarrow> 's option) \<Rightarrow> 's \<Rightarrow> 's option" where
  "for_range i 0 f s = Some s"
| "for_range i (Suc n) f s = do { s' \<leftarrow> f (of_nat i) s; for_range (Suc i) n f s' }"

fun all_range :: "nat \<Rightarrow> nat \<Rightarrow> (u32 \<Rightarrow> bool option) \<Rightarrow> bool option" where
  "all_range i 0 f = Some True"
| "all_range i (Suc n) f = do { b \<leftarrow> f (of_nat i); if b then all_range (Suc i) n f else Some False }"

text \<open>The invariant rule of the counting loop: total, and relative to the index.\<close>

lemma for_range_inv:
  assumes "I i s" and "\<And>k s. i \<le> k \<Longrightarrow> k < i + n \<Longrightarrow> I k s \<Longrightarrow> \<exists>s'. f (of_nat k) s = Some s' \<and> I (Suc k) s'"
  shows "\<exists>s'. for_range i n f s = Some s' \<and> I (i + n) s'"
  using assms
proof (induction n arbitrary: i s)
  case (Suc n)
  obtain s1 where s1: "f (of_nat i) s = Some s1" "I (Suc i) s1" using Suc.prems(2)[of i s] Suc.prems(1) by auto
  have "\<exists>s'. for_range (Suc i) n f s1 = Some s' \<and> I (Suc i + n) s'"
    by (rule Suc.IH[OF s1(2)]) (rule Suc.prems(2), simp_all)
  then show ?case using s1 by simp
qed simp

lemma all_range_True:
  "(\<And>k. i \<le> k \<Longrightarrow> k < i + n \<Longrightarrow> f (of_nat k) = Some True) \<Longrightarrow> all_range i n f = Some True"
  by (induction n arbitrary: i) simp_all

lemma all_range_iff:
  "(\<And>k. i \<le> k \<Longrightarrow> k < i + n \<Longrightarrow> f (of_nat k) \<noteq> None) \<Longrightarrow>
   all_range i n f = Some (\<forall>k\<in>{i..<i + n}. f (of_nat k) = Some True)"
proof (induction n arbitrary: i)
  case (Suc n)
  obtain b where b: "f (of_nat i) = Some b" using Suc.prems[of i] by auto
  have ih: "all_range (Suc i) n f = Some (\<forall>k\<in>{Suc i..<Suc i + n}. f (of_nat k) = Some True)"
    by (rule Suc.IH) (use Suc.prems in simp)
  have "{i..<i + Suc n} = insert i {Suc i..<Suc i + n}" by auto
  then show ?case using b ih by simp
qed simp

lemma sum_list_update_nat:
  "i < length xs \<Longrightarrow> sum_list (map f (xs[i := y])) + f (xs ! i) = sum_list (map f xs) + (f y :: nat)"
  by (induction xs arbitrary: i) (auto split: nat.splits simp: nth_Cons)

end
