(* ===== verification/Sosal_Fifo.thy ===== *)
theory Sosal_Fifo
  imports Dvp_Prelude
begin

text \<open>
  The interface between the message queue (\<open>source/sosal/queue.c\<close>) and the ring buffer under it
  (\<open>source/sosal/ring.c\<close>): a bounded first-in first-out buffer of bytes whose write takes all of
  its bytes or none. The client lemmas turn it into a queue of equally long messages.
\<close>

section \<open>Streams of messages\<close>

text \<open>The byte string \<open>bs\<close> is a sequence of messages of \<open>k\<close> bytes each.\<close>

definition is_msgs :: "nat \<Rightarrow> 'a list list \<Rightarrow> 'a list \<Rightarrow> bool" where
  "is_msgs k ms bs \<longleftrightarrow> (\<forall>m \<in> set ms. length m = k) \<and> concat ms = bs"

lemma is_msgs_length: "is_msgs k ms bs \<Longrightarrow> length bs = k * length ms"
  by (induction ms arbitrary: bs) (auto simp: is_msgs_def)

lemma is_msgs_Nil [simp]: "is_msgs k [] bs \<longleftrightarrow> bs = []"
  by (auto simp: is_msgs_def)

lemma is_msgs_snoc: "is_msgs k ms bs \<Longrightarrow> length m = k \<Longrightarrow> is_msgs k (ms @ [m]) (bs @ m)"
  by (auto simp: is_msgs_def)

lemma is_msgs_Cons:
  "is_msgs k (m # ms) bs \<Longrightarrow> length m = k \<and> take k bs = m \<and> is_msgs k ms (drop k bs)"
  by (auto simp: is_msgs_def)

text \<open>Writing and reading several messages with one call each.\<close>

fun put_msgs :: "('r \<Rightarrow> 'a list \<Rightarrow> nat \<Rightarrow> (nat \<times> 'r) option) \<Rightarrow> nat \<Rightarrow> 'r \<Rightarrow> 'a list list \<Rightarrow> 'r option"
where
  "put_msgs put k r [] = Some r"
| "put_msgs put k r (m # ms) = do {
     (n, r') \<leftarrow> put r m k;
     if n = k then put_msgs put k r' ms else None }"

fun get_msgs :: "('r \<Rightarrow> 'a list \<Rightarrow> nat \<Rightarrow> (nat \<times> 'a list \<times> 'r) option) \<Rightarrow> 'a list \<Rightarrow> nat \<Rightarrow> 'r \<Rightarrow> nat \<Rightarrow>
  ('a list list \<times> 'r) option"
where
  "get_msgs get b k r 0 = Some ([], r)"
| "get_msgs get b k r (Suc j) = do {
     (n, m, r') \<leftarrow> get r b k;
     if n = k then do { (ms, r'') \<leftarrow> get_msgs get b k r' j; Some (take k m # ms, r'') }
     else None }"

section \<open>The byte queue interface\<close>

locale byte_fifo =
  fixes wf :: "'r \<Rightarrow> bool"
    and contents :: "'r \<Rightarrow> 'a list"
    and cap :: "'r \<Rightarrow> nat"
    and put :: "'r \<Rightarrow> 'a list \<Rightarrow> nat \<Rightarrow> (nat \<times> 'r) option"
    and get :: "'r \<Rightarrow> 'a list \<Rightarrow> nat \<Rightarrow> (nat \<times> 'a list \<times> 'r) option"
  assumes contents_cap: "wf r \<Longrightarrow> length (contents r) \<le> cap r"
    and put_fits: "wf r \<Longrightarrow> n \<le> length b \<Longrightarrow> 0 < n \<Longrightarrow> length (contents r) + n \<le> cap r \<Longrightarrow>
      \<exists>r'. put r b n = Some (n, r') \<and> wf r' \<and> cap r' = cap r \<and> contents r' = contents r @ take n b"
    and put_full: "wf r \<Longrightarrow> cap r < length (contents r) + n \<Longrightarrow> put r b n = Some (0, r)"
    and get_prefix: "wf r \<Longrightarrow> n \<le> length b \<Longrightarrow>
      \<exists>r'. get r b n = Some (min n (length (contents r)),
                             take n (contents r) @ drop (min n (length (contents r))) b, r') \<and>
           wf r' \<and> cap r' = cap r \<and> contents r' = drop n (contents r)"
begin

lemma put_msg:
  assumes "wf r" "is_msgs k ms (contents r)" "length m = k" "0 < k"
    and "k * Suc (length ms) \<le> cap r"
  obtains r' where "put r m k = Some (k, r')" "wf r'" "cap r' = cap r"
    "is_msgs k (ms @ [m]) (contents r')"
proof -
  have "length (contents r) + k \<le> cap r" using assms is_msgs_length[OF assms(2)] by simp
  then obtain r' where "put r m k = Some (k, r')" "wf r'" "cap r' = cap r"
    "contents r' = contents r @ take k m"
    using put_fits[OF assms(1), of k m] assms(3,4) by auto
  then show thesis using assms(2,3) by (intro that[of r']) (simp_all add: is_msgs_snoc)
qed

lemma put_msg_full:
  assumes "wf r" "is_msgs k ms (contents r)" "cap r < k * Suc (length ms)"
  shows "put r m k = Some (0, r)"
  using assms by (intro put_full) (simp_all add: is_msgs_length)

lemma get_msg:
  assumes "wf r" "is_msgs k (m # ms) (contents r)" "length b = k"
  obtains r' where "get r b k = Some (k, m, r')" "wf r'" "cap r' = cap r"
    "is_msgs k ms (contents r')"
proof -
  have l: "k \<le> length (contents r)" using is_msgs_length[OF assms(2)] by simp
  obtain r' where "get r b k = Some (min k (length (contents r)),
      take k (contents r) @ drop (min k (length (contents r))) b, r')"
    "wf r'" "cap r' = cap r" "contents r' = drop k (contents r)"
    using get_prefix[OF assms(1), of k b] assms(3) by auto
  then show thesis
    using l is_msgs_Cons[OF assms(2)] assms(3) by (intro that[of r']) (simp_all add: min_def)
qed

lemma get_msg_empty:
  assumes "wf r" "contents r = []" "length b = k"
  obtains r' where "get r b k = Some (0, b, r')" "wf r'" "cap r' = cap r" "contents r' = []"
  using get_prefix[OF assms(1), of k b] assms(2,3) by (auto intro: that)

lemma put_msgs_ok:
  assumes "wf r" "is_msgs k xs (contents r)" "\<forall>m \<in> set ms. length m = k" "0 < k"
    and "k * (length xs + length ms) \<le> cap r"
  shows "\<exists>r'. put_msgs put k r ms = Some r' \<and> wf r' \<and> cap r' = cap r \<and>
              is_msgs k (xs @ ms) (contents r')"
  using assms
proof (induction ms arbitrary: r xs)
  case Nil
  then show ?case by simp
next
  case (Cons m ms)
  have "k * Suc (length xs) \<le> cap r"
    using Cons.prems(5) by (simp add: algebra_simps)
  then obtain r1 where r1: "put r m k = Some (k, r1)" "wf r1" "cap r1 = cap r"
    "is_msgs k (xs @ [m]) (contents r1)"
    using put_msg[OF Cons.prems(1,2)] Cons.prems(3,4) by auto
  have "\<exists>r'. put_msgs put k r1 ms = Some r' \<and> wf r' \<and> cap r' = cap r1 \<and>
             is_msgs k ((xs @ [m]) @ ms) (contents r')"
    by (rule Cons.IH[OF r1(2,4)]) (use Cons.prems r1(3) in auto)
  then show ?case using r1 by simp
qed

lemma get_msgs_ok:
  assumes "wf r" "is_msgs k (ms @ ys) (contents r)" "length b = k"
  shows "\<exists>r'. get_msgs get b k r (length ms) = Some (ms, r') \<and> wf r' \<and> cap r' = cap r \<and>
              is_msgs k ys (contents r')"
  using assms
proof (induction ms arbitrary: r)
  case Nil
  then show ?case by simp
next
  case (Cons m ms)
  obtain r1 where r1: "get r b k = Some (k, m, r1)" "wf r1" "cap r1 = cap r"
    "is_msgs k (ms @ ys) (contents r1)"
    using get_msg[OF Cons.prems(1), of k m "ms @ ys" b] Cons.prems(2,3) by auto
  then show ?case
    using Cons.IH[OF r1(2,4) Cons.prems(3)] is_msgs_Cons[of k m "ms @ ys"] Cons.prems(2) by auto
qed

text \<open>First in, first out: what is written message by message comes out in the same order.\<close>

lemma fifo_roundtrip:
  assumes "wf r" "contents r = []" "\<forall>m \<in> set ms. length m = k" "0 < k"
    and "k * length ms \<le> cap r" "length b = k"
  shows "\<exists>r1 r2. put_msgs put k r ms = Some r1 \<and>
                 get_msgs get b k r1 (length ms) = Some (ms, r2) \<and> contents r2 = []"
proof -
  have e: "is_msgs k [] (contents r)" using assms(2) by simp
  obtain r1 where r1: "put_msgs put k r ms = Some r1" "wf r1" "is_msgs k (ms @ []) (contents r1)"
    using put_msgs_ok[OF assms(1) e assms(3,4)] assms(5) by auto
  show ?thesis using r1 get_msgs_ok[OF r1(2,3) assms(6)] by auto
qed

end

end
