(* ===== verification/Sosal_Ring.thy ===== *)
theory Sosal_Ring
  imports Sosal_Fifo
begin

text \<open>
  The ring buffer of \<open>source/sosal/ring.c\<close>. The four byte pointers of \<open>ring_t\<close> are offsets from
  \<open>start\<close>, so \<open>start\<close> itself is 0, \<open>r_end\<close> is one past the buffer, and the buffer is the list
  \<open>r_mem\<close>. The abstraction \<open>ring_contents\<close> reads the stored bytes in the order they were
  written; the invariant \<open>ring_wf\<close> ties the four pointers to the two counters. The theorems say
  that \<open>ring_write\<close> appends all of its bytes or none, that \<open>ring_read\<close> removes a prefix, and that
  neither ever leaves the buffer or trips one of its own assertions.
\<close>

section \<open>The ring buffer structure\<close>

record ring_t =
  totalNumBytes :: nat
  numBytesUsed :: nat
  numBytesFree :: nat
  r_mem :: "u8 list"
  r_end :: nat
  r_front :: nat
  r_back :: nat

text \<open>
  \<open>ok_rb\<close> and \<open>ok_buf\<close> say whether the two \<open>calloc\<close> calls succeed; the result is \<open>None\<close> for a
  null pointer.
\<close>

definition ring_create :: "bool \<Rightarrow> bool \<Rightarrow> nat \<Rightarrow> ring_t option" where
  "ring_create ok_rb ok_buf nbytes =
     (if \<not> ok_rb then None
      else if \<not> ok_buf then None
      else Some \<lparr>totalNumBytes = nbytes, numBytesUsed = 0, numBytesFree = nbytes,
                 r_mem = replicate nbytes 0, r_end = nbytes, r_front = 0, r_back = 0\<rparr>)"

text \<open>
  The step every branch of the two operations shares: copy bytes at \<open>back\<close> (or out of \<open>front\<close>),
  and move the counters.
\<close>

definition ring_put :: "ring_t \<Rightarrow> u8 list \<Rightarrow> ring_t option" where
  "ring_put rb bs = do {
     m \<leftarrow> mem_put (r_mem rb) (r_back rb) bs;
     Some (rb\<lparr>r_mem := m,
              r_back := r_back rb + length bs,
              numBytesFree := size_sub (numBytesFree rb) (length bs),
              numBytesUsed := size_add (numBytesUsed rb) (length bs)\<rparr>) }"

definition ring_take :: "ring_t \<Rightarrow> u8 list \<Rightarrow> nat \<Rightarrow> nat \<Rightarrow> (u8 list \<times> ring_t) option" where
  "ring_take rb b off n = do {
     bs \<leftarrow> mem_get (r_mem rb) (r_front rb) n;
     b' \<leftarrow> mem_put b off bs;
     Some (b', rb\<lparr>r_front := r_front rb + n,
                  numBytesFree := size_add (numBytesFree rb) n,
                  numBytesUsed := size_sub (numBytesUsed rb) n\<rparr>) }"

text \<open>The two branches that run over the end of the buffer, in one place each.\<close>

definition ring_write_wrap :: "ring_t \<Rightarrow> u8 list \<Rightarrow> nat \<Rightarrow> (nat \<times> ring_t) option" where
  "ring_write_wrap rb b len =
     (let end_to_back = r_end rb - r_back rb; left_over = len - end_to_back in do {
        bs \<leftarrow> mem_get b 0 end_to_back;
        rb1 \<leftarrow> ring_put rb bs;
        let rb2 = rb1\<lparr>r_back := 0\<rparr>;
        if left_over > 0 then do {
          bs2 \<leftarrow> mem_get b end_to_back left_over;
          rb3 \<leftarrow> ring_put rb2 bs2;
          Some (len, rb3) }
        else Some (len, rb2) })"

definition ring_write_flat :: "ring_t \<Rightarrow> u8 list \<Rightarrow> nat \<Rightarrow> (nat \<times> ring_t) option" where
  "ring_write_flat rb b len = do {
     bs \<leftarrow> mem_get b 0 len;
     rb' \<leftarrow> ring_put rb bs;
     Some (len, rb') }"

definition ring_write :: "ring_t \<Rightarrow> u8 list \<Rightarrow> nat \<Rightarrow> (nat \<times> ring_t) option" where
  "ring_write rb b len =
     (if len > numBytesFree rb then Some (0, rb)
      else if len = 1 then do {
        (_, rb1) \<leftarrow> ring_write_flat rb b 1;
        Some (1, if r_back rb1 = r_end rb1 then rb1\<lparr>r_back := 0\<rparr> else rb1) }
      else if r_back rb > r_front rb then
        (if r_end rb - r_back rb > len then ring_write_flat rb b len
         else ring_write_wrap rb b len)
      else if r_front rb > r_back rb then
        (if len \<le> r_front rb - r_back rb then ring_write_flat rb b len else None)
      else if numBytesFree rb = 0 then None
      else if numBytesUsed rb = 0 then
        (if len > totalNumBytes rb then None
         else if len < r_end rb - r_back rb then ring_write_flat rb b len
         else ring_write_wrap rb b len)
      else if size_add (numBytesFree rb) (numBytesUsed rb) = totalNumBytes rb then Some (0, rb)
      else None)"

text \<open>
  \<open>ring_read\<close> fills the caller's buffer \<open>b\<close>, so it returns the count, the buffer and the ring.
\<close>

definition ring_read_wrap :: "ring_t \<Rightarrow> u8 list \<Rightarrow> nat \<Rightarrow> (nat \<times> u8 list \<times> ring_t) option" where
  "ring_read_wrap rb b len =
     (let end_to_front = r_end rb - r_front rb in
      if len < end_to_front then do {
        (b', rb') \<leftarrow> ring_take rb b 0 len;
        Some (len, b', rb') }
      else do {
        let left_over = len - end_to_front;
        (b1, rb1) \<leftarrow> ring_take rb b 0 end_to_front;
        let rb2 = rb1\<lparr>r_front := 0\<rparr>;
        let readLen = (if left_over > 0 then min left_over (r_back rb2) else 0);
        if readLen > 0 then do {
          (b3, rb3) \<leftarrow> ring_take rb2 b1 end_to_front readLen;
          Some (end_to_front + readLen, b3, rb3) }
        else Some (end_to_front + readLen, b1, rb2) })"

definition ring_read :: "ring_t \<Rightarrow> u8 list \<Rightarrow> nat \<Rightarrow> (nat \<times> u8 list \<times> ring_t) option" where
  "ring_read rb b len =
     (if numBytesUsed rb = 0 then Some (0, b, rb)
      else if len = 1 then do {
        (b', rb1) \<leftarrow> ring_take rb b 0 1;
        Some (1, b', if r_front rb1 = r_end rb1 then rb1\<lparr>r_front := 0\<rparr> else rb1) }
      else if r_back rb > r_front rb then do {
        let n = (if len < r_back rb - r_front rb then len else r_back rb - r_front rb);
        (b', rb') \<leftarrow> ring_take rb b 0 n;
        Some (n, b', rb') }
      else if r_front rb > r_back rb then ring_read_wrap rb b len
      else if numBytesFree rb = 0 then ring_read_wrap rb b len
      else if size_add (numBytesFree rb) (numBytesUsed rb) = totalNumBytes rb then Some (0, b, rb)
      else None)"

section \<open>Invariant and abstraction\<close>

definition ring_wf :: "ring_t \<Rightarrow> bool" where
  "ring_wf rb \<longleftrightarrow>
     totalNumBytes rb < size_max \<and>
     length (r_mem rb) = totalNumBytes rb \<and>
     r_end rb = totalNumBytes rb \<and>
     numBytesUsed rb + numBytesFree rb = totalNumBytes rb \<and>
     (if totalNumBytes rb = 0 then r_front rb = 0 \<and> r_back rb = 0
      else r_front rb < totalNumBytes rb \<and> r_back rb < totalNumBytes rb \<and>
           r_back rb = (r_front rb + numBytesUsed rb) mod totalNumBytes rb)"

text \<open>\<open>u\<close> cells of the circular block \<open>m\<close> from position \<open>f\<close> on.\<close>

definition circ :: "'a list \<Rightarrow> nat \<Rightarrow> nat \<Rightarrow> 'a list" where
  "circ m f u = take u (drop f m @ m)"

definition ring_contents :: "ring_t \<Rightarrow> u8 list" where
  "ring_contents rb = circ (r_mem rb) (r_front rb) (numBytesUsed rb)"

lemma ring_contents_length: "ring_wf rb \<Longrightarrow> length (ring_contents rb) = numBytesUsed rb"
  by (auto simp: ring_wf_def ring_contents_def circ_def split: if_splits)

lemma ring_create_wf:
  "nbytes < size_max \<Longrightarrow> ring_create a b nbytes = Some rb \<Longrightarrow>
   ring_wf rb \<and> ring_contents rb = [] \<and> totalNumBytes rb = nbytes"
  by (auto simp: ring_create_def ring_wf_def ring_contents_def circ_def split: if_splits)


text \<open>
  Inside an operation \<open>back\<close> or \<open>front\<close> may point one past the end before it is moved to the
  start, so the lemmas about the shared steps use this weaker invariant.
\<close>

definition ring_mid :: "ring_t \<Rightarrow> bool" where
  "ring_mid rb \<longleftrightarrow>
     totalNumBytes rb < size_max \<and>
     length (r_mem rb) = totalNumBytes rb \<and>
     r_end rb = totalNumBytes rb \<and>
     numBytesUsed rb + numBytesFree rb = totalNumBytes rb \<and>
     r_front rb \<le> totalNumBytes rb \<and> r_back rb \<le> totalNumBytes rb \<and>
     (r_back rb = r_front rb + numBytesUsed rb \<or>
      r_back rb + totalNumBytes rb = r_front rb + numBytesUsed rb)"

lemma ring_wf_mid:
  assumes "ring_wf rb" shows "ring_mid rb"
proof (cases "totalNumBytes rb = 0")
  case True
  then show ?thesis using assms by (simp add: ring_wf_def ring_mid_def)
next
  case False
  let ?f = "r_front rb" and ?u = "numBytesUsed rb" and ?t = "totalNumBytes rb"
  have b: "r_back rb = (?f + ?u) mod ?t" and f: "?f < ?t" and u: "?u \<le> ?t"
    using assms False by (auto simp: ring_wf_def)
  have "r_back rb = ?f + ?u \<or> r_back rb + ?t = ?f + ?u"
  proof (cases "?f + ?u < ?t")
    case True
    then show ?thesis using b by simp
  next
    case False
    then have "(?f + ?u) mod ?t = ?f + ?u - ?t" using f u by (simp add: mod_if)
    then show ?thesis using b False by simp
  qed
  then show ?thesis using assms False by (auto simp: ring_wf_def ring_mid_def)
qed

lemma ring_mid_wf:
  assumes "ring_mid rb" and "r_front rb < totalNumBytes rb" and "r_back rb < totalNumBytes rb"
  shows "ring_wf rb"
proof -
  have "r_back rb = (r_front rb + numBytesUsed rb) mod totalNumBytes rb"
    using assms unfolding ring_mid_def
    by (metis mod_add_self2 mod_less)
  then show ?thesis using assms by (auto simp: ring_mid_def ring_wf_def)
qed

lemma circ_put_flat:
  assumes "b = f + u" and "b + length bs \<le> length m"
  shows "circ (take b m @ bs @ drop (b + length bs) m) f (u + length bs) = circ m f u @ bs"
proof -
  have "drop f (take b m) = take u (drop f m)" using assms(1) by (simp add: drop_take)
  then show ?thesis using assms by (simp add: circ_def)
qed

lemma circ_put_wrap:
  assumes w: "b + length m = f + u" and le: "b + length bs \<le> f" and f: "f \<le> length m"
  shows "circ (take b m @ bs @ drop (b + length bs) m) f (u + length bs) = circ m f u @ bs"
proof -
  define m' where "m' = take b m @ bs @ drop (b + length bs) m"
  have u: "u = (length m - f) + b" using w f by linarith
  have d: "drop f m' = drop f m" and t: "take (b + length bs) m' = take b m @ bs"
    using le f by (simp_all add: m'_def)
  have "circ m' f (u + length bs) = drop f m @ take (b + length bs) m'"
    unfolding circ_def d u by (simp add: add.assoc)
  moreover have "circ m f u = drop f m @ take b m"
    unfolding circ_def u by simp
  ultimately show ?thesis using t by (simp add: m'_def)
qed

lemma circ_drop: "f + n \<le> length m \<Longrightarrow> n \<le> u \<Longrightarrow> circ m (f + n) (u - n) = drop n (circ m f u)"
  by (simp add: circ_def drop_take add.commute)

lemma circ_take: "f + n \<le> length m \<Longrightarrow> n \<le> u \<Longrightarrow> take n (drop f m) = take n (circ m f u)"
  by (auto simp: circ_def min_def)

lemma circ_zero: "u \<le> length m \<Longrightarrow> circ m (length m) u = circ m 0 u"
  by (simp add: circ_def)

lemma ring_put_mid:
  assumes mid: "ring_mid rb" and room: "length bs \<le> numBytesFree rb"
    and fits: "r_back rb + length bs \<le> totalNumBytes rb"
  obtains rb' where "ring_put rb bs = Some rb'" "ring_mid rb'"
    "ring_contents rb' = ring_contents rb @ bs"
    "r_back rb' = r_back rb + length bs" "r_front rb' = r_front rb"
    "totalNumBytes rb' = totalNumBytes rb"
    "numBytesFree rb' = numBytesFree rb - length bs"
proof -
  let ?n = "length bs" and ?m = "r_mem rb" and ?b = "r_back rb"
  let ?rb = "rb\<lparr>r_mem := take ?b ?m @ bs @ drop (?b + ?n) ?m, r_back := ?b + ?n,
                numBytesFree := numBytesFree rb - ?n, numBytesUsed := numBytesUsed rb + ?n\<rparr>"
  have len: "length ?m = totalNumBytes rb" and tm: "totalNumBytes rb < size_max"
    and uf: "numBytesUsed rb + numBytesFree rb = totalNumBytes rb"
    and f: "r_front rb \<le> totalNumBytes rb"
    and br: "?b = r_front rb + numBytesUsed rb \<or>
             ?b + totalNumBytes rb = r_front rb + numBytesUsed rb"
    using mid by (auto simp: ring_mid_def)
  have put: "ring_put rb bs = Some ?rb"
    using fits len room tm uf by (simp add: ring_put_def mem_simps size_simps)
  have m: "ring_mid ?rb"
    using mid room fits by (auto simp: ring_mid_def)
  have "ring_contents ?rb = ring_contents rb @ bs"
    using br
  proof
    assume "?b = r_front rb + numBytesUsed rb"
    then show ?thesis using fits len by (simp add: ring_contents_def circ_put_flat)
  next
    assume w: "?b + totalNumBytes rb = r_front rb + numBytesUsed rb"
    then have "?b + ?n \<le> r_front rb" using room uf by linarith
    then show ?thesis using w f len by (simp add: ring_contents_def circ_put_wrap)
  qed
  with put m show thesis by (intro that[of ?rb]) simp_all
qed

lemma ring_take_mid:
  assumes mid: "ring_mid rb" and n: "n \<le> numBytesUsed rb"
    and fits: "r_front rb + n \<le> totalNumBytes rb" and buf: "off + n \<le> length b"
    and br: "r_back rb < totalNumBytes rb"
  obtains rb' where
    "ring_take rb b off n =
       Some (take off b @ take n (ring_contents rb) @ drop (off + n) b, rb')"
    "ring_mid rb'" "ring_contents rb' = drop n (ring_contents rb)"
    "r_front rb' = r_front rb + n" "r_back rb' = r_back rb"
    "totalNumBytes rb' = totalNumBytes rb" "numBytesUsed rb' = numBytesUsed rb - n"
proof -
  let ?rb = "rb\<lparr>r_front := r_front rb + n, numBytesFree := numBytesFree rb + n,
                numBytesUsed := numBytesUsed rb - n\<rparr>"
  have len: "length (r_mem rb) = totalNumBytes rb" and tm: "totalNumBytes rb < size_max"
    and uf: "numBytesUsed rb + numBytesFree rb = totalNumBytes rb"
    using mid by (auto simp: ring_mid_def)
  have g: "take n (drop (r_front rb) (r_mem rb)) = take n (ring_contents rb)"
    using fits len n by (simp add: ring_contents_def circ_take)
  have l: "length (take n (ring_contents rb)) = n"
    using g fits len by (metis length_drop length_take min.absorb2 le_diff_conv2 mid
        ring_mid_def add.commute)
  have t: "ring_take rb b off n =
             Some (take off b @ take n (ring_contents rb) @ drop (off + n) b, ?rb)"
    using fits len n tm uf buf l
    by (simp add: ring_take_def mem_simps size_simps g) 
  have m: "ring_mid ?rb"
    using mid n fits br by (auto simp: ring_mid_def)
  have "ring_contents ?rb = drop n (ring_contents rb)"
    using fits len n by (simp add: ring_contents_def circ_drop)
  with t m show thesis by (intro that[of ?rb]) simp_all
qed


lemma ring_wrap_back:
  assumes mid: "ring_mid rb" and "r_front rb < totalNumBytes rb" and "r_back rb = totalNumBytes rb"
  shows "ring_wf (rb\<lparr>r_back := 0\<rparr>)" "ring_contents (rb\<lparr>r_back := 0\<rparr>) = ring_contents rb"
proof -
  have "r_front rb + numBytesUsed rb = totalNumBytes rb"
    using assms by (auto simp: ring_mid_def)
  then have "ring_mid (rb\<lparr>r_back := 0\<rparr>)"
    using mid by (auto simp: ring_mid_def)
  then show "ring_wf (rb\<lparr>r_back := 0\<rparr>)"
    by (rule ring_mid_wf) (use assms in auto)
qed (simp add: ring_contents_def)

lemma ring_wrap_front:
  assumes mid: "ring_mid rb" and "r_back rb < totalNumBytes rb" and "r_front rb = totalNumBytes rb"
  shows "ring_wf (rb\<lparr>r_front := 0\<rparr>)" "ring_contents (rb\<lparr>r_front := 0\<rparr>) = ring_contents rb"
proof -
  have "r_back rb = numBytesUsed rb"
    using assms by (auto simp: ring_mid_def)
  then have "ring_mid (rb\<lparr>r_front := 0\<rparr>)"
    using mid by (auto simp: ring_mid_def)
  then show "ring_wf (rb\<lparr>r_front := 0\<rparr>)"
    by (rule ring_mid_wf) (use assms in auto)
  have "length (r_mem rb) = totalNumBytes rb" "numBytesUsed rb \<le> totalNumBytes rb"
    using mid by (auto simp: ring_mid_def)
  then show "ring_contents (rb\<lparr>r_front := 0\<rparr>) = ring_contents rb"
    using assms(3) circ_zero[of "numBytesUsed rb" "r_mem rb"] by (simp add: ring_contents_def)
qed

section \<open>Writing\<close>

lemma ring_write_flat_mid:
  assumes "ring_mid rb" "len \<le> numBytesFree rb" "len \<le> length b"
    and "r_back rb + len \<le> totalNumBytes rb"
  obtains rb' where "ring_write_flat rb b len = Some (len, rb')" "ring_mid rb'"
    "ring_contents rb' = ring_contents rb @ take len b"
    "r_back rb' = r_back rb + len" "r_front rb' = r_front rb"
    "totalNumBytes rb' = totalNumBytes rb"
proof -
  have l: "length (take len b) = len" using assms(3) by simp
  obtain rb' where "ring_put rb (take len b) = Some rb'" "ring_mid rb'"
    "ring_contents rb' = ring_contents rb @ take len b"
    "r_back rb' = r_back rb + len" "r_front rb' = r_front rb"
    "totalNumBytes rb' = totalNumBytes rb"
    using ring_put_mid[OF assms(1), of "take len b"] assms(2,4) unfolding l by metis
  then show thesis using assms(3)
    by (intro that[of rb']) (simp_all add: ring_write_flat_def mem_simps)
qed

lemma ring_write_wrap_wf:
  assumes wf: "ring_wf rb" and len: "len \<le> numBytesFree rb" "len \<le> length b"
    and over: "totalNumBytes rb - r_back rb \<le> len" and pos: "0 < totalNumBytes rb"
  shows "\<exists>rb'. ring_write_wrap rb b len = Some (len, rb') \<and> ring_wf rb' \<and>
               ring_contents rb' = ring_contents rb @ take len b \<and>
               totalNumBytes rb' = totalNumBytes rb"
proof -
  let ?e = "totalNumBytes rb - r_back rb"
  have f: "r_front rb < totalNumBytes rb" and bk: "r_back rb < totalNumBytes rb"
    and e: "r_end rb = totalNumBytes rb"
    using wf pos by (auto simp: ring_wf_def)
  obtain rb1 where rb1: "ring_put rb (take ?e b) = Some rb1" "ring_mid rb1"
    "ring_contents rb1 = ring_contents rb @ take ?e b"
    "r_back rb1 = totalNumBytes rb" "r_front rb1 = r_front rb"
    "totalNumBytes rb1 = totalNumBytes rb" "numBytesFree rb1 = numBytesFree rb - ?e"
    using ring_put_mid[OF ring_wf_mid[OF wf], of "take ?e b"] len over bk by auto
  let ?rb2 = "rb1\<lparr>r_back := 0\<rparr>"
  have wf2: "ring_wf ?rb2" and c2: "ring_contents ?rb2 = ring_contents rb @ take ?e b"
    using ring_wrap_back[OF rb1(2)] rb1 f by simp_all
  show ?thesis
  proof (cases "len = ?e")
    case True
    then have "ring_write_wrap rb b len = Some (len, ?rb2)"
      using rb1(1) len e bk by (simp add: ring_write_wrap_def Let_def mem_simps)
    then show ?thesis using wf2 c2 rb1 True by auto
  next
    case False
    let ?l = "len - ?e"
    have l: "?e < len" using over False by simp
    have "numBytesUsed rb + numBytesFree rb = totalNumBytes rb" using wf by (simp add: ring_wf_def)
    then have used: "?l < totalNumBytes rb" using len(1) bk by linarith
    have ll: "length (take ?l (drop ?e b)) = ?l" using len over by simp
    have q: "length (take ?l (drop ?e b)) \<le> numBytesFree ?rb2"
        "r_back ?rb2 + length (take ?l (drop ?e b)) \<le> totalNumBytes ?rb2"
      unfolding ll using used len rb1 by simp_all
    obtain rb3 where t3: "ring_put ?rb2 (take ?l (drop ?e b)) = Some rb3" "ring_mid rb3"
      "ring_contents rb3 = ring_contents ?rb2 @ take ?l (drop ?e b)"
      "r_back rb3 = r_back ?rb2 + length (take ?l (drop ?e b))" "r_front rb3 = r_front ?rb2"
      "totalNumBytes rb3 = totalNumBytes ?rb2"
      "numBytesFree rb3 = numBytesFree ?rb2 - length (take ?l (drop ?e b))"
      by (rule ring_put_mid[OF ring_wf_mid[OF wf2] q])
    have rb3: "ring_put ?rb2 (take ?l (drop ?e b)) = Some rb3" "ring_mid rb3"
      "ring_contents rb3 = ring_contents rb @ take ?e b @ take ?l (drop ?e b)"
      "r_back rb3 = ?l" "r_front rb3 = r_front rb" "totalNumBytes rb3 = totalNumBytes rb"
      using t3 rb1(5,6) unfolding ll c2 by simp_all
    have "take ?e b @ take ?l (drop ?e b) = take len b"
      using l by (metis take_add le_add_diff_inverse less_imp_le)
    moreover have "ring_write_wrap rb b len = Some (len, rb3)"
      using rb1(1) rb3(1) l len e by (simp add: ring_write_wrap_def Let_def mem_simps)
    moreover have "ring_wf rb3" using ring_mid_wf[OF rb3(2)] rb3 f used by simp
    ultimately show ?thesis using rb3 by auto
  qed
qed


lemma ring_write_full: "numBytesFree rb < len \<Longrightarrow> ring_write rb b len = Some (0, rb)"
  by (simp add: ring_write_def)

lemma ring_write_spec:
  assumes wf: "ring_wf rb" and buf: "len \<le> length b"
    and nz: "0 < len \<or> 0 < numBytesFree rb"
  shows "\<exists>rb'. ring_write rb b len = Some (if len \<le> numBytesFree rb then len else 0, rb') \<and>
               ring_wf rb' \<and> totalNumBytes rb' = totalNumBytes rb \<and>
               ring_contents rb' =
                 ring_contents rb @ (if len \<le> numBytesFree rb then take len b else [])"
proof (cases "len \<le> numBytesFree rb")
  case False
  then show ?thesis using wf by (simp add: ring_write_def)
next
  case fit: True
  note mid = ring_wf_mid[OF wf]
  have pos: "0 < totalNumBytes rb" using fit nz wf by (auto simp: ring_wf_def)
  then have f: "r_front rb < totalNumBytes rb" and bk: "r_back rb < totalNumBytes rb"
    and e: "r_end rb = totalNumBytes rb"
    and uf: "numBytesUsed rb + numBytesFree rb = totalNumBytes rb"
    using wf by (auto simp: ring_wf_def)
  have flat: "\<exists>rb'. ring_write_flat rb b len = Some (len, rb') \<and> ring_wf rb' \<and>
       totalNumBytes rb' = totalNumBytes rb \<and> ring_contents rb' = ring_contents rb @ take len b"
    if "r_back rb + len < totalNumBytes rb"
    using ring_write_flat_mid[OF mid fit buf] ring_mid_wf f that by (metis less_imp_le)
  note wrap = ring_write_wrap_wf[OF wf fit buf _ pos]
  consider "len = 1" | "len \<noteq> 1" "r_back rb > r_front rb" | "len \<noteq> 1" "r_front rb > r_back rb"
    | "len \<noteq> 1" "r_front rb = r_back rb" by linarith
  then show ?thesis
  proof cases
    case 1
    obtain rb1 where rb1: "ring_write_flat rb b len = Some (len, rb1)" "ring_mid rb1"
      "ring_contents rb1 = ring_contents rb @ take len b"
      "r_back rb1 = r_back rb + len" "r_front rb1 = r_front rb"
      "totalNumBytes rb1 = totalNumBytes rb"
      using ring_write_flat_mid[OF mid fit buf] bk 1 by (metis Suc_eq_plus1 Suc_leI)
    then have "r_end rb1 = totalNumBytes rb" by (simp add: ring_mid_def)
    then show ?thesis
      using 1 rb1 fit f bk ring_wrap_back[OF rb1(2)] ring_mid_wf[OF rb1(2)]
      by (auto simp: ring_write_def)
  next
    case 2
    then show ?thesis using flat wrap fit e by (auto simp: ring_write_def)
  next
    case 3
    then have "len \<le> r_front rb - r_back rb" "r_back rb + len < totalNumBytes rb"
      using mid fit f uf by (auto simp: ring_mid_def)
    then show ?thesis using 3 flat fit by (auto simp: ring_write_def)
  next
    case 4
    then have "numBytesUsed rb = 0 \<or> numBytesUsed rb = totalNumBytes rb"
      using mid by (auto simp: ring_mid_def)
    then have "numBytesUsed rb = 0" and "numBytesFree rb \<noteq> 0"
      using uf fit nz by auto
    then show ?thesis using 4 flat wrap fit e uf by (auto simp: ring_write_def)
  qed
qed


section \<open>Reading\<close>

text \<open>The result every branch of \<open>ring_read\<close> has to produce.\<close>

definition ring_read_result ::
  "ring_t \<Rightarrow> u8 list \<Rightarrow> nat \<Rightarrow> (nat \<times> u8 list \<times> ring_t) option \<Rightarrow> bool" where
  "ring_read_result rb b n res \<longleftrightarrow>
     (\<exists>rb'. res = Some (n, take n (ring_contents rb) @ drop n b, rb') \<and> ring_wf rb' \<and>
            totalNumBytes rb' = totalNumBytes rb \<and>
            ring_contents rb' = drop n (ring_contents rb))"

lemma ring_read_wrap_wf:
  assumes wf: "ring_wf rb" and buf: "len \<le> length b" and ge: "r_back rb \<le> r_front rb"
    and pos: "0 < numBytesUsed rb"
  shows "ring_read_result rb b (min len (numBytesUsed rb)) (ring_read_wrap rb b len)"
proof -
  let ?e = "totalNumBytes rb - r_front rb"
  note mid = ring_wf_mid[OF wf]
  have tp: "0 < totalNumBytes rb" using pos wf by (auto simp: ring_wf_def)
  then have f: "r_front rb < totalNumBytes rb" and bk: "r_back rb < totalNumBytes rb"
    and e: "r_end rb = totalNumBytes rb"
    using wf by (auto simp: ring_wf_def)
  have u: "numBytesUsed rb = ?e + r_back rb"
    using mid ge pos f by (auto simp: ring_mid_def)
  show ?thesis
  proof (cases "len < ?e")
    case True
    then have p: "len \<le> numBytesUsed rb" "r_front rb + len \<le> totalNumBytes rb" "0 + len \<le> length b"
      using u buf by linarith+
    obtain rb' where rb':
      "ring_take rb b 0 len = Some (take 0 b @ take len (ring_contents rb) @ drop (0 + len) b, rb')"
      "ring_mid rb'" "ring_contents rb' = drop len (ring_contents rb)"
      "r_front rb' = r_front rb + len" "r_back rb' = r_back rb"
      "totalNumBytes rb' = totalNumBytes rb" "numBytesUsed rb' = numBytesUsed rb - len"
      by (rule ring_take_mid[OF mid p bk])
    moreover have "ring_wf rb'" using ring_mid_wf[OF rb'(2)] rb' True bk by simp
    ultimately show ?thesis
      using True u e by (auto simp: ring_read_result_def ring_read_wrap_def min_def)
  next
    case False
    then have p: "?e \<le> numBytesUsed rb" "r_front rb + ?e \<le> totalNumBytes rb" "0 + ?e \<le> length b"
      using u buf f by linarith+
    obtain rb1 where t1:
      "ring_take rb b 0 ?e = Some (take 0 b @ take ?e (ring_contents rb) @ drop (0 + ?e) b, rb1)"
      "ring_mid rb1" "ring_contents rb1 = drop ?e (ring_contents rb)"
      "r_front rb1 = r_front rb + ?e" "r_back rb1 = r_back rb"
      "totalNumBytes rb1 = totalNumBytes rb" "numBytesUsed rb1 = numBytesUsed rb - ?e"
      by (rule ring_take_mid[OF mid p bk])
    then have rb1: "ring_take rb b 0 ?e = Some (take ?e (ring_contents rb) @ drop ?e b, rb1)"
      "ring_mid rb1" "ring_contents rb1 = drop ?e (ring_contents rb)"
      "r_front rb1 = totalNumBytes rb" "r_back rb1 = r_back rb"
      "totalNumBytes rb1 = totalNumBytes rb" "numBytesUsed rb1 = r_back rb"
      using f u by simp_all
    let ?rb2 = "rb1\<lparr>r_front := 0\<rparr>" and ?b1 = "take ?e (ring_contents rb) @ drop ?e b"
    have wf2: "ring_wf ?rb2" and c2: "ring_contents ?rb2 = drop ?e (ring_contents rb)"
      using ring_wrap_front[OF rb1(2)] rb1 bk by simp_all
    have lc: "length (ring_contents rb) = ?e + r_back rb"
      using ring_contents_length[OF wf] u by simp
    define n where "n = min (len - ?e) (r_back rb)"
    have mn: "min len (numBytesUsed rb) = ?e + n" using u False by (simp add: n_def)
    show ?thesis
    proof (cases "n = 0")
      case True
      then have "ring_read_wrap rb b len = Some (?e, ?b1, ?rb2)"
        using False rb1 e by (auto simp: ring_read_wrap_def Let_def n_def)
      then show ?thesis using wf2 c2 rb1 True mn by (simp add: ring_read_result_def)
    next
      case nz: False
      have tk: "take ?e ?b1 @ take n (drop ?e (ring_contents rb)) @ drop (?e + n) ?b1 =
                take (?e + n) (ring_contents rb) @ drop (?e + n) b"
      proof -
        have "length (take ?e (ring_contents rb)) = ?e" using lc by simp
        then have "take ?e ?b1 = take ?e (ring_contents rb)" "drop (?e + n) ?b1 = drop (?e + n) b"
          by (simp_all add: add.commute)
        then show ?thesis by (simp only: take_add append_assoc)
      qed
      have q: "n \<le> numBytesUsed ?rb2" "r_front ?rb2 + n \<le> totalNumBytes ?rb2"
          "?e + n \<le> length ?b1" "r_back ?rb2 < totalNumBytes ?rb2"
        using rb1 bk lc False buf by (simp_all add: n_def)
      obtain rb3 where t3: "ring_take ?rb2 ?b1 ?e n =
          Some (take ?e ?b1 @ take n (ring_contents ?rb2) @ drop (?e + n) ?b1, rb3)"
        "ring_mid rb3" "ring_contents rb3 = drop n (ring_contents ?rb2)"
        "r_front rb3 = r_front ?rb2 + n" "r_back rb3 = r_back ?rb2"
        "totalNumBytes rb3 = totalNumBytes ?rb2" "numBytesUsed rb3 = numBytesUsed ?rb2 - n"
        by (rule ring_take_mid[OF ring_wf_mid[OF wf2] q])
      then have rb3: "ring_take ?rb2 ?b1 ?e n =
          Some (take ?e ?b1 @ take n (drop ?e (ring_contents rb)) @ drop (?e + n) ?b1, rb3)"
        "ring_mid rb3" "ring_contents rb3 = drop n (drop ?e (ring_contents rb))"
        "r_front rb3 = n" "r_back rb3 = r_back rb" "totalNumBytes rb3 = totalNumBytes rb"
        using rb1 c2 by simp_all
      have "ring_read_wrap rb b len = Some (?e + n, take (?e + n) (ring_contents rb) @ drop (?e + n) b, rb3)"
        using rb1 rb3(1) nz e False unfolding tk
        by (auto simp: ring_read_wrap_def Let_def n_def)
      moreover have "ring_wf rb3" using ring_mid_wf[OF rb3(2)] rb3 bk by (simp add: n_def)
      ultimately show ?thesis using rb3 mn by (simp add: ring_read_result_def add.commute)
    qed
  qed
qed


lemma ring_read_spec:
  assumes wf: "ring_wf rb" and buf: "len \<le> length b"
  shows "ring_read_result rb b (min len (numBytesUsed rb)) (ring_read rb b len)"
proof (cases "numBytesUsed rb = 0")
  case True
  then show ?thesis using wf by (simp add: ring_read_result_def ring_read_def)
next
  case False
  note mid = ring_wf_mid[OF wf]
  have "0 < totalNumBytes rb" using False wf by (auto simp: ring_wf_def)
  then have f: "r_front rb < totalNumBytes rb" and bk: "r_back rb < totalNumBytes rb"
    and e: "r_end rb = totalNumBytes rb"
    and uf: "numBytesUsed rb + numBytesFree rb = totalNumBytes rb"
    using wf by (auto simp: ring_wf_def)
  note wrap = ring_read_wrap_wf[OF wf buf]
  consider "len = 1" | "len \<noteq> 1" "r_back rb > r_front rb" | "len \<noteq> 1" "r_back rb \<le> r_front rb"
    by linarith
  then show ?thesis
  proof cases
    case 1
    have p: "1 \<le> numBytesUsed rb" "r_front rb + 1 \<le> totalNumBytes rb" "0 + 1 \<le> length b"
      using False f buf 1 by simp_all
    obtain rb1 where rb1:
      "ring_take rb b 0 1 = Some (take 0 b @ take 1 (ring_contents rb) @ drop (0 + 1) b, rb1)"
      "ring_mid rb1" "ring_contents rb1 = drop 1 (ring_contents rb)"
      "r_front rb1 = r_front rb + 1" "r_back rb1 = r_back rb"
      "totalNumBytes rb1 = totalNumBytes rb" "numBytesUsed rb1 = numBytesUsed rb - 1"
      by (rule ring_take_mid[OF mid p bk])
    have "r_end rb1 = totalNumBytes rb" using rb1 by (simp add: ring_mid_def)
    then show ?thesis
      using 1 False rb1 f bk p(1) ring_wrap_front[OF rb1(2)] ring_mid_wf[OF rb1(2)]
      by (auto simp: ring_read_def ring_read_result_def min_def)
  next
    case 2
    have u: "r_back rb - r_front rb = numBytesUsed rb"
      using mid 2 f uf bk by (auto simp: ring_mid_def)
    let ?n = "min len (numBytesUsed rb)"
    have n: "(if len < r_back rb - r_front rb then len else r_back rb - r_front rb) = ?n"
      unfolding u by simp
    have p: "?n \<le> numBytesUsed rb" "r_front rb + ?n \<le> totalNumBytes rb" "0 + ?n \<le> length b"
      using u bk buf 2(2) by (auto simp: min_def)
    obtain rb1 where rb1:
      "ring_take rb b 0 ?n = Some (take 0 b @ take ?n (ring_contents rb) @ drop (0 + ?n) b, rb1)"
      "ring_mid rb1" "ring_contents rb1 = drop ?n (ring_contents rb)"
      "r_front rb1 = r_front rb + ?n" "r_back rb1 = r_back rb"
      "totalNumBytes rb1 = totalNumBytes rb" "numBytesUsed rb1 = numBytesUsed rb - ?n"
      by (rule ring_take_mid[OF mid p bk])
    have "r_front rb + ?n < totalNumBytes rb" using u bk 2(2) by (auto simp: min_def)
    then have "ring_wf rb1" using ring_mid_wf[OF rb1(2)] rb1 bk by simp
    moreover have "ring_read rb b len =
        Some (?n, take ?n (ring_contents rb) @ drop ?n b, rb1)"
      using 2 False rb1(1) unfolding ring_read_def n by (simp add: Let_def)
    ultimately show ?thesis using rb1 by (simp add: ring_read_result_def)
  next
    case 3
    have "r_front rb = r_back rb \<Longrightarrow> numBytesFree rb = 0"
      using mid False uf by (auto simp: ring_mid_def)
    then have "ring_read rb b len = ring_read_wrap rb b len"
      using 3 False by (auto simp: ring_read_def)
    then show ?thesis using wrap 3 False by simp
  qed
qed

section \<open>The ring buffer is a byte queue\<close>

interpretation ring_fifo: byte_fifo ring_wf ring_contents totalNumBytes ring_write ring_read
proof
  fix r assume "ring_wf r"
  then show "length (ring_contents r) \<le> totalNumBytes r"
    by (simp add: ring_contents_length) (simp add: ring_wf_def)
next
  fix r and b :: "u8 list" and n
  assume a: "ring_wf r" "n \<le> length b" "0 < n" "length (ring_contents r) + n \<le> totalNumBytes r"
  then have "n \<le> numBytesFree r"
    by (simp add: ring_contents_length) (simp add: ring_wf_def)
  then show "\<exists>r'. ring_write r b n = Some (n, r') \<and> ring_wf r' \<and>
      totalNumBytes r' = totalNumBytes r \<and> ring_contents r' = ring_contents r @ take n b"
    using ring_write_spec[of r n b] a by auto
next
  fix r and b :: "u8 list" and n
  assume a: "ring_wf r" "totalNumBytes r < length (ring_contents r) + n"
  then have "n > numBytesFree r"
    by (simp add: ring_contents_length) (simp add: ring_wf_def)
  then show "ring_write r b n = Some (0, r)"
    by (simp add: ring_write_def)
next
  fix r and b :: "u8 list" and n
  assume "ring_wf r" "n \<le> length b"
  then show "\<exists>r'. ring_read r b n =
      Some (min n (length (ring_contents r)),
            take n (ring_contents r) @ drop (min n (length (ring_contents r))) b, r') \<and>
      ring_wf r' \<and> totalNumBytes r' = totalNumBytes r \<and>
      ring_contents r' = drop n (ring_contents r)"
    using ring_read_spec[of r n b] ring_contents_length[of r]
    by (auto simp: ring_read_result_def min_def split: if_splits)
qed


section \<open>Properties\<close>

text \<open>
  C16. On a well-formed ring, \<open>ring_write\<close> of a non-empty block returns normally (no assertion
  fails, no byte outside the buffer is touched): when the block fits, all of it is appended to
  the stored bytes and its length is returned, otherwise the ring is unchanged and 0 is returned;
  the invariant is kept.
\<close>
theorem ring_write_correct:
  assumes "ring_wf rb" and "0 < len" and "len \<le> length b"
  shows "\<exists>rb'. ring_write rb b len = Some (if len \<le> numBytesFree rb then len else 0, rb') \<and>
               ring_wf rb' \<and> (numBytesFree rb < len \<longrightarrow> rb' = rb) \<and>
               ring_contents rb' =
                 ring_contents rb @ (if len \<le> numBytesFree rb then take len b else [])"
  using ring_write_spec[OF assms(1,3)] assms(2) ring_write_full[of rb len b]
  by (cases "len \<le> numBytesFree rb") auto

text \<open>The ring of the examples: capacity 4, two bytes stored, the free space wraps.\<close>

definition ring_ex :: ring_t where
  "ring_ex = \<lparr>totalNumBytes = 4, numBytesUsed = 2, numBytesFree = 2,
              r_mem = [0, 7, 8, 0], r_end = 4, r_front = 1, r_back = 3\<rparr>"

lemma ring_ex_wf: "ring_wf ring_ex"
  by (simp add: ring_wf_def ring_ex_def)

lemma ring_ex_contents: "ring_contents ring_ex = [7, 8]"
  by (simp add: ring_contents_def circ_def ring_ex_def)

theorem ring_write_correct_witness:
  "\<exists>rb'. ring_write ring_ex [5, 6] 2 = Some (2, rb') \<and> ring_contents rb' = [7, 8, 5, 6]"
proof -
  have "numBytesFree ring_ex = 2" by (simp add: ring_ex_def)
  moreover have "2 \<le> length [5, 6 :: u8]" by simp
  ultimately show ?thesis
    using ring_write_correct[OF ring_ex_wf, of 2 "[5, 6]"] by (auto simp: ring_ex_contents)
qed

text \<open>
  C17. On a well-formed ring, \<open>ring_read\<close> into a buffer of at least \<open>len\<close> bytes returns normally,
  delivers the oldest \<open>min len used\<close> bytes at the start of the caller's buffer, leaves the rest of
  that buffer alone, removes exactly those bytes from the ring, and keeps the invariant.
\<close>
theorem ring_read_correct:
  assumes "ring_wf rb" and "len \<le> length b" and "n = min len (numBytesUsed rb)"
  shows "\<exists>rb'. ring_read rb b len = Some (n, take n (ring_contents rb) @ drop n b, rb') \<and>
               ring_wf rb' \<and> ring_contents rb' = drop n (ring_contents rb)"
  using ring_read_spec[OF assms(1,2)] assms(3) by (auto simp: ring_read_result_def)

theorem ring_read_correct_witness:
  "\<exists>rb'. ring_read ring_ex [0, 0, 0] 3 = Some (2, [7, 8, 0], rb') \<and> ring_contents rb' = []"
proof -
  have n: "2 = min 3 (numBytesUsed ring_ex)" by (simp add: ring_ex_def)
  have l: "3 \<le> length [0, 0, 0 :: u8]" by simp
  show ?thesis
    using ring_read_correct[OF ring_ex_wf l n] by (auto simp: ring_ex_contents)
qed

text \<open>
  A ring that was just created with room for them takes any sequence of equally long
  messages, one \<open>ring_write\<close> each, and gives them back in the same order, one \<open>ring_read\<close> each.
\<close>
theorem ring_fifo_order:
  assumes "ring_create True True nbytes = Some rb" and "nbytes < size_max"
    and "\<forall>m \<in> set ms. length m = k" and "0 < k" and "k * length ms \<le> nbytes" and "length b = k"
  shows "\<exists>r1 r2. put_msgs ring_write k rb ms = Some r1 \<and>
                 get_msgs ring_read b k r1 (length ms) = Some (ms, r2) \<and> ring_contents r2 = []"
  using ring_fifo.fifo_roundtrip[of rb ms k b] ring_create_wf[OF assms(2,1)] assms(3-6) by auto

theorem ring_fifo_order_witness:
  "\<exists>rb r1 r2. ring_create True True 5 = Some rb \<and>
     put_msgs ring_write 2 rb [[1, 2], [3, 4]] = Some r1 \<and>
     get_msgs ring_read [0, 0] 2 r1 (length [[1, 2], [3, 4 :: u8]]) = Some ([[1, 2], [3, 4]], r2)"
proof -
  obtain rb where rb: "ring_create True True 5 = Some rb" by (simp add: ring_create_def)
  have "\<exists>r1 r2. put_msgs ring_write 2 rb [[1, 2], [3, 4]] = Some r1 \<and>
     get_msgs ring_read [0, 0] 2 r1 (length [[1, 2], [3, 4 :: u8]]) = Some ([[1, 2], [3, 4]], r2) \<and>
     ring_contents r2 = []"
    by (rule ring_fifo_order[OF rb]) simp_all
  with rb show ?thesis by blast
qed

end
