(* ===== verification/Sosal_Event.thy ===== *)
theory Sosal_Event
  imports Dvp_Prelude
begin

text \<open>
  Events of \<open>source/sosal/event.c\<close>, POSIX branch. The mutex and the condition variable inside
  \<open>event_t\<close> are pthread objects; what the code keeps itself is the pair of flags. A wait sleeps in
  \<open>pthread_cond_wait\<close> or \<open>pthread_cond_timedwait\<close> while other threads run: \<open>wake\<close> is the return
  code of that call together with the flag \<open>set\<close> as the other threads left it.
\<close>

record event_t =
  ev_set :: bool
  ev_autoreset :: bool

datatype wait_rc = ESUCCESS | ETIMEDOUT | EOTHER

definition event_init :: "bool \<Rightarrow> event_t" where
  "event_init autoreset = \<lparr>ev_set = False, ev_autoreset = autoreset\<rparr>"

definition event_set :: "event_t \<Rightarrow> event_t" where
  "event_set e = e\<lparr>ev_set := True\<rparr>"

definition event_reset :: "event_t \<Rightarrow> event_t" where
  "event_reset e = e\<lparr>ev_set := False\<rparr>"

definition event_timed_wait :: "wait_rc \<Rightarrow> event_t \<Rightarrow> bool" where
  "event_timed_wait retcode e =
     (if retcode = ETIMEDOUT \<and> \<not> ev_set e then False
      else if retcode = ETIMEDOUT \<and> ev_set e then True
      else if retcode = ESUCCESS \<and> \<not> ev_set e then False
      else if retcode = ESUCCESS \<and> ev_set e then True
      else False)"

definition event_wait :: "wait_rc \<times> bool \<Rightarrow> event_t \<Rightarrow> bool \<times> event_t" where
  "event_wait wake e =
     (let woken = e\<lparr>ev_set := snd wake\<rparr>; ret = event_timed_wait (fst wake) woken in
      if \<not> ev_autoreset e then
        (if \<not> ev_set e then (ret, woken) else (True, e))
      else if ret \<and> ev_set woken then (ret, woken\<lparr>ev_set := False\<rparr>)
      else if ret \<and> \<not> ev_set woken then (False, woken)
      else (ret, woken))"

text \<open>
  The absolute deadline of a timed wait. \<open>now\<close> is what \<open>gettimeofday\<close> returned, as seconds and
  microseconds.
\<close>

record timespec =
  tv_sec :: int
  tv_nsec :: int

definition milliseconds_from_now :: "int \<times> int \<Rightarrow> nat \<Rightarrow> timespec" where
  "milliseconds_from_now now milliseconds =
     (let sec = fst now + int (milliseconds div 1000);
          nsec = snd now * 1000 + int (milliseconds mod 1000) * 1000000 in
      if nsec > 1000000000
      then \<lparr>tv_sec = sec + 1, tv_nsec = nsec - 1000000000\<rparr>
      else \<lparr>tv_sec = sec, tv_nsec = nsec\<rparr>)"

section \<open>Laws of events\<close>

lemma event_set_simps [simp]:
  "ev_set (event_set e)" "\<not> ev_set (event_reset e)" "\<not> ev_set (event_init a)"
  "ev_autoreset (event_set e) = ev_autoreset e" "ev_autoreset (event_reset e) = ev_autoreset e"
  "ev_autoreset (event_init a) = a"
  by (simp_all add: event_set_def event_reset_def event_init_def)

text \<open>A wait on an event returns true only when the event was seen set.\<close>

lemma event_wait_true:
  "fst (event_wait wake e) \<Longrightarrow> (\<not> ev_autoreset e \<and> ev_set e) \<or> (fst wake \<noteq> EOTHER \<and> snd wake)"
  by (auto simp: event_wait_def event_timed_wait_def Let_def split: if_splits)

lemma event_wait_manual_keeps:
  "\<not> ev_autoreset e \<Longrightarrow> ev_set e \<Longrightarrow> event_wait wake e = (True, e)"
  by (simp add: event_wait_def)

lemma event_wait_auto_consumes:
  "ev_autoreset e \<Longrightarrow> event_wait wake e = (True, e') \<Longrightarrow> \<not> ev_set e'"
  by (auto simp: event_wait_def event_timed_wait_def Let_def split: if_splits)

text \<open>The deadline is the current time plus the timeout, in nanoseconds.\<close>

lemma milliseconds_from_now_sum:
  "tv_sec (milliseconds_from_now now ms) * 1000000000 + tv_nsec (milliseconds_from_now now ms) =
   fst now * 1000000000 + snd now * 1000 + int ms * 1000000"
proof -
  have "int ms = int (ms div 1000) * 1000 + int (ms mod 1000)"
    by (metis (no_types) div_mult_mod_eq of_nat_add of_nat_mult of_nat_numeral)
  then show ?thesis by (simp add: milliseconds_from_now_def Let_def)
qed

lemma milliseconds_from_now_range:
  assumes "0 \<le> snd now" "snd now < 1000000"
  shows "0 \<le> tv_nsec (milliseconds_from_now now ms)"
    "tv_nsec (milliseconds_from_now now ms) \<le> 1000000000"
proof -
  have "ms mod 1000 < 1000" by simp
  then have "int (ms mod 1000) \<le> 999" by linarith
  then show "0 \<le> tv_nsec (milliseconds_from_now now ms)"
    "tv_nsec (milliseconds_from_now now ms) \<le> 1000000000"
    using assms by (auto simp: milliseconds_from_now_def Let_def)
qed

text \<open>
  The deadline of a timed wait is the current time plus the timeout, exactly.
\<close>

theorem deadline_exact:
  "tv_sec (milliseconds_from_now now ms) * 1000000000 + tv_nsec (milliseconds_from_now now ms) =
   fst now * 1000000000 + snd now * 1000 + int ms * 1000000"
  by (rule milliseconds_from_now_sum)

text \<open>
  The carry of the deadline tests for more than a second: half a second added to a time at half a
  second gives a nanosecond field of a whole second, which POSIX rejects.
\<close>

theorem deadline_unnormalised:
  "tv_nsec (milliseconds_from_now (7, 500000) 500) = 1000000000"
  by (simp add: milliseconds_from_now_def)

end
