(* ===== verification/Sosal_Queue.thy ===== *)
theory Sosal_Queue
  imports Sosal_Ring Sosal_Event
begin

text \<open>
  The message queue of \<open>source/sosal/queue.c\<close>: a ring buffer of fixed-size messages, a mutex and
  two manual-reset events. Every operation is split where the code takes the mutex: the part
  between \<open>mutex_lock\<close> and \<open>mutex_unlock\<close> is one function on \<open>queue_t\<close> (atomic), the wait before
  it is the guard on the event. \<open>queue_write\<close> and \<open>queue_read\<close> put the two parts together for one
  thread; the step relation \<open>qstep\<close> interleaves any number of threads.
\<close>

section \<open>The queue structure and its operations\<close>

record queue_t =
  q_active :: bool
  q_popped :: bool
  q_ringb :: ring_t
  q_msgSize :: nat
  q_numMsgs :: nat
  q_msgCount :: nat
  q_readEvent :: event_t
  q_writeEvent :: event_t

text \<open>
  \<open>ok_q\<close>, \<open>ok_rb\<close> and \<open>ok_buf\<close> are the outcomes of the three allocations. When the ring buffer
  cannot be allocated the code destroys the queue and still returns its address.
\<close>

definition queue_create :: "bool \<Rightarrow> bool \<Rightarrow> bool \<Rightarrow> nat \<Rightarrow> nat \<Rightarrow> queue_t cptr" where
  "queue_create ok_q ok_rb ok_buf numMsgs msgSize =
     (if \<not> ok_q then Null
      else case ring_create ok_rb ok_buf (size_mul msgSize numMsgs) of
        None \<Rightarrow> Freed
      | Some rb \<Rightarrow> Live \<lparr>q_active = True, q_popped = False, q_ringb = rb, q_msgSize = msgSize,
                        q_numMsgs = numMsgs, q_msgCount = 0,
                        q_readEvent = event_reset (event_init False),
                        q_writeEvent = event_set (event_init False)\<rparr>)"

definition queue_length :: "queue_t \<Rightarrow> nat" where
  "queue_length q = q_msgCount q"

text \<open>
  The critical sections of \<open>queue_write\<close> and \<open>queue_read\<close>. \<open>ret\<close> is the local variable as the wait
  left it: true after a blocking wait, false otherwise.
\<close>

definition queue_write_crit :: "queue_t \<Rightarrow> bool \<Rightarrow> u8 list \<Rightarrow> (bool \<times> queue_t) option" where
  "queue_write_crit q ret datum =
     (if q_active q \<and> \<not> q_popped q then do {
        (r, rb) \<leftarrow> ring_write (q_ringb q) datum (q_msgSize q);
        let wrote = (r = q_msgSize q);
        Some (wrote, q\<lparr>
          q_ringb := rb,
          q_msgCount := (if wrote then size_add (q_msgCount q) 1 else q_msgCount q),
          q_writeEvent := (if numBytesFree rb > 0 then event_set (q_writeEvent q)
                           else event_reset (q_writeEvent q)),
          q_readEvent := (if numBytesUsed rb > 0 then event_set (q_readEvent q)
                          else q_readEvent q)\<rparr>) }
      else if q_popped q then Some (False, q)
      else Some (ret, q))"

definition queue_read_crit :: "queue_t \<Rightarrow> bool \<Rightarrow> u8 list \<Rightarrow> (bool \<times> u8 list \<times> queue_t) option" where
  "queue_read_crit q ret datum =
     (if q_active q \<and> \<not> q_popped q then do {
        (r, datum', rb) \<leftarrow> ring_read (q_ringb q) datum (q_msgSize q);
        let got = (r = q_msgSize q);
        Some (got, datum', q\<lparr>
          q_ringb := rb,
          q_msgCount := (if got then size_sub (q_msgCount q) 1 else q_msgCount q),
          q_writeEvent := (if numBytesFree rb > 0 then event_set (q_writeEvent q)
                           else q_writeEvent q),
          q_readEvent := (if numBytesUsed rb > 0 then event_set (q_readEvent q)
                          else event_reset (q_readEvent q))\<rparr>) }
      else if q_popped q then Some (False, datum, q)
      else Some (ret, datum, q))"

text \<open>
  The whole calls, for one thread alone: a blocking call on an event that is not set sleeps until
  some other thread sets it. \<open>None\<close> for the datum is the null pointer.
\<close>

definition queue_write :: "queue_t \<Rightarrow> bool \<Rightarrow> u8 list option \<Rightarrow> (bool \<times> queue_t) option call" where
  "queue_write q blocking datum = (case datum of
       None \<Rightarrow> Returns (Some (False, q))
     | Some d \<Rightarrow>
         if blocking \<and> \<not> ev_set (q_writeEvent q) then Blocks
         else Returns (queue_write_crit q blocking d))"

definition queue_read ::
  "queue_t \<Rightarrow> bool \<Rightarrow> u8 list option \<Rightarrow> (bool \<times> u8 list option \<times> queue_t) option call" where
  "queue_read q blocking datum = (case datum of
       None \<Rightarrow> Returns (Some (False, None, q))
     | Some d \<Rightarrow>
         if blocking \<and> \<not> ev_set (q_readEvent q) then Blocks
         else Returns (map_option (\<lambda>(b, d', q'). (b, Some d', q')) (queue_read_crit q blocking d)))"

definition queue_enable :: "queue_t \<Rightarrow> queue_t" where
  "queue_enable q =
     (if \<not> q_active q then
        q\<lparr>q_writeEvent := (if numBytesFree (q_ringb q) > 0 then event_set (q_writeEvent q)
                           else q_writeEvent q),
          q_readEvent := (if numBytesUsed (q_ringb q) > 0 then event_set (q_readEvent q)
                          else q_readEvent q),
          q_active := True\<rparr>
      else q)"

definition queue_disable :: "queue_t \<Rightarrow> queue_t" where
  "queue_disable q =
     (if q_active q then
        q\<lparr>q_readEvent := event_reset (q_readEvent q),
          q_writeEvent := event_reset (q_writeEvent q), q_active := False\<rparr>
      else q)"

definition queue_pop :: "queue_t \<Rightarrow> queue_t" where
  "queue_pop q = q\<lparr>q_popped := True, q_readEvent := event_set (q_readEvent q),
                   q_writeEvent := event_set (q_writeEvent q)\<rparr>"

definition queue_unpop :: "queue_t \<Rightarrow> queue_t" where
  "queue_unpop q = q\<lparr>
     q_popped := False,
     q_readEvent := (if numBytesUsed (q_ringb q) > 0
                     then event_set (event_reset (q_readEvent q))
                     else event_reset (q_readEvent q)),
     q_writeEvent := (if numBytesFree (q_ringb q) > 0
                      then event_set (event_reset (q_writeEvent q))
                      else event_reset (q_writeEvent q))\<rparr>"

text \<open>
  \<open>queue_reset\<close>: when the new ring cannot be allocated, the code unlocks the mutex of a queue it
  has just set to null, which faults.
\<close>

definition queue_reset :: "bool \<Rightarrow> bool \<Rightarrow> queue_t \<Rightarrow> queue_t option" where
  "queue_reset ok_rb ok_buf q =
     (case ring_create ok_rb ok_buf (size_mul (q_msgSize q) (q_numMsgs q)) of
        None \<Rightarrow> None
      | Some rb \<Rightarrow> Some (q\<lparr>q_active := True, q_popped := False, q_ringb := rb,
                           q_writeEvent := event_set (q_writeEvent q),
                           q_readEvent := event_reset (q_readEvent q)\<rparr>))"

section \<open>Invariant and abstraction\<close>

text \<open>\<open>queue_abs q ms\<close>: the queue holds the messages \<open>ms\<close>, oldest first, and counts them.\<close>

definition queue_abs :: "queue_t \<Rightarrow> u8 list list \<Rightarrow> bool" where
  "queue_abs q ms \<longleftrightarrow>
     ring_wf (q_ringb q) \<and> 0 < q_msgSize q \<and>
     is_msgs (q_msgSize q) ms (ring_contents (q_ringb q)) \<and> q_msgCount q = length ms"

text \<open>
  The two events tell the truth about the ring while the queue is in use; a disabled queue never
  signals what is not there.
\<close>

definition queue_events_ok :: "queue_t \<Rightarrow> bool" where
  "queue_events_ok q \<longleftrightarrow>
     (q_active q \<and> \<not> q_popped q \<longrightarrow>
        ev_set (q_readEvent q) = (numBytesUsed (q_ringb q) > 0) \<and>
        ev_set (q_writeEvent q) = (numBytesFree (q_ringb q) > 0)) \<and>
     (\<not> q_active q \<and> \<not> q_popped q \<longrightarrow>
        (ev_set (q_readEvent q) \<longrightarrow> numBytesUsed (q_ringb q) > 0) \<and>
        (ev_set (q_writeEvent q) \<longrightarrow> numBytesFree (q_ringb q) > 0))"

definition queue_room :: "queue_t \<Rightarrow> u8 list list \<Rightarrow> bool" where
  "queue_room q ms \<longleftrightarrow> q_msgSize q * Suc (length ms) \<le> totalNumBytes (q_ringb q)"

lemma queue_abs_count:
  assumes "queue_abs q ms" shows "length ms < size_max"
proof -
  have "length (ring_contents (q_ringb q)) < size_max"
    using assms ring_contents_length[of "q_ringb q"] by (auto simp: queue_abs_def ring_wf_def)
  moreover have "length (ring_contents (q_ringb q)) = q_msgSize q * length ms"
    using assms by (auto simp: queue_abs_def is_msgs_length)
  moreover have "length ms \<le> q_msgSize q * length ms"
    using assms by (simp add: queue_abs_def)
  ultimately show ?thesis by linarith
qed

lemma queue_abs_Nil_used: "queue_abs q ms \<Longrightarrow> (numBytesUsed (q_ringb q) = 0) = (ms = [])"
  using ring_contents_length[of "q_ringb q"] is_msgs_length[of "q_msgSize q" ms]
  by (auto simp: queue_abs_def)

lemma queue_create_ok:
  assumes "queue_create a b c numMsgs msgSize = Live q" "0 < msgSize" "0 < numMsgs"
    and "msgSize * numMsgs < size_max"
  shows "queue_abs q [] \<and> queue_events_ok q \<and> totalNumBytes (q_ringb q) = msgSize * numMsgs"
proof -
  obtain rb where rb: "ring_create b c (msgSize * numMsgs) = Some rb"
    and q: "q_ringb q = rb" "q_active q" "\<not> q_popped q" "q_msgCount q = 0" "q_msgSize q = msgSize"
      "\<not> ev_set (q_readEvent q)" "ev_set (q_writeEvent q)"
    using assms by (auto simp: queue_create_def size_mul_eq split: if_splits option.splits)
  have "numBytesUsed rb = 0" "numBytesFree rb = msgSize * numMsgs"
    using rb by (auto simp: ring_create_def split: if_splits)
  then show ?thesis
    using ring_create_wf[OF assms(4) rb] q assms(2,3) by (simp add: queue_abs_def queue_events_ok_def)
qed


section \<open>The operations on the abstract message list\<close>

abbreviation queue_usable :: "queue_t \<Rightarrow> bool" where
  "queue_usable q \<equiv> q_active q \<and> \<not> q_popped q"

lemma queue_write_room:
  assumes abs: "queue_abs q ms" and use: "queue_usable q" and d: "length d = q_msgSize q"
    and room: "queue_room q ms"
  shows "\<exists>q'. queue_write_crit q ret d = Some (True, q') \<and> queue_abs q' (ms @ [d]) \<and>
              totalNumBytes (q_ringb q') = totalNumBytes (q_ringb q)"
proof -
  let ?k = "q_msgSize q"
  obtain rb where rb: "ring_write (q_ringb q) d ?k = Some (?k, rb)" "ring_wf rb"
    "totalNumBytes rb = totalNumBytes (q_ringb q)" "is_msgs ?k (ms @ [d]) (ring_contents rb)"
    using ring_fifo.put_msg[of "q_ringb q" ?k ms d] abs d room
    by (auto simp: queue_abs_def queue_room_def)
  have c: "length (ring_contents rb) = ?k * Suc (length ms)"
    using is_msgs_length[OF rb(4)] by simp
  have "Suc (length ms) < size_max"
    using c rb(2) ring_contents_length[OF rb(2)] abs
    by (cases ?k) (auto simp: ring_wf_def queue_abs_def)
  then have "size_add (q_msgCount q) 1 = Suc (length ms)"
    using abs by (simp add: queue_abs_def size_add_eq)
  then show ?thesis using rb use abs by (simp add: queue_write_crit_def queue_abs_def Let_def)
qed

lemma queue_write_full:
  assumes abs: "queue_abs q ms" and use: "queue_usable q" and full: "\<not> queue_room q ms"
  shows "\<exists>q'. queue_write_crit q ret d = Some (False, q') \<and> queue_abs q' ms \<and> q_ringb q' = q_ringb q"
proof -
  have "ring_write (q_ringb q) d (q_msgSize q) = Some (0, q_ringb q)"
    using ring_fifo.put_msg_full[of "q_ringb q" "q_msgSize q" ms d] abs full
    by (auto simp: queue_abs_def queue_room_def)
  then show ?thesis using use abs by (simp add: queue_write_crit_def queue_abs_def Let_def)
qed

lemma queue_read_some:
  assumes abs: "queue_abs q (m # ms)" and use: "queue_usable q" and d: "length d = q_msgSize q"
  shows "\<exists>q'. queue_read_crit q ret d = Some (True, m, q') \<and> queue_abs q' ms \<and>
              totalNumBytes (q_ringb q') = totalNumBytes (q_ringb q)"
proof -
  let ?k = "q_msgSize q"
  obtain rb where rb: "ring_read (q_ringb q) d ?k = Some (?k, m, rb)" "ring_wf rb"
    "totalNumBytes rb = totalNumBytes (q_ringb q)" "is_msgs ?k ms (ring_contents rb)"
    using ring_fifo.get_msg[of "q_ringb q" ?k m ms d] abs d by (auto simp: queue_abs_def)
  have "size_sub (q_msgCount q) 1 = length ms"
    using queue_abs_count[OF abs] abs by (simp add: queue_abs_def size_sub_eq)
  then show ?thesis using rb use abs by (simp add: queue_read_crit_def queue_abs_def Let_def)
qed

lemma queue_read_none:
  assumes abs: "queue_abs q []" and use: "queue_usable q" and d: "length d = q_msgSize q"
  shows "\<exists>q'. queue_read_crit q ret d = Some (False, d, q') \<and> queue_abs q' [] \<and>
              totalNumBytes (q_ringb q') = totalNumBytes (q_ringb q)"
proof -
  obtain rb where "ring_read (q_ringb q) d (q_msgSize q) = Some (0, d, rb)" "ring_wf rb"
    "totalNumBytes rb = totalNumBytes (q_ringb q)" "ring_contents rb = []"
    using ring_fifo.get_msg_empty[of "q_ringb q" d "q_msgSize q"] abs d by (auto simp: queue_abs_def)
  then show ?thesis using use abs by (simp add: queue_read_crit_def queue_abs_def Let_def)
qed

text \<open>The events keep telling the truth, whichever operation runs.\<close>

lemma queue_write_events:
  assumes "queue_events_ok q" "queue_write_crit q ret d = Some (b, q')"
    and "\<And>r rb. ring_write (q_ringb q) d (q_msgSize q) = Some (r, rb) \<Longrightarrow>
           numBytesUsed (q_ringb q) \<le> numBytesUsed rb"
  shows "queue_events_ok q'"
  using assms
  by (fastforce simp: queue_events_ok_def queue_write_crit_def Let_def
      split: if_splits Option.bind_splits)

lemma queue_read_events:
  assumes "queue_events_ok q" "queue_read_crit q ret d = Some (b, d', q')"
    and "\<And>r b rb. ring_read (q_ringb q) d (q_msgSize q) = Some (r, b, rb) \<Longrightarrow>
           numBytesFree (q_ringb q) \<le> numBytesFree rb"
  shows "queue_events_ok q'"
  using assms
  by (fastforce simp: queue_events_ok_def queue_read_crit_def Let_def
      split: if_splits Option.bind_splits)

lemma queue_ctl_events:
  "queue_events_ok q \<Longrightarrow> queue_events_ok (queue_enable q)"
  "queue_events_ok q \<Longrightarrow> queue_events_ok (queue_disable q)"
  "queue_events_ok q \<Longrightarrow> queue_events_ok (queue_pop q)"
  "queue_events_ok (queue_unpop q)"
  by (auto simp: queue_events_ok_def queue_enable_def queue_disable_def queue_pop_def
      queue_unpop_def)

lemma queue_ctl_abs:
  "queue_abs (queue_enable q) ms = queue_abs q ms"
  "queue_abs (queue_disable q) ms = queue_abs q ms"
  "queue_abs (queue_pop q) ms = queue_abs q ms"
  "queue_abs (queue_unpop q) ms = queue_abs q ms"
  by (simp_all add: queue_abs_def queue_enable_def queue_disable_def queue_pop_def queue_unpop_def)


text \<open>One critical section, on every branch: what it returns and what it leaves behind.\<close>

definition queue_ok :: "nat \<Rightarrow> queue_t \<Rightarrow> u8 list list \<Rightarrow> bool" where
  "queue_ok k q ms \<longleftrightarrow> queue_abs q ms \<and> queue_events_ok q \<and> q_msgSize q = k"

lemma queue_write_step:
  assumes ok: "queue_ok k q ms" and d: "length d = k"
  shows "\<exists>b q'. queue_write_crit q ret d = Some (b, q') \<and>
                queue_ok k q' (if b \<and> queue_usable q then ms @ [d] else ms) \<and>
                (queue_usable q \<longrightarrow> b = queue_room q ms) \<and> (\<not> queue_usable q \<longrightarrow> q' = q)"
proof (cases "queue_usable q")
  case False
  then show ?thesis using ok by (auto simp: queue_write_crit_def)
next
  case use: True
  have abs: "queue_abs q ms" and ev: "queue_events_ok q" and k: "q_msgSize q = k"
    using ok by (simp_all add: queue_ok_def)
  obtain b q' where w: "queue_write_crit q ret d = Some (b, q')" and b: "b = queue_room q ms"
    and abs': "queue_abs q' (if b then ms @ [d] else ms)"
    using queue_write_room[OF abs use, of d ret] queue_write_full[OF abs use, of ret d] d k
    by (cases "queue_room q ms") auto
  have u: "numBytesUsed (q_ringb q) \<le> numBytesUsed (q_ringb q')"
    using abs abs' ring_contents_length[of "q_ringb q"] ring_contents_length[of "q_ringb q'"] w
      is_msgs_length[of _ _ "ring_contents (q_ringb q)"]
      is_msgs_length[of _ _ "ring_contents (q_ringb q')"]
    by (auto simp: queue_abs_def queue_write_crit_def Let_def split: if_splits Option.bind_splits)
  have "queue_events_ok q'"
    by (rule queue_write_events[OF ev w]) (use w use u in \<open>simp add: queue_write_crit_def Let_def; auto\<close>)
  moreover have "q_msgSize q' = k"
    using w k by (auto simp: queue_write_crit_def Let_def split: if_splits Option.bind_splits)
  ultimately show ?thesis using w b abs' use by (auto simp: queue_ok_def)
qed

lemma queue_read_step:
  assumes ok: "queue_ok k q ms" and d: "length d = k"
  shows "\<exists>b d' q'. queue_read_crit q ret d = Some (b, d', q') \<and>
                (if b \<and> queue_usable q then \<exists>ms'. ms = d' # ms' \<and> queue_ok k q' ms'
                 else d' = d \<and> queue_ok k q' ms) \<and>
                (queue_usable q \<longrightarrow> b = (ms \<noteq> [])) \<and> (\<not> queue_usable q \<longrightarrow> q' = q)"
proof (cases "queue_usable q")
  case False
  then show ?thesis using ok by (auto simp: queue_read_crit_def)
next
  case use: True
  have abs: "queue_abs q ms" and ev: "queue_events_ok q" and k: "q_msgSize q = k"
    using ok by (simp_all add: queue_ok_def)
  obtain b d' q' where r: "queue_read_crit q ret d = Some (b, d', q')" and b: "b = (ms \<noteq> [])"
    and d': "if b then ms = d' # tl ms else d' = d"
    and abs': "queue_abs q' (if b then tl ms else ms)"
    and tot: "totalNumBytes (q_ringb q') = totalNumBytes (q_ringb q)"
    using queue_read_some[of q "hd ms" "tl ms" d ret] queue_read_none[of q d ret] abs use d k
    by (cases ms) auto
  have "numBytesUsed (q_ringb q') \<le> numBytesUsed (q_ringb q)"
    using abs abs' ring_contents_length[of "q_ringb q"] ring_contents_length[of "q_ringb q'"] r
      is_msgs_length[of _ _ "ring_contents (q_ringb q)"]
      is_msgs_length[of _ _ "ring_contents (q_ringb q')"]
    by (auto simp: queue_abs_def queue_read_crit_def Let_def split: if_splits Option.bind_splits)
  then have u: "numBytesFree (q_ringb q) \<le> numBytesFree (q_ringb q')"
    using abs abs' tot by (auto simp: queue_abs_def ring_wf_def)
  have "queue_events_ok q'"
    by (rule queue_read_events[OF ev r]) (use r use u in \<open>simp add: queue_read_crit_def Let_def; auto\<close>)
  moreover have "q_msgSize q' = k"
    using r k by (auto simp: queue_read_crit_def Let_def split: if_splits Option.bind_splits)
  ultimately show ?thesis using r b abs' d' use by (cases ms) (auto simp: queue_ok_def)
qed

lemma queue_ctl_ok:
  "queue_ok k q ms \<Longrightarrow> queue_ok k (queue_enable q) ms"
  "queue_ok k q ms \<Longrightarrow> queue_ok k (queue_disable q) ms"
  "queue_ok k q ms \<Longrightarrow> queue_ok k (queue_pop q) ms"
  "queue_ok k q ms \<Longrightarrow> queue_ok k (queue_unpop q) ms"
  by (simp_all add: queue_ok_def queue_ctl_abs queue_ctl_events)
     (simp_all add: queue_enable_def queue_disable_def queue_pop_def queue_unpop_def)

section \<open>Any number of threads\<close>

text \<open>
  A thread is idle, or has passed the wait of a blocking write or read and not yet taken the
  mutex. The two logs record the messages the ring took and gave.
\<close>

datatype qpc = QIdle | QWriting "u8 list" | QReading "u8 list"

record qsys =
  s_q :: queue_t
  s_pc :: "nat \<Rightarrow> qpc"
  s_in :: "u8 list list"
  s_out :: "u8 list list"

definition qsys_init :: "queue_t \<Rightarrow> qsys" where
  "qsys_init q = \<lparr>s_q = q, s_pc = (\<lambda>_. QIdle), s_in = [], s_out = []\<rparr>"

definition log_write :: "qsys \<Rightarrow> bool \<Rightarrow> u8 list \<Rightarrow> u8 list list" where
  "log_write s b d = (if b \<and> queue_usable (s_q s) then s_in s @ [d] else s_in s)"

definition log_read :: "qsys \<Rightarrow> bool \<Rightarrow> u8 list \<Rightarrow> u8 list list" where
  "log_read s b d = (if b \<and> queue_usable (s_q s) then s_out s @ [d] else s_out s)"

inductive qstep :: "qsys \<Rightarrow> qsys \<Rightarrow> bool" where
  wait_write: "s_pc s i = QIdle \<Longrightarrow> ev_set (q_writeEvent (s_q s)) \<Longrightarrow> length d = q_msgSize (s_q s) \<Longrightarrow>
     qstep s (s\<lparr>s_pc := (s_pc s)(i := QWriting d)\<rparr>)"
| lock_write: "s_pc s i = QWriting d \<Longrightarrow> queue_write_crit (s_q s) True d = Some (b, q') \<Longrightarrow>
     qstep s (s\<lparr>s_q := q', s_pc := (s_pc s)(i := QIdle), s_in := log_write s b d\<rparr>)"
| try_write: "s_pc s i = QIdle \<Longrightarrow> length d = q_msgSize (s_q s) \<Longrightarrow>
     queue_write_crit (s_q s) False d = Some (b, q') \<Longrightarrow>
     qstep s (s\<lparr>s_q := q', s_in := log_write s b d\<rparr>)"
| wait_read: "s_pc s i = QIdle \<Longrightarrow> ev_set (q_readEvent (s_q s)) \<Longrightarrow> length d = q_msgSize (s_q s) \<Longrightarrow>
     qstep s (s\<lparr>s_pc := (s_pc s)(i := QReading d)\<rparr>)"
| lock_read: "s_pc s i = QReading d \<Longrightarrow> queue_read_crit (s_q s) True d = Some (b, d', q') \<Longrightarrow>
     qstep s (s\<lparr>s_q := q', s_pc := (s_pc s)(i := QIdle), s_out := log_read s b d'\<rparr>)"
| try_read: "s_pc s i = QIdle \<Longrightarrow> length d = q_msgSize (s_q s) \<Longrightarrow>
     queue_read_crit (s_q s) False d = Some (b, d', q') \<Longrightarrow>
     qstep s (s\<lparr>s_q := q', s_out := log_read s b d'\<rparr>)"
| enable: "qstep s (s\<lparr>s_q := queue_enable (s_q s)\<rparr>)"
| disable: "qstep s (s\<lparr>s_q := queue_disable (s_q s)\<rparr>)"
| pop: "qstep s (s\<lparr>s_q := queue_pop (s_q s)\<rparr>)"
| unpop: "qstep s (s\<lparr>s_q := queue_unpop (s_q s)\<rparr>)"

inductive qreach :: "queue_t \<Rightarrow> qsys \<Rightarrow> bool" for q where
  start: "qreach q (qsys_init q)"
| step: "qreach q s \<Longrightarrow> qstep s t \<Longrightarrow> qreach q t"

definition qsys_inv :: "nat \<Rightarrow> qsys \<Rightarrow> bool" where
  "qsys_inv k s \<longleftrightarrow>
     (\<exists>ms. queue_ok k (s_q s) ms \<and> s_in s = s_out s @ ms) \<and>
     (\<forall>i d. s_pc s i = QWriting d \<or> s_pc s i = QReading d \<longrightarrow> length d = k)"

lemma qsys_inv_write:
  assumes "qsys_inv k s" "length d = k" "queue_write_crit (s_q s) ret d = Some (b, q')"
  shows "\<exists>ms. queue_ok k q' ms \<and> log_write s b d = s_out s @ ms"
proof -
  obtain ms where ms: "queue_ok k (s_q s) ms" "s_in s = s_out s @ ms"
    using assms(1) by (auto simp: qsys_inv_def)
  have "queue_ok k q' (if b \<and> queue_usable (s_q s) then ms @ [d] else ms)"
    using queue_write_step[OF ms(1) assms(2), of ret] unfolding assms(3) by simp
  then show ?thesis using ms(2)
    by (intro exI[of _ "if b \<and> queue_usable (s_q s) then ms @ [d] else ms"]) (simp add: log_write_def)
qed

lemma qsys_inv_read:
  assumes "qsys_inv k s" "length d = k" "queue_read_crit (s_q s) ret d = Some (b, d', q')"
  shows "\<exists>ms. queue_ok k q' ms \<and> s_in s = log_read s b d' @ ms"
proof -
  obtain ms where ms: "queue_ok k (s_q s) ms" "s_in s = s_out s @ ms"
    using assms(1) by (auto simp: qsys_inv_def)
  have r: "if b \<and> queue_usable (s_q s) then \<exists>ms'. ms = d' # ms' \<and> queue_ok k q' ms'
           else d' = d \<and> queue_ok k q' ms"
    using queue_read_step[OF ms(1) assms(2), of ret] unfolding assms(3) by simp
  show ?thesis
  proof (cases "b \<and> queue_usable (s_q s)")
    case True
    with r obtain ms' where "ms = d' # ms'" "queue_ok k q' ms'" by auto
    then show ?thesis using True ms(2) by (simp add: log_read_def)
  next
    case False
    then show ?thesis using r ms(2) by (auto simp: log_read_def)
  qed
qed

lemma qstep_inv: "qstep s t \<Longrightarrow> qsys_inv k s \<Longrightarrow> qsys_inv k t"
proof (induction rule: qstep.induct)
  case (lock_write s i d b q')
  then have "length d = k" by (auto simp: qsys_inv_def)
  from qsys_inv_write[OF lock_write.prems this lock_write.hyps(2)] show ?case
    using lock_write.prems by (auto simp: qsys_inv_def)
next
  case (try_write s i d b q')
  then have "length d = k" by (auto simp: qsys_inv_def queue_ok_def)
  from qsys_inv_write[OF try_write.prems this try_write.hyps(3)] show ?case
    using try_write.prems by (auto simp: qsys_inv_def)
next
  case (lock_read s i d b d' q')
  then have "length d = k" by (auto simp: qsys_inv_def)
  from qsys_inv_read[OF lock_read.prems this lock_read.hyps(2)] show ?case
    using lock_read.prems by (auto simp: qsys_inv_def)
next
  case (try_read s i d b d' q')
  then have "length d = k" by (auto simp: qsys_inv_def queue_ok_def)
  from qsys_inv_read[OF try_read.prems this try_read.hyps(3)] show ?case
    using try_read.prems by (auto simp: qsys_inv_def)
next
  case (wait_write s i d)
  then show ?case by (auto simp: qsys_inv_def queue_ok_def)
next
  case (wait_read s i d)
  then show ?case by (auto simp: qsys_inv_def queue_ok_def)
qed (auto simp: qsys_inv_def intro: queue_ctl_ok)


lemma qreach_inv:
  assumes "qreach q s" "queue_ok k q []" shows "qsys_inv k s"
  using assms
proof (induction rule: qreach.induct)
  case start
  then show ?case by (auto simp: qsys_inv_def qsys_init_def)
next
  case (step s t)
  then show ?case by (blast intro: qstep_inv)
qed

lemma queue_create_queue_ok:
  assumes "queue_create a b c numMsgs msgSize = Live q" "0 < msgSize" "0 < numMsgs"
    and "msgSize * numMsgs < size_max"
  shows "queue_ok msgSize q []"
  using queue_create_ok[OF assms] assms(1)
  by (auto simp: queue_ok_def queue_create_def split: if_splits option.splits)

section \<open>Properties\<close>

text \<open>
  Refinement of a list of messages. On a queue that holds \<open>ms\<close> and is neither disabled nor
  popped, writing a message of the queue's size returns true exactly when there is room, and then
  the queue holds \<open>ms\<close> followed by that message and counts it; otherwise nothing changes in the
  ring; the two events again agree with the ring.
\<close>
theorem queue_write_refines:
  assumes "queue_abs q ms" and "queue_events_ok q" and "q_active q" and "\<not> q_popped q"
    and "length d = q_msgSize q"
  shows "\<exists>q'. queue_write_crit q ret d = Some (queue_room q ms, q') \<and> queue_events_ok q' \<and>
              queue_abs q' (if queue_room q ms then ms @ [d] else ms)"
  using queue_write_step[of "q_msgSize q" q ms d ret] assms by (auto simp: queue_ok_def)

text \<open>
  Reading from such a queue returns true exactly when it holds a message, and then delivers
  the oldest one and removes it; the count and the two events follow.
\<close>
theorem queue_read_refines:
  assumes "queue_abs q ms" and "queue_events_ok q" and "q_active q" and "\<not> q_popped q"
    and "length d = q_msgSize q"
  shows "\<exists>d' q'. queue_read_crit q ret d = Some (ms \<noteq> [], d', q') \<and> queue_events_ok q' \<and>
              (case ms of [] \<Rightarrow> d' = d \<and> queue_abs q' [] | m # ms' \<Rightarrow> d' = m \<and> queue_abs q' ms')"
  using queue_read_step[of "q_msgSize q" q ms d ret] assms
  by (cases ms) (auto simp: queue_ok_def)

text \<open>A queue for three one-byte messages, as \<open>queue_create\<close> makes it.\<close>

definition queue_ex :: queue_t where
  "queue_ex = \<lparr>q_active = True, q_popped = False,
     q_ringb = \<lparr>totalNumBytes = 3, numBytesUsed = 0, numBytesFree = 3, r_mem = [0, 0, 0],
                r_end = 3, r_front = 0, r_back = 0\<rparr>,
     q_msgSize = 1, q_numMsgs = 3, q_msgCount = 0,
     q_readEvent = \<lparr>ev_set = False, ev_autoreset = False\<rparr>,
     q_writeEvent = \<lparr>ev_set = True, ev_autoreset = False\<rparr>\<rparr>"

lemma queue_ex_create: "queue_create True True True 3 1 = Live queue_ex"
proof -
  have "size_mul 1 3 = 3" by (simp add: size_mul_def)
  moreover have "replicate 3 (0 :: u8) = [0, 0, 0]" by (simp add: numeral_3_eq_3)
  ultimately show ?thesis
    by (simp add: queue_create_def ring_create_def queue_ex_def event_set_def event_reset_def
        event_init_def)
qed

lemma queue_ex_ok: "queue_abs queue_ex [] \<and> queue_events_ok queue_ex"
proof -
  have "(0 :: nat) < 1" "(0 :: nat) < 3" "1 * 3 < size_max" by simp_all
  from queue_create_ok[OF queue_ex_create this] show ?thesis by blast
qed

theorem queue_write_refines_witness:
  "\<exists>q'. queue_write_crit queue_ex False [9] = Some (True, q') \<and> queue_abs q' [[9]]"
proof -
  have "queue_room queue_ex []" by (simp add: queue_room_def queue_ex_def)
  moreover have "q_active queue_ex" "\<not> q_popped queue_ex" "length [9 :: u8] = q_msgSize queue_ex"
    by (simp_all add: queue_ex_def)
  ultimately show ?thesis
    using queue_write_refines[of queue_ex "[]" "[9]" False] queue_ex_ok by auto
qed

theorem queue_read_refines_witness:
  "\<exists>d' q'. queue_read_crit queue_ex False [9] = Some (False, d', q') \<and> d' = [9] \<and> queue_abs q' []"
proof -
  have "q_active queue_ex" "\<not> q_popped queue_ex" "length [9 :: u8] = q_msgSize queue_ex"
    by (simp_all add: queue_ex_def)
  then show ?thesis
    using queue_read_refines[of queue_ex "[]" "[9]" False] queue_ex_ok by auto
qed

text \<open>
  C18. Under every interleaving of blocking and non-blocking writers and readers with enable,
  disable, pop and unpop, on a queue fresh from \<open>queue_create\<close>: the messages given out are a prefix
  of the messages taken in, the rest is what the queue holds and counts, the events agree with the
  ring, and no thread that holds a buffer of the message size can fault in a critical section.
\<close>
theorem queue_interleaving_fifo:
  assumes "queue_create True True True numMsgs msgSize = Live q" and "0 < msgSize" and "0 < numMsgs"
    and "msgSize * numMsgs < size_max" and "qreach q s"
  shows "(\<exists>ms. s_in s = s_out s @ ms \<and> queue_abs (s_q s) ms \<and> queue_events_ok (s_q s) \<and>
              queue_length (s_q s) = length (s_in s) - length (s_out s)) \<and>
         (\<forall>i d. (s_pc s i = QWriting d \<longrightarrow> queue_write_crit (s_q s) True d \<noteq> None) \<and>
                (s_pc s i = QReading d \<longrightarrow> queue_read_crit (s_q s) True d \<noteq> None))"
proof -
  have inv: "qsys_inv msgSize s"
    by (rule qreach_inv[OF assms(5) queue_create_queue_ok[OF assms(1-4)]])
  then obtain ms where ms: "queue_ok msgSize (s_q s) ms" "s_in s = s_out s @ ms"
    by (auto simp: qsys_inv_def)
  have len: "length d = msgSize" if "s_pc s i = QWriting d \<or> s_pc s i = QReading d" for i d
    using inv that by (auto simp: qsys_inv_def)
  have "queue_write_crit (s_q s) True d \<noteq> None" if "s_pc s i = QWriting d" for i d
    using queue_write_step[OF ms(1) len, of i d True] that by auto
  moreover have "queue_read_crit (s_q s) True d \<noteq> None" if "s_pc s i = QReading d" for i d
    using queue_read_step[OF ms(1) len, of i d True] that by auto
  moreover have "queue_abs (s_q s) ms \<and> queue_events_ok (s_q s) \<and>
      queue_length (s_q s) = length (s_in s) - length (s_out s)"
    using ms by (auto simp: queue_ok_def queue_length_def queue_abs_def)
  ultimately show ?thesis using ms(2) by blast
qed

text \<open>A run: thread 1 writes a message, blocking.\<close>

lemma queue_ex_run: "\<exists>s. qreach queue_ex s \<and> s_in s = [[9]]"
proof -
  let ?s1 = "(qsys_init queue_ex)\<lparr>s_pc := (s_pc (qsys_init queue_ex))(1 := QWriting [9])\<rparr>"
  have r1: "qreach queue_ex ?s1"
    by (rule qreach.step[OF qreach.start], rule qstep.wait_write)
       (simp_all add: qsys_init_def queue_ex_def)
  have "q_active queue_ex" "\<not> q_popped queue_ex" "length [9 :: u8] = q_msgSize queue_ex"
    "queue_room queue_ex []"
    by (simp_all add: queue_ex_def queue_room_def)
  then obtain q' where q': "queue_write_crit queue_ex True [9] = Some (True, q')"
    using queue_write_room[of queue_ex "[]" "[9]" True] queue_ex_ok by auto
  have u: "queue_usable queue_ex" by (simp add: queue_ex_def)
  let ?s2 = "?s1\<lparr>s_q := q', s_pc := (s_pc ?s1)(1 := QIdle), s_in := log_write ?s1 True [9]\<rparr>"
  have "qstep ?s1 ?s2"
    by (rule qstep.lock_write) (use q' in \<open>simp_all add: qsys_init_def\<close>)
  then have "qreach queue_ex ?s2" by (rule qreach.step[OF r1])
  moreover have "s_in ?s2 = [[9]]" using u by (simp add: log_write_def qsys_init_def)
  ultimately show ?thesis by blast
qed

theorem queue_interleaving_fifo_witness:
  "\<exists>s ms. qreach queue_ex s \<and> s_in s = [[9]] \<and> s_in s = s_out s @ ms \<and> queue_abs (s_q s) ms"
proof -
  have "(0 :: nat) < 1" "(0 :: nat) < 3" "1 * 3 < size_max" by simp_all
  from queue_interleaving_fifo[OF queue_ex_create this] queue_ex_run show ?thesis by blast
qed

text \<open>
  \<open>queue_reset\<close> empties the ring but keeps the message count: afterwards \<open>queue_length\<close> reports the
  messages that have been thrown away.
\<close>

theorem queue_reset_stale_length:
  assumes "queue_reset a b q = Some q'"
  shows "ring_contents (q_ringb q') = [] \<and> queue_length q' = queue_length q"
proof -
  obtain rb where rb: "ring_create a b (size_mul (q_msgSize q) (q_numMsgs q)) = Some rb"
    using assms by (auto simp: queue_reset_def split: option.splits)
  then have "ring_contents rb = []"
    using ring_create_wf[OF size_mul_less rb] by blast
  then show ?thesis using assms rb by (auto simp: queue_reset_def queue_length_def)
qed

theorem queue_reset_stale_length_witness:
  "\<exists>q'. queue_reset True True (queue_ex\<lparr>q_msgCount := 1\<rparr>) = Some q' \<and> queue_length q' = 1 \<and> ring_contents (q_ringb q') = []"
proof -
  obtain q' where q': "queue_reset True True (queue_ex\<lparr>q_msgCount := 1\<rparr>) = Some q'"
    by (simp add: queue_reset_def ring_create_def)
  from queue_reset_stale_length[OF this] q' show ?thesis by (auto simp: queue_length_def)
qed

text \<open>
  A blocking write whose wait ended before another thread disabled the queue reports success
  although nothing was written, and so does a blocking read with nothing read.
\<close>

theorem queue_disabled_false_success:
  assumes "\<not> q_active q" "\<not> q_popped q"
  shows "queue_write_crit q True d = Some (True, q) \<and> queue_read_crit q True d = Some (True, d, q)"
  using assms by (simp add: queue_write_crit_def queue_read_crit_def)

theorem queue_disabled_false_success_witness:
  "queue_write_crit (queue_disable queue_ex) True [1, 2] = Some (True, queue_disable queue_ex)"
proof -
  have "\<not> q_active (queue_disable queue_ex)" "\<not> q_popped (queue_disable queue_ex)"
    by (simp_all add: queue_disable_def queue_ex_def queue_create_def ring_create_def)
  from queue_disabled_false_success[OF this] show ?thesis by blast
qed

end
