(* ===== verification/Sosal_List.thy ===== *)
theory Sosal_List
  imports Dvp_Prelude
begin

text \<open>
  The doubly linked list of \<open>source/sosal/list.c\<close>. The nodes live in an explicit heap, a map from
  addresses to node records, because the code relinks them in place and its callers keep pointers to
  them; a pointer is an \<open>option\<close> of an address and following a null or dangling one is a fault. The
  loops walk the heap and need not end on a heap that is not a list, so they are partial functions.
\<close>

section \<open>Nodes, lists and the heap\<close>

record node_t =
  n_next :: "nat option"
  n_prev :: "nat option"
  n_data :: u32

record list_t =
  l_head :: "nat option"
  l_tail :: "nat option"

type_synonym nodes = "nat \<Rightarrow> node_t option"

definition set_next :: "nat \<Rightarrow> nat option \<Rightarrow> nodes \<Rightarrow> nodes option" where
  "set_next a p h = map_option (\<lambda>n. h(a \<mapsto> n\<lparr>n_next := p\<rparr>)) (h a)"

definition set_prev :: "nat \<Rightarrow> nat option \<Rightarrow> nodes \<Rightarrow> nodes option" where
  "set_prev a p h = map_option (\<lambda>n. h(a \<mapsto> n\<lparr>n_prev := p\<rparr>)) (h a)"

definition get_next :: "nat \<Rightarrow> nodes \<Rightarrow> nat option option" where
  "get_next a h = map_option n_next (h a)"

definition get_prev :: "nat \<Rightarrow> nodes \<Rightarrow> nat option option" where
  "get_prev a h = map_option n_prev (h a)"

text \<open>The argument of a callback: null stays null, an address must be allocated.\<close>

definition node_at :: "nat option \<Rightarrow> nodes \<Rightarrow> node_t option option" where
  "node_at p h = (case p of None \<Rightarrow> Some None | Some a \<Rightarrow> map_option Some (h a))"

section \<open>Creation\<close>

text \<open>\<open>fresh\<close> is what the allocator returns: a free address, or null.\<close>

definition node_create :: "nat option \<Rightarrow> u32 \<Rightarrow> nodes \<Rightarrow> nat option \<times> nodes" where
  "node_create fresh data h =
     (case fresh of
        None \<Rightarrow> (None, h)
      | Some a \<Rightarrow> (Some a, h(a \<mapsto> \<lparr>n_next = None, n_prev = None, n_data = data\<rparr>)))"

definition node_destroy :: "nat option \<Rightarrow> nodes \<Rightarrow> (u32 \<times> nodes) option" where
  "node_destroy node h =
     (case node of
        None \<Rightarrow> Some (0, h)
      | Some a \<Rightarrow> do { n \<leftarrow> h a; Some (n_data n, h(a := None)) })"

definition list_create :: "bool \<Rightarrow> list_t option" where
  "list_create ok = (if ok then Some \<lparr>l_head = None, l_tail = None\<rparr> else None)"

section \<open>Both ends\<close>

definition list_append :: "list_t option \<Rightarrow> nat option \<Rightarrow> nodes \<Rightarrow> (nodes \<times> list_t option) option" where
  "list_append list node h =
     (case (list, node) of
        (Some l, Some a) \<Rightarrow> do {
          h1 \<leftarrow> (case l_tail l of
                   Some t \<Rightarrow>
                     if t = a then None
                     else do { h1 \<leftarrow> set_next t (Some a) h; set_prev a (Some t) h1 }
                 | None \<Rightarrow> set_prev a None h);
          h2 \<leftarrow> set_next a None h1;
          Some (h2, Some (l\<lparr>l_head := (if l_tail l = None then Some a else l_head l), l_tail := Some a\<rparr>)) }
      | _ \<Rightarrow> Some (h, list))"

definition list_trim :: "list_t option \<Rightarrow> nodes \<Rightarrow> (nat option \<times> nodes \<times> list_t option) option" where
  "list_trim list h =
     (case list of
        None \<Rightarrow> Some (None, h, None)
      | Some l \<Rightarrow>
          (case l_tail l of
             None \<Rightarrow> Some (None, h, list)
           | Some a \<Rightarrow> do {
               p \<leftarrow> get_prev a h;
               if p = Some a then None
               else do {
                 h1 \<leftarrow> (case p of Some t \<Rightarrow> set_next t None h | None \<Rightarrow> Some h);
                 let hd = (if p = None then None else l_head l);
                 if hd = None \<and> p \<noteq> None then None
                 else do {
                   h2 \<leftarrow> set_prev a None h1;
                   h3 \<leftarrow> set_next a None h2;
                   Some (Some a, h3, Some (l\<lparr>l_head := hd, l_tail := p\<rparr>)) } } }))"

definition list_push :: "list_t option \<Rightarrow> nat option \<Rightarrow> nodes \<Rightarrow> (nodes \<times> list_t option) option" where
  "list_push list node h =
     (case list of
        None \<Rightarrow> Some (h, None)
      | Some l \<Rightarrow> do {
          h1 \<leftarrow> (case l_head l of
                   Some t \<Rightarrow>
                     if Some t = node then None
                     else do { h1 \<leftarrow> set_prev t node h; a \<leftarrow> node; set_next a (Some t) h1 }
                 | None \<Rightarrow> do { a \<leftarrow> node; set_next a None h });
          a \<leftarrow> node;
          h2 \<leftarrow> set_prev a None h1;
          Some (h2, Some (l\<lparr>l_tail := (if l_head l = None then node else l_tail l), l_head := node\<rparr>)) })"

definition list_pop :: "list_t option \<Rightarrow> nodes \<Rightarrow> (nat option \<times> nodes \<times> list_t option) option" where
  "list_pop list h =
     (case list of
        None \<Rightarrow> Some (None, h, None)
      | Some l \<Rightarrow>
          (case l_head l of
             None \<Rightarrow> Some (None, h, list)
           | Some a \<Rightarrow> do {
               p \<leftarrow> get_next a h;
               if p = Some a then None
               else do {
                 h1 \<leftarrow> (case p of Some t \<Rightarrow> set_prev t None h | None \<Rightarrow> Some h);
                 let tl = (if p = None then None else l_tail l);
                 if tl = None \<and> p \<noteq> None then None
                 else do {
                   h2 \<leftarrow> set_next a None h1;
                   h3 \<leftarrow> set_prev a None h2;
                   Some (Some a, h3, Some (l\<lparr>l_head := p, l_tail := tl\<rparr>)) } } }))"

text \<open>\<open>list_destroy\<close> pops every node and frees the list; the nodes themselves stay allocated.\<close>

partial_function (option) list_destroy :: "list_t option \<Rightarrow> nodes \<Rightarrow> nodes option" where
  "list_destroy list h =
     (case list of
        None \<Rightarrow> Some h
      | Some _ \<Rightarrow> do {
          (r, h', list') \<leftarrow> list_pop list h;
          if r \<noteq> None then list_destroy list' h' else Some h' })"

section \<open>Anywhere in the list\<close>

type_synonym node_compare_f = "node_t option \<Rightarrow> node_t option \<Rightarrow> int"

text \<open>The two link operations of \<open>list_insert\<close>: in front of \<open>n\<close> and behind it.\<close>

definition link_before ::
  "list_t \<Rightarrow> nat option \<Rightarrow> nat \<Rightarrow> nodes \<Rightarrow> (nat option \<times> nodes \<times> list_t option) option" where
  "link_before l node n h = do {
     a \<leftarrow> node;
     h1 \<leftarrow> set_next a (Some n) h;
     p1 \<leftarrow> get_prev n h1;
     h2 \<leftarrow> set_prev a p1 h1;
     p2 \<leftarrow> get_prev n h2;
     h3 \<leftarrow> (case p2 of Some p \<Rightarrow> set_next p node h2 | None \<Rightarrow> Some h2);
     h4 \<leftarrow> set_prev n node h3;
     Some (node, h4, Some (if l_head l = Some n then l\<lparr>l_head := node\<rparr> else l)) }"

definition link_after ::
  "list_t \<Rightarrow> nat option \<Rightarrow> nat \<Rightarrow> nodes \<Rightarrow> (nat option \<times> nodes \<times> list_t option) option" where
  "link_after l node n h = do {
     a \<leftarrow> node;
     q1 \<leftarrow> get_next n h;
     h1 \<leftarrow> set_next a q1 h;
     h2 \<leftarrow> set_prev a (Some n) h1;
     q2 \<leftarrow> get_next n h2;
     h3 \<leftarrow> (case q2 of Some q \<Rightarrow> set_prev q node h2 | None \<Rightarrow> Some h2);
     h4 \<leftarrow> set_next n node h3;
     Some (node, h4, Some (if l_tail l = Some n then l\<lparr>l_tail := node\<rparr> else l)) }"

partial_function (option) insert_loop ::
  "node_compare_f \<Rightarrow> bool \<Rightarrow> list_t \<Rightarrow> nat option \<Rightarrow> nat option \<Rightarrow> nodes \<Rightarrow>
   (nat option \<times> nodes \<times> list_t option) option" where
  "insert_loop compare asc l node n h =
     (case n of
        None \<Rightarrow> Some (None, h, Some l)
      | Some b \<Rightarrow> do {
          na \<leftarrow> node_at node h;
          nb \<leftarrow> node_at (Some b) h;
          q \<leftarrow> get_next b h;
          if (if asc then compare na nb < 0 else compare na nb > 0) then link_before l node b h
          else do {
            hit \<leftarrow> (if (if asc then compare nb na \<le> 0 else compare nb na \<ge> 0)
                     then do { nq \<leftarrow> node_at q h; Some (if asc then compare na nq \<le> 0 else compare na nq \<ge> 0) }
                     else Some False);
            if hit then link_after l node b h
            else insert_loop compare asc l node q h } })"

definition list_insert ::
  "list_t option \<Rightarrow> nat option \<Rightarrow> node_compare_f \<Rightarrow> bool \<Rightarrow> nodes \<Rightarrow>
   (nat option \<times> nodes \<times> list_t option) option" where
  "list_insert list node compare asc h =
     (case list of
        None \<Rightarrow> Some (None, h, None)
      | Some l \<Rightarrow>
          if l_head l \<noteq> None then insert_loop compare asc l node (l_head l) h
          else do {
            a \<leftarrow> node;
            h1 \<leftarrow> set_prev a None h;
            h2 \<leftarrow> set_next a None h1;
            Some (node, h2, Some (l\<lparr>l_head := node, l_tail := node\<rparr>)) })"

definition list_extract :: "list_t option \<Rightarrow> nat option \<Rightarrow> nodes \<Rightarrow> (nat option \<times> nodes \<times> list_t option) option" where
  "list_extract list node h =
     (case (list, node) of
        (Some l, Some a) \<Rightarrow>
          if l_head l = None \<or> l_tail l = None then Some (None, h, list)
          else do {
            q \<leftarrow> get_next a h;
            p \<leftarrow> get_prev a h;
            (r, h', list') \<leftarrow>
              (case (q, p) of
                 (None, None) \<Rightarrow> list_pop list h
               | (Some _, None) \<Rightarrow> list_pop list h
               | (None, Some _) \<Rightarrow> list_trim list h
               | (Some q', Some p') \<Rightarrow> do {
                   h1 \<leftarrow> set_prev q' p h;
                   q2 \<leftarrow> get_next a h1;
                   h2 \<leftarrow> set_next p' q2 h1;
                   Some (node, h2, list) });
            b \<leftarrow> r;
            h1 \<leftarrow> set_next b None h';
            h2 \<leftarrow> set_prev b None h1;
            Some (r, h2, list') }
      | _ \<Rightarrow> Some (None, h, list))"

partial_function (option) search_loop ::
  "node_compare_f \<Rightarrow> nat option \<Rightarrow> nat option \<Rightarrow> nodes \<Rightarrow> nat option option" where
  "search_loop compare node temp h =
     (case temp of
        None \<Rightarrow> Some None
      | Some t \<Rightarrow> do {
          nt \<leftarrow> node_at temp h;
          nn \<leftarrow> node_at node h;
          if compare nt nn = 0 then Some temp
          else do { q \<leftarrow> get_next t h; search_loop compare node q h } })"

definition list_search :: "list_t option \<Rightarrow> nat option \<Rightarrow> node_compare_f \<Rightarrow> nodes \<Rightarrow> nat option option" where
  "list_search list node compare h =
     (case (list, node) of
        (Some l, Some _) \<Rightarrow> search_loop compare node (l_head l) h
      | _ \<Rightarrow> Some None)"

definition list_remove_match ::
  "list_t option \<Rightarrow> nat option \<Rightarrow> node_compare_f \<Rightarrow> nodes \<Rightarrow> (nat option \<times> nodes \<times> list_t option) option" where
  "list_remove_match list node compare h =
     (case list of
        None \<Rightarrow> Some (None, h, None)
      | Some _ \<Rightarrow> do {
          temp \<leftarrow> list_search list node compare h;
          (case temp of
             Some _ \<Rightarrow> list_extract list temp h
           | None \<Rightarrow> Some (None, h, list)) })"

partial_function (option) score_loop ::
  "(node_t option \<Rightarrow> node_t option \<Rightarrow> u32) \<Rightarrow> nat option \<Rightarrow> nat option \<Rightarrow> nat option \<times> u32 \<Rightarrow> nodes \<Rightarrow>
   nat option option" where
  "score_loop rate_f node temp br h =
     (case temp of
        None \<Rightarrow> Some (fst br)
      | Some t \<Rightarrow> do {
          nt \<leftarrow> node_at temp h;
          nn \<leftarrow> node_at node h;
          let this_score = rate_f nt nn;
          let br' = (if snd br < this_score then (temp, this_score) else br);
          q \<leftarrow> get_next t h;
          if temp \<noteq> q then score_loop rate_f node q br' h else Some None })"

definition list_score ::
  "list_t option \<Rightarrow> nat option \<Rightarrow> (node_t option \<Rightarrow> node_t option \<Rightarrow> u32) \<Rightarrow> nodes \<Rightarrow> nat option option" where
  "list_score list node rate_f h =
     (case (list, node) of
        (Some l, Some _) \<Rightarrow> score_loop rate_f node (l_head l) (None, 0) h
      | _ \<Rightarrow> Some None)"

partial_function (option) length_loop :: "nat option \<Rightarrow> nat \<Rightarrow> nodes \<Rightarrow> nat option" where
  "length_loop temp len h =
     (case temp of
        None \<Rightarrow> Some len
      | Some t \<Rightarrow> do { q \<leftarrow> get_next t h; length_loop q (size_add len 1) h })"

definition list_length :: "list_t option \<Rightarrow> nodes \<Rightarrow> nat option" where
  "list_length list h = (case list of None \<Rightarrow> Some 0 | Some l \<Rightarrow> length_loop (l_head l) 0 h)"

definition node_sorter :: node_compare_f where
  "node_sorter a b =
     (case (a, b) of
        (Some x, Some y) \<Rightarrow>
          if n_data x < n_data y then -1 else if n_data x = n_data y then 0 else 1
      | _ \<Rightarrow> 0)"

end
