(* ===== verification/Sosal_Hash.thy ===== *)
theory Sosal_Hash
  imports Sosal_List
begin

text \<open>
  The hash table of \<open>source/sosal/hash.c\<close>: an array of sorted lists of records. The buckets' nodes are in
  the heap of \<open>Sosal_List\<close>, their data are the addresses of records in a store of their own; address 0 is
  null. What the allocator returns in one call of \<open>hash_set\<close> or \<open>hash_get\<close> is an argument.
\<close>

unbundle bit_operations_syntax

section \<open>Records\<close>

record record_t =
  rec_key :: u32
  rec_value :: u32

type_synonym records = "u32 \<Rightarrow> record_t option"

text \<open>\<open>fresh\<close> is a free address, or 0 when the allocation fails.\<close>

definition record_create :: "u32 \<Rightarrow> u32 \<Rightarrow> u32 \<Rightarrow> records \<Rightarrow> u32 \<times> records" where
  "record_create fresh key value recs =
     (if fresh = 0 then (0, recs) else (fresh, recs(fresh \<mapsto> \<lparr>rec_key = key, rec_value = value\<rparr>)))"

definition record_destroy :: "u32 \<Rightarrow> records \<Rightarrow> records" where
  "record_destroy a recs = (if a = 0 then recs else recs(a := None))"

definition hash_compare_record :: "records \<Rightarrow> node_compare_f" where
  "hash_compare_record recs a b =
     (case (a, b) of
        (Some x, Some y) \<Rightarrow>
          (case (recs (n_data x), recs (n_data y)) of
             (Some ra, Some rb) \<Rightarrow>
               if rec_key ra > rec_key rb then 1 else if rec_key ra = rec_key rb then 0 else -1
           | _ \<Rightarrow> 0)
      | _ \<Rightarrow> 0)"

section \<open>The table\<close>

abbreviation HASH_SIZE_SMALL :: nat where "HASH_SIZE_SMALL \<equiv> 8"
abbreviation HASH_SIZE_MEDIUM :: nat where "HASH_SIZE_MEDIUM \<equiv> 12"
abbreviation HASH_SIZE_LARGE :: nat where "HASH_SIZE_LARGE \<equiv> 16"

record hash_t =
  h_size :: nat
  numTotalElem :: u32
  numActiveSlots :: u32
  numSlots :: u32
  keyFunc :: "nat \<Rightarrow> u32 \<Rightarrow> u32"
  bucket :: "list_t option list"

definition hash_is_valid_index :: "hash_t \<Rightarrow> u32 \<Rightarrow> bool" where
  "hash_is_valid_index h hKey \<longleftrightarrow>
     (h_size h = HASH_SIZE_SMALL \<or> h_size h = HASH_SIZE_MEDIUM \<or> h_size h = HASH_SIZE_LARGE) \<and> hKey < numSlots h"

definition hash_key_to_index :: "hash_t \<Rightarrow> u32 \<Rightarrow> u32" where
  "hash_key_to_index h hKey =
     (if h_size h = HASH_SIZE_SMALL \<or> h_size h = HASH_SIZE_MEDIUM \<or> h_size h = HASH_SIZE_LARGE then hKey else 0)"

text \<open>The default keying function.\<close>

definition hash_key :: "nat \<Rightarrow> u32 \<Rightarrow> u32" where
  "hash_key numElem keyin =
     (let key = keyin + push_bit 10 keyin;
          key = key XOR drop_bit 6 key;
          key = key + push_bit 3 key;
          key = key XOR drop_bit 11 key;
          key = key + push_bit 15 key;
          mask = push_bit numElem 1 - 1 in
      key AND mask)"

text \<open>The two allocations of \<open>hash_create\<close> succeed or not.\<close>

definition hash_create :: "bool \<Rightarrow> bool \<Rightarrow> nat \<Rightarrow> (nat \<Rightarrow> u32 \<Rightarrow> u32) option \<Rightarrow> hash_t option" where
  "hash_create table_ok buckets_ok bits keyf =
     (if table_ok \<and> buckets_ok then
        Some \<lparr>h_size = bits, numTotalElem = 0, numActiveSlots = 0, numSlots = push_bit bits 1,
          keyFunc = (case keyf of None \<Rightarrow> hash_key | Some f \<Rightarrow> f),
          bucket = replicate (unat (push_bit bits (1 :: u32))) None\<rparr>
      else None)"

type_synonym hash_state = "hash_t \<times> nodes \<times> records"

definition set_bucket :: "u32 \<Rightarrow> list_t option \<Rightarrow> hash_t \<Rightarrow> hash_t option" where
  "set_bucket index l h = do { bs \<leftarrow> upd_chk (bucket h) (unat index) l; Some (h\<lparr>bucket := bs\<rparr>) }"

section \<open>Setting and removing\<close>

text \<open>\<open>record_destroy((record_t *)node_destroy(removed))\<close>\<close>

definition destroy_entry :: "nat option \<Rightarrow> nodes \<Rightarrow> records \<Rightarrow> (nodes \<times> records) option" where
  "destroy_entry removed nodes recs = do {
     (d, nodes') \<leftarrow> node_destroy removed nodes;
     Some (nodes', record_destroy d recs) }"

text \<open>Removal goes on until no record matches; an emptied list is destroyed.\<close>

partial_function (option) remove_loop :: "u32 \<Rightarrow> nat option \<Rightarrow> hash_state \<Rightarrow> hash_state option" where
  "remove_loop index node s =
     (case s of (h, nodes, recs) \<Rightarrow> do {
        l \<leftarrow> nth_chk (bucket h) (unat index);
        (removed, nodes1, l1) \<leftarrow> list_remove_match l node (hash_compare_record recs) nodes;
        h1 \<leftarrow> set_bucket index l1 h;
        if removed = None then Some (h1, nodes1, recs)
        else do {
          let h2 = h1\<lparr>numTotalElem := numTotalElem h1 - 1\<rparr>;
          n \<leftarrow> list_length l1 nodes1;
          (h3, nodes2) \<leftarrow> (if n = 0 then do {
                nodes2 \<leftarrow> list_destroy l1 nodes1;
                h3 \<leftarrow> set_bucket index None (h2\<lparr>numActiveSlots := numActiveSlots h2 - 1\<rparr>);
                Some (h3, nodes2) }
              else Some (h2, nodes1));
          (nodes3, recs1) \<leftarrow> destroy_entry removed nodes2 recs;
          remove_loop index node (h3, nodes3, recs1) } })"

text \<open>A record of the same key is removed before the new one is inserted in order.\<close>

definition replace_entry :: "u32 \<Rightarrow> nat option \<Rightarrow> hash_state \<Rightarrow> hash_state option" where
  "replace_entry index node s =
     (case s of (h, nodes, recs) \<Rightarrow> do {
        l \<leftarrow> nth_chk (bucket h) (unat index);
        (removed, nodes1, l1) \<leftarrow> list_remove_match l node (hash_compare_record recs) nodes;
        (h1, nodes2, recs1) \<leftarrow> (if removed \<noteq> None then do {
              (nodes2, recs1) \<leftarrow> destroy_entry removed nodes1 recs;
              Some (h\<lparr>numTotalElem := numTotalElem h - 1\<rparr>, nodes2, recs1) }
            else Some (h, nodes1, recs));
        (node', nodes3, l2) \<leftarrow> list_insert l1 node (hash_compare_record recs1) True nodes2;
        h2 \<leftarrow> set_bucket index l2 h1;
        Some (if node' \<noteq> None then h2\<lparr>numTotalElem := numTotalElem h2 + 1\<rparr> else h2, nodes3, recs1) })"

definition new_bucket :: "bool \<Rightarrow> u32 \<Rightarrow> nat option \<Rightarrow> hash_state \<Rightarrow> hash_state option" where
  "new_bucket list_ok index node s =
     (case s of (h, nodes, recs) \<Rightarrow> do {
        (nodes1, l) \<leftarrow> list_push (list_create list_ok) node nodes;
        h1 \<leftarrow> set_bucket index l h;
        Some (h1\<lparr>numActiveSlots := numActiveSlots h1 + 1, numTotalElem := numTotalElem h1 + 1\<rparr>, nodes1, recs) })"

definition hash_set ::
  "u32 \<Rightarrow> nat option \<Rightarrow> bool \<Rightarrow> hash_t option \<Rightarrow> u32 \<Rightarrow> u32 \<Rightarrow> nodes \<times> records \<Rightarrow> (hash_t option \<times> nodes \<times> records) option" where
  "hash_set fresh_rec fresh_node list_ok hash key value store =
     (case (hash, store) of
        (None, (nodes, recs)) \<Rightarrow> Some (None, nodes, recs)
      | (Some h, (nodes, recs)) \<Rightarrow>
          let hKey = keyFunc h (h_size h) key in
          if hash_is_valid_index h hKey then do {
            let index = hash_key_to_index h hKey;
            let (record, recs1) = record_create fresh_rec key value recs;
            let (node, nodes1) = node_create fresh_node record nodes;
            l \<leftarrow> nth_chk (bucket h) (unat index);
            if l = None \<and> value \<noteq> 0 then map_option (apfst Some) (new_bucket list_ok index node (h, nodes1, recs1))
            else if l \<noteq> None then
              (if value = 0 then map_option (apfst Some) (remove_loop index node (h, nodes1, recs1))
               else map_option (apfst Some) (replace_entry index node (h, nodes1, recs1)))
            else do {
              (nodes2, recs2) \<leftarrow> destroy_entry node nodes1 recs1;
              Some (Some h, nodes2, recs2) } }
          else Some (Some h, nodes, recs))"

section \<open>Reading\<close>

text \<open>The value found, if any; the criterion of the search is allocated and freed.\<close>

definition hash_get ::
  "u32 \<Rightarrow> nat option \<Rightarrow> hash_t option \<Rightarrow> u32 \<Rightarrow> nodes \<times> records \<Rightarrow> (u32 option \<times> nodes \<times> records) option" where
  "hash_get fresh_rec fresh_node hash key store =
     (case (hash, store) of
        (None, (nodes, recs)) \<Rightarrow> Some (None, nodes, recs)
      | (Some h, (nodes, recs)) \<Rightarrow>
          let hKey = keyFunc h (h_size h) key in
          if 0 < numActiveSlots h \<and> hash_is_valid_index h hKey then do {
            l \<leftarrow> nth_chk (bucket h) (unat (hash_key_to_index h hKey));
            if l \<noteq> None then do {
              let (record, recs1) = record_create fresh_rec key 0 recs;
              let (node, nodes1) = node_create fresh_node record nodes;
              desired \<leftarrow> list_search l node (hash_compare_record recs1) nodes1;
              found \<leftarrow> (case desired of
                  None \<Rightarrow> Some None
                | Some a \<Rightarrow> do { n \<leftarrow> nodes1 a; r \<leftarrow> recs1 (n_data n); Some (Some (rec_value r)) });
              (_, nodes2) \<leftarrow> node_destroy node nodes1;
              Some (found, nodes2, record_destroy record recs1) }
            else Some (None, nodes, recs) }
          else Some (None, nodes, recs))"

text \<open>
  \<open>hash_clean\<close> removes one element. \<open>index\<close> is its static variable; the loop reads the slot before it tests
  the index, so it reads one slot past the table when none is left above \<open>index\<close>.
\<close>

partial_function (option) clean_scan :: "list_t option list \<Rightarrow> u32 \<Rightarrow> u32 \<Rightarrow> u32 option" where
  "clean_scan bs slots index = do {
     l \<leftarrow> nth_chk bs (unat index);
     if l = None \<and> index < slots then clean_scan bs slots (index + 1) else Some index }"

definition hash_clean ::
  "hash_t option \<Rightarrow> u32 \<Rightarrow> nodes \<times> records \<Rightarrow> (u32 \<times> u32 option \<times> u32 \<times> hash_t option \<times> nodes) option" where
  "hash_clean hash index store =
     (case (hash, store) of
        (None, (nodes, recs)) \<Rightarrow> Some (0, None, index, None, nodes)
      | (Some h, (nodes, recs)) \<Rightarrow>
          if 0 < numActiveSlots h then do {
            i \<leftarrow> clean_scan (bucket h) (numSlots h) index;
            let i = (if numSlots h \<le> i then 0 else i);
            l \<leftarrow> nth_chk (bucket h) (unat i);
            (node, nodes1, l1) \<leftarrow> list_pop l nodes;
            h1 \<leftarrow> set_bucket i l1 h;
            (case node of
               None \<Rightarrow> Some (numTotalElem h1, None, i, Some h1, nodes1)
             | Some a \<Rightarrow> do {
                 n \<leftarrow> nodes1 a;
                 r \<leftarrow> recs (n_data n);
                 let h2 = h1\<lparr>numTotalElem := numTotalElem h1 - 1\<rparr>;
                 len \<leftarrow> list_length l1 nodes1;
                 (h3, nodes2) \<leftarrow> (if len = 0 then do {
                       nodes2 \<leftarrow> list_destroy l1 nodes1;
                       h3 \<leftarrow> set_bucket i None (h2\<lparr>numActiveSlots := numActiveSlots h2 - 1\<rparr>);
                       Some (h3, nodes2) }
                     else Some (h2, nodes1));
                 Some (numTotalElem h3, Some (rec_value r), i, Some h3, nodes2) }) }
          else Some (0, None, index, hash, nodes))"

definition hash_length :: "hash_t option \<Rightarrow> u32" where
  "hash_length hash = (case hash of None \<Rightarrow> 0 | Some h \<Rightarrow> numTotalElem h)"

end
