(* ===== verification/Sosal_ListSpec.thy ===== *)
theory Sosal_ListSpec
  imports Sosal_List "HOL-Library.Multiset"
begin

text \<open>
  The doubly linked list against its abstraction, the sequence of addresses from head to tail. Every
  operation is shown to refine the operation on sequences, never to fault or loop on a well-formed
  list, and to leave every other node and all the data alone.
\<close>

section \<open>The abstraction\<close>

text \<open>\<open>fopt xs q\<close> is the first address of \<open>xs\<close>, or \<open>q\<close> if there is none; \<open>lopt p xs\<close> is the last.\<close>

definition fopt :: "nat list \<Rightarrow> nat option \<Rightarrow> nat option" where
  "fopt xs q = (case xs of [] \<Rightarrow> q | x # _ \<Rightarrow> Some x)"

definition lopt :: "nat option \<Rightarrow> nat list \<Rightarrow> nat option" where
  "lopt p xs = (if xs = [] then p else Some (last xs))"

lemma fopt_simps [simp]: "fopt [] q = q" "fopt (x # xs) q = Some x" "fopt (xs @ ys) q = fopt xs (fopt ys q)"
  by (auto simp: fopt_def split: list.splits)

lemma lopt_simps [simp]: "lopt p [] = p" "lopt p (x # xs) = lopt (Some x) xs" "lopt p (xs @ ys) = lopt (lopt p xs) ys"
  by (auto simp: lopt_def)

lemma fopt_eq: "fopt xs q = Some x \<Longrightarrow> x \<in> set xs \<or> q = Some x"
  by (cases xs) auto

lemma lopt_eq: "lopt p xs = Some x \<Longrightarrow> x \<in> set xs \<or> p = Some x"
  by (auto simp: lopt_def split: if_splits)

lemma fopt_None [simp]: "fopt xs q = None \<longleftrightarrow> xs = [] \<and> q = None"
  by (cases xs) auto

lemma lopt_None [simp]: "lopt p xs = None \<longleftrightarrow> xs = [] \<and> p = None"
  by (auto simp: lopt_def)

text \<open>A chain of linked nodes, entered from \<open>p\<close> and left to \<open>q\<close>.\<close>

fun seg :: "nodes \<Rightarrow> nat option \<Rightarrow> nat list \<Rightarrow> nat option \<Rightarrow> bool" where
  "seg h p [] q = True"
| "seg h p (a # as) q = ((\<exists>d. h a = Some \<lparr>n_next = fopt as q, n_prev = p, n_data = d\<rparr>) \<and> seg h (Some a) as q)"

definition dll :: "nodes \<Rightarrow> list_t \<Rightarrow> nat list \<Rightarrow> bool" where
  "dll h l xs \<longleftrightarrow> distinct xs \<and> seg h None xs None \<and> l_head l = fopt xs None \<and> l_tail l = lopt None xs"

text \<open>Nodes outside \<open>S\<close> are untouched and no node's data has changed.\<close>

definition frame :: "nat set \<Rightarrow> nodes \<Rightarrow> nodes \<Rightarrow> bool" where
  "frame S h h' \<longleftrightarrow> (\<forall>b. b \<notin> S \<longrightarrow> h' b = h b) \<and> (\<forall>b. map_option n_data (h' b) = map_option n_data (h b))"

lemma seg_append: "seg h p (xs @ ys) q \<longleftrightarrow> seg h p xs (fopt ys q) \<and> seg h (lopt p xs) ys q"
  by (induction xs arbitrary: p) auto

lemma seg_cong: "(\<And>a. a \<in> set xs \<Longrightarrow> h' a = h a) \<Longrightarrow> seg h' p xs q = seg h p xs q"
  by (induction xs arbitrary: p) auto

lemma seg_alloc: "seg h p xs q \<Longrightarrow> a \<in> set xs \<Longrightarrow> h a \<noteq> None"
  by (induction xs arbitrary: p) auto

text \<open>Splitting off the last node, whose link to the right the operations change.\<close>

lemma seg_snoc: "seg h p (xs @ [a]) q \<longleftrightarrow>
    seg h p xs (Some a) \<and> (\<exists>d. h a = Some \<lparr>n_next = q, n_prev = lopt p xs, n_data = d\<rparr>)"
  by (simp add: seg_append)

lemma dll_empty: "dll h l [] \<longleftrightarrow> l = \<lparr>l_head = None, l_tail = None\<rparr>"
  by (cases l) (simp add: dll_def)

lemma dll_Nil_head: "dll h l xs \<Longrightarrow> l_head l = None \<longleftrightarrow> xs = []"
  "dll h l xs \<Longrightarrow> l_tail l = None \<longleftrightarrow> xs = []"
  by (auto simp: dll_def)

lemmas link_defs = set_next_def set_prev_def get_next_def get_prev_def

section \<open>Both ends\<close>

lemma list_append_dll:
  assumes "dll h l xs" "a \<notin> set xs" "h a \<noteq> None"
  shows "\<exists>h' l'. list_append (Some l) (Some a) h = Some (h', Some l') \<and> dll h' l' (xs @ [a]) \<and>
           frame (insert a (set xs)) h h'"
proof -
  obtain n where n: "h a = Some n" using assms(3) by blast
  show ?thesis
  proof (cases xs rule: rev_cases)
    case Nil
    then show ?thesis using assms n
      by (cases n) (auto simp: list_append_def dll_def link_defs frame_def)
  next
    case (snoc ys t)
    have d: "distinct ys" "t \<notin> set ys" "a \<notin> set ys" "t \<noteq> a" using assms(1,2) snoc by (auto simp: dll_def)
    obtain dt where t: "h t = Some \<lparr>n_next = None, n_prev = lopt None ys, n_data = dt\<rparr>"
      and ys: "seg h None ys (Some t)"
      using assms(1) snoc by (auto simp: dll_def seg_snoc)
    let ?h = "h(t \<mapsto> \<lparr>n_next = Some a, n_prev = lopt None ys, n_data = dt\<rparr>,
                a \<mapsto> \<lparr>n_next = None, n_prev = Some t, n_data = n_data n\<rparr>)"
    have "seg ?h None ys (Some t)" using ys d by (subst seg_cong[of ys ?h h]) auto
    then have "seg ?h None (xs @ [a]) None" using d snoc by (simp add: seg_append)
    moreover have "list_append (Some l) (Some a) h = Some (?h, Some (l\<lparr>l_tail := Some a\<rparr>))"
      using assms(1) snoc t n d by (cases l, cases n) (simp add: list_append_def dll_def link_defs fun_upd_twist)
    moreover have "frame (insert a (set xs)) h ?h"
      using t n snoc by (auto simp: frame_def)
    moreover have "distinct (xs @ [a])" using assms(1,2) by (simp add: dll_def)
    ultimately show ?thesis using assms(1) snoc d by (auto simp: dll_def)
  qed
qed

lemma list_push_dll:
  assumes "dll h l xs" "a \<notin> set xs" "h a \<noteq> None"
  shows "\<exists>h' l'. list_push (Some l) (Some a) h = Some (h', Some l') \<and> dll h' l' (a # xs) \<and>
           frame (insert a (set xs)) h h'"
proof -
  obtain n where n: "h a = Some n" using assms(3) by blast
  show ?thesis
  proof (cases xs)
    case Nil
    then show ?thesis using assms n
      by (cases n) (auto simp: list_push_def dll_def link_defs frame_def)
  next
    case (Cons t ys)
    have d: "t \<notin> set ys" "a \<notin> set ys" "t \<noteq> a" using assms(1,2) Cons by (auto simp: dll_def)
    obtain dt where t: "h t = Some \<lparr>n_next = fopt ys None, n_prev = None, n_data = dt\<rparr>"
      and ys: "seg h (Some t) ys None"
      using assms(1) Cons by (auto simp: dll_def)
    let ?h = "h(t \<mapsto> \<lparr>n_next = fopt ys None, n_prev = Some a, n_data = dt\<rparr>,
                a \<mapsto> \<lparr>n_next = Some t, n_prev = None, n_data = n_data n\<rparr>)"
    have "seg ?h (Some t) ys None" using ys d by (subst seg_cong[of ys ?h h]) auto
    then have "seg ?h None (a # xs) None" using d Cons by simp
    moreover have "list_push (Some l) (Some a) h = Some (?h, Some (l\<lparr>l_head := Some a\<rparr>))"
      using assms(1) Cons t n d by (cases l, cases n) (simp add: list_push_def dll_def link_defs fun_upd_twist)
    moreover have "frame (insert a (set xs)) h ?h"
      using t n Cons by (auto simp: frame_def)
    ultimately show ?thesis using assms(1,2) Cons d by (auto simp: dll_def)
  qed
qed

lemma list_pop_empty: "dll h l [] \<Longrightarrow> list_pop (Some l) h = Some (None, h, Some l)"
  by (simp add: list_pop_def dll_def)

lemma list_trim_empty: "dll h l [] \<Longrightarrow> list_trim (Some l) h = Some (None, h, Some l)"
  by (simp add: list_trim_def dll_def)

lemma list_pop_dll:
  assumes "dll h l (a # xs)"
  shows "\<exists>h' l'. list_pop (Some l) h = Some (Some a, h', Some l') \<and> dll h' l' xs \<and>
           (\<exists>d. h' a = Some \<lparr>n_next = None, n_prev = None, n_data = d\<rparr>) \<and> frame (insert a (set xs)) h h'"
proof -
  obtain da where a: "h a = Some \<lparr>n_next = fopt xs None, n_prev = None, n_data = da\<rparr>"
    and xs: "seg h (Some a) xs None" "a \<notin> set xs" "distinct xs"
    using assms by (auto simp: dll_def)
  show ?thesis
  proof (cases xs)
    case Nil
    then show ?thesis using assms a
      by (cases l) (auto simp: list_pop_def dll_def link_defs frame_def)
  next
    case (Cons t ys)
    have d: "t \<notin> set ys" "a \<notin> set ys" "t \<noteq> a" using xs Cons by auto
    obtain dt where t: "h t = Some \<lparr>n_next = fopt ys None, n_prev = Some a, n_data = dt\<rparr>"
      and ys: "seg h (Some t) ys None"
      using xs(1) Cons by auto
    let ?h = "h(t \<mapsto> \<lparr>n_next = fopt ys None, n_prev = None, n_data = dt\<rparr>,
                a \<mapsto> \<lparr>n_next = None, n_prev = None, n_data = da\<rparr>)"
    have "seg ?h (Some t) ys None" using ys d by (subst seg_cong[of ys ?h h]) auto
    then have "dll ?h (l\<lparr>l_head := Some t\<rparr>) xs" using assms xs d Cons by (auto simp: dll_def)
    moreover have "list_pop (Some l) h = Some (Some a, ?h, Some (l\<lparr>l_head := Some t\<rparr>))"
      using assms Cons t a d by (cases l) (simp add: list_pop_def dll_def link_defs fun_upd_twist lopt_def)
    moreover have "frame (insert a (set xs)) h ?h"
      using t a Cons by (auto simp: frame_def)
    ultimately show ?thesis by auto
  qed
qed

lemma list_trim_dll:
  assumes "dll h l (xs @ [a])"
  shows "\<exists>h' l'. list_trim (Some l) h = Some (Some a, h', Some l') \<and> dll h' l' xs \<and>
           (\<exists>d. h' a = Some \<lparr>n_next = None, n_prev = None, n_data = d\<rparr>) \<and> frame (insert a (set xs)) h h'"
proof -
  obtain da where a: "h a = Some \<lparr>n_next = None, n_prev = lopt None xs, n_data = da\<rparr>"
    and xs: "seg h None xs (Some a)" "a \<notin> set xs" "distinct xs"
    using assms by (auto simp: dll_def seg_snoc)
  show ?thesis
  proof (cases xs rule: rev_cases)
    case Nil
    then show ?thesis using assms a
      by (cases l) (auto simp: list_trim_def dll_def link_defs frame_def)
  next
    case (snoc ys t)
    have d: "t \<notin> set ys" "a \<notin> set ys" "t \<noteq> a" using xs snoc by auto
    obtain dt where t: "h t = Some \<lparr>n_next = Some a, n_prev = lopt None ys, n_data = dt\<rparr>"
      and ys: "seg h None ys (Some t)"
      using xs(1) snoc by (auto simp: seg_snoc)
    let ?h = "h(t \<mapsto> \<lparr>n_next = None, n_prev = lopt None ys, n_data = dt\<rparr>,
                a \<mapsto> \<lparr>n_next = None, n_prev = None, n_data = da\<rparr>)"
    have "seg ?h None ys (Some t)" using ys d by (subst seg_cong[of ys ?h h]) auto
    then have "dll ?h (l\<lparr>l_tail := Some t\<rparr>) xs" using assms xs d snoc by (auto simp: dll_def seg_snoc)
    moreover have "list_trim (Some l) h = Some (Some a, ?h, Some (l\<lparr>l_tail := Some t\<rparr>))"
      using assms snoc t a d by (cases l) (simp add: list_trim_def dll_def link_defs fun_upd_twist)
    moreover have "frame (insert a (set xs)) h ?h"
      using t a snoc by (auto simp: frame_def)
    ultimately show ?thesis by auto
  qed
qed

section \<open>Taking a node out of the middle, putting one in\<close>

lemma dll_split:
  assumes "dll h l (xs @ a # ys)"
  obtains d where "h a = Some \<lparr>n_next = fopt ys None, n_prev = lopt None xs, n_data = d\<rparr>"
    "seg h None xs (Some a)" "seg h (Some a) ys None" "a \<notin> set xs" "a \<notin> set ys" "distinct (xs @ ys)"
    "l_head l = fopt xs (Some a)" "l_tail l = lopt (Some a) ys"
  using assms by (auto simp: dll_def seg_append)

lemma extract_middle:
  assumes "dll h l (xs @ t # a # y # ys)"
  shows "\<exists>h'. list_extract (Some l) (Some a) h = Some (Some a, h', Some l) \<and> dll h' l (xs @ t # y # ys) \<and>
           frame (set (xs @ t # a # y # ys)) h h'"
proof -
  have dist: "distinct (xs @ t # a # y # ys)" using assms by (simp add: dll_def)
  obtain dt da dy where n: "h t = Some \<lparr>n_next = Some a, n_prev = lopt None xs, n_data = dt\<rparr>"
    "h a = Some \<lparr>n_next = Some y, n_prev = Some t, n_data = da\<rparr>"
    "h y = Some \<lparr>n_next = fopt ys None, n_prev = Some a, n_data = dy\<rparr>"
    and s: "seg h None xs (Some t)" "seg h (Some y) ys None"
    using assms by (auto simp: dll_def seg_append)
  let ?h = "h(y \<mapsto> \<lparr>n_next = fopt ys None, n_prev = Some t, n_data = dy\<rparr>,
              t \<mapsto> \<lparr>n_next = Some y, n_prev = lopt None xs, n_data = dt\<rparr>,
              a \<mapsto> \<lparr>n_next = None, n_prev = None, n_data = da\<rparr>)"
  have "seg ?h None xs (Some t)" "seg ?h (Some y) ys None"
    using s dist by (subst seg_cong[of _ ?h h]; auto)+
  then have "dll ?h l (xs @ t # y # ys)"
    using dist assms by (auto simp: dll_def seg_append)
  moreover have "list_extract (Some l) (Some a) h = Some (Some a, ?h, Some l)"
    using n dist assms by (simp add: list_extract_def link_defs dll_def)
  moreover have "frame (set (xs @ t # a # y # ys)) h ?h" using n by (auto simp: frame_def)
  ultimately show ?thesis by blast
qed

lemma list_extract_dll:
  assumes "dll h l (xs @ a # ys)"
  shows "\<exists>h' l'. list_extract (Some l) (Some a) h = Some (Some a, h', Some l') \<and> dll h' l' (xs @ ys) \<and>
           frame (set (xs @ a # ys)) h h'"
proof -
  obtain d where a: "h a = Some \<lparr>n_next = fopt ys None, n_prev = lopt None xs, n_data = d\<rparr>"
    and ends: "l_head l = fopt xs (Some a)" "l_tail l = lopt (Some a) ys"
    by (rule dll_split[OF assms])
  have some: "l_head l \<noteq> None" "l_tail l \<noteq> None" using ends by auto
  consider (head) "xs = []" | (tail) "xs \<noteq> []" "ys = []"
    | (middle) xs' t y ys' where "xs = xs' @ [t]" "ys = y # ys'"
    by (metis neq_Nil_conv rev_exhaust)
  then show ?thesis
  proof cases
    case head
    then obtain h' l' da where pop: "list_pop (Some l) h = Some (Some a, h', Some l')" "dll h' l' ys"
      "h' a = Some \<lparr>n_next = None, n_prev = None, n_data = da\<rparr>" "frame (insert a (set ys)) h h'"
      using list_pop_dll[of h l a ys] assms by auto
    have same: "h'(a \<mapsto> \<lparr>n_next = None, n_prev = None, n_data = da\<rparr>) = h'"
      using pop(3) by (simp add: fun_upd_idem)
    show ?thesis using pop same head a some
      by (cases ys) (auto simp: list_extract_def get_next_def get_prev_def link_defs)
  next
    case tail
    then obtain h' l' da where trim: "list_trim (Some l) h = Some (Some a, h', Some l')" "dll h' l' xs"
      "h' a = Some \<lparr>n_next = None, n_prev = None, n_data = da\<rparr>" "frame (insert a (set xs)) h h'"
      using list_trim_dll[of h l xs a] assms by auto
    have same: "h'(a \<mapsto> \<lparr>n_next = None, n_prev = None, n_data = da\<rparr>) = h'"
      using trim(3) by (simp add: fun_upd_idem)
    obtain t where "lopt None xs = Some t" using tail by (cases "lopt None xs") auto
    then show ?thesis using tail a some trim same
      by (auto simp: list_extract_def link_defs)
  next
    case middle
    then show ?thesis using extract_middle[of h l xs' t a y ys'] assms by auto
  qed
qed

lemma link_before_dll:
  assumes "dll h l (xs @ b # ys)" "a \<notin> set (xs @ b # ys)" "h a \<noteq> None"
  shows "\<exists>h' l'. link_before l (Some a) b h = Some (Some a, h', Some l') \<and> dll h' l' (xs @ a # b # ys) \<and>
           frame (insert a (set (xs @ b # ys))) h h'"
proof -
  obtain n where n: "h a = Some n" using assms(3) by blast
  obtain db where b: "h b = Some \<lparr>n_next = fopt ys None, n_prev = lopt None xs, n_data = db\<rparr>"
    and s: "seg h None xs (Some b)" "seg h (Some b) ys None"
    and d: "b \<notin> set xs" "b \<notin> set ys" "distinct (xs @ ys)"
    and ends: "l_head l = fopt xs (Some b)" "l_tail l = lopt (Some b) ys"
    by (rule dll_split[OF assms(1)])
  have da: "a \<noteq> b" "a \<notin> set xs" "a \<notin> set ys" using assms(2) by auto
  show ?thesis
  proof (cases xs rule: rev_cases)
    case Nil
    let ?h = "h(a \<mapsto> \<lparr>n_next = Some b, n_prev = None, n_data = n_data n\<rparr>,
                b \<mapsto> \<lparr>n_next = fopt ys None, n_prev = Some a, n_data = db\<rparr>)"
    have "seg ?h (Some b) ys None" using s d da by (subst seg_cong[of _ ?h h]) auto
    then have "dll ?h (l\<lparr>l_head := Some a\<rparr>) (a # b # ys)" using d da ends Nil by (auto simp: dll_def)
    moreover have "link_before l (Some a) b h = Some (Some a, ?h, Some (l\<lparr>l_head := Some a\<rparr>))"
      using n b da ends Nil by (cases n) (simp add: link_before_def link_defs fun_upd_twist)
    moreover have "frame (insert a (set (xs @ b # ys))) h ?h" using n b by (auto simp: frame_def)
    ultimately show ?thesis using Nil by auto
  next
    case (snoc ts t)
    obtain dt where t: "h t = Some \<lparr>n_next = Some b, n_prev = lopt None ts, n_data = dt\<rparr>"
      and ts: "seg h None ts (Some t)" using s(1) snoc by (auto simp: seg_snoc)
    have dt: "t \<noteq> a" "t \<noteq> b" "t \<notin> set ts" "t \<notin> set ys" "a \<notin> set ts" "b \<notin> set ts"
      using d da snoc by auto
    let ?h = "h(a \<mapsto> \<lparr>n_next = Some b, n_prev = Some t, n_data = n_data n\<rparr>,
                t \<mapsto> \<lparr>n_next = Some a, n_prev = lopt None ts, n_data = dt\<rparr>,
                b \<mapsto> \<lparr>n_next = fopt ys None, n_prev = Some a, n_data = db\<rparr>)"
    have "seg ?h (Some b) ys None" "seg ?h None ts (Some t)"
      using s ts d da dt by (subst seg_cong[of _ ?h h]; auto)+
    then have "dll ?h l (xs @ a # b # ys)"
      using d da dt ends snoc by (auto simp: dll_def seg_append)
    moreover have "link_before l (Some a) b h = Some (Some a, ?h, Some l)"
      using n b t da dt d ends snoc by (cases n, cases ts) (simp_all add: link_before_def link_defs fun_upd_twist)
    moreover have "frame (insert a (set (xs @ b # ys))) h ?h" using n b t snoc by (auto simp: frame_def)
    ultimately show ?thesis by auto
  qed
qed

lemma link_after_dll:
  assumes "dll h l (xs @ b # ys)" "a \<notin> set (xs @ b # ys)" "h a \<noteq> None"
  shows "\<exists>h' l'. link_after l (Some a) b h = Some (Some a, h', Some l') \<and> dll h' l' (xs @ b # a # ys) \<and>
           frame (insert a (set (xs @ b # ys))) h h'"
proof -
  obtain n where n: "h a = Some n" using assms(3) by blast
  obtain db where b: "h b = Some \<lparr>n_next = fopt ys None, n_prev = lopt None xs, n_data = db\<rparr>"
    and s: "seg h None xs (Some b)" "seg h (Some b) ys None"
    and d: "b \<notin> set xs" "b \<notin> set ys" "distinct (xs @ ys)"
    and ends: "l_head l = fopt xs (Some b)" "l_tail l = lopt (Some b) ys"
    by (rule dll_split[OF assms(1)])
  have da: "a \<noteq> b" "a \<notin> set xs" "a \<notin> set ys" using assms(2) by auto
  show ?thesis
  proof (cases ys)
    case Nil
    let ?h = "h(a \<mapsto> \<lparr>n_next = None, n_prev = Some b, n_data = n_data n\<rparr>,
                b \<mapsto> \<lparr>n_next = Some a, n_prev = lopt None xs, n_data = db\<rparr>)"
    have "seg ?h None xs (Some b)" using s d da by (subst seg_cong[of _ ?h h]) auto
    then have "dll ?h (l\<lparr>l_tail := Some a\<rparr>) (xs @ [b, a])" using d da ends Nil by (auto simp: dll_def seg_append)
    moreover have "link_after l (Some a) b h = Some (Some a, ?h, Some (l\<lparr>l_tail := Some a\<rparr>))"
      using n b da ends Nil by (cases n) (simp add: link_after_def link_defs fun_upd_twist)
    moreover have "frame (insert a (set (xs @ b # ys))) h ?h" using n b by (auto simp: frame_def)
    ultimately show ?thesis using Nil by auto
  next
    case (Cons t ts)
    obtain dt where t: "h t = Some \<lparr>n_next = fopt ts None, n_prev = Some b, n_data = dt\<rparr>"
      and ts: "seg h (Some t) ts None" using s(2) Cons by auto
    have dt: "t \<noteq> a" "t \<noteq> b" "t \<notin> set ts" "t \<notin> set xs" "a \<notin> set ts" "b \<notin> set ts"
      using d da Cons by auto
    let ?h = "h(a \<mapsto> \<lparr>n_next = Some t, n_prev = Some b, n_data = n_data n\<rparr>,
                t \<mapsto> \<lparr>n_next = fopt ts None, n_prev = Some a, n_data = dt\<rparr>,
                b \<mapsto> \<lparr>n_next = Some a, n_prev = lopt None xs, n_data = db\<rparr>)"
    have "seg ?h None xs (Some b)" "seg ?h (Some t) ts None"
      using s ts d da dt by (subst seg_cong[of _ ?h h]; auto)+
    then have "dll ?h l (xs @ b # a # ys)"
      using d da dt ends Cons by (auto simp: dll_def seg_append)
    moreover have "l_tail l \<noteq> Some b" using ends(2) d(2) Cons by (auto dest!: lopt_eq)
    then have "link_after l (Some a) b h = Some (Some a, ?h, Some l)"
      using n b t da dt Cons by (cases n) (simp add: link_after_def link_defs fun_upd_twist)
    moreover have "frame (insert a (set (xs @ b # ys))) h ?h" using n b t Cons by (auto simp: frame_def)
    ultimately show ?thesis by auto
  qed
qed

section \<open>Walks\<close>

declare search_loop.simps [code] length_loop.simps [code]

lemma search_loop_seg:
  assumes "seg h p xs None" "h b = Some nb"
  shows "search_loop compare (Some b) (fopt xs None) h = Some (List.find (\<lambda>a. compare (h a) (h b) = 0) xs)"
  using assms(1)
proof (induction xs arbitrary: p)
  case Nil
  then show ?case by (simp add: search_loop.simps)
next
  case (Cons a xs)
  then show ?case using assms(2)
    by (subst search_loop.simps) (auto simp: node_at_def get_next_def)
qed

lemma list_search_dll:
  assumes "dll h l xs" "h b \<noteq> None"
  shows "list_search (Some l) (Some b) compare h = Some (List.find (\<lambda>a. compare (h a) (h b) = 0) xs)"
  using assms search_loop_seg[of h None xs b _ compare] by (auto simp: list_search_def dll_def)

lemma length_loop_seg:
  assumes "seg h p xs None" "k + length xs < size_max"
  shows "length_loop (fopt xs None) k h = Some (k + length xs)"
  using assms
proof (induction xs arbitrary: p k)
  case Nil
  then show ?case by (simp add: length_loop.simps)
next
  case (Cons a xs)
  have "size_add k 1 = Suc k" using Cons.prems(2) by (simp add: size_add_eq)
  then show ?case using Cons.IH[of "Some a" "Suc k"] Cons.prems
    by (subst length_loop.simps) (auto simp: get_next_def)
qed

lemma list_length_dll: "dll h l xs \<Longrightarrow> length xs < size_max \<Longrightarrow> list_length (Some l) h = Some (length xs)"
  using length_loop_seg[of h None xs 0] by (simp add: list_length_def dll_def)

text \<open>The data of a node, which no operation on links changes.\<close>

definition dat :: "nodes \<Rightarrow> nat \<Rightarrow> u32" where
  "dat ns a = n_data (the (ns a))"

lemma frame_dat: "frame S ns ns' \<Longrightarrow> dat ns' a = dat ns a"
  unfolding frame_def dat_def by (cases "ns a"; cases "ns' a") (metis option.simps(8,9) option.distinct(1) option.sel)+

lemma dll_cong: "dll ns l xs \<Longrightarrow> (\<And>a. a \<in> set xs \<Longrightarrow> ns' a = ns a) \<Longrightarrow> dll ns' l xs"
  using seg_cong[of xs ns' ns] by (simp add: dll_def)

lemma dll_alloc: "dll h l xs \<Longrightarrow> a \<in> set xs \<Longrightarrow> h a \<noteq> None"
  using seg_alloc by (auto simp: dll_def)

lemma dll_frame: "dll h l xs \<Longrightarrow> frame A h h' \<Longrightarrow> A \<inter> set xs = {} \<Longrightarrow> dll h' l xs"
  unfolding dll_def frame_def using seg_cong[of xs h' h] by blast

lemma frame_dat_fun: "frame A h h' \<Longrightarrow> dat h' = dat h"
  by (rule ext) (rule frame_dat)

lemma list_remove_match_dll:
  assumes "dll h l xs" "h b \<noteq> None"
  shows "case List.find (\<lambda>a. compare (h a) (h b) = 0) xs of
      None \<Rightarrow> list_remove_match (Some l) (Some b) compare h = Some (None, h, Some l)
    | Some a \<Rightarrow> \<exists>h' l'. list_remove_match (Some l) (Some b) compare h = Some (Some a, h', Some l') \<and>
        dll h' l' (remove1 a xs) \<and> frame (set xs) h h'"
proof (cases "List.find (\<lambda>a. compare (h a) (h b) = 0) xs")
  case None
  then show ?thesis using list_search_dll[OF assms, of compare] by (simp add: list_remove_match_def)
next
  case (Some a)
  then have "a \<in> set xs" by (auto simp: find_Some_iff)
  then obtain ys zs where xs: "xs = ys @ a # zs" by (meson split_list)
  then have "a \<notin> set ys" using assms(1) by (simp add: dll_def)
  then have r: "remove1 a xs = ys @ zs" using xs by (simp add: remove1_append)
  show ?thesis
    using list_search_dll[OF assms, of compare] list_extract_dll[of h l ys a zs] assms(1) Some xs r
    by (auto simp: list_remove_match_def)
qed

definition better :: "(nat \<Rightarrow> u32) \<Rightarrow> nat \<Rightarrow> nat option \<times> u32 \<Rightarrow> nat option \<times> u32" where
  "better f a br = (if snd br < f a then (Some a, f a) else br)"

lemma score_loop_seg:
  assumes "seg h p xs None" "distinct xs" "h b = Some nb"
  shows "score_loop rate_f (Some b) (fopt xs None) br h = Some (fst (fold (better (\<lambda>a. rate_f (h a) (h b))) xs br))"
  using assms(1,2)
proof (induction xs arbitrary: p br)
  case Nil
  then show ?case by (simp add: score_loop.simps)
next
  case (Cons a xs)
  let ?f = "\<lambda>a. rate_f (h a) (h b)"
  have ne: "Some a \<noteq> fopt xs None" using Cons.prems(2) by (cases xs) auto
  obtain d where a: "h a = Some \<lparr>n_next = fopt xs None, n_prev = p, n_data = d\<rparr>" using Cons.prems(1) by auto
  have at: "node_at (Some a) h = Some (h a)" "node_at (Some b) h = Some (h b)" "get_next a h = Some (fopt xs None)"
    using a assms(3) by (simp_all add: node_at_def get_next_def)
  have "score_loop rate_f (Some b) (fopt (a # xs) None) br h =
      score_loop rate_f (Some b) (fopt xs None) (better ?f a br) h"
    using ne by (subst score_loop.simps) (simp add: at Let_def better_def)
  then show ?case using Cons.IH[of "Some a" "better ?f a br"] Cons.prems by simp
qed

lemma better_max:
  "case fold (better f) xs (b, r) of (b', r') \<Rightarrow>
     r \<le> r' \<and> (\<forall>a\<in>set xs. f a \<le> r') \<and> ((b', r') = (b, r) \<or> (\<exists>a\<in>set xs. b' = Some a \<and> f a = r' \<and> r < r'))"
proof (induction xs arbitrary: b r)
  case (Cons a xs)
  show ?case
  proof (cases "r < f a")
    case True
    then show ?thesis using Cons.IH[where b = "Some a" and r = "f a"] by (fastforce simp: better_def split: prod.splits)
  next
    case False
    then show ?thesis using Cons.IH[where b = b and r = r] by (fastforce simp: better_def split: prod.splits)
  qed
qed simp

section \<open>Sorted insertion\<close>

text \<open>\<open>key_by k h a\<close>: the key that \<open>k\<close> reads from the data of node \<open>a\<close>.\<close>

definition key_by :: "(u32 \<Rightarrow> u32) \<Rightarrow> nodes \<Rightarrow> nat \<Rightarrow> u32" where
  "key_by k h a = k (n_data (the (h a)))"

definition key :: "nodes \<Rightarrow> nat \<Rightarrow> u32" where
  "key h a = n_data (the (h a))"

definition in_order :: "bool \<Rightarrow> u32 \<Rightarrow> u32 \<Rightarrow> bool" where
  "in_order asc x y = (if asc then x \<le> y else y \<le> x)"

lemma in_order_total: "\<not> in_order asc x y \<Longrightarrow> in_order asc y x"
  by (auto simp: in_order_def split: if_splits)

lemma in_order_trans: "in_order asc x y \<Longrightarrow> in_order asc y z \<Longrightarrow> in_order asc x z"
  by (auto simp: in_order_def split: if_splits)

lemma frame_key_by: "frame S h h' \<Longrightarrow> key_by k h' a = key_by k h a"
  unfolding frame_def key_by_def by (cases "h a"; cases "h' a") (metis option.simps(8,9) option.distinct(1) option.sel)+

text \<open>
  The comparison functions that the users of a list pass: they compare the keys of the nodes' data, where
  the data is valid, and treat the null node behind the last one as equal.
\<close>

locale node_order =
  fixes compare :: node_compare_f and k :: "u32 \<Rightarrow> u32" and valid :: "u32 \<Rightarrow> bool"
  assumes compare_less: "valid (n_data x) \<Longrightarrow> valid (n_data y) \<Longrightarrow> compare (Some x) (Some y) < 0 \<longleftrightarrow> k (n_data x) < k (n_data y)"
    and compare_greater: "valid (n_data x) \<Longrightarrow> valid (n_data y) \<Longrightarrow> compare (Some x) (Some y) > 0 \<longleftrightarrow> k (n_data y) < k (n_data x)"
    and compare_null: "compare (Some x) None = 0"
begin

definition valid_at :: "nodes \<Rightarrow> nat \<Rightarrow> bool" where
  "valid_at h a \<longleftrightarrow> valid (n_data (the (h a)))"

definition sorted_by :: "bool \<Rightarrow> nodes \<Rightarrow> nat list \<Rightarrow> bool" where
  "sorted_by asc h xs \<longleftrightarrow> sorted_wrt (\<lambda>x y. in_order asc (key_by k h x) (key_by k h y)) xs"

lemma order:
  assumes "h a = Some na" "h b = Some nb" "valid_at h a" "valid_at h b"
  shows "(if asc then compare (h a) (h b) < 0 else compare (h a) (h b) > 0) \<longleftrightarrow> \<not> in_order asc (key_by k h b) (key_by k h a)"
    and "(if asc then compare (h b) (h a) \<le> 0 else compare (h b) (h a) \<ge> 0) \<longleftrightarrow> in_order asc (key_by k h b) (key_by k h a)"
  using assms compare_less[of na nb] compare_greater[of na nb] compare_less[of nb na] compare_greater[of nb na]
  by (auto simp: in_order_def key_by_def valid_at_def not_less not_le)

lemma equal_iff:
  assumes "valid_at h a" "valid_at h b" "h a \<noteq> None" "h b \<noteq> None"
  shows "compare (h a) (h b) = 0 \<longleftrightarrow> key_by k h a = key_by k h b"
  using assms compare_less[of "the (h a)" "the (h b)"] compare_greater[of "the (h a)" "the (h b)"]
  by (auto simp: key_by_def valid_at_def)

lemma frame_valid: "frame S h h' \<Longrightarrow> h a \<noteq> None \<Longrightarrow> valid_at h' a = valid_at h a"
  unfolding frame_def valid_at_def by (cases "h a"; cases "h' a") (metis option.simps(8,9) option.distinct(1) option.sel)+

lemma sorted_by_Nil [simp]: "sorted_by asc h []"
  by (simp add: sorted_by_def)

lemma sorted_by_single [simp]: "sorted_by asc h [a]"
  by (simp add: sorted_by_def)

lemma sorted_by_append:
  "sorted_by asc h (xs @ ys) \<longleftrightarrow> sorted_by asc h xs \<and> sorted_by asc h ys \<and>
     (\<forall>x\<in>set xs. \<forall>y\<in>set ys. in_order asc (key_by k h x) (key_by k h y))"
  by (auto simp: sorted_by_def sorted_wrt_append)

lemma sorted_by_Cons:
  "sorted_by asc h (x # xs) \<longleftrightarrow> (\<forall>y\<in>set xs. in_order asc (key_by k h x) (key_by k h y)) \<and> sorted_by asc h xs"
  by (simp add: sorted_by_def)

lemma sorted_by_frame: "frame S h h' \<Longrightarrow> sorted_by asc h' xs = sorted_by asc h xs"
  using frame_key_by[of S h h'] by (simp add: sorted_by_def)

lemma sorted_by_insert:
  assumes "sorted_by asc h (ps @ xs)" "\<forall>p\<in>set ps. in_order asc (key_by k h p) (key_by k h a)"
    "\<forall>x\<in>set xs. in_order asc (key_by k h a) (key_by k h x)"
  shows "sorted_by asc h (ps @ a # xs)"
  using assms by (auto simp: sorted_by_def sorted_wrt_append)

lemma insert_loop_sorted:
  assumes "dll h l (ps @ xs)" "xs \<noteq> []" "a \<notin> set (ps @ xs)" "h a \<noteq> None"
    and "\<forall>b\<in>insert a (set (ps @ xs)). valid_at h b"
    and "sorted_by asc h (ps @ xs)" "\<forall>p\<in>set ps. in_order asc (key_by k h p) (key_by k h a)"
  shows "\<exists>h' l' ys. insert_loop compare asc l (Some a) (fopt xs None) h = Some (Some a, h', Some l') \<and>
    dll h' l' ys \<and> mset ys = mset (a # ps @ xs) \<and> sorted_by asc h ys \<and> frame (insert a (set (ps @ xs))) h h'"
  using assms
proof (induction xs arbitrary: ps)
  case (Cons b xs)
  obtain na where na: "h a = Some na" using Cons.prems(4) by blast
  obtain db where b: "h b = Some \<lparr>n_next = fopt xs None, n_prev = lopt None ps, n_data = db\<rparr>"
    using dll_split[OF Cons.prems(1)] by blast
  have at: "node_at (Some a) h = Some (h a)" "node_at (Some b) h = Some (h b)" "get_next b h = Some (fopt xs None)"
    using na b by (simp_all add: node_at_def get_next_def)
  have va: "valid_at h a" "valid_at h b" using Cons.prems(5) by simp_all
  note ord = order[where asc = asc and a = a and b = b and h = h, OF na b va]
  have step: "insert_loop compare asc l (Some a) (fopt (b # xs) None) h =
      (if \<not> in_order asc (key_by k h b) (key_by k h a) then link_before l (Some a) b h
       else do {
         nq \<leftarrow> node_at (fopt xs None) h;
         if (if asc then compare (h a) nq \<le> 0 else compare (h a) nq \<ge> 0) then link_after l (Some a) b h
         else insert_loop compare asc l (Some a) (fopt xs None) h })"
    using ord by (subst insert_loop.simps) (simp add: at cong: if_cong bind_option_cong)
  show ?case
  proof (cases "in_order asc (key_by k h b) (key_by k h a)")
    case False
    have ab: "in_order asc (key_by k h a) (key_by k h b)" by (rule in_order_total[OF False])
    have tail: "\<forall>x\<in>set xs. in_order asc (key_by k h b) (key_by k h x)" using Cons.prems(6) by (auto simp: sorted_by_append sorted_by_Cons)
    have "sorted_by asc h (ps @ a # b # xs)"
    proof (rule sorted_by_insert)
      show "\<forall>x\<in>set (b # xs). in_order asc (key_by k h a) (key_by k h x)"
        using tail ab in_order_trans[OF ab] by auto
    qed (use Cons.prems(6,7) in auto)
    moreover obtain h' l' where "link_before l (Some a) b h = Some (Some a, h', Some l')" "dll h' l' (ps @ a # b # xs)"
      "frame (insert a (set (ps @ b # xs))) h h'"
      using link_before_dll[OF Cons.prems(1,3,4)] by blast
    ultimately show ?thesis using step False by (intro exI[of _ h'] exI[of _ l'] exI[of _ "ps @ a # b # xs"]) simp
  next
    case True
    have le: "\<forall>p\<in>set (ps @ [b]). in_order asc (key_by k h p) (key_by k h a)" using Cons.prems(7) True by auto
    show ?thesis
    proof (cases "\<exists>q qs. xs = q # qs \<and> \<not> in_order asc (key_by k h a) (key_by k h q)")
      case False
      have ge: "\<forall>x\<in>set xs. in_order asc (key_by k h a) (key_by k h x)"
      proof (cases xs)
        case (Cons q qs)
        then have "in_order asc (key_by k h a) (key_by k h q)" using False by blast
        moreover have "\<forall>x\<in>set qs. in_order asc (key_by k h q) (key_by k h x)"
          using Cons.prems(6) Cons by (auto simp: sorted_by_append sorted_by_Cons)
        ultimately show ?thesis using Cons in_order_trans by auto
      qed simp
      obtain nq where nq: "node_at (fopt xs None) h = Some nq"
        "if asc then compare (h a) nq \<le> 0 else compare (h a) nq \<ge> 0"
      proof (cases xs)
        case Nil
        then show ?thesis using that[of None] na by (simp add: node_at_def compare_null)
      next
        case (Cons q qs)
        obtain nq where q: "h q = Some nq"
          using Cons.prems(1) Cons seg_alloc[of h None _ None q] by (fastforce simp: dll_def)
        then have "if asc then compare (h a) (h q) \<le> 0 else compare (h a) (h q) \<ge> 0"
          using order(2)[of h q nq a na asc] na ge Cons Cons.prems(5) by simp
        then show ?thesis using that[of "h q"] q Cons by (simp add: node_at_def)
      qed
      have "sorted_by asc h ((ps @ [b]) @ a # xs)"
        using Cons.prems(6) le ge by (intro sorted_by_insert[of asc h "ps @ [b]" xs a]) simp_all
      moreover obtain h' l' where "link_after l (Some a) b h = Some (Some a, h', Some l')" "dll h' l' (ps @ b # a # xs)"
        "frame (insert a (set (ps @ b # xs))) h h'"
        using link_after_dll[OF Cons.prems(1,3,4)] by blast
      ultimately show ?thesis using step True nq
        by (intro exI[of _ h'] exI[of _ l'] exI[of _ "ps @ b # a # xs"]) simp
    next
      case True
      then obtain q qs where q: "xs = q # qs" "\<not> in_order asc (key_by k h a) (key_by k h q)" by blast
      obtain nq where hq: "h q = Some nq"
        using Cons.prems(1) q(1) seg_alloc[of h None _ None q] by (fastforce simp: dll_def)
      have at_q: "node_at (fopt xs None) h = Some (h q)" using hq q(1) by (simp add: node_at_def)
      have "\<not> (if asc then compare (h a) (h q) \<le> 0 else compare (h a) (h q) \<ge> 0)"
        using order(2)[of h q nq a na asc] hq na q Cons.prems(5) by simp
      then have eq: "insert_loop compare asc l (Some a) (fopt (b # xs) None) h =
          insert_loop compare asc l (Some a) (fopt xs None) h"
        unfolding step using \<open>in_order asc (key_by k h b) (key_by k h a)\<close>
        by (simp only: at_q bind.bind_lunit if_False if_True simp_thms)
      have "\<exists>h' l' ys. insert_loop compare asc l (Some a) (fopt xs None) h = Some (Some a, h', Some l') \<and>
        dll h' l' ys \<and> mset ys = mset (a # (ps @ [b]) @ xs) \<and> sorted_by asc h ys \<and>
        frame (insert a (set ((ps @ [b]) @ xs))) h h'"
        using Cons.prems le q(1) by (intro Cons.IH) auto
      then show ?thesis unfolding eq by simp
    qed
  qed
qed simp

lemma insert_dll:
  assumes l: "dll h l xs" and a: "a \<notin> set xs" "h a \<noteq> None" and sorted: "sorted_by asc h xs"
    and valid: "\<forall>b\<in>insert a (set xs). valid_at h b"
  shows "\<exists>h' l' ys. list_insert (Some l) (Some a) compare asc h = Some (Some a, h', Some l') \<and>
    dll h' l' ys \<and> mset ys = add_mset a (mset xs) \<and> sorted_by asc h' ys \<and> frame (insert a (set xs)) h h'"
proof (cases "xs = []")
  case True
  obtain n where n: "h a = Some n" using a(2) by blast
  let ?h = "h(a \<mapsto> \<lparr>n_next = None, n_prev = None, n_data = n_data n\<rparr>)"
  have "list_insert (Some l) (Some a) compare asc h = Some (Some a, ?h, Some \<lparr>l_head = Some a, l_tail = Some a\<rparr>)"
    using l True n by (cases l, cases n) (simp add: list_insert_def dll_def link_defs)
  moreover have "dll ?h \<lparr>l_head = Some a, l_tail = Some a\<rparr> [a]" by (simp add: dll_def)
  moreover have "frame {a} h ?h" using n by (simp add: frame_def)
  ultimately show ?thesis using True by (intro exI[of _ ?h] exI conjI) auto
next
  case False
  have "l_head l = fopt xs None" "l_head l \<noteq> None" using l False by (auto simp: dll_def)
  moreover obtain h' l' ys where ins: "insert_loop compare asc l (Some a) (fopt xs None) h = Some (Some a, h', Some l')"
    "dll h' l' ys" "mset ys = mset (a # [] @ xs)" "sorted_by asc h ys" "frame (insert a (set xs)) h h'"
    using insert_loop_sorted[of h l "[]" xs a asc] l a sorted valid False by auto
  moreover have "sorted_by asc h' ys" using ins(4) sorted_by_frame[OF ins(5)] by simp
  ultimately show ?thesis by (intro exI[of _ h'] exI[of _ l'] exI[of _ ys]) (simp add: list_insert_def)
qed

end

interpretation data_order: node_order node_sorter "\<lambda>d. d" "\<lambda>_. True"
  by unfold_locales (auto simp: node_sorter_def)

section \<open>Lists as double-ended queues\<close>

text \<open>
  What the users of a list rely on, without its links: elements go in and come out at either end, and
  an element that is ready to be linked stays ready while others are.
\<close>

locale deque =
  fixes repr :: "'s \<Rightarrow> 'a list \<Rightarrow> bool"
    and ready :: "'s \<Rightarrow> 'a \<Rightarrow> bool"
    and put_back put_front :: "'a \<Rightarrow> 's \<Rightarrow> 's option"
    and get_back get_front :: "'s \<Rightarrow> ('a option \<times> 's) option"
  assumes put_back: "repr s xs \<Longrightarrow> a \<notin> set xs \<Longrightarrow> ready s a \<Longrightarrow>
      \<exists>s'. put_back a s = Some s' \<and> repr s' (xs @ [a]) \<and> (\<forall>b. ready s b \<longrightarrow> ready s' b)"
    and put_front: "repr s xs \<Longrightarrow> a \<notin> set xs \<Longrightarrow> ready s a \<Longrightarrow>
      \<exists>s'. put_front a s = Some s' \<and> repr s' (a # xs) \<and> (\<forall>b. ready s b \<longrightarrow> ready s' b)"
    and get_front: "repr s (a # xs) \<Longrightarrow> \<exists>s'. get_front s = Some (Some a, s') \<and> repr s' xs"
    and get_back: "repr s (xs @ [a]) \<Longrightarrow> \<exists>s'. get_back s = Some (Some a, s') \<and> repr s' xs"
begin

primrec put_all :: "'a list \<Rightarrow> 's \<Rightarrow> 's option" where
  "put_all [] s = Some s"
| "put_all (a # as) s = do { s' \<leftarrow> put_back a s; put_all as s' }"

primrec take_all :: "('s \<Rightarrow> ('a option \<times> 's) option) \<Rightarrow> nat \<Rightarrow> 's \<Rightarrow> ('a option list \<times> 's) option" where
  "take_all get 0 s = Some ([], s)"
| "take_all get (Suc n) s = do { (a, s') \<leftarrow> get s; (as, s'') \<leftarrow> take_all get n s'; Some (a # as, s'') }"

lemma put_all_repr:
  assumes "repr s xs" "distinct (xs @ as)" "\<forall>a\<in>set as. ready s a"
  shows "\<exists>s'. put_all as s = Some s' \<and> repr s' (xs @ as)"
  using assms
proof (induction as arbitrary: s xs)
  case (Cons a as)
  obtain s1 where s1: "put_back a s = Some s1" "repr s1 (xs @ [a])" "\<forall>b. ready s b \<longrightarrow> ready s1 b"
    using put_back[of s xs a] Cons.prems by auto
  then obtain s' where "put_all as s1 = Some s'" "repr s' ((xs @ [a]) @ as)"
    using Cons.IH[of s1 "xs @ [a]"] Cons.prems by auto
  then show ?case using s1(1) by auto
qed simp

lemma take_front_repr: "repr s xs \<Longrightarrow> \<exists>s'. take_all get_front (length xs) s = Some (map Some xs, s') \<and> repr s' []"
proof (induction xs arbitrary: s)
  case (Cons a xs)
  then show ?case using get_front[OF Cons.prems] by fastforce
qed simp

lemma take_back_repr: "repr s xs \<Longrightarrow> \<exists>s'. take_all get_back (length xs) s = Some (map Some (rev xs), s') \<and> repr s' []"
proof (induction xs arbitrary: s rule: rev_induct)
  case (snoc a xs)
  then show ?case using get_back[OF snoc.prems] by fastforce
qed simp

lemma fifo_lifo:
  assumes "repr s []" "distinct as" "\<forall>a\<in>set as. ready s a"
  shows "\<exists>s1. put_all as s = Some s1 \<and>
    (\<exists>s2. take_all get_front (length as) s1 = Some (map Some as, s2) \<and> repr s2 []) \<and>
    (\<exists>s2. take_all get_back (length as) s1 = Some (map Some (rev as), s2) \<and> repr s2 [])"
  using put_all_repr[of s "[]" as] take_front_repr take_back_repr assms by fastforce

end

text \<open>The state of one list is the heap and the list's own record.\<close>

type_synonym list_state = "nodes \<times> list_t"

definition list_repr :: "list_state \<Rightarrow> nat list \<Rightarrow> bool" where
  "list_repr s xs \<longleftrightarrow> dll (fst s) (snd s) xs"

definition append_to :: "nat \<Rightarrow> list_state \<Rightarrow> list_state option" where
  "append_to a s = do { (h, l) \<leftarrow> list_append (Some (snd s)) (Some a) (fst s); l' \<leftarrow> l; Some (h, l') }"

definition push_to :: "nat \<Rightarrow> list_state \<Rightarrow> list_state option" where
  "push_to a s = do { (h, l) \<leftarrow> list_push (Some (snd s)) (Some a) (fst s); l' \<leftarrow> l; Some (h, l') }"

definition pop_from :: "list_state \<Rightarrow> (nat option \<times> list_state) option" where
  "pop_from s = do { (a, h, l) \<leftarrow> list_pop (Some (snd s)) (fst s); l' \<leftarrow> l; Some (a, (h, l')) }"

definition trim_from :: "list_state \<Rightarrow> (nat option \<times> list_state) option" where
  "trim_from s = do { (a, h, l) \<leftarrow> list_trim (Some (snd s)) (fst s); l' \<leftarrow> l; Some (a, (h, l')) }"

lemma frame_alloc: "frame S h h' \<Longrightarrow> h b \<noteq> None \<Longrightarrow> h' b \<noteq> None"
  unfolding frame_def by (metis option.map_disc_iff)

interpretation list_deque: deque list_repr "\<lambda>s a. fst s a \<noteq> None" append_to push_to trim_from pop_from
proof unfold_locales
  fix s :: list_state and xs :: "nat list" and a
  obtain h l where s: "s = (h, l)" by (cases s)
  show "\<exists>s'. append_to a s = Some s' \<and> list_repr s' (xs @ [a]) \<and> (\<forall>b. fst s b \<noteq> None \<longrightarrow> fst s' b \<noteq> None)"
    if "list_repr s xs" "a \<notin> set xs" "fst s a \<noteq> None"
    using list_append_dll[of h l xs a] that frame_alloc s by (fastforce simp: append_to_def list_repr_def)
  show "\<exists>s'. push_to a s = Some s' \<and> list_repr s' (a # xs) \<and> (\<forall>b. fst s b \<noteq> None \<longrightarrow> fst s' b \<noteq> None)"
    if "list_repr s xs" "a \<notin> set xs" "fst s a \<noteq> None"
    using list_push_dll[of h l xs a] that frame_alloc s by (fastforce simp: push_to_def list_repr_def)
  show "\<exists>s'. pop_from s = Some (Some a, s') \<and> list_repr s' xs" if "list_repr s (a # xs)"
    using list_pop_dll[of h l a xs] that s by (fastforce simp: pop_from_def list_repr_def)
  show "\<exists>s'. trim_from s = Some (Some a, s') \<and> list_repr s' xs" if "list_repr s (xs @ [a])"
    using list_trim_dll[of h l xs a] that s by (fastforce simp: trim_from_def list_repr_def)
qed

section \<open>Properties\<close>

definition ex_node_heap :: nodes where
  "ex_node_heap = [10 \<mapsto> \<lparr>n_next = None, n_prev = None, n_data = 4\<rparr>, 20 \<mapsto> \<lparr>n_next = None, n_prev = None, n_data = 9\<rparr>,
                   30 \<mapsto> \<lparr>n_next = None, n_prev = None, n_data = 6\<rparr>]"

definition ex_two_heap :: nodes where
  "ex_two_heap = [10 \<mapsto> \<lparr>n_next = Some 20, n_prev = None, n_data = 4\<rparr>, 20 \<mapsto> \<lparr>n_next = None, n_prev = Some 10, n_data = 9\<rparr>,
                  30 \<mapsto> \<lparr>n_next = None, n_prev = None, n_data = 6\<rparr>]"

definition ex_two_list :: list_t where
  "ex_two_list = \<lparr>l_head = Some 10, l_tail = Some 20\<rparr>"

lemma ex_two_dll: "dll ex_two_heap ex_two_list [10, 20]"
  by (simp add: dll_def ex_two_heap_def ex_two_list_def)

text \<open>
  Distinct nodes appended to an empty list come out of \<open>list_pop\<close> in the same order and out of
  \<open>list_trim\<close> in the opposite order, with no fault, and leave an empty list.
\<close>

theorem list_fifo_lifo:
  assumes "dll h l []" "distinct as" "\<forall>a\<in>set as. h a \<noteq> None"
  shows "\<exists>s1. list_deque.put_all as (h, l) = Some s1 \<and>
    (\<exists>h2 l2. list_deque.take_all pop_from (length as) s1 = Some (map Some as, (h2, l2)) \<and> dll h2 l2 []) \<and>
    (\<exists>h2 l2. list_deque.take_all trim_from (length as) s1 = Some (map Some (rev as), (h2, l2)) \<and> dll h2 l2 [])"
  using list_deque.fifo_lifo[of "(h, l)" as] assms by (simp add: list_repr_def)

theorem list_fifo_lifo_witness:
  "\<exists>s1 h2 l2. list_deque.put_all [20, 10, 30] (ex_node_heap, \<lparr>l_head = None, l_tail = None\<rparr>) = Some s1 \<and>
     list_deque.take_all pop_from 3 s1 = Some ([Some 20, Some 10, Some 30], (h2, l2))"
proof -
  have "dll ex_node_heap \<lparr>l_head = None, l_tail = None\<rparr> []" "distinct [20, 10, 30 :: nat]"
    "\<forall>a\<in>set [20, 10, 30]. ex_node_heap a \<noteq> None"
    by (simp_all add: dll_def ex_node_heap_def)
  from list_fifo_lifo[OF this] show ?thesis by (auto simp: numeral_3_eq_3)
qed

text \<open>
  C21. \<open>list_extract\<close> of a node of the list unlinks exactly that node, wherever it is: the other nodes
  keep their order, no data changes and no node outside the list is touched.
\<close>

theorem list_extract_refines:
  assumes "dll h l (xs @ a # ys)"
  shows "\<exists>h' l'. list_extract (Some l) (Some a) h = Some (Some a, h', Some l') \<and> dll h' l' (xs @ ys) \<and>
    (\<forall>b. b \<notin> set (xs @ a # ys) \<longrightarrow> h' b = h b) \<and> (\<forall>b. map_option n_data (h' b) = map_option n_data (h b))"
  using list_extract_dll[OF assms] unfolding frame_def by blast

theorem list_extract_refines_witness:
  "\<exists>h' l'. list_extract (Some ex_two_list) (Some 20) ex_two_heap = Some (Some 20, h', Some l') \<and> dll h' l' [10]"
  using list_extract_refines[of ex_two_heap ex_two_list "[10]" 20 "[]"] ex_two_dll by auto

text \<open>
  \<open>list_insert\<close> with the data order puts a new node into a sorted list, ascending or descending, so
  that the list stays sorted and has exactly the old nodes and the new one.
\<close>

theorem list_insert_sorted:
  assumes "dll h l xs" "a \<notin> set xs" "h a \<noteq> None"
    and "sorted_wrt (\<lambda>x y. if asc then key h x \<le> key h y else key h y \<le> key h x) xs"
  shows "\<exists>h' l' ys. list_insert (Some l) (Some a) node_sorter asc h = Some (Some a, h', Some l') \<and>
    dll h' l' ys \<and> mset ys = add_mset a (mset xs) \<and>
    sorted_wrt (\<lambda>x y. if asc then key h' x \<le> key h' y else key h' y \<le> key h' x) ys"
  using data_order.insert_dll[OF assms(1-3), of asc] assms(4)
  unfolding data_order.sorted_by_def data_order.valid_at_def in_order_def key_by_def key_def by blast

theorem list_insert_sorted_witness:
  "\<exists>h' l' ys. list_insert (Some ex_two_list) (Some 30) node_sorter True ex_two_heap = Some (Some 30, h', Some l') \<and>
     dll h' l' ys \<and> mset ys = {#30, 10, 20#} \<and> sorted_wrt (\<lambda>x y. key h' x \<le> key h' y) ys"
proof -
  have "30 \<notin> set [10, 20 :: nat]" "ex_two_heap 30 \<noteq> None"
    "sorted_wrt (\<lambda>x y. if True then key ex_two_heap x \<le> key ex_two_heap y else key ex_two_heap y \<le> key ex_two_heap x) [10, 20]"
    by (simp_all add: ex_two_heap_def key_def)
  from list_insert_sorted[OF ex_two_dll this] show ?thesis by simp
qed

end
