(* ===== verification/Sosal_HashSpec.thy ===== *)
theory Sosal_HashSpec
  imports Sosal_Hash Sosal_ListSpec
begin

text \<open>
  The hash table as a finite map: what a table represents, and that setting, removing and reading agree
  with the map, however many keys collide.
\<close>

section \<open>Records of nodes\<close>

definition entry :: "nodes \<Rightarrow> records \<Rightarrow> nat \<Rightarrow> u32 \<times> u32" where
  "entry ns rs a = (rec_key (the (rs (dat ns a))), rec_value (the (rs (dat ns a))))"

definition live :: "nodes \<Rightarrow> records \<Rightarrow> nat list \<Rightarrow> bool" where
  "live ns rs xs \<longleftrightarrow> (\<forall>a\<in>set xs. ns a \<noteq> None \<and> rs (dat ns a) \<noteq> None)"

interpretation rec_order: node_order "hash_compare_record rs" "\<lambda>d. rec_key (the (rs d))" "\<lambda>d. d \<in> dom rs" for rs :: records
  by unfold_locales (auto simp: hash_compare_record_def split: if_splits)

lemma rec_valid: "rec_order.valid_at rs ns a \<longleftrightarrow> rs (dat ns a) \<noteq> None"
  unfolding rec_order.valid_at_def dat_def by blast

lemma rec_key_by: "key_by (\<lambda>d. rec_key (the (rs d))) ns a = fst (entry ns rs a)"
  by (simp add: key_by_def entry_def dat_def)

lemma entry_cong: "dat ns' a = dat ns a \<Longrightarrow> rs' (dat ns a) = rs (dat ns a) \<Longrightarrow> entry ns' rs' a = entry ns rs a"
  by (simp add: entry_def)

lemma find_entry:
  assumes "live ns rs (b # xs)"
  shows "List.find (\<lambda>a. hash_compare_record rs (ns a) (ns b) = 0) xs = List.find (\<lambda>a. fst (entry ns rs a) = fst (entry ns rs b)) xs"
proof (rule find_cong[OF refl])
  fix a assume "a \<in> set xs"
  then have "rec_order.valid_at rs ns a" "rec_order.valid_at rs ns b" "ns a \<noteq> None" "ns b \<noteq> None"
    using assms unfolding live_def rec_valid by simp_all
  from rec_order.equal_iff[OF this] show "(hash_compare_record rs (ns a) (ns b) = 0) = (fst (entry ns rs a) = fst (entry ns rs b))"
    by (simp add: rec_key_by)
qed

section \<open>Tables\<close>

definition slot :: "hash_t \<Rightarrow> u32 \<Rightarrow> nat" where
  "slot h k = unat (keyFunc h (h_size h) k)"

definition table_wf :: "hash_t \<Rightarrow> bool" where
  "table_wf h \<longleftrightarrow> h_size h \<in> {8, 12, 16} \<and> numSlots h = push_bit (h_size h) 1 \<and>
     length (bucket h) = unat (numSlots h) \<and> (\<forall>k. keyFunc h (h_size h) k < numSlots h)"

definition bucket_is :: "nodes \<Rightarrow> list_t option \<Rightarrow> nat list \<Rightarrow> bool" where
  "bucket_is ns lo xs = (case lo of None \<Rightarrow> xs = [] | Some l \<Rightarrow> xs \<noteq> [] \<and> dll ns l xs)"

definition slot_ok :: "hash_t \<Rightarrow> nodes \<Rightarrow> records \<Rightarrow> nat \<Rightarrow> nat list \<Rightarrow> bool" where
  "slot_ok h ns rs i xs \<longleftrightarrow> live ns rs xs \<and> (\<forall>a\<in>set xs. slot h (fst (entry ns rs a)) = i \<and> snd (entry ns rs a) \<noteq> 0) \<and>
     distinct (map (\<lambda>a. fst (entry ns rs a)) xs) \<and> rec_order.sorted_by rs True ns xs"

text \<open>\<open>L i\<close> are the nodes in slot \<open>i\<close>; the counters are exact.\<close>

definition hash_repr :: "hash_state \<Rightarrow> (nat \<Rightarrow> nat list) \<Rightarrow> bool" where
  "hash_repr s L \<longleftrightarrow> (case s of (h, ns, rs) \<Rightarrow>
     table_wf h \<and> rs 0 = None \<and>
     (\<forall>i<length (bucket h). bucket_is ns (bucket h ! i) (L i) \<and> slot_ok h ns rs i (L i)) \<and>
     (\<forall>i<length (bucket h). \<forall>j<length (bucket h). i \<noteq> j \<longrightarrow> set (L i) \<inter> set (L j) = {}) \<and>
     numActiveSlots h = (\<Sum>i<length (bucket h). if L i = [] then 0 else 1) \<and>
     numTotalElem h = (\<Sum>i<length (bucket h). of_nat (length (L i))))"

definition hash_abs :: "hash_state \<Rightarrow> (nat \<Rightarrow> nat list) \<Rightarrow> (u32 \<rightharpoonup> u32) \<Rightarrow> bool" where
  "hash_abs s L M \<longleftrightarrow> (case s of (h, ns, rs) \<Rightarrow> \<forall>k v. M k = Some v \<longleftrightarrow> (k, v) \<in> entry ns rs ` set (L (slot h k)))"

text \<open>A table that represents the map \<open>M\<close>.\<close>

definition hash_ok :: "hash_state \<Rightarrow> (u32 \<rightharpoonup> u32) \<Rightarrow> bool" where
  "hash_ok s M \<longleftrightarrow> (\<exists>L. hash_repr s L \<and> hash_abs s L M)"

lemma table_wf_index:
  assumes "table_wf h"
  shows "hash_is_valid_index h (keyFunc h (h_size h) k)" "unat (hash_key_to_index h (keyFunc h (h_size h) k)) = slot h k"
    "slot h k < length (bucket h)"
  using assms by (auto simp: table_wf_def hash_is_valid_index_def hash_key_to_index_def slot_def word_less_nat_alt)

lemma table_wf_small:
  assumes "table_wf h"
  shows "length (bucket h) \<le> 2 ^ 16"
proof -
  have "unat (push_bit b (1 :: u32)) \<le> 2 ^ 16" if "b \<in> {8, 12, 16}" for b using that by auto
  then show ?thesis using assms by (simp add: table_wf_def)
qed

text \<open>The default keying function stays inside the table.\<close>

lemma hash_key_bound: "b \<in> {8, 12, 16} \<Longrightarrow> hash_key b k < push_bit b 1"
proof -
  have "x AND (push_bit b 1 - 1) < push_bit b (1 :: u32)" if "b \<in> {8, 12, 16}" for x
  proof -
    have "x AND (push_bit b 1 - 1) \<le> push_bit b 1 - 1" by (rule word_and_le1)
    also have "\<dots> < push_bit b (1 :: u32)" using that by auto
    finally show ?thesis .
  qed
  then show "b \<in> {8, 12, 16} \<Longrightarrow> hash_key b k < push_bit b 1" by (simp add: hash_key_def Let_def)
qed

section \<open>Reading\<close>

lemma slot_okD:
  assumes "hash_repr (h, ns, rs) L"
  shows "table_wf h" "rs 0 = None" "bucket_is ns (bucket h ! slot h k) (L (slot h k))"
    "slot_ok h ns rs (slot h k) (L (slot h k))" "slot h k < length (bucket h)"
  using assms table_wf_index(3)[of h k] by (simp_all add: hash_repr_def)

lemma active_iff:
  assumes "hash_repr (h, ns, rs) L"
  shows "numActiveSlots h = 0 \<longleftrightarrow> (\<forall>i<length (bucket h). L i = [])"
proof -
  let ?n = "length (bucket h)"
  let ?c = "card {i. i < ?n \<and> L i \<noteq> []}"
  have "numActiveSlots h = (\<Sum>i<?n. of_nat (if L i \<noteq> [] then 1 else 0))"
    using assms by (auto simp: hash_repr_def intro: sum.cong)
  also have "\<dots> = of_nat (\<Sum>i<?n. if L i \<noteq> [] then 1 else 0)" by simp
  also have "(\<Sum>i<?n. if L i \<noteq> [] then 1 else 0) = ?c"
    by (simp add: sum.If_cases Int_def)
  finally have eq: "numActiveSlots h = of_nat ?c" .
  have "?c \<le> ?n" using card_mono[of "{..<?n}" "{i. i < ?n \<and> L i \<noteq> []}"] by auto
  also have "\<dots> \<le> 2 ^ 16" using table_wf_small assms by (simp add: hash_repr_def)
  finally have "unat (of_nat ?c :: u32) = ?c" by (intro unat_of_nat_u32) simp
  then have "numActiveSlots h = 0 \<longleftrightarrow> ?c = 0" unfolding eq by (simp add: unat_eq_zero[symmetric])
  then show ?thesis by (simp add: Collect_empty_eq)
qed

lemma find_unique:
  assumes "distinct (map f xs)" "a \<in> set xs"
  shows "List.find (\<lambda>x. f x = f a) xs = Some a"
  using assms
proof (induction xs)
  case (Cons x xs)
  then show ?case by (cases "x = a") (auto simp: image_iff)
qed simp

text \<open>A new record and node for the key leave the old ones alone.\<close>

lemma with_criterion:
  assumes "live ns rs xs" "ns fn = None" "rs fr = None"
  shows "\<And>a. a \<in> set xs \<Longrightarrow> (ns(fn \<mapsto> n)) a = ns a" "\<And>a. a \<in> set xs \<Longrightarrow> entry (ns(fn \<mapsto> n)) (rs(fr \<mapsto> r)) a = entry ns rs a"
    "live (ns(fn \<mapsto> n)) (rs(fr \<mapsto> r)) xs" "fn \<notin> set xs"
  using assms by (auto simp: live_def entry_def dat_def)

lemma get_found:
  assumes "slot_ok h ns rs i xs" "dll ns l xs" "ns fn = None" "rs fr = None"
  shows "list_search (Some l) (Some fn) (hash_compare_record (rs(fr \<mapsto> \<lparr>rec_key = k, rec_value = v\<rparr>)))
      (ns(fn \<mapsto> \<lparr>n_next = None, n_prev = None, n_data = fr\<rparr>)) = Some (List.find (\<lambda>a. fst (entry ns rs a) = k) xs)"
proof -
  let ?ns = "ns(fn \<mapsto> \<lparr>n_next = None, n_prev = None, n_data = fr\<rparr>)" and ?rs = "rs(fr \<mapsto> \<lparr>rec_key = k, rec_value = v\<rparr>)"
  have live: "live ns rs xs" using assms(1) by (simp add: slot_ok_def)
  note c = with_criterion[OF live assms(3,4)]
  have fn: "entry ?ns ?rs fn = (k, v)" by (simp add: entry_def dat_def)
  have "live ?ns ?rs (fn # xs)" using c(3) by (simp add: live_def dat_def)
  from find_entry[OF this] have "List.find (\<lambda>a. hash_compare_record ?rs (?ns a) (?ns fn) = 0) xs =
      List.find (\<lambda>a. fst (entry ?ns ?rs a) = k) xs" unfolding fn by simp
  also have "\<dots> = List.find (\<lambda>a. fst (entry ns rs a) = k) xs" using c(2) by (intro find_cong) auto
  finally show ?thesis using list_search_dll[OF dll_cong[OF assms(2)], of ?ns fn] c(1) by simp
qed

lemma find_abs:
  assumes "hash_repr (h, ns, rs) L" "hash_abs (h, ns, rs) L M"
  shows "map_option (\<lambda>a. snd (entry ns rs a)) (List.find (\<lambda>a. fst (entry ns rs a) = k) (L (slot h k))) = M k"
proof (cases "List.find (\<lambda>a. fst (entry ns rs a) = k) (L (slot h k))")
  case None
  then have "\<forall>v. (k, v) \<notin> entry ns rs ` set (L (slot h k))" unfolding find_None_iff by (metis fst_conv imageE)
  then have "M k = None" using assms(2) by (auto simp: hash_abs_def intro: option.exhaust)
  then show ?thesis using None by simp
next
  case (Some a)
  then have "a \<in> set (L (slot h k))" "fst (entry ns rs a) = k" by (auto simp: find_Some_iff)
  then have "(k, snd (entry ns rs a)) \<in> entry ns rs ` set (L (slot h k))" by (metis image_eqI prod.collapse)
  then have "M k = Some (snd (entry ns rs a))" using assms(2) unfolding hash_abs_def by blast
  then show ?thesis using Some by simp
qed

lemma hash_get_map:
  assumes "hash_ok (h, ns, rs) M" "fr \<noteq> 0" "rs fr = None" "ns fn = None"
  shows "hash_get fr (Some fn) (Some h) k (ns, rs) = Some (M k, ns, rs)"
proof -
  obtain L where L: "hash_repr (h, ns, rs) L" "hash_abs (h, ns, rs) L M" using assms(1) by (auto simp: hash_ok_def)
  note sl = slot_okD(1,2)[OF L(1)] slot_okD(3-5)[OF L(1), of k] and fa = find_abs[OF L, of k]
  let ?xs = "L (slot h k)"
  note ix = table_wf_index(1,2)[OF sl(1), of k]
  consider (none) "numActiveSlots h = 0" | (empty) "0 < numActiveSlots h" "bucket h ! slot h k = None"
    | (list) l where "0 < numActiveSlots h" "bucket h ! slot h k = Some l"
    by (metis not_None_eq word_neq_0_conv)
  then show ?thesis
  proof cases
    case none
    then have "M k = None" using active_iff[OF L(1)] sl(5) fa by simp
    then show ?thesis using none by (simp add: hash_get_def)
  next
    case empty
    then have "M k = None" using sl(3) fa by (simp add: bucket_is_def)
    then show ?thesis using empty ix sl(5) by (simp add: hash_get_def nth_chk_def)
  next
    case (list l)
    then have d: "dll ns l ?xs" using sl(3) by (simp add: bucket_is_def)
    have undo: "ns(fn := None) = ns" "rs(fr := None) = rs" using assms(3,4) by auto
    have in_list: "ns a \<noteq> None \<and> rs (dat ns a) \<noteq> None \<and> a \<noteq> fn \<and> dat ns a \<noteq> fr" if "a \<in> set ?xs" for a
      using sl(4) that assms(3,4) by (auto simp: slot_ok_def live_def)
    show ?thesis
    proof (cases "List.find (\<lambda>a. fst (entry ns rs a) = k) ?xs")
      case None
      then show ?thesis using list ix sl(5) assms(2) fa undo get_found[OF sl(4) d assms(4,3), of k 0]
        by (simp add: hash_get_def nth_chk_def record_create_def node_create_def node_destroy_def record_destroy_def)
    next
      case (Some a)
      then have a: "a \<in> set ?xs" by (auto simp: find_Some_iff)
      then obtain n r where n: "ns a = Some n" "rs (n_data n) = Some r" "a \<noteq> fn" "n_data n \<noteq> fr"
        using in_list[OF a] by (auto simp: dat_def)
      then have "rec_value r = snd (entry ns rs a)" by (simp add: entry_def dat_def)
      then have "M k = Some (rec_value r)" using fa Some by simp
      then show ?thesis using Some n list ix sl(5) assms(2) undo get_found[OF sl(4) d assms(4,3), of k 0]
        by (simp add: hash_get_def nth_chk_def record_create_def node_create_def node_destroy_def record_destroy_def)
    qed
  qed
qed

section \<open>Changing one slot\<close>

lemma rec_sorted:
  "rec_order.sorted_by rs asc ns xs \<longleftrightarrow> sorted_wrt (\<lambda>x y. in_order asc (fst (entry ns rs x)) (fst (entry ns rs y))) xs"
  unfolding rec_order.sorted_by_def rec_key_by ..

text \<open>A list of nodes whose data and records are kept keeps what \<open>slot_ok\<close> says.\<close>

lemma slot_ok_cong:
  assumes "\<And>a. a \<in> set xs \<Longrightarrow> ns a \<noteq> None \<Longrightarrow> ns' a \<noteq> None \<and> dat ns' a = dat ns a \<and> rs' (dat ns a) = rs (dat ns a)"
    and "slot_ok h ns rs i xs"
  shows "slot_ok h ns' rs' i xs" "\<And>a. a \<in> set xs \<Longrightarrow> entry ns' rs' a = entry ns rs a"
proof -
  have keep: "ns' a \<noteq> None \<and> dat ns' a = dat ns a \<and> rs' (dat ns a) = rs (dat ns a) \<and> entry ns' rs' a = entry ns rs a"
    if "a \<in> set xs" for a
    using assms that by (auto simp: slot_ok_def live_def entry_def)
  then show "\<And>a. a \<in> set xs \<Longrightarrow> entry ns' rs' a = entry ns rs a" by blast
  have keys: "map (\<lambda>a. fst (entry ns' rs' a)) xs = map (\<lambda>a. fst (entry ns rs a)) xs" using keep by simp
  have "sorted_wrt (\<lambda>x y. in_order True (fst (entry ns' rs' x)) (fst (entry ns' rs' y))) xs"
    by (rule sorted_wrt_mono_rel[of xs "\<lambda>x y. in_order True (fst (entry ns rs x)) (fst (entry ns rs y))"])
      (use keep assms(2) in \<open>auto simp: slot_ok_def rec_sorted\<close>)
  moreover have "live ns' rs' xs" using keep assms(2) by (auto simp: live_def slot_ok_def)
  ultimately show "slot_ok h ns' rs' i xs" using keep assms(2) unfolding slot_ok_def rec_sorted keys by simp
qed

lemma sum_slot:
  fixes f :: "nat list \<Rightarrow> u32" and L :: "nat \<Rightarrow> nat list"
  assumes "i < n"
  shows "(\<Sum>j<n. f ((L(i := ys)) j)) = (\<Sum>j<n. f (L j)) - f (L i) + f ys"
proof -
  have "(\<Sum>j<n. f (g j)) = f (g i) + (\<Sum>j\<in>{..<n} - {i}. f (g j))" for g
    by (rule sum.remove) (use assms in auto)
  moreover have "(\<Sum>j\<in>{..<n} - {i}. f ((L(i := ys)) j)) = (\<Sum>j\<in>{..<n} - {i}. f (L j))" by (rule sum.cong) auto
  ultimately show ?thesis by simp
qed

text \<open>The table after the list in slot \<open>i\<close> has become \<open>ys\<close>.\<close>

definition with_slot :: "hash_t \<Rightarrow> nat \<Rightarrow> list_t option \<Rightarrow> nat list \<Rightarrow> nat list \<Rightarrow> hash_t" where
  "with_slot h i lo xs ys = h\<lparr>bucket := (bucket h)[i := lo],
     numActiveSlots := numActiveSlots h - (if xs = [] then 0 else 1) + (if ys = [] then 0 else 1),
     numTotalElem := numTotalElem h - of_nat (length xs) + of_nat (length ys)\<rparr>"

lemma with_slot_counts:
  "numActiveSlots (with_slot h i lo xs ys) = numActiveSlots h - (if xs = [] then 0 else 1) + (if ys = [] then 0 else 1)"
  "numTotalElem (with_slot h i lo xs ys) = numTotalElem h - of_nat (length xs) + of_nat (length ys)"
  by (simp_all add: with_slot_def)

lemma with_slot_fields:
  "bucket (with_slot h i lo xs ys) = (bucket h)[i := lo]" "slot (with_slot h i lo xs ys) = slot h"
  "table_wf (with_slot h i lo xs ys) = table_wf h" "slot_ok (with_slot h i lo xs ys) = slot_ok h"
  by (auto simp: with_slot_def slot_def table_wf_def slot_ok_def fun_eq_iff)

lemma repr_update:
  assumes R: "hash_repr (h, ns, rs) L" and i: "i < length (bucket h)"
    and local: "bucket_is ns' lo ys" "slot_ok h ns' rs' i ys" "set ys \<subseteq> insert fn (set (L i))"
    and new: "ns fn = None" "rs fr = None" "rs' 0 = None"
    and ns': "\<And>b. b \<notin> insert fn (set (L i)) \<Longrightarrow> ns' b = ns b"
    and rs': "\<And>d. d \<noteq> fr \<Longrightarrow> d \<notin> dat ns ` set (L i) \<Longrightarrow> rs' d = rs d"
  shows "hash_repr (with_slot h i lo (L i) ys, ns', rs') (L(i := ys))"
    and "\<And>j a. j < length (bucket h) \<Longrightarrow> j \<noteq> i \<Longrightarrow> a \<in> set (L j) \<Longrightarrow> entry ns' rs' a = entry ns rs a"
proof -
  let ?n = "length (bucket h)"
  have r: "table_wf h" "\<And>j. j < ?n \<Longrightarrow> bucket_is ns (bucket h ! j) (L j)" "\<And>j. j < ?n \<Longrightarrow> slot_ok h ns rs j (L j)"
    "\<And>j k. j < ?n \<Longrightarrow> k < ?n \<Longrightarrow> j \<noteq> k \<Longrightarrow> set (L j) \<inter> set (L k) = {}"
    "numActiveSlots h = (\<Sum>i<?n. if L i = [] then 0 else 1)" "numTotalElem h = (\<Sum>i<?n. of_nat (length (L i)))"
    using R by (auto simp: hash_repr_def)
  have other: "ns' a = ns a \<and> ns a \<noteq> None \<and> rs' (dat ns a) = rs (dat ns a)" if j: "j < ?n" "j \<noteq> i" and a: "a \<in> set (L j)" for j a
  proof -
    have aj: "ns a \<noteq> None" "rs (dat ns a) \<noteq> None" "slot h (fst (entry ns rs a)) = j"
      using r(3)[OF j(1)] a by (auto simp: slot_ok_def live_def)
    have "a \<notin> set (L i)" using r(4)[OF j(1) i j(2)] a by auto
    moreover have "a \<noteq> fn" using aj(1) new(1) by auto
    moreover have "dat ns a \<notin> dat ns ` set (L i)"
    proof
      assume "dat ns a \<in> dat ns ` set (L i)"
      then obtain b where b: "b \<in> set (L i)" "dat ns a = dat ns b" by auto
      then have "slot h (fst (entry ns rs a)) = i" using r(3)[OF i] by (auto simp: slot_ok_def entry_def)
      then show False using aj(3) j(2) by simp
    qed
    moreover have "dat ns a \<noteq> fr" using aj(2) new(2) by auto
    ultimately show ?thesis using ns'[of a] rs'[of "dat ns a"] aj by auto
  qed
  show "\<And>j a. j < ?n \<Longrightarrow> j \<noteq> i \<Longrightarrow> a \<in> set (L j) \<Longrightarrow> entry ns' rs' a = entry ns rs a"
    using other by (simp add: entry_def dat_def)
  have bucket: "bucket_is ns' ((bucket h)[i := lo] ! j) ((L(i := ys)) j)" if j: "j < ?n" for j
  proof (cases "j = i")
    case False
    show ?thesis using False r(2)[OF j] dll_cong[of ns _ "L j" ns'] other[OF j False]
      by (auto simp: bucket_is_def split: option.splits)
  qed (use local(1) j in simp)
  have slot: "slot_ok h ns' rs' j ((L(i := ys)) j)" if j: "j < ?n" for j
  proof (cases "j = i")
    case False
    have "slot_ok h ns' rs' j (L j)"
      by (rule slot_ok_cong(1)[OF _ r(3)[OF j]]) (use other[OF j False] in \<open>auto simp: dat_def\<close>)
    then show ?thesis using False by simp
  qed (use local(2) in simp)
  have fresh: "fn \<notin> set (L j)" if "j < ?n" for j using r(3)[OF that] new(1) by (auto simp: slot_ok_def live_def)
  have disj: "set ((L(i := ys)) j) \<inter> set ((L(i := ys)) k) = {}" if jk: "j < ?n" "k < ?n" "j \<noteq> k" for j k
    using r(4)[OF jk] r(4)[OF i jk(1)] r(4)[OF i jk(2)] jk local(3) fresh[OF jk(1)] fresh[OF jk(2)] by auto
  have "(\<Sum>j<?n. (\<lambda>xs. if xs = [] then 0 else 1) ((L(i := ys)) j)) = numActiveSlots h - (if L i = [] then 0 else 1) + (if ys = [] then 0 else 1)"
    unfolding r(5) by (rule sum_slot[OF i])
  moreover have "(\<Sum>j<?n. (\<lambda>xs. of_nat (length xs)) ((L(i := ys)) j)) = numTotalElem h - of_nat (length (L i)) + of_nat (length ys)"
    unfolding r(6) by (rule sum_slot[OF i])
  ultimately have "numActiveSlots (with_slot h i lo (L i) ys) = (\<Sum>j<?n. if (L(i := ys)) j = [] then 0 else 1)"
    "numTotalElem (with_slot h i lo (L i) ys) = (\<Sum>j<?n. of_nat (length ((L(i := ys)) j)))"
    by (simp_all only: with_slot_counts)
  then show "hash_repr (with_slot h i lo (L i) ys, ns', rs') (L(i := ys))"
    unfolding hash_repr_def prod.case with_slot_fields length_list_update
    using r(1) new(3) bucket slot disj by blast
qed

text \<open>What the map becomes when the entries of key \<open>k\<close> in its slot are replaced by \<open>new\<close>.\<close>

lemma abs_update:
  assumes A: "hash_abs (h, ns, rs) L M" and i: "i = slot h k" and wf: "table_wf h"
    and same: "\<And>j a. j < length (bucket h) \<Longrightarrow> j \<noteq> i \<Longrightarrow> a \<in> set (L j) \<Longrightarrow> entry ns' rs' a = entry ns rs a"
    and ys: "entry ns' rs' ` set ys = {e \<in> entry ns rs ` set (L i). fst e \<noteq> k} \<union> (case new of None \<Rightarrow> {} | Some v \<Rightarrow> {(k, v)})"
  shows "hash_abs (with_slot h i lo (L i) ys, ns', rs') (L(i := ys)) (M(k := new))"
  unfolding hash_abs_def prod.case with_slot_fields
proof (intro allI)
  fix k' v
  show "((M(k := new)) k' = Some v) = ((k', v) \<in> entry ns' rs' ` set ((L(i := ys)) (slot h k')))"
  proof (cases "slot h k' = i")
    case True
    have "(k', v) \<in> entry ns' rs' ` set ys \<longleftrightarrow> (if k' = k then new = Some v else (k', v) \<in> entry ns rs ` set (L i))"
      unfolding ys by (auto split: option.splits)
    then show ?thesis using A True by (auto simp: hash_abs_def)
  next
    case False
    have "entry ns' rs' ` set (L (slot h k')) = entry ns rs ` set (L (slot h k'))"
      using same[OF table_wf_index(3)[OF wf] False] by (intro image_cong) auto
    then show ?thesis using A False i by (auto simp: hash_abs_def)
  qed
qed

section \<open>Removing an entry of a list\<close>

lemma slot_ok_remove1:
  assumes "slot_ok h ns rs i xs"
  shows "slot_ok h ns rs i (remove1 a xs)"
proof -
  have "distinct xs" using assms by (simp add: slot_ok_def distinct_map)
  then have "remove1 a xs = filter (\<lambda>x. x \<noteq> a) xs"
    by (simp add: distinct_remove1_removeAll removeAll_filter_not_eq eq_commute)
  then show ?thesis using assms
    by (simp add: slot_ok_def live_def rec_sorted sorted_wrt_filter distinct_map_filter)
qed

text \<open>
  \<open>list_remove_match\<close> with a node for key \<open>k\<close> and the destruction of what it found: nothing is found when no
  entry has the key, otherwise exactly that entry goes, with its node and record.
\<close>

lemma remove_entry:
  assumes ok: "slot_ok h ns rs i xs" and d: "dll ns l xs" and c: "ns c = Some nc" "rs (n_data nc) = Some rc" "c \<notin> set xs"
  shows "(\<forall>a\<in>set xs. fst (entry ns rs a) \<noteq> rec_key rc) \<and>
      list_remove_match (Some l) (Some c) (hash_compare_record rs) ns = Some (None, ns, Some l) \<or>
    (\<exists>a\<in>set xs. fst (entry ns rs a) = rec_key rc \<and> (\<exists>ns1 l1 ns2.
      list_remove_match (Some l) (Some c) (hash_compare_record rs) ns = Some (Some a, ns1, Some l1) \<and>
      dll ns1 l1 (remove1 a xs) \<and> destroy_entry (Some a) ns1 rs = Some (ns2, record_destroy (dat ns a) rs) \<and>
      dll ns2 l1 (remove1 a xs) \<and> (\<forall>b. b \<notin> set xs \<longrightarrow> ns2 b = ns b) \<and>
      (\<forall>b. b \<noteq> a \<longrightarrow> dat ns2 b = dat ns b \<and> (ns2 b = None) = (ns b = None))))"
proof -
  have live: "live ns rs (c # xs)" using ok c by (auto simp: slot_ok_def live_def dat_def)
  have k: "fst (entry ns rs c) = rec_key rc" using c by (simp add: entry_def dat_def)
  let ?f = "List.find (\<lambda>a. hash_compare_record rs (ns a) (ns c) = 0) xs"
  have f: "?f = List.find (\<lambda>a. fst (entry ns rs a) = rec_key rc) xs" using find_entry[OF live] k by simp
  note rm = list_remove_match_dll[OF d, of c "hash_compare_record rs"]
  show ?thesis
  proof (cases ?f)
    case None
    then have "\<forall>a\<in>set xs. fst (entry ns rs a) \<noteq> rec_key rc" unfolding f by (auto simp: find_None_iff)
    then show ?thesis using rm None c(1) by auto
  next
    case (Some a)
    then have a: "a \<in> set xs" "fst (entry ns rs a) = rec_key rc" unfolding f by (auto simp: find_Some_iff)
    obtain ns1 l1 where r: "list_remove_match (Some l) (Some c) (hash_compare_record rs) ns = Some (Some a, ns1, Some l1)"
      "dll ns1 l1 (remove1 a xs)" "frame (set xs) ns ns1" using rm Some c(1) by auto
    have "distinct xs" using d by (simp add: dll_def)
    then have out: "a \<notin> set (remove1 a xs)" by simp
    have "ns a \<noteq> None" using live a(1) by (auto simp: live_def)
    then obtain n1 where n1: "ns1 a = Some n1" "n_data n1 = dat ns a"
      using r(3) unfolding frame_def dat_def by (metis not_None_eq option.map_disc_iff option.map_sel option.sel)
    let ?ns2 = "ns1(a := None)"
    have "destroy_entry (Some a) ns1 rs = Some (?ns2, record_destroy (dat ns a) rs)"
      using n1 by (simp add: destroy_entry_def node_destroy_def)
    moreover have "dll ?ns2 l1 (remove1 a xs)" using out by (intro dll_cong[OF r(2)]) auto
    moreover have "\<forall>b. b \<notin> set xs \<longrightarrow> ?ns2 b = ns b" using r(3) a(1) by (auto simp: frame_def)
    moreover have "\<forall>b. b \<noteq> a \<longrightarrow> dat ?ns2 b = dat ns b \<and> (?ns2 b = None) = (ns b = None)"
      using frame_dat[OF r(3)] r(3) unfolding frame_def by (auto simp: dat_def) (metis option.map_disc_iff option.distinct(1))+
    ultimately show ?thesis using a r(1,2) by blast
  qed
qed

section \<open>Setting\<close>

lemma set_bucket_same: "bucket h ! unat i = lo \<Longrightarrow> unat i < length (bucket h) \<Longrightarrow> set_bucket i lo h = Some h"
  by (auto simp: set_bucket_def upd_chk_def)

lemma with_slot_same: "bucket h ! i = lo \<Longrightarrow> with_slot h i lo xs xs = h"
  by (auto simp: with_slot_def)

lemma remove_loop_none:
  assumes i: "unat i < length (bucket h)" and b: "bucket_is ns (bucket h ! unat i) xs" and ok: "slot_ok h ns rs j xs"
    and c: "ns c = Some nc" "rs (n_data nc) = Some rc" "c \<notin> set xs" and none: "\<forall>a\<in>set xs. fst (entry ns rs a) \<noteq> rec_key rc"
  shows "remove_loop i (Some c) (h, ns, rs) = Some (h, ns, rs)"
proof (cases "bucket h ! unat i")
  case None
  then show ?thesis using i by (subst remove_loop.simps) (simp add: nth_chk_def list_remove_match_def set_bucket_same)
next
  case (Some l)
  then have "dll ns l xs" using b by (simp add: bucket_is_def)
  from remove_entry[OF ok this c] none
  have "list_remove_match (Some l) (Some c) (hash_compare_record rs) ns = Some (None, ns, Some l)" by blast
  then show ?thesis using Some i by (subst remove_loop.simps) (simp add: nth_chk_def set_bucket_same)
qed

text \<open>What one list has become: its entries of key \<open>k\<close> are gone and \<open>new\<close> is there, and nothing else has changed.\<close>

definition slot_step :: "hash_t \<Rightarrow> nat \<Rightarrow> u32 \<Rightarrow> u32 option \<Rightarrow> nat \<Rightarrow> nat list \<Rightarrow> nodes \<times> records \<Rightarrow>
  list_t option \<Rightarrow> nat list \<Rightarrow> nodes \<times> records \<Rightarrow> bool" where
  "slot_step h i k new fn xs st lo ys st' \<longleftrightarrow> (case (st, st') of ((ns, rs), (ns', rs')) \<Rightarrow>
     bucket_is ns' lo ys \<and> slot_ok h ns' rs' i ys \<and> set ys \<subseteq> insert fn (set xs) \<and>
     (\<forall>b. b \<notin> insert fn (set xs) \<longrightarrow> ns' b = ns b) \<and> (\<forall>d. d \<notin> dat ns ` set xs \<longrightarrow> rs' d = rs d) \<and>
     entry ns' rs' ` set ys = {e \<in> entry ns rs ` set xs. fst e \<noteq> k} \<union> (case new of None \<Rightarrow> {} | Some v \<Rightarrow> {(k, v)}))"

text \<open>The entry of key \<open>k\<close> taken out of its list.\<close>

lemma removed_step:
  assumes ok: "slot_ok h ns rs i xs" and a: "a \<in> set xs" "fst (entry ns rs a) = k" and "distinct xs"
    and n2: "\<forall>b. b \<noteq> a \<longrightarrow> dat ns2 b = dat ns b \<and> (ns2 b = None) = (ns b = None)" and z: "rs 0 = None"
  shows "slot_ok h ns2 (record_destroy (dat ns a) rs) i (remove1 a xs)"
    and "\<And>b. b \<in> set (remove1 a xs) \<Longrightarrow> entry ns2 (record_destroy (dat ns a) rs) b = entry ns rs b"
    and "entry ns2 (record_destroy (dat ns a) rs) ` set (remove1 a xs) = {e \<in> entry ns rs ` set xs. fst e \<noteq> k}"
    and "\<forall>b\<in>set (remove1 a xs). fst (entry ns2 (record_destroy (dat ns a) rs) b) \<noteq> k"
    and "record_destroy (dat ns a) rs = rs(dat ns a := None)"
proof -
  let ?ys = "remove1 a xs" and ?rs = "record_destroy (dat ns a) rs"
  have "rs (dat ns a) \<noteq> None" using ok a(1) by (simp add: slot_ok_def live_def)
  then show r: "?rs = rs(dat ns a := None)" using z by (auto simp: record_destroy_def)
  have ys: "set ?ys = set xs - {a}" using assms(4) by simp
  have inj: "inj_on (\<lambda>b. fst (entry ns rs b)) (set xs)" using ok by (simp add: slot_ok_def distinct_map)
  have other: "b \<noteq> a \<and> dat ns b \<noteq> dat ns a \<and> fst (entry ns rs b) \<noteq> k" if "b \<in> set ?ys" for b
  proof -
    have b: "b \<in> set xs" "b \<noteq> a" using that ys by auto
    then have "fst (entry ns rs b) \<noteq> fst (entry ns rs a)" using inj a(1) by (auto dest: inj_onD)
    then show ?thesis using b a(2) by (auto simp: entry_def)
  qed
  have keep: "ns2 b \<noteq> None \<and> dat ns2 b = dat ns b \<and> ?rs (dat ns b) = rs (dat ns b)" if "b \<in> set ?ys" "ns b \<noteq> None" for b
    using other[OF that(1)] n2 that(2) unfolding r by auto
  have ok': "slot_ok h ns rs i ?ys" by (rule slot_ok_remove1[OF ok])
  note sc = slot_ok_cong[of ?ys ns ns2 ?rs rs h i, OF keep ok']
  show "slot_ok h ns2 ?rs i ?ys" by (rule sc(1))
  show e: "\<And>b. b \<in> set ?ys \<Longrightarrow> entry ns2 ?rs b = entry ns rs b" by (rule sc(2))
  show "\<forall>b\<in>set ?ys. fst (entry ns2 ?rs b) \<noteq> k" using e other by simp
  have "entry ns2 ?rs ` set ?ys = entry ns rs ` set ?ys" using e by (intro image_cong) auto
  also have "\<dots> = entry ns rs ` {b \<in> set xs. fst (entry ns rs b) \<noteq> k}" using other a ys by (intro arg_cong2[where f = image]) blast+
  also have "\<dots> = {e \<in> entry ns rs ` set xs. fst e \<noteq> k}" by blast
  finally show "entry ns2 ?rs ` set ?ys = {e \<in> entry ns rs ` set xs. fst e \<noteq> k}" .
qed

lemma no_key_filter: "\<forall>a\<in>set xs. fst (entry ns rs a) \<noteq> k \<Longrightarrow> {e \<in> entry ns rs ` set xs. fst e \<noteq> k} = entry ns rs ` set xs"
  by auto

lemma remove_loop_step:
  assumes i: "unat i < length (bucket h)" and b: "bucket h ! unat i = Some l" and d: "dll ns l xs" and ok: "slot_ok h ns rs (unat i) xs"
    and c: "ns c = Some nc" "rs (n_data nc) = Some rc" "c \<notin> set xs" "n_data nc \<notin> dat ns ` set xs" and z: "rs 0 = None"
    and ne: "xs \<noteq> []" and small: "length xs < size_max"
  shows "\<exists>lo ys st'. remove_loop i (Some c) (h, ns, rs) = Some (with_slot h (unat i) lo xs ys, st') \<and>
    slot_step h (unat i) (rec_key rc) None c xs (ns, rs) lo ys st'"
  using remove_entry[OF ok d c(1-3)]
proof (elim disjE conjE bexE exE)
  assume none: "\<forall>a\<in>set xs. fst (entry ns rs a) \<noteq> rec_key rc"
  have "bucket_is ns (bucket h ! unat i) xs" using b d ne by (simp add: bucket_is_def)
  from remove_loop_none[OF i this ok c(1-3) none] show ?thesis
    using none b d ok ne with_slot_same[OF b] no_key_filter[OF none]
    by (intro exI[of _ "Some l"] exI[of _ xs] exI[of _ "(ns, rs)"]) (auto simp: slot_step_def bucket_is_def)
next
  fix a ns1 l1 ns2
  assume a: "a \<in> set xs" "fst (entry ns rs a) = rec_key rc"
    and rm: "list_remove_match (Some l) (Some c) (hash_compare_record rs) ns = Some (Some a, ns1, Some l1)"
    and d1: "dll ns1 l1 (remove1 a xs)" and de: "destroy_entry (Some a) ns1 rs = Some (ns2, record_destroy (dat ns a) rs)"
    and d2: "dll ns2 l1 (remove1 a xs)" and n2: "\<forall>b. b \<notin> set xs \<longrightarrow> ns2 b = ns b"
    "\<forall>b. b \<noteq> a \<longrightarrow> dat ns2 b = dat ns b \<and> (ns2 b = None) = (ns b = None)"
  let ?ys = "remove1 a xs" and ?rs = "record_destroy (dat ns a) rs"
  let ?lo = "if ?ys = [] then None else Some l1"
  let ?h = "with_slot h (unat i) ?lo xs ?ys"
  have "distinct xs" using d by (simp add: dll_def)
  note st = removed_step[OF ok a this n2(2) z]
  have len: "length ?ys = length xs - 1" using a(1) by (simp add: length_remove1)
  have n: "list_length (Some l1) ns1 = Some (length ?ys)" using small len by (intro list_length_dll[OF d1]) simp
  have cnt: "numTotalElem h - 1 = numTotalElem h - of_nat (length xs) + of_nat (length ?ys)"
    using ne len by (cases xs) (simp_all add: of_nat_diff)
  have hw: "?h = h\<lparr>bucket := (bucket h)[unat i := ?lo], numActiveSlots := numActiveSlots h - 1 + (if ?ys = [] then 0 else 1),
      numTotalElem := numTotalElem h - 1\<rparr>"
    unfolding with_slot_def cnt[symmetric] using ne by simp
  have first: "remove_loop i (Some c) (h, ns, rs) = remove_loop i (Some c) (?h, ns2, ?rs)"
  proof (cases "?ys = []")
    case True
    then have "list_destroy (Some l1) ns1 = Some ns1" using list_pop_empty[of ns1 l1] d1 by (subst list_destroy.simps) simp
    then show ?thesis using True i b rm n de unfolding hw
      by (subst remove_loop.simps, cases h) (simp add: nth_chk_def set_bucket_def upd_chk_def)
  next
    case False
    then show ?thesis using i b rm n de unfolding hw
      by (subst remove_loop.simps, cases h) (simp add: nth_chk_def set_bucket_def upd_chk_def)
  qed
  have bk: "bucket_is ns2 ?lo ?ys" using d2 by (simp add: bucket_is_def)
  have "remove_loop i (Some c) (?h, ns2, ?rs) = Some (?h, ns2, ?rs)"
  proof (rule remove_loop_none)
    show "unat i < length (bucket ?h)" "bucket_is ns2 (bucket ?h ! unat i) ?ys" using i bk by (simp_all add: with_slot_fields)
    show "slot_ok ?h ns2 ?rs (unat i) ?ys" using st(1) by (simp add: with_slot_fields)
    show "ns2 c = Some nc" "c \<notin> set ?ys" using n2(1) c set_remove1_subset[of a xs] by auto
    have "dat ns a \<noteq> n_data nc" using c(4) a(1) by (auto simp: image_iff)
    then show "?rs (n_data nc) = Some rc" using c(2) by (simp add: record_destroy_def)
    show "\<forall>b\<in>set ?ys. fst (entry ns2 ?rs b) \<noteq> rec_key rc" by (rule st(4))
  qed
  moreover have "slot_step h (unat i) (rec_key rc) None c xs (ns, rs) ?lo ?ys (ns2, ?rs)"
    using bk st(1,3,5) n2(1) set_remove1_subset[of a xs] a(1) by (auto simp: slot_step_def)
  ultimately show ?thesis using first by (intro exI[of _ ?lo] exI[of _ ?ys] exI[of _ "(ns2, ?rs)"]) simp
qed

lemma insert_step:
  assumes ok: "slot_ok h ns rs i xs" and d: "dll ns l xs"
    and c: "ns c = Some nc" "rs (n_data nc) = Some rc" "c \<notin> set xs" "slot h (rec_key rc) = i" "rec_value rc \<noteq> 0"
    and none: "\<forall>a\<in>set xs. fst (entry ns rs a) \<noteq> rec_key rc"
  obtains ns' l' ys where "list_insert (Some l) (Some c) (hash_compare_record rs) True ns = Some (Some c, ns', Some l')"
    "dll ns' l' ys" "mset ys = add_mset c (mset xs)" "slot_ok h ns' rs i ys"
    "entry ns' rs ` set ys = insert (rec_key rc, rec_value rc) (entry ns rs ` set xs)"
    "\<forall>b. b \<notin> insert c (set xs) \<longrightarrow> ns' b = ns b"
proof -
  have ec: "entry ns rs c = (rec_key rc, rec_value rc)" using c by (simp add: entry_def dat_def)
  have live: "live ns rs (c # xs)" using ok c by (auto simp: slot_ok_def live_def dat_def)
  then have valid: "\<forall>b\<in>insert c (set xs). rec_order.valid_at rs ns b" by (auto simp: rec_valid live_def)
  have sorted: "rec_order.sorted_by rs True ns xs" using ok by (simp add: slot_ok_def)
  have "ns c \<noteq> None" using c(1) by simp
  from rec_order.insert_dll[OF d c(3) this sorted valid] obtain ns' l' ys where
    ins: "list_insert (Some l) (Some c) (hash_compare_record rs) True ns = Some (Some c, ns', Some l')" "dll ns' l' ys"
      "mset ys = add_mset c (mset xs)" "rec_order.sorted_by rs True ns' ys" "frame (insert c (set xs)) ns ns'" by blast
  have "mset ys = mset (c # xs)" using ins(3) by simp
  note set_ys = mset_eq_setD[OF this]
  have same: "entry ns' rs b = entry ns rs b \<and> dat ns' b = dat ns b \<and> (ns' b = None) = (ns b = None)" for b
    using frame_dat[OF ins(5)] ins(5) by (auto simp: entry_def frame_def) (metis option.map_disc_iff option.distinct(1))+
  have "mset (map (\<lambda>a. fst (entry ns' rs a)) ys) = mset (map (\<lambda>a. fst (entry ns rs a)) (c # xs))" using ins(3) same by simp
  moreover have "distinct (map (\<lambda>a. fst (entry ns rs a)) (c # xs))" using ok none ec by (auto simp: slot_ok_def)
  ultimately have "distinct (map (\<lambda>a. fst (entry ns' rs a)) ys)" using mset_eq_imp_distinct_iff by blast
  moreover have "live ns' rs ys" using live same set_ys by (simp add: live_def)
  moreover have "\<forall>a\<in>set ys. slot h (fst (entry ns' rs a)) = i \<and> snd (entry ns' rs a) \<noteq> 0"
    using ok c(4,5) ec same set_ys by (auto simp: slot_ok_def)
  ultimately have "slot_ok h ns' rs i ys" using ins(4) by (simp add: slot_ok_def)
  moreover have "entry ns' rs ` set ys = insert (rec_key rc, rec_value rc) (entry ns rs ` set xs)"
    unfolding set_ys using same ec by simp
  moreover have "\<forall>b. b \<notin> insert c (set xs) \<longrightarrow> ns' b = ns b" using ins(5) by (simp add: frame_def)
  ultimately show thesis using that ins by blast
qed

lemma mset_Cons_ne: "mset ys = add_mset c (mset xs) \<Longrightarrow> ys \<noteq> [] \<and> set ys = insert c (set xs) \<and> length ys = Suc (length xs)"
  by (metis empty_not_add_mset list.size(3) mset.simps(1) set_mset_add_mset_insert set_mset_mset size_add_mset size_mset)

lemma replace_entry_step:
  assumes i: "unat i < length (bucket h)" and b: "bucket h ! unat i = Some l" and d: "dll ns l xs" and ok: "slot_ok h ns rs (unat i) xs"
    and c: "ns c = Some nc" "rs (n_data nc) = Some rc" "c \<notin> set xs" "n_data nc \<notin> dat ns ` set xs"
    and new: "slot h (rec_key rc) = unat i" "rec_value rc \<noteq> 0" and z: "rs 0 = None" and ne: "xs \<noteq> []"
  shows "\<exists>lo ys st'. replace_entry i (Some c) (h, ns, rs) = Some (with_slot h (unat i) lo xs ys, st') \<and>
    slot_step h (unat i) (rec_key rc) (Some (rec_value rc)) c xs (ns, rs) lo ys st'"
  using remove_entry[OF ok d c(1-3)]
proof (elim disjE conjE bexE exE)
  assume none: "\<forall>a\<in>set xs. fst (entry ns rs a) \<noteq> rec_key rc"
    and rm: "list_remove_match (Some l) (Some c) (hash_compare_record rs) ns = Some (None, ns, Some l)"
  obtain ns' l' ys where ins: "list_insert (Some l) (Some c) (hash_compare_record rs) True ns = Some (Some c, ns', Some l')"
    "dll ns' l' ys" "mset ys = add_mset c (mset xs)" "slot_ok h ns' rs (unat i) ys"
    "entry ns' rs ` set ys = insert (rec_key rc, rec_value rc) (entry ns rs ` set xs)"
    "\<forall>b. b \<notin> insert c (set xs) \<longrightarrow> ns' b = ns b"
    by (rule insert_step[OF ok d c(1-3) new none])
  note ys = mset_Cons_ne[OF ins(3)]
  have "replace_entry i (Some c) (h, ns, rs) = Some (with_slot h (unat i) (Some l') xs ys, ns', rs)"
    using i b rm ins(1) ys ne by (cases h) (simp add: replace_entry_def nth_chk_def set_bucket_def upd_chk_def with_slot_def)
  moreover have "slot_step h (unat i) (rec_key rc) (Some (rec_value rc)) c xs (ns, rs) (Some l') ys (ns', rs)"
    using ins(2,4,5,6) ys no_key_filter[OF none] by (simp add: slot_step_def bucket_is_def)
  ultimately show ?thesis by (intro exI[of _ "Some l'"] exI[of _ ys] exI[of _ "(ns', rs)"]) simp
next
  fix a ns1 l1 ns2
  assume a: "a \<in> set xs" "fst (entry ns rs a) = rec_key rc"
    and rm: "list_remove_match (Some l) (Some c) (hash_compare_record rs) ns = Some (Some a, ns1, Some l1)"
    and de: "destroy_entry (Some a) ns1 rs = Some (ns2, record_destroy (dat ns a) rs)"
    and d2: "dll ns2 l1 (remove1 a xs)" and n2: "\<forall>b. b \<notin> set xs \<longrightarrow> ns2 b = ns b"
    "\<forall>b. b \<noteq> a \<longrightarrow> dat ns2 b = dat ns b \<and> (ns2 b = None) = (ns b = None)"
  let ?xs = "remove1 a xs" and ?rs = "record_destroy (dat ns a) rs"
  have "distinct xs" using d by (simp add: dll_def)
  note st = removed_step[OF ok a this n2(2) z]
  have "dat ns a \<noteq> n_data nc" using c(4) a(1) by (auto simp: image_iff)
  then have c2: "ns2 c = Some nc" "?rs (n_data nc) = Some rc" "c \<notin> set ?xs"
    using n2(1) c set_remove1_subset[of a xs] by (auto simp: record_destroy_def)
  obtain ns' l' ys where ins: "list_insert (Some l1) (Some c) (hash_compare_record ?rs) True ns2 = Some (Some c, ns', Some l')"
    "dll ns' l' ys" "mset ys = add_mset c (mset ?xs)" "slot_ok h ns' ?rs (unat i) ys"
    "entry ns' ?rs ` set ys = insert (rec_key rc, rec_value rc) (entry ns2 ?rs ` set ?xs)"
    "\<forall>b. b \<notin> insert c (set ?xs) \<longrightarrow> ns' b = ns2 b"
    by (rule insert_step[OF st(1) d2 c2 new st(4)])
  note ys = mset_Cons_ne[OF ins(3)]
  have len: "length ys = length xs" using ys a(1) ne by (simp add: length_remove1)
  have "replace_entry i (Some c) (h, ns, rs) = Some (with_slot h (unat i) (Some l') xs ys, ns', ?rs)"
    using i b rm de ins(1) ys ne len by (cases h) (simp add: replace_entry_def nth_chk_def set_bucket_def upd_chk_def with_slot_def)
  moreover have "slot_step h (unat i) (rec_key rc) (Some (rec_value rc)) c xs (ns, rs) (Some l') ys (ns', ?rs)"
    using ins(2,4,5,6) ys st(3,5) n2(1) set_remove1_subset[of a xs] a(1) by (auto simp: slot_step_def bucket_is_def)
  ultimately show ?thesis by (intro exI[of _ "Some l'"] exI[of _ ys] exI[of _ "(ns', ?rs)"]) simp
qed

lemma new_bucket_step:
  assumes i: "unat i < length (bucket h)" and b: "bucket h ! unat i = None"
    and c: "ns c = Some nc" "rs (n_data nc) = Some rc" and new: "slot h (rec_key rc) = unat i" "rec_value rc \<noteq> 0"
  shows "\<exists>lo ys st'. new_bucket True i (Some c) (h, ns, rs) = Some (with_slot h (unat i) lo [] ys, st') \<and>
    slot_step h (unat i) (rec_key rc) (Some (rec_value rc)) c [] (ns, rs) lo ys st'"
proof -
  have "dll ns \<lparr>l_head = None, l_tail = None\<rparr> []" by (simp add: dll_empty)
  from list_push_dll[OF this, of c] c(1)
  obtain ns' l' where p: "list_push (Some \<lparr>l_head = None, l_tail = None\<rparr>) (Some c) ns = Some (ns', Some l')"
    "dll ns' l' [c]" "frame {c} ns ns'" by auto
  have "ns' c \<noteq> None" using p(2) by (auto simp: dll_def)
  moreover have "entry ns' rs c = (rec_key rc, rec_value rc)" "dat ns' c = n_data nc"
    using frame_dat[OF p(3), of c] c by (simp_all add: entry_def dat_def)
  ultimately have "slot_step h (unat i) (rec_key rc) (Some (rec_value rc)) c [] (ns, rs) (Some l') [c] (ns', rs)"
    using p(2,3) c(2) new by (simp add: slot_step_def bucket_is_def slot_ok_def live_def frame_def)
  moreover have "new_bucket True i (Some c) (h, ns, rs) = Some (with_slot h (unat i) (Some l') [] [c], ns', rs)"
    using i p(1) by (cases h) (simp add: new_bucket_def list_create_def set_bucket_def upd_chk_def with_slot_def)
  ultimately show ?thesis by (intro exI[of _ "Some l'"] exI[of _ "[c]"] exI[of _ "(ns', rs)"]) simp
qed

section \<open>The table as a map\<close>

text \<open>From one list to the table: the record and node of the call are new.\<close>

lemma slot_step_ok:
  assumes R: "hash_repr (h, ns, rs) L" and A: "hash_abs (h, ns, rs) L M" and i: "i = slot h k"
    and new: "ns fn = None" "rs fr = None" "fr \<noteq> 0"
    and st: "slot_step h i k v fn (L i) (ns(fn \<mapsto> n), rs(fr \<mapsto> r)) lo ys (ns', rs')"
  shows "hash_ok (with_slot h i lo (L i) ys, ns', rs') (M(k := v))"
proof -
  have wf: "table_wf h" and z: "rs 0 = None" and il: "i < length (bucket h)" and ok: "slot_ok h ns rs i (L i)"
    using slot_okD(1,2)[OF R] slot_okD(3-5)[OF R, of k] i by simp_all
  have live: "live ns rs (L i)" using ok by (simp add: slot_ok_def)
  note c = with_criterion[OF live new(1,2)]
  have dat: "dat (ns(fn \<mapsto> n)) ` set (L i) = dat ns ` set (L i)" using c(1) by (intro image_cong) (auto simp: dat_def)
  have "0 \<notin> dat ns ` set (L i)" using live z by (auto simp: live_def)
  then have z': "rs' 0 = None" using st z new(3) unfolding slot_step_def prod.case dat by simp
  have ns': "ns' b = ns b" if "b \<notin> insert fn (set (L i))" for b
    using st that unfolding slot_step_def prod.case by auto
  have rs': "rs' d = rs d" if "d \<noteq> fr" "d \<notin> dat ns ` set (L i)" for d
    using st that unfolding slot_step_def prod.case dat by auto
  have local: "bucket_is ns' lo ys" "slot_ok h ns' rs' i ys" "set ys \<subseteq> insert fn (set (L i))"
    using st by (simp_all add: slot_step_def)
  have rep: "hash_repr (with_slot h i lo (L i) ys, ns', rs') (L(i := ys))"
    by (rule repr_update(1)[OF R il local new(1,2) z']) (use ns' rs' in blast)+
  have same: "entry ns' rs' a = entry ns rs a" if "j < length (bucket h)" "j \<noteq> i" "a \<in> set (L j)" for j a
    by (rule repr_update(2)[OF R il local new(1,2) z' _ _ that]) (use ns' rs' in blast)+
  have "entry (ns(fn \<mapsto> n)) (rs(fr \<mapsto> r)) ` set (L i) = entry ns rs ` set (L i)" using c(2) by (intro image_cong) auto
  then have ysE: "entry ns' rs' ` set ys = {e \<in> entry ns rs ` set (L i). fst e \<noteq> k} \<union> (case v of None \<Rightarrow> {} | Some v \<Rightarrow> {(k, v)})"
    using st unfolding slot_step_def prod.case by simp
  have "hash_abs (with_slot h i lo (L i) ys, ns', rs') (L(i := ys)) (M(k := v))"
    by (rule abs_update[OF A i wf _ ysE]) (rule same)
  then show ?thesis using rep unfolding hash_ok_def by blast
qed

text \<open>What allocations must return: free addresses, and a list header when one is asked for.\<close>

definition fresh_for :: "u32 \<Rightarrow> nat \<Rightarrow> nodes \<Rightarrow> records \<Rightarrow> bool" where
  "fresh_for fr fn ns rs \<longleftrightarrow> fr \<noteq> 0 \<and> rs fr = None \<and> ns fn = None"

text \<open>Different nodes of a list have different, non-null records, so a list is shorter than the address space.\<close>

lemma slot_ok_length:
  assumes "slot_ok h ns rs i xs" "rs 0 = None"
  shows "length xs < size_max"
proof -
  have "distinct (map (\<lambda>d. rec_key (the (rs d))) (map (dat ns) xs))"
    using assms(1) by (simp add: slot_ok_def entry_def comp_def)
  then have d: "distinct (map (dat ns) xs)" unfolding distinct_map[of _ "map (dat ns) xs"] by blast
  have "set (map (dat ns) xs) \<subseteq> UNIV - {0}" using assms by (auto simp: slot_ok_def live_def)
  then have "card (set (map (dat ns) xs)) \<le> card (UNIV - {0 :: u32})" by (intro card_mono) auto
  also have "\<dots> < size_max" by (simp add: card_Diff_singleton card_word)
  finally show ?thesis using distinct_card[OF d] by simp
qed

lemma hash_set_map:
  assumes ok: "hash_ok (h, ns, rs) M" and f: "fresh_for fr fn ns rs"
  shows "\<exists>h' ns' rs'. hash_set fr (Some fn) True (Some h) k v (ns, rs) = Some (Some h', ns', rs') \<and>
    hash_ok (h', ns', rs') (M(k := if v = 0 then None else Some v))"
proof -
  obtain L where R: "hash_repr (h, ns, rs) L" and A: "hash_abs (h, ns, rs) L M" using ok by (auto simp: hash_ok_def)
  note wf = slot_okD(1,2)[OF R] and sl = slot_okD(3-5)[OF R, of k]
  note new = f[unfolded fresh_for_def]
  let ?i = "slot h k" and ?hk = "keyFunc h (h_size h) k"
  let ?j = "hash_key_to_index h ?hk" and ?xs = "L (slot h k)"
  note ix = table_wf_index(1,2)[OF wf(1), of k]
  let ?ns = "ns(fn \<mapsto> \<lparr>n_next = None, n_prev = None, n_data = fr\<rparr>)" and ?rs = "rs(fr \<mapsto> \<lparr>rec_key = k, rec_value = v\<rparr>)"
  have live: "live ns rs ?xs" using sl(2) by (simp add: slot_ok_def)
  have frs: "ns fn = None" "rs fr = None" "fr \<noteq> 0" using new by auto
  note c = with_criterion[OF live frs(1,2)]
  have ok1: "slot_ok h ?ns ?rs (unat ?j) ?xs"
    unfolding ix(2) by (rule slot_ok_cong(1)[OF _ sl(2)]) (use live frs in \<open>auto simp: live_def dat_def\<close>)
  have "fr \<notin> dat ns ` set ?xs" using live frs by (auto simp: live_def)
  moreover have "dat ?ns ` set ?xs = dat ns ` set ?xs" using c(4) by (intro image_cong) (auto simp: dat_def)
  ultimately have out: "fr \<notin> dat ?ns ` set ?xs" by simp
  have il: "unat ?j < length (bucket h)" using sl(3) ix(2) by simp
  have rk: "slot h (rec_key \<lparr>rec_key = k, rec_value = v\<rparr>) = unat ?j" using ix(2) by simp
  have z1: "?rs 0 = None" using wf(2) frs(3) by simp
  note finish = slot_step_ok[OF R A refl frs, of _ _ _ _ _ _]
  have set_eq: "hash_set fr (Some fn) True (Some h) k v (ns, rs) =
    (if bucket h ! ?i = None \<and> v \<noteq> 0 then map_option (apfst Some) (new_bucket True ?j (Some fn) (h, ?ns, ?rs))
     else if bucket h ! ?i \<noteq> None then
       (if v = 0 then map_option (apfst Some) (remove_loop ?j (Some fn) (h, ?ns, ?rs))
        else map_option (apfst Some) (replace_entry ?j (Some fn) (h, ?ns, ?rs)))
     else Some (Some h, ns, rs))"
    using ix sl(3) frs
    by (simp add: hash_set_def Let_def record_create_def node_create_def nth_chk_def destroy_entry_def node_destroy_def record_destroy_def
        fun_upd_idem cong: if_cong)
  consider (new) "bucket h ! ?i = None" "v \<noteq> 0" | (gone) "bucket h ! ?i = None" "v = 0"
    | (remove) l where "bucket h ! ?i = Some l" "v = 0" | (replace) l where "bucket h ! ?i = Some l" "v \<noteq> 0" by blast
  then show ?thesis
  proof cases
    case new
    then have "?xs = []" using sl(1) by (simp add: bucket_is_def)
    moreover have b: "bucket h ! unat ?j = None" using new ix(2) by simp
    ultimately obtain lo ys ns' rs' where "new_bucket True ?j (Some fn) (h, ?ns, ?rs) = Some (with_slot h ?i lo ?xs ys, ns', rs')"
      "slot_step h ?i k (Some v) fn ?xs (?ns, ?rs) lo ys (ns', rs')"
      using new_bucket_step[OF il b, of ?ns fn _ ?rs] rk new(2) ix(2) by fastforce
    then show ?thesis using new set_eq slot_step_ok[OF R A refl frs] by auto
  next
    case gone
    then have "M k = None" using sl(1) A by (auto simp: bucket_is_def hash_abs_def intro: option.exhaust)
    then have "M(k := None) = M" by auto
    then show ?thesis using gone set_eq ok by simp
  next
    case (remove l)
    then have d: "dll ns l ?xs" "?xs \<noteq> []" using sl(1) by (simp_all add: bucket_is_def)
    have b: "bucket h ! unat ?j = Some l" using remove ix(2) by simp
    have "length ?xs < size_max" by (rule slot_ok_length[OF sl(2) wf(2)])
    from remove_loop_step[OF il b dll_cong[OF d(1) c(1)] ok1 _ _ c(4) _ z1 d(2) this] out
    obtain lo ys ns' rs' where "remove_loop ?j (Some fn) (h, ?ns, ?rs) = Some (with_slot h ?i lo ?xs ys, ns', rs')"
      "slot_step h ?i k None fn ?xs (?ns, ?rs) lo ys (ns', rs')" unfolding ix(2) by fastforce
    then show ?thesis using remove set_eq slot_step_ok[OF R A refl frs] by auto
  next
    case (replace l)
    then have d: "dll ns l ?xs" "?xs \<noteq> []" using sl(1) by (simp_all add: bucket_is_def)
    have b: "bucket h ! unat ?j = Some l" using replace ix(2) by simp
    from replace_entry_step[OF il b dll_cong[OF d(1) c(1)] ok1 _ _ c(4) _ rk _ z1 d(2)] out replace(2)
    obtain lo ys ns' rs' where "replace_entry ?j (Some fn) (h, ?ns, ?rs) = Some (with_slot h ?i lo ?xs ys, ns', rs')"
      "slot_step h ?i k (Some v) fn ?xs (?ns, ?rs) lo ys (ns', rs')" unfolding ix(2) by fastforce
    then show ?thesis using replace set_eq slot_step_ok[OF R A refl frs] by auto
  qed
qed

lemma hash_dom_card:
  assumes R: "hash_repr (h, ns, rs) L" and A: "hash_abs (h, ns, rs) L M"
  shows "card (dom M) = (\<Sum>i<length (bucket h). length (L i))"
proof -
  let ?n = "length (bucket h)" and ?K = "\<lambda>i. (\<lambda>a. fst (entry ns rs a)) ` set (L i)"
  have wf: "table_wf h" by (rule slot_okD(1)[OF R])
  have ok: "slot_ok h ns rs i (L i)" if "i < ?n" for i using R that by (simp add: hash_repr_def)
  have "dom M = (\<Union>i<?n. ?K i)"
  proof (intro set_eqI iffI)
    fix k assume "k \<in> dom M"
    then obtain v where "M k = Some v" by auto
    then have "(k, v) \<in> entry ns rs ` set (L (slot h k))" using A by (simp add: hash_abs_def)
    then obtain a where "a \<in> set (L (slot h k))" "entry ns rs a = (k, v)" by auto
    then show "k \<in> (\<Union>i<?n. ?K i)" using table_wf_index(3)[OF wf, of k] by (force intro!: bexI[of _ "slot h k"])
  next
    fix k assume "k \<in> (\<Union>i<?n. ?K i)"
    then obtain i a where i: "i < ?n" "a \<in> set (L i)" "k = fst (entry ns rs a)" by auto
    then have "slot h k = i" using ok[OF i(1)] by (simp add: slot_ok_def)
    then have "(k, snd (entry ns rs a)) \<in> entry ns rs ` set (L (slot h k))" using i(2,3) by (metis image_eqI prod.collapse)
    then show "k \<in> dom M" using A unfolding hash_abs_def by blast
  qed
  also have "card \<dots> = (\<Sum>i<?n. card (?K i))"
  proof (rule card_UN_disjoint)
    show "\<forall>i\<in>{..<?n}. \<forall>j\<in>{..<?n}. i \<noteq> j \<longrightarrow> ?K i \<inter> ?K j = {}"
      using ok unfolding slot_ok_def by (auto simp: disjoint_iff) metis
  qed auto
  also have "\<dots> = (\<Sum>i<?n. length (L i))"
  proof (rule sum.cong)
    fix i assume "i \<in> {..<?n}"
    then have "distinct (map (\<lambda>a. fst (entry ns rs a)) (L i))" using ok by (simp add: slot_ok_def)
    from distinct_card[OF this] show "card (?K i) = length (L i)" by simp
  qed simp
  finally show ?thesis .
qed

lemma hash_create_repr:
  assumes "b \<in> {8, 12, 16}" "rs 0 = None"
  shows "\<exists>h. hash_create True True b None = Some h \<and> hash_ok (h, ns, rs) Map.empty"
proof -
  let ?h = "\<lparr>h_size = b, numTotalElem = 0, numActiveSlots = 0, numSlots = push_bit b 1, keyFunc = hash_key,
      bucket = replicate (unat (push_bit b (1 :: u32))) None\<rparr>"
  have "table_wf ?h" using assms(1) hash_key_bound[OF assms(1)] unfolding table_wf_def by simp
  then have "hash_repr (?h, ns, rs) (\<lambda>_. [])"
    using assms(2) by (simp add: hash_repr_def bucket_is_def slot_ok_def live_def)
  moreover have "hash_abs (?h, ns, rs) (\<lambda>_. []) Map.empty" by (simp add: hash_abs_def)
  ultimately show ?thesis unfolding hash_ok_def by (auto simp: hash_create_def)
qed

lemma clean_scan_overrun:
  assumes "\<forall>i. unat index \<le> i \<and> i < length bs \<longrightarrow> bs ! i = None" "length bs = unat slots"
  shows "clean_scan bs slots index = None"
  using assms(1)
proof (induction "length bs - unat index" arbitrary: index)
  case 0
  then show ?case by (subst clean_scan.simps) (simp add: nth_chk_def)
next
  case (Suc d)
  then have i: "unat index < length bs" "bs ! unat index = None" by simp_all
  then have less: "index < slots" using assms(2) by (simp add: word_less_nat_alt)
  then have s: "unat (index + 1) = Suc (unat index)"
    using unat_add_small[of index 1] unat_u32_less[of slots] by (simp add: word_less_nat_alt)
  have "clean_scan bs slots (index + 1) = None" by (rule Suc.hyps(1)) (use Suc.hyps(2) Suc.prems s in auto)
  then show ?case using i less by (subst clean_scan.simps) (simp add: nth_chk_def)
qed

section \<open>Properties\<close>

text \<open>
  C12. \<open>hash_set\<close> on a table that represents a map, with allocations that succeed, returns without a fault a
  table that represents the updated map: the key has the new value, or is gone if the value is 0, and every
  other key, colliding or not, is as before.
\<close>

theorem hash_set_refines:
  assumes "hash_ok (h, ns, rs) M" "fresh_for fr fn ns rs"
  shows "\<exists>h' ns' rs'. hash_set fr (Some fn) True (Some h) k v (ns, rs) = Some (Some h', ns', rs') \<and>
    hash_ok (h', ns', rs') (M(k := if v = 0 then None else Some v))"
  by (rule hash_set_map[OF assms])

text \<open>\<open>hash_get\<close> returns what the map has for the key and leaves the heap as it was.\<close>

theorem hash_get_refines:
  assumes "hash_ok (h, ns, rs) M" "fresh_for fr fn ns rs"
  shows "hash_get fr (Some fn) (Some h) k (ns, rs) = Some (M k, ns, rs)"
  by (rule hash_get_map[OF assms(1)]) (use assms(2) in \<open>auto simp: fresh_for_def\<close>)

text \<open>\<open>hash_length\<close> is the number of keys of the map.\<close>

theorem hash_length_counts:
  assumes "hash_ok (h, ns, rs) M"
  shows "hash_length (Some h) = of_nat (card (dom M))"
proof -
  obtain L where L: "hash_repr (h, ns, rs) L" "hash_abs (h, ns, rs) L M" using assms by (auto simp: hash_ok_def)
  then show ?thesis unfolding hash_dom_card[OF L] by (simp add: hash_length_def hash_repr_def)
qed

text \<open>
  \<open>hash_clean\<close> reads past the table when its static index has moved beyond every list that is left: it
  looks into the slot before it tests the index.
\<close>

theorem hash_clean_overruns:
  assumes "hash_ok (h, ns, rs) M" "0 < numActiveSlots h"
    and "\<forall>i. unat index \<le> i \<and> i < length (bucket h) \<longrightarrow> bucket h ! i = None"
  shows "hash_clean (Some h) index (ns, rs) = None"
proof -
  have "length (bucket h) = unat (numSlots h)" using assms(1) by (auto simp: hash_ok_def hash_repr_def table_wf_def)
  from clean_scan_overrun[OF assms(3) this] show ?thesis using assms(2) by (simp add: hash_clean_def)
qed

section \<open>Examples\<close>

text \<open>A table whose keying function sends every key to slot 0, with the entry 5 to 7.\<close>

definition ex_hash :: hash_t where
  "ex_hash = \<lparr>h_size = 8, numTotalElem = 1, numActiveSlots = 1, numSlots = 256, keyFunc = (\<lambda>_ _. 0),
     bucket = Some \<lparr>l_head = Some 1, l_tail = Some 1\<rparr> # replicate 255 None\<rparr>"

definition ex_nodes :: nodes where
  "ex_nodes = [1 \<mapsto> \<lparr>n_next = None, n_prev = None, n_data = 64\<rparr>]"

definition ex_records :: records where
  "ex_records = [64 \<mapsto> \<lparr>rec_key = 5, rec_value = 7\<rparr>]"

lemma ex_hash_ok: "hash_ok (ex_hash, ex_nodes, ex_records) [5 \<mapsto> 7]"
proof -
  let ?L = "(\<lambda>i. if i = 0 then [1] else []) :: nat \<Rightarrow> nat list"
  have e: "entry ex_nodes ex_records 1 = (5, 7)" "dat ex_nodes 1 = 64"
    by (simp_all add: entry_def dat_def ex_nodes_def ex_records_def)
  have n: "length (bucket ex_hash) = 256" "table_wf ex_hash" by (simp_all add: ex_hash_def table_wf_def)
  have wf: "slot ex_hash k = 0" for k by (simp add: ex_hash_def slot_def)
  have sum0: "(\<Sum>i<256 :: nat. f (?L i)) = f [1]" if "f [] = 0" for f :: "nat list \<Rightarrow> u32"
    using that by (subst sum.remove[of _ 0]) (auto intro: sum.neutral)
  have sums: "(\<Sum>i<256 :: nat. if ?L i = [] then 0 else 1) = (1 :: u32)" "(\<Sum>i<256 :: nat. of_nat (length (?L i))) = (1 :: u32)"
    using sum0[of "\<lambda>xs. if xs = [] then 0 else 1"] sum0[of "\<lambda>xs. of_nat (length xs)"] by simp_all
  have "bucket_is ex_nodes (bucket ex_hash ! i) (?L i) \<and> slot_ok ex_hash ex_nodes ex_records i (?L i)" if "i < 256" for i
  proof (cases i)
    case 0
    then show ?thesis using e wf
      by (simp add: bucket_is_def slot_ok_def live_def ex_hash_def ex_nodes_def ex_records_def dll_def)
  next
    case (Suc j)
    then show ?thesis using that by (simp add: ex_hash_def bucket_is_def slot_ok_def live_def)
  qed
  moreover have "numActiveSlots ex_hash = 1" "numTotalElem ex_hash = 1" "ex_records 0 = None"
    by (simp_all add: ex_hash_def ex_records_def)
  ultimately have "hash_repr (ex_hash, ex_nodes, ex_records) ?L"
    unfolding hash_repr_def prod.case n sums using n by auto
  moreover have "hash_abs (ex_hash, ex_nodes, ex_records) ?L [5 \<mapsto> 7]"
    unfolding hash_abs_def prod.case wf using e by auto
  ultimately show ?thesis unfolding hash_ok_def by blast
qed

lemma ex_fresh: "fresh_for 96 2 ex_nodes ex_records"
  by (simp add: fresh_for_def ex_nodes_def ex_records_def)

theorem hash_set_refines_witness:
  "\<exists>h' ns' rs'. hash_set 96 (Some 2) True (Some ex_hash) 6 9 (ex_nodes, ex_records) = Some (Some h', ns', rs') \<and>
     hash_ok (h', ns', rs') [5 \<mapsto> 7, 6 \<mapsto> 9]"
  using hash_set_refines[OF ex_hash_ok ex_fresh, of 6 9] by simp

theorem hash_get_refines_witness:
  "hash_get 96 (Some 2) (Some ex_hash) 5 (ex_nodes, ex_records) = Some (Some 7, ex_nodes, ex_records)"
  using hash_get_refines[OF ex_hash_ok ex_fresh, of 5] by simp

theorem hash_length_counts_witness: "hash_length (Some ex_hash) = 1"
  using hash_length_counts[OF ex_hash_ok] by simp

theorem hash_clean_overruns_witness: "hash_clean (Some ex_hash) 1 (ex_nodes, ex_records) = None"
proof (rule hash_clean_overruns[OF ex_hash_ok])
  show "\<forall>i. unat (1 :: u32) \<le> i \<and> i < length (bucket ex_hash) \<longrightarrow> bucket ex_hash ! i = None"
    by (auto simp: ex_hash_def nth_Cons')
qed (simp add: ex_hash_def)

text \<open>The table that \<open>hash_create\<close> returns represents the empty map.\<close>

theorem hash_create_empty: "\<exists>h. hash_create True True 8 None = Some h \<and> hash_ok (h, Map.empty, Map.empty) Map.empty"
  by (rule hash_create_repr) simp_all

end
