(* ===== verification/Sosal_Heap.thy ===== *)
theory Sosal_Heap
  imports Sosal_List
begin

text \<open>
  The allocator of \<open>source/sosal/heap.c\<close>, which divides a buffer into aligned blocks. Three lists (used, free,
  spare) share the nodes; a node's data is the address of its block descriptor, in a store of its own. The
  descriptors and nodes are at the front of the buffer; the bytes handed out are not modelled, only their
  addresses and sizes, so that the cleaning of a freed block has no effect here. The mutex makes every
  operation atomic. Pointers and sizes are 32 bits wide, \<open>sizeof(node_t)\<close> is 12 and \<open>sizeof(block_t)\<close> is 8.
\<close>

section \<open>Blocks\<close>

record block_t =
  blk_size :: u32
  blk_data :: u32

type_synonym blocks = "u32 \<Rightarrow> block_t option"

definition ptr_is_aligned :: "u32 \<Rightarrow> u32 \<Rightarrow> bool" where
  "ptr_is_aligned ptr align \<longleftrightarrow> ptr mod align = 0"

definition node_clear :: "nat option \<Rightarrow> nodes \<Rightarrow> nodes option" where
  "node_clear node ns =
     (case node of
        None \<Rightarrow> Some ns
      | Some a \<Rightarrow> map_option (\<lambda>_. ns(a \<mapsto> \<lparr>n_next = None, n_prev = None, n_data = 0\<rparr>)) (ns a))"

text \<open>The address 0 is the null pointer.\<close>

definition block_clear :: "u32 \<Rightarrow> blocks \<Rightarrow> blocks option" where
  "block_clear block bs =
     (if block = 0 then Some bs else map_option (\<lambda>_. bs(block \<mapsto> \<lparr>blk_size = 0, blk_data = 0\<rparr>)) (bs block))"

definition block_size :: "u32 \<Rightarrow> u32 \<Rightarrow> u32" where
  "block_size align desired =
     (let remainder = desired mod align in
      if remainder \<noteq> 0 then desired + (align - remainder) else desired)"

text \<open>The comparison of two nodes by the data pointers of their blocks; a null second node is equal.\<close>

definition block_compare_ptr :: "blocks \<Rightarrow> node_compare_f" where
  "block_compare_ptr bs a b =
     (case (a, b) of
        (Some x, Some y) \<Rightarrow>
          (case (bs (n_data x), bs (n_data y)) of
             (Some blockA, Some blockB) \<Rightarrow>
               if blk_data blockA < blk_data blockB then -1
               else if blk_data blockA = blk_data blockB then 0
               else 1
           | _ \<Rightarrow> 0)
      | _ \<Rightarrow> 0)"

definition block_is_adjacent :: "u32 \<Rightarrow> u32 \<Rightarrow> blocks \<Rightarrow> bool option" where
  "block_is_adjacent a b bs =
     (if a = 0 \<or> b = 0 then Some False
      else do { x \<leftarrow> bs a; y \<leftarrow> bs b; Some (blk_data x + blk_size x = blk_data y) })"

abbreviation MAX_SCORE :: u32 where "MAX_SCORE \<equiv> 0xFFFFFFFF"
abbreviation MIN_SCORE :: u32 where "MIN_SCORE \<equiv> 0"

definition block_rate_bestfit :: "blocks \<Rightarrow> node_t option \<Rightarrow> node_t option \<Rightarrow> u32" where
  "block_rate_bestfit bs current criteria =
     (case (current, criteria) of
        (Some x, Some y) \<Rightarrow>
          (case (bs (n_data x), bs (n_data y)) of
             (Some this_block, Some comp_block) \<Rightarrow>
               if blk_size this_block = blk_size comp_block then MAX_SCORE
               else if blk_size this_block > blk_size comp_block
               then MAX_SCORE - (blk_size this_block - blk_size comp_block)
               else MIN_SCORE
           | _ \<Rightarrow> MIN_SCORE)
      | _ \<Rightarrow> MIN_SCORE)"

text \<open>
  The search criteria are a node and a block on the stack, at addresses that no other node or block has;
  they are gone when the function returns.
\<close>

definition STACK_NODE :: nat where "STACK_NODE = 0"
definition STACK_BLOCK :: u32 where "STACK_BLOCK = 0xFFFFFFFF"

definition with_search :: "u32 \<Rightarrow> u32 \<Rightarrow> nodes \<Rightarrow> blocks \<Rightarrow> nodes \<times> blocks" where
  "with_search data sz ns bs =
     (ns(STACK_NODE \<mapsto> \<lparr>n_next = None, n_prev = None, n_data = STACK_BLOCK\<rparr>),
      bs(STACK_BLOCK \<mapsto> \<lparr>blk_size = sz, blk_data = data\<rparr>))"

text \<open>The node found and its block, if any, and the list without it.\<close>

definition block_bestfit_and_remove ::
  "list_t \<Rightarrow> u32 \<Rightarrow> nodes \<times> blocks \<Rightarrow> ((nat \<times> u32) option \<times> list_t \<times> nodes) option" where
  "block_bestfit_and_remove list sz st =
     (case st of (ns, bs) \<Rightarrow> do {
        let (ns1, bs1) = with_search 0 sz ns bs;
        found \<leftarrow> list_score (Some list) (Some STACK_NODE) (block_rate_bestfit bs1) ns1;
        if found \<noteq> None then do {
          (node, ns2, l) \<leftarrow> list_extract (Some list) found ns;
          a \<leftarrow> node;
          n \<leftarrow> ns2 a;
          l' \<leftarrow> l;
          Some (Some (a, n_data n), l', ns2) }
        else Some (None, list, ns) })"

definition block_find_and_remove ::
  "list_t \<Rightarrow> u32 \<Rightarrow> nodes \<times> blocks \<Rightarrow> ((nat \<times> u32) option \<times> list_t \<times> nodes) option" where
  "block_find_and_remove list ptr st =
     (case st of (ns, bs) \<Rightarrow> do {
        let (ns1, bs1) = with_search ptr 0 ns bs;
        (found, ns2, l) \<leftarrow> list_remove_match (Some list) (Some STACK_NODE) (block_compare_ptr bs1) ns1;
        l' \<leftarrow> l;
        let ns3 = ns2(STACK_NODE := None);
        (case found of
           None \<Rightarrow> Some (None, l', ns3)
         | Some a \<Rightarrow> do { n \<leftarrow> ns3 a; Some (Some (a, n_data n), l', ns3) }) })"

section \<open>The heap\<close>

record heap_t =
  hp_raw :: u32
  hp_used :: list_t
  hp_free :: list_t
  hp_spare :: list_t
  hp_blocks :: u32
  hp_nodes :: nat
  hp_data :: u32
  maxBlocks :: u32
  hp_align :: u32
  bytesUsed :: u32
  bytesFree :: u32
  bytesTotal :: u32
  cleanPolicy :: bool
  coalescePolicy :: bool

type_synonym heap_state = "heap_t \<times> nodes \<times> blocks"

abbreviation node_bytes :: u32 where "node_bytes \<equiv> 12"
abbreviation block_bytes :: u32 where "block_bytes \<equiv> 8"
abbreviation bookkeeping :: u32 where "bookkeeping \<equiv> 20"

text \<open>
  \<open>heap_calc_overhead\<close> from the number \<open>num\<close> of bookkeeping elements that its floating-point estimate gives.
  The padding is computed with wrap-around, so that the test of the sum always succeeds. The loop gives up
  one element when the padding does not cover the alignment of the data; \<open>fuel\<close> bounds the rounds.
\<close>

fun overhead_loop :: "nat \<Rightarrow> u32 \<Rightarrow> heap_t \<Rightarrow> (bool \<times> heap_t) option" where
  "overhead_loop 0 num heap = None"
| "overhead_loop (Suc fuel) num heap =
     (let overhead = num * bookkeeping;
          data = num * hp_align heap;
          pad = bytesTotal heap - data - overhead in
      if bytesTotal heap \<ge> pad + data + overhead then
        (let heap1 = heap\<lparr>hp_blocks := hp_raw heap,
               hp_nodes := unat (hp_raw heap + num * block_bytes),
               hp_data := hp_raw heap + overhead,
               bytesUsed := 0, bytesFree := data, maxBlocks := num\<rparr> in
         if \<not> ptr_is_aligned (hp_data heap1) (hp_align heap) then
           (let off = hp_align heap - hp_data heap1 mod hp_align heap in
            if off > pad then
              (if bytesTotal heap < bytesTotal heap + data + overhead then overhead_loop fuel (num - 1) heap1
               else Some (True, heap1))
            else Some (True, heap1\<lparr>hp_data := hp_data heap1 + off\<rparr>))
         else if bytesTotal heap < pad + data + overhead then overhead_loop fuel num heap1 else Some (True, heap1))
      else if bytesTotal heap < pad + data + overhead then overhead_loop fuel (num - 1) heap else Some (True, heap))"

definition heap_calc_overhead :: "u32 \<Rightarrow> heap_t \<Rightarrow> (bool \<times> heap_t) option" where
  "heap_calc_overhead num heap = (if num = 0 then Some (False, heap) else overhead_loop (Suc (unat num)) num heap)"

text \<open>The node and block with index \<open>i\<close> of the bookkeeping area.\<close>

definition node_addr :: "heap_t \<Rightarrow> u32 \<Rightarrow> nat" where
  "node_addr heap i = hp_nodes heap + unat (i * node_bytes)"

definition block_addr :: "heap_t \<Rightarrow> u32 \<Rightarrow> u32" where
  "block_addr heap i = hp_blocks heap + i * block_bytes"

definition init_spare :: "u32 \<Rightarrow> heap_state \<Rightarrow> heap_state option" where
  "init_spare i st =
     (case st of (heap, ns, bs) \<Rightarrow>
        let prev = (if 0 < i then Some (node_addr heap (i - 1)) else None);
            nxt = (if i < maxBlocks heap - 1 then Some (node_addr heap (i + 1)) else None);
            spare1 = (if 0 < i then hp_spare heap else (hp_spare heap)\<lparr>l_head := Some (node_addr heap i)\<rparr>);
            spare2 = (if i < maxBlocks heap - 1 then spare1 else spare1\<lparr>l_tail := Some (node_addr heap i)\<rparr>) in
        Some (heap\<lparr>hp_spare := spare2\<rparr>,
              ns(node_addr heap i \<mapsto> \<lparr>n_next = nxt, n_prev = prev, n_data = block_addr heap i\<rparr>),
              bs(block_addr heap i \<mapsto> \<lparr>blk_size = 0, blk_data = 0\<rparr>)))"

definition empty_heap :: "u32 \<Rightarrow> u32 \<Rightarrow> u32 \<Rightarrow> heap_t" where
  "empty_heap buffer sz p2align =
     (let none = \<lparr>l_head = None, l_tail = None\<rparr> in
      \<lparr>hp_raw = buffer, hp_used = none, hp_free = none, hp_spare = none, hp_blocks = 0, hp_nodes = 0, hp_data = 0,
       maxBlocks = 0, hp_align = push_bit (unat p2align) 1, bytesUsed = 0, bytesFree = 0, bytesTotal = sz,
       cleanPolicy = True, coalescePolicy = True\<rparr>)"

text \<open>\<open>num\<close> is the estimate that \<open>heap_calc_overhead\<close> computes from the size in floating point.\<close>

definition heap_init :: "u32 \<Rightarrow> u32 \<Rightarrow> u32 \<Rightarrow> u32 \<Rightarrow> nodes \<times> blocks \<Rightarrow> (bool \<times> heap_state) option" where
  "heap_init num buffer sz p2align st =
     (case st of (ns, bs) \<Rightarrow>
        let p1 = (if p2align > 12 then 12 else p2align);
            p2 = (if p1 < 5 then 5 else p1);
            heap = empty_heap buffer sz p2 in
        if buffer = 0 \<or> \<not> ptr_is_aligned buffer 4 then Some (False, heap, ns, bs)
        else do {
          (ok, heap1) \<leftarrow> heap_calc_overhead num heap;
          if \<not> ok then Some (False, heap1, ns, bs)
          else do {
            (heap2, ns1, bs1) \<leftarrow> for_range 0 (unat (maxBlocks heap1)) init_spare (heap1, ns, bs);
            (first, ns2, spare) \<leftarrow> list_pop (Some (hp_spare heap2)) ns1;
            spare' \<leftarrow> spare;
            first_node \<leftarrow> first;
            n \<leftarrow> ns2 first_node;
            _ \<leftarrow> bs1 (n_data n);
            let bs2 = bs1(n_data n \<mapsto> \<lparr>blk_size = bytesFree heap2, blk_data = hp_data heap2\<rparr>);
            (ns3, free) \<leftarrow> list_push (Some (hp_free heap2)) (Some first_node) ns2;
            free' \<leftarrow> free;
            Some (True, heap2\<lparr>hp_spare := spare', hp_free := free'\<rparr>, ns3, bs2) } })"

section \<open>Allocation\<close>

text \<open>
  The remainder of a block that is too large goes into a spare descriptor and onto the free list. Without a
  spare descriptor the block goes back to the free list and the request fails.
\<close>

definition fracture :: "nat \<Rightarrow> u32 \<Rightarrow> u32 \<Rightarrow> heap_state \<Rightarrow> (bool \<times> heap_state) option" where
  "fracture node block num_bytes st =
     (case st of (heap, ns, bs) \<Rightarrow> do {
        b \<leftarrow> bs block;
        (spareNode, ns1, spare) \<leftarrow> list_pop (Some (hp_spare heap)) ns;
        spare' \<leftarrow> spare;
        let heap1 = heap\<lparr>hp_spare := spare'\<rparr>;
        (case spareNode of
           None \<Rightarrow> do {
             (_, ns2, free) \<leftarrow> list_insert (Some (hp_free heap1)) (Some node) (block_compare_ptr bs) True ns1;
             free' \<leftarrow> free;
             Some (False, heap1\<lparr>hp_free := free'\<rparr>, ns2, bs) }
         | Some s \<Rightarrow> do {
             n \<leftarrow> ns1 s;
             _ \<leftarrow> bs (n_data n);
             let bs1 = bs(n_data n \<mapsto> \<lparr>blk_size = blk_size b - num_bytes, blk_data = blk_data b + num_bytes\<rparr>);
             let bs2 = bs1(block \<mapsto> b\<lparr>blk_size := num_bytes\<rparr>);
             (_, ns2, free) \<leftarrow> list_insert (Some (hp_free heap1)) (Some s) (block_compare_ptr bs2) True ns1;
             free' \<leftarrow> free;
             Some (True, heap1\<lparr>hp_free := free'\<rparr>, ns2, bs2) }) })"

definition heap_alloc :: "u32 \<Rightarrow> heap_state \<Rightarrow> (u32 \<times> heap_state) option" where
  "heap_alloc num st =
     (case st of (heap, ns, bs) \<Rightarrow>
        if hp_raw heap = 0 \<or> num = 0 then Some (0, st)
        else
          let num_bytes = block_size (hp_align heap) num in
          if bytesFree heap < num_bytes then Some (0, st)
          else do {
            (found, free, ns1) \<leftarrow> block_bestfit_and_remove (hp_free heap) num_bytes (ns, bs);
            (case found of
               None \<Rightarrow> Some (0, st)
             | Some (node, block) \<Rightarrow>
                 let heap1 = heap\<lparr>hp_free := free\<rparr> in
                 if block = 0 then Some (0, heap1, ns1, bs)
                 else do {
                   b \<leftarrow> bs block;
                   (ok, heap2, ns2, bs2) \<leftarrow> (if blk_size b > num_bytes then fracture node block num_bytes (heap1, ns1, bs)
                                            else Some (True, heap1, ns1, bs));
                   if \<not> ok then Some (0, heap2, ns2, bs2)
                   else do {
                     (_, ns3, used) \<leftarrow> list_insert (Some (hp_used heap2)) (Some node) (block_compare_ptr bs2) True ns2;
                     used' \<leftarrow> used;
                     b2 \<leftarrow> bs2 block;
                     Some (blk_data b2, heap2\<lparr>hp_used := used', bytesFree := bytesFree heap2 - num_bytes,
                       bytesUsed := bytesUsed heap2 + num_bytes\<rparr>, ns3, bs2) } }) })"

section \<open>Freeing\<close>

text \<open>
  The merge with a neighbour on the free list, the previous one first. The nodes are linked by hand: the
  list's own tail pointer is not updated and the cleared node goes to no list.
\<close>

definition block_of :: "nat option \<Rightarrow> nodes \<Rightarrow> u32 option" where
  "block_of node ns = (case node of None \<Rightarrow> Some 0 | Some a \<Rightarrow> map_option n_data (ns a))"

definition merge_prev :: "nat \<Rightarrow> u32 \<Rightarrow> nat \<Rightarrow> u32 \<Rightarrow> nodes \<times> blocks \<Rightarrow> (nodes \<times> blocks) option" where
  "merge_prev node block prev_node prev_block st =
     (case st of (ns, bs) \<Rightarrow> do {
        b \<leftarrow> bs block;
        pb \<leftarrow> bs prev_block;
        bs1 \<leftarrow> block_clear prev_block (bs(block \<mapsto> b\<lparr>blk_data := blk_data pb, blk_size := blk_size b + blk_size pb\<rparr>));
        n \<leftarrow> ns node;
        p \<leftarrow> ns prev_node;
        let ns1 = ns(prev_node \<mapsto> p\<lparr>n_data := block, n_next := n_next n\<rparr>);
        ns2 \<leftarrow> (case n_next n of None \<Rightarrow> Some ns1 | Some q \<Rightarrow> set_prev q (Some prev_node) ns1);
        ns3 \<leftarrow> node_clear (Some node) ns2;
        Some (ns3, bs1) })"

definition merge_next :: "nat \<Rightarrow> u32 \<Rightarrow> nat \<Rightarrow> u32 \<Rightarrow> nodes \<times> blocks \<Rightarrow> (nodes \<times> blocks) option" where
  "merge_next node block next_node next_block st =
     (case st of (ns, bs) \<Rightarrow> do {
        b \<leftarrow> bs block;
        nb \<leftarrow> bs next_block;
        bs1 \<leftarrow> block_clear next_block (bs(block \<mapsto> b\<lparr>blk_size := blk_size b + blk_size nb\<rparr>));
        q \<leftarrow> get_next next_node ns;
        ns1 \<leftarrow> set_next node q ns;
        q2 \<leftarrow> get_next next_node ns1;
        ns2 \<leftarrow> (case q2 of None \<Rightarrow> Some ns1 | Some r \<Rightarrow> set_prev r (Some node) ns1);
        ns3 \<leftarrow> node_clear (Some next_node) ns2;
        Some (ns3, bs1) })"

definition coalesce :: "nat \<Rightarrow> u32 \<Rightarrow> nodes \<times> blocks \<Rightarrow> (nodes \<times> blocks) option" where
  "coalesce node block st =
     (case st of (ns, bs) \<Rightarrow> do {
        n \<leftarrow> ns node;
        prev_block \<leftarrow> block_of (n_prev n) ns;
        next_block \<leftarrow> block_of (n_next n) ns;
        before \<leftarrow> block_is_adjacent prev_block block bs;
        (case (before, n_prev n) of
           (True, Some p) \<Rightarrow> merge_prev node block p prev_block (ns, bs)
         | _ \<Rightarrow> do {
             after \<leftarrow> block_is_adjacent block next_block bs;
             (case (after, n_next n) of
                (True, Some q) \<Rightarrow> merge_next node block q next_block (ns, bs)
              | _ \<Rightarrow> Some (ns, bs)) }) })"

definition heap_free :: "u32 \<Rightarrow> heap_state \<Rightarrow> (bool \<times> heap_state) option" where
  "heap_free pointer st =
     (case st of (heap, ns, bs) \<Rightarrow>
        if pointer = 0 \<or> hp_raw heap = 0 \<or> \<not> ptr_is_aligned pointer (hp_align heap) then Some (False, st)
        else do {
          (found, used, ns1) \<leftarrow> block_find_and_remove (hp_used heap) pointer (ns, bs);
          (case found of
             None \<Rightarrow> Some (False, heap\<lparr>hp_used := used\<rparr>, ns1, bs)
           | Some (node, block) \<Rightarrow> do {
               b \<leftarrow> bs block;
               if pointer \<noteq> blk_data b then Some (False, heap\<lparr>hp_used := used\<rparr>, ns1, bs)
               else do {
                 (_, ns2, free) \<leftarrow> list_insert (Some (hp_free heap)) (Some node) (block_compare_ptr bs) True ns1;
                 free' \<leftarrow> free;
                 let heap1 = heap\<lparr>hp_used := used, hp_free := free', bytesUsed := bytesUsed heap - blk_size b,
                       bytesFree := bytesFree heap + blk_size b\<rparr>;
                 (ns3, bs1) \<leftarrow> (if coalescePolicy heap then coalesce node block (ns2, bs) else Some (ns2, bs));
                 Some (True, heap1, ns3, bs1) } }) })"

definition heap_valid :: "u32 \<Rightarrow> heap_t \<Rightarrow> bool" where
  "heap_valid addr heap \<longleftrightarrow> hp_raw heap \<noteq> 0 \<and> hp_raw heap \<le> addr \<and> addr < hp_raw heap + bytesTotal heap"

end
