(* ===== verification/Sosal_HeapSpec.thy ===== *)
theory Sosal_HeapSpec
  imports Sosal_Heap Sosal_ListSpec
begin

text \<open>
  The allocator against its contract: a finite map from the pointers in use to their sizes and the set of
  free bytes. The links of the three lists are kept apart from their payload, the block descriptors: the
  former by \<open>dll\<close> of the list theory, the latter by \<open>blocks_ok\<close>, which speaks of sets of nodes.
\<close>

section \<open>Blocks and their bytes\<close>

abbreviation blk :: "blocks \<Rightarrow> u32 \<Rightarrow> block_t" where "blk bs d \<equiv> the (bs d)"

definition bytes_of :: "block_t \<Rightarrow> nat set" where
  "bytes_of b = {unat (blk_data b)..<unat (blk_data b) + unat (blk_size b)}"

definition block_ok :: "u32 \<Rightarrow> block_t \<Rightarrow> bool" where
  "block_ok al b \<longleftrightarrow> blk_size b \<noteq> 0 \<and> blk_data b \<noteq> 0 \<and> unat al dvd unat (blk_data b) \<and> unat al dvd unat (blk_size b) \<and>
     unat (blk_data b) + unat (blk_size b) < size_max"

definition apart :: "(nat \<Rightarrow> u32) \<Rightarrow> blocks \<Rightarrow> nat set \<Rightarrow> bool" where
  "apart d bs A \<longleftrightarrow> (\<forall>a\<in>A. \<forall>b\<in>A. a \<noteq> b \<longrightarrow> bytes_of (blk bs (d a)) \<inter> bytes_of (blk bs (d b)) = {})"

text \<open>The descriptors of the free, used and spare nodes, \<open>d\<close> giving the descriptor of a node.\<close>

definition blocks_ok :: "u32 \<Rightarrow> (nat \<Rightarrow> u32) \<Rightarrow> blocks \<Rightarrow> nat set \<Rightarrow> nat set \<Rightarrow> nat set \<Rightarrow> bool" where
  "blocks_ok al d bs F U S \<longleftrightarrow>
     (\<forall>a\<in>F \<union> U \<union> S. bs (d a) \<noteq> None \<and> d a \<noteq> 0 \<and> d a \<noteq> STACK_BLOCK \<and> a \<noteq> STACK_NODE) \<and>
     inj_on d (F \<union> U \<union> S) \<and> finite F \<and> finite U \<and> F \<inter> U = {} \<and> F \<inter> S = {} \<and> U \<inter> S = {} \<and>
     (\<forall>a\<in>F \<union> U. block_ok al (blk bs (d a))) \<and> apart d bs (F \<union> U)"

definition sum_sizes :: "(nat \<Rightarrow> u32) \<Rightarrow> blocks \<Rightarrow> nat set \<Rightarrow> nat" where
  "sum_sizes d bs A = (\<Sum>a\<in>A. unat (blk_size (blk bs (d a))))"

definition free_bytes :: "(nat \<Rightarrow> u32) \<Rightarrow> blocks \<Rightarrow> nat set \<Rightarrow> nat set" where
  "free_bytes d bs F = (\<Union>a\<in>F. bytes_of (blk bs (d a)))"

definition used_map :: "(nat \<Rightarrow> u32) \<Rightarrow> blocks \<Rightarrow> nat set \<Rightarrow> (u32 \<rightharpoonup> u32) \<Rightarrow> bool" where
  "used_map d bs U M \<longleftrightarrow>
     (\<forall>p n. M p = Some n \<longleftrightarrow> (\<exists>a\<in>U. blk_data (blk bs (d a)) = p \<and> blk_size (blk bs (d a)) = n))"

lemma block_bytes_nonempty: "block_ok al b \<Longrightarrow> unat (blk_data b) \<in> bytes_of b"
  by (simp add: block_ok_def bytes_of_def word_less_nat_alt unat_gt_0)

lemma apart_subset: "apart d bs A \<Longrightarrow> B \<subseteq> A \<Longrightarrow> apart d bs B"
  by (auto simp: apart_def)

lemma used_pointer_unique:
  assumes "blocks_ok al d bs F U S" "a \<in> F \<union> U" "b \<in> F \<union> U" "blk_data (blk bs (d a)) = blk_data (blk bs (d b))"
  shows "a = b"
proof (rule ccontr)
  assume "a \<noteq> b"
  then have "bytes_of (blk bs (d a)) \<inter> bytes_of (blk bs (d b)) = {}"
    using assms(1-3) by (auto simp: blocks_ok_def apart_def)
  moreover have "block_ok al (blk bs (d a))" "block_ok al (blk bs (d b))" using assms(1-3) by (auto simp: blocks_ok_def)
  ultimately show False using block_bytes_nonempty[of al "blk bs (d a)"] block_bytes_nonempty[of al "blk bs (d b)"] assms(4)
    by auto
qed

text \<open>The rounding of a request.\<close>

lemma block_size_ok:
  assumes "unat al \<noteq> 0" "unat num + unat al \<le> size_max"
  shows "unat al dvd unat (block_size al num)" "num \<le> block_size al num" "unat (block_size al num) < unat num + unat al"
proof -
  let ?r = "unat num mod unat al"
  have r: "unat (num mod al) = ?r" by (rule unat_mod_distrib)
  have lt: "?r < unat al" using assms(1) by simp
  have *: "unat (block_size al num) = (if ?r = 0 then unat num else unat num + (unat al - ?r))"
  proof (cases "?r = 0")
    case True
    then have "num mod al = 0" using r by (metis unat_eq_zero)
    then show ?thesis using True by (simp add: block_size_def)
  next
    case False
    then have "num mod al \<noteq> 0" using r by (metis unat_0)
    moreover have "unat (al - num mod al) = unat al - ?r" using r lt by (simp add: unat_sub word_le_nat_alt)
    moreover have "unat num + (unat al - ?r) < 2 ^ 32" using False assms(2) lt by simp
    ultimately show ?thesis using False by (simp add: block_size_def Let_def unat_add_small)
  qed
  have "unat al dvd unat num + (unat al - ?r)"
  proof -
    have "unat num + (unat al - ?r) = unat al * (unat num div unat al) + unat al"
      using lt mult_div_mod_eq[of "unat al" "unat num"] by linarith
    then show ?thesis by simp
  qed
  then show "unat al dvd unat (block_size al num)" unfolding * by (auto simp: dvd_eq_mod_eq_0)
  show "num \<le> block_size al num" using * by (auto simp: word_le_nat_alt)
  show "unat (block_size al num) < unat num + unat al" using * lt assms(1) by (auto split: if_splits)
qed

text \<open>With a power of two as the alignment the rounding wraps around to 0 instead of failing.\<close>

lemma block_size_wraps:
  assumes "unat al dvd size_max" "size_max - unat al < unat num"
  shows "block_size al num = 0"
proof -
  obtain k where k: "size_max = unat al * k" using dvdE[OF assms(1)] by metis
  have al: "unat al \<noteq> 0" using k by (intro notI) simp
  have num: "unat num < size_max" by (rule unat_u32_less)
  have "unat num div unat al = k - 1"
  proof (rule div_nat_eqI)
    have "unat al * (k - 1) = size_max - unat al" using k by (cases k) simp_all
    then show "unat al * (k - 1) \<le> unat num" using assms(2) by linarith
    show "unat num < unat al * Suc (k - 1)" using k num al by (cases k) simp_all
  qed
  then have r: "unat num mod unat al = unat num - (size_max - unat al)"
    using k by (simp add: modulo_nat_def diff_mult_distrib2 mult.commute)
  then have nz: "num mod al \<noteq> 0" using assms(2) unat_mod_distrib[of num al] by (intro notI) simp
  have "unat (num mod al) = unat num - (size_max - unat al)" using r unat_mod_distrib[of num al] by simp
  moreover have "unat (num mod al) \<le> unat al" using al unat_mod_distrib[of num al] by (simp add: less_imp_le)
  ultimately have "unat (al - num mod al) = size_max - unat num"
    using assms(2) num unat_u32_less[of al] by (simp add: unat_sub word_le_nat_alt)
  then have "unat (num + (al - num mod al)) = 0" using num by (simp add: unat_word_ariths)
  then show ?thesis using nz by (simp add: block_size_def Let_def unat_eq_zero)
qed

section \<open>What the operations do to the descriptors\<close>

lemma bytes_split:
  assumes "unat n < unat (blk_size b)" "unat (blk_data b) + unat (blk_size b) < size_max"
  defines "low \<equiv> b\<lparr>blk_size := n\<rparr>" and "high \<equiv> \<lparr>blk_size = blk_size b - n, blk_data = blk_data b + n\<rparr>"
  shows "bytes_of b = bytes_of low \<union> bytes_of high" "bytes_of low \<inter> bytes_of high = {}"
    "unat (blk_size high) = unat (blk_size b) - unat n" "unat (blk_data high) = unat (blk_data b) + unat n"
proof -
  show s: "unat (blk_size high) = unat (blk_size b) - unat n" using assms(1) by (simp add: high_def unat_sub word_le_nat_alt)
  have "unat (blk_data b) + unat n < 2 ^ 32" using assms(1,2) by simp
  then show d: "unat (blk_data high) = unat (blk_data b) + unat n" by (simp add: high_def unat_add_small)
  show "bytes_of b = bytes_of low \<union> bytes_of high" "bytes_of low \<inter> bytes_of high = {}"
    using s d assms(1) by (auto simp: bytes_of_def low_def)
qed

lemma sizes_insert: "finite A \<Longrightarrow> a \<notin> A \<Longrightarrow> sum_sizes d bs (insert a A) = unat (blk_size (blk bs (d a))) + sum_sizes d bs A"
  by (simp add: sum_sizes_def)

lemma sizes_cong: "(\<And>a. a \<in> A \<Longrightarrow> blk bs' (d' a) = blk bs (d a)) \<Longrightarrow> sum_sizes d' bs' A = sum_sizes d bs A"
  by (simp add: sum_sizes_def)

lemma free_bytes_insert: "free_bytes d bs (insert a A) = bytes_of (blk bs (d a)) \<union> free_bytes d bs A"
  by (simp add: free_bytes_def)

lemma free_bytes_cong: "(\<And>a. a \<in> A \<Longrightarrow> blk bs' (d' a) = blk bs (d a)) \<Longrightarrow> free_bytes d' bs' A = free_bytes d bs A"
  by (simp add: free_bytes_def)

lemma used_map_cong: "(\<And>a. a \<in> A \<Longrightarrow> blk bs' (d' a) = blk bs (d a)) \<Longrightarrow> used_map d' bs' A M = used_map d bs A M"
  by (simp add: used_map_def)

text \<open>A block that moves from the free to the used ones, and back.\<close>

lemma blocks_ok_move:
  assumes "blocks_ok al d bs F U S" "F' \<union> U' = F \<union> U" "F' \<inter> U' = {}"
  shows "blocks_ok al d bs F' U' S"
proof -
  note ok = assms(1)[unfolded blocks_ok_def]
  have eq: "F' \<union> U' \<union> S = F \<union> U \<union> S" using assms(2) by simp
  have fin: "finite F'" "finite U'" using finite_Un[of F' U', unfolded assms(2)] ok by simp_all
  have "(F' \<union> U') \<inter> S = {}" unfolding assms(2) using ok by (simp add: Int_Un_distrib2)
  then have "F' \<inter> S = {}" "U' \<inter> S = {}" by blast+
  with fin ok assms(3) show ?thesis unfolding blocks_ok_def eq assms(2) by simp
qed

lemma blocks_ok_drop: "blocks_ok al d bs F (insert a U) S \<Longrightarrow> blocks_ok al d bs F U S"
  unfolding blocks_ok_def apart_def inj_on_def by simp

lemma blocks_okD:
  assumes "blocks_ok al d bs F U S"
  shows "a \<in> F \<union> U \<union> S \<Longrightarrow> bs (d a) \<noteq> None \<and> d a \<noteq> 0 \<and> d a \<noteq> STACK_BLOCK \<and> a \<noteq> STACK_NODE"
    "inj_on d (F \<union> U \<union> S)" "finite F" "finite U" "F \<inter> U = {}" "F \<inter> S = {}" "U \<inter> S = {}"
    "a \<in> F \<union> U \<Longrightarrow> block_ok al (blk bs (d a))" "apart d bs (F \<union> U)"
  using assms unfolding blocks_ok_def by simp_all

lemma apartD: "apart d bs A \<Longrightarrow> a \<in> A \<Longrightarrow> b \<in> A \<Longrightarrow> a \<noteq> b \<Longrightarrow> bytes_of (blk bs (d a)) \<inter> bytes_of (blk bs (d b)) = {}"
  by (simp add: apart_def)

lemma free_bytes_apart:
  assumes "blocks_ok al d bs (insert a F) U S" "a \<notin> F"
  shows "free_bytes d bs F = free_bytes d bs (insert a F) - bytes_of (blk bs (d a))"
proof -
  have "bytes_of (blk bs (d b)) \<inter> bytes_of (blk bs (d a)) = {}" if "b \<in> F" for b
    by (rule apartD[OF blocks_okD(9)[OF assms(1)]]) (use that assms(2) in auto)
  then have "free_bytes d bs F \<inter> bytes_of (blk bs (d a)) = {}" unfolding free_bytes_def by blast
  then show ?thesis unfolding free_bytes_insert by blast
qed

lemma used_mapD: "used_map d bs U M \<Longrightarrow> M p = Some n \<Longrightarrow> \<exists>a\<in>U. blk_data (blk bs (d a)) = p \<and> blk_size (blk bs (d a)) = n"
  unfolding used_map_def by blast

lemma used_map_at: "used_map d bs U M \<Longrightarrow> a \<in> U \<Longrightarrow> M (blk_data (blk bs (d a))) = Some (blk_size (blk bs (d a)))"
  unfolding used_map_def by blast

lemma used_map_free:
  assumes "blocks_ok al d bs F (insert a U) S" "a \<notin> U" "used_map d bs U M"
  shows "M (blk_data (blk bs (d a))) = None"
proof (rule ccontr)
  assume "M (blk_data (blk bs (d a))) \<noteq> None"
  then obtain n where "M (blk_data (blk bs (d a))) = Some n" by blast
  from used_mapD[OF assms(3) this] obtain b where b: "b \<in> U" "blk_data (blk bs (d b)) = blk_data (blk bs (d a))" by blast
  have "b = a" by (rule used_pointer_unique[OF assms(1) _ _ b(2)]) (use b(1) in auto)
  then show False using b(1) assms(2) by simp
qed

lemma used_map_insert:
  assumes "blocks_ok al d bs F (insert a U) S" "a \<notin> U" "used_map d bs U M"
  shows "used_map d bs (insert a U) (M(blk_data (blk bs (d a)) \<mapsto> blk_size (blk bs (d a))))"
  unfolding used_map_def
proof (intro allI)
  fix p n
  show "(M(blk_data (blk bs (d a)) \<mapsto> blk_size (blk bs (d a)))) p = Some n \<longleftrightarrow>
    (\<exists>x\<in>insert a U. blk_data (blk bs (d x)) = p \<and> blk_size (blk bs (d x)) = n)"
  proof (cases "p = blk_data (blk bs (d a))")
    case True
    have "x = a" if "x \<in> insert a U" "blk_data (blk bs (d x)) = p" for x
      by (rule used_pointer_unique[OF assms(1)]) (use that True in auto)
    then show ?thesis using True by auto
  next
    case False
    then show ?thesis using assms(3) unfolding used_map_def by auto
  qed
qed

lemma used_map_remove:
  assumes "blocks_ok al d bs F (insert a U) S" "a \<notin> U" "used_map d bs (insert a U) M"
  shows "used_map d bs U (M(blk_data (blk bs (d a)) := None))"
  unfolding used_map_def
proof (intro allI)
  fix p n
  show "(M(blk_data (blk bs (d a)) := None)) p = Some n \<longleftrightarrow> (\<exists>x\<in>U. blk_data (blk bs (d x)) = p \<and> blk_size (blk bs (d x)) = n)"
  proof (cases "p = blk_data (blk bs (d a))")
    case True
    have "x = a" if "x \<in> insert a U" "blk_data (blk bs (d x)) = p" for x
      by (rule used_pointer_unique[OF assms(1)]) (use that True in auto)
    then show ?thesis using True assms(2) by auto
  next
    case False
    then show ?thesis using assms(3) unfolding used_map_def by auto
  qed
qed

text \<open>Used and free bytes do not overlap, nor do the blocks in use.\<close>

lemma used_apart:
  assumes "blocks_ok al d bs F U S" "used_map d bs U M" "M p = Some n" "M q = Some m" "p \<noteq> q"
  shows "{unat p..<unat p + unat n} \<inter> {unat q..<unat q + unat m} = {}"
proof -
  obtain a where a: "a \<in> U" "blk_data (blk bs (d a)) = p" "blk_size (blk bs (d a)) = n" using used_mapD[OF assms(2,3)] by blast
  obtain b where b: "b \<in> U" "blk_data (blk bs (d b)) = q" "blk_size (blk bs (d b)) = m" using used_mapD[OF assms(2,4)] by blast
  have "bytes_of (blk bs (d a)) \<inter> bytes_of (blk bs (d b)) = {}"
    by (rule apartD[OF blocks_okD(9)[OF assms(1)]]) (use a b assms(5) in auto)
  then show ?thesis by (simp add: bytes_of_def a b)
qed

text \<open>A free block \<open>a\<close> divided in two: the request stays in \<open>a\<close>, the rest goes into the spare node \<open>s\<close>.\<close>

lemma apart_insert: "apart d bs (insert a A) \<longleftrightarrow>
    apart d bs A \<and> (\<forall>b\<in>A. b \<noteq> a \<longrightarrow> bytes_of (blk bs (d a)) \<inter> bytes_of (blk bs (d b)) = {})"
proof
  assume r: "apart d bs A \<and> (\<forall>b\<in>A. b \<noteq> a \<longrightarrow> bytes_of (blk bs (d a)) \<inter> bytes_of (blk bs (d b)) = {})"
  show "apart d bs (insert a A)"
    unfolding apart_def
  proof (intro ballI impI)
    fix x y assume xy: "x \<in> insert a A" "y \<in> insert a A" "x \<noteq> y"
    consider "x = a" "y \<in> A" | "y = a" "x \<in> A" | "x \<in> A" "y \<in> A" using xy by blast
    then show "bytes_of (blk bs (d x)) \<inter> bytes_of (blk bs (d y)) = {}"
      by cases (use r xy(3) in \<open>auto simp: apart_def Int_commute[of _ "bytes_of (blk bs (d a))"]\<close>)
  qed
qed (auto simp: apart_def)

lemma apart_cong: "(\<And>a. a \<in> A \<Longrightarrow> blk bs' (d' a) = blk bs (d a)) \<Longrightarrow> apart d' bs' A = apart d bs A"
  unfolding apart_def by simp

definition divide :: "u32 \<Rightarrow> u32 \<Rightarrow> u32 \<Rightarrow> blocks \<Rightarrow> blocks" where
  "divide n da ds bs =
     bs(ds \<mapsto> \<lparr>blk_size = blk_size (blk bs da) - n, blk_data = blk_data (blk bs da) + n\<rparr>,
        da \<mapsto> (blk bs da)\<lparr>blk_size := n\<rparr>)"

lemma divide_facts:
  assumes ok: "blocks_ok al d bs (insert a F) U (insert s S)" and a: "a \<notin> F" and s: "s \<notin> S"
    and n: "unat n < unat (blk_size (blk bs (d a)))"
  defines "bs' \<equiv> divide n (d a) (d s) bs"
  shows "blk bs' (d a) = (blk bs (d a))\<lparr>blk_size := n\<rparr>"
    "blk bs' (d s) = \<lparr>blk_size = blk_size (blk bs (d a)) - n, blk_data = blk_data (blk bs (d a)) + n\<rparr>"
    "x \<in> F \<union> U \<union> S \<Longrightarrow> bs' (d x) = bs (d x)"
    "bytes_of (blk bs (d a)) = bytes_of (blk bs' (d a)) \<union> bytes_of (blk bs' (d s))"
    "bytes_of (blk bs' (d a)) \<inter> bytes_of (blk bs' (d s)) = {}"
    "unat (blk_size (blk bs' (d s))) = unat (blk_size (blk bs (d a))) - unat n"
    "unat (blk_data (blk bs' (d s))) = unat (blk_data (blk bs (d a))) + unat n"
proof -
  have as: "a \<noteq> s" "a \<notin> U" "a \<notin> S" "s \<notin> F" "s \<notin> U"
    using blocks_okD(5-7)[OF ok] by auto
  note inj = blocks_okD(2)[OF ok]
  have "d a \<noteq> d s" using inj_onD[OF inj, of a s] as(1) by auto
  then show A: "blk bs' (d a) = (blk bs (d a))\<lparr>blk_size := n\<rparr>"
    and S: "blk bs' (d s) = \<lparr>blk_size = blk_size (blk bs (d a)) - n, blk_data = blk_data (blk bs (d a)) + n\<rparr>"
    by (simp_all add: bs'_def divide_def)
  show "bs' (d x) = bs (d x)" if x: "x \<in> F \<union> U \<union> S"
  proof -
    have "x \<noteq> a" "x \<noteq> s" using x as a s by auto
    then have "d x \<noteq> d a" "d x \<noteq> d s" using inj_onD[OF inj, of x a] inj_onD[OF inj, of x s] x by auto
    then show ?thesis by (simp add: bs'_def divide_def)
  qed
  have "unat (blk_data (blk bs (d a))) + unat (blk_size (blk bs (d a))) < size_max"
    using blocks_okD(8)[OF ok, of a] by (simp add: block_ok_def)
  from bytes_split[OF n this]
  show "bytes_of (blk bs (d a)) = bytes_of (blk bs' (d a)) \<union> bytes_of (blk bs' (d s))"
    "bytes_of (blk bs' (d a)) \<inter> bytes_of (blk bs' (d s)) = {}"
    "unat (blk_size (blk bs' (d s))) = unat (blk_size (blk bs (d a))) - unat n"
    "unat (blk_data (blk bs' (d s))) = unat (blk_data (blk bs (d a))) + unat n"
    unfolding A S by simp_all
qed

lemma blocks_ok_divide:
  assumes ok: "blocks_ok al d bs (insert a F) U (insert s S)" and a: "a \<notin> F" and s: "s \<notin> S"
    and n: "unat n < unat (blk_size (blk bs (d a)))" "n \<noteq> 0" "unat al dvd unat n"
  defines "bs' \<equiv> divide n (d a) (d s) bs"
  shows "blocks_ok al d bs' (insert s F) (insert a U) S"
proof -
  note f = divide_facts[OF ok a s n(1), folded bs'_def]
  have as: "a \<noteq> s" "a \<notin> U" "a \<notin> S" "s \<notin> F" "s \<notin> U" using blocks_okD(5-7)[OF ok] by auto
  have old: "blk bs' (d x) = blk bs (d x)" if "x \<in> F \<union> U" for x using f(3)[of x] that by auto
  have A: "block_ok al (blk bs (d a))" using blocks_okD(8)[OF ok, of a] by simp
  have "unat al dvd unat (blk_size (blk bs (d a))) - unat n" "unat al dvd unat (blk_data (blk bs (d a))) + unat n"
    using A n(3) by (simp_all add: block_ok_def dvd_diff_nat)
  moreover have "blk_size (blk bs' (d s)) \<noteq> 0" using f(6) n(1) by (intro notI) simp
  moreover have "blk_data (blk bs' (d s)) \<noteq> 0" using f(7) A by (intro notI) (simp add: block_ok_def unat_eq_zero)
  moreover have "unat (blk_data (blk bs' (d s))) + unat (blk_size (blk bs' (d s))) < size_max"
    using f(6,7) n(1) A by (simp add: block_ok_def)
  ultimately have okS: "block_ok al (blk bs' (d s))" unfolding block_ok_def f(6,7) by blast
  have okA: "block_ok al (blk bs' (d a))" using A n by (simp add: f(1) block_ok_def)
  have okx: "block_ok al (blk bs' (d x))" if "x \<in> F \<union> U" for x
    using old[OF that] blocks_okD(8)[OF ok, of x] that by simp
  have "apart d bs (F \<union> U)" by (rule apart_subset[OF blocks_okD(9)[OF ok]]) auto
  then have "apart d bs' (F \<union> U)" using apart_cong[of "F \<union> U" bs' d bs d, OF old] by simp
  moreover have "bytes_of (blk bs' (d a)) \<inter> bytes_of (blk bs' (d x)) = {} \<and> bytes_of (blk bs' (d s)) \<inter> bytes_of (blk bs' (d x)) = {}"
    if x: "x \<in> F \<union> U" for x
  proof -
    have "bytes_of (blk bs (d a)) \<inter> bytes_of (blk bs (d x)) = {}"
      by (rule apartD[OF blocks_okD(9)[OF ok]]) (use x a as in auto)
    then show ?thesis unfolding f(4) old[OF x] by blast
  qed
  ultimately have ap: "apart d bs' (insert s (insert a (F \<union> U)))" using f(5) by (simp add: apart_insert Int_commute)
  have nodes: "bs' (d x) \<noteq> None \<and> d x \<noteq> 0 \<and> d x \<noteq> STACK_BLOCK \<and> x \<noteq> STACK_NODE"
    if "x \<in> insert a F \<union> U \<union> insert s S" for x
    using blocks_okD(1)[OF ok that] by (auto simp: bs'_def divide_def)
  have eqs: "insert s F \<union> insert a U = insert s (insert a (F \<union> U))"
    "insert s F \<union> insert a U \<union> S = insert a F \<union> U \<union> insert s S" by auto
  show ?thesis
    unfolding blocks_ok_def eqs
  proof (intro conjI)
    show "\<forall>x\<in>insert s (insert a (F \<union> U)). block_ok al (blk bs' (d x))" using okS okA okx by blast
  qed (use nodes ap blocks_okD(2-7)[OF ok] a s as in auto)
qed

lemma divide_totals:
  assumes ok: "blocks_ok al d bs (insert a F) U (insert s S)" and a: "a \<notin> F" and s: "s \<notin> S"
    and n: "unat n < unat (blk_size (blk bs (d a)))"
  defines "bs' \<equiv> divide n (d a) (d s) bs"
  shows "sum_sizes d bs' (insert s F) + unat n = sum_sizes d bs (insert a F)"
    "sum_sizes d bs' (insert a U) = unat n + sum_sizes d bs U"
    "free_bytes d bs' (insert s F) = free_bytes d bs (insert a F) - bytes_of (blk bs' (d a))"
    "used_map d bs' U M = used_map d bs U M"
proof -
  note f = divide_facts[OF ok a s n, folded bs'_def]
  have as: "a \<notin> U" "s \<notin> F" using blocks_okD(5-7)[OF ok] by auto
  have fin: "finite F" "finite U" using blocks_okD(3,4)[OF ok] by simp_all
  have oldF: "blk bs' (d x) = blk bs (d x)" if "x \<in> F" for x using f(3)[of x] that by auto
  have oldU: "blk bs' (d x) = blk bs (d x)" if "x \<in> U" for x using f(3)[of x] that by auto
  show "sum_sizes d bs' (insert s F) + unat n = sum_sizes d bs (insert a F)"
    using fin(1) a as(2) n f(6) sizes_cong[of F bs' d bs d] oldF by (simp add: sizes_insert)
  show "sum_sizes d bs' (insert a U) = unat n + sum_sizes d bs U"
    using fin(2) as(1) f(1) sizes_cong[of U bs' d bs d] oldU by (simp add: sizes_insert)
  have "free_bytes d bs F \<inter> bytes_of (blk bs' (d a)) = {}"
    using free_bytes_apart[OF ok a] unfolding free_bytes_insert f(4) by blast
  then show "free_bytes d bs' (insert s F) = free_bytes d bs (insert a F) - bytes_of (blk bs' (d a))"
    unfolding free_bytes_insert f(4) using f(5) free_bytes_cong[of F bs' d bs d] oldF by blast
  show "used_map d bs' U M = used_map d bs U M" using used_map_cong[of U bs' d bs d M] oldU by blast
qed

section \<open>The heap\<close>

interpretation blk_order: node_order "block_compare_ptr bs" "\<lambda>d. blk_data (the (bs d))" "\<lambda>d. d \<in> dom bs" for bs :: blocks
  by unfold_locales (auto simp: block_compare_ptr_def split: if_splits)

definition heap_wf :: "heap_t \<Rightarrow> bool" where
  "heap_wf h \<longleftrightarrow> hp_raw h \<noteq> 0 \<and> unat (hp_align h) \<noteq> 0 \<and> unat (bytesUsed h) + unat (bytesFree h) < size_max"

text \<open>The three lists, in order, and their descriptors.\<close>

definition heap_repr :: "heap_state \<Rightarrow> nat list \<Rightarrow> nat list \<Rightarrow> nat list \<Rightarrow> bool" where
  "heap_repr st F U S \<longleftrightarrow> (case st of (h, ns, bs) \<Rightarrow>
     heap_wf h \<and> ns STACK_NODE = None \<and>
     dll ns (hp_free h) F \<and> dll ns (hp_used h) U \<and> dll ns (hp_spare h) S \<and>
     blk_order.sorted_by bs True ns F \<and> blk_order.sorted_by bs True ns U \<and>
     blocks_ok (hp_align h) (dat ns) bs (set F) (set U) (set S) \<and>
     sum_sizes (dat ns) bs (set F) = unat (bytesFree h) \<and> sum_sizes (dat ns) bs (set U) = unat (bytesUsed h))"

text \<open>What a client sees: the sizes of the blocks in use by their pointers, and the free bytes.\<close>

definition heap_ok :: "heap_state \<Rightarrow> (u32 \<rightharpoonup> u32) \<Rightarrow> nat set \<Rightarrow> bool" where
  "heap_ok st M Fr \<longleftrightarrow> (case st of (h, ns, bs) \<Rightarrow>
     \<exists>F U S. heap_repr st F U S \<and> used_map (dat ns) bs (set U) M \<and> Fr = free_bytes (dat ns) bs (set F))"

lemma heap_okI:
  "heap_repr (h, ns, bs) F U S \<Longrightarrow> used_map (dat ns) bs (set U) M \<Longrightarrow> heap_ok (h, ns, bs) M (free_bytes (dat ns) bs (set F))"
  unfolding heap_ok_def prod.case by blast

lemma sorted_bs_cong:
  assumes "\<And>a. a \<in> set xs \<Longrightarrow> blk_data (blk bs' (dat ns' a)) = blk_data (blk bs (dat ns a))"
  shows "blk_order.sorted_by bs' True ns' xs = blk_order.sorted_by bs True ns xs"
proof -
  have "key_by (\<lambda>d. blk_data (blk bs' d)) ns' a = key_by (\<lambda>d. blk_data (blk bs d)) ns a" if "a \<in> set xs" for a
    using assms[OF that] by (simp add: key_by_def dat_def)
  then show ?thesis unfolding blk_order.sorted_by_def by (intro iffI; elim sorted_wrt_mono_rel[rotated]) simp_all
qed

lemma blk_valid: "blk_order.valid_at bs ns a \<longleftrightarrow> bs (dat ns a) \<noteq> None"
  unfolding blk_order.valid_at_def dat_def by blast

section \<open>Searching\<close>

definition fits :: "blocks \<Rightarrow> u32 \<Rightarrow> u32 \<Rightarrow> bool" where
  "fits bs n d \<longleftrightarrow> n \<le> blk_size (blk bs d)"

lemma rate_value:
  assumes "bs (n_data x) = Some b" "bs (n_data y) = Some c"
  shows "unat (block_rate_bestfit bs (Some x) (Some y)) =
    (if blk_size c \<le> blk_size b then size_max - 1 - (unat (blk_size b) - unat (blk_size c)) else 0)"
proof -
  have sub: "unat (blk_size b - blk_size c) = unat (blk_size b) - unat (blk_size c)" if "blk_size c \<le> blk_size b"
    using that by (simp add: unat_sub)
  have "unat (MAX_SCORE - w) = size_max - 1 - unat w" for w by (simp add: unat_sub u32_top)
  moreover have "unat u = unat w \<longleftrightarrow> u = w" for u w :: u32 by (rule word_unat_eq_iff[symmetric])
  ultimately show ?thesis using assms sub by (auto simp: block_rate_bestfit_def word_less_nat_alt word_le_nat_alt)
qed

lemma with_search_at:
  assumes "a \<noteq> STACK_NODE" "dat ns a \<noteq> STACK_BLOCK"
  shows "fst (with_search p n ns bs) a = ns a" "snd (with_search p n ns bs) (dat ns a) = bs (dat ns a)"
    "fst (with_search p n ns bs) STACK_NODE = Some \<lparr>n_next = None, n_prev = None, n_data = STACK_BLOCK\<rparr>"
    "snd (with_search p n ns bs) STACK_BLOCK = Some \<lparr>blk_size = n, blk_data = p\<rparr>"
  using assms by (simp_all add: with_search_def)

lemma bestfit_spec:
  assumes l: "dll ns l F" and live: "\<forall>a\<in>set F. bs (dat ns a) \<noteq> None \<and> dat ns a \<noteq> STACK_BLOCK \<and> a \<noteq> STACK_NODE"
    and n: "n \<noteq> 0"
  shows "(block_bestfit_and_remove l n (ns, bs) = Some (None, l, ns) \<and> (\<forall>a\<in>set F. \<not> fits bs n (dat ns a))) \<or>
    (\<exists>xs a ys l' ns'. F = xs @ a # ys \<and> fits bs n (dat ns a) \<and>
       (\<forall>b\<in>set F. fits bs n (dat ns b) \<longrightarrow> blk_size (blk bs (dat ns a)) \<le> blk_size (blk bs (dat ns b))) \<and>
       block_bestfit_and_remove l n (ns, bs) = Some (Some (a, dat ns a), l', ns') \<and> dll ns' l' (xs @ ys) \<and>
       frame (set F) ns ns')"
proof -
  define ns1 where "ns1 = fst (with_search 0 n ns bs)"
  define bs1 where "bs1 = snd (with_search 0 n ns bs)"
  let ?f = "\<lambda>a. block_rate_bestfit bs1 (ns1 a) (ns1 STACK_NODE)"
  have f: "unat (?f a) = (if fits bs n (dat ns a) then size_max - 1 - (unat (blk_size (blk bs (dat ns a))) - unat n) else 0)"
    if "a \<in> set F" for a
  proof -
    obtain x b where x: "ns a = Some x" "bs (dat ns a) = Some b" using dll_alloc[OF l \<open>a \<in> set F\<close>] live \<open>a \<in> set F\<close> by blast
    have ne: "a \<noteq> STACK_NODE" "dat ns a \<noteq> STACK_BLOCK" using live \<open>a \<in> set F\<close> by blast+
    have da: "dat ns a = n_data x" using x(1) by (simp add: dat_def)
    have "ns1 a = Some x" "bs1 (n_data x) = Some b" "ns1 STACK_NODE = Some \<lparr>n_next = None, n_prev = None, n_data = STACK_BLOCK\<rparr>"
      "bs1 STACK_BLOCK = Some \<lparr>blk_size = n, blk_data = 0\<rparr>"
      using with_search_at[OF ne, of 0 n bs] x unfolding ns1_def bs1_def da by simp_all
    then show ?thesis using rate_value[of bs1 x b "\<lparr>n_next = None, n_prev = None, n_data = STACK_BLOCK\<rparr>" "\<lparr>blk_size = n, blk_data = 0\<rparr>"] x(2)
      by (simp add: fits_def)
  qed
  have pos: "unat n \<noteq> 0" using n by (simp add: unat_eq_zero)
  have f0: "?f a = 0 \<longleftrightarrow> \<not> fits bs n (dat ns a)" if "a \<in> set F" for a
    using f[OF that] pos unat_u32_less[of "blk_size (blk bs (dat ns a))"] unat_eq_zero[of "?f a"] by (auto split: if_splits)
  have seg1: "seg ns1 None F None"
    using l live seg_cong[of F ns1 ns None None] by (simp add: dll_def ns1_def with_search_def)
  have head: "l_head l = fopt F None" using l by (simp add: dll_def)
  obtain b' r' where fold: "fold (better ?f) F (None, 0) = (b', r')" by fastforce
  have score: "list_score (Some l) (Some STACK_NODE) (block_rate_bestfit bs1) ns1 = Some b'"
    using score_loop_seg[OF seg1, of STACK_NODE _ "block_rate_bestfit bs1" "(None, 0)"] l fold
    by (simp add: list_score_def head dll_def ns1_def with_search_def)
  have max: "\<forall>a\<in>set F. ?f a \<le> r'" and pick: "(b', r') = (None, 0) \<or> (\<exists>a\<in>set F. b' = Some a \<and> ?f a = r' \<and> 0 < r')"
    using better_max[where f = ?f and xs = F and b = None and r = 0] unfolding fold by auto
  have ws: "with_search 0 n ns bs = (ns1, bs1)" by (simp add: ns1_def bs1_def)
  show ?thesis
  proof (cases b')
    case None
    then have "r' = 0" using pick by simp
    then have "\<forall>a\<in>set F. \<not> fits bs n (dat ns a)" using max f0 by simp
    moreover have "block_bestfit_and_remove l n (ns, bs) = Some (None, l, ns)"
      using score None by (simp add: block_bestfit_and_remove_def ws)
    ultimately show ?thesis by blast
  next
    case (Some a)
    then have a: "a \<in> set F" "?f a = r'" "0 < r'" using pick by auto
    then obtain xs ys where F: "F = xs @ a # ys" by (meson split_list)
    have fit: "fits bs n (dat ns a)" using f0[OF a(1)] a(2,3) by auto
    have best: "blk_size (blk bs (dat ns a)) \<le> blk_size (blk bs (dat ns b))" if b: "b \<in> set F" "fits bs n (dat ns b)" for b
    proof -
      have "unat (?f b) \<le> unat (?f a)" using max b(1) a(2) by (simp add: word_le_nat_alt)
      then show ?thesis using f[OF b(1)] f[OF a(1)] fit b(2) unat_u32_less[of "blk_size (blk bs (dat ns a))"]
          unat_u32_less[of "blk_size (blk bs (dat ns b))"]
        by (simp add: fits_def word_le_nat_alt)
    qed
    obtain ns' l' where ex: "list_extract (Some l) (Some a) ns = Some (Some a, ns', Some l')" "dll ns' l' (xs @ ys)" "frame (set F) ns ns'"
      using list_extract_dll[of ns l xs a ys] l F by blast
    obtain x' where x': "ns' a = Some x'" using frame_alloc[OF ex(3) dll_alloc[OF l a(1)]] by blast
    have "n_data x' = dat ns a" using frame_dat[OF ex(3), of a] x' by (simp add: dat_def)
    then have "block_bestfit_and_remove l n (ns, bs) = Some (Some (a, dat ns a), l', ns')"
      using score Some ex(1) x' by (simp add: block_bestfit_and_remove_def ws)
    then show ?thesis using F fit best ex(2,3) by blast
  qed
qed

section \<open>Allocating\<close>

lemma insert_node:
  assumes "dll ns l xs" "a \<notin> set xs" "ns a \<noteq> None" "blk_order.sorted_by bs True ns xs"
    "\<forall>b\<in>insert a (set xs). bs (dat ns b) \<noteq> None"
  shows "\<exists>ns' l' ys. list_insert (Some l) (Some a) (block_compare_ptr bs) True ns = Some (Some a, ns', Some l') \<and>
    dll ns' l' ys \<and> set ys = insert a (set xs) \<and> blk_order.sorted_by bs True ns' ys \<and> frame (insert a (set xs)) ns ns'"
proof -
  have "\<forall>b\<in>insert a (set xs). blk_order.valid_at bs ns b" using assms(5) by (simp add: blk_valid)
  from blk_order.insert_dll[OF assms(1-4) this] obtain ns' l' ys where
    r: "list_insert (Some l) (Some a) (block_compare_ptr bs) True ns = Some (Some a, ns', Some l')"
    "dll ns' l' ys" "mset ys = add_mset a (mset xs)" "blk_order.sorted_by bs True ns' ys" "frame (insert a (set xs)) ns ns'" by blast
  have "set ys = insert a (set xs)" using r(3) by (metis set_mset_add_mset_insert set_mset_mset)
  then show ?thesis using r by blast
qed

lemma sorted_frame: "frame A ns ns' \<Longrightarrow> blk_order.sorted_by bs True ns' xs = blk_order.sorted_by bs True ns xs"
  by (rule blk_order.sorted_by_frame)

text \<open>The links of a heap state, and moving a node from outside into one of its lists.\<close>

definition linked :: "nodes \<Rightarrow> blocks \<Rightarrow> list_t \<times> list_t \<times> list_t \<Rightarrow> nat list \<Rightarrow> nat list \<Rightarrow> nat list \<Rightarrow> bool" where
  "linked ns bs ls F U S \<longleftrightarrow> (case ls of (free, used, spare) \<Rightarrow>
     ns STACK_NODE = None \<and> dll ns free F \<and> dll ns used U \<and> dll ns spare S \<and>
     blk_order.sorted_by bs True ns F \<and> blk_order.sorted_by bs True ns U)"

lemma heap_repr_alt:
  "heap_repr (h, ns, bs) F U S \<longleftrightarrow>
     heap_wf h \<and> linked ns bs (hp_free h, hp_used h, hp_spare h) F U S \<and>
     blocks_ok (hp_align h) (dat ns) bs (set F) (set U) (set S) \<and>
     sum_sizes (dat ns) bs (set F) = unat (bytesFree h) \<and> sum_sizes (dat ns) bs (set U) = unat (bytesUsed h)"
  by (auto simp: heap_repr_def linked_def)

lemma linked_frame:
  assumes "linked ns bs (free, used, spare) F U S" "frame A ns ns'" "STACK_NODE \<notin> A"
  shows "ns' STACK_NODE = None" "blk_order.sorted_by bs True ns' F" "blk_order.sorted_by bs True ns' U" "dat ns' = dat ns"
    "A \<inter> set F = {} \<Longrightarrow> dll ns' free F" "A \<inter> set U = {} \<Longrightarrow> dll ns' used U" "A \<inter> set S = {} \<Longrightarrow> dll ns' spare S"
    "ns a \<noteq> None \<Longrightarrow> ns' a \<noteq> None"
proof -
  note l = assms(1)[unfolded linked_def prod.case]
  show "ns' STACK_NODE = None" using assms(2,3) l unfolding frame_def by simp
  show "blk_order.sorted_by bs True ns' F" "blk_order.sorted_by bs True ns' U" using l sorted_frame[OF assms(2)] by simp_all
  show "dat ns' = dat ns" by (rule frame_dat_fun[OF assms(2)])
  show "A \<inter> set F = {} \<Longrightarrow> dll ns' free F" "A \<inter> set U = {} \<Longrightarrow> dll ns' used U" "A \<inter> set S = {} \<Longrightarrow> dll ns' spare S"
    using l dll_frame[OF _ assms(2)] by blast+
  show "ns a \<noteq> None \<Longrightarrow> ns' a \<noteq> None" by (rule frame_alloc[OF assms(2)])
qed

lemma link_used:
  assumes lk: "linked ns bs (free, used, spare) F U S" and ok: "blocks_ok al (dat ns) bs (set F) (insert a (set U)) (set S)"
    and a: "a \<notin> set U" "ns a \<noteq> None"
  shows "\<exists>ns' used' U'. list_insert (Some used) (Some a) (block_compare_ptr bs) True ns = Some (Some a, ns', Some used') \<and>
    linked ns' bs (free, used', spare) F U' S \<and> set U' = insert a (set U) \<and> dat ns' = dat ns"
proof -
  note l = lk[unfolded linked_def prod.case]
  have bs: "\<forall>b\<in>insert a (set U). bs (dat ns b) \<noteq> None" using blocks_okD(1)[OF ok] by blast
  obtain ns' used' U' where r: "list_insert (Some used) (Some a) (block_compare_ptr bs) True ns = Some (Some a, ns', Some used')"
    "dll ns' used' U'" "set U' = insert a (set U)" "blk_order.sorted_by bs True ns' U'" "frame (insert a (set U)) ns ns'"
    using insert_node[of ns used U a bs] l a bs by blast
  have "insert a (set U) \<inter> set F = {}" "insert a (set U) \<inter> set S = {}" using blocks_okD(5,7)[OF ok] by (auto simp: Int_commute)
  moreover have "STACK_NODE \<notin> insert a (set U)" using blocks_okD(1)[OF ok, of STACK_NODE] by blast
  ultimately have "linked ns' bs (free, used', spare) F U' S" "dat ns' = dat ns"
    using linked_frame[OF lk r(5)] r(2,4) by (simp_all add: linked_def)
  then show ?thesis using r by blast
qed

lemma link_free:
  assumes lk: "linked ns bs (free, used, spare) F U S" and ok: "blocks_ok al (dat ns) bs (insert a (set F)) (set U) (set S)"
    and a: "a \<notin> set F" "ns a \<noteq> None"
  shows "\<exists>ns' free' F'. list_insert (Some free) (Some a) (block_compare_ptr bs) True ns = Some (Some a, ns', Some free') \<and>
    linked ns' bs (free', used, spare) F' U S \<and> set F' = insert a (set F) \<and> dat ns' = dat ns \<and>
    frame (insert a (set F)) ns ns'"
proof -
  note l = lk[unfolded linked_def prod.case]
  have bs: "\<forall>b\<in>insert a (set F). bs (dat ns b) \<noteq> None" using blocks_okD(1)[OF ok] by blast
  obtain ns' free' F' where r: "list_insert (Some free) (Some a) (block_compare_ptr bs) True ns = Some (Some a, ns', Some free')"
    "dll ns' free' F'" "set F' = insert a (set F)" "blk_order.sorted_by bs True ns' F'" "frame (insert a (set F)) ns ns'"
    using insert_node[of ns free F a bs] l a bs by blast
  have "insert a (set F) \<inter> set U = {}" "insert a (set F) \<inter> set S = {}" using blocks_okD(5,6)[OF ok] by auto
  moreover have "STACK_NODE \<notin> insert a (set F)" using blocks_okD(1)[OF ok, of STACK_NODE] by blast
  ultimately have "linked ns' bs (free', used, spare) F' U S" "dat ns' = dat ns"
    using linked_frame[OF lk r(5)] r(2,4) by (simp_all add: linked_def)
  then show ?thesis using r by blast
qed

lemma unlink_free:
  assumes lk: "linked ns bs (free, used, spare) (xs @ a # ys) U S" and "dll ns' free' (xs @ ys)"
    and fr: "frame (set (xs @ a # ys)) ns ns'" and ok: "blocks_ok al (dat ns) bs (set (xs @ a # ys)) (set U) (set S)"
  shows "linked ns' bs (free', used, spare) (xs @ ys) U S" "dat ns' = dat ns" "ns' a \<noteq> None"
proof -
  have "set (xs @ a # ys) \<inter> set U = {}" "set (xs @ a # ys) \<inter> set S = {}" "STACK_NODE \<notin> set (xs @ a # ys)"
    using blocks_okD(5,6)[OF ok] blocks_okD(1)[OF ok, of STACK_NODE] by blast+
  note f = linked_frame[OF lk fr this(3)] this
  have "blk_order.sorted_by bs True ns' (xs @ ys)"
    using f(2) by (auto simp: blk_order.sorted_by_append blk_order.sorted_by_Cons)
  then show "linked ns' bs (free', used, spare) (xs @ ys) U S" using f assms(2) by (simp add: linked_def)
  show "dat ns' = dat ns" by (rule f(4))
  show "ns' a \<noteq> None" by (rule f(8)) (use lk dll_alloc in \<open>auto simp: linked_def\<close>)
qed

lemma linked_distinct: "linked ns bs (free, used, spare) F U S \<Longrightarrow> distinct F \<and> distinct U \<and> distinct S"
  by (auto simp: linked_def dll_def)

lemma linked_bs_cong:
  assumes "linked ns bs ls F U S" "\<And>x. x \<in> set F \<union> set U \<Longrightarrow> bs' (dat ns x) = bs (dat ns x)"
  shows "linked ns bs' ls F U S"
proof -
  have "blk_order.sorted_by bs' True ns F = blk_order.sorted_by bs True ns F"
    "blk_order.sorted_by bs' True ns U = blk_order.sorted_by bs True ns U"
    by (rule sorted_bs_cong, simp add: assms(2))+
  then show ?thesis using assms(1) by (auto simp: linked_def)
qed

text \<open>What the client is told: nothing has changed, or the block at \<open>p\<close> is now in use.\<close>

definition alloc_post :: "heap_state \<Rightarrow> nat list \<Rightarrow> nat list \<Rightarrow> u32 \<Rightarrow> u32 \<Rightarrow> heap_state \<Rightarrow> bool" where
  "alloc_post st F U n p st' \<longleftrightarrow> (case (st, st') of ((h, ns, bs), (h', ns', bs')) \<Rightarrow>
     hp_align h' = hp_align h \<and>
     (\<exists>F' U' S'. heap_repr st' F' U' S' \<and>
       (if p = 0 then
          free_bytes (dat ns') bs' (set F') = free_bytes (dat ns) bs (set F) \<and>
          used_map (dat ns') bs' (set U') = used_map (dat ns) bs (set U)
        else
          unat (hp_align h) dvd unat p \<and> {unat p..<unat p + unat n} \<subseteq> free_bytes (dat ns) bs (set F) \<and>
          free_bytes (dat ns') bs' (set F') = free_bytes (dat ns) bs (set F) - {unat p..<unat p + unat n} \<and>
          (\<forall>M. used_map (dat ns) bs (set U) M \<longrightarrow> used_map (dat ns') bs' (set U') (M(p \<mapsto> n)) \<and> M p = None))))"

lemma heap_alloc_found:
  assumes "hp_raw h \<noteq> 0" "num \<noteq> 0" "block_size (hp_align h) num = n" "\<not> bytesFree h < n"
    "block_bestfit_and_remove (hp_free h) n (ns, bs) = Some (Some (a, da), free', ns1)" "da \<noteq> 0" "bs da = Some b"
  shows "heap_alloc num (h, ns, bs) = do {
    (ok, heap2, ns2, bs2) \<leftarrow> (if blk_size b > n then fracture a da n (h\<lparr>hp_free := free'\<rparr>, ns1, bs)
                             else Some (True, h\<lparr>hp_free := free'\<rparr>, ns1, bs));
    if \<not> ok then Some (0, heap2, ns2, bs2)
    else do {
      (_, ns3, used) \<leftarrow> list_insert (Some (hp_used heap2)) (Some a) (block_compare_ptr bs2) True ns2;
      used' \<leftarrow> used;
      b2 \<leftarrow> bs2 da;
      Some (blk_data b2, heap2\<lparr>hp_used := used', bytesFree := bytesFree heap2 - n,
        bytesUsed := bytesUsed heap2 + n\<rparr>, ns3, bs2) } }"
  using assms by (simp add: heap_alloc_def Let_def)

lemma alloc_settle:
  assumes wf: "heap_wf h" and lk: "linked ns bs (hp_free h, hp_used h, hp_spare h) F U S"
    and ok: "blocks_ok (hp_align h) (dat ns) bs (set F) (insert a (set U)) (set S)" and a: "a \<notin> set U" "ns a \<noteq> None"
    and n: "blk_size (blk bs (dat ns a)) = n"
    and tot: "sum_sizes (dat ns) bs (set F) + unat n = unat (bytesFree h)" "sum_sizes (dat ns) bs (set U) = unat (bytesUsed h)"
  shows "\<exists>ns' used' U'. list_insert (Some (hp_used h)) (Some a) (block_compare_ptr bs) True ns = Some (Some a, ns', Some used') \<and>
    heap_repr (h\<lparr>hp_used := used', bytesFree := bytesFree h - n, bytesUsed := bytesUsed h + n\<rparr>, ns', bs) F U' S \<and>
    set U' = insert a (set U) \<and> dat ns' = dat ns"
proof -
  obtain ns' used' U' where r: "list_insert (Some (hp_used h)) (Some a) (block_compare_ptr bs) True ns = Some (Some a, ns', Some used')"
    "linked ns' bs (hp_free h, used', hp_spare h) F U' S" "set U' = insert a (set U)" "dat ns' = dat ns"
    using link_used[OF lk ok a] by blast
  have le: "n \<le> bytesFree h" using tot(1) by (simp add: word_le_nat_alt)
  then have "unat (bytesFree h - n) = unat (bytesFree h) - unat n" by (simp add: unat_sub)
  moreover have "unat (bytesUsed h + n) = unat (bytesUsed h) + unat n"
    using wf tot(1) by (simp add: heap_wf_def unat_add_small)
  moreover have "sum_sizes (dat ns) bs (insert a (set U)) = unat n + sum_sizes (dat ns) bs (set U)"
    using a(1) n by (simp add: sizes_insert)
  ultimately have "heap_repr (h\<lparr>hp_used := used', bytesFree := bytesFree h - n, bytesUsed := bytesUsed h + n\<rparr>, ns', bs) F U' S"
    unfolding heap_repr_alt using wf r(2-4) ok tot by (simp add: heap_wf_def)
  then show ?thesis using r by blast
qed

lemma alloc_taken:
  assumes "heap_repr (h', ns', bs') F' U' S'" "hp_align h' = hp_align h" "unat (hp_align h) dvd unat p"
    "{unat p..<unat p + unat n} \<subseteq> free_bytes (dat ns) bs (set F)"
    "free_bytes (dat ns') bs' (set F') = free_bytes (dat ns) bs (set F) - {unat p..<unat p + unat n}"
    "\<And>M. used_map (dat ns) bs (set U) M \<Longrightarrow> used_map (dat ns') bs' (set U') (M(p \<mapsto> n)) \<and> M p = None" "p \<noteq> 0"
  shows "alloc_post (h, ns, bs) F U n p (h', ns', bs')"
  unfolding alloc_post_def prod.case using assms by (intro conjI exI[of _ F'] exI[of _ U'] exI[of _ S']) simp_all

lemma alloc_exact:
  assumes repr: "heap_repr (h, ns, bs) (xs @ a # ys) U S" and num: "num \<noteq> 0" "block_size (hp_align h) num = n" "\<not> bytesFree h < n"
    and found: "block_bestfit_and_remove (hp_free h) n (ns, bs) = Some (Some (a, dat ns a), free', ns1)"
    and rest: "dll ns1 free' (xs @ ys)" "frame (set (xs @ a # ys)) ns ns1" and n: "blk_size (blk bs (dat ns a)) = n"
  shows "\<exists>p st'. heap_alloc num (h, ns, bs) = Some (p, st') \<and> p \<noteq> 0 \<and> alloc_post (h, ns, bs) (xs @ a # ys) U n p st'"
proof -
  note r = repr[unfolded heap_repr_alt]
  let ?F = "set (xs @ ys)" and ?d = "dat ns" and ?b = "blk bs (dat ns a)"
  have ok: "blocks_ok (hp_align h) ?d bs (insert a ?F) (set U) (set S)" using r by simp
  have a: "a \<notin> ?F" "a \<notin> set U" using repr blocks_okD(5)[OF ok] by (auto simp: heap_repr_def dll_def)
  note u = unlink_free[of ns bs "hp_free h" "hp_used h" "hp_spare h" xs a ys U S ns1 free' "hp_align h", OF _ rest]
  have lk: "linked ns1 bs (free', hp_used h, hp_spare h) (xs @ ys) U S" and d: "dat ns1 = ?d" and a1: "ns1 a \<noteq> None"
    using u r by simp_all
  obtain b where b: "bs (?d a) = Some b" using blocks_okD(1)[OF ok, of a] by blast
  have bsa: "bs (?d a) \<noteq> None" "?d a \<noteq> 0" using blocks_okD(1)[OF ok, of a] by auto
  have ok2: "blocks_ok (hp_align h) ?d bs ?F (insert a (set U)) (set S)"
    by (rule blocks_ok_move[OF ok]) (use a blocks_okD(5)[OF ok] in auto)
  have tot: "sum_sizes ?d bs ?F + unat n = unat (bytesFree h)" using r a n sizes_insert[of ?F a ?d bs] by simp
  let ?h = "h\<lparr>hp_free := free'\<rparr>"
  obtain ns' used' U' where s: "list_insert (Some (hp_used h)) (Some a) (block_compare_ptr bs) True ns1 = Some (Some a, ns', Some used')"
    "heap_repr (?h\<lparr>hp_used := used', bytesFree := bytesFree h - n, bytesUsed := bytesUsed h + n\<rparr>, ns', bs) (xs @ ys) U' S"
    "set U' = insert a (set U)" "dat ns' = ?d"
    using alloc_settle[of ?h ns1 bs "xs @ ys" U S a n] r lk ok2 a a1 n tot d by (auto simp: heap_wf_def)
  have eq: "heap_alloc num (h, ns, bs) =
      Some (blk_data ?b, ?h\<lparr>hp_used := used', bytesFree := bytesFree h - n, bytesUsed := bytesUsed h + n\<rparr>, ns', bs)"
    using heap_alloc_found[OF _ num found bsa(2) b] r n s(1) b by (simp add: heap_wf_def)
  have blk: "block_ok (hp_align h) ?b" using blocks_okD(8)[OF ok, of a] by simp
  have bytes: "bytes_of ?b = {unat (blk_data ?b)..<unat (blk_data ?b) + unat n}" using n by (simp add: bytes_of_def)
  have eqF: "set (xs @ a # ys) = insert a ?F" by auto
  have sub: "bytes_of ?b \<subseteq> free_bytes ?d bs (insert a ?F)" by (auto simp: free_bytes_def)
  have um: "used_map ?d bs (insert a (set U)) (M(blk_data ?b \<mapsto> n)) \<and> M (blk_data ?b) = None" if "used_map ?d bs (set U) M" for M
    using used_map_insert[OF ok2 a(2) that] used_map_free[OF ok2 a(2) that] n by simp
  have nz: "blk_data ?b \<noteq> 0" "unat (hp_align h) dvd unat (blk_data ?b)" using blk by (simp_all add: block_ok_def)
  have "alloc_post (h, ns, bs) (xs @ a # ys) U n (blk_data ?b)
      (?h\<lparr>hp_used := used', bytesFree := bytesFree h - n, bytesUsed := bytesUsed h + n\<rparr>, ns', bs)"
    by (rule alloc_taken[OF s(2)], unfold eqF bytes[symmetric] s(3,4))
      (use nz sub um free_bytes_apart[OF ok a(1)] in simp_all)
  then show ?thesis using eq nz(1) b by simp
qed

lemma fracture_split:
  assumes repr: "heap_repr (h, ns, bs) (xs @ a # ys) U (s # S)"
    and rest: "dll ns1 free' (xs @ ys)" "frame (set (xs @ a # ys)) ns ns1" and n: "n < blk_size (blk bs (dat ns a))"
    and al: "n \<noteq> 0" "unat (hp_align h) dvd unat n"
  defines "bs' \<equiv> divide n (dat ns a) (dat ns s) bs"
  shows "\<exists>spare' free'' ns' F'. fracture a (dat ns a) n (h\<lparr>hp_free := free'\<rparr>, ns1, bs) =
      Some (True, h\<lparr>hp_free := free'', hp_spare := spare'\<rparr>, ns', bs') \<and>
    linked ns' bs' (free'', hp_used h, spare') F' U S \<and> set F' = insert s (set (xs @ ys)) \<and> dat ns' = dat ns \<and> ns' a \<noteq> None"
proof -
  note r = repr[unfolded heap_repr_alt]
  let ?F = "set (xs @ ys)" and ?d = "dat ns" and ?b = "blk bs (dat ns a)"
  have ok: "blocks_ok (hp_align h) ?d bs (insert a ?F) (set U) (insert s (set S))" using r by simp
  have dist: "a \<notin> ?F" "a \<notin> set U" "s \<notin> set S" "s \<notin> ?F" "s \<notin> set U" "a \<notin> set S" "a \<noteq> s"
    using repr blocks_okD(5-7)[OF ok] by (auto simp: heap_repr_def dll_def)
  have n': "unat n < unat (blk_size ?b)" using n by (simp add: word_less_nat_alt)
  have ok': "blocks_ok (hp_align h) ?d bs' (insert s ?F) (insert a (set U)) (set S)"
    unfolding bs'_def by (rule blocks_ok_divide[OF ok dist(1,3) n' al])
  have lk1: "linked ns1 bs (free', hp_used h, hp_spare h) (xs @ ys) U (s # S)" and d1: "dat ns1 = ?d" and a1: "ns1 a \<noteq> None"
    using unlink_free[of ns bs "hp_free h" "hp_used h" "hp_spare h" xs a ys U "s # S" ns1 free' "hp_align h", OF _ rest] r by simp_all
  obtain ns2 spare' where pop: "list_pop (Some (hp_spare h)) ns1 = Some (Some s, ns2, Some spare')" "dll ns2 spare' S"
    "frame (insert s (set S)) ns1 ns2"
    using list_pop_dll[of ns1 "hp_spare h" s S] lk1 by (auto simp: linked_def)
  have disj: "insert s (set S) \<inter> ?F = {}" "insert s (set S) \<inter> set U = {}" "STACK_NODE \<notin> insert s (set S)"
    using blocks_okD(6,7)[OF ok] blocks_okD(1)[OF ok, of STACK_NODE] by (auto simp: Int_commute)
  note f2 = linked_frame[OF lk1 pop(3) disj(3)]
  have "linked ns2 bs (free', hp_used h, spare') (xs @ ys) U S" using f2 disj pop(2) by (simp add: linked_def)
  moreover have d2: "dat ns2 = ?d" using f2(4) d1 by simp
  moreover have same: "bs' (?d x) = bs (?d x)" if "x \<in> ?F \<union> set U" for x
    using divide_facts(3)[OF ok dist(1,3) n', folded bs'_def, of x] that by blast
  ultimately have lk2: "linked ns2 bs' (free', hp_used h, spare') (xs @ ys) U S"
    by (intro linked_bs_cong[of ns2 bs "(free', hp_used h, spare')" "xs @ ys" U S bs']) simp_all
  have s2: "ns2 s \<noteq> None" "ns2 a \<noteq> None"
    using frame_alloc[OF pop(3)] lk1 a1 dll_alloc[of ns1 "hp_spare h" "s # S" s] by (auto simp: linked_def)
  obtain ns' free'' F' where ins: "list_insert (Some free') (Some s) (block_compare_ptr bs') True ns2 = Some (Some s, ns', Some free'')"
    "linked ns' bs' (free'', hp_used h, spare') F' U S" "set F' = insert s ?F" "dat ns' = dat ns2" "ns' a \<noteq> None"
    using link_free[OF lk2, of "hp_align h" s] blocks_ok_drop[OF ok'] dist(4) s2 frame_alloc[of _ ns2 _ a] unfolding d2 by blast
  obtain ds where ds: "ns2 s = Some ds" "n_data ds = ?d s" using s2(1) d2 by (metis dat_def option.exhaust_sel)
  obtain b where b: "bs (?d a) = Some b" using blocks_okD(1)[OF ok, of a] by blast
  obtain sb where sb: "bs (?d s) = Some sb" using blocks_okD(1)[OF ok, of s] by blast
  have "bs' = bs(?d s \<mapsto> \<lparr>blk_size = blk_size b - n, blk_data = blk_data b + n\<rparr>, ?d a \<mapsto> b\<lparr>blk_size := n\<rparr>)"
    by (simp add: bs'_def divide_def b)
  then have "fracture a (?d a) n (h\<lparr>hp_free := free'\<rparr>, ns1, bs) =
      Some (True, h\<lparr>hp_free := free'', hp_spare := spare'\<rparr>, ns', bs')"
    using pop(1) ds ins(1) by (simp add: fracture_def b sb)
  then show ?thesis using ins d2 by auto
qed

lemma fracture_no_spare:
  assumes repr: "heap_repr (h, ns, bs) (xs @ a # ys) U []"
    and rest: "dll ns1 free' (xs @ ys)" "frame (set (xs @ a # ys)) ns ns1"
  shows "\<exists>free'' ns' F'. fracture a (dat ns a) n (h\<lparr>hp_free := free'\<rparr>, ns1, bs) =
      Some (False, h\<lparr>hp_free := free''\<rparr>, ns', bs) \<and>
    heap_repr (h\<lparr>hp_free := free''\<rparr>, ns', bs) F' U [] \<and> set F' = set (xs @ a # ys) \<and> dat ns' = dat ns"
proof -
  note r = repr[unfolded heap_repr_alt]
  let ?F = "set (xs @ ys)" and ?d = "dat ns"
  have ok: "blocks_ok (hp_align h) ?d bs (insert a ?F) (set U) (set [])" using r by simp
  have a: "a \<notin> ?F" using repr by (auto simp: heap_repr_def dll_def)
  have lk1: "linked ns1 bs (free', hp_used h, hp_spare h) (xs @ ys) U []" and d1: "dat ns1 = ?d" and a1: "ns1 a \<noteq> None"
    using unlink_free[of ns bs "hp_free h" "hp_used h" "hp_spare h" xs a ys U "[]" ns1 free' "hp_align h", OF _ rest] r by simp_all
  have pop: "list_pop (Some (hp_spare h)) ns1 = Some (None, ns1, Some (hp_spare h))"
    by (rule list_pop_empty) (use lk1 in \<open>simp add: linked_def\<close>)
  obtain ns' free'' F' where ins: "list_insert (Some free') (Some a) (block_compare_ptr bs) True ns1 = Some (Some a, ns', Some free'')"
    "linked ns' bs (free'', hp_used h, hp_spare h) F' U []" "set F' = insert a ?F" "dat ns' = dat ns1"
    using link_free[OF lk1, of "hp_align h" a] ok a a1 unfolding d1 by blast
  obtain b where b: "bs (?d a) = Some b" using blocks_okD(1)[OF ok, of a] by blast
  have "fracture a (?d a) n (h\<lparr>hp_free := free'\<rparr>, ns1, bs) = Some (False, h\<lparr>hp_free := free''\<rparr>, ns', bs)"
    using pop ins(1) by (simp add: fracture_def b)
  moreover have "heap_repr (h\<lparr>hp_free := free''\<rparr>, ns', bs) F' U []"
    unfolding heap_repr_alt using r ins(2-4) d1 by (simp add: heap_wf_def)
  ultimately show ?thesis using ins(3,4) d1 by auto
qed

lemma alloc_split:
  assumes repr: "heap_repr (h, ns, bs) (xs @ a # ys) U (s # S)"
    and num: "num \<noteq> 0" "block_size (hp_align h) num = n" "\<not> bytesFree h < n" "n \<noteq> 0" "unat (hp_align h) dvd unat n"
    and found: "block_bestfit_and_remove (hp_free h) n (ns, bs) = Some (Some (a, dat ns a), free', ns1)"
    and rest: "dll ns1 free' (xs @ ys)" "frame (set (xs @ a # ys)) ns ns1" and n: "n < blk_size (blk bs (dat ns a))"
  shows "\<exists>p st'. heap_alloc num (h, ns, bs) = Some (p, st') \<and> p \<noteq> 0 \<and> alloc_post (h, ns, bs) (xs @ a # ys) U n p st'"
proof -
  note r = repr[unfolded heap_repr_alt]
  let ?F = "set (xs @ ys)" and ?d = "dat ns" and ?b = "blk bs (dat ns a)"
  define bs' where "bs' = divide n (?d a) (?d s) bs"
  have ok: "blocks_ok (hp_align h) ?d bs (insert a ?F) (set U) (insert s (set S))" using r by simp
  have a: "a \<notin> ?F" "a \<notin> set U" "s \<notin> set S" using repr blocks_okD(5)[OF ok] by (auto simp: heap_repr_def dll_def)
  have n': "unat n < unat (blk_size ?b)" using n by (simp add: word_less_nat_alt)
  have ok': "blocks_ok (hp_align h) ?d bs' (insert s ?F) (insert a (set U)) (set S)"
    unfolding bs'_def by (rule blocks_ok_divide[OF ok a(1,3) n' num(4,5)])
  note tot = divide_totals[OF ok a(1,3) n', folded bs'_def] and facts = divide_facts[OF ok a(1,3) n', folded bs'_def]
  obtain spare' free'' ns2 F' where fr: "fracture a (?d a) n (h\<lparr>hp_free := free'\<rparr>, ns1, bs) =
      Some (True, h\<lparr>hp_free := free'', hp_spare := spare'\<rparr>, ns2, bs')"
    "linked ns2 bs' (free'', hp_used h, spare') F' U S" "set F' = insert s ?F" "dat ns2 = ?d" "ns2 a \<noteq> None"
    using fracture_split[OF repr rest n num(4,5), folded bs'_def] by blast
  let ?h = "h\<lparr>hp_free := free'', hp_spare := spare'\<rparr>"
  have sz: "blk_size (blk bs' (dat ns2 a)) = n" using facts(1) fr(4) by simp
  have "sum_sizes ?d bs' (set U) = unat (bytesUsed h)"
    using tot(2) sizes_insert[of "set U" a ?d bs'] a(2) r facts(1) by simp
  then obtain ns' used' U' where s: "list_insert (Some (hp_used h)) (Some a) (block_compare_ptr bs') True ns2 = Some (Some a, ns', Some used')"
    "heap_repr (?h\<lparr>hp_used := used', bytesFree := bytesFree h - n, bytesUsed := bytesUsed h + n\<rparr>, ns', bs') F' U' S"
    "set U' = insert a (set U)" "dat ns' = ?d"
    using alloc_settle[of ?h ns2 bs' F' U S a n] r fr ok' a(2) sz tot(1) by (auto simp: heap_wf_def)
  obtain b where b: "bs (?d a) = Some b" using blocks_okD(1)[OF ok, of a] by blast
  have nz: "?d a \<noteq> 0" using blocks_okD(1)[OF ok, of a] by blast
  obtain b' where b': "bs' (?d a) = Some b'" using blocks_okD(1)[OF ok', of a] by blast
  have b'_eq: "b' = b\<lparr>blk_size := n\<rparr>" using facts(1) b b' by simp
  have eq: "heap_alloc num (h, ns, bs) =
      Some (blk_data b, ?h\<lparr>hp_used := used', bytesFree := bytesFree h - n, bytesUsed := bytesUsed h + n\<rparr>, ns', bs')"
    using heap_alloc_found[OF _ num(1-3) found nz b] r n fr(1) s(1) b b' b'_eq by (simp add: heap_wf_def)
  have bytes: "bytes_of (blk bs' (?d a)) = {unat (blk_data b)..<unat (blk_data b) + unat n}"
    by (simp add: bytes_of_def b' b'_eq)
  have eqF: "set (xs @ a # ys) = insert a ?F" by auto
  have sub: "bytes_of (blk bs' (?d a)) \<subseteq> free_bytes ?d bs (insert a ?F)"
    using facts(4) free_bytes_insert[of ?d bs a ?F] by blast
  have um: "used_map ?d bs' (insert a (set U)) (M(blk_data b \<mapsto> n)) \<and> M (blk_data b) = None" if "used_map ?d bs (set U) M" for M
  proof -
    have "used_map ?d bs' (set U) M" using that tot(4) by simp
    from used_map_insert[OF ok' a(2) this] used_map_free[OF ok' a(2) this] show ?thesis by (simp add: b' b'_eq)
  qed
  have ptr: "blk_data b \<noteq> 0" "unat (hp_align h) dvd unat (blk_data b)"
    using blocks_okD(8)[OF ok, of a] b by (simp_all add: block_ok_def)
  have "alloc_post (h, ns, bs) (xs @ a # ys) U n (blk_data b)
      (?h\<lparr>hp_used := used', bytesFree := bytesFree h - n, bytesUsed := bytesUsed h + n\<rparr>, ns', bs')"
    by (rule alloc_taken[OF s(2)], unfold eqF bytes[symmetric] s(3,4) fr(3))
      (use ptr sub um tot(3) in simp_all)
  then show ?thesis using eq ptr(1) by simp
qed

lemma alloc_unchanged: "heap_repr (h, ns, bs) F U S \<Longrightarrow> alloc_post (h, ns, bs) F U n 0 (h, ns, bs)"
  by (auto simp: alloc_post_def)

text \<open>No free block is large enough, or only larger ones while no spare descriptor is left for the rest.\<close>

definition no_room :: "nodes \<Rightarrow> blocks \<Rightarrow> nat list \<Rightarrow> nat list \<Rightarrow> u32 \<Rightarrow> bool" where
  "no_room ns bs F S n \<longleftrightarrow>
     (if S = [] then \<forall>a\<in>set F. blk_size (blk bs (dat ns a)) \<noteq> n else \<forall>a\<in>set F. \<not> fits bs n (dat ns a))"

lemma heap_alloc_cases:
  assumes repr: "heap_repr (h, ns, bs) F U S" and num: "num \<noteq> 0" "unat num + unat (hp_align h) \<le> size_max"
  defines "n \<equiv> block_size (hp_align h) num"
  shows "\<exists>p st'. heap_alloc num (h, ns, bs) = Some (p, st') \<and> alloc_post (h, ns, bs) F U n p st' \<and>
    (p = 0 \<longleftrightarrow> no_room ns bs F S n)"
proof -
  note r = repr[unfolded heap_repr_alt]
  have wf: "heap_wf h" and ok: "blocks_ok (hp_align h) (dat ns) bs (set F) (set U) (set S)"
    and tot: "sum_sizes (dat ns) bs (set F) = unat (bytesFree h)" and free: "dll ns (hp_free h) F" using r by (simp_all add: linked_def)
  have al: "unat (hp_align h) \<noteq> 0" "hp_raw h \<noteq> 0" using wf by (simp_all add: heap_wf_def)
  note bsz = block_size_ok[OF al(1) num(2), folded n_def]
  have n_eq: "block_size (hp_align h) num = n" by (simp add: n_def)
  have nz: "n \<noteq> 0" using bsz(2) num(1) by (auto simp: word_le_nat_alt unat_eq_zero)
  have none: "\<not> fits bs n (dat ns a)" if "bytesFree h < n" "a \<in> set F" for a
  proof -
    have "unat (blk_size (blk bs (dat ns a))) \<le> sum_sizes (dat ns) bs (set F)"
      unfolding sum_sizes_def by (rule member_le_sum) (use that(2) in simp_all)
    then show ?thesis using that(1) tot by (simp add: fits_def word_le_nat_alt word_less_nat_alt)
  qed
  have no_fit: "no_room ns bs F S n" if "\<forall>a\<in>set F. \<not> fits bs n (dat ns a)"
    using that by (auto simp: no_room_def fits_def)
  show ?thesis
  proof (cases "bytesFree h < n")
    case True
    then have "heap_alloc num (h, ns, bs) = Some (0, h, ns, bs)" using al num(1) by (simp add: heap_alloc_def n_def)
    then show ?thesis using alloc_unchanged[OF repr] no_fit none[OF True] by blast
  next
    case False
    have live: "\<forall>a\<in>set F. bs (dat ns a) \<noteq> None \<and> dat ns a \<noteq> STACK_BLOCK \<and> a \<noteq> STACK_NODE" using blocks_okD(1)[OF ok] by blast
    from bestfit_spec[OF free live nz] show ?thesis
    proof (elim disjE conjE exE)
      assume b: "block_bestfit_and_remove (hp_free h) n (ns, bs) = Some (None, hp_free h, ns)"
        "\<forall>a\<in>set F. \<not> fits bs n (dat ns a)"
      then have "heap_alloc num (h, ns, bs) = Some (0, h, ns, bs)" using al num(1) False by (simp add: heap_alloc_def n_def Let_def)
      then show ?thesis using alloc_unchanged[OF repr] no_fit b(2) by blast
    next
      fix xs a ys free' ns1
      assume F: "F = xs @ a # ys" and fit: "fits bs n (dat ns a)"
        and best: "\<forall>b\<in>set F. fits bs n (dat ns b) \<longrightarrow> blk_size (blk bs (dat ns a)) \<le> blk_size (blk bs (dat ns b))"
        and found: "block_bestfit_and_remove (hp_free h) n (ns, bs) = Some (Some (a, dat ns a), free', ns1)"
        and rest: "dll ns1 free' (xs @ ys)" "frame (set F) ns ns1"
      note rest' = rest[unfolded F] and repr' = repr[unfolded F]
      consider "blk_size (blk bs (dat ns a)) = n" | s S' where "n < blk_size (blk bs (dat ns a))" "S = s # S'"
        | "n < blk_size (blk bs (dat ns a))" "S = []"
        using fit by (cases S) (auto simp: fits_def order_le_less)
      then show ?thesis
      proof cases
        case 1
        have "\<not> no_room ns bs F S n" using 1 fit F by (auto simp: no_room_def)
        then show ?thesis using alloc_exact[OF repr' num(1) n_eq False found rest' 1] unfolding F by blast
      next
        case 2
        have "\<not> no_room ns bs F S n" using 2 fit F by (auto simp: no_room_def)
        then show ?thesis
          using alloc_split[OF repr'[unfolded 2(2)] num(1) n_eq False nz bsz(1) found rest' 2(1)] unfolding F by blast
      next
        case 3
        obtain free'' ns' F' where fr: "fracture a (dat ns a) n (h\<lparr>hp_free := free'\<rparr>, ns1, bs) = Some (False, h\<lparr>hp_free := free''\<rparr>, ns', bs)"
          "heap_repr (h\<lparr>hp_free := free''\<rparr>, ns', bs) F' U []" "set F' = set F" "dat ns' = dat ns"
          using fracture_no_spare[OF repr'[unfolded 3(2)] rest', of n] F by blast
        obtain b where b: "bs (dat ns a) = Some b" "dat ns a \<noteq> 0" using blocks_okD(1)[OF ok, of a] F by auto
        have "heap_alloc num (h, ns, bs) = Some (0, h\<lparr>hp_free := free''\<rparr>, ns', bs)"
          using heap_alloc_found[OF al(2) num(1) n_eq False found b(2,1)] 3(1) fr(1) b(1) by simp
        moreover have "alloc_post (h, ns, bs) F U n 0 (h\<lparr>hp_free := free''\<rparr>, ns', bs)"
          unfolding alloc_post_def prod.case using fr(2-4) by (intro conjI exI[of _ F'] exI[of _ U] exI[of _ "[]"]) simp_all
        moreover have "no_room ns bs F S n"
          using 3 best by (auto simp: no_room_def fits_def)
        ultimately show ?thesis by blast
      qed
    qed
  qed
qed

text \<open>
  C8. \<open>heap_alloc\<close>, for a request whose rounding up does not wrap, never faults on a well-formed heap and keeps it well-formed. It returns null and changes
  neither the blocks in use nor the free bytes, or an aligned pointer to at least the requested number of
  bytes, all of them free before and none of them in any block in use.
\<close>

theorem heap_alloc_sound:
  assumes "heap_ok (h, ns, bs) M Fr" "num \<noteq> 0" "unat num + unat (hp_align h) \<le> size_max"
  defines "n \<equiv> block_size (hp_align h) num"
  shows "\<exists>p st'. heap_alloc num (h, ns, bs) = Some (p, st') \<and>
    (if p = 0 then heap_ok st' M Fr
     else heap_ok st' (M(p \<mapsto> n)) (Fr - {unat p..<unat p + unat n}) \<and> num \<le> n \<and> unat (hp_align h) dvd unat p \<and>
       {unat p..<unat p + unat n} \<subseteq> Fr \<and> M p = None \<and>
       (\<forall>q m. M q = Some m \<longrightarrow> {unat p..<unat p + unat n} \<inter> {unat q..<unat q + unat m} = {}))"
proof -
  obtain F U S where r: "heap_repr (h, ns, bs) F U S" "used_map (dat ns) bs (set U) M" "Fr = free_bytes (dat ns) bs (set F)"
    using assms(1) unfolding heap_ok_def prod.case by blast
  obtain p h' ns' bs' where a: "heap_alloc num (h, ns, bs) = Some (p, h', ns', bs')"
    "alloc_post (h, ns, bs) F U n p (h', ns', bs')"
    using heap_alloc_cases[OF r(1) assms(2,3), folded n_def] by auto
  obtain F' U' S' where r': "heap_repr (h', ns', bs') F' U' S'" and
    post: "if p = 0 then free_bytes (dat ns') bs' (set F') = Fr \<and> used_map (dat ns') bs' (set U') = used_map (dat ns) bs (set U)
      else unat (hp_align h) dvd unat p \<and> {unat p..<unat p + unat n} \<subseteq> Fr \<and>
        free_bytes (dat ns') bs' (set F') = Fr - {unat p..<unat p + unat n} \<and>
        (\<forall>M. used_map (dat ns) bs (set U) M \<longrightarrow> used_map (dat ns') bs' (set U') (M(p \<mapsto> n)) \<and> M p = None)"
    using a(2) unfolding alloc_post_def prod.case r(3) by blast
  have ok': "blocks_ok (hp_align h') (dat ns') bs' (set F') (set U') (set S')" using r' by (simp add: heap_repr_def)
  have "num \<le> n" unfolding n_def by (rule block_size_ok(2)) (use assms(3) r(1) in \<open>simp_all add: heap_repr_def heap_wf_def\<close>)
  moreover have "{unat p..<unat p + unat n} \<inter> {unat q..<unat q + unat m} = {}" if p: "p \<noteq> 0" and q: "M q = Some m" for q m
  proof -
    have um: "used_map (dat ns') bs' (set U') (M(p \<mapsto> n))" "M p = None" using post r(2) p by auto
    show ?thesis by (rule used_apart[OF ok' um(1)]) (use um(2) q in auto)
  qed
  moreover have "heap_ok (h', ns', bs') M Fr" if "p = 0" using heap_okI[OF r'] post r(2) that by simp
  moreover have "heap_ok (h', ns', bs') (M(p \<mapsto> n)) (Fr - {unat p..<unat p + unat n})" if "p \<noteq> 0"
    using heap_okI[OF r', of "M(p \<mapsto> n)"] post r(2) that by simp
  ultimately show ?thesis using a(1) post r(2) by (intro exI[of _ p] exI[of _ "(h', ns', bs')"]) auto
qed

text \<open>
  \<open>heap_alloc\<close> fails exactly when no free block is large enough, or none has exactly the size and no
  spare descriptor is left for the rest of a larger one.
\<close>

theorem heap_alloc_fails_iff:
  assumes "heap_repr (h, ns, bs) F U S" "num \<noteq> 0" "unat num + unat (hp_align h) \<le> size_max"
  shows "\<exists>p st'. heap_alloc num (h, ns, bs) = Some (p, st') \<and> (p = 0 \<longleftrightarrow> no_room ns bs F S (block_size (hp_align h) num))"
  using heap_alloc_cases[OF assms] by blast

end
