(* ===== verification/Sosal_HeapFree.thy ===== *)
theory Sosal_HeapFree
  imports Sosal_HeapSpec
begin

text \<open>
  Freeing in the allocator: the search of the block in use, the return to the free list and the merge with
  one neighbour, and the initialisation that establishes the invariant.
\<close>

section \<open>Finding a block in use\<close>

lemma find_used:
  assumes l: "dll ns used U" and live: "\<forall>a\<in>set U. bs (dat ns a) \<noteq> None \<and> dat ns a \<noteq> STACK_BLOCK \<and> a \<noteq> STACK_NODE"
    and stack: "ns STACK_NODE = None" and um: "used_map (dat ns) bs (set U) M"
  shows "case M p of
      None \<Rightarrow> block_find_and_remove used p (ns, bs) = Some (None, used, ns)
    | Some n \<Rightarrow> \<exists>xs a ys used' ns'. U = xs @ a # ys \<and> blk_data (blk bs (dat ns a)) = p \<and> blk_size (blk bs (dat ns a)) = n \<and>
        block_find_and_remove used p (ns, bs) = Some (Some (a, dat ns a), used', ns') \<and> dll ns' used' (xs @ ys) \<and>
        frame (set U) ns ns'"
proof -
  define ns1 where "ns1 = fst (with_search p 0 ns bs)"
  define bs1 where "bs1 = snd (with_search p 0 ns bs)"
  have ws: "with_search p 0 ns bs = (ns1, bs1)" by (simp add: ns1_def bs1_def)
  have ns1: "ns1 = ns(STACK_NODE \<mapsto> \<lparr>n_next = None, n_prev = None, n_data = STACK_BLOCK\<rparr>)" by (simp add: ns1_def with_search_def)
  have l1: "dll ns1 used U" by (rule dll_cong[OF l]) (use live ns1 in auto)
  let ?P = "\<lambda>a. block_compare_ptr bs1 (ns1 a) (ns1 STACK_NODE) = 0"
  have P: "?P a \<longleftrightarrow> blk_data (blk bs (dat ns a)) = p" if a: "a \<in> set U" for a
  proof -
    obtain x b where x: "ns a = Some x" "bs (n_data x) = Some b" using dll_alloc[OF l a] live a by (auto simp: dat_def)
    have ne: "a \<noteq> STACK_NODE" "dat ns a \<noteq> STACK_BLOCK" using live a by blast+
    show ?thesis using with_search_at[OF ne, of p 0 bs] x by (auto simp: block_compare_ptr_def ns1_def bs1_def dat_def)
  qed
  then have find: "List.find ?P U = List.find (\<lambda>a. blk_data (blk bs (dat ns a)) = p) U" by (intro find_cong) simp_all
  have stack1: "ns1 STACK_NODE \<noteq> None" by (simp add: ns1)
  note rm = list_remove_match_dll[OF l1 stack1, where compare = "block_compare_ptr bs1", unfolded find]
  show ?thesis
  proof (cases "M p")
    case None
    then have "List.find (\<lambda>a. blk_data (blk bs (dat ns a)) = p) U = None"
      using used_map_at[OF um] by (auto simp: find_None_iff)
    then have "list_remove_match (Some used) (Some STACK_NODE) (block_compare_ptr bs1) ns1 = Some (None, ns1, Some used)"
      using rm by simp
    moreover have "ns1(STACK_NODE := None) = ns" using stack by (auto simp: ns1)
    ultimately show ?thesis using None by (simp add: block_find_and_remove_def ws)
  next
    case (Some n)
    from used_mapD[OF um Some] obtain c where c: "c \<in> set U" "blk_data (blk bs (dat ns c)) = p" by blast
    then obtain a where a: "List.find (\<lambda>a. blk_data (blk bs (dat ns a)) = p) U = Some a"
      by (cases "List.find (\<lambda>a. blk_data (blk bs (dat ns a)) = p) U") (auto simp: find_None_iff)
    then have ap: "blk_data (blk bs (dat ns a)) = p" "a \<in> set U" by (auto simp: find_Some_iff)
    then have an: "blk_size (blk bs (dat ns a)) = n" using used_map_at[OF um ap(2)] Some by simp
    obtain h' used' where r: "list_remove_match (Some used) (Some STACK_NODE) (block_compare_ptr bs1) ns1 = Some (Some a, h', Some used')"
      "dll h' used' (remove1 a U)" "frame (set U) ns1 h'" using rm a by auto
    obtain xs ys where U: "U = xs @ a # ys" using ap(2) by (meson split_list)
    have "a \<notin> set xs" using l U by (simp add: dll_def)
    then have rem: "remove1 a U = xs @ ys" using U by (simp add: remove1_append)
    let ?ns' = "h'(STACK_NODE := None)"
    have notin: "STACK_NODE \<notin> set U" using live by blast
    have "dll ?ns' used' (xs @ ys)" by (rule dll_cong[OF r(2)[unfolded rem]]) (use notin U in auto)
    moreover have fr: "frame (set U) ns ?ns'"
      using r(3) stack unfolding frame_def ns1 by (metis fun_upd_other fun_upd_same)
    moreover have "dat ?ns' a = dat ns a" "?ns' a \<noteq> None"
      using frame_dat[OF fr] frame_alloc[OF fr dll_alloc[OF l ap(2)]] by auto
    then have "block_find_and_remove used p (ns, bs) = Some (Some (a, dat ns a), used', ?ns')"
      using r(1) by (auto simp: block_find_and_remove_def ws dat_def)
    ultimately show ?thesis using Some U ap(1) an by auto
  qed
qed

section \<open>Returning it to the free list\<close>

lemma unlink_used:
  assumes lk: "linked ns bs (free, used, spare) F (xs @ a # ys) S" and "dll ns' used' (xs @ ys)"
    and fr: "frame (set (xs @ a # ys)) ns ns'" and ok: "blocks_ok al (dat ns) bs (set F) (set (xs @ a # ys)) (set S)"
  shows "linked ns' bs (free, used', spare) F (xs @ ys) S" "dat ns' = dat ns" "ns' a \<noteq> None"
proof -
  have "set (xs @ a # ys) \<inter> set F = {}" "set (xs @ a # ys) \<inter> set S = {}" "STACK_NODE \<notin> set (xs @ a # ys)"
    using blocks_okD(5,7)[OF ok] blocks_okD(1)[OF ok, of STACK_NODE] by blast+
  note f = linked_frame[OF lk fr this(3)] this
  have "blk_order.sorted_by bs True ns' (xs @ ys)"
    using f(3) by (auto simp: blk_order.sorted_by_append blk_order.sorted_by_Cons)
  then show "linked ns' bs (free, used', spare) F (xs @ ys) S" using f assms(2) by (simp add: linked_def)
  show "dat ns' = dat ns" by (rule f(4))
  show "ns' a \<noteq> None" by (rule f(8)) (use lk dll_alloc in \<open>auto simp: linked_def\<close>)
qed

text \<open>Up to the merge, \<open>heap_free\<close> moves the node of \<open>p\<close> from the used to the free list.\<close>

lemma release:
  assumes repr: "heap_repr (h, ns, bs) F U S" and um: "used_map (dat ns) bs (set U) M" and p: "M p = Some n"
  shows "\<exists>a used' free' ns1 ns2 F' U'. block_find_and_remove (hp_used h) p (ns, bs) = Some (Some (a, dat ns a), used', ns1) \<and>
    blk_data (blk bs (dat ns a)) = p \<and> blk_size (blk bs (dat ns a)) = n \<and>
    list_insert (Some (hp_free h)) (Some a) (block_compare_ptr bs) True ns1 = Some (Some a, ns2, Some free') \<and>
    heap_repr (h\<lparr>hp_used := used', hp_free := free', bytesUsed := bytesUsed h - n, bytesFree := bytesFree h + n\<rparr>, ns2, bs) F' U' S \<and>
    dat ns2 = dat ns \<and> a \<notin> set F \<and> set F' = insert a (set F) \<and> used_map (dat ns) bs (set U') (M(p := None))"
proof -
  note r = repr[unfolded heap_repr_alt]
  let ?d = "dat ns"
  have ok: "blocks_ok (hp_align h) ?d bs (set F) (set U) (set S)" using r by simp
  have live: "\<forall>a\<in>set U. bs (?d a) \<noteq> None \<and> ?d a \<noteq> STACK_BLOCK \<and> a \<noteq> STACK_NODE" using blocks_okD(1)[OF ok] by blast
  obtain xs a ys used' ns1 where U: "U = xs @ a # ys" and a: "blk_data (blk bs (?d a)) = p" "blk_size (blk bs (?d a)) = n"
    and found: "block_find_and_remove (hp_used h) p (ns, bs) = Some (Some (a, ?d a), used', ns1)"
    and rest: "dll ns1 used' (xs @ ys)" "frame (set U) ns ns1"
    using find_used[OF _ live _ um, of "hp_used h" p] p r by (auto simp: linked_def)
  let ?U = "set (xs @ ys)"
  have ok1: "blocks_ok (hp_align h) ?d bs (set F) (insert a ?U) (set S)" using ok unfolding U by simp
  have notin: "a \<notin> ?U" "a \<notin> set F" using repr blocks_okD(5)[OF ok1] unfolding U by (auto simp: heap_repr_def dll_def)
  have lk1: "linked ns1 bs (hp_free h, used', hp_spare h) F (xs @ ys) S" and d1: "dat ns1 = ?d" and a1: "ns1 a \<noteq> None"
    using unlink_used[of ns bs "hp_free h" "hp_used h" "hp_spare h" F xs a ys S ns1 used' "hp_align h"] rest r unfolding U by simp_all
  have ok2: "blocks_ok (hp_align h) ?d bs (insert a (set F)) ?U (set S)"
    by (rule blocks_ok_move[OF ok1]) (use notin blocks_okD(5)[OF ok1] in auto)
  obtain ns2 free' F' where ins: "list_insert (Some (hp_free h)) (Some a) (block_compare_ptr bs) True ns1 = Some (Some a, ns2, Some free')"
    "linked ns2 bs (free', used', hp_spare h) F' (xs @ ys) S" "set F' = insert a (set F)" "dat ns2 = ?d"
    using link_free[OF lk1, of "hp_align h" a] ok2 notin(2) a1 unfolding d1 by blast
  have tot: "sum_sizes ?d bs ?U + unat n = unat (bytesUsed h)" "sum_sizes ?d bs (insert a (set F)) = unat n + unat (bytesFree h)"
    using r sizes_insert[of ?U a ?d bs] sizes_insert[of "set F" a ?d bs] notin a(2) unfolding U by simp_all
  then have "n \<le> bytesUsed h" "unat (bytesFree h) + unat n < 2 ^ 32" using r by (simp_all add: word_le_nat_alt heap_wf_def)
  then have "unat (bytesUsed h - n) = unat (bytesUsed h) - unat n" "unat (bytesFree h + n) = unat (bytesFree h) + unat n"
    by (simp_all add: unat_sub unat_add_small)
  then have "heap_repr (h\<lparr>hp_used := used', hp_free := free', bytesUsed := bytesUsed h - n, bytesFree := bytesFree h + n\<rparr>, ns2, bs)
      F' (xs @ ys) S"
    unfolding heap_repr_alt using r ins(2-4) ok2 tot by (simp add: heap_wf_def)
  moreover have "used_map ?d bs ?U (M(p := None))"
    using used_map_remove[OF ok1 notin(1), of M] um a(1) unfolding U by simp
  ultimately show ?thesis using found a ins notin(2) by blast
qed

section \<open>Merging\<close>

lemma blocks_ok_absorb:
  assumes ok: "blocks_ok al d bs F U S" and xz: "x \<in> F" "z \<in> F" "x \<noteq> z" and e: "e = d x \<or> e = d z"
    and adj: "unat (blk_data (blk bs (d x))) + unat (blk_size (blk bs (d x))) = unat (blk_data (blk bs (d z)))"
    and new: "bs' e = Some \<lparr>blk_size = blk_size (blk bs (d x)) + blk_size (blk bs (d z)), blk_data = blk_data (blk bs (d x))\<rparr>"
    and old: "\<And>w. w \<in> F \<union> U \<union> S \<Longrightarrow> w \<noteq> x \<Longrightarrow> w \<noteq> z \<Longrightarrow> bs' (d w) = bs (d w)"
  defines "d' \<equiv> d(x := e, z := 0)"
  shows "blocks_ok al d' bs' (F - {z}) U S" "sum_sizes d' bs' (F - {z}) = sum_sizes d bs F"
    "free_bytes d' bs' (F - {z}) = free_bytes d bs F" "used_map d' bs' U M = used_map d bs U M" "sum_sizes d' bs' U = sum_sizes d bs U"
proof -
  let ?X = "blk bs (d x)" and ?Z = "blk bs (d z)"
  let ?N = "\<lparr>blk_size = blk_size ?X + blk_size ?Z, blk_data = blk_data ?X\<rparr>"
  have okX: "block_ok al ?X" "block_ok al ?Z" using blocks_okD(8)[OF ok] xz by simp_all
  have size: "unat (blk_size ?N) = unat (blk_size ?X) + unat (blk_size ?Z)"
    using okX adj by (simp add: block_ok_def unat_add_small)
  have okN: "block_ok al ?N"
    using okX adj size by (auto simp: block_ok_def word_unat_eq_iff[where 'a = 32])
  have bytes: "bytes_of ?N = bytes_of ?X \<union> bytes_of ?Z" using size adj by (auto simp: bytes_of_def)
  have dx: "d' x = e" "bs' (d' x) = Some ?N" using xz(3) new by (simp_all add: d'_def)
  have same: "d' w = d w" "bs' (d' w) = bs (d w)" if "w \<in> F \<union> U \<union> S" "w \<noteq> x" "w \<noteq> z" for w
    using that old[OF that] by (simp_all add: d'_def)
  have nin: "x \<notin> U" "z \<notin> U" "x \<notin> S" "z \<notin> S" using blocks_okD(5,6)[OF ok] xz by auto
  let ?R = "F - {x, z}"
  have F: "F = insert x (insert z ?R)" "F - {z} = insert x ?R" "x \<notin> ?R" "z \<notin> ?R" "x \<notin> insert z ?R" "finite ?R"
    using xz blocks_okD(3)[OF ok] by auto
  have sameF: "blk bs' (d' w) = blk bs (d w)" if "w \<in> ?R" for w using same(2)[of w] that by simp
  have sameU: "blk bs' (d' w) = blk bs (d w)" if "w \<in> U" for w using same(2)[of w] that nin by (cases "w = x \<or> w = z") auto
  have "sum_sizes d bs F = unat (blk_size ?X) + unat (blk_size ?Z) + sum_sizes d bs ?R"
    using F(3-6) by (subst F(1)) (simp add: sizes_insert)
  moreover have "sum_sizes d' bs' (F - {z}) = unat (blk_size ?N) + sum_sizes d' bs' ?R"
    unfolding F(2) using F(3,6) dx(2) by (simp add: sizes_insert)
  ultimately show "sum_sizes d' bs' (F - {z}) = sum_sizes d bs F" using size sizes_cong[of ?R bs' d' bs d] sameF by simp
  have "free_bytes d bs F = bytes_of ?X \<union> (bytes_of ?Z \<union> free_bytes d bs ?R)"
    by (subst F(1)) (simp only: free_bytes_insert)
  moreover have "free_bytes d' bs' (F - {z}) = bytes_of ?N \<union> free_bytes d' bs' ?R"
    unfolding F(2) free_bytes_insert dx(2) by simp
  ultimately show "free_bytes d' bs' (F - {z}) = free_bytes d bs F"
    unfolding bytes using free_bytes_cong[of ?R bs' d' bs d] sameF by blast
  show "used_map d' bs' U M = used_map d bs U M" using used_map_cong[of U bs' d' bs d M] sameU by blast
  show "sum_sizes d' bs' U = sum_sizes d bs U" using sizes_cong[of U bs' d' bs d] sameU by blast
  have in_ok: "bs (d w) \<noteq> None \<and> d w \<noteq> 0 \<and> d w \<noteq> STACK_BLOCK \<and> w \<noteq> STACK_NODE" if "w \<in> F \<union> U \<union> S" for w
    by (rule blocks_okD(1)[OF ok that])
  have nodes: "bs' (d' w) \<noteq> None \<and> d' w \<noteq> 0 \<and> d' w \<noteq> STACK_BLOCK \<and> w \<noteq> STACK_NODE" if w: "w \<in> (F - {z}) \<union> U \<union> S" for w
  proof (cases "w = x")
    case True
    then show ?thesis using dx new e in_ok[of x] in_ok[of z] xz by auto
  next
    case False
    have wz: "w \<noteq> z" "w \<in> F \<union> U \<union> S" using w nin by auto
    show ?thesis using same[OF wz(2) False wz(1)] in_ok[OF wz(2)] by simp
  qed
  note inj = blocks_okD(2)[OF ok]
  have ne: "d' w \<noteq> e" if "w \<in> F \<union> U \<union> S" "w \<noteq> x" "w \<noteq> z" for w
    using that same(1)[OF that] e inj_onD[OF inj, of w x] inj_onD[OF inj, of w z] xz by auto
  have inj': "inj_on d' ((F - {z}) \<union> U \<union> S)"
  proof (rule inj_onI)
    fix v w assume v: "v \<in> (F - {z}) \<union> U \<union> S" and w: "w \<in> (F - {z}) \<union> U \<union> S" and eq: "d' v = d' w"
    have vz: "v \<noteq> z" "w \<noteq> z" "v \<in> F \<union> U \<union> S" "w \<in> F \<union> U \<union> S" using v w nin by auto
    consider "v = x" | "w = x" | "v \<noteq> x" "w \<noteq> x" by blast
    then show "v = w"
    proof cases
      case 1
      then show ?thesis using ne[OF vz(4) _ vz(2)] eq dx(1) by metis
    next
      case 2
      then show ?thesis using ne[OF vz(3) _ vz(1)] eq dx(1) by metis
    next
      case 3
      then show ?thesis using eq same(1) vz inj_onD[OF inj, of v w] by simp
    qed
  qed
  have ap: "apart d' bs' (insert x (?R \<union> U))"
    unfolding apart_insert
  proof (intro conjI ballI impI)
    have "apart d bs (?R \<union> U)" by (rule apart_subset[OF blocks_okD(9)[OF ok]]) auto
    then show "apart d' bs' (?R \<union> U)" using apart_cong[of "?R \<union> U" bs' d' bs d] sameF sameU by blast
    fix w assume w: "w \<in> ?R \<union> U" "w \<noteq> x"
    have "bytes_of ?X \<inter> bytes_of (blk bs (d w)) = {}"
      by (rule apartD[OF blocks_okD(9)[OF ok]]) (use w xz nin in auto)
    moreover have "bytes_of ?Z \<inter> bytes_of (blk bs (d w)) = {}"
      by (rule apartD[OF blocks_okD(9)[OF ok]]) (use w xz nin in auto)
    moreover have "blk bs' (d' w) = blk bs (d w)" using w(1) sameF sameU by blast
    ultimately show "bytes_of (blk bs' (d' x)) \<inter> bytes_of (blk bs' (d' w)) = {}" using dx(2) bytes by auto
  qed
  have eqs: "(F - {z}) \<union> U = insert x (?R \<union> U)" using F(2) by simp
  have "block_ok al (blk bs' (d' w))" if "w \<in> insert x (?R \<union> U)" for w
    using that okN dx(2) sameF[of w] sameU[of w] blocks_okD(8)[OF ok, of w] by auto
  then show "blocks_ok al d' bs' (F - {z}) U S"
    unfolding blocks_ok_def using nodes inj' ap blocks_okD(3-7)[OF ok] by (auto simp: eqs)
qed

text \<open>The node \<open>z\<close> behind \<open>x\<close> is bypassed and cleared; \<open>x\<close> gets the descriptor \<open>e\<close>.\<close>

definition bypass :: "nat \<Rightarrow> nat \<Rightarrow> nat \<Rightarrow> u32 \<Rightarrow> nodes \<Rightarrow> nodes" where
  "bypass x z v e ns =
     ns(x \<mapsto> (the (ns x))\<lparr>n_next := Some v, n_data := e\<rparr>, v \<mapsto> (the (ns v))\<lparr>n_prev := Some x\<rparr>,
        z \<mapsto> \<lparr>n_next = None, n_prev = None, n_data = 0\<rparr>)"

lemma bypass_dll:
  assumes l: "dll ns l (us @ x # z # v # vs)"
  shows "dll (bypass x z v e ns) l (us @ x # v # vs)" "ns x \<noteq> None" "ns z \<noteq> None" "ns v \<noteq> None"
    "dat (bypass x z v e ns) = (dat ns)(x := e, z := 0)"
    "b \<notin> {x, z, v} \<Longrightarrow> bypass x z v e ns b = ns b"
proof -
  have dist: "distinct (us @ x # z # v # vs)" and sg: "seg ns None (us @ x # z # v # vs) None"
    and ends: "l_head l = fopt us (Some x)" "l_tail l = lopt (Some v) vs" using l by (simp_all add: dll_def)
  obtain dx dz dv where n: "ns x = Some \<lparr>n_next = Some z, n_prev = lopt None us, n_data = dx\<rparr>"
    "ns z = Some \<lparr>n_next = Some v, n_prev = Some x, n_data = dz\<rparr>" "ns v = Some \<lparr>n_next = fopt vs None, n_prev = Some z, n_data = dv\<rparr>"
    using sg by (auto simp: seg_append)
  have ne: "x \<noteq> z" "x \<noteq> v" "z \<noteq> v" "x \<notin> set us" "z \<notin> set us" "v \<notin> set us" "x \<notin> set vs" "z \<notin> set vs" "v \<notin> set vs"
    using dist by auto
  let ?n = "bypass x z v e ns"
  have at: "?n x = Some \<lparr>n_next = Some v, n_prev = lopt None us, n_data = e\<rparr>"
    "?n v = Some \<lparr>n_next = fopt vs None, n_prev = Some x, n_data = dv\<rparr>"
    using n ne by (simp_all add: bypass_def)
  show other: "b \<notin> {x, z, v} \<Longrightarrow> ?n b = ns b" for b by (simp add: bypass_def)
  have au: "?n a = ns a" if "a \<in> set us" for a by (rule other) (use that ne in auto)
  have av: "?n a = ns a" if "a \<in> set vs" for a by (rule other) (use that ne in auto)
  have "seg ?n None us (Some x)" "seg ?n (Some v) vs None" using sg by (auto simp: seg_append seg_cong[OF au] seg_cong[OF av])
  then have "seg ?n None (us @ x # v # vs) None" using at by (simp add: seg_append)
  then show "dll ?n l (us @ x # v # vs)" using dist ends by (simp add: dll_def)
  show "ns x \<noteq> None" "ns z \<noteq> None" "ns v \<noteq> None" using n by simp_all
  show "dat ?n = (dat ns)(x := e, z := 0)"
    using n ne by (intro ext) (simp add: dat_def bypass_def)
qed

text \<open>Both merges of the code are a bypass.\<close>

lemma merge_prev_bypass:
  assumes l: "dll ns l (us @ x # z # v # vs)" and bs: "bs (dat ns x) = Some X" "bs (dat ns z) = Some Z" "dat ns x \<noteq> dat ns z" "dat ns x \<noteq> 0"
  shows "merge_prev z (dat ns z) x (dat ns x) (ns, bs) = Some (bypass x z v (dat ns z) ns,
    bs(dat ns z \<mapsto> \<lparr>blk_size = blk_size Z + blk_size X, blk_data = blk_data X\<rparr>, dat ns x \<mapsto> \<lparr>blk_size = 0, blk_data = 0\<rparr>))"
proof -
  have "distinct (us @ x # z # v # vs)" and sg: "seg ns None (us @ x # z # v # vs) None" using l by (simp_all add: dll_def)
  then have ne: "x \<noteq> z" "x \<noteq> v" "z \<noteq> v" by auto
  obtain dx dz dv where n: "ns x = Some \<lparr>n_next = Some z, n_prev = lopt None us, n_data = dx\<rparr>"
    "ns z = Some \<lparr>n_next = Some v, n_prev = Some x, n_data = dz\<rparr>" "ns v = Some \<lparr>n_next = fopt vs None, n_prev = Some z, n_data = dv\<rparr>"
    using sg by (auto simp: seg_append)
  show ?thesis using n ne bs
    by (cases Z) (simp add: merge_prev_def block_clear_def node_clear_def set_prev_def dat_def bypass_def)
qed

lemma merge_next_bypass:
  assumes l: "dll ns l (us @ x # z # v # vs)" and bs: "bs (dat ns x) = Some X" "bs (dat ns z) = Some Z" "dat ns x \<noteq> dat ns z" "dat ns z \<noteq> 0"
  shows "merge_next x (dat ns x) z (dat ns z) (ns, bs) = Some (bypass x z v (dat ns x) ns,
    bs(dat ns x \<mapsto> \<lparr>blk_size = blk_size X + blk_size Z, blk_data = blk_data X\<rparr>, dat ns z \<mapsto> \<lparr>blk_size = 0, blk_data = 0\<rparr>))"
proof -
  have "distinct (us @ x # z # v # vs)" and sg: "seg ns None (us @ x # z # v # vs) None" using l by (simp_all add: dll_def)
  then have ne: "x \<noteq> z" "x \<noteq> v" "z \<noteq> v" by auto
  obtain dx dz dv where n: "ns x = Some \<lparr>n_next = Some z, n_prev = lopt None us, n_data = dx\<rparr>"
    "ns z = Some \<lparr>n_next = Some v, n_prev = Some x, n_data = dz\<rparr>" "ns v = Some \<lparr>n_next = fopt vs None, n_prev = Some z, n_data = dv\<rparr>"
    using sg by (auto simp: seg_append)
  show ?thesis using n ne bs
    by (cases X) (simp add: merge_next_def block_clear_def node_clear_def set_prev_def set_next_def get_next_def dat_def bypass_def)
qed

lemma absorb_repr:
  assumes repr: "heap_repr (h, ns, bs) (us @ x # z # v # vs) U S" and e: "e = dat ns x \<or> e = dat ns z"
    and adj: "blk_data (blk bs (dat ns x)) + blk_size (blk bs (dat ns x)) = blk_data (blk bs (dat ns z))"
    and new: "bs' e = Some \<lparr>blk_size = blk_size (blk bs (dat ns x)) + blk_size (blk bs (dat ns z)), blk_data = blk_data (blk bs (dat ns x))\<rparr>"
    and old: "\<And>w. w \<noteq> dat ns x \<Longrightarrow> w \<noteq> dat ns z \<Longrightarrow> bs' w = bs w"
  defines "ns' \<equiv> bypass x z v e ns"
  shows "heap_repr (h, ns', bs') (us @ x # v # vs) U S"
    "free_bytes (dat ns') bs' (set (us @ x # v # vs)) = free_bytes (dat ns) bs (set (us @ x # z # v # vs))"
    "used_map (dat ns') bs' (set U) = used_map (dat ns) bs (set U)"
proof -
  note r = repr[unfolded heap_repr_alt]
  let ?F = "set (us @ x # z # v # vs)" and ?d = "dat ns"
  have l: "dll ns (hp_free h) (us @ x # z # v # vs)" and ok: "blocks_ok (hp_align h) ?d bs ?F (set U) (set S)"
    using r by (simp_all add: linked_def)
  note bp = bypass_dll(1,5,6)[OF l, where e = e, folded ns'_def]
  have xz: "x \<in> ?F" "z \<in> ?F" "x \<noteq> z" "x \<noteq> v" "z \<noteq> v" "z \<notin> set us" "z \<notin> set vs" "x \<notin> set us" "x \<notin> set vs" using l by (auto simp: dll_def)
  have F': "set (us @ x # v # vs) = ?F - {z}" using xz by auto
  have ok_xz: "block_ok (hp_align h) (blk bs (?d x))" "block_ok (hp_align h) (blk bs (?d z))"
    using blocks_okD(8)[OF ok] xz by simp_all
  have adj': "unat (blk_data (blk bs (?d x))) + unat (blk_size (blk bs (?d x))) = unat (blk_data (blk bs (?d z)))"
    using ok_xz(1) unfolding adj[symmetric] by (simp add: block_ok_def unat_add_small)
  have old': "bs' (?d w) = bs (?d w)" if "w \<in> ?F \<union> set U \<union> set S" "w \<noteq> x" "w \<noteq> z" for w
    by (rule old) (use that xz inj_onD[OF blocks_okD(2)[OF ok], of w x] inj_onD[OF blocks_okD(2)[OF ok], of w z] in auto)
  note ab = blocks_ok_absorb[OF ok xz(1-3) e adj' new old', folded bp(2) F']
  show "free_bytes (dat ns') bs' (set (us @ x # v # vs)) = free_bytes ?d bs ?F" by (rule ab(3))
  show "used_map (dat ns') bs' (set U) = used_map ?d bs (set U)" by (rule ext) (rule ab(4))
  have nin: "x \<notin> set U" "z \<notin> set U" "v \<notin> set U" "x \<notin> set S" "z \<notin> set S" "v \<notin> set S"
    "STACK_NODE \<notin> {x, z, v}" using blocks_okD(5,6)[OF ok] blocks_okD(1)[OF ok, of STACK_NODE] by auto
  have same: "blk_data (blk bs' (dat ns' w)) = blk_data (blk bs (?d w))" if "w \<in> (?F - {z}) \<union> set U" for w
    using that new old'[of w] nin by (cases "w = x") (auto simp: bp(2))
  have lks: "blk_order.sorted_by bs True ns (us @ x # v # vs)" "blk_order.sorted_by bs True ns U"
    using r by (auto simp: linked_def blk_order.sorted_by_append blk_order.sorted_by_Cons)
  have srt: "blk_order.sorted_by bs' True ns' (us @ x # v # vs)" "blk_order.sorted_by bs' True ns' U"
    using lks sorted_bs_cong[of "us @ x # v # vs" bs' ns' bs ns] sorted_bs_cong[of U bs' ns' bs ns] same unfolding F' by auto
  have keep: "ns' b = ns b" if "b \<in> set U \<union> set S" for b by (rule bp(3)) (use that nin in auto)
  have "dll ns' (hp_used h) U" using dll_cong[of ns "hp_used h" U ns'] r keep by (simp add: linked_def)
  moreover have "dll ns' (hp_spare h) S" using dll_cong[of ns "hp_spare h" S ns'] r keep by (simp add: linked_def)
  moreover have "ns' STACK_NODE = None" using bp(3)[OF nin(7)] r by (simp add: linked_def)
  ultimately show "heap_repr (h, ns', bs') (us @ x # v # vs) U S"
    unfolding heap_repr_alt using r bp(1) ab(1,2,5) srt by (simp add: linked_def)
qed

text \<open>
  The merge keeps the heap well-formed when the last free block is not touched: there the tail pointer of
  the list would have to move, which the code forgets.
\<close>

definition touches :: "nodes \<Rightarrow> blocks \<Rightarrow> nat \<Rightarrow> nat \<Rightarrow> bool" where
  "touches ns bs x z \<longleftrightarrow> blk_data (blk bs (dat ns x)) + blk_size (blk bs (dat ns x)) = blk_data (blk bs (dat ns z))"

definition merge_safe :: "nodes \<Rightarrow> blocks \<Rightarrow> nat \<Rightarrow> nat list \<Rightarrow> bool" where
  "merge_safe ns bs a vs \<longleftrightarrow> (case vs of [] \<Rightarrow> False | v # vs' \<Rightarrow> touches ns bs a v \<longrightarrow> vs' \<noteq> [])"

lemma coalesce_repr:
  assumes repr: "heap_repr (h, ns, bs) (us @ a # vs) U S" and safe: "merge_safe ns bs a vs"
  shows "\<exists>ns' bs' F'. coalesce a (dat ns a) (ns, bs) = Some (ns', bs') \<and> heap_repr (h, ns', bs') F' U S \<and>
    free_bytes (dat ns') bs' (set F') = free_bytes (dat ns) bs (set (us @ a # vs)) \<and>
    used_map (dat ns') bs' (set U) = used_map (dat ns) bs (set U)"
proof -
  let ?F = "us @ a # vs" and ?d = "dat ns"
  have l: "dll ns (hp_free h) ?F" and ok: "blocks_ok (hp_align h) ?d bs (set ?F) (set U) (set S)"
    using repr by (simp_all add: heap_repr_def)
  obtain v vs' where vs: "vs = v # vs'" using safe by (cases vs) (auto simp: merge_safe_def)
  have live: "bs (?d w) \<noteq> None \<and> ?d w \<noteq> 0" if "w \<in> set ?F" for w using blocks_okD(1)[OF ok] that by auto
  have inj: "?d w \<noteq> ?d a" if "w \<in> set us \<union> set vs" for w
    using inj_onD[OF blocks_okD(2)[OF ok], of w a] that l by (auto simp: dll_def)
  obtain da where a: "ns a = Some \<lparr>n_next = Some v, n_prev = lopt None us, n_data = da\<rparr>"
    using dll_split[OF l] vs by auto
  have at: "block_of (Some w) ns = Some (?d w)" if "w \<in> set ?F" for w
    using dll_alloc[OF l that] by (auto simp: block_of_def dat_def)
  have adj: "block_is_adjacent (?d x) (?d z) bs = Some (touches ns bs x z)" if x: "x \<in> set ?F" and z: "z \<in> set ?F" for x z
  proof -
    obtain X Z where "bs (?d x) = Some X" "bs (?d z) = Some Z" using live[OF x] live[OF z] by auto
    then show ?thesis using live[OF x] live[OF z] by (simp add: block_is_adjacent_def touches_def)
  qed
  have null: "block_of None ns = Some 0" by (simp add: block_of_def)
  have no_prev: "block_is_adjacent 0 (?d a) bs = Some False" by (simp add: block_is_adjacent_def)
  have prev: "coalesce a (?d a) (ns, bs) = merge_prev a (?d a) t (?d t) (ns, bs)" if "us = us' @ [t]" "touches ns bs t a" for us' t
    using a at adj that vs by (simp add: coalesce_def)
  have not_prev: "coalesce a (?d a) (ns, bs) =
      (if touches ns bs a v then merge_next a (?d a) v (?d v) (ns, bs) else Some (ns, bs))"
    if "\<And>us' t. us = us' @ [t] \<Longrightarrow> \<not> touches ns bs t a"
  proof (cases us rule: rev_cases)
    case Nil
    then show ?thesis using a at adj vs no_prev null by (simp add: coalesce_def)
  next
    case (snoc us' t)
    then show ?thesis using a at adj vs that by (simp add: coalesce_def)
  qed
  show ?thesis
  proof (cases "\<exists>us' t. us = us' @ [t] \<and> touches ns bs t a")
    case True
    then obtain us' t where t: "us = us' @ [t]" "touches ns bs t a" by blast
    have F: "?F = us' @ t # a # v # vs'" using t vs by simp
    obtain T A where TA: "bs (?d t) = Some T" "bs (?d a) = Some A" using live[of t] live[of a] t by auto
    define bs' where "bs' = bs(?d a \<mapsto> \<lparr>blk_size = blk_size A + blk_size T, blk_data = blk_data T\<rparr>, ?d t \<mapsto> \<lparr>blk_size = 0, blk_data = 0\<rparr>)"
    have ne: "?d t \<noteq> ?d a" by (rule inj) (simp add: t)
    have "coalesce a (?d a) (ns, bs) = Some (bypass t a v (?d a) ns, bs')"
      unfolding prev[OF t] bs'_def by (rule merge_prev_bypass[OF l[unfolded F] TA ne]) (use live t in simp)
    moreover have new: "bs' (?d a) = Some \<lparr>blk_size = blk_size (blk bs (?d t)) + blk_size (blk bs (?d a)), blk_data = blk_data (blk bs (?d t))\<rparr>"
      using ne TA by (simp add: bs'_def add.commute)
    moreover have old: "bs' w = bs w" if "w \<noteq> ?d t" "w \<noteq> ?d a" for w using that by (simp add: bs'_def)
    note absorb_repr[where bs' = bs' and e = "?d a", OF repr[unfolded F] disjI2[OF refl] t(2)[unfolded touches_def] new old, folded F]
    ultimately show ?thesis by blast
  next
    case no: False
    show ?thesis
    proof (cases "touches ns bs a v")
      case True
      then obtain w vs'' where vs': "vs' = w # vs''" using safe vs by (cases vs') (auto simp: merge_safe_def)
      have F: "?F = us @ a # v # w # vs''" using vs vs' by simp
      obtain A V where AV: "bs (?d a) = Some A" "bs (?d v) = Some V" using live[of a] live[of v] vs by auto
      define bs' where "bs' = bs(?d a \<mapsto> \<lparr>blk_size = blk_size A + blk_size V, blk_data = blk_data A\<rparr>, ?d v \<mapsto> \<lparr>blk_size = 0, blk_data = 0\<rparr>)"
      have ne: "?d a \<noteq> ?d v" using inj[of v] vs by auto
      have "coalesce a (?d a) (ns, bs) = Some (bypass a v w (?d a) ns, bs')"
        using not_prev no True merge_next_bypass[OF l[unfolded F] AV ne] live[of v] vs by (simp add: bs'_def)
      moreover have new: "bs' (?d a) = Some \<lparr>blk_size = blk_size (blk bs (?d a)) + blk_size (blk bs (?d v)), blk_data = blk_data (blk bs (?d a))\<rparr>"
        using ne AV by (simp add: bs'_def)
      moreover have old: "bs' x = bs x" if "x \<noteq> ?d a" "x \<noteq> ?d v" for x using that by (simp add: bs'_def)
      note absorb_repr[where bs' = bs' and e = "?d a", OF repr[unfolded F] disjI1[OF refl] True[unfolded touches_def] new old, folded F]
      ultimately show ?thesis by blast
    next
      case False
      then have "coalesce a (?d a) (ns, bs) = Some (ns, bs)" using not_prev no by simp
      then show ?thesis using repr by blast
    qed
  qed
qed

section \<open>Freeing\<close>

lemma gap_safe:
  assumes repr: "heap_repr (h, ns, bs) (us @ a # vs) U S" and p: "blk_data (blk bs (dat ns a)) = p" "blk_size (blk bs (dat ns a)) = n"
    and gap: "unat p + unat n \<le> x" "x < y" "x \<notin> free_bytes (dat ns) bs (set us \<union> set vs)" "y \<in> free_bytes (dat ns) bs (set us \<union> set vs)"
  shows "merge_safe ns bs a vs"
proof -
  let ?d = "dat ns"
  have ok: "blocks_ok (hp_align h) ?d bs (set (us @ a # vs)) (set U) (set S)" and dist: "distinct (us @ a # vs)"
    and srt: "blk_order.sorted_by bs True ns (us @ a # vs)" using repr by (simp_all add: heap_repr_def dll_def)
  obtain w where w: "w \<in> set us \<union> set vs" "y \<in> bytes_of (blk bs (?d w))" using gap(4) by (auto simp: free_bytes_def)
  have wb: "block_ok (hp_align h) (blk bs (?d w))" "block_ok (hp_align h) (blk bs (?d a))" using blocks_okD(8)[OF ok] w(1) by auto
  have "w \<notin> set us"
  proof
    assume us: "w \<in> set us"
    then have le: "blk_data (blk bs (?d w)) \<le> p"
      using srt p(1) by (auto simp: blk_order.sorted_by_append blk_order.sorted_by_Cons in_order_def key_by_def dat_def)
    have "bytes_of (blk bs (?d w)) \<inter> bytes_of (blk bs (?d a)) = {}"
      by (rule apartD[OF blocks_okD(9)[OF ok]]) (use us dist in auto)
    moreover have "unat p \<in> bytes_of (blk bs (?d a))" using block_bytes_nonempty[OF wb(2)] p(1) by simp
    ultimately have "unat p \<notin> bytes_of (blk bs (?d w))" by blast
    then have "y < unat p" using w(2) le by (auto simp: bytes_of_def word_le_nat_alt)
    then show False using gap(1,2) by simp
  qed
  then have wv: "w \<in> set vs" using w(1) by blast
  have "vs' \<noteq> []" if v: "vs = v # vs'" "touches ns bs a v" for v vs'
  proof
    assume "vs' = []"
    then have w_eq: "w = v" using v wv by simp
    have "unat (p + n) = unat p + unat n" using wb(2) p by (simp add: block_ok_def unat_add_small)
    then have "unat (blk_data (blk bs (?d w))) = unat p + unat n" using v(2) p w_eq by (simp add: touches_def)
    then have "x \<in> bytes_of (blk bs (?d w))" using gap(1,2) w(2) by (simp add: bytes_of_def)
    then show False using gap(3) w(1) by (auto simp: free_bytes_def)
  qed
  then show ?thesis using wv by (cases vs) (auto simp: merge_safe_def)
qed

lemma aligned_iff: "ptr_is_aligned p al \<longleftrightarrow> unat al dvd unat p"
  using unat_mod_distrib[of p al] unat_eq_zero[of "p mod al"] by (simp add: ptr_is_aligned_def dvd_eq_mod_eq_0)

text \<open>
  C9. \<open>heap_free\<close> of a pointer in use succeeds, takes it out of use, adds exactly its bytes to the free ones
  and keeps the heap well-formed, whichever neighbour it is merged with, as long as a byte in use lies between
  it and the last free byte.
\<close>

theorem heap_free_sound:
  assumes "heap_ok (h, ns, bs) M Fr" "M p = Some n"
    and "coalescePolicy h \<longrightarrow> (\<exists>x y. unat p + unat n \<le> x \<and> x < y \<and> x \<notin> Fr \<and> y \<in> Fr)"
  shows "\<exists>st'. heap_free p (h, ns, bs) = Some (True, st') \<and> heap_ok st' (M(p := None)) (Fr \<union> {unat p..<unat p + unat n})"
proof -
  obtain F U S where repr: "heap_repr (h, ns, bs) F U S" and um: "used_map (dat ns) bs (set U) M"
    and Fr: "Fr = free_bytes (dat ns) bs (set F)" using assms(1) unfolding heap_ok_def prod.case by blast
  let ?d = "dat ns"
  obtain a used' free' ns1 ns2 F' U' where found: "block_find_and_remove (hp_used h) p (ns, bs) = Some (Some (a, ?d a), used', ns1)"
    and a: "blk_data (blk bs (?d a)) = p" "blk_size (blk bs (?d a)) = n"
    and ins: "list_insert (Some (hp_free h)) (Some a) (block_compare_ptr bs) True ns1 = Some (Some a, ns2, Some free')"
    and repr1: "heap_repr (h\<lparr>hp_used := used', hp_free := free', bytesUsed := bytesUsed h - n, bytesFree := bytesFree h + n\<rparr>, ns2, bs) F' U' S"
    and d2: "dat ns2 = ?d" and F': "a \<notin> set F" "set F' = insert a (set F)" and um1: "used_map ?d bs (set U') (M(p := None))"
    using release[OF repr um assms(2)] by (elim exE conjE) (rule that)
  let ?h = "h\<lparr>hp_used := used', hp_free := free', bytesUsed := bytesUsed h - n, bytesFree := bytesFree h + n\<rparr>"
  have ok: "blocks_ok (hp_align ?h) ?d bs (set F') (set U') (set S)" using repr1 by (simp add: heap_repr_def d2)
  have blk: "block_ok (hp_align h) (blk bs (?d a))" using blocks_okD(8)[OF ok, of a] F'(2) by simp
  have raw: "hp_raw h \<noteq> 0" using repr by (simp add: heap_repr_def heap_wf_def)
  obtain b where b: "bs (?d a) = Some b" using blocks_okD(1)[OF ok, of a] F'(2) by auto
  have step: "heap_free p (h, ns, bs) = do {
      (ns3, bs1) \<leftarrow> (if coalescePolicy h then coalesce a (?d a) (ns2, bs) else Some (ns2, bs));
      Some (True, ?h, ns3, bs1) }"
    using blk a raw found ins b by (simp add: heap_free_def block_ok_def aligned_iff)
  have bytes: "free_bytes ?d bs (set F') = Fr \<union> {unat p..<unat p + unat n}"
    using a by (auto simp: F'(2) Fr free_bytes_insert bytes_of_def)
  show ?thesis
  proof (cases "coalescePolicy h")
    case False
    then show ?thesis using step heap_okI[OF repr1, of "M(p := None)"] um1 bytes unfolding d2 by simp
  next
    case True
    then obtain x y where gap: "unat p + unat n \<le> x" "x < y" "x \<notin> Fr" "y \<in> Fr" using assms(3) by blast
    obtain us vs where F'_eq: "F' = us @ a # vs" using F'(2) by (metis insertI1 split_list)
    have "distinct F'" using repr1 by (simp add: heap_repr_def dll_def)
    then have "set us \<union> set vs = set F" using F' F'_eq by auto
    then have "merge_safe ns2 bs a vs"
      by (intro gap_safe[OF repr1[unfolded F'_eq], of p n x y]) (use a gap Fr in \<open>simp_all add: d2\<close>)
    from coalesce_repr[OF repr1[unfolded F'_eq] this, folded F'_eq, unfolded d2] obtain ns3 bs1 F2 where
      c: "coalesce a (?d a) (ns2, bs) = Some (ns3, bs1)" "heap_repr (?h, ns3, bs1) F2 U' S"
      "free_bytes (dat ns3) bs1 (set F2) = free_bytes ?d bs (set F')" "used_map (dat ns3) bs1 (set U') = used_map ?d bs (set U')" by blast
    then show ?thesis using step True heap_okI[OF c(2), of "M(p := None)"] um1 bytes by simp
  qed
qed

text \<open>A pointer that is not in use, freed twice for instance, is refused without any effect.\<close>

theorem heap_free_refuses:
  assumes "heap_ok (h, ns, bs) M Fr" "M p = None"
  shows "heap_free p (h, ns, bs) = Some (False, h, ns, bs)"
proof -
  obtain F U S where repr: "heap_repr (h, ns, bs) F U S" and um: "used_map (dat ns) bs (set U) M"
    using assms(1) unfolding heap_ok_def prod.case by blast
  have ok: "blocks_ok (hp_align h) (dat ns) bs (set F) (set U) (set S)" using repr by (simp add: heap_repr_def)
  have live: "\<forall>a\<in>set U. bs (dat ns a) \<noteq> None \<and> dat ns a \<noteq> STACK_BLOCK \<and> a \<noteq> STACK_NODE" using blocks_okD(1)[OF ok] by blast
  have "block_find_and_remove (hp_used h) p (ns, bs) = Some (None, hp_used h, ns)"
    using find_used[OF _ live _ um, of "hp_used h" p] assms(2) repr by (simp add: heap_repr_def)
  then show ?thesis by (simp add: heap_free_def)
qed

end
