(* ===== verification/Sosal_HeapInit.thy ===== *)
theory Sosal_HeapInit
  imports Sosal_HeapFree
begin

text \<open>
  The initialisation of the allocator establishes the invariant, examples, and two defects: the round-up of a
  request that wraps around, and the merge at the end of the free list.
\<close>

section \<open>The size of the bookkeeping\<close>

text \<open>\<open>k\<close> elements fit with the alignment of the data.\<close>

definition elems_fit :: "u32 \<Rightarrow> heap_t \<Rightarrow> bool" where
  "elems_fit k h \<longleftrightarrow> unat k * (20 + unat (hp_align h)) \<le> unat (bytesTotal h) \<and> unat (bytesTotal h) < 2 ^ 31 \<and>
     unat (hp_raw h) + unat (bytesTotal h) < size_max \<and> unat (hp_align h) \<noteq> 0"

definition laid_out :: "u32 \<Rightarrow> heap_t \<Rightarrow> heap_t \<Rightarrow> bool" where
  "laid_out k h h' \<longleftrightarrow> (\<exists>data. h' = h\<lparr>hp_blocks := hp_raw h, hp_nodes := unat (hp_raw h + k * block_bytes), hp_data := data,
       bytesUsed := 0, bytesFree := k * hp_align h, maxBlocks := k\<rparr> \<and>
     unat (hp_align h) dvd unat data \<and> unat (hp_raw h) + unat k * 20 \<le> unat data \<and>
     unat data + unat k * unat (hp_align h) \<le> unat (hp_raw h) + unat (bytesTotal h))"

lemma elems_fit_values:
  assumes "elems_fit k h"
  shows "unat (k * bookkeeping) = unat k * 20" "unat (k * hp_align h) = unat k * unat (hp_align h)"
    "unat (bytesTotal h - k * hp_align h - k * bookkeeping) = unat (bytesTotal h) - unat k * (20 + unat (hp_align h))"
    "unat (hp_raw h + k * bookkeeping) = unat (hp_raw h) + unat k * 20"
    "bytesTotal h - k * hp_align h - k * bookkeeping + k * hp_align h + k * bookkeeping = bytesTotal h"
    "unat (bytesTotal h + k * hp_align h + k * bookkeeping) = unat (bytesTotal h) + unat k * (20 + unat (hp_align h))"
proof -
  have le: "unat k * 20 + unat k * unat (hp_align h) \<le> unat (bytesTotal h)" and lt: "unat (bytesTotal h) < 2 ^ 31"
    using assms by (simp_all add: elems_fit_def add_mult_distrib2)
  show b: "unat (k * bookkeeping) = unat k * 20" using le lt unat_mult_small[of k bookkeeping] by simp
  show a: "unat (k * hp_align h) = unat k * unat (hp_align h)" using le lt by (intro unat_mult_small) simp
  have "k * hp_align h \<le> bytesTotal h" using a le by (simp add: word_le_nat_alt)
  then have s1: "unat (bytesTotal h - k * hp_align h) = unat (bytesTotal h) - unat k * unat (hp_align h)" by (simp add: unat_sub a)
  then have "k * bookkeeping \<le> bytesTotal h - k * hp_align h" using b le by (simp add: word_le_nat_alt)
  then have "unat (bytesTotal h - k * hp_align h - k * bookkeeping) = unat (bytesTotal h - k * hp_align h) - unat (k * bookkeeping)"
    by (rule unat_sub)
  then show "unat (bytesTotal h - k * hp_align h - k * bookkeeping) = unat (bytesTotal h) - unat k * (20 + unat (hp_align h))"
    unfolding s1 b by (simp add: add_mult_distrib2)
  have "unat (hp_raw h) + unat (k * bookkeeping) < 2 ^ 32" using b le assms by (simp add: elems_fit_def)
  then show "unat (hp_raw h + k * bookkeeping) = unat (hp_raw h) + unat k * 20" using b by (simp add: unat_add_small)
  show "bytesTotal h - k * hp_align h - k * bookkeeping + k * hp_align h + k * bookkeeping = bytesTotal h" by simp
  have c: "unat (bytesTotal h + k * hp_align h) = unat (bytesTotal h) + unat k * unat (hp_align h)"
    using a le lt by (simp add: unat_add_small)
  have "unat (bytesTotal h + k * hp_align h) + unat (k * bookkeeping) < 2 ^ 32" unfolding c b using le lt by simp
  then show "unat (bytesTotal h + k * hp_align h + k * bookkeeping) = unat (bytesTotal h) + unat k * (20 + unat (hp_align h))"
    by (simp add: unat_add_small c b add_mult_distrib2)
qed

lemma align_up:
  assumes "unat al \<noteq> 0" "\<not> ptr_is_aligned p al" "unat p + unat (al - p mod al) < size_max"
  shows "unat al dvd unat (p + (al - p mod al))" "unat (p + (al - p mod al)) = unat p + unat (al - p mod al)"
    "unat (al - p mod al) \<le> unat al"
proof -
  have r: "unat (p mod al) = unat p mod unat al" by (rule unat_mod_distrib)
  have lt: "unat p mod unat al < unat al" using assms(1) by simp
  then have s: "unat (al - p mod al) = unat al - unat p mod unat al" using r by (simp add: unat_sub word_le_nat_alt)
  show sum: "unat (p + (al - p mod al)) = unat p + unat (al - p mod al)" using assms(3) by (simp add: unat_add_small)
  have "unat p + (unat al - unat p mod unat al) = unat al * (unat p div unat al) + unat al"
    using lt mult_div_mod_eq[of "unat al" "unat p"] by linarith
  then show "unat al dvd unat (p + (al - p mod al))" unfolding sum s by simp
  show "unat (al - p mod al) \<le> unat al" unfolding s by simp
qed

abbreviation elem_pad :: "u32 \<Rightarrow> heap_t \<Rightarrow> u32" where
  "elem_pad k h \<equiv> bytesTotal h - k * hp_align h - k * bookkeeping"

abbreviation elem_off :: "u32 \<Rightarrow> heap_t \<Rightarrow> u32" where
  "elem_off k h \<equiv> hp_align h - (hp_raw h + k * bookkeeping) mod hp_align h"

definition lay :: "u32 \<Rightarrow> heap_t \<Rightarrow> heap_t" where
  "lay k h = h\<lparr>hp_blocks := hp_raw h, hp_nodes := unat (hp_raw h + k * block_bytes), hp_data := hp_raw h + k * bookkeeping,
     bytesUsed := 0, bytesFree := k * hp_align h, maxBlocks := k\<rparr>"

lemma lay_fields [simp]:
  "hp_align (lay k h) = hp_align h" "hp_raw (lay k h) = hp_raw h" "bytesTotal (lay k h) = bytesTotal h"
  "hp_data (lay k h) = hp_raw h + k * bookkeeping" "lay j (lay k h) = lay j h" "elems_fit j (lay k h) = elems_fit j h"
  "laid_out j (lay k h) h' = laid_out j h h'"
  by (simp_all add: lay_def elems_fit_def laid_out_def)

lemma overhead_step:
  assumes "elems_fit k h" "k \<noteq> 0"
  shows "overhead_loop (Suc fuel) k h =
    (if ptr_is_aligned (hp_raw h + k * bookkeeping) (hp_align h) then Some (True, lay k h)
     else if elem_pad k h < elem_off k h then overhead_loop fuel (k - 1) (lay k h)
     else Some (True, (lay k h)\<lparr>hp_data := hp_raw h + k * bookkeeping + elem_off k h\<rparr>))"
proof -
  note v = elems_fit_values[OF assms(1)]
  have "0 < unat k * (20 + unat (hp_align h))" using assms(2) by (simp add: unat_gt_0)
  then have "bytesTotal h < bytesTotal h + k * hp_align h + k * bookkeeping" using v(6) by (simp add: word_less_nat_alt)
  then show ?thesis by (simp add: Let_def v(5) lay_def[symmetric])
qed

lemma overhead_fits:
  assumes fit: "elems_fit k h" and k: "k \<noteq> 0" and pad: "ptr_is_aligned (hp_raw h + k * bookkeeping) (hp_align h) \<or> elem_off k h \<le> elem_pad k h"
  shows "\<exists>h'. overhead_loop (Suc fuel) k h = Some (True, h') \<and> laid_out k h h'"
proof -
  note v = elems_fit_values[OF fit]
  have room: "unat (hp_raw h) + unat k * 20 + unat k * unat (hp_align h) + unat (elem_pad k h) = unat (hp_raw h) + unat (bytesTotal h)"
    using fit v(3) by (simp add: elems_fit_def add_mult_distrib2)
  show ?thesis
  proof (cases "ptr_is_aligned (hp_raw h + k * bookkeeping) (hp_align h)")
    case True
    then have "laid_out k h (lay k h)" unfolding laid_out_def
      by (intro exI[of _ "hp_raw h + k * bookkeeping"]) (use v(4) room in \<open>simp add: lay_def aligned_iff\<close>)
    then show ?thesis using True overhead_step[OF fit k] by simp
  next
    case False
    then have le: "unat (elem_off k h) \<le> unat (elem_pad k h)" using pad by (simp add: word_le_nat_alt)
    have "unat (hp_raw h + k * bookkeeping) + unat (elem_off k h) < size_max"
      using le room v(4) fit by (simp add: elems_fit_def)
    note up = align_up[OF _ False this]
    have al: "unat (hp_align h) \<noteq> 0" using fit by (simp add: elems_fit_def)
    have "laid_out k h ((lay k h)\<lparr>hp_data := hp_raw h + k * bookkeeping + elem_off k h\<rparr>)" unfolding laid_out_def
      by (intro exI[of _ "hp_raw h + k * bookkeeping + elem_off k h"]) (use up(1,2)[OF al] v(4) room le in \<open>simp add: lay_def\<close>)
    moreover have "\<not> elem_pad k h < elem_off k h" using le by (simp add: word_less_nat_alt)
    ultimately show ?thesis using False overhead_step[OF fit k] by simp
  qed
qed

lemma calc_overhead_ok:
  assumes fit: "elems_fit k h" and k: "2 \<le> unat k"
  shows "\<exists>h' j. heap_calc_overhead k h = Some (True, h') \<and> laid_out j h h' \<and> (j = k \<or> j = k - 1)"
proof -
  have nz: "k \<noteq> 0" "k - 1 \<noteq> 0" and k1: "unat (k - 1) = unat k - 1" using k by (auto simp: unat_sub word_le_nat_alt)
  have calc: "heap_calc_overhead k h = overhead_loop (Suc (unat k)) k h" by (simp only: heap_calc_overhead_def nz if_False)
  obtain fuel where fuel: "unat k = Suc fuel" using k by (cases "unat k") auto
  show ?thesis
  proof (cases "ptr_is_aligned (hp_raw h + k * bookkeeping) (hp_align h) \<or> elem_off k h \<le> elem_pad k h")
    case True
    then show ?thesis using overhead_fits[OF fit nz(1) True, of "unat k"] calc by auto
  next
    case False
    have "unat (k - 1) * (20 + unat (hp_align h)) \<le> unat k * (20 + unat (hp_align h))" unfolding k1 by (rule mult_le_mono1) simp
    from le_trans[OF this] have fit1: "elems_fit (k - 1) h" using fit unfolding elems_fit_def by blast
    have "unat (elem_pad (k - 1) h) = unat (elem_pad k h) + 20 + unat (hp_align h)"
      using fit k unfolding elems_fit_values(3)[OF fit] elems_fit_values(3)[OF fit1] k1
      by (cases "unat k") (simp_all add: elems_fit_def)
    moreover have "unat (elem_off (k - 1) h) \<le> unat (hp_align h)"
      using fit mod_less_divisor[of "unat (hp_align h)" "unat (hp_raw h + (k - 1) * bookkeeping)"]
        unat_mod_distrib[of "hp_raw h + (k - 1) * bookkeeping" "hp_align h"]
      by (simp add: elems_fit_def unat_sub word_le_nat_alt)
    ultimately have "elem_off (k - 1) h \<le> elem_pad (k - 1) h" by (simp add: word_le_nat_alt)
    then obtain h' where h': "overhead_loop (Suc fuel) (k - 1) (lay k h) = Some (True, h')" "laid_out (k - 1) h h'"
      using overhead_fits[of "k - 1" "lay k h" fuel] fit1 nz(2) by auto
    have "overhead_loop (Suc (Suc fuel)) k h = overhead_loop (Suc fuel) (k - 1) (lay k h)"
      using False overhead_step[OF fit nz(1), of "Suc fuel"] by (simp add: not_le)
    then have "heap_calc_overhead k h = Some (True, h')" using h'(1) calc fuel by simp
    then show ?thesis using h'(2) by blast
  qed
qed

section \<open>The spare list\<close>

text \<open>The nodes \<open>f 0, ..., f (m - 1)\<close> linked in a row.\<close>

definition row_node :: "(nat \<Rightarrow> nat) \<Rightarrow> (nat \<Rightarrow> u32) \<Rightarrow> nat \<Rightarrow> nat \<Rightarrow> node_t" where
  "row_node f g m i = \<lparr>n_next = (if Suc i < m then Some (f (Suc i)) else None),
     n_prev = (if 0 < i then Some (f (i - 1)) else None), n_data = g i\<rparr>"

lemma seg_row:
  assumes "\<And>i. i < m \<Longrightarrow> ns (f i) = Some (row_node f g m i)" "j \<le> m"
  shows "seg ns (if 0 < j then Some (f (j - 1)) else None) (map f [j..<m]) None"
  using assms(2)
proof (induction j rule: inc_induct)
  case (step j)
  have "fopt (map f [Suc j..<m]) None = (if Suc j < m then Some (f (Suc j)) else None)"
    using step.hyps by (simp add: upt_conv_Cons)
  then show ?case using step assms(1)[of j] by (simp add: upt_conv_Cons row_node_def)
qed simp

lemma dll_row:
  assumes "\<And>i. i < m \<Longrightarrow> ns (f i) = Some (row_node f g m i)" "inj_on f {..<m}" "0 < m"
  shows "dll ns \<lparr>l_head = Some (f 0), l_tail = Some (f (m - 1))\<rparr> (map f [0..<m])"
proof -
  have "seg ns None (map f [0..<m]) None" using seg_row[where ns = ns and f = f and g = g and m = m and j = 0, OF assms(1)] by simp
  moreover have "distinct (map f [0..<m])" using assms(2) by (simp add: distinct_map atLeast0LessThan)
  moreover have "[0..<m] = 0 # [1..<m]" using upt_conv_Cons[OF assms(3)] by simp
  then have "fopt (map f [0..<m]) None = Some (f 0)" by simp
  moreover have "lopt None (map f [0..<m]) = Some (f (m - 1))" using assms(3) by (simp add: lopt_def last_map)
  ultimately show ?thesis unfolding dll_def by simp
qed

definition node_at_index :: "heap_t \<Rightarrow> nat \<Rightarrow> nat" where "node_at_index h i = hp_nodes h + 12 * i"
definition block_at_index :: "heap_t \<Rightarrow> nat \<Rightarrow> u32" where "block_at_index h i = hp_blocks h + of_nat i * block_bytes"

definition spare_upto :: "heap_t \<Rightarrow> nodes \<Rightarrow> nat \<Rightarrow> heap_state \<Rightarrow> bool" where
  "spare_upto h ns0 i st \<longleftrightarrow> (case st of (h', ns, bs) \<Rightarrow>
     let m = unat (maxBlocks h) in
     (\<exists>sp. h' = h\<lparr>hp_spare := sp\<rparr> \<and> (0 < i \<longrightarrow> l_head sp = Some (node_at_index h 0)) \<and>
        (i = m \<longrightarrow> l_tail sp = Some (node_at_index h (m - 1)))) \<and>
     (\<forall>j<i. ns (node_at_index h j) = Some (row_node (node_at_index h) (block_at_index h) m j) \<and> bs (block_at_index h j) \<noteq> None) \<and>
     (\<forall>a. a < hp_nodes h \<longrightarrow> ns a = ns0 a))"

lemma index_addr:
  assumes "unat (hp_raw h) + 20 * unat (maxBlocks h) < size_max" "hp_blocks h = hp_raw h" "i < unat (maxBlocks h)"
  shows "node_addr h (of_nat i) = node_at_index h i" "block_addr h (of_nat i) = block_at_index h i"
    "unat (of_nat i :: u32) = i" "unat (block_at_index h i) = unat (hp_raw h) + 8 * i"
proof -
  have i: "12 * i < 2 ^ 32" "i < size_max" "unat (hp_raw h) + 8 * i < 2 ^ 32" using assms by simp_all
  show u: "unat (of_nat i :: u32) = i" by (rule unat_of_nat_u32[OF i(2)])
  have "unat (of_nat i * node_bytes) = i * 12" using i u unat_mult_small[of "of_nat i :: u32" node_bytes] by simp
  then show "node_addr h (of_nat i) = node_at_index h i" by (simp add: node_addr_def node_at_index_def)
  show "block_addr h (of_nat i) = block_at_index h i" by (simp add: block_addr_def block_at_index_def)
  have "unat (of_nat i * block_bytes) = i * 8" using i u unat_mult_small[of "of_nat i :: u32" block_bytes] by simp
  then show "unat (block_at_index h i) = unat (hp_raw h) + 8 * i"
    using i(3) unat_add_small[of "hp_raw h" "of_nat i * block_bytes"] assms(2) by (simp add: block_at_index_def)
qed

lemma init_spare_step:
  assumes inv: "spare_upto h ns0 i st" and i: "i < unat (maxBlocks h)"
    and room: "unat (hp_raw h) + 20 * unat (maxBlocks h) < size_max" "hp_blocks h = hp_raw h"
  shows "\<exists>st'. init_spare (of_nat i) st = Some st' \<and> spare_upto h ns0 (Suc i) st'"
proof -
  obtain h' ns bs where st: "st = (h', ns, bs)" by (cases st)
  let ?m = "unat (maxBlocks h)" and ?f = "node_at_index h" and ?g = "block_at_index h"
  obtain sp where h': "h' = h\<lparr>hp_spare := sp\<rparr>" and sp: "0 < i \<longrightarrow> l_head sp = Some (?f 0)"
    and row: "\<forall>j<i. ns (?f j) = Some (row_node ?f ?g ?m j) \<and> bs (?g j) \<noteq> None" and rest: "\<forall>a. a < hp_nodes h \<longrightarrow> ns a = ns0 a"
    using inv unfolding st spare_upto_def Let_def by auto
  have na: "node_addr h' (of_nat j) = ?f j" "block_addr h' (of_nat j) = ?g j" if "j < ?m" for j
    using index_addr(1,2)[OF room that] h' by (simp_all add: node_addr_def block_addr_def)
  have u: "unat (of_nat i :: u32) = i" by (rule index_addr(3)[OF room i])
  have pos: "(0 < (of_nat i :: u32)) = (0 < i)" using u by (simp add: word_less_nat_alt)
  have m1: "unat (maxBlocks h - 1) = ?m - 1" using i by (simp add: unat_sub word_le_nat_alt)
  have lst: "((of_nat i :: u32) < maxBlocks h' - 1) = (Suc i < ?m)" using u m1 i h' by (simp add: word_less_nat_alt) linarith
  have prv: "node_addr h' (of_nat i - 1) = ?f (i - 1)" if "0 < i" using that na(1)[of "i - 1"] i by simp
  have nxt: "node_addr h' (of_nat i + 1) = ?f (Suc i)" if "Suc i < ?m" using that na(1)[of "Suc i"] by (simp add: add.commute)
  define sp' where "sp' = (let s1 = (if 0 < i then sp else sp\<lparr>l_head := Some (?f i)\<rparr>) in if Suc i < ?m then s1 else s1\<lparr>l_tail := Some (?f i)\<rparr>)"
  have eq: "init_spare (of_nat i) st = Some (h\<lparr>hp_spare := sp'\<rparr>, ns(?f i \<mapsto> row_node ?f ?g ?m i), bs(?g i \<mapsto> \<lparr>blk_size = 0, blk_data = 0\<rparr>))"
    unfolding st init_spare_def prod.case Let_def pos lst na[OF i]
    using prv nxt h' by (cases "i = 0") (simp_all add: row_node_def sp'_def Let_def)
  have inj: "?f j \<noteq> ?f i" if "j < i" for j using that by (simp add: node_at_index_def)
  have hd: "l_head sp' = Some (?f 0)" using sp by (cases "i = 0") (simp_all add: sp'_def Let_def)
  have tl: "l_tail sp' = Some (?f (?m - 1))" if "Suc i = ?m" using that[symmetric] by (simp add: sp'_def Let_def)
  have "hp_nodes h \<le> ?f i" by (simp add: node_at_index_def)
  then have "spare_upto h ns0 (Suc i) (h\<lparr>hp_spare := sp'\<rparr>, ns(?f i \<mapsto> row_node ?f ?g ?m i), bs(?g i \<mapsto> \<lparr>blk_size = 0, blk_data = 0\<rparr>))"
    unfolding spare_upto_def prod.case Let_def
    using row rest hd tl inj by (intro conjI exI[of _ sp']) (auto simp: less_Suc_eq)
  then show ?thesis using eq by blast
qed

lemma spare_row:
  assumes "unat (hp_raw h) + 20 * unat (maxBlocks h) < size_max" "hp_blocks h = hp_raw h" "hp_raw h \<noteq> 0" "maxBlocks h \<noteq> 0"
    and "hp_nodes h = unat (hp_raw h + maxBlocks h * block_bytes)" "ns STACK_NODE = None"
  defines "F \<equiv> map (node_at_index h) [0..<unat (maxBlocks h)]"
  shows "\<exists>sp ns' bs'. for_range 0 (unat (maxBlocks h)) init_spare (h, ns, bs) = Some (h\<lparr>hp_spare := sp\<rparr>, ns', bs') \<and>
    dll ns' sp F \<and> ns' STACK_NODE = None \<and>
    (\<forall>a\<in>set F. bs' (dat ns' a) \<noteq> None \<and> dat ns' a \<noteq> 0 \<and> dat ns' a \<noteq> STACK_BLOCK \<and> a \<noteq> STACK_NODE) \<and> inj_on (dat ns') (set F)"
proof -
  let ?m = "unat (maxBlocks h)" and ?f = "node_at_index h" and ?g = "block_at_index h"
  have m: "0 < ?m" using assms(4) by (simp add: unat_gt_0)
  have "spare_upto h ns 0 (h, ns, bs)" using m by (auto simp: spare_upto_def Let_def intro!: exI[of _ "hp_spare h"])
  then obtain st where st: "for_range 0 ?m init_spare (h, ns, bs) = Some st" "spare_upto h ns ?m st"
    using for_range_inv[of "spare_upto h ns" 0 "(h, ns, bs)" ?m init_spare] init_spare_step[OF _ _ assms(1,2)] by auto
  obtain h' ns' bs' where st_eq: "st = (h', ns', bs')" by (cases st)
  obtain sp where h': "h' = h\<lparr>hp_spare := sp\<rparr>" and sp: "l_head sp = Some (?f 0)" "l_tail sp = Some (?f (?m - 1))"
    and row: "\<And>j. j < ?m \<Longrightarrow> ns' (?f j) = Some (row_node ?f ?g ?m j)" "\<And>j. j < ?m \<Longrightarrow> bs' (?g j) \<noteq> None"
    and rest: "\<And>a. a < hp_nodes h \<Longrightarrow> ns' a = ns a"
    using st(2) m unfolding st_eq spare_upto_def Let_def by auto
  have inj: "inj_on ?f {..<?m}" by (auto simp: inj_on_def node_at_index_def)
  have "sp = \<lparr>l_head = Some (?f 0), l_tail = Some (?f (?m - 1))\<rparr>" using sp by simp
  then have "dll ns' sp F" using dll_row[where ns = ns' and f = ?f and g = ?g and m = ?m, OF row(1) inj m] by (simp add: F_def)
  moreover have nodes_pos: "0 < hp_nodes h"
  proof -
    have "unat (maxBlocks h * block_bytes) = ?m * 8" using assms(1) unat_mult_small[of "maxBlocks h" block_bytes] by simp
    then have "hp_nodes h = unat (hp_raw h) + ?m * 8" using assms(1,5) unat_add_small[of "hp_raw h" "maxBlocks h * block_bytes"] by simp
    then show ?thesis using m by simp
  qed
  moreover have "ns' STACK_NODE = None" using rest[of STACK_NODE] nodes_pos assms(6) by (simp add: STACK_NODE_def)
  moreover have d: "dat ns' (?f j) = ?g j" if "j < ?m" for j using row(1)[OF that] by (simp add: dat_def row_node_def)
  have val: "unat (?g j) = unat (hp_raw h) + 8 * j" if "j < ?m" for j by (rule index_addr(4)[OF assms(1,2) that])
  have "bs' (dat ns' (?f j)) \<noteq> None \<and> dat ns' (?f j) \<noteq> 0 \<and> dat ns' (?f j) \<noteq> STACK_BLOCK \<and> ?f j \<noteq> STACK_NODE" if j: "j < ?m" for j
  proof -
    have "0 < unat (?g j)" "unat (?g j) < size_max - 1" using val[OF j] assms(1,3) j by (simp_all add: unat_gt_0)
    then have "?g j \<noteq> 0" "?g j \<noteq> STACK_BLOCK" by (auto simp: STACK_BLOCK_def)
    then show ?thesis using d[OF j] row(2)[OF j] nodes_pos by (simp add: STACK_NODE_def node_at_index_def)
  qed
  moreover have "inj_on (dat ns') (set F)"
  proof (rule inj_onI)
    fix a b assume "a \<in> set F" "b \<in> set F" and eq: "dat ns' a = dat ns' b"
    then obtain i j where ij: "a = ?f i" "i < ?m" "b = ?f j" "j < ?m" by (auto simp: F_def)
    then have "unat (?g i) = unat (?g j)" using eq d by simp
    then show "a = b" using val ij by simp
  qed
  ultimately show ?thesis using st(1) unfolding st_eq h' by (intro exI[of _ sp] exI[of _ ns'] exI[of _ bs']) (auto simp: F_def)
qed

section \<open>Initialisation\<close>

definition clamp_align :: "u32 \<Rightarrow> u32" where
  "clamp_align p = (let p1 = (if p > 12 then 12 else p) in if p1 < 5 then 5 else p1)"

lemma clamp_cases: "unat (clamp_align p) \<in> {5..12}"
  by (auto simp: clamp_align_def Let_def word_less_nat_alt word_le_nat_alt)

lemma align_power: "unat (push_bit (unat (clamp_align p)) 1 :: u32) = 2 ^ unat (clamp_align p)"
proof -
  have "unat (clamp_align p) \<in> {5, 6, 7, 8, 9, 10, 11, 12}" using clamp_cases[of p] by auto
  then show ?thesis by auto
qed

lemma heap_init_repr:
  assumes buf: "buffer \<noteq> 0" "ptr_is_aligned buffer 4" and sz: "unat sz < 2 ^ 31" "unat buffer + unat sz < size_max"
    and num: "2 \<le> unat num" "unat num * (20 + 2 ^ unat (clamp_align p)) \<le> unat sz" and stack: "ns STACK_NODE = None"
  shows "\<exists>h ns' bs' a S. heap_init num buffer sz p (ns, bs) = Some (True, h, ns', bs') \<and> heap_repr (h, ns', bs') [a] [] S \<and>
    Suc (length S) = unat (maxBlocks h) \<and> maxBlocks h \<in> {num, num - 1} \<and> unat (hp_align h) = 2 ^ unat (clamp_align p) \<and>
    hp_raw h = buffer \<and> bytesTotal h = sz \<and> bytesUsed h = 0 \<and> unat (bytesFree h) = unat (maxBlocks h) * unat (hp_align h) \<and>
    unat buffer + unat (maxBlocks h) * 20 \<le> unat (hp_data h) \<and> unat (hp_data h) + unat (bytesFree h) \<le> unat buffer + unat sz \<and>
    bs' (dat ns' a) = Some \<lparr>blk_size = bytesFree h, blk_data = hp_data h\<rparr>"
proof -
  define h0 where "h0 = empty_heap buffer sz (clamp_align p)"
  have f0: "hp_align h0 = push_bit (unat (clamp_align p)) 1" "bytesTotal h0 = sz" "hp_raw h0 = buffer"
    by (simp_all add: h0_def empty_heap_def Let_def)
  have al: "unat (hp_align h0) = 2 ^ unat (clamp_align p)" unfolding f0(1) by (rule align_power)
  have "elems_fit num h0" using sz num al by (simp add: elems_fit_def f0(2,3))
  from calc_overhead_ok[OF this num(1)] obtain h1 k where calc: "heap_calc_overhead num h0 = Some (True, h1)"
    and lay: "laid_out k h0 h1" and k: "k = num \<or> k = num - 1" by blast
  obtain data where h1: "h1 = h0\<lparr>hp_blocks := hp_raw h0, hp_nodes := unat (hp_raw h0 + k * block_bytes), hp_data := data,
       bytesUsed := 0, bytesFree := k * hp_align h0, maxBlocks := k\<rparr>"
    and data: "unat (hp_align h0) dvd unat data" "unat buffer + unat k * 20 \<le> unat data"
      "unat data + unat k * unat (hp_align h0) \<le> unat buffer + unat sz"
    using lay unfolding laid_out_def f0(2,3) by blast
  have k_pos: "0 < unat k" using k num(1) by (auto simp: unat_sub word_le_nat_alt)
  have "unat k * unat (hp_align h0) < size_max" using data(3) sz(2) by linarith
  then have free: "unat (k * hp_align h0) = unat k * unat (hp_align h0)" by (intro unat_mult_small) simp
  have room: "unat (hp_raw h1) + 20 * unat (maxBlocks h1) < size_max" "hp_blocks h1 = hp_raw h1" "hp_raw h1 \<noteq> 0" "maxBlocks h1 \<noteq> 0"
    "hp_nodes h1 = unat (hp_raw h1 + maxBlocks h1 * block_bytes)"
    using data(2,3) sz(2) buf(1) k_pos h1 f0(3) by (auto simp: unat_eq_zero)
  let ?f = "node_at_index h1" and ?m = "unat (maxBlocks h1)"
  obtain sp ns1 bs1 where loop: "for_range 0 ?m init_spare (h1, ns, bs) = Some (h1\<lparr>hp_spare := sp\<rparr>, ns1, bs1)"
    and row: "dll ns1 sp (map ?f [0..<?m])" "ns1 STACK_NODE = None" "inj_on (dat ns1) (set (map ?f [0..<?m]))"
    and live: "\<forall>a\<in>set (map ?f [0..<?m]). bs1 (dat ns1 a) \<noteq> None \<and> dat ns1 a \<noteq> 0 \<and> dat ns1 a \<noteq> STACK_BLOCK \<and> a \<noteq> STACK_NODE"
    using spare_row[where h = h1 and ns = ns and bs = bs, OF room stack] by (elim exE conjE) (rule that)
  have m: "?m = unat k" using h1 by simp
  obtain S where S: "map ?f [0..<?m] = ?f 0 # S" "Suc (length S) = ?m"
    using upt_conv_Cons[of 0 ?m] k_pos m by (metis length_map length_upt list.simps(9) length_Cons minus_nat.diff_0)
  let ?a = "?f 0"
  obtain ns2 sp2 where pop: "list_pop (Some sp) ns1 = Some (Some ?a, ns2, Some sp2)" "dll ns2 sp2 S" "ns2 ?a \<noteq> None"
    "frame (insert ?a (set S)) ns1 ns2" using list_pop_dll[OF row(1)[unfolded S]] by auto
  have free0: "hp_free h1 = \<lparr>l_head = None, l_tail = None\<rparr>" "hp_used h1 = \<lparr>l_head = None, l_tail = None\<rparr>"
    by (simp_all add: h1 h0_def empty_heap_def Let_def)
  then have "dll ns2 (hp_free h1) []" by (simp add: dll_empty)
  from list_push_dll[OF this, of ?a] pop(3) obtain ns3 free where push:
    "list_push (Some (hp_free h1)) (Some ?a) ns2 = Some (ns3, Some free)" "dll ns3 free [?a]" "frame {?a} ns2 ns3" by auto
  have d: "dat ns2 = dat ns1" "dat ns3 = dat ns1" using frame_dat_fun[OF pop(4)] frame_dat_fun[OF push(3)] by simp_all
  define bs2 where "bs2 = bs1(dat ns1 ?a \<mapsto> \<lparr>blk_size = bytesFree h1, blk_data = hp_data h1\<rparr>)"
  define h2 where "h2 = h1\<lparr>hp_spare := sp2, hp_free := free\<rparr>"
  obtain n where n: "ns2 ?a = Some n" "n_data n = dat ns1 ?a" using pop(3) d(1) by (metis dat_def option.exhaust_sel)
  obtain b0 where b0: "bs1 (dat ns1 ?a) = Some b0" using live S(1) by (metis list.set_intros(1) not_None_eq)
  have clamp: "clamp_align p = (if (if p > 12 then 12 else p) < 5 then 5 else if p > 12 then 12 else p)" by (simp add: clamp_align_def)
  have eq: "heap_init num buffer sz p (ns, bs) = Some (True, h2, ns3, bs2)"
    using buf calc loop pop(1) push(1) n b0 unfolding heap_init_def prod.case Let_def clamp[symmetric] h0_def[symmetric]
    by (simp add: h2_def bs2_def)
  have h2: "hp_align h2 = hp_align h0" "hp_raw h2 = buffer" "bytesTotal h2 = sz" "bytesUsed h2 = 0" "bytesFree h2 = k * hp_align h0"
    "maxBlocks h2 = k" "hp_data h2 = data" "bytesFree h1 = k * hp_align h0" "hp_data h1 = data" "hp_free h2 = free" "hp_used h2 = hp_used h1" "hp_spare h2 = sp2"
    by (simp_all add: h2_def h1 f0)
  have setS: "set (map ?f [0..<?m]) = insert ?a (set S)" using S(1) by simp
  have dist: "?a \<notin> set S" using row(1) unfolding S(1) by (simp add: dll_def)
  have other: "bs2 (dat ns1 b) = bs1 (dat ns1 b)" if "b \<in> set S" for b
    using that dist inj_onD[OF row(3)[unfolded setS], of b ?a] by (auto simp: bs2_def)
  have blk_a: "bs2 (dat ns1 ?a) = Some \<lparr>blk_size = k * hp_align h0, blk_data = data\<rparr>" by (simp add: bs2_def h2)
  have "unat (k * hp_align h0) \<noteq> 0" using free k_pos al by simp
  moreover have "0 < unat data" using data(2) k_pos by simp
  moreover have "unat data + unat (k * hp_align h0) < size_max" using data(3) free sz(2) by simp
  ultimately have ok_a: "block_ok (hp_align h0) (blk bs2 (dat ns1 ?a))"
    using data(1) free by (auto simp: blk_a block_ok_def)
  have ok: "blocks_ok (hp_align h2) (dat ns3) bs2 (set [?a]) (set []) (set S)"
    unfolding blocks_ok_def d h2(1)
    using live[unfolded setS] row(3)[unfolded setS] ok_a other blk_a dist by (auto simp: apart_def)
  have "STACK_NODE \<notin> insert ?a (set S)" using live[unfolded setS] by blast
  then have "ns3 STACK_NODE = None" using row(2) pop(4) push(3) by (simp add: frame_def)
  moreover have "dll ns3 sp2 S" by (rule dll_frame[OF pop(2) push(3)]) (use dist in simp)
  moreover have "dll ns3 (hp_used h1) []" using free0(2) by (simp add: dll_empty)
  ultimately have "linked ns3 bs2 (hp_free h2, hp_used h2, hp_spare h2) [?a] [] S"
    using push(2) by (simp add: linked_def h2)
  moreover have "sum_sizes (dat ns3) bs2 (set [?a]) = unat (bytesFree h2)" "sum_sizes (dat ns3) bs2 (set []) = unat (bytesUsed h2)"
    by (simp_all add: sum_sizes_def d blk_a h2)
  moreover have "heap_wf h2" using al buf(1) unat_u32_less[of "bytesFree h2"] by (simp add: heap_wf_def h2)
  ultimately have "heap_repr (h2, ns3, bs2) [?a] [] S" unfolding heap_repr_alt using ok by blast
  then show ?thesis
    using eq S(2) k al free data(2,3) blk_a d(2)
    by (intro exI[of _ h2] exI[of _ ns3] exI[of _ bs2] exI[of _ ?a] exI[of _ S]) (simp add: h2 m)
qed

text \<open>
  \<open>heap_init\<close> on a word-aligned buffer in which the estimated number of elements fits, two at least, returns
  true and a well-formed heap with nothing in use, whose free bytes lie behind the bookkeeping and inside the
  buffer.
\<close>

theorem heap_init_sound:
  assumes "buffer \<noteq> 0" "ptr_is_aligned buffer 4" "unat sz < 2 ^ 31" "unat buffer + unat sz < size_max"
    and "2 \<le> unat num" "unat num * (20 + 2 ^ unat (clamp_align p)) \<le> unat sz" "ns STACK_NODE = None"
  shows "\<exists>h ns' bs' Fr. heap_init num buffer sz p (ns, bs) = Some (True, h, ns', bs') \<and> heap_ok (h, ns', bs') Map.empty Fr \<and>
    card Fr = unat (maxBlocks h) * 2 ^ unat (clamp_align p) \<and> maxBlocks h \<in> {num, num - 1} \<and>
    Fr \<subseteq> {unat buffer + unat (maxBlocks h) * 20..<unat buffer + unat sz}"
proof -
  obtain h ns' bs' a S where eq: "heap_init num buffer sz p (ns, bs) = Some (True, h, ns', bs')" and repr: "heap_repr (h, ns', bs') [a] [] S"
    and k: "maxBlocks h \<in> {num, num - 1}" and al: "unat (hp_align h) = 2 ^ unat (clamp_align p)"
    and free: "unat (bytesFree h) = unat (maxBlocks h) * unat (hp_align h)"
    and data: "unat buffer + unat (maxBlocks h) * 20 \<le> unat (hp_data h)" "unat (hp_data h) + unat (bytesFree h) \<le> unat buffer + unat sz"
    and a: "bs' (dat ns' a) = Some \<lparr>blk_size = bytesFree h, blk_data = hp_data h\<rparr>"
    using heap_init_repr[where ns = ns and bs = bs, OF assms] by (elim exE conjE) (rule that)
  let ?Fr = "{unat (hp_data h)..<unat (hp_data h) + unat (bytesFree h)}"
  have "free_bytes (dat ns') bs' (set [a]) = ?Fr" by (simp add: free_bytes_def bytes_of_def a)
  then have "heap_ok (h, ns', bs') Map.empty ?Fr" using heap_okI[OF repr, of Map.empty] by (simp add: used_map_def)
  moreover have "card ?Fr = unat (maxBlocks h) * 2 ^ unat (clamp_align p)" using free al by simp
  moreover have "?Fr \<subseteq> {unat buffer + unat (maxBlocks h) * 20..<unat buffer + unat sz}" using data by auto
  ultimately show ?thesis using eq k by blast
qed

section \<open>Examples\<close>

text \<open>Blocks of 32, 32 and 64 bytes, the last one free, and a spare descriptor.\<close>

definition ex_heap :: heap_t where
  "ex_heap = \<lparr>hp_raw = 16, hp_used = \<lparr>l_head = Some 100, l_tail = Some 112\<rparr>, hp_free = \<lparr>l_head = Some 124, l_tail = Some 124\<rparr>,
     hp_spare = \<lparr>l_head = Some 136, l_tail = Some 136\<rparr>, hp_blocks = 16, hp_nodes = 100, hp_data = 256, maxBlocks = 4,
     hp_align = 32, bytesUsed = 64, bytesFree = 64, bytesTotal = 1024, cleanPolicy = True, coalescePolicy = True\<rparr>"

definition ex_heap_nodes :: nodes where
  "ex_heap_nodes = [100 \<mapsto> \<lparr>n_next = Some 112, n_prev = None, n_data = 16\<rparr>, 112 \<mapsto> \<lparr>n_next = None, n_prev = Some 100, n_data = 24\<rparr>,
     124 \<mapsto> \<lparr>n_next = None, n_prev = None, n_data = 32\<rparr>, 136 \<mapsto> \<lparr>n_next = None, n_prev = None, n_data = 40\<rparr>]"

definition ex_heap_blocks :: blocks where
  "ex_heap_blocks = [16 \<mapsto> \<lparr>blk_size = 32, blk_data = 256\<rparr>, 24 \<mapsto> \<lparr>blk_size = 32, blk_data = 288\<rparr>,
     32 \<mapsto> \<lparr>blk_size = 64, blk_data = 320\<rparr>, 40 \<mapsto> \<lparr>blk_size = 0, blk_data = 0\<rparr>]"

lemma ex_heap_dat: "dat ex_heap_nodes 100 = 16" "dat ex_heap_nodes 112 = 24" "dat ex_heap_nodes 124 = 32" "dat ex_heap_nodes 136 = 40"
  by (simp_all add: dat_def ex_heap_nodes_def)

lemma ex_heap_blk: "ex_heap_blocks 16 = Some \<lparr>blk_size = 32, blk_data = 256\<rparr>" "ex_heap_blocks 24 = Some \<lparr>blk_size = 32, blk_data = 288\<rparr>"
  "ex_heap_blocks 32 = Some \<lparr>blk_size = 64, blk_data = 320\<rparr>" "ex_heap_blocks 40 = Some \<lparr>blk_size = 0, blk_data = 0\<rparr>"
  by (simp_all add: ex_heap_blocks_def)

lemma ex_heap_repr: "heap_repr (ex_heap, ex_heap_nodes, ex_heap_blocks) [124] [100, 112] [136]"
proof -
  have "linked ex_heap_nodes ex_heap_blocks (hp_free ex_heap, hp_used ex_heap, hp_spare ex_heap) [124] [100, 112] [136]"
    by (simp add: linked_def ex_heap_def ex_heap_nodes_def STACK_NODE_def dll_def blk_order.sorted_by_Cons in_order_def key_by_def ex_heap_blk)
  moreover have "blocks_ok 32 (dat ex_heap_nodes) ex_heap_blocks {124} {100, 112} {136}"
    by (simp add: blocks_ok_def ex_heap_dat ex_heap_blk STACK_BLOCK_def STACK_NODE_def block_ok_def apart_insert apart_def bytes_of_def)
  ultimately show ?thesis
    unfolding heap_repr_alt by (simp add: ex_heap_def heap_wf_def sum_sizes_def ex_heap_dat ex_heap_blk)
qed

lemma ex_heap_ok: "heap_ok (ex_heap, ex_heap_nodes, ex_heap_blocks) [256 \<mapsto> 32, 288 \<mapsto> 32] {320..<384}"
proof -
  have "used_map (dat ex_heap_nodes) ex_heap_blocks (set [100, 112]) [256 \<mapsto> 32, 288 \<mapsto> 32]"
    by (auto simp: used_map_def ex_heap_dat ex_heap_blk)
  from heap_okI[OF ex_heap_repr this] show ?thesis by (simp add: free_bytes_def ex_heap_dat ex_heap_blk bytes_of_def)
qed

theorem heap_init_sound_witness:
  "\<exists>h ns bs Fr. heap_init 39 4096 2048 5 (Map.empty, Map.empty) = Some (True, h, ns, bs) \<and> heap_ok (h, ns, bs) Map.empty Fr"
  using heap_init_sound[of 4096 2048 39 5 Map.empty Map.empty] by (auto simp: ptr_is_aligned_def clamp_align_def)

theorem heap_alloc_sound_witness:
  "\<exists>p st'. heap_alloc 10 (ex_heap, ex_heap_nodes, ex_heap_blocks) = Some (p, st') \<and>
     (p = 0 \<or> {unat p..<unat p + 32} \<subseteq> {320..<384})"
proof -
  have "(10 :: u32) \<noteq> 0" "unat (10 :: u32) + unat (hp_align ex_heap) \<le> size_max" "block_size (hp_align ex_heap) 10 = 32"
    by (simp_all add: ex_heap_def block_size_def)
  then show ?thesis using heap_alloc_sound[OF ex_heap_ok, of 10] by (auto split: if_splits)
qed

theorem heap_alloc_fails_iff_witness: "\<exists>p st'. heap_alloc 10 (ex_heap, ex_heap_nodes, ex_heap_blocks) = Some (p, st') \<and> p \<noteq> 0"
proof -
  have "(10 :: u32) \<noteq> 0" "unat (10 :: u32) + unat (hp_align ex_heap) \<le> size_max" "block_size (hp_align ex_heap) 10 = 32"
    by (simp_all add: ex_heap_def block_size_def)
  then show ?thesis using heap_alloc_fails_iff[OF ex_heap_repr, of 10] by (auto simp: no_room_def fits_def ex_heap_dat ex_heap_blk)
qed

theorem heap_free_sound_witness:
  "\<exists>st'. heap_free 256 (ex_heap, ex_heap_nodes, ex_heap_blocks) = Some (True, st') \<and>
     heap_ok st' [288 \<mapsto> 32] ({320..<384} \<union> {256..<288})"
proof -
  have "\<exists>x y. unat (256 :: u32) + unat (32 :: u32) \<le> x \<and> x < y \<and> x \<notin> {320..<384} \<and> y \<in> {320..<(384 :: nat)}"
    by (intro exI[of _ 288] exI[of _ 320]) simp
  then show ?thesis using heap_free_sound[OF ex_heap_ok, of 256 32] by (simp add: fun_upd_twist)
qed

theorem heap_free_refuses_witness:
  "heap_free 320 (ex_heap, ex_heap_nodes, ex_heap_blocks) = Some (False, ex_heap, ex_heap_nodes, ex_heap_blocks)"
  by (rule heap_free_refuses[OF ex_heap_ok]) simp

section \<open>Two defects\<close>

text \<open>A fresh heap of 64 bytes with one spare descriptor.\<close>

definition ex_fresh_heap :: heap_t where
  "ex_fresh_heap = \<lparr>hp_raw = 16, hp_used = \<lparr>l_head = None, l_tail = None\<rparr>, hp_free = \<lparr>l_head = Some 100, l_tail = Some 100\<rparr>,
     hp_spare = \<lparr>l_head = Some 112, l_tail = Some 112\<rparr>, hp_blocks = 16, hp_nodes = 100, hp_data = 256, maxBlocks = 2,
     hp_align = 32, bytesUsed = 0, bytesFree = 64, bytesTotal = 1024, cleanPolicy = True, coalescePolicy = True\<rparr>"

definition ex_fresh_nodes :: nodes where
  "ex_fresh_nodes = [100 \<mapsto> \<lparr>n_next = None, n_prev = None, n_data = 16\<rparr>, 112 \<mapsto> \<lparr>n_next = None, n_prev = None, n_data = 24\<rparr>]"

definition ex_fresh_blocks :: blocks where
  "ex_fresh_blocks = [16 \<mapsto> \<lparr>blk_size = 64, blk_data = 256\<rparr>, 24 \<mapsto> \<lparr>blk_size = 0, blk_data = 0\<rparr>]"

definition ex_wrapped_heap :: heap_t where
  "ex_wrapped_heap = ex_fresh_heap\<lparr>hp_used := \<lparr>l_head = Some 100, l_tail = Some 100\<rparr>,
     hp_free := \<lparr>l_head = Some 112, l_tail = Some 112\<rparr>, hp_spare := \<lparr>l_head = None, l_tail = None\<rparr>\<rparr>"

definition ex_wrapped_blocks :: blocks where
  "ex_wrapped_blocks = [16 \<mapsto> \<lparr>blk_size = 0, blk_data = 256\<rparr>, 24 \<mapsto> \<lparr>blk_size = 64, blk_data = 256\<rparr>]"

lemmas heap_eval = block_bestfit_and_remove_def list_score_def with_search_def node_at_def get_next_def get_prev_def set_next_def
  set_prev_def block_rate_bestfit_def list_extract_def list_pop_def list_trim_def list_insert_def list_push_def fracture_def STACK_NODE_def
  STACK_BLOCK_def block_compare_ptr_def

lemma ex_wrap_first:
  "heap_alloc 0xFFFFFFF0 (ex_fresh_heap, ex_fresh_nodes, ex_fresh_blocks) =
     Some (256, ex_wrapped_heap, ex_fresh_nodes, ex_wrapped_blocks)"
proof -
  have size: "block_size 32 0xFFFFFFF0 = 0" by (simp add: block_size_def)
  have fit: "block_bestfit_and_remove (hp_free ex_fresh_heap) 0 (ex_fresh_nodes, ex_fresh_blocks) =
      Some (Some (100, 16), \<lparr>l_head = None, l_tail = None\<rparr>, ex_fresh_nodes)"
    by (simp add: heap_eval ex_fresh_heap_def, subst score_loop.simps)
      (auto simp: heap_eval ex_fresh_nodes_def ex_fresh_blocks_def score_loop.simps[of _ _ None] fun_eq_iff)
  have fr: "fracture 100 16 0 (ex_fresh_heap\<lparr>hp_free := \<lparr>l_head = None, l_tail = None\<rparr>\<rparr>, ex_fresh_nodes, ex_fresh_blocks) =
      Some (True, ex_wrapped_heap\<lparr>hp_used := \<lparr>l_head = None, l_tail = None\<rparr>\<rparr>, ex_fresh_nodes, ex_wrapped_blocks)"
    by (auto simp: heap_eval ex_fresh_heap_def ex_fresh_nodes_def ex_fresh_blocks_def ex_wrapped_heap_def ex_wrapped_blocks_def fun_eq_iff)
  have ins: "list_insert (Some \<lparr>l_head = None, l_tail = None\<rparr>) (Some 100) (block_compare_ptr ex_wrapped_blocks) True ex_fresh_nodes =
      Some (Some 100, ex_fresh_nodes, Some \<lparr>l_head = Some 100, l_tail = Some 100\<rparr>)"
    by (auto simp: heap_eval ex_fresh_nodes_def fun_eq_iff)
  have "ex_fresh_blocks 16 = Some \<lparr>blk_size = 64, blk_data = 256\<rparr>" "ex_wrapped_blocks 16 = Some \<lparr>blk_size = 0, blk_data = 256\<rparr>"
    by (simp_all add: ex_fresh_blocks_def ex_wrapped_blocks_def)
  then show ?thesis using size fit fr ins by (simp add: heap_alloc_def ex_fresh_heap_def ex_wrapped_heap_def)
qed

lemma ex_wrap_second: "\<exists>st. heap_alloc 64 (ex_wrapped_heap, ex_fresh_nodes, ex_wrapped_blocks) = Some (256, st)"
proof -
  have size: "block_size 32 64 = 64" by (simp add: block_size_def)
  have fit: "block_bestfit_and_remove (hp_free ex_wrapped_heap) 64 (ex_fresh_nodes, ex_wrapped_blocks) =
      Some (Some (112, 24), \<lparr>l_head = None, l_tail = None\<rparr>, ex_fresh_nodes)"
    by (simp add: heap_eval ex_wrapped_heap_def ex_fresh_heap_def, subst score_loop.simps)
      (auto simp: heap_eval ex_fresh_nodes_def ex_wrapped_blocks_def score_loop.simps[of _ _ None] fun_eq_iff)
  have ins: "\<exists>ns l. list_insert (Some (hp_used ex_wrapped_heap)) (Some 112) (block_compare_ptr ex_wrapped_blocks) True ex_fresh_nodes =
      Some (Some 112, ns, Some l)"
    by (simp add: list_insert_def ex_wrapped_heap_def ex_fresh_heap_def, subst insert_loop.simps)
      (simp add: heap_eval link_after_def ex_fresh_nodes_def ex_wrapped_blocks_def)
  have "ex_wrapped_blocks 24 = Some \<lparr>blk_size = 64, blk_data = 256\<rparr>" by (simp add: ex_wrapped_blocks_def)
  then show ?thesis using size fit ins by (auto simp: heap_alloc_def ex_fresh_heap_def ex_wrapped_heap_def)
qed

text \<open>
  A request of almost \<open>2\<^sup>3\<^sup>2\<close> bytes is rounded up to 0: \<open>heap_alloc\<close> answers it with a pointer to a
  block of no bytes and hands the same pointer out again to the next request.
\<close>

theorem heap_alloc_wraps:
  "\<exists>st1 st2. heap_alloc 0xFFFFFFF0 (ex_fresh_heap, ex_fresh_nodes, ex_fresh_blocks) = Some (256, st1) \<and>
     heap_alloc 64 st1 = Some (256, st2)"
  using ex_wrap_first ex_wrap_second by blast

text \<open>Two free blocks of 32 bytes, with a block in use after each of them, the last two blocks adjacent.\<close>

definition ex_tail_heap :: heap_t where
  "ex_tail_heap = \<lparr>hp_raw = 16, hp_used = \<lparr>l_head = Some 136, l_tail = Some 136\<rparr>, hp_free = \<lparr>l_head = Some 100, l_tail = Some 124\<rparr>,
     hp_spare = \<lparr>l_head = None, l_tail = None\<rparr>, hp_blocks = 16, hp_nodes = 100, hp_data = 256, maxBlocks = 3,
     hp_align = 32, bytesUsed = 32, bytesFree = 64, bytesTotal = 1024, cleanPolicy = True, coalescePolicy = True\<rparr>"

definition ex_tail_nodes :: nodes where
  "ex_tail_nodes = [100 \<mapsto> \<lparr>n_next = Some 124, n_prev = None, n_data = 16\<rparr>, 124 \<mapsto> \<lparr>n_next = None, n_prev = Some 100, n_data = 24\<rparr>,
     136 \<mapsto> \<lparr>n_next = None, n_prev = None, n_data = 32\<rparr>]"

definition ex_tail_blocks :: blocks where
  "ex_tail_blocks = [16 \<mapsto> \<lparr>blk_size = 32, blk_data = 256\<rparr>, 24 \<mapsto> \<lparr>blk_size = 32, blk_data = 320\<rparr>,
     32 \<mapsto> \<lparr>blk_size = 32, blk_data = 352\<rparr>]"

lemma ex_tail_dat: "dat ex_tail_nodes 100 = 16" "dat ex_tail_nodes 124 = 24" "dat ex_tail_nodes 136 = 32"
  by (simp_all add: dat_def ex_tail_nodes_def)

lemma ex_tail_blk: "ex_tail_blocks 16 = Some \<lparr>blk_size = 32, blk_data = 256\<rparr>" "ex_tail_blocks 24 = Some \<lparr>blk_size = 32, blk_data = 320\<rparr>"
  "ex_tail_blocks 32 = Some \<lparr>blk_size = 32, blk_data = 352\<rparr>"
  by (simp_all add: ex_tail_blocks_def)

lemma ex_tail_repr: "heap_repr (ex_tail_heap, ex_tail_nodes, ex_tail_blocks) [100, 124] [136] []"
proof -
  have "linked ex_tail_nodes ex_tail_blocks (hp_free ex_tail_heap, hp_used ex_tail_heap, hp_spare ex_tail_heap) [100, 124] [136] []"
    by (simp add: linked_def ex_tail_heap_def ex_tail_nodes_def STACK_NODE_def dll_def blk_order.sorted_by_Cons in_order_def key_by_def ex_tail_blk)
  moreover have "blocks_ok 32 (dat ex_tail_nodes) ex_tail_blocks {100, 124} {136} {}"
    by (simp add: blocks_ok_def ex_tail_dat ex_tail_blk STACK_BLOCK_def STACK_NODE_def block_ok_def apart_insert apart_def bytes_of_def)
  ultimately show ?thesis
    unfolding heap_repr_alt by (simp add: ex_tail_heap_def heap_wf_def sum_sizes_def ex_tail_dat ex_tail_blk)
qed

lemma ex_tail_ok: "heap_ok (ex_tail_heap, ex_tail_nodes, ex_tail_blocks) [352 \<mapsto> 32] ({256..<288} \<union> {320..<352})"
proof -
  have "used_map (dat ex_tail_nodes) ex_tail_blocks (set [136]) [352 \<mapsto> 32]"
    by (auto simp: used_map_def ex_tail_dat ex_tail_blk)
  from heap_okI[OF ex_tail_repr this] show ?thesis by (simp add: free_bytes_def ex_tail_dat ex_tail_blk bytes_of_def)
qed

definition ex_cut_heap :: heap_t where
  "ex_cut_heap = ex_tail_heap\<lparr>hp_used := \<lparr>l_head = None, l_tail = None\<rparr>, hp_free := \<lparr>l_head = Some 100, l_tail = Some 136\<rparr>,
     bytesUsed := 0, bytesFree := 96\<rparr>"

definition ex_cut_nodes :: nodes where
  "ex_cut_nodes = [100 \<mapsto> \<lparr>n_next = Some 124, n_prev = None, n_data = 16\<rparr>, 124 \<mapsto> \<lparr>n_next = None, n_prev = Some 100, n_data = 32\<rparr>,
     136 \<mapsto> \<lparr>n_next = None, n_prev = None, n_data = 0\<rparr>]"

definition ex_cut_blocks :: blocks where
  "ex_cut_blocks = [16 \<mapsto> \<lparr>blk_size = 32, blk_data = 256\<rparr>, 24 \<mapsto> \<lparr>blk_size = 0, blk_data = 0\<rparr>,
     32 \<mapsto> \<lparr>blk_size = 64, blk_data = 320\<rparr>]"

lemma ex_tail_free:
  "heap_free 352 (ex_tail_heap, ex_tail_nodes, ex_tail_blocks) = Some (True, ex_cut_heap, ex_cut_nodes, ex_cut_blocks)"
proof -
  have found: "block_find_and_remove \<lparr>l_head = Some 136, l_tail = Some 136\<rparr> 352 (ex_tail_nodes, ex_tail_blocks) =
      Some (Some (136, 32), \<lparr>l_head = None, l_tail = None\<rparr>, ex_tail_nodes)"
    by (simp add: block_find_and_remove_def list_remove_match_def list_search_def heap_eval, subst search_loop.simps)
      (auto simp: heap_eval ex_tail_nodes_def ex_tail_blocks_def fun_eq_iff)
  define linked where "linked = ex_tail_nodes(136 \<mapsto> \<lparr>n_next = None, n_prev = Some 124, n_data = 32\<rparr>, 124 \<mapsto> \<lparr>n_next = Some 136, n_prev = Some 100, n_data = 24\<rparr>)"
  have ins: "list_insert (Some \<lparr>l_head = Some 100, l_tail = Some 124\<rparr>) (Some 136) (block_compare_ptr ex_tail_blocks) True ex_tail_nodes =
      Some (Some 136, linked, Some \<lparr>l_head = Some 100, l_tail = Some 136\<rparr>)"
    by (simp add: list_insert_def, subst insert_loop.simps, simp add: heap_eval ex_tail_nodes_def ex_tail_blocks_def, subst insert_loop.simps)
      (auto simp: heap_eval link_after_def linked_def ex_tail_nodes_def fun_eq_iff)
  have merge: "coalesce 136 32 (linked, ex_tail_blocks) = Some (ex_cut_nodes, ex_cut_blocks)"
    by (auto simp: coalesce_def block_of_def block_is_adjacent_def merge_prev_def block_clear_def node_clear_def linked_def ex_tail_nodes_def
        ex_tail_blocks_def ex_cut_nodes_def ex_cut_blocks_def fun_eq_iff)
  show ?thesis
    using found ins merge ex_tail_blk(3) by (simp add: heap_free_def ptr_is_aligned_def ex_tail_heap_def ex_cut_heap_def)
qed

lemma ex_cut_alloc:
  "\<exists>ns. heap_alloc 64 (ex_cut_heap, ex_cut_nodes, ex_cut_blocks) =
     Some (0, ex_cut_heap\<lparr>hp_free := \<lparr>l_head = None, l_tail = None\<rparr>\<rparr>, ns, ex_cut_blocks)"
proof -
  have size: "block_size 32 64 = 64" by (simp add: block_size_def)
  have "\<exists>ns. block_bestfit_and_remove \<lparr>l_head = Some 100, l_tail = Some 136\<rparr> 64 (ex_cut_nodes, ex_cut_blocks) =
      Some (Some (136, 0), \<lparr>l_head = None, l_tail = None\<rparr>, ns)"
    by (simp add: heap_eval, subst score_loop.simps, simp add: heap_eval ex_cut_nodes_def ex_cut_blocks_def, subst score_loop.simps)
      (simp add: heap_eval score_loop.simps[of _ _ None] ex_cut_nodes_def)
  then show ?thesis using size by (auto simp: heap_alloc_def ex_cut_heap_def ex_tail_heap_def)
qed

text \<open>
  On a well-formed heap, freeing a block that is merged into the last free block leaves the tail pointer of
  the free list at the cleared node. The next allocation that takes the last block follows it, fails although
  the block fits, and empties the free list: 96 bytes are counted as free and none can be allocated any more.
\<close>

theorem heap_free_loses_heap:
  "\<exists>st1 h ns bs. heap_ok (ex_tail_heap, ex_tail_nodes, ex_tail_blocks) [352 \<mapsto> 32] ({256..<288} \<union> {320..<352}) \<and>
     heap_free 352 (ex_tail_heap, ex_tail_nodes, ex_tail_blocks) = Some (True, st1) \<and>
     heap_alloc 64 st1 = Some (0, h, ns, bs) \<and> hp_free h = \<lparr>l_head = None, l_tail = None\<rparr> \<and> bytesFree h = 96"
proof -
  obtain ns where "heap_alloc 64 (ex_cut_heap, ex_cut_nodes, ex_cut_blocks) =
     Some (0, ex_cut_heap\<lparr>hp_free := \<lparr>l_head = None, l_tail = None\<rparr>\<rparr>, ns, ex_cut_blocks)" using ex_cut_alloc by blast
  then show ?thesis using ex_tail_ok ex_tail_free by (auto simp: ex_cut_heap_def)
qed

end
