(* ===== verification/Sosal_BTree.thy ===== *)
theory Sosal_BTree
  imports Sosal_ListSpec
begin

text \<open>
  The searchable list of \<open>source/sosal/btreelist.c\<close>: the nodes are in a doubly linked list and, through two further
  links, in a binary search tree that is rebuilt from the list after every change. The nodes are in an explicit
  heap, as in \<open>Sosal_List\<close>; the functions of the client that compare nodes see only what is behind the links.
\<close>

section \<open>Nodes and lists\<close>

record btreelistnode_t =
  bn_next :: "nat option"
  bn_prev :: "nat option"
  bn_left :: "nat option"
  bn_right :: "nat option"

type_synonym bnodes = "nat \<Rightarrow> btreelistnode_t option"

type_synonym btreelistnode_sort = "nat \<Rightarrow> nat \<Rightarrow> int"

type_synonym btreelistnode_compare = "nat \<Rightarrow> u32 \<Rightarrow> int"

text \<open>The array has a cell per node; the null pointers that \<open>calloc\<close> leaves are \<open>None\<close>.\<close>

record btreelist_t =
  bl_root :: "nat option"
  bl_head :: "nat option"
  bl_tail :: "nat option"
  bl_array :: "nat option list option"
  bl_count :: int

definition bset_next :: "nat \<Rightarrow> nat option \<Rightarrow> bnodes \<Rightarrow> bnodes option" where
  "bset_next a p h = map_option (\<lambda>n. h(a \<mapsto> n\<lparr>bn_next := p\<rparr>)) (h a)"

definition bset_prev :: "nat \<Rightarrow> nat option \<Rightarrow> bnodes \<Rightarrow> bnodes option" where
  "bset_prev a p h = map_option (\<lambda>n. h(a \<mapsto> n\<lparr>bn_prev := p\<rparr>)) (h a)"

definition bset_left :: "nat \<Rightarrow> nat option \<Rightarrow> bnodes \<Rightarrow> bnodes option" where
  "bset_left a p h = map_option (\<lambda>n. h(a \<mapsto> n\<lparr>bn_left := p\<rparr>)) (h a)"

definition bset_right :: "nat \<Rightarrow> nat option \<Rightarrow> bnodes \<Rightarrow> bnodes option" where
  "bset_right a p h = map_option (\<lambda>n. h(a \<mapsto> n\<lparr>bn_right := p\<rparr>)) (h a)"

text \<open>\<open>memset\<close> of a node with zero.\<close>

definition bclear :: "nat \<Rightarrow> bnodes \<Rightarrow> bnodes option" where
  "bclear a h = map_option (\<lambda>n. h(a \<mapsto> \<lparr>bn_next = None, bn_prev = None, bn_left = None, bn_right = None\<rparr>)) (h a)"

definition btreelist_create :: "bool \<Rightarrow> btreelist_t option" where
  "btreelist_create ok =
     (if ok then Some \<lparr>bl_root = None, bl_head = None, bl_tail = None, bl_array = None, bl_count = 0\<rparr> else None)"

section \<open>Rebuilding the tree\<close>

text \<open>The loop that writes the addresses of the list into the array; a store behind its end is a fault.\<close>

partial_function (option) fill_array :: "nat option \<Rightarrow> nat \<Rightarrow> nat option list \<Rightarrow> bnodes \<Rightarrow> nat option list option" where
  "fill_array node i arr h =
     (case node of
        None \<Rightarrow> Some arr
      | Some a \<Rightarrow>
          if i < length arr then do { n \<leftarrow> h a; fill_array (bn_next n) (i + 1) (arr[i := node]) h } else None)"

text \<open>\<open>ok\<close> tells whether \<open>calloc\<close> succeeds.\<close>

definition rebuild_array :: "bool \<Rightarrow> btreelist_t \<Rightarrow> bnodes \<Rightarrow> btreelist_t option" where
  "rebuild_array ok btl h =
     (if ok then do {
        arr \<leftarrow> fill_array (bl_head btl) 0 (replicate (nat (bl_count btl)) None) h;
        Some (btl\<lparr>bl_array := Some arr\<rparr>) }
      else Some (btl\<lparr>bl_array := None\<rparr>))"

text \<open>
  The counts are numbers of nodes in a 32-bit memory, below \<open>2^31\<close>, so that the \<open>int32_t\<close> arithmetic of the recursion is
  that of the integers. \<open>btl->array[center]\<close> for a node about to be written: null and out of range are faults.\<close>

definition array_node :: "btreelist_t \<Rightarrow> int \<Rightarrow> nat option" where
  "array_node btl center = do {
     arr \<leftarrow> bl_array btl;
     (if 0 \<le> center \<and> nat center < length arr then arr ! nat center else None) }"

function btreelist_rebtree ::
  "bool \<Rightarrow> btreelist_t \<Rightarrow> int \<Rightarrow> int \<Rightarrow> bnodes \<Rightarrow> (nat option \<times> bnodes \<times> btreelist_t) option" where
  "btreelist_rebtree ok btl center cnt h = do {
     btl1 \<leftarrow> (if cnt = bl_count btl then rebuild_array ok btl h else Some btl);
     (if center < 0 then Some (None, h, btl1)
      else if cnt > 0 then do {
        node \<leftarrow> array_node btl1 center;
        (if cnt = 1 then do {
           h1 \<leftarrow> bset_left node None h;
           h2 \<leftarrow> bset_right node None h1;
           Some (Some node, h2, btl1) }
         else if cnt = 2 then do {
           (l, h1, btl2) \<leftarrow> btreelist_rebtree ok btl1 (center - 1) 1 h;
           h2 \<leftarrow> bset_left node l h1;
           h3 \<leftarrow> bset_right node None h2;
           Some (Some node, h3, btl2) }
         else if cnt = 3 then do {
           (l, h1, btl2) \<leftarrow> btreelist_rebtree ok btl1 (center - 1) 1 h;
           h2 \<leftarrow> bset_left node l h1;
           (r, h3, btl3) \<leftarrow> btreelist_rebtree ok btl2 (center + 1) 1 h2;
           h4 \<leftarrow> bset_right node r h3;
           Some (Some node, h4, btl3) }
         else if cnt = 4 then do {
           (l, h1, btl2) \<leftarrow> btreelist_rebtree ok btl1 (center - 1) 2 h;
           h2 \<leftarrow> bset_left node l h1;
           (r, h3, btl3) \<leftarrow> btreelist_rebtree ok btl2 (center + 1) 1 h2;
           h4 \<leftarrow> bset_right node r h3;
           Some (Some node, h4, btl3) }
         else do {
           let ll = cnt div 2;
           let rl = (if cnt mod 2 = 1 then cnt div 2 else ll - 1);
           let lc = (if ll mod 2 = 1 then center - ll div 2 - 1 else center - ll div 2);
           let rc = center + rl div 2 + 1;
           (l, h1, btl2) \<leftarrow> btreelist_rebtree ok btl1 lc ll h;
           h2 \<leftarrow> bset_left node l h1;
           (r, h3, btl3) \<leftarrow> btreelist_rebtree ok btl2 rc rl h2;
           h4 \<leftarrow> bset_right node r h3;
           Some (Some node, h4, btl3) }) }
      else Some (None, h, btl1)) }"
  by pat_completeness auto
termination
  by (relation "measure (\<lambda>(_, _, _, cnt, _). nat cnt)") auto

declare btreelist_rebtree.simps [simp del]

section \<open>Adding\<close>

text \<open>The two link operations of \<open>btreelist_insert\<close>.\<close>

definition insert_next :: "btreelist_t \<Rightarrow> nat \<Rightarrow> nat \<Rightarrow> bnodes \<Rightarrow> (bnodes \<times> btreelist_t) option" where
  "insert_next btl node obj h = do {
     n \<leftarrow> h node;
     h1 \<leftarrow> bset_next obj (bn_next n) h;
     n1 \<leftarrow> h1 node;
     (h2, btl1) \<leftarrow> (case bn_next n1 of
         None \<Rightarrow> Some (h1, btl\<lparr>bl_tail := Some obj\<rparr>)
       | Some q \<Rightarrow> do { h2 \<leftarrow> bset_prev q (Some obj) h1; Some (h2, btl) });
     h3 \<leftarrow> bset_next node (Some obj) h2;
     h4 \<leftarrow> bset_prev obj (Some node) h3;
     Some (h4, btl1\<lparr>bl_count := bl_count btl1 + 1\<rparr>) }"

definition insert_prev :: "btreelist_t \<Rightarrow> nat \<Rightarrow> nat \<Rightarrow> bnodes \<Rightarrow> (bnodes \<times> btreelist_t) option" where
  "insert_prev btl node obj h = do {
     n \<leftarrow> h node;
     h1 \<leftarrow> bset_prev obj (bn_prev n) h;
     n1 \<leftarrow> h1 node;
     (h2, btl1) \<leftarrow> (case bn_prev n1 of
         None \<Rightarrow> Some (h1, btl\<lparr>bl_head := Some obj\<rparr>)
       | Some p \<Rightarrow> do { h2 \<leftarrow> bset_next p (Some obj) h1; Some (h2, btl) });
     h3 \<leftarrow> bset_prev node (Some obj) h2;
     h4 \<leftarrow> bset_next obj (Some node) h3;
     Some (h4, btl1\<lparr>bl_count := bl_count btl1 + 1\<rparr>) }"

partial_function (option) btreelist_insert ::
  "btreelistnode_sort \<Rightarrow> btreelist_t \<Rightarrow> nat option \<Rightarrow> nat \<Rightarrow> bnodes \<Rightarrow> (bnodes \<times> btreelist_t) option" where
  "btreelist_insert srt btl node obj h =
     (if bl_root btl = None \<and> bl_head btl = None \<and> bl_tail btl = None then do {
        h1 \<leftarrow> bclear obj h;
        Some (h1, btl\<lparr>bl_root := Some obj, bl_head := Some obj, bl_tail := Some obj, bl_count := 1\<rparr>) }
      else case node of
        None \<Rightarrow> Some (h, btl)
      | Some a \<Rightarrow>
          (let ret = srt a obj in
           if ret = 0 then Some (h, btl)
           else if ret = 1 then do {
             n \<leftarrow> h a;
             (if bn_right n \<noteq> None then btreelist_insert srt btl (bn_right n) obj h else insert_next btl a obj h) }
           else if ret = -1 then do {
             n \<leftarrow> h a;
             (if bn_left n \<noteq> None then btreelist_insert srt btl (bn_left n) obj h else insert_prev btl a obj h) }
           else Some (h, btl)))"

definition btreelist_add ::
  "bool \<Rightarrow> btreelistnode_sort \<Rightarrow> btreelist_t \<Rightarrow> nat \<Rightarrow> bnodes \<Rightarrow> (bnodes \<times> btreelist_t) option" where
  "btreelist_add ok srt btl btln h = do {
     (h1, btl1) \<leftarrow> btreelist_insert srt btl (bl_root btl) btln h;
     (r, h2, btl2) \<leftarrow> btreelist_rebtree ok btl1 (bl_count btl1 div 2) (bl_count btl1) h1;
     Some (h2, btl2\<lparr>bl_root := r\<rparr>) }"

section \<open>Searching and removing\<close>

partial_function (option) btree_find :: "btreelistnode_compare \<Rightarrow> nat option \<Rightarrow> u32 \<Rightarrow> bnodes \<Rightarrow> nat option option" where
  "btree_find cmp btln v h =
     (case btln of
        None \<Rightarrow> Some None
      | Some a \<Rightarrow>
          (let ret = cmp a v in
           if ret = 0 then Some (Some a)
           else if ret = 1 then do { n \<leftarrow> h a; btree_find cmp (bn_right n) v h }
           else do { n \<leftarrow> h a; btree_find cmp (bn_left n) v h }))"

definition btreelist_find ::
  "btreelist_t option \<Rightarrow> btreelistnode_compare option \<Rightarrow> u32 \<Rightarrow> bnodes \<Rightarrow> nat option option" where
  "btreelist_find btl cmp v h =
     (case (btl, cmp) of
        (Some b, Some c) \<Rightarrow> btree_find c (bl_root b) v h
      | _ \<Rightarrow> Some None)"

text \<open>Taking a node out of the list.\<close>

definition unlink :: "btreelist_t \<Rightarrow> nat \<Rightarrow> bnodes \<Rightarrow> (bnodes \<times> btreelist_t) option" where
  "unlink btl node h = do {
     n \<leftarrow> h node;
     (h1, btl1) \<leftarrow> (case bn_prev n of
         None \<Rightarrow> Some (h, btl\<lparr>bl_head := bn_next n\<rparr>)
       | Some p \<Rightarrow> do { h1 \<leftarrow> bset_next p (bn_next n) h; Some (h1, btl) });
     n1 \<leftarrow> h1 node;
     (h2, btl2) \<leftarrow> (case bn_next n1 of
         None \<Rightarrow> Some (h1, btl1\<lparr>bl_tail := bn_prev n1\<rparr>)
       | Some q \<Rightarrow> do { h2 \<leftarrow> bset_prev q (bn_prev n1) h1; Some (h2, btl1) });
     Some (h2, btl2\<lparr>bl_count := bl_count btl2 - 1\<rparr>) }"

definition btreelist_remove ::
  "bool \<Rightarrow> btreelist_t option \<Rightarrow> btreelistnode_compare option \<Rightarrow> u32 \<Rightarrow> bnodes \<Rightarrow>
   (nat option \<times> bnodes \<times> btreelist_t option) option" where
  "btreelist_remove ok btl cmp v h =
     (case btl of
        None \<Rightarrow> Some (None, h, None)
      | Some b \<Rightarrow> do {
          node \<leftarrow> btreelist_find btl cmp v h;
          (case node of
             None \<Rightarrow> Some (None, h, btl)
           | Some a \<Rightarrow> do {
               (h1, b1) \<leftarrow> unlink b a h;
               h2 \<leftarrow> bclear a h1;
               (r, h3, b2) \<leftarrow> btreelist_rebtree ok b1 (bl_count b1 div 2) (bl_count b1) h2;
               Some (Some a, h3, Some (b2\<lparr>bl_root := r\<rparr>)) }) })"

partial_function (option) destroy_nodes :: "nat option \<Rightarrow> bnodes \<Rightarrow> bnodes option" where
  "destroy_nodes node h =
     (case node of
        None \<Rightarrow> Some h
      | Some a \<Rightarrow> do { n \<leftarrow> h a; destroy_nodes (bn_next n) (h(a := None)) })"

definition btreelist_destroy :: "btreelist_t \<Rightarrow> bnodes \<Rightarrow> bnodes option" where
  "btreelist_destroy btl h = destroy_nodes (bl_head btl) h"

section \<open>The functions for nodes that carry a value\<close>

text \<open>A node of type \<open>testvalue_t\<close> is followed by its value; \<open>vals\<close> is the map from nodes to their values.\<close>

definition value_compare :: "(nat \<Rightarrow> u32) \<Rightarrow> btreelistnode_compare" where
  "value_compare vals node v = (if vals node = v then 0 else if vals node < v then 1 else -1)"

definition value_sort :: "(nat \<Rightarrow> u32) \<Rightarrow> btreelistnode_sort" where
  "value_sort vals node obj = (if vals node = vals obj then 0 else if vals node > vals obj then -1 else 1)"

end
