(* ===== verification/Sosal_BTreeSpec.thy ===== *)
theory Sosal_BTreeSpec
  imports Sosal_BTree "HOL-Library.Tree"
begin

text \<open>
  The searchable list against its contract, a finite set of nodes in the order of the client. The doubly linked list is the one of
  \<open>Sosal_ListSpec\<close>, seen through a projection of the nodes; the tree is a \<open>HOL-Library.Tree\<close> whose inorder is
  that list and whose height is the least possible up to one.
\<close>

section \<open>The two structures in the heap\<close>

definition links :: "bnodes \<Rightarrow> nodes" where
  "links h = (\<lambda>a. map_option (\<lambda>n. \<lparr>n_next = bn_next n, n_prev = bn_prev n, n_data = 0\<rparr>) (h a))"

definition ends :: "btreelist_t \<Rightarrow> list_t" where
  "ends btl = \<lparr>l_head = bl_head btl, l_tail = bl_tail btl\<rparr>"

fun tree_at :: "bnodes \<Rightarrow> nat option \<Rightarrow> nat tree \<Rightarrow> bool" where
  "tree_at h p Leaf = (p = None)"
| "tree_at h p (Node l a r) =
     (p = Some a \<and> (\<exists>n. h a = Some n \<and> tree_at h (bn_left n) l \<and> tree_at h (bn_right n) r))"

text \<open>A change of the tree links of the nodes in \<open>S\<close> only.\<close>

definition tframe :: "nat set \<Rightarrow> bnodes \<Rightarrow> bnodes \<Rightarrow> bool" where
  "tframe S h h' \<longleftrightarrow> (\<forall>b. b \<notin> S \<longrightarrow> h' b = h b) \<and> links h' = links h"

lemma tree_at_cong: "(\<And>a. a \<in> set_tree t \<Longrightarrow> h' a = h a) \<Longrightarrow> tree_at h' p t = tree_at h p t"
  by (induction t arbitrary: p) auto

lemma tree_at_None: "tree_at h None t \<longleftrightarrow> t = Leaf"
  by (cases t) auto

lemma tree_at_alloc: "tree_at h p t \<Longrightarrow> a \<in> set_tree t \<Longrightarrow> h a \<noteq> None"
  by (induction t arbitrary: p) auto

lemma tframe_refl: "tframe S h h"
  by (simp add: tframe_def)

lemma tframe_trans: "tframe S h h1 \<Longrightarrow> tframe T h1 h2 \<Longrightarrow> S \<subseteq> U \<Longrightarrow> T \<subseteq> U \<Longrightarrow> tframe U h h2"
  unfolding tframe_def by (metis subsetD)

lemma tframe_alloc: "tframe S h h' \<Longrightarrow> (h' a = None) = (h a = None)"
  by (cases "h a"; cases "h' a") (auto simp: tframe_def links_def dest: fun_cong[where x = a])

lemma links_upd:
  assumes "h a = Some n" and "bn_next n' = bn_next n" and "bn_prev n' = bn_prev n"
  shows "links (h(a \<mapsto> n')) = links h"
  using assms by (auto simp: links_def fun_eq_iff)

lemma tframe_tree: "tframe S h h' \<Longrightarrow> S \<inter> set_tree t = {} \<Longrightarrow> tree_at h' p t = tree_at h p t"
  by (intro tree_at_cong) (auto simp: tframe_def)

lemma bset_left_frame:
  assumes "h a \<noteq> None"
  shows "\<exists>n h'. h a = Some n \<and> bset_left a p h = Some h' \<and> h' a = Some (n\<lparr>bn_left := p\<rparr>) \<and> tframe {a} h h'"
  using assms by (auto simp: bset_left_def tframe_def intro!: links_upd)

lemma bset_right_frame:
  assumes "h a \<noteq> None"
  shows "\<exists>n h'. h a = Some n \<and> bset_right a p h = Some h' \<and> h' a = Some (n\<lparr>bn_right := p\<rparr>) \<and> tframe {a} h h'"
  using assms by (auto simp: bset_right_def tframe_def intro!: links_upd)

section \<open>Rebuilding\<close>

lemma fill_array_seg:
  assumes "seg (links h) p ys None" and "i + length ys \<le> length arr"
  shows "fill_array (fopt ys None) i arr h = Some (take i arr @ map Some ys @ drop (i + length ys) arr)"
  using assms
proof (induction ys arbitrary: p i arr)
  case Nil
  then show ?case by (subst fill_array.simps) simp
next
  case (Cons a ys)
  obtain n where n: "h a = Some n" "bn_next n = fopt ys None" and s: "seg (links h) (Some a) ys None"
    using Cons.prems(1) by (auto simp: links_def)
  have "fill_array (fopt ys None) (i + 1) (arr[i := Some a]) h =
      Some (take (i + 1) (arr[i := Some a]) @ map Some ys @ drop (i + 1 + length ys) (arr[i := Some a]))"
    using Cons.prems(2) by (intro Cons.IH[OF s]) simp
  moreover have "take (i + 1) (arr[i := Some a]) = take i arr @ [Some a]"
    using Cons.prems(2) by (simp add: take_Suc_conv_app_nth take_update_cancel)
  ultimately show ?case using Cons.prems(2) n by (subst fill_array.simps) simp
qed

lemma rebuild_array_dll:
  assumes "dll (links h) (ends btl) xs" and "bl_count btl = int (length xs)"
  shows "rebuild_array True btl h = Some (btl\<lparr>bl_array := Some (map Some xs)\<rparr>)"
  using fill_array_seg[of h None xs 0 "replicate (length xs) None"] assms
  by (simp add: rebuild_array_def dll_def ends_def)

text \<open>The five cases of the switch are one recursion; an empty half is not visited.\<close>

definition half :: "bool \<Rightarrow> btreelist_t \<Rightarrow> int \<Rightarrow> nat \<Rightarrow> bnodes \<Rightarrow> (nat option \<times> bnodes \<times> btreelist_t) option" where
  "half ok btl c n h = (if n = 0 then Some (None, h, btl) else btreelist_rebtree ok btl c (int n) h)"

definition node_block :: "bool \<Rightarrow> btreelist_t \<Rightarrow> int \<Rightarrow> nat \<Rightarrow> bnodes \<Rightarrow> (nat option \<times> bnodes \<times> btreelist_t) option" where
  "node_block ok btl c n h = do {
     node \<leftarrow> array_node btl c;
     (l, h1, btl2) \<leftarrow> half ok btl (c - int ((n div 2 + 1) div 2)) (n div 2) h;
     h2 \<leftarrow> bset_left node l h1;
     (r, h3, btl3) \<leftarrow> half ok btl2 (c + 1 + int ((n - 1 - n div 2) div 2)) (n - 1 - n div 2) h2;
     h4 \<leftarrow> bset_right node r h3;
     Some (Some node, h4, btl3) }"

lemma rebtree_step:
  assumes "0 < n" and "0 \<le> c"
  shows "btreelist_rebtree ok btl c (int n) h = do {
     btl1 \<leftarrow> (if int n = bl_count btl then rebuild_array ok btl h else Some btl);
     node_block ok btl1 c n h }"
proof -
  consider "n = 1" | "n = 2" | "n = 3" | "n = 4" | "5 \<le> n" using assms(1) by linarith
  then show ?thesis
  proof cases
    case 1
    then show ?thesis using assms(2) by (subst btreelist_rebtree.simps) (simp add: half_def node_block_def)
  next
    case 2
    then show ?thesis using assms(2) by (subst btreelist_rebtree.simps) (simp add: half_def node_block_def)
  next
    case 3
    then show ?thesis using assms(2) by (subst btreelist_rebtree.simps) (simp add: half_def node_block_def)
  next
    case 4
    then show ?thesis using assms(2) by (subst btreelist_rebtree.simps) (simp add: half_def node_block_def)
  next
    case 5
    define m k where "m = n div 2" and "k = n - 1 - n div 2"
    have pos: "0 < m" "0 < k" using 5 by (auto simp: m_def k_def)
    have ll: "int n div 2 = int m" by (simp add: m_def)
    have rl: "(if int n mod 2 = 1 then int m else int m - 1) = int k" using 5 unfolding m_def k_def by presburger
    have lc: "(if int m mod 2 = 1 then c - int m div 2 - 1 else c - int m div 2) = c - int ((m + 1) div 2)" by presburger
    have rc: "c + int k div 2 + 1 = c + 1 + int (k div 2)" by presburger
    have n: "int n \<noteq> 1" "int n \<noteq> 2" "int n \<noteq> 3" "int n \<noteq> 4" "0 < int n" "\<not> c < 0" using 5 assms(2) by auto
    have "half ok b (c - int ((m + 1) div 2)) m g = btreelist_rebtree ok b (c - int ((m + 1) div 2)) (int m) g"
         "half ok b (c + 1 + int (k div 2)) k g = btreelist_rebtree ok b (c + 1 + int (k div 2)) (int k) g" for b g
      using pos by (simp_all add: half_def)
    note this [symmetric]
    moreover have km: "n - 1 - n div 2 = k" "n div 2 = m" by (simp_all add: m_def k_def)
    ultimately show ?thesis using n
      unfolding node_block_def km
      by (subst btreelist_rebtree.simps) (simp only: Let_def ll rl lc rc if_False if_True)
  qed
qed

lemma split_segment:
  assumes "0 < n" and "s + n \<le> length xs"
  shows "take n (drop s xs) =
    take (n div 2) (drop s xs) @ xs ! (s + n div 2) # take (n - 1 - n div 2) (drop (s + n div 2 + 1) xs)"
proof -
  let ?ys = "take n (drop s xs)"
  have m: "n div 2 < n" using assms(1) by simp
  then have "?ys = take (n div 2) ?ys @ ?ys ! (n div 2) # drop (Suc (n div 2)) ?ys"
    using assms(2) by (intro id_take_nth_drop) simp
  then show ?thesis using m assms(2) by (simp add: drop_take min_def add_ac)
qed

lemma array_node_map: "bl_array btl = Some (map Some xs) \<Longrightarrow> i < length xs \<Longrightarrow> array_node btl (int i) = Some (xs ! i)"
  by (simp add: array_node_def)

text \<open>The tree over a segment of the array: its inorder is the segment and its height is small.\<close>

definition tree_over :: "bnodes \<Rightarrow> nat list \<Rightarrow> nat option \<Rightarrow> bnodes \<Rightarrow> bool" where
  "tree_over h ys p h' \<longleftrightarrow>
     (\<exists>t. tree_at h' p t \<and> inorder t = ys \<and> 2 ^ height t \<le> max 1 (2 * length ys)) \<and> tframe (set ys) h h'"

lemma tree_over_Nil: "tree_over h [] None h"
  unfolding tree_over_def by (simp add: tframe_refl exI[of _ Leaf])

lemma node_block_correct:
  assumes "bl_array btl = Some (map Some xs)" and "distinct xs" and "\<forall>a \<in> set xs. h a \<noteq> None"
    and "s + n \<le> length xs" and "0 < n"
    and halves: "\<And>s' n' g. n' < n \<Longrightarrow> s' + n' \<le> length xs \<Longrightarrow> \<forall>a \<in> set xs. g a \<noteq> None \<Longrightarrow>
      \<exists>p h'. half ok btl (int (s' + n' div 2)) n' g = Some (p, h', btl) \<and> tree_over g (take n' (drop s' xs)) p h'"
  shows "\<exists>p h'. node_block ok btl (int (s + n div 2)) n h = Some (p, h', btl) \<and> tree_over h (take n (drop s xs)) p h'"
proof -
  let ?m = "n div 2" let ?k = "n - 1 - n div 2" let ?a = "xs ! (s + n div 2)"
  let ?L = "take ?m (drop s xs)" let ?R = "take ?k (drop (s + ?m + 1) xs)"
  have mk: "?m < n" "?k < n" "s + ?m \<le> length xs" "s + ?m + 1 + ?k \<le> length xs" "?m + 1 + ?k = n"
    using assms(4,5) by auto
  have seg: "take n (drop s xs) = ?L @ ?a # ?R" by (rule split_segment[OF assms(5,4)])
  have "distinct (?L @ ?a # ?R)" unfolding seg[symmetric] using assms(2) by simp
  then have d: "?a \<notin> set ?L" "?a \<notin> set ?R" "set ?L \<inter> set ?R = {}" by auto
  have a: "h ?a \<noteq> None" using assms(3,4) mk(1) by simp
  have node: "array_node btl (int (s + ?m)) = Some ?a"
    using assms(4) mk(1) by (intro array_node_map[OF assms(1)]) linarith
  have c: "int (s + ?m) - int ((?m + 1) div 2) = int (s + ?m div 2)"
  proof -
    have "?m = (?m + 1) div 2 + ?m div 2" by linarith
    then show ?thesis by linarith
  qed
  have c': "int (s + ?m) + 1 + int (?k div 2) = int (s + ?m + 1 + ?k div 2)" by simp
  obtain p1 h1 l where l: "half ok btl (int (s + ?m div 2)) ?m h = Some (p1, h1, btl)" "tree_at h1 p1 l"
      "inorder l = ?L" "2 ^ height l \<le> max 1 (2 * length ?L)" "tframe (set ?L) h h1"
    using halves[OF mk(1,3) assms(3)] unfolding tree_over_def by blast
  have a1: "h1 ?a \<noteq> None" using a tframe_alloc[OF l(5), of ?a] by simp
  obtain na h2 where h2: "h1 ?a = Some na" "bset_left ?a p1 h1 = Some h2" "h2 ?a = Some (na\<lparr>bn_left := p1\<rparr>)"
      "tframe {?a} h1 h2"
    using bset_left_frame[of h1 ?a p1] a1 by metis
  have al: "\<forall>b \<in> set xs. h2 b \<noteq> None"
    using assms(3) tframe_alloc[OF l(5)] tframe_alloc[OF h2(4)] by simp
  obtain p2 h3 r where r: "half ok btl (int (s + ?m + 1 + ?k div 2)) ?k h2 = Some (p2, h3, btl)" "tree_at h3 p2 r"
      "inorder r = ?R" "2 ^ height r \<le> max 1 (2 * length ?R)" "tframe (set ?R) h2 h3"
    using halves[OF mk(2,4) al] unfolding tree_over_def by blast
  have a3: "h3 ?a = Some (na\<lparr>bn_left := p1\<rparr>)" using r(5) h2(3) d by (simp add: tframe_def)
  obtain h4 where h4: "bset_right ?a p2 h3 = Some h4" "h4 ?a = Some (na\<lparr>bn_left := p1, bn_right := p2\<rparr>)"
      "tframe {?a} h3 h4"
    using bset_right_frame[of h3 ?a p2] a3 by auto
  have sl: "set_tree l = set ?L" "set_tree r = set ?R" using l(3) r(3) by (metis set_inorder)+
  have "tree_at h4 p1 l"
    using l(2) tframe_tree[OF h2(4), of l p1] tframe_tree[OF r(5), of l p1] tframe_tree[OF h4(3), of l p1] d sl by auto
  moreover have "tree_at h4 p2 r" using r(2) tframe_tree[OF h4(3), of r p2] d sl by simp
  ultimately have t: "tree_at h4 (Some ?a) (Node l ?a r)" using h4(2) by simp
  have "tframe (set (?L @ ?a # ?R)) h h2" by (rule tframe_trans[OF l(5) h2(4)]) auto
  moreover have "tframe (set (?L @ ?a # ?R)) h2 h4" by (rule tframe_trans[OF r(5) h4(3)]) auto
  ultimately have f: "tframe (set (?L @ ?a # ?R)) h h4" by (rule tframe_trans) simp_all
  have ln: "length (?L @ ?a # ?R) = n" unfolding seg[symmetric] using assms(4) by simp
  have "2 ^ height (Node l ?a r) \<le> max 1 (2 * length (?L @ ?a # ?R))"
  proof -
    have "length ?L \<le> ?m" "length ?R \<le> ?k" by simp_all
    then have "2 * length ?L \<le> n" "2 * length ?R \<le> n" using mk(5) by linarith+
    then have "max 1 (2 * length ?L) \<le> n" "max 1 (2 * length ?R) \<le> n" using assms(5) by (simp_all only: max.bounded_iff) simp_all
    then have "2 ^ height l \<le> n" "2 ^ height r \<le> n" using order_trans[OF l(4)] order_trans[OF r(4)] by blast+
    then show ?thesis unfolding ln by (simp add: max_def)
  qed
  moreover have "inorder (Node l ?a r) = ?L @ ?a # ?R" using l(3) r(3) by simp
  ultimately have "tree_over h (?L @ ?a # ?R) (Some ?a) h4" using t f unfolding tree_over_def by blast
  moreover have "node_block ok btl (int (s + ?m)) n h = Some (Some ?a, h4, btl)"
    by (simp only: node_block_def node c c' l(1) h2(2) r(1) h4(1) bind.bind_lunit prod.case)
  ultimately show ?thesis using seg by metis
qed

lemma half_correct:
  assumes "bl_array btl = Some (map Some xs)" and "distinct xs" and "\<forall>a \<in> set xs. h a \<noteq> None"
    and "s + n \<le> length xs" and "int n < bl_count btl"
  shows "\<exists>p h'. half ok btl (int (s + n div 2)) n h = Some (p, h', btl) \<and> tree_over h (take n (drop s xs)) p h'"
  using assms(3,4,5)
proof (induction n arbitrary: s h rule: less_induct)
  case (less n)
  show ?case
  proof (cases "n = 0")
    case True
    then show ?thesis using tree_over_Nil by (simp add: half_def)
  next
    case False
    then have n: "0 < n" by simp
    have "half ok btl (int (s + n div 2)) n h = btreelist_rebtree ok btl (int (s + n div 2)) (int n) h"
      using n by (simp add: half_def)
    also have "\<dots> = node_block ok btl (int (s + n div 2)) n h"
      using less.prems(3) by (simp only: rebtree_step[OF n of_nat_0_le_iff] less_imp_neq if_False bind.bind_lunit)
    finally have "half ok btl (int (s + n div 2)) n h = node_block ok btl (int (s + n div 2)) n h" .
    then show ?thesis using node_block_correct[OF assms(1,2) less.prems(1,2) n] less.IH less.prems(3) by simp
  qed
qed

text \<open>The tree over the whole list.\<close>

definition btl_list :: "bnodes \<Rightarrow> btreelist_t \<Rightarrow> nat list \<Rightarrow> bool" where
  "btl_list h btl xs \<longleftrightarrow> dll (links h) (ends btl) xs \<and> bl_count btl = int (length xs)"

lemma btl_list_alloc: "btl_list h btl xs \<Longrightarrow> a \<in> set xs \<Longrightarrow> h a \<noteq> None"
  using dll_alloc[of "links h" "ends btl" xs a] by (auto simp: btl_list_def links_def)

lemma rebuild_correct:
  assumes "btl_list h btl xs"
  shows "\<exists>r h'. btreelist_rebtree True btl (bl_count btl div 2) (bl_count btl) h =
      Some (r, h', btl\<lparr>bl_array := Some (map Some xs)\<rparr>) \<and> tree_over h xs r h'"
proof (cases "xs = []")
  case True
  then show ?thesis using assms rebuild_array_dll[of h btl xs]
    by (subst btreelist_rebtree.simps) (simp add: btl_list_def tree_over_Nil)
next
  case False
  let ?n = "length xs" let ?b = "btl\<lparr>bl_array := Some (map Some xs)\<rparr>"
  have n: "0 < ?n" "bl_count btl = int ?n" using False assms by (auto simp: btl_list_def)
  have al: "\<forall>a \<in> set xs. h a \<noteq> None" using btl_list_alloc[OF assms] by blast
  have d: "distinct xs" using assms by (simp add: btl_list_def dll_def)
  have "btreelist_rebtree True btl (int (?n div 2)) (int ?n) h = node_block True ?b (int (?n div 2)) ?n h"
    using rebuild_array_dll[of h btl xs] assms n(2)
    by (simp only: rebtree_step[OF n(1) of_nat_0_le_iff] btl_list_def if_True bind.bind_lunit)
  moreover have "\<exists>p h'. node_block True ?b (int (0 + ?n div 2)) ?n h = Some (p, h', ?b) \<and> tree_over h (take ?n (drop 0 xs)) p h'"
    using half_correct[of ?b xs] d n by (intro node_block_correct[OF _ d al]) simp_all
  ultimately show ?thesis using n(2) by (simp add: zdiv_int)
qed

section \<open>Linking and unlinking\<close>

lemma links_upd_eq:
  "links (h(a \<mapsto> n)) = (links h)(a \<mapsto> \<lparr>n_next = bn_next n, n_prev = bn_prev n, n_data = 0\<rparr>)"
  by (auto simp: links_def fun_eq_iff)

lemma links_Some: "h a = Some n \<Longrightarrow> links h a = Some \<lparr>n_next = bn_next n, n_prev = bn_prev n, n_data = 0\<rparr>"
  by (simp add: links_def)

lemma links_SomeD: "links h a = Some m \<Longrightarrow> \<exists>n. h a = Some n \<and> bn_next n = n_next m \<and> bn_prev n = n_prev m"
  by (auto simp: links_def)

text \<open>Both insertions do to the links what \<open>link_after\<close> and \<open>link_before\<close> of the list do.\<close>

lemmas bset_defs = bset_next_def bset_prev_def

lemma insert_next_list:
  assumes "btl_list h btl (xs @ a # ys)" and "obj \<notin> set (xs @ a # ys)" and "h obj \<noteq> None"
  shows "\<exists>h' b'. insert_next btl a obj h = Some (h', b') \<and> btl_list h' b' (xs @ a # obj # ys) \<and>
    (\<forall>b. b \<notin> insert obj (set (xs @ a # ys)) \<longrightarrow> h' b = h b)"
proof -
  have dl: "dll (links h) (ends btl) (xs @ a # ys)" and cnt: "bl_count btl = int (length (xs @ a # ys))"
    using assms(1) by (auto simp: btl_list_def)
  obtain h1 l1 where la: "link_after (ends btl) (Some obj) a (links h) = Some (Some obj, h1, Some l1)"
      "dll h1 l1 (xs @ a # obj # ys)"
    using link_after_dll[OF dl assms(2)] assms(3) by (auto simp: links_def)
  obtain o' where o': "h obj = Some o'" using assms(3) by blast
  obtain n where n: "h a = Some n" "bn_next n = fopt ys None"
    using dl by (auto elim!: dll_split dest!: links_SomeD)
  have tl: "bl_tail btl = lopt (Some a) ys" using dl by (auto simp: dll_def ends_def)
  have ne: "a \<noteq> obj" using assms(2) by auto
  show ?thesis
  proof (cases ys)
    case Nil
    have "links (h(obj \<mapsto> o'\<lparr>bn_next := None, bn_prev := Some a\<rparr>, a \<mapsto> n\<lparr>bn_next := Some obj\<rparr>)) = h1"
      and "ends (btl\<lparr>bl_tail := Some obj\<rparr>) = l1"
      using la(1) n o' ne tl Nil by (auto simp: link_after_def link_defs links_Some links_upd_eq ends_def fun_upd_twist)
    moreover have "insert_next btl a obj h = Some (h(obj \<mapsto> o'\<lparr>bn_next := None, bn_prev := Some a\<rparr>, a \<mapsto> n\<lparr>bn_next := Some obj\<rparr>),
        btl\<lparr>bl_tail := Some obj, bl_count := bl_count btl + 1\<rparr>)"
      using n o' ne Nil by (simp add: insert_next_def bset_defs fun_upd_twist)
    ultimately show ?thesis using la(2) cnt Nil by (auto simp: btl_list_def ends_def)
  next
    case (Cons t ts)
    have "links h t \<noteq> None" using dll_alloc[OF dl, of t] Cons by simp
    then obtain m where m: "h t = Some m" using links_SomeD by blast
    have dt: "t \<noteq> a" "t \<noteq> obj" using dl assms(2) Cons by (auto simp: dll_def)
    let ?h = "h(obj \<mapsto> o'\<lparr>bn_next := Some t, bn_prev := Some a\<rparr>, t \<mapsto> m\<lparr>bn_prev := Some obj\<rparr>, a \<mapsto> n\<lparr>bn_next := Some obj\<rparr>)"
    have "a \<notin> set ys" using dl by (simp add: dll_def)
    then have tl': "bl_tail btl \<noteq> Some a" using tl Cons last_in_set[of ys] by (auto simp: lopt_def)
    have "links ?h = h1" and "ends btl = l1"
      using la(1) n o' m ne dt tl' Cons
      by (auto simp: link_after_def link_defs links_Some links_upd_eq ends_def fun_upd_twist)
    moreover have "insert_next btl a obj h = Some (?h, btl\<lparr>bl_count := bl_count btl + 1\<rparr>)"
      using n o' m ne dt Cons by (simp add: insert_next_def bset_defs fun_upd_twist)
    ultimately show ?thesis using la(2) cnt Cons by (auto simp: btl_list_def ends_def)
  qed
qed

lemma insert_prev_list:
  assumes "btl_list h btl (xs @ a # ys)" and "obj \<notin> set (xs @ a # ys)" and "h obj \<noteq> None"
  shows "\<exists>h' b'. insert_prev btl a obj h = Some (h', b') \<and> btl_list h' b' (xs @ obj # a # ys) \<and>
    (\<forall>b. b \<notin> insert obj (set (xs @ a # ys)) \<longrightarrow> h' b = h b)"
proof -
  have dl: "dll (links h) (ends btl) (xs @ a # ys)" and cnt: "bl_count btl = int (length (xs @ a # ys))"
    using assms(1) by (auto simp: btl_list_def)
  obtain h1 l1 where la: "link_before (ends btl) (Some obj) a (links h) = Some (Some obj, h1, Some l1)"
      "dll h1 l1 (xs @ obj # a # ys)"
    using link_before_dll[OF dl assms(2)] assms(3) by (auto simp: links_def)
  obtain o' where o': "h obj = Some o'" using assms(3) by blast
  obtain n where n: "h a = Some n" "bn_prev n = lopt None xs"
    using dl by (auto elim!: dll_split dest!: links_SomeD)
  have hd: "bl_head btl = fopt xs (Some a)" using dl by (auto simp: dll_def ends_def)
  have ne: "a \<noteq> obj" using assms(2) by auto
  show ?thesis
  proof (cases xs rule: rev_cases)
    case Nil
    have "links (h(obj \<mapsto> o'\<lparr>bn_next := Some a, bn_prev := None\<rparr>, a \<mapsto> n\<lparr>bn_prev := Some obj\<rparr>)) = h1"
      and "ends (btl\<lparr>bl_head := Some obj\<rparr>) = l1"
      using la(1) n o' ne hd Nil by (auto simp: link_before_def link_defs links_Some links_upd_eq ends_def fun_upd_twist)
    moreover have "insert_prev btl a obj h = Some (h(obj \<mapsto> o'\<lparr>bn_next := Some a, bn_prev := None\<rparr>, a \<mapsto> n\<lparr>bn_prev := Some obj\<rparr>),
        btl\<lparr>bl_head := Some obj, bl_count := bl_count btl + 1\<rparr>)"
      using n o' ne Nil by (cases o') (simp add: insert_prev_def bset_defs fun_upd_twist)
    ultimately show ?thesis using la(2) cnt Nil by (auto simp: btl_list_def ends_def)
  next
    case (snoc ts t)
    have "links h t \<noteq> None" using dll_alloc[OF dl, of t] snoc by simp
    then obtain m where m: "h t = Some m" using links_SomeD by blast
    have dt: "t \<noteq> a" "t \<noteq> obj" using dl assms(2) snoc by (auto simp: dll_def)
    let ?h = "h(obj \<mapsto> o'\<lparr>bn_next := Some a, bn_prev := Some t\<rparr>, t \<mapsto> m\<lparr>bn_next := Some obj\<rparr>, a \<mapsto> n\<lparr>bn_prev := Some obj\<rparr>)"
    have "a \<notin> set xs" using dl by (simp add: dll_def)
    then have hd': "bl_head btl \<noteq> Some a" using hd snoc by (cases ts) auto
    have "links ?h = h1" and "ends btl = l1"
      using la(1) n o' m ne dt hd' snoc
      by (auto simp: link_before_def link_defs links_Some links_upd_eq ends_def fun_upd_twist)
    moreover have "insert_prev btl a obj h = Some (?h, btl\<lparr>bl_count := bl_count btl + 1\<rparr>)"
      using n o' m ne dt snoc by (cases o') (simp add: insert_prev_def bset_defs fun_upd_twist)
    ultimately show ?thesis using la(2) cnt snoc by (auto simp: btl_list_def ends_def)
  qed
qed

lemma unlink_list:
  assumes "btl_list h btl (xs @ a # ys)"
  shows "\<exists>h1 h2 b'. unlink btl a h = Some (h1, b') \<and> bclear a h1 = Some h2 \<and> btl_list h2 b' (xs @ ys) \<and>
    (\<forall>b. b \<notin> set (xs @ a # ys) \<longrightarrow> h2 b = h b) \<and> h2 a = Some \<lparr>bn_next = None, bn_prev = None, bn_left = None, bn_right = None\<rparr>"
proof -
  have dl: "dll (links h) (ends btl) (xs @ a # ys)" and cnt: "bl_count btl = int (length (xs @ a # ys))"
    using assms by (auto simp: btl_list_def)
  obtain n where n: "h a = Some n" "bn_prev n = lopt None xs" "bn_next n = fopt ys None"
    using dl by (auto elim!: dll_split dest!: links_SomeD)
  have e: "bl_head btl = fopt xs (Some a)" "bl_tail btl = lopt (Some a) ys" using dl by (auto simp: dll_def ends_def)
  let ?z = "\<lparr>bn_next = None, bn_prev = None, bn_left = None, bn_right = None\<rparr>"
  obtain h1 l1 where le: "list_extract (Some (ends btl)) (Some a) (links h) = Some (Some a, h1, Some l1)" "dll h1 l1 (xs @ ys)"
    using list_extract_dll[OF dl] by blast
  let ?p = "case rev xs of [] \<Rightarrow> h | t # _ \<Rightarrow> h(t \<mapsto> (the (h t))\<lparr>bn_next := fopt ys None\<rparr>)"
  let ?q = "case ys of [] \<Rightarrow> ?p | t # _ \<Rightarrow> ?p(t \<mapsto> (the (h t))\<lparr>bn_prev := lopt None xs\<rparr>)"
  let ?b = "btl\<lparr>bl_head := fopt (xs @ ys) None, bl_tail := lopt None (xs @ ys), bl_count := bl_count btl - 1\<rparr>"
  have al: "h b \<noteq> None" if "b \<in> set (xs @ a # ys)" for b using btl_list_alloc[OF assms that] .
  have dist: "distinct (xs @ a # ys)" using dl by (simp add: dll_def)
  have "unlink btl a h = Some (?q, ?b) \<and> links (?q(a \<mapsto> ?z)) = h1 \<and> ends ?b = l1"
  proof (cases xs rule: rev_cases)
    case Nil
    show ?thesis
    proof (cases ys)
      case Nil
      then show ?thesis using \<open>xs = []\<close> n e le(1)
        by (cases btl) (auto simp: unlink_def list_extract_def list_pop_def link_defs links_Some links_upd_eq ends_def bset_defs)
    next
      case (Cons t ts)
      obtain m where m: "h t = Some m" using al[of t] Cons by auto
      show ?thesis using \<open>xs = []\<close> n e le(1) Cons m dist
        by (cases btl) (auto simp: unlink_def list_extract_def list_pop_def link_defs links_Some links_upd_eq ends_def bset_defs fun_upd_twist lopt_def)
    qed
  next
    case (snoc us u)
    obtain k where k: "h u = Some k" using al[of u] snoc by auto
    show ?thesis
    proof (cases ys)
      case Nil
      then show ?thesis using snoc n e le(1) k dist
        by (cases btl) (auto simp: unlink_def list_extract_def list_trim_def link_defs links_Some links_upd_eq ends_def bset_defs fun_upd_twist split: if_splits)
    next
      case (Cons t ts)
      obtain m where m: "h t = Some m" using al[of t] Cons by auto
      show ?thesis using snoc n e le(1) k Cons m dist
        by (cases btl) (auto simp: unlink_def list_extract_def link_defs links_Some links_upd_eq ends_def bset_defs fun_upd_twist lopt_def)
    qed
  qed
  moreover have "\<forall>b. b \<notin> set (xs @ a # ys) \<longrightarrow> (?q(a \<mapsto> ?z)) b = h b"
    by (cases xs rule: rev_cases; cases ys) auto
  moreover have "bclear a ?q = Some (?q(a \<mapsto> ?z))"
    using n dist by (cases xs rule: rev_cases; cases ys) (auto simp: bclear_def)
  ultimately show ?thesis using le(2) cnt
    by (intro exI[of _ ?q] exI[of _ "?q(a \<mapsto> ?z)"] exI[of _ ?b]) (simp add: btl_list_def)
qed

section \<open>Nodes in order\<close>

definition nodes_order :: "(nat \<Rightarrow> nat \<Rightarrow> bool) \<Rightarrow> nat list \<Rightarrow> bool" where
  "nodes_order lt xs \<longleftrightarrow> sorted_wrt lt xs"

text \<open>A node clashes with a list when it is neither before nor after one of its nodes; otherwise it has a place in it.\<close>

definition clashes :: "(nat \<Rightarrow> nat \<Rightarrow> bool) \<Rightarrow> nat \<Rightarrow> nat list \<Rightarrow> bool" where
  "clashes lt x xs \<longleftrightarrow> (\<exists>a \<in> set xs. \<not> lt a x \<and> \<not> lt x a)"

definition placed :: "(nat \<Rightarrow> nat \<Rightarrow> bool) \<Rightarrow> nat \<Rightarrow> nat list \<Rightarrow> nat list" where
  "placed lt x xs = filter (\<lambda>a. lt a x) xs @ x # filter (\<lambda>a. lt x a) xs"

lemma nodes_order_append:
  "nodes_order lt (xs @ ys) \<longleftrightarrow> nodes_order lt xs \<and> nodes_order lt ys \<and> (\<forall>a \<in> set xs. \<forall>b \<in> set ys. lt a b)"
  by (simp add: nodes_order_def sorted_wrt_append)

lemma nodes_order_Cons: "nodes_order lt (x # xs) \<longleftrightarrow> (\<forall>b \<in> set xs. lt x b) \<and> nodes_order lt xs"
  by (simp add: nodes_order_def)

lemma nodes_order_total:
  "nodes_order lt xs \<Longrightarrow> a \<in> set xs \<Longrightarrow> b \<in> set xs \<Longrightarrow> a \<noteq> b \<Longrightarrow> lt a b \<or> lt b a"
  by (induction xs) (auto simp: nodes_order_Cons)

lemma set_placed: "\<not> clashes lt x xs \<Longrightarrow> set (placed lt x xs) = insert x (set xs)"
  by (auto simp: placed_def clashes_def)

text \<open>The representation of a set of nodes: sorted list, search tree over it, and a height of at most the binary logarithm plus one.\<close>

definition btl_ordered :: "(nat \<Rightarrow> nat \<Rightarrow> bool) \<Rightarrow> bnodes \<Rightarrow> btreelist_t \<Rightarrow> nat list \<Rightarrow> bool" where
  "btl_ordered lt h btl xs \<longleftrightarrow> btl_list h btl xs \<and> nodes_order lt xs \<and>
     (\<exists>t. tree_at h (bl_root btl) t \<and> inorder t = xs \<and> 2 ^ height t \<le> max 1 (2 * length xs))"

text \<open>It depends on the nodes of the list only.\<close>

lemma btl_ordered_cong:
  assumes "btl_ordered lt h btl xs" and "\<And>a. a \<in> set xs \<Longrightarrow> h' a = h a"
    and "\<And>a b. a \<in> set xs \<Longrightarrow> b \<in> set xs \<Longrightarrow> lt' a b = lt a b"
  shows "btl_ordered lt' h' btl xs"
proof -
  have "btl_list h' btl xs"
    using assms(1) seg_cong[of xs "links h'" "links h"] assms(2) by (auto simp: btl_ordered_def btl_list_def dll_def links_def)
  moreover have "nodes_order lt' xs"
    using assms(1,3) by (auto simp: btl_ordered_def nodes_order_def intro: sorted_wrt_mono_rel)
  moreover obtain t where t: "tree_at h (bl_root btl) t" "inorder t = xs" "2 ^ height t \<le> max 1 (2 * length xs)"
    using assms(1) by (auto simp: btl_ordered_def)
  moreover have "tree_at h' (bl_root btl) t"
    using t(1,2) assms(2) tree_at_cong[of t h' h] by (metis set_inorder)
  ultimately show ?thesis by (auto simp: btl_ordered_def)
qed

lemma rebuild_repr:
  assumes "btl_list h btl xs" and "nodes_order lt xs"
  shows "\<exists>r h' b'. btreelist_rebtree True btl (bl_count btl div 2) (bl_count btl) h = Some (r, h', b') \<and>
     btl_ordered lt h' (b'\<lparr>bl_root := r\<rparr>) xs \<and> tframe (set xs) h h'"
proof -
  obtain r h' where r: "btreelist_rebtree True btl (bl_count btl div 2) (bl_count btl) h =
      Some (r, h', btl\<lparr>bl_array := Some (map Some xs)\<rparr>)" "tree_over h xs r h'"
    using rebuild_correct[OF assms(1)] by blast
  have "links h' = links h" using r(2) by (simp add: tree_over_def tframe_def)
  then have "btl_list h' (btl\<lparr>bl_array := Some (map Some xs), bl_root := r\<rparr>) xs"
    using assms(1) by (simp add: btl_list_def ends_def)
  then show ?thesis using r assms(2) by (auto simp: btl_ordered_def tree_over_def)
qed

text \<open>The outcome of an insertion: nothing happens to a list with a node it clashes with.\<close>

definition inserted ::
  "(nat \<Rightarrow> nat \<Rightarrow> bool) \<Rightarrow> bnodes \<Rightarrow> btreelist_t \<Rightarrow> nat \<Rightarrow> nat list \<Rightarrow> bnodes \<Rightarrow> btreelist_t \<Rightarrow> bool" where
  "inserted lt h btl obj xs h' b' \<longleftrightarrow>
     (if clashes lt obj xs then h' = h \<and> b' = btl
      else btl_list h' b' (placed lt obj xs) \<and> (\<forall>b. b \<notin> insert obj (set xs) \<longrightarrow> h' b = h b))"

section \<open>The client's order\<close>

text \<open>
  \<open>lt\<close> is an order of the nodes that are \<open>ok\<close>, in which nodes that are not comparable clash. The functions of the client decide
  it, and the position of a value relative to the nodes goes along with it.
\<close>

locale btree_order =
  fixes srt :: btreelistnode_sort and cmp :: btreelistnode_compare
    and lt :: "nat \<Rightarrow> nat \<Rightarrow> bool" and ok :: "nat \<Rightarrow> bool"
  assumes srt: "ok a \<Longrightarrow> ok b \<Longrightarrow> srt a b = (if lt a b then 1 else if lt b a then -1 else 0)"
    and lt_asym: "ok a \<Longrightarrow> ok b \<Longrightarrow> lt a b \<Longrightarrow> \<not> lt b a"
    and lt_trans: "ok a \<Longrightarrow> ok b \<Longrightarrow> ok c \<Longrightarrow> lt a b \<Longrightarrow> lt b c \<Longrightarrow> lt a c"
    and cmp_result: "ok a \<Longrightarrow> cmp a v = -1 \<or> cmp a v = 0 \<or> cmp a v = 1"
    and cmp_left: "ok a \<Longrightarrow> ok b \<Longrightarrow> lt a b \<Longrightarrow> cmp a v \<noteq> 1 \<Longrightarrow> cmp b v = -1"
begin

lemma placed_between:
  assumes "ok x" and "\<forall>a \<in> set (xs @ ys). ok a" and "\<forall>a \<in> set xs. lt a x" and "\<forall>b \<in> set ys. lt x b"
  shows "placed lt x (xs @ ys) = xs @ x # ys" and "\<not> clashes lt x (xs @ ys)"
proof -
  have "filter (\<lambda>a. lt a x) xs = xs" "filter (\<lambda>a. lt x a) xs = []"
    using assms lt_asym by (auto simp: filter_id_conv filter_empty_conv)
  moreover have "filter (\<lambda>a. lt a x) ys = []" "filter (\<lambda>a. lt x a) ys = ys"
    using assms lt_asym by (auto simp: filter_id_conv filter_empty_conv)
  ultimately show "placed lt x (xs @ ys) = xs @ x # ys" by (simp add: placed_def)
  show "\<not> clashes lt x (xs @ ys)" using assms by (auto simp: clashes_def)
qed

lemma nodes_order_placed:
  assumes "nodes_order lt xs" and "ok x" and "\<forall>a \<in> set xs. ok a"
  shows "nodes_order lt (placed lt x xs)"
  using assms unfolding placed_def nodes_order_def
  by (auto simp: sorted_wrt_append intro: sorted_wrt_filter lt_trans[of _ x])

lemma insert_tree:
  assumes "btl_list h btl (ps @ inorder t @ qs)" and "nodes_order lt (ps @ inorder t @ qs)" and "tree_at h p t" and "t \<noteq> Leaf"
    and "\<forall>a \<in> set ps. lt a obj" and "\<forall>b \<in> set qs. lt obj b"
    and "\<forall>a \<in> set (obj # ps @ inorder t @ qs). ok a"
    and "obj \<notin> set (ps @ inorder t @ qs)" and "h obj \<noteq> None"
  shows "\<exists>h' b'. btreelist_insert srt btl p obj h = Some (h', b') \<and>
    inserted lt h btl obj (ps @ inorder t @ qs) h' b'"
  using assms
proof (induction t arbitrary: p ps qs)
  case (Node l a r)
  obtain n where n: "p = Some a" "h a = Some n" "tree_at h (bn_left n) l" "tree_at h (bn_right n) r"
    using Node.prems(3) by auto
  let ?xs = "ps @ inorder (Node l a r) @ qs"
  have "l_head (ends btl) \<noteq> None" using Node.prems(1) dll_Nil_head(1)[of "links h" "ends btl" ?xs] by (simp add: btl_list_def)
  then have ne: "bl_head btl \<noteq> None" by (simp add: ends_def)
  have good: "ok a" "ok obj" "\<forall>b \<in> set (ps @ inorder l). ok b" "\<forall>b \<in> set (inorder r @ qs). ok b"
    using Node.prems(7) by auto
  have ord: "\<forall>b \<in> set (ps @ inorder l). lt b a" "\<forall>b \<in> set (inorder r @ qs). lt a b"
    using Node.prems(2) by (auto simp: nodes_order_append nodes_order_Cons)
  consider (eq) "\<not> lt a obj" "\<not> lt obj a" | (right) "lt a obj" | (left) "lt obj a" "\<not> lt a obj" by blast
  then show ?case
  proof cases
    case eq
    then have "btreelist_insert srt btl p obj h = Some (h, btl)"
      using n ne good by (subst btreelist_insert.simps) (auto simp: srt Let_def)
    moreover have "clashes lt obj ?xs" using eq by (auto simp: clashes_def)
    ultimately show ?thesis by (simp add: inserted_def)
  next
    case right
    have below: "\<forall>b \<in> set (ps @ inorder l @ [a]). lt b obj"
      using ord(1) right good lt_trans[of _ a obj] by auto
    show ?thesis
    proof (cases "r = Leaf")
      case True
      then have "bn_right n = None" using n(4) by simp
      then have "btreelist_insert srt btl p obj h = insert_next btl a obj h"
        using n ne right good by (subst btreelist_insert.simps) (auto simp: srt Let_def)
      moreover have "placed lt obj ?xs = (ps @ inorder l) @ a # obj # qs" "\<not> clashes lt obj ?xs"
        using placed_between[OF good(2) _ below Node.prems(6)] good True by (simp_all add: ball_Un)
      ultimately show ?thesis
        using insert_next_list[of h btl "ps @ inorder l" a qs obj] Node.prems(1,8,9) True by (simp add: inserted_def)
    next
      case False
      then have "btreelist_insert srt btl p obj h = btreelist_insert srt btl (bn_right n) obj h"
        using n ne right good by (subst btreelist_insert.simps) (auto simp: srt Let_def tree_at_None)
      moreover have xs: "?xs = (ps @ inorder l @ [a]) @ inorder r @ qs" by simp
      ultimately show ?thesis
        using Node.IH(2)[OF _ _ n(4) False below Node.prems(6) _ _ Node.prems(9)] Node.prems(1,2,7,8) unfolding xs by simp
    qed
  next
    case left
    have above: "\<forall>b \<in> set (a # inorder r @ qs). lt obj b"
      using ord(2) left good lt_trans[of obj a] by auto
    show ?thesis
    proof (cases "l = Leaf")
      case True
      then have "bn_left n = None" using n(3) by simp
      then have "btreelist_insert srt btl p obj h = insert_prev btl a obj h"
        using n ne left good by (subst btreelist_insert.simps) (auto simp: srt Let_def)
      moreover have "placed lt obj ?xs = ps @ obj # a # inorder r @ qs" "\<not> clashes lt obj ?xs"
        using placed_between[OF good(2) _ Node.prems(5) above] good True by (simp_all add: ball_Un)
      ultimately show ?thesis
        using insert_prev_list[of h btl ps a "inorder r @ qs" obj] Node.prems(1,8,9) True by (simp add: inserted_def)
    next
      case False
      then have "btreelist_insert srt btl p obj h = btreelist_insert srt btl (bn_left n) obj h"
        using n ne left good by (subst btreelist_insert.simps) (auto simp: srt Let_def tree_at_None)
      moreover have xs: "?xs = ps @ inorder l @ (a # inorder r @ qs)" by simp
      ultimately show ?thesis
        using Node.IH(1)[OF _ _ n(3) False Node.prems(5) above _ _ Node.prems(9)] Node.prems(1,2,7,8) unfolding xs by simp
    qed
  qed
qed simp

lemma find_tree:
  assumes "tree_at h p t" and "nodes_order lt (inorder t)" and "\<forall>a \<in> set_tree t. ok a"
  shows "\<exists>q. btree_find cmp p v h = Some q \<and>
     (case q of None \<Rightarrow> \<forall>a \<in> set_tree t. cmp a v \<noteq> 0 | Some a \<Rightarrow> a \<in> set_tree t \<and> cmp a v = 0)"
  using assms
proof (induction t arbitrary: p)
  case Leaf
  then show ?case by (subst btree_find.simps) simp
next
  case (Node l a r)
  obtain n where n: "p = Some a" "h a = Some n" "tree_at h (bn_left n) l" "tree_at h (bn_right n) r"
    using Node.prems(1) by auto
  have ord: "\<forall>b \<in> set_tree l. lt b a" "\<forall>b \<in> set_tree r. lt a b" "nodes_order lt (inorder l)" "nodes_order lt (inorder r)"
    using Node.prems(2) by (auto simp: nodes_order_append nodes_order_Cons)
  have good: "ok a" "\<forall>b \<in> set_tree l. ok b" "\<forall>b \<in> set_tree r. ok b" using Node.prems(3) by auto
  have l: "cmp a v \<noteq> -1 \<Longrightarrow> \<forall>b \<in> set_tree l. cmp b v \<noteq> 0" using cmp_left[OF _ good(1)] good(2) ord(1) by force
  have r: "cmp a v \<noteq> 1 \<Longrightarrow> \<forall>b \<in> set_tree r. cmp b v \<noteq> 0" using cmp_left[OF good(1)] good(3) ord(2) by force
  consider (eq) "cmp a v = 0" | (right) "cmp a v = 1" | (left) "cmp a v = -1" using cmp_result[OF good(1)] by blast
  then show ?case
  proof cases
    case eq
    then show ?thesis using n by (subst btree_find.simps) (simp add: Let_def)
  next
    case right
    then have "btree_find cmp p v h = btree_find cmp (bn_right n) v h"
      using n by (subst btree_find.simps) (auto simp: Let_def)
    then show ?thesis using Node.IH(2)[OF n(4) ord(4) good(3)] right l by (auto split: option.splits)
  next
    case left
    then have "btree_find cmp p v h = btree_find cmp (bn_left n) v h"
      using n by (subst btree_find.simps) (auto simp: Let_def)
    then show ?thesis using Node.IH(1)[OF n(3) ord(3) good(2)] left r by (auto split: option.splits)
  qed
qed

lemma find_repr:
  assumes "btl_ordered lt h btl xs" and "\<forall>a \<in> set xs. ok a"
  shows "\<exists>q. btreelist_find (Some btl) (Some cmp) v h = Some q \<and>
     (case q of None \<Rightarrow> \<forall>a \<in> set xs. cmp a v \<noteq> 0 | Some a \<Rightarrow> a \<in> set xs \<and> cmp a v = 0)"
proof -
  obtain t where t: "tree_at h (bl_root btl) t" "inorder t = xs" using assms by (auto simp: btl_ordered_def)
  have st: "set_tree t = set xs" using t(2) by (metis set_inorder)
  have "nodes_order lt (inorder t)" "\<forall>a \<in> set_tree t. ok a" using assms t(2) st by (simp_all add: btl_ordered_def)
  then show ?thesis using find_tree[OF t(1), of v] unfolding st btreelist_find_def by simp
qed

lemma insert_repr:
  assumes "btl_ordered lt h btl xs" and "obj \<notin> set xs" and "h obj \<noteq> None" and "\<forall>a \<in> set (obj # xs). ok a"
  shows "\<exists>h' b'. btreelist_insert srt btl (bl_root btl) obj h = Some (h', b') \<and> inserted lt h btl obj xs h' b'"
proof -
  have l: "btl_list h btl xs" using assms(1) by (simp add: btl_ordered_def)
  obtain t where t: "tree_at h (bl_root btl) t" "inorder t = xs" "nodes_order lt xs" using assms(1) by (auto simp: btl_ordered_def)
  show ?thesis
  proof (cases t)
    case Leaf
    then have e: "bl_root btl = None" "bl_head btl = None" "bl_tail btl = None" "xs = []"
      using t(1,2) l by (auto simp: btl_list_def dll_empty ends_def)
    obtain n where n: "h obj = Some n" using assms(3) by blast
    show ?thesis using e n
      by (subst btreelist_insert.simps)
        (simp add: bclear_def inserted_def clashes_def placed_def btl_list_def dll_def ends_def links_def)
  next
    case (Node l a r)
    have xs: "xs = [] @ inorder t @ []" using t(2) by simp
    show ?thesis using insert_tree[of h btl "[]" t "[]" "bl_root btl" obj] t(1,3) l assms(2,3,4) Node unfolding xs by simp
  qed
qed

lemma add_repr:
  assumes "btl_ordered lt h btl xs" and "obj \<notin> set xs" and "h obj \<noteq> None" and "\<forall>a \<in> set (obj # xs). ok a"
  shows "\<exists>h' b'. btreelist_add True srt btl obj h = Some (h', b') \<and>
     btl_ordered lt h' b' (if clashes lt obj xs then xs else placed lt obj xs) \<and>
     (\<forall>b. b \<notin> insert obj (set xs) \<longrightarrow> h' b = h b)"
proof -
  let ?ys = "if clashes lt obj xs then xs else placed lt obj xs"
  obtain h1 b1 where i: "btreelist_insert srt btl (bl_root btl) obj h = Some (h1, b1)" "inserted lt h btl obj xs h1 b1"
    using insert_repr[OF assms] by blast
  have "btl_list h1 b1 ?ys" "nodes_order lt ?ys" and f: "\<forall>b. b \<notin> insert obj (set xs) \<longrightarrow> h1 b = h b"
    using i(2) assms(1,4) nodes_order_placed[of xs obj] by (auto simp: inserted_def btl_ordered_def split: if_splits)
  then obtain r h' b' where r: "btreelist_rebtree True b1 (bl_count b1 div 2) (bl_count b1) h1 = Some (r, h', b')"
      "btl_ordered lt h' (b'\<lparr>bl_root := r\<rparr>) ?ys" "tframe (set ?ys) h1 h'"
    using rebuild_repr by blast
  have "set ?ys \<subseteq> insert obj (set xs)" using set_placed by auto
  then have "\<forall>b. b \<notin> insert obj (set xs) \<longrightarrow> h' b = h b" using f r(3) unfolding tframe_def by (metis subsetD)
  then show ?thesis using i(1) r(1,2) by (auto simp: btreelist_add_def)
qed

lemma remove_repr:
  assumes "btl_ordered lt h btl xs" and "\<forall>a \<in> set xs. ok a"
  shows "\<exists>q h' b'. btreelist_remove True (Some btl) (Some cmp) v h = Some (q, h', Some b') \<and>
     btl_ordered lt h' b' (filter (\<lambda>a. cmp a v \<noteq> 0) xs) \<and> (\<forall>b. b \<notin> set xs \<longrightarrow> h' b = h b) \<and>
     (case q of
        None \<Rightarrow> \<forall>a \<in> set xs. cmp a v \<noteq> 0
      | Some a \<Rightarrow> a \<in> set xs \<and> cmp a v = 0 \<and> h' a = Some \<lparr>bn_next = None, bn_prev = None, bn_left = None, bn_right = None\<rparr>)"
proof -
  have l: "btl_list h btl xs" and s: "nodes_order lt xs" using assms by (auto simp: btl_ordered_def)
  obtain q where q: "btreelist_find (Some btl) (Some cmp) v h = Some q"
      "case q of None \<Rightarrow> \<forall>a \<in> set xs. cmp a v \<noteq> 0 | Some a \<Rightarrow> a \<in> set xs \<and> cmp a v = 0"
    using find_repr[OF assms] by blast
  show ?thesis
  proof (cases q)
    case None
    then have "filter (\<lambda>a. cmp a v \<noteq> 0) xs = xs" using q(2) by (auto simp: filter_id_conv)
    then show ?thesis using None q assms by (simp add: btreelist_remove_def)
  next
    case (Some a)
    then obtain ys zs where xs: "xs = ys @ a # zs" and a: "cmp a v = 0" using q(2) by (auto dest: split_list)
    have flt: "filter (\<lambda>a. cmp a v \<noteq> 0) xs = ys @ zs"
    proof -
      have lt: "\<forall>b \<in> set ys. lt b a" "\<forall>b \<in> set zs. lt a b" using s xs by (auto simp: nodes_order_append nodes_order_Cons)
      have "\<forall>b \<in> set ys. cmp b v \<noteq> 0" "\<forall>b \<in> set zs. cmp b v \<noteq> 0"
        using lt cmp_left[of _ a v] cmp_left[of a _ v] a assms(2) xs by force+
      then show ?thesis using xs a by (simp add: filter_id_conv)
    qed
    obtain h1 h2 b1 where u: "unlink btl a h = Some (h1, b1)" "bclear a h1 = Some h2" "btl_list h2 b1 (ys @ zs)"
        "\<forall>b. b \<notin> set xs \<longrightarrow> h2 b = h b" "h2 a = Some \<lparr>bn_next = None, bn_prev = None, bn_left = None, bn_right = None\<rparr>"
      using unlink_list[of h btl ys a zs] l xs by blast
    have "nodes_order lt (ys @ zs)" using s xs by (simp add: nodes_order_append nodes_order_Cons)
    then obtain r h' b' where r: "btreelist_rebtree True b1 (bl_count b1 div 2) (bl_count b1) h2 = Some (r, h', b')"
        "btl_ordered lt h' (b'\<lparr>bl_root := r\<rparr>) (ys @ zs)" "tframe (set (ys @ zs)) h2 h'"
      using rebuild_repr[OF u(3)] by blast
    have "a \<notin> set (ys @ zs)" using l xs by (simp add: btl_list_def dll_def)
    then have "h' a = h2 a" "\<forall>b. b \<notin> set xs \<longrightarrow> h' b = h b" using r(3) u(4) xs by (auto simp: tframe_def)
    then show ?thesis using q Some u(1,2,5) r(1,2) flt by (simp add: btreelist_remove_def)
  qed
qed

end

text \<open>Values in their order.\<close>

abbreviation btl_repr :: "(nat \<Rightarrow> u32) \<Rightarrow> bnodes \<Rightarrow> btreelist_t \<Rightarrow> nat list \<Rightarrow> bool" where
  "btl_repr k \<equiv> btl_ordered (\<lambda>a b. k a < k b)"

abbreviation with_node :: "(nat \<Rightarrow> u32) \<Rightarrow> nat \<Rightarrow> nat list \<Rightarrow> nat list" where
  "with_node k \<equiv> placed (\<lambda>a b. k a < k b)"

lemma clashes_value: "clashes (\<lambda>a b. k a < k b) x xs \<longleftrightarrow> k x \<in> k ` set xs" for k :: "nat \<Rightarrow> u32"
  unfolding clashes_def image_iff by (metis linorder_neqE less_irrefl)

lemma value_compare_0: "value_compare vals a v = 0 \<longleftrightarrow> vals a = v"
  by (auto simp: value_compare_def)

lemma value_missing: "(\<forall>a \<in> set xs. vals a \<noteq> v) \<longleftrightarrow> v \<notin> vals ` set xs"
  by auto

interpretation value_order: btree_order "value_sort vals" "value_compare vals" "\<lambda>a b. vals a < vals b" "\<lambda>_. True"
  for vals :: "nat \<Rightarrow> u32"
  by unfold_locales (auto simp: value_sort_def value_compare_def split: if_splits)

section \<open>Failure and destruction\<close>

text \<open>Without memory for the array, every change that leaves a node in the list dereferences the null array.\<close>

lemma rebuild_without_memory:
  assumes "0 < bl_count btl"
  shows "btreelist_rebtree False btl (bl_count btl div 2) (bl_count btl) h = None"
  using assms by (subst btreelist_rebtree.simps) (simp add: rebuild_array_def array_node_def)

lemma destroy_seg:
  assumes "seg (links h) p ys None" and "distinct ys"
  shows "destroy_nodes (fopt ys None) h = Some (\<lambda>b. if b \<in> set ys then None else h b)"
  using assms
proof (induction ys arbitrary: p h)
  case Nil
  then show ?case by (subst destroy_nodes.simps) simp
next
  case (Cons a ys)
  obtain n where n: "h a = Some n" "bn_next n = fopt ys None" and s: "seg (links h) (Some a) ys None"
    using Cons.prems(1) by (auto simp: links_def)
  have "seg (links (h(a := None))) (Some a) ys None"
    using s Cons.prems(2) by (subst seg_cong[of ys _ "links h"]) (auto simp: links_def)
  then have "destroy_nodes (fopt ys None) (h(a := None)) = Some (\<lambda>b. if b \<in> set ys then None else (h(a := None)) b)"
    using Cons.IH Cons.prems(2) by simp
  then show ?case using n by (subst destroy_nodes.simps) (auto simp: fun_eq_iff)
qed

text \<open>Destroying a list frees exactly its nodes.\<close>

lemma btreelist_destroy_frees:
  "btl_list h btl xs \<Longrightarrow> btreelist_destroy btl h = Some (\<lambda>b. if b \<in> set xs then None else h b)"
  using destroy_seg[of h None xs] by (simp add: btl_list_def dll_def ends_def btreelist_destroy_def)

section \<open>Properties\<close>

lemma btl_repr_empty: "btreelist_create True = Some b \<Longrightarrow> btl_ordered lt h b []"
  by (auto simp: btreelist_create_def btl_ordered_def btl_list_def dll_empty ends_def nodes_order_def intro!: exI[of _ Leaf])

text \<open>
  C10. \<open>btreelist_add\<close> on a list of nodes with distinct values returns without a fault, and the result represents the list with
  the new node in its place, or the same list if its value is already there: sorted, linked both ways, searched by a tree
  over the same nodes whose height is minimal up to one level, and with the right count. No other node is changed.
\<close>
theorem btree_add_refines:
  assumes "btl_repr vals h btl xs" and "obj \<notin> set xs" and "h obj \<noteq> None"
  shows "\<exists>h' b'. btreelist_add True (value_sort vals) btl obj h = Some (h', b') \<and>
     btl_repr vals h' b' (if vals obj \<in> vals ` set xs then xs else with_node vals obj xs) \<and>
     (\<forall>b. b \<notin> insert obj (set xs) \<longrightarrow> h' b = h b)"
  using value_order.add_repr[OF assms] by (simp add: clashes_value)

definition ex_bnode :: btreelistnode_t where
  "ex_bnode = \<lparr>bn_next = None, bn_prev = None, bn_left = None, bn_right = None\<rparr>"

lemma btree_add_refines_witness:
  "\<exists>h' b'. btreelist_add True (value_sort (\<lambda>a. of_nat a))
       \<lparr>bl_root = None, bl_head = None, bl_tail = None, bl_array = None, bl_count = 0\<rparr> 7 [7 \<mapsto> ex_bnode] = Some (h', b') \<and>
     btl_repr (\<lambda>a. of_nat a) h' b' [7]"
  using btree_add_refines[OF btl_repr_empty[of _ "\<lambda>a b. (of_nat a :: u32) < of_nat b" "[7 \<mapsto> ex_bnode]"], of _ 7]
  by (auto simp: btreelist_create_def placed_def)

text \<open>
  C11. \<open>btreelist_remove\<close> finds the node of a value by binary search, whatever is in the list: it returns null exactly when no node
  has the value and otherwise takes the node out of the list and the tree, cleared, leaving a well-formed list of
  the others. The search before it returns the same node and changes nothing.
\<close>
theorem btree_remove_refines:
  assumes "btl_repr vals h btl xs"
  shows "\<exists>q h' b'. btreelist_find (Some btl) (Some (value_compare vals)) v h = Some q \<and>
     btreelist_remove True (Some btl) (Some (value_compare vals)) v h = Some (q, h', Some b') \<and>
     btl_repr vals h' b' (filter (\<lambda>a. vals a \<noteq> v) xs) \<and> (\<forall>b. b \<notin> set xs \<longrightarrow> h' b = h b) \<and>
     (case q of
        None \<Rightarrow> v \<notin> vals ` set xs
      | Some a \<Rightarrow> a \<in> set xs \<and> vals a = v \<and> h' a = Some \<lparr>bn_next = None, bn_prev = None, bn_left = None, bn_right = None\<rparr>)"
proof -
  obtain q h' b' where r: "btreelist_remove True (Some btl) (Some (value_compare vals)) v h = Some (q, h', Some b')"
      "btl_repr vals h' b' (filter (\<lambda>a. vals a \<noteq> v) xs)" "\<forall>b. b \<notin> set xs \<longrightarrow> h' b = h b"
      "case q of None \<Rightarrow> v \<notin> vals ` set xs
       | Some a \<Rightarrow> a \<in> set xs \<and> vals a = v \<and> h' a = Some \<lparr>bn_next = None, bn_prev = None, bn_left = None, bn_right = None\<rparr>"
    using value_order.remove_repr[OF assms ballI[OF TrueI], of v] unfolding value_compare_0 value_missing by blast
  obtain p where p: "btreelist_find (Some btl) (Some (value_compare vals)) v h = Some p"
    using value_order.find_repr[OF assms, of v] by auto
  then have "p = q" using r(1) by (cases p) (auto simp: btreelist_remove_def split: bind_splits prod.splits)
  then show ?thesis using p r by blast
qed

lemma btree_remove_refines_witness:
  "\<exists>q h' b'. btreelist_remove True (Some \<lparr>bl_root = None, bl_head = None, bl_tail = None, bl_array = None, bl_count = 0\<rparr>)
     (Some (value_compare (\<lambda>a. of_nat a))) 3 (\<lambda>_. None) = Some (q, h', Some b') \<and> btl_repr (\<lambda>a. of_nat a) h' b' []"
  using btree_remove_refines[OF btl_repr_empty[of _ "\<lambda>a b. (of_nat a :: u32) < of_nat b" "\<lambda>_. None"], of _ 3]
  by (auto simp: btreelist_create_def)

end
