(* ===== verification/Sosal_Ini.thy ===== *)
theory Sosal_Ini
  imports Dvp_Prelude
begin

text \<open>
  The settings parser of \<open>source/sosal/ini.c\<close>: one pass over the characters with five states and three
  buffers of 255 characters. The call-backs are recorded in the order in which they are made. Correctness is
  a round trip: a printed document is parsed to its entries. Comments break it, as shown at the end.
\<close>

section \<open>The parser\<close>

datatype ini_state_e = INI_NONE | INI_SEC | INI_VAR | INI_VAL | INI_COM

datatype ini_chars_e = INI_NATURAL | INI_LOWER | INI_UPPER

text \<open>
  The local variables of \<open>ini_parse\<close>. A buffer is the list of its 255 cells. The section buffer is
  not cleared at the start: \<open>strcpy\<close> writes the seven bytes of \<open>GLOBAL\<close> and leaves the rest as it finds
  it on the stack, which is a parameter of the model.
\<close>

record ini =
  i_state :: ini_state_e
  i_section :: string
  i_s1 :: nat
  i_variable :: string
  i_s2 :: nat
  i_value :: string
  i_s3 :: nat
  i_calls :: "(string \<times> string \<times> string) list"

abbreviation NUL :: char where
  "NUL \<equiv> CHR 0x00"

abbreviation INI_LENGTH :: nat where
  "INI_LENGTH \<equiv> 255"

definition ini_clear :: string where
  "ini_clear = replicate INI_LENGTH NUL"

definition ini_start :: "string \<Rightarrow> ini" where
  "ini_start junk =
     \<lparr>i_state = INI_SEC, i_section = ''GLOBAL'' @ NUL # take (INI_LENGTH - 7) junk, i_s1 = 0,
      i_variable = ini_clear, i_s2 = 0, i_value = ini_clear, i_s3 = 0, i_calls = []\<rparr>"

definition ini_case :: "ini_chars_e \<Rightarrow> char \<Rightarrow> char" where
  "ini_case cc c =
     (let n = (of_char c :: nat) in
      case cc of
        INI_UPPER \<Rightarrow> if 97 \<le> n \<and> n \<le> 122 then char_of (n - 97 + 65) else c
      | INI_LOWER \<Rightarrow> if 65 \<le> n \<and> n \<le> 90 then char_of (n - 65 + 97) else c
      | INI_NATURAL \<Rightarrow> c)"

text \<open>The string a call-back reads from a buffer; without a terminator it reads past the end.\<close>

definition c_string :: "string \<Rightarrow> string option" where
  "c_string buf = (if NUL \<in> set buf then Some (takeWhile (\<lambda>c. c \<noteq> NUL) buf) else None)"

definition ini_complete :: "ini \<Rightarrow> bool" where
  "ini_complete p \<longleftrightarrow> i_section p ! 0 \<noteq> NUL \<and> i_variable p ! 0 \<noteq> NUL \<and> i_value p ! 0 \<noteq> NUL"

text \<open>The call-back and the clearing of the variable and the value after it.\<close>

definition ini_emit :: "ini \<Rightarrow> ini option" where
  "ini_emit p = do {
     s \<leftarrow> c_string (i_section p);
     x \<leftarrow> c_string (i_variable p);
     v \<leftarrow> c_string (i_value p);
     Some (p\<lparr>i_calls := i_calls p @ [(s, x, v)], i_variable := ini_clear, i_s2 := 0, i_value := ini_clear, i_s3 := 0\<rparr>) }"

text \<open>The default case of the switch: the character is part of a name or a value.\<close>

definition ini_store :: "char \<Rightarrow> ini \<Rightarrow> ini" where
  "ini_store c p =
     (case i_state p of
        INI_NONE \<Rightarrow> p
      | INI_COM \<Rightarrow> p
      | INI_SEC \<Rightarrow> if i_s1 p < INI_LENGTH then p\<lparr>i_section := (i_section p)[i_s1 p := c], i_s1 := i_s1 p + 1\<rparr> else p
      | INI_VAR \<Rightarrow> if i_s2 p < INI_LENGTH then p\<lparr>i_variable := (i_variable p)[i_s2 p := c], i_s2 := i_s2 p + 1\<rparr> else p
      | INI_VAL \<Rightarrow> if i_s3 p < INI_LENGTH then p\<lparr>i_value := (i_value p)[i_s3 p := c], i_s3 := i_s3 p + 1\<rparr> else p)"

definition ini_char :: "char \<Rightarrow> ini \<Rightarrow> ini option" where
  "ini_char c p =
     (if c = CHR ''#'' \<or> c = CHR '';'' then Some (p\<lparr>i_state := INI_COM\<rparr>)
      else if c = CHR ''['' then
        Some (p\<lparr>i_state := INI_SEC, i_s1 := 0, i_section := ini_clear, i_variable := ini_clear, i_value := ini_clear\<rparr>)
      else if c = CHR '']'' then Some (p\<lparr>i_state := INI_VAR, i_s2 := 0, i_variable := ini_clear, i_value := ini_clear\<rparr>)
      else if c = CHR ''='' then Some (p\<lparr>i_state := INI_VAL, i_s3 := 0, i_value := ini_clear\<rparr>)
      else if c = CHR 0x09 \<or> c = CHR '' '' \<or> c = CHR 0x22 then Some p
      else if c = CHR 0x0A \<or> c = CHR 0x0D \<or> c = NUL then
        (if i_state p = INI_VAL then do {
           p1 \<leftarrow> (if ini_complete p then ini_emit p else Some p);
           Some (p1\<lparr>i_state := INI_VAR\<rparr>) }
         else Some p)
      else Some (ini_store c p))"

fun ini_loop :: "ini_chars_e \<Rightarrow> string \<Rightarrow> ini \<Rightarrow> ini option" where
  "ini_loop cc [] p = Some p"
| "ini_loop cc (c # cs) p = do { p1 \<leftarrow> ini_char (ini_case cc c) p; ini_loop cc cs p1 }"

definition ini_parse :: "string \<Rightarrow> ini_chars_e \<Rightarrow> string \<Rightarrow> (string \<times> string \<times> string) list option" where
  "ini_parse junk cc buffer = do {
     p \<leftarrow> ini_loop cc buffer (ini_start junk);
     p1 \<leftarrow> (if ini_complete p then ini_emit p else Some p);
     Some (i_calls p1) }"

section \<open>Names and lines\<close>

text \<open>A name or value that the syntax does not interfere with: plain characters that fit the buffer.\<close>

definition plain_char :: "char \<Rightarrow> bool" where
  "plain_char c \<longleftrightarrow> c \<notin> {CHR ''#'', CHR '';'', CHR ''['', CHR '']'', CHR ''='', CHR 0x09, CHR '' '', CHR 0x22,
                        CHR 0x0A, CHR 0x0D, NUL}"

definition ini_word :: "string \<Rightarrow> bool" where
  "ini_word s \<longleftrightarrow> s \<noteq> [] \<and> length s < INI_LENGTH \<and> list_all plain_char s"

definition line_end :: string where
  "line_end = [CHR 0x0A]"

definition print_entry :: "string \<times> string \<Rightarrow> string" where
  "print_entry e = fst e @ ''='' @ snd e @ line_end"

definition print_section :: "string \<times> (string \<times> string) list \<Rightarrow> string" where
  "print_section s = ''['' @ fst s @ '']'' @ line_end @ concat (map print_entry (snd s))"

definition section_calls :: "string \<times> (string \<times> string) list \<Rightarrow> (string \<times> string \<times> string) list" where
  "section_calls s = map (\<lambda>e. (fst s, fst e, snd e)) (snd s)"

definition ini_entry :: "string \<times> string \<Rightarrow> bool" where
  "ini_entry e \<longleftrightarrow> ini_word (fst e) \<and> ini_word (snd e)"

definition ini_section :: "string \<times> (string \<times> string) list \<Rightarrow> bool" where
  "ini_section s \<longleftrightarrow> ini_word (fst s) \<and> list_all ini_entry (snd s)"

text \<open>The content of a buffer that holds a string.\<close>

definition ini_buf :: "string \<Rightarrow> string" where
  "ini_buf s = s @ replicate (INI_LENGTH - length s) NUL"

lemma ini_buf_Nil: "ini_buf [] = ini_clear"
  by (simp add: ini_buf_def ini_clear_def)

lemma plain_not_NUL: "list_all plain_char s \<Longrightarrow> NUL \<notin> set s"
  by (auto simp: list_all_iff plain_char_def)

lemma c_string_buf:
  assumes "list_all plain_char s" and "length s < INI_LENGTH"
  shows "c_string (ini_buf s) = Some s"
proof -
  have "takeWhile (\<lambda>c. c \<noteq> NUL) (ini_buf s) = s"
    using plain_not_NUL[OF assms(1)] assms(2)
    by (auto simp: ini_buf_def takeWhile_append list_all_iff plain_char_def split: if_splits)
  moreover have "NUL \<in> set (ini_buf s)" using assms(2) by (auto simp: ini_buf_def)
  ultimately show ?thesis by (simp add: c_string_def)
qed

lemma ini_buf_first: "(ini_buf s ! 0 \<noteq> NUL) = (s \<noteq> [] \<and> hd s \<noteq> NUL)"
  by (cases s) (auto simp: ini_buf_def)

lemma ini_buf_update:
  assumes "length s < INI_LENGTH"
  shows "(ini_buf s)[length s := c] = ini_buf (s @ [c])"
proof -
  obtain k where k: "INI_LENGTH - length s = Suc k" using assms by (cases "INI_LENGTH - length s") auto
  have "INI_LENGTH - length (s @ [c]) = k" using k by simp
  then show ?thesis using k unfolding ini_buf_def by (simp add: list_update_append)
qed

lemma ini_loop_append:
  "ini_loop cc (xs @ ys) p = Option.bind (ini_loop cc xs p) (ini_loop cc ys)"
proof (induction xs arbitrary: p)
  case (Cons c xs)
  show ?case by (cases "ini_char (ini_case cc c) p") (simp_all add: Cons.IH)
qed simp

lemma ini_then: "ini_loop cc xs p = Some q \<Longrightarrow> ini_loop cc (xs @ ys) p = ini_loop cc ys q"
  by (simp add: ini_loop_append)

lemma ini_case_natural [simp]: "ini_case INI_NATURAL c = c"
  by (simp add: ini_case_def)

lemma ini_char_plain: "plain_char c \<Longrightarrow> ini_char c p = Some (ini_store c p)"
  by (simp add: ini_char_def plain_char_def)

text \<open>
  What the parser knows between two lines of a section: the name of the section, and that no variable has been
  read. The value buffer is left open, since only the next \<open>=\<close> clears it.
\<close>

definition ini_ready :: "string \<Rightarrow> (string \<times> string \<times> string) list \<Rightarrow> ini \<Rightarrow> bool" where
  "ini_ready s calls p \<longleftrightarrow>
     i_state p = INI_VAR \<and> i_section p = ini_buf s \<and> i_variable p = ini_clear \<and> i_s2 p = 0 \<and> i_calls p = calls"

lemma ini_word_plain: "ini_word s \<Longrightarrow> list_all plain_char s" "ini_word s \<Longrightarrow> length s < INI_LENGTH" "ini_word s \<Longrightarrow> s \<noteq> []"
  by (auto simp: ini_word_def)

lemma ini_word_hd: "ini_word s \<Longrightarrow> hd s \<noteq> NUL"
  by (cases s) (auto simp: ini_word_def plain_char_def)

text \<open>A plain word goes to the buffer of the state and nowhere else.\<close>

lemma ini_read_section:
  assumes "list_all plain_char w" and "length (t @ w) < INI_LENGTH" and "i_state p = INI_SEC"
    and "i_section p = ini_buf t" and "i_s1 p = length t"
  shows "ini_loop INI_NATURAL w p = Some (p\<lparr>i_section := ini_buf (t @ w), i_s1 := length (t @ w)\<rparr>)"
  using assms
proof (induction w arbitrary: t p)
  case (Cons c w)
  let ?p = "p\<lparr>i_section := ini_buf (t @ [c]), i_s1 := length (t @ [c])\<rparr>"
  have "ini_char c p = Some ?p"
    using Cons.prems by (simp add: ini_char_plain ini_store_def ini_buf_update)
  then show ?case using Cons.IH[of "t @ [c]" ?p] Cons.prems by simp
qed simp

lemma ini_read_variable:
  assumes "list_all plain_char w" and "length (t @ w) < INI_LENGTH" and "i_state p = INI_VAR"
    and "i_variable p = ini_buf t" and "i_s2 p = length t"
  shows "ini_loop INI_NATURAL w p = Some (p\<lparr>i_variable := ini_buf (t @ w), i_s2 := length (t @ w)\<rparr>)"
  using assms
proof (induction w arbitrary: t p)
  case (Cons c w)
  let ?p = "p\<lparr>i_variable := ini_buf (t @ [c]), i_s2 := length (t @ [c])\<rparr>"
  have "ini_char c p = Some ?p"
    using Cons.prems by (simp add: ini_char_plain ini_store_def ini_buf_update)
  then show ?case using Cons.IH[of "t @ [c]" ?p] Cons.prems by simp
qed simp

lemma ini_read_value:
  assumes "list_all plain_char w" and "length (t @ w) < INI_LENGTH" and "i_state p = INI_VAL"
    and "i_value p = ini_buf t" and "i_s3 p = length t"
  shows "ini_loop INI_NATURAL w p = Some (p\<lparr>i_value := ini_buf (t @ w), i_s3 := length (t @ w)\<rparr>)"
  using assms
proof (induction w arbitrary: t p)
  case (Cons c w)
  let ?p = "p\<lparr>i_value := ini_buf (t @ [c]), i_s3 := length (t @ [c])\<rparr>"
  have "ini_char c p = Some ?p"
    using Cons.prems by (simp add: ini_char_plain ini_store_def ini_buf_update)
  then show ?case using Cons.IH[of "t @ [c]" ?p] Cons.prems by simp
qed simp

lemma ini_skip_comment:
  assumes "list_all plain_char w" and "i_state p = INI_COM"
  shows "ini_loop INI_NATURAL w p = Some p"
  using assms by (induction w) (simp_all add: ini_char_plain ini_store_def)

text \<open>The value part of a line, from the equals sign to the end of the line.\<close>

lemma ini_assign:
  assumes "ini_word v"
  shows "ini_loop INI_NATURAL (''='' @ v) p =
     Some (p\<lparr>i_state := INI_VAL, i_value := ini_buf v, i_s3 := length v\<rparr>)"
  using ini_read_value[of v "[]" "p\<lparr>i_state := INI_VAL, i_s3 := 0, i_value := ini_clear\<rparr>"] ini_word_plain[OF assms]
  by (simp add: ini_char_def ini_buf_Nil)

lemma ini_end_value:
  assumes "i_state p = INI_VAL" and "i_section p = ini_buf s" and "ini_word s"
    and "i_variable p = ini_buf x" and "ini_word x" and "i_value p = ini_buf v" and "ini_word v"
  shows "\<exists>p'. ini_loop INI_NATURAL line_end p = Some p' \<and> ini_ready s (i_calls p @ [(s, x, v)]) p'"
  using assms
  by (simp add: line_end_def ini_char_def ini_complete_def ini_emit_def ini_buf_first ini_word_hd ini_word_plain
      c_string_buf ini_ready_def)

lemma ini_line:
  assumes "ini_ready s calls p" and "ini_word s" and "ini_entry e"
  shows "\<exists>p'. ini_loop INI_NATURAL (print_entry e) p = Some p' \<and> ini_ready s (calls @ [(s, fst e, snd e)]) p'"
proof -
  have w: "ini_word (fst e)" "ini_word (snd e)" using assms(3) by (auto simp: ini_entry_def)
  let ?p = "p\<lparr>i_variable := ini_buf (fst e), i_s2 := length (fst e)\<rparr>"
  have v: "ini_loop INI_NATURAL (fst e) p = Some ?p"
    using ini_read_variable[of "fst e" "[]" p] assms(1) ini_word_plain[OF w(1)]
    by (simp add: ini_ready_def ini_buf_Nil)
  let ?q = "?p\<lparr>i_state := INI_VAL, i_value := ini_buf (snd e), i_s3 := length (snd e)\<rparr>"
  have "ini_loop INI_NATURAL (fst e @ (''='' @ snd e) @ line_end) p = ini_loop INI_NATURAL line_end ?q"
    by (simp only: ini_then[OF v] ini_then[OF ini_assign[OF w(2)]])
  moreover have "\<exists>p'. ini_loop INI_NATURAL line_end ?q = Some p' \<and> ini_ready s (calls @ [(s, fst e, snd e)]) p'"
    using ini_end_value[of ?q s "fst e" "snd e"] assms w by (simp add: ini_ready_def)
  ultimately show ?thesis by (simp add: print_entry_def)
qed

lemma ini_header:
  assumes "ini_word s"
  shows "\<exists>p'. ini_loop INI_NATURAL (''['' @ s @ '']'' @ line_end) p = Some p' \<and> ini_ready s (i_calls p) p'"
proof -
  let ?p = "p\<lparr>i_state := INI_SEC, i_s1 := 0, i_section := ini_clear, i_variable := ini_clear, i_value := ini_clear\<rparr>"
  have "ini_loop INI_NATURAL s ?p = Some (?p\<lparr>i_section := ini_buf s, i_s1 := length s\<rparr>)"
    using ini_read_section[of s "[]" ?p] ini_word_plain[OF assms] by (simp add: ini_buf_Nil)
  then show ?thesis by (simp add: ini_loop_append ini_char_def line_end_def ini_ready_def)
qed

lemma ini_lines:
  assumes "ini_ready s calls p" and "ini_word s" and "list_all ini_entry es"
  shows "\<exists>p'. ini_loop INI_NATURAL (concat (map print_entry es)) p = Some p' \<and>
     ini_ready s (calls @ section_calls (s, es)) p'"
  using assms
proof (induction es arbitrary: calls p)
  case (Cons e es)
  obtain p1 where p1: "ini_loop INI_NATURAL (print_entry e) p = Some p1"
      "ini_ready s (calls @ [(s, fst e, snd e)]) p1"
    using ini_line[of s calls p e] Cons.prems by auto
  show ?case using Cons.IH[OF p1(2)] Cons.prems p1(1) by (simp add: ini_loop_append section_calls_def)
qed (simp add: section_calls_def)

lemma ini_print_section:
  assumes "ini_section s"
  shows "\<exists>p'. ini_loop INI_NATURAL (print_section s) p = Some p' \<and>
     ini_ready (fst s) (i_calls p @ section_calls s) p'"
proof -
  have w: "ini_word (fst s)" "list_all ini_entry (snd s)" using assms by (auto simp: ini_section_def)
  obtain p1 where p1: "ini_loop INI_NATURAL (''['' @ fst s @ '']'' @ line_end) p = Some p1" "ini_ready (fst s) (i_calls p) p1"
    using ini_header[OF w(1)] by blast
  have "print_section s = (''['' @ fst s @ '']'' @ line_end) @ concat (map print_entry (snd s))"
    by (simp add: print_section_def)
  then have "ini_loop INI_NATURAL (print_section s) p = ini_loop INI_NATURAL (concat (map print_entry (snd s))) p1"
    by (simp only: ini_then[OF p1(1)])
  then show ?thesis using ini_lines[OF p1(2) w] by simp
qed

text \<open>No entry is left over between two sections.\<close>

lemma ini_print_doc:
  assumes "list_all ini_section doc" and "i_variable p ! 0 = NUL"
  shows "\<exists>p'. ini_loop INI_NATURAL (concat (map print_section doc)) p = Some p' \<and>
     i_calls p' = i_calls p @ concat (map section_calls doc) \<and> i_variable p' ! 0 = NUL"
  using assms
proof (induction doc arbitrary: p)
  case (Cons s doc)
  obtain p1 where p1: "ini_loop INI_NATURAL (print_section s) p = Some p1" "ini_ready (fst s) (i_calls p @ section_calls s) p1"
    using ini_print_section[of s p] Cons.prems by auto
  have "i_variable p1 ! 0 = NUL" "i_calls p1 = i_calls p @ section_calls s"
    using p1(2) by (simp_all add: ini_ready_def ini_clear_def)
  then show ?case using Cons.IH[of p1] Cons.prems p1(1) by (simp add: ini_loop_append)
qed simp

section \<open>Blanks and case\<close>

definition ini_blank :: "char \<Rightarrow> bool" where
  "ini_blank c \<longleftrightarrow> c = CHR 0x09 \<or> c = CHR '' '' \<or> c = CHR 0x22"

lemma ini_loop_blanks:
  "ini_loop INI_NATURAL (filter (\<lambda>c. \<not> ini_blank c) cs) p = ini_loop INI_NATURAL cs p"
proof (induction cs arbitrary: p)
  case (Cons c cs)
  have "ini_blank c \<Longrightarrow> ini_char c p = Some p" by (auto simp: ini_blank_def ini_char_def)
  then show ?case using Cons.IH by (cases "ini_char c p") auto
qed simp

lemma ini_parse_case: "ini_parse junk cc buffer = ini_parse junk INI_NATURAL (map (ini_case cc) buffer)"
proof -
  have "ini_loop cc buffer p = ini_loop INI_NATURAL (map (ini_case cc) buffer) p" for p
  proof (induction buffer arbitrary: p)
    case (Cons c buffer)
    then show ?case by (cases "ini_char (ini_case cc c) p") simp_all
  qed simp
  then show ?thesis by (simp add: ini_parse_def)
qed

text \<open>
  C35. \<open>ini_parse\<close> of a document, printed section by section and line by line with blanks, tabs and quotation
  marks anywhere in it, never reads past a buffer and makes exactly one call-back per entry, in order, with
  the names and the value of the entry.
\<close>
theorem ini_roundtrip:
  assumes "list_all ini_section doc"
    and "filter (\<lambda>c. \<not> ini_blank c) buffer = concat (map print_section doc)"
  shows "ini_parse junk INI_NATURAL buffer = Some (concat (map section_calls doc))"
proof -
  obtain p where p: "ini_loop INI_NATURAL buffer (ini_start junk) = Some p"
      "i_calls p = concat (map section_calls doc)" "i_variable p ! 0 = NUL"
    using ini_print_doc[OF assms(1), of "ini_start junk"] assms(2) ini_loop_blanks[of buffer]
    by (auto simp: ini_start_def ini_clear_def)
  then show ?thesis by (simp add: ini_parse_def ini_complete_def)
qed

lemma ini_roundtrip_witness:
  "ini_parse [] INI_NATURAL (''['' @ ''video'' @ '']'' @ line_end @ ''width = '' @ [CHR 0x22] @ ''640'' @ [CHR 0x22] @ line_end) =
     Some [(''video'', ''width'', ''640'')]"
proof -
  let ?d = "[(''video'', [(''width'', ''640'')])]"
  have "list_all ini_section ?d" by (simp add: ini_section_def ini_entry_def ini_word_def plain_char_def)
  moreover have "filter (\<lambda>c. \<not> ini_blank c)
      (''['' @ ''video'' @ '']'' @ line_end @ ''width = '' @ [CHR 0x22] @ ''640'' @ [CHR 0x22] @ line_end) =
      concat (map print_section ?d)"
    by (simp add: ini_blank_def print_section_def print_entry_def line_end_def)
  ultimately show ?thesis using ini_roundtrip[of ?d] by (simp add: section_calls_def)
qed

section \<open>Comments, and entries before the first section\<close>

text \<open>
  A comment ends the state in which names are read, and only an equals sign or a bracket starts it again: the end
  of the line does so only in the middle of a value.
\<close>

lemma ini_comment_line:
  assumes "ini_ready s calls p" and "list_all plain_char c"
  shows "ini_loop INI_NATURAL (''#'' @ c @ line_end) p = Some (p\<lparr>i_state := INI_COM\<rparr>)"
proof -
  have "ini_loop INI_NATURAL ''#'' p = Some (p\<lparr>i_state := INI_COM\<rparr>)" by (simp add: ini_char_def)
  moreover have "ini_loop INI_NATURAL c (p\<lparr>i_state := INI_COM\<rparr>) = Some (p\<lparr>i_state := INI_COM\<rparr>)"
    using assms(2) by (intro ini_skip_comment) simp_all
  ultimately show ?thesis by (simp only: ini_then) (simp add: line_end_def ini_char_def)
qed

lemma ini_line_in_comment:
  assumes "i_state p = INI_COM" and "i_section p = ini_buf s" and "i_variable p = ini_clear" and "i_s2 p = 0"
    and "ini_entry e"
  shows "\<exists>p'. ini_loop INI_NATURAL (print_entry e) p = Some p' \<and> ini_ready s (i_calls p) p'"
proof -
  have w: "ini_word (fst e)" "ini_word (snd e)" using assms(5) by (auto simp: ini_entry_def)
  let ?q = "p\<lparr>i_state := INI_VAL, i_value := ini_buf (snd e), i_s3 := length (snd e)\<rparr>"
  have "ini_loop INI_NATURAL (fst e @ (''='' @ snd e) @ line_end) p = ini_loop INI_NATURAL line_end ?q"
    by (simp only: ini_then[OF ini_skip_comment[OF ini_word_plain(1)[OF w(1)] assms(1)]] ini_then[OF ini_assign[OF w(2)]])
  then show ?thesis
    using assms by (simp add: print_entry_def line_end_def ini_char_def ini_complete_def ini_clear_def ini_ready_def)
qed

lemma ini_trailing_comment:
  assumes "ini_ready s calls p" and "ini_word s" and "ini_entry e" and "ini_entry f" and "list_all plain_char c"
  shows "\<exists>p'. ini_loop INI_NATURAL (fst e @ (''='' @ snd e) @ ''#'' @ c @ line_end @ print_entry f) p = Some p' \<and>
     ini_ready s (calls @ [(s, fst e, snd f)]) p'"
proof -
  have w: "ini_word (fst e)" "ini_word (snd e)" "ini_word (fst f)" "ini_word (snd f)"
    using assms(3,4) by (auto simp: ini_entry_def)
  let ?p = "p\<lparr>i_variable := ini_buf (fst e), i_s2 := length (fst e)\<rparr>"
  let ?c = "?p\<lparr>i_value := ini_buf (snd e), i_s3 := length (snd e), i_state := INI_COM\<rparr>"
  let ?q = "?p\<lparr>i_state := INI_VAL, i_value := ini_buf (snd f), i_s3 := length (snd f)\<rparr>"
  have v: "ini_loop INI_NATURAL (fst e) p = Some ?p"
    using ini_read_variable[of "fst e" "[]" p] assms(1) ini_word_plain[OF w(1)]
    by (simp add: ini_ready_def ini_buf_Nil)
  have c: "ini_loop INI_NATURAL (''#'' @ c) (?p\<lparr>i_state := INI_VAL, i_value := ini_buf (snd e), i_s3 := length (snd e)\<rparr>) = Some ?c"
    using ini_skip_comment[OF assms(5), of ?c] by (simp add: ini_char_def)
  have l: "ini_loop INI_NATURAL line_end ?c = Some ?c" by (simp add: line_end_def ini_char_def)
  have f: "ini_loop INI_NATURAL (fst f) ?c = Some ?c" using ini_word_plain(1)[OF w(3)] by (intro ini_skip_comment) simp_all
  have a: "ini_loop INI_NATURAL (''='' @ snd f) ?c = Some ?q" using ini_assign[OF w(4), of ?c] by simp
  have "ini_loop INI_NATURAL (fst e @ (''='' @ snd e) @ (''#'' @ c) @ line_end @ fst f @ (''='' @ snd f) @ line_end) p =
      ini_loop INI_NATURAL line_end ?q"
    by (simp only: ini_then[OF v] ini_then[OF ini_assign[OF w(2)]] ini_then[OF c] ini_then[OF l] ini_then[OF f] ini_then[OF a])
  moreover have "\<exists>p'. ini_loop INI_NATURAL line_end ?q = Some p' \<and> ini_ready s (calls @ [(s, fst e, snd f)]) p'"
    using ini_end_value[of ?q s "fst e" "snd f"] assms(1,2) w by (simp add: ini_ready_def)
  ultimately show ?thesis by (simp add: print_entry_def)
qed

lemma ini_finish: "ini_ready s calls p \<Longrightarrow> \<not> ini_complete p \<and> i_calls p = calls"
  by (simp add: ini_ready_def ini_complete_def ini_clear_def)

lemma ini_parse_ready:
  "ini_loop INI_NATURAL buffer (ini_start junk) = Some p \<Longrightarrow> ini_ready s calls p \<Longrightarrow>
   ini_parse junk INI_NATURAL buffer = Some calls"
  using ini_finish by (simp add: ini_parse_def)

text \<open>
  Comments are not safe. A comment behind a value gives the variable of its line the value of the next line,
  and a comment on a line of its own swallows the entry on the next line.
\<close>
theorem ini_comments_lose_entries:
  assumes "ini_word s" and "ini_entry (x, v)" and "ini_entry (y, w)" and "list_all plain_char c"
  shows "ini_parse junk INI_NATURAL
       (''['' @ s @ '']'' @ line_end @ x @ ''='' @ v @ ''#'' @ c @ line_end @ print_entry (y, w)) = Some [(s, x, w)] \<and>
    ini_parse junk INI_NATURAL
       (''['' @ s @ '']'' @ line_end @ ''#'' @ c @ line_end @ print_entry (x, v) @ print_entry (y, w)) = Some [(s, y, w)]"
proof -
  obtain p where "ini_loop INI_NATURAL (''['' @ s @ '']'' @ line_end) (ini_start junk) = Some p"
      and r: "ini_ready s [] p"
    using ini_header[OF assms(1), of "ini_start junk"] by (auto simp: ini_start_def)
  note h = ini_then[OF this(1), simplified append_assoc]
  obtain q where "ini_loop INI_NATURAL (x @ (''='' @ v) @ ''#'' @ c @ line_end @ print_entry (y, w)) p = Some q"
      "ini_ready s [(s, x, w)] q"
    using ini_trailing_comment[OF r assms] by auto
  then have a: "ini_parse junk INI_NATURAL
       (''['' @ s @ '']'' @ line_end @ x @ ''='' @ v @ ''#'' @ c @ line_end @ print_entry (y, w)) = Some [(s, x, w)]"
    using h[of "x @ ''='' @ v @ ''#'' @ c @ line_end @ print_entry (y, w)"] by (intro ini_parse_ready) simp_all
  obtain p1 where p1: "ini_loop INI_NATURAL (print_entry (x, v)) (p\<lparr>i_state := INI_COM\<rparr>) = Some p1" "ini_ready s [] p1"
    using ini_line_in_comment[of "p\<lparr>i_state := INI_COM\<rparr>" s "(x, v)"] r assms(2) by (auto simp: ini_ready_def)
  obtain p2 where p2: "ini_loop INI_NATURAL (print_entry (y, w)) p1 = Some p2" "ini_ready s [(s, y, w)] p2"
    using ini_line[OF p1(2) assms(1,3)] by auto
  have "ini_loop INI_NATURAL ((''#'' @ c @ line_end) @ print_entry (x, v) @ print_entry (y, w)) p = Some p2"
    by (simp only: ini_then[OF ini_comment_line[OF r assms(4)]] ini_then[OF p1(1)] p2(1))
  then have b: "ini_parse junk INI_NATURAL
       (''['' @ s @ '']'' @ line_end @ ''#'' @ c @ line_end @ print_entry (x, v) @ print_entry (y, w)) = Some [(s, y, w)]"
    using h[of "''#'' @ c @ line_end @ print_entry (x, v) @ print_entry (y, w)"] p2(2) by (intro ini_parse_ready) simp_all
  show ?thesis using a b by (rule conjI)
qed

lemma ini_comments_lose_entries_witness:
  "ini_parse [] INI_NATURAL (''['' @ ''a'' @ '']'' @ line_end @ ''x'' @ ''='' @ ''1'' @ ''#'' @ ''old'' @ line_end @ print_entry (''y'', ''2'')) =
     Some [(''a'', ''x'', ''2'')]"
  using ini_comments_lose_entries[of "''a''" "''x''" "''1''" "''y''" "''2''" "''old''" "[]"]
  by (simp add: ini_entry_def ini_word_def plain_char_def)

text \<open>
  The parser starts in the state of a section name, so that entries before the first section overwrite the name
  \<open>GLOBAL\<close> instead of belonging to it.
\<close>

lemma ini_global_overwritten:
  "ini_parse junk INI_NATURAL (print_entry (''ab'', ''1'') @ print_entry (''cd'', ''2'')) = Some [(''abOBAL'', ''cd'', ''2'')]"
  by (simp add: ini_parse_def ini_start_def print_entry_def line_end_def ini_char_def ini_store_def ini_complete_def
      ini_emit_def ini_clear_def c_string_def numeral_eq_Suc)

text \<open>A name that fills its buffer has no terminator, so the call-back reads past it.\<close>

lemma c_string_full: "length buf = INI_LENGTH \<Longrightarrow> list_all plain_char buf \<Longrightarrow> c_string buf = None"
  by (auto simp: c_string_def dest: plain_not_NUL)

end
