(* ===== verification/Sosal_Fph.thy ===== *)
theory Sosal_Fph
  imports Dvp_Prelude
begin

text \<open>
  The fast pointer hash of \<open>source/sosal/fph.c\<close>, with \<open>FPH_METRICS\<close> defined and \<open>FPH_OPTIMIZED\<close> undefined as in
  \<open>include/sosal/fph.h\<close>: an array of blocks of slots, searched linearly within the block of a key. Setting and getting agree
  with a map; clearing does not, because a later set may leave a second slot with the same key.
\<close>

section \<open>The table\<close>

record fph_kv_t =
  kv_key :: u32
  kv_value :: u32

record fph_t =
  f_hash :: "fph_kv_t list option"
  f_blockSize :: nat
  f_numBlocks :: nat
  f_numElem :: nat
  f_collisions :: "u32 list option"
  f_length :: "u32 list option"
  f_numReplacements :: u32
  f_numPtrs :: u32
  f_numMisses :: u32

text \<open>The key function that a table holds is an argument of the operations; a division by zero is \<open>None\<close>.\<close>

type_synonym fph_key_f = "fph_t \<Rightarrow> u32 \<Rightarrow> nat option"

definition fph_hash :: fph_key_f where
  "fph_hash f v =
     (if f_numBlocks f = 0 then None
      else Some (size_mul (unat (drop_bit 8 v) mod f_numBlocks f) (f_blockSize f)))"

text \<open>
  \<open>ok\<close> tells which of the four allocations succeed: the table, the slots, the collisions, the lengths. A slot
  has eight bytes.
\<close>

definition fph_init ::
  "bool \<times> bool \<times> bool \<times> bool \<Rightarrow> nat \<Rightarrow> nat \<Rightarrow> fph_key_f option \<Rightarrow> (fph_t \<times> fph_key_f) option" where
  "fph_init ok numBlocks blockSize keyFunc =
     (case ok of (ok1, ok2, ok3, ok4) \<Rightarrow>
      if \<not> ok1 then None
      else
        let numElem = size_mul numBlocks blockSize;
            zeros = (\<lambda>b n. if b then Some (replicate (size_mul n 4 div 4) (0::u32)) else None)
        in Some
          (\<lparr>f_hash = (if ok2 then Some (replicate (size_mul numElem 8 div 8) \<lparr>kv_key = 0, kv_value = 0\<rparr>) else None),
            f_blockSize = blockSize, f_numBlocks = numBlocks, f_numElem = numElem,
            f_collisions = zeros ok3 numBlocks, f_length = zeros ok4 numBlocks,
            f_numReplacements = 0, f_numPtrs = 0, f_numMisses = 0\<rparr>,
           (case keyFunc of Some kf \<Rightarrow> kf | None \<Rightarrow> fph_hash)))"

text \<open>The number of rounds of the three loops, which run from \<open>index\<close> to below \<open>index + blockSize\<close>.\<close>

definition fph_rounds :: "fph_t \<Rightarrow> nat \<Rightarrow> nat" where
  "fph_rounds f index = size_add index (f_blockSize f) - index"

definition fph_slot :: "fph_t \<Rightarrow> nat \<Rightarrow> fph_kv_t option" where
  "fph_slot f i = do { h \<leftarrow> f_hash f; (if i < length h then Some (h ! i) else None) }"

definition fph_put :: "nat \<Rightarrow> fph_kv_t \<Rightarrow> fph_t \<Rightarrow> fph_t" where
  "fph_put i e f = f\<lparr>f_hash := map_option (\<lambda>h. h[i := e]) (f_hash f)\<rparr>"

text \<open>A counter of an array of counters.\<close>

definition count_at :: "u32 list option \<Rightarrow> nat \<Rightarrow> u32 option" where
  "count_at cs b = do { xs \<leftarrow> cs; (if b < length xs then Some (xs ! b) else None) }"

definition set_count :: "u32 list option \<Rightarrow> nat \<Rightarrow> u32 \<Rightarrow> u32 list option" where
  "set_count cs b c = map_option (\<lambda>xs. xs[b := c]) cs"

section \<open>The operations\<close>

primrec get_loop :: "fph_t \<Rightarrow> u32 \<Rightarrow> nat \<Rightarrow> nat \<Rightarrow> (nat \<times> u32) option" where
  "get_loop f k i 0 = Some (0, 0)"
| "get_loop f k i (Suc n) = do {
     e \<leftarrow> fph_slot f i;
     (if kv_key e = k then Some (1, kv_value e) else get_loop f k (i + 1) n) }"

definition fph_get :: "fph_key_f \<Rightarrow> fph_t \<Rightarrow> u32 \<Rightarrow> (nat \<times> u32) option" where
  "fph_get kf f k = do { index \<leftarrow> kf f k; get_loop f k index (fph_rounds f index) }"

primrec clr_loop :: "fph_t \<Rightarrow> u32 \<Rightarrow> nat \<Rightarrow> nat \<Rightarrow> nat \<Rightarrow> (nat \<times> fph_t) option" where
  "clr_loop f k index i 0 = Some (0, f)"
| "clr_loop f k index i (Suc n) = do {
     e \<leftarrow> fph_slot f i;
     (if kv_key e = k then do {
        let block = index div f_blockSize f;
        let f1 = fph_put i \<lparr>kv_key = 0, kv_value = 0\<rparr> f;
        l \<leftarrow> count_at (f_length f) block;
        c \<leftarrow> (if l \<ge> 1 then count_at (f_collisions f) block else Some 0);
        let f2 = (if l > 1 then f1\<lparr>f_collisions := set_count (f_collisions f) block (c - 1)\<rparr>
                  else if l = 1 then f1\<lparr>f_collisions := set_count (f_collisions f) block 0\<rparr>
                  else f1);
        Some (1, f2\<lparr>f_length := set_count (f_length f) block (l - 1), f_numPtrs := f_numPtrs f - 1\<rparr>) }
      else clr_loop f k index (i + 1) n) }"

definition fph_clr :: "fph_key_f \<Rightarrow> fph_t \<Rightarrow> u32 \<Rightarrow> (nat \<times> fph_t) option" where
  "fph_clr kf f k = do { index \<leftarrow> kf f k; clr_loop f k index index (fph_rounds f index) }"

primrec set_loop :: "fph_t \<Rightarrow> u32 \<Rightarrow> u32 \<Rightarrow> nat \<Rightarrow> nat \<Rightarrow> nat \<Rightarrow> nat \<Rightarrow> (nat \<times> fph_t) option" where
  "set_loop f k v block index i 0 =
     Some (0, if i = size_add index (f_blockSize f) then f\<lparr>f_numMisses := f_numMisses f + 1\<rparr> else f)"
| "set_loop f k v block index i (Suc n) = do {
     e \<leftarrow> fph_slot f i;
     let f1 = fph_put i \<lparr>kv_key = k, kv_value = v\<rparr> f;
     (if kv_key e = k then do {
        c \<leftarrow> count_at (f_collisions f) block;
        Some (1, f1\<lparr>f_numReplacements := f_numReplacements f + 1,
                     f_collisions := set_count (f_collisions f) block (c + 1)\<rparr>) }
      else if kv_key e = 0 then do {
        l \<leftarrow> count_at (f_length f) block;
        Some (1, f1\<lparr>f_length := set_count (f_length f) block (l + 1), f_numPtrs := f_numPtrs f + 1\<rparr>) }
      else set_loop f k v block index (i + 1) n) }"

definition fph_set :: "fph_key_f \<Rightarrow> fph_t option \<Rightarrow> u32 \<Rightarrow> u32 \<Rightarrow> (nat \<times> fph_t option) option" where
  "fph_set kf fph k v =
     (case fph of
        None \<Rightarrow> Some (0, None)
      | Some f \<Rightarrow>
          if k = 0 then Some (0, fph)
          else do {
            index \<leftarrow> kf f k;
            block \<leftarrow> (if f_blockSize f = 0 then None else Some (index div f_blockSize f));
            (r, f') \<leftarrow> set_loop f k v block index index (fph_rounds f index);
            Some (r, Some f') })"

section \<open>The block of a key\<close>

definition fph_wf :: "fph_t \<Rightarrow> bool" where
  "fph_wf f \<longleftrightarrow> 0 < f_blockSize f \<and> 0 < f_numBlocks f \<and> f_numBlocks f * f_blockSize f < size_max \<and>
     (\<exists>h. f_hash f = Some h \<and> length h = f_numBlocks f * f_blockSize f) \<and>
     (\<exists>c. f_collisions f = Some c \<and> length c = f_numBlocks f) \<and>
     (\<exists>l. f_length f = Some l \<and> length l = f_numBlocks f)"

lemma fph_init_wf:
  assumes "0 < blockSize" and "0 < numBlocks" and "numBlocks * blockSize * 8 < size_max" and "numBlocks * 4 < size_max"
  shows "\<exists>f. fph_init (True, True, True, True) numBlocks blockSize kf =
     Some (f, case kf of Some g \<Rightarrow> g | None \<Rightarrow> fph_hash) \<and> fph_wf f \<and>
     f_numBlocks f = numBlocks \<and> f_blockSize f = blockSize \<and>
     f_hash f = Some (replicate (numBlocks * blockSize) \<lparr>kv_key = 0, kv_value = 0\<rparr>)"
proof -
  have n: "numBlocks * blockSize < size_max" using assms(3) by linarith
  have "size_mul (size_mul numBlocks blockSize) 8 div 8 = numBlocks * blockSize" "size_mul numBlocks 4 div 4 = numBlocks"
    unfolding size_mul_eq[OF n] size_mul_eq[OF assms(3)] size_mul_eq[OF assms(4)] by simp_all
  then show ?thesis using assms(1,2) n by (auto simp: fph_init_def fph_wf_def Let_def)
qed

text \<open>The slots of the block that starts at \<open>i\<close>.\<close>

definition fph_block :: "fph_t \<Rightarrow> nat \<Rightarrow> fph_kv_t list" where
  "fph_block f i = take (f_blockSize f) (drop i (the (f_hash f)))"

definition has_key :: "u32 \<Rightarrow> fph_kv_t \<Rightarrow> bool" where
  "has_key k e \<longleftrightarrow> kv_key e = k"

text \<open>What the loops do to a block.\<close>

fun block_set :: "u32 \<Rightarrow> u32 \<Rightarrow> fph_kv_t list \<Rightarrow> fph_kv_t list option" where
  "block_set k v [] = None"
| "block_set k v (e # es) =
     (if kv_key e = k \<or> kv_key e = 0 then Some (\<lparr>kv_key = k, kv_value = v\<rparr> # es)
      else map_option (Cons e) (block_set k v es))"

fun block_clr :: "u32 \<Rightarrow> fph_kv_t list \<Rightarrow> fph_kv_t list option" where
  "block_clr k [] = None"
| "block_clr k (e # es) =
     (if kv_key e = k then Some (\<lparr>kv_key = 0, kv_value = 0\<rparr> # es) else map_option (Cons e) (block_clr k es))"

lemma block_set_length: "block_set k v xs = Some ys \<Longrightarrow> length ys = length xs"
  by (induction xs arbitrary: ys) (auto split: if_splits)

lemma block_clr_length: "block_clr k xs = Some ys \<Longrightarrow> length ys = length xs"
  by (induction xs arbitrary: ys) (auto split: if_splits)

lemma block_set_find:
  "block_set k v xs = Some ys \<Longrightarrow> k \<noteq> 0 \<Longrightarrow> List.find (has_key k) ys = Some \<lparr>kv_key = k, kv_value = v\<rparr>"
  by (induction xs arbitrary: ys) (auto simp: has_key_def split: if_splits)

lemma block_set_find_other:
  "block_set k v xs = Some ys \<Longrightarrow> k' \<noteq> k \<Longrightarrow> k' \<noteq> 0 \<Longrightarrow> List.find (has_key k') ys = List.find (has_key k') xs"
  by (induction xs arbitrary: ys) (auto simp: has_key_def split: if_splits)

lemma block_set_None: "block_set k v xs = None \<longleftrightarrow> (\<forall>e \<in> set xs. kv_key e \<noteq> k \<and> kv_key e \<noteq> 0)"
  by (induction xs) auto

lemma block_clr_None: "block_clr k xs = None \<longleftrightarrow> (\<forall>e \<in> set xs. kv_key e \<noteq> k)"
  by (induction xs) auto

lemma block_clr_find_other:
  "block_clr k xs = Some ys \<Longrightarrow> k' \<noteq> k \<Longrightarrow> k' \<noteq> 0 \<Longrightarrow> List.find (has_key k') ys = List.find (has_key k') xs"
  by (induction xs arbitrary: ys) (auto simp: has_key_def split: if_splits)

text \<open>Without a second slot of the key, clearing it removes it.\<close>

lemma block_clr_find:
  assumes "block_clr k xs = Some ys" and "k \<noteq> 0" and "length (filter (has_key k) xs) \<le> 1"
  shows "List.find (has_key k) ys = None"
  using assms
proof (induction xs arbitrary: ys)
  case (Cons e es)
  then show ?case by (cases "kv_key e = k") (auto simp: has_key_def find_None_iff filter_empty_conv)
qed simp

section \<open>The loops\<close>

lemma fph_slot_Some: "f_hash f = Some h \<Longrightarrow> i < length h \<Longrightarrow> fph_slot f i = Some (h ! i)"
  by (simp add: fph_slot_def)

lemma take_Suc_drop: "i < length h \<Longrightarrow> take (Suc n) (drop i h) = h ! i # take n (drop (Suc i) h)"
  by (simp add: Cons_nth_drop_Suc[symmetric])

lemma get_loop_find:
  assumes "f_hash f = Some h" and "i + n \<le> length h"
  shows "get_loop f k i n =
     Some (case List.find (has_key k) (take n (drop i h)) of None \<Rightarrow> (0, 0) | Some e \<Rightarrow> (1, kv_value e))"
  using assms(2)
proof (induction n arbitrary: i)
  case (Suc n)
  then show ?case by (simp add: fph_slot_Some[OF assms(1)] take_Suc_drop has_key_def)
qed simp

lemma count_at_Some: "cs = Some xs \<Longrightarrow> b < length xs \<Longrightarrow> count_at cs b = Some (xs ! b)"
  by (simp add: count_at_def)

lemma list_update_block:
  assumes "i < length h"
  shows "h[i := e] = take i h @ e # drop (Suc i) h"
  using assms by (rule upd_conv_take_nth_drop)

text \<open>The three outcomes of setting: the block changes as \<open>block_set\<close> says, or a miss is counted.\<close>

lemma set_loop_block:
  assumes "fph_wf f" and "f_hash f = Some h" and "block < f_numBlocks f" and "i + n \<le> length h"
    and "i + n = size_add index (f_blockSize f)"
  shows "case block_set k v (take n (drop i h)) of
      None \<Rightarrow> set_loop f k v block index i n = Some (0, f\<lparr>f_numMisses := f_numMisses f + 1\<rparr>)
    | Some ys \<Rightarrow> \<exists>f'. set_loop f k v block index i n = Some (1, f') \<and> fph_wf f' \<and>
        f_hash f' = Some (take i h @ ys @ drop (i + n) h) \<and> f_numBlocks f' = f_numBlocks f \<and> f_blockSize f' = f_blockSize f"
  using assms(4,5)
proof (induction n arbitrary: i)
  case (Suc n)
  have i: "i < length h" using Suc.prems(1) by simp
  obtain cs ls where cl: "f_collisions f = Some cs" "f_length f = Some ls" "length cs = f_numBlocks f" "length ls = f_numBlocks f"
    using assms(1) by (auto simp: fph_wf_def)
  have dr: "drop (Suc i) h = take n (drop (Suc i) h) @ drop (i + Suc n) h"
    by (metis add.commute add_Suc_right append_take_drop_id drop_drop)
  show ?case
  proof (cases "kv_key (h ! i) = k \<or> kv_key (h ! i) = 0")
    case True
    let ?e = "\<lparr>kv_key = k, kv_value = v\<rparr>"
    have "\<exists>f'. set_loop f k v block index i (Suc n) = Some (1, f') \<and> fph_wf f' \<and>
        f_hash f' = Some (h[i := ?e]) \<and> f_numBlocks f' = f_numBlocks f \<and> f_blockSize f' = f_blockSize f"
      using True assms(1,2,3) cl i
      by (auto simp: fph_slot_Some[OF assms(2)] fph_put_def count_at_def set_count_def fph_wf_def Let_def)
    moreover have "h[i := ?e] = take i h @ (?e # take n (drop (Suc i) h)) @ drop (i + Suc n) h"
      using i dr by (simp add: list_update_block)
    ultimately show ?thesis using True i by (simp add: take_Suc_drop)
  next
    case False
    then have "set_loop f k v block index i (Suc n) = set_loop f k v block index (Suc i) n"
      using i by (simp add: fph_slot_Some[OF assms(2)] Let_def)
    moreover have "take (Suc i) h = take i h @ [h ! i]" using i by (rule take_Suc_conv_app_nth)
    ultimately show ?thesis
      using Suc.IH[of "Suc i"] Suc.prems False i by (auto simp: take_Suc_drop split: option.splits)
  qed
qed (use assms(2) in simp)

lemma clr_loop_block:
  assumes "fph_wf f" and "f_hash f = Some h" and "index div f_blockSize f < f_numBlocks f" and "i + n \<le> length h"
  shows "case block_clr k (take n (drop i h)) of
      None \<Rightarrow> clr_loop f k index i n = Some (0, f)
    | Some ys \<Rightarrow> \<exists>f'. clr_loop f k index i n = Some (1, f') \<and> fph_wf f' \<and>
        f_hash f' = Some (take i h @ ys @ drop (i + n) h) \<and> f_numBlocks f' = f_numBlocks f \<and> f_blockSize f' = f_blockSize f"
  using assms(4)
proof (induction n arbitrary: i)
  case (Suc n)
  have i: "i < length h" using Suc.prems by simp
  obtain cs ls where cl: "f_collisions f = Some cs" "f_length f = Some ls" "length cs = f_numBlocks f" "length ls = f_numBlocks f"
    using assms(1) by (auto simp: fph_wf_def)
  have dr: "drop (Suc i) h = take n (drop (Suc i) h) @ drop (i + Suc n) h"
    by (metis add.commute add_Suc_right append_take_drop_id drop_drop)
  show ?case
  proof (cases "kv_key (h ! i) = k")
    case True
    let ?e = "\<lparr>kv_key = 0, kv_value = 0\<rparr>"
    have "\<exists>f'. clr_loop f k index i (Suc n) = Some (1, f') \<and> fph_wf f' \<and>
        f_hash f' = Some (h[i := ?e]) \<and> f_numBlocks f' = f_numBlocks f \<and> f_blockSize f' = f_blockSize f"
      using True assms(1,2,3) cl i
      by (auto simp: fph_slot_Some[OF assms(2)] fph_put_def count_at_def set_count_def fph_wf_def Let_def)
    moreover have "h[i := ?e] = take i h @ (?e # take n (drop (Suc i) h)) @ drop (i + Suc n) h"
      using i dr by (simp add: list_update_block)
    ultimately show ?thesis using True i by (simp add: take_Suc_drop)
  next
    case False
    then have "clr_loop f k index i (Suc n) = clr_loop f k index (Suc i) n"
      using i by (simp add: fph_slot_Some[OF assms(2)] Let_def)
    moreover have "take (Suc i) h = take i h @ [h ! i]" using i by (rule take_Suc_conv_app_nth)
    ultimately show ?thesis
      using Suc.IH[of "Suc i"] Suc.prems False i by (auto simp: take_Suc_drop split: option.splits)
  qed
qed simp

section \<open>The operations on a table\<close>

locale fph_keys =
  fixes kf :: fph_key_f
  assumes kf_block: "fph_wf f \<Longrightarrow> \<exists>b. b < f_numBlocks f \<and> kf f k = Some (b * f_blockSize f)"
    and kf_stable: "f_numBlocks f' = f_numBlocks f \<Longrightarrow> f_blockSize f' = f_blockSize f \<Longrightarrow> kf f' k = kf f k"
begin

text \<open>The block of a key in a well-formed table.\<close>

lemma key_block:
  assumes "fph_wf f"
  obtains b h where "kf f k = Some (b * f_blockSize f)" "b < f_numBlocks f" "f_hash f = Some h"
    "b * f_blockSize f + f_blockSize f \<le> length h" "length h < size_max"
    "fph_rounds f (b * f_blockSize f) = f_blockSize f" "b * f_blockSize f div f_blockSize f = b"
proof -
  obtain b where b: "b < f_numBlocks f" "kf f k = Some (b * f_blockSize f)" using kf_block[OF assms] by blast
  obtain h where h: "f_hash f = Some h" "length h = f_numBlocks f * f_blockSize f" using assms by (auto simp: fph_wf_def)
  have "Suc b * f_blockSize f \<le> f_numBlocks f * f_blockSize f" using b(1) by (intro mult_le_mono1) simp
  then have l: "b * f_blockSize f + f_blockSize f \<le> length h" using h(2) by simp
  moreover have "length h < size_max" "0 < f_blockSize f" using assms h(2) by (auto simp: fph_wf_def)
  ultimately show thesis using that[OF b(2,1) h(1) l] by (simp add: fph_rounds_def size_simps)
qed

lemma get_find:
  assumes "fph_wf f"
  shows "fph_get kf f k = Some (case List.find (has_key k) (fph_block f (the (kf f k))) of
      None \<Rightarrow> (0, 0) | Some e \<Rightarrow> (1, kv_value e))"
proof -
  obtain b h where b: "kf f k = Some (b * f_blockSize f)" "f_hash f = Some h"
      "b * f_blockSize f + f_blockSize f \<le> length h" "fph_rounds f (b * f_blockSize f) = f_blockSize f"
    by (rule key_block[OF assms])
  then show ?thesis using get_loop_find[OF b(2,3), of k] by (simp add: fph_get_def fph_block_def)
qed

text \<open>A block that is replaced in the middle of the slots; the others stay.\<close>

lemma other_block:
  assumes "length ys = n" and "i + n \<le> length h" and "j + n \<le> i \<or> i + n \<le> j"
  shows "take n (drop j (take i h @ ys @ drop (i + n) h)) = take n (drop j h)"
  using assms(3)
proof
  assume "j + n \<le> i"
  then have "drop j (take i h @ ys @ drop (i + n) h) = take (i - j) (drop j h) @ ys @ drop (i + n) h" "n \<le> i - j"
    "length (take (i - j) (drop j h)) = i - j"
    using assms(2) by (simp_all add: drop_take)
  then show ?thesis by (simp add: min_def)
next
  assume "i + n \<le> j"
  then have "drop j (take i h @ ys @ drop (i + n) h) = drop (j - (i + n)) (drop (i + n) h)"
    using assms(1,2) by simp
  also have "\<dots> = drop j h" using \<open>i + n \<le> j\<close> by simp
  finally show ?thesis by simp
qed

lemma blocks_apart: "b \<noteq> c \<Longrightarrow> c * n + n \<le> b * n \<or> b * n + n \<le> c * (n::nat)"
  by (metis add.commute linorder_neqE_nat mult_Suc mult_le_mono1 Suc_leI)

text \<open>Looking up in a table in which one block has been replaced.\<close>

lemma replaced_block:
  assumes wf: "fph_wf f" "fph_wf f'" and same: "f_numBlocks f' = f_numBlocks f" "f_blockSize f' = f_blockSize f"
    and h: "f_hash f = Some h" "f_hash f' = Some (take i h @ ys @ drop (i + f_blockSize f) h)"
    and k: "kf f k = Some i" and len: "length ys = f_blockSize f"
  shows "fph_block f' (the (kf f' k')) =
    (if the (kf f k') = i then ys else fph_block f (the (kf f k')))"
proof -
  obtain b where b: "i = b * f_blockSize f" "b * f_blockSize f + f_blockSize f \<le> length h"
    using key_block[OF wf(1), of k] h(1) k by (metis option.inject)
  obtain c where c: "kf f k' = Some (c * f_blockSize f)" "c * f_blockSize f + f_blockSize f \<le> length h"
    using key_block[OF wf(1), of k'] h(1) by (metis option.inject)
  have "kf f' k' = kf f k'" by (rule kf_stable[OF same])
  then show ?thesis
    using other_block[OF len b(2), of "c * f_blockSize f"] blocks_apart[of b c "f_blockSize f"] b c h len same(2)
    by (cases "b = c") (auto simp: fph_block_def)
qed

lemma set_outcome:
  assumes "fph_wf f" and "k \<noteq> 0"
  shows "case block_set k v (fph_block f (the (kf f k))) of
      None \<Rightarrow> fph_set kf (Some f) k v = Some (0, Some (f\<lparr>f_numMisses := f_numMisses f + 1\<rparr>))
    | Some ys \<Rightarrow> \<exists>f'. fph_set kf (Some f) k v = Some (1, Some f') \<and> fph_wf f' \<and>
        (\<forall>k'. kf f' k' = kf f k' \<and> fph_block f' (the (kf f k')) =
           (if kf f k' = kf f k then ys else fph_block f (the (kf f k'))))"
proof -
  obtain b h where b: "kf f k = Some (b * f_blockSize f)" "b < f_numBlocks f" "f_hash f = Some h"
      "b * f_blockSize f + f_blockSize f \<le> length h" "length h < size_max"
      "fph_rounds f (b * f_blockSize f) = f_blockSize f" "b * f_blockSize f div f_blockSize f = b"
    by (rule key_block[OF assms(1)])
  let ?i = "b * f_blockSize f"
  have blk: "fph_block f ?i = take (f_blockSize f) (drop ?i h)" using b(3) by (simp add: fph_block_def)
  have pos: "f_blockSize f \<noteq> 0" using assms(1) by (simp add: fph_wf_def)
  have set_eq: "fph_set kf (Some f) k v = map_option (\<lambda>(r, f'). (r, Some f')) (set_loop f k v b ?i ?i (f_blockSize f))"
    using b(1,6,7) pos assms(2) by (cases "set_loop f k v b ?i ?i (f_blockSize f)") (auto simp: fph_set_def)
  have out: "?i + f_blockSize f = size_add ?i (f_blockSize f)" using b(4,5) by (simp add: size_simps)
  note loop = set_loop_block[OF assms(1) b(3,2,4) out, of k v]
  show ?thesis
  proof (cases "block_set k v (take (f_blockSize f) (drop ?i h))")
    case None
    then show ?thesis using loop blk b(1) set_eq by simp
  next
    case (Some ys)
    then obtain f' where f': "set_loop f k v b ?i ?i (f_blockSize f) = Some (1, f')" "fph_wf f'"
        "f_hash f' = Some (take ?i h @ ys @ drop (?i + f_blockSize f) h)"
        "f_numBlocks f' = f_numBlocks f" "f_blockSize f' = f_blockSize f"
      using loop by auto
    have len: "length ys = f_blockSize f" using block_set_length[OF Some] b(4) by simp
    have st: "kf f' k' = kf f k'" for k' using f'(4,5) by (rule kf_stable)
    have "fph_block f' (the (kf f k')) = (if kf f k' = kf f k then ys else fph_block f (the (kf f k')))" for k'
    proof -
      have "the (kf f k') = ?i \<longleftrightarrow> kf f k' = kf f k" using kf_block[OF assms(1), of k'] b(1) by auto
      then show ?thesis using replaced_block[OF assms(1) f'(2,4,5) b(3) f'(3) b(1) len, of k'] st by simp
    qed
    then show ?thesis using Some blk b(1) set_eq f'(1,2) st by simp
  qed
qed

lemma clr_outcome:
  assumes "fph_wf f"
  shows "case block_clr k (fph_block f (the (kf f k))) of
      None \<Rightarrow> fph_clr kf f k = Some (0, f)
    | Some ys \<Rightarrow> \<exists>f'. fph_clr kf f k = Some (1, f') \<and> fph_wf f' \<and>
        (\<forall>k'. kf f' k' = kf f k' \<and> fph_block f' (the (kf f k')) =
           (if kf f k' = kf f k then ys else fph_block f (the (kf f k'))))"
proof -
  obtain b h where b: "kf f k = Some (b * f_blockSize f)" "b < f_numBlocks f" "f_hash f = Some h"
      "b * f_blockSize f + f_blockSize f \<le> length h"
      "fph_rounds f (b * f_blockSize f) = f_blockSize f" "b * f_blockSize f div f_blockSize f = b"
    by (rule key_block[OF assms(1)])
  let ?i = "b * f_blockSize f"
  have blk: "fph_block f ?i = take (f_blockSize f) (drop ?i h)" using b(3) by (simp add: fph_block_def)
  have clr_eq: "fph_clr kf f k = clr_loop f k ?i ?i (f_blockSize f)" using b(1,5) by (simp add: fph_clr_def)
  have bb: "?i div f_blockSize f < f_numBlocks f" using b(2,6) by simp
  note loop = clr_loop_block[OF assms(1) b(3) bb b(4), of k]
  show ?thesis
  proof (cases "block_clr k (take (f_blockSize f) (drop ?i h))")
    case None
    then show ?thesis using loop blk b(1) clr_eq by simp
  next
    case (Some ys)
    then obtain f' where f': "clr_loop f k ?i ?i (f_blockSize f) = Some (1, f')" "fph_wf f'"
        "f_hash f' = Some (take ?i h @ ys @ drop (?i + f_blockSize f) h)"
        "f_numBlocks f' = f_numBlocks f" "f_blockSize f' = f_blockSize f"
      using loop by auto
    have len: "length ys = f_blockSize f" using block_clr_length[OF Some] b(4) by simp
    have st: "kf f' k' = kf f k'" for k' using f'(4,5) by (rule kf_stable)
    have "fph_block f' (the (kf f k')) = (if kf f k' = kf f k then ys else fph_block f (the (kf f k')))" for k'
    proof -
      have "the (kf f k') = ?i \<longleftrightarrow> kf f k' = kf f k" using kf_block[OF assms(1), of k'] b(1) by auto
      then show ?thesis using replaced_block[OF assms(1) f'(2,4,5) b(3) f'(3) b(1) len, of k'] st by simp
    qed
    then show ?thesis using Some blk b(1) clr_eq f'(1,2) st by simp
  qed
qed

text \<open>Setting and getting.\<close>

lemma set_get:
  assumes "fph_wf f" and "k \<noteq> 0" and "fph_set kf (Some f) k v = Some (1, Some f')" and "k' \<noteq> 0"
  shows "fph_wf f' \<and> fph_get kf f' k' = (if k' = k then Some (1, v) else fph_get kf f k')"
proof -
  obtain ys where ys: "block_set k v (fph_block f (the (kf f k))) = Some ys"
    using set_outcome[OF assms(1,2), of v] assms(3) by (auto split: option.splits)
  then have f': "fph_wf f'" "kf f' k' = kf f k'" "fph_block f' (the (kf f k')) =
      (if kf f k' = kf f k then ys else fph_block f (the (kf f k')))"
    using set_outcome[OF assms(1,2), of v] assms(3) by auto
  show ?thesis
    using get_find[OF f'(1), of k'] get_find[OF assms(1), of k'] f' block_set_find[OF ys assms(2)]
      block_set_find_other[OF ys _ assms(4)] by (auto split: option.splits)
qed

text \<open>Clearing works as long as the key is in one slot only.\<close>

lemma clr_get:
  assumes "fph_wf f" and "k \<noteq> 0" and "fph_clr kf f k = Some (1, f')"
    and "length (filter (has_key k) (fph_block f (the (kf f k)))) \<le> 1" and "k' \<noteq> 0"
  shows "fph_wf f' \<and> fph_get kf f' k' = (if k' = k then Some (0, 0) else fph_get kf f k')"
proof -
  obtain ys where ys: "block_clr k (fph_block f (the (kf f k))) = Some ys"
    using clr_outcome[OF assms(1), of k] assms(3) by (auto split: option.splits)
  then have f': "fph_wf f'" "kf f' k' = kf f k'" "fph_block f' (the (kf f k')) =
      (if kf f k' = kf f k then ys else fph_block f (the (kf f k')))"
    using clr_outcome[OF assms(1), of k] assms(3) by auto
  show ?thesis
    using get_find[OF f'(1), of k'] get_find[OF assms(1), of k'] f' block_clr_find[OF ys assms(2,4)]
      block_clr_find_other[OF ys _ assms(5)] by (auto split: option.splits)
qed

end

interpretation default_keys: fph_keys fph_hash
proof
  fix f and k :: u32
  assume wf: "fph_wf f"
  let ?b = "unat (drop_bit 8 k) mod f_numBlocks f"
  have b: "?b < f_numBlocks f" using wf by (simp add: fph_wf_def)
  then have "?b * f_blockSize f \<le> f_numBlocks f * f_blockSize f" by simp
  then have "?b * f_blockSize f < size_max" using wf unfolding fph_wf_def by linarith
  then show "\<exists>b. b < f_numBlocks f \<and> fph_hash f k = Some (b * f_blockSize f)"
    using b wf by (intro exI[of _ ?b]) (simp add: fph_hash_def size_mul_eq fph_wf_def)
qed (simp add: fph_hash_def)

text \<open>Setting a key whose block has a place for it.\<close>

lemma fph_set_ok:
  assumes "fph_wf f" and "k \<noteq> 0" and "\<exists>e \<in> set (fph_block f (the (fph_hash f k))). kv_key e = k \<or> kv_key e = 0"
  shows "\<exists>f'. fph_set fph_hash (Some f) k v = Some (1, Some f') \<and> fph_wf f' \<and>
     (\<forall>k'. k' \<noteq> 0 \<longrightarrow> fph_get fph_hash f' k' = (if k' = k then Some (1, v) else fph_get fph_hash f k'))"
proof -
  obtain ys where "block_set k v (fph_block f (the (fph_hash f k))) = Some ys"
    using assms(3) block_set_None by (metis not_None_eq)
  then obtain f' where f': "fph_set fph_hash (Some f) k v = Some (1, Some f')" "fph_wf f'"
    using default_keys.set_outcome[OF assms(1,2), of v] by auto
  then show ?thesis using default_keys.set_get[OF assms(1,2) f'(1)] by auto
qed

lemma fph_set_full:
  assumes "fph_wf f" and "k \<noteq> 0" and "\<not> (\<exists>e \<in> set (fph_block f (the (fph_hash f k))). kv_key e = k \<or> kv_key e = 0)"
  shows "fph_set fph_hash (Some f) k v = Some (0, Some (f\<lparr>f_numMisses := f_numMisses f + 1\<rparr>))"
proof -
  have "block_set k v (fph_block f (the (fph_hash f k))) = None" using assms(3) block_set_None by blast
  then show ?thesis using default_keys.set_outcome[OF assms(1,2), of v] by simp
qed

section \<open>Properties\<close>

text \<open>
  C36. \<open>fph_set\<close> with the default key function either stores the value, after which \<open>fph_get\<close> finds it under its key and finds
  under every other key what it found before, or reports failure when every slot of the block of the key is taken by
  another key, and then only counts the miss. Neither leaves the table.
\<close>
theorem fph_set_refines:
  assumes "fph_wf f" and "k \<noteq> 0"
  shows "if \<exists>e \<in> set (fph_block f (the (fph_hash f k))). kv_key e = k \<or> kv_key e = 0
    then \<exists>f'. fph_set fph_hash (Some f) k v = Some (1, Some f') \<and> fph_wf f' \<and>
       (\<forall>k'. k' \<noteq> 0 \<longrightarrow> fph_get fph_hash f' k' = (if k' = k then Some (1, v) else fph_get fph_hash f k'))
    else fph_set fph_hash (Some f) k v = Some (0, Some (f\<lparr>f_numMisses := f_numMisses f + 1\<rparr>))"
  using fph_set_ok[OF assms] fph_set_full[OF assms] by simp

definition ex_fph :: fph_t where
  "ex_fph = \<lparr>f_hash = Some (replicate 4 \<lparr>kv_key = 0, kv_value = 0\<rparr>), f_blockSize = 2, f_numBlocks = 2, f_numElem = 4,
     f_collisions = Some [0, 0], f_length = Some [0, 0], f_numReplacements = 0, f_numPtrs = 0, f_numMisses = 0\<rparr>"

lemma ex_fph_wf: "fph_wf ex_fph"
  by (simp add: fph_wf_def ex_fph_def)

lemma fph_set_refines_witness:
  "\<exists>f'. fph_set fph_hash (Some ex_fph) 0x100 5 = Some (1, Some f') \<and> fph_get fph_hash f' 0x100 = Some (1, 5)"
proof -
  have "\<exists>e \<in> set (fph_block ex_fph (the (fph_hash ex_fph 0x100))). kv_key e = 0x100 \<or> kv_key e = 0"
    by (simp add: ex_fph_def fph_hash_def fph_block_def size_mul_def)
  then show ?thesis using fph_set_refines[OF ex_fph_wf, of "0x100" 5] by auto
qed

text \<open>
  Clearing can bring an old value back. In any block with two free slots in front, setting two keys, clearing the first, setting
  the second again and clearing it leaves the value that was set before under the second key.
\<close>
theorem fph_clr_resurrects:
  assumes "fph_wf f" and "k1 \<noteq> 0" and "k2 \<noteq> 0" and "k1 \<noteq> k2" and "fph_hash f k1 = fph_hash f k2"
    and "\<exists>es. fph_block f (the (fph_hash f k1)) = \<lparr>kv_key = 0, kv_value = 0\<rparr> # \<lparr>kv_key = 0, kv_value = 0\<rparr> # es"
  shows "\<exists>f1 f2 f3 f4 f5. fph_set fph_hash (Some f) k1 v1 = Some (1, Some f1) \<and>
     fph_set fph_hash (Some f1) k2 v2 = Some (1, Some f2) \<and> fph_clr fph_hash f2 k1 = Some (1, f3) \<and>
     fph_set fph_hash (Some f3) k2 v3 = Some (1, Some f4) \<and> fph_clr fph_hash f4 k2 = Some (1, f5) \<and>
     fph_get fph_hash f5 k2 = Some (1, v2)"
proof -
  let ?z = "\<lparr>kv_key = 0, kv_value = 0\<rparr>" let ?e = "\<lambda>k v. \<lparr>kv_key = k, kv_value = v\<rparr>"
  obtain es where es: "fph_block f (the (fph_hash f k2)) = ?z # ?z # es" using assms(5,6) by auto
  obtain f1 where f1: "fph_set fph_hash (Some f) k1 v1 = Some (1, Some f1)" "fph_wf f1" "\<forall>k. fph_hash f1 k = fph_hash f k"
      "fph_block f1 (the (fph_hash f k2)) = ?e k1 v1 # ?z # es"
    using default_keys.set_outcome[OF assms(1,2), of v1] es assms(5) by auto
  obtain f2 where f2: "fph_set fph_hash (Some f1) k2 v2 = Some (1, Some f2)" "fph_wf f2" "\<forall>k. fph_hash f2 k = fph_hash f k"
      "fph_block f2 (the (fph_hash f k2)) = ?e k1 v1 # ?e k2 v2 # es"
    using default_keys.set_outcome[OF f1(2) assms(3), of v2] f1(3,4) assms(2,4) by auto
  obtain f3 where f3: "fph_clr fph_hash f2 k1 = Some (1, f3)" "fph_wf f3" "\<forall>k. fph_hash f3 k = fph_hash f k"
      "fph_block f3 (the (fph_hash f k2)) = ?z # ?e k2 v2 # es"
    using default_keys.clr_outcome[OF f2(2), of k1] f2(3,4) assms(5) by auto
  obtain f4 where f4: "fph_set fph_hash (Some f3) k2 v3 = Some (1, Some f4)" "fph_wf f4" "\<forall>k. fph_hash f4 k = fph_hash f k"
      "fph_block f4 (the (fph_hash f k2)) = ?e k2 v3 # ?e k2 v2 # es"
    using default_keys.set_outcome[OF f3(2) assms(3), of v3] f3(3,4) by auto
  obtain f5 where f5: "fph_clr fph_hash f4 k2 = Some (1, f5)" "fph_wf f5" "\<forall>k. fph_hash f5 k = fph_hash f k"
      "fph_block f5 (the (fph_hash f k2)) = ?z # ?e k2 v2 # es"
    using default_keys.clr_outcome[OF f4(2), of k2] f4(3,4) by auto
  have "fph_get fph_hash f5 k2 = Some (1, v2)"
    using default_keys.get_find[OF f5(2), of k2] f5(3,4) assms(3) by (simp add: has_key_def)
  then show ?thesis using f1(1) f2(1) f3(1) f4(1) f5(1) by blast
qed

lemma fph_clr_resurrects_witness:
  "\<exists>f1 f2 f3 f4 f5. fph_set fph_hash (Some ex_fph) 0x100 1 = Some (1, Some f1) \<and>
     fph_set fph_hash (Some f1) 0x300 2 = Some (1, Some f2) \<and> fph_clr fph_hash f2 0x100 = Some (1, f3) \<and>
     fph_set fph_hash (Some f3) 0x300 3 = Some (1, Some f4) \<and> fph_clr fph_hash f4 0x300 = Some (1, f5) \<and>
     fph_get fph_hash f5 0x300 = Some (1, 2)"
proof -
  have "fph_hash ex_fph 0x100 = fph_hash ex_fph 0x300" by (simp add: ex_fph_def fph_hash_def)
  moreover have "fph_block ex_fph (the (fph_hash ex_fph 0x100)) = \<lparr>kv_key = 0, kv_value = 0\<rparr> # \<lparr>kv_key = 0, kv_value = 0\<rparr> # []"
  proof -
    have "the (fph_hash ex_fph 0x100) = 2" by (simp add: ex_fph_def fph_hash_def size_mul_def)
    then show ?thesis by (simp add: fph_block_def) (simp add: ex_fph_def numeral_eq_Suc)
  qed
  ultimately show ?thesis using fph_clr_resurrects[OF ex_fph_wf, of "0x100" "0x300" 1 2 3] by auto
qed

end
