(* ===== verification/Sosal_Bits.thy ===== *)
theory Sosal_Bits
  imports Dvp_Prelude "HOL-Library.Signed_Division"
begin

unbundle bit_operations_syntax

text \<open>
  Three small containers of \<open>sosal\<close>: the bit fields of \<open>bitfield.c\<close>, which hand out numbers, the histograms of
  \<open>histogram.c\<close> and the four-character codes of \<open>fourcc.c\<close>. The bit field is shown to allocate the least number that
  is free, the histogram to count its values by bins.
\<close>

section \<open>Bit fields\<close>

record bitfield_t =
  b_fields :: "u32 list option"
  b_max :: u32
  b_count :: u32

definition BIT_TST :: "u32 \<Rightarrow> nat \<Rightarrow> bool" where
  "BIT_TST field b \<longleftrightarrow> drop_bit b field AND 1 \<noteq> 0"

definition BIT_CLR :: "u32 \<Rightarrow> nat \<Rightarrow> u32" where
  "BIT_CLR field b = field AND NOT (push_bit b 1)"

definition BIT_SET :: "u32 \<Rightarrow> nat \<Rightarrow> u32" where
  "BIT_SET field b = field OR push_bit b 1"

text \<open>The length in bytes.\<close>

definition bitfield_length :: "bitfield_t \<Rightarrow> u32" where
  "bitfield_length b = (b_max b div 32 + (if b_max b mod 32 = 0 then 0 else 1)) * 4"

definition bitfield_words :: "bitfield_t \<Rightarrow> nat" where
  "bitfield_words b = unat (bitfield_length b) div 4"

text \<open>\<open>memset\<close> of the first bytes of the fields; it may not leave the allocation. \<open>ok\<close> is the success of \<open>calloc\<close>.\<close>

definition clear_fields :: "bitfield_t \<Rightarrow> u32 list \<Rightarrow> u32 list option" where
  "clear_fields b fs = mem_put fs 0 (replicate (bitfield_words b) 0)"

definition bitfield_init :: "bool \<Rightarrow> bitfield_t option \<Rightarrow> u32 \<Rightarrow> bitfield_t option option" where
  "bitfield_init ok p mx =
     (case p of
        None \<Rightarrow> Some None
      | Some b0 \<Rightarrow>
          (let b = b0\<lparr>b_count := 0, b_max := mx\<rparr> in
           case b_fields b of
             Some fs \<Rightarrow> do { fs' \<leftarrow> clear_fields b fs; Some (Some (b\<lparr>b_fields := Some fs'\<rparr>)) }
           | None \<Rightarrow> Some (Some (b\<lparr>b_fields := (if ok then Some (replicate (bitfield_words b) 0) else None)\<rparr>))))"

definition bitfield_deinit :: "bitfield_t option \<Rightarrow> bitfield_t option option" where
  "bitfield_deinit p =
     (case p of
        None \<Rightarrow> Some None
      | Some b \<Rightarrow> do {
          b1 \<leftarrow> (case b_fields b of
                 Some fs \<Rightarrow> do { _ \<leftarrow> clear_fields b fs; Some (b\<lparr>b_fields := None\<rparr>) }
               | None \<Rightarrow> Some b);
          Some (Some (b1\<lparr>b_max := 0, b_count := 0\<rparr>)) })"

text \<open>The inner loop of a search over the 32 bits of a word, from bit \<open>d\<close> on for \<open>n\<close> rounds.\<close>

datatype search = Refused | Hit nat | Missed

primrec rls_bits :: "u32 \<Rightarrow> nat \<Rightarrow> nat \<Rightarrow> u32 \<Rightarrow> nat \<Rightarrow> search" where
  "rls_bits w i d c 0 = Missed"
| "rls_bits w i d c (Suc n) =
     (if (of_nat d + of_nat i * 32 :: u32) = c \<and> BIT_TST w d then Hit d else rls_bits w i (d + 1) c n)"

primrec get_bits :: "u32 \<Rightarrow> nat \<Rightarrow> nat \<Rightarrow> u32 \<Rightarrow> nat \<Rightarrow> search" where
  "get_bits w i d mx 0 = Missed"
| "get_bits w i d mx (Suc n) =
     (if (of_nat d + of_nat i * 32 :: u32) \<ge> mx then Refused
      else if \<not> BIT_TST w d then Hit d else get_bits w i (d + 1) mx n)"

text \<open>The outer loops over the words, from word \<open>i\<close> on for \<open>n\<close> rounds; reading past the fields is a fault.\<close>

primrec rls_words :: "u32 list \<Rightarrow> nat \<Rightarrow> u32 \<Rightarrow> nat \<Rightarrow> (bool \<times> u32 list) option" where
  "rls_words fs i c 0 = Some (False, fs)"
| "rls_words fs i c (Suc n) =
     (if i < length fs then
        (case rls_bits (fs ! i) i 0 c 32 of
           Hit d \<Rightarrow> Some (True, fs[i := BIT_CLR (fs ! i) d])
         | _ \<Rightarrow> rls_words fs (i + 1) c n)
      else None)"

primrec get_words :: "u32 list \<Rightarrow> nat \<Rightarrow> u32 \<Rightarrow> nat \<Rightarrow> ((bool \<times> u32) \<times> u32 list) option" where
  "get_words fs i mx 0 = Some ((False, 0xFFFFFFFF), fs)"
| "get_words fs i mx (Suc n) =
     (if i < length fs then
        (case get_bits (fs ! i) i 0 mx 32 of
           Refused \<Rightarrow> Some ((False, 0xFFFFFFFF), fs)
         | Hit d \<Rightarrow> Some ((True, of_nat d + of_nat i * 32), fs[i := BIT_SET (fs ! i) d])
         | Missed \<Rightarrow> get_words fs (i + 1) mx n)
      else None)"

definition bitfield_rls :: "bitfield_t option \<Rightarrow> u32 \<Rightarrow> (bool \<times> bitfield_t option) option" where
  "bitfield_rls p c =
     (case p of
        None \<Rightarrow> Some (False, None)
      | Some b \<Rightarrow>
          (case b_fields b of
             None \<Rightarrow> Some (False, p)
           | Some fs \<Rightarrow> do {
               (r, fs') \<leftarrow> rls_words fs 0 c (bitfield_words b);
               Some (r, Some (b\<lparr>b_fields := Some fs'\<rparr>)) }))"

definition bitfield_get :: "bitfield_t option \<Rightarrow> ((bool \<times> u32) \<times> bitfield_t option) option" where
  "bitfield_get p =
     (case p of
        None \<Rightarrow> Some ((False, 0xFFFFFFFF), None)
      | Some b \<Rightarrow>
          (case b_fields b of
             None \<Rightarrow> Some ((False, 0xFFFFFFFF), p)
           | Some fs \<Rightarrow> do {
               (r, fs') \<leftarrow> get_words fs 0 (b_max b) (bitfield_words b);
               Some (r, Some (b\<lparr>b_fields := Some fs'\<rparr>)) }))"

definition bitfield_count :: "bitfield_t option \<Rightarrow> u32" where
  "bitfield_count p = (case p of Some b \<Rightarrow> b_max b | None \<Rightarrow> 0)"

section \<open>The numbers in use\<close>

text \<open>A number is in use when its bit is set.\<close>

definition in_use :: "u32 list \<Rightarrow> nat \<Rightarrow> bool" where
  "in_use fs c \<longleftrightarrow> c div 32 < length fs \<and> bit (fs ! (c div 32)) (c mod 32)"

definition bitfield_wf :: "bitfield_t \<Rightarrow> bool" where
  "bitfield_wf b \<longleftrightarrow> (\<exists>fs. b_fields b = Some fs \<and> length fs = bitfield_words b)"

lemma BIT_TST_bit: "BIT_TST w d = bit w d"
  by (simp add: BIT_TST_def and_one_eq bit_iff_odd_drop_bit mod_2_eq_odd)

lemma bit_BIT_SET: "d < 32 \<Longrightarrow> bit (BIT_SET w d) k \<longleftrightarrow> bit w k \<or> k = d"
  by (auto simp: BIT_SET_def bit_simps dest: bit_imp_le_length)

lemma bit_BIT_CLR: "d < 32 \<Longrightarrow> bit (BIT_CLR w d) k \<longleftrightarrow> bit w k \<and> k \<noteq> d"
  by (auto simp: BIT_CLR_def bit_simps dest: bit_imp_le_length)

lemma split32: "d < 32 \<Longrightarrow> (c = i * 32 + d) = (c div 32 = i \<and> c mod 32 = (d::nat))"
  using div_mult_mod_eq[of c 32] by auto

lemma ceil32: "(m + 31) div 32 = m div 32 + (if m mod 32 = 0 then 0 else 1 :: nat)"
proof -
  have m: "m = 32 * (m div 32) + m mod 32" by simp
  then have "(m + 31) div 32 = (32 * (m div 32) + (m mod 32 + 31)) div 32" by (metis add.assoc)
  also have "\<dots> = m div 32 + (m mod 32 + 31) div 32" by (metis add.commute div_mult_self2 zero_neq_numeral)
  also have "(m mod 32 + 31) div 32 = (if m mod 32 = 0 then 0 else 1)"
    using mod_less_divisor[of 32 m] by (auto intro!: div_nat_eqI)
  finally show ?thesis .
qed

lemma bitfield_words_eq: "bitfield_words b = (unat (b_max b) + 31) div 32"
proof -
  let ?m = "unat (b_max b)"
  have m: "?m < 2 ^ 32" using unat_u32_less[of "b_max b"] by simp
  have "unat (b_max b div 32) = ?m div 32" "unat (b_max b mod 32) = ?m mod 32" by (simp_all add: unat_div unat_mod)
  moreover have "(b_max b mod 32 = 0) = (?m mod 32 = 0)" unfolding calculation(2)[symmetric] by (simp add: unsigned_eq_0_iff)
  moreover note ceil32[of ?m]
  ultimately have l: "unat (b_max b div 32 + (if b_max b mod 32 = 0 then 0 else 1)) = (?m + 31) div 32"
    using m by (subst unat_add_small) auto
  have "unat (bitfield_length b) = (?m + 31) div 32 * 4"
    unfolding bitfield_length_def using m l by (subst unat_mult_small) auto
  then show ?thesis by (simp add: bitfield_words_def)
qed

lemma bit_number: "d < 32 \<Longrightarrow> i * 32 + 32 \<le> 4294967296 \<Longrightarrow> unat (of_nat d + of_nat i * 32 :: u32) = i * 32 + d"
  using unat_of_nat_u32[of "i * 32 + d"] by (simp add: add.commute)

lemma get_bits_spec:
  assumes "d + n \<le> 32" and "i * 32 + 32 \<le> 4294967296"
  shows "case get_bits w i d mx n of
      Missed \<Rightarrow> \<forall>e. d \<le> e \<and> e < d + n \<longrightarrow> bit w e
    | Hit e \<Rightarrow> d \<le> e \<and> e < d + n \<and> \<not> bit w e \<and> i * 32 + e < unat mx \<and> (\<forall>e'. d \<le> e' \<and> e' < e \<longrightarrow> bit w e')
    | Refused \<Rightarrow> \<exists>e < d + n. d \<le> e \<and> unat mx \<le> i * 32 + e \<and> (\<forall>e'. d \<le> e' \<and> e' < e \<longrightarrow> bit w e')"
  using assms(1)
proof (induction n arbitrary: d)
  case (Suc n)
  have c: "(of_nat d + of_nat i * 32 :: u32) \<ge> mx \<longleftrightarrow> unat mx \<le> i * 32 + d"
    using bit_number[of d i] Suc.prems assms(2) by (simp add: word_le_nat_alt)
  show ?case
  proof (cases "unat mx \<le> i * 32 + d \<or> \<not> bit w d")
    case True
    then show ?thesis using c by (cases "unat mx \<le> i * 32 + d") (auto simp: BIT_TST_bit intro!: exI[of _ d])
  next
    case False
    have "get_bits w i d mx (Suc n) = get_bits w i (Suc d) mx n" using False c by (simp add: BIT_TST_bit)
    moreover have "(\<forall>e. Suc d \<le> e \<and> e < m \<longrightarrow> bit w e) \<Longrightarrow> (\<forall>e. d \<le> e \<and> e < m \<longrightarrow> bit w e)" for m
      using False by (metis Suc_leI le_neq_implies_less)
    ultimately show ?thesis using Suc.IH[of "Suc d"] Suc.prems
      by (auto split: search.splits)
  qed
qed auto

lemma in_use_at: "d < 32 \<Longrightarrow> i < length fs \<Longrightarrow> in_use fs (i * 32 + d) = bit (fs ! i) d"
  by (simp add: in_use_def)

lemma in_use_set:
  assumes "i < length fs" and "d < 32"
  shows "in_use (fs[i := BIT_SET (fs ! i) d]) c \<longleftrightarrow> in_use fs c \<or> c = i * 32 + d"
proof -
  have "c = i * 32 + d \<longleftrightarrow> c div 32 = i \<and> c mod 32 = d" using assms(2) by (rule split32)
  then show ?thesis using assms by (cases "c div 32 = i") (simp_all add: in_use_def bit_BIT_SET)
qed

lemma in_use_clr:
  assumes "i < length fs" and "d < 32"
  shows "in_use (fs[i := BIT_CLR (fs ! i) d]) c \<longleftrightarrow> in_use fs c \<and> c \<noteq> i * 32 + d"
proof -
  have "c = i * 32 + d \<longleftrightarrow> c div 32 = i \<and> c mod 32 = d" using assms(2) by (rule split32)
  then show ?thesis using assms by (cases "c div 32 = i") (simp_all add: in_use_def bit_BIT_CLR)
qed

lemma word_in_use:
  assumes "i < length fs" and "\<forall>e < 32. bit (fs ! i) e" and "i * 32 \<le> c" and "c < Suc i * 32"
  shows "in_use fs c"
proof -
  have "c div 32 = i" "c mod 32 < 32" using assms(3,4) by auto
  then show ?thesis using assms(1,2) by (simp add: in_use_def)
qed

lemma get_words_spec:
  assumes "i + n = length fs" and "length fs * 32 \<le> 4294967296" and "unat mx \<le> length fs * 32"
  shows "\<exists>r fs'. get_words fs i mx n = Some (r, fs') \<and> length fs' = length fs \<and>
     (if fst r then i * 32 \<le> unat (snd r) \<and> unat (snd r) < unat mx \<and> \<not> in_use fs (unat (snd r)) \<and>
          (\<forall>c. i * 32 \<le> c \<and> c < unat (snd r) \<longrightarrow> in_use fs c) \<and> (\<forall>c. in_use fs' c \<longleftrightarrow> in_use fs c \<or> c = unat (snd r))
      else snd r = 0xFFFFFFFF \<and> fs' = fs \<and> (\<forall>c. i * 32 \<le> c \<and> c < unat mx \<longrightarrow> in_use fs c))"
  using assms(1)
proof (induction n arbitrary: i)
  case 0
  then show ?case using assms(3) by auto
next
  case (Suc n)
  have i: "i < length fs" using Suc.prems by simp
  then have i32: "i * 32 + 32 \<le> 4294967296" using assms(2) by linarith
  note spec = get_bits_spec[where d = 0 and n = 32 and w = "fs ! i" and mx = mx, OF _ i32, simplified]
  show ?case
  proof (cases "get_bits (fs ! i) i 0 mx 32")
    case Refused
    then obtain e where e: "e < 32" "unat mx \<le> i * 32 + e" "\<forall>e' < e. bit (fs ! i) e'" using spec by auto
    have "in_use fs c" if "i * 32 \<le> c" "c < unat mx" for c
    proof -
      have "c - i * 32 < e" using that e(2) by linarith
      then show ?thesis using in_use_at[of "c - i * 32" i fs] e(1,3) i that(1) by simp
    qed
    then show ?thesis using Refused i by simp
  next
    case (Hit d)
    then have d: "d < 32" "\<not> bit (fs ! i) d" "i * 32 + d < unat mx" "\<forall>e' < d. bit (fs ! i) e'" using spec by auto
    have "in_use fs c" if "i * 32 \<le> c" "c < i * 32 + d" for c
      using in_use_at[of "c - i * 32" i fs] d(1,4) i that by simp
    then show ?thesis using Hit i d bit_number[OF d(1) i32] in_use_at[OF d(1) i] in_use_set[OF i d(1)] by simp
  next
    case Missed
    then have full: "\<forall>e < 32. bit (fs ! i) e" using spec by simp
    have "get_words fs i mx (Suc n) = get_words fs (Suc i) mx n" using Missed i by simp
    moreover have "in_use fs c" if "i * 32 \<le> c" "c < Suc i * 32" for c by (rule word_in_use[OF i full that])
    ultimately show ?thesis using Suc.IH[of "Suc i"] Suc.prems
      by (auto split: if_splits) (metis linorder_not_le mult_Suc)+
  qed
qed

lemma rls_bits_spec:
  assumes "d + n \<le> 32" and "i * 32 + 32 \<le> 4294967296"
  shows "rls_bits w i d c n =
     (if i * 32 + d \<le> unat c \<and> unat c < i * 32 + d + n \<and> bit w (unat c - i * 32) then Hit (unat c - i * 32) else Missed)"
  using assms(1)
proof (induction n arbitrary: d)
  case (Suc n)
  have c: "(of_nat d + of_nat i * 32 :: u32) = c \<longleftrightarrow> unat c = i * 32 + d"
    using bit_number[of d i] Suc.prems assms(2) unfolding word_unat_eq_iff by auto
  show ?case using Suc.IH[of "Suc d"] Suc.prems c by (auto simp: BIT_TST_bit)
qed simp

lemma rls_words_spec:
  assumes "i + n = length fs" and "length fs * 32 \<le> 4294967296" and "i * 32 \<le> unat c"
  shows "\<exists>fs'. rls_words fs i c n = Some (in_use fs (unat c), fs') \<and> length fs' = length fs \<and>
     (\<forall>k. in_use fs' k \<longleftrightarrow> in_use fs k \<and> k \<noteq> unat c)"
  using assms(1,3)
proof (induction n arbitrary: i)
  case 0
  then have "\<not> in_use fs (unat c)" by (auto simp: in_use_def)
  then show ?case by auto
next
  case (Suc n)
  have i: "i < length fs" using Suc.prems by simp
  then have i32: "i * 32 + 32 \<le> 4294967296" using assms(2) by linarith
  let ?d = "unat c - i * 32"
  note spec = rls_bits_spec[where d = 0 and n = 32 and w = "fs ! i" and c = c, OF _ i32, simplified]
  show ?case
  proof (cases "unat c < i * 32 + 32")
    case True
    then have d: "?d < 32" "unat c = i * 32 + ?d" using Suc.prems(2) by auto
    show ?thesis
    proof (cases "bit (fs ! i) ?d")
      case True
      then show ?thesis
        using spec i d in_use_at[OF d(1) i] in_use_clr[OF i d(1)] Suc.prems(2) \<open>unat c < i * 32 + 32\<close>
        by (simp flip: d(2))
    next
      case False
      then have "\<not> in_use fs (unat c)" using in_use_at[OF d(1) i] d(2) by simp
      moreover have "rls_words fs i c (Suc n) = rls_words fs (Suc i) c n" using spec i False by simp
      moreover have "rls_words fs j c m = Some (False, fs)" if "j + m = length fs" "unat c < j * 32" for j m
        using that
      proof (induction m arbitrary: j)
        case (Suc m)
        have "j * 32 + 32 \<le> 4294967296" using Suc.prems(1) assms(2) by linarith
        then show ?case using Suc rls_bits_spec[where d = 0 and n = 32 and i = j and w = "fs ! j" and c = c] by simp
      qed simp
      ultimately show ?thesis using Suc.prems(1) True by auto
    qed
  next
    case False
    then have "rls_words fs i c (Suc n) = rls_words fs (Suc i) c n" using spec i by simp
    then show ?thesis using Suc.IH[of "Suc i"] Suc.prems False by simp
  qed
qed

section \<open>Properties of bit fields\<close>

definition number_used :: "bitfield_t \<Rightarrow> nat \<Rightarrow> bool" where
  "number_used b c \<longleftrightarrow> in_use (the (b_fields b)) c"

lemma bitfield_room:
  assumes "bitfield_wf b"
  shows "length (the (b_fields b)) * 32 \<le> 4294967296 \<and> unat (b_max b) \<le> length (the (b_fields b)) * 32"
proof -
  have w: "length (the (b_fields b)) = (unat (b_max b) + 31) div 32" using assms by (auto simp: bitfield_wf_def bitfield_words_eq)
  have "unat (b_max b) < (unat (b_max b) + 31) div 32 * 32 + 1" by linarith
  moreover have "(unat (b_max b) + 31) div 32 \<le> 134217728" using unat_u32_less[of "b_max b"] by linarith
  ultimately show ?thesis unfolding w by linarith
qed

text \<open>
  \<open>bitfield_get\<close> on an initialised bit field never reads outside it, hands out the least number below the maximum that is not in
  use and marks exactly that one, or reports failure with the number \<open>0xFFFFFFFF\<close> and changes nothing when all are in use;
  \<open>bitfield_rls\<close> tells whether the number was in use and releases exactly that one.
\<close>
theorem bitfield_allocates_least:
  assumes "bitfield_wf b"
  shows "\<exists>r b' r2 b2. bitfield_get (Some b) = Some (r, Some b') \<and> bitfield_wf b' \<and> b_max b' = b_max b \<and>
     (if fst r then unat (snd r) < unat (b_max b) \<and> \<not> number_used b (unat (snd r)) \<and> (\<forall>c < unat (snd r). number_used b c) \<and>
          (\<forall>c. number_used b' c \<longleftrightarrow> number_used b c \<or> c = unat (snd r))
      else snd r = 0xFFFFFFFF \<and> b' = b \<and> (\<forall>c < unat (b_max b). number_used b c)) \<and>
     bitfield_rls (Some b) n = Some (r2, Some b2) \<and> bitfield_wf b2 \<and> r2 = number_used b (unat n) \<and>
     (\<forall>c. number_used b2 c \<longleftrightarrow> number_used b c \<and> c \<noteq> unat n)"
proof -
  obtain fs where fs: "b_fields b = Some fs" "length fs = bitfield_words b" using assms by (auto simp: bitfield_wf_def)
  have room: "length fs * 32 \<le> 4294967296" "unat (b_max b) \<le> length fs * 32" using bitfield_room[OF assms] fs(1) by auto
  have words: "bitfield_words (b\<lparr>b_fields := x\<rparr>) = bitfield_words b" for x by (simp add: bitfield_words_eq)
  have same: "b\<lparr>b_fields := Some fs\<rparr> = b" using fs(1) by (cases b) simp
  have w: "0 + bitfield_words b = length fs" using fs(2) by simp
  obtain r fs' where g: "get_words fs 0 (b_max b) (bitfield_words b) = Some (r, fs')" "length fs' = length fs"
     "if fst r then unat (snd r) < unat (b_max b) \<and> \<not> in_use fs (unat (snd r)) \<and>
          (\<forall>c. c < unat (snd r) \<longrightarrow> in_use fs c) \<and> (\<forall>c. in_use fs' c \<longleftrightarrow> in_use fs c \<or> c = unat (snd r))
      else snd r = 0xFFFFFFFF \<and> fs' = fs \<and> (\<forall>c. c < unat (b_max b) \<longrightarrow> in_use fs c)"
    using get_words_spec[OF w room] by (simp only: mult_0 le0 simp_thms cong: if_cong) blast
  obtain fs2 where l: "rls_words fs 0 n (bitfield_words b) = Some (in_use fs (unat n), fs2)" "length fs2 = length fs"
      "\<forall>k. in_use fs2 k \<longleftrightarrow> in_use fs k \<and> k \<noteq> unat n"
    using rls_words_spec[OF w room(1), of n] by auto
  let ?b1 = "b\<lparr>b_fields := Some fs'\<rparr>" and ?b2 = "b\<lparr>b_fields := Some fs2\<rparr>"
  have "bitfield_get (Some b) = Some (r, Some ?b1)" using fs(1) g(1) by (simp add: bitfield_get_def)
  moreover have "bitfield_rls (Some b) n = Some (in_use fs (unat n), Some ?b2)" using fs(1) l(1) by (simp add: bitfield_rls_def)
  moreover have "bitfield_wf ?b1" "bitfield_wf ?b2" using fs(2) g(2) l(2) words by (simp_all add: bitfield_wf_def)
  ultimately show ?thesis using g(3) l(3) fs(1) same
    by (intro exI[of _ r] exI[of _ ?b1] exI[of _ "in_use fs (unat n)"] exI[of _ ?b2]) (simp add: number_used_def split: if_splits)
qed

lemma bitfield_allocates_least_witness:
  "\<exists>r b'. bitfield_get (Some \<lparr>b_fields = Some [5], b_max = 20, b_count = 0\<rparr>) = Some (r, Some b') \<and> bitfield_wf b'"
proof -
  have "bitfield_wf \<lparr>b_fields = Some [5], b_max = 20, b_count = 0\<rparr>" by (simp add: bitfield_wf_def bitfield_words_eq)
  then show ?thesis using bitfield_allocates_least[of _ 0] by blast
qed

text \<open>Initialising a bit field again for more numbers writes behind the old allocation, and the count is never kept.\<close>

lemma bitfield_reinit_overruns:
  assumes "bitfield_wf b" and "(unat (b_max b) + 31) div 32 < (unat mx + 31) div 32"
  shows "bitfield_init ok (Some b) mx = None"
  using assms by (auto simp: bitfield_init_def clear_fields_def mem_put_def bitfield_wf_def bitfield_words_eq Let_def)

lemma bitfield_count_is_max: "bitfield_count (Some b) = b_max b"
  by (simp add: bitfield_count_def)

section \<open>Histograms\<close>

text \<open>The minimum, the maximum and the range of a bin are signed.\<close>

record histogram_t =
  hg_bins :: "u32 list option"
  hg_numBins :: u32
  hg_binRange :: s32
  hg_min :: s32
  hg_max :: s32

text \<open>
  A division by zero is \<open>None\<close>. The difference of the bounds is divided as an unsigned number, since the number of bins is
  unsigned. \<open>ok\<close> is the success of \<open>calloc\<close>.
\<close>

definition histogram_init :: "bool \<Rightarrow> u32 \<Rightarrow> s32 \<Rightarrow> s32 \<Rightarrow> (bool \<times> histogram_t) option" where
  "histogram_init ok bins mn mx =
     (if bins = 0 then None
      else
        let r = (mx - mn) div bins;
            r' = (if (mx - mn) mod bins > 0 then r + 1 else r)
        in Some (ok, \<lparr>hg_bins = (if ok then Some (replicate (unat bins) 0) else None), hg_numBins = bins,
                      hg_binRange = r', hg_min = mn, hg_max = mx\<rparr>))"

definition histogram_deinit :: "histogram_t \<Rightarrow> histogram_t option" where
  "histogram_deinit h = do {
     bs \<leftarrow> hg_bins h;
     bs' \<leftarrow> mem_put bs 0 (replicate (unat (hg_numBins h)) 0);
     Some (h\<lparr>hg_bins := Some bs'\<rparr>) }"

definition hg_in_range :: "histogram_t \<Rightarrow> s32 \<Rightarrow> bool" where
  "hg_in_range h v \<longleftrightarrow> sint (hg_min h) \<le> sint v \<and> sint v < sint (hg_max h)"

definition hg_index :: "histogram_t \<Rightarrow> s32 \<Rightarrow> u32 option" where
  "hg_index h v =
     (if hg_binRange h = 0 then None else Some (word_of_int (sint (v - hg_min h) sdiv sint (hg_binRange h))))"

definition histogram_inc :: "histogram_t \<Rightarrow> s32 \<Rightarrow> histogram_t option" where
  "histogram_inc h v =
     (if hg_in_range h v then do {
        i \<leftarrow> hg_index h v;
        (if i < hg_numBins h then do {
           bs \<leftarrow> hg_bins h;
           (if unat i < length bs then Some (h\<lparr>hg_bins := Some (bs[unat i := bs ! unat i + 1])\<rparr>) else None) }
         else Some h) }
      else Some h)"

definition histogram_get :: "histogram_t \<Rightarrow> s32 \<Rightarrow> u32 option" where
  "histogram_get h v =
     (if hg_in_range h v then do {
        i \<leftarrow> hg_index h v;
        (if i < hg_numBins h then do {
           bs \<leftarrow> hg_bins h;
           (if unat i < length bs then Some (bs ! unat i) else None) }
         else Some 0) }
      else Some 0)"

text \<open>A histogram whose bins cover its range.\<close>

definition histogram_wf :: "histogram_t \<Rightarrow> bool" where
  "histogram_wf h \<longleftrightarrow> (\<exists>bs. hg_bins h = Some bs \<and> length bs = unat (hg_numBins h)) \<and> 0 < sint (hg_binRange h) \<and>
     sint (hg_max h) - sint (hg_min h) < 2147483648 \<and>
     sint (hg_max h) - sint (hg_min h) \<le> int (unat (hg_numBins h)) * sint (hg_binRange h)"

definition hg_bin :: "histogram_t \<Rightarrow> s32 \<Rightarrow> nat" where
  "hg_bin h v = nat ((sint v - sint (hg_min h)) div sint (hg_binRange h))"

lemma sint_small: "-2147483648 \<le> k \<Longrightarrow> k < 2147483648 \<Longrightarrow> sint (word_of_int k :: s32) = k"
  by (simp add: signed_of_int signed_take_bit_int_eq_self)

lemma uint_small: "0 \<le> k \<Longrightarrow> k < 2147483648 \<Longrightarrow> uint (word_of_int k :: s32) = k"
  by (simp add: unsigned_of_int take_bit_int_eq_self)

lemma sint_diff_small:
  assumes "-2147483648 \<le> sint (a :: s32) - sint b" and "sint a - sint b < 2147483648"
  shows "sint (a - b) = sint a - sint b"
proof -
  have "a - b = word_of_int (sint a - sint b)" by simp
  then show ?thesis using sint_small[OF assms] by simp
qed

lemma sint_unat: "unat (x :: s32) < 2147483648 \<Longrightarrow> sint x = int (unat x)"
proof -
  assume "unat x < 2147483648"
  then have "int (unat x) < 2147483648" by linarith
  then have "uint x < 2147483648" by simp
  then have "sint (word_of_int (uint x) :: s32) = uint x" using uint_ge_0[of x] by (intro sint_small) linarith+
  then show "sint x = int (unat x)" by simp
qed

lemma hg_index_bin:
  assumes "histogram_wf h" and "hg_in_range h v"
  shows "hg_index h v = Some (of_nat (hg_bin h v))" and "hg_bin h v < unat (hg_numBins h)"
    and "unat (of_nat (hg_bin h v) :: u32) = hg_bin h v"
proof -
  let ?d = "sint v - sint (hg_min h)" let ?r = "sint (hg_binRange h)"
  have d: "0 \<le> ?d" "?d < 2147483648" "?d < int (unat (hg_numBins h)) * ?r"
    using assms by (auto simp: histogram_wf_def hg_in_range_def)
  have r: "0 < ?r" using assms(1) by (simp add: histogram_wf_def)
  have "sint (v - hg_min h) = ?d" using d by (intro sint_diff_small) simp_all
  moreover have "?d sdiv ?r = ?d div ?r" using d(1) r by (cases "?d = 0") (simp_all add: signed_divide_int_def)
  moreover have q: "0 \<le> ?d div ?r" using d(1) r by (simp add: pos_imp_zdiv_nonneg_iff)
  ultimately show "hg_index h v = Some (of_nat (hg_bin h v))" using r by (auto simp: hg_index_def hg_bin_def)
  have "?d div ?r < int (unat (hg_numBins h))"
  proof (rule ccontr)
    assume "\<not> ?d div ?r < int (unat (hg_numBins h))"
    then have "int (unat (hg_numBins h)) * ?r \<le> ?d div ?r * ?r" using r by simp
    also have "\<dots> \<le> ?d" using r by (simp add: minus_mod_eq_div_mult[symmetric])
    finally show False using d(3) by simp
  qed
  then show b: "hg_bin h v < unat (hg_numBins h)" using q by (simp add: hg_bin_def nat_less_iff)
  have "hg_bin h v < size_max" using b unat_u32_less[of "hg_numBins h"] by linarith
  then show "unat (of_nat (hg_bin h v) :: u32) = hg_bin h v" by (rule unat_of_nat_u32)
qed

lemma div_up: "0 < (n::nat) \<Longrightarrow> d \<le> n * (if 0 < d mod n then d div n + 1 else d div n)"
proof -
  assume n: "0 < n"
  have d: "n * (d div n) + d mod n = d" "d mod n < n" using n by simp_all
  have "n * (d div n + 1) = n * (d div n) + n" by simp
  then have "d \<le> n * (d div n + 1)" using d by linarith
  then show "d \<le> n * (if 0 < d mod n then d div n + 1 else d div n)" using d(1) by (cases "0 < d mod n") auto
qed

text \<open>\<open>histogram_init\<close> rounds the range of a bin up, so that the bins cover the whole range.\<close>

lemma histogram_init_wf:
  assumes "0 < bins" and "sint mn < sint mx" and "sint mx - sint mn < 2147483648"
  shows "\<exists>h. histogram_init True bins mn mx = Some (True, h) \<and> histogram_wf h \<and>
     hg_bins h = Some (replicate (unat bins) 0) \<and> hg_min h = mn \<and> hg_max h = mx \<and> hg_numBins h = bins"
proof -
  let ?D = "unat (mx - mn)" let ?n = "unat bins"
  let ?r = "(mx - mn) div bins" let ?r' = "if (mx - mn) mod bins > 0 then ?r + 1 else ?r"
  have s: "sint (mx - mn) = sint mx - sint mn" using assms(2,3) by (intro sint_diff_small) simp_all
  have D: "int ?D = sint mx - sint mn" "?D < 2147483648"
  proof -
    have "mx - mn = word_of_int (sint mx - sint mn)" by simp
    moreover have "uint (word_of_int (sint mx - sint mn) :: s32) = sint mx - sint mn"
      using assms(2,3) by (intro uint_small) simp_all
    ultimately have "uint (mx - mn) = sint mx - sint mn" by metis
    then show "int ?D = sint mx - sint mn" by simp
    then show "?D < 2147483648" using assms(3) by linarith
  qed
  have n: "0 < ?n" using assms(1) by (simp add: word_less_nat_alt)
  have r: "unat ?r = ?D div ?n" "unat ((mx - mn) mod bins) = ?D mod ?n" by (simp_all add: unat_div unat_mod)
  have le: "?D div ?n \<le> ?D" by simp
  have r': "unat ?r' = (if 0 < ?D mod ?n then ?D div ?n + 1 else ?D div ?n)"
  proof -
    have "unat ?r < 2147483648" using r(1) le D(2) by linarith
    then have "unat (?r + 1) = unat ?r + 1" by (subst unat_add_small) simp_all
    then show ?thesis using r by (auto simp: word_less_nat_alt)
  qed
  have cover: "?D \<le> ?n * unat ?r'" unfolding r' by (rule div_up[OF n])
  have pos: "0 < ?D" using D(1) assms(2) by linarith
  have "unat ?r' \<le> ?D"
  proof (cases "?n = 1")
    case False
    then have "?D div ?n < ?D" using pos n by simp
    then show ?thesis unfolding r' by auto
  qed (simp add: r')
  then have sr: "sint ?r' = int (unat ?r')" using D(2) by (intro sint_unat) linarith
  have "0 < unat ?r'" using cover pos by (cases "unat ?r' = 0") simp_all
  then have "0 < sint ?r'" unfolding sr by linarith
  moreover have "sint mx - sint mn \<le> int ?n * sint ?r'"
    unfolding sr using cover D(1) by (metis of_nat_le_iff of_nat_mult)
  ultimately show ?thesis using assms(1,3)
    by (auto simp: histogram_init_def histogram_wf_def Let_def simp del: if_split)
qed

lemma histogram_inc_wf:
  assumes "histogram_wf h"
  shows "\<exists>bs h'. hg_bins h = Some bs \<and> histogram_inc h v = Some h' \<and> histogram_wf h' \<and>
     h' = h\<lparr>hg_bins := Some (if hg_in_range h v then bs[hg_bin h v := bs ! hg_bin h v + 1] else bs)\<rparr>"
proof -
  obtain bs where bs: "hg_bins h = Some bs" "length bs = unat (hg_numBins h)" using assms by (auto simp: histogram_wf_def)
  show ?thesis
  proof (cases "hg_in_range h v")
    case True
    note i = hg_index_bin[OF assms True]
    have "(of_nat (hg_bin h v) :: u32) < hg_numBins h" using i(2,3) by (simp add: word_less_nat_alt)
    then show ?thesis using True i bs assms by (simp add: histogram_inc_def histogram_wf_def)
  next
    case False
    then show ?thesis using bs assms by (cases h) (simp add: histogram_inc_def)
  qed
qed

lemma histogram_get_bin:
  assumes "histogram_wf h" and "hg_bins h = Some bs"
  shows "histogram_get h v = Some (if hg_in_range h v then bs ! hg_bin h v else 0)"
proof (cases "hg_in_range h v")
  case True
  note i = hg_index_bin[OF assms(1) True]
  have "(of_nat (hg_bin h v) :: u32) < hg_numBins h" using i(2,3) by (simp add: word_less_nat_alt)
  moreover have "length bs = unat (hg_numBins h)" using assms by (simp add: histogram_wf_def)
  ultimately show ?thesis using True i assms(2) by (simp add: histogram_get_def)
qed (simp add: histogram_get_def)

text \<open>Classifying a sequence of values.\<close>

fun histogram_inc_all :: "histogram_t \<Rightarrow> s32 list \<Rightarrow> histogram_t option" where
  "histogram_inc_all h [] = Some h"
| "histogram_inc_all h (v # vs) = do { h1 \<leftarrow> histogram_inc h v; histogram_inc_all h1 vs }"

definition same_bin :: "histogram_t \<Rightarrow> s32 \<Rightarrow> s32 \<Rightarrow> bool" where
  "same_bin h v x \<longleftrightarrow> hg_in_range h x \<and> hg_bin h x = hg_bin h v"

lemma histogram_inc_all_counts:
  assumes "histogram_wf h"
  shows "\<exists>h'. histogram_inc_all h vs = Some h' \<and> histogram_wf h' \<and> (\<forall>v. hg_in_range h' v = hg_in_range h v) \<and>
     (\<forall>v. hg_in_range h v \<longrightarrow>
        the (histogram_get h' v) = the (histogram_get h v) + of_nat (length (filter (same_bin h v) vs)))"
  using assms
proof (induction vs arbitrary: h)
  case (Cons x vs)
  obtain bs h1 where h1: "hg_bins h = Some bs" "histogram_inc h x = Some h1" "histogram_wf h1"
      "h1 = h\<lparr>hg_bins := Some (if hg_in_range h x then bs[hg_bin h x := bs ! hg_bin h x + 1] else bs)\<rparr>"
    using histogram_inc_wf[OF Cons.prems] by blast
  have same: "hg_in_range h1 = hg_in_range h" "hg_bin h1 = hg_bin h" "same_bin h1 = same_bin h"
    using h1(4) by (auto simp: hg_in_range_def hg_bin_def same_bin_def fun_eq_iff)
  have len: "hg_bin h v < length bs" if "hg_in_range h v" for v
    using hg_index_bin(2)[OF Cons.prems that] Cons.prems h1(1) by (simp add: histogram_wf_def)
  have step: "the (histogram_get h1 v) = the (histogram_get h v) + (if same_bin h v x then 1 else 0)" if "hg_in_range h v" for v
    using histogram_get_bin[OF h1(3), of _ v] histogram_get_bin[OF Cons.prems h1(1), of v] h1(4) that same(1,2) len
    by (auto simp: same_bin_def nth_list_update)
  obtain h' where h': "histogram_inc_all h1 vs = Some h'" "histogram_wf h'" "\<forall>v. hg_in_range h' v = hg_in_range h1 v"
      "\<forall>v. hg_in_range h1 v \<longrightarrow>
        the (histogram_get h' v) = the (histogram_get h1 v) + of_nat (length (filter (same_bin h1 v) vs))"
    using Cons.IH[OF h1(3)] by blast
  then show ?case using h1(2) step unfolding same by (intro exI[of _ h']) auto
qed simp

text \<open>
  After \<open>histogram_init\<close> with at least one bin and bounds in order whose distance is below \<open>2^31\<close>, classifying any sequence of values
  returns, never leaves the bins, and \<open>histogram_get\<close> of a value in the range is the number of values of the sequence in the same
  bin (modulo \<open>2^32\<close>), while it is 0 outside the range.
\<close>
theorem histogram_counts:
  assumes "0 < bins" and "sint mn < sint mx" and "sint mx - sint mn < 2147483648"
  shows "\<exists>h h'. histogram_init True bins mn mx = Some (True, h) \<and> histogram_inc_all h vs = Some h' \<and>
     (\<forall>v. histogram_get h' v = Some (if sint mn \<le> sint v \<and> sint v < sint mx
        then of_nat (length (filter (same_bin h v) vs)) else 0))"
proof -
  obtain h where h: "histogram_init True bins mn mx = Some (True, h)" "histogram_wf h"
      "hg_bins h = Some (replicate (unat bins) 0)" "hg_min h = mn" "hg_max h = mx" "hg_numBins h = bins"
    using histogram_init_wf[OF assms] by blast
  obtain h' where h': "histogram_inc_all h vs = Some h'" "histogram_wf h'" "\<forall>v. hg_in_range h' v = hg_in_range h v"
      "\<forall>v. hg_in_range h v \<longrightarrow>
        the (histogram_get h' v) = the (histogram_get h v) + of_nat (length (filter (same_bin h v) vs))"
    using histogram_inc_all_counts[OF h(2)] by blast
  obtain bs where bs: "hg_bins h' = Some bs" using h'(2) by (auto simp: histogram_wf_def)
  have rng: "hg_in_range h v \<longleftrightarrow> sint mn \<le> sint v \<and> sint v < sint mx" for v using h(4,5) by (simp add: hg_in_range_def)
  have "histogram_get h' v = Some (if hg_in_range h v then of_nat (length (filter (same_bin h v) vs)) else 0)" for v
  proof (cases "hg_in_range h v")
    case True
    have "the (histogram_get h v) = 0"
      using histogram_get_bin[OF h(2,3), of v] hg_index_bin(2)[OF h(2) True] h(6) True by simp
    then have "the (histogram_get h' v) = of_nat (length (filter (same_bin h v) vs))" using h'(4) True by simp
    then show ?thesis using h'(3) True histogram_get_bin[OF h'(2) bs, of v] by simp
  next
    case False
    then show ?thesis using h'(3) histogram_get_bin[OF h'(2) bs, of v] by simp
  qed
  then show ?thesis using h(1) h'(1) rng by auto
qed

lemma histogram_counts_witness:
  "\<exists>h h'. histogram_init True 17 (-100) 100 = Some (True, h) \<and> histogram_inc_all h [-100, -99, 5] = Some h'"
  using histogram_counts[of 17 "-100" 100 "[-100, -99, 5]"] by auto

section \<open>Four-character codes\<close>

text \<open>The string has at least four characters; bytes are put together from the lowest.\<close>

definition strtofourcc :: "u8 list \<Rightarrow> u32 option" where
  "strtofourcc s =
     (if length s < 4 then None
      else Some (((ucast (s ! 0) OR push_bit 8 (ucast (s ! 1))) OR push_bit 16 (ucast (s ! 2))) OR push_bit 24 (ucast (s ! 3))))"

text \<open>\<open>strncpy\<close> of the four bytes of the code in memory order, which stops at the first zero byte.\<close>

definition fourcctostr :: "u32 \<Rightarrow> u8 list" where
  "fourcctostr fcc = takeWhile (\<lambda>c. c \<noteq> 0) (map (\<lambda>i. ucast (drop_bit (8 * i) fcc)) [0, 1, 2, 3])"

lemma fourcc_roundtrip:
  assumes "0 \<notin> {a, b, c, d}"
  shows "map_option fourcctostr (strtofourcc [a, b, c, d]) = Some [a, b, c, d]"
proof -
  let ?f = "((ucast a OR push_bit 8 (ucast b)) OR push_bit 16 (ucast c)) OR push_bit 24 (ucast d) :: u32"
  have "ucast ?f = a" "ucast (drop_bit 8 ?f) = b" "ucast (drop_bit 16 ?f) = c" "ucast (drop_bit 24 ?f) = d"
    by (rule bit_word_eqI; auto simp: bit_simps dest: bit_imp_le_length)+
  then show ?thesis using assms by (simp add: strtofourcc_def fourcctostr_def)
qed

end
