(* ===== verification/Sosal_ThreadPool.thy ===== *)
theory Sosal_ThreadPool
  imports Dvp_Prelude "HOL-Library.Multiset"
begin

text \<open>
  The thread pool of \<open>source/sosal/threadpool.c\<close>: a queue per worker, a count of the items that have been issued
  and are not finished, and an event that is set when the count reaches zero. Any number of threads issue work
  while the workers run. The semaphore of the pool makes the issuing of a list of items and the
  counting at the end of an item exclusive, but not the reading of the queues, so the loop that issues items is
  one step per write. Each queue has one reader, so a blocking read is one step.
\<close>

section \<open>The threads\<close>

text \<open>A worker waits for an item, runs the function on it, or is about to count it as finished.\<close>

datatype 'a tworker = TIdle | TWork 'a | TCount

text \<open>
  A thread in \<open>threadpool_issue\<close>: before the semaphore, in the loop with the items that are left and the number of workers
  tried for the first of them, behind the loop, and returned.
\<close>

datatype 'a issuer = IWait "'a list" | ILoop "'a list" nat | IFinish bool | IDone bool

text \<open>
  The pool and its threads. \<open>tp_accepted\<close> and \<open>tp_finished\<close> record the items that were written to a queue and
  those the function of the workers has returned from.
\<close>

record 'a threadpool_t =
  tp_queues :: "'a list list"
  tp_numWorkItems :: nat
  tp_numCurrentItems :: int
  tp_nextWorkerIndex :: nat
  tp_sem :: bool
  tp_completed :: bool
  tp_workers :: "'a tworker list"
  tp_issuers :: "'a issuer list"
  tp_accepted :: "'a list"
  tp_finished :: "'a list"

definition tp_numWorkers :: "'a threadpool_t \<Rightarrow> nat" where
  "tp_numWorkers s = length (tp_workers s)"

text \<open>\<open>threadpool_create\<close> with threads that will issue the given lists of items. The event starts unset.\<close>

definition threadpool_create :: "nat \<Rightarrow> nat \<Rightarrow> 'a list list \<Rightarrow> 'a threadpool_t" where
  "threadpool_create numThreads numWorkItems work =
     \<lparr>tp_queues = replicate numThreads [], tp_numWorkItems = numWorkItems, tp_numCurrentItems = 0, tp_nextWorkerIndex = 0,
      tp_sem = False, tp_completed = False, tp_workers = replicate numThreads TIdle, tp_issuers = map IWait work,
      tp_accepted = [], tp_finished = []\<rparr>"

text \<open>One step of \<open>threadpool_worker\<close>; \<open>None\<close> means that the thread waits.\<close>

definition threadpool_worker :: "nat \<Rightarrow> 'a threadpool_t \<Rightarrow> 'a threadpool_t option" where
  "threadpool_worker i s =
     (case tp_workers s ! i of
        TIdle \<Rightarrow>
          (case tp_queues s ! i of
             [] \<Rightarrow> None
           | x # xs \<Rightarrow> Some (s\<lparr>tp_queues := (tp_queues s)[i := xs], tp_workers := (tp_workers s)[i := TWork x]\<rparr>))
      | TWork x \<Rightarrow> Some (s\<lparr>tp_workers := (tp_workers s)[i := TCount], tp_finished := tp_finished s @ [x]\<rparr>)
      | TCount \<Rightarrow>
          if tp_sem s then None
          else
            let n = tp_numCurrentItems s - 1 in
            Some (s\<lparr>tp_numCurrentItems := n, tp_completed := (n \<le> 0 \<or> tp_completed s),
                    tp_workers := (tp_workers s)[i := TIdle]\<rparr>))"

text \<open>
  One step of \<open>threadpool_issue\<close>. The write goes to the next worker in turn and fails when its queue is full; the loop
  stops when it has tried as many workers as there are. Without workers the turn is a division by zero.
\<close>

definition threadpool_issue :: "nat \<Rightarrow> 'a threadpool_t \<Rightarrow> 'a threadpool_t option" where
  "threadpool_issue j s =
     (case tp_issuers s ! j of
        IWait items \<Rightarrow>
          if tp_sem s then None
          else Some (s\<lparr>tp_sem := True, tp_completed := False,
                 tp_issuers := (tp_issuers s)[j := (if items = [] then IFinish False else ILoop items 0)]\<rparr>)
      | ILoop items cnt \<Rightarrow>
          (case items of
             [] \<Rightarrow> None
           | x # xs \<Rightarrow>
               if tp_numWorkers s = 0 then None
               else
                 let index = tp_nextWorkerIndex s;
                     s1 = s\<lparr>tp_nextWorkerIndex := (index + 1) mod tp_numWorkers s\<rparr>
                 in if length (tp_queues s ! index) < tp_numWorkItems s
                    then Some (s1\<lparr>tp_numCurrentItems := tp_numCurrentItems s + 1,
                           tp_queues := (tp_queues s)[index := tp_queues s ! index @ [x]],
                           tp_accepted := tp_accepted s @ [x],
                           tp_issuers := (tp_issuers s)[j := (if xs = [] then IFinish True else ILoop xs 0)]\<rparr>)
                    else Some (s1\<lparr>tp_issuers := (tp_issuers s)[j :=
                           (if cnt + 1 < tp_numWorkers s then ILoop items (cnt + 1) else IFinish False)]\<rparr>))
      | IFinish wrote \<Rightarrow>
          Some (s\<lparr>tp_completed := (tp_numCurrentItems s = 0 \<or> tp_completed s), tp_sem := False,
                 tp_issuers := (tp_issuers s)[j := IDone wrote]\<rparr>)
      | IDone _ \<Rightarrow> None)"

text \<open>Polling; a blocking \<open>threadpool_complete\<close> returns when the event is set.\<close>

definition threadpool_complete :: "'a threadpool_t \<Rightarrow> bool" where
  "threadpool_complete s \<longleftrightarrow> tp_numCurrentItems s = 0"

inductive pool_step :: "'a threadpool_t \<Rightarrow> 'a threadpool_t \<Rightarrow> bool" where
  worker: "i < length (tp_workers s) \<Longrightarrow> threadpool_worker i s = Some t \<Longrightarrow> pool_step s t"
| issuer: "j < length (tp_issuers s) \<Longrightarrow> threadpool_issue j s = Some t \<Longrightarrow> pool_step s t"

inductive pool_reach :: "'a threadpool_t \<Rightarrow> 'a threadpool_t \<Rightarrow> bool" for s0 where
  start: "pool_reach s0 s0"
| step: "pool_reach s0 s \<Longrightarrow> pool_step s t \<Longrightarrow> pool_reach s0 t"

inductive_cases pool_stepE: "pool_step s t"

section \<open>The invariant\<close>

definition busy :: "'a tworker \<Rightarrow> nat" where
  "busy w = (if w = TIdle then 0 else 1)"

fun working :: "'a tworker \<Rightarrow> 'a list" where
  "working (TWork x) = [x]"
| "working _ = []"

definition inside :: "'a issuer \<Rightarrow> nat" where
  "inside t = (case t of ILoop _ _ \<Rightarrow> 1 | IFinish _ \<Rightarrow> 1 | _ \<Rightarrow> 0)"

definition returned :: "'a issuer \<Rightarrow> bool" where
  "returned t \<longleftrightarrow> (case t of IDone _ \<Rightarrow> True | _ \<Rightarrow> False)"

definition waiting :: "'a issuer \<Rightarrow> bool" where
  "waiting t \<longleftrightarrow> (case t of IWait _ \<Rightarrow> True | _ \<Rightarrow> False)"

definition outstanding :: "'a threadpool_t \<Rightarrow> nat" where
  "outstanding s = sum_list (map length (tp_queues s)) + sum_list (map busy (tp_workers s))"

definition pool_inv :: "'a threadpool_t \<Rightarrow> bool" where
  "pool_inv s \<longleftrightarrow>
     length (tp_queues s) = tp_numWorkers s \<and>
     (0 < tp_numWorkers s \<longrightarrow> tp_nextWorkerIndex s < tp_numWorkers s) \<and>
     tp_numCurrentItems s = int (outstanding s) \<and>
     sum_list (map inside (tp_issuers s)) = (if tp_sem s then 1 else 0) \<and>
     (\<forall>q \<in> set (tp_queues s). length q \<le> tp_numWorkItems s) \<and>
     (\<forall>items cnt. ILoop items cnt \<in> set (tp_issuers s) \<longrightarrow> items \<noteq> [] \<and> (0 < tp_numWorkers s \<longrightarrow> cnt < tp_numWorkers s)) \<and>
     (tp_completed s \<longrightarrow> outstanding s = 0 \<and> \<not> tp_sem s) \<and>
     (\<not> tp_sem s \<and> outstanding s = 0 \<and> (\<exists>t \<in> set (tp_issuers s). \<not> waiting t) \<longrightarrow> tp_completed s) \<and>
     mset (tp_accepted s) = mset (tp_finished s) + mset (concat (tp_queues s)) + mset (concat (map working (tp_workers s)))"

lemma mset_concat_update:
  "i < length xs \<Longrightarrow> mset (concat (map f (xs[i := y]))) + mset (f (xs ! i)) = mset (concat (map f xs)) + mset (f y)"
  by (induction xs arbitrary: i) (auto split: nat.splits simp: nth_Cons ac_simps)

lemma pool_inv_create: "0 < n \<Longrightarrow> pool_inv (threadpool_create n m work)"
  by (auto simp: pool_inv_def threadpool_create_def tp_numWorkers_def outstanding_def busy_def inside_def waiting_def
      sum_list_replicate map_replicate_const comp_def)

lemma inside_nth: "j < length xs \<Longrightarrow> inside (xs ! j) \<le> sum_list (map inside xs)"
  by (rule member_le_sum_list) auto

lemma in_updated: "t \<in> set (xs[i := y]) \<Longrightarrow> t = y \<or> t \<in> set xs"
  using set_update_subset_insert[of xs i y] by auto

lemma not_waiting_update:
  "\<not> waiting y \<Longrightarrow> j < length xs \<Longrightarrow> (\<exists>t \<in> set (xs[j := y]). \<not> waiting t)"
  by (meson set_update_memI)

text \<open>The parts of the invariant, one by one.\<close>

lemma pool_invD:
  assumes "pool_inv s"
  shows "length (tp_queues s) = tp_numWorkers s" "0 < tp_numWorkers s \<Longrightarrow> tp_nextWorkerIndex s < tp_numWorkers s"
    "tp_numCurrentItems s = int (outstanding s)" "sum_list (map inside (tp_issuers s)) = (if tp_sem s then 1 else 0)"
    "q \<in> set (tp_queues s) \<Longrightarrow> length q \<le> tp_numWorkItems s"
    "ILoop items cnt \<in> set (tp_issuers s) \<Longrightarrow> items \<noteq> [] \<and> (0 < tp_numWorkers s \<longrightarrow> cnt < tp_numWorkers s)"
    "tp_completed s \<Longrightarrow> outstanding s = 0 \<and> \<not> tp_sem s"
    "\<not> tp_sem s \<Longrightarrow> outstanding s = 0 \<Longrightarrow> u \<in> set (tp_issuers s) \<Longrightarrow> \<not> waiting u \<Longrightarrow> tp_completed s"
    "mset (tp_accepted s) = mset (tp_finished s) + (mset (concat (tp_queues s)) + mset (concat (map working (tp_workers s))))"
  using assms unfolding pool_inv_def by (blast, blast, blast, blast, blast, blast, blast, blast, simp only: add.assoc)

lemma pool_invI:
  assumes "length (tp_queues s) = tp_numWorkers s" and "0 < tp_numWorkers s \<Longrightarrow> tp_nextWorkerIndex s < tp_numWorkers s"
    and "tp_numCurrentItems s = int (outstanding s)" and "sum_list (map inside (tp_issuers s)) = (if tp_sem s then 1 else 0)"
    and "\<And>q. q \<in> set (tp_queues s) \<Longrightarrow> length q \<le> tp_numWorkItems s"
    and "\<And>items cnt. ILoop items cnt \<in> set (tp_issuers s) \<Longrightarrow> items \<noteq> [] \<and> (0 < tp_numWorkers s \<longrightarrow> cnt < tp_numWorkers s)"
    and "tp_completed s \<Longrightarrow> outstanding s = 0 \<and> \<not> tp_sem s"
    and "\<And>u. \<not> tp_sem s \<Longrightarrow> outstanding s = 0 \<Longrightarrow> u \<in> set (tp_issuers s) \<Longrightarrow> \<not> waiting u \<Longrightarrow> tp_completed s"
    and "mset (tp_accepted s) = mset (tp_finished s) + (mset (concat (tp_queues s)) + mset (concat (map working (tp_workers s))))"
  shows "pool_inv s"
  using assms unfolding pool_inv_def add.assoc by blast

lemma pool_inv_worker:
  assumes "pool_inv s" and "i < length (tp_workers s)" and "threadpool_worker i s = Some t"
  shows "pool_inv t"
proof -
  have q: "i < length (tp_queues s)" using assms(1,2) by (simp add: pool_inv_def tp_numWorkers_def)
  note upd = sum_list_update_nat[OF q, of length] sum_list_update_nat[OF assms(2), of busy]
    mset_concat_update[OF q, of "\<lambda>x. x"] mset_concat_update[OF assms(2), of working]
  show ?thesis
  proof (cases "tp_workers s ! i")
    case TIdle
    then obtain x xs where x: "tp_queues s ! i = x # xs"
        "t = s\<lparr>tp_queues := (tp_queues s)[i := xs], tp_workers := (tp_workers s)[i := TWork x]\<rparr>"
      using assms(3) by (auto simp: threadpool_worker_def split: list.splits)
    have "length xs \<le> tp_numWorkItems s" using pool_invD(5)[OF assms(1) nth_mem[OF q]] x(1) by simp
    then have "\<forall>q \<in> set ((tp_queues s)[i := xs]). length q \<le> tp_numWorkItems s"
      using pool_invD(5)[OF assms(1)] by (auto dest!: in_updated)
    moreover have "outstanding t = outstanding s"
      using upd(1)[of xs] upd(2)[of "TWork x"] x TIdle by (simp add: outstanding_def busy_def)
    moreover have "mset (concat (tp_queues t)) + mset (concat (map working (tp_workers t))) =
        mset (concat (tp_queues s)) + mset (concat (map working (tp_workers s)))"
      using upd(3)[of xs] upd(4)[of "TWork x"] x TIdle by (simp add: add_mset_commute)
    ultimately show ?thesis using pool_invD[OF assms(1)] x(2)
      by (intro pool_invI) (simp_all add: tp_numWorkers_def)
  next
    case (TWork x)
    then have t: "t = s\<lparr>tp_workers := (tp_workers s)[i := TCount], tp_finished := tp_finished s @ [x]\<rparr>"
      using assms(3) by (simp add: threadpool_worker_def)
    have "outstanding t = outstanding s" using upd(2)[of TCount] TWork t by (simp add: outstanding_def busy_def)
    moreover have "mset (concat (map working (tp_workers s))) = add_mset x (mset (concat (map working (tp_workers t))))"
      using upd(4)[of TCount] TWork t by simp
    ultimately show ?thesis using pool_invD[OF assms(1)] t
      by (intro pool_invI) (simp_all add: tp_numWorkers_def)
  next
    case TCount
    let ?n = "tp_numCurrentItems s - 1"
    have t: "t = s\<lparr>tp_numCurrentItems := ?n, tp_completed := (?n \<le> 0 \<or> tp_completed s), tp_workers := (tp_workers s)[i := TIdle]\<rparr>"
        "\<not> tp_sem s"
      using assms(3) TCount by (auto simp: threadpool_worker_def Let_def split: if_splits)
    have "outstanding s = Suc (outstanding t)" using upd(2)[of TIdle] TCount t by (simp add: outstanding_def busy_def)
    moreover have "mset (concat (map working (tp_workers t))) = mset (concat (map working (tp_workers s)))"
      using upd(4)[of TIdle] TCount t by simp
    ultimately show ?thesis using pool_invD[OF assms(1)] t
      by (intro pool_invI) (auto simp: tp_numWorkers_def)
  qed
qed

lemma pool_inv_issuer:
  assumes "pool_inv s" and "j < length (tp_issuers s)" and "threadpool_issue j s = Some t"
  shows "pool_inv t"
proof -
  note ins = sum_list_update_nat[OF assms(2), of inside]
  have sem: "inside (tp_issuers s ! j) = 1 \<Longrightarrow> tp_sem s"
    using inside_nth[OF assms(2)] pool_invD(4)[OF assms(1)] by (simp split: if_splits)
  have mem: "tp_issuers s ! j \<in> set (tp_issuers s)" using assms(2) by simp
  show ?thesis
  proof (cases "tp_issuers s ! j")
    case (IWait items)
    let ?y = "if items = [] then IFinish False else ILoop items 0"
    have t: "t = s\<lparr>tp_sem := True, tp_completed := False, tp_issuers := (tp_issuers s)[j := ?y]\<rparr>" "\<not> tp_sem s"
      using assms(3) IWait by (auto simp: threadpool_issue_def split: if_splits)
    have "inside ?y = 1" by (simp add: inside_def)
    then have one: "sum_list (map inside (tp_issuers t)) = 1"
      using ins[of ?y] t IWait pool_invD(4)[OF assms(1)] by (simp add: inside_def)
    show ?thesis
    proof (rule pool_invI)
      fix items' cnt assume "ILoop items' cnt \<in> set (tp_issuers t)"
      then show "items' \<noteq> [] \<and> (0 < tp_numWorkers t \<longrightarrow> cnt < tp_numWorkers t)"
        using pool_invD(6)[OF assms(1)] t by (auto simp: tp_numWorkers_def dest!: in_updated split: if_splits)
    qed (use pool_invD(1-3,5,9)[OF assms(1)] t one in \<open>simp_all add: tp_numWorkers_def outstanding_def\<close>)
  next
    case (ILoop items cnt)
    then obtain x xs where xs: "items = x # xs" "0 < tp_numWorkers s"
      using assms(3) by (auto simp: threadpool_issue_def split: list.splits if_splits)
    have held: "tp_sem s" "\<not> tp_completed s" using sem ILoop pool_invD(7)[OF assms(1)] by (auto simp: inside_def)
    let ?i = "tp_nextWorkerIndex s"
    let ?next = "(?i + 1) mod tp_numWorkers s"
    have i: "?i < length (tp_queues s)" using pool_invD(1,2)[OF assms(1)] xs(2) by simp
    show ?thesis
    proof (cases "length (tp_queues s ! ?i) < tp_numWorkItems s")
      case True
      let ?y = "if xs = [] then IFinish True else ILoop xs 0"
      let ?q = "tp_queues s ! ?i @ [x]"
      have t: "t = s\<lparr>tp_nextWorkerIndex := ?next, tp_numCurrentItems := tp_numCurrentItems s + 1,
          tp_queues := (tp_queues s)[?i := ?q], tp_accepted := tp_accepted s @ [x],
          tp_issuers := (tp_issuers s)[j := ?y]\<rparr>"
        using assms(3) ILoop xs True by (simp add: threadpool_issue_def Let_def)
      have out: "outstanding t = Suc (outstanding s)"
        using sum_list_update_nat[OF i, of length ?q] t by (simp add: outstanding_def)
      have acc: "mset (concat (tp_queues t)) = add_mset x (mset (concat (tp_queues s)))"
        using mset_concat_update[OF i, of "\<lambda>x. x" ?q] t by simp
      have one: "sum_list (map inside (tp_issuers t)) = 1"
        using ins[of ?y] t ILoop held pool_invD(4)[OF assms(1)] by (simp add: inside_def)
      have same: "tp_numWorkers t = tp_numWorkers s" "tp_sem t" "\<not> tp_completed t" "tp_numWorkItems t = tp_numWorkItems s"
        using t held by (simp_all add: tp_numWorkers_def)
      show ?thesis
      proof (rule pool_invI)
        fix items' c assume "ILoop items' c \<in> set (tp_issuers t)"
        then show "items' \<noteq> [] \<and> (0 < tp_numWorkers t \<longrightarrow> c < tp_numWorkers t)"
          using pool_invD(6)[OF assms(1)] t by (auto simp: tp_numWorkers_def dest!: in_updated split: if_splits)
      next
        show "tp_nextWorkerIndex t < tp_numWorkers t" using t xs(2) same(1) by simp
      next
        show "mset (tp_accepted t) = mset (tp_finished t) + (mset (concat (tp_queues t)) + mset (concat (map working (tp_workers t))))"
          unfolding acc using pool_invD(9)[OF assms(1)] t by simp
      next
        fix q assume "q \<in> set (tp_queues t)"
        then show "length q \<le> tp_numWorkItems t"
          using pool_invD(5)[OF assms(1)] t True by (auto dest!: in_updated)
      next
        show "length (tp_queues t) = tp_numWorkers t" using pool_invD(1)[OF assms(1)] t same(1) by simp
      next
        show "tp_numCurrentItems t = int (outstanding t)" using pool_invD(3)[OF assms(1)] t out by simp
      qed (use one same in simp_all)
    next
      case False
      let ?y = "if cnt + 1 < tp_numWorkers s then ILoop items (cnt + 1) else IFinish False"
      have t: "t = s\<lparr>tp_nextWorkerIndex := ?next, tp_issuers := (tp_issuers s)[j := ?y]\<rparr>"
        using assms(3) ILoop xs False by (auto simp: threadpool_issue_def Let_def split: if_splits)
      have one: "sum_list (map inside (tp_issuers t)) = 1"
        using ins[of ?y] t ILoop held pool_invD(4)[OF assms(1)] by (simp add: inside_def)
      have same: "tp_numWorkers t = tp_numWorkers s" "tp_sem t" "\<not> tp_completed t" "outstanding t = outstanding s"
        using t held by (simp_all add: tp_numWorkers_def outstanding_def)
      show ?thesis
      proof (rule pool_invI)
        fix items' c assume "ILoop items' c \<in> set (tp_issuers t)"
        then show "items' \<noteq> [] \<and> (0 < tp_numWorkers t \<longrightarrow> c < tp_numWorkers t)"
          using pool_invD(6)[OF assms(1)] t xs by (auto simp: tp_numWorkers_def dest!: in_updated split: if_splits)
      next
        show "tp_nextWorkerIndex t < tp_numWorkers t" using t xs(2) same(1) by simp
      qed (use one same pool_invD(1,3,5,9)[OF assms(1)] t in simp_all)
    qed
  next
    case (IFinish wrote)
    have t: "t = s\<lparr>tp_completed := (tp_numCurrentItems s = 0 \<or> tp_completed s), tp_sem := False,
        tp_issuers := (tp_issuers s)[j := IDone wrote]\<rparr>"
      using assms(3) IFinish by (simp add: threadpool_issue_def)
    have held: "tp_sem s" "\<not> tp_completed s" using sem IFinish pool_invD(7)[OF assms(1)] by (auto simp: inside_def)
    have none: "sum_list (map inside (tp_issuers t)) = 0"
      using ins[of "IDone wrote"] t IFinish held pool_invD(4)[OF assms(1)] by (simp add: inside_def)
    have same: "tp_numWorkers t = tp_numWorkers s" "\<not> tp_sem t" "outstanding t = outstanding s"
        "tp_completed t \<longleftrightarrow> outstanding s = 0"
      using t held pool_invD(3)[OF assms(1)] by (simp_all add: tp_numWorkers_def outstanding_def flip: of_nat_add)
    show ?thesis
    proof (rule pool_invI)
      fix items' c assume "ILoop items' c \<in> set (tp_issuers t)"
      then show "items' \<noteq> [] \<and> (0 < tp_numWorkers t \<longrightarrow> c < tp_numWorkers t)"
        using pool_invD(6)[OF assms(1)] t by (auto simp: tp_numWorkers_def dest!: in_updated)
    qed (use none same pool_invD(1-3,5,9)[OF assms(1)] t in simp_all)
  next
    case (IDone w)
    then show ?thesis using assms(3) by (simp add: threadpool_issue_def)
  qed
qed

lemma pool_reach_inv: "pool_reach s0 s \<Longrightarrow> pool_inv s0 \<Longrightarrow> pool_inv s"
  by (induction rule: pool_reach.induct) (auto elim!: pool_stepE intro: pool_inv_worker pool_inv_issuer)

section \<open>Progress\<close>

text \<open>Every step takes something away: a try of the loop, an item to write, or a stage of an item.\<close>

fun issuer_left :: "nat \<Rightarrow> 'a issuer \<Rightarrow> nat" where
  "issuer_left w (IWait items) = (w + 4) * length items + 3"
| "issuer_left w (ILoop items cnt) = (w + 4) * length items + 2 - cnt"
| "issuer_left w (IFinish b) = 1"
| "issuer_left w (IDone b) = 0"

fun tworker_left :: "'a tworker \<Rightarrow> nat" where
  "tworker_left TIdle = 0"
| "tworker_left (TWork x) = 2"
| "tworker_left TCount = 1"

definition work_left :: "'a threadpool_t \<Rightarrow> nat" where
  "work_left s = sum_list (map (issuer_left (tp_numWorkers s)) (tp_issuers s)) +
     sum_list (map (\<lambda>q. 3 * length q) (tp_queues s)) + sum_list (map tworker_left (tp_workers s))"

lemma worker_step_less:
  assumes "pool_inv s" and "i < length (tp_workers s)" and "threadpool_worker i s = Some t"
  shows "work_left t < work_left s"
proof -
  have q: "i < length (tp_queues s)" using pool_invD(1)[OF assms(1)] assms(2) by (simp add: tp_numWorkers_def)
  note upd = sum_list_update_nat[OF q, of "\<lambda>q. 3 * length q"] sum_list_update_nat[OF assms(2), of tworker_left]
  show ?thesis
  proof (cases "tp_workers s ! i")
    case TIdle
    then obtain x xs where x: "tp_queues s ! i = x # xs"
        "t = s\<lparr>tp_queues := (tp_queues s)[i := xs], tp_workers := (tp_workers s)[i := TWork x]\<rparr>"
      using assms(3) by (auto simp: threadpool_worker_def split: list.splits)
    then show ?thesis using upd(1)[of xs] upd(2)[of "TWork x"] TIdle by (simp add: work_left_def tp_numWorkers_def)
  next
    case (TWork x)
    then have "t = s\<lparr>tp_workers := (tp_workers s)[i := TCount], tp_finished := tp_finished s @ [x]\<rparr>"
      using assms(3) by (simp add: threadpool_worker_def)
    then show ?thesis using upd(2)[of TCount] TWork by (simp add: work_left_def tp_numWorkers_def)
  next
    case TCount
    then show ?thesis using assms(3) upd(2)[of TIdle]
      by (auto simp: threadpool_worker_def work_left_def tp_numWorkers_def Let_def split: if_splits)
  qed
qed

lemma issuer_step_less:
  assumes "pool_inv s" and "j < length (tp_issuers s)" and "threadpool_issue j s = Some t"
  shows "work_left t < work_left s"
proof -
  note upd = sum_list_update_nat[OF assms(2), of "issuer_left (tp_numWorkers s)"]
  show ?thesis
  proof (cases "tp_issuers s ! j")
    case (IWait items)
    let ?y = "if items = [] then IFinish False else ILoop items 0"
    have "t = s\<lparr>tp_sem := True, tp_completed := False, tp_issuers := (tp_issuers s)[j := ?y]\<rparr>"
      using assms(3) IWait by (auto simp: threadpool_issue_def split: if_splits)
    then show ?thesis using upd[of ?y] IWait by (simp add: work_left_def tp_numWorkers_def split: if_splits)
  next
    case (ILoop items cnt)
    then obtain x xs where xs: "items = x # xs" "0 < tp_numWorkers s"
      using assms(3) by (auto simp: threadpool_issue_def split: list.splits if_splits)
    have "ILoop items cnt \<in> set (tp_issuers s)" using assms(2) ILoop by (metis nth_mem)
    then have cnt: "cnt < tp_numWorkers s" using pool_invD(6)[OF assms(1)] xs(2) by blast
    let ?i = "tp_nextWorkerIndex s"
    let ?next = "(?i + 1) mod tp_numWorkers s"
    have i: "?i < length (tp_queues s)" using pool_invD(1,2)[OF assms(1)] xs(2) by simp
    show ?thesis
    proof (cases "length (tp_queues s ! ?i) < tp_numWorkItems s")
      case True
      let ?y = "if xs = [] then IFinish True else ILoop xs 0"
      let ?q = "tp_queues s ! ?i @ [x]"
      have t: "t = s\<lparr>tp_nextWorkerIndex := ?next, tp_numCurrentItems := tp_numCurrentItems s + 1,
          tp_queues := (tp_queues s)[?i := ?q], tp_accepted := tp_accepted s @ [x], tp_issuers := (tp_issuers s)[j := ?y]\<rparr>"
        using assms(3) ILoop xs True by (simp add: threadpool_issue_def Let_def)
      have "issuer_left (tp_numWorkers s) ?y + 4 \<le> issuer_left (tp_numWorkers s) (ILoop items cnt)" using xs cnt by auto
      then show ?thesis
        using upd[of ?y] sum_list_update_nat[OF i, of "\<lambda>q. 3 * length q" ?q] t ILoop
        by (simp add: work_left_def tp_numWorkers_def)
    next
      case False
      let ?y = "if cnt + 1 < tp_numWorkers s then ILoop items (cnt + 1) else IFinish False"
      have t: "t = s\<lparr>tp_nextWorkerIndex := ?next, tp_issuers := (tp_issuers s)[j := ?y]\<rparr>"
        using assms(3) ILoop xs False by (auto simp: threadpool_issue_def Let_def split: if_splits)
      have "issuer_left (tp_numWorkers s) ?y < issuer_left (tp_numWorkers s) (ILoop items cnt)" using xs cnt by auto
      then show ?thesis using upd[of ?y] t ILoop by (simp add: work_left_def tp_numWorkers_def)
    qed
  next
    case (IFinish wrote)
    then show ?thesis using assms(3) upd[of "IDone wrote"] by (auto simp: threadpool_issue_def work_left_def tp_numWorkers_def)
  next
    case (IDone w)
    then show ?thesis using assms(3) by (simp add: threadpool_issue_def)
  qed
qed

lemma pool_step_less: "pool_inv s \<Longrightarrow> pool_step s t \<Longrightarrow> work_left t < work_left s"
  by (auto elim!: pool_stepE intro: worker_step_less issuer_step_less)

text \<open>A state in which no thread can take a step.\<close>

definition pool_stuck :: "'a threadpool_t \<Rightarrow> bool" where
  "pool_stuck s \<longleftrightarrow> (\<forall>i \<in> set [0..<length (tp_workers s)]. threadpool_worker i s = None) \<and>
     (\<forall>j \<in> set [0..<length (tp_issuers s)]. threadpool_issue j s = None)"

lemma pool_stuck_iff: "pool_stuck s \<longleftrightarrow> (\<forall>t. \<not> pool_step s t)"
  unfolding pool_stuck_def pool_step.simps by (auto simp flip: not_Some_eq)

lemma stuck_issuers:
  assumes "pool_inv s" and "0 < tp_numWorkers s" and "pool_stuck s"
  shows "\<not> tp_sem s \<and> (\<forall>u \<in> set (tp_issuers s). returned u)"
proof -
  have none: "threadpool_issue j s = None" if "j < length (tp_issuers s)" for j
    using assms(3) that by (simp add: pool_stuck_def)
  have run: "inside u = 0" if u: "u \<in> set (tp_issuers s)" "threadpool_issue j s = None" "tp_issuers s ! j = u" for u j
  proof (cases u)
    case (ILoop items c)
    then obtain x xs where "items = x # xs" using pool_invD(6)[OF assms(1)] u(1) by (meson neq_Nil_conv)
    then show ?thesis using ILoop u(2,3) assms(2) by (simp add: threadpool_issue_def Let_def split: if_splits)
  qed (use u(2,3) in \<open>simp_all add: threadpool_issue_def inside_def\<close>)
  have out: "inside u = 0" if "u \<in> set (tp_issuers s)" for u
    using run[OF that] none that by (metis in_set_conv_nth)
  then have "sum_list (map inside (tp_issuers s)) = 0" by simp
  then have sem: "\<not> tp_sem s" using pool_invD(4)[OF assms(1)] by (simp split: if_splits)
  have ret: "returned u" if u: "inside u = 0" "threadpool_issue j s = None" "tp_issuers s ! j = u" for u j
  proof (cases u)
    case (IWait items)
    then show ?thesis using u(2,3) sem by (simp add: threadpool_issue_def)
  qed (use u(1) in \<open>simp_all add: inside_def returned_def\<close>)
  have "returned u" if "u \<in> set (tp_issuers s)" for u
    using ret[OF out[OF that]] none that by (metis in_set_conv_nth)
  then show ?thesis using sem by blast
qed

lemma stuck_workers:
  assumes "pool_inv s" and "\<not> tp_sem s" and "pool_stuck s"
  shows "(\<forall>w \<in> set (tp_workers s). w = TIdle) \<and> (\<forall>q \<in> set (tp_queues s). q = [])"
proof -
  have len: "length (tp_queues s) = length (tp_workers s)" using pool_invD(1)[OF assms(1)] by (simp add: tp_numWorkers_def)
  have none: "threadpool_worker i s = None" if "i < length (tp_workers s)" for i
    using assms(3) that by (simp add: pool_stuck_def)
  have "tp_workers s ! i = TIdle \<and> tp_queues s ! i = []" if "i < length (tp_workers s)" for i
    using none[OF that] assms(2)
    by (cases "tp_workers s ! i") (simp_all add: threadpool_worker_def Let_def split: list.splits)
  then show ?thesis by (metis in_set_conv_nth len)
qed

text \<open>The threads as a list of turns: \<open>Inl i\<close> is worker \<open>i\<close>, \<open>Inr j\<close> is the issuing thread \<open>j\<close>.\<close>

fun pool_run :: "(nat + nat) list \<Rightarrow> 'a threadpool_t \<Rightarrow> 'a threadpool_t option" where
  "pool_run [] s = Some s"
| "pool_run (Inl i # ts) s = (if i < length (tp_workers s) then Option.bind (threadpool_worker i s) (pool_run ts) else None)"
| "pool_run (Inr j # ts) s = (if j < length (tp_issuers s) then Option.bind (threadpool_issue j s) (pool_run ts) else None)"

lemma pool_run_reach: "pool_run ts s = Some t \<Longrightarrow> pool_reach s0 s \<Longrightarrow> pool_reach s0 t"
proof (induction ts arbitrary: s)
  case (Cons a ts)
  then show ?case
    by (cases a) (fastforce split: if_splits bind_splits intro: pool_reach.step pool_step.worker pool_step.issuer)+
qed simp

lemma pool_reach_fixed:
  "pool_reach s0 s \<Longrightarrow> length (tp_workers s) = length (tp_workers s0) \<and> length (tp_issuers s) = length (tp_issuers s0) \<and>
     tp_numWorkItems s = tp_numWorkItems s0"
proof (induction rule: pool_reach.induct)
  case (step s t)
  from step(2) show ?case using step(3)
    by (cases rule: pool_step.cases)
      (auto simp: threadpool_worker_def threadpool_issue_def Let_def split: tworker.splits issuer.splits list.splits if_splits)
qed simp

section \<open>Properties\<close>

text \<open>
  C14. Whatever threads issue and however the workers interleave with them, the count of current items is the number of items that
  wait in a queue or are held by a worker, no queue holds more than it was created for, the items that were accepted
  are, each as often as it was issued, those that finished, that wait and that are being worked on, and the
  event is set only when nothing is outstanding.
\<close>

theorem pool_counts:
  assumes "0 < n" and "pool_reach (threadpool_create n m work) s"
  shows "tp_numCurrentItems s = int (sum_list (map length (tp_queues s)) + length (filter (\<lambda>w. w \<noteq> TIdle) (tp_workers s))) \<and>
    list_all (\<lambda>q. length q \<le> m) (tp_queues s) \<and>
    mset (tp_accepted s) = mset (tp_finished s) + mset (concat (tp_queues s)) + mset (concat (map working (tp_workers s))) \<and>
    \<not> (tp_completed s \<and> tp_numCurrentItems s \<noteq> 0)"
proof -
  have inv: "pool_inv s" using pool_reach_inv[OF assms(2)] pool_inv_create[OF assms(1)] by blast
  have "sum_list (map busy ws) = length (filter (\<lambda>w. w \<noteq> TIdle) ws)" for ws :: "'a tworker list"
    by (induction ws) (simp_all add: busy_def)
  moreover have "tp_numWorkItems s = m" using pool_reach_fixed[OF assms(2)] by (simp add: threadpool_create_def)
  ultimately show ?thesis using pool_invD(3,5,7,9)[OF inv] by (simp add: outstanding_def list_all_iff add.assoc)
qed

definition pool_demo :: "nat threadpool_t" where
  "pool_demo = the (pool_run [Inr 0, Inr 0, Inl 0, Inr 0] (threadpool_create 2 1 [[7, 8], [9]]))"

lemma pool_demo_reach: "pool_reach (threadpool_create 2 1 [[7, 8], [9]]) pool_demo"
proof (rule pool_run_reach[OF _ pool_reach.start])
  show "pool_run [Inr 0, Inr 0, Inl 0, Inr 0] (threadpool_create 2 1 [[7, 8], [9]]) = Some pool_demo" by code_simp
qed

theorem pool_counts_witness:
  "tp_numCurrentItems pool_demo = 2 \<and> tp_queues pool_demo = [[], [8]] \<and> mset (tp_accepted pool_demo) = {#7, 8#}"
proof -
  have "tp_queues pool_demo = [[], [8]]" "tp_workers pool_demo = [TWork 7, TIdle]" "tp_finished pool_demo = []" by code_simp+
  then show ?thesis using pool_counts[OF _ pool_demo_reach] by simp
qed

text \<open>
  C13. The pool finishes: every step of any thread takes something from what is left to do, so the threads come to rest, and
  a pool at rest has no thread stuck inside: every call that issues has returned, every worker
  waits for work, the function has run exactly once for each accepted item, the count is zero, and a thread that waits
  for completion is let go if anything was issued at all.
\<close>

theorem pool_all_complete:
  assumes "0 < n" and "pool_reach (threadpool_create n m work) s"
  shows "(\<forall>t. pool_step s t \<longrightarrow> work_left t < work_left s) \<and>
    (pool_stuck s \<longrightarrow> list_all returned (tp_issuers s) \<and> list_all (\<lambda>w. w = TIdle) (tp_workers s) \<and>
       mset (tp_finished s) = mset (tp_accepted s) \<and> tp_numCurrentItems s = 0 \<and> threadpool_complete s \<and>
       (work = [] \<or> tp_completed s))"
proof (intro conjI[of "All _"] impI)
  have inv: "pool_inv s" using pool_reach_inv[OF assms(2)] pool_inv_create[OF assms(1)] by blast
  then show "\<forall>t. pool_step s t \<longrightarrow> work_left t < work_left s" using pool_step_less by blast
  assume stuck: "pool_stuck s"
  have fixed: "length (tp_workers s) = n" "length (tp_issuers s) = length work"
    using pool_reach_fixed[OF assms(2)] by (simp_all add: threadpool_create_def)
  have iss: "\<not> tp_sem s" "\<And>u. u \<in> set (tp_issuers s) \<Longrightarrow> returned u"
    using stuck_issuers[OF inv _ stuck] assms(1) fixed(1) by (auto simp: tp_numWorkers_def)
  have wrk: "\<And>w. w \<in> set (tp_workers s) \<Longrightarrow> w = TIdle" "\<And>q. q \<in> set (tp_queues s) \<Longrightarrow> q = []"
    using stuck_workers[OF inv iss(1) stuck] by auto
  have out: "outstanding s = 0" using wrk by (auto simp: outstanding_def busy_def)
  have idle: "\<And>w. w \<in> set (tp_workers s) \<Longrightarrow> working w = []" "concat (tp_queues s) = []" using wrk(1) wrk(2) by (metis working.simps(2), simp)
  have ev: "tp_completed s" if "work \<noteq> []"
  proof -
    have "tp_issuers s \<noteq> []" using that fixed(2) by (metis length_0_conv)
    then have u: "hd (tp_issuers s) \<in> set (tp_issuers s)" by simp
    have "\<not> waiting (hd (tp_issuers s))" using iss(2)[OF u] by (auto simp: returned_def waiting_def split: issuer.splits)
    then show ?thesis using pool_invD(8)[OF inv iss(1) out u] by blast
  qed
  show "list_all returned (tp_issuers s) \<and> list_all (\<lambda>w. w = TIdle) (tp_workers s) \<and>
       mset (tp_finished s) = mset (tp_accepted s) \<and> tp_numCurrentItems s = 0 \<and> threadpool_complete s \<and>
       (work = [] \<or> tp_completed s)"
    using iss(2) wrk idle out ev pool_invD(3,9)[OF inv]
    by (auto simp: list_all_iff threadpool_complete_def)
qed

definition pool_end :: "nat threadpool_t" where
  "pool_end = \<lparr>tp_queues = [[], []], tp_numWorkItems = 1, tp_numCurrentItems = 0, tp_nextWorkerIndex = 1, tp_sem = False,
     tp_completed = True, tp_workers = [TIdle, TIdle], tp_issuers = [IDone True, IDone True],
     tp_accepted = [7, 8, 9], tp_finished = [7, 8, 9]\<rparr>"

lemma pool_end_reach: "pool_reach (threadpool_create 2 1 [[7, 8], [9]]) pool_end"
proof (rule pool_run_reach[OF _ pool_reach.start])
  show "pool_run (map Inr [0, 0, 0, 0] @ map Inl [0, 0, 0, 1, 1, 1] @ map Inr [1, 1, 1] @ map Inl [0, 0, 0])
      (threadpool_create 2 1 [[7, 8], [9]]) = Some pool_end"
    by code_simp
qed

theorem pool_all_complete_witness: "tp_completed pool_end \<and> mset (tp_finished pool_end) = {#7, 8, 9#}"
proof -
  have "pool_stuck pool_end" by code_simp
  moreover have "tp_accepted pool_end = [7, 8, 9]" by (simp add: pool_end_def)
  ultimately show ?thesis using pool_all_complete[OF _ pool_end_reach] by simp
qed

text \<open>
  Before anything is issued the two ways of asking disagree: polling says that the pool is complete, while a blocking
  call waits for an event that nothing will set.
\<close>

lemma pool_fresh_disagrees:
  "threadpool_complete (threadpool_create n m [])"
  "pool_reach (threadpool_create n m []) s \<Longrightarrow> \<not> tp_completed s"
proof -
  show "threadpool_complete (threadpool_create n m [])" by (simp add: threadpool_complete_def threadpool_create_def)
  have "\<not> pool_step (threadpool_create n m []) t" for t
    by (auto simp: pool_step.simps threadpool_create_def threadpool_worker_def)
  moreover assume "pool_reach (threadpool_create n m []) s"
  then have "s = threadpool_create n m []"
    by (induction rule: pool_reach.induct) (use calculation in auto)
  then show "\<not> tp_completed s" by (simp add: threadpool_create_def)
qed

end
