(* ===== verification/Sosal_PoolDestroy.thy ===== *)
theory Sosal_PoolDestroy
  imports Sosal_ThreadPool
begin

text \<open>
  \<open>threadpool_destroy\<close> of \<open>source/sosal/threadpool.c\<close>, run by one thread while the workers go on: worker by worker it
  pops the queue, which makes the reads of that queue fail, joins the thread and frees what belongs to it. The workers are those of
  \<open>Sosal_ThreadPool\<close>; no thread is issuing any more, as the code uses the pool until it is freed.
\<close>

section \<open>The pool while it is destroyed\<close>

text \<open>The loop of \<open>threadpool_destroy\<close> at worker \<open>i\<close>: before \<open>queue_pop\<close>, in \<open>thread_join\<close>; and after it has freed the pool.\<close>

datatype destroyer = DPop nat | DJoin nat | DDone

text \<open>
  Per worker: its queue is popped, its thread has left the loop, and its queue and its buffer are freed.
\<close>

record 'a teardown =
  td_pool :: "'a threadpool_t"
  td_popped :: "bool list"
  td_exited :: "bool list"
  td_freed :: "bool list"
  td_at :: destroyer

definition teardown_start :: "'a threadpool_t \<Rightarrow> 'a teardown" where
  "teardown_start s = (let none = replicate (tp_numWorkers s) False in
     \<lparr>td_pool = s, td_popped = none, td_exited = none, td_freed = none, td_at = DPop 0\<rparr>)"

text \<open>
  One step of a worker. \<open>queue_read\<close> returns false from a popped queue, whatever the queue holds, and the thread ends;
  everything else is as before.
\<close>

definition teardown_worker :: "nat \<Rightarrow> 'a teardown \<Rightarrow> 'a teardown option" where
  "teardown_worker i d =
     (if td_exited d ! i then None
      else if tp_workers (td_pool d) ! i = TIdle \<and> td_popped d ! i then Some (d\<lparr>td_exited := (td_exited d)[i := True]\<rparr>)
      else map_option (\<lambda>s. d\<lparr>td_pool := s\<rparr>) (threadpool_worker i (td_pool d)))"

text \<open>One step of \<open>threadpool_destroy\<close>; \<open>None\<close> in the middle of the loop means that the join waits.\<close>

definition threadpool_destroy :: "'a teardown \<Rightarrow> 'a teardown option" where
  "threadpool_destroy d =
     (case td_at d of
        DPop i \<Rightarrow>
          if i < tp_numWorkers (td_pool d) then Some (d\<lparr>td_popped := (td_popped d)[i := True], td_at := DJoin i\<rparr>)
          else Some (d\<lparr>td_at := DDone\<rparr>)
      | DJoin i \<Rightarrow>
          if td_exited d ! i then Some (d\<lparr>td_freed := (td_freed d)[i := True], td_at := DPop (i + 1)\<rparr>) else None
      | DDone \<Rightarrow> None)"

inductive teardown_step :: "'a teardown \<Rightarrow> 'a teardown \<Rightarrow> bool" where
  worker: "i < tp_numWorkers (td_pool d) \<Longrightarrow> teardown_worker i d = Some e \<Longrightarrow> teardown_step d e"
| destroy: "threadpool_destroy d = Some e \<Longrightarrow> teardown_step d e"

inductive_cases teardown_stepE: "teardown_step d e"

abbreviation teardown_reach :: "'a threadpool_t \<Rightarrow> 'a teardown \<Rightarrow> bool" where
  "teardown_reach s d \<equiv> teardown_step\<^sup>*\<^sup>* (teardown_start s) d"

text \<open>No thread can take a step.\<close>

definition teardown_rest :: "'a teardown \<Rightarrow> bool" where
  "teardown_rest d \<longleftrightarrow> threadpool_destroy d = None \<and>
     (\<forall>i \<in> set [0..<tp_numWorkers (td_pool d)]. teardown_worker i d = None)"

section \<open>The invariant\<close>

definition popped_to :: "destroyer \<Rightarrow> nat \<Rightarrow> bool" where
  "popped_to p i = (case p of DPop k \<Rightarrow> i < k | DJoin k \<Rightarrow> i \<le> k | DDone \<Rightarrow> True)"

definition freed_to :: "destroyer \<Rightarrow> nat \<Rightarrow> bool" where
  "freed_to p i = (case p of DPop k \<Rightarrow> i < k | DJoin k \<Rightarrow> i < k | DDone \<Rightarrow> True)"

definition at_worker :: "nat \<Rightarrow> destroyer \<Rightarrow> bool" where
  "at_worker n p = (case p of DPop k \<Rightarrow> k \<le> n | DJoin k \<Rightarrow> k < n | DDone \<Rightarrow> True)"

definition teardown_inv :: "'a teardown \<Rightarrow> bool" where
  "teardown_inv d \<longleftrightarrow> (let n = tp_numWorkers (td_pool d) in
     pool_inv (td_pool d) \<and> list_all returned (tp_issuers (td_pool d)) \<and> at_worker n (td_at d) \<and>
     length (td_popped d) = n \<and> length (td_exited d) = n \<and> length (td_freed d) = n \<and>
     (\<forall>i < n. td_popped d ! i = popped_to (td_at d) i \<and> td_freed d ! i = freed_to (td_at d) i \<and>
        (td_exited d ! i \<longrightarrow> td_popped d ! i \<and> tp_workers (td_pool d) ! i = TIdle) \<and>
        (td_freed d ! i \<longrightarrow> td_exited d ! i)))"

lemmas teardown_simps = popped_to_def freed_to_def at_worker_def

lemma teardown_invD:
  assumes "teardown_inv d"
  shows "pool_inv (td_pool d)" "list_all returned (tp_issuers (td_pool d))" "at_worker (tp_numWorkers (td_pool d)) (td_at d)"
    "length (td_popped d) = tp_numWorkers (td_pool d)" "length (td_exited d) = tp_numWorkers (td_pool d)"
    "length (td_freed d) = tp_numWorkers (td_pool d)"
    "i < tp_numWorkers (td_pool d) \<Longrightarrow> td_popped d ! i = popped_to (td_at d) i"
    "i < tp_numWorkers (td_pool d) \<Longrightarrow> td_freed d ! i = freed_to (td_at d) i"
    "i < tp_numWorkers (td_pool d) \<Longrightarrow> td_exited d ! i \<Longrightarrow> td_popped d ! i \<and> tp_workers (td_pool d) ! i = TIdle"
    "i < tp_numWorkers (td_pool d) \<Longrightarrow> td_freed d ! i \<Longrightarrow> td_exited d ! i"
  using assms unfolding teardown_inv_def Let_def by blast+

lemma returned_sem:
  assumes "pool_inv s" and "list_all returned (tp_issuers s)"
  shows "\<not> tp_sem s"
proof -
  have "inside u = 0" if "u \<in> set (tp_issuers s)" for u
    using assms(2) that by (auto simp: list_all_iff returned_def inside_def split: issuer.splits)
  then have "sum_list (map inside (tp_issuers s)) = 0" by simp
  then show ?thesis using pool_invD(4)[OF assms(1)] by (simp split: if_splits)
qed

lemma teardown_inv_start: "pool_inv s \<Longrightarrow> list_all returned (tp_issuers s) \<Longrightarrow> teardown_inv (teardown_start s)"
  by (simp add: teardown_inv_def teardown_start_def teardown_simps Let_def)

text \<open>A step of a worker changes that worker alone, and no thread that issues.\<close>

lemma worker_step_frame:
  assumes "threadpool_worker i s = Some t"
  shows "tp_issuers t = tp_issuers s" "tp_numWorkers t = tp_numWorkers s" "tp_accepted t = tp_accepted s"
    "k \<noteq> i \<Longrightarrow> tp_workers t ! k = tp_workers s ! k"
  using assms by (auto simp: threadpool_worker_def tp_numWorkers_def Let_def split: tworker.splits list.splits if_splits)

lemma teardown_inv_worker:
  assumes inv: "teardown_inv d" and i: "i < tp_numWorkers (td_pool d)" and step: "teardown_worker i d = Some e"
  shows "teardown_inv e"
proof (cases "tp_workers (td_pool d) ! i = TIdle \<and> td_popped d ! i")
  case True
  then have "e = d\<lparr>td_exited := (td_exited d)[i := True]\<rparr>" using step by (simp add: teardown_worker_def split: if_splits)
  then show ?thesis using inv i True by (auto simp: teardown_inv_def Let_def nth_list_update)
next
  case False
  then obtain t where t: "threadpool_worker i (td_pool d) = Some t" "e = d\<lparr>td_pool := t\<rparr>" "\<not> td_exited d ! i"
    using step by (auto simp: teardown_worker_def split: if_splits)
  have p: "pool_inv t" using pool_inv_worker[OF teardown_invD(1)[OF inv] _ t(1)] i by (simp add: tp_numWorkers_def)
  have idle: "tp_workers t ! k = tp_workers (td_pool d) ! k" if "td_exited d ! k" for k
    using worker_step_frame(4)[OF t(1), of k] that t(3) by (cases "k = i") auto
  have same: "td_pool e = t" "td_popped e = td_popped d" "td_exited e = td_exited d" "td_freed e = td_freed d" "td_at e = td_at d"
    by (simp_all add: t(2))
  show ?thesis using inv p idle unfolding teardown_inv_def same worker_step_frame(1,2)[OF t(1)] Let_def by metis
qed

lemma teardown_inv_destroy:
  assumes "teardown_inv d" and "threadpool_destroy d = Some e"
  shows "teardown_inv e"
proof (cases "td_at d")
  case (DPop k)
  then show ?thesis using assms
    by (auto simp: threadpool_destroy_def teardown_inv_def teardown_simps Let_def nth_list_update split: if_splits)
next
  case (DJoin k)
  then show ?thesis using assms
    by (auto simp: threadpool_destroy_def teardown_inv_def teardown_simps Let_def nth_list_update split: if_splits)
qed (use assms in \<open>simp add: threadpool_destroy_def\<close>)

lemma teardown_inv_step: "teardown_inv d \<Longrightarrow> teardown_step d e \<Longrightarrow> teardown_inv e"
  by (auto elim!: teardown_stepE intro: teardown_inv_worker teardown_inv_destroy)

lemma teardown_frame:
  "teardown_step d e \<Longrightarrow> tp_numWorkers (td_pool e) = tp_numWorkers (td_pool d) \<and> tp_accepted (td_pool e) = tp_accepted (td_pool d)"
  by (auto elim!: teardown_stepE simp: teardown_worker_def threadpool_destroy_def worker_step_frame
      split: if_splits destroyer.splits)

lemma teardown_reach_inv:
  assumes "teardown_reach s d" and "pool_inv s" and "list_all returned (tp_issuers s)"
  shows "teardown_inv d \<and> tp_numWorkers (td_pool d) = tp_numWorkers s \<and> tp_accepted (td_pool d) = tp_accepted s"
  using assms(1)
proof (induction rule: rtranclp_induct)
  case base
  then show ?case using teardown_inv_start[OF assms(2,3)] by (simp add: teardown_start_def Let_def)
next
  case (step d e)
  then show ?case using teardown_inv_step teardown_frame by metis
qed

section \<open>What is left to do\<close>

definition destroyer_left :: "nat \<Rightarrow> destroyer \<Rightarrow> nat" where
  "destroyer_left n p = (case p of DPop k \<Rightarrow> 2 * (n - k) + 1 | DJoin k \<Rightarrow> 2 * (n - k) | DDone \<Rightarrow> 0)"

definition teardown_left :: "'a teardown \<Rightarrow> nat" where
  "teardown_left d = work_left (td_pool d) + length (filter Not (td_exited d)) +
     destroyer_left (tp_numWorkers (td_pool d)) (td_at d)"

lemma exit_counts: "i < length bs \<Longrightarrow> \<not> bs ! i \<Longrightarrow> length (filter Not (bs[i := True])) < length (filter Not bs)"
  by (induction bs arbitrary: i) (auto split: nat.splits simp: nth_Cons)

lemma teardown_step_less:
  assumes "teardown_inv d" and "teardown_step d e"
  shows "teardown_left e < teardown_left d"
  using assms(2)
proof (cases rule: teardown_step.cases)
  case (worker i)
  then have i: "i < length (td_exited d)" "i < length (tp_workers (td_pool d))"
    using teardown_invD(5)[OF assms(1)] by (simp_all add: tp_numWorkers_def)
  show ?thesis using worker(2) exit_counts[OF i(1)] worker_step_less[OF teardown_invD(1)[OF assms(1)] i(2)]
    by (auto simp: teardown_worker_def teardown_left_def worker_step_frame split: if_splits)
next
  case destroy
  then show ?thesis using teardown_invD(3)[OF assms(1)]
    by (auto simp: threadpool_destroy_def teardown_left_def destroyer_left_def at_worker_def split: destroyer.splits if_splits)
qed

text \<open>A thread that is joined is never stuck: its queue is popped and nobody holds the semaphore.\<close>

lemma joined_moves:
  assumes "teardown_inv d" and "td_at d = DJoin i" and "\<not> td_exited d ! i"
  shows "teardown_worker i d \<noteq> None"
proof -
  have "i < tp_numWorkers (td_pool d)" using teardown_invD(3)[OF assms(1)] assms(2) by (simp add: at_worker_def)
  then have "td_popped d ! i" using teardown_invD(7)[OF assms(1)] assms(2) by (simp add: popped_to_def)
  then show ?thesis using assms(3) returned_sem[OF teardown_invD(1,2)[OF assms(1)]]
    by (cases "tp_workers (td_pool d) ! i") (auto simp: teardown_worker_def threadpool_worker_def Let_def)
qed

lemma rest_done:
  assumes "teardown_inv d" and "teardown_rest d"
  shows "td_at d = DDone"
proof (cases "td_at d")
  case (DPop k)
  then show ?thesis using assms(2) by (simp add: teardown_rest_def threadpool_destroy_def split: if_splits)
next
  case (DJoin k)
  then have "k < tp_numWorkers (td_pool d)" using teardown_invD(3)[OF assms(1)] by (simp add: at_worker_def)
  then show ?thesis using assms(2) DJoin joined_moves[OF assms(1) DJoin]
    by (auto simp: teardown_rest_def threadpool_destroy_def split: if_splits)
qed simp

lemma done_workers:
  assumes "teardown_inv d" and "td_at d = DDone"
  shows "td_exited d = replicate (tp_numWorkers (td_pool d)) True" "td_freed d = replicate (tp_numWorkers (td_pool d)) True"
    "tp_workers (td_pool d) = replicate (tp_numWorkers (td_pool d)) TIdle"
proof -
  have all: "td_freed d ! i \<and> td_exited d ! i \<and> tp_workers (td_pool d) ! i = TIdle" if "i < tp_numWorkers (td_pool d)" for i
    using teardown_invD(8-10)[OF assms(1) that] assms(2) by (simp add: freed_to_def)
  show "td_exited d = replicate (tp_numWorkers (td_pool d)) True" "td_freed d = replicate (tp_numWorkers (td_pool d)) True"
    "tp_workers (td_pool d) = replicate (tp_numWorkers (td_pool d)) TIdle"
    using all teardown_invD(5,6)[OF assms(1)] by (auto intro!: nth_equalityI simp: tp_numWorkers_def)
qed

section \<open>Properties\<close>

text \<open>
  C25. Destroying a pool on which no thread issues any more always comes to an end, whatever the workers are doing: every step of
  the workers and of the loop leaves less to do, nothing of a worker is freed before its thread has ended, and when no step is left
  the pool is freed and all threads have ended. An item that a worker has read is finished; the items that still wait in a queue are
  dropped without being run, and the count of current items is left at their number, so that a pool that is destroyed
  before it is complete loses work and never signals completion.
\<close>

theorem pool_destroy_ends:
  assumes "0 < n" and "pool_reach (threadpool_create n m work) s" and "list_all returned (tp_issuers s)" and "teardown_reach s d"
  shows "(\<forall>e. teardown_step d e \<longrightarrow> teardown_left e < teardown_left d) \<and>
    (\<forall>i < n. td_freed d ! i \<longrightarrow> td_exited d ! i) \<and>
    (teardown_rest d \<longrightarrow> td_at d = DDone \<and> td_exited d = replicate n True \<and> td_freed d = replicate n True \<and>
       mset (tp_accepted s) = mset (tp_finished (td_pool d)) + mset (concat (tp_queues (td_pool d))) \<and>
       tp_numCurrentItems (td_pool d) = int (length (concat (tp_queues (td_pool d)))) \<and>
       (concat (tp_queues (td_pool d)) \<noteq> [] \<longrightarrow> \<not> tp_completed (td_pool d)))"
proof (intro conjI[of "All _"] impI)
  have p: "pool_inv s" using pool_reach_inv[OF assms(2)] pool_inv_create[OF assms(1)] by blast
  have n: "tp_numWorkers s = n" using pool_reach_fixed[OF assms(2)] by (simp add: threadpool_create_def tp_numWorkers_def)
  have inv: "teardown_inv d" "tp_numWorkers (td_pool d) = n" "tp_accepted (td_pool d) = tp_accepted s"
    using teardown_reach_inv[OF assms(4) p assms(3)] n by auto
  note pool = pool_invD[OF teardown_invD(1)[OF inv(1)]]
  show "\<forall>e. teardown_step d e \<longrightarrow> teardown_left e < teardown_left d" using teardown_step_less[OF inv(1)] by blast
  show "\<forall>i < n. td_freed d ! i \<longrightarrow> td_exited d ! i" using teardown_invD(10)[OF inv(1)] inv(2) by blast
  assume "teardown_rest d"
  then have end_at: "td_at d = DDone" using rest_done[OF inv(1)] by blast
  note fin = done_workers[OF inv(1) end_at, unfolded inv(2)]
  have out: "outstanding (td_pool d) = length (concat (tp_queues (td_pool d)))"
    by (simp add: outstanding_def fin(3) busy_def length_concat sum_list_replicate map_replicate_const)
  have "concat (map working (tp_workers (td_pool d))) = []" by (simp add: fin(3))
  then show "td_at d = DDone \<and> td_exited d = replicate n True \<and> td_freed d = replicate n True \<and>
       mset (tp_accepted s) = mset (tp_finished (td_pool d)) + mset (concat (tp_queues (td_pool d))) \<and>
       tp_numCurrentItems (td_pool d) = int (length (concat (tp_queues (td_pool d)))) \<and>
       (concat (tp_queues (td_pool d)) \<noteq> [] \<longrightarrow> \<not> tp_completed (td_pool d))"
    using end_at fin(1,2) pool(3,7,9) out inv(3) by auto
qed

text \<open>Turns of the threads: \<open>Some i\<close> is worker \<open>i\<close>, \<open>None\<close> is the thread that destroys the pool.\<close>

fun teardown_run :: "nat option list \<Rightarrow> 'a teardown \<Rightarrow> 'a teardown option" where
  "teardown_run [] d = Some d"
| "teardown_run (None # ts) d = Option.bind (threadpool_destroy d) (teardown_run ts)"
| "teardown_run (Some i # ts) d =
     (if i < tp_numWorkers (td_pool d) then Option.bind (teardown_worker i d) (teardown_run ts) else None)"

lemma teardown_run_reach: "teardown_run ts d = Some e \<Longrightarrow> teardown_step\<^sup>*\<^sup>* d e"
proof (induction ts d rule: teardown_run.induct)
  case (2 ts d)
  then show ?case by (auto split: bind_splits intro: converse_rtranclp_into_rtranclp teardown_step.destroy)
next
  case (3 i ts d)
  then show ?case by (auto split: bind_splits if_splits intro: converse_rtranclp_into_rtranclp teardown_step.worker)
qed simp

text \<open>Two items are issued; worker 0 has read its item when the pool is destroyed, the item of worker 1 is lost.\<close>

definition teardown_pool :: "nat threadpool_t" where
  "teardown_pool = \<lparr>tp_queues = [[7], [8]], tp_numWorkItems = 1, tp_numCurrentItems = 2, tp_nextWorkerIndex = 0, tp_sem = False,
     tp_completed = False, tp_workers = [TIdle, TIdle], tp_issuers = [IDone True], tp_accepted = [7, 8], tp_finished = []\<rparr>"

definition teardown_end :: "nat teardown" where
  "teardown_end = \<lparr>td_pool = teardown_pool\<lparr>tp_queues := [[], [8]], tp_numCurrentItems := 1, tp_finished := [7]\<rparr>,
     td_popped = [True, True], td_exited = [True, True], td_freed = [True, True], td_at = DDone\<rparr>"

lemma teardown_pool_reach: "pool_reach (threadpool_create 2 1 [[7, 8]]) teardown_pool"
proof (rule pool_run_reach[OF _ pool_reach.start])
  show "pool_run (map Inr [0, 0, 0, 0]) (threadpool_create 2 1 [[7, 8]]) = Some teardown_pool" by code_simp
qed

lemma teardown_end_reach: "teardown_reach teardown_pool teardown_end"
proof (rule teardown_run_reach)
  show "teardown_run [Some 0, None, Some 0, Some 0, Some 0, None, None, Some 1, None, None] (teardown_start teardown_pool) =
      Some teardown_end"
    by code_simp
qed

theorem pool_destroy_ends_witness:
  "tp_finished (td_pool teardown_end) = [7] \<and> tp_numCurrentItems (td_pool teardown_end) = 1 \<and> \<not> tp_completed (td_pool teardown_end)"
proof -
  have "teardown_rest teardown_end" by code_simp
  moreover have "list_all returned (tp_issuers teardown_pool)" by code_simp
  moreover have "tp_queues (td_pool teardown_end) = [[], [8]]" "tp_finished (td_pool teardown_end) = [7]" by (simp_all add: teardown_end_def)
  ultimately show ?thesis using pool_destroy_ends[OF _ teardown_pool_reach _ teardown_end_reach] by simp
qed

end
