(* ===== verification/Dvp_Load.thy ===== *)
theory Dvp_Load
  imports Dvp_Prelude
begin

text \<open>
  The load table of \<open>dvp_kgraph/dvp_kgb.c\<close>, shared by every process that uses the accelerator
  cores: for each core the load committed now and the maximum. A section of a graph commits its
  load on all the cores before it runs (\<open>DVP_CommitLoad\<close>) and takes it back afterwards
  (\<open>DVP_DecommitLoad\<close>). The counters are \<open>DVP_S32\<close>: words compared by \<open>sint\<close>, with \<open>+\<close> and \<open>-\<close>
  wrapping. The arrays of \<open>DVP_CORE_MAX\<close> entries are functions of the core number.
\<close>

section \<open>The table\<close>

abbreviation DVP_CORE_MIN :: int where
  "DVP_CORE_MIN \<equiv> -1"

abbreviation DVP_CORE_MAX :: nat where
  "DVP_CORE_MAX \<equiv> 7"

record DVP_Core_Load_t =
  maximumLoad :: s32
  currentLoad :: s32

record DVP_Load_t =
  ld_initialized :: bool
  ld_cores :: "nat \<Rightarrow> DVP_Core_Load_t"

type_synonym core_table = "nat \<Rightarrow> DVP_Core_Load_t"
type_synonym core_loads = "nat \<Rightarrow> s32"

definition add_load :: "core_loads \<Rightarrow> nat \<Rightarrow> core_table \<Rightarrow> core_table" where
  "add_load coreLoad c cores =
     cores(c := (cores c)\<lparr>currentLoad := currentLoad (cores c) + coreLoad c\<rparr>)"

definition sub_load :: "core_loads \<Rightarrow> nat \<Rightarrow> core_table \<Rightarrow> core_table" where
  "sub_load coreLoad c cores =
     cores(c := (cores c)\<lparr>currentLoad := currentLoad (cores c) - coreLoad c\<rparr>)"

text \<open>The unwinding loop of a failed commit: cores \<open>c\<close>, \<open>c - 1\<close>, down to 0.\<close>

primrec unwind_load :: "core_loads \<Rightarrow> nat \<Rightarrow> core_table \<Rightarrow> core_table" where
  "unwind_load coreLoad 0 cores = sub_load coreLoad 0 cores"
| "unwind_load coreLoad (Suc c) cores = unwind_load coreLoad c (sub_load coreLoad (Suc c) cores)"

text \<open>The accumulating loop of a commit, from core \<open>c\<close> on for the \<open>k\<close> cores that are left.\<close>

fun commit_cores :: "core_loads \<Rightarrow> nat \<Rightarrow> nat \<Rightarrow> core_table \<Rightarrow> bool \<times> core_table" where
  "commit_cores coreLoad c 0 cores = (True, cores)"
| "commit_cores coreLoad c (Suc k) cores =
     (let cores' = add_load coreLoad c cores in
      if sint (currentLoad (cores' c)) > sint (maximumLoad (cores' c))
      then (False, unwind_load coreLoad c cores')
      else commit_cores coreLoad (Suc c) k cores')"

fun decommit_cores :: "core_loads \<Rightarrow> nat \<Rightarrow> nat \<Rightarrow> core_table \<Rightarrow> core_table" where
  "decommit_cores coreLoad c 0 cores = cores"
| "decommit_cores coreLoad c (Suc k) cores =
     decommit_cores coreLoad (Suc c) k (sub_load coreLoad c cores)"

section \<open>What the loops do to the table\<close>

text \<open>The table with the load of a section added on, or taken from, the cores of a set.\<close>

definition loaded :: "core_loads \<Rightarrow> nat set \<Rightarrow> core_table \<Rightarrow> core_table" where
  "loaded coreLoad S cores =
     (\<lambda>c. if c \<in> S then (cores c)\<lparr>currentLoad := currentLoad (cores c) + coreLoad c\<rparr> else cores c)"

definition unloaded :: "core_loads \<Rightarrow> nat set \<Rightarrow> core_table \<Rightarrow> core_table" where
  "unloaded coreLoad S cores =
     (\<lambda>c. if c \<in> S then (cores c)\<lparr>currentLoad := currentLoad (cores c) - coreLoad c\<rparr> else cores c)"

definition fits :: "core_loads \<Rightarrow> nat set \<Rightarrow> core_table \<Rightarrow> bool" where
  "fits coreLoad S cores \<longleftrightarrow>
     (\<forall>c\<in>S. sint (currentLoad (cores c) + coreLoad c) \<le> sint (maximumLoad (cores c)))"

lemma loaded_empty [simp]: "loaded cl {} cores = cores"
  by (simp add: loaded_def)

lemma add_load_loaded: "c \<notin> S \<Longrightarrow> add_load cl c (loaded cl S cores) = loaded cl (insert c S) cores"
  by (auto simp: add_load_def loaded_def fun_eq_iff)

lemma sub_load_unloaded:
  "c \<notin> S \<Longrightarrow> sub_load cl c (unloaded cl S cores) = unloaded cl (insert c S) cores"
  by (auto simp: sub_load_def unloaded_def fun_eq_iff)

lemma unloaded_loaded [simp]: "unloaded cl S (loaded cl S cores) = cores"
  by (auto simp: loaded_def unloaded_def fun_eq_iff)

lemma sub_load_loaded: "c \<in> S \<Longrightarrow> sub_load cl c (loaded cl S cores) = loaded cl (S - {c}) cores"
  by (auto simp: sub_load_def loaded_def fun_eq_iff)

lemma unwind_loaded: "unwind_load cl c (loaded cl {..c} cores) = cores"
proof (induction c)
  case (Suc c)
  have "{..Suc c} - {Suc c} = {..c}" by auto
  then show ?case using Suc by (simp add: sub_load_loaded)
qed (simp add: sub_load_loaded)

lemma commit_cores_from:
  "commit_cores cl c k (loaded cl {..<c} cores) =
     (if fits cl {c..<c + k} cores then (True, loaded cl {..<c + k} cores) else (False, cores))"
proof (induction k arbitrary: c)
  case (Suc k)
  have add: "add_load cl c (loaded cl {..<c} cores) = loaded cl {..c} cores"
    using add_load_loaded[of c "{..<c}" cl cores] by (simp add: lessThan_Suc flip: lessThan_Suc_atMost)
  have at_c: "loaded cl {..c} cores c = (cores c)\<lparr>currentLoad := currentLoad (cores c) + cl c\<rparr>"
    by (simp add: loaded_def)
  have fits: "fits cl {c..<c + Suc k} cores \<longleftrightarrow>
      sint (currentLoad (cores c) + cl c) \<le> sint (maximumLoad (cores c)) \<and> fits cl {Suc c..<Suc c + k} cores"
    by (auto simp: fits_def Suc_le_eq le_less)
  show ?case
    using Suc.IH[of "Suc c"] unfolding commit_cores.simps add Let_def at_c fits
    by (simp add: unwind_loaded lessThan_Suc_atMost)
qed (simp add: fits_def)

lemma commit_cores_eq:
  "commit_cores cl 0 k cores =
     (if fits cl {..<k} cores then (True, loaded cl {..<k} cores) else (False, cores))"
  using commit_cores_from[of cl 0 k cores] by (simp add: atLeast0LessThan)

lemma decommit_cores_from:
  "decommit_cores cl c k (unloaded cl {..<c} cores) = unloaded cl {..<c + k} cores"
proof (induction k arbitrary: c)
  case (Suc k)
  have "sub_load cl c (unloaded cl {..<c} cores) = unloaded cl {..<Suc c} cores"
    by (simp add: sub_load_unloaded lessThan_Suc)
  then show ?case using Suc.IH[of "Suc c"] by simp
qed simp

lemma decommit_cores_eq: "decommit_cores cl 0 k cores = unloaded cl {..<k} cores"
  using decommit_cores_from[of cl 0 k cores] by (simp add: unloaded_def)

section \<open>Any number of users of one pool\<close>

text \<open>
  What the users of a shared resource rely on: a refused request changes nothing, a release undoes
  the request it belongs to, and releases may come in any order. \<open>released held\<close> is the resource
  once every request that is still held has been released.
\<close>

locale resource_pool =
  fixes acquire :: "'l \<Rightarrow> 't \<Rightarrow> bool \<times> 't"
    and release :: "'l \<Rightarrow> 't \<Rightarrow> 't"
  assumes refused: "acquire l t = (False, t') \<Longrightarrow> t' = t"
    and undo: "acquire l t = (True, t') \<Longrightarrow> release l t' = t"
    and release_commute: "release l (release k t) = release k (release l t)"
begin

definition released :: "'l list \<Rightarrow> 't \<Rightarrow> 't" where
  "released held t = fold release held t"

lemma release_fold: "fold release held (release l t) = release l (fold release held t)"
proof (induction held arbitrary: t)
  case (Cons a held)
  show ?case using Cons[of "release a t"] by (simp add: release_commute[of a l])
qed simp

lemma released_remove:
  "l \<in> set held \<Longrightarrow> released (remove1 l held) (release l t) = released held t"
  unfolding released_def
proof (induction held arbitrary: t)
  case (Cons a held)
  then show ?case by (cases "l = a") (auto simp: release_commute[of a l])
qed simp

lemma released_acquire:
  "acquire l t = (ok, t') \<Longrightarrow> released (if ok then l # held else held) t' = released held t"
  using refused[of l t t'] undo[of l t t'] by (cases ok) (auto simp: released_def)

end

end
