(* ===== verification/Dvp_Kgb.thy ===== *)
theory Dvp_Kgb
  imports Dvp_Load
begin

text \<open>
  The Kernel Graph Boss of \<open>dvp_kgraph/dvp_kgb.c\<close>: it owns the Kernel Graph Managers (one per
  core), assigns every node of a section to a manager that implements its kernel, and runs the
  section on the managers under the load table. The managers are modules loaded at run time; what
  the boss calls through their function pointers are fields of \<open>DVP_GraphManager_Calls_t\<close> and so
  parameters of the model. The build options are those of Linux, Android and QNX:
  \<open>DVP_USE_LOAD_TABLE\<close> and \<open>DVP_OPTIMIZED_GRAPHS\<close> are defined, \<open>DVP_CONTINUE_ON_ERRORS\<close> is not.
\<close>

section \<open>Performance counters\<close>

type_synonym rtime = "64 word"

record DVP_Perf_t =
  numTimes :: u32
  tmpTime :: rtime
  minTime :: rtime
  maxTime :: rtime
  avgTime :: rtime
  sumTime :: rtime
  rate :: rtime

definition DVP_PerformanceStart :: "rtime \<Rightarrow> DVP_Perf_t \<Rightarrow> DVP_Perf_t" where
  "DVP_PerformanceStart now p = p\<lparr>tmpTime := now\<rparr>"

text \<open>The average divides by the counter, which faults in the call that wraps it to zero.\<close>

definition DVP_PerformanceStop :: "rtime \<Rightarrow> DVP_Perf_t \<Rightarrow> DVP_Perf_t option" where
  "DVP_PerformanceStop now p =
     (let t = now - tmpTime p;
          n = numTimes p + 1;
          s = sumTime p + t in
      if n = 0 then None
      else Some (p\<lparr>tmpTime := t, numTimes := n,
                   minTime := (if minTime p > t then t else minTime p),
                   maxTime := (if maxTime p < t then t else maxTime p),
                   sumTime := s, avgTime := s div ucast n\<rparr>))"

section \<open>Nodes, sections and managers\<close>

record DVP_KernelNode_t =
  kernel :: int
  affinity :: int
  n_error :: int
  configured :: bool
  mgrIndex :: nat
  funcIndex :: nat
  n_perf :: DVP_Perf_t
  n_data :: "u8 list"

abbreviation DVP_ERROR_NOT_IMPLEMENTED :: int where
  "DVP_ERROR_NOT_IMPLEMENTED \<equiv> -7"

record DVP_KernelGraphSection_t =
  pNodes :: "DVP_KernelNode_t list"
  numNodes :: nat
  sec_perf :: DVP_Perf_t
  coreLoad :: core_loads
  skipSection :: bool

record dvp_image_shift_t =
  centerShiftHorz :: s32
  centerShiftVert :: s32
  topBorder :: s32
  rightBorder :: s32
  bottomBorder :: s32
  leftBorder :: s32

record DVP_CoreFunction_t =
  cf_kernel :: int
  cf_load :: u32
  cf_shift :: "dvp_image_shift_t option"
  cf_shift_func :: "(DVP_KernelNode_t \<Rightarrow> dvp_image_shift_t \<Rightarrow> dvp_image_shift_t) option"

text \<open>
  \<open>manager\<close> and \<open>verify\<close> get the whole node array, the index of the first node and the number of
  nodes they are to run or verify; they return how many they did and the array as they left it.
\<close>

record DVP_GraphManager_Calls_t =
  manager :: "DVP_KernelNode_t list \<Rightarrow> nat \<Rightarrow> nat \<Rightarrow> bool \<Rightarrow> nat \<times> DVP_KernelNode_t list"
  verify :: "DVP_KernelNode_t list \<Rightarrow> nat \<Rightarrow> nat \<Rightarrow> nat \<times> DVP_KernelNode_t list"
  getCore :: int
  getLoad :: u32

text \<open>
  \<open>calls\<close> is \<open>None\<close> when the module could not be loaded: its function pointers are then null or filled
  with a pattern, and calling one of them faults.
\<close>

record DVP_GraphManager_t =
  enabled :: bool
  m_handle :: bool
  calls :: "DVP_GraphManager_Calls_t option"
  kernels :: "DVP_CoreFunction_t list option"
  numSupportedKernels :: nat
  priority :: u32

text \<open>\<open>managers\<close> is allocated with \<open>numMgrs\<close> entries, so the number is the length of the list.\<close>

record DVP_t =
  managers :: "DVP_GraphManager_t list"
  loads :: "DVP_Load_t option"

abbreviation numMgrs :: "DVP_t \<Rightarrow> nat" where
  "numMgrs dvp \<equiv> length (managers dvp)"

abbreviation DVP_PRIORITY_MAX :: u32 where
  "DVP_PRIORITY_MAX \<equiv> 0xFFFFFFFF"

section \<open>Choosing a manager\<close>

text \<open>
  The scan keeps the index and the priority of the best manager so far; a smaller number is a
  higher priority and later managers win ties.
\<close>

fun next_mgr_scan :: "u32 \<Rightarrow> DVP_GraphManager_t list \<Rightarrow> nat \<Rightarrow> nat \<times> u32 \<Rightarrow> nat \<times> u32" where
  "next_mgr_scan p [] i best = best"
| "next_mgr_scan p (m # ms) i (index, prio) =
     next_mgr_scan p ms (Suc i)
       (if enabled m \<and> priority m \<le> prio \<and> priority m > p then (i, priority m) else (index, prio))"

text \<open>The result is the priority, and the index the code stores through \<open>pIndex\<close> if it does.\<close>

definition DVP_GetNextManagerIndex :: "DVP_t \<Rightarrow> u32 \<Rightarrow> u32 \<times> nat option" where
  "DVP_GetNextManagerIndex dvp p =
     (let (index, prio) = next_mgr_scan p (managers dvp) 0 (0, DVP_PRIORITY_MAX) in
      if prio = DVP_PRIORITY_MAX then (0, None) else (prio, Some index))"

fun kernel_scan :: "DVP_CoreFunction_t list \<Rightarrow> int \<Rightarrow> nat list \<Rightarrow> nat option option" where
  "kernel_scan ks k [] = Some None"
| "kernel_scan ks k (i # is) = do {
     f \<leftarrow> nth_chk ks i;
     if cf_kernel f = k then Some (Some i) else kernel_scan ks k is }"

definition DVP_GetManagerKernelIndex :: "DVP_GraphManager_t \<Rightarrow> int \<Rightarrow> nat option option" where
  "DVP_GetManagerKernelIndex m k =
     (case kernels m of
        None \<Rightarrow> Some None
      | Some ks \<Rightarrow>
          if \<not> enabled m \<or> \<not> m_handle m then Some None
          else kernel_scan ks k [0..<numSupportedKernels m])"

section \<open>Committing loads\<close>

definition DVP_CommitLoad ::
  "DVP_t option \<Rightarrow> DVP_KernelGraphSection_t option \<Rightarrow> (bool \<times> DVP_t option) option" where
  "DVP_CommitLoad dvp section =
     (case (dvp, section) of
        (Some d, Some s) \<Rightarrow>
          if numNodes s = 0 then Some (False, dvp)
          else do {
            l \<leftarrow> loads d;
            let (ret, cores) = commit_cores (coreLoad s) 0 DVP_CORE_MAX (ld_cores l);
            Some (ret, Some (d\<lparr>loads := Some (l\<lparr>ld_cores := cores\<rparr>)\<rparr>)) }
      | _ \<Rightarrow> Some (False, dvp))"

definition DVP_DecommitLoad ::
  "DVP_t option \<Rightarrow> DVP_KernelGraphSection_t option \<Rightarrow> DVP_t option option" where
  "DVP_DecommitLoad dvp section =
     (case (dvp, section) of
        (Some d, Some s) \<Rightarrow> do {
          l \<leftarrow> loads d;
          Some (Some (d\<lparr>loads := Some (l\<lparr>ld_cores :=
            decommit_cores (coreLoad s) 0 DVP_CORE_MAX (ld_cores l)\<rparr>)\<rparr>)) }
      | _ \<Rightarrow> Some dvp)"

section \<open>Configuring the nodes of a section\<close>

text \<open>The search for a manager on the core the node asks for.\<close>

fun affinity_scan :: "DVP_t \<Rightarrow> int \<Rightarrow> int \<Rightarrow> nat list \<Rightarrow> (nat \<times> nat) option option" where
  "affinity_scan dvp core k [] = Some None"
| "affinity_scan dvp core k (m # ms) = do {
     mgr \<leftarrow> nth_chk (managers dvp) m;
     cl \<leftarrow> calls mgr;
     if getCore cl = core then do {
       r \<leftarrow> DVP_GetManagerKernelIndex mgr k;
       (case r of Some f \<Rightarrow> Some (Some (m, f)) | None \<Rightarrow> affinity_scan dvp core k ms) }
     else affinity_scan dvp core k ms }"

text \<open>The do-while loop over the managers by priority; \<open>tried\<close> is \<open>triedMgrs\<close>.\<close>

function priority_loop :: "DVP_t \<Rightarrow> int \<Rightarrow> nat \<Rightarrow> u32 \<Rightarrow> (nat \<times> nat) option option" where
  "priority_loop dvp k tried mgrPriority =
     (let (prio, index) = DVP_GetNextManagerIndex dvp mgrPriority;
          retry = (if Suc tried < numMgrs dvp then priority_loop dvp k (Suc tried) prio
                   else Some None) in
      case index of
        None \<Rightarrow> retry
      | Some m \<Rightarrow> do {
          mgr \<leftarrow> nth_chk (managers dvp) m;
          r \<leftarrow> DVP_GetManagerKernelIndex mgr k;
          (case r of None \<Rightarrow> retry | Some f \<Rightarrow> Some (Some (m, f))) })"
  by pat_completeness auto
termination by (relation "measure (\<lambda>(dvp, _, tried, _). numMgrs dvp - tried)") auto

text \<open>The manager and function indices are stored and the load of the kernel is accumulated.\<close>

definition place_node ::
  "DVP_t \<Rightarrow> DVP_KernelGraphSection_t \<Rightarrow> nat \<Rightarrow> DVP_KernelNode_t \<Rightarrow> nat \<Rightarrow> nat \<Rightarrow>
   DVP_KernelGraphSection_t option" where
  "place_node dvp section n node m f = do {
     mgr \<leftarrow> nth_chk (managers dvp) m;
     ks \<leftarrow> kernels mgr;
     fn \<leftarrow> nth_chk ks f;
     cl \<leftarrow> calls mgr;
     let core = getCore cl;
     if 0 \<le> core \<and> core < int DVP_CORE_MAX then
       Some (section\<lparr>
         coreLoad := (coreLoad section)(nat core := coreLoad section (nat core) + cf_load fn),
         pNodes := (pNodes section)[n := node\<lparr>mgrIndex := m, funcIndex := f, configured := True\<rparr>]\<rparr>)
     else None }"

text \<open>One iteration of the loop over the nodes; the boolean says that the node is a fault.\<close>

definition configure_node ::
  "DVP_t \<Rightarrow> bool \<Rightarrow> DVP_KernelGraphSection_t \<Rightarrow> nat \<Rightarrow> (bool \<times> DVP_KernelGraphSection_t) option" where
  "configure_node dvp force section n = do {
     node \<leftarrow> nth_chk (pNodes section) n;
     if \<not> configured node \<or> force then do {
       found \<leftarrow> (if affinity node \<noteq> DVP_CORE_MIN
                 then affinity_scan dvp (affinity node) (kernel node) [0..<numMgrs dvp]
                 else Some None);
       (case found of
          Some (m, f) \<Rightarrow> do {
            s \<leftarrow> place_node dvp section n node m f;
            Some (False, s) }
        | None \<Rightarrow> do {
            let node' = node\<lparr>affinity := DVP_CORE_MIN\<rparr>;
            choice \<leftarrow> priority_loop dvp (kernel node) 0 0;
            (case choice of
               Some (m, f) \<Rightarrow> do {
                 s \<leftarrow> place_node dvp section n node' m f;
                 Some (False, s) }
             | None \<Rightarrow>
                 Some (True, section\<lparr>pNodes := (pNodes section)
                   [n := node'\<lparr>n_error := DVP_ERROR_NOT_IMPLEMENTED\<rparr>]\<rparr>)) }) }
     else Some (False, section) }"

fun configure_loop ::
  "DVP_t \<Rightarrow> bool \<Rightarrow> DVP_KernelGraphSection_t \<Rightarrow> nat list \<Rightarrow> (nat \<times> DVP_KernelGraphSection_t) option" where
  "configure_loop dvp force section [] = Some (0, section)"
| "configure_loop dvp force section (n # ns) = do {
     (fault, section') \<leftarrow> configure_node dvp force section n;
     if fault then Some (1, section') else configure_loop dvp force section' ns }"

text \<open>The section is dereferenced before the null tests, so a null section faults.\<close>

definition DVP_ConfigureNodes ::
  "DVP_t option \<Rightarrow> DVP_KernelGraphSection_t option \<Rightarrow> bool \<Rightarrow>
   (nat \<times> DVP_KernelGraphSection_t option) option" where
  "DVP_ConfigureNodes dvp section force =
     (case section of
        None \<Rightarrow> None
      | Some s \<Rightarrow>
          (case dvp of
             None \<Rightarrow> Some (1, section)
           | Some d \<Rightarrow> map_option (\<lambda>(f, s'). (f, Some s'))
                         (configure_loop d force s [0..<numNodes s])))"

section \<open>Running a section\<close>

text \<open>How many nodes from index \<open>i\<close> on, one after the other, are on the manager \<open>target\<close>.\<close>

fun same_mgr_run :: "DVP_KernelNode_t list \<Rightarrow> nat \<Rightarrow> nat list \<Rightarrow> nat option" where
  "same_mgr_run nodes target [] = Some 0"
| "same_mgr_run nodes target (i # is) = do {
     node \<leftarrow> nth_chk nodes i;
     if mgrIndex node = target then map_option Suc (same_mgr_run nodes target is) else Some 0 }"

function verify_loop ::
  "DVP_t \<Rightarrow> DVP_KernelNode_t list \<Rightarrow> nat \<Rightarrow> nat \<Rightarrow> nat \<Rightarrow> (nat \<times> DVP_KernelNode_t list) option" where
  "verify_loop dvp nodes num n verified =
     (if n < num then do {
        node \<leftarrow> nth_chk nodes n;
        rest \<leftarrow> same_mgr_run nodes (mgrIndex node) [Suc n..<num];
        mgr \<leftarrow> nth_chk (managers dvp) (mgrIndex node);
        cl \<leftarrow> calls mgr;
        let (k, nodes') = verify cl nodes n (Suc rest);
        verify_loop dvp nodes' num (n + Suc rest) (size_add verified k) }
      else Some (verified, nodes))"
  by pat_completeness auto
termination by (relation "measure (\<lambda>(_, _, num, n, _). num - n)") auto

definition DVP_KernelGraphBoss_Verify ::
  "DVP_t \<Rightarrow> DVP_KernelGraphSection_t \<Rightarrow> (nat \<times> DVP_KernelGraphSection_t) option" where
  "DVP_KernelGraphBoss_Verify dvp section = do {
     (faults, sec) \<leftarrow> DVP_ConfigureNodes (Some dvp) (Some section) False;
     s \<leftarrow> sec;
     if faults = 0 then do {
       (verified, nodes) \<leftarrow> verify_loop dvp (pNodes s) (numNodes s) 0 0;
       Some (verified, s\<lparr>pNodes := nodes\<rparr>) }
     else Some (0, s) }"

text \<open>The execution loop stops at the first manager that does not process all it was given.\<close>

function execute_loop ::
  "DVP_t \<Rightarrow> bool \<Rightarrow> DVP_KernelNode_t list \<Rightarrow> nat \<Rightarrow> nat \<Rightarrow> nat \<Rightarrow>
   (nat \<times> DVP_KernelNode_t list) option" where
  "execute_loop dvp sync nodes num n processed =
     (if n < num then do {
        node \<leftarrow> nth_chk nodes n;
        rest \<leftarrow> same_mgr_run nodes (mgrIndex node) [Suc n..<num];
        mgr \<leftarrow> nth_chk (managers dvp) (mgrIndex node);
        cl \<leftarrow> calls mgr;
        let (k, nodes') = manager cl nodes n (Suc rest) sync;
        if k \<noteq> Suc rest then Some (size_add processed k, nodes')
        else execute_loop dvp sync nodes' num (n + Suc rest) (size_add processed k) }
      else Some (processed, nodes))"
  by pat_completeness auto
termination by (relation "measure (\<lambda>(_, _, _, num, n, _). num - n)") auto

text \<open>
  The do-while loop of \<open>DVP_KernelGraphBoss_Process\<close>. Other processes use the load table while
  this one runs: \<open>env i\<close> is what they have made of the table of \<open>dvp\<close> when attempt \<open>i\<close> starts, and
  \<open>env (i + 1)\<close> what they have made of it during the execution that follows a successful commit.
  \<open>None\<close> is a fault or a loop that never ends.
\<close>

partial_function (option) process_loop ::
  "(nat \<Rightarrow> DVP_t \<Rightarrow> DVP_t) \<Rightarrow> nat \<Rightarrow> bool \<Rightarrow> DVP_t \<Rightarrow> DVP_KernelGraphSection_t \<Rightarrow>
   (nat \<times> DVP_t \<times> DVP_KernelGraphSection_t) option" where
  "process_loop env i sync dvp section = do {
     (ok, d) \<leftarrow> DVP_CommitLoad (Some (env i dvp)) (Some section);
     dvp1 \<leftarrow> d;
     if ok then do {
       (processed, nodes) \<leftarrow> execute_loop dvp1 sync (pNodes section) (numNodes section) 0 0;
       d' \<leftarrow> DVP_DecommitLoad (Some (env (Suc i) dvp1)) (Some section);
       dvp2 \<leftarrow> d';
       Some (processed, dvp2, section\<lparr>pNodes := nodes\<rparr>) }
     else do {
       (faults, s) \<leftarrow> DVP_ConfigureNodes (Some dvp1) (Some section) True;
       section' \<leftarrow> s;
       if faults = 0 then process_loop env (Suc i) sync dvp1 section'
       else Some (0, dvp1, section') } }"

definition DVP_KernelGraphBoss_Process ::
  "(nat \<Rightarrow> DVP_t \<Rightarrow> DVP_t) \<Rightarrow> rtime \<times> rtime \<Rightarrow> bool \<Rightarrow> DVP_t \<Rightarrow> DVP_KernelGraphSection_t \<Rightarrow>
   (nat \<times> DVP_t \<times> DVP_KernelGraphSection_t) option" where
  "DVP_KernelGraphBoss_Process env stamps sync dvp section = do {
     let section0 = section\<lparr>sec_perf := DVP_PerformanceStart (fst stamps) (sec_perf section)\<rparr>;
     (processed, dvp', section1) \<leftarrow> process_loop env 0 sync dvp section0;
     perf \<leftarrow> DVP_PerformanceStop (snd stamps) (sec_perf section1);
     Some (processed, dvp', section1\<lparr>sec_perf := perf\<rparr>) }"

end
