(* ===== verification/Dvp_KgbLoad.thy ===== *)
theory Dvp_KgbLoad
  imports Dvp_Kgb
begin

text \<open>
  Correctness of the load table: what a commit and a decommit do, and what the table is after any
  interleaving of commits and decommits by the sections of any number of graphs and processes.
  Every step is atomic because the code holds the semaphore of the table.
\<close>

section \<open>One commit, one decommit\<close>

abbreviation all_cores :: "nat set" where
  "all_cores \<equiv> {..<DVP_CORE_MAX}"

lemma DVP_t_update_same [simp]: "loads d = Some l \<Longrightarrow> d\<lparr>loads := Some l\<rparr> = d"
  by (cases d) simp

lemma DVP_Load_t_update_same [simp]: "l\<lparr>ld_cores := ld_cores l\<rparr> = l"
  by (cases l) simp

abbreviation with_cores :: "DVP_t \<Rightarrow> DVP_Load_t \<Rightarrow> core_table \<Rightarrow> DVP_t" where
  "with_cores d l cores \<equiv> d\<lparr>loads := Some (l\<lparr>ld_cores := cores\<rparr>)\<rparr>"

lemma CommitLoad_eq:
  assumes "loads d = Some l" "numNodes s \<noteq> 0"
  shows "DVP_CommitLoad (Some d) (Some s) =
    (if fits (coreLoad s) all_cores (ld_cores l)
     then Some (True, Some (with_cores d l (loaded (coreLoad s) all_cores (ld_cores l))))
     else Some (False, Some d))"
  using assms by (simp add: DVP_CommitLoad_def commit_cores_eq)

lemma DecommitLoad_eq:
  "loads d = Some l \<Longrightarrow> DVP_DecommitLoad (Some d) (Some s) =
    Some (Some (with_cores d l (unloaded (coreLoad s) all_cores (ld_cores l))))"
  by (simp add: DVP_DecommitLoad_def decommit_cores_eq)

interpretation load_pool: resource_pool
  "\<lambda>cl. commit_cores cl 0 DVP_CORE_MAX" "\<lambda>cl. decommit_cores cl 0 DVP_CORE_MAX"
proof unfold_locales
  fix l k :: core_loads and t t' :: core_table
  show "commit_cores l 0 DVP_CORE_MAX t = (False, t') \<Longrightarrow> t' = t"
    by (simp add: commit_cores_eq split: if_splits)
  show "commit_cores l 0 DVP_CORE_MAX t = (True, t') \<Longrightarrow> decommit_cores l 0 DVP_CORE_MAX t' = t"
    by (auto simp: commit_cores_eq decommit_cores_eq split: if_splits)
  show "decommit_cores l 0 DVP_CORE_MAX (decommit_cores k 0 DVP_CORE_MAX t) =
        decommit_cores k 0 DVP_CORE_MAX (decommit_cores l 0 DVP_CORE_MAX t)"
    by (auto simp: decommit_cores_eq unloaded_def fun_eq_iff algebra_simps)
qed

section \<open>Interleavings\<close>

text \<open>
  \<open>load_reach P d0 d held\<close>: from \<open>d0\<close>, commits by sections of the class \<open>P\<close> and decommits of sections
  that hold their load have led to \<open>d\<close>, where the sections \<open>held\<close> are running.
\<close>

inductive load_reach ::
  "(DVP_KernelGraphSection_t \<Rightarrow> bool) \<Rightarrow> DVP_t \<Rightarrow> DVP_t \<Rightarrow> DVP_KernelGraphSection_t list \<Rightarrow> bool"
  for P d0 where
  start: "load_reach P d0 d0 []"
| commit: "load_reach P d0 d held \<Longrightarrow> P s \<Longrightarrow> DVP_CommitLoad (Some d) (Some s) = Some (ok, Some d') \<Longrightarrow>
     load_reach P d0 d' (if ok then s # held else held)"
| finish: "load_reach P d0 d held \<Longrightarrow> s \<in> set held \<Longrightarrow>
     DVP_DecommitLoad (Some d) (Some s) = Some (Some d') \<Longrightarrow> load_reach P d0 d' (remove1 s held)"

lemma CommitLoad_cases:
  assumes "loads d = Some l" "DVP_CommitLoad (Some d) (Some s) = Some (ok, Some d')"
  obtains cores where "commit_cores (coreLoad s) 0 DVP_CORE_MAX (ld_cores l) = (ok, cores)"
      "d' = with_cores d l cores" "numNodes s \<noteq> 0"
    | "numNodes s = 0" "\<not> ok" "d' = d"
  using assms by (auto simp: DVP_CommitLoad_def split: if_splits prod.splits)

text \<open>The load that is still held, as the interpretation of the pool counts it.\<close>

abbreviation held_loads :: "DVP_KernelGraphSection_t list \<Rightarrow> core_loads list" where
  "held_loads held \<equiv> map coreLoad held"

lemma released_remove_section:
  assumes "s \<in> set held"
  shows "load_pool.released (held_loads (remove1 s held)) (decommit_cores (coreLoad s) 0 DVP_CORE_MAX t) =
         load_pool.released (held_loads held) t"
  using assms unfolding load_pool.released_def
proof (induction held arbitrary: t)
  case (Cons a held)
  then show ?case
    by (cases "s = a") (auto simp: load_pool.release_commute[of "coreLoad a" "coreLoad s"])
qed simp

lemma load_reach_released:
  assumes "load_reach P d0 d held" "loads d0 = Some l0"
  shows "\<exists>cores. d = with_cores d0 l0 cores \<and>
           load_pool.released (held_loads held) cores = ld_cores l0"
  using assms
proof (induction rule: load_reach.induct)
  case start
  then show ?case by (intro exI[of _ "ld_cores l0"]) (simp add: load_pool.released_def)
next
  case (commit d held s ok d')
  then obtain cores where d: "d = with_cores d0 l0 cores"
    and rel: "load_pool.released (held_loads held) cores = ld_cores l0" by auto
  then have "loads d = Some (l0\<lparr>ld_cores := cores\<rparr>)" by simp
  then show ?case using commit.hyps(3)
  proof (cases rule: CommitLoad_cases)
    case (1 cores')
    then have "commit_cores (coreLoad s) 0 DVP_CORE_MAX cores = (ok, cores')" by simp
    from load_pool.released_acquire[OF this, of "held_loads held"] show ?thesis
      using 1 d rel by (intro exI[of _ cores']) (cases ok; simp)
  next
    case 2
    then show ?thesis using d rel by (intro exI[of _ cores]) simp
  qed
next
  case (finish d held s d')
  then obtain cores where d: "d = with_cores d0 l0 cores"
    and rel: "load_pool.released (held_loads held) cores = ld_cores l0" by auto
  let ?cores' = "decommit_cores (coreLoad s) 0 DVP_CORE_MAX cores"
  have "d' = with_cores d0 l0 ?cores'"
    using finish.hyps(3) d by (simp add: DVP_DecommitLoad_def)
  moreover have "load_pool.released (held_loads (remove1 s held)) ?cores' = ld_cores l0"
    using released_remove_section[OF finish.hyps(2)] rel by simp
  ultimately show ?case by blast
qed

text \<open>Sums of signed words that do not leave the signed range.\<close>

lemma sint_add_range:
  fixes a b :: s32
  assumes "- (2 ^ 31) \<le> sint a + sint b" "sint a + sint b < 2 ^ 31"
  shows "sint (a + b) = sint a + sint b"
  using assms by (simp add: sint_word_ariths signed_take_bit_int_eq_self)

lemma sint_diff_range:
  fixes a b :: s32
  assumes "- (2 ^ 31) \<le> sint a - sint b" "sint a - sint b < 2 ^ 31"
  shows "sint (a - b) = sint a - sint b"
  using assms by (simp add: sint_word_ariths signed_take_bit_int_eq_self)

text \<open>
  A table whose loads are in range, with limits below \<open>2 ^ 30\<close>, and sections whose load on each
  core is in range.
\<close>

definition table_ok :: "core_table \<Rightarrow> bool" where
  "table_ok cores \<longleftrightarrow> (\<forall>c < DVP_CORE_MAX. 0 \<le> sint (currentLoad (cores c)) \<and>
     sint (currentLoad (cores c)) \<le> sint (maximumLoad (cores c)) \<and> sint (maximumLoad (cores c)) < 2 ^ 30)"

definition section_load_ok :: "DVP_KernelGraphSection_t \<Rightarrow> bool" where
  "section_load_ok s \<longleftrightarrow> (\<forall>c < DVP_CORE_MAX. 0 \<le> sint (coreLoad s c) \<and> sint (coreLoad s c) < 2 ^ 30)"

definition load_on :: "nat \<Rightarrow> DVP_KernelGraphSection_t list \<Rightarrow> int" where
  "load_on c held = sum_list (map (\<lambda>s. sint (coreLoad s c)) held)"

lemma load_on_remove1:
  "s \<in> set held \<Longrightarrow> load_on c (remove1 s held) = load_on c held - sint (coreLoad s c)"
  unfolding load_on_def by (simp add: sum_list_map_remove1)

lemma load_on_nonneg:
  assumes "\<forall>s\<in>set held. section_load_ok s" "c < DVP_CORE_MAX"
  shows "0 \<le> load_on c held"
  using assms unfolding load_on_def section_load_ok_def by (intro sum_list_nonneg) auto

definition accounted :: "core_table \<Rightarrow> core_table \<Rightarrow> DVP_KernelGraphSection_t list \<Rightarrow> bool" where
  "accounted cores0 cores held \<longleftrightarrow> (\<forall>c < DVP_CORE_MAX.
     sint (currentLoad (cores c)) = sint (currentLoad (cores0 c)) + load_on c held \<and>
     sint (currentLoad (cores c)) \<le> sint (maximumLoad (cores c)) \<and>
     maximumLoad (cores c) = maximumLoad (cores0 c))"

lemma accounted_at:
  assumes "accounted cores0 cores held" "table_ok cores0" "c < DVP_CORE_MAX"
  shows "sint (currentLoad (cores c)) = sint (currentLoad (cores0 c)) + load_on c held"
    "sint (currentLoad (cores c)) \<le> sint (maximumLoad (cores c))"
    "sint (currentLoad (cores c)) < 2 ^ 30" "maximumLoad (cores c) = maximumLoad (cores0 c)"
proof -
  show *: "sint (currentLoad (cores c)) = sint (currentLoad (cores0 c)) + load_on c held"
    "sint (currentLoad (cores c)) \<le> sint (maximumLoad (cores c))"
    "maximumLoad (cores c) = maximumLoad (cores0 c)"
    using assms by (auto simp: accounted_def)
  have "sint (maximumLoad (cores0 c)) < 2 ^ 30" using assms by (auto simp: table_ok_def)
  then show "sint (currentLoad (cores c)) < 2 ^ 30" using *(2) unfolding *(3) by (rule le_less_trans[rotated])
qed

lemma accounted_loaded:
  assumes acc: "accounted cores0 cores held" and ok: "table_ok cores0"
    and held: "\<forall>s\<in>set held. section_load_ok s" and s: "section_load_ok s"
    and fits: "fits (coreLoad s) all_cores cores"
  shows "accounted cores0 (loaded (coreLoad s) all_cores cores) (s # held)"
  unfolding accounted_def
proof (intro allI impI)
  fix c assume c: "c < DVP_CORE_MAX"
  note cur = accounted_at[OF acc ok c]
  have "0 \<le> sint (currentLoad (cores c))"
    using cur load_on_nonneg[OF held c] ok c by (auto simp: table_ok_def)
  then have "sint (currentLoad (cores c) + coreLoad s c) = sint (currentLoad (cores c)) + sint (coreLoad s c)"
    using s c cur by (intro sint_add_range) (auto simp: section_load_ok_def)
  moreover have "sint (currentLoad (cores c) + coreLoad s c) \<le> sint (maximumLoad (cores0 c))"
    using fits c cur(4) by (simp add: fits_def del: lessThan_iff) (metis lessThan_iff)
  ultimately show "sint (currentLoad (loaded (coreLoad s) all_cores cores c)) =
      sint (currentLoad (cores0 c)) + load_on c (s # held) \<and>
    sint (currentLoad (loaded (coreLoad s) all_cores cores c)) \<le> sint (maximumLoad (loaded (coreLoad s) all_cores cores c)) \<and>
    maximumLoad (loaded (coreLoad s) all_cores cores c) = maximumLoad (cores0 c)"
    using c cur by (simp add: loaded_def load_on_def)
qed

lemma accounted_unloaded:
  assumes acc: "accounted cores0 cores held" and ok: "table_ok cores0"
    and held: "\<forall>s\<in>set held. section_load_ok s" and s: "s \<in> set held"
  shows "accounted cores0 (unloaded (coreLoad s) all_cores cores) (remove1 s held)"
  unfolding accounted_def
proof (intro allI impI)
  fix c assume c: "c < DVP_CORE_MAX"
  note cur = accounted_at[OF acc ok c]
  have s_load: "0 \<le> sint (coreLoad s c)" "sint (coreLoad s c) < 2 ^ 30"
    using held s c by (auto simp: section_load_ok_def)
  have "0 \<le> sint (currentLoad (cores c))"
    using cur load_on_nonneg[OF held c] ok c by (auto simp: table_ok_def)
  then have "sint (currentLoad (cores c) - coreLoad s c) = sint (currentLoad (cores c)) - sint (coreLoad s c)"
    using s_load cur by (intro sint_diff_range) auto
  then show "sint (currentLoad (unloaded (coreLoad s) all_cores cores c)) =
      sint (currentLoad (cores0 c)) + load_on c (remove1 s held) \<and>
    sint (currentLoad (unloaded (coreLoad s) all_cores cores c)) \<le> sint (maximumLoad (unloaded (coreLoad s) all_cores cores c)) \<and>
    maximumLoad (unloaded (coreLoad s) all_cores cores c) = maximumLoad (cores0 c)"
    using c cur s_load load_on_remove1[OF s, of c] by (simp add: unloaded_def)
qed

lemma load_reach_accounted:
  assumes "load_reach section_load_ok d0 d held" "loads d0 = Some l0" "table_ok (ld_cores l0)"
  shows "\<exists>cores. d = with_cores d0 l0 cores \<and> accounted (ld_cores l0) cores held \<and>
           (\<forall>s\<in>set held. section_load_ok s)"
  using assms
proof (induction rule: load_reach.induct)
  case start
  then show ?case
    by (intro exI[of _ "ld_cores l0"]) (auto simp: accounted_def load_on_def table_ok_def)
next
  case (commit d held s ok d')
  then obtain cores where d: "d = with_cores d0 l0 cores" and acc: "accounted (ld_cores l0) cores held"
    and held: "\<forall>s\<in>set held. section_load_ok s" by auto
  show ?case
  proof (cases ok)
    case True
    then have "fits (coreLoad s) all_cores cores" "d' = with_cores d0 l0 (loaded (coreLoad s) all_cores cores)"
      using commit.hyps(3) d by (auto simp: DVP_CommitLoad_def commit_cores_eq split: if_splits)
    then show ?thesis
      using accounted_loaded[OF acc commit.prems(2) held commit.hyps(2)] True held commit.hyps(2) by auto
  next
    case False
    then have "d' = d"
      using commit.hyps(3) d by (auto simp: DVP_CommitLoad_def commit_cores_eq split: if_splits)
    then show ?thesis using d acc held False by auto
  qed
next
  case (finish d held s d')
  then obtain cores where d: "d = with_cores d0 l0 cores" and acc: "accounted (ld_cores l0) cores held"
    and held: "\<forall>s\<in>set held. section_load_ok s" by auto
  have "d' = with_cores d0 l0 (unloaded (coreLoad s) all_cores cores)"
    using finish.hyps(3) d by (simp add: DVP_DecommitLoad_def decommit_cores_eq)
  moreover have "\<forall>x\<in>set (remove1 s held). section_load_ok x"
    using held by (meson notin_set_remove1)
  ultimately show ?case
    using accounted_unloaded[OF acc finish.prems(2) held finish.hyps(2)] by blast
qed

section \<open>Properties\<close>

text \<open>
  A concrete table and section used by the witnesses: every core may carry 100, a section loads
  core 0 with 60.
\<close>

definition ex_perf :: DVP_Perf_t where
  "ex_perf = \<lparr>numTimes = 0, tmpTime = 0, minTime = 0, maxTime = 0, avgTime = 0, sumTime = 0, rate = 1\<rparr>"

definition ex_table :: DVP_Load_t where
  "ex_table = \<lparr>ld_initialized = True, ld_cores = (\<lambda>_. \<lparr>maximumLoad = 100, currentLoad = 0\<rparr>)\<rparr>"

definition ex_boss :: DVP_t where
  "ex_boss = \<lparr>managers = [], loads = Some ex_table\<rparr>"

definition ex_load_section :: DVP_KernelGraphSection_t where
  "ex_load_section = \<lparr>pNodes = [], numNodes = 1, sec_perf = ex_perf, coreLoad = (\<lambda>_. 0)(0 := 60),
                      skipSection = False\<rparr>"

text \<open>
  C2. \<open>DVP_CommitLoad\<close> is all or nothing: when the load of the section, added with the machine's
  wrap-around, stays within the maximum of every core, it is added on every core and the call
  returns true; otherwise the call returns false and the table is exactly as it was before, whatever
  core refused and however many had already been loaded.
\<close>

theorem commit_all_or_nothing:
  assumes "loads d = Some l" "numNodes s \<noteq> 0"
  shows "DVP_CommitLoad (Some d) (Some s) =
    (if \<forall>c < DVP_CORE_MAX. sint (currentLoad (ld_cores l c) + coreLoad s c) \<le> sint (maximumLoad (ld_cores l c))
     then Some (True, Some (d\<lparr>loads := Some (l\<lparr>ld_cores := \<lambda>c. if c < DVP_CORE_MAX
            then (ld_cores l c)\<lparr>currentLoad := currentLoad (ld_cores l c) + coreLoad s c\<rparr>
            else ld_cores l c\<rparr>)\<rparr>))
     else Some (False, Some d))"
  using CommitLoad_eq[OF assms] by (simp add: fits_def loaded_def Ball_def)

theorem commit_all_or_nothing_witness:
  "DVP_CommitLoad (Some ex_boss) (Some (ex_load_section\<lparr>coreLoad := (\<lambda>_. 0)(6 := 101)\<rparr>)) = Some (False, Some ex_boss)"
proof -
  have "loads ex_boss = Some ex_table" "numNodes (ex_load_section\<lparr>coreLoad := (\<lambda>_. 0)(6 := 101)\<rparr>) \<noteq> 0"
    by (simp_all add: ex_boss_def ex_load_section_def)
  from commit_all_or_nothing[OF this]
  have "DVP_CommitLoad (Some ex_boss) (Some (ex_load_section\<lparr>coreLoad := (\<lambda>_. 0)(6 := 101)\<rparr>)) =
    (if \<forall>c < DVP_CORE_MAX. sint (0 + ((\<lambda>_. 0)(6 := 101)) c :: s32) \<le> 100 then
       DVP_CommitLoad (Some ex_boss) (Some (ex_load_section\<lparr>coreLoad := (\<lambda>_. 0)(6 := 101)\<rparr>))
     else Some (False, Some ex_boss))"
    by (simp add: ex_table_def split: if_splits)
  moreover have "\<not> (\<forall>c < DVP_CORE_MAX. sint (0 + ((\<lambda>_. 0)(6 := 101)) c :: s32) \<le> 100)"
    by (auto intro!: exI[of _ 6])
  ultimately show ?thesis by (simp only: if_False)
qed

text \<open>
  C30. In every interleaving of commits and decommits, by sections whose loads are not negative and
  with limits below \<open>2 ^ 30\<close>, the current load of each core is the load at the start plus the sum of
  the loads of the sections that are running, and never exceeds the core's maximum.
\<close>

theorem load_table_bounded:
  assumes "load_reach section_load_ok d0 d held" "loads d0 = Some l0" "table_ok (ld_cores l0)"
  shows "\<exists>l. loads d = Some l \<and> (\<forall>c < DVP_CORE_MAX.
    sint (currentLoad (ld_cores l c)) =
      sint (currentLoad (ld_cores l0 c)) + sum_list (map (\<lambda>s. sint (coreLoad s c)) held) \<and>
    sint (currentLoad (ld_cores l c)) \<le> sint (maximumLoad (ld_cores l0 c)))"
proof -
  obtain cores where "d = with_cores d0 l0 cores" "accounted (ld_cores l0) cores held"
    using load_reach_accounted[OF assms] by blast
  then show ?thesis
    by (intro exI[of _ "l0\<lparr>ld_cores := cores\<rparr>"]) (auto simp: accounted_def load_on_def)
qed

lemma ex_load_reach:
  "load_reach section_load_ok ex_boss
     (with_cores ex_boss ex_table (loaded (coreLoad ex_load_section) all_cores (ld_cores ex_table)))
     [ex_load_section]"
proof -
  have "section_load_ok ex_load_section" by (simp add: section_load_ok_def ex_load_section_def)
  moreover have "fits (coreLoad ex_load_section) all_cores (ld_cores ex_table)"
    by (simp add: fits_def ex_load_section_def ex_table_def)
  then have "DVP_CommitLoad (Some ex_boss) (Some ex_load_section) = Some (True, Some
     (with_cores ex_boss ex_table (loaded (coreLoad ex_load_section) all_cores (ld_cores ex_table))))"
    using CommitLoad_eq[of ex_boss ex_table ex_load_section] by (simp add: ex_boss_def ex_load_section_def)
  ultimately show ?thesis
    using load_reach.commit[OF load_reach.start, of section_load_ok ex_load_section ex_boss True] by simp
qed

theorem load_table_bounded_witness:
  "\<exists>d held. load_reach section_load_ok ex_boss d held \<and> held \<noteq> [] \<and>
     (\<exists>l. loads d = Some l \<and> (\<forall>c < DVP_CORE_MAX.
        sint (currentLoad (ld_cores l c)) = sint (currentLoad (ld_cores ex_table c)) + sum_list (map (\<lambda>s. sint (coreLoad s c)) held) \<and>
        sint (currentLoad (ld_cores l c)) \<le> sint (maximumLoad (ld_cores ex_table c))))"
proof -
  have "loads ex_boss = Some ex_table" "table_ok (ld_cores ex_table)"
    by (simp_all add: ex_boss_def table_ok_def ex_table_def)
  from load_table_bounded[OF ex_load_reach this] ex_load_reach show ?thesis by blast
qed

text \<open>
  When every section that committed its load has finished, whatever the order, the table is
  exactly the one at the start, for any loads, wrap-around included.
\<close>

theorem load_table_balanced:
  assumes "load_reach P d0 d []" "loads d0 = Some l0"
  shows "d = d0"
proof -
  obtain cores where "d = with_cores d0 l0 cores" "cores = ld_cores l0"
    using load_reach_released[OF assms] by (auto simp: load_pool.released_def)
  then show ?thesis using assms(2) by simp
qed

theorem load_table_balanced_witness:
  "load_reach section_load_ok ex_boss
     (with_cores ex_boss ex_table (unloaded (coreLoad ex_load_section) all_cores
        (loaded (coreLoad ex_load_section) all_cores (ld_cores ex_table)))) [] \<and>
   with_cores ex_boss ex_table (unloaded (coreLoad ex_load_section) all_cores
        (loaded (coreLoad ex_load_section) all_cores (ld_cores ex_table))) = ex_boss"
proof -
  let ?d = "with_cores ex_boss ex_table (loaded (coreLoad ex_load_section) all_cores (ld_cores ex_table))"
  let ?e = "with_cores ex_boss ex_table (unloaded (coreLoad ex_load_section) all_cores
        (loaded (coreLoad ex_load_section) all_cores (ld_cores ex_table)))"
  have "DVP_DecommitLoad (Some ?d) (Some ex_load_section) = Some (Some ?e)"
    by (simp add: DecommitLoad_eq)
  then have reach: "load_reach section_load_ok ex_boss ?e []"
    using load_reach.finish[OF ex_load_reach, of ex_load_section] by simp
  have "loads ex_boss = Some ex_table" by (simp add: ex_boss_def)
  with reach load_table_balanced[OF reach this] show ?thesis by simp
qed

end
