(* ===== verification/Dvp_KgbConfig.thy ===== *)
theory Dvp_KgbConfig
  imports Dvp_KgbLoad
begin

text \<open>
  Correctness of the assignment of nodes to managers: the priority scan, the kernel search, the
  affinity rule, and the invariant that every configured node names a manager that implements its
  kernel.
\<close>

section \<open>Well-formed managers\<close>

text \<open>
  What the boss relies on: every module has been loaded, the kernel table has the announced number of entries and the core
  is one of the enumeration.
\<close>

definition mgr_wf :: "DVP_GraphManager_t \<Rightarrow> bool" where
  "mgr_wf m \<longleftrightarrow> (case kernels m of None \<Rightarrow> True | Some ks \<Rightarrow> numSupportedKernels m \<le> length ks) \<and>
     calls m \<noteq> None \<and> 0 \<le> getCore (the (calls m)) \<and> getCore (the (calls m)) < int DVP_CORE_MAX"

definition dvp_wf :: "DVP_t \<Rightarrow> bool" where
  "dvp_wf d \<longleftrightarrow> (\<forall>m\<in>set (managers d). mgr_wf m)"

text \<open>Manager \<open>m\<close> implements kernel \<open>k\<close> as its function \<open>f\<close>.\<close>

definition implements :: "DVP_GraphManager_t \<Rightarrow> int \<Rightarrow> nat \<Rightarrow> bool" where
  "implements m k f \<longleftrightarrow> enabled m \<and> m_handle m \<and>
     (case kernels m of None \<Rightarrow> False
      | Some ks \<Rightarrow> f < numSupportedKernels m \<and> f < length ks \<and> cf_kernel (ks ! f) = k)"

definition supports :: "DVP_GraphManager_t \<Rightarrow> int \<Rightarrow> bool" where
  "supports m k \<longleftrightarrow> (\<exists>f < numSupportedKernels m. implements m k f)"

lemma implements_supports: "implements m k f \<Longrightarrow> supports m k"
  by (auto simp: implements_def supports_def split: option.splits)

lemma dvp_wf_calls: "dvp_wf d \<Longrightarrow> m < numMgrs d \<Longrightarrow> \<exists>c. calls (managers d ! m) = Some c"
  by (auto simp: dvp_wf_def mgr_wf_def)

lemma dvp_wf_nth: "dvp_wf d \<Longrightarrow> m < numMgrs d \<Longrightarrow> mgr_wf (managers d ! m)"
  by (simp add: dvp_wf_def)

section \<open>The scans\<close>

lemma kernel_scan_range:
  assumes "n \<le> length ks"
  shows "\<exists>r. kernel_scan ks k [i..<n] = Some r \<and>
    (case r of None \<Rightarrow> \<forall>j. i \<le> j \<and> j < n \<longrightarrow> cf_kernel (ks ! j) \<noteq> k
     | Some f \<Rightarrow> i \<le> f \<and> f < n \<and> cf_kernel (ks ! f) = k)"
proof (induction "n - i" arbitrary: i)
  case (Suc x)
  then have up: "[i..<n] = i # [Suc i..<n]" by (simp add: upt_rec)
  have "x = n - Suc i" using Suc.hyps(2) by simp
  from Suc.hyps(1)[OF this] obtain r where r: "kernel_scan ks k [Suc i..<n] = Some r"
    "case r of None \<Rightarrow> \<forall>j. Suc i \<le> j \<and> j < n \<longrightarrow> cf_kernel (ks ! j) \<noteq> k
     | Some f \<Rightarrow> Suc i \<le> f \<and> f < n \<and> cf_kernel (ks ! f) = k" by blast
  have "i < length ks" using Suc.hyps(2) assms by simp
  then show ?case
    using r Suc.hyps(2) unfolding up
    by (cases "cf_kernel (ks ! i) = k")
       (auto simp: nth_chk_Some split: option.splits dest!: le_neq_implies_less simp: Suc_le_eq)
qed simp

lemma GetManagerKernelIndex_spec:
  assumes "mgr_wf m"
  obtains r where "DVP_GetManagerKernelIndex m k = Some r"
    "case r of None \<Rightarrow> \<not> supports m k | Some f \<Rightarrow> implements m k f"
proof -
  have "\<exists>r. DVP_GetManagerKernelIndex m k = Some r \<and>
    (case r of None \<Rightarrow> \<not> supports m k | Some f \<Rightarrow> implements m k f)"
  proof (cases "kernels m")
    case (Some ks)
    then have n: "numSupportedKernels m \<le> length ks" using assms by (simp add: mgr_wf_def)
    obtain r where "kernel_scan ks k [0..<numSupportedKernels m] = Some r"
      "case r of None \<Rightarrow> \<forall>j. 0 \<le> j \<and> j < numSupportedKernels m \<longrightarrow> cf_kernel (ks ! j) \<noteq> k
       | Some f \<Rightarrow> 0 \<le> f \<and> f < numSupportedKernels m \<and> cf_kernel (ks ! f) = k"
      using kernel_scan_range[OF n, of k 0] by blast
    then show ?thesis using Some n
      by (auto simp: DVP_GetManagerKernelIndex_def implements_def supports_def
               split: option.splits)
  qed (simp add: DVP_GetManagerKernelIndex_def supports_def implements_def)
  then show ?thesis using that by blast
qed

lemma next_mgr_scan_spec:
  assumes "next_mgr_scan p ms i (idx, prio) = (idx', prio')"
  shows "prio' \<le> prio \<and>
    (\<forall>k < length ms. enabled (ms ! k) \<and> priority (ms ! k) > p \<longrightarrow> prio' \<le> priority (ms ! k) \<or> prio < priority (ms ! k)) \<and>
    ((idx', prio') = (idx, prio) \<or>
     (\<exists>k < length ms. idx' = i + k \<and> enabled (ms ! k) \<and> priority (ms ! k) = prio' \<and> prio' > p))"
  using assms
proof (induction ms arbitrary: i idx prio)
  case (Cons m ms)
  let ?take = "enabled m \<and> priority m \<le> prio \<and> priority m > p"
  obtain idx1 prio1 where best: "(if ?take then (i, priority m) else (idx, prio)) = (idx1, prio1)"
    by fastforce
  note IH = Cons.IH[of "Suc i" idx1 prio1]
  have scan: "next_mgr_scan p ms (Suc i) (idx1, prio1) = (idx', prio')"
    using Cons.prems best by simp
  have le1: "prio1 \<le> prio" using best by (auto split: if_splits)
  have head: "enabled m \<and> priority m > p \<longrightarrow> prio1 \<le> priority m \<or> prio < priority m"
    using best by (auto split: if_splits)
  have all: "\<forall>k < length (m # ms). enabled ((m # ms) ! k) \<and> priority ((m # ms) ! k) > p \<longrightarrow>
      prio' \<le> priority ((m # ms) ! k) \<or> prio < priority ((m # ms) ! k)"
  proof (intro allI impI)
    fix k assume k: "k < length (m # ms)" "enabled ((m # ms) ! k) \<and> priority ((m # ms) ! k) > p"
    show "prio' \<le> priority ((m # ms) ! k) \<or> prio < priority ((m # ms) ! k)"
    proof (cases k)
      case 0
      then show ?thesis using k head IH[OF scan] by (auto dest: order_trans)
    next
      case (Suc j)
      then have "prio' \<le> priority (ms ! j) \<or> prio1 < priority (ms ! j)"
        using k IH[OF scan] by auto
      then show ?thesis using Suc IH[OF scan] by (auto dest: less_imp_le order_trans)
    qed
  qed
  have "(idx', prio') = (idx, prio) \<or> (\<exists>k < length (m # ms). idx' = i + k \<and> enabled ((m # ms) ! k) \<and>
      priority ((m # ms) ! k) = prio' \<and> prio' > p)"
  proof (cases "(idx', prio') = (idx1, prio1)")
    case True
    then show ?thesis using best by (cases ?take) auto
  next
    case False
    then obtain k where "k < length ms" "idx' = Suc i + k" "enabled (ms ! k)" "priority (ms ! k) = prio'" "prio' > p"
      using IH[OF scan] by auto
    then show ?thesis by (intro disjI2 exI[of _ "Suc k"]) simp
  qed
  then show ?case using all IH[OF scan] le1 by (auto dest: order_trans)
qed simp

lemma GetNextManagerIndex_Some:
  assumes "DVP_GetNextManagerIndex d p = (q, Some m)"
  shows "m < numMgrs d" "enabled (managers d ! m)" "priority (managers d ! m) = q" "p < q"
    "q \<noteq> DVP_PRIORITY_MAX"
    "\<And>k. k < numMgrs d \<Longrightarrow> enabled (managers d ! k) \<Longrightarrow> p < priority (managers d ! k) \<Longrightarrow>
       q \<le> priority (managers d ! k)"
proof -
  obtain idx prio where s: "next_mgr_scan p (managers d) 0 (0, DVP_PRIORITY_MAX) = (idx, prio)"
    by fastforce
  then have e: "idx = m" "prio = q" "q \<noteq> DVP_PRIORITY_MAX"
    using assms by (auto simp: DVP_GetNextManagerIndex_def split: if_splits)
  show "m < numMgrs d" "enabled (managers d ! m)" "priority (managers d ! m) = q" "p < q"
    "q \<noteq> DVP_PRIORITY_MAX"
    using next_mgr_scan_spec[OF s] e by auto
  show "q \<le> priority (managers d ! k)"
    if "k < numMgrs d" "enabled (managers d ! k)" "p < priority (managers d ! k)" for k
    using next_mgr_scan_spec[OF s] e that by (auto simp: u32_top_iff)
qed

lemma GetNextManagerIndex_None:
  assumes "DVP_GetNextManagerIndex d p = (q, None)"
  shows "q = 0"
    "\<And>k. k < numMgrs d \<Longrightarrow> enabled (managers d ! k) \<Longrightarrow> p < priority (managers d ! k) \<Longrightarrow>
       priority (managers d ! k) = DVP_PRIORITY_MAX"
proof -
  obtain idx prio where s: "next_mgr_scan p (managers d) 0 (0, DVP_PRIORITY_MAX) = (idx, prio)"
    by fastforce
  then have e: "prio = DVP_PRIORITY_MAX" "q = 0"
    using assms by (auto simp: DVP_GetNextManagerIndex_def split: if_splits)
  then show "q = 0" by simp
  show "priority (managers d ! k) = DVP_PRIORITY_MAX"
    if "k < numMgrs d" "enabled (managers d ! k)" "p < priority (managers d ! k)" for k
    using next_mgr_scan_spec[OF s] e that by (auto simp: u32_top_iff)
qed

lemma affinity_scan_range:
  assumes wf: "dvp_wf d"
  shows "\<exists>r. affinity_scan d core k [i..<numMgrs d] = Some r \<and>
    (case r of
       None \<Rightarrow> \<forall>m. i \<le> m \<and> m < numMgrs d \<and> getCore (the (calls (managers d ! m))) = core \<longrightarrow>
              \<not> supports (managers d ! m) k
     | Some (m, f) \<Rightarrow> m < numMgrs d \<and> getCore (the (calls (managers d ! m))) = core \<and>
              implements (managers d ! m) k f)"
proof (induction "numMgrs d - i" arbitrary: i)
  case (Suc x)
  then have i: "i < numMgrs d" and up: "[i..<numMgrs d] = i # [Suc i..<numMgrs d]"
    by (simp_all add: upt_rec)
  have "x = numMgrs d - Suc i" using Suc.hyps(2) by simp
  from Suc.hyps(1)[OF this] obtain r where r: "affinity_scan d core k [Suc i..<numMgrs d] = Some r"
    "case r of
       None \<Rightarrow> \<forall>m. Suc i \<le> m \<and> m < numMgrs d \<and> getCore (the (calls (managers d ! m))) = core \<longrightarrow>
              \<not> supports (managers d ! m) k
     | Some (m, f) \<Rightarrow> m < numMgrs d \<and> getCore (the (calls (managers d ! m))) = core \<and>
              implements (managers d ! m) k f" by blast
  obtain q where q: "DVP_GetManagerKernelIndex (managers d ! i) k = Some q"
    "case q of None \<Rightarrow> \<not> supports (managers d ! i) k | Some f \<Rightarrow> implements (managers d ! i) k f"
    by (rule GetManagerKernelIndex_spec[OF dvp_wf_nth[OF wf i]])
  obtain cl where cl: "calls (managers d ! i) = Some cl" using dvp_wf_calls[OF wf i] by blast
  show ?case
  proof (cases "getCore (the (calls (managers d ! i))) = core \<and> q \<noteq> None")
    case True
    then show ?thesis using q i cl unfolding up by (auto simp: nth_chk_Some)
  next
    case False
    then have "affinity_scan d core k [i..<numMgrs d] = Some r"
      using q r(1) i cl unfolding up by (auto simp: nth_chk_Some)
    moreover have "\<not> supports (managers d ! i) k" if "getCore (the (calls (managers d ! i))) = core"
      using False that q(2) by auto
    moreover have "i \<le> m \<longleftrightarrow> m = i \<or> Suc i \<le> m" for m by auto
    ultimately show ?thesis using r(2) by (auto split: option.splits)
  qed
qed auto

lemma affinity_scan_spec:
  assumes "dvp_wf d"
  obtains "affinity_scan d core k [0..<numMgrs d] = Some None"
      "\<And>m. m < numMgrs d \<Longrightarrow> getCore (the (calls (managers d ! m))) = core \<Longrightarrow> \<not> supports (managers d ! m) k"
  | m f where "affinity_scan d core k [0..<numMgrs d] = Some (Some (m, f))" "m < numMgrs d"
      "getCore (the (calls (managers d ! m))) = core" "implements (managers d ! m) k f"
  using affinity_scan_range[OF assms, of core k 0] by (fastforce split: option.splits)

section \<open>The priority loop\<close>

text \<open>A manager the loop can choose.\<close>

abbreviation prio_of :: "DVP_t \<Rightarrow> nat \<Rightarrow> u32" where
  "prio_of d m \<equiv> priority (managers d ! m)"

definition eligible :: "DVP_t \<Rightarrow> nat \<Rightarrow> bool" where
  "eligible d m \<longleftrightarrow> m < numMgrs d \<and> enabled (managers d ! m) \<and> 0 < prio_of d m \<and>
     prio_of d m \<noteq> DVP_PRIORITY_MAX"

definition distinct_priorities :: "DVP_t \<Rightarrow> bool" where
  "distinct_priorities d \<longleftrightarrow> (\<forall>m k. eligible d m \<and> eligible d k \<and> prio_of d m = prio_of d k \<longrightarrow> m = k)"

declare priority_loop.simps [simp del]

lemma priority_loop_sound:
  assumes wf: "dvp_wf d"
  shows "\<exists>r. priority_loop d k tried p = Some r \<and>
    (case r of None \<Rightarrow> True | Some (m, f) \<Rightarrow> eligible d m \<and> implements (managers d ! m) k f)"
proof (induction "numMgrs d - tried" arbitrary: tried p rule: less_induct)
  case less
  obtain q idx where n: "DVP_GetNextManagerIndex d p = (q, idx)" by fastforce
  let ?retry = "if Suc tried < numMgrs d then priority_loop d k (Suc tried) q else Some None"
  have retry: "\<exists>r. ?retry = Some r \<and>
    (case r of None \<Rightarrow> True | Some (m, f) \<Rightarrow> eligible d m \<and> implements (managers d ! m) k f)"
    using less[of "Suc tried" q] by auto
  show ?case
  proof (cases idx)
    case None
    then show ?thesis using retry n by (simp add: priority_loop.simps[of d k tried p])
  next
    case (Some m)
    note nx = GetNextManagerIndex_Some[OF n[unfolded Some]]
    have el: "eligible d m" using nx by (auto simp: eligible_def intro: le_less_trans[of 0 p])
    obtain r where r: "DVP_GetManagerKernelIndex (managers d ! m) k = Some r"
      "case r of None \<Rightarrow> \<not> supports (managers d ! m) k | Some f \<Rightarrow> implements (managers d ! m) k f"
      by (rule GetManagerKernelIndex_spec[OF dvp_wf_nth[OF wf nx(1)]])
    show ?thesis
      using retry n Some r el nx(1)
      by (cases r) (simp_all add: priority_loop.simps[of d k tried p] nth_chk_Some)
  qed
qed

text \<open>The managers of priority up to \<open>p\<close>: the loop has tried all of them before it goes beyond.\<close>

definition tried_set :: "DVP_t \<Rightarrow> u32 \<Rightarrow> nat set" where
  "tried_set d p = {m. eligible d m \<and> prio_of d m \<le> p}"

lemma tried_set_finite [simp]: "finite (tried_set d p)"
  by (rule finite_subset[of _ "{..<numMgrs d}"]) (auto simp: tried_set_def eligible_def)

lemma tried_set_card:
  assumes "eligible d b" "p < prio_of d b"
  shows "card (tried_set d p) < numMgrs d"
proof -
  have "tried_set d p \<subseteq> {..<numMgrs d} - {b}" "b < numMgrs d"
    using assms by (auto simp: tried_set_def eligible_def)
  moreover from this have "card (tried_set d p) \<le> card ({..<numMgrs d} - {b})"
    by (intro card_mono) auto
  ultimately show ?thesis by (simp add: card_Diff_singleton)
qed

lemma tried_set_next:
  assumes "eligible d m" "p < prio_of d m"
  shows "card (tried_set d p) < card (tried_set d (prio_of d m))"
proof (rule psubset_card_mono)
  show "tried_set d p \<subset> tried_set d (prio_of d m)"
  proof
    show "tried_set d p \<subseteq> tried_set d (prio_of d m)"
      using assms by (auto simp: tried_set_def)
    have "m \<in> tried_set d (prio_of d m)" "m \<notin> tried_set d p"
      using assms by (simp_all add: tried_set_def)
    then show "tried_set d p \<noteq> tried_set d (prio_of d m)" by blast
  qed
qed simp

lemma priority_loop_best:
  assumes wf: "dvp_wf d" and dist: "distinct_priorities d"
    and b: "eligible d b" "supports (managers d ! b) k"
    and best: "\<And>m. eligible d m \<Longrightarrow> supports (managers d ! m) k \<Longrightarrow> prio_of d b \<le> prio_of d m"
    and p: "p < prio_of d b" and tried: "tried \<le> card (tried_set d p)"
  shows "\<exists>f. priority_loop d k tried p = Some (Some (b, f)) \<and> implements (managers d ! b) k f"
  using p tried
proof (induction "numMgrs d - tried" arbitrary: tried p rule: less_induct)
  case less
  obtain q idx where n: "DVP_GetNextManagerIndex d p = (q, idx)" by fastforce
  have b': "b < numMgrs d" "enabled (managers d ! b)" "prio_of d b \<noteq> DVP_PRIORITY_MAX"
    using b(1) by (auto simp: eligible_def)
  have "idx \<noteq> None"
  proof
    assume "idx = None"
    with GetNextManagerIndex_None(2)[of d p q b] n b' less.prems(1) show False by simp
  qed
  then obtain m where m: "idx = Some m" by blast
  note nx = GetNextManagerIndex_Some[OF n[unfolded m]]
  have el: "eligible d m" using nx by (auto simp: eligible_def intro: le_less_trans[of 0 p])
  have le: "q \<le> prio_of d b" by (rule nx(6)[OF b'(1,2) less.prems(1)])
  obtain r where r: "DVP_GetManagerKernelIndex (managers d ! m) k = Some r"
    "case r of None \<Rightarrow> \<not> supports (managers d ! m) k | Some f \<Rightarrow> implements (managers d ! m) k f"
    by (rule GetManagerKernelIndex_spec[OF dvp_wf_nth[OF wf nx(1)]])
  show ?case
  proof (cases r)
    case (Some f)
    then have "prio_of d b \<le> q" using best[OF el] r(2) nx(3) by (auto dest: implements_supports)
    then have "m = b" using le nx(3) el b(1) dist unfolding distinct_priorities_def by force
    then show ?thesis
      using n m r Some nx(1) by (simp add: priority_loop.simps[of d k tried p] nth_chk_Some)
  next
    case None
    then have "m \<noteq> b" using r b(2) by auto
    then have lt: "q < prio_of d b"
      using le el b(1) dist nx(3) unfolding distinct_priorities_def by force
    have cards: "Suc tried \<le> card (tried_set d q)"
      using tried_set_next[OF el, of p] nx(3,4) less.prems(2) by simp
    then have "Suc tried < numMgrs d" using tried_set_card[OF b(1) lt] by simp
    moreover from this have "\<exists>f. priority_loop d k (Suc tried) q = Some (Some (b, f)) \<and> implements (managers d ! b) k f"
      by (intro less.hyps lt cards) simp
    ultimately show ?thesis
      using n m r None nx(1) by (simp add: priority_loop.simps[of d k tried p] nth_chk_Some)
  qed
qed

lemma priority_loop_complete:
  assumes wf: "dvp_wf d" and dist: "distinct_priorities d"
    and ex: "eligible d a" "supports (managers d ! a) k"
  obtains m f where "priority_loop d k 0 0 = Some (Some (m, f))" "eligible d m"
    "implements (managers d ! m) k f"
    "\<And>x. eligible d x \<Longrightarrow> supports (managers d ! x) k \<Longrightarrow> prio_of d m \<le> prio_of d x"
proof -
  let ?C = "{m. eligible d m \<and> supports (managers d ! m) k}"
  have fin: "finite ?C"
    by (rule finite_subset[of _ "{..<numMgrs d}"]) (auto simp: eligible_def)
  obtain b where b: "b \<in> ?C" "\<And>x. x \<in> ?C \<Longrightarrow> prio_of d b \<le> prio_of d x"
  proof (rule that[of "arg_min_on (prio_of d) ?C"])
    have "?C \<noteq> {}" using ex by blast
    then show "arg_min_on (prio_of d) ?C \<in> ?C" by (rule arg_min_if_finite(1)[OF fin])
    show "prio_of d (arg_min_on (prio_of d) ?C) \<le> prio_of d x" if "x \<in> ?C" for x
      by (rule arg_min_least[OF fin \<open>?C \<noteq> {}\<close> that])
  qed
  then have "0 < prio_of d b" by (simp add: eligible_def)
  then obtain f where "priority_loop d k 0 0 = Some (Some (b, f))" "implements (managers d ! b) k f"
    using priority_loop_best[OF wf dist, of b k 0 0] b by auto
  then show ?thesis using that b by auto
qed

section \<open>Configuring one node\<close>

text \<open>A node that is ready to run names an enabled manager and the index of its kernel there.\<close>

definition node_ready :: "DVP_t \<Rightarrow> DVP_KernelNode_t \<Rightarrow> bool" where
  "node_ready d node \<longleftrightarrow> configured node \<and> mgrIndex node < numMgrs d \<and>
     implements (managers d ! mgrIndex node) (kernel node) (funcIndex node)"

definition node_ok :: "DVP_t \<Rightarrow> DVP_KernelNode_t \<Rightarrow> bool" where
  "node_ok d node \<longleftrightarrow> (configured node \<longrightarrow> node_ready d node)"

text \<open>What a placed node adds to the load of core \<open>c\<close>.\<close>

definition placed_load :: "DVP_t \<Rightarrow> DVP_KernelNode_t \<Rightarrow> nat \<Rightarrow> s32" where
  "placed_load d node c =
     (if getCore (the (calls (managers d ! mgrIndex node))) = int c
      then cf_load (the (kernels (managers d ! mgrIndex node)) ! funcIndex node) else 0)"

lemma place_node_spec:
  assumes wf: "dvp_wf d" and m: "m < numMgrs d" and imp: "implements (managers d ! m) (kernel node) f"
    and node': "node' = node\<lparr>mgrIndex := m, funcIndex := f, configured := True\<rparr>"
  shows "place_node d s n node m f =
    Some (s\<lparr>coreLoad := \<lambda>c. coreLoad s c + placed_load d node' c, pNodes := (pNodes s)[n := node']\<rparr>)"
    and "node_ready d node'"
proof -
  let ?mgr = "managers d ! m"
  obtain ks where ks: "kernels ?mgr = Some ks" "f < length ks"
    using imp by (auto simp: implements_def split: option.splits)
  have core: "0 \<le> getCore (the (calls ?mgr))" "getCore (the (calls ?mgr)) < int DVP_CORE_MAX"
    using dvp_wf_nth[OF wf m] by (auto simp: mgr_wf_def)
  have "(coreLoad s)(nat (getCore (the (calls ?mgr))) := coreLoad s (nat (getCore (the (calls ?mgr)))) + cf_load (ks ! f)) =
      (\<lambda>c. coreLoad s c + placed_load d node' c)"
    using ks core unfolding node' by (auto simp: placed_load_def fun_eq_iff)
  then show "place_node d s n node m f =
    Some (s\<lparr>coreLoad := \<lambda>c. coreLoad s c + placed_load d node' c, pNodes := (pNodes s)[n := node']\<rparr>)"
    using m ks core dvp_wf_calls[OF wf m] unfolding node' by (auto simp: place_node_def nth_chk_Some)
  show "node_ready d node'" using m imp unfolding node' by (simp add: node_ready_def)
qed

text \<open>
  The node keeps its configuration, or is placed on a manager that implements its kernel - one on
  the core it has an affinity for if there is such a manager - or is a fault.
\<close>

lemma configure_node_cases:
  assumes wf: "dvp_wf d" and n: "n < length (pNodes s)"
  obtains (kept) "configured (pNodes s ! n)" "\<not> force" "configure_node d force s n = Some (False, s)"
  | (placed) node' where "configure_node d force s n = Some (False,
        s\<lparr>coreLoad := \<lambda>c. coreLoad s c + placed_load d node' c, pNodes := (pNodes s)[n := node']\<rparr>)"
      "node_ready d node'" "kernel node' = kernel (pNodes s ! n)"
      "affinity node' = affinity (pNodes s ! n) \<and> affinity node' = getCore (the (calls (managers d ! mgrIndex node'))) \<or>
       affinity node' = DVP_CORE_MIN \<and> priority_loop d (kernel node') 0 0 = Some (Some (mgrIndex node', funcIndex node')) \<and>
         (affinity (pNodes s ! n) = DVP_CORE_MIN \<or>
          (\<forall>m < numMgrs d. getCore (the (calls (managers d ! m))) = affinity (pNodes s ! n) \<longrightarrow>
              \<not> supports (managers d ! m) (kernel node')))"
  | (fault) node' where "configure_node d force s n = Some (True, s\<lparr>pNodes := (pNodes s)[n := node']\<rparr>)"
      "kernel node' = kernel (pNodes s ! n)" "configured node' = configured (pNodes s ! n)"
      "mgrIndex node' = mgrIndex (pNodes s ! n)" "funcIndex node' = funcIndex (pNodes s ! n)"
      "n_error node' = DVP_ERROR_NOT_IMPLEMENTED" "priority_loop d (kernel node') 0 0 = Some None"
proof (cases "\<not> configured (pNodes s ! n) \<or> force")
  case False
  then show ?thesis using n by (intro kept) (simp_all add: configure_node_def nth_chk_Some)
next
  case True
  let ?node = "pNodes s ! n"
  let ?node' = "?node\<lparr>affinity := DVP_CORE_MIN\<rparr>"
  obtain q where q: "priority_loop d (kernel ?node) 0 0 = Some q"
    "case q of None \<Rightarrow> True | Some (m, f) \<Rightarrow> eligible d m \<and> implements (managers d ! m) (kernel ?node) f"
    using priority_loop_sound[OF wf, of "kernel ?node" 0 0] by blast
  let ?found = "if affinity ?node \<noteq> DVP_CORE_MIN
        then affinity_scan d (affinity ?node) (kernel ?node) [0..<numMgrs d] else Some None"
  consider (there) m f where "?found = Some (Some (m, f))" "m < numMgrs d"
      "getCore (the (calls (managers d ! m))) = affinity ?node" "implements (managers d ! m) (kernel ?node) f"
    | (nowhere) "?found = Some None" "affinity ?node = DVP_CORE_MIN \<or>
          (\<forall>m < numMgrs d. getCore (the (calls (managers d ! m))) = affinity ?node \<longrightarrow>
              \<not> supports (managers d ! m) (kernel ?node))"
    by (cases "affinity ?node = DVP_CORE_MIN";
        rule affinity_scan_spec[OF wf, of "affinity ?node" "kernel ?node"]) simp_all
  then show ?thesis
  proof cases
    case (there m f)
    note place = place_node_spec[OF wf there(2,4) refl]
    have "configure_node d force s n = map_option (Pair False) (place_node d s n ?node m f)"
      using there(1) n True
      by (cases "place_node d s n ?node m f") (simp_all add: configure_node_def nth_chk_Some)
    then show ?thesis
      using place there(3) by (intro placed[of "?node\<lparr>mgrIndex := m, funcIndex := f, configured := True\<rparr>"]) simp_all
  next
    case nowhere
    show ?thesis
    proof (cases q)
      case None
      then show ?thesis
        using n q nowhere(1) True
        by (intro fault[of "?node'\<lparr>n_error := DVP_ERROR_NOT_IMPLEMENTED\<rparr>"])
           (simp_all add: configure_node_def nth_chk_Some)
    next
      case (Some mf)
      then obtain m f where mf: "q = Some (m, f)" by (cases mf) auto
      then have imp: "m < numMgrs d" "implements (managers d ! m) (kernel ?node') f"
        using q by (auto simp: eligible_def)
      note place = place_node_spec[OF wf imp refl]
      have "configure_node d force s n = map_option (Pair False) (place_node d s n ?node' m f)"
        using nowhere(1) q(1) n True unfolding mf
        by (cases "place_node d s n ?node' m f") (simp_all add: configure_node_def nth_chk_Some)
      then show ?thesis
        using place q(1) nowhere(2) unfolding mf
        by (intro placed[of "?node'\<lparr>mgrIndex := m, funcIndex := f, configured := True\<rparr>"]) simp_all
    qed
  qed
qed

section \<open>Configuring a section\<close>

text \<open>The invariant of a section: the array holds its nodes, and configured nodes are ready.\<close>

definition section_ok :: "DVP_t \<Rightarrow> DVP_KernelGraphSection_t \<Rightarrow> bool" where
  "section_ok d s \<longleftrightarrow> numNodes s \<le> length (pNodes s) \<and> (\<forall>n < length (pNodes s). node_ok d (pNodes s ! n))"

definition section_ready :: "DVP_t \<Rightarrow> DVP_KernelGraphSection_t \<Rightarrow> bool" where
  "section_ready d s \<longleftrightarrow> numNodes s \<le> length (pNodes s) \<and> (\<forall>n < numNodes s. node_ready d (pNodes s ! n))"

text \<open>The parts of the state a configuration never touches.\<close>

definition same_shape :: "DVP_KernelGraphSection_t \<Rightarrow> DVP_KernelGraphSection_t \<Rightarrow> bool" where
  "same_shape s s' \<longleftrightarrow> numNodes s' = numNodes s \<and> sec_perf s' = sec_perf s \<and> skipSection s' = skipSection s \<and>
     map kernel (pNodes s') = map kernel (pNodes s)"

lemma same_shape_refl [simp]: "same_shape s s"
  by (simp add: same_shape_def)

lemma same_shape_trans: "same_shape s s' \<Longrightarrow> same_shape s' s'' \<Longrightarrow> same_shape s s''"
  by (simp add: same_shape_def)

lemma same_shape_length: "same_shape s s' \<Longrightarrow> length (pNodes s') = length (pNodes s)"
  unfolding same_shape_def by (metis length_map)

lemma same_shape_kernel:
  "same_shape s s' \<Longrightarrow> n < length (pNodes s) \<Longrightarrow> kernel (pNodes s' ! n) = kernel (pNodes s ! n)"
  unfolding same_shape_def by (metis length_map nth_map)

lemma same_shape_upd:
  assumes "kernel node' = kernel (pNodes s ! n)" "pNodes s' = (pNodes s)[n := node']"
    "numNodes s' = numNodes s" "sec_perf s' = sec_perf s" "skipSection s' = skipSection s"
  shows "same_shape s s'"
proof -
  have "map kernel ((pNodes s)[n := node']) = map kernel (pNodes s)"
    using assms(1) by (cases "n < length (pNodes s)") (simp_all add: map_update list_update_same_conv list_update_beyond)
  then show ?thesis using assms by (simp add: same_shape_def)
qed

text \<open>One step: shape and invariant are kept, configured nodes stay configured, other nodes are not touched.\<close>

lemma configure_node_step:
  assumes wf: "dvp_wf d" and n: "n < length (pNodes s)"
    and ok: "\<forall>i < length (pNodes s). node_ok d (pNodes s ! i)"
  obtains fault s' where "configure_node d force s n = Some (fault, s')" "same_shape s s'"
    "\<forall>i < length (pNodes s). node_ok d (pNodes s' ! i)"
    "\<forall>i < length (pNodes s). configured (pNodes s ! i) \<longrightarrow> configured (pNodes s' ! i)"
    "\<forall>i. i \<noteq> n \<longrightarrow> pNodes s' ! i = pNodes s ! i"
    "\<not> fault \<longrightarrow> configured (pNodes s' ! n)"
    "fault \<longrightarrow> priority_loop d (kernel (pNodes s ! n)) 0 0 = Some None"
    "force \<and> \<not> fault \<longrightarrow> (\<forall>c. coreLoad s' c = coreLoad s c + placed_load d (pNodes s' ! n) c)"
proof (cases rule: configure_node_cases[OF wf n, of force, case_names kept placed fault])
  case kept
  then show ?thesis using ok by (intro that[of False s]) simp_all
next
  case (placed node')
  have "node_ok d node'" "configured node'" using placed(2) by (auto simp: node_ok_def node_ready_def)
  then show ?thesis
    using placed n ok
    by (intro that[OF placed(1)] same_shape_upd[OF placed(3)]) (auto simp: nth_list_update)
next
  case (fault node')
  have "node_ok d node'" using ok n fault by (auto simp: node_ok_def node_ready_def)
  then show ?thesis
    using fault n ok
    by (intro that[OF fault(1)] same_shape_upd[OF fault(2)]) (auto simp: nth_list_update)
qed

lemma configure_loop_spec:
  assumes wf: "dvp_wf d" and "\<forall>n\<in>set ns. n < length (pNodes s)"
    and "\<forall>i < length (pNodes s). node_ok d (pNodes s ! i)"
  shows "\<exists>f s'. configure_loop d force s ns = Some (f, s') \<and> same_shape s s' \<and>
    (\<forall>i < length (pNodes s). node_ok d (pNodes s' ! i)) \<and>
    (\<forall>i < length (pNodes s). configured (pNodes s ! i) \<longrightarrow> configured (pNodes s' ! i)) \<and>
    (\<forall>i. i \<notin> set ns \<longrightarrow> pNodes s' ! i = pNodes s ! i) \<and>
    (f = 0 \<longrightarrow> (\<forall>n\<in>set ns. configured (pNodes s' ! n))) \<and>
    (f \<noteq> 0 \<longrightarrow> (\<exists>n\<in>set ns. priority_loop d (kernel (pNodes s ! n)) 0 0 = Some None)) \<and>
    (force \<and> f = 0 \<and> distinct ns \<longrightarrow>
       (\<forall>c. coreLoad s' c = coreLoad s c + sum_list (map (\<lambda>n. placed_load d (pNodes s' ! n) c) ns)))"
  using assms(2,3)
proof (induction ns arbitrary: s)
  case (Cons n ns)
  have n: "n < length (pNodes s)" using Cons.prems by simp
  obtain fault s1 where one: "configure_node d force s n = Some (fault, s1)" "same_shape s s1"
    "\<forall>i < length (pNodes s). node_ok d (pNodes s1 ! i)"
    "\<forall>i < length (pNodes s). configured (pNodes s ! i) \<longrightarrow> configured (pNodes s1 ! i)"
    "\<forall>i. i \<noteq> n \<longrightarrow> pNodes s1 ! i = pNodes s ! i"
    "\<not> fault \<longrightarrow> configured (pNodes s1 ! n)"
    "fault \<longrightarrow> priority_loop d (kernel (pNodes s ! n)) 0 0 = Some None"
    "force \<and> \<not> fault \<longrightarrow> (\<forall>c. coreLoad s1 c = coreLoad s c + placed_load d (pNodes s1 ! n) c)"
    by (rule configure_node_step[OF wf n Cons.prems(2), of force])
  show ?case
  proof (cases fault)
    case True
    then show ?thesis using one by simp
  next
    case False
    have len: "length (pNodes s1) = length (pNodes s)" using same_shape_length[OF one(2)] .
    obtain f s' where rest: "configure_loop d force s1 ns = Some (f, s')" "same_shape s1 s'"
      "\<forall>i < length (pNodes s). node_ok d (pNodes s' ! i)"
      "\<forall>i < length (pNodes s). configured (pNodes s1 ! i) \<longrightarrow> configured (pNodes s' ! i)"
      "\<forall>i. i \<notin> set ns \<longrightarrow> pNodes s' ! i = pNodes s1 ! i"
      "f = 0 \<longrightarrow> (\<forall>n\<in>set ns. configured (pNodes s' ! n))"
      "f \<noteq> 0 \<longrightarrow> (\<exists>n\<in>set ns. priority_loop d (kernel (pNodes s1 ! n)) 0 0 = Some None)"
      "force \<and> f = 0 \<and> distinct ns \<longrightarrow>
         (\<forall>c. coreLoad s' c = coreLoad s1 c + sum_list (map (\<lambda>n. placed_load d (pNodes s' ! n) c) ns))"
      using Cons.IH[of s1] Cons.prems one len by auto
    have shape: "same_shape s s'" by (rule same_shape_trans[OF one(2) rest(2)])
    have kern: "kernel (pNodes s1 ! i) = kernel (pNodes s ! i)" if "i \<in> set ns" for i
      using same_shape_kernel[OF one(2)] Cons.prems(1) that by simp
    have conf: "configured (pNodes s' ! n)" using rest(4) one(6) False n by simp
    have loads: "coreLoad s' c = coreLoad s c + sum_list (map (\<lambda>n. placed_load d (pNodes s' ! n) c) (n # ns))"
      if "force \<and> f = 0 \<and> distinct (n # ns)" for c
      using rest(5,8) one(8) that False by (simp add: algebra_simps)
    have "configure_loop d force s (n # ns) = Some (f, s')" using one(1) rest(1) False by simp
    then show ?thesis
      using shape rest one conf loads kern by (intro exI[of _ f] exI[of _ s']) auto
  qed
qed simp

lemma ConfigureNodes_spec:
  assumes wf: "dvp_wf d" and ok: "section_ok d s"
  obtains f s' where "DVP_ConfigureNodes (Some d) (Some s) force = Some (f, Some s')" "same_shape s s'"
    "section_ok d s'" "f = 0 \<Longrightarrow> section_ready d s'"
    "f \<noteq> 0 \<Longrightarrow> \<exists>n < numNodes s. priority_loop d (kernel (pNodes s ! n)) 0 0 = Some None"
    "force \<Longrightarrow> f = 0 \<Longrightarrow>
       \<forall>c. coreLoad s' c = coreLoad s c + (\<Sum>n\<leftarrow>[0..<numNodes s]. placed_load d (pNodes s' ! n) c)"
proof -
  have pre: "\<forall>n\<in>set [0..<numNodes s]. n < length (pNodes s)"
    "\<forall>i < length (pNodes s). node_ok d (pNodes s ! i)"
    using ok by (auto simp: section_ok_def)
  obtain f s' where loop: "configure_loop d force s [0..<numNodes s] = Some (f, s')" "same_shape s s'"
    "\<forall>i < length (pNodes s). node_ok d (pNodes s' ! i)"
    "f = 0 \<longrightarrow> (\<forall>n\<in>set [0..<numNodes s]. configured (pNodes s' ! n))"
    "f \<noteq> 0 \<longrightarrow> (\<exists>n\<in>set [0..<numNodes s]. priority_loop d (kernel (pNodes s ! n)) 0 0 = Some None)"
    "force \<and> f = 0 \<and> distinct [0..<numNodes s] \<longrightarrow>
       (\<forall>c. coreLoad s' c = coreLoad s c + (\<Sum>n\<leftarrow>[0..<numNodes s]. placed_load d (pNodes s' ! n) c))"
    using configure_loop_spec[OF wf pre, of force] by blast
  have len: "length (pNodes s') = length (pNodes s)" "numNodes s' = numNodes s"
    using same_shape_length[OF loop(2)] loop(2) by (auto simp: same_shape_def)
  show ?thesis
  proof (rule that[of f s'])
    show "DVP_ConfigureNodes (Some d) (Some s) force = Some (f, Some s')"
      using loop(1) by (simp add: DVP_ConfigureNodes_def)
    show "section_ok d s'" using ok loop(3) len by (simp add: section_ok_def)
    show "section_ready d s'" if "f = 0"
      using ok loop(3,4) len that by (auto simp: section_ok_def section_ready_def node_ok_def)
  qed (use loop in auto)
qed

section \<open>Properties\<close>

text \<open>
  Concrete managers for the witnesses: one entry in the kernel table, a verifier and a runner that
  do all they are given.
\<close>

definition ex_mgr :: "int \<Rightarrow> u32 \<Rightarrow> int \<Rightarrow> DVP_GraphManager_t" where
  "ex_mgr core prio k =
     \<lparr>enabled = True, m_handle = True,
      calls = Some \<lparr>manager = (\<lambda>nodes n num sync. (num, nodes)), verify = (\<lambda>nodes n num. (num, nodes)),
               getCore = core, getLoad = 100\<rparr>,
      kernels = Some [\<lparr>cf_kernel = k, cf_load = 10, cf_shift = None, cf_shift_func = None\<rparr>],
      numSupportedKernels = 1, priority = prio\<rparr>"

definition ex_node :: "int \<Rightarrow> int \<Rightarrow> DVP_KernelNode_t" where
  "ex_node k aff = \<lparr>kernel = k, affinity = aff, n_error = 0, configured = False, mgrIndex = 0,
                    funcIndex = 0, n_perf = ex_perf, n_data = []\<rparr>"

definition ex_dvp :: DVP_t where
  "ex_dvp = \<lparr>managers = [ex_mgr 6 0xFFFFFFFE 5, ex_mgr 0 2 5, ex_mgr 1 1 7], loads = Some ex_table\<rparr>"

definition ex_section :: DVP_KernelGraphSection_t where
  "ex_section = \<lparr>pNodes = [ex_node 5 6, ex_node 5 (-1), ex_node 7 (-1)], numNodes = 3, sec_perf = ex_perf,
                 coreLoad = (\<lambda>_. 0), skipSection = False\<rparr>"

lemma ex_dvp_wf: "dvp_wf ex_dvp"
  by (simp add: dvp_wf_def ex_dvp_def ex_mgr_def mgr_wf_def)

lemma ex_section_ok: "section_ok ex_dvp ex_section"
  by (auto simp: section_ok_def ex_section_def ex_node_def node_ok_def less_Suc_eq)

lemma ex_eligible: "eligible ex_dvp m \<longleftrightarrow> m < 3"
  by (auto simp: eligible_def ex_dvp_def ex_mgr_def less_Suc_eq numeral_3_eq_3)

lemma ex_supports:
  "supports (managers ex_dvp ! 0) 5" "supports (managers ex_dvp ! 1) 5" "supports (managers ex_dvp ! 2) 7"
  by (simp_all add: supports_def implements_def ex_dvp_def ex_mgr_def)

lemma ex_distinct: "distinct_priorities ex_dvp"
  unfolding distinct_priorities_def ex_eligible
  by (auto simp: ex_dvp_def ex_mgr_def less_Suc_eq numeral_3_eq_3)

text \<open>
  C1. With well-formed managers and a section whose configured nodes are sound, \<open>DVP_ConfigureNodes\<close>
  always returns, keeps that invariant, and when it reports no fault every node of the section is
  configured, its manager index is one of an enabled manager, and its function index is the entry of
  that manager's table for the node's kernel.
\<close>

theorem configure_nodes_sound:
  assumes "dvp_wf d" "section_ok d s"
  shows "\<exists>f s'. DVP_ConfigureNodes (Some d) (Some s) force = Some (f, Some s') \<and> section_ok d s' \<and>
    (f = 0 \<longrightarrow> (\<forall>n < numNodes s. configured (pNodes s' ! n) \<and> mgrIndex (pNodes s' ! n) < numMgrs d \<and>
       implements (managers d ! mgrIndex (pNodes s' ! n)) (kernel (pNodes s ! n)) (funcIndex (pNodes s' ! n))))"
proof -
  obtain f s' where c: "DVP_ConfigureNodes (Some d) (Some s) force = Some (f, Some s')" "same_shape s s'"
    "section_ok d s'" "f = 0 \<Longrightarrow> section_ready d s'"
    using ConfigureNodes_spec[OF assms, of force] by metis
  have "kernel (pNodes s' ! n) = kernel (pNodes s ! n)" if "n < numNodes s" for n
    using same_shape_kernel[OF c(2)] assms(2) that by (simp add: section_ok_def)
  then have "f = 0 \<longrightarrow> (\<forall>n < numNodes s. configured (pNodes s' ! n) \<and> mgrIndex (pNodes s' ! n) < numMgrs d \<and>
       implements (managers d ! mgrIndex (pNodes s' ! n)) (kernel (pNodes s ! n)) (funcIndex (pNodes s' ! n)))"
    using c(2,4) by (auto simp: section_ready_def node_ready_def same_shape_def)
  then show ?thesis using c by blast
qed

theorem configure_nodes_sound_witness:
  "\<exists>f s'. DVP_ConfigureNodes (Some ex_dvp) (Some ex_section) False = Some (f, Some s') \<and> section_ok ex_dvp s' \<and>
    (f = 0 \<longrightarrow> (\<forall>n < numNodes ex_section. configured (pNodes s' ! n) \<and> mgrIndex (pNodes s' ! n) < numMgrs ex_dvp \<and>
       implements (managers ex_dvp ! mgrIndex (pNodes s' ! n)) (kernel (pNodes ex_section ! n)) (funcIndex (pNodes s' ! n))))"
  by (rule configure_nodes_sound[OF ex_dvp_wf ex_section_ok])

text \<open>
  C31. If the usable managers have different priorities and every kernel of the section is in the table
  of one of them, the configuration reports no fault: the loop over priorities never gives up before
  it has reached a manager that implements the kernel.
\<close>

theorem configure_nodes_complete:
  assumes wf: "dvp_wf d" and ok: "section_ok d s" and dist: "distinct_priorities d"
    and sup: "\<forall>n < numNodes s. \<exists>m. eligible d m \<and> supports (managers d ! m) (kernel (pNodes s ! n))"
  shows "\<exists>s'. DVP_ConfigureNodes (Some d) (Some s) force = Some (0, Some s') \<and> section_ready d s'"
proof -
  obtain f s' where c: "DVP_ConfigureNodes (Some d) (Some s) force = Some (f, Some s')"
    "f = 0 \<Longrightarrow> section_ready d s'"
    "f \<noteq> 0 \<Longrightarrow> \<exists>n < numNodes s. priority_loop d (kernel (pNodes s ! n)) 0 0 = Some None"
    using ConfigureNodes_spec[OF wf ok, of force] by metis
  have "f = 0"
  proof (rule ccontr)
    assume "f \<noteq> 0"
    then obtain n where n: "n < numNodes s" "priority_loop d (kernel (pNodes s ! n)) 0 0 = Some None"
      using c(3) by blast
    then obtain a where "eligible d a" "supports (managers d ! a) (kernel (pNodes s ! n))"
      using sup by blast
    from priority_loop_complete[OF wf dist this] n(2) show False by fastforce
  qed
  then show ?thesis using c by blast
qed

theorem configure_nodes_complete_witness:
  "\<exists>s'. DVP_ConfigureNodes (Some ex_dvp) (Some ex_section) True = Some (0, Some s') \<and> section_ready ex_dvp s'"
proof -
  have "\<exists>m. eligible ex_dvp m \<and> supports (managers ex_dvp ! m) (kernel (pNodes ex_section ! n))"
    if "n < numNodes ex_section" for n
  proof -
    have "n = 0 \<or> n = 1 \<or> n = 2" using that by (auto simp: ex_section_def)
    then have "kernel (pNodes ex_section ! n) = 5 \<or> kernel (pNodes ex_section ! n) = 7"
      by (auto simp: ex_section_def ex_node_def)
    then show ?thesis using ex_supports(1,3) ex_eligible[of 0] ex_eligible[of 2] by fastforce
  qed
  then show ?thesis by (intro configure_nodes_complete ex_dvp_wf ex_section_ok ex_distinct) blast
qed

text \<open>
  C32. A node that asks for a core gets a manager of that core whenever one implements its kernel; if
  none does, the request is dropped and the node goes, as a node without a request does, to the
  manager of the highest priority (the smallest number) among those that implement its kernel.
\<close>

theorem configure_node_placement:
  assumes wf: "dvp_wf d" and dist: "distinct_priorities d" and n: "n < length (pNodes s)"
    and reconf: "\<not> configured (pNodes s ! n) \<or> force"
    and sup: "eligible d a" "supports (managers d ! a) (kernel (pNodes s ! n))"
  shows "\<exists>s' m. configure_node d force s n = Some (False, s') \<and> mgrIndex (pNodes s' ! n) = m \<and> m < numMgrs d \<and>
    supports (managers d ! m) (kernel (pNodes s ! n)) \<and>
    (if affinity (pNodes s ! n) \<noteq> DVP_CORE_MIN \<and>
        (\<exists>x < numMgrs d. getCore (the (calls (managers d ! x))) = affinity (pNodes s ! n) \<and>
                        supports (managers d ! x) (kernel (pNodes s ! n)))
     then getCore (the (calls (managers d ! m))) = affinity (pNodes s ! n)
     else affinity (pNodes s' ! n) = DVP_CORE_MIN \<and>
          (\<forall>x. eligible d x \<and> supports (managers d ! x) (kernel (pNodes s ! n)) \<longrightarrow>
               priority (managers d ! m) \<le> priority (managers d ! x)))"
proof -
  let ?node = "pNodes s ! n"
  obtain b f where b: "priority_loop d (kernel ?node) 0 0 = Some (Some (b, f))"
    "\<And>x. eligible d x \<Longrightarrow> supports (managers d ! x) (kernel ?node) \<Longrightarrow> prio_of d b \<le> prio_of d x"
    by (rule priority_loop_complete[OF wf dist sup]) blast
  show ?thesis
  proof (cases rule: configure_node_cases[OF wf n, of force, case_names kept placed fault])
    case kept
    then show ?thesis using reconf by simp
  next
    case (fault node')
    then show ?thesis using b(1) by simp
  next
    case (placed node')
    let ?m = "mgrIndex node'"
    have m: "?m < numMgrs d" "supports (managers d ! ?m) (kernel ?node)"
      using placed(2,3) by (auto simp: node_ready_def dest: implements_supports)
    have "0 \<le> getCore (the (calls (managers d ! ?m)))" using dvp_wf_nth[OF wf m(1)] by (simp add: mgr_wf_def)
    then have "if affinity ?node \<noteq> DVP_CORE_MIN \<and>
        (\<exists>x < numMgrs d. getCore (the (calls (managers d ! x))) = affinity ?node \<and> supports (managers d ! x) (kernel ?node))
      then getCore (the (calls (managers d ! ?m))) = affinity ?node
      else affinity node' = DVP_CORE_MIN \<and>
          (\<forall>x. eligible d x \<and> supports (managers d ! x) (kernel ?node) \<longrightarrow> prio_of d ?m \<le> prio_of d x)"
      using placed(3,4) m b by auto
    then show ?thesis
      using placed(1) n m by (intro exI[of _ "?m"] exI) (rule conjI, rule placed(1), simp)
  qed
qed

theorem configure_node_placement_witness:
  "\<exists>s' m. configure_node ex_dvp False ex_section 1 = Some (False, s') \<and> mgrIndex (pNodes s' ! 1) = m \<and>
     (\<forall>x. eligible ex_dvp x \<and> supports (managers ex_dvp ! x) 5 \<longrightarrow>
          priority (managers ex_dvp ! m) \<le> priority (managers ex_dvp ! x))"
proof -
  have node: "kernel (pNodes ex_section ! 1) = 5" "affinity (pNodes ex_section ! 1) = DVP_CORE_MIN"
    "\<not> configured (pNodes ex_section ! 1) \<or> False" "1 < length (pNodes ex_section)"
    by (simp_all add: ex_section_def ex_node_def)
  have "eligible ex_dvp 0" "supports (managers ex_dvp ! 0) (kernel (pNodes ex_section ! 1))"
    using ex_supports(1) node(1) by (simp_all add: ex_eligible)
  from configure_node_placement[OF ex_dvp_wf ex_distinct node(4,3) this] node(1,2)
  show ?thesis by auto
qed

text \<open>
  A forced configuration that reports no fault adds to the section's load on each core exactly the
  loads of the kernels placed there (with the machine's wrap-around); what the section had
  accumulated before stays in the sum.
\<close>

theorem configure_nodes_load:
  assumes wf: "dvp_wf d" and ok: "section_ok d s"
    and conf: "DVP_ConfigureNodes (Some d) (Some s) True = Some (0, Some s')"
  shows "coreLoad s' c = coreLoad s c + (\<Sum>n\<leftarrow>[0..<numNodes s].
    if getCore (the (calls (managers d ! mgrIndex (pNodes s' ! n)))) = int c
    then cf_load (the (kernels (managers d ! mgrIndex (pNodes s' ! n))) ! funcIndex (pNodes s' ! n)) else 0)"
proof -
  obtain f s'' where c: "DVP_ConfigureNodes (Some d) (Some s) True = Some (f, Some s'')"
    "f = 0 \<Longrightarrow> \<forall>c. coreLoad s'' c = coreLoad s c + (\<Sum>n\<leftarrow>[0..<numNodes s]. placed_load d (pNodes s'' ! n) c)"
    using ConfigureNodes_spec[OF wf ok, of True] by metis
  moreover from this have "f = 0" "s'' = s'" using conf by simp_all
  ultimately show ?thesis by (simp add: placed_load_def)
qed

lemma ex_configure:
  obtains s' where "DVP_ConfigureNodes (Some ex_dvp) (Some ex_section) True = Some (0, Some s')"
    "coreLoad s' = (\<lambda>_. 0)(6 := 10, 0 := 10, 1 := 10)"
  by (simp add: DVP_ConfigureNodes_def ex_section_def ex_dvp_def ex_mgr_def ex_node_def configure_node_def
      nth_chk_def place_node_def priority_loop.simps DVP_GetNextManagerIndex_def
      DVP_GetManagerKernelIndex_def upt_rec)

theorem configure_nodes_load_witness:
  "\<exists>s'. DVP_ConfigureNodes (Some ex_dvp) (Some ex_section) True = Some (0, Some s') \<and>
     coreLoad s' 0 = coreLoad ex_section 0 + (\<Sum>n\<leftarrow>[0..<numNodes ex_section].
       if getCore (the (calls (managers ex_dvp ! mgrIndex (pNodes s' ! n)))) = int 0
       then cf_load (the (kernels (managers ex_dvp ! mgrIndex (pNodes s' ! n))) ! funcIndex (pNodes s' ! n)) else 0) \<and>
     coreLoad s' 0 = 10"
proof (rule ex_configure)
  fix s' assume s': "DVP_ConfigureNodes (Some ex_dvp) (Some ex_section) True = Some (0, Some s')"
    "coreLoad s' = (\<lambda>_. 0)(6 := 10, 0 := 10, 1 := 10)"
  from configure_nodes_load[OF ex_dvp_wf ex_section_ok s'(1), of 0] s' show ?thesis by auto
qed

text \<open>
  \<open>DVP_GetNextManagerIndex\<close> returns the smallest priority number above the given one that an enabled
  manager has, with an index of such a manager, and 0 exactly when no enabled manager has a usable
  priority above it.
\<close>

theorem next_manager_correct:
  "case DVP_GetNextManagerIndex d p of
     (q, Some m) \<Rightarrow> m < numMgrs d \<and> enabled (managers d ! m) \<and> priority (managers d ! m) = q \<and> p < q \<and> q < DVP_PRIORITY_MAX \<and>
       (\<forall>k < numMgrs d. enabled (managers d ! k) \<and> p < priority (managers d ! k) \<longrightarrow> q \<le> priority (managers d ! k))
   | (q, None) \<Rightarrow> q = 0 \<and>
       (\<forall>k < numMgrs d. \<not> (enabled (managers d ! k) \<and> p < priority (managers d ! k) \<and> priority (managers d ! k) < DVP_PRIORITY_MAX))"
  (is "case ?r of (q, Some m) \<Rightarrow> ?S q m | (q, None) \<Rightarrow> ?N q")
proof -
  obtain q idx where r: "?r = (q, idx)" by fastforce
  have "?S q m" if "idx = Some m" for m
    using GetNextManagerIndex_Some[of d p q m] r that u32_top[of q] by (auto simp: le_less)
  moreover have "?N q" if "idx = None"
    using GetNextManagerIndex_None[of d p q] r that by auto
  ultimately show ?thesis using r by (cases idx) auto
qed

theorem next_manager_correct_witness:
  "DVP_GetNextManagerIndex ex_dvp 1 = (2, Some 1) \<and> priority (managers ex_dvp ! 1) = 2"
proof -
  have r: "DVP_GetNextManagerIndex ex_dvp 1 = (2, Some 1)"
    by (simp add: DVP_GetNextManagerIndex_def ex_dvp_def ex_mgr_def)
  with next_manager_correct[of ex_dvp 1] show ?thesis by simp
qed

text \<open>
  Managers of equal priority hide each other: with two enabled managers of the priority of user
  supplied ones, a node whose kernel only the first implements is reported as not implemented.
\<close>

definition ex_twins :: DVP_t where
  "ex_twins = \<lparr>managers = [ex_mgr 0 1000 5, ex_mgr 1 1000 7], loads = Some ex_table\<rparr>"

theorem equal_priority_hides:
  "eligible ex_twins 0 \<and> supports (managers ex_twins ! 0) 5 \<and>
   (\<exists>s'. DVP_ConfigureNodes (Some ex_twins) (Some (ex_section\<lparr>pNodes := [ex_node 5 (-1)], numNodes := 1\<rparr>)) False =
           Some (1, Some s') \<and> n_error (pNodes s' ! 0) = DVP_ERROR_NOT_IMPLEMENTED)"
  by (simp add: eligible_def supports_def implements_def DVP_ConfigureNodes_def ex_section_def ex_twins_def
      ex_mgr_def ex_node_def configure_node_def nth_chk_def priority_loop.simps
      DVP_GetNextManagerIndex_def DVP_GetManagerKernelIndex_def upt_rec)

end
