(* ===== verification/Dvp_KgbRun.thy ===== *)
theory Dvp_KgbRun
  imports Dvp_KgbConfig
begin

text \<open>
  Correctness of verification and execution of a section. The reference is the list of maximal runs
  of consecutive nodes on one manager; both loops of the boss hand exactly these runs, in order, to
  the managers.
\<close>

section \<open>Maximal runs\<close>

text \<open>A run is its first index, its length and its manager.\<close>

function mgr_runs :: "nat \<Rightarrow> nat list \<Rightarrow> (nat \<times> nat \<times> nat) list" where
  "mgr_runs n [] = []"
| "mgr_runs n (m # ms) =
     (let l = length (takeWhile ((=) m) ms) in (n, Suc l, m) # mgr_runs (n + Suc l) (drop l ms))"
  by pat_completeness auto
termination by (relation "measure (\<lambda>(_, ms). length ms)") auto

lemma takeWhile_eq_replicate: "takeWhile ((=) m) ms = replicate (length (takeWhile ((=) m) ms)) m"
  by (induction ms) auto

lemma take_takeWhile: "take (length (takeWhile P xs)) xs = takeWhile P xs"
  by (metis takeWhile_eq_take)

text \<open>The runs cover the array: every node is in one run, on its own manager.\<close>

lemma mgr_runs_cover: "concat (map (\<lambda>(n, l, m). replicate l m) (mgr_runs n ms)) = ms"
proof (induction n ms rule: mgr_runs.induct)
  case (2 n m ms)
  let ?l = "length (takeWhile ((=) m) ms)"
  have "replicate ?l m = take ?l ms" using takeWhile_eq_replicate[of m ms] take_takeWhile[of "(=) m" ms] by simp
  then show ?case using 2[OF refl] by (simp add: Let_def)
qed simp

lemma mgr_runs_total: "sum_list (map (\<lambda>(n, l, m). l) (mgr_runs n ms)) = length ms"
proof -
  have "length (concat (map (\<lambda>(n, l, m). replicate l m) (mgr_runs n ms))) = length ms"
    by (simp only: mgr_runs_cover)
  then show ?thesis by (simp add: length_concat comp_def case_prod_beta')
qed

lemma mgr_runs_mgr: "(i, l, m) \<in> set (mgr_runs n ms) \<Longrightarrow> m \<in> set ms \<and> 0 < l"
  by (induction n ms rule: mgr_runs.induct) (auto simp: Let_def dest: in_set_dropD)

section \<open>The managers' contract\<close>

text \<open>
  What the boss relies on: a manager reports at most as many nodes as it was given and does not
  reassign the nodes.
\<close>

definition runner_ok :: "(DVP_KernelNode_t list \<Rightarrow> nat \<Rightarrow> nat \<Rightarrow> nat \<times> DVP_KernelNode_t list) \<Rightarrow> bool" where
  "runner_ok run \<longleftrightarrow> (\<forall>nodes n num. fst (run nodes n num) \<le> num \<and>
     map mgrIndex (snd (run nodes n num)) = map mgrIndex nodes)"

definition calls_ok :: "DVP_t \<Rightarrow> bool" where
  "calls_ok d \<longleftrightarrow> (\<forall>m\<in>set (managers d). calls m \<noteq> None \<and> runner_ok (verify (the (calls m))) \<and>
     (\<forall>sync. runner_ok (\<lambda>nodes n num. manager (the (calls m)) nodes n num sync)))"

abbreviation verifier :: "DVP_t \<Rightarrow> nat \<Rightarrow> DVP_KernelNode_t list \<Rightarrow> nat \<Rightarrow> nat \<Rightarrow> nat \<times> DVP_KernelNode_t list" where
  "verifier d m \<equiv> verify (the (calls (managers d ! m)))"

abbreviation runner ::
  "DVP_t \<Rightarrow> bool \<Rightarrow> nat \<Rightarrow> DVP_KernelNode_t list \<Rightarrow> nat \<Rightarrow> nat \<Rightarrow> nat \<times> DVP_KernelNode_t list" where
  "runner d sync m \<equiv> \<lambda>nodes n num. manager (the (calls (managers d ! m))) nodes n num sync"

lemma calls_ok_verifier: "calls_ok d \<Longrightarrow> m < numMgrs d \<Longrightarrow> runner_ok (verifier d m)"
  by (simp add: calls_ok_def)

lemma calls_ok_runner: "calls_ok d \<Longrightarrow> m < numMgrs d \<Longrightarrow> runner_ok (runner d sync m)"
  by (simp add: calls_ok_def)

lemma calls_ok_Some: "calls_ok d \<Longrightarrow> m < numMgrs d \<Longrightarrow> \<exists>c. calls (managers d ! m) = Some c"
  by (auto simp: calls_ok_def)

lemma runner_okD:
  assumes "runner_ok run" "run nodes n num = (k, nodes')"
  shows "k \<le> num" "map mgrIndex nodes' = map mgrIndex nodes" "length nodes' = length nodes"
proof -
  show "k \<le> num" and m: "map mgrIndex nodes' = map mgrIndex nodes"
    using assms unfolding runner_ok_def by (metis fst_conv, metis snd_conv)
  show "length nodes' = length nodes" using m by (metis length_map)
qed

section \<open>The loops follow the runs\<close>

lemma same_mgr_run_range:
  assumes "num \<le> length nodes"
  shows "same_mgr_run nodes t [i..<num] =
    Some (length (takeWhile ((=) t) (drop i (take num (map mgrIndex nodes)))))"
proof (induction "num - i" arbitrary: i)
  case 0
  then show ?case by simp
next
  case (Suc x)
  then have i: "i < num" and up: "[i..<num] = i # [Suc i..<num]" by (simp_all add: upt_rec)
  have "drop i (take num (map mgrIndex nodes)) =
      mgrIndex (nodes ! i) # drop (Suc i) (take num (map mgrIndex nodes))"
    using i assms by (subst Cons_nth_drop_Suc[symmetric]) simp_all
  moreover have "x = num - Suc i" using Suc.hyps(2) by simp
  ultimately show ?case
    using Suc.hyps(1)[of "Suc i"] i assms unfolding up by (auto simp: nth_chk_Some)
qed

text \<open>One round of either loop, on the managers that are left from index \<open>n\<close> on.\<close>

lemma mgr_runs_step:
  assumes "n < num" "num \<le> length nodes"
  obtains rest where
    "same_mgr_run nodes (mgrIndex (nodes ! n)) [Suc n..<num] = Some rest" "n + Suc rest \<le> num"
    "mgr_runs n (drop n (take num (map mgrIndex nodes))) =
       (n, Suc rest, mgrIndex (nodes ! n)) # mgr_runs (n + Suc rest) (drop (n + Suc rest) (take num (map mgrIndex nodes)))"
proof -
  let ?ms = "drop (Suc n) (take num (map mgrIndex nodes))" and ?t = "mgrIndex (nodes ! n)"
  let ?l = "length (takeWhile ((=) ?t) ?ms)"
  have hd: "drop n (take num (map mgrIndex nodes)) = ?t # ?ms"
    using assms by (subst Cons_nth_drop_Suc[symmetric]) simp_all
  have "?l \<le> length ?ms" by (rule length_takeWhile_le)
  then have "n + Suc ?l \<le> num" using assms by simp
  then show ?thesis
    using that[of ?l] same_mgr_run_range[OF assms(2), of ?t "Suc n"] unfolding hd by (simp add: Let_def add.commute)
qed

definition verify_runs ::
  "(nat \<Rightarrow> DVP_KernelNode_t list \<Rightarrow> nat \<Rightarrow> nat \<Rightarrow> nat \<times> DVP_KernelNode_t list) \<Rightarrow>
   (nat \<times> nat \<times> nat) list \<Rightarrow> nat \<times> DVP_KernelNode_t list \<Rightarrow> nat \<times> DVP_KernelNode_t list" where
  "verify_runs run rs st = fold (\<lambda>(n, l, m) (v, nodes). case run m nodes n l of (k, nodes') \<Rightarrow> (size_add v k, nodes')) rs st"

fun execute_runs ::
  "(nat \<Rightarrow> DVP_KernelNode_t list \<Rightarrow> nat \<Rightarrow> nat \<Rightarrow> nat \<times> DVP_KernelNode_t list) \<Rightarrow>
   (nat \<times> nat \<times> nat) list \<Rightarrow> nat \<times> DVP_KernelNode_t list \<Rightarrow> nat \<times> DVP_KernelNode_t list" where
  "execute_runs run [] st = st"
| "execute_runs run ((n, l, m) # rs) (p, nodes) =
     (case run m nodes n l of (k, nodes') \<Rightarrow>
        if k \<noteq> l then (size_add p k, nodes') else execute_runs run rs (size_add p k, nodes'))"

declare verify_loop.simps [simp del] execute_loop.simps [simp del]

text \<open>The array of nodes the loops may be given.\<close>

definition nodes_on :: "DVP_t \<Rightarrow> DVP_KernelNode_t list \<Rightarrow> nat \<Rightarrow> bool" where
  "nodes_on d nodes num \<longleftrightarrow> num \<le> length nodes \<and> (\<forall>i < num. mgrIndex (nodes ! i) < numMgrs d)"

lemma nodes_on_keep:
  assumes "nodes_on d nodes num" "map mgrIndex nodes' = map mgrIndex nodes"
  shows "nodes_on d nodes' num"
proof -
  have len: "length nodes' = length nodes" using assms(2) by (metis length_map)
  have "mgrIndex (nodes' ! i) = mgrIndex (nodes ! i)" if "i < length nodes" for i
    using assms(2) len that by (metis nth_map)
  then show ?thesis using assms(1) len by (simp add: nodes_on_def)
qed

lemma section_ready_nodes_on: "section_ready d s \<Longrightarrow> nodes_on d (pNodes s) (numNodes s)"
  by (auto simp: section_ready_def nodes_on_def node_ready_def)

lemma verify_loop_runs:
  assumes ok: "calls_ok d" and "nodes_on d nodes num"
  shows "verify_loop d nodes num n v =
    Some (verify_runs (verifier d) (mgr_runs n (drop n (take num (map mgrIndex nodes)))) (v, nodes))"
  using assms(2)
proof (induction "num - n" arbitrary: n nodes v rule: less_induct)
  case less
  show ?case
  proof (cases "n < num")
    case False
    then show ?thesis by (simp add: verify_loop.simps[of d nodes] verify_runs_def)
  next
    case True
    have len: "num \<le> length nodes" using less.prems by (simp add: nodes_on_def)
    let ?m = "mgrIndex (nodes ! n)"
    obtain rest where r: "same_mgr_run nodes ?m [Suc n..<num] = Some rest" "n + Suc rest \<le> num"
      "mgr_runs n (drop n (take num (map mgrIndex nodes))) =
       (n, Suc rest, ?m) # mgr_runs (n + Suc rest) (drop (n + Suc rest) (take num (map mgrIndex nodes)))"
      by (rule mgr_runs_step[OF True len])
    have m: "?m < numMgrs d" using less.prems True by (simp add: nodes_on_def)
    obtain k nodes' where k: "verifier d ?m nodes n (Suc rest) = (k, nodes')" by fastforce
    note keep = runner_okD(2)[OF calls_ok_verifier[OF ok m] k]
    have dec: "num - (n + Suc rest) < num - n" using True by simp
    from less.hyps[OF this nodes_on_keep[OF less.prems keep], of "size_add v k"]
    show ?thesis
      using True len r m k keep calls_ok_Some[OF ok m]
      by (auto simp: verify_loop.simps[of d nodes] nth_chk_Some verify_runs_def)
  qed
qed

lemma execute_loop_runs:
  assumes ok: "calls_ok d" and "nodes_on d nodes num"
  shows "execute_loop d sync nodes num n p =
    Some (execute_runs (runner d sync) (mgr_runs n (drop n (take num (map mgrIndex nodes)))) (p, nodes))"
  using assms(2)
proof (induction "num - n" arbitrary: n nodes p rule: less_induct)
  case less
  show ?case
  proof (cases "n < num")
    case False
    then show ?thesis by (simp add: execute_loop.simps[of d sync nodes])
  next
    case True
    have len: "num \<le> length nodes" using less.prems by (simp add: nodes_on_def)
    let ?m = "mgrIndex (nodes ! n)"
    obtain rest where r: "same_mgr_run nodes ?m [Suc n..<num] = Some rest" "n + Suc rest \<le> num"
      "mgr_runs n (drop n (take num (map mgrIndex nodes))) =
       (n, Suc rest, ?m) # mgr_runs (n + Suc rest) (drop (n + Suc rest) (take num (map mgrIndex nodes)))"
      by (rule mgr_runs_step[OF True len])
    have m: "?m < numMgrs d" using less.prems True by (simp add: nodes_on_def)
    obtain k nodes' where k: "runner d sync ?m nodes n (Suc rest) = (k, nodes')" by fastforce
    note keep = runner_okD(2)[OF calls_ok_runner[OF ok m] k]
    have dec: "num - (n + Suc rest) < num - n" using True by simp
    from less.hyps[OF this nodes_on_keep[OF less.prems keep], of "size_add p k"]
    show ?thesis
      using True len r m k keep calls_ok_Some[OF ok m]
      by (cases "k = Suc rest") (auto simp: execute_loop.simps[of d sync nodes] nth_chk_Some)
  qed
qed

section \<open>How many nodes are done\<close>

abbreviation run_total :: "(nat \<times> nat \<times> nat) list \<Rightarrow> nat" where
  "run_total rs \<equiv> sum_list (map (\<lambda>(n, l, m). l) rs)"

text \<open>A manager that does all the nodes it is given.\<close>

definition completes :: "(DVP_KernelNode_t list \<Rightarrow> nat \<Rightarrow> nat \<Rightarrow> nat \<times> DVP_KernelNode_t list) \<Rightarrow> bool" where
  "completes run \<longleftrightarrow> (\<forall>nodes n num. fst (run nodes n num) = num)"

lemma completes_eq: "completes run \<Longrightarrow> run nodes n num = (k, nodes') \<Longrightarrow> k = num"
  unfolding completes_def by (metis fst_conv)

lemma verify_runs_bound:
  assumes "\<forall>(n, l, m)\<in>set rs. runner_ok (run m)" "v + run_total rs < size_max"
  shows "fst (verify_runs run rs (v, nodes)) \<le> v + run_total rs"
  using assms
proof (induction rs arbitrary: v nodes)
  case (Cons r rs)
  obtain n l m where r: "r = (n, l, m)" by (cases r)
  obtain k nodes' where k: "run m nodes n l = (k, nodes')" by fastforce
  have "k \<le> l" using runner_okD(1)[of "run m", OF _ k] Cons.prems r by auto
  moreover from this have "size_add v k = v + k" using Cons.prems(2) r by (intro size_add_eq) simp
  ultimately show ?case using Cons.IH[of "v + k" nodes'] Cons.prems r k by (simp add: verify_runs_def)
qed (simp add: verify_runs_def)

lemma verify_runs_complete:
  assumes "\<forall>(n, l, m)\<in>set rs. completes (run m)" "v + run_total rs < size_max"
  shows "fst (verify_runs run rs (v, nodes)) = v + run_total rs"
  using assms
proof (induction rs arbitrary: v nodes)
  case (Cons r rs)
  obtain n l m where r: "r = (n, l, m)" by (cases r)
  obtain k nodes' where k: "run m nodes n l = (k, nodes')" by fastforce
  have "k = l" using completes_eq[of "run m", OF _ k] Cons.prems r by auto
  moreover have "size_add v l = v + l" using Cons.prems(2) r by (intro size_add_eq) simp
  ultimately show ?case using Cons.IH[of "v + l" nodes'] Cons.prems r k by (simp add: verify_runs_def)
qed (simp add: verify_runs_def)

lemma execute_runs_bound:
  assumes "\<forall>(n, l, m)\<in>set rs. runner_ok (run m)" "p + run_total rs < size_max"
  shows "fst (execute_runs run rs (p, nodes)) \<le> p + run_total rs"
  using assms
proof (induction rs arbitrary: p nodes)
  case (Cons r rs)
  obtain n l m where r: "r = (n, l, m)" by (cases r)
  obtain k nodes' where k: "run m nodes n l = (k, nodes')" by fastforce
  have "k \<le> l" using runner_okD(1)[of "run m", OF _ k] Cons.prems r by auto
  moreover from this have "size_add p k = p + k" using Cons.prems(2) r by (intro size_add_eq) simp
  ultimately show ?case using Cons.IH[of "p + k" nodes'] Cons.prems r k by (cases "k = l") simp_all
qed simp

lemma execute_runs_complete:
  assumes "\<forall>(n, l, m)\<in>set rs. completes (run m)" "p + run_total rs < size_max"
  shows "fst (execute_runs run rs (p, nodes)) = p + run_total rs"
  using assms
proof (induction rs arbitrary: p nodes)
  case (Cons r rs)
  obtain n l m where r: "r = (n, l, m)" by (cases r)
  obtain k nodes' where k: "run m nodes n l = (k, nodes')" by fastforce
  have "k = l" using completes_eq[of "run m", OF _ k] Cons.prems r by auto
  moreover have "size_add p l = p + l" using Cons.prems(2) r by (intro size_add_eq) simp
  ultimately show ?case using Cons.IH[of "p + l" nodes'] Cons.prems r k by simp
qed simp

text \<open>The runs of a section, and that its managers keep the contract.\<close>

abbreviation section_runs :: "DVP_KernelGraphSection_t \<Rightarrow> (nat \<times> nat \<times> nat) list" where
  "section_runs s \<equiv> mgr_runs 0 (map mgrIndex (take (numNodes s) (pNodes s)))"

lemma section_runs_mgr:
  assumes "nodes_on d (pNodes s) (numNodes s)" "(n, l, m) \<in> set (section_runs s)"
  shows "m < numMgrs d"
  using mgr_runs_mgr[OF assms(2)] assms(1) by (auto simp: nodes_on_def in_set_conv_nth)

lemma section_runs_total: "numNodes s \<le> length (pNodes s) \<Longrightarrow> run_total (section_runs s) = numNodes s"
  using mgr_runs_total[of 0 "map mgrIndex (take (numNodes s) (pNodes s))"] by simp

lemma section_verify_bound:
  assumes "calls_ok d" "nodes_on d (pNodes s) (numNodes s)" "numNodes s < size_max"
  shows "fst (verify_runs (verifier d) (section_runs s) (0, pNodes s)) \<le> numNodes s"
    and "(\<And>m. m < numMgrs d \<Longrightarrow> completes (verifier d m)) \<Longrightarrow>
         fst (verify_runs (verifier d) (section_runs s) (0, pNodes s)) = numNodes s"
proof -
  have len: "numNodes s \<le> length (pNodes s)" using assms(2) by (simp add: nodes_on_def)
  have mgrs: "\<forall>(n, l, m)\<in>set (section_runs s). runner_ok (verifier d m)"
    using section_runs_mgr[OF assms(2)] calls_ok_verifier[OF assms(1)] by blast
  show "fst (verify_runs (verifier d) (section_runs s) (0, pNodes s)) \<le> numNodes s"
    using verify_runs_bound[OF mgrs, of 0 "pNodes s"] section_runs_total[OF len] assms(3) by simp
  show "fst (verify_runs (verifier d) (section_runs s) (0, pNodes s)) = numNodes s"
    if "\<And>m. m < numMgrs d \<Longrightarrow> completes (verifier d m)"
  proof -
    have "\<forall>(n, l, m)\<in>set (section_runs s). completes (verifier d m)"
      using section_runs_mgr[OF assms(2)] that by blast
    then show ?thesis
      using verify_runs_complete[of "section_runs s" "verifier d" 0 "pNodes s"] section_runs_total[OF len] assms(3) by simp
  qed
qed

lemma section_execute_bound:
  assumes "calls_ok d" "nodes_on d (pNodes s) (numNodes s)" "numNodes s < size_max"
  shows "fst (execute_runs (runner d sync) (section_runs s) (0, pNodes s)) \<le> numNodes s"
    and "(\<And>m. m < numMgrs d \<Longrightarrow> completes (runner d sync m)) \<Longrightarrow>
         fst (execute_runs (runner d sync) (section_runs s) (0, pNodes s)) = numNodes s"
proof -
  have len: "numNodes s \<le> length (pNodes s)" using assms(2) by (simp add: nodes_on_def)
  have mgrs: "\<forall>(n, l, m)\<in>set (section_runs s). runner_ok (runner d sync m)"
    using section_runs_mgr[OF assms(2)] calls_ok_runner[OF assms(1)] by blast
  show "fst (execute_runs (runner d sync) (section_runs s) (0, pNodes s)) \<le> numNodes s"
    using execute_runs_bound[OF mgrs, of 0 "pNodes s"] section_runs_total[OF len] assms(3) by simp
  show "fst (execute_runs (runner d sync) (section_runs s) (0, pNodes s)) = numNodes s"
    if "\<And>m. m < numMgrs d \<Longrightarrow> completes (runner d sync m)"
  proof -
    have "\<forall>(n, l, m)\<in>set (section_runs s). completes (runner d sync m)"
      using section_runs_mgr[OF assms(2)] that by blast
    then show ?thesis
      using execute_runs_complete[of "section_runs s" "runner d sync" 0 "pNodes s"] section_runs_total[OF len] assms(3) by simp
  qed
qed

section \<open>The boss\<close>

lemma Verify_eq:
  assumes "calls_ok d" "section_ready d s'"
    and "DVP_ConfigureNodes (Some d) (Some s) False = Some (0, Some s')"
  shows "DVP_KernelGraphBoss_Verify d s =
    Some (case verify_runs (verifier d) (section_runs s') (0, pNodes s') of (v, nodes) \<Rightarrow> (v, s'\<lparr>pNodes := nodes\<rparr>))"
  using assms(3) verify_loop_runs[OF assms(1) section_ready_nodes_on[OF assms(2)], of 0 0]
  by (simp add: DVP_KernelGraphBoss_Verify_def take_map split: prod.splits)

abbreviation alone :: "nat \<Rightarrow> DVP_t \<Rightarrow> DVP_t" where
  "alone \<equiv> \<lambda>_ d. d"

lemma process_loop_commit:
  assumes ok: "calls_ok d" "nodes_on d (pNodes s) (numNodes s)" and l: "loads d = Some l"
    and num: "numNodes s \<noteq> 0" and fit: "fits (coreLoad s) all_cores (ld_cores l)"
  shows "process_loop alone i sync d s =
    Some (case execute_runs (runner d sync) (section_runs s) (0, pNodes s) of (p, nodes) \<Rightarrow> (p, d, s\<lparr>pNodes := nodes\<rparr>))"
proof -
  let ?d = "with_cores d l (loaded (coreLoad s) all_cores (ld_cores l))"
  have "managers ?d = managers d" by simp
  then have run: "calls_ok ?d" "nodes_on ?d (pNodes s) (numNodes s)"
    using ok by (simp_all add: calls_ok_def nodes_on_def)
  have "DVP_CommitLoad (Some d) (Some s) = Some (True, Some ?d)"
    using CommitLoad_eq[OF l num] fit by simp
  moreover have "DVP_DecommitLoad (Some ?d) (Some s) = Some (Some d)"
    using DecommitLoad_eq[of ?d "l\<lparr>ld_cores := loaded (coreLoad s) all_cores (ld_cores l)\<rparr>" s] l by simp
  ultimately show ?thesis
    using execute_loop_runs[OF run, of sync 0 0]
    by (subst process_loop.simps) (simp add: take_map split: prod.splits)
qed

text \<open>A section that runs at the first attempt.\<close>

definition section_runnable :: "DVP_t \<Rightarrow> DVP_Load_t \<Rightarrow> DVP_KernelGraphSection_t \<Rightarrow> bool" where
  "section_runnable d l s \<longleftrightarrow> section_ready d s \<and> 0 < numNodes s \<and> numNodes s < size_max \<and>
     fits (coreLoad s) all_cores (ld_cores l) \<and> numTimes (sec_perf s) + 1 \<noteq> 0"

lemma Process_runnable:
  assumes run: "section_runnable d l s" and calls: "calls_ok d" and l: "loads d = Some l"
  obtains p nodes pf where
    "DVP_KernelGraphBoss_Process alone stamps sync d s = Some (p, d, s\<lparr>pNodes := nodes, sec_perf := pf\<rparr>)"
    "execute_runs (runner d sync) (section_runs s) (0, pNodes s) = (p, nodes)"
proof -
  let ?s0 = "s\<lparr>sec_perf := DVP_PerformanceStart (fst stamps) (sec_perf s)\<rparr>"
  have on: "nodes_on d (pNodes s) (numNodes s)"
    using run by (simp add: section_runnable_def section_ready_nodes_on)
  obtain p nodes where e: "execute_runs (runner d sync) (section_runs s) (0, pNodes s) = (p, nodes)" by fastforce
  have "process_loop alone 0 sync d ?s0 = Some (p, d, ?s0\<lparr>pNodes := nodes\<rparr>)"
    using process_loop_commit[of d ?s0 l 0 sync] calls on l run e by (simp add: section_runnable_def)
  moreover obtain pf where "DVP_PerformanceStop (snd stamps) (DVP_PerformanceStart (fst stamps) (sec_perf s)) = Some pf"
    using run by (simp add: section_runnable_def DVP_PerformanceStop_def DVP_PerformanceStart_def Let_def)
  ultimately have "DVP_KernelGraphBoss_Process alone stamps sync d s = Some (p, d, s\<lparr>pNodes := nodes, sec_perf := pf\<rparr>)"
    by (simp add: DVP_KernelGraphBoss_Process_def Let_def)
  then show ?thesis using that e by blast
qed

text \<open>Whatever the loop does, the load table it leaves is the one it found.\<close>

lemma DecommitLoad_after_commit:
  assumes "DVP_CommitLoad (Some d) (Some s) = Some (True, Some d1)"
  shows "DVP_DecommitLoad (Some d1) (Some s) = Some (Some d)"
proof -
  obtain l where l: "loads d = Some l" "numNodes s \<noteq> 0"
    using assms by (cases "loads d") (auto simp: DVP_CommitLoad_def split: if_splits)
  then have "d1 = with_cores d l (loaded (coreLoad s) all_cores (ld_cores l))"
    using CommitLoad_eq[OF l] assms by (auto split: if_splits)
  then show ?thesis using l by (simp add: DecommitLoad_eq)
qed

lemma CommitLoad_refused:
  assumes "DVP_CommitLoad (Some d) (Some s) = Some (False, d1)"
  shows "d1 = Some d"
proof (cases "numNodes s = 0")
  case False
  then obtain l where l: "loads d = Some l"
    using assms by (cases "loads d") (auto simp: DVP_CommitLoad_def)
  then show ?thesis using CommitLoad_eq[OF l False] assms by (auto split: if_splits)
qed (use assms in \<open>simp add: DVP_CommitLoad_def\<close>)

lemma process_loop_balanced:
  assumes "process_loop env i sync d s = Some r"
  shows "env = alone \<longrightarrow> fst (snd r) = d"
proof (rule process_loop.raw_induct[where P = "\<lambda>env i sync d s r. env = alone \<longrightarrow> fst (snd r) = d", OF _ assms],
    goal_cases)
  case (1 f env i sync d s r)
  show ?case
  proof
    assume env: "env = alone"
    obtain ok d1 where c: "DVP_CommitLoad (Some d) (Some s) = Some (ok, Some d1)"
      using 1(2) unfolding env by (auto simp: bind_eq_Some_conv)
    show "fst (snd r) = d"
    proof (cases ok)
      case True
      then show ?thesis
        using 1(2) c DecommitLoad_after_commit[of d s d1] unfolding env by (auto simp: bind_eq_Some_conv)
    next
      case False
      then have "d1 = d" using CommitLoad_refused[of d s "Some d1"] c by simp
      then show ?thesis
        using 1(2) 1(1)[of alone "Suc i" sync d _ r] c False unfolding env
        by (auto simp: bind_eq_Some_conv split: if_splits)
    qed
  qed
qed

text \<open>An empty section is never committed and never a fault, so the loop does not end.\<close>

lemma process_loop_empty:
  assumes "process_loop env i sync d s = Some r"
  shows "numNodes s \<noteq> 0"
proof (rule process_loop.raw_induct[where P = "\<lambda>env i sync d s r. numNodes s \<noteq> 0", OF _ assms], goal_cases)
  case (1 f env i sync d s r)
  show ?case
  proof
    assume "numNodes s = 0"
    moreover from this have "DVP_ConfigureNodes (Some (env i d)) (Some s) True = Some (0, Some s)"
      by (simp add: DVP_ConfigureNodes_def)
    ultimately have "f env (Suc i) sync (env i d) s = Some r" using 1(2) by (simp add: DVP_CommitLoad_def)
    from 1(1)[OF this] \<open>numNodes s = 0\<close> show False by simp
  qed
qed

section \<open>Properties\<close>

lemma ex_calls_ok: "calls_ok ex_dvp"
  by (simp add: calls_ok_def runner_ok_def ex_dvp_def ex_mgr_def)

definition ex_ready :: DVP_KernelGraphSection_t where
  "ex_ready = ex_section\<lparr>pNodes := [(ex_node 5 6)\<lparr>configured := True\<rparr>, (ex_node 5 (-1))\<lparr>configured := True, mgrIndex := 1\<rparr>,
                                   (ex_node 7 (-1))\<lparr>configured := True, mgrIndex := 2\<rparr>]\<rparr>"

lemma ex_ready_ready: "section_ready ex_dvp ex_ready"
proof -
  have "n = 0 \<or> n = 1 \<or> n = 2" if "n < 3" for n :: nat using that by auto
  then show ?thesis
    by (fastforce simp: section_ready_def ex_ready_def ex_section_def node_ready_def implements_def ex_dvp_def
        ex_mgr_def ex_node_def)
qed

text \<open>
  The verification of a section hands to each manager, in order, exactly the maximal runs of
  consecutive nodes assigned to it, and returns the sum of what the managers verified.
\<close>

theorem verify_by_runs:
  assumes "dvp_wf d" "calls_ok d" "section_ok d s"
    and conf: "DVP_ConfigureNodes (Some d) (Some s) False = Some (0, Some s')"
  shows "DVP_KernelGraphBoss_Verify d s =
    Some (case verify_runs (\<lambda>m. verify (the (calls (managers d ! m)))) (mgr_runs 0 (map mgrIndex (take (numNodes s) (pNodes s')))) (0, pNodes s')
          of (v, nodes) \<Rightarrow> (v, s'\<lparr>pNodes := nodes\<rparr>))"
proof -
  obtain f s'' where c: "DVP_ConfigureNodes (Some d) (Some s) False = Some (f, Some s'')" "same_shape s s''"
    "f = 0 \<Longrightarrow> section_ready d s''"
    using ConfigureNodes_spec[OF assms(1,3), of False] by metis
  then have "section_ready d s'" "numNodes s' = numNodes s" using conf by (auto simp: same_shape_def)
  then show ?thesis using Verify_eq[OF assms(2) _ conf] by simp
qed

theorem verify_by_runs_witness:
  "\<exists>s'. DVP_KernelGraphBoss_Verify ex_dvp ex_section =
    Some (case verify_runs (\<lambda>m. verify (the (calls (managers ex_dvp ! m)))) (mgr_runs 0 (map mgrIndex (take (numNodes ex_section) (pNodes s')))) (0, pNodes s')
          of (v, nodes) \<Rightarrow> (v, s'\<lparr>pNodes := nodes\<rparr>))"
proof -
  obtain s' where "DVP_ConfigureNodes (Some ex_dvp) (Some ex_section) False = Some (0, Some s')"
    by (simp add: DVP_ConfigureNodes_def ex_section_def ex_dvp_def ex_mgr_def ex_node_def configure_node_def
      nth_chk_def place_node_def priority_loop.simps DVP_GetNextManagerIndex_def
      DVP_GetManagerKernelIndex_def upt_rec)
  from verify_by_runs[OF ex_dvp_wf ex_calls_ok ex_section_ok this] show ?thesis by blast
qed

text \<open>
  The verification never counts more nodes than the section has, and counts all of them when the
  priorities are distinct, every kernel is supported and every manager accepts what it is given.
\<close>

theorem verify_count:
  assumes wf: "dvp_wf d" and calls: "calls_ok d" and ok: "section_ok d s" and num: "numNodes s < size_max"
  shows "\<exists>v s'. DVP_KernelGraphBoss_Verify d s = Some (v, s') \<and> v \<le> numNodes s \<and>
    (distinct_priorities d \<and> (\<forall>m < numMgrs d. completes (verify (the (calls (managers d ! m))))) \<and>
     (\<forall>n < numNodes s. \<exists>m. eligible d m \<and> supports (managers d ! m) (kernel (pNodes s ! n))) \<longrightarrow> v = numNodes s)"
proof -
  obtain f s' where c: "DVP_ConfigureNodes (Some d) (Some s) False = Some (f, Some s')" "same_shape s s'"
    "f = 0 \<Longrightarrow> section_ready d s'"
    "f \<noteq> 0 \<Longrightarrow> \<exists>n < numNodes s. priority_loop d (kernel (pNodes s ! n)) 0 0 = Some None"
    using ConfigureNodes_spec[OF wf ok, of False] by metis
  have n': "numNodes s' = numNodes s" using c(2) by (simp add: same_shape_def)
  show ?thesis
  proof (cases "f = 0")
    case True
    note on = section_ready_nodes_on[OF c(3)[OF True]]
    have "DVP_KernelGraphBoss_Verify d s =
      Some (case verify_runs (verifier d) (section_runs s') (0, pNodes s') of (v, nodes) \<Rightarrow> (v, s'\<lparr>pNodes := nodes\<rparr>))"
      using Verify_eq[OF calls c(3)[OF True]] c(1) True by simp
    then show ?thesis
      using section_verify_bound[OF calls on] num n' by (auto split: prod.splits)
  next
    case False
    then obtain n where n: "n < numNodes s" "priority_loop d (kernel (pNodes s ! n)) 0 0 = Some None"
      using c(4) by blast
    have "\<not> (eligible d m \<and> supports (managers d ! m) (kernel (pNodes s ! n)))" if "distinct_priorities d" for m
      using priority_loop_complete[OF wf that, of m "kernel (pNodes s ! n)"] n(2) by fastforce
    then show ?thesis using c(1) False n(1) by (auto simp: DVP_KernelGraphBoss_Verify_def)
  qed
qed

theorem verify_count_witness:
  "\<exists>v s'. DVP_KernelGraphBoss_Verify ex_dvp ex_section = Some (v, s') \<and> v \<le> 3"
proof -
  have "numNodes ex_section = 3" by (simp add: ex_section_def)
  with verify_count[OF ex_dvp_wf ex_calls_ok ex_section_ok] show ?thesis by fastforce
qed

text \<open>
  C3. A configured, non-empty section whose load fits is executed in the first attempt: the call
  returns, the runs go to their managers in order until one falls short, at most \<open>numNodes\<close> nodes are
  counted, all of them if every manager completes, and the load table is as before.
\<close>

theorem process_executes:
  assumes ready: "section_ready d s" and calls: "calls_ok d" and l: "loads d = Some l"
    and num: "0 < numNodes s" "numNodes s < size_max"
    and fit: "\<forall>c < DVP_CORE_MAX. sint (currentLoad (ld_cores l c) + coreLoad s c) \<le> sint (maximumLoad (ld_cores l c))"
    and perf: "numTimes (sec_perf s) + 1 \<noteq> 0"
  shows "\<exists>p s'. DVP_KernelGraphBoss_Process (\<lambda>_ d. d) stamps sync d s = Some (p, d, s') \<and> p \<le> numNodes s \<and>
    (p, pNodes s') = execute_runs (\<lambda>m nodes n num. manager (the (calls (managers d ! m))) nodes n num sync)
                       (mgr_runs 0 (map mgrIndex (take (numNodes s) (pNodes s)))) (0, pNodes s) \<and>
    ((\<forall>m < numMgrs d. completes (\<lambda>nodes n num. manager (the (calls (managers d ! m))) nodes n num sync)) \<longrightarrow> p = numNodes s)"
proof -
  have "section_runnable d l s" using assms by (simp add: section_runnable_def fits_def)
  then obtain p nodes pf where e: "DVP_KernelGraphBoss_Process alone stamps sync d s = Some (p, d, s\<lparr>pNodes := nodes, sec_perf := pf\<rparr>)"
    "execute_runs (runner d sync) (section_runs s) (0, pNodes s) = (p, nodes)"
    by (rule Process_runnable[OF _ calls l])
  then show ?thesis
    using section_execute_bound[OF calls section_ready_nodes_on[OF ready] num(2), of sync]
    by (intro exI conjI) auto
qed

theorem process_executes_witness:
  "\<exists>p s'. DVP_KernelGraphBoss_Process (\<lambda>_ d. d) (1, 5) True ex_dvp ex_ready = Some (p, ex_dvp, s') \<and> p = 3"
proof -
  have facts: "loads ex_dvp = Some ex_table" "0 < numNodes ex_ready" "numNodes ex_ready < size_max"
    "\<forall>c < DVP_CORE_MAX. sint (currentLoad (ld_cores ex_table c) + coreLoad ex_ready c) \<le> sint (maximumLoad (ld_cores ex_table c))"
    "numTimes (sec_perf ex_ready) + 1 \<noteq> 0"
    by (simp_all add: ex_dvp_def ex_ready_def ex_section_def ex_table_def ex_perf_def)
  have "\<forall>m < numMgrs ex_dvp. completes (\<lambda>nodes n num. manager (the (calls (managers ex_dvp ! m))) nodes n num True)"
    by (auto simp: ex_dvp_def ex_mgr_def completes_def less_Suc_eq)
  moreover have "numNodes ex_ready = 3" by (simp add: ex_ready_def ex_section_def)
  ultimately show ?thesis
    using process_executes[OF ex_ready_ready ex_calls_ok facts, of "(1, 5)" True] by metis
qed

text \<open>
  C33. However a call of \<open>DVP_KernelGraphBoss_Process\<close> ends - executed, refused or faulted, after any
  number of attempts - it gives back exactly the load it took: on its own it leaves the load table and
  the managers as they were.
\<close>

theorem process_balanced:
  assumes "DVP_KernelGraphBoss_Process (\<lambda>_ d. d) stamps sync d s = Some (p, d', s')"
  shows "d' = d"
proof -
  obtain p0 s0 s1 where "process_loop (\<lambda>_ d. d) 0 sync d s0 = Some (p0, d', s1)"
    using assms by (auto simp: DVP_KernelGraphBoss_Process_def Let_def bind_eq_Some_conv)
  from process_loop_balanced[OF this] show ?thesis by simp
qed

text \<open>
  For a section without nodes the call never returns: the load of such a section is never
  committed, and configuring no nodes reports no fault.
\<close>

theorem process_empty_never_returns:
  assumes "numNodes s = 0"
  shows "DVP_KernelGraphBoss_Process env stamps sync d s = None"
proof (cases "DVP_KernelGraphBoss_Process env stamps sync d s")
  case (Some r)
  then obtain r' where "process_loop env 0 sync d (s\<lparr>sec_perf := DVP_PerformanceStart (fst stamps) (sec_perf s)\<rparr>) = Some r'"
    by (auto simp: DVP_KernelGraphBoss_Process_def Let_def bind_eq_Some_conv)
  from process_loop_empty[OF this] assms show ?thesis by simp
qed simp

theorem process_empty_never_returns_witness:
  "DVP_KernelGraphBoss_Process (\<lambda>_ d. d) (0, 1) True ex_dvp (ex_section\<lparr>numNodes := 0\<rparr>) = None"
  by (rule process_empty_never_returns) simp

theorem process_balanced_witness:
  "\<exists>p d' s'. DVP_KernelGraphBoss_Process (\<lambda>_ d. d) (1, 5) False ex_dvp ex_ready = Some (p, d', s') \<and> d' = ex_dvp"
proof -
  have facts: "calls_ok ex_dvp" "nodes_on ex_dvp (pNodes ex_ready) (numNodes ex_ready)" "loads ex_dvp = Some ex_table"
    "numNodes ex_ready \<noteq> 0" "fits (coreLoad ex_ready) all_cores (ld_cores ex_table)"
    using ex_calls_ok section_ready_nodes_on[OF ex_ready_ready]
    by (simp_all add: ex_dvp_def ex_ready_def ex_section_def ex_table_def fits_def)
  let ?s = "ex_ready\<lparr>sec_perf := DVP_PerformanceStart 1 (sec_perf ex_ready)\<rparr>"
  obtain p d' s' where "process_loop alone 0 False ex_dvp ?s = Some (p, d', s')" "sec_perf s' = sec_perf ?s"
    using process_loop_commit[of ex_dvp ?s ex_table 0 False] facts by (auto split: prod.splits)
  then obtain p d' s' where r: "DVP_KernelGraphBoss_Process (\<lambda>_ d. d) (1, 5) False ex_dvp ex_ready = Some (p, d', s')"
    by (simp add: DVP_KernelGraphBoss_Process_def DVP_PerformanceStop_def DVP_PerformanceStart_def
        ex_ready_def ex_section_def ex_perf_def Let_def)
  from process_balanced[OF r] r show ?thesis by blast
qed

end
