(* ===== verification/Dvp_Rpc.thy ===== *)
theory Dvp_Rpc
  imports Sosal_BTreeSpec Sosal_Fph
begin

text \<open>
  The memory that the remote cores can reach, \<open>source/dvp/dvp_kgraph/dvp_rpc_omaprpc.c\<close>: every shared block of memory is
  associated with the handle that the driver needs for it. A pointer hash has the handle of the start of
  each block; a searchable list of address ranges finds the block around a pointer into it. The configuration is the
  Linux one of \<open>concerto/target.mak\<close>: \<open>DVP_USE_OMAPRPC\<close>, \<open>DVP_USE_BO\<close> and \<open>DVP_USE_SHARED_T\<close> are defined,
  \<open>DVP_USE_ION\<close>, \<open>DVP_USE_GRALLOC\<close> and \<open>DVP_USE_CAMERA_SERVICE\<close> are not.
\<close>

section \<open>The memory types\<close>

abbreviation DVP_MTYPE_MPUCACHED_VIRTUAL :: u32 where "DVP_MTYPE_MPUCACHED_VIRTUAL \<equiv> 0"
abbreviation DVP_MTYPE_MPUCACHED_1DTILED :: u32 where "DVP_MTYPE_MPUCACHED_1DTILED \<equiv> 1"
abbreviation DVP_MTYPE_MPUNONCACHED_1DTILED :: u32 where "DVP_MTYPE_MPUNONCACHED_1DTILED \<equiv> 2"
abbreviation DVP_MTYPE_MPUNONCACHED_2DTILED :: u32 where "DVP_MTYPE_MPUNONCACHED_2DTILED \<equiv> 3"
abbreviation DVP_MTYPE_DISPLAY_2DTILED :: u32 where "DVP_MTYPE_DISPLAY_2DTILED \<equiv> 4"
abbreviation DVP_MTYPE_GRALLOC_2DTILED :: u32 where "DVP_MTYPE_GRALLOC_2DTILED \<equiv> 5"
abbreviation DVP_MTYPE_MPUCACHED_VIRTUAL_SHARED :: u32 where "DVP_MTYPE_MPUCACHED_VIRTUAL_SHARED \<equiv> 6"

section \<open>The context\<close>

text \<open>
  \<open>range_nodes\<close> are the allocated list nodes of the ranges and \<open>spans\<close> the fields \<open>base\<close> and \<open>end\<close> behind their links. The mutex
  makes the operations atomic.
\<close>

record DVP_RPC_t =
  hndl_hash :: "fph_t option"
  ranges :: "btreelist_t option"
  range_nodes :: bnodes
  spans :: "nat \<Rightarrow> u32 \<times> u32"

definition dvp_mem_range_sort :: "(nat \<Rightarrow> u32 \<times> u32) \<Rightarrow> btreelistnode_sort" where
  "dvp_mem_range_sort sp node obj =
     (let r = sp node; s = sp obj in
      if snd s \<le> fst r then -1 else if snd r \<le> fst s then 1 else 0)"

definition dvp_mem_range_compare :: "(nat \<Rightarrow> u32 \<times> u32) \<Rightarrow> btreelistnode_compare" where
  "dvp_mem_range_compare sp node v =
     (let r = sp node in
      if fst r \<le> v \<and> v < snd r then 0 else if v < fst r then -1 else 1)"

text \<open>\<open>ok\<close> is the outcome of the allocations: of the context, the four of the hash, and of the list.\<close>

definition dvp_rpc_init :: "bool \<Rightarrow> bool \<times> bool \<times> bool \<times> bool \<Rightarrow> bool \<Rightarrow> DVP_RPC_t option" where
  "dvp_rpc_init ok ok_hash ok_list =
     (if ok
      then Some \<lparr>hndl_hash = map_option fst (fph_init ok_hash 64 64 None), ranges = btreelist_create ok_list,
        range_nodes = (\<lambda>_. None), spans = (\<lambda>_. (0, 0))\<rparr>
      else None)"

text \<open>Destroying the list dereferences it; what is left are the nodes that nobody frees.\<close>

definition dvp_rpc_deinit :: "DVP_RPC_t option \<Rightarrow> bnodes option" where
  "dvp_rpc_deinit rpc =
     (case rpc of
        None \<Rightarrow> Some (\<lambda>_. None)
      | Some r \<Rightarrow> do { l \<leftarrow> ranges r; btreelist_destroy l (range_nodes r) })"

section \<open>Handles\<close>

text \<open>
  A handle is a pointer to an object whose second word is a file descriptor; \<open>fd_at\<close> reads that word and is
  \<open>None\<close> where no object is, in particular at null.
\<close>

definition dvp_rpc_get_handle :: "(u32 \<Rightarrow> u32 option) \<Rightarrow> DVP_RPC_t option \<Rightarrow> u32 \<Rightarrow> u32 option" where
  "dvp_rpc_get_handle fd_at rpc ptr =
     (case rpc of
        None \<Rightarrow> Some 0
      | Some r \<Rightarrow>
          if ptr = 0 then Some 0
          else do {
            mrange \<leftarrow> btreelist_find (ranges r) (Some (dvp_mem_range_compare (spans r))) ptr (range_nodes r);
            f \<leftarrow> hndl_hash r;
            (found, handle) \<leftarrow> fph_get fph_hash f (case mrange of None \<Rightarrow> ptr | Some a \<Rightarrow> fst (spans r a));
            (if found \<noteq> 0 then fd_at handle else Some 0) })"

text \<open>The types of memory that can be associated.\<close>

definition remote_memory :: "u32 \<Rightarrow> bool" where
  "remote_memory mtype \<longleftrightarrow>
     mtype \<in> {DVP_MTYPE_MPUCACHED_1DTILED, DVP_MTYPE_MPUNONCACHED_1DTILED, DVP_MTYPE_MPUNONCACHED_2DTILED,
              DVP_MTYPE_MPUCACHED_VIRTUAL_SHARED}"

definition free_range :: "nat option \<Rightarrow> bnodes \<Rightarrow> bnodes" where
  "free_range q h = (case q of None \<Rightarrow> h | Some a \<Rightarrow> h(a := None))"

text \<open>
  \<open>ok\<close>: the allocation of the range, and of the array of the list when a range is added and removed. \<open>fresh\<close> is the address of the range.
  Without memory for it, the sorting function dereferences null.
\<close>

definition dvp_rpc_associate ::
  "bool \<times> bool \<times> bool \<Rightarrow> nat \<Rightarrow> DVP_RPC_t option \<Rightarrow> bool \<Rightarrow> u32 \<Rightarrow> u32 \<Rightarrow> u32 \<Rightarrow> u32 \<Rightarrow> (bool \<times> DVP_RPC_t option) option" where
  "dvp_rpc_associate ok fresh rpc mem ptr handle nbytes mtype =
     (case (ok, rpc) of
        (_, None) \<Rightarrow> Some (False, None)
      | ((ok1, ok2, ok3), Some r) \<Rightarrow>
          if \<not> mem \<or> ptr = 0 \<or> nbytes = 0 \<or> \<not> remote_memory mtype then Some (False, rpc)
          else if \<not> ok1 then None
          else
            let sp = (spans r)(fresh := (ptr, ptr + nbytes));
                zero = \<lparr>bn_next = None, bn_prev = None, bn_left = None, bn_right = None\<rparr>
            in do {
              l \<leftarrow> ranges r;
              (h1, l1) \<leftarrow> btreelist_add ok2 (dvp_mem_range_sort sp) l fresh ((range_nodes r)(fresh \<mapsto> zero));
              (stored, f1) \<leftarrow> fph_set fph_hash (hndl_hash r) ptr handle;
              (if stored = 0 then do {
                 (q, h2, l2) \<leftarrow> btreelist_remove ok3 (Some l1) (Some (dvp_mem_range_compare sp)) ptr h1;
                 Some (True, Some (r\<lparr>hndl_hash := f1, ranges := l2, range_nodes := free_range q h2, spans := sp\<rparr>)) }
               else Some (True, Some (r\<lparr>hndl_hash := f1, ranges := Some l1, range_nodes := h1, spans := sp\<rparr>))) })"

text \<open>The handle is returned through a pointer, which the search sets to null when it finds nothing.\<close>

definition dvp_rpc_dissociate ::
  "bool \<Rightarrow> DVP_RPC_t option \<Rightarrow> bool \<Rightarrow> u32 \<Rightarrow> u32 \<Rightarrow> u32 \<Rightarrow> u32 \<Rightarrow> (bool \<times> u32 \<times> DVP_RPC_t option) option" where
  "dvp_rpc_dissociate ok rpc mem ptr hdl nbytes mtype =
     (case rpc of
        None \<Rightarrow> Some (False, hdl, None)
      | Some r \<Rightarrow>
          if \<not> mem \<or> ptr = 0 \<or> nbytes = 0 \<or> \<not> remote_memory mtype then Some (False, hdl, rpc)
          else do {
            f \<leftarrow> hndl_hash r;
            (found, handle) \<leftarrow> fph_get fph_hash f ptr;
            (if found \<noteq> 0 then do {
               (_, f1) \<leftarrow> fph_set fph_hash (Some f) ptr 0;
               (q, h1, l1) \<leftarrow> btreelist_remove ok (ranges r) (Some (dvp_mem_range_compare (spans r))) ptr (range_nodes r);
               Some (True, handle, Some (r\<lparr>hndl_hash := f1, ranges := l1, range_nodes := free_range q h1\<rparr>)) }
             else Some (False, 0, rpc)) })"


section \<open>The map of associated blocks\<close>

definition span_before :: "(nat \<Rightarrow> u32 \<times> u32) \<Rightarrow> nat \<Rightarrow> nat \<Rightarrow> bool" where
  "span_before sp a b \<longleftrightarrow> snd (sp a) \<le> fst (sp b)"

interpretation range_order: btree_order "dvp_mem_range_sort sp" "dvp_mem_range_compare sp" "span_before sp"
    "\<lambda>a. fst (sp a) < snd (sp a)" for sp :: "nat \<Rightarrow> u32 \<times> u32"
proof
  fix a b c v
  assume a: "fst (sp a) < snd (sp a)"
  show "dvp_mem_range_compare sp a v = -1 \<or> dvp_mem_range_compare sp a v = 0 \<or> dvp_mem_range_compare sp a v = 1"
    by (simp add: dvp_mem_range_compare_def Let_def)
  assume b: "fst (sp b) < snd (sp b)"
  have asym: "span_before sp a b \<Longrightarrow> \<not> span_before sp b a" using a b by (auto simp: span_before_def)
  then show "span_before sp a b \<Longrightarrow> \<not> span_before sp b a" .
  show "dvp_mem_range_sort sp a b = (if span_before sp a b then 1 else if span_before sp b a then -1 else 0)"
    using asym by (auto simp: dvp_mem_range_sort_def span_before_def Let_def)
  show "dvp_mem_range_compare sp b v = -1" if "span_before sp a b" "dvp_mem_range_compare sp a v \<noteq> 1"
    using a b that by (auto simp: dvp_mem_range_compare_def span_before_def Let_def split: if_splits)
  show "span_before sp a c" if "fst (sp c) < snd (sp c)" "span_before sp a b" "span_before sp b c"
    using b that by (auto simp: span_before_def)
qed

text \<open>
  \<open>A\<close> maps the start of each associated block to its end and its handle. The ranges are exactly the blocks, disjoint and in order. The
  hash has the handle of each; for any other pointer it has nothing or a null left by a block that is gone.
\<close>

definition rpc_repr :: "DVP_RPC_t \<Rightarrow> (u32 \<Rightarrow> (u32 \<times> u32) option) \<Rightarrow> bool" where
  "rpc_repr r A \<longleftrightarrow>
     (\<exists>f l xs. hndl_hash r = Some f \<and> ranges r = Some l \<and> fph_wf f \<and>
        btl_ordered (span_before (spans r)) (range_nodes r) l xs \<and>
        (\<forall>a \<in> set xs. fst (spans r a) < snd (spans r a)) \<and>
        (\<forall>p e. (\<exists>h. A p = Some (e, h)) \<longleftrightarrow> (p, e) \<in> spans r ` set xs) \<and>
        A 0 = None \<and>
        (\<forall>p. p \<noteq> 0 \<longrightarrow> (case A p of
           Some (_, h) \<Rightarrow> fph_get fph_hash f p = Some (1, h)
         | None \<Rightarrow> \<exists>c. fph_get fph_hash f p = Some (c, 0))))"

text \<open>\<open>rpc_room\<close>: the block of the hash that the pointer belongs to has a slot for it.\<close>

definition rpc_room :: "DVP_RPC_t \<Rightarrow> u32 \<Rightarrow> bool" where
  "rpc_room r ptr = (case hndl_hash r of None \<Rightarrow> False
     | Some f \<Rightarrow> list_ex (\<lambda>e. kv_key e = ptr \<or> kv_key e = 0) (fph_block f (the (fph_hash f ptr))))"

lemma rpc_init_repr:
  "\<exists>r. dvp_rpc_init True (True, True, True, True) True = Some r \<and> rpc_repr r Map.empty \<and> rpc_room r ptr \<and>
     range_nodes r = (\<lambda>_. None)"
proof -
  obtain f where f: "fph_init (True, True, True, True) 64 64 None = Some (f, fph_hash)" "fph_wf f"
      "f_numBlocks f = 64" "f_blockSize f = 64" "f_hash f = Some (replicate (64 * 64) \<lparr>kv_key = 0, kv_value = 0\<rparr>)"
    using fph_init_wf[of 64 64 None] by auto
  have "fph_get fph_hash f p = Some (0, 0)" if "p \<noteq> 0" for p
  proof -
    have "\<not> has_key p e" if "e \<in> set (fph_block f i)" for e i
      using that \<open>p \<noteq> 0\<close> set_take_subset[of 64 "drop i (replicate (64 * 64) \<lparr>kv_key = 0, kv_value = 0\<rparr>)"] f(4,5)
      by (auto simp: fph_block_def has_key_def simp del: take_replicate drop_replicate dest!: in_set_takeD in_set_dropD)
    then show ?thesis by (simp add: default_keys.get_find[OF f(2)] find_None_iff[THEN iffD2])
  qed
  moreover obtain l where "btreelist_create True = Some l" by (simp add: btreelist_create_def)
  moreover note btl_repr_empty[OF this]
  moreover obtain b where "b < f_numBlocks f" "fph_hash f ptr = Some (b * f_blockSize f)"
    using default_keys.kf_block[OF f(2)] by blast
  then have "fph_block f (the (fph_hash f ptr)) = replicate 64 \<lparr>kv_key = 0, kv_value = 0\<rparr>"
    using f(3-5) by (simp add: fph_block_def)
  ultimately show ?thesis using f(1,2)
    by (simp add: dvp_rpc_init_def rpc_repr_def rpc_room_def list_ex_iff)
qed

lemma rpc_find:
  assumes "rpc_repr r A" and "A p = Some (e, h)" and "p \<le> q" and "q < e"
  obtains a where "btreelist_find (ranges r) (Some (dvp_mem_range_compare (spans r))) q (range_nodes r) = Some (Some a)"
    and "spans r a = (p, e)"
proof -
  obtain l xs where l: "ranges r = Some l" "btl_ordered (span_before (spans r)) (range_nodes r) l xs"
      "\<forall>a \<in> set xs. fst (spans r a) < snd (spans r a)" "(p, e) \<in> spans r ` set xs"
    using assms(1,2) unfolding rpc_repr_def by metis
  obtain b where b: "b \<in> set xs" "spans r b = (p, e)" using l(4) by auto
  then have hit: "dvp_mem_range_compare (spans r) b q = 0" using assms(3,4) by (simp add: dvp_mem_range_compare_def)
  obtain m where m: "btreelist_find (Some l) (Some (dvp_mem_range_compare (spans r))) q (range_nodes r) = Some m"
      "case m of None \<Rightarrow> \<forall>a \<in> set xs. dvp_mem_range_compare (spans r) a q \<noteq> 0
       | Some a \<Rightarrow> a \<in> set xs \<and> dvp_mem_range_compare (spans r) a q = 0"
    using range_order.find_repr[OF l(2,3), of q] by blast
  then obtain a where a: "m = Some a" "a \<in> set xs" "dvp_mem_range_compare (spans r) a q = 0"
    using b hit by (cases m) auto
  have "a = b"
  proof (rule ccontr)
    assume "a \<noteq> b"
    then have "span_before (spans r) a b \<or> span_before (spans r) b a"
      using l(2) a(2) b(1) unfolding btl_ordered_def by (metis nodes_order_total)
    then show False using a(3) hit range_order.cmp_left l(3) a(2) b(1) by force
  qed
  then show thesis using that m(1) a(1) l(1) b(2) by simp
qed

text \<open>Any pointer into a block is as good as its start.\<close>

lemma rpc_handle_inside:
  assumes "rpc_repr r A" and "A p = Some (e, h)" and "p \<le> q" and "q < e"
  shows "dvp_rpc_get_handle fd_at (Some r) q = fd_at h"
proof -
  have "p \<noteq> 0" using assms(1,2) by (auto simp: rpc_repr_def)
  moreover obtain a where "btreelist_find (ranges r) (Some (dvp_mem_range_compare (spans r))) q (range_nodes r) = Some (Some a)"
      "spans r a = (p, e)"
    using rpc_find[OF assms] by blast
  moreover obtain f where "hndl_hash r = Some f" "fph_get fph_hash f p = Some (1, h)"
    using assms(1,2) \<open>p \<noteq> 0\<close> unfolding rpc_repr_def by force
  moreover have "q \<noteq> 0" using assms(3) \<open>p \<noteq> 0\<close> by auto
  ultimately show ?thesis by (simp add: dvp_rpc_get_handle_def)
qed

lemma image_without:
  assumes "\<And>a. a \<in> S \<Longrightarrow> (fst (g a) = k) = (a = b)"
  shows "(p, e) \<in> g ` (S - {b}) \<longleftrightarrow> (p, e) \<in> g ` S \<and> p \<noteq> k"
proof
  assume "(p, e) \<in> g ` (S - {b})"
  then obtain a where a: "a \<in> S" "a \<noteq> b" "(p, e) = g a" by blast
  then have "p = fst (g a)" by (metis fst_conv)
  then show "(p, e) \<in> g ` S \<and> p \<noteq> k" using assms[OF a(1)] a by simp
next
  assume "(p, e) \<in> g ` S \<and> p \<noteq> k"
  then obtain a where a: "a \<in> S" "(p, e) = g a" "p \<noteq> k" by blast
  then have "p = fst (g a)" by (metis fst_conv)
  then have "a \<noteq> b" using assms[OF a(1)] a(3) by simp
  then show "(p, e) \<in> g ` (S - {b})" using a by simp
qed

text \<open>What the two operations have in common: how the parts determine the map.\<close>

lemma rpc_reprI:
  assumes "hndl_hash r = Some f" and "ranges r = Some l" and "fph_wf f"
    and "btl_ordered (span_before (spans r)) (range_nodes r) l xs" and "\<And>a. a \<in> set xs \<Longrightarrow> fst (spans r a) < snd (spans r a)"
    and "\<And>p e. (\<exists>h. A p = Some (e, h)) \<longleftrightarrow> (p, e) \<in> spans r ` set xs" and "A 0 = None"
    and "\<And>p. p \<noteq> 0 \<Longrightarrow> (case A p of Some (_, h) \<Rightarrow> fph_get fph_hash f p = Some (1, h)
       | None \<Rightarrow> \<exists>c. fph_get fph_hash f p = Some (c, 0))"
  shows "rpc_repr r A"
  using assms unfolding rpc_repr_def by blast

text \<open>The place for a new block: the state in which the list has its range and the hash is not changed yet.\<close>

lemma rpc_add_range:
  assumes "hndl_hash r = Some f" and "ranges r = Some l"
    and "btl_ordered (span_before (spans r)) (range_nodes r) l xs" and "\<And>a. a \<in> set xs \<Longrightarrow> fst (spans r a) < snd (spans r a)"
    and "\<And>a. a \<in> set xs \<Longrightarrow> snd (spans r a) \<le> ptr \<or> e \<le> fst (spans r a)" and "ptr < e" and "range_nodes r fresh = None"
  defines "sp \<equiv> (spans r)(fresh := (ptr, e))"
  obtains h1 l1 ys where "btreelist_add True (dvp_mem_range_sort sp) l fresh
      ((range_nodes r)(fresh \<mapsto> \<lparr>bn_next = None, bn_prev = None, bn_left = None, bn_right = None\<rparr>)) = Some (h1, l1)"
    "btl_ordered (span_before sp) h1 l1 ys" "set ys = insert fresh (set xs)" "fresh \<notin> set xs"
proof -
  let ?h = "(range_nodes r)(fresh \<mapsto> \<lparr>bn_next = None, bn_prev = None, bn_left = None, bn_right = None\<rparr>)"
  have new: "fresh \<notin> set xs" using btl_list_alloc[of "range_nodes r" l xs] assms(3,7) unfolding btl_ordered_def by blast
  have same: "a \<in> set xs \<Longrightarrow> sp a = spans r a" for a using new by (auto simp: sp_def)
  have ok: "\<forall>a \<in> set (fresh # xs). fst (sp a) < snd (sp a)" using assms(4,6) same by (simp add: sp_def)
  have "btl_ordered (span_before sp) ?h l xs"
    using assms(3) new same by (intro btl_ordered_cong[OF assms(3)]) (auto simp: span_before_def)
  then obtain h1 l1 where add: "btreelist_add True (dvp_mem_range_sort sp) l fresh ?h = Some (h1, l1)"
      "btl_ordered (span_before sp) h1 l1 (if clashes (span_before sp) fresh xs then xs else placed (span_before sp) fresh xs)"
    using range_order.add_repr[of sp ?h l xs fresh] new ok by auto
  have free: "\<not> clashes (span_before sp) fresh xs"
  proof
    assume "clashes (span_before sp) fresh xs"
    then obtain a where a: "a \<in> set xs" "\<not> snd (sp a) \<le> fst (sp fresh)" "\<not> snd (sp fresh) \<le> fst (sp a)"
      by (auto simp: clashes_def span_before_def)
    then show False using assms(5)[OF a(1)] same[OF a(1)] by (simp add: sp_def)
  qed
  then show thesis using that[OF add(1)] add(2) set_placed[OF free] new by simp
qed

lemma rpc_associate_stored:
  assumes "rpc_repr r A" and "hndl_hash r = Some f"
    and "ptr \<noteq> 0" and "ptr < ptr + nbytes" and "nbytes \<noteq> 0" and "remote_memory mtype"
    and "\<And>p e h. A p = Some (e, h) \<Longrightarrow> e \<le> ptr \<or> ptr + nbytes \<le> p" and "range_nodes r fresh = None"
    and "\<exists>e \<in> set (fph_block f (the (fph_hash f ptr))). kv_key e = ptr \<or> kv_key e = 0"
  shows "\<exists>r'. dvp_rpc_associate (True, True, True) fresh (Some r) True ptr handle nbytes mtype = Some (True, Some r') \<and>
     rpc_repr r' (A(ptr \<mapsto> (ptr + nbytes, handle)))"
proof -
  obtain l xs where r: "ranges r = Some l" "fph_wf f" "btl_ordered (span_before (spans r)) (range_nodes r) l xs"
      "\<And>a. a \<in> set xs \<Longrightarrow> fst (spans r a) < snd (spans r a)"
      "\<And>p e. (\<exists>h. A p = Some (e, h)) \<longleftrightarrow> (p, e) \<in> spans r ` set xs" "A 0 = None"
      "\<And>p. p \<noteq> 0 \<Longrightarrow> (case A p of Some (_, h) \<Rightarrow> fph_get fph_hash f p = Some (1, h)
         | None \<Rightarrow> \<exists>c. fph_get fph_hash f p = Some (c, 0))"
    using assms(1,2) unfolding rpc_repr_def by force
  have apart: "snd (spans r a) \<le> ptr \<or> ptr + nbytes \<le> fst (spans r a)" if "a \<in> set xs" for a
    using that r(5)[of "fst (spans r a)" "snd (spans r a)"] assms(7) by force
  obtain h1 l1 ys where add: "btreelist_add True (dvp_mem_range_sort ((spans r)(fresh := (ptr, ptr + nbytes)))) l fresh
        ((range_nodes r)(fresh \<mapsto> \<lparr>bn_next = None, bn_prev = None, bn_left = None, bn_right = None\<rparr>)) = Some (h1, l1)"
      "btl_ordered (span_before ((spans r)(fresh := (ptr, ptr + nbytes)))) h1 l1 ys" "set ys = insert fresh (set xs)" "fresh \<notin> set xs"
    using rpc_add_range[OF assms(2) r(1,3,4) apart assms(4,8)] by blast
  obtain f1 where f1: "fph_set fph_hash (Some f) ptr handle = Some (1, Some f1)" "fph_wf f1"
      "\<forall>k. k \<noteq> 0 \<longrightarrow> fph_get fph_hash f1 k = (if k = ptr then Some (1, handle) else fph_get fph_hash f k)"
    using fph_set_ok[OF r(2) assms(3,9)] by blast
  let ?sp = "(spans r)(fresh := (ptr, ptr + nbytes))"
  let ?r = "r\<lparr>hndl_hash := Some f1, ranges := Some l1, range_nodes := h1, spans := ?sp\<rparr>"
  have img: "?sp ` set ys = insert (ptr, ptr + nbytes) (spans r ` set xs)" using add(3,4) by auto
  have "A ptr = None"
  proof (rule ccontr)
    assume "A ptr \<noteq> None"
    then obtain e h where e: "A ptr = Some (e, h)" by auto
    then have "(ptr, e) \<in> spans r ` set xs" using r(5) by blast
    then obtain a where "a \<in> set xs" "spans r a = (ptr, e)" by auto
    then have "ptr < e" using r(4)[of a] by simp
    then show False using assms(7)[OF e] assms(4) leD[of "ptr + nbytes" ptr] leD[of e ptr] by blast
  qed
  have "rpc_repr ?r (A(ptr \<mapsto> (ptr + nbytes, handle)))"
  proof (rule rpc_reprI[of _ f1 l1 ys])
    fix a assume "a \<in> set ys"
    then show "fst (spans ?r a) < snd (spans ?r a)" using add(3) r(4) assms(4) by auto
  next
    fix p e
    show "(\<exists>h. (A(ptr \<mapsto> (ptr + nbytes, handle))) p = Some (e, h)) \<longleftrightarrow> (p, e) \<in> spans ?r ` set ys"
      using img r(5)[of p e] \<open>A ptr = None\<close> by auto
  next
    fix p :: u32 assume "p \<noteq> 0"
    then show "case (A(ptr \<mapsto> (ptr + nbytes, handle))) p of Some (_, h) \<Rightarrow> fph_get fph_hash f1 p = Some (1, h)
       | None \<Rightarrow> \<exists>c. fph_get fph_hash f1 p = Some (c, 0)"
      using f1(3)[rule_format, OF \<open>p \<noteq> 0\<close>] r(7)[OF \<open>p \<noteq> 0\<close>] by (cases "A p") auto
  qed (use f1 add(2) r(6) assms(3) in auto)
  moreover have "dvp_rpc_associate (True, True, True) fresh (Some r) True ptr handle nbytes mtype = Some (True, Some ?r)"
    using assms(2,3,5,6) r(1) add(1) f1(1) by (simp add: dvp_rpc_associate_def Let_def)
  ultimately show ?thesis by blast
qed

lemma rpc_associate_full:
  assumes "rpc_repr r A" and "hndl_hash r = Some f"
    and "ptr \<noteq> 0" and "ptr < ptr + nbytes" and "nbytes \<noteq> 0" and "remote_memory mtype"
    and "\<And>p e h. A p = Some (e, h) \<Longrightarrow> e \<le> ptr \<or> ptr + nbytes \<le> p" and "range_nodes r fresh = None"
    and "\<not> (\<exists>e \<in> set (fph_block f (the (fph_hash f ptr))). kv_key e = ptr \<or> kv_key e = 0)"
  shows "\<exists>r'. dvp_rpc_associate (True, True, True) fresh (Some r) True ptr handle nbytes mtype = Some (True, Some r') \<and>
     rpc_repr r' A"
proof -
  obtain l xs where r: "ranges r = Some l" "fph_wf f" "btl_ordered (span_before (spans r)) (range_nodes r) l xs"
      "\<And>a. a \<in> set xs \<Longrightarrow> fst (spans r a) < snd (spans r a)"
      "\<And>p e. (\<exists>h. A p = Some (e, h)) \<longleftrightarrow> (p, e) \<in> spans r ` set xs" "A 0 = None"
      "\<And>p. p \<noteq> 0 \<Longrightarrow> (case A p of Some (_, h) \<Rightarrow> fph_get fph_hash f p = Some (1, h)
         | None \<Rightarrow> \<exists>c. fph_get fph_hash f p = Some (c, 0))"
    using assms(1,2) unfolding rpc_repr_def by force
  have apart: "snd (spans r a) \<le> ptr \<or> ptr + nbytes \<le> fst (spans r a)" if "a \<in> set xs" for a
    using that r(5)[of "fst (spans r a)" "snd (spans r a)"] assms(7) by force
  let ?sp = "(spans r)(fresh := (ptr, ptr + nbytes))"
  obtain h1 l1 ys where add: "btreelist_add True (dvp_mem_range_sort ?sp) l fresh
        ((range_nodes r)(fresh \<mapsto> \<lparr>bn_next = None, bn_prev = None, bn_left = None, bn_right = None\<rparr>)) = Some (h1, l1)"
      "btl_ordered (span_before ?sp) h1 l1 ys" "set ys = insert fresh (set xs)" "fresh \<notin> set xs"
    using rpc_add_range[OF assms(2) r(1,3,4) apart assms(4,8)] by blast
  have ok: "\<forall>a \<in> set ys. fst (?sp a) < snd (?sp a)" using add(3) r(4) assms(4) by auto
  obtain q h2 l2 where rem: "btreelist_remove True (Some l1) (Some (dvp_mem_range_compare ?sp)) ptr h1 = Some (q, h2, Some l2)"
      "btl_ordered (span_before ?sp) h2 l2 (filter (\<lambda>a. dvp_mem_range_compare ?sp a ptr \<noteq> 0) ys)"
      "case q of None \<Rightarrow> \<forall>a \<in> set ys. dvp_mem_range_compare ?sp a ptr \<noteq> 0
       | Some a \<Rightarrow> a \<in> set ys \<and> dvp_mem_range_compare ?sp a ptr = 0 \<and>
           h2 a = Some \<lparr>bn_next = None, bn_prev = None, bn_left = None, bn_right = None\<rparr>"
    using range_order.remove_repr[OF add(2) ok, of ptr] by blast
  have hit: "dvp_mem_range_compare ?sp fresh ptr = 0" using assms(4) by (simp add: dvp_mem_range_compare_def)
  have miss: "dvp_mem_range_compare ?sp a ptr \<noteq> 0" if "a \<in> set xs" for a
    using apart[OF that] r(4)[OF that] assms(4) that add(4)
    by (auto simp: dvp_mem_range_compare_def Let_def not_less)
  have left: "set (filter (\<lambda>a. dvp_mem_range_compare ?sp a ptr \<noteq> 0) ys) = set xs" using add(3,4) hit miss by auto
  have q: "q = Some fresh" using rem(3) add(3) hit miss by (cases q) auto
  let ?f = "f\<lparr>f_numMisses := f_numMisses f + 1\<rparr>" let ?h = "h2(fresh := None)"
  let ?r = "r\<lparr>hndl_hash := Some ?f, ranges := Some l2, range_nodes := ?h, spans := ?sp\<rparr>"
  have wf: "fph_wf ?f" using r(2) by (simp add: fph_wf_def)
  have get: "fph_get fph_hash ?f p = fph_get fph_hash f p" for p
    using default_keys.get_find[OF wf, of p] default_keys.get_find[OF r(2), of p] by (simp add: fph_hash_def fph_block_def)
  have "rpc_repr ?r A"
  proof (rule rpc_reprI[of _ ?f l2 "filter (\<lambda>a. dvp_mem_range_compare ?sp a ptr \<noteq> 0) ys"], unfold left)
    have "btl_ordered (span_before ?sp) ?h l2 (filter (\<lambda>a. dvp_mem_range_compare ?sp a ptr \<noteq> 0) ys)"
      using hit by (intro btl_ordered_cong[OF rem(2)]) auto
    then show "btl_ordered (span_before (spans ?r)) (range_nodes ?r) l2 (filter (\<lambda>a. dvp_mem_range_compare ?sp a ptr \<noteq> 0) ys)"
      by simp
  next
    fix p e
    show "(\<exists>h. A p = Some (e, h)) \<longleftrightarrow> (p, e) \<in> spans ?r ` set xs" using r(5)[of p e] add(4) by auto
  next
    fix p :: u32 assume "p \<noteq> 0"
    then show "case A p of Some (_, h) \<Rightarrow> fph_get fph_hash ?f p = Some (1, h) | None \<Rightarrow> \<exists>c. fph_get fph_hash ?f p = Some (c, 0)"
      unfolding get by (rule r(7))
  qed (use wf r(4,6) add(4) in auto)
  moreover have "dvp_rpc_associate (True, True, True) fresh (Some r) True ptr handle nbytes mtype = Some (True, Some ?r)"
    using assms(2,3,5,6) r(1) add(1) rem(1) q fph_set_full[OF r(2) assms(3,9), of handle]
    by (simp add: dvp_rpc_associate_def Let_def free_range_def)
  ultimately show ?thesis by blast
qed

lemma rpc_dissociate_stored:
  assumes "rpc_repr r A" and "A ptr = Some (e, h)" and "nbytes \<noteq> 0" and "remote_memory mtype"
  shows "\<exists>r'. dvp_rpc_dissociate True (Some r) True ptr hdl nbytes mtype = Some (True, h, Some r') \<and> rpc_repr r' (A(ptr := None)) \<and>
     dvp_rpc_get_handle fd_at (Some r') ptr = fd_at 0"
proof -
  obtain f l xs where r: "hndl_hash r = Some f" "ranges r = Some l" "fph_wf f"
      "btl_ordered (span_before (spans r)) (range_nodes r) l xs"
      "\<forall>a \<in> set xs. fst (spans r a) < snd (spans r a)"
      "\<And>p e. (\<exists>h. A p = Some (e, h)) \<longleftrightarrow> (p, e) \<in> spans r ` set xs" "A 0 = None"
      "\<And>p. p \<noteq> 0 \<Longrightarrow> (case A p of Some (_, h) \<Rightarrow> fph_get fph_hash f p = Some (1, h)
         | None \<Rightarrow> \<exists>c. fph_get fph_hash f p = Some (c, 0))"
    using assms(1) unfolding rpc_repr_def by force
  have ptr: "ptr \<noteq> 0" using assms(2) r(7) by auto
  have get: "fph_get fph_hash f ptr = Some (1, h)" using r(8)[OF ptr] assms(2) by simp
  then have "\<exists>e \<in> set (fph_block f (the (fph_hash f ptr))). kv_key e = ptr \<or> kv_key e = 0"
    unfolding default_keys.get_find[OF r(3)] by (auto simp: find_Some_iff has_key_def split: option.splits)
  then obtain f1 where f1: "fph_set fph_hash (Some f) ptr 0 = Some (1, Some f1)" "fph_wf f1"
      "\<forall>k. k \<noteq> 0 \<longrightarrow> fph_get fph_hash f1 k = (if k = ptr then Some (1, 0) else fph_get fph_hash f k)"
    using fph_set_ok[OF r(3) ptr] by blast
  let ?cmp = "dvp_mem_range_compare (spans r)"
  obtain q h1 l1 where rem: "btreelist_remove True (Some l) (Some ?cmp) ptr (range_nodes r) = Some (q, h1, Some l1)"
      "btl_ordered (span_before (spans r)) h1 l1 (filter (\<lambda>a. ?cmp a ptr \<noteq> 0) xs)"
      "case q of None \<Rightarrow> \<forall>a \<in> set xs. ?cmp a ptr \<noteq> 0
       | Some a \<Rightarrow> a \<in> set xs \<and> ?cmp a ptr = 0 \<and>
           h1 a = Some \<lparr>bn_next = None, bn_prev = None, bn_left = None, bn_right = None\<rparr>"
    using range_order.remove_repr[OF r(4,5), of ptr] by blast
  obtain b where b: "b \<in> set xs" "spans r b = (ptr, e)" using r(6)[of ptr e] assms(2) by auto
  have "ptr < e" using bspec[OF r(5) b(1)] b(2) by simp
  have hit: "?cmp a ptr = 0 \<longleftrightarrow> a = b" if "a \<in> set xs" for a
  proof
    assume "a = b" then show "?cmp a ptr = 0" using b(2) \<open>ptr < e\<close> by (simp add: dvp_mem_range_compare_def)
  next
    assume c: "?cmp a ptr = 0"
    show "a = b"
    proof (rule ccontr)
      assume "a \<noteq> b"
      then have "span_before (spans r) a b \<or> span_before (spans r) b a"
        using r(4) that b(1) unfolding btl_ordered_def by (metis nodes_order_total)
      then show False using c b(2) \<open>ptr < e\<close> by (auto simp: dvp_mem_range_compare_def span_before_def Let_def split: if_splits)
    qed
  qed
  have left: "set (filter (\<lambda>a. ?cmp a ptr \<noteq> 0) xs) = set xs - {b}" using hit by auto
  have q: "q = Some b" using rem(3) hit b(1) by (cases q) auto
  let ?r = "r\<lparr>hndl_hash := Some f1, ranges := Some l1, range_nodes := h1(b := None)\<rparr>"
  have inj: "(p, e') \<in> spans r ` (set xs - {b}) \<longleftrightarrow> (p, e') \<in> spans r ` set xs \<and> p \<noteq> ptr" for p e'
  proof -
    have "(fst (spans r a) = ptr) = (a = b)" if a: "a \<in> set xs" for a
    proof
      assume "fst (spans r a) = ptr"
      then show "a = b" using hit[OF a] bspec[OF r(5) a] by (simp add: dvp_mem_range_compare_def Let_def)
    qed (simp add: b(2))
    then show ?thesis by (rule image_without)
  qed
  have rep: "rpc_repr ?r (A(ptr := None))"
  proof (rule rpc_reprI[of _ f1 l1 "filter (\<lambda>a. ?cmp a ptr \<noteq> 0) xs"], unfold left)
    have "btl_ordered (span_before (spans r)) (h1(b := None)) l1 (filter (\<lambda>a. ?cmp a ptr \<noteq> 0) xs)"
      using hit b(1) by (intro btl_ordered_cong[OF rem(2)]) auto
    then show "btl_ordered (span_before (spans ?r)) (range_nodes ?r) l1 (filter (\<lambda>a. ?cmp a ptr \<noteq> 0) xs)" by simp
  next
    fix p e'
    show "(\<exists>h. (A(ptr := None)) p = Some (e', h)) \<longleftrightarrow> (p, e') \<in> spans ?r ` (set xs - {b})"
      using r(6)[of p e'] inj[of p e'] by simp
  next
    fix p :: u32 assume "p \<noteq> 0"
    then show "case (A(ptr := None)) p of Some (_, h) \<Rightarrow> fph_get fph_hash f1 p = Some (1, h)
       | None \<Rightarrow> \<exists>c. fph_get fph_hash f1 p = Some (c, 0)"
      using f1(3)[rule_format, OF \<open>p \<noteq> 0\<close>] r(8)[OF \<open>p \<noteq> 0\<close>] by (cases "A p") auto
  qed (use f1(2) r(5,7) in auto)
  have "btreelist_find (Some l1) (Some ?cmp) ptr (h1(b := None)) = Some None"
  proof -
    let ?ys = "filter (\<lambda>a. ?cmp a ptr \<noteq> 0) xs"
    have "btl_ordered (span_before (spans r)) (h1(b := None)) l1 ?ys"
      using hit b(1) by (intro btl_ordered_cong[OF rem(2)]) auto
    then obtain m where m: "btreelist_find (Some l1) (Some ?cmp) ptr (h1(b := None)) = Some m"
        "case m of None \<Rightarrow> \<forall>a \<in> set ?ys. ?cmp a ptr \<noteq> 0 | Some a \<Rightarrow> a \<in> set ?ys \<and> ?cmp a ptr = 0"
      using range_order.find_repr[of "spans r" "h1(b := None)" l1 ?ys ptr] r(5) by auto
    then show ?thesis by (cases m) auto
  qed
  then have "dvp_rpc_get_handle fd_at (Some ?r) ptr = fd_at 0" using ptr f1(3) by (simp add: dvp_rpc_get_handle_def)
  moreover have "dvp_rpc_dissociate True (Some r) True ptr hdl nbytes mtype = Some (True, h, Some ?r)"
    using r(1,2) ptr assms(3,4) get f1(1) rem(1) q by (simp add: dvp_rpc_dissociate_def free_range_def)
  ultimately show ?thesis using rep by blast
qed


section \<open>Properties\<close>

text \<open>C37. A block of memory apart from the associated ones is added to them by \<open>dvp_rpc_associate\<close>, and from then on every pointer into
  it, not only its start, yields the file descriptor of its handle. When the 64 slots of its block in the hash are all taken, nothing is
  associated; the result is true in both cases.\<close>

theorem rpc_associate_refines:
  assumes "rpc_repr r A" and "ptr \<noteq> 0" and "ptr < ptr + nbytes" and "nbytes \<noteq> 0" and "remote_memory mtype"
    and "\<And>p e h. A p = Some (e, h) \<Longrightarrow> e \<le> ptr \<or> ptr + nbytes \<le> p" and "range_nodes r fresh = None"
  shows "\<exists>r'. dvp_rpc_associate (True, True, True) fresh (Some r) True ptr handle nbytes mtype = Some (True, Some r') \<and>
     (if rpc_room r ptr
      then rpc_repr r' (A(ptr \<mapsto> (ptr + nbytes, handle))) \<and>
        (\<forall>q. ptr \<le> q \<and> q < ptr + nbytes \<longrightarrow> dvp_rpc_get_handle fd_at (Some r') q = fd_at handle)
      else rpc_repr r' A)"
proof -
  obtain f where f: "hndl_hash r = Some f" using assms(1) unfolding rpc_repr_def by blast
  show ?thesis
  proof (cases "rpc_room r ptr")
    case True
    then have "\<exists>e \<in> set (fph_block f (the (fph_hash f ptr))). kv_key e = ptr \<or> kv_key e = 0"
      by (simp add: rpc_room_def f list_ex_iff)
    from rpc_associate_stored[OF assms(1) f assms(2-7) this] show ?thesis
      using True rpc_handle_inside[of _ "A(ptr \<mapsto> (ptr + nbytes, handle))" ptr] by fastforce
  next
    case False
    then have "\<not> (\<exists>e \<in> set (fph_block f (the (fph_hash f ptr))). kv_key e = ptr \<or> kv_key e = 0)"
      by (simp add: rpc_room_def f list_ex_iff)
    from rpc_associate_full[OF assms(1) f assms(2-7) this] show ?thesis using False by simp
  qed
qed

lemma rpc_associate_refines_witness:
  "\<exists>r r'. dvp_rpc_init True (True, True, True, True) True = Some r \<and>
     dvp_rpc_associate (True, True, True) 0 (Some r) True 0x10000 0x80 0x1000 DVP_MTYPE_MPUCACHED_1DTILED = Some (True, Some r') \<and>
     dvp_rpc_get_handle (\<lambda>h. if h = 0x80 then Some 7 else None) (Some r') 0x10FFF = Some 7"
proof -
  obtain r where r: "dvp_rpc_init True (True, True, True, True) True = Some r" "rpc_repr r Map.empty" "rpc_room r 0x10000"
      "range_nodes r = (\<lambda>_. None)"
    using rpc_init_repr by blast
  then show ?thesis
    using rpc_associate_refines[OF r(2), of "0x10000" "0x1000" DVP_MTYPE_MPUCACHED_1DTILED 0 "0x80" "\<lambda>h. if h = 0x80 then Some 7 else None"]
    by (auto simp: remote_memory_def)
qed

text \<open>\<open>dvp_rpc_dissociate\<close> returns the handle of an associated block and removes exactly that block. The start of the block stays a key
  of the hash, with a null handle: asking for its handle afterwards reads a file descriptor through the null pointer.\<close>

theorem rpc_dissociate_refines:
  assumes "rpc_repr r A" and "A ptr = Some (e, h)" and "nbytes \<noteq> 0" and "remote_memory mtype" and "fd_at 0 = None"
  shows "\<exists>r'. dvp_rpc_dissociate True (Some r) True ptr hdl nbytes mtype = Some (True, h, Some r') \<and>
     rpc_repr r' (A(ptr := None)) \<and> dvp_rpc_get_handle fd_at (Some r') ptr = None"
  using rpc_dissociate_stored[OF assms(1-4), of hdl fd_at] assms(5) by simp

lemma rpc_dissociate_refines_witness:
  "\<exists>r1 r2. dvp_rpc_dissociate True (Some r1) True 0x10000 0 0x1000 DVP_MTYPE_MPUCACHED_1DTILED = Some (True, 0x80, Some r2) \<and>
     dvp_rpc_get_handle (\<lambda>h. if h = 0x80 then Some 7 else None) (Some r1) 0x10000 = Some 7 \<and>
     dvp_rpc_get_handle (\<lambda>h. if h = 0x80 then Some 7 else None) (Some r2) 0x10000 = None"
proof -
  let ?fd = "\<lambda>h :: u32. if h = 0x80 then Some (7 :: u32) else None"
  obtain r where r: "rpc_repr r Map.empty" "rpc_room r 0x10000" "range_nodes r = (\<lambda>_. None)"
    using rpc_init_repr by blast
  obtain f where f: "hndl_hash r = Some f" using r(1) unfolding rpc_repr_def by blast
  have "\<exists>e \<in> set (fph_block f (the (fph_hash f 0x10000))). kv_key e = 0x10000 \<or> kv_key e = 0"
    using r(2) by (simp add: rpc_room_def f list_ex_iff)
  then obtain r1 where r1: "rpc_repr r1 (Map.empty(0x10000 \<mapsto> (0x11000, 0x80)))"
    using rpc_associate_stored[OF r(1) f, of "0x10000" "0x1000" DVP_MTYPE_MPUCACHED_1DTILED 0 "0x80"] r(3)
    by (auto simp: remote_memory_def)
  show ?thesis
    using rpc_dissociate_refines[OF r1, of "0x10000" "0x11000" "0x80" "0x1000" DVP_MTYPE_MPUCACHED_1DTILED ?fd 0]
      rpc_handle_inside[OF r1, of "0x10000" "0x11000" "0x80" "0x10000" ?fd]
    by (auto simp: remote_memory_def)
qed

end
