(* ===== verification/Omaprpc.thy ===== *)
theory Omaprpc
  imports Dvp_Prelude "HOL-Library.Monad_Syntax"
begin

text \<open>
  The user side of the OMAPRPC driver, \<open>source/omaprpc/omaprpc.c\<close> without ION: opening a channel to a remote core, calling a function
  over it, and reopening it when the remote core has crashed. The driver is a parameter: its state is a type variable, its system
  calls are the fields of \<open>driver\<close>.
\<close>

section \<open>The messages of the driver\<close>

text \<open>\<open>include/linux/omap_rpc.h\<close>. The counters \<open>num_params\<close> and \<open>num_translations\<close> are the lengths of the lists.\<close>

datatype omaprpc_param_e =
    OMAPRPC_PARAM_TYPE_UNKNOWN | OMAPRPC_PARAM_TYPE_ATOMIC | OMAPRPC_PARAM_TYPE_PTR | OMAPRPC_PARAM_TYPE_STRUCT

record omaprpc_param_t =
  pm_type :: omaprpc_param_e
  pm_size :: u32
  pm_data :: u32
  pm_base :: u32
  pm_reserved :: u32

record omaprpc_param_translation_t =
  pt_index :: u32
  pt_offset :: u32
  pt_base :: u32
  pt_cacheOps :: u32
  pt_reserved :: u32

record omaprpc_call_function_t =
  func_index :: u32
  fn_params :: "omaprpc_param_t list"
  fn_translations :: "omaprpc_param_translation_t list"

definition OMAPRPC_MAX_PARAMETERS :: nat where
  "OMAPRPC_MAX_PARAMETERS = 10"

section \<open>The driver and the channel\<close>

datatype errno = ENXIO | ENOTCONN | Errno nat

text \<open>
  Opening returns a file descriptor, or a negative number. \<open>write\<close> and \<open>read\<close> return a negative number and an error, or what
  they transferred; \<open>read\<close> also fills in the status of the function.
\<close>

record 'd driver =
  drv_open :: "string \<Rightarrow> 'd \<Rightarrow> int \<times> 'd"
  drv_create :: "int \<Rightarrow> string \<Rightarrow> 'd \<Rightarrow> int \<times> 'd"
  drv_destroy :: "int \<Rightarrow> 'd \<Rightarrow> 'd"
  drv_close :: "int \<Rightarrow> 'd \<Rightarrow> 'd"
  drv_write :: "int \<Rightarrow> omaprpc_call_function_t \<Rightarrow> 'd \<Rightarrow> int \<times> errno \<times> 'd"
  drv_read :: "int \<Rightarrow> 'd \<Rightarrow> int \<times> errno \<times> s32 \<times> 'd"

text \<open>\<open>has_restart\<close>: a callback is registered. The callback and its cookie are an argument of the operations that can call it.\<close>

record omaprpc_t =
  device :: int
  dev_name :: string
  create_name :: string
  retries :: u32
  num_funcs :: u32
  has_restart :: bool
  in_restart :: bool

definition OMAPRPC_RESTART_CONDITION :: "errno \<Rightarrow> bool" where
  "OMAPRPC_RESTART_CONDITION e \<longleftrightarrow> e = ENXIO \<or> e = ENOTCONN"

section \<open>Opening and closing\<close>

text \<open>The function count serves as the mark of a channel that is open. Freed memory must not be touched.\<close>

definition omaprpc_close :: "'d driver \<Rightarrow> omaprpc_t cptr \<Rightarrow> 'd \<Rightarrow> (omaprpc_t cptr \<times> 'd) option" where
  "omaprpc_close D prpc d =
     (case prpc of
        Null \<Rightarrow> Some (Null, d)
      | Freed \<Rightarrow> None
      | Live rpc \<Rightarrow>
          if num_funcs rpc > 0
          then Some (Null, drv_close D (device rpc) (drv_destroy D (device rpc) d))
          else Some (Live rpc, d))"

text \<open>\<open>ok\<close>: the allocation succeeds.\<close>

definition omaprpc_open ::
  "'d driver \<Rightarrow> bool \<Rightarrow> string \<Rightarrow> string \<Rightarrow> u32 \<Rightarrow> 'd \<Rightarrow> (omaprpc_t cptr \<times> 'd) option" where
  "omaprpc_open D ok device_name server_name numFuncs d =
     (if \<not> ok then Some (Null, d)
      else
        let (fd, d1) = drv_open D device_name d;
            rpc = \<lparr>device = fd, dev_name = take 255 device_name, create_name = [], retries = 0, num_funcs = 0,
                   has_restart = False, in_restart = False\<rparr>
        in
          if fd < 0 then omaprpc_close D (Live rpc) d1
          else
            let rpc1 = rpc\<lparr>create_name := take 48 server_name\<rparr>;
                (ret, d2) = drv_create D fd (create_name rpc1) d1
            in
              if ret < 0 then omaprpc_close D (Live rpc1) d2
              else Some (Live (rpc1\<lparr>num_funcs := numFuncs\<rparr>), d2))"

definition omaprpc_restart_callback :: "omaprpc_t cptr \<Rightarrow> bool \<Rightarrow> u32 \<Rightarrow> omaprpc_t cptr option" where
  "omaprpc_restart_callback prpc func n =
     (case prpc of
        Null \<Rightarrow> Some Null
      | Freed \<Rightarrow> None
      | Live rpc \<Rightarrow> Some (Live (if func then rpc\<lparr>has_restart := True, retries := n\<rparr> else rpc)))"

section \<open>Restarting\<close>

text \<open>The loop that tries to open the device, with \<open>n\<close> retries after this one. The pauses between the attempts have no other effect.\<close>

fun reopen :: "'d driver \<Rightarrow> string \<Rightarrow> nat \<Rightarrow> 'd \<Rightarrow> int \<times> 'd" where
  "reopen D name 0 d = drv_open D name d"
| "reopen D name (Suc n) d = (let (fd, d1) = drv_open D name d in if fd \<le> 0 then reopen D name n d1 else (fd, d1))"

text \<open>
  When the service does not answer, the channel is freed: the caller's pointer then dangles. \<open>restart_f\<close> is the callback, which may
  itself call functions of the channel.
\<close>

definition omaprpc_restart ::
  "'d driver \<Rightarrow> (omaprpc_t cptr \<Rightarrow> 'd \<Rightarrow> (omaprpc_t cptr \<times> 'd) option) \<Rightarrow> omaprpc_t cptr \<Rightarrow> 'd \<Rightarrow>
   (omaprpc_t cptr \<times> 'd) option" where
  "omaprpc_restart D restart_f prpc d =
     (case prpc of
        Null \<Rightarrow> Some (Null, d)
      | Freed \<Rightarrow> None
      | Live rpc \<Rightarrow>
          if \<not> has_restart rpc then Some (prpc, d)
          else
            let d1 = drv_close D (device rpc) d;
                n = (if retries rpc = 0 then 1 else unat (retries rpc));
                (fd, d2) = reopen D (dev_name rpc) (n - 1) d1;
                rpc1 = rpc\<lparr>device := fd\<rparr>
            in
              if fd > 0 then
                let (ret, d3) = drv_create D fd (create_name rpc1) d2 in
                if ret < 0 then do {
                  (p, d4) \<leftarrow> omaprpc_close D (Live rpc1) d3;
                  Some (if p = Null then Freed else p, d4) }
                else do {
                  (p, d4) \<leftarrow> restart_f (Live (rpc1\<lparr>in_restart := True\<rparr>)) d3;
                  (case p of
                     Live rpc2 \<Rightarrow> Some (Live (rpc2\<lparr>in_restart := False\<rparr>), d4)
                   | _ \<Rightarrow> None) }
              else Some (Live rpc1, d2))"

section \<open>Calling\<close>

text \<open>The handling of a failed system call, the same for both of them.\<close>

definition maybe_restart ::
  "'d driver \<Rightarrow> (omaprpc_t cptr \<Rightarrow> 'd \<Rightarrow> (omaprpc_t cptr \<times> 'd) option) \<Rightarrow> omaprpc_t \<Rightarrow> errno \<Rightarrow> 'd \<Rightarrow>
   (omaprpc_t cptr \<times> 'd) option" where
  "maybe_restart D restart_f rpc e d =
     (if OMAPRPC_RESTART_CONDITION e \<and> \<not> in_restart rpc then omaprpc_restart D restart_f (Live rpc) d else Some (Live rpc, d))"

text \<open>\<open>want\<close>: the caller passes a place for the result. The result is whether the call passed, and that status.\<close>

definition omaprpc_call ::
  "'d driver \<Rightarrow> (omaprpc_t cptr \<Rightarrow> 'd \<Rightarrow> (omaprpc_t cptr \<times> 'd) option) \<Rightarrow> omaprpc_t cptr \<Rightarrow> omaprpc_call_function_t \<Rightarrow>
   bool \<Rightarrow> 'd \<Rightarrow> (bool \<times> s32 \<times> omaprpc_t cptr \<times> 'd) option" where
  "omaprpc_call D restart_f prpc func want d =
     (case prpc of
        Null \<Rightarrow> Some (False, 0, Null, d)
      | Freed \<Rightarrow> None
      | Live rpc \<Rightarrow>
          if func_index func < num_funcs rpc then
            let (ret, e, d1) = drv_write D (device rpc) func d in
            if ret < 0 then do { (p, d2) \<leftarrow> maybe_restart D restart_f rpc e d1; Some (False, 0, p, d2) }
            else if \<not> want then Some (True, 0, prpc, d1)
            else
              let (ret2, e2, status, d2) = drv_read D (device rpc) d1 in
              if ret2 < 0 then do { (p, d3) \<leftarrow> maybe_restart D restart_f rpc e2 d2; Some (False, status, p, d3) }
              else Some (True, status, prpc, d2)
          else Some (False, 0, prpc, d))"


section \<open>Facts\<close>

lemma close_cases:
  "omaprpc_close D (Live rpc) d =
     (if num_funcs rpc > 0 then Some (Null, drv_close D (device rpc) (drv_destroy D (device rpc) d)) else Some (Live rpc, d))"
  by (simp add: omaprpc_close_def)

lemma reopen_result: "\<exists>d0. drv_open D name d0 = reopen D name n d"
  by (induction n arbitrary: d) (auto simp: Let_def split: prod.splits)

text \<open>Inside a restart no call starts another one: the channel stays, whatever the driver answers.\<close>

lemma call_in_restart:
  assumes "in_restart rpc"
  shows "\<exists>passed status d'. omaprpc_call D restart_f (Live rpc) func want d = Some (passed, status, Live rpc, d')"
  using assms by (auto simp: omaprpc_call_def maybe_restart_def Let_def split: prod.splits)

lemma call_outcome:
  assumes "omaprpc_call D restart_f (Live rpc) func want d = Some (passed, status, p, d')"
  shows "passed \<longleftrightarrow> func_index func < num_funcs rpc \<and>
     (case drv_write D (device rpc) func d of (ret, e, d1) \<Rightarrow> 0 \<le> ret \<and>
        (want \<longrightarrow> (case drv_read D (device rpc) d1 of (ret2, _) \<Rightarrow> 0 \<le> ret2)))"
  using assms by (auto simp: omaprpc_call_def Let_def not_le split: prod.splits if_splits bind_splits)

section \<open>Properties\<close>

text \<open>\<open>omaprpc_open\<close> never reports a failure of the device or of the service: whenever its memory could be allocated it returns a
  channel, because \<open>omaprpc_close\<close> does nothing to one without functions. On a channel whose opening failed every call fails without
  reaching the driver, and closing it neither frees it nor closes its device.\<close>

theorem omaprpc_open_never_null:
  "\<exists>rpc d'. omaprpc_open D True device_name server_name numFuncs d = Some (Live rpc, d') \<and>
     (case drv_open D device_name d of (fd, d1) \<Rightarrow> device rpc = fd \<and>
       (if 0 \<le> fd \<and> 0 \<le> fst (drv_create D fd (take 48 server_name) d1) then num_funcs rpc = numFuncs
        else (\<forall>func want d2. omaprpc_call D restart_f (Live rpc) func want d2 = Some (False, 0, Live rpc, d2)) \<and>
          omaprpc_close D (Live rpc) d' = Some (Live rpc, d')))"
proof -
  obtain fd d1 where o: "drv_open D device_name d = (fd, d1)" by (cases "drv_open D device_name d")
  obtain ret d2 where c: "drv_create D fd (take 48 server_name) d1 = (ret, d2)"
    by (cases "drv_create D fd (take 48 server_name) d1")
  have dead: "omaprpc_call D restart_f (Live rpc) func want x = Some (False, 0, Live rpc, x)"
      "omaprpc_close D (Live rpc) x = Some (Live rpc, x)" if "num_funcs rpc = 0" for rpc func want x
    using that by (simp_all add: omaprpc_call_def omaprpc_close_def)
  let ?rpc = "\<lparr>device = fd, dev_name = take 255 device_name, create_name = [], retries = 0, num_funcs = 0,
    has_restart = False, in_restart = False\<rparr>"
  consider "fd < 0" | "0 \<le> fd" "ret < 0" | "0 \<le> fd" "0 \<le> ret" by linarith
  then show ?thesis
  proof cases
    case 1
    then have "omaprpc_open D True device_name server_name numFuncs d = Some (Live ?rpc, d1)"
      by (simp add: omaprpc_open_def o dead)
    with 1 show ?thesis by (intro exI[of _ ?rpc] exI[of _ d1]) (simp add: o dead)
  next
    case 2
    let ?r = "?rpc\<lparr>create_name := take 48 server_name\<rparr>"
    have "omaprpc_open D True device_name server_name numFuncs d = Some (Live ?r, d2)"
      using 2 c by (simp add: omaprpc_open_def o dead)
    with 2 show ?thesis by (intro exI[of _ ?r] exI[of _ d2]) (simp add: o c dead)
  next
    case 3
    let ?r = "?rpc\<lparr>create_name := take 48 server_name, num_funcs := numFuncs\<rparr>"
    have "omaprpc_open D True device_name server_name numFuncs d = Some (Live ?r, d2)"
      using 3 c by (simp add: omaprpc_open_def o)
    with 3 show ?thesis by (intro exI[of _ ?r] exI[of _ d2]) (simp add: o c)
  qed
qed

end
