(* ===== verification/Dvp_Image.thy ===== *)
theory Dvp_Image
  imports Dvp_Prelude
begin

text \<open>
  The image structure of \<open>include/dvp/dvp_types.h\<close> and its geometry in
  \<open>source/dvp/dvp_kgraph/dvp_mem.c\<close>: strides, line and plane sizes, offsets, addresses, the
  initialisation, the validation and the choice of a patch. All of it is 32-bit arithmetic on
  \<open>DVP_U32\<close> and wraps. An address is a 32-bit word and 0 is the null pointer, so that the alignment
  test and the address comparisons of the code read as they are written. An image pointer is an option.
\<close>

section \<open>Colours\<close>

abbreviation FOURCC_UYVY :: u32 where "FOURCC_UYVY \<equiv> 0x59565955"
abbreviation FOURCC_YUY2 :: u32 where "FOURCC_YUY2 \<equiv> 0x32595559"
abbreviation FOURCC_YVYU :: u32 where "FOURCC_YVYU \<equiv> 0x55595659"
abbreviation FOURCC_VYUY :: u32 where "FOURCC_VYUY \<equiv> 0x59555956"
abbreviation FOURCC_YUV9 :: u32 where "FOURCC_YUV9 \<equiv> 0x39565559"
abbreviation FOURCC_YVU9 :: u32 where "FOURCC_YVU9 \<equiv> 0x39555659"
abbreviation FOURCC_YV12 :: u32 where "FOURCC_YV12 \<equiv> 0x32315659"
abbreviation FOURCC_IYUV :: u32 where "FOURCC_IYUV \<equiv> 0x56555949"
abbreviation FOURCC_YV16 :: u32 where "FOURCC_YV16 \<equiv> 0x36315659"
abbreviation FOURCC_YU16 :: u32 where "FOURCC_YU16 \<equiv> 0x36315559"
abbreviation FOURCC_YV24 :: u32 where "FOURCC_YV24 \<equiv> 0x34325659"
abbreviation FOURCC_YU24 :: u32 where "FOURCC_YU24 \<equiv> 0x34325559"
abbreviation FOURCC_Y800 :: u32 where "FOURCC_Y800 \<equiv> 0x30303859"
abbreviation FOURCC_Y16 :: u32 where "FOURCC_Y16 \<equiv> 0x20363159"
abbreviation FOURCC_Y32 :: u32 where "FOURCC_Y32 \<equiv> 0x20323359"
abbreviation FOURCC_Y64 :: u32 where "FOURCC_Y64 \<equiv> 0x20343659"
abbreviation FOURCC_NV12 :: u32 where "FOURCC_NV12 \<equiv> 0x3231564E"
abbreviation FOURCC_NV21 :: u32 where "FOURCC_NV21 \<equiv> 0x3132564E"
abbreviation FOURCC_RGB565 :: u32 where "FOURCC_RGB565 \<equiv> 0x35424752"
abbreviation FOURCC_BGR565 :: u32 where "FOURCC_BGR565 \<equiv> 0x35524742"
abbreviation FOURCC_BGR :: u32 where "FOURCC_BGR \<equiv> 0x33524742"
abbreviation FOURCC_RGB :: u32 where "FOURCC_RGB \<equiv> 0x33424752"
abbreviation FOURCC_RGBA :: u32 where "FOURCC_RGBA \<equiv> 0x41424752"
abbreviation FOURCC_BGRA :: u32 where "FOURCC_BGRA \<equiv> 0x41524742"
abbreviation FOURCC_ARGB :: u32 where "FOURCC_ARGB \<equiv> 0x42475241"
abbreviation FOURCC_RGBP :: u32 where "FOURCC_RGBP \<equiv> 0x50424752"
abbreviation FOURCC_HSLP :: u32 where "FOURCC_HSLP \<equiv> 0x504C5348"
abbreviation FOURCC_BIN1 :: u32 where "FOURCC_BIN1 \<equiv> 0x314E4942"

section \<open>The image\<close>

record DVP_Image_t =
  pData :: "u32 list"
  pBuffer :: "u32 list"
  planes :: u32
  width :: u32
  height :: u32
  bufWidth :: u32
  bufHeight :: u32
  x_start :: u32
  y_start :: u32
  x_stride :: s32
  y_stride :: s32
  color :: u32
  numBytes :: u32
  memType :: u32
  reserved :: u32
  skipCacheOpInval :: s32
  skipCacheOpFlush :: s32

definition DVP_MAX_PLANES :: nat where
  "DVP_MAX_PLANES = 4"

text \<open>\<open>abs\<close> of a 32-bit integer, converted to unsigned by the code.\<close>

definition abs32 :: "s32 \<Rightarrow> u32" where
  "abs32 s = (if s <s 0 then - s else s)"

definition DVP_Image_WidthStep :: "DVP_Image_t option \<Rightarrow> u32 \<Rightarrow> u32" where
  "DVP_Image_WidthStep pImage plane =
     (case pImage of
        Some im \<Rightarrow> if plane < planes im \<and> 0 < plane \<and> color im \<in> {FOURCC_NV12, FOURCC_NV21} then 2 else 1
      | None \<Rightarrow> 1)"

definition DVP_Image_HeightDiv :: "DVP_Image_t option \<Rightarrow> u32 \<Rightarrow> u32" where
  "DVP_Image_HeightDiv pImage plane =
     (case pImage of
        Some im \<Rightarrow>
          if plane < planes im \<and> 0 < plane then
            if color im \<in> {FOURCC_IYUV, FOURCC_YV12, FOURCC_NV12, FOURCC_NV21} then 2
            else if color im \<in> {FOURCC_YUV9, FOURCC_YVU9} then 4
            else 1
          else 1
      | None \<Rightarrow> 1)"

definition DVP_Image_WidthDiv :: "DVP_Image_t option \<Rightarrow> u32 \<Rightarrow> u32" where
  "DVP_Image_WidthDiv pImage plane =
     (case pImage of
        Some im \<Rightarrow>
          if plane < planes im then
            if 0 < plane then
              if color im \<in> {FOURCC_IYUV, FOURCC_YV12, FOURCC_NV12, FOURCC_NV21, FOURCC_YU16, FOURCC_YV16} then 2
              else if color im \<in> {FOURCC_YUV9, FOURCC_YVU9} then 4
              else 1
            else if color im = FOURCC_BIN1 then 8 else 1
          else 1
      | None \<Rightarrow> 1)"

definition DVP_Image_LineRange :: "DVP_Image_t option \<Rightarrow> u32 \<Rightarrow> u32" where
  "DVP_Image_LineRange pImage plane =
     (case pImage of
        Some im \<Rightarrow>
          if plane < planes im then
            (let lineRange = abs32 (y_stride im) in
             if 0 < plane then
               (let xdiv = DVP_Image_WidthDiv pImage plane;
                    xstep = DVP_Image_WidthStep pImage plane;
                    priLineSize = (x_stride im * DVP_Image_WidthStep pImage 0) *
                                  (bufWidth im div DVP_Image_WidthDiv pImage 0);
                    secLineSize = (x_stride im * xstep) * (bufWidth im div xdiv) in
                if lineRange = priLineSize then secLineSize else lineRange)
             else lineRange)
          else 0
      | None \<Rightarrow> 0)"

definition DVP_Image_PlaneRange :: "DVP_Image_t option \<Rightarrow> u32 \<Rightarrow> u32" where
  "DVP_Image_PlaneRange pImage plane =
     (case pImage of
        Some im \<Rightarrow>
          if plane < planes im
          then DVP_Image_LineRange pImage plane * bufHeight im div DVP_Image_HeightDiv pImage plane
          else 0
      | None \<Rightarrow> 0)"

definition DVP_Image_LineSize :: "DVP_Image_t option \<Rightarrow> u32 \<Rightarrow> u32" where
  "DVP_Image_LineSize pImage plane =
     (case pImage of
        Some im \<Rightarrow>
          if plane < planes im
          then (x_stride im * DVP_Image_WidthStep pImage plane) * (bufWidth im div DVP_Image_WidthDiv pImage plane)
          else 0
      | None \<Rightarrow> 0)"

definition DVP_Image_PlaneSize :: "DVP_Image_t option \<Rightarrow> u32 \<Rightarrow> u32" where
  "DVP_Image_PlaneSize pImage plane =
     (case pImage of
        Some im \<Rightarrow>
          if plane < planes im
          then DVP_Image_LineSize pImage plane * bufHeight im div DVP_Image_HeightDiv pImage plane
          else 0
      | None \<Rightarrow> 0)"

text \<open>The sums over the planes.\<close>

definition sum_planes :: "DVP_Image_t option \<Rightarrow> (u32 \<Rightarrow> u32) \<Rightarrow> u32" where
  "sum_planes pImage f =
     (case pImage of Some im \<Rightarrow> fold (\<lambda>p s. s + f (of_nat p)) [0..<unat (planes im)] 0 | None \<Rightarrow> 0)"

definition DVP_Image_Range :: "DVP_Image_t option \<Rightarrow> u32" where
  "DVP_Image_Range pImage = sum_planes pImage (DVP_Image_PlaneSize pImage)"

definition DVP_Image_Size :: "DVP_Image_t option \<Rightarrow> u32" where
  "DVP_Image_Size pImage = sum_planes pImage (DVP_Image_PlaneSize pImage)"

definition DVP_Image_PatchLineSize :: "DVP_Image_t option \<Rightarrow> u32 \<Rightarrow> u32" where
  "DVP_Image_PatchLineSize pImage plane =
     (case pImage of
        Some im \<Rightarrow>
          if plane < planes im
          then (x_stride im * DVP_Image_WidthStep pImage plane) * (width im div DVP_Image_WidthDiv pImage plane)
          else 0
      | None \<Rightarrow> 0)"

definition DVP_Image_PatchPlaneSize :: "DVP_Image_t option \<Rightarrow> u32 \<Rightarrow> u32" where
  "DVP_Image_PatchPlaneSize pImage plane =
     (case pImage of
        Some im \<Rightarrow>
          if plane < planes im
          then DVP_Image_PatchLineSize pImage plane * height im div DVP_Image_HeightDiv pImage plane
          else 0
      | None \<Rightarrow> 0)"

definition DVP_Image_PatchSize :: "DVP_Image_t option \<Rightarrow> u32" where
  "DVP_Image_PatchSize pImage = sum_planes pImage (DVP_Image_PatchPlaneSize pImage)"

section \<open>Dimensions for the allocator\<close>

record DVP_Dim_t =
  bpp :: u32
  dim_width :: u32
  dim_height :: u32

text \<open>
  The result is the static array of four entries; \<open>tiler\<close> says whether the library was built with
  \<open>DVP_USE_TILER\<close>. Writing an entry past the array is a fault.
\<close>

definition dim3 :: "u32 \<Rightarrow> u32 \<Rightarrow> u32 \<Rightarrow> DVP_Dim_t" where
  "dim3 b w h = \<lparr>bpp = b, dim_width = w, dim_height = h\<rparr>"

definition DVP_Image_Dims :: "bool \<Rightarrow> DVP_Image_t \<Rightarrow> DVP_Dim_t list option" where
  "DVP_Image_Dims tiler im =
     (let z = dim3 0 0 0; w = bufWidth im; h = bufHeight im; c = color im in
      if c \<in> {FOURCC_NV12, FOURCC_NV21} then Some [dim3 1 w h, dim3 (1 * 2) (w div 2) (h div 2), z, z]
      else if c \<in> {FOURCC_YUV9, FOURCC_YVU9}
        then Some [dim3 1 w h, dim3 1 (w div 4) (h div 4), dim3 1 (w div 4) (h div 4), z]
      else if c \<in> {FOURCC_YV12, FOURCC_IYUV}
        then Some [dim3 1 w h, dim3 1 (w div 2) (h div 2), dim3 1 (w div 2) (h div 2), z]
      else if c \<in> {FOURCC_YU16, FOURCC_YV16}
        then Some [dim3 1 w h, dim3 (1 * 2) (w div 2) h, dim3 (1 * 2) (w div 2) h, z]
      else if tiler \<and> c \<in> {FOURCC_UYVY, FOURCC_YUY2, FOURCC_VYUY, FOURCC_YVYU}
        then Some [dim3 4 (w div 2) h, z, z, z]
      else for_range 0 (unat (planes im)) (\<lambda>p ds. upd_chk ds (unat p) (dim3 (x_stride im) w h)) [z, z, z, z])"

section \<open>Offsets and addresses\<close>

definition DVP_Image_Offset :: "DVP_Image_t option \<Rightarrow> u32 \<Rightarrow> u32 \<Rightarrow> u32 \<Rightarrow> u32" where
  "DVP_Image_Offset pImage x y p =
     (case pImage of
        Some im \<Rightarrow>
          if p < planes im \<and> x < bufWidth im \<and> y < bufHeight im then
            (let xstep = DVP_Image_WidthStep pImage p;
                 xdiv = DVP_Image_WidthDiv pImage p;
                 ydiv = DVP_Image_HeightDiv pImage p;
                 ystr = DVP_Image_LineRange pImage p in
             (y div ydiv) * ystr + (x div xdiv) * (x_stride im * xstep))
          else 0
      | None \<Rightarrow> 0)"

definition DVP_Image_PatchOffset :: "DVP_Image_t option \<Rightarrow> u32 \<Rightarrow> u32 \<Rightarrow> u32 \<Rightarrow> u32" where
  "DVP_Image_PatchOffset pImage x y p =
     (case pImage of
        Some im \<Rightarrow>
          if p < planes im \<and> x < width im \<and> y < height im then
            (let xstep = DVP_Image_WidthStep pImage p;
                 xdiv = DVP_Image_WidthDiv pImage p;
                 ydiv = DVP_Image_HeightDiv pImage p;
                 ystr = DVP_Image_LineRange pImage p in
             (y div ydiv) * ystr + (x div xdiv) * (x_stride im * xstep))
          else 0
      | None \<Rightarrow> 0)"

definition DVP_Image_Addressing :: "DVP_Image_t option \<Rightarrow> u32 \<Rightarrow> u32 \<Rightarrow> u32 \<Rightarrow> u32 option" where
  "DVP_Image_Addressing pImage x y p =
     (let i = DVP_Image_Offset pImage x y p in
      case pImage of
        Some im \<Rightarrow> if p < planes im then do { ptr \<leftarrow> nth_chk (pBuffer im) (unat p); Some (ptr + i) } else Some i
      | None \<Rightarrow> Some i)"

definition DVP_Image_PatchAddressing :: "DVP_Image_t option \<Rightarrow> u32 \<Rightarrow> u32 \<Rightarrow> u32 \<Rightarrow> u32 option" where
  "DVP_Image_PatchAddressing pImage x y p =
     (let i = DVP_Image_PatchOffset pImage x y p in
      case pImage of
        Some im \<Rightarrow> if p < planes im then do { ptr \<leftarrow> nth_chk (pData im) (unat p); Some (ptr + i) } else Some i
      | None \<Rightarrow> Some i)"

section \<open>Initialisation, patch and validation\<close>

text \<open>The number of bytes of \<open>DVP_Image_Init\<close>, the last of its assignments that applies.\<close>

definition init_bytes :: "u32 \<Rightarrow> u32 \<Rightarrow> u32 \<Rightarrow> u32 \<Rightarrow> u32 \<Rightarrow> u32" where
  "init_bytes w h xs pl fourcc =
     (let n0 = h * w * xs * pl;
          n1 = (if fourcc \<in> {FOURCC_NV12, FOURCC_NV21, FOURCC_IYUV, FOURCC_YV12} then (h * w * 3) div 2 else n0);
          n2 = (if fourcc \<in> {FOURCC_YV16, FOURCC_YU16} then h * w + 2 * (h * w div 2) else n1) in
      if fourcc = FOURCC_BIN1 then h * w div 8 else n2)"

definition init_planes :: "u32 \<Rightarrow> u32" where
  "init_planes fourcc =
     (let p0 = (if fourcc \<in> {FOURCC_YUV9, FOURCC_YVU9, FOURCC_YV12, FOURCC_IYUV, FOURCC_YU16, FOURCC_YV16,
                             FOURCC_YU24, FOURCC_YV24, FOURCC_RGBP, FOURCC_HSLP} then 3 else 1) in
      if fourcc \<in> {FOURCC_NV12, FOURCC_NV21} then 2 else p0)"

definition init_x_stride :: "u32 \<Rightarrow> s32" where
  "init_x_stride fourcc =
     (let s0 = 1;
          s1 = (if fourcc \<in> {FOURCC_UYVY, FOURCC_YUY2, FOURCC_VYUY, FOURCC_YVYU} then 2 else s0);
          s2 = (if fourcc \<in> {FOURCC_BGR, FOURCC_RGB} then 3 else s1);
          s3 = (if fourcc \<in> {FOURCC_RGBA, FOURCC_BGRA, FOURCC_ARGB} then 4 else s2);
          s4 = (if fourcc = FOURCC_Y16 then 2 else s3);
          s5 = (if fourcc = FOURCC_Y32 then 4 else s4);
          s6 = (if fourcc = FOURCC_Y64 then 8 else s5) in
      if fourcc \<in> {FOURCC_RGB565, FOURCC_BGR565} then 2 else s6)"

definition zero_image :: DVP_Image_t where
  "zero_image = \<lparr>pData = replicate DVP_MAX_PLANES 0, pBuffer = replicate DVP_MAX_PLANES 0, planes = 0,
     width = 0, height = 0, bufWidth = 0, bufHeight = 0, x_start = 0, y_start = 0, x_stride = 0, y_stride = 0,
     color = 0, numBytes = 0, memType = 0, reserved = 0, skipCacheOpInval = 0, skipCacheOpFlush = 0\<rparr>"

definition DVP_Image_Init :: "DVP_Image_t option \<Rightarrow> u32 \<Rightarrow> u32 \<Rightarrow> u32 \<Rightarrow> DVP_Image_t option" where
  "DVP_Image_Init pImage w h fourcc =
     (case pImage of
        None \<Rightarrow> None
      | Some _ \<Rightarrow>
          (let pl = init_planes fourcc; xs = init_x_stride fourcc in
           Some (zero_image\<lparr>planes := pl, x_stride := xs, numBytes := init_bytes w h xs pl fourcc,
             width := w, height := h, bufWidth := w, bufHeight := h, color := fourcc\<rparr>)))"

definition DVP_Image_Deinit :: "DVP_Image_t option \<Rightarrow> DVP_Image_t option" where
  "DVP_Image_Deinit pImage =
     (let e = 0xEFEFEFEF in
      map_option (\<lambda>_. \<lparr>pData = replicate DVP_MAX_PLANES e, pBuffer = replicate DVP_MAX_PLANES e, planes = e,
        width = e, height = e, bufWidth = e, bufHeight = e, x_start = e, y_start = e, x_stride = e, y_stride = e,
        color = e, numBytes = e, memType = e, reserved = e, skipCacheOpInval = e, skipCacheOpFlush = e\<rparr>) pImage)"

definition DVP_Image_Dup :: "DVP_Image_t option \<Rightarrow> DVP_Image_t option \<Rightarrow> DVP_Image_t option" where
  "DVP_Image_Dup dst src = do { _ \<leftarrow> dst; src }"

text \<open>One round of the loop of \<open>DVP_Image_SetPatch\<close>: the plane's pointer and the patch's geometry.\<close>

definition patch_plane :: "u32 \<Rightarrow> u32 \<Rightarrow> u32 \<Rightarrow> u32 \<Rightarrow> u32 \<Rightarrow> DVP_Image_t \<Rightarrow> DVP_Image_t option" where
  "patch_plane xs ys w h p im = do {
     a \<leftarrow> DVP_Image_Addressing (Some im) xs ys p;
     ds \<leftarrow> upd_chk (pData im) (unat p) a;
     Some (im\<lparr>pData := ds, x_start := xs, y_start := ys, width := w, height := h\<rparr>) }"

definition DVP_Image_SetPatch ::
  "DVP_Image_t option \<Rightarrow> u32 \<Rightarrow> u32 \<Rightarrow> u32 \<Rightarrow> u32 \<Rightarrow> (bool \<times> DVP_Image_t option) option" where
  "DVP_Image_SetPatch pImage xs ys w h =
     (case pImage of
        None \<Rightarrow> Some (False, None)
      | Some im \<Rightarrow>
          if xs + w < bufWidth im \<and> ys + h < bufHeight im then do {
            im' \<leftarrow> for_range 0 (unat (planes im)) (patch_plane xs ys w h) im;
            Some (False, Some im') }
          else Some (False, Some im))"

text \<open>The checks of \<open>DVP_Image_Validate\<close> on one plane.\<close>

definition validate_plane :: "DVP_Image_t \<Rightarrow> u32 \<Rightarrow> u32 \<Rightarrow> bool option" where
  "validate_plane im bufAlign p = do {
     let range = DVP_Image_PlaneRange (Some im) p;
     let line = DVP_Image_LineSize (Some im) p;
     lo \<leftarrow> nth_chk (pBuffer im) (unat p);
     d \<leftarrow> nth_chk (pData im) (unat p);
     let hi = lo + range;
     if lo = 0 \<or> d = 0 then Some False
     else if d mod bufAlign \<noteq> 0 then Some False
     else if \<not> (lo \<le> d \<and> d < hi) then Some False
     else if line < abs32 (y_stride im) \<and> bufWidth im = width im \<and> line < (d - lo) mod abs32 (y_stride im)
     then Some False
     else Some True }"

text \<open>The comparison with the list of colours; every entry is read.\<close>

definition match_colors :: "u32 list \<Rightarrow> u32 \<Rightarrow> u32 \<Rightarrow> bool option" where
  "match_colors colors n c =
     for_range 0 (unat n) (\<lambda>i hit. do { x \<leftarrow> nth_chk colors (unat i); Some (if x = c then True else hit) }) False"

text \<open>\<open>mtype_max\<close> is \<open>DVP_MTYPE_MAX\<close>, which depends on the platform the library is built for.\<close>

definition DVP_Image_Validate ::
  "u32 \<Rightarrow> DVP_Image_t option \<Rightarrow> u32 \<Rightarrow> u32 \<Rightarrow> u32 \<Rightarrow> u32 \<Rightarrow> u32 list option \<Rightarrow> u32 \<Rightarrow> bool option" where
  "DVP_Image_Validate mtype_max pImage bufAlign strideMultiple widthMultiple heightMultiple colors numColors =
     (case pImage of
        None \<Rightarrow> Some False
      | Some im \<Rightarrow>
          if bufAlign = 0 \<or> strideMultiple = 0 \<or> widthMultiple = 0 \<or> heightMultiple = 0 then Some False
          else if planes im = 0 \<or> width im = 0 \<or> height im = 0 \<or> bufHeight im = 0 \<or> bufWidth im = 0 \<or>
            color im = 0 \<or> mtype_max < memType im \<or> numBytes im = 0 \<or> x_stride im = 0 \<or> y_stride im = 0
          then Some False
          else if y_stride im mod strideMultiple \<noteq> 0 \<or> width im mod widthMultiple \<noteq> 0 \<or>
            height im mod heightMultiple \<noteq> 0
          then Some False
          else do {
            ok \<leftarrow> all_range 0 (unat (planes im)) (validate_plane im bufAlign);
            if \<not> ok then Some False
            else (case colors of
                Some cs \<Rightarrow> if 0 < numColors then match_colors cs numColors (color im) else Some True
              | None \<Rightarrow> Some True) })"

end
