(* ===== verification/Dvp_ImageGeo.thy ===== *)
theory Dvp_ImageGeo
  imports Dvp_Image
begin

text \<open>
  The geometry of an image: on a plane whose lines hold its pixels and whose size fits 32 bits, the
  offsets stay inside the plane and different samples have disjoint bytes; the number of bytes set by
  the initialisation; the patch.
\<close>

section \<open>Arithmetic without wrap-around\<close>

text \<open>A grid of \<open>H\<close> rows of \<open>L\<close> bytes with \<open>W\<close> cells of \<open>s\<close> bytes each.\<close>

lemma grid_cell:
  fixes r c s L W H :: nat
  assumes "c < W" "r < H" "W * s \<le> L"
  shows "r * L + c * s + s \<le> H * L"
proof -
  have "c * s + s = (c + 1) * s" by simp
  also have "\<dots> \<le> W * s" using assms(1) by (intro mult_right_mono) auto
  finally have "r * L + c * s + s \<le> r * L + L" using assms(3) by simp
  also have "\<dots> = (r + 1) * L" by simp
  also have "\<dots> \<le> H * L" using assms(2) by (intro mult_right_mono) auto
  finally show ?thesis .
qed

lemma grid_order:
  fixes r c s L W :: nat
  assumes "c < W" "W * s \<le> L" "r < r' \<or> r = r' \<and> c < c'"
  shows "r * L + c * s + s \<le> r' * L + c' * s"
proof (cases "r < r'")
  case True
  have "r * L + c * s + s \<le> (r + 1) * L" using grid_cell[of c W r "r + 1" s L] assms(1,2) by simp
  also have "\<dots> \<le> r' * L" using True by (intro mult_right_mono) auto
  finally show ?thesis by simp
next
  case False
  then have rc: "r = r'" "c + 1 \<le> c'" using assms(3) by auto
  have "c * s + s = (c + 1) * s" by simp
  also have "\<dots> \<le> c' * s" using rc by (intro mult_right_mono) auto
  finally show ?thesis using rc by simp
qed

lemma grid_disjoint:
  fixes r c s L W :: nat
  assumes "c < W" "c' < W" "W * s \<le> L" "(c, r) \<noteq> (c', r')"
  shows "r * L + c * s + s \<le> r' * L + c' * s \<or> r' * L + c' * s + s \<le> r * L + c * s"
proof (cases "r < r' \<or> r = r' \<and> c < c'")
  case True
  then show ?thesis using grid_order[OF assms(1,3)] by blast
next
  case False
  then have "r' < r \<or> r' = r \<and> c' < c" using assms(4) by auto
  then show ?thesis using grid_order[OF assms(2,3)] by blast
qed

section \<open>Well-formed planes\<close>

lemma WidthDiv_cases: "DVP_Image_WidthDiv im p \<in> {1, 2, 4, 8}"
  by (simp add: DVP_Image_WidthDiv_def split: option.splits)

lemma HeightDiv_cases: "DVP_Image_HeightDiv im p \<in> {1, 2, 4}"
  by (simp add: DVP_Image_HeightDiv_def split: option.splits)

lemma divisors_pos: "0 < unat (DVP_Image_WidthDiv im p)" "0 < unat (DVP_Image_HeightDiv im p)"
  using WidthDiv_cases[of im p] HeightDiv_cases[of im p] by auto

text \<open>The bytes of one sample of a plane.\<close>

definition sample :: "DVP_Image_t \<Rightarrow> u32 \<Rightarrow> u32" where
  "sample im p = x_stride im * DVP_Image_WidthStep (Some im) p"

definition plane_ok :: "DVP_Image_t \<Rightarrow> u32 \<Rightarrow> bool" where
  "plane_ok im p \<longleftrightarrow> p < planes im \<and>
     unat (bufWidth im) mod unat (DVP_Image_WidthDiv (Some im) p) = 0 \<and>
     unat (bufHeight im) mod unat (DVP_Image_HeightDiv (Some im) p) = 0 \<and>
     unat (bufWidth im) div unat (DVP_Image_WidthDiv (Some im) p) * unat (sample im p)
       \<le> unat (DVP_Image_LineRange (Some im) p) \<and>
     unat (DVP_Image_LineRange (Some im) p) * unat (bufHeight im) < 2 ^ 32"

lemma div_less_div: "(a :: nat) < n \<Longrightarrow> 0 < d \<Longrightarrow> n mod d = 0 \<Longrightarrow> a div d < n div d"
  by (metis dvd_div_mult_self less_mult_imp_div_less mod_0_imp_dvd)

lemma PlaneRange_unat:
  assumes "plane_ok im p"
  shows "unat (DVP_Image_PlaneRange (Some im) p) =
    unat (bufHeight im) div unat (DVP_Image_HeightDiv (Some im) p) * unat (DVP_Image_LineRange (Some im) p)"
proof -
  let ?L = "DVP_Image_LineRange (Some im) p" and ?H = "bufHeight im" and ?d = "DVP_Image_HeightDiv (Some im) p"
  have m: "unat (?L * ?H) = unat ?L * unat ?H" using assms by (intro unat_mult_small) (simp add: plane_ok_def)
  have "unat ?d dvd unat ?H" using assms by (auto simp: plane_ok_def)
  then have "unat ?L * unat ?H div unat ?d = unat ?L * (unat ?H div unat ?d)" by (simp add: div_mult_swap)
  then show ?thesis using assms m by (simp add: DVP_Image_PlaneRange_def plane_ok_def unat_div mult.commute)
qed

text \<open>The offset as a number: row times line, plus column times sample.\<close>

lemma offset_value:
  assumes ok: "plane_ok im p" and x: "x < bufWidth im" and y: "y < bufHeight im"
  defines "c \<equiv> unat x div unat (DVP_Image_WidthDiv (Some im) p)"
    and "r \<equiv> unat y div unat (DVP_Image_HeightDiv (Some im) p)"
  shows "unat (DVP_Image_Offset (Some im) x y p) = r * unat (DVP_Image_LineRange (Some im) p) + c * unat (sample im p)"
    and "c < unat (bufWidth im) div unat (DVP_Image_WidthDiv (Some im) p)"
    and "r < unat (bufHeight im) div unat (DVP_Image_HeightDiv (Some im) p)"
proof -
  let ?L = "unat (DVP_Image_LineRange (Some im) p)" and ?s = "unat (sample im p)"
  let ?W = "unat (bufWidth im) div unat (DVP_Image_WidthDiv (Some im) p)"
  let ?H = "unat (bufHeight im) div unat (DVP_Image_HeightDiv (Some im) p)"
  show c: "c < ?W" unfolding c_def
    using ok x divisors_pos by (intro div_less_div) (auto simp: plane_ok_def word_less_nat_alt)
  show r: "r < ?H" unfolding r_def
    using ok y divisors_pos by (intro div_less_div) (auto simp: plane_ok_def word_less_nat_alt)
  have "r * ?L + c * ?s + ?s \<le> ?H * ?L" using grid_cell[OF c r] ok by (simp add: plane_ok_def)
  also have "\<dots> \<le> unat (bufHeight im) * ?L" by (intro mult_right_mono div_le_dividend) simp
  also have "\<dots> < 2 ^ 32" using ok by (simp add: plane_ok_def mult.commute)
  finally have small: "r * ?L + c * ?s + ?s < 2 ^ 32" .
  have rl: "unat (y div DVP_Image_HeightDiv (Some im) p * DVP_Image_LineRange (Some im) p) = r * ?L"
    using small by (subst unat_mult_small) (simp_all add: unat_div r_def)
  have cs: "unat (x div DVP_Image_WidthDiv (Some im) p * sample im p) = c * ?s"
    using small by (subst unat_mult_small) (simp_all add: unat_div c_def)
  show "unat (DVP_Image_Offset (Some im) x y p) = r * ?L + c * ?s"
    using ok x y small unat_add_small[of "y div DVP_Image_HeightDiv (Some im) p * DVP_Image_LineRange (Some im) p"
        "x div DVP_Image_WidthDiv (Some im) p * sample im p"] rl cs
    by (simp add: DVP_Image_Offset_def plane_ok_def sample_def)
qed

lemma offset_bound:
  assumes "plane_ok im p" "x < bufWidth im" "y < bufHeight im"
  shows "unat (DVP_Image_Offset (Some im) x y p) + unat (sample im p) \<le> unat (DVP_Image_PlaneRange (Some im) p)"
  using grid_cell[OF offset_value(2,3)[OF assms]] assms(1)
  unfolding offset_value(1)[OF assms] PlaneRange_unat[OF assms(1)] by (simp add: plane_ok_def)

lemma offset_disjoint:
  assumes "plane_ok im p" "x < bufWidth im" "y < bufHeight im" "x' < bufWidth im" "y' < bufHeight im"
    and "(unat x div unat (DVP_Image_WidthDiv (Some im) p), unat y div unat (DVP_Image_HeightDiv (Some im) p)) \<noteq>
         (unat x' div unat (DVP_Image_WidthDiv (Some im) p), unat y' div unat (DVP_Image_HeightDiv (Some im) p))"
  shows "unat (DVP_Image_Offset (Some im) x y p) + unat (sample im p) \<le> unat (DVP_Image_Offset (Some im) x' y' p) \<or>
         unat (DVP_Image_Offset (Some im) x' y' p) + unat (sample im p) \<le> unat (DVP_Image_Offset (Some im) x y p)"
  using grid_disjoint[OF offset_value(2)[OF assms(1-3)] offset_value(2)[OF assms(1,4,5)] _ assms(6)] assms(1)
  unfolding offset_value(1)[OF assms(1-3)] offset_value(1)[OF assms(1,4,5)] by (simp add: plane_ok_def)

section \<open>The initialised image\<close>

lemma planes_upt: "[0..<Suc 0] = [0]" "[0..<2] = [0, 1::nat]" "[0..<3] = [0, 1, 2::nat]"
  by (simp_all add: upt_rec numeral_eq_Suc)

lemma PlaneSize_unat:
  assumes "p < planes im"
    and "unat (sample im p) * (unat (bufWidth im) div unat (DVP_Image_WidthDiv (Some im) p)) * unat (bufHeight im) < 2 ^ 32"
  shows "unat (DVP_Image_PlaneSize (Some im) p) =
    unat (sample im p) * (unat (bufWidth im) div unat (DVP_Image_WidthDiv (Some im) p)) * unat (bufHeight im)
      div unat (DVP_Image_HeightDiv (Some im) p)"
proof (cases "unat (bufHeight im) = 0")
  case True
  then show ?thesis using assms(1) by (simp add: DVP_Image_PlaneSize_def unat_div unat_eq_0)
next
  case False
  let ?s = "unat (sample im p)" and ?W = "unat (bufWidth im) div unat (DVP_Image_WidthDiv (Some im) p)"
    and ?H = "unat (bufHeight im)"
  have "?s * ?W * 1 \<le> ?s * ?W * ?H" using False by (intro mult_le_mono2) simp
  then have "?s * ?W < 2 ^ 32" using assms(2) by linarith
  then have l: "unat (DVP_Image_LineSize (Some im) p) = ?s * ?W"
    using assms by (simp add: DVP_Image_LineSize_def sample_def unat_mult_small unat_div)
  then show ?thesis using assms by (simp add: DVP_Image_PlaneSize_def unat_mult_small unat_div)
qed

lemma init_fields:
  assumes "DVP_Image_Init im0 w h c = Some im"
  shows "planes im = init_planes c" "x_stride im = init_x_stride c" "bufWidth im = w" "bufHeight im = h" "color im = c"
    "width im = w" "height im = h" "numBytes im = init_bytes w h (init_x_stride c) (init_planes c) c"
    "pData im = replicate DVP_MAX_PLANES 0" "pBuffer im = replicate DVP_MAX_PLANES 0"
  using assms by (auto simp: DVP_Image_Init_def zero_image_def Let_def split: option.splits)

text \<open>The size of an initialised image in exact arithmetic, by its colour.\<close>

definition exact_bytes :: "u32 \<Rightarrow> nat \<Rightarrow> nat" where
  "exact_bytes c n =
     (if c \<in> {FOURCC_NV12, FOURCC_NV21, FOURCC_IYUV, FOURCC_YV12} then n * 3 div 2
      else if c \<in> {FOURCC_YU16, FOURCC_YV16} then n * 2
      else if c \<in> {FOURCC_YUV9, FOURCC_YVU9} then n + n div 8
      else if c = FOURCC_BIN1 then n div 8
      else n * unat (init_x_stride c) * unat (init_planes c))"

lemma Size_1: "planes im = 1 \<Longrightarrow> DVP_Image_Size (Some im) = DVP_Image_PlaneSize (Some im) 0"
  by (simp add: DVP_Image_Size_def sum_planes_def planes_upt)

lemma Size_2:
  "planes im = 2 \<Longrightarrow> unat (DVP_Image_PlaneSize (Some im) 0) + unat (DVP_Image_PlaneSize (Some im) 1) < 2 ^ 32 \<Longrightarrow>
   unat (DVP_Image_Size (Some im)) = unat (DVP_Image_PlaneSize (Some im) 0) + unat (DVP_Image_PlaneSize (Some im) 1)"
  by (simp add: DVP_Image_Size_def sum_planes_def planes_upt unat_add_small)

lemma Size_3:
  "planes im = 3 \<Longrightarrow>
   unat (DVP_Image_PlaneSize (Some im) 0) + unat (DVP_Image_PlaneSize (Some im) 1) + unat (DVP_Image_PlaneSize (Some im) 2) < 2 ^ 32 \<Longrightarrow>
   unat (DVP_Image_Size (Some im)) =
     unat (DVP_Image_PlaneSize (Some im) 0) + unat (DVP_Image_PlaneSize (Some im) 1) + unat (DVP_Image_PlaneSize (Some im) 2)"
  by (simp add: DVP_Image_Size_def sum_planes_def planes_upt unat_add_small)

lemma init_planes_cases:
  "init_planes c = (if c \<in> {FOURCC_NV12, FOURCC_NV21} then 2 else
     if c \<in> {FOURCC_YUV9, FOURCC_YVU9, FOURCC_YV12, FOURCC_IYUV, FOURCC_YU16, FOURCC_YV16,
             FOURCC_YU24, FOURCC_YV24, FOURCC_RGBP, FOURCC_HSLP} then 3 else 1)"
  by (simp add: init_planes_def)

lemma init_x_stride_le: "unat (init_x_stride c) \<le> 8"
  by (simp add: init_x_stride_def Let_def)

lemma init_planar_stride:
  "c \<in> {FOURCC_NV12, FOURCC_NV21, FOURCC_YUV9, FOURCC_YVU9, FOURCC_YV12, FOURCC_IYUV, FOURCC_YU16, FOURCC_YV16,
        FOURCC_YU24, FOURCC_YV24, FOURCC_RGBP, FOURCC_HSLP, FOURCC_BIN1} \<Longrightarrow> init_x_stride c = 1"
  by (auto simp: init_x_stride_def Let_def)

lemma init_plane_size:
  assumes "DVP_Image_Init im0 w h c = Some im" "p < planes im" "unat w * unat h * 8 < 2 ^ 32"
    and s: "unat (sample im p) * (unat w div unat (DVP_Image_WidthDiv (Some im) p)) \<le> 8 * unat w"
  shows "unat (DVP_Image_PlaneSize (Some im) p) =
    unat (sample im p) * (unat w div unat (DVP_Image_WidthDiv (Some im) p)) * unat h div unat (DVP_Image_HeightDiv (Some im) p)"
proof -
  have "unat (sample im p) * (unat w div unat (DVP_Image_WidthDiv (Some im) p)) * unat h \<le> 8 * unat w * unat h"
    using s by (rule mult_right_mono) simp
  also have "8 * unat w * unat h = unat w * unat h * 8" by simp
  finally have "unat (sample im p) * (unat w div unat (DVP_Image_WidthDiv (Some im) p)) * unat h < 2 ^ 32"
    using assms(3) by (rule order.strict_trans1)
  then show ?thesis using PlaneSize_unat[OF assms(2)] by (simp only: init_fields[OF assms(1)])
qed

lemma init_bytes_unat:
  assumes "unat w * unat h * 8 < 2 ^ 32"
  shows "unat (init_bytes w h (init_x_stride c) (init_planes c) c) =
    (if c \<in> {FOURCC_YUV9, FOURCC_YVU9} then unat w * unat h * 3
     else if c \<in> {FOURCC_YU16, FOURCC_YV16} then unat w * unat h + 2 * (unat w * unat h div 2)
     else exact_bytes c (unat w * unat h))"
proof -
  let ?n = "unat w * unat h"
  have n3: "?n * 3 < 2 ^ 32" using assms by linarith
  have n2: "2 * (?n div 2) < 2 ^ 32" "?n + 2 * (?n div 2) < 2 ^ 32" using assms by linarith+
  have n: "unat (h * w) = ?n" using assms by (subst unat_mult_small) (simp_all add: mult.commute)
  consider (yuv9) "c \<in> {FOURCC_YUV9, FOURCC_YVU9}" | (p420) "c \<in> {FOURCC_NV12, FOURCC_NV21, FOURCC_IYUV, FOURCC_YV12}"
    | (p422) "c \<in> {FOURCC_YU16, FOURCC_YV16}" | (bin) "c = FOURCC_BIN1"
    | (iso) "c \<notin> {FOURCC_YUV9, FOURCC_YVU9, FOURCC_NV12, FOURCC_NV21, FOURCC_IYUV, FOURCC_YV12, FOURCC_YU16, FOURCC_YV16, FOURCC_BIN1}"
    by blast
  then show ?thesis
  proof cases
    case yuv9
    then have "init_bytes w h (init_x_stride c) (init_planes c) c = h * w * 3"
      by (auto simp: init_bytes_def init_x_stride_def init_planes_def Let_def)
    moreover have "unat (h * w * 3) = ?n * 3" using n3 n by (subst unat_mult_small) simp_all
    ultimately show ?thesis using yuv9 by auto
  next
    case p420
    then have "init_bytes w h (init_x_stride c) (init_planes c) c = h * w * 3 div 2"
      by (auto simp: init_bytes_def Let_def)
    moreover have "unat (h * w * 3) = ?n * 3" using n3 n by (subst unat_mult_small) simp_all
    ultimately have "unat (init_bytes w h (init_x_stride c) (init_planes c) c) = ?n * 3 div 2" by (simp add: unat_div)
    then show ?thesis using p420 by (auto simp: exact_bytes_def)
  next
    case p422
    then have "init_bytes w h (init_x_stride c) (init_planes c) c = h * w + 2 * (h * w div 2)"
      by (auto simp: init_bytes_def Let_def)
    moreover have d: "unat (2 * (h * w div 2)) = 2 * (?n div 2)"
      using n2 n by (subst unat_mult_small) (simp_all only: unat_div, simp_all)
    moreover have "unat (h * w + 2 * (h * w div 2)) = ?n + 2 * (?n div 2)"
      using n2 n d by (subst unat_add_small) simp_all
    ultimately show ?thesis using p422 by auto
  next
    case bin
    then show ?thesis using n by (simp add: init_bytes_def exact_bytes_def Let_def unat_div)
  next
    case iso
    let ?s = "unat (init_x_stride c)" and ?p = "unat (init_planes c)"
    have sp: "?s * ?p \<le> 8" using iso by (simp add: init_x_stride_def init_planes_def Let_def)
    have le: "?n * ?s * ?p \<le> ?n * 8" using mult_le_mono2[OF sp, of ?n] by (simp add: mult.assoc)
    have p1: "1 \<le> ?p" by (simp add: init_planes_def)
    have "?n * ?s * 1 \<le> ?n * ?s * ?p" by (rule mult_le_mono2[OF p1])
    then have small: "?n * ?s < 2 ^ 32" "?n * ?s * ?p < 2 ^ 32" using le assms by linarith+
    then have "unat (h * w * init_x_stride c) = ?n * ?s" using n by (subst unat_mult_small) simp_all
    then have "unat (h * w * init_x_stride c * init_planes c) = ?n * ?s * ?p"
      using small by (subst unat_mult_small) simp_all
    then show ?thesis using iso by (simp add: init_bytes_def exact_bytes_def Let_def)
  qed
qed

text \<open>The three subsampled layouts, and the uniform one.\<close>

lemmas geometry_defs = sample_def DVP_Image_WidthStep_def DVP_Image_WidthDiv_def DVP_Image_HeightDiv_def
  init_planes_def init_x_stride_def Let_def

lemma init_geometry:
  assumes "DVP_Image_Init im0 w h c = Some im"
  shows "c \<in> {FOURCC_NV12, FOURCC_NV21} \<Longrightarrow> planes im = 2 \<and> sample im 0 = 1 \<and> sample im 1 = 2 \<and>
      DVP_Image_WidthDiv (Some im) 0 = 1 \<and> DVP_Image_HeightDiv (Some im) 0 = 1 \<and>
      DVP_Image_WidthDiv (Some im) 1 = 2 \<and> DVP_Image_HeightDiv (Some im) 1 = 2"
    and "c \<in> {FOURCC_IYUV, FOURCC_YV12} \<Longrightarrow> planes im = 3 \<and> sample im 0 = 1 \<and>
      DVP_Image_WidthDiv (Some im) 0 = 1 \<and> DVP_Image_HeightDiv (Some im) 0 = 1 \<and>
      (\<forall>p\<in>{1, 2}. sample im p = 1 \<and> DVP_Image_WidthDiv (Some im) p = 2 \<and> DVP_Image_HeightDiv (Some im) p = 2)"
    and "c \<in> {FOURCC_YU16, FOURCC_YV16} \<Longrightarrow> planes im = 3 \<and> sample im 0 = 1 \<and>
      DVP_Image_WidthDiv (Some im) 0 = 1 \<and> DVP_Image_HeightDiv (Some im) 0 = 1 \<and>
      (\<forall>p\<in>{1, 2}. sample im p = 1 \<and> DVP_Image_WidthDiv (Some im) p = 2 \<and> DVP_Image_HeightDiv (Some im) p = 1)"
    and "c \<in> {FOURCC_YUV9, FOURCC_YVU9} \<Longrightarrow> planes im = 3 \<and> sample im 0 = 1 \<and>
      DVP_Image_WidthDiv (Some im) 0 = 1 \<and> DVP_Image_HeightDiv (Some im) 0 = 1 \<and>
      (\<forall>p\<in>{1, 2}. sample im p = 1 \<and> DVP_Image_WidthDiv (Some im) p = 4 \<and> DVP_Image_HeightDiv (Some im) p = 4)"
    and "c = FOURCC_BIN1 \<Longrightarrow> planes im = 1 \<and> sample im 0 = 1 \<and>
      DVP_Image_WidthDiv (Some im) 0 = 8 \<and> DVP_Image_HeightDiv (Some im) 0 = 1"
    and "c \<notin> {FOURCC_YUV9, FOURCC_YVU9, FOURCC_NV12, FOURCC_NV21, FOURCC_IYUV, FOURCC_YV12, FOURCC_YU16, FOURCC_YV16, FOURCC_BIN1} \<Longrightarrow>
      planes im \<in> {1, 3} \<and> (planes im = 3 \<longrightarrow> init_x_stride c = 1) \<and>
      (\<forall>p. sample im p = init_x_stride c \<and> DVP_Image_WidthDiv (Some im) p = 1 \<and> DVP_Image_HeightDiv (Some im) p = 1)"
proof -
  note f = init_fields(1,2,5)[OF assms] geometry_defs
  { assume "c \<in> {FOURCC_NV12, FOURCC_NV21}"
    then show "planes im = 2 \<and> sample im 0 = 1 \<and> sample im 1 = 2 \<and>
      DVP_Image_WidthDiv (Some im) 0 = 1 \<and> DVP_Image_HeightDiv (Some im) 0 = 1 \<and>
      DVP_Image_WidthDiv (Some im) 1 = 2 \<and> DVP_Image_HeightDiv (Some im) 1 = 2"
      by (elim insertE emptyE) (simp_all add: f) }
  { assume "c \<in> {FOURCC_IYUV, FOURCC_YV12}"
    then show "planes im = 3 \<and> sample im 0 = 1 \<and>
      DVP_Image_WidthDiv (Some im) 0 = 1 \<and> DVP_Image_HeightDiv (Some im) 0 = 1 \<and>
      (\<forall>p\<in>{1, 2}. sample im p = 1 \<and> DVP_Image_WidthDiv (Some im) p = 2 \<and> DVP_Image_HeightDiv (Some im) p = 2)"
      by (elim insertE emptyE) (simp_all add: f) }
  { assume "c \<in> {FOURCC_YU16, FOURCC_YV16}"
    then show "planes im = 3 \<and> sample im 0 = 1 \<and>
      DVP_Image_WidthDiv (Some im) 0 = 1 \<and> DVP_Image_HeightDiv (Some im) 0 = 1 \<and>
      (\<forall>p\<in>{1, 2}. sample im p = 1 \<and> DVP_Image_WidthDiv (Some im) p = 2 \<and> DVP_Image_HeightDiv (Some im) p = 1)"
      by (elim insertE emptyE) (simp_all add: f) }
  { assume "c \<in> {FOURCC_YUV9, FOURCC_YVU9}"
    then show "planes im = 3 \<and> sample im 0 = 1 \<and>
      DVP_Image_WidthDiv (Some im) 0 = 1 \<and> DVP_Image_HeightDiv (Some im) 0 = 1 \<and>
      (\<forall>p\<in>{1, 2}. sample im p = 1 \<and> DVP_Image_WidthDiv (Some im) p = 4 \<and> DVP_Image_HeightDiv (Some im) p = 4)"
      by (elim insertE emptyE) (simp_all add: f) }
  { assume "c = FOURCC_BIN1"
    then show "planes im = 1 \<and> sample im 0 = 1 \<and>
      DVP_Image_WidthDiv (Some im) 0 = 8 \<and> DVP_Image_HeightDiv (Some im) 0 = 1"
      by (simp add: f) }
  { assume iso: "c \<notin> {FOURCC_YUV9, FOURCC_YVU9, FOURCC_NV12, FOURCC_NV21, FOURCC_IYUV, FOURCC_YV12, FOURCC_YU16, FOURCC_YV16, FOURCC_BIN1}"
    have "\<forall>p. sample im p = init_x_stride c \<and> DVP_Image_WidthDiv (Some im) p = 1 \<and> DVP_Image_HeightDiv (Some im) p = 1"
      using iso init_fields(1,2,5)[OF assms]
      by (simp add: sample_def DVP_Image_WidthStep_def DVP_Image_WidthDiv_def DVP_Image_HeightDiv_def)
    moreover have "init_planes c = 3 \<Longrightarrow> init_x_stride c = 1"
      using init_planar_stride[of c] unfolding init_planes_cases by (auto split: if_splits)
    moreover have "init_planes c \<in> {1, 3}" using iso by (simp add: init_planes_cases)
    ultimately show "planes im \<in> {1, 3} \<and> (planes im = 3 \<longrightarrow> init_x_stride c = 1) \<and>
      (\<forall>p. sample im p = init_x_stride c \<and> DVP_Image_WidthDiv (Some im) p = 1 \<and> DVP_Image_HeightDiv (Some im) p = 1)"
      using init_fields(1)[OF assms] by simp }
qed

lemma init_size_exact:
  assumes init: "DVP_Image_Init im0 w h c = Some im" and small: "unat w * unat h * 8 < 2 ^ 32"
    and w8: "unat w mod 8 = 0" and h4: "unat h mod 4 = 0"
  shows "unat (DVP_Image_Size (Some im)) = exact_bytes c (unat w * unat h)"
proof -
  obtain a b where ab: "unat w = 8 * a" "unat h = 4 * b" using w8 h4 unfolding mod_eq_0_iff_dvd by (elim dvdE)
  let ?P = "\<lambda>p. unat (DVP_Image_PlaneSize (Some im) p)"
  have n: "256 * (a * b) < 2 ^ 32" using small ab by simp
  have plane: "?P p = unat (sample im p) * (8 * a div unat (DVP_Image_WidthDiv (Some im) p)) * (4 * b) div unat (DVP_Image_HeightDiv (Some im) p)"
    if "p < planes im" "unat (sample im p) * (8 * a div unat (DVP_Image_WidthDiv (Some im) p)) \<le> 64 * a" for p
    using init_plane_size[OF init that(1) small] that(2) ab by simp
  consider (yuv9) "c \<in> {FOURCC_YUV9, FOURCC_YVU9}" | (nv) "c \<in> {FOURCC_NV12, FOURCC_NV21}" | (p420) "c \<in> {FOURCC_IYUV, FOURCC_YV12}"
    | (p422) "c \<in> {FOURCC_YU16, FOURCC_YV16}" | (bin) "c = FOURCC_BIN1"
    | (iso) "c \<notin> {FOURCC_YUV9, FOURCC_YVU9, FOURCC_NV12, FOURCC_NV21, FOURCC_IYUV, FOURCC_YV12, FOURCC_YU16, FOURCC_YV16, FOURCC_BIN1}"
    by blast
  then show ?thesis
  proof cases
    case yuv9
    note g = init_geometry(4)[OF init yuv9]
    have "?P 0 = 32 * (a * b)" "?P 1 = 2 * (a * b)" "?P 2 = 2 * (a * b)" using g by (auto simp: plane)
    then show ?thesis using Size_3[of im] g n yuv9 ab by (auto simp: exact_bytes_def)
  next
    case nv
    note g = init_geometry(1)[OF init nv]
    have "?P 0 = 32 * (a * b)" "?P 1 = 16 * (a * b)" using g by (auto simp: plane)
    then show ?thesis using Size_2[of im] g n nv ab by (auto simp: exact_bytes_def)
  next
    case p420
    note g = init_geometry(2)[OF init p420]
    have "?P 0 = 32 * (a * b)" "?P 1 = 8 * (a * b)" "?P 2 = 8 * (a * b)" using g by (auto simp: plane)
    then show ?thesis using Size_3[of im] g n p420 ab by (auto simp: exact_bytes_def)
  next
    case p422
    note g = init_geometry(3)[OF init p422]
    have "?P 0 = 32 * (a * b)" "?P 1 = 16 * (a * b)" "?P 2 = 16 * (a * b)" using g by (auto simp: plane)
    then show ?thesis using Size_3[of im] g n p422 ab by (auto simp: exact_bytes_def)
  next
    case bin
    note g = init_geometry(5)[OF init bin]
    have "?P 0 = 4 * (a * b)" using g by (auto simp: plane)
    then show ?thesis using Size_1[of im] g bin ab by (simp add: exact_bytes_def)
  next
    case iso
    note g = init_geometry(6)[OF init iso]
    let ?s = "unat (init_x_stride c)"
    have "?s * (8 * a) \<le> 8 * (8 * a)" by (rule mult_right_mono[OF init_x_stride_le]) simp
    then have p: "?P p = ?s * (32 * (a * b))" if "p < planes im" for p using that g by (simp add: plane)
    have e: "exact_bytes c (unat w * unat h) = 32 * (a * b) * ?s * unat (planes im)"
      using iso init_fields(1)[OF init] ab by (simp add: exact_bytes_def)
    show ?thesis
    proof (cases "planes im = 1")
      case True
      then show ?thesis using Size_1[of im] p[of 0] e by simp
    next
      case False
      then have "planes im = 3" "init_x_stride c = 1" using g by auto
      then show ?thesis using Size_3[of im] p[of 0] p[of 1] p[of 2] e n by simp
    qed
  qed
qed

section \<open>The patch\<close>

text \<open>What the fields of the patch leave alone.\<close>

abbreviation set_patch_fields :: "u32 \<Rightarrow> u32 \<Rightarrow> u32 \<Rightarrow> u32 \<Rightarrow> u32 list \<Rightarrow> DVP_Image_t \<Rightarrow> DVP_Image_t" where
  "set_patch_fields xs ys w h ds im \<equiv> im\<lparr>pData := ds, x_start := xs, y_start := ys, width := w, height := h\<rparr>"

lemma patch_fields_geometry [simp]:
  "DVP_Image_WidthStep (Some (set_patch_fields xs ys w h ds im)) p = DVP_Image_WidthStep (Some im) p"
  "DVP_Image_WidthDiv (Some (set_patch_fields xs ys w h ds im)) p = DVP_Image_WidthDiv (Some im) p"
  "DVP_Image_HeightDiv (Some (set_patch_fields xs ys w h ds im)) p = DVP_Image_HeightDiv (Some im) p"
  "DVP_Image_LineRange (Some (set_patch_fields xs ys w h ds im)) p = DVP_Image_LineRange (Some im) p"
  "DVP_Image_Offset (Some (set_patch_fields xs ys w h ds im)) x y p = DVP_Image_Offset (Some im) x y p"
  "DVP_Image_Addressing (Some (set_patch_fields xs ys w h ds im)) x y p = DVP_Image_Addressing (Some im) x y p"
proof -
  let ?j = "set_patch_fields xs ys w h ds im"
  show s: "DVP_Image_WidthStep (Some ?j) p = DVP_Image_WidthStep (Some im) p" for p by (simp add: DVP_Image_WidthStep_def)
  show d: "DVP_Image_WidthDiv (Some ?j) p = DVP_Image_WidthDiv (Some im) p" for p by (simp add: DVP_Image_WidthDiv_def)
  show e: "DVP_Image_HeightDiv (Some ?j) p = DVP_Image_HeightDiv (Some im) p" by (simp add: DVP_Image_HeightDiv_def)
  show l: "DVP_Image_LineRange (Some ?j) p = DVP_Image_LineRange (Some im) p" by (simp add: DVP_Image_LineRange_def Let_def s d)
  show o: "DVP_Image_Offset (Some ?j) x y p = DVP_Image_Offset (Some im) x y p"
    by (simp add: DVP_Image_Offset_def Let_def s d e l)
  show "DVP_Image_Addressing (Some ?j) x y p = DVP_Image_Addressing (Some im) x y p"
    by (simp add: DVP_Image_Addressing_def Let_def o)
qed

lemma patch_offset_add:
  assumes x: "unat xs + unat x < 2 ^ 32" "unat xs mod unat (DVP_Image_WidthDiv (Some im) p) = 0"
    and y: "unat ys + unat y < 2 ^ 32" "unat ys mod unat (DVP_Image_HeightDiv (Some im) p) = 0"
    and inside: "p < planes im" "xs < bufWidth im" "ys < bufHeight im" "xs + x < bufWidth im" "ys + y < bufHeight im"
    and patch: "x < w" "y < h"
  shows "DVP_Image_Offset (Some im) xs ys p + DVP_Image_PatchOffset (Some (set_patch_fields xs ys w h ds im)) x y p =
    DVP_Image_Offset (Some im) (xs + x) (ys + y) p"
proof -
  have divides: "(a + b) div d = a div d + b div d"
    if "unat a + unat b < 2 ^ 32" "unat a mod unat d = 0" for a b d :: u32
  proof -
    have s: "unat (a + b) = unat a + unat b" using that(1) by (rule unat_add_small)
    have "unat d dvd unat a" using that(2) by auto
    then have q: "(unat a + unat b) div unat d = unat a div unat d + unat b div unat d" by (rule div_plus_div_distrib_dvd_left)
    also have "\<dots> \<le> unat a + unat b" by (intro add_mono div_le_dividend)
    finally have "unat (a div d + b div d) = unat a div unat d + unat b div unat d"
      using that(1) q by (subst unat_add_small) (simp_all add: unat_div)
    then show ?thesis using s q by (simp add: word_unat_eq_iff unat_div)
  qed
  show ?thesis
    unfolding DVP_Image_Offset_def DVP_Image_PatchOffset_def Let_def
    using inside patch divides[OF x] divides[OF y] by (simp add: algebra_simps)
qed

text \<open>The loop over the planes sets every pointer.\<close>

lemma patch_loop:
  assumes len: "unat (planes im) \<le> length (pBuffer im)" "unat (planes im) \<le> length (pData im)" and pl: "planes im \<noteq> 0"
  shows "\<exists>ds. for_range 0 (unat (planes im)) (patch_plane xs ys w h) im = Some (set_patch_fields xs ys w h ds im) \<and>
    length ds = length (pData im) \<and>
    (\<forall>k<unat (planes im). Some (ds ! k) = DVP_Image_Addressing (Some im) xs ys (of_nat k))"
proof -
  let ?n = "unat (planes im)"
  let ?I = "\<lambda>k im'. \<exists>ds. im' = (if k = 0 then im else set_patch_fields xs ys w h ds im) \<and> (k = 0 \<longrightarrow> ds = pData im) \<and>
    length ds = length (pData im) \<and> (\<forall>j<k. Some (ds ! j) = DVP_Image_Addressing (Some im) xs ys (of_nat j))"
  have "\<exists>im'. for_range 0 ?n (patch_plane xs ys w h) im = Some im' \<and> ?I (0 + ?n) im'"
  proof (rule for_range_inv)
    show "?I 0 im" by simp
    fix k im' assume k: "k < 0 + ?n" and I: "?I k im'"
    then obtain ds where ds: "im' = (if k = 0 then im else set_patch_fields xs ys w h ds im)" "k = 0 \<longrightarrow> ds = pData im"
      "length ds = length (pData im)" "\<forall>j<k. Some (ds ! j) = DVP_Image_Addressing (Some im) xs ys (of_nat j)" by blast
    have k32: "unat (of_nat k :: u32) = k" using k unat_u32_less[of "planes im"] by (intro unat_of_nat_u32) simp
    have "of_nat k < planes im" using k k32 by (simp add: word_less_nat_alt)
    then obtain a where a: "DVP_Image_Addressing (Some im) xs ys (of_nat k) = Some a"
      using len(1) k k32 by (auto simp: DVP_Image_Addressing_def nth_chk_def)
    have "patch_plane xs ys w h (of_nat k) im' = Some (set_patch_fields xs ys w h (ds[k := a]) im)"
      using ds(1,2,3) a k len(2) k32 by (auto simp: patch_plane_def upd_chk_def)
    moreover have "\<forall>j<Suc k. Some (ds[k := a] ! j) = DVP_Image_Addressing (Some im) xs ys (of_nat j)"
      using ds(3,4) a k len(2) by (auto simp: less_Suc_eq nth_list_update)
    ultimately show "\<exists>s'. patch_plane xs ys w h (of_nat k) im' = Some s' \<and> ?I (Suc k) s'" using ds(3)
      by (intro exI[of _ "set_patch_fields xs ys w h (ds[k := a]) im"] conjI exI[of _ "ds[k := a]"]) simp_all
  qed
  then show ?thesis using pl by (auto simp: unat_eq_0)
qed

section \<open>Properties of the image geometry\<close>

text \<open>
  C19. On a plane whose subsampling divides the buffer, whose line holds its samples and whose size fits
  32 bits, every sample of \<open>DVP_Image_Offset\<close> lies inside \<open>DVP_Image_PlaneRange\<close>. Two pixels of one cell of the subsampling
  have the same sample; pixels of different cells, in another column or in another row, have disjoint bytes.
\<close>

theorem image_offset_safe:
  assumes "plane_ok im p" "x < bufWidth im" "y < bufHeight im" "x' < bufWidth im" "y' < bufHeight im"
  shows "unat (DVP_Image_Offset (Some im) x y p) + unat (sample im p) \<le> unat (DVP_Image_PlaneRange (Some im) p) \<and>
    (if x div DVP_Image_WidthDiv (Some im) p = x' div DVP_Image_WidthDiv (Some im) p \<and>
        y div DVP_Image_HeightDiv (Some im) p = y' div DVP_Image_HeightDiv (Some im) p
     then DVP_Image_Offset (Some im) x y p = DVP_Image_Offset (Some im) x' y' p
     else unat (DVP_Image_Offset (Some im) x y p) + unat (sample im p) \<le> unat (DVP_Image_Offset (Some im) x' y' p) \<or>
       unat (DVP_Image_Offset (Some im) x' y' p) + unat (sample im p) \<le> unat (DVP_Image_Offset (Some im) x y p))"
proof -
  have cell: "a div d = b div d \<longleftrightarrow> unat a div unat d = unat b div unat d" for a b d :: u32
    by (simp add: word_unat_eq_iff unat_div)
  have "DVP_Image_Offset (Some im) x y p = DVP_Image_Offset (Some im) x' y' p"
    if "unat x div unat (DVP_Image_WidthDiv (Some im) p) = unat x' div unat (DVP_Image_WidthDiv (Some im) p)"
      "unat y div unat (DVP_Image_HeightDiv (Some im) p) = unat y' div unat (DVP_Image_HeightDiv (Some im) p)"
    using that by (simp add: word_unat_eq_iff offset_value(1)[OF assms(1-3)] offset_value(1)[OF assms(1,4,5)])
  then show ?thesis using offset_bound[OF assms(1-3)] offset_disjoint[OF assms] unfolding cell by auto
qed

text \<open>A small NV12 image with its two planes in one allocation.\<close>

definition ex_nv12 :: DVP_Image_t where
  "ex_nv12 = zero_image\<lparr>pData := [1000, 1064, 0, 0], pBuffer := [1000, 1064, 0, 0], planes := 2, width := 8, height := 8,
     bufWidth := 8, bufHeight := 8, x_stride := 1, y_stride := 8, color := FOURCC_NV12, numBytes := 96\<rparr>"

lemma ex_nv12_ok: "plane_ok ex_nv12 1" "plane_ok ex_nv12 0"
  by (simp_all add: plane_ok_def ex_nv12_def geometry_defs DVP_Image_LineRange_def abs32_def word_sless_alt)

theorem image_offset_safe_witness:
  "unat (DVP_Image_Offset (Some ex_nv12) 6 7 1) + 2 \<le> unat (DVP_Image_PlaneRange (Some ex_nv12) 1) \<and>
   DVP_Image_Offset (Some ex_nv12) 6 7 1 = DVP_Image_Offset (Some ex_nv12) 7 6 1 \<and>
   DVP_Image_Offset (Some ex_nv12) 6 7 1 \<noteq> DVP_Image_Offset (Some ex_nv12) 6 5 1"
proof -
  have geo: "sample ex_nv12 1 = 2" "DVP_Image_WidthDiv (Some ex_nv12) 1 = 2" "DVP_Image_HeightDiv (Some ex_nv12) 1 = 2"
      "bufWidth ex_nv12 = 8" "bufHeight ex_nv12 = 8"
    by (simp_all add: ex_nv12_def geometry_defs)
  show ?thesis using image_offset_safe[OF ex_nv12_ok(1), of 6 7 7 6] image_offset_safe[OF ex_nv12_ok(1), of 6 7 6 5] by (auto simp: geo)
qed

text \<open>
  \<open>DVP_Image_Init\<close> sets as the number of bytes exactly the size of the image, for every colour and
  every multiple of the subsampling that fits 32 bits, except for the planar 4:1:1 colours, where it
  claims three full planes although the two chroma planes have a sixteenth of the pixels each.
\<close>

theorem image_init_bytes:
  assumes "DVP_Image_Init im0 w h c = Some im" "unat w * unat h * 8 < 2 ^ 32" "unat w mod 8 = 0" "unat h mod 4 = 0"
  shows "if c \<in> {FOURCC_YUV9, FOURCC_YVU9}
    then unat (numBytes im) = 3 * (unat w * unat h) \<and>
      unat (DVP_Image_Size (Some im)) = unat w * unat h + unat w * unat h div 8
    else numBytes im = DVP_Image_Size (Some im)"
proof (cases "c \<in> {FOURCC_YUV9, FOURCC_YVU9}")
  case True
  then show ?thesis using init_bytes_unat[OF assms(2), of c] init_size_exact[OF assms] init_fields(8)[OF assms(1)]
    by (auto simp: exact_bytes_def)
next
  case False
  have "even (unat w)" using assms(3) by presburger
  then have "2 * (unat w * unat h div 2) = unat w * unat h" by simp
  then have "unat (numBytes im) = unat (DVP_Image_Size (Some im))"
    using False init_bytes_unat[OF assms(2), of c] init_size_exact[OF assms] init_fields(8)[OF assms(1)]
    by (auto simp: exact_bytes_def)
  then show ?thesis using False by (simp add: word_unat_eq_iff)
qed

theorem image_init_bytes_witness:
  "\<exists>im. DVP_Image_Init (Some zero_image) 640 480 FOURCC_NV12 = Some im \<and> numBytes im = DVP_Image_Size (Some im)"
proof -
  obtain im where im: "DVP_Image_Init (Some zero_image) 640 480 FOURCC_NV12 = Some im"
    by (simp add: DVP_Image_Init_def Let_def)
  from image_init_bytes[OF this] show ?thesis using im by simp
qed

text \<open>
  A patch strictly inside the buffer whose corner is a multiple of the subsampling is an origin: the
  patch address of a pixel is the buffer address of the pixel moved by the corner, on every plane. The
  function reports failure all the same.
\<close>

theorem set_patch_addresses:
  assumes "unat (planes im) \<le> length (pBuffer im)" "unat (planes im) \<le> length (pData im)"
    and "unat xs + unat w < unat (bufWidth im)" "unat ys + unat h < unat (bufHeight im)"
    and "\<forall>p<planes im. unat xs mod unat (DVP_Image_WidthDiv (Some im) p) = 0 \<and> unat ys mod unat (DVP_Image_HeightDiv (Some im) p) = 0"
    and "p < planes im" "x < w" "y < h"
  shows "\<exists>im'. DVP_Image_SetPatch (Some im) xs ys w h = Some (False, Some im') \<and>
    width im' = w \<and> height im' = h \<and> x_start im' = xs \<and> y_start im' = ys \<and> pBuffer im' = pBuffer im \<and>
    DVP_Image_PatchAddressing (Some im') x y p = DVP_Image_Addressing (Some im) (xs + x) (ys + y) p"
proof -
  have xw: "unat (xs + w) = unat xs + unat w" "unat (ys + h) = unat ys + unat h"
    using assms(3,4) unat_u32_less[of "bufWidth im"] unat_u32_less[of "bufHeight im"]
    by (auto intro!: unat_add_small)
  have xx: "unat (xs + x) = unat xs + unat x" "unat (ys + y) = unat ys + unat y"
    using assms(3,4,7,8) unat_u32_less[of "bufWidth im"] unat_u32_less[of "bufHeight im"]
    by (auto intro!: unat_add_small simp: word_less_nat_alt)
  have inside: "xs < bufWidth im" "ys < bufHeight im" "xs + x < bufWidth im" "ys + y < bufHeight im"
    "xs + w < bufWidth im" "ys + h < bufHeight im"
    using xw xx assms(3,4,7,8) by (simp_all add: word_less_nat_alt)
  have small: "unat xs + unat x < 2 ^ 32" "unat ys + unat y < 2 ^ 32"
    using xx unat_u32_less[of "xs + x"] unat_u32_less[of "ys + y"] by simp_all
  have "planes im \<noteq> 0" using assms(6) by auto
  from patch_loop[OF assms(1,2) this] obtain ds where
    ds: "for_range 0 (unat (planes im)) (patch_plane xs ys w h) im = Some (set_patch_fields xs ys w h ds im)"
    "length ds = length (pData im)" "\<forall>k<unat (planes im). Some (ds ! k) = DVP_Image_Addressing (Some im) xs ys (of_nat k)"
    by blast
  let ?j = "set_patch_fields xs ys w h ds im"
  have p: "unat p < unat (planes im)" using assms(6) by (simp add: word_less_nat_alt)
  have dp: "Some (ds ! unat p) = DVP_Image_Addressing (Some im) xs ys p" using ds(3)[rule_format, OF p] by simp
  have b: "nth_chk (pBuffer im) (unat p) = Some (pBuffer im ! unat p)" "nth_chk ds (unat p) = Some (ds ! unat p)"
    using p assms(1,2) ds(2) by (simp_all add: nth_chk_def)
  have "DVP_Image_PatchAddressing (Some ?j) x y p = DVP_Image_Addressing (Some im) (xs + x) (ys + y) p"
    using patch_offset_add[OF small(1) _ small(2) _ assms(6) inside(1-4) assms(7,8), of ds] assms(5,6) dp b
    by (simp add: DVP_Image_PatchAddressing_def DVP_Image_Addressing_def Let_def add.assoc)
  then show ?thesis using ds(1) inside by (simp add: DVP_Image_SetPatch_def)
qed

theorem set_patch_addresses_witness:
  "\<exists>im'. DVP_Image_SetPatch (Some ex_nv12) 2 2 4 4 = Some (False, Some im') \<and>
     DVP_Image_PatchAddressing (Some im') 1 3 1 = DVP_Image_Addressing (Some ex_nv12) 3 5 1"
proof -
  have "\<forall>p<planes ex_nv12. unat (2 :: u32) mod unat (DVP_Image_WidthDiv (Some ex_nv12) p) = 0 \<and>
    unat (2 :: u32) mod unat (DVP_Image_HeightDiv (Some ex_nv12) p) = 0"
    by (simp add: ex_nv12_def DVP_Image_WidthDiv_def DVP_Image_HeightDiv_def)
  then show ?thesis
    using set_patch_addresses[of ex_nv12 2 4 2 4 1 1 3] by (auto simp: ex_nv12_def)
qed

text \<open>The whole buffer is never accepted as a patch.\<close>

lemma set_patch_whole_refused:
  "DVP_Image_SetPatch (Some im) 0 0 (bufWidth im) (bufHeight im) = Some (False, Some im)"
  by (simp add: DVP_Image_SetPatch_def)

end
