(* ===== verification/Dvp_ImageMem.thy ===== *)
theory Dvp_ImageMem
  imports Dvp_ImageGeo
begin

text \<open>
  The functions of \<open>source/dvp/dvp_kgraph/dvp_mem.c\<close> that move pixels: fill, copy with its colour
  conversions, the comparisons and the serialisation. Memory is a partial function from addresses to
  bytes and an access outside it is a fault. \<open>memcpy\<close> reads its source before it writes.
\<close>

section \<open>Memory\<close>

type_synonym memory = "u32 \<Rightarrow> u8 option"

definition store :: "u32 \<Rightarrow> u8 \<Rightarrow> memory \<Rightarrow> memory option" where
  "store a v m = (if m a = None then None else Some (m(a \<mapsto> v)))"

fun read_bytes :: "memory \<Rightarrow> u32 \<Rightarrow> nat \<Rightarrow> u8 list option" where
  "read_bytes m a 0 = Some []"
| "read_bytes m a (Suc n) = do { b \<leftarrow> m a; bs \<leftarrow> read_bytes m (a + 1) n; Some (b # bs) }"

fun write_bytes :: "u32 \<Rightarrow> u8 list \<Rightarrow> memory \<Rightarrow> memory option" where
  "write_bytes a [] m = Some m"
| "write_bytes a (b # bs) m = do { m' \<leftarrow> store a b m; write_bytes (a + 1) bs m' }"

definition memcpy :: "u32 \<Rightarrow> u32 \<Rightarrow> u32 \<Rightarrow> memory \<Rightarrow> memory option" where
  "memcpy d s n m = do { bs \<leftarrow> read_bytes m s (unat n); write_bytes d bs m }"

definition memcmp_eq :: "memory \<Rightarrow> u32 \<Rightarrow> u32 \<Rightarrow> u32 \<Rightarrow> bool option" where
  "memcmp_eq m a b n = do { xs \<leftarrow> read_bytes m a (unat n); ys \<leftarrow> read_bytes m b (unat n); Some (xs = ys) }"

section \<open>Filling a patch from a buffer\<close>

text \<open>The lines of one plane; the state is the memory and the offset into the buffer.\<close>

definition fill_plane :: "DVP_Image_t \<Rightarrow> u32 \<Rightarrow> u32 \<Rightarrow> memory \<times> u32 \<Rightarrow> (memory \<times> u32) option" where
  "fill_plane im buf p s =
     (let ydiv = DVP_Image_HeightDiv (Some im) p in
      for_range 0 (unat (height im div ydiv)) (\<lambda>y (m, off). do {
        let len = DVP_Image_PatchLineSize (Some im) p;
        ptr \<leftarrow> DVP_Image_PatchAddressing (Some im) 0 (y * ydiv) p;
        m' \<leftarrow> memcpy ptr (buf + off) len m;
        Some (m', off + len) }) s)"

definition DVP_Image_Fill :: "DVP_Image_t option \<Rightarrow> u32 \<Rightarrow> u32 \<Rightarrow> memory \<Rightarrow> memory option" where
  "DVP_Image_Fill pImage buf nbytes m =
     (if nbytes \<le> DVP_Image_PatchSize pImage
      then do { im \<leftarrow> pImage; (m', _) \<leftarrow> for_range 0 (unat (planes im)) (fill_plane im buf) (m, 0); Some m' }
      else Some m)"

section \<open>Copying with colour conversion\<close>

text \<open>The test that no plane pointer is null.\<close>

definition planes_set :: "DVP_Image_t \<Rightarrow> bool option" where
  "planes_set im = all_range 0 (unat (planes im)) (\<lambda>p. do { d \<leftarrow> nth_chk (pData im) (unat p); Some (d \<noteq> 0) })"

text \<open>Row by row; \<open>n\<close> rows of a plane whose row numbers are multiplied by \<open>ydiv\<close>.\<close>

definition copy_rows :: "DVP_Image_t \<Rightarrow> DVP_Image_t \<Rightarrow> u32 \<Rightarrow> u32 \<Rightarrow> u32 \<Rightarrow> memory \<Rightarrow> memory option" where
  "copy_rows dst src n ydiv p m =
     for_range 0 (unat n) (\<lambda>y m. do {
       d \<leftarrow> DVP_Image_PatchAddressing (Some dst) 0 (y * ydiv) p;
       s \<leftarrow> DVP_Image_PatchAddressing (Some src) 0 (y * ydiv) p;
       memcpy d s (DVP_Image_PatchLineSize (Some src) p) m }) m"

definition copy_plane :: "DVP_Image_t \<Rightarrow> DVP_Image_t \<Rightarrow> u32 \<Rightarrow> memory \<Rightarrow> memory option" where
  "copy_plane dst src p m =
     (let ydiv = DVP_Image_HeightDiv (Some src) p in copy_rows dst src (height src div ydiv) ydiv p m)"

text \<open>A byte of a destination macro pixel is a constant or a byte of the source macro pixel.\<close>

datatype byte_src = Const u8 | From u32

fun macro_pixel :: "u32 \<Rightarrow> u32 \<Rightarrow> byte_src list \<Rightarrow> memory \<Rightarrow> memory option" where
  "macro_pixel d s [] m = Some m"
| "macro_pixel d s (b # bs) m = do {
     v \<leftarrow> (case b of Const c \<Rightarrow> Some c | From i \<Rightarrow> m (s + i));
     m' \<leftarrow> store d v m;
     macro_pixel (d + 1) s bs m' }"

text \<open>
  The loop over macro pixels advances \<open>x\<close> by two; with the largest odd width \<open>x\<close> would wrap to 0 and
  the loop not end.
\<close>

definition convert_row :: "DVP_Image_t \<Rightarrow> DVP_Image_t \<Rightarrow> byte_src list \<Rightarrow> u32 \<Rightarrow> memory \<Rightarrow> memory option" where
  "convert_row dst src pattern y m =
     (if width src = 0xFFFFFFFF then None
      else for_range 0 ((unat (width src) + 1) div 2) (\<lambda>i m. do {
        s \<leftarrow> DVP_Image_PatchAddressing (Some src) (2 * i) y 0;
        d \<leftarrow> DVP_Image_PatchAddressing (Some dst) (2 * i) y 0;
        macro_pixel d s pattern m }) m)"

definition convert :: "DVP_Image_t \<Rightarrow> DVP_Image_t \<Rightarrow> byte_src list \<Rightarrow> memory \<Rightarrow> memory option" where
  "convert dst src pattern m = for_range 0 (unat (height src)) (convert_row dst src pattern) m"

definition swizzle :: "u32 \<Rightarrow> u32 \<Rightarrow> byte_src list" where
  "swizzle dst_color src_color =
     (if src_color = FOURCC_YUY2 then
        if dst_color = FOURCC_UYVY then [From 1, From 0, From 3, From 2] else [From 3, From 0, From 1, From 2]
      else
        if dst_color = FOURCC_UYVY then [From 3, From 0, From 1, From 2] else [From 1, From 0, From 3, From 2])"

definition has_luma_plane :: "u32 set" where
  "has_luma_plane = {FOURCC_NV12, FOURCC_YU24, FOURCC_YV24, FOURCC_YU16, FOURCC_YV16, FOURCC_IYUV, FOURCC_YV12,
     FOURCC_YUV9, FOURCC_YVU9}"

definition DVP_Image_Copy ::
  "DVP_Image_t option \<Rightarrow> DVP_Image_t option \<Rightarrow> memory \<Rightarrow> (bool \<times> memory) option" where
  "DVP_Image_Copy pDst pSrc m =
     (case (pSrc, pDst) of
        (Some src, Some dst) \<Rightarrow> do {
          s \<leftarrow> planes_set src;
          if \<not> s then Some (False, m)
          else do {
            d \<leftarrow> planes_set dst;
            if \<not> d then Some (False, m)
            else if width dst < width src \<or> height dst < height src then Some (False, m)
            else if color dst = color src then do {
              m' \<leftarrow> for_range 0 (unat (planes src)) (copy_plane dst src) m; Some (True, m') }
            else if color src = FOURCC_Y800 \<and> color dst \<in> {FOURCC_UYVY, FOURCC_VYUY} then do {
              m' \<leftarrow> convert dst src [Const 128, From 0, Const 128, From 1] m; Some (True, m') }
            else if color src = FOURCC_Y800 \<and> color dst \<in> {FOURCC_YUY2, FOURCC_YVYU} then do {
              m' \<leftarrow> convert dst src [From 0, Const 128, From 1, Const 128] m; Some (True, m') }
            else if color dst \<in> {FOURCC_UYVY, FOURCC_VYUY} \<and> color src \<in> {FOURCC_YVYU, FOURCC_YUY2} then do {
              m' \<leftarrow> convert dst src (swizzle (color dst) (color src)) m; Some (True, m') }
            else if color src \<in> has_luma_plane \<and> color dst = FOURCC_Y800 then do {
              m' \<leftarrow> copy_rows dst src (height src) 1 0 m; Some (True, m') }
            else Some (False, m) } }
      | _ \<Rightarrow> Some (False, m))"

section \<open>Comparing\<close>

definition equal_rows ::
  "memory \<Rightarrow> (u32 \<Rightarrow> u32 option) \<Rightarrow> (u32 \<Rightarrow> u32 option) \<Rightarrow> u32 \<Rightarrow> u32 \<Rightarrow> u32 \<Rightarrow> bool option" where
  "equal_rows m src_at dst_at n ydiv l =
     all_range 0 (unat n) (\<lambda>y. do { s \<leftarrow> src_at (y * ydiv); d \<leftarrow> dst_at (y * ydiv); memcmp_eq m d s l })"

definition DVP_Image_Equal :: "DVP_Image_t option \<Rightarrow> DVP_Image_t option \<Rightarrow> memory \<Rightarrow> bool option" where
  "DVP_Image_Equal pDst pSrc m =
     (case (pSrc, pDst) of
        (Some src, Some dst) \<Rightarrow> do {
          s \<leftarrow> planes_set src;
          if \<not> s then Some False
          else do {
            d \<leftarrow> planes_set dst;
            if \<not> d then Some False
            else if bufWidth src \<noteq> bufWidth dst \<or> bufHeight src \<noteq> bufHeight dst then Some False
            else if color dst = color src then
              all_range 0 (unat (planes src)) (\<lambda>p.
                let ydiv = DVP_Image_HeightDiv pSrc p in
                equal_rows m (\<lambda>y. DVP_Image_Addressing pSrc 0 y p) (\<lambda>y. DVP_Image_Addressing pDst 0 y p)
                  (bufHeight src div ydiv) ydiv (DVP_Image_LineSize pSrc p))
            else Some False } }
      | _ \<Rightarrow> Some False)"

definition DVP_Image_PatchEqual :: "DVP_Image_t option \<Rightarrow> DVP_Image_t option \<Rightarrow> memory \<Rightarrow> bool option" where
  "DVP_Image_PatchEqual pDst pSrc m =
     (case (pSrc, pDst) of
        (Some src, Some dst) \<Rightarrow> do {
          s \<leftarrow> planes_set src;
          if \<not> s then Some False
          else do {
            d \<leftarrow> planes_set dst;
            if \<not> d then Some False
            else if width src \<noteq> width dst \<or> height src \<noteq> height dst then Some False
            else if bufWidth src < x_start src + width src \<or> bufWidth dst < x_start dst + width dst \<or>
              bufHeight src < y_start src + height src \<or> bufHeight dst < y_start dst + height dst
            then Some False
            else if color dst = color src then
              all_range 0 (unat (planes src)) (\<lambda>p.
                let ydiv = DVP_Image_HeightDiv pSrc p in
                equal_rows m (\<lambda>y. DVP_Image_PatchAddressing pSrc 0 y p) (\<lambda>y. DVP_Image_PatchAddressing pDst 0 y p)
                  (height src div ydiv) ydiv (DVP_Image_PatchLineSize pSrc p))
            else Some False } }
      | _ \<Rightarrow> Some False)"

section \<open>Serialisation\<close>

text \<open>The macros of \<open>include/sosal/socket.h\<close>; a little-endian unit of four bytes.\<close>

definition unit_bytes :: "u32 \<Rightarrow> u8 list" where
  "unit_bytes u = map (\<lambda>i. ucast (drop_bit (8 * i) u)) [0, 1, 2, 3]"

definition bytes_unit :: "u8 list \<Rightarrow> u32" where
  "bytes_unit bs = foldr (\<lambda>b u. push_bit 8 u + ucast b) bs 0"

definition SERIALIZE_UNIT :: "nat \<Rightarrow> u32 \<Rightarrow> nat \<times> u8 list \<Rightarrow> (nat \<times> u8 list) option" where
  "SERIALIZE_UNIT len u s =
     (case s of (offset, buffer) \<Rightarrow>
        if size_add offset 4 < len
        then do { b \<leftarrow> mem_put buffer offset (unit_bytes u); Some (size_add offset 4, b) }
        else Some (offset, buffer))"

definition UNSERIALIZE_UNIT :: "u8 list \<Rightarrow> nat \<Rightarrow> u32 \<Rightarrow> nat \<Rightarrow> (u32 \<times> nat) option" where
  "UNSERIALIZE_UNIT buffer len u offset =
     (if size_add offset 4 < len
      then do { bs \<leftarrow> mem_get buffer offset 4; Some (bytes_unit bs, size_add offset 4) }
      else Some (u, offset))"

definition SERIALIZE_ARRAY :: "nat \<Rightarrow> u32 \<Rightarrow> u32 \<Rightarrow> memory \<Rightarrow> nat \<times> u8 list \<Rightarrow> (nat \<times> u8 list) option" where
  "SERIALIZE_ARRAY len ptr ptrlen m s =
     (case s of (offset, buffer) \<Rightarrow>
        if size_add offset (unat ptrlen) < len
        then do {
          bs \<leftarrow> read_bytes m ptr (unat ptrlen);
          b \<leftarrow> mem_put buffer offset bs;
          Some (size_add offset (unat ptrlen), b) }
        else Some (offset, buffer))"

definition UNSERIALIZE_ARRAY :: "u8 list \<Rightarrow> nat \<Rightarrow> u32 \<Rightarrow> u32 \<Rightarrow> memory \<times> nat \<Rightarrow> (memory \<times> nat) option" where
  "UNSERIALIZE_ARRAY buffer len ptr ptrlen s =
     (case s of (m, offset) \<Rightarrow>
        if size_add offset (unat ptrlen) < len
        then do {
          bs \<leftarrow> mem_get buffer offset (unat ptrlen);
          m' \<leftarrow> write_bytes ptr bs m;
          Some (m', size_add offset (unat ptrlen)) }
        else Some (m, offset))"

definition serialize_plane :: "DVP_Image_t \<Rightarrow> nat \<Rightarrow> memory \<Rightarrow> u32 \<Rightarrow> nat \<times> u8 list \<Rightarrow> (nat \<times> u8 list) option" where
  "serialize_plane im len m p s =
     (let ydiv = DVP_Image_HeightDiv (Some im) p; l = DVP_Image_PatchLineSize (Some im) p in
      for_range 0 (unat (height im div ydiv)) (\<lambda>y s. do {
        ptr \<leftarrow> DVP_Image_PatchAddressing (Some im) 0 (y * ydiv) p;
        SERIALIZE_ARRAY len ptr l m s }) s)"

definition DVP_Image_Serialize ::
  "bool \<Rightarrow> DVP_Image_t option \<Rightarrow> u8 list \<Rightarrow> nat \<Rightarrow> memory \<Rightarrow> (nat \<times> u8 list) option" where
  "DVP_Image_Serialize tiler pImage buffer len m = do {
     im \<leftarrow> pImage;
     s \<leftarrow> SERIALIZE_UNIT len (planes im) (0, buffer);
     s \<leftarrow> SERIALIZE_UNIT len (width im) s;
     s \<leftarrow> SERIALIZE_UNIT len (height im) s;
     s \<leftarrow> SERIALIZE_UNIT len (bufWidth im) s;
     s \<leftarrow> SERIALIZE_UNIT len (bufHeight im) s;
     s \<leftarrow> SERIALIZE_UNIT len (x_start im) s;
     s \<leftarrow> SERIALIZE_UNIT len (y_start im) s;
     s \<leftarrow> SERIALIZE_UNIT len (color im) s;
     s \<leftarrow> SERIALIZE_UNIT len (numBytes im) s;
     _ \<leftarrow> DVP_Image_Dims tiler im;
     for_range 0 (unat (planes im)) (serialize_plane im len m) s }"

definition unserialize_plane ::
  "bool \<Rightarrow> DVP_Image_t \<Rightarrow> u8 list \<Rightarrow> nat \<Rightarrow> u32 \<Rightarrow> memory \<times> nat \<Rightarrow> (memory \<times> nat) option" where
  "unserialize_plane copy im buffer len p s =
     (let ydiv = DVP_Image_HeightDiv (Some im) p; l = DVP_Image_PatchLineSize (Some im) p in
      for_range 0 (unat (height im div ydiv)) (\<lambda>y s. do {
        ptr \<leftarrow> DVP_Image_PatchAddressing (Some im) 0 (y * ydiv) p;
        if copy then UNSERIALIZE_ARRAY buffer len ptr l s
        else Some (fst s, size_add (snd s) (unat l)) }) s)"

text \<open>
  \<open>junk\<close> is the uninitialised local image whose fields the header of the stream overwrites. The pixels
  go to \<open>pImage\<close>, which keeps its own fields.
\<close>

definition DVP_Image_Unserialize ::
  "bool \<Rightarrow> DVP_Image_t \<Rightarrow> DVP_Image_t option \<Rightarrow> u8 list \<Rightarrow> nat \<Rightarrow> memory \<Rightarrow> (memory \<times> nat) option" where
  "DVP_Image_Unserialize tiler junk pImage buffer len m = do {
     (pl, o1) \<leftarrow> UNSERIALIZE_UNIT buffer len (planes junk) 0;
     (w, o2) \<leftarrow> UNSERIALIZE_UNIT buffer len (width junk) o1;
     (h, o3) \<leftarrow> UNSERIALIZE_UNIT buffer len (height junk) o2;
     (bw, o4) \<leftarrow> UNSERIALIZE_UNIT buffer len (bufWidth junk) o3;
     (bh, o5) \<leftarrow> UNSERIALIZE_UNIT buffer len (bufHeight junk) o4;
     (xs, o6) \<leftarrow> UNSERIALIZE_UNIT buffer len (x_start junk) o5;
     (ys, o7) \<leftarrow> UNSERIALIZE_UNIT buffer len (y_start junk) o6;
     (c, o8) \<leftarrow> UNSERIALIZE_UNIT buffer len (color junk) o7;
     (nb, o9) \<leftarrow> UNSERIALIZE_UNIT buffer len (numBytes junk) o8;
     let image = junk\<lparr>planes := pl, width := w, height := h, bufWidth := bw, bufHeight := bh, x_start := xs,
       y_start := ys, color := c, numBytes := nb\<rparr>;
     im \<leftarrow> pImage;
     let copy = (color image = color im \<and> bufWidth image = bufWidth im \<and> bufHeight image = bufHeight im);
     _ \<leftarrow> DVP_Image_Dims tiler image;
     for_range 0 (unat (planes image)) (unserialize_plane copy im buffer len) (m, o9) }"

end
