(* ===== verification/Dvp_KernelTypes.thy ===== *)
theory Dvp_KernelTypes
  imports Dvp_Kgb Dvp_ImageMem
begin

text \<open>
  The kernels and their parameter structures, from \<open>include/dvp/dvp_types.h\<close>: the feature kernels
  with the values the enumeration gives them, the buffer, the structures a node's data region is cast
  to, and \<open>DVP_Buffer_Validate\<close> and \<open>DVP_Buffer_Init\<close> of \<open>dvp_mem.c\<close>.
\<close>

section \<open>Kernels\<close>

abbreviation DVP_KN_INVALID :: int where "DVP_KN_INVALID \<equiv> 0"
abbreviation DVP_KF_DEBUG_BASE :: int where "DVP_KF_DEBUG_BASE \<equiv> 0x1000"
abbreviation DVP_KN_COPY :: int where "DVP_KN_COPY \<equiv> 0x1001"
abbreviation DVP_KN_ECHO :: int where "DVP_KN_ECHO \<equiv> 0x1001"
abbreviation DVP_KN_IMAGE_DEBUG :: int where "DVP_KN_IMAGE_DEBUG \<equiv> 0x1002"
abbreviation DVP_KN_BUFFER_DEBUG :: int where "DVP_KN_BUFFER_DEBUG \<equiv> 0x1003"
abbreviation DVP_KN_NOOP :: int where "DVP_KN_NOOP \<equiv> 0x1004"
abbreviation DVP_KF_COLOR_CONVERT_BASE :: int where "DVP_KF_COLOR_CONVERT_BASE \<equiv> 0x2000"
abbreviation DVP_KN_XYXY_TO_Y800 :: int where "DVP_KN_XYXY_TO_Y800 \<equiv> 0x2001"
abbreviation DVP_KN_YXYX_TO_Y800 :: int where "DVP_KN_YXYX_TO_Y800 \<equiv> 0x2002"
abbreviation DVP_KN_Y800_TO_XYXY :: int where "DVP_KN_Y800_TO_XYXY \<equiv> 0x2003"
abbreviation DVP_KN_UYVY_TO_RGBp :: int where "DVP_KN_UYVY_TO_RGBp \<equiv> 0x2004"
abbreviation DVP_KN_UYVY_TO_YUV420p :: int where "DVP_KN_UYVY_TO_YUV420p \<equiv> 0x2005"
abbreviation DVP_KN_UYVY_TO_YUV422p :: int where "DVP_KN_UYVY_TO_YUV422p \<equiv> 0x2006"
abbreviation DVP_KN_UYVY_TO_YUV444p :: int where "DVP_KN_UYVY_TO_YUV444p \<equiv> 0x2007"
abbreviation DVP_KN_UYVY_TO_BGR :: int where "DVP_KN_UYVY_TO_BGR \<equiv> 0x2008"
abbreviation DVP_KN_YUV422p_TO_RGB565 :: int where "DVP_KN_YUV422p_TO_RGB565 \<equiv> 0x2009"
abbreviation DVP_KN_UYVY_TO_HSLp :: int where "DVP_KN_UYVY_TO_HSLp \<equiv> 0x200A"
abbreviation DVP_KN_UYVY_TO_LABp :: int where "DVP_KN_UYVY_TO_LABp \<equiv> 0x200B"
abbreviation DVP_KN_YUV420p_TO_UYVY :: int where "DVP_KN_YUV420p_TO_UYVY \<equiv> 0x200C"
abbreviation DVP_KN_YUV422p_TO_UYVY :: int where "DVP_KN_YUV422p_TO_UYVY \<equiv> 0x200D"
abbreviation DVP_KN_YUV444p_TO_UYVY :: int where "DVP_KN_YUV444p_TO_UYVY \<equiv> 0x200E"
abbreviation DVP_KN_YUV444p_TO_RGBp :: int where "DVP_KN_YUV444p_TO_RGBp \<equiv> 0x200F"
abbreviation DVP_KN_NV12_TO_YUV444p :: int where "DVP_KN_NV12_TO_YUV444p \<equiv> 0x2010"
abbreviation DVP_KN_BGR3_TO_UYVY :: int where "DVP_KN_BGR3_TO_UYVY \<equiv> 0x2011"
abbreviation DVP_KN_BGR3_TO_NV12 :: int where "DVP_KN_BGR3_TO_NV12 \<equiv> 0x2012"
abbreviation DVP_KN_NV12_TO_UYVY :: int where "DVP_KN_NV12_TO_UYVY \<equiv> 0x2013"
abbreviation DVP_KN_YUV420p_TO_RGBp :: int where "DVP_KN_YUV420p_TO_RGBp \<equiv> 0x2014"
abbreviation DVP_KN_BGR3_TO_IYUV :: int where "DVP_KN_BGR3_TO_IYUV \<equiv> 0x2015"
abbreviation DVP_KF_FILTER_BASE :: int where "DVP_KF_FILTER_BASE \<equiv> 0x3000"
abbreviation DVP_KN_SOBEL_8 :: int where "DVP_KN_SOBEL_8 \<equiv> 0x3001"
abbreviation DVP_KN_SCHARR_8 :: int where "DVP_KN_SCHARR_8 \<equiv> 0x3002"
abbreviation DVP_KN_KROON_8 :: int where "DVP_KN_KROON_8 \<equiv> 0x3003"
abbreviation DVP_KN_PREWITT_8 :: int where "DVP_KN_PREWITT_8 \<equiv> 0x3004"
abbreviation DVP_KF_MORPH_BASE :: int where "DVP_KF_MORPH_BASE \<equiv> 0x4000"
abbreviation DVP_KN_DILATE_CROSS :: int where "DVP_KN_DILATE_CROSS \<equiv> 0x4001"
abbreviation DVP_KN_DILATE_MASK :: int where "DVP_KN_DILATE_MASK \<equiv> 0x4002"
abbreviation DVP_KN_DILATE_SQUARE :: int where "DVP_KN_DILATE_SQUARE \<equiv> 0x4003"
abbreviation DVP_KN_ERODE_CROSS :: int where "DVP_KN_ERODE_CROSS \<equiv> 0x4004"
abbreviation DVP_KN_ERODE_MASK :: int where "DVP_KN_ERODE_MASK \<equiv> 0x4005"
abbreviation DVP_KN_ERODE_SQUARE :: int where "DVP_KN_ERODE_SQUARE \<equiv> 0x4006"
abbreviation DVP_KN_CANNY_BASE :: int where "DVP_KN_CANNY_BASE \<equiv> 0x5000"
abbreviation DVP_KN_CANNY_IMAGE_SMOOTHING :: int where "DVP_KN_CANNY_IMAGE_SMOOTHING \<equiv> 0x5001"
abbreviation DVP_KN_CANNY_2D_GRADIENT :: int where "DVP_KN_CANNY_2D_GRADIENT \<equiv> 0x5002"
abbreviation DVP_KN_CANNY_NONMAX_SUPPRESSION :: int where "DVP_KN_CANNY_NONMAX_SUPPRESSION \<equiv> 0x5003"
abbreviation DVP_KN_CANNY_HYST_THRESHHOLD :: int where "DVP_KN_CANNY_HYST_THRESHHOLD \<equiv> 0x5004"
abbreviation DVP_KN_CONVERT_BASE :: int where "DVP_KN_CONVERT_BASE \<equiv> 0x6000"
abbreviation DVP_KN_THRESHOLD :: int where "DVP_KN_THRESHOLD \<equiv> 0x6001"
abbreviation DVP_KN_XSTRIDE_CONVERT :: int where "DVP_KN_XSTRIDE_CONVERT \<equiv> 0x6002"
abbreviation DVP_KN_XSTRIDE_SHIFT :: int where "DVP_KN_XSTRIDE_SHIFT \<equiv> 0x6003"
abbreviation DVP_KN_IIR_BASE :: int where "DVP_KN_IIR_BASE \<equiv> 0x7000"
abbreviation DVP_KN_IIR_HORZ :: int where "DVP_KN_IIR_HORZ \<equiv> 0x7001"
abbreviation DVP_KN_IIR_VERT :: int where "DVP_KN_IIR_VERT \<equiv> 0x7002"
abbreviation DVP_KN_NONMAXSUPPRESS_BASE :: int where "DVP_KN_NONMAXSUPPRESS_BASE \<equiv> 0x8000"
abbreviation DVP_KN_NONMAXSUPPRESS_3x3_S16 :: int where "DVP_KN_NONMAXSUPPRESS_3x3_S16 \<equiv> 0x8001"
abbreviation DVP_KN_NONMAXSUPPRESS_5x5_S16 :: int where "DVP_KN_NONMAXSUPPRESS_5x5_S16 \<equiv> 0x8002"
abbreviation DVP_KN_NONMAXSUPPRESS_7x7_S16 :: int where "DVP_KN_NONMAXSUPPRESS_7x7_S16 \<equiv> 0x8003"
abbreviation DVP_KN_CONV_BASE :: int where "DVP_KN_CONV_BASE \<equiv> 0x9000"
abbreviation DVP_KN_CONV_3x3 :: int where "DVP_KN_CONV_3x3 \<equiv> 0x9001"
abbreviation DVP_KN_CONV_5x5 :: int where "DVP_KN_CONV_5x5 \<equiv> 0x9002"
abbreviation DVP_KN_CONV_7x7 :: int where "DVP_KN_CONV_7x7 \<equiv> 0x9003"
abbreviation DVP_KN_THR_BASE :: int where "DVP_KN_THR_BASE \<equiv> 0xA000"
abbreviation DVP_KN_THR_GT2MAX_8 :: int where "DVP_KN_THR_GT2MAX_8 \<equiv> 0xA001"
abbreviation DVP_KN_THR_GT2MAX_16 :: int where "DVP_KN_THR_GT2MAX_16 \<equiv> 0xA002"
abbreviation DVP_KN_THR_GT2THR_8 :: int where "DVP_KN_THR_GT2THR_8 \<equiv> 0xA003"
abbreviation DVP_KN_THR_GT2THR_16 :: int where "DVP_KN_THR_GT2THR_16 \<equiv> 0xA004"
abbreviation DVP_KN_THR_LE2MIN_8 :: int where "DVP_KN_THR_LE2MIN_8 \<equiv> 0xA005"
abbreviation DVP_KN_THR_LE2MIN_16 :: int where "DVP_KN_THR_LE2MIN_16 \<equiv> 0xA006"
abbreviation DVP_KN_THR_LE2THR_8 :: int where "DVP_KN_THR_LE2THR_8 \<equiv> 0xA007"
abbreviation DVP_KN_THR_LE2THR_16 :: int where "DVP_KN_THR_LE2THR_16 \<equiv> 0xA008"
abbreviation DVP_KN_SOBEL_BASE :: int where "DVP_KN_SOBEL_BASE \<equiv> 0xB000"
abbreviation DVP_KN_SOBEL_3x3_8s :: int where "DVP_KN_SOBEL_3x3_8s \<equiv> 0xB001"
abbreviation DVP_KN_SOBEL_3x3_8 :: int where "DVP_KN_SOBEL_3x3_8 \<equiv> 0xB002"
abbreviation DVP_KN_SOBEL_3x3_16s :: int where "DVP_KN_SOBEL_3x3_16s \<equiv> 0xB003"
abbreviation DVP_KN_SOBEL_3x3_16 :: int where "DVP_KN_SOBEL_3x3_16 \<equiv> 0xB004"
abbreviation DVP_KN_SOBEL_5x5_8s :: int where "DVP_KN_SOBEL_5x5_8s \<equiv> 0xB005"
abbreviation DVP_KN_SOBEL_5x5_8 :: int where "DVP_KN_SOBEL_5x5_8 \<equiv> 0xB006"
abbreviation DVP_KN_SOBEL_5x5_16s :: int where "DVP_KN_SOBEL_5x5_16s \<equiv> 0xB007"
abbreviation DVP_KN_SOBEL_5x5_16 :: int where "DVP_KN_SOBEL_5x5_16 \<equiv> 0xB008"
abbreviation DVP_KN_SOBEL_7x7_8s :: int where "DVP_KN_SOBEL_7x7_8s \<equiv> 0xB009"
abbreviation DVP_KN_SOBEL_7x7_8 :: int where "DVP_KN_SOBEL_7x7_8 \<equiv> 0xB00A"
abbreviation DVP_KN_SOBEL_7x7_16s :: int where "DVP_KN_SOBEL_7x7_16s \<equiv> 0xB00B"
abbreviation DVP_KN_SOBEL_7x7_16 :: int where "DVP_KN_SOBEL_7x7_16 \<equiv> 0xB00C"
abbreviation DVP_KN_INTEGRAL_BASE :: int where "DVP_KN_INTEGRAL_BASE \<equiv> 0xC000"
abbreviation DVP_KN_INTEGRAL_IMAGE_8 :: int where "DVP_KN_INTEGRAL_IMAGE_8 \<equiv> 0xC001"
abbreviation DVP_KN_GAMMA :: int where "DVP_KN_GAMMA \<equiv> 0xC002"
abbreviation DVP_KN_LOCAL_OPTIMIZED_BASE :: int where "DVP_KN_LOCAL_OPTIMIZED_BASE \<equiv> 0x30000000"
abbreviation DVP_KN_MAXIMUM :: int where "DVP_KN_MAXIMUM \<equiv> 0x7FFFFFFF"

section \<open>Buffers\<close>

record DVP_Buffer_t =
  buf_pData :: u32
  buf_elemSize :: u32
  buf_numBytes :: u32
  buf_memType :: u32
  buf_reserved :: u32
  buf_skipCacheOpInval :: s32
  buf_skipCacheOpFlush :: s32

definition DVP_Buffer_Validate :: "u32 \<Rightarrow> DVP_Buffer_t option \<Rightarrow> bool" where
  "DVP_Buffer_Validate mtype_max pBuf =
     (case pBuf of
        None \<Rightarrow> False
      | Some b \<Rightarrow> \<not> (buf_elemSize b = 0 \<or> buf_numBytes b = 0 \<or> mtype_max \<le> buf_memType b \<or> buf_pData b = 0))"

definition DVP_Buffer_Init :: "DVP_Buffer_t option \<Rightarrow> u32 \<Rightarrow> u32 \<Rightarrow> DVP_Buffer_t option" where
  "DVP_Buffer_Init pBuf elemSize numElems =
     map_option (\<lambda>_. \<lparr>buf_pData = 0, buf_elemSize = elemSize, buf_numBytes = elemSize * numElems, buf_memType = 0,
       buf_reserved = 0, buf_skipCacheOpInval = 0, buf_skipCacheOpFlush = 0\<rparr>) pBuf"

definition DVP_Buffer_Deinit :: "DVP_Buffer_t option \<Rightarrow> DVP_Buffer_t option" where
  "DVP_Buffer_Deinit pBuf =
     (let e = 0xEFEFEFEF in
      map_option (\<lambda>_. \<lparr>buf_pData = e, buf_elemSize = e, buf_numBytes = e, buf_memType = e,
        buf_reserved = e, buf_skipCacheOpInval = e, buf_skipCacheOpFlush = e\<rparr>) pBuf)"

section \<open>Parameter structures\<close>

record DVP_ImageDebug_t =
  dbg_image :: DVP_Image_t

record DVP_BufferDebug_t =
  dbg_buffer :: DVP_Buffer_t

record DVP_Transform_t =
  tr_input :: DVP_Image_t
  tr_output :: DVP_Image_t

record DVP_Morphology_t =
  mo_input :: DVP_Image_t
  mo_output :: DVP_Image_t
  mo_mask :: DVP_Image_t

record DVP_Bounds_t =
  bo_pData :: u32
  bo_width :: u32
  bo_height :: u32

record DVP_IIR_t =
  iir_input :: DVP_Image_t
  iir_output :: DVP_Image_t
  iir_bounds :: "DVP_Bounds_t list"
  iir_scratch :: DVP_Image_t
  iir_weight :: "16 word"

record DVP_ImageConvolution_t =
  conv_input :: DVP_Image_t
  conv_output :: DVP_Image_t
  conv_mask :: DVP_Image_t
  conv_shiftMask :: "16 word"

record DVP_Canny2dGradient_t =
  cg_input :: DVP_Image_t
  cg_outGradX :: DVP_Image_t
  cg_outGradY :: DVP_Image_t
  cg_outMag :: DVP_Image_t

record DVP_Threshold_t =
  th_input :: DVP_Image_t
  th_output :: DVP_Image_t
  th_thresh :: "16 word"

record DVP_Gamma_t =
  ga_input :: DVP_Image_t
  ga_output :: DVP_Image_t
  ga_gammaLut :: "u8 list"

text \<open>
  \<open>dvp_knode_to\<close> casts the data region of a node to a structure. What the structure's fields are then is
  a function of the bytes that the compiler's layout fixes, so the readings are a parameter.
\<close>

record knode_views =
  to_ImageDebug :: "u8 list \<Rightarrow> DVP_ImageDebug_t"
  to_BufferDebug :: "u8 list \<Rightarrow> DVP_BufferDebug_t"
  to_Transform :: "u8 list \<Rightarrow> DVP_Transform_t"
  to_Morphology :: "u8 list \<Rightarrow> DVP_Morphology_t"
  to_IIR :: "u8 list \<Rightarrow> DVP_IIR_t"
  to_ImageConvolution :: "u8 list \<Rightarrow> DVP_ImageConvolution_t"
  to_Canny2dGradient :: "u8 list \<Rightarrow> DVP_Canny2dGradient_t"
  to_Threshold :: "u8 list \<Rightarrow> DVP_Threshold_t"
  to_Gamma :: "u8 list \<Rightarrow> DVP_Gamma_t"

abbreviation SUCCESS_code :: int where "SUCCESS_code \<equiv> 1"
abbreviation INVALID_PARAMETER_code :: int where "INVALID_PARAMETER_code \<equiv> - 8"

end
