(* ===== verification/Dvp_RpcCall.thy ===== *)
theory Dvp_RpcCall
  imports Dvp_Rpc Omaprpc Dvp_KernelTypes
begin

text \<open>
  Calls to the remote cores, the rest of \<open>source/dvp/dvp_kgraph/dvp_rpc_omaprpc.c\<close>: the cores and their channels, the cache
  maintenance and the pointer translations for the operands of a kernel, and the call itself. The platform is a PANDA board with
  an OMAP4.
\<close>

section \<open>Cores\<close>

record DVP_Core_Name_t =
  cn_enabled :: bool
  cn_core :: int
  cn_server_name :: "string option"
  cn_device_name :: "string option"

definition dvp_core_names :: "DVP_Core_Name_t list" where
  "dvp_core_names = map (\<lambda>(e, c, s, d). \<lparr>cn_enabled = e, cn_core = c, cn_server_name = s, cn_device_name = d\<rparr>)
     [(True, 0, Some ''dvp_kgm_dsp'', Some ''/dev/dvp_kgm_dsp''),
      (True, 1, Some ''dvp_kgm_simcop'', Some ''/dev/dvp_kgm_simcop''),
      (False, 2, Some ''dvp_kgm_app'', Some ''/dev/dvp_kgm_app''),
      (False, 3, Some ''dvp_kgm_sys'', Some ''/dev/dvp_kgm_sys''),
      (False, 4, Some ''dvp_kgm_sgx'', None),
      (False, 5, Some ''dvp_kgm_eve'', None),
      (True, 6, None, None)]"

fun dvp_rpc_core_is_enabled :: "DVP_Core_Name_t list \<Rightarrow> int \<Rightarrow> bool" where
  "dvp_rpc_core_is_enabled [] core = False"
| "dvp_rpc_core_is_enabled (c # cs) core = (if core = cn_core c then cn_enabled c else dvp_rpc_core_is_enabled cs core)"

definition DVP_VALID_REMOTE_CORE :: "int \<Rightarrow> bool" where
  "DVP_VALID_REMOTE_CORE x \<longleftrightarrow> -1 < x \<and> x < 6"

record DVP_RPC_Interface_t =
  rpci_numRemoteFunctions :: u32
  rpci_coreEnum :: int

text \<open>\<open>channel\<close> is the pointer \<open>rpc\<close> of the core, which keeps its value when the channel is freed.\<close>

record DVP_RPC_Core_t =
  coreEnum :: int
  channel :: "omaprpc_t cptr"
  callback :: bool

definition DVP_MAX_RESTART_RETRY :: u32 where
  "DVP_MAX_RESTART_RETRY = 100"

text \<open>The core object is freed and the pointer to it set to null, whether or not its channel could be closed.\<close>

definition dvp_rpc_core_deinit ::
  "'d driver \<Rightarrow> bool \<Rightarrow> DVP_RPC_Core_t option \<Rightarrow> 'd \<Rightarrow> (DVP_RPC_Core_t option \<times> 'd) option" where
  "dvp_rpc_core_deinit D rpc rpcc d =
     (case rpcc of
        None \<Rightarrow> Some (None, d)
      | Some c \<Rightarrow>
          if rpc then do { (_, d1) \<leftarrow> omaprpc_close D (channel c) d; Some (None, d1) }
          else Some (rpcc, d))"

definition dvp_rpc_restart_callback_register :: "bool \<Rightarrow> DVP_RPC_Core_t option \<Rightarrow> bool \<Rightarrow> DVP_RPC_Core_t option" where
  "dvp_rpc_restart_callback_register rpc rpcc func =
     (if rpc \<and> func then map_option (\<lambda>c. c\<lparr>callback := True\<rparr>) rpcc else rpcc)"

text \<open>
  \<open>ok\<close>: the allocations of the core and of the channel. A device or server name that is null is dereferenced. The result has the
  pointer to the core, the table of the cores and the driver.
\<close>

definition dvp_rpc_core_init ::
  "'d driver \<Rightarrow> bool \<times> bool \<Rightarrow> bool \<Rightarrow> DVP_RPC_Interface_t option \<Rightarrow> DVP_Core_Name_t list \<Rightarrow> 'd \<Rightarrow>
   (DVP_RPC_Core_t option \<times> DVP_Core_Name_t list \<times> 'd) option" where
  "dvp_rpc_core_init D ok rpc rpci names d =
     (case rpci of
        None \<Rightarrow> Some (None, names, d)
      | Some i \<Rightarrow>
          if \<not> rpc \<or> \<not> fst ok then Some (None, names, d)
          else
            let core = rpci_coreEnum i;
                c = \<lparr>coreEnum = core, channel = Null, callback = False\<rparr>
            in
              if DVP_VALID_REMOTE_CORE core \<and> dvp_rpc_core_is_enabled names core then do {
                entry \<leftarrow> nth_chk names (nat core);
                dev \<leftarrow> cn_device_name entry;
                srv \<leftarrow> cn_server_name entry;
                (p, d1) \<leftarrow> omaprpc_open D (snd ok) dev srv (rpci_numRemoteFunctions i) d;
                (if p = Null then do {
                   (rpcc, d2) \<leftarrow> dvp_rpc_core_deinit D rpc (Some c) d1;
                   Some (rpcc, names[nat core := entry\<lparr>cn_enabled := False\<rparr>], d2) }
                 else do {
                   p1 \<leftarrow> omaprpc_restart_callback p True DVP_MAX_RESTART_RETRY;
                   Some (Some (c\<lparr>channel := p1\<rparr>), names[nat core := entry\<lparr>cn_enabled := True\<rparr>], d1) }) }
              else do { (rpcc, d1) \<leftarrow> dvp_rpc_core_deinit D rpc (Some c) d; Some (rpcc, names, d1) })"

section \<open>Translations\<close>

text \<open>The list of translations has room for \<open>DVP_MAX_TRANSLATIONS\<close>; a further one is written behind it.\<close>

record DVP_RPC_PointerTranslation_t =
  xl_index :: u32
  xl_offset :: u32
  xl_base :: u32
  xl_cacheops :: bool
  xl_reserved :: u32

type_synonym DVP_RPC_Translation_t = "DVP_RPC_PointerTranslation_t list"

definition DVP_MAX_TRANSLATIONS :: nat where
  "DVP_MAX_TRANSLATIONS = 1024"

definition add_translation :: "DVP_RPC_PointerTranslation_t \<Rightarrow> DVP_RPC_Translation_t \<Rightarrow> DVP_RPC_Translation_t option" where
  "add_translation x ts = (if length ts < DVP_MAX_TRANSLATIONS then Some (ts @ [x]) else None)"

definition dvp_rpc_mem_xlate_fwrd :: "u32 \<Rightarrow> u32" where
  "dvp_rpc_mem_xlate_fwrd localAddr = localAddr"

definition dvp_rpc_mem_xlate_back :: "u32 \<Rightarrow> u32" where
  "dvp_rpc_mem_xlate_back remoteAddr = remoteAddr"

section \<open>Cache maintenance\<close>

text \<open>The operations on the cache in the order in which they happen: an address, a size and the type of the memory.\<close>

datatype cache_op = Flush u32 u32 u32 | Invalidate u32 u32 u32

definition image_cached :: "DVP_Image_t \<Rightarrow> bool" where
  "image_cached im \<longleftrightarrow>
     memType im \<notin> {DVP_MTYPE_DISPLAY_2DTILED, DVP_MTYPE_MPUNONCACHED_1DTILED, DVP_MTYPE_MPUNONCACHED_2DTILED}"

definition buffer_cached :: "DVP_Buffer_t \<Rightarrow> bool" where
  "buffer_cached b \<longleftrightarrow> buf_memType b \<noteq> DVP_MTYPE_MPUNONCACHED_1DTILED"

text \<open>
  \<open>off\<close> is the offset of the structure from the start of the nodes. The handle of a plane is the file descriptor of its buffer
  object, or the raw value of the hash for the other types of memory.
\<close>

definition prepare_plane ::
  "(u32 \<Rightarrow> u32 option) \<Rightarrow> DVP_RPC_t \<Rightarrow> DVP_Image_t \<Rightarrow> bool \<Rightarrow> u32 \<Rightarrow> u32 \<Rightarrow> DVP_RPC_Translation_t \<times> cache_op list \<Rightarrow>
   (DVP_RPC_Translation_t \<times> cache_op list) option" where
  "prepare_plane fd_at rpc im cacheOp off p s =
     (case s of (ts, ops) \<Rightarrow> do {
        buf \<leftarrow> nth_chk (pBuffer im) (unat p);
        f \<leftarrow> hndl_hash rpc;
        (_, handle) \<leftarrow> fph_get fph_hash f buf;
        resv \<leftarrow> (if memType im \<in> {DVP_MTYPE_MPUCACHED_1DTILED, DVP_MTYPE_MPUNONCACHED_1DTILED,
                     DVP_MTYPE_MPUNONCACHED_2DTILED, DVP_MTYPE_DISPLAY_2DTILED}
                 then fd_at handle else Some handle);
        ts' \<leftarrow> add_translation \<lparr>xl_index = 0, xl_offset = off + 4 * p, xl_base = buf, xl_cacheops = cacheOp,
                 xl_reserved = resv\<rparr> ts;
        Some (ts', ops @ (if image_cached im \<and> cacheOp \<and> skipCacheOpFlush im = 0
                          then [Flush buf (DVP_Image_PlaneSize (Some im) p) (memType im)] else [])) })"

definition dvp_rpc_prepare_image ::
  "(u32 \<Rightarrow> u32 option) \<Rightarrow> DVP_RPC_t \<Rightarrow> DVP_Image_t \<Rightarrow> bool \<Rightarrow> u32 \<Rightarrow> DVP_RPC_Translation_t \<times> cache_op list \<Rightarrow>
   (DVP_RPC_Translation_t \<times> cache_op list) option" where
  "dvp_rpc_prepare_image fd_at rpc im cacheOp off =
     for_range 0 (unat (planes im)) (prepare_plane fd_at rpc im cacheOp off)"

text \<open>The translated pointer is the local one again; only its bytes have to be fetched from memory.\<close>

definition return_plane :: "DVP_Image_t \<Rightarrow> bool \<Rightarrow> u32 \<Rightarrow> cache_op list \<Rightarrow> cache_op list option" where
  "return_plane im cacheOp p ops = do {
     buf \<leftarrow> nth_chk (pBuffer im) (unat p);
     Some (ops @ (if image_cached im \<and> cacheOp \<and> skipCacheOpInval im = 0
                  then [Invalidate (dvp_rpc_mem_xlate_back buf) (DVP_Image_PlaneSize (Some im) p) (memType im)] else [])) }"

definition dvp_rpc_return_image :: "DVP_Image_t \<Rightarrow> bool \<Rightarrow> cache_op list \<Rightarrow> cache_op list option" where
  "dvp_rpc_return_image im cacheOp = for_range 0 (unat (planes im)) (return_plane im cacheOp)"

definition dvp_rpc_prepare_buffer ::
  "(u32 \<Rightarrow> u32 option) \<Rightarrow> DVP_RPC_t \<Rightarrow> DVP_Buffer_t \<Rightarrow> bool \<Rightarrow> u32 \<Rightarrow> DVP_RPC_Translation_t \<times> cache_op list \<Rightarrow>
   (DVP_RPC_Translation_t \<times> cache_op list) option" where
  "dvp_rpc_prepare_buffer fd_at rpc b cacheOp off s =
     (case s of (ts, ops) \<Rightarrow> do {
        f \<leftarrow> hndl_hash rpc;
        (_, handle) \<leftarrow> fph_get fph_hash f (buf_pData b);
        resv \<leftarrow> fd_at handle;
        ts' \<leftarrow> add_translation \<lparr>xl_index = 0, xl_offset = off, xl_base = buf_pData b, xl_cacheops = cacheOp,
                 xl_reserved = resv\<rparr> ts;
        Some (ts', ops @ (if buffer_cached b \<and> cacheOp \<and> buf_skipCacheOpFlush b = 0
                          then [Flush (buf_pData b) (buf_numBytes b) (buf_memType b)] else [])) })"

definition dvp_rpc_return_buffer :: "DVP_Buffer_t \<Rightarrow> bool \<Rightarrow> cache_op list \<Rightarrow> cache_op list option" where
  "dvp_rpc_return_buffer b cacheOp ops =
     Some (ops @ (if buffer_cached b \<and> cacheOp \<and> buf_skipCacheOpInval b = 0
                  then [Invalidate (dvp_rpc_mem_xlate_back (buf_pData b)) (buf_numBytes b) (buf_memType b)] else []))"

section \<open>The call\<close>

text \<open>\<open>par_data\<close> is the word the pointer \<open>data\<close> points to.\<close>

record DVP_RPC_Parameter_t =
  par_size :: u32
  par_data :: u32
  par_reserved :: u32

definition remote_param :: "DVP_RPC_t \<Rightarrow> DVP_RPC_Parameter_t \<Rightarrow> omaprpc_param_t option" where
  "remote_param rpc q =
     (if par_reserved q \<noteq> 0 then do {
        r \<leftarrow> btreelist_find (ranges rpc) (Some (dvp_mem_range_compare (spans rpc))) (par_data q) (range_nodes rpc);
        Some \<lparr>pm_type = OMAPRPC_PARAM_TYPE_PTR, pm_size = par_size q, pm_data = par_data q,
          pm_base = (case r of None \<Rightarrow> par_data q | Some a \<Rightarrow> fst (spans rpc a)), pm_reserved = par_reserved q\<rparr> }
      else
        let atomic = (\<lambda>v. \<lparr>pm_type = OMAPRPC_PARAM_TYPE_ATOMIC, pm_size = par_size q, pm_data = v, pm_base = 0,
                       pm_reserved = 0\<rparr>)
        in Some (if par_size q = 1 then atomic (par_data q mod 0x100)
                 else if par_size q = 2 then atomic (par_data q mod 0x10000)
                 else if par_size q = 4 then atomic (par_data q)
                 else (atomic 0)\<lparr>pm_type := OMAPRPC_PARAM_TYPE_STRUCT\<rparr>))"

fun remote_params :: "DVP_RPC_t \<Rightarrow> DVP_RPC_Parameter_t list \<Rightarrow> omaprpc_param_t list option" where
  "remote_params rpc [] = Some []"
| "remote_params rpc (q # qs) = do { x \<leftarrow> remote_param rpc q; xs \<leftarrow> remote_params rpc qs; Some (x # xs) }"

text \<open>
  Each translation reads the pointer it is about, at its offset from the parameter it belongs to; the parameters behind the last
  one are zero.
\<close>

definition remote_translation ::
  "(u32 \<Rightarrow> bool) \<Rightarrow> omaprpc_param_t list \<Rightarrow> DVP_RPC_PointerTranslation_t \<Rightarrow> omaprpc_param_translation_t option" where
  "remote_translation readable ps x =
     (if unat (xl_index x) < OMAPRPC_MAX_PARAMETERS \<and>
         readable ((if unat (xl_index x) < length ps then pm_data (ps ! unat (xl_index x)) else 0) + xl_offset x)
      then Some \<lparr>pt_index = xl_index x, pt_offset = xl_offset x, pt_base = xl_base x,
             pt_cacheOps = (if xl_cacheops x then 1 else 0), pt_reserved = xl_reserved x\<rparr>
      else None)"

fun remote_translations ::
  "(u32 \<Rightarrow> bool) \<Rightarrow> omaprpc_param_t list \<Rightarrow> DVP_RPC_Translation_t \<Rightarrow> omaprpc_param_translation_t list option" where
  "remote_translations readable ps [] = Some []"
| "remote_translations readable ps (x # xs) = do {
     y \<leftarrow> remote_translation readable ps x; ys \<leftarrow> remote_translations readable ps xs; Some (y # ys) }"

text \<open>
  \<open>restart_f\<close> is the callback registered with the channel, \<open>ok\<close> the allocation of the message, \<open>readable\<close> the addresses that can be
  read. A null pointer for the translations is the empty list. The result is the value returned, the core and the driver.
\<close>

definition dvp_rpc_remote_execute ::
  "'d driver \<Rightarrow> (omaprpc_t cptr \<Rightarrow> 'd \<Rightarrow> (omaprpc_t cptr \<times> 'd) option) \<Rightarrow> bool \<Rightarrow> (u32 \<Rightarrow> bool) \<Rightarrow>
   DVP_RPC_t option \<Rightarrow> DVP_RPC_Core_t option \<Rightarrow> u32 \<Rightarrow> DVP_RPC_Parameter_t list \<Rightarrow> DVP_RPC_Translation_t \<Rightarrow> 'd \<Rightarrow>
   (s32 \<times> DVP_RPC_Core_t option \<times> 'd) option" where
  "dvp_rpc_remote_execute D restart_f ok readable rpc rpcc cliIndex ps xl d =
     (case (rpc, rpcc) of
        (Some r, Some c) \<Rightarrow>
          if length ps > OMAPRPC_MAX_PARAMETERS then Some (-1, rpcc, d)
          else if \<not> ok then Some (0, rpcc, d)
          else do {
            qs \<leftarrow> remote_params r ps;
            ts \<leftarrow> remote_translations readable qs xl;
            (passed, status, p, d1) \<leftarrow> omaprpc_call D restart_f (channel c)
              \<lparr>func_index = cliIndex, fn_params = qs, fn_translations = ts\<rparr> True d;
            Some (if passed then status else -1, Some (c\<lparr>channel := p\<rparr>), d1) }
      | _ \<Rightarrow> Some (0, rpcc, d))"

text \<open>The restart callback of a core hands on to the function that the manager has registered, if any.\<close>

definition dvp_rpc_restart_callback ::
  "DVP_RPC_Core_t \<Rightarrow> (DVP_RPC_Core_t \<Rightarrow> 'd \<Rightarrow> (DVP_RPC_Core_t \<times> 'd) option) \<Rightarrow> omaprpc_t cptr \<Rightarrow> 'd \<Rightarrow>
   (omaprpc_t cptr \<times> 'd) option" where
  "dvp_rpc_restart_callback c func p d =
     (if callback c then do { (c', d') \<leftarrow> func (c\<lparr>channel := p\<rparr>) d; Some (channel c', d') } else Some (p, d))"

end
