(* ===== verification/Dvp_RemoteTypes.thy ===== *)
theory Dvp_RemoteTypes
  imports Dvp_KernelTypes
begin

text \<open>
  The kernels of the libraries that run on the remote cores, with the numbers the enumerations of \<open>src/libraries/public\<close> give them (VRUN on
  SIMCOP, DSPLIB on the DSP, the deinterlacer on both), and the structures that only they use.
\<close>

section \<open>VRUN\<close>

abbreviation DVP_KN_VRUN_BASE :: int where "DVP_KN_VRUN_BASE \<equiv> 0x40007000"
abbreviation DVP_KN_VRUN_DILATE_CROSS :: int where "DVP_KN_VRUN_DILATE_CROSS \<equiv> 0x40007001"
abbreviation DVP_KN_VRUN_DILATE_MASK :: int where "DVP_KN_VRUN_DILATE_MASK \<equiv> 0x40007002"
abbreviation DVP_KN_VRUN_DILATE_SQUARE :: int where "DVP_KN_VRUN_DILATE_SQUARE \<equiv> 0x40007003"
abbreviation DVP_KN_VRUN_ERODE_CROSS :: int where "DVP_KN_VRUN_ERODE_CROSS \<equiv> 0x40007004"
abbreviation DVP_KN_VRUN_ERODE_MASK :: int where "DVP_KN_VRUN_ERODE_MASK \<equiv> 0x40007005"
abbreviation DVP_KN_VRUN_ERODE_SQUARE :: int where "DVP_KN_VRUN_ERODE_SQUARE \<equiv> 0x40007006"
abbreviation DVP_KN_VRUN_IIR_HORZ :: int where "DVP_KN_VRUN_IIR_HORZ \<equiv> 0x40007007"
abbreviation DVP_KN_VRUN_IIR_VERT :: int where "DVP_KN_VRUN_IIR_VERT \<equiv> 0x40007008"
abbreviation DVP_KN_VRUN_NONMAXSUPPRESS_3x3_S16 :: int where "DVP_KN_VRUN_NONMAXSUPPRESS_3x3_S16 \<equiv> 0x40007009"
abbreviation DVP_KN_VRUN_NONMAXSUPPRESS_5x5_S16 :: int where "DVP_KN_VRUN_NONMAXSUPPRESS_5x5_S16 \<equiv> 0x4000700A"
abbreviation DVP_KN_VRUN_NONMAXSUPPRESS_7x7_S16 :: int where "DVP_KN_VRUN_NONMAXSUPPRESS_7x7_S16 \<equiv> 0x4000700B"
abbreviation DVP_KN_VRUN_CONV_3x3 :: int where "DVP_KN_VRUN_CONV_3x3 \<equiv> 0x4000700C"
abbreviation DVP_KN_VRUN_CONV_5x5 :: int where "DVP_KN_VRUN_CONV_5x5 \<equiv> 0x4000700D"
abbreviation DVP_KN_VRUN_CONV_7x7 :: int where "DVP_KN_VRUN_CONV_7x7 \<equiv> 0x4000700E"
abbreviation DVP_KN_VRUN_CONV_MxN :: int where "DVP_KN_VRUN_CONV_MxN \<equiv> 0x4000700F"
abbreviation DVP_KN_VRUN_THR_GT2MAX_8 :: int where "DVP_KN_VRUN_THR_GT2MAX_8 \<equiv> 0x40007010"
abbreviation DVP_KN_VRUN_THR_GT2MAX_16 :: int where "DVP_KN_VRUN_THR_GT2MAX_16 \<equiv> 0x40007011"
abbreviation DVP_KN_VRUN_THR_GT2THR_8 :: int where "DVP_KN_VRUN_THR_GT2THR_8 \<equiv> 0x40007012"
abbreviation DVP_KN_VRUN_THR_GT2THR_16 :: int where "DVP_KN_VRUN_THR_GT2THR_16 \<equiv> 0x40007013"
abbreviation DVP_KN_VRUN_THR_LE2MIN_8 :: int where "DVP_KN_VRUN_THR_LE2MIN_8 \<equiv> 0x40007014"
abbreviation DVP_KN_VRUN_THR_LE2MIN_16 :: int where "DVP_KN_VRUN_THR_LE2MIN_16 \<equiv> 0x40007015"
abbreviation DVP_KN_VRUN_THR_LE2THR_8 :: int where "DVP_KN_VRUN_THR_LE2THR_8 \<equiv> 0x40007016"
abbreviation DVP_KN_VRUN_THR_LE2THR_16 :: int where "DVP_KN_VRUN_THR_LE2THR_16 \<equiv> 0x40007017"
abbreviation DVP_KN_VRUN_SOBEL_3x3_8s :: int where "DVP_KN_VRUN_SOBEL_3x3_8s \<equiv> 0x40007018"
abbreviation DVP_KN_VRUN_SOBEL_3x3_8 :: int where "DVP_KN_VRUN_SOBEL_3x3_8 \<equiv> 0x40007019"
abbreviation DVP_KN_VRUN_SOBEL_3x3_16s :: int where "DVP_KN_VRUN_SOBEL_3x3_16s \<equiv> 0x4000701A"
abbreviation DVP_KN_VRUN_SOBEL_3x3_16 :: int where "DVP_KN_VRUN_SOBEL_3x3_16 \<equiv> 0x4000701B"
abbreviation DVP_KN_VRUN_SOBEL_5x5_8s :: int where "DVP_KN_VRUN_SOBEL_5x5_8s \<equiv> 0x4000701C"
abbreviation DVP_KN_VRUN_SOBEL_5x5_8 :: int where "DVP_KN_VRUN_SOBEL_5x5_8 \<equiv> 0x4000701D"
abbreviation DVP_KN_VRUN_SOBEL_5x5_16s :: int where "DVP_KN_VRUN_SOBEL_5x5_16s \<equiv> 0x4000701E"
abbreviation DVP_KN_VRUN_SOBEL_5x5_16 :: int where "DVP_KN_VRUN_SOBEL_5x5_16 \<equiv> 0x4000701F"
abbreviation DVP_KN_VRUN_SOBEL_7x7_8s :: int where "DVP_KN_VRUN_SOBEL_7x7_8s \<equiv> 0x40007020"
abbreviation DVP_KN_VRUN_SOBEL_7x7_8 :: int where "DVP_KN_VRUN_SOBEL_7x7_8 \<equiv> 0x40007021"
abbreviation DVP_KN_VRUN_SOBEL_7x7_16s :: int where "DVP_KN_VRUN_SOBEL_7x7_16s \<equiv> 0x40007022"
abbreviation DVP_KN_VRUN_SOBEL_7x7_16 :: int where "DVP_KN_VRUN_SOBEL_7x7_16 \<equiv> 0x40007023"
abbreviation DVP_KN_VRUN_HARRIS_CORNERS :: int where "DVP_KN_VRUN_HARRIS_CORNERS \<equiv> 0x40007024"
abbreviation DVP_KN_VRUN_HARRIS_SCORE_7x7 :: int where "DVP_KN_VRUN_HARRIS_SCORE_7x7 \<equiv> 0x40007025"
abbreviation DVP_KN_VRUN_BLOCK_MAXIMA :: int where "DVP_KN_VRUN_BLOCK_MAXIMA \<equiv> 0x40007026"
abbreviation DVP_KN_VRUN_NMS_STEP1 :: int where "DVP_KN_VRUN_NMS_STEP1 \<equiv> 0x40007027"
abbreviation DVP_KN_VRUN_CANNY_IMAGE_SMOOTHING :: int where "DVP_KN_VRUN_CANNY_IMAGE_SMOOTHING \<equiv> 0x40007028"
abbreviation DVP_KN_VRUN_CANNY_2D_GRADIENT :: int where "DVP_KN_VRUN_CANNY_2D_GRADIENT \<equiv> 0x40007029"
abbreviation DVP_KN_VRUN_CANNY_NONMAX_SUPPRESSION :: int where "DVP_KN_VRUN_CANNY_NONMAX_SUPPRESSION \<equiv> 0x4000702A"
abbreviation DVP_KN_VRUN_CANNY_HYST_THRESHHOLD :: int where "DVP_KN_VRUN_CANNY_HYST_THRESHHOLD \<equiv> 0x4000702B"
abbreviation DVP_KN_VRUN_UYVY_TO_YUV444p :: int where "DVP_KN_VRUN_UYVY_TO_YUV444p \<equiv> 0x4000702C"
abbreviation DVP_KN_VRUN_UYVY_TO_RGBp :: int where "DVP_KN_VRUN_UYVY_TO_RGBp \<equiv> 0x4000702D"
abbreviation DVP_KN_VRUN_UYVY_TO_YUV420p :: int where "DVP_KN_VRUN_UYVY_TO_YUV420p \<equiv> 0x4000702E"
abbreviation DVP_KN_VRUN_XYXY_TO_Y800 :: int where "DVP_KN_VRUN_XYXY_TO_Y800 \<equiv> 0x4000702F"
abbreviation DVP_KN_VRUN_NV12_TO_YUV444p :: int where "DVP_KN_VRUN_NV12_TO_YUV444p \<equiv> 0x40007030"
abbreviation DVP_KN_VRUN_YUV444p_TO_RGBp :: int where "DVP_KN_VRUN_YUV444p_TO_RGBp \<equiv> 0x40007031"
abbreviation DVP_KN_VRUN_INTEGRAL_IMAGE_8 :: int where "DVP_KN_VRUN_INTEGRAL_IMAGE_8 \<equiv> 0x40007032"
abbreviation DVP_KN_LDC_AFFINE_TRANSFORM :: int where "DVP_KN_LDC_AFFINE_TRANSFORM \<equiv> 0x40007033"
abbreviation DVP_KN_VRUN_SAD_8x8 :: int where "DVP_KN_VRUN_SAD_8x8 \<equiv> 0x40007034"
abbreviation DVP_KN_VRUN_SAD_16x16 :: int where "DVP_KN_VRUN_SAD_16x16 \<equiv> 0x40007035"
abbreviation DVP_KN_VRUN_SAD_3x3 :: int where "DVP_KN_VRUN_SAD_3x3 \<equiv> 0x40007036"
abbreviation DVP_KN_VRUN_SAD_5x5 :: int where "DVP_KN_VRUN_SAD_5x5 \<equiv> 0x40007037"
abbreviation DVP_KN_VRUN_SAD_7x7 :: int where "DVP_KN_VRUN_SAD_7x7 \<equiv> 0x40007038"
abbreviation DVP_KN_LDC_DISTORTION_CORRECTION :: int where "DVP_KN_LDC_DISTORTION_CORRECTION \<equiv> 0x40007039"
abbreviation DVP_KN_LDC_DISTORTION_AND_AFFINE :: int where "DVP_KN_LDC_DISTORTION_AND_AFFINE \<equiv> 0x4000703A"
abbreviation DVP_KN_VRUN_IMAGE_PYRAMID_8 :: int where "DVP_KN_VRUN_IMAGE_PYRAMID_8 \<equiv> 0x4000703B"
abbreviation DVP_KN_VRUN_GAUSSIAN_3x3_PYRAMID_8 :: int where "DVP_KN_VRUN_GAUSSIAN_3x3_PYRAMID_8 \<equiv> 0x4000703C"
abbreviation DVP_KN_VRUN_GAUSSIAN_5x5_PYRAMID_8 :: int where "DVP_KN_VRUN_GAUSSIAN_5x5_PYRAMID_8 \<equiv> 0x4000703D"
abbreviation DVP_KN_VRUN_GAUSSIAN_7x7_PYRAMID_8 :: int where "DVP_KN_VRUN_GAUSSIAN_7x7_PYRAMID_8 \<equiv> 0x4000703E"
abbreviation DVP_KN_VRUN_GRADIENT_H3x3_PYRAMID_8 :: int where "DVP_KN_VRUN_GRADIENT_H3x3_PYRAMID_8 \<equiv> 0x4000703F"
abbreviation DVP_KN_VRUN_GRADIENT_H5x5_PYRAMID_8 :: int where "DVP_KN_VRUN_GRADIENT_H5x5_PYRAMID_8 \<equiv> 0x40007040"
abbreviation DVP_KN_VRUN_GRADIENT_H7x7_PYRAMID_8 :: int where "DVP_KN_VRUN_GRADIENT_H7x7_PYRAMID_8 \<equiv> 0x40007041"
abbreviation DVP_KN_VRUN_GRADIENT_V3x3_PYRAMID_8 :: int where "DVP_KN_VRUN_GRADIENT_V3x3_PYRAMID_8 \<equiv> 0x40007042"
abbreviation DVP_KN_VRUN_GRADIENT_V5x5_PYRAMID_8 :: int where "DVP_KN_VRUN_GRADIENT_V5x5_PYRAMID_8 \<equiv> 0x40007043"
abbreviation DVP_KN_VRUN_GRADIENT_V7x7_PYRAMID_8 :: int where "DVP_KN_VRUN_GRADIENT_V7x7_PYRAMID_8 \<equiv> 0x40007044"

section \<open>DSPLIB\<close>

abbreviation DVP_KN_DSP_BASE :: int where "DVP_KN_DSP_BASE \<equiv> 0x4000C000"
abbreviation DVP_KN_DSP_ADD16 :: int where "DVP_KN_DSP_ADD16 \<equiv> 0x4000C001"
abbreviation DVP_KN_DSP_ADD32 :: int where "DVP_KN_DSP_ADD32 \<equiv> 0x4000C002"
abbreviation DVP_KN_DSP_AUTOCORR16 :: int where "DVP_KN_DSP_AUTOCORR16 \<equiv> 0x4000C003"
abbreviation DVP_KN_DSP_BITEXP32 :: int where "DVP_KN_DSP_BITEXP32 \<equiv> 0x4000C004"
abbreviation DVP_KN_DSP_BLKESWAP16 :: int where "DVP_KN_DSP_BLKESWAP16 \<equiv> 0x4000C005"
abbreviation DVP_KN_DSP_BLKESWAP32 :: int where "DVP_KN_DSP_BLKESWAP32 \<equiv> 0x4000C006"
abbreviation DVP_KN_DSP_BLKESWAP64 :: int where "DVP_KN_DSP_BLKESWAP64 \<equiv> 0x4000C007"
abbreviation DVP_KN_DSP_BLKMOVE :: int where "DVP_KN_DSP_BLKMOVE \<equiv> 0x4000C008"
abbreviation DVP_KN_DSP_DOTPRODSQR :: int where "DVP_KN_DSP_DOTPRODSQR \<equiv> 0x4000C009"
abbreviation DVP_KN_DSP_DOTPROD :: int where "DVP_KN_DSP_DOTPROD \<equiv> 0x4000C00A"
abbreviation DVP_KN_DSP_FFT_16x16 :: int where "DVP_KN_DSP_FFT_16x16 \<equiv> 0x4000C00B"
abbreviation DVP_KN_DSP_FFT_16x16R :: int where "DVP_KN_DSP_FFT_16x16R \<equiv> 0x4000C00C"
abbreviation DVP_KN_DSP_FFT_16x16_IMRE :: int where "DVP_KN_DSP_FFT_16x16_IMRE \<equiv> 0x4000C00D"
abbreviation DVP_KN_DSP_FFT_16x32 :: int where "DVP_KN_DSP_FFT_16x32 \<equiv> 0x4000C00E"
abbreviation DVP_KN_DSP_FFT_32x32 :: int where "DVP_KN_DSP_FFT_32x32 \<equiv> 0x4000C00F"
abbreviation DVP_KN_DSP_FFT_32x32s :: int where "DVP_KN_DSP_FFT_32x32s \<equiv> 0x4000C010"
abbreviation DVP_KN_DSP_FIR_CPLX :: int where "DVP_KN_DSP_FIR_CPLX \<equiv> 0x4000C011"
abbreviation DVP_KN_DSP_FIR_HM4x4 :: int where "DVP_KN_DSP_FIR_HM4x4 \<equiv> 0x4000C012"
abbreviation DVP_KN_DSP_FIR_GEN :: int where "DVP_KN_DSP_FIR_GEN \<equiv> 0x4000C013"
abbreviation DVP_KN_DSP_FIR_HM17_RA8x8 :: int where "DVP_KN_DSP_FIR_HM17_RA8x8 \<equiv> 0x4000C014"
abbreviation DVP_KN_DSP_FIR_LMS2 :: int where "DVP_KN_DSP_FIR_LMS2 \<equiv> 0x4000C015"
abbreviation DVP_KN_DSP_FIR_R4 :: int where "DVP_KN_DSP_FIR_R4 \<equiv> 0x4000C016"
abbreviation DVP_KN_DSP_FIR_R8 :: int where "DVP_KN_DSP_FIR_R8 \<equiv> 0x4000C017"
abbreviation DVP_KN_DSP_FIR_HM16_RM8A8x8 :: int where "DVP_KN_DSP_FIR_HM16_RM8A8x8 \<equiv> 0x4000C018"
abbreviation DVP_KN_DSP_FIR_SYM :: int where "DVP_KN_DSP_FIR_SYM \<equiv> 0x4000C019"
abbreviation DVP_KN_DSP_IFFT_16x16 :: int where "DVP_KN_DSP_IFFT_16x16 \<equiv> 0x4000C01A"
abbreviation DVP_KN_DSP_IFFT_16x16_IMRE :: int where "DVP_KN_DSP_IFFT_16x16_IMRE \<equiv> 0x4000C01B"
abbreviation DVP_KN_DSP_IFFT_16x32 :: int where "DVP_KN_DSP_IFFT_16x32 \<equiv> 0x4000C01C"
abbreviation DVP_KN_DSP_IFFT_32x32 :: int where "DVP_KN_DSP_IFFT_32x32 \<equiv> 0x4000C01D"
abbreviation DVP_KN_DSP_IIR :: int where "DVP_KN_DSP_IIR \<equiv> 0x4000C01E"
abbreviation DVP_KN_DSP_IIR_LAT :: int where "DVP_KN_DSP_IIR_LAT \<equiv> 0x4000C01F"
abbreviation DVP_KN_DSP_IIR_SS :: int where "DVP_KN_DSP_IIR_SS \<equiv> 0x4000C020"
abbreviation DVP_KN_DSP_MUL :: int where "DVP_KN_DSP_MUL \<equiv> 0x4000C021"
abbreviation DVP_KN_DSP_MUL_CPLX :: int where "DVP_KN_DSP_MUL_CPLX \<equiv> 0x4000C022"
abbreviation DVP_KN_DSP_MAT_TRANS :: int where "DVP_KN_DSP_MAT_TRANS \<equiv> 0x4000C023"
abbreviation DVP_KN_DSP_MAXIDX :: int where "DVP_KN_DSP_MAXIDX \<equiv> 0x4000C024"
abbreviation DVP_KN_DSP_MAXVAL :: int where "DVP_KN_DSP_MAXVAL \<equiv> 0x4000C025"
abbreviation DVP_KN_DSP_MINERROR :: int where "DVP_KN_DSP_MINERROR \<equiv> 0x4000C026"
abbreviation DVP_KN_DSP_MINVAL :: int where "DVP_KN_DSP_MINVAL \<equiv> 0x4000C027"
abbreviation DVP_KN_DSP_MUL32 :: int where "DVP_KN_DSP_MUL32 \<equiv> 0x4000C028"
abbreviation DVP_KN_DSP_NEG32 :: int where "DVP_KN_DSP_NEG32 \<equiv> 0x4000C029"
abbreviation DVP_KN_DSP_Q15TOFL :: int where "DVP_KN_DSP_Q15TOFL \<equiv> 0x4000C02A"
abbreviation DVP_KN_DSP_RECIP16 :: int where "DVP_KN_DSP_RECIP16 \<equiv> 0x4000C02B"
abbreviation DVP_KN_DSP_VECSUMSQ :: int where "DVP_KN_DSP_VECSUMSQ \<equiv> 0x4000C02C"
abbreviation DVP_KN_DSP_W_VEC :: int where "DVP_KN_DSP_W_VEC \<equiv> 0x4000C02D"
abbreviation DVP_KN_GEN_TWIDDLE_FFT_16X16 :: int where "DVP_KN_GEN_TWIDDLE_FFT_16X16 \<equiv> 0x4000C02E"
abbreviation DVP_KN_GEN_TWIDDLE_FFT_16X16_IMRE :: int where "DVP_KN_GEN_TWIDDLE_FFT_16X16_IMRE \<equiv> 0x4000C02F"
abbreviation DVP_KN_GEN_TWIDDLE_FFT_16X32 :: int where "DVP_KN_GEN_TWIDDLE_FFT_16X32 \<equiv> 0x4000C030"
abbreviation DVP_KN_GEN_TWIDDLE_FFT_32x32 :: int where "DVP_KN_GEN_TWIDDLE_FFT_32x32 \<equiv> 0x4000C031"
abbreviation DVP_KN_GEN_TWIDDLE_IFFT_16X16 :: int where "DVP_KN_GEN_TWIDDLE_IFFT_16X16 \<equiv> 0x4000C032"
abbreviation DVP_KN_GEN_TWIDDLE_IFFT_16X16_IMRE :: int where "DVP_KN_GEN_TWIDDLE_IFFT_16X16_IMRE \<equiv> 0x4000C033"

section \<open>The deinterlacer\<close>

abbreviation DVP_KN_DEI_BASE :: int where "DVP_KN_DEI_BASE \<equiv> 0x4000D000"
abbreviation DVP_KN_DEI_DEINTERLACER :: int where "DVP_KN_DEI_DEINTERLACER \<equiv> 0x4000D001"
abbreviation DVP_KN_DEI_DEINTERLACER_INIT :: int where "DVP_KN_DEI_DEINTERLACER_INIT \<equiv> 0x4000D002"
abbreviation DVP_KN_DEI_DEINTERLACER_DEINIT :: int where "DVP_KN_DEI_DEINTERLACER_DEINIT \<equiv> 0x4000D003"

section \<open>Parameter structures\<close>

record DVP_CannyNonMaxSuppression_t =
  cn_inMag :: DVP_Image_t
  cn_inGradX :: DVP_Image_t
  cn_inGradY :: DVP_Image_t
  cn_output :: DVP_Image_t

record DVP_CannyHystThresholding_t =
  ch_inMag :: DVP_Image_t
  ch_inEdgeMap :: DVP_Image_t
  ch_output :: DVP_Image_t
  ch_loThresh :: u8
  ch_hiThresh :: u8
  ch_numEdges :: u32

record DVP_SAD_t =
  sad_input :: DVP_Image_t
  sad_output :: DVP_Image_t
  sad_refImg :: DVP_Image_t
  sad_shiftMask :: "16 word"
  sad_refPitch :: u32
  sad_refStartOffset :: "16 word"

record DVP_Pyramid_t =
  py_input :: DVP_Image_t
  py_output :: DVP_Buffer_t

text \<open>The remaining fields of the lens correction and of the deinterlacer are scalars that only the remote core reads.\<close>

record DVP_Ldc_t =
  ldc_input :: DVP_Image_t
  ldc_output :: DVP_Image_t
  ldc_ldcLut :: DVP_Buffer_t

record DVP_HarrisCorners_t =
  hc_input :: DVP_Image_t
  hc_output :: DVP_Image_t
  hc_tempBuf1 :: DVP_Image_t
  hc_tempBuf2 :: DVP_Image_t
  hc_tempBuf3 :: DVP_Image_t
  hc_tempBuf4 :: DVP_Image_t
  hc_nplus1 :: "16 word"
  hc_k :: "16 word"

record DVP_Harris_t =
  ha_input :: DVP_Image_t
  ha_harrisScore :: DVP_Image_t
  ha_k :: "16 word"

record DVP_BlockMaxima_t =
  bm_input :: DVP_Image_t
  bm_blockMaximaX :: DVP_Image_t
  bm_blockMaximaY :: DVP_Image_t
  bm_blockMaximaMAX :: DVP_Image_t
  bm_nplus1 :: "16 word"

record DVP_NMSStep1_t =
  nms_X :: DVP_Image_t
  nms_Y :: DVP_Image_t
  nms_Dst :: DVP_Image_t
  nms_nplus1 :: "16 word"

record DVP_DSPFunc =
  df_input0 :: DVP_Buffer_t
  df_input1 :: DVP_Buffer_t
  df_twoway :: DVP_Buffer_t
  df_output0 :: DVP_Buffer_t
  df_output1 :: DVP_Buffer_t
  df_val1 :: s32
  df_val2 :: s32
  df_val3 :: s32

record DVP_DSP_MatMul =
  mm_input0 :: DVP_Buffer_t
  mm_input1 :: DVP_Buffer_t
  mm_output0 :: DVP_Buffer_t
  mm_r1 :: s32
  mm_c1 :: s32
  mm_r2 :: s32
  mm_c2 :: s32
  mm_qs :: s32

record DVP_Deinterlacer_t =
  de_phy_fld_in_current :: DVP_Image_t
  de_phy_fld_in_prev :: DVP_Image_t
  de_phy_luma_d0 :: DVP_Buffer_t
  de_phy_luma_d1 :: DVP_Buffer_t
  de_phy_luma_d2 :: DVP_Buffer_t
  de_phy_virt_flag :: u32

text \<open>The readings of a node's data region as these structures.\<close>

record remote_views = knode_views +
  to_CannyNonMax :: "u8 list \<Rightarrow> DVP_CannyNonMaxSuppression_t"
  to_CannyHyst :: "u8 list \<Rightarrow> DVP_CannyHystThresholding_t"
  to_SAD :: "u8 list \<Rightarrow> DVP_SAD_t"
  to_Pyramid :: "u8 list \<Rightarrow> DVP_Pyramid_t"
  to_Ldc :: "u8 list \<Rightarrow> DVP_Ldc_t"
  to_HarrisCorners :: "u8 list \<Rightarrow> DVP_HarrisCorners_t"
  to_Harris :: "u8 list \<Rightarrow> DVP_Harris_t"
  to_BlockMaxima :: "u8 list \<Rightarrow> DVP_BlockMaxima_t"
  to_NMSStep1 :: "u8 list \<Rightarrow> DVP_NMSStep1_t"
  to_DSPFunc :: "u8 list \<Rightarrow> DVP_DSPFunc"
  to_MatMul :: "u8 list \<Rightarrow> DVP_DSP_MatMul"
  to_Deinterlacer :: "u8 list \<Rightarrow> DVP_Deinterlacer_t"

end
