(* ===== verification/Dvp_RemoteKgm.thy ===== *)
theory Dvp_RemoteKgm
  imports Dvp_RpcCall Dvp_RemoteTypes
begin

text \<open>
  What the managers of the remote cores, \<open>dvp_kgm_simcop.c\<close> and \<open>dvp_kgm_dsp.c\<close>, have in common, in the configuration
  \<open>DVP_USE_IPC\<close>, \<open>DVP_USE_OMAPRPC\<close>. Both functions that run a list of nodes have the same text except for the cases of their two switches, which
  are parameters here: the first switch prepares the operands of a kernel for the remote core, the second takes them back. The performance
  counters of the modules, which are only printed, are left out.
\<close>

section \<open>Operands\<close>

text \<open>
  A call that a case of a switch makes: \<open>dvp_rpc_prepare_image\<close> or \<open>dvp_rpc_return_image\<close>, the same for a buffer, or the translation of
  the pointer of a bounds array. The number is the offset of the field in the data region of the node, the truth value the
  argument \<open>cacheOp\<close>.
\<close>

datatype operand = Img DVP_Image_t u32 bool | Buf DVP_Buffer_t u32 bool | Bnd u32 u32

type_synonym operands = "int \<Rightarrow> u8 list \<Rightarrow> operand list option"

text \<open>
  The surroundings of a call: the file descriptor behind a handle, the addresses that can be read, and whether there is memory for the
  message.
\<close>

record remote_env =
  en_fd_at :: "u32 \<Rightarrow> u32 option"
  en_readable :: "u32 \<Rightarrow> bool"
  en_memory :: bool

definition prepare_bounds ::
  "remote_env \<Rightarrow> DVP_RPC_t \<Rightarrow> u32 \<Rightarrow> u32 \<Rightarrow> DVP_RPC_Translation_t \<times> cache_op list \<Rightarrow> (DVP_RPC_Translation_t \<times> cache_op list) option" where
  "prepare_bounds E rpc p off s =
     (if p = 0 then Some s
      else case s of (ts, ops) \<Rightarrow> do {
        h \<leftarrow> dvp_rpc_get_handle (en_fd_at E) (Some rpc) p;
        ts' \<leftarrow> add_translation \<lparr>xl_index = 0, xl_offset = off, xl_base = p, xl_cacheops = True, xl_reserved = h\<rparr> ts;
        Some (ts', ops) })"

text \<open>\<open>base\<close> is the offset of the node's data region from the start of the nodes.\<close>

fun prepare_operand ::
  "remote_env \<Rightarrow> DVP_RPC_t \<Rightarrow> u32 \<Rightarrow> operand \<Rightarrow> DVP_RPC_Translation_t \<times> cache_op list \<Rightarrow> (DVP_RPC_Translation_t \<times> cache_op list) option" where
  "prepare_operand E rpc base (Img im off c) s = dvp_rpc_prepare_image (en_fd_at E) rpc im c (base + off) s"
| "prepare_operand E rpc base (Buf b off c) s = dvp_rpc_prepare_buffer (en_fd_at E) rpc b c (base + off) s"
| "prepare_operand E rpc base (Bnd p off) s = prepare_bounds E rpc p (base + off) s"

fun prepare_operands ::
  "remote_env \<Rightarrow> DVP_RPC_t \<Rightarrow> u32 \<Rightarrow> operand list \<Rightarrow> DVP_RPC_Translation_t \<times> cache_op list \<Rightarrow>
   (DVP_RPC_Translation_t \<times> cache_op list) option" where
  "prepare_operands E rpc base [] s = Some s"
| "prepare_operands E rpc base (x # xs) s = do { s' \<leftarrow> prepare_operand E rpc base x s; prepare_operands E rpc base xs s' }"

fun return_operand :: "operand \<Rightarrow> cache_op list \<Rightarrow> cache_op list option" where
  "return_operand (Img im off c) ops = dvp_rpc_return_image im c ops"
| "return_operand (Buf b off c) ops = dvp_rpc_return_buffer b c ops"
| "return_operand (Bnd p off) ops = Some ops"

fun return_operands :: "operand list \<Rightarrow> cache_op list \<Rightarrow> cache_op list option" where
  "return_operands [] ops = Some ops"
| "return_operands (x # xs) ops = do { ops' \<leftarrow> return_operand x ops; return_operands xs ops' }"

section \<open>The loops over the nodes\<close>

text \<open>A node has 4096 bytes, the first 88 of which are its header.\<close>

definition node_base :: "nat \<Rightarrow> u32" where
  "node_base i = of_nat i * 4096 + 88"

text \<open>False: the loop has met a kernel that the switch does not know, and the function returns.\<close>

fun prepare_nodes ::
  "remote_env \<Rightarrow> DVP_RPC_t \<Rightarrow> operands \<Rightarrow> DVP_KernelNode_t list \<Rightarrow> nat \<Rightarrow> nat \<Rightarrow> DVP_RPC_Translation_t \<times> cache_op list \<Rightarrow>
   (bool \<times> DVP_RPC_Translation_t \<times> cache_op list) option" where
  "prepare_nodes E rpc prep nodes i 0 s = Some (True, s)"
| "prepare_nodes E rpc prep nodes i (Suc n) s = do {
     node \<leftarrow> nth_chk nodes i;
     (case prep (kernel node) (n_data node) of
        None \<Rightarrow> Some (False, s)
      | Some xs \<Rightarrow> do {
          s' \<leftarrow> prepare_operands E rpc (node_base i) xs s;
          prepare_nodes E rpc prep nodes (Suc i) n s' }) }"

text \<open>Here an unknown kernel ends the loop.\<close>

fun return_nodes :: "operands \<Rightarrow> DVP_KernelNode_t list \<Rightarrow> nat \<Rightarrow> nat \<Rightarrow> cache_op list \<Rightarrow> cache_op list option" where
  "return_nodes ret nodes i 0 ops = Some ops"
| "return_nodes ret nodes i (Suc n) ops = do {
     node \<leftarrow> nth_chk nodes i;
     (case ret (kernel node) (n_data node) of
        None \<Rightarrow> Some ops
      | Some xs \<Rightarrow> do { ops' \<leftarrow> return_operands xs ops; return_nodes ret nodes (Suc i) n ops' }) }"

section \<open>Running nodes on a remote core\<close>

text \<open>The static variables of a module. \<open>coreLock\<close> is the value of the semaphore.\<close>

record remote_kgm =
  kgm_rpc :: "DVP_RPC_t option"
  kgm_core :: "DVP_RPC_Core_t option"
  coreLock :: nat

definition remote_exec_params :: "u32 \<Rightarrow> u32 \<Rightarrow> u32 \<Rightarrow> u32 \<Rightarrow> DVP_RPC_Parameter_t list" where
  "remote_exec_params addr handle start num =
     [\<lparr>par_size = (start + num) * 4096, par_data = addr, par_reserved = handle\<rparr>,
      \<lparr>par_size = 4, par_data = start, par_reserved = 0\<rparr>,
      \<lparr>par_size = 4, par_data = num, par_reserved = 0\<rparr>]"

text \<open>What is left when the function returns: its value, the operations on the cache before and after the call, and the state.\<close>

record 'd remote_run =
  rr_processed :: u32
  rr_before :: "cache_op list"
  rr_after :: "cache_op list"
  rr_kgm :: remote_kgm
  rr_driver :: 'd

text \<open>
  \<open>restart\<close> is the restart function of the module. \<open>addr\<close> is the address of the nodes; \<open>after\<close> are the nodes as the remote core has left
  them. The return in the middle of the first loop does not post the semaphore. A negative status counts as no node.
\<close>

definition remote_manager ::
  "'d driver \<Rightarrow> (DVP_RPC_t \<Rightarrow> DVP_RPC_Core_t \<Rightarrow> 'd \<Rightarrow> (DVP_RPC_Core_t \<times> 'd) option) \<Rightarrow> remote_env \<Rightarrow> operands \<Rightarrow> operands \<Rightarrow>
   ('d \<Rightarrow> DVP_KernelNode_t list) \<Rightarrow> u32 \<Rightarrow> DVP_KernelNode_t list option \<Rightarrow> u32 \<Rightarrow> u32 \<Rightarrow> remote_kgm \<Rightarrow> 'd \<Rightarrow>
   'd remote_run call option" where
  "remote_manager D restart E prep ret after addr nodes start num S d =
     (if coreLock S = 0 then Some Blocks
      else
        let S1 = S\<lparr>coreLock := coreLock S - 1\<rparr>;
            post = (\<lambda>S. S\<lparr>coreLock := coreLock S + 1\<rparr>);
            result = (\<lambda>n b a S d. Some (Returns \<lparr>rr_processed = n, rr_before = b, rr_after = a, rr_kgm = S, rr_driver = d\<rparr>))
        in
          case nodes of
            None \<Rightarrow> result 0 [] [] (post S1) d
          | Some ns \<Rightarrow> do {
              handle \<leftarrow> dvp_rpc_get_handle (en_fd_at E) (kgm_rpc S1) addr;
              (case (kgm_rpc S1, kgm_core S1) of
                 (Some r, Some c) \<Rightarrow> do {
                   let n = unat (start + num) - unat start;
                   (known, ts, ops) \<leftarrow> prepare_nodes E r prep ns (unat start) n ([], []);
                   (if \<not> known then result 0 ops [] S1 d
                    else do {
                      (status, c1, d1) \<leftarrow> dvp_rpc_remote_execute D (dvp_rpc_restart_callback c (restart r)) (en_memory E) (en_readable E)
                        (Some r) (Some c) 2 (remote_exec_params addr handle start num) ts d;
                      ops1 \<leftarrow> return_nodes ret (after d1) (unat start) n [];
                      result (if 0 \<le>s status then status else 0) ops ops1 (post (S1\<lparr>kgm_core := c1\<rparr>)) d1 }) }
               | _ \<Rightarrow> result 0 [] [] (post S1) d) })"

section \<open>Initialisation, restart and tear-down\<close>

text \<open>
  The restart function repeats the call that initialises the remote side. It runs while the channel is marked as restarting, so
  that it cannot cause another restart.
\<close>

definition remote_restart ::
  "'d driver \<Rightarrow> remote_env \<Rightarrow> DVP_RPC_Parameter_t list \<Rightarrow> DVP_RPC_t \<Rightarrow> DVP_RPC_Core_t \<Rightarrow> 'd \<Rightarrow> (DVP_RPC_Core_t \<times> 'd) option" where
  "remote_restart D E ps r c d = do {
     (_, c1, d1) \<leftarrow> dvp_rpc_remote_execute D (\<lambda>_ _. None) (en_memory E) (en_readable E) (Some r) (Some c) 0 ps [] d;
     c2 \<leftarrow> c1;
     Some (c2, d1) }"

text \<open>A module that has failed to initialise keeps the two pointers. The queues and the worker belong to the queued mode.\<close>

definition remote_init ::
  "'d driver \<Rightarrow> (DVP_RPC_t \<Rightarrow> DVP_RPC_Core_t \<Rightarrow> 'd \<Rightarrow> (DVP_RPC_Core_t \<times> 'd) option) \<Rightarrow> remote_env \<Rightarrow> DVP_RPC_Parameter_t list \<Rightarrow>
   DVP_RPC_t option \<Rightarrow> DVP_RPC_Core_t option \<Rightarrow> remote_kgm \<Rightarrow> 'd \<Rightarrow> (bool \<times> remote_kgm \<times> 'd) option" where
  "remote_init D restart E ps pRPC pCore S d =
     (case (kgm_rpc S, kgm_core S, pRPC, pCore) of
        (None, None, Some r, Some c) \<Rightarrow> do {
          (status, c1, d1) \<leftarrow> dvp_rpc_remote_execute D (dvp_rpc_restart_callback c (restart r)) (en_memory E) (en_readable E)
            (Some r) (Some c) 0 ps [] d;
          let S1 = S\<lparr>kgm_rpc := Some r, kgm_core := c1\<rparr>;
          Some (if status <s 0 then (False, S1, d1) else (True, S1\<lparr>coreLock := 1\<rparr>, d1)) }
      | _ \<Rightarrow> Some (False, S, d))"

definition remote_deinit :: "remote_kgm \<Rightarrow> bool \<times> remote_kgm" where
  "remote_deinit S = (True, S\<lparr>kgm_rpc := None, kgm_core := None, coreLock := 0\<rparr>)"

end
