(* ===== verification/Dvp_Cpu.thy ===== *)
theory Dvp_Cpu
  imports Dvp_KernelTypes
begin

text \<open>
  The Kernel Graph Manager of the CPU, \<open>source/dvp/dvp_kgm_cpu/dvp_kgm_cpu.c\<close>, built without the optional
  algorithm libraries (\<open>DVP_USE_VLIB\<close>, \<open>DVP_USE_IMGLIB\<close>, \<open>DVP_USE_YUV\<close>, ... and \<open>DVP_USE_FS\<close> are not
  defined; their headers and functions are third-party). Verification and execution switch on the kernel
  of a node; the pixels are in memory, the parameters in the node's data region.
\<close>

section \<open>Checks\<close>

text \<open>A disjunction of tests that stops at the first one that holds.\<close>

fun any_bad :: "bool option list \<Rightarrow> bool option" where
  "any_bad [] = Some False"
| "any_bad (x # xs) = do { b \<leftarrow> x; if b then Some True else any_bad xs }"

definition image_bad :: "u32 \<Rightarrow> DVP_Image_t \<Rightarrow> u32 list option \<Rightarrow> u32 \<Rightarrow> bool option" where
  "image_bad mt im colors n = map_option Not (DVP_Image_Validate mt (Some im) 1 1 1 1 colors n)"

definition DVP_Transform_Check :: "u32 \<Rightarrow> DVP_Transform_t \<Rightarrow> u32 list \<Rightarrow> u32 \<Rightarrow> u32 list \<Rightarrow> u32 \<Rightarrow> bool option" where
  "DVP_Transform_Check mt pT from fromLen to toLen =
     map_option Not (any_bad
       [image_bad mt (tr_input pT) (Some from) fromLen,
        image_bad mt (tr_output pT) (Some to) toLen,
        Some (width (tr_input pT) > width (tr_output pT)),
        Some (height (tr_input pT) > height (tr_output pT))])"

text \<open>Both images against lists of colours, the output at least as large as the input.\<close>

definition transform_bad :: "u32 \<Rightarrow> DVP_Image_t \<Rightarrow> DVP_Image_t \<Rightarrow> u32 list option \<Rightarrow> u32 list option \<Rightarrow> u32 \<Rightarrow> bool option" where
  "transform_bad mt inp outp from to n =
     any_bad [image_bad mt inp from n, image_bad mt outp to n,
       Some (width inp > width outp), Some (height inp > height outp)]"

section \<open>Verification\<close>

text \<open>
  The cases of the switch of \<open>DVP_KernelGraphManagerVerify\<close>, in groups; each group hands the kernels
  it does not know to the next. True means that the error of the node is set.
\<close>

definition verify_filters :: "u32 \<Rightarrow> knode_views \<Rightarrow> u8 list \<Rightarrow> int \<Rightarrow> bool option" where
  "verify_filters mt V d k =
     (if k \<in> {DVP_KN_IIR_HORZ, DVP_KN_IIR_VERT} then
        (let iir = to_IIR V d in
         any_bad [image_bad mt (iir_input iir) None 0, image_bad mt (iir_output iir) None 0, Some (iir_weight iir = 0)])
      else if k = DVP_KN_INTEGRAL_IMAGE_8 then
        (let pT = to_Transform V d in
         any_bad [image_bad mt (tr_input pT) None 0, image_bad mt (tr_output pT) None 0,
           Some (width (tr_input pT) \<noteq> width (tr_output pT)), Some (height (tr_input pT) \<noteq> height (tr_output pT)),
           Some (color (tr_input pT) \<noteq> FOURCC_Y800), Some (color (tr_output pT) \<noteq> FOURCC_Y32)])
      else if k \<in> {DVP_KN_NONMAXSUPPRESS_3x3_S16, DVP_KN_NONMAXSUPPRESS_5x5_S16, DVP_KN_NONMAXSUPPRESS_7x7_S16} then
        (let pT = to_Threshold V d in
         transform_bad mt (th_input pT) (th_output pT) (Some [FOURCC_Y16]) (Some [FOURCC_Y800, FOURCC_Y16]) 1)
      else if k \<in> {DVP_KN_THR_GT2MAX_8, DVP_KN_THR_GT2THR_8, DVP_KN_THR_LE2MIN_8, DVP_KN_THR_LE2THR_8} then
        (let pT = to_Threshold V d in
         transform_bad mt (th_input pT) (th_output pT) (Some [FOURCC_Y800]) (Some [FOURCC_Y800]) 1)
      else if k \<in> {DVP_KN_THR_GT2MAX_16, DVP_KN_THR_GT2THR_16, DVP_KN_THR_LE2MIN_16, DVP_KN_THR_LE2THR_16} then
        (let pT = to_Threshold V d in
         transform_bad mt (th_input pT) (th_output pT) (Some [FOURCC_Y16]) (Some [FOURCC_Y16]) 1)
      else if k = DVP_KN_GAMMA then
        (let pG = to_Gamma V d in
         any_bad [image_bad mt (ga_input pG) (Some [FOURCC_Y800]) 1, image_bad mt (ga_output pG) (Some [FOURCC_Y800]) 1])
      else Some False)"

definition verify_area :: "u32 \<Rightarrow> knode_views \<Rightarrow> u8 list \<Rightarrow> int \<Rightarrow> bool option" where
  "verify_area mt V d k =
     (if k \<in> {DVP_KN_DILATE_CROSS, DVP_KN_DILATE_MASK, DVP_KN_DILATE_SQUARE,
              DVP_KN_ERODE_CROSS, DVP_KN_ERODE_MASK, DVP_KN_ERODE_SQUARE} then
        (let pD = to_Morphology V d in
         any_bad [image_bad mt (mo_input pD) None 0, image_bad mt (mo_output pD) None 0,
           Some (width (mo_input pD) \<noteq> width (mo_output pD)), Some (height (mo_input pD) \<noteq> height (mo_output pD)),
           Some (color (mo_input pD) \<noteq> FOURCC_Y800), Some (color (mo_output pD) \<noteq> FOURCC_Y800)])
      else if k = DVP_KN_CANNY_2D_GRADIENT then
        (let pD = to_Canny2dGradient V d in
         any_bad [image_bad mt (cg_input pD) None 0, image_bad mt (cg_outGradX pD) None 0,
           image_bad mt (cg_outGradY pD) None 0, image_bad mt (cg_outMag pD) None 0,
           Some (width (cg_input pD) \<noteq> width (cg_outGradX pD)), Some (width (cg_input pD) \<noteq> width (cg_outGradY pD)),
           Some (width (cg_input pD) \<noteq> width (cg_outMag pD)), Some (height (cg_input pD) \<noteq> height (cg_outGradX pD)),
           Some (height (cg_input pD) \<noteq> height (cg_outGradY pD)), Some (height (cg_input pD) \<noteq> height (cg_outMag pD)),
           Some (color (cg_input pD) \<noteq> FOURCC_Y800), Some (color (cg_outGradX pD) \<noteq> FOURCC_Y16),
           Some (color (cg_outGradY pD) \<noteq> FOURCC_Y16), Some (color (cg_outMag pD) \<noteq> FOURCC_Y16)])
      else if k \<in> {DVP_KN_CANNY_HYST_THRESHHOLD, DVP_KN_CANNY_NONMAX_SUPPRESSION} then Some False
      else if k \<in> {DVP_KN_CONV_3x3, DVP_KN_CONV_5x5, DVP_KN_CONV_7x7, DVP_KN_CANNY_IMAGE_SMOOTHING} then
        (let pI = to_ImageConvolution V d in
         any_bad [image_bad mt (conv_input pI) (Some [FOURCC_Y800]) 1, image_bad mt (conv_output pI) (Some [FOURCC_Y800]) 1,
           image_bad mt (conv_mask pI) (Some [FOURCC_Y800]) 1,
           Some (width (conv_input pI) > width (conv_output pI)), Some (height (conv_input pI) > height (conv_output pI))])
      else verify_filters mt V d k)"

definition verify_transform :: "u32 \<Rightarrow> knode_views \<Rightarrow> u8 list \<Rightarrow> int \<Rightarrow> bool option" where
  "verify_transform mt V d k =
     (let pT = to_Transform V d in
      if k \<in> {DVP_KN_SOBEL_8, DVP_KN_PREWITT_8, DVP_KN_SCHARR_8, DVP_KN_KROON_8, DVP_KN_SOBEL_3x3_8, DVP_KN_SOBEL_3x3_8s} then
        transform_bad mt (tr_input pT) (tr_output pT) (Some [FOURCC_Y800]) (Some [FOURCC_Y800]) 1
      else if k \<in> {DVP_KN_SOBEL_3x3_16, DVP_KN_SOBEL_3x3_16s} then
        transform_bad mt (tr_input pT) (tr_output pT) (Some [FOURCC_Y16]) (Some [FOURCC_Y16]) 1
      else if k = DVP_KN_THRESHOLD then
        any_bad [image_bad mt (tr_input pT) (Some [FOURCC_Y800]) 1, image_bad mt (tr_output pT) (Some [FOURCC_Y800]) 1,
          Some (height (tr_input pT) > height (tr_output pT)), Some (width (tr_input pT) > width (tr_output pT))]
      else if k \<in> {DVP_KN_XSTRIDE_CONVERT, DVP_KN_XSTRIDE_SHIFT} then
        any_bad [image_bad mt (tr_input pT) None 0, image_bad mt (tr_output pT) None 0,
          Some (height (tr_input pT) > height (tr_output pT)), Some (width (tr_input pT) > width (tr_output pT)),
          Some (x_stride (tr_input pT) = x_stride (tr_output pT)), Some (2 <s x_stride (tr_input pT))]
      else if k = DVP_KN_IMAGE_DEBUG then image_bad mt (dbg_image (to_ImageDebug V d)) None 0
      else if k = DVP_KN_BUFFER_DEBUG then Some (\<not> DVP_Buffer_Validate mt (Some (dbg_buffer (to_BufferDebug V d))))
      else verify_area mt V d k)"

text \<open>The arrays of valid colours of the code, with the pointers into them as the rest of the array.\<close>

definition verify_convert :: "u32 \<Rightarrow> knode_views \<Rightarrow> u8 list \<Rightarrow> int \<Rightarrow> bool option" where
  "verify_convert mt V d k =
     (let pT = to_Transform V d;
          check = (\<lambda>cs m n. map_option Not (DVP_Transform_Check mt pT cs m (drop (unat m) cs) n)) in
      if k = DVP_KN_COPY then
        transform_bad mt (tr_input pT) (tr_output pT) (Some [color (tr_output pT)]) (Some [color (tr_input pT)]) 1
      else if k = DVP_KN_XYXY_TO_Y800 then check [FOURCC_UYVY, FOURCC_VYUY, FOURCC_Y800] 2 1
      else if k = DVP_KN_YXYX_TO_Y800 then check [FOURCC_YUY2, FOURCC_YVYU, FOURCC_Y800] 2 1
      else if k = DVP_KN_Y800_TO_XYXY then check [FOURCC_Y800, FOURCC_UYVY, FOURCC_VYUY] 1 2
      else if k = DVP_KN_UYVY_TO_RGBp then check [FOURCC_UYVY, FOURCC_RGBP] 1 1
      else if k = DVP_KN_UYVY_TO_BGR then check [FOURCC_UYVY, FOURCC_BGR] 1 1
      else if k = DVP_KN_UYVY_TO_YUV420p then check [FOURCC_UYVY, FOURCC_IYUV, FOURCC_YV12] 1 2
      else if k = DVP_KN_UYVY_TO_YUV422p then check [FOURCC_UYVY, FOURCC_YU16, FOURCC_YV16] 1 2
      else if k = DVP_KN_UYVY_TO_YUV444p then check [FOURCC_UYVY, FOURCC_YU24, FOURCC_YV24] 1 2
      else if k = DVP_KN_YUV420p_TO_RGBp then check [FOURCC_IYUV, FOURCC_YV12, FOURCC_RGBP] 2 1
      else if k = DVP_KN_YUV420p_TO_UYVY then check [FOURCC_IYUV, FOURCC_YV12, FOURCC_UYVY] 2 1
      else if k = DVP_KN_YUV422p_TO_UYVY then check [FOURCC_YU16, FOURCC_YV16, FOURCC_UYVY] 2 1
      else if k = DVP_KN_YUV444p_TO_RGBp then check [FOURCC_YU24, FOURCC_YV24, FOURCC_RGBP] 2 1
      else if k = DVP_KN_YUV444p_TO_UYVY then check [FOURCC_YU24, FOURCC_YV24, FOURCC_UYVY] 2 1
      else if k = DVP_KN_NV12_TO_UYVY then check [FOURCC_NV12, FOURCC_UYVY] 1 1
      else if k = DVP_KN_NV12_TO_YUV444p then
        any_bad [image_bad mt (tr_input pT) (Some [FOURCC_NV12, FOURCC_YU24, FOURCC_YV24]) 1,
          image_bad mt (tr_output pT) (Some [FOURCC_YU24, FOURCC_YV24]) 2,
          Some (width (tr_input pT) > width (tr_output pT) * 2), Some (height (tr_input pT) > height (tr_output pT) * 2)]
      else if k = DVP_KN_BGR3_TO_UYVY then check [FOURCC_BGR, FOURCC_UYVY] 1 1
      else if k = DVP_KN_BGR3_TO_IYUV then check [FOURCC_BGR, FOURCC_IYUV] 1 1
      else if k = DVP_KN_BGR3_TO_NV12 then check [FOURCC_BGR, FOURCC_NV12] 1 1
      else verify_transform mt V d k)"

text \<open>One round of the loop: the error is cleared, set if the check fails, and a success is counted.\<close>

definition verify_node :: "u32 \<Rightarrow> knode_views \<Rightarrow> u32 \<Rightarrow> u32 \<times> DVP_KernelNode_t list \<Rightarrow> (u32 \<times> DVP_KernelNode_t list) option" where
  "verify_node mt V n s =
     (case s of (verified, nodes) \<Rightarrow> do {
        node \<leftarrow> nth_chk nodes (unat n);
        bad \<leftarrow> verify_convert mt V (n_data node) (kernel node);
        let err = (if bad then INVALID_PARAMETER_code else SUCCESS_code);
        nodes' \<leftarrow> upd_chk nodes (unat n) (node\<lparr>n_error := err\<rparr>);
        Some (if err = SUCCESS_code then verified + 1 else verified, nodes') })"

definition DVP_KernelGraphManagerVerify ::
  "u32 \<Rightarrow> knode_views \<Rightarrow> DVP_KernelNode_t list \<Rightarrow> u32 \<Rightarrow> u32 \<Rightarrow> (u32 \<times> DVP_KernelNode_t list) option" where
  "DVP_KernelGraphManagerVerify mt V nodes start num =
     for_range (unat start) (unat (start + num) - unat start) (verify_node mt V) (0, nodes)"

section \<open>The kernels of the CPU\<close>

text \<open>\<open>DVP_KN_THRESHOLD\<close>: the top bit of every byte, line by line.\<close>

definition threshold_plane :: "DVP_Transform_t \<Rightarrow> u32 \<Rightarrow> memory \<Rightarrow> memory option" where
  "threshold_plane pIO p =
     for_range 0 (unat (height (tr_input pIO))) (\<lambda>y m. do {
       tmpIn \<leftarrow> DVP_Image_Addressing (Some (tr_input pIO)) 0 y p;
       tmpOut \<leftarrow> DVP_Image_Addressing (Some (tr_output pIO)) 0 y p;
       for_range 0 (unat (width (tr_input pIO))) (\<lambda>j m. do {
         b \<leftarrow> m (tmpIn + j); store (tmpOut + j) (drop_bit 7 b) m }) m })"

definition exec_threshold :: "DVP_Transform_t \<Rightarrow> memory \<Rightarrow> (bool \<times> memory) option" where
  "exec_threshold pIO m =
     (if planes (tr_input pIO) = planes (tr_output pIO) \<and> height (tr_input pIO) = height (tr_output pIO) \<and>
         width (tr_input pIO) = width (tr_output pIO) \<and> x_stride (tr_input pIO) = x_stride (tr_output pIO)
      then do { m' \<leftarrow> for_range 0 (unat (planes (tr_input pIO))) (threshold_plane pIO) m; Some (True, m') }
      else Some (False, m))"

text \<open>
  \<open>DVP_KN_XSTRIDE_CONVERT\<close> and \<open>DVP_KN_XSTRIDE_SHIFT\<close> widen bytes to little-endian 16-bit samples or
  narrow them; the shift keeps the sample in the high byte. An unsupported pair of strides stops at the
  first plane.
\<close>

definition load16 :: "memory \<Rightarrow> u32 \<Rightarrow> 16 word option" where
  "load16 m a = do { lo \<leftarrow> m a; hi \<leftarrow> m (a + 1); Some (push_bit 8 (ucast hi) + ucast lo) }"

definition store16 :: "u32 \<Rightarrow> 16 word \<Rightarrow> memory \<Rightarrow> memory option" where
  "store16 a v m = do { m' \<leftarrow> store a (ucast v) m; store (a + 1) (ucast (drop_bit 8 v)) m' }"

definition widen_line :: "bool \<Rightarrow> u32 \<Rightarrow> u32 \<Rightarrow> u32 \<Rightarrow> memory \<Rightarrow> memory option" where
  "widen_line shift tmpIn tmpOut w = for_range 0 (unat w) (\<lambda>j m. do {
     b \<leftarrow> m (tmpIn + j);
     store16 (tmpOut + 2 * j) (if shift then push_bit 8 (ucast b) else ucast b) m })"

definition narrow_line :: "bool \<Rightarrow> u32 \<Rightarrow> u32 \<Rightarrow> u32 \<Rightarrow> memory \<Rightarrow> memory option" where
  "narrow_line shift tmpIn tmpOut w = for_range 0 (unat w) (\<lambda>j m. do {
     v \<leftarrow> load16 m (tmpIn + 2 * j);
     store (tmpOut + j) (ucast (if shift then drop_bit 8 v else v)) m })"

definition xstride_plane :: "bool \<Rightarrow> DVP_Transform_t \<Rightarrow> u32 \<Rightarrow> bool \<times> memory \<Rightarrow> (bool \<times> memory) option" where
  "xstride_plane shift pIO p s =
     (let inp = tr_input pIO; outp = tr_output pIO in
      if \<not> fst s then Some s
      else if x_stride inp = 1 \<and> x_stride outp = 2 then do {
        m' \<leftarrow> for_range 0 (unat (height inp)) (\<lambda>y m. do {
          i \<leftarrow> DVP_Image_Addressing (Some inp) 0 y p; out \<leftarrow> DVP_Image_Addressing (Some outp) 0 y p;
          widen_line shift i out (width inp) m }) (snd s);
        Some (True, m') }
      else if x_stride inp = 2 \<and> x_stride outp = 1 then do {
        m' \<leftarrow> for_range 0 (unat (height inp)) (\<lambda>y m. do {
          i \<leftarrow> DVP_Image_Addressing (Some inp) 0 y p; out \<leftarrow> DVP_Image_Addressing (Some outp) 0 y p;
          narrow_line shift i out (width inp) m }) (snd s);
        Some (True, m') }
      else Some (False, snd s))"

definition exec_xstride :: "bool \<Rightarrow> DVP_Transform_t \<Rightarrow> memory \<Rightarrow> (bool \<times> memory) option" where
  "exec_xstride shift pIO m =
     (if planes (tr_input pIO) = planes (tr_output pIO) \<and> height (tr_input pIO) = height (tr_output pIO) \<and>
         width (tr_input pIO) = width (tr_output pIO)
      then for_range 0 (unat (planes (tr_input pIO))) (xstride_plane shift pIO) (True, m)
      else Some (False, m))"

text \<open>\<open>gamma_apply\<close>: the first planes through a look-up table; the pixel indices are accumulated and wrap.\<close>

definition gamma_line :: "DVP_Image_t \<Rightarrow> DVP_Image_t \<Rightarrow> u8 list \<Rightarrow> u32 \<times> u32 \<Rightarrow> memory \<Rightarrow> memory option" where
  "gamma_line inp outp lut starts m = do {
     i \<leftarrow> nth_chk (pData inp) 0;
     out \<leftarrow> nth_chk (pData outp) 0;
     (m', _) \<leftarrow> for_range 0 (unat (width inp)) (\<lambda>_ (m, cur_in, cur_out). do {
       indx \<leftarrow> m (i + cur_in);
       v \<leftarrow> nth_chk lut (unat indx);
       m' \<leftarrow> store (out + cur_out) v m;
       Some (m', cur_in + x_stride inp, cur_out + x_stride outp) }) (m, starts);
     Some m' }"

definition gamma_apply :: "DVP_Image_t option \<Rightarrow> DVP_Image_t option \<Rightarrow> u8 list option \<Rightarrow> memory \<Rightarrow> memory option" where
  "gamma_apply inp outp gammaLut m =
     (case (gammaLut, inp, outp) of
        (Some lut, Some i, Some out) \<Rightarrow>
          if width i \<noteq> width out \<or> height i \<noteq> height out then Some m
          else do {
            (m', _) \<leftarrow> for_range 0 (unat (height i)) (\<lambda>_ (m, start_in, start_out). do {
              m' \<leftarrow> gamma_line i out lut (start_in, start_out) m;
              Some (m', start_in + y_stride i, start_out + y_stride out) }) (m, 0, 0);
            Some m' }
      | _ \<Rightarrow> Some m)"

section \<open>Execution\<close>

text \<open>
  The switch of \<open>DVP_KernelGraphManager_CPU\<close>: whether the kernel succeeded, and the memory. Without a
  file system the two debugging kernels do nothing.
\<close>

definition exec_kernel :: "knode_views \<Rightarrow> u8 list \<Rightarrow> int \<Rightarrow> memory \<Rightarrow> (bool \<times> memory) option" where
  "exec_kernel V d k m =
     (if k = DVP_KN_NOOP then Some (True, m)
      else if k = DVP_KN_COPY then
        DVP_Image_Copy (Some (tr_output (to_Transform V d))) (Some (tr_input (to_Transform V d))) m
      else if k = DVP_KN_THRESHOLD then exec_threshold (to_Transform V d) m
      else if k = DVP_KN_XSTRIDE_CONVERT then exec_xstride False (to_Transform V d) m
      else if k = DVP_KN_XSTRIDE_SHIFT then exec_xstride True (to_Transform V d) m
      else if k = DVP_KN_IMAGE_DEBUG \<or> k = DVP_KN_BUFFER_DEBUG then Some (True, m)
      else if k = DVP_KN_GAMMA then
        (let pG = to_Gamma V d in
         map_option (Pair True) (gamma_apply (Some (ga_input pG)) (Some (ga_output pG)) (Some (ga_gammaLut pG)) m))
      else Some (False, m))"

text \<open>
  \<open>clock n\<close> are the readings of the timer at the start and the end of node \<open>n\<close>, \<open>freq\<close> its rate. A
  kernel that fails takes the node back that the end of the round counts.
\<close>

definition exec_node ::
  "knode_views \<Rightarrow> (nat \<Rightarrow> rtime \<times> rtime) \<Rightarrow> rtime \<Rightarrow> u32 \<Rightarrow> s32 \<times> DVP_KernelNode_t list \<times> memory \<Rightarrow>
   (s32 \<times> DVP_KernelNode_t list \<times> memory) option" where
  "exec_node V clock freq n s =
     (case s of (processed, nodes, m) \<Rightarrow> do {
        node \<leftarrow> nth_chk nodes (unat n);
        let perf = DVP_PerformanceStart (fst (clock (unat n))) ((n_perf node)\<lparr>rate := freq\<rparr>);
        (ok, m') \<leftarrow> exec_kernel V (n_data node) (kernel node) m;
        perf' \<leftarrow> DVP_PerformanceStop (snd (clock (unat n))) perf;
        nodes' \<leftarrow> upd_chk nodes (unat n)
          (node\<lparr>n_error := (if ok then SUCCESS_code else INVALID_PARAMETER_code), n_perf := perf'\<rparr>);
        Some ((if ok then processed else processed - 1) + 1, nodes', m') })"

definition DVP_KernelGraphManager_CPU ::
  "knode_views \<Rightarrow> (nat \<Rightarrow> rtime \<times> rtime) \<Rightarrow> rtime \<Rightarrow> DVP_KernelNode_t list option \<Rightarrow> u32 \<Rightarrow> u32 \<Rightarrow> memory \<Rightarrow>
   (s32 \<times> DVP_KernelNode_t list option \<times> memory) option" where
  "DVP_KernelGraphManager_CPU V clock freq pSubNodes start num m =
     (case pSubNodes of
        None \<Rightarrow> Some (0, None, m)
      | Some nodes \<Rightarrow> do {
          (processed, nodes', m') \<leftarrow>
            for_range (unat start) (unat (start + num) - unat start) (exec_node V clock freq) (0, nodes, m);
          Some (processed, Some nodes', m') })"

section \<open>What the manager offers\<close>

definition local_kernels :: "DVP_CoreFunction_t list" where
  "local_kernels = map (\<lambda>k. \<lparr>cf_kernel = k, cf_load = 0, cf_shift = None, cf_shift_func = None\<rparr>)
     [DVP_KN_NOOP, DVP_KN_THRESHOLD, DVP_KN_XSTRIDE_CONVERT, DVP_KN_XSTRIDE_SHIFT, DVP_KN_COPY,
      DVP_KN_IMAGE_DEBUG, DVP_KN_BUFFER_DEBUG, DVP_KN_GAMMA]"

definition DVP_GetSupportedKernels :: "nat \<times> DVP_CoreFunction_t list" where
  "DVP_GetSupportedKernels = (length local_kernels, local_kernels)"

definition DVP_GetMaximumLoad :: "u32 \<Rightarrow> u32" where
  "DVP_GetMaximumLoad target_num_cores = target_num_cores * 1000"

end
