(* ===== verification/Dvp_Simcop.thy ===== *)
theory Dvp_Simcop
  imports Dvp_RemoteKgm Dvp_Cpu "HOL-Library.Signed_Division"
begin

text \<open>
  The manager of the SIMCOP core, \<open>source/dvp/dvp_kgm_simcop/dvp_kgm_simcop.c\<close>, with \<open>DVP_USE_VRUN\<close> and \<open>DVP_USE_DEI\<close> defined: its table of kernels, the
  two switches that prepare the operands of a node for the remote core and take them back, and the verification of the nodes.
\<close>

section \<open>Image shifts\<close>

definition image_shift :: "s32 \<Rightarrow> s32 \<Rightarrow> s32 \<Rightarrow> s32 \<Rightarrow> s32 \<Rightarrow> s32 \<Rightarrow> dvp_image_shift_t" where
  "image_shift h v t r b l = \<lparr>centerShiftHorz = h, centerShiftVert = v, topBorder = t, rightBorder = r, bottomBorder = b,
     leftBorder = l\<rparr>"

definition imx_shift3 :: dvp_image_shift_t where
  "imx_shift3 = image_shift (-1) (-1) 0 2 2 0"

definition imx_shift5 :: dvp_image_shift_t where
  "imx_shift5 = image_shift (-2) (-2) 0 4 4 0"

definition imx_shift7 :: dvp_image_shift_t where
  "imx_shift7 = image_shift (-3) (-3) 0 6 6 0"

definition imx_shift8 :: dvp_image_shift_t where
  "imx_shift8 = image_shift (-4) (-4) 0 7 7 0"

definition imx_shift16 :: dvp_image_shift_t where
  "imx_shift16 = image_shift (-8) (-8) 0 15 15 0"

definition imx_nonmax_shift3 :: dvp_image_shift_t where
  "imx_nonmax_shift3 = image_shift (-1) 1 2 2 0 0"

definition imx_nonmax_shift5 :: dvp_image_shift_t where
  "imx_nonmax_shift5 = image_shift (-2) 2 4 4 0 0"

definition imx_nonmax_shift7 :: dvp_image_shift_t where
  "imx_nonmax_shift7 = image_shift (-3) 3 6 6 0 0"

text \<open>The minus binds before the division, which rounds towards zero.\<close>

definition dvp_vrun_conv_mxn_shift :: "remote_views \<Rightarrow> DVP_KernelNode_t \<Rightarrow> dvp_image_shift_t \<Rightarrow> dvp_image_shift_t" where
  "dvp_vrun_conv_mxn_shift V node shift =
     (let m = conv_mask (to_ImageConvolution V (n_data node)) in
      shift\<lparr>centerShiftHorz := word_of_int (sint (- width m) sdiv 2), centerShiftVert := word_of_int (sint (- height m) sdiv 2),
        rightBorder := width m - 1, bottomBorder := height m - 1\<rparr>)"

section \<open>The table of kernels\<close>

definition plain :: "int \<Rightarrow> DVP_CoreFunction_t" where
  "plain k = \<lparr>cf_kernel = k, cf_load = 0, cf_shift = None, cf_shift_func = None\<rparr>"

definition shifted :: "int \<Rightarrow> dvp_image_shift_t \<Rightarrow> DVP_CoreFunction_t" where
  "shifted k s = (plain k)\<lparr>cf_shift := Some s\<rparr>"

definition shifted_by_mask :: "remote_views \<Rightarrow> int \<Rightarrow> DVP_CoreFunction_t" where
  "shifted_by_mask V k = (plain k)\<lparr>cf_shift_func := Some (dvp_vrun_conv_mxn_shift V)\<rparr>"

definition simcop_kernels :: "remote_views \<Rightarrow> DVP_CoreFunction_t list" where
  "simcop_kernels V =
     [plain DVP_KN_NOOP,
      plain DVP_KN_COPY,
      shifted DVP_KN_DILATE_CROSS imx_shift3,
      shifted DVP_KN_DILATE_MASK imx_shift3,
      shifted DVP_KN_DILATE_SQUARE imx_shift3,
      shifted DVP_KN_ERODE_CROSS imx_shift3,
      shifted DVP_KN_ERODE_MASK imx_shift3,
      shifted DVP_KN_ERODE_SQUARE imx_shift3,
      shifted DVP_KN_VRUN_DILATE_CROSS imx_shift3,
      shifted DVP_KN_VRUN_DILATE_MASK imx_shift3,
      shifted DVP_KN_VRUN_DILATE_SQUARE imx_shift3,
      shifted DVP_KN_VRUN_ERODE_CROSS imx_shift3,
      shifted DVP_KN_VRUN_ERODE_MASK imx_shift3,
      shifted DVP_KN_VRUN_ERODE_SQUARE imx_shift3,
      plain DVP_KN_IIR_HORZ,
      plain DVP_KN_IIR_VERT,
      plain DVP_KN_VRUN_IIR_HORZ,
      plain DVP_KN_VRUN_IIR_VERT,
      shifted DVP_KN_NONMAXSUPPRESS_3x3_S16 imx_nonmax_shift3,
      shifted DVP_KN_NONMAXSUPPRESS_5x5_S16 imx_nonmax_shift5,
      shifted DVP_KN_NONMAXSUPPRESS_7x7_S16 imx_nonmax_shift7,
      shifted DVP_KN_VRUN_NONMAXSUPPRESS_3x3_S16 imx_nonmax_shift3,
      shifted DVP_KN_VRUN_NONMAXSUPPRESS_5x5_S16 imx_nonmax_shift5,
      shifted DVP_KN_VRUN_NONMAXSUPPRESS_7x7_S16 imx_nonmax_shift7,
      shifted DVP_KN_CONV_3x3 imx_shift3,
      shifted DVP_KN_CONV_5x5 imx_shift5,
      shifted DVP_KN_CONV_7x7 imx_shift7,
      shifted DVP_KN_VRUN_CONV_3x3 imx_shift3,
      shifted DVP_KN_VRUN_CONV_5x5 imx_shift5,
      shifted DVP_KN_VRUN_CONV_7x7 imx_shift7,
      shifted_by_mask V DVP_KN_VRUN_CONV_MxN,
      plain DVP_KN_THR_GT2MAX_8,
      plain DVP_KN_THR_GT2MAX_16,
      plain DVP_KN_THR_GT2THR_8,
      plain DVP_KN_THR_GT2THR_16,
      plain DVP_KN_THR_LE2MIN_8,
      plain DVP_KN_THR_LE2MIN_16,
      plain DVP_KN_THR_LE2THR_8,
      plain DVP_KN_THR_LE2THR_16,
      plain DVP_KN_VRUN_THR_GT2MAX_8,
      plain DVP_KN_VRUN_THR_GT2MAX_16,
      plain DVP_KN_VRUN_THR_GT2THR_8,
      plain DVP_KN_VRUN_THR_GT2THR_16,
      plain DVP_KN_VRUN_THR_LE2MIN_8,
      plain DVP_KN_VRUN_THR_LE2MIN_16,
      plain DVP_KN_VRUN_THR_LE2THR_8,
      plain DVP_KN_VRUN_THR_LE2THR_16,
      shifted DVP_KN_SOBEL_3x3_8s imx_shift3,
      shifted DVP_KN_SOBEL_3x3_8 imx_shift3,
      shifted DVP_KN_SOBEL_3x3_16s imx_shift3,
      shifted DVP_KN_SOBEL_3x3_16 imx_shift3,
      shifted DVP_KN_SOBEL_5x5_8s imx_shift5,
      shifted DVP_KN_SOBEL_5x5_8 imx_shift5,
      shifted DVP_KN_SOBEL_5x5_16s imx_shift5,
      shifted DVP_KN_SOBEL_5x5_16 imx_shift5,
      shifted DVP_KN_SOBEL_7x7_8s imx_shift7,
      shifted DVP_KN_SOBEL_7x7_8 imx_shift7,
      shifted DVP_KN_SOBEL_7x7_16s imx_shift7,
      shifted DVP_KN_SOBEL_7x7_16 imx_shift7,
      shifted DVP_KN_VRUN_SOBEL_3x3_8s imx_shift3,
      shifted DVP_KN_VRUN_SOBEL_3x3_8 imx_shift3,
      shifted DVP_KN_VRUN_SOBEL_3x3_16s imx_shift3,
      shifted DVP_KN_VRUN_SOBEL_3x3_16 imx_shift3,
      shifted DVP_KN_VRUN_SOBEL_5x5_8s imx_shift5,
      shifted DVP_KN_VRUN_SOBEL_5x5_8 imx_shift5,
      shifted DVP_KN_VRUN_SOBEL_5x5_16s imx_shift5,
      shifted DVP_KN_VRUN_SOBEL_5x5_16 imx_shift5,
      shifted DVP_KN_VRUN_SOBEL_7x7_8s imx_shift7,
      shifted DVP_KN_VRUN_SOBEL_7x7_8 imx_shift7,
      shifted DVP_KN_VRUN_SOBEL_7x7_16s imx_shift7,
      shifted DVP_KN_VRUN_SOBEL_7x7_16 imx_shift7,
      plain DVP_KN_VRUN_HARRIS_CORNERS,
      plain DVP_KN_VRUN_HARRIS_SCORE_7x7,
      plain DVP_KN_VRUN_BLOCK_MAXIMA,
      plain DVP_KN_VRUN_NMS_STEP1,
      shifted DVP_KN_CANNY_IMAGE_SMOOTHING imx_shift7,
      shifted DVP_KN_CANNY_2D_GRADIENT imx_shift3,
      shifted DVP_KN_CANNY_NONMAX_SUPPRESSION imx_shift3,
      plain DVP_KN_CANNY_HYST_THRESHHOLD,
      shifted DVP_KN_VRUN_CANNY_IMAGE_SMOOTHING imx_shift7,
      shifted DVP_KN_VRUN_CANNY_2D_GRADIENT imx_shift3,
      shifted DVP_KN_VRUN_CANNY_NONMAX_SUPPRESSION imx_shift3,
      plain DVP_KN_VRUN_CANNY_HYST_THRESHHOLD,
      plain DVP_KN_UYVY_TO_YUV444p,
      plain DVP_KN_UYVY_TO_RGBp,
      plain DVP_KN_UYVY_TO_YUV420p,
      plain DVP_KN_XYXY_TO_Y800,
      plain DVP_KN_NV12_TO_YUV444p,
      plain DVP_KN_YUV444p_TO_RGBp,
      plain DVP_KN_VRUN_UYVY_TO_YUV444p,
      plain DVP_KN_VRUN_UYVY_TO_RGBp,
      plain DVP_KN_VRUN_UYVY_TO_YUV420p,
      plain DVP_KN_VRUN_XYXY_TO_Y800,
      plain DVP_KN_VRUN_NV12_TO_YUV444p,
      plain DVP_KN_VRUN_YUV444p_TO_RGBp,
      plain DVP_KN_INTEGRAL_IMAGE_8,
      plain DVP_KN_VRUN_INTEGRAL_IMAGE_8,
      plain DVP_KN_LDC_AFFINE_TRANSFORM,
      plain DVP_KN_LDC_DISTORTION_CORRECTION,
      plain DVP_KN_LDC_DISTORTION_AND_AFFINE,
      shifted DVP_KN_VRUN_SAD_8x8 imx_shift8,
      shifted DVP_KN_VRUN_SAD_16x16 imx_shift16,
      shifted DVP_KN_VRUN_SAD_3x3 imx_shift3,
      shifted DVP_KN_VRUN_SAD_5x5 imx_shift5,
      shifted DVP_KN_VRUN_SAD_7x7 imx_shift7,
      plain DVP_KN_VRUN_IMAGE_PYRAMID_8,
      shifted DVP_KN_VRUN_GAUSSIAN_3x3_PYRAMID_8 imx_shift3,
      shifted DVP_KN_VRUN_GAUSSIAN_5x5_PYRAMID_8 imx_shift5,
      shifted DVP_KN_VRUN_GAUSSIAN_7x7_PYRAMID_8 imx_shift7,
      shifted DVP_KN_VRUN_GRADIENT_H3x3_PYRAMID_8 imx_shift3,
      shifted DVP_KN_VRUN_GRADIENT_H5x5_PYRAMID_8 imx_shift5,
      shifted DVP_KN_VRUN_GRADIENT_H7x7_PYRAMID_8 imx_shift7,
      shifted DVP_KN_VRUN_GRADIENT_V3x3_PYRAMID_8 imx_shift3,
      shifted DVP_KN_VRUN_GRADIENT_V5x5_PYRAMID_8 imx_shift5,
      shifted DVP_KN_VRUN_GRADIENT_V7x7_PYRAMID_8 imx_shift7,
      plain DVP_KN_DEI_DEINTERLACER_INIT,
      plain DVP_KN_DEI_DEINTERLACER_DEINIT]"

definition DVP_GetSupportedKernels_SIMCOP :: "remote_views \<Rightarrow> nat \<times> DVP_CoreFunction_t list" where
  "DVP_GetSupportedKernels_SIMCOP V = (length (simcop_kernels V), simcop_kernels V)"

text \<open>On the PANDA board; the numbers of functions are those of the tables of remote and local calls.\<close>

definition DVP_GetSupportedRemoteCalls_SIMCOP :: u32 where "DVP_GetSupportedRemoteCalls_SIMCOP = 3"

definition DVP_GetSupportedRemoteCore_SIMCOP :: int where "DVP_GetSupportedRemoteCore_SIMCOP = 1"

definition DVP_GetMaximumLoad_SIMCOP :: u32 where "DVP_GetMaximumLoad_SIMCOP = 200"

section \<open>The labels of the cases\<close>

text \<open>The cases of the two switches have the same labels.\<close>

definition simcop_nothing :: "int \<Rightarrow> bool" where
  "simcop_nothing k \<longleftrightarrow> k \<in>
    {DVP_KN_NOOP, DVP_KN_DEI_DEINTERLACER_INIT, DVP_KN_DEI_DEINTERLACER_DEINIT}"

definition simcop_morphology :: "int \<Rightarrow> bool" where
  "simcop_morphology k \<longleftrightarrow> k \<in>
    {DVP_KN_DILATE_CROSS, DVP_KN_DILATE_SQUARE, DVP_KN_DILATE_MASK, DVP_KN_ERODE_CROSS, DVP_KN_ERODE_MASK,
     DVP_KN_ERODE_SQUARE, DVP_KN_VRUN_DILATE_CROSS, DVP_KN_VRUN_DILATE_SQUARE, DVP_KN_VRUN_DILATE_MASK,
     DVP_KN_VRUN_ERODE_CROSS, DVP_KN_VRUN_ERODE_MASK, DVP_KN_VRUN_ERODE_SQUARE}"

definition simcop_iir :: "int \<Rightarrow> bool" where
  "simcop_iir k \<longleftrightarrow> k \<in>
    {DVP_KN_IIR_HORZ, DVP_KN_IIR_VERT, DVP_KN_VRUN_IIR_HORZ, DVP_KN_VRUN_IIR_VERT}"

definition simcop_threshold :: "int \<Rightarrow> bool" where
  "simcop_threshold k \<longleftrightarrow> k \<in>
    {DVP_KN_NONMAXSUPPRESS_3x3_S16, DVP_KN_NONMAXSUPPRESS_5x5_S16, DVP_KN_NONMAXSUPPRESS_7x7_S16, DVP_KN_THR_GT2MAX_8,
     DVP_KN_THR_GT2MAX_16, DVP_KN_THR_GT2THR_8, DVP_KN_THR_GT2THR_16, DVP_KN_THR_LE2MIN_8, DVP_KN_THR_LE2MIN_16,
     DVP_KN_THR_LE2THR_8, DVP_KN_THR_LE2THR_16, DVP_KN_VRUN_NONMAXSUPPRESS_3x3_S16, DVP_KN_VRUN_NONMAXSUPPRESS_5x5_S16,
     DVP_KN_VRUN_NONMAXSUPPRESS_7x7_S16, DVP_KN_VRUN_THR_GT2MAX_8, DVP_KN_VRUN_THR_GT2MAX_16, DVP_KN_VRUN_THR_GT2THR_8,
     DVP_KN_VRUN_THR_GT2THR_16, DVP_KN_VRUN_THR_LE2MIN_8, DVP_KN_VRUN_THR_LE2MIN_16, DVP_KN_VRUN_THR_LE2THR_8,
     DVP_KN_VRUN_THR_LE2THR_16}"

definition simcop_convolution :: "int \<Rightarrow> bool" where
  "simcop_convolution k \<longleftrightarrow> k \<in>
    {DVP_KN_CANNY_IMAGE_SMOOTHING, DVP_KN_CONV_3x3, DVP_KN_CONV_5x5, DVP_KN_CONV_7x7, DVP_KN_VRUN_CANNY_IMAGE_SMOOTHING,
     DVP_KN_VRUN_CONV_3x3, DVP_KN_VRUN_CONV_5x5, DVP_KN_VRUN_CONV_7x7, DVP_KN_VRUN_CONV_MxN}"

definition simcop_sad :: "int \<Rightarrow> bool" where
  "simcop_sad k \<longleftrightarrow> k \<in>
    {DVP_KN_VRUN_SAD_8x8, DVP_KN_VRUN_SAD_16x16, DVP_KN_VRUN_SAD_3x3, DVP_KN_VRUN_SAD_5x5, DVP_KN_VRUN_SAD_7x7}"

definition simcop_gradient :: "int \<Rightarrow> bool" where
  "simcop_gradient k \<longleftrightarrow> k \<in>
    {DVP_KN_CANNY_2D_GRADIENT, DVP_KN_VRUN_CANNY_2D_GRADIENT}"

definition simcop_suppression :: "int \<Rightarrow> bool" where
  "simcop_suppression k \<longleftrightarrow> k \<in>
    {DVP_KN_CANNY_NONMAX_SUPPRESSION, DVP_KN_VRUN_CANNY_NONMAX_SUPPRESSION}"

definition simcop_hysteresis :: "int \<Rightarrow> bool" where
  "simcop_hysteresis k \<longleftrightarrow> k \<in>
    {DVP_KN_CANNY_HYST_THRESHHOLD, DVP_KN_VRUN_CANNY_HYST_THRESHHOLD}"

definition simcop_transform :: "int \<Rightarrow> bool" where
  "simcop_transform k \<longleftrightarrow> k \<in>
    {DVP_KN_XYXY_TO_Y800, DVP_KN_UYVY_TO_YUV444p, DVP_KN_UYVY_TO_RGBp, DVP_KN_UYVY_TO_YUV420p, DVP_KN_INTEGRAL_IMAGE_8,
     DVP_KN_NV12_TO_YUV444p, DVP_KN_YUV444p_TO_RGBp, DVP_KN_SOBEL_3x3_8s, DVP_KN_SOBEL_3x3_8, DVP_KN_SOBEL_3x3_16s,
     DVP_KN_SOBEL_3x3_16, DVP_KN_SOBEL_5x5_8s, DVP_KN_SOBEL_5x5_8, DVP_KN_SOBEL_5x5_16s, DVP_KN_SOBEL_5x5_16,
     DVP_KN_SOBEL_7x7_8s, DVP_KN_SOBEL_7x7_8, DVP_KN_SOBEL_7x7_16s, DVP_KN_SOBEL_7x7_16, DVP_KN_VRUN_XYXY_TO_Y800,
     DVP_KN_VRUN_UYVY_TO_YUV444p, DVP_KN_VRUN_UYVY_TO_RGBp, DVP_KN_VRUN_UYVY_TO_YUV420p, DVP_KN_VRUN_INTEGRAL_IMAGE_8,
     DVP_KN_VRUN_NV12_TO_YUV444p, DVP_KN_VRUN_YUV444p_TO_RGBp, DVP_KN_VRUN_SOBEL_3x3_8s, DVP_KN_VRUN_SOBEL_3x3_8,
     DVP_KN_VRUN_SOBEL_3x3_16s, DVP_KN_VRUN_SOBEL_3x3_16, DVP_KN_VRUN_SOBEL_5x5_8s, DVP_KN_VRUN_SOBEL_5x5_8,
     DVP_KN_VRUN_SOBEL_5x5_16s, DVP_KN_VRUN_SOBEL_5x5_16, DVP_KN_VRUN_SOBEL_7x7_8s, DVP_KN_VRUN_SOBEL_7x7_8,
     DVP_KN_VRUN_SOBEL_7x7_16s, DVP_KN_VRUN_SOBEL_7x7_16, DVP_KN_LDC_AFFINE_TRANSFORM}"

definition simcop_distortion :: "int \<Rightarrow> bool" where
  "simcop_distortion k \<longleftrightarrow> k \<in>
    {DVP_KN_LDC_DISTORTION_CORRECTION, DVP_KN_LDC_DISTORTION_AND_AFFINE}"

definition simcop_pyramid :: "int \<Rightarrow> bool" where
  "simcop_pyramid k \<longleftrightarrow> k \<in>
    {DVP_KN_VRUN_GAUSSIAN_3x3_PYRAMID_8, DVP_KN_VRUN_GAUSSIAN_5x5_PYRAMID_8, DVP_KN_VRUN_GAUSSIAN_7x7_PYRAMID_8,
     DVP_KN_VRUN_GRADIENT_H3x3_PYRAMID_8, DVP_KN_VRUN_GRADIENT_H5x5_PYRAMID_8, DVP_KN_VRUN_GRADIENT_H7x7_PYRAMID_8,
     DVP_KN_VRUN_GRADIENT_V3x3_PYRAMID_8, DVP_KN_VRUN_GRADIENT_V5x5_PYRAMID_8, DVP_KN_VRUN_GRADIENT_V7x7_PYRAMID_8}"

definition simcop_masked :: "int \<Rightarrow> bool" where
  "simcop_masked k \<longleftrightarrow> k \<in> {DVP_KN_ERODE_MASK, DVP_KN_DILATE_MASK, DVP_KN_VRUN_ERODE_MASK, DVP_KN_VRUN_DILATE_MASK}"

section \<open>Preparing\<close>

text \<open>
  An image has 92 bytes and a buffer 28; the two bounds arrays of an IIR filter are at 184 and 196. Each part of the switch hands the
  kernels it does not know to the next one.
\<close>

definition simcop_prepare_rest :: "remote_views \<Rightarrow> operands" where
  "simcop_prepare_rest V k d =
     (if simcop_distortion k then
        (let p = to_Ldc V d in Some [Img (ldc_input p) 0 True, Img (ldc_output p) 92 False, Buf (ldc_ldcLut p) 200 True])
      else if k = DVP_KN_VRUN_HARRIS_CORNERS then
        (let p = to_HarrisCorners V d in
         Some [Img (hc_input p) 0 True, Img (hc_tempBuf1 p) 184 True, Img (hc_tempBuf2 p) 276 True,
           Img (hc_tempBuf3 p) 368 True, Img (hc_tempBuf4 p) 460 True, Img (hc_output p) 92 False])
      else if k = DVP_KN_VRUN_HARRIS_SCORE_7x7 then
        (let p = to_Harris V d in Some [Img (ha_input p) 0 True, Img (ha_harrisScore p) 92 False])
      else if k = DVP_KN_VRUN_BLOCK_MAXIMA then
        (let p = to_BlockMaxima V d in
         Some [Img (bm_input p) 0 False, Img (bm_blockMaximaX p) 92 True, Img (bm_blockMaximaY p) 184 True,
           Img (bm_blockMaximaMAX p) 276 True])
      else if k = DVP_KN_VRUN_NMS_STEP1 then
        (let p = to_NMSStep1 V d in Some [Img (nms_X p) 0 True, Img (nms_Y p) 92 True, Img (nms_Dst p) 184 False])
      else if simcop_pyramid k then
        (let p = to_Transform V d in Some [Img (tr_input p) 0 True, Img (tr_output p) 92 False])
      else if k = DVP_KN_VRUN_IMAGE_PYRAMID_8 then
        (let p = to_Pyramid V d in Some [Img (py_input p) 0 True, Buf (py_output p) 92 False])
      else None)"

definition simcop_prepare_canny :: "remote_views \<Rightarrow> operands" where
  "simcop_prepare_canny V k d =
     (if simcop_sad k then
        (let p = to_SAD V d in Some [Img (sad_input p) 0 True, Img (sad_output p) 92 False, Img (sad_refImg p) 184 True])
      else if simcop_gradient k then
        (let p = to_Canny2dGradient V d in
         Some [Img (cg_input p) 0 True, Img (cg_outGradX p) 92 False, Img (cg_outGradY p) 184 False, Img (cg_outMag p) 276 False])
      else if simcop_suppression k then
        (let p = to_CannyNonMax V d in
         Some [Img (cn_inMag p) 0 True, Img (cn_inGradX p) 92 True, Img (cn_inGradY p) 184 True, Img (cn_output p) 276 False])
      else if simcop_hysteresis k then
        (let p = to_CannyHyst V d in Some [Img (ch_inMag p) 0 True, Img (ch_inEdgeMap p) 92 True, Img (ch_output p) 184 False])
      else if simcop_transform k then
        (let p = to_Transform V d in Some [Img (tr_input p) 0 True, Img (tr_output p) 92 False])
      else simcop_prepare_rest V k d)"

definition simcop_prepare :: "remote_views \<Rightarrow> operands" where
  "simcop_prepare V k d =
     (if simcop_nothing k then Some []
      else if k = DVP_KN_COPY then
        (let p = to_Transform V d in Some [Img (tr_input p) 0 True, Img (tr_output p) 92 False])
      else if simcop_morphology k then
        (let p = to_Morphology V d in
         Some ([Img (mo_input p) 0 True, Img (mo_output p) 92 False] @
           (if simcop_masked k then [Img (mo_mask p) 184 True] else [])))
      else if simcop_iir k then
        (let p = to_IIR V d in
         Some ([Img (iir_input p) 0 True, Img (iir_output p) 92 False, Img (iir_scratch p) 208 False] @
           map (\<lambda>(b, off). Bnd (bo_pData b) off) (zip (iir_bounds p) [184, 196])))
      else if simcop_threshold k then
        (let p = to_Threshold V d in Some [Img (th_input p) 0 True, Img (th_output p) 92 False])
      else if simcop_convolution k then
        (let p = to_ImageConvolution V d in Some [Img (conv_input p) 0 True, Img (conv_output p) 92 False, Img (conv_mask p) 184 True])
      else simcop_prepare_canny V k d)"

section \<open>Returning\<close>

definition simcop_return_rest :: "remote_views \<Rightarrow> operands" where
  "simcop_return_rest V k d =
     (if simcop_distortion k then
        (let p = to_Ldc V d in Some [Img (ldc_input p) 0 False, Img (ldc_output p) 92 True, Buf (ldc_ldcLut p) 200 False])
      else if k = DVP_KN_VRUN_HARRIS_CORNERS then
        (let p = to_HarrisCorners V d in
         Some [Img (hc_input p) 0 False, Img (hc_tempBuf1 p) 184 True, Img (hc_tempBuf2 p) 276 True,
           Img (hc_tempBuf3 p) 368 True, Img (hc_tempBuf4 p) 460 True, Img (hc_output p) 92 True])
      else if k = DVP_KN_VRUN_HARRIS_SCORE_7x7 then
        (let p = to_Harris V d in Some [Img (ha_input p) 0 False, Img (ha_harrisScore p) 92 True])
      else if k = DVP_KN_VRUN_BLOCK_MAXIMA then
        (let p = to_BlockMaxima V d in
         Some [Img (bm_input p) 0 False, Img (bm_blockMaximaX p) 92 True, Img (bm_blockMaximaY p) 184 True,
           Img (bm_blockMaximaMAX p) 276 True])
      else if k = DVP_KN_VRUN_NMS_STEP1 then
        (let p = to_NMSStep1 V d in Some [Img (nms_X p) 0 False, Img (nms_Y p) 92 False, Img (nms_Dst p) 184 True])
      else if simcop_pyramid k then
        (let p = to_Transform V d in Some [Img (tr_input p) 0 False, Img (tr_output p) 92 True])
      else if k = DVP_KN_VRUN_IMAGE_PYRAMID_8 then
        (let p = to_Pyramid V d in Some [Img (py_input p) 0 False, Buf (py_output p) 92 True])
      else None)"

definition simcop_return_canny :: "remote_views \<Rightarrow> operands" where
  "simcop_return_canny V k d =
     (if simcop_sad k then
        (let p = to_SAD V d in Some [Img (sad_input p) 0 False, Img (sad_output p) 92 True, Img (sad_refImg p) 184 False])
      else if simcop_gradient k then
        (let p = to_Canny2dGradient V d in
         Some [Img (cg_input p) 0 False, Img (cg_outGradX p) 92 True, Img (cg_outGradY p) 184 True, Img (cg_outMag p) 276 True])
      else if simcop_suppression k then
        (let p = to_CannyNonMax V d in
         Some [Img (cn_inMag p) 0 False, Img (cn_inGradX p) 92 False, Img (cn_inGradY p) 184 False, Img (cn_output p) 276 True])
      else if simcop_hysteresis k then
        (let p = to_CannyHyst V d in Some [Img (ch_inMag p) 0 False, Img (ch_inEdgeMap p) 92 False, Img (ch_output p) 184 True])
      else if simcop_transform k then
        (let p = to_Transform V d in Some [Img (tr_input p) 0 False, Img (tr_output p) 92 True])
      else simcop_return_rest V k d)"

definition simcop_return :: "remote_views \<Rightarrow> operands" where
  "simcop_return V k d =
     (if simcop_nothing k then Some []
      else if k = DVP_KN_COPY then
        (let p = to_Transform V d in Some [Img (tr_input p) 0 False, Img (tr_output p) 92 True])
      else if simcop_morphology k then
        (let p = to_Morphology V d in
         Some ([Img (mo_input p) 0 False, Img (mo_output p) 92 True] @
           (if simcop_masked k then [Img (mo_mask p) 184 False] else [])))
      else if simcop_iir k then
        (let p = to_IIR V d in
         Some ([Img (iir_input p) 0 False, Img (iir_output p) 92 True, Img (iir_scratch p) 208 False] @
           map (\<lambda>(b, off). Bnd (bo_pData b) off) (zip (iir_bounds p) [184, 196])))
      else if simcop_threshold k then
        (let p = to_Threshold V d in Some [Img (th_input p) 0 False, Img (th_output p) 92 True])
      else if simcop_convolution k then
        (let p = to_ImageConvolution V d in Some [Img (conv_input p) 0 False, Img (conv_output p) 92 True, Img (conv_mask p) 184 False])
      else simcop_return_canny V k d)"

section \<open>The manager\<close>

definition simcop_restart_params :: "DVP_RPC_Parameter_t list" where
  "simcop_restart_params =
     [\<lparr>par_size = 2, par_data = 320, par_reserved = 0\<rparr>, \<lparr>par_size = 2, par_data = 240, par_reserved = 0\<rparr>,
      \<lparr>par_size = 4, par_data = 0x20000, par_reserved = 0\<rparr>]"

definition simcop_init_params :: "DVP_RPC_Parameter_t list" where
  "simcop_init_params =
     [\<lparr>par_size = 4, par_data = 320, par_reserved = 0\<rparr>, \<lparr>par_size = 4, par_data = 240, par_reserved = 0\<rparr>]"

definition DVP_KernelGraphManagerRestart_SIMCOP ::
  "'d driver \<Rightarrow> remote_env \<Rightarrow> DVP_RPC_t \<Rightarrow> DVP_RPC_Core_t \<Rightarrow> 'd \<Rightarrow> (DVP_RPC_Core_t \<times> 'd) option" where
  "DVP_KernelGraphManagerRestart_SIMCOP D E = remote_restart D E simcop_restart_params"

definition DVP_KernelGraphManager_SIMCOP ::
  "'d driver \<Rightarrow> remote_env \<Rightarrow> remote_views \<Rightarrow> ('d \<Rightarrow> DVP_KernelNode_t list) \<Rightarrow> u32 \<Rightarrow> DVP_KernelNode_t list option \<Rightarrow>
   u32 \<Rightarrow> u32 \<Rightarrow> remote_kgm \<Rightarrow> 'd \<Rightarrow> 'd remote_run call option" where
  "DVP_KernelGraphManager_SIMCOP D E V =
     remote_manager D (DVP_KernelGraphManagerRestart_SIMCOP D E) E (simcop_prepare V) (simcop_return V)"

definition DVP_KernelGraphManagerInit_SIMCOP ::
  "'d driver \<Rightarrow> remote_env \<Rightarrow> DVP_RPC_t option \<Rightarrow> DVP_RPC_Core_t option \<Rightarrow> remote_kgm \<Rightarrow> 'd \<Rightarrow>
   (bool \<times> remote_kgm \<times> 'd) option" where
  "DVP_KernelGraphManagerInit_SIMCOP D E =
     remote_init D (DVP_KernelGraphManagerRestart_SIMCOP D E) E simcop_init_params"

section \<open>Verification\<close>

definition simcop_threshold_8 :: "int \<Rightarrow> bool" where
  "simcop_threshold_8 k \<longleftrightarrow> k \<in>
    {DVP_KN_THR_GT2MAX_8, DVP_KN_THR_GT2THR_8, DVP_KN_THR_LE2MIN_8, DVP_KN_THR_LE2THR_8, DVP_KN_VRUN_THR_GT2MAX_8,
     DVP_KN_VRUN_THR_GT2THR_8, DVP_KN_VRUN_THR_LE2MIN_8, DVP_KN_VRUN_THR_LE2THR_8}"

definition simcop_threshold_16 :: "int \<Rightarrow> bool" where
  "simcop_threshold_16 k \<longleftrightarrow> k \<in>
    {DVP_KN_THR_GT2MAX_16, DVP_KN_THR_GT2THR_16, DVP_KN_THR_LE2MIN_16, DVP_KN_THR_LE2THR_16, DVP_KN_VRUN_THR_GT2MAX_16,
     DVP_KN_VRUN_THR_GT2THR_16, DVP_KN_VRUN_THR_LE2MIN_16, DVP_KN_VRUN_THR_LE2THR_16}"

definition simcop_nonmax :: "int \<Rightarrow> bool" where
  "simcop_nonmax k \<longleftrightarrow> k \<in>
    {DVP_KN_NONMAXSUPPRESS_3x3_S16, DVP_KN_NONMAXSUPPRESS_5x5_S16, DVP_KN_NONMAXSUPPRESS_7x7_S16,
     DVP_KN_VRUN_NONMAXSUPPRESS_3x3_S16, DVP_KN_VRUN_NONMAXSUPPRESS_5x5_S16, DVP_KN_VRUN_NONMAXSUPPRESS_7x7_S16}"

definition simcop_sobel_8 :: "int \<Rightarrow> bool" where
  "simcop_sobel_8 k \<longleftrightarrow> k \<in>
    {DVP_KN_SOBEL_3x3_8s, DVP_KN_SOBEL_3x3_8, DVP_KN_SOBEL_5x5_8s, DVP_KN_SOBEL_5x5_8, DVP_KN_SOBEL_7x7_8s,
     DVP_KN_SOBEL_7x7_8, DVP_KN_VRUN_SOBEL_3x3_8s, DVP_KN_VRUN_SOBEL_3x3_8, DVP_KN_VRUN_SOBEL_5x5_8s,
     DVP_KN_VRUN_SOBEL_5x5_8, DVP_KN_VRUN_SOBEL_7x7_8s, DVP_KN_VRUN_SOBEL_7x7_8}"

definition simcop_sobel_16 :: "int \<Rightarrow> bool" where
  "simcop_sobel_16 k \<longleftrightarrow> k \<in>
    {DVP_KN_SOBEL_3x3_16s, DVP_KN_SOBEL_3x3_16, DVP_KN_SOBEL_5x5_16s, DVP_KN_SOBEL_5x5_16, DVP_KN_SOBEL_7x7_16s,
     DVP_KN_SOBEL_7x7_16, DVP_KN_VRUN_SOBEL_3x3_16s, DVP_KN_VRUN_SOBEL_3x3_16, DVP_KN_VRUN_SOBEL_5x5_16s,
     DVP_KN_VRUN_SOBEL_5x5_16, DVP_KN_VRUN_SOBEL_7x7_16s, DVP_KN_VRUN_SOBEL_7x7_16}"

text \<open>An image that does not have the alignment of its buffer, the multiples of stride, width and height, and one of the colours.\<close>

definition unfit :: "u32 \<Rightarrow> DVP_Image_t \<Rightarrow> u32 \<Rightarrow> u32 \<Rightarrow> u32 \<Rightarrow> u32 \<Rightarrow> u32 list \<Rightarrow> u32 \<Rightarrow> bool option" where
  "unfit mt im a s w h colors n = map_option Not (DVP_Image_Validate mt (Some im) a s w h (Some colors) n)"

definition larger :: "DVP_Image_t \<Rightarrow> DVP_Image_t \<Rightarrow> bool option list" where
  "larger a b = [Some (width a > width b), Some (height a > height b)]"

text \<open>The usual check of a kernel with one input and one output; \<open>w\<close> is the multiple of the width.\<close>

definition unfit_pair :: "u32 \<Rightarrow> DVP_Image_t \<Rightarrow> DVP_Image_t \<Rightarrow> u32 \<Rightarrow> u32 list \<Rightarrow> u32 list \<Rightarrow> bool option" where
  "unfit_pair mt a b w ca cb =
     any_bad ([unfit mt a 16 16 w 2 ca (of_nat (length ca)), unfit mt b 16 16 w 2 cb (of_nat (length cb))] @ larger a b)"

text \<open>Two tests one after the other, each of which can set the error of the node.\<close>

definition either_bad :: "bool option \<Rightarrow> bool option \<Rightarrow> bool option" where
  "either_bad x y = do { a \<leftarrow> x; b \<leftarrow> y; Some (a \<or> b) }"

text \<open>The cases of the switch: the outer option is \<open>None\<close> for a kernel that it does not know.\<close>

definition simcop_check_rest :: "u32 \<Rightarrow> remote_views \<Rightarrow> int \<Rightarrow> u8 list \<Rightarrow> bool option option" where
  "simcop_check_rest mt V k d =
     (if k \<in> {DVP_KN_LDC_AFFINE_TRANSFORM, DVP_KN_LDC_DISTORTION_CORRECTION, DVP_KN_LDC_DISTORTION_AND_AFFINE} then
        (let p = to_Ldc V d; cs = [FOURCC_UYVY, FOURCC_NV12] in
         Some (either_bad (any_bad [unfit mt (ldc_input p) 16 16 16 2 cs 2, unfit mt (ldc_output p) 16 16 16 2 cs 2])
           (Some (k \<noteq> DVP_KN_LDC_AFFINE_TRANSFORM \<and> \<not> DVP_Buffer_Validate mt (Some (ldc_ldcLut p))))))
      else if k = DVP_KN_VRUN_HARRIS_CORNERS then
        (let p = to_HarrisCorners V d in
         Some (any_bad ([unfit mt (hc_input p) 16 16 16 2 [FOURCC_Y800] 1, unfit mt (hc_tempBuf1 p) 16 16 16 2 [FOURCC_Y16] 1,
           unfit mt (hc_tempBuf2 p) 16 16 16 2 [FOURCC_Y16] 1, unfit mt (hc_tempBuf3 p) 16 16 16 2 [FOURCC_Y16] 1,
           unfit mt (hc_tempBuf4 p) 16 16 16 2 [FOURCC_Y16] 1, unfit mt (hc_output p) 16 16 16 2 [FOURCC_Y800] 1] @
           larger (hc_input p) (hc_output p))))
      else if k = DVP_KN_VRUN_HARRIS_SCORE_7x7 then
        (let p = to_Harris V d in
         Some (any_bad [unfit mt (ha_input p) 16 16 16 2 [FOURCC_Y800] 1, unfit mt (ha_harrisScore p) 16 16 16 2 [FOURCC_Y16] 1]))
      else if k = DVP_KN_VRUN_BLOCK_MAXIMA then
        (let p = to_BlockMaxima V d in
         Some (any_bad [unfit mt (bm_input p) 16 16 32 2 [FOURCC_Y16] 1, unfit mt (bm_blockMaximaX p) 16 16 32 2 [FOURCC_Y16] 1,
           unfit mt (bm_blockMaximaY p) 16 16 32 2 [FOURCC_Y16] 1, unfit mt (bm_blockMaximaMAX p) 16 16 32 2 [FOURCC_Y16] 1]))
      else if k = DVP_KN_VRUN_NMS_STEP1 then
        (let p = to_NMSStep1 V d in
         Some (any_bad [unfit mt (nms_X p) 16 16 16 2 [FOURCC_Y16] 1, unfit mt (nms_Y p) 16 16 16 2 [FOURCC_Y16] 1,
           unfit mt (nms_Dst p) 16 16 16 2 [FOURCC_Y800] 1]))
      else if simcop_pyramid k then
        (let p = to_Transform V d; a = tr_input p; b = tr_output p in
         Some (any_bad [unfit mt a 16 16 32 2 [FOURCC_Y800] 1, unfit mt b 16 16 16 2 [FOURCC_Y800] 1,
           Some (width a > width b * 2), Some (height a > height b * 2)]))
      else if k = DVP_KN_VRUN_IMAGE_PYRAMID_8 then
        (let p = to_Pyramid V d; a = py_input p in
         Some (any_bad [unfit mt a 16 16 128 2 [FOURCC_Y800] 1, Some (\<not> DVP_Buffer_Validate mt (Some (py_output p))),
           Some (buf_numBytes (py_output p) < width a * height a * 21 div 64)]))
      else None)"

definition simcop_check_convert :: "u32 \<Rightarrow> remote_views \<Rightarrow> int \<Rightarrow> u8 list \<Rightarrow> bool option option" where
  "simcop_check_convert mt V k d =
     (let p = to_Transform V d; a = tr_input p; b = tr_output p; pair = unfit_pair mt a b 32 in
      if simcop_sobel_8 k then Some (pair [FOURCC_Y800] [FOURCC_Y800])
      else if simcop_sobel_16 k then Some (pair [FOURCC_Y16] [FOURCC_Y16])
      else if k \<in> {DVP_KN_XYXY_TO_Y800, DVP_KN_VRUN_XYXY_TO_Y800} then Some (pair [FOURCC_UYVY, FOURCC_VYUY] [FOURCC_Y800])
      else if k \<in> {DVP_KN_INTEGRAL_IMAGE_8, DVP_KN_VRUN_INTEGRAL_IMAGE_8} then
        Some (either_bad (pair [FOURCC_Y800] [FOURCC_Y32]) (Some (width a > 2049 \<or> height a > 819)))
      else if k \<in> {DVP_KN_UYVY_TO_YUV444p, DVP_KN_VRUN_UYVY_TO_YUV444p} then Some (pair [FOURCC_UYVY] [FOURCC_YV24, FOURCC_YU24])
      else if k \<in> {DVP_KN_UYVY_TO_RGBp, DVP_KN_VRUN_UYVY_TO_RGBp} then Some (pair [FOURCC_UYVY] [FOURCC_RGBP])
      else if k \<in> {DVP_KN_UYVY_TO_YUV420p, DVP_KN_VRUN_UYVY_TO_YUV420p} then Some (pair [FOURCC_UYVY] [FOURCC_IYUV, FOURCC_YV12])
      else if k \<in> {DVP_KN_NV12_TO_YUV444p, DVP_KN_VRUN_NV12_TO_YUV444p} then
        Some (any_bad [unfit mt a 16 16 32 2 [FOURCC_NV12] 1, unfit mt b 16 16 32 2 [FOURCC_YV24, FOURCC_YU24] 2,
          Some (width a > width b * 2), Some (height a > height b * 2)])
      else if k \<in> {DVP_KN_YUV444p_TO_RGBp, DVP_KN_VRUN_YUV444p_TO_RGBp} then Some (pair [FOURCC_YU24, FOURCC_YV24] [FOURCC_RGBP])
      else simcop_check_rest mt V k d)"

definition simcop_check_canny :: "u32 \<Rightarrow> remote_views \<Rightarrow> int \<Rightarrow> u8 list \<Rightarrow> bool option option" where
  "simcop_check_canny mt V k d =
     (if simcop_convolution k then
        (let p = to_ImageConvolution V d in
         Some (any_bad ([unfit mt (conv_input p) 16 16 32 2 [FOURCC_Y800] 1, unfit mt (conv_output p) 16 16 32 2 [FOURCC_Y800] 1,
           unfit mt (conv_mask p) 4 1 1 1 [FOURCC_Y800] 1] @ larger (conv_input p) (conv_output p))))
      else if simcop_sad k then
        (let p = to_SAD V d in
         Some (any_bad ([unfit mt (sad_input p) 16 16 32 2 [FOURCC_Y800] 1, unfit mt (sad_output p) 16 16 32 2 [FOURCC_Y800] 1,
           unfit mt (sad_refImg p) 16 8 8 2 [FOURCC_Y800] 1] @ larger (sad_input p) (sad_output p))))
      else if simcop_gradient k then
        (let p = to_Canny2dGradient V d in
         Some (any_bad ([unfit mt (cg_input p) 16 16 16 2 [FOURCC_Y800] 1, unfit mt (cg_outGradX p) 16 16 16 2 [FOURCC_Y16] 1,
           unfit mt (cg_outGradY p) 16 16 16 2 [FOURCC_Y16] 1, unfit mt (cg_outMag p) 16 16 16 2 [FOURCC_Y16] 1] @
           larger (cg_input p) (cg_outGradX p) @ larger (cg_input p) (cg_outGradY p) @ larger (cg_input p) (cg_outMag p))))
      else if simcop_suppression k then
        (let p = to_CannyNonMax V d in
         Some (any_bad ([unfit mt (cn_inMag p) 16 16 32 2 [FOURCC_Y16] 1, unfit mt (cn_inGradX p) 16 16 32 2 [FOURCC_Y16] 1,
           unfit mt (cn_inGradY p) 16 16 32 2 [FOURCC_Y16] 1, unfit mt (cn_output p) 16 16 32 2 [FOURCC_Y800] 1] @
           larger (cn_inMag p) (cn_output p) @ larger (cn_inGradX p) (cn_output p) @ larger (cn_inGradY p) (cn_output p))))
      else if simcop_hysteresis k then
        (let p = to_CannyHyst V d in
         Some (any_bad ([unfit mt (ch_inMag p) 16 16 32 2 [FOURCC_Y16] 1, unfit mt (ch_inEdgeMap p) 16 16 32 2 [FOURCC_Y800] 1,
           unfit mt (ch_output p) 16 16 32 2 [FOURCC_Y800] 1] @ larger (ch_inMag p) (ch_output p) @ larger (ch_inEdgeMap p) (ch_output p))))
      else simcop_check_convert mt V k d)"

definition simcop_check :: "u32 \<Rightarrow> remote_views \<Rightarrow> int \<Rightarrow> u8 list \<Rightarrow> bool option option" where
  "simcop_check mt V k d =
     (if simcop_nothing k then Some (Some False)
      else if k = DVP_KN_COPY then
        (let p = to_Transform V d; a = tr_input p; b = tr_output p in
         Some (any_bad ([unfit mt a 1 1 1 1 [color b] 1, unfit mt b 1 1 1 1 [color a] 1] @ larger a b)))
      else if simcop_morphology k then
        (let p = to_Morphology V d in
         Some (either_bad (unfit_pair mt (mo_input p) (mo_output p) 32 [FOURCC_Y800] [FOURCC_Y800])
           (if simcop_masked k then unfit mt (mo_mask p) 4 1 1 1 [FOURCC_Y800] 1 else Some False)))
      else if simcop_iir k then
        (let p = to_IIR V d in
         Some (any_bad ([unfit mt (iir_input p) 16 16 16 2 [FOURCC_Y800] 1, unfit mt (iir_output p) 16 16 16 2 [FOURCC_Y800] 1,
           unfit mt (iir_scratch p) 16 16 16 2 [FOURCC_Y800] 1] @ larger (iir_input p) (iir_output p))))
      else if simcop_threshold_8 k then
        (let p = to_Threshold V d in Some (unfit_pair mt (th_input p) (th_output p) 32 [FOURCC_Y800] [FOURCC_Y800]))
      else if simcop_threshold_16 k then
        (let p = to_Threshold V d in Some (unfit_pair mt (th_input p) (th_output p) 32 [FOURCC_Y16] [FOURCC_Y16]))
      else if simcop_nonmax k then
        (let p = to_Threshold V d in
         Some (either_bad (unfit_pair mt (th_input p) (th_output p) 16 [FOURCC_Y16] [FOURCC_Y800])
           (Some (width (th_input p) >
             (if k \<in> {DVP_KN_NONMAXSUPPRESS_7x7_S16, DVP_KN_VRUN_NONMAXSUPPRESS_7x7_S16} then 768 else 992)))))
      else simcop_check_canny mt V k d)"

text \<open>One round of the loop: the error of the node is set, and a success counted.\<close>

definition simcop_verify_node ::
  "u32 \<Rightarrow> remote_views \<Rightarrow> u32 \<Rightarrow> u32 \<times> DVP_KernelNode_t list \<Rightarrow> (u32 \<times> DVP_KernelNode_t list) option" where
  "simcop_verify_node mt V n s =
     (case s of (verified, nodes) \<Rightarrow> do {
        node \<leftarrow> nth_chk nodes (unat n);
        err \<leftarrow> (case simcop_check mt V (kernel node) (n_data node) of
                   None \<Rightarrow> Some DVP_ERROR_NOT_IMPLEMENTED
                 | Some bad \<Rightarrow> map_option (\<lambda>b. if b then INVALID_PARAMETER_code else SUCCESS_code) bad);
        nodes' \<leftarrow> upd_chk nodes (unat n) (node\<lparr>n_error := err\<rparr>);
        Some (if err = SUCCESS_code then verified + 1 else verified, nodes') })"

definition DVP_KernelGraphManagerVerify_SIMCOP ::
  "u32 \<Rightarrow> remote_views \<Rightarrow> DVP_KernelNode_t list \<Rightarrow> u32 \<Rightarrow> u32 \<Rightarrow> (u32 \<times> DVP_KernelNode_t list) option" where
  "DVP_KernelGraphManagerVerify_SIMCOP mt V nodes start num =
     for_range (unat start) (unat (start + num) - unat start) (simcop_verify_node mt V) (0, nodes)"

end
