(* ===== verification/Dvp_Dsp.thy ===== *)
theory Dvp_Dsp
  imports Dvp_RemoteKgm Dvp_Cpu
begin

text \<open>
  The manager of the DSP, \<open>source/dvp/dvp_kgm_dsp/dvp_kgm_dsp.c\<close>, with \<open>DVP_USE_DSPLIB\<close> and \<open>DVP_USE_DEI\<close> defined. The headers of the other
  libraries it can be built with (VLIB, IMGLIB, RVM, ORB, TISMO) are not in the repository, so their cases are not modelled.
\<close>

section \<open>The table of kernels\<close>

definition dsp_kernels :: "DVP_CoreFunction_t list" where
  "dsp_kernels = map (\<lambda>k. \<lparr>cf_kernel = k, cf_load = 0, cf_shift = None, cf_shift_func = None\<rparr>)
     [DVP_KN_NOOP, DVP_KN_COPY, DVP_KN_DSP_ADD16, DVP_KN_DSP_ADD32, DVP_KN_DSP_AUTOCORR16, DVP_KN_DSP_BITEXP32,
      DVP_KN_DSP_BLKESWAP16, DVP_KN_DSP_BLKESWAP32, DVP_KN_DSP_BLKESWAP64, DVP_KN_DSP_BLKMOVE, DVP_KN_DSP_DOTPRODSQR,
      DVP_KN_DSP_DOTPROD, DVP_KN_DSP_FFT_16x16, DVP_KN_DSP_FFT_16x16R, DVP_KN_DSP_FFT_16x16_IMRE, DVP_KN_DSP_FFT_16x32,
      DVP_KN_DSP_FFT_32x32, DVP_KN_DSP_FFT_32x32s, DVP_KN_DSP_FIR_CPLX, DVP_KN_DSP_FIR_HM4x4, DVP_KN_DSP_FIR_GEN,
      DVP_KN_DSP_FIR_HM17_RA8x8, DVP_KN_DSP_FIR_LMS2, DVP_KN_DSP_FIR_R4, DVP_KN_DSP_FIR_R8, DVP_KN_DSP_FIR_HM16_RM8A8x8,
      DVP_KN_DSP_FIR_SYM, DVP_KN_DSP_IFFT_16x16, DVP_KN_DSP_IFFT_16x16_IMRE, DVP_KN_DSP_IFFT_16x32, DVP_KN_DSP_IFFT_32x32,
      DVP_KN_DSP_IIR, DVP_KN_DSP_IIR_LAT, DVP_KN_DSP_IIR_SS, DVP_KN_DSP_MUL, DVP_KN_DSP_MUL_CPLX, DVP_KN_DSP_MAT_TRANS,
      DVP_KN_DSP_MAXIDX, DVP_KN_DSP_MAXVAL, DVP_KN_DSP_MINVAL, DVP_KN_DSP_MINERROR, DVP_KN_DSP_MUL32, DVP_KN_DSP_NEG32,
      DVP_KN_DSP_RECIP16, DVP_KN_DSP_VECSUMSQ, DVP_KN_DSP_W_VEC, DVP_KN_GEN_TWIDDLE_FFT_16X16,
      DVP_KN_GEN_TWIDDLE_FFT_16X16_IMRE, DVP_KN_GEN_TWIDDLE_FFT_16X32, DVP_KN_GEN_TWIDDLE_FFT_32x32,
      DVP_KN_GEN_TWIDDLE_IFFT_16X16, DVP_KN_GEN_TWIDDLE_IFFT_16X16_IMRE, DVP_KN_DEI_DEINTERLACER]"

definition DVP_GetSupportedKernels_DSP :: "nat \<times> DVP_CoreFunction_t list" where
  "DVP_GetSupportedKernels_DSP = (length dsp_kernels, dsp_kernels)"

definition DVP_GetSupportedRemoteCalls_DSP :: u32 where "DVP_GetSupportedRemoteCalls_DSP = 3"

definition DVP_GetSupportedRemoteCore_DSP :: int where "DVP_GetSupportedRemoteCore_DSP = 0"

definition DVP_GetMaximumLoad_DSP :: u32 where "DVP_GetMaximumLoad_DSP = 466"

section \<open>Preparing\<close>

text \<open>
  The fields of \<open>DVP_DSPFunc\<close> are 28 bytes each: \<open>input0\<close>, \<open>input1\<close>, \<open>twoway\<close>, \<open>output0\<close>, \<open>output1\<close>. Each part of the switch hands the
  kernels it does not know to the next one.
\<close>

definition dsp_prepare_matrix :: "remote_views \<Rightarrow> operands" where
  "dsp_prepare_matrix V k d =
     (let p = to_DSPFunc V d; m = to_MatMul V d in
      if k \<in> {DVP_KN_DSP_MUL, DVP_KN_DSP_MUL_CPLX} then
        Some [Buf (mm_input0 m) 0 True, Buf (mm_input1 m) 28 True, Buf (mm_output0 m) 56 True]
      else if k = DVP_KN_DSP_MAT_TRANS then Some [Buf (df_input0 p) 0 True, Buf (df_output0 p) 84 True]
      else if k \<in> {DVP_KN_DSP_MAXIDX, DVP_KN_DSP_MAXVAL, DVP_KN_DSP_MINVAL} then Some [Buf (df_input0 p) 0 True]
      else if k = DVP_KN_DSP_MINERROR then Some [Buf (df_input0 p) 0 True, Buf (df_input1 p) 28 True]
      else if k = DVP_KN_DSP_MUL32 then Some [Buf (df_input0 p) 0 True, Buf (df_input1 p) 28 True, Buf (df_output0 p) 84 True]
      else if k = DVP_KN_DSP_NEG32 then Some [Buf (df_input0 p) 0 True, Buf (df_output0 p) 84 True]
      else if k = DVP_KN_DSP_RECIP16 then Some [Buf (df_input0 p) 0 True, Buf (df_twoway p) 56 True, Buf (df_output0 p) 84 True]
      else if k = DVP_KN_DSP_VECSUMSQ then Some [Buf (df_input0 p) 0 True]
      else if k = DVP_KN_DSP_W_VEC then Some [Buf (df_input0 p) 0 True, Buf (df_input1 p) 28 True, Buf (df_output0 p) 84 True]
      else if k = DVP_KN_GEN_TWIDDLE_FFT_16X16 then Some [Buf (df_input0 p) 0 True]
      else if k = DVP_KN_GEN_TWIDDLE_FFT_16X16_IMRE then Some [Buf (df_input0 p) 0 True]
      else if k = DVP_KN_GEN_TWIDDLE_FFT_16X32 then Some [Buf (df_input0 p) 0 True]
      else if k = DVP_KN_GEN_TWIDDLE_FFT_32x32 then Some [Buf (df_input0 p) 0 True]
      else if k = DVP_KN_GEN_TWIDDLE_IFFT_16X16 then Some [Buf (df_input0 p) 0 True]
      else if k = DVP_KN_GEN_TWIDDLE_IFFT_16X16_IMRE then Some [Buf (df_input0 p) 0 True]
      else None)"

definition dsp_prepare_filter :: "remote_views \<Rightarrow> operands" where
  "dsp_prepare_filter V k d =
     (let p = to_DSPFunc V d; m = to_MatMul V d in
      if k \<in> {DVP_KN_DSP_FIR_CPLX, DVP_KN_DSP_FIR_HM4x4, DVP_KN_DSP_FIR_GEN, DVP_KN_DSP_FIR_HM17_RA8x8, DVP_KN_DSP_FIR_R4,
         DVP_KN_DSP_FIR_R8, DVP_KN_DSP_FIR_HM16_RM8A8x8, DVP_KN_DSP_FIR_SYM} then
        Some [Buf (df_input0 p) 0 True, Buf (df_twoway p) 56 True, Buf (df_output0 p) 84 True]
      else if k = DVP_KN_DSP_FIR_LMS2 then Some [Buf (df_input0 p) 0 True, Buf (df_twoway p) 56 True]
      else if k \<in> {DVP_KN_DSP_IFFT_16x16, DVP_KN_DSP_IFFT_16x16_IMRE, DVP_KN_DSP_IFFT_16x32, DVP_KN_DSP_IFFT_32x32} then
        Some [Buf (df_input0 p) 0 True, Buf (df_twoway p) 56 True, Buf (df_output0 p) 84 True]
      else if k = DVP_KN_DSP_IIR then
        Some [Buf (df_input0 p) 0 True, Buf (df_input1 p) 28 True, Buf (df_output1 p) 112 True, Buf (df_twoway p) 56 True, Buf (df_output0 p) 84 True]
      else if k = DVP_KN_DSP_IIR_LAT then
        Some [Buf (df_input0 p) 0 True, Buf (df_output0 p) 84 True, Buf (df_input1 p) 28 True, Buf (df_twoway p) 56 True]
      else if k = DVP_KN_DSP_IIR_SS then Some [Buf (df_input0 p) 0 True, Buf (df_input1 p) 28 True]
      else dsp_prepare_matrix V k d)"

definition dsp_prepare_vector :: "remote_views \<Rightarrow> operands" where
  "dsp_prepare_vector V k d =
     (let p = to_DSPFunc V d; m = to_MatMul V d in
      if k \<in> {DVP_KN_DSP_ADD16, DVP_KN_DSP_ADD32} then
        Some [Buf (df_input0 p) 0 True, Buf (df_input1 p) 28 True, Buf (df_output0 p) 84 True]
      else if k = DVP_KN_DSP_AUTOCORR16 then Some [Buf (df_input0 p) 0 True, Buf (df_output0 p) 84 True]
      else if k = DVP_KN_DSP_BITEXP32 then Some [Buf (df_input0 p) 0 True]
      else if k = DVP_KN_DSP_BLKESWAP16 then Some [Buf (df_input0 p) 0 True, Buf (df_output0 p) 84 True]
      else if k = DVP_KN_DSP_BLKESWAP32 then Some [Buf (df_input0 p) 0 True, Buf (df_output0 p) 84 True]
      else if k = DVP_KN_DSP_BLKESWAP64 then Some [Buf (df_input0 p) 0 True, Buf (df_output0 p) 84 True]
      else if k = DVP_KN_DSP_BLKMOVE then Some [Buf (df_input0 p) 0 True, Buf (df_output0 p) 84 True]
      else if k = DVP_KN_DSP_DOTPRODSQR then Some [Buf (df_input0 p) 0 True, Buf (df_input1 p) 28 True, Buf (df_output0 p) 84 True]
      else if k = DVP_KN_DSP_DOTPROD then Some [Buf (df_input0 p) 0 True, Buf (df_input1 p) 28 True]
      else if k = DVP_KN_DSP_FFT_16x16 then Some [Buf (df_input0 p) 0 True, Buf (df_twoway p) 56 True, Buf (df_output0 p) 84 True]
      else if k = DVP_KN_DSP_FFT_16x16R then Some [Buf (df_input0 p) 0 True, Buf (df_twoway p) 56 True, Buf (df_output0 p) 84 True]
      else if k = DVP_KN_DSP_FFT_16x16_IMRE then Some [Buf (df_input0 p) 0 True, Buf (df_twoway p) 56 True, Buf (df_output0 p) 84 True]
      else if k = DVP_KN_DSP_FFT_16x32 then Some [Buf (df_input0 p) 0 True, Buf (df_twoway p) 56 True, Buf (df_output0 p) 84 True]
      else if k = DVP_KN_DSP_FFT_32x32 then Some [Buf (df_input0 p) 0 True, Buf (df_twoway p) 56 True, Buf (df_output0 p) 84 True]
      else if k = DVP_KN_DSP_FFT_32x32s then Some [Buf (df_input0 p) 0 True, Buf (df_twoway p) 56 True, Buf (df_output0 p) 84 True]
      else dsp_prepare_filter V k d)"

definition dsp_prepare :: "remote_views \<Rightarrow> operands" where
  "dsp_prepare V k d =
     (if k = DVP_KN_NOOP then Some []
      else if k = DVP_KN_COPY then
        (let p = to_Transform V d in Some [Img (tr_input p) 0 True, Img (tr_output p) 92 False])
      else if k = DVP_KN_DEI_DEINTERLACER then
        (let p = to_Deinterlacer V d in
         Some ((if de_phy_virt_flag p = 0
                then [Img (de_phy_fld_in_current p) 0 True, Img (de_phy_fld_in_prev p) 92 True] else []) @
           [Buf (de_phy_luma_d0 p) 184 True, Buf (de_phy_luma_d1 p) 212 True, Buf (de_phy_luma_d2 p) 240 True]))
      else dsp_prepare_vector V k d)"

section \<open>Returning\<close>

definition dsp_return_matrix :: "remote_views \<Rightarrow> operands" where
  "dsp_return_matrix V k d =
     (let p = to_DSPFunc V d; m = to_MatMul V d in
      if k = DVP_KN_DSP_MAT_TRANS then Some [Buf (df_input0 p) 0 False, Buf (df_output0 p) 84 True]
      else if k \<in> {DVP_KN_DSP_MAXIDX, DVP_KN_DSP_MAXVAL, DVP_KN_DSP_MINVAL} then Some [Buf (df_input0 p) 0 False]
      else if k = DVP_KN_DSP_MINERROR then Some [Buf (df_input0 p) 0 False, Buf (df_input1 p) 28 False]
      else if k = DVP_KN_DSP_MUL32 then Some [Buf (df_input0 p) 0 False, Buf (df_input1 p) 28 False, Buf (df_output0 p) 84 True]
      else if k = DVP_KN_DSP_NEG32 then Some [Buf (df_input0 p) 0 False, Buf (df_output0 p) 84 True]
      else if k = DVP_KN_DSP_RECIP16 then Some [Buf (df_input0 p) 0 False, Buf (df_twoway p) 56 True, Buf (df_output0 p) 84 True]
      else if k = DVP_KN_DSP_VECSUMSQ then Some [Buf (df_input0 p) 0 False]
      else if k = DVP_KN_DSP_W_VEC then Some [Buf (df_input0 p) 0 False, Buf (df_input1 p) 28 False, Buf (df_output0 p) 84 True]
      else if k = DVP_KN_GEN_TWIDDLE_FFT_16X16 then Some [Buf (df_input0 p) 0 False]
      else if k = DVP_KN_GEN_TWIDDLE_FFT_16X16_IMRE then Some [Buf (df_input0 p) 0 False]
      else if k = DVP_KN_GEN_TWIDDLE_FFT_16X32 then Some [Buf (df_input0 p) 0 False]
      else if k = DVP_KN_GEN_TWIDDLE_FFT_32x32 then Some [Buf (df_input0 p) 0 False]
      else if k = DVP_KN_GEN_TWIDDLE_IFFT_16X16 then Some [Buf (df_input0 p) 0 False]
      else if k = DVP_KN_GEN_TWIDDLE_IFFT_16X16_IMRE then Some [Buf (df_input0 p) 0 False]
      else None)"

definition dsp_return_filter :: "remote_views \<Rightarrow> operands" where
  "dsp_return_filter V k d =
     (let p = to_DSPFunc V d; m = to_MatMul V d in
      if k \<in> {DVP_KN_DSP_MUL, DVP_KN_DSP_MUL_CPLX} then
        Some [Buf (mm_input0 m) 0 False, Buf (mm_input1 m) 28 False, Buf (mm_output0 m) 56 True]
      else if k \<in> {DVP_KN_DSP_FIR_CPLX, DVP_KN_DSP_FIR_HM4x4, DVP_KN_DSP_FIR_GEN, DVP_KN_DSP_FIR_HM17_RA8x8, DVP_KN_DSP_FIR_R4,
         DVP_KN_DSP_FIR_R8, DVP_KN_DSP_FIR_HM16_RM8A8x8, DVP_KN_DSP_FIR_SYM} then
        Some [Buf (df_input0 p) 0 False, Buf (df_twoway p) 56 False, Buf (df_output0 p) 84 True]
      else if k = DVP_KN_DSP_FIR_LMS2 then Some [Buf (df_input0 p) 0 False, Buf (df_twoway p) 56 False]
      else if k \<in> {DVP_KN_DSP_IFFT_16x16, DVP_KN_DSP_IFFT_16x16_IMRE, DVP_KN_DSP_IFFT_16x32, DVP_KN_DSP_IFFT_32x32} then
        Some [Buf (df_input0 p) 0 False, Buf (df_twoway p) 56 False, Buf (df_output0 p) 84 True]
      else if k = DVP_KN_DSP_IIR then
        Some [Buf (df_input0 p) 0 False, Buf (df_input1 p) 28 False, Buf (df_twoway p) 56 False, Buf (df_output0 p) 84 True, Buf (df_output1 p) 112 True]
      else if k = DVP_KN_DSP_IIR_LAT then
        Some [Buf (df_input0 p) 0 False, Buf (df_input1 p) 28 False, Buf (df_twoway p) 56 False, Buf (df_output0 p) 84 True]
      else if k = DVP_KN_DSP_IIR_SS then Some [Buf (df_input0 p) 0 False, Buf (df_input1 p) 28 False]
      else dsp_return_matrix V k d)"

definition dsp_return_vector :: "remote_views \<Rightarrow> operands" where
  "dsp_return_vector V k d =
     (let p = to_DSPFunc V d; m = to_MatMul V d in
      if k \<in> {DVP_KN_DSP_ADD16, DVP_KN_DSP_ADD32} then
        Some [Buf (df_input0 p) 0 False, Buf (df_input1 p) 28 False, Buf (df_output0 p) 84 True]
      else if k = DVP_KN_DSP_AUTOCORR16 then Some [Buf (df_input0 p) 0 False, Buf (df_output0 p) 84 True]
      else if k = DVP_KN_DSP_BITEXP32 then Some [Buf (df_input0 p) 0 False]
      else if k = DVP_KN_DSP_BLKESWAP16 then Some [Buf (df_input0 p) 0 False, Buf (df_output0 p) 84 True]
      else if k = DVP_KN_DSP_BLKESWAP32 then Some [Buf (df_input0 p) 0 False, Buf (df_output0 p) 84 True]
      else if k = DVP_KN_DSP_BLKESWAP64 then Some [Buf (df_input0 p) 0 False, Buf (df_output0 p) 84 True]
      else if k = DVP_KN_DSP_BLKMOVE then Some [Buf (df_input0 p) 0 False, Buf (df_output0 p) 84 True]
      else if k = DVP_KN_DSP_DOTPRODSQR then Some [Buf (df_input0 p) 0 False, Buf (df_input1 p) 28 False, Buf (df_output0 p) 84 True]
      else if k = DVP_KN_DSP_DOTPROD then Some [Buf (df_input0 p) 0 False, Buf (df_input1 p) 28 False]
      else if k = DVP_KN_DSP_FFT_16x16 then Some [Buf (df_input0 p) 0 False, Buf (df_twoway p) 56 False, Buf (df_output0 p) 84 True]
      else if k = DVP_KN_DSP_FFT_16x16R then Some [Buf (df_input0 p) 0 False, Buf (df_twoway p) 56 False, Buf (df_output0 p) 84 True]
      else if k = DVP_KN_DSP_FFT_16x16_IMRE then Some [Buf (df_input0 p) 0 False, Buf (df_twoway p) 56 False, Buf (df_output0 p) 84 True]
      else if k = DVP_KN_DSP_FFT_16x32 then Some [Buf (df_input0 p) 0 False, Buf (df_twoway p) 56 False, Buf (df_output0 p) 84 True]
      else if k = DVP_KN_DSP_FFT_32x32 then Some [Buf (df_input0 p) 0 False, Buf (df_twoway p) 56 False, Buf (df_output0 p) 84 True]
      else if k = DVP_KN_DSP_FFT_32x32s then Some [Buf (df_input0 p) 0 False, Buf (df_twoway p) 56 False, Buf (df_output0 p) 84 True]
      else dsp_return_filter V k d)"

definition dsp_return :: "remote_views \<Rightarrow> operands" where
  "dsp_return V k d =
     (if k = DVP_KN_NOOP then Some []
      else if k = DVP_KN_COPY then
        (let p = to_Transform V d in Some [Img (tr_input p) 0 False, Img (tr_output p) 92 True])
      else if k = DVP_KN_DEI_DEINTERLACER then
        (let p = to_Deinterlacer V d in
         Some ((if de_phy_virt_flag p = 0
                then [Img (de_phy_fld_in_current p) 0 True, Img (de_phy_fld_in_prev p) 92 True] else []) @
           [Buf (de_phy_luma_d0 p) 184 True, Buf (de_phy_luma_d1 p) 212 True, Buf (de_phy_luma_d2 p) 240 True]))
      else dsp_return_vector V k d)"

section \<open>The manager\<close>

definition dsp_init_params :: "DVP_RPC_Parameter_t list" where
  "dsp_init_params =
     [\<lparr>par_size = 2, par_data = 320, par_reserved = 0\<rparr>, \<lparr>par_size = 2, par_data = 240, par_reserved = 0\<rparr>,
      \<lparr>par_size = 4, par_data = 0x20000, par_reserved = 0\<rparr>]"

definition DVP_KernelGraphManagerRestart_DSP ::
  "'d driver \<Rightarrow> remote_env \<Rightarrow> DVP_RPC_t \<Rightarrow> DVP_RPC_Core_t \<Rightarrow> 'd \<Rightarrow> (DVP_RPC_Core_t \<times> 'd) option" where
  "DVP_KernelGraphManagerRestart_DSP D E = remote_restart D E dsp_init_params"

definition DVP_KernelGraphManager_DSP ::
  "'d driver \<Rightarrow> remote_env \<Rightarrow> remote_views \<Rightarrow> ('d \<Rightarrow> DVP_KernelNode_t list) \<Rightarrow> u32 \<Rightarrow> DVP_KernelNode_t list option \<Rightarrow>
   u32 \<Rightarrow> u32 \<Rightarrow> remote_kgm \<Rightarrow> 'd \<Rightarrow> 'd remote_run call option" where
  "DVP_KernelGraphManager_DSP D E V =
     remote_manager D (DVP_KernelGraphManagerRestart_DSP D E) E (dsp_prepare V) (dsp_return V)"

definition DVP_KernelGraphManagerInit_DSP ::
  "'d driver \<Rightarrow> remote_env \<Rightarrow> DVP_RPC_t option \<Rightarrow> DVP_RPC_Core_t option \<Rightarrow> remote_kgm \<Rightarrow> 'd \<Rightarrow>
   (bool \<times> remote_kgm \<times> 'd) option" where
  "DVP_KernelGraphManagerInit_DSP D E = remote_init D (DVP_KernelGraphManagerRestart_DSP D E) E dsp_init_params"

section \<open>Verification\<close>

text \<open>Every node passes, whatever its kernel and its operands.\<close>

definition DVP_KernelGraphManagerVerify_DSP ::
  "DVP_KernelNode_t list \<Rightarrow> u32 \<Rightarrow> u32 \<Rightarrow> (u32 \<times> DVP_KernelNode_t list) option" where
  "DVP_KernelGraphManagerVerify_DSP nodes start num = do {
     nodes' \<leftarrow> for_range (unat start) (unat (start + num) - unat start)
       (\<lambda>n ns. do { node \<leftarrow> nth_chk ns (unat n); upd_chk ns (unat n) (node\<lparr>n_error := SUCCESS_code\<rparr>) }) nodes;
     Some (num, nodes') }"

end
