(* ===== verification/Dvp_RemoteRun.thy ===== *)
theory Dvp_RemoteRun
  imports Dvp_RemoteKgm
begin

text \<open>
  What running nodes on a remote core does, in terms of the map of associated memory of \<open>Dvp_Rpc\<close>: the message the driver gets and
  the cache operations around it, for any pair of switches.
\<close>

section \<open>The pointers of an operand\<close>

text \<open>
  The place of each pointer in the data region, its value, the argument \<open>cacheOp\<close>, and whether the remote core gets a file descriptor
  for it or the raw handle.
\<close>

definition fd_memory :: "u32 \<Rightarrow> bool" where
  "fd_memory mt \<longleftrightarrow> mt \<in> {DVP_MTYPE_MPUCACHED_1DTILED, DVP_MTYPE_MPUNONCACHED_1DTILED,
     DVP_MTYPE_MPUNONCACHED_2DTILED, DVP_MTYPE_DISPLAY_2DTILED}"

definition image_pointer :: "DVP_Image_t \<Rightarrow> u32 \<Rightarrow> bool \<Rightarrow> nat \<Rightarrow> u32 \<times> u32 \<times> bool \<times> bool" where
  "image_pointer im off c p = (off + 4 * of_nat p, pBuffer im ! p, c, fd_memory (memType im))"

fun operand_pointers :: "operand \<Rightarrow> (u32 \<times> u32 \<times> bool \<times> bool) list" where
  "operand_pointers (Img im off c) = map (image_pointer im off c) [0..<unat (planes im)]"
| "operand_pointers (Buf b off c) = [(off, buf_pData b, c, True)]"
| "operand_pointers (Bnd p off) = (if p = 0 then [] else [(off, p, True, True)])"

text \<open>Every pointer is the start of an associated block whose handle has a file descriptor.\<close>

definition shared_pointer :: "(u32 \<Rightarrow> (u32 \<times> u32) option) \<Rightarrow> (u32 \<Rightarrow> u32 option) \<Rightarrow> u32 \<Rightarrow> bool" where
  "shared_pointer A fd_at p = (case A p of None \<Rightarrow> False | Some (_, h) \<Rightarrow> fd_at h \<noteq> None)"

fun operand_shape :: "operand \<Rightarrow> bool" where
  "operand_shape (Img im off c) = (unat (planes im) \<le> length (pBuffer im))"
| "operand_shape _ = True"

definition operand_shared :: "(u32 \<Rightarrow> (u32 \<times> u32) option) \<Rightarrow> (u32 \<Rightarrow> u32 option) \<Rightarrow> operand \<Rightarrow> bool" where
  "operand_shared A fd_at x \<longleftrightarrow> operand_shape x \<and> list_all (\<lambda>(_, p, _, _). shared_pointer A fd_at p) (operand_pointers x)"

definition translation_of ::
  "(u32 \<Rightarrow> (u32 \<times> u32) option) \<Rightarrow> (u32 \<Rightarrow> u32 option) \<Rightarrow> u32 \<Rightarrow> u32 \<times> u32 \<times> bool \<times> bool \<Rightarrow> DVP_RPC_PointerTranslation_t" where
  "translation_of A fd_at base = (\<lambda>(off, p, c, descriptor).
     \<lparr>xl_index = 0, xl_offset = base + off, xl_base = p, xl_cacheops = c,
      xl_reserved = (if descriptor then the (fd_at (snd (the (A p)))) else snd (the (A p)))\<rparr>)"

text \<open>What is flushed for an operand before a call, and invalidated after it.\<close>

definition plane_flush :: "DVP_Image_t \<Rightarrow> bool \<Rightarrow> nat \<Rightarrow> cache_op list" where
  "plane_flush im c p = (if image_cached im \<and> c \<and> skipCacheOpFlush im = 0
     then [Flush (pBuffer im ! p) (DVP_Image_PlaneSize (Some im) (of_nat p)) (memType im)] else [])"

definition plane_invalidate :: "DVP_Image_t \<Rightarrow> bool \<Rightarrow> nat \<Rightarrow> cache_op list" where
  "plane_invalidate im c p = (if image_cached im \<and> c \<and> skipCacheOpInval im = 0
     then [Invalidate (pBuffer im ! p) (DVP_Image_PlaneSize (Some im) (of_nat p)) (memType im)] else [])"

fun operand_flushes :: "operand \<Rightarrow> cache_op list" where
  "operand_flushes (Img im off c) = concat (map (plane_flush im c) [0..<unat (planes im)])"
| "operand_flushes (Buf b off c) = (if buffer_cached b \<and> c \<and> buf_skipCacheOpFlush b = 0
     then [Flush (buf_pData b) (buf_numBytes b) (buf_memType b)] else [])"
| "operand_flushes (Bnd p off) = []"

fun operand_invalidates :: "operand \<Rightarrow> cache_op list" where
  "operand_invalidates (Img im off c) = concat (map (plane_invalidate im c) [0..<unat (planes im)])"
| "operand_invalidates (Buf b off c) = (if buffer_cached b \<and> c \<and> buf_skipCacheOpInval b = 0
     then [Invalidate (buf_pData b) (buf_numBytes b) (buf_memType b)] else [])"
| "operand_invalidates (Bnd p off) = []"

section \<open>Preparing and returning\<close>

lemma add_translation_eq:
  "add_translation x ts = (if Suc (length ts) \<le> 1024 then Some (ts @ [x]) else None)"
  by (simp add: add_translation_def DVP_MAX_TRANSLATIONS_def Suc_le_eq)

lemma shared_handle:
  assumes "rpc_repr r A" and "shared_pointer A fd_at p"
  obtains e h fd f where "A p = Some (e, h)" "fd_at h = Some fd" "hndl_hash r = Some f" "fph_get fph_hash f p = Some (1, h)"
    "p \<noteq> 0" "dvp_rpc_get_handle fd_at (Some r) p = Some fd"
proof -
  obtain e h fd where a: "A p = Some (e, h)" "fd_at h = Some fd"
    using assms(2) by (auto simp: shared_pointer_def split: option.splits)
  obtain f l xs where f: "hndl_hash r = Some f" "A 0 = None" "\<forall>a \<in> set xs. fst (spans r a) < snd (spans r a)"
      and ranges: "\<forall>p e. (\<exists>h. A p = Some (e, h)) \<longleftrightarrow> (p, e) \<in> spans r ` set xs"
      and get: "\<forall>p. p \<noteq> 0 \<longrightarrow> (case A p of Some (_, h) \<Rightarrow> fph_get fph_hash f p = Some (1, h)
        | None \<Rightarrow> \<exists>c. fph_get fph_hash f p = Some (c, 0))"
    using assms(1) unfolding rpc_repr_def by (elim exE conjE) (rule that; assumption)
  have "(p, e) \<in> spans r ` set xs" using ranges a(1) by blast
  then obtain b where b: "b \<in> set xs" "spans r b = (p, e)" by auto
  have "p < e" using bspec[OF f(3) b(1)] b(2) by simp
  have "p \<noteq> 0" using f(2) a(1) by auto
  have "dvp_rpc_get_handle fd_at (Some r) p = fd_at h" using rpc_handle_inside[OF assms(1) a(1)] \<open>p < e\<close> by simp
  then show thesis using that[OF a f(1)] spec[OF get, of p] a \<open>p \<noteq> 0\<close> by simp
qed

lemma prepare_plane_shared:
  assumes "rpc_repr r A" and "p < length (pBuffer im)" and "p < 2 ^ 32" and "shared_pointer A fd_at (pBuffer im ! p)"
  shows "prepare_plane fd_at r im c off (of_nat p) (ts, ops) =
     (if Suc (length ts) \<le> 1024
      then Some (ts @ [translation_of A fd_at base (image_pointer im (off - base) c p)], ops @ plane_flush im c p) else None)"
proof -
  have p: "unat (of_nat p :: u32) = p" using assms(3) by (simp add: unat_of_nat take_bit_nat_eq_self)
  from assms(1,4) obtain e h fd f where "A (pBuffer im ! p) = Some (e, h)" "fd_at h = Some fd" "hndl_hash r = Some f"
      "fph_get fph_hash f (pBuffer im ! p) = Some (1, h)"
    by (rule shared_handle)
  then show ?thesis using assms(2) p
    by (auto simp: prepare_plane_def add_translation_eq nth_chk_Some translation_of_def image_pointer_def plane_flush_def fd_memory_def)
qed

lemma prepare_planes_shared:
  assumes "rpc_repr r A" and "i + n \<le> length (pBuffer im)" and "i + n < 2 ^ 32"
    and "\<And>p. i \<le> p \<Longrightarrow> p < i + n \<Longrightarrow> shared_pointer A fd_at (pBuffer im ! p)" and "length ts \<le> 1024"
  shows "for_range i n (prepare_plane fd_at r im c off) (ts, ops) =
     (if length ts + n \<le> 1024
      then Some (ts @ map (\<lambda>p. translation_of A fd_at base (image_pointer im (off - base) c p)) [i..<i + n],
        ops @ concat (map (plane_flush im c) [i..<i + n])) else None)"
  using assms(2-5)
proof (induction n arbitrary: i ts ops)
  case (Suc n)
  have step: "prepare_plane fd_at r im c off (of_nat i) (ts, ops) =
      (if Suc (length ts) \<le> 1024
       then Some (ts @ [translation_of A fd_at base (image_pointer im (off - base) c i)], ops @ plane_flush im c i) else None)"
    using Suc.prems by (intro prepare_plane_shared[OF assms(1)]) auto
  show ?case
  proof (cases "Suc (length ts) \<le> 1024")
    case True
    have "for_range (Suc i) n (prepare_plane fd_at r im c off)
        (ts @ [translation_of A fd_at base (image_pointer im (off - base) c i)], ops @ plane_flush im c i) =
      (if Suc (length ts) + n \<le> 1024
       then Some ((ts @ [translation_of A fd_at base (image_pointer im (off - base) c i)]) @
           map (\<lambda>p. translation_of A fd_at base (image_pointer im (off - base) c p)) [Suc i..<Suc i + n],
         (ops @ plane_flush im c i) @ concat (map (plane_flush im c) [Suc i..<Suc i + n])) else None)"
      using Suc.IH[of "Suc i" "ts @ [translation_of A fd_at base (image_pointer im (off - base) c i)]" "ops @ plane_flush im c i"]
        Suc.prems True by simp
    then show ?thesis using True step by (simp add: upt_conv_Cons del: upt_Suc)
  qed (use step in simp)
qed simp

lemma prepare_operand_shared:
  assumes "rpc_repr r A" and "operand_shared A (en_fd_at E) x" and "length ts \<le> 1024"
  shows "prepare_operand E r base x (ts, ops) =
     (if length ts + length (operand_pointers x) \<le> 1024
      then Some (ts @ map (translation_of A (en_fd_at E) base) (operand_pointers x), ops @ operand_flushes x) else None)"
proof (cases x)
  case (Img im off c)
  have n: "unat (planes im) \<le> length (pBuffer im)" using assms(2) Img by (simp add: operand_shared_def)
  have sh: "shared_pointer A (en_fd_at E) (pBuffer im ! p)" if "p < unat (planes im)" for p
    using assms(2) Img that by (auto simp: operand_shared_def list_all_iff image_pointer_def)
  have "unat (planes im) < 2 ^ 32" by (rule order_less_le_trans[OF unsigned_less]) simp
  with n sh assms(3) show ?thesis
    using prepare_planes_shared[OF assms(1), of 0 "unat (planes im)" im "en_fd_at E" ts c "base + off" ops base]
    by (simp add: Img dvp_rpc_prepare_image_def comp_def)
next
  case (Buf b off c)
  have "shared_pointer A (en_fd_at E) (buf_pData b)" using assms(2) Buf by (simp add: operand_shared_def)
  with assms(1) obtain e h fd f where "A (buf_pData b) = Some (e, h)" "en_fd_at E h = Some fd" "hndl_hash r = Some f"
      "fph_get fph_hash f (buf_pData b) = Some (1, h)"
    by (rule shared_handle)
  then show ?thesis by (simp add: Buf dvp_rpc_prepare_buffer_def add_translation_eq translation_of_def)
next
  case (Bnd p off)
  show ?thesis
  proof (cases "p = 0")
    case False
    then have "shared_pointer A (en_fd_at E) p" using assms(2) Bnd by (simp add: operand_shared_def)
    with assms(1) obtain e h fd where "A p = Some (e, h)" "en_fd_at E h = Some fd"
        "dvp_rpc_get_handle (en_fd_at E) (Some r) p = Some fd"
      by (rule shared_handle)
    then show ?thesis using False by (simp add: Bnd prepare_bounds_def add_translation_eq translation_of_def)
  qed (use assms(3) in \<open>simp add: Bnd prepare_bounds_def\<close>)
qed

text \<open>All operands of a node, and all nodes: \<open>prep\<close> gives the operands of a node that it knows.\<close>

lemma prepare_operands_shared:
  assumes "rpc_repr r A" and "list_all (operand_shared A (en_fd_at E)) xs" and "length ts \<le> 1024"
  shows "prepare_operands E r base xs (ts, ops) =
     (let ys = map (translation_of A (en_fd_at E) base) (concat (map operand_pointers xs)) in
      if length ts + length ys \<le> 1024 then Some (ts @ ys, ops @ concat (map operand_flushes xs)) else None)"
  using assms(2,3)
proof (induction xs arbitrary: ts ops)
  case (Cons x xs)
  have x: "prepare_operand E r base x (ts, ops) =
     (if length ts + length (operand_pointers x) \<le> 1024
      then Some (ts @ map (translation_of A (en_fd_at E) base) (operand_pointers x), ops @ operand_flushes x) else None)"
    using Cons.prems by (intro prepare_operand_shared[OF assms(1)]) simp_all
  show ?case
  proof (cases "length ts + length (operand_pointers x) \<le> 1024")
    case True
    then show ?thesis using x Cons.prems Cons.IH by (simp add: Let_def add.assoc)
  qed (use x in \<open>simp add: Let_def\<close>)
qed (simp add: Let_def)

definition node_operands :: "operands \<Rightarrow> DVP_KernelNode_t \<Rightarrow> operand list" where
  "node_operands prep node = (case prep (kernel node) (n_data node) of None \<Rightarrow> [] | Some xs \<Rightarrow> xs)"

definition node_shared ::
  "(u32 \<Rightarrow> (u32 \<times> u32) option) \<Rightarrow> (u32 \<Rightarrow> u32 option) \<Rightarrow> operands \<Rightarrow> DVP_KernelNode_t \<Rightarrow> bool" where
  "node_shared A fd_at prep node \<longleftrightarrow> prep (kernel node) (n_data node) \<noteq> None \<and>
     list_all (operand_shared A fd_at) (node_operands prep node)"

definition nodes_translations ::
  "(u32 \<Rightarrow> (u32 \<times> u32) option) \<Rightarrow> (u32 \<Rightarrow> u32 option) \<Rightarrow> operands \<Rightarrow> DVP_KernelNode_t list \<Rightarrow> nat \<Rightarrow> nat \<Rightarrow> DVP_RPC_Translation_t" where
  "nodes_translations A fd_at prep nodes i n =
     concat (map (\<lambda>k. map (translation_of A fd_at (node_base k)) (concat (map operand_pointers (node_operands prep (nodes ! k)))))
       [i..<i + n])"

definition nodes_flushes :: "operands \<Rightarrow> DVP_KernelNode_t list \<Rightarrow> nat \<Rightarrow> nat \<Rightarrow> cache_op list" where
  "nodes_flushes prep nodes i n = concat (map (\<lambda>k. concat (map operand_flushes (node_operands prep (nodes ! k)))) [i..<i + n])"

definition nodes_invalidates :: "operands \<Rightarrow> DVP_KernelNode_t list \<Rightarrow> nat \<Rightarrow> nat \<Rightarrow> cache_op list" where
  "nodes_invalidates ret nodes i n =
     concat (map (\<lambda>k. concat (map operand_invalidates (node_operands ret (nodes ! k)))) [i..<i + n])"

lemmas nodes_lists = nodes_translations_def nodes_flushes_def nodes_invalidates_def

lemma nodes_lists_0 [simp]:
  "nodes_translations A fd_at prep nodes i 0 = []" "nodes_flushes prep nodes i 0 = []" "nodes_invalidates prep nodes i 0 = []"
  by (simp_all add: nodes_lists)

lemma nodes_lists_Suc:
  "nodes_translations A fd_at prep nodes i (Suc n) =
     map (translation_of A fd_at (node_base i)) (concat (map operand_pointers (node_operands prep (nodes ! i)))) @
     nodes_translations A fd_at prep nodes (Suc i) n"
  "nodes_flushes prep nodes i (Suc n) = concat (map operand_flushes (node_operands prep (nodes ! i))) @ nodes_flushes prep nodes (Suc i) n"
  "nodes_invalidates prep nodes i (Suc n) =
     concat (map operand_invalidates (node_operands prep (nodes ! i))) @ nodes_invalidates prep nodes (Suc i) n"
  by (simp_all add: nodes_lists upt_conv_Cons del: upt_Suc)

lemma prepare_nodes_shared:
  assumes "rpc_repr r A" and "i + n \<le> length nodes"
    and "\<And>k. i \<le> k \<Longrightarrow> k < i + n \<Longrightarrow> node_shared A (en_fd_at E) prep (nodes ! k)" and "length ts \<le> 1024"
  shows "prepare_nodes E r prep nodes i n (ts, ops) =
     (let ys = nodes_translations A (en_fd_at E) prep nodes i n in
      if length ts + length ys \<le> 1024 then Some (True, ts @ ys, ops @ nodes_flushes prep nodes i n) else None)"
  using assms(2-4)
proof (induction n arbitrary: i ts ops)
  case (Suc n)
  let ?xs = "node_operands prep (nodes ! i)"
  have node: "nth_chk nodes i = Some (nodes ! i)" using Suc.prems(1) by (simp add: nth_chk_Some)
  have sh: "node_shared A (en_fd_at E) prep (nodes ! i)" using Suc.prems(2)[of i] by simp
  then have known: "prep (kernel (nodes ! i)) (n_data (nodes ! i)) = Some ?xs"
    by (auto simp: node_shared_def node_operands_def split: option.splits)
  let ?ys = "map (translation_of A (en_fd_at E) (node_base i)) (concat (map operand_pointers ?xs))"
  have prep: "prepare_operands E r (node_base i) ?xs (ts, ops) =
      (if length ts + length ?ys \<le> 1024 then Some (ts @ ?ys, ops @ concat (map operand_flushes ?xs)) else None)"
    using prepare_operands_shared[OF assms(1), of E ?xs ts "node_base i" ops] sh Suc.prems(3)
    by (simp add: node_shared_def Let_def)
  show ?case
  proof (cases "length ts + length ?ys \<le> 1024")
    case True
    have "prepare_nodes E r prep nodes (Suc i) n (ts @ ?ys, ops @ concat (map operand_flushes ?xs)) =
       (let zs = nodes_translations A (en_fd_at E) prep nodes (Suc i) n in
        if length (ts @ ?ys) + length zs \<le> 1024
        then Some (True, (ts @ ?ys) @ zs, (ops @ concat (map operand_flushes ?xs)) @ nodes_flushes prep nodes (Suc i) n) else None)"
      using Suc.prems(1,2) True by (intro Suc.IH) simp_all
    then show ?thesis using True node known prep by (simp add: nodes_lists_Suc Let_def add.assoc del: map_concat)
  qed (use node known prep in \<open>simp add: nodes_lists_Suc Let_def\<close>)
qed (simp add: Let_def)

section \<open>Returning\<close>

lemma return_planes_eq:
  assumes "i + n \<le> length (pBuffer im)" and "i + n < 2 ^ 32"
  shows "for_range i n (return_plane im c) ops = Some (ops @ concat (map (plane_invalidate im c) [i..<i + n]))"
  using assms
proof (induction n arbitrary: i ops)
  case (Suc n)
  have "unat (of_nat i :: u32) = i" using Suc.prems(2) by (simp add: unat_of_nat take_bit_nat_eq_self)
  then have "return_plane im c (of_nat i) ops = Some (ops @ plane_invalidate im c i)"
    using Suc.prems(1) by (simp add: return_plane_def nth_chk_Some plane_invalidate_def dvp_rpc_mem_xlate_back_def)
  moreover have "for_range (Suc i) n (return_plane im c) (ops @ plane_invalidate im c i) =
      Some ((ops @ plane_invalidate im c i) @ concat (map (plane_invalidate im c) [Suc i..<Suc i + n]))"
    using Suc.prems by (intro Suc.IH) simp_all
  ultimately show ?case by (simp add: upt_conv_Cons del: upt_Suc)
qed simp

lemma return_operand_eq:
  "operand_shape x \<Longrightarrow> return_operand x ops = Some (ops @ operand_invalidates x)"
proof (cases x)
  case (Img im off c)
  moreover have "unat (planes im) < 2 ^ 32" by (rule order_less_le_trans[OF unsigned_less]) simp
  moreover assume "operand_shape x"
  ultimately show ?thesis using return_planes_eq[of 0 "unat (planes im)" im c ops] by (simp add: dvp_rpc_return_image_def)
qed (simp_all add: dvp_rpc_return_buffer_def dvp_rpc_mem_xlate_back_def)

lemma return_operands_eq:
  "list_all operand_shape xs \<Longrightarrow> return_operands xs ops = Some (ops @ concat (map operand_invalidates xs))"
  by (induction xs arbitrary: ops) (simp_all add: return_operand_eq)

lemma return_nodes_eq:
  assumes "i + n \<le> length nodes"
    and "\<And>k. i \<le> k \<Longrightarrow> k < i + n \<Longrightarrow> ret (kernel (nodes ! k)) (n_data (nodes ! k)) = Some (node_operands ret (nodes ! k)) \<and>
      list_all operand_shape (node_operands ret (nodes ! k))"
  shows "return_nodes ret nodes i n ops = Some (ops @ nodes_invalidates ret nodes i n)"
  using assms
proof (induction n arbitrary: i ops)
  case (Suc n)
  have "return_nodes ret nodes (Suc i) n ops' = Some (ops' @ nodes_invalidates ret nodes (Suc i) n)" for ops'
    using Suc.prems by (intro Suc.IH) simp_all
  then show ?case using Suc.prems(1) Suc.prems(2)[of i] by (simp add: nth_chk_Some return_operands_eq nodes_lists_Suc)
qed simp

end
