(* ===== verification/Dvp_Verifier.thy ===== *)
theory Dvp_Verifier
  imports Dvp_Kgb
begin

text \<open>
  The contract of the loops with which the managers verify nodes: a round looks at one node, sets its error, and counts it when it is
  good. Every manager with such a loop is an instance.
\<close>

section \<open>Nodes but for their errors\<close>

definition clear_error :: "DVP_KernelNode_t \<Rightarrow> DVP_KernelNode_t" where
  "clear_error node = node\<lparr>n_error := 0\<rparr>"

lemma clear_error_fields [simp]:
  "kernel (clear_error node) = kernel node" "n_data (clear_error node) = n_data node" "mgrIndex (clear_error node) = mgrIndex node"
  "clear_error (node\<lparr>n_error := err\<rparr>) = clear_error node"
  by (simp_all add: clear_error_def)

definition same_nodes :: "DVP_KernelNode_t list \<Rightarrow> DVP_KernelNode_t list \<Rightarrow> bool" where
  "same_nodes xs ys \<longleftrightarrow> map clear_error xs = map clear_error ys"

lemma same_nodes_refl [simp]: "same_nodes xs xs"
  by (simp add: same_nodes_def)

lemma same_nodes_trans: "same_nodes xs ys \<Longrightarrow> same_nodes ys zs \<Longrightarrow> same_nodes xs zs"
  by (simp add: same_nodes_def)

lemma same_nodes_length: "same_nodes xs ys \<Longrightarrow> length xs = length ys"
  unfolding same_nodes_def by (metis length_map)

lemma same_nodes_nth: "same_nodes xs ys \<Longrightarrow> k < length ys \<Longrightarrow> clear_error (xs ! k) = clear_error (ys ! k)"
  using same_nodes_length[of xs ys] unfolding same_nodes_def by (metis nth_map)

lemma same_nodes_kernel: "same_nodes xs ys \<Longrightarrow> map kernel xs = map kernel ys"
  unfolding same_nodes_def by (metis (no_types, lifting) clear_error_fields(1) list.map_comp list.map_cong0 comp_apply)

lemma same_nodes_mgrIndex: "same_nodes xs ys \<Longrightarrow> map mgrIndex xs = map mgrIndex ys"
  unfolding same_nodes_def by (metis (no_types, lifting) clear_error_fields(3) list.map_comp list.map_cong0 comp_apply)

lemma same_nodes_update: "same_nodes (ns[i := (ns ! i)\<lparr>n_error := err\<rparr>]) ns"
  by (cases "i < length ns") (simp_all add: same_nodes_def map_update list_update_same_conv not_less list_update_beyond)

section \<open>The contract\<close>

locale node_verifier =
  fixes round :: "u32 \<Rightarrow> u32 \<times> DVP_KernelNode_t list \<Rightarrow> (u32 \<times> DVP_KernelNode_t list) option"
    and good :: "DVP_KernelNode_t \<Rightarrow> bool"
  assumes round: "round i (v, ns) = Some (v', ns') \<Longrightarrow> unat i < length ns \<and>
      (\<exists>err. ns' = ns[unat i := (ns ! unat i)\<lparr>n_error := err\<rparr>]) \<and> (v' = v \<or> v' = v + 1 \<and> good (ns ! unat i))"
    and good_clear: "good (clear_error node) = good node"
begin

lemma loop:
  assumes "for_range i n round (v, ns) = Some (v', ns')" and "i + n \<le> 2 ^ 32"
  shows "\<exists>m \<le> n. v' = v + of_nat m \<and> same_nodes ns' ns \<and>
     (m = n \<longrightarrow> (\<forall>k. i \<le> k \<longrightarrow> k < i + n \<longrightarrow> k < length ns \<and> good (ns ! k)))"
  using assms
proof (induction n arbitrary: i v ns)
  case (Suc n)
  have i: "unat (of_nat i :: u32) = i" using Suc.prems(2) by (simp add: unat_of_nat take_bit_nat_eq_self)
  obtain v1 ns1 where s: "round (of_nat i) (v, ns) = Some (v1, ns1)" "for_range (Suc i) n round (v1, ns1) = Some (v', ns')"
    using Suc.prems(1) by (auto split: bind_splits)
  obtain err where err: "i < length ns" "ns1 = ns[i := (ns ! i)\<lparr>n_error := err\<rparr>]" "v1 = v \<or> v1 = v + 1 \<and> good (ns ! i)"
    using round[OF s(1)] i by auto
  have same: "same_nodes ns1 ns" using err(2) same_nodes_update by simp
  obtain m where m: "m \<le> n" "v' = v1 + of_nat m" "same_nodes ns' ns1"
      "m = n \<longrightarrow> (\<forall>k. Suc i \<le> k \<longrightarrow> k < Suc i + n \<longrightarrow> k < length ns1 \<and> good (ns1 ! k))"
    using Suc.IH[OF s(2)] Suc.prems(2) by auto
  have keep: "same_nodes ns' ns" using same_nodes_trans[OF m(3) same] .
  from err(3) show ?case
  proof
    assume "v1 = v"
    with m(1,2) keep show ?thesis by (intro exI[of _ m]) simp
  next
    assume v: "v1 = v + 1 \<and> good (ns ! i)"
    have "k < length ns \<and> good (ns ! k)" if "m = n" "i \<le> k" "k < i + Suc n" for k
    proof (cases "k = i")
      case False
      then have "k < length ns1 \<and> good (ns1 ! k)" using m(4) that by simp
      then show ?thesis using same_nodes_nth[OF same] same_nodes_length[OF same] good_clear by metis
    qed (use v err(1) in simp)
    with m(1,2) keep v show ?thesis by (intro exI[of _ "Suc m"]) simp
  qed
qed simp

text \<open>The functions of the managers: the count is at most the number of nodes, and when it is that number all nodes are good.\<close>

lemma result:
  assumes "for_range (unat start) (unat (start + num) - unat start) round (0, ns) = Some (v, ns')"
  shows "v \<le> num \<and> same_nodes ns' ns \<and>
    (v = num \<longrightarrow> (\<forall>k. unat start \<le> k \<longrightarrow> k < unat (start + num) \<longrightarrow> k < length ns \<and> good (ns ! k)))"
proof -
  let ?n = "unat (start + num) - unat start"
  have top: "unat (start + num) < 2 ^ 32" by (rule order_less_le_trans[OF unsigned_less]) simp
  moreover have "unat start < 2 ^ 32" by (rule order_less_le_trans[OF unsigned_less]) simp
  ultimately have "unat start + ?n \<le> 2 ^ 32" by simp
  from loop[OF assms this] obtain m where m: "m \<le> ?n" "v = of_nat m" "same_nodes ns' ns"
      "m = ?n \<longrightarrow> (\<forall>k. unat start \<le> k \<longrightarrow> k < unat start + ?n \<longrightarrow> k < length ns \<and> good (ns ! k))"
    by auto
  have "m < 2 ^ 32" using m(1) top by linarith
  then have v: "unat v = m" using m(2) by (simp add: unat_of_nat take_bit_nat_eq_self)
  have "unat (start + num) \<le> unat start + unat num" by (simp add: unat_word_ariths mod_less_eq_dividend)
  then have n: "?n \<le> unat num" by simp
  have all: "k < length ns \<and> good (ns ! k)" if "v = num" "unat start \<le> k" "k < unat (start + num)" for k
    using m(1,4) v n that by simp
  have "v \<le> num" using v n m(1) by (simp add: word_le_nat_alt)
  with m(3) all show ?thesis by blast
qed

end

end
