(* ===== verification/Dvp_RemoteSpec.thy ===== *)
theory Dvp_RemoteSpec
  imports Dvp_Simcop Dvp_Dsp Dvp_RemoteRun Dvp_Verifier
begin

text \<open>
  The managers of the remote cores: their tables agree, verified nodes are run with exactly the translations of their pointers, what an
  unknown kernel does, and what becomes of the channel when a core crashes.
\<close>

section \<open>The tables agree\<close>

lemmas simcop_labels = simcop_nothing_def simcop_morphology_def simcop_iir_def simcop_threshold_def simcop_convolution_def
  simcop_sad_def simcop_gradient_def simcop_suppression_def simcop_hysteresis_def simcop_transform_def simcop_distortion_def
  simcop_pyramid_def

lemmas simcop_prepares = simcop_prepare_def simcop_prepare_canny_def simcop_prepare_rest_def
lemmas simcop_returns = simcop_return_def simcop_return_canny_def simcop_return_rest_def
lemmas simcop_checks = simcop_check_def simcop_check_canny_def simcop_check_convert_def simcop_check_rest_def

definition simcop_listed :: "remote_views \<Rightarrow> int \<Rightarrow> bool" where
  "simcop_listed V k = list_ex (\<lambda>f. cf_kernel f = k) (simcop_kernels V)"

lemma simcop_prepare_listed: "simcop_prepare V k d = None \<longleftrightarrow> \<not> simcop_listed V k"
  by (simp add: simcop_listed_def simcop_kernels_def plain_def shifted_def shifted_by_mask_def simcop_prepares Let_def simcop_labels)

text \<open>An operand without its \<open>cacheOp\<close>, and that argument. A pointer to bounds always has it.\<close>

fun operand_place :: "operand \<Rightarrow> operand" where
  "operand_place (Img im off c) = Img im off False"
| "operand_place (Buf b off c) = Buf b off False"
| "operand_place (Bnd p off) = Bnd p off"

fun operand_cacheOp :: "operand \<Rightarrow> bool" where
  "operand_cacheOp (Img im off c) = c"
| "operand_cacheOp (Buf b off c) = c"
| "operand_cacheOp (Bnd p off) = True"

lemma simcop_places: "map_option (map operand_place) (simcop_prepare V k d) = map_option (map operand_place) (simcop_return V k d)"
  by (simp add: simcop_prepares simcop_returns Let_def comp_def case_prod_unfold)

text \<open>The places of operands that are neither flushed before the call nor invalidated after it, by their offset in the data region.\<close>

fun operand_at :: "operand \<Rightarrow> u32" where
  "operand_at (Img im off c) = off"
| "operand_at (Buf b off c) = off"
| "operand_at (Bnd p off) = off"

definition uncovered :: "operand list \<Rightarrow> operand list \<Rightarrow> u32 list" where
  "uncovered xs ys =
     map operand_at (filter (\<lambda>x. \<not> list_ex (\<lambda>y. operand_place y = operand_place x \<and> operand_cacheOp y) (xs @ ys)) xs)"

text \<open>The bounds of an IIR filter have no \<open>cacheOp\<close> that could be off.\<close>

lemma uncovered_bounds:
  assumes "\<And>z. z \<in> set zs \<Longrightarrow> \<exists>p off. z = Bnd p off"
  shows "uncovered (Img a 0 True # Img b 92 False # Img c 208 False # zs) (Img a 0 False # Img b 92 True # Img c 208 False # zs) = [208]"
proof -
  have "list_ex (\<lambda>y. operand_place y = operand_place z \<and> operand_cacheOp y) zs" if "z \<in> set zs" for z
    using that assms[OF that] by (auto simp: list_ex_iff intro!: bexI[of _ z])
  moreover have "\<not> list_ex (\<lambda>y. operand_place y = Img c 208 False \<and> operand_cacheOp y) zs"
    using assms by (force simp: list_ex_iff)
  ultimately show ?thesis by (simp add: uncovered_def filter_empty_conv)
qed

text \<open>What is left uncovered, part of the switch by part.\<close>

definition left_uncovered :: "operand list option \<Rightarrow> operand list option \<Rightarrow> u32 list option" where
  "left_uncovered p q = (case (p, q) of (Some xs, Some ys) \<Rightarrow> Some (uncovered xs ys) | _ \<Rightarrow> None)"

lemma left_uncovered_simps [simp]:
  "left_uncovered (Some xs) (Some ys) = Some (uncovered xs ys)" "left_uncovered None q = None"
  by (simp_all add: left_uncovered_def)

lemma left_uncovered_if: "left_uncovered (if c then p else p') (if c then q else q') = (if c then left_uncovered p q else left_uncovered p' q')"
  by simp

lemma left_uncovered_None:
  "map_option f p = map_option g q \<Longrightarrow> (p = None \<longleftrightarrow> \<not> b) \<Longrightarrow> left_uncovered p q = None \<longleftrightarrow> \<not> b"
  by (cases p; cases q) auto

lemma simcop_uncovered_rest:
  "left_uncovered (simcop_prepare_rest V k d) (simcop_return_rest V k d) \<in>
     {None, Some (if k = DVP_KN_VRUN_BLOCK_MAXIMA then [0] else [])}"
  unfolding simcop_prepare_rest_def simcop_return_rest_def Let_def left_uncovered_if
  by (simp add: uncovered_def simcop_labels)

lemma simcop_uncovered_canny:
  "left_uncovered (simcop_prepare_canny V k d) (simcop_return_canny V k d) \<in>
     {None, Some (if k = DVP_KN_VRUN_BLOCK_MAXIMA then [0] else [])}"
  using simcop_uncovered_rest[of V k d]
  unfolding simcop_prepare_canny_def simcop_return_canny_def Let_def left_uncovered_if
  by (cases "k = DVP_KN_VRUN_BLOCK_MAXIMA") (simp add: simcop_labels, simp add: uncovered_def)

lemma simcop_iir_label:
  "simcop_iir k \<Longrightarrow> \<not> simcop_nothing k \<and> k \<noteq> DVP_KN_COPY \<and> \<not> simcop_morphology k"
  by (auto simp: simcop_labels)

lemma simcop_uncovered_iir: "simcop_iir k \<Longrightarrow> left_uncovered (simcop_prepare V k d) (simcop_return V k d) = Some [208]"
  unfolding simcop_prepare_def simcop_return_def Let_def left_uncovered_if
  by (simp add: simcop_iir_label) (rule uncovered_bounds, auto)

lemma simcop_uncovered:
  "left_uncovered (simcop_prepare V k d) (simcop_return V k d) \<in>
     {None, Some (if simcop_iir k then [208] else if k = DVP_KN_VRUN_BLOCK_MAXIMA then [0] else [])}"
proof (cases "simcop_iir k")
  case False
  then show ?thesis using simcop_uncovered_canny[of V k d]
    unfolding simcop_prepare_def simcop_return_def Let_def left_uncovered_if
    by (cases "k = DVP_KN_VRUN_BLOCK_MAXIMA") (simp add: simcop_labels, simp add: uncovered_def)
qed (simp add: simcop_uncovered_iir)

lemma simcop_check_listed: "simcop_check mt V k d = None \<longleftrightarrow> \<not> simcop_listed V k"
  by (simp add: simcop_listed_def simcop_kernels_def plain_def shifted_def shifted_by_mask_def simcop_checks Let_def simcop_labels
    simcop_threshold_8_def simcop_threshold_16_def simcop_nonmax_def simcop_sobel_8_def simcop_sobel_16_def)

lemmas dsp_prepares = dsp_prepare_def dsp_prepare_vector_def dsp_prepare_filter_def dsp_prepare_matrix_def
lemmas dsp_returns = dsp_return_def dsp_return_vector_def dsp_return_filter_def dsp_return_matrix_def

definition dsp_listed :: "int \<Rightarrow> bool" where
  "dsp_listed k = list_ex (\<lambda>f. cf_kernel f = k) dsp_kernels"

lemma dsp_prepare_listed: "dsp_prepare V k d = None \<longleftrightarrow> \<not> dsp_listed k"
  by (simp add: dsp_listed_def dsp_kernels_def dsp_prepares Let_def)

lemma dsp_return_listed: "dsp_return V k d = None \<longleftrightarrow> \<not> dsp_listed k"
  by (simp add: dsp_listed_def dsp_kernels_def dsp_returns Let_def)

lemma dsp_places:
  "map_option (\<lambda>xs. mset (map operand_place xs)) (dsp_prepare V k d) = map_option (\<lambda>xs. mset (map operand_place xs)) (dsp_return V k d)"
  by (simp add: dsp_prepares dsp_returns Let_def add_mset_commute)

lemma dsp_uncovered: "left_uncovered (dsp_prepare V k d) (dsp_return V k d) \<in> {None, Some []}"
  unfolding left_uncovered_def by (simp add: dsp_prepares dsp_returns Let_def uncovered_def)

section \<open>Running nodes\<close>

text \<open>What the driver gets: the translations as they are sent, and the message that runs nodes \<open>start\<close> to \<open>start + num\<close> of the nodes
  at \<open>addr\<close>, in a block that starts at \<open>p\<close> and has the file descriptor \<open>fd\<close>.\<close>

definition sent_translation :: "DVP_RPC_PointerTranslation_t \<Rightarrow> omaprpc_param_translation_t" where
  "sent_translation x = \<lparr>pt_index = xl_index x, pt_offset = xl_offset x, pt_base = xl_base x,
     pt_cacheOps = (if xl_cacheops x then 1 else 0), pt_reserved = xl_reserved x\<rparr>"

definition exec_message :: "u32 \<Rightarrow> u32 \<Rightarrow> u32 \<Rightarrow> u32 \<Rightarrow> u32 \<Rightarrow> DVP_RPC_Translation_t \<Rightarrow> omaprpc_call_function_t" where
  "exec_message p addr fd start num ts =
     \<lparr>func_index = 2,
      fn_params =
        [\<lparr>pm_type = OMAPRPC_PARAM_TYPE_PTR, pm_size = (start + num) * 4096, pm_data = addr, pm_base = p, pm_reserved = fd\<rparr>,
         \<lparr>pm_type = OMAPRPC_PARAM_TYPE_ATOMIC, pm_size = 4, pm_data = start, pm_base = 0, pm_reserved = 0\<rparr>,
         \<lparr>pm_type = OMAPRPC_PARAM_TYPE_ATOMIC, pm_size = 4, pm_data = num, pm_base = 0, pm_reserved = 0\<rparr>],
      fn_translations = map sent_translation ts\<rparr>"

lemma remote_translations_sent:
  assumes "ps \<noteq> []" and "\<And>x. x \<in> set ts \<Longrightarrow> xl_index x = 0 \<and> readable (pm_data (hd ps) + xl_offset x)"
  shows "remote_translations readable ps ts = Some (map sent_translation ts)"
  using assms(2)
proof (induction ts)
  case (Cons x ts)
  then have "xl_index x = 0" "readable (pm_data (ps ! 0) + xl_offset x)" using assms(1) by (auto simp: hd_conv_nth)
  then show ?case using Cons assms(1) by (simp add: remote_translation_def sent_translation_def OMAPRPC_MAX_PARAMETERS_def)
qed simp

lemma nodes_translations_index: "x \<in> set (nodes_translations A fd_at prep nodes i n) \<Longrightarrow> xl_index x = 0"
  by (auto simp: nodes_translations_def translation_of_def)

text \<open>
  The circumstances of a run: the nodes at \<open>addr\<close> lie in an associated block that starts at \<open>p\<close> and has the file descriptor \<open>fd\<close>; the
  nodes of the section are known and their operands shared; the translations fit into the list; there is memory for the message.
  \<open>nodes_left\<close>: the nodes that the remote core leaves are still known.
\<close>

definition nodes_ready ::
  "(u32 \<Rightarrow> (u32 \<times> u32) option) \<Rightarrow> remote_env \<Rightarrow> operands \<Rightarrow> DVP_KernelNode_t list \<Rightarrow> u32 \<Rightarrow> u32 \<Rightarrow> u32 \<Rightarrow> nat \<Rightarrow> nat \<Rightarrow> bool" where
  "nodes_ready A E prep ns p fd addr i n \<longleftrightarrow>
     (case A p of None \<Rightarrow> False | Some (e, h) \<Rightarrow> p \<le> addr \<and> addr < e \<and> en_fd_at E h = Some fd) \<and> fd \<noteq> 0 \<and> en_memory E \<and>
     i + n \<le> length ns \<and> (\<forall>k. i \<le> k \<longrightarrow> k < i + n \<longrightarrow> node_shared A (en_fd_at E) prep (ns ! k)) \<and>
     length (nodes_translations A (en_fd_at E) prep ns i n) \<le> 1024 \<and>
     (\<forall>x \<in> set (nodes_translations A (en_fd_at E) prep ns i n). en_readable E (addr + xl_offset x))"

definition nodes_left :: "operands \<Rightarrow> DVP_KernelNode_t list \<Rightarrow> nat \<Rightarrow> nat \<Rightarrow> bool" where
  "nodes_left ret ns i n \<longleftrightarrow> i + n \<le> length ns \<and>
     (\<forall>k. i \<le> k \<longrightarrow> k < i + n \<longrightarrow> ret (kernel (ns ! k)) (n_data (ns ! k)) \<noteq> None \<and> list_all operand_shape (node_operands ret (ns ! k)))"

lemma node_operands_known: "prep (kernel node) (n_data node) \<noteq> None \<Longrightarrow> prep (kernel node) (n_data node) = Some (node_operands prep node)"
  by (auto simp: node_operands_def)

text \<open>The arguments of the message, whatever the channel then does with it.\<close>

lemma message_built:
  assumes "rpc_repr r A" and "nodes_ready A E prep ns p fd addr i n" and "ts = nodes_translations A (en_fd_at E) prep ns i n"
  shows "dvp_rpc_get_handle (en_fd_at E) (Some r) addr = Some fd"
    and "remote_params r (remote_exec_params addr fd start num) = Some (fn_params (exec_message p addr fd start num ts))"
    and "remote_translations (en_readable E) (fn_params (exec_message p addr fd start num ts)) ts = Some (map sent_translation ts)"
    and "prepare_nodes E r prep ns i n ([], []) = Some (True, ts, nodes_flushes prep ns i n)"
proof -
  obtain e h where block: "A p = Some (e, h)" "p \<le> addr" "addr < e" "en_fd_at E h = Some fd" "fd \<noteq> 0"
    using assms(2) by (auto simp: nodes_ready_def split: option.splits)
  show "dvp_rpc_get_handle (en_fd_at E) (Some r) addr = Some fd"
    using rpc_handle_inside[OF assms(1) block(1-3)] block(4) by simp
  obtain a where "btreelist_find (ranges r) (Some (dvp_mem_range_compare (spans r))) addr (range_nodes r) = Some (Some a)"
      "spans r a = (p, e)"
    using rpc_find[OF assms(1) block(1-3)] by blast
  then show "remote_params r (remote_exec_params addr fd start num) = Some (fn_params (exec_message p addr fd start num ts))"
    using block(5) by (simp add: remote_exec_params_def remote_param_def exec_message_def Let_def)
  show "remote_translations (en_readable E) (fn_params (exec_message p addr fd start num ts)) ts = Some (map sent_translation ts)"
    using assms(2,3) nodes_translations_index
    by (intro remote_translations_sent) (auto simp: exec_message_def nodes_ready_def)
  show "prepare_nodes E r prep ns i n ([], []) = Some (True, ts, nodes_flushes prep ns i n)"
    using prepare_nodes_shared[OF assms(1), of i n ns E prep "[]" "[]"] assms(2,3) by (simp add: nodes_ready_def)
qed

text \<open>A run, for any pair of switches and any outcome of the call.\<close>

lemma remote_run_with:
  fixes start num :: u32
  defines "n \<equiv> unat (start + num) - unat start"
  assumes "rpc_repr r A" and "kgm_rpc S = Some r" and "kgm_core S = Some c" and "coreLock S > 0"
    and "nodes_ready A E prep ns p fd addr (unat start) n"
    and "ts = nodes_translations A (en_fd_at E) prep ns (unat start) n"
    and "dvp_rpc_remote_execute D (dvp_rpc_restart_callback c (restart r)) True (en_readable E) (Some r) (Some c) 2
      (remote_exec_params addr fd start num) ts d = Some (status, c1, d1)"
    and left: "nodes_left ret (after d1) (unat start) n"
  shows "remote_manager D restart E prep ret after addr (Some ns) start num S d =
     Some (Returns \<lparr>rr_processed = if 0 \<le>s status then status else 0, rr_before = nodes_flushes prep ns (unat start) n,
       rr_after = nodes_invalidates ret (after d1) (unat start) n, rr_kgm = S\<lparr>kgm_core := c1\<rparr>, rr_driver = d1\<rparr>)"
proof -
  note built = message_built[OF assms(2,6,7)]
  have "return_nodes ret (after d1) (unat start) n [] = Some (nodes_invalidates ret (after d1) (unat start) n)"
    using left return_nodes_eq[of "unat start" n "after d1" ret "[]"] by (auto simp: nodes_left_def node_operands_known)
  moreover have "S\<lparr>coreLock := coreLock S - 1, kgm_core := c1, coreLock := Suc (coreLock S - 1)\<rparr> = S\<lparr>kgm_core := c1\<rparr>"
    using assms(5) by (cases S) simp
  moreover have "en_memory E" using assms(6) by (simp add: nodes_ready_def)
  ultimately show ?thesis
    using assms(3-5,8) built(1,4) by (simp add: remote_manager_def n_def Let_def)
qed

text \<open>A call whose system calls succeed.\<close>

lemma execute_passes:
  assumes "rpc_repr r A" and "nodes_ready A E prep ns p fd addr i n" and "ts = nodes_translations A (en_fd_at E) prep ns i n"
    and "channel c = Live ch" and "2 < num_funcs ch"
    and "drv_write D (device ch) (exec_message p addr fd start num ts) d = (w, e1, d1)" and "0 \<le> w"
    and "drv_read D (device ch) d1 = (rd, e2, status, d2)" and "0 \<le> rd"
  shows "dvp_rpc_remote_execute D rf True (en_readable E) (Some r) (Some c) 2 (remote_exec_params addr fd start num) ts d =
     Some (status, Some c, d2)"
proof -
  note built = message_built(2,3)[OF assms(1-3), of start num]
  have "omaprpc_call D rf (Live ch) \<lparr>func_index = 2, fn_params = fn_params (exec_message p addr fd start num ts),
      fn_translations = map sent_translation ts\<rparr> True d = Some (True, status, Live ch, d2)"
    using assms(5-9) by (simp add: omaprpc_call_def exec_message_def)
  then show ?thesis using built assms(4)
    by (simp add: dvp_rpc_remote_execute_def remote_exec_params_def OMAPRPC_MAX_PARAMETERS_def)
qed

text \<open>A call that finds the remote core crashed: the channel that \<open>omaprpc_restart\<close> leaves.\<close>

lemma execute_crashes:
  assumes "rpc_repr r A" and "nodes_ready A E prep ns p fd addr i n" and "ts = nodes_translations A (en_fd_at E) prep ns i n"
    and "channel c = Live ch" and "2 < num_funcs ch" and "\<not> in_restart ch"
    and "drv_write D (device ch) (exec_message p addr fd start num ts) d = (w, e1, d1)" and "w < 0" and "OMAPRPC_RESTART_CONDITION e1"
    and "omaprpc_restart D rf (Live ch) d1 = Some (q, d2)"
  shows "dvp_rpc_remote_execute D rf True (en_readable E) (Some r) (Some c) 2 (remote_exec_params addr fd start num) ts d =
     Some (-1, Some (c\<lparr>channel := q\<rparr>), d2)"
proof -
  note built = message_built(2,3)[OF assms(1-3), of start num]
  have "omaprpc_call D rf (Live ch) \<lparr>func_index = 2, fn_params = fn_params (exec_message p addr fd start num ts),
      fn_translations = map sent_translation ts\<rparr> True d = Some (False, 0, q, d2)"
    using assms(5-10) by (simp add: omaprpc_call_def exec_message_def maybe_restart_def)
  then show ?thesis using built assms(4)
    by (simp add: dvp_rpc_remote_execute_def remote_exec_params_def OMAPRPC_MAX_PARAMETERS_def)
qed

text \<open>The restart itself. The call inside it runs on the reopened device and cannot change the channel, whatever comes of it.\<close>

lemma restart_call:
  assumes "channel c = Live ch" and "in_restart ch" and "length ps \<le> 10" and "\<forall>q \<in> set ps. par_reserved q = 0"
  shows "\<exists>d'. remote_restart D E ps r c d = Some (c, d')"
proof -
  have "\<exists>qs. remote_params r ps = Some qs" using assms(4)
    by (induction ps) (auto simp: remote_param_def Let_def)
  then obtain qs where qs: "remote_params r ps = Some qs" by blast
  obtain passed status d' where
      "omaprpc_call D (\<lambda>_ _. None) (Live ch) \<lparr>func_index = 0, fn_params = qs, fn_translations = []\<rparr> True d =
        Some (passed, status, Live ch, d')"
    using call_in_restart[OF assms(2), where D = D and restart_f = "\<lambda>_ _. None" and d = d and want = True
      and func = "\<lparr>func_index = 0, fn_params = qs, fn_translations = []\<rparr>"] by blast
  moreover have "c\<lparr>channel := Live ch\<rparr> = c" using assms(1) by (cases c) simp
  ultimately show ?thesis using qs assms(1,3)
    by (cases "en_memory E") (simp_all add: remote_restart_def dvp_rpc_remote_execute_def OMAPRPC_MAX_PARAMETERS_def)
qed

lemma restart_reopens:
  assumes "channel c = Live ch" and "callback c" and "has_restart ch" and "\<not> in_restart ch"
    and "reopen D (dev_name ch) (unat (retries ch) - 1) (drv_close D (device ch) d) = (fd, d2)" and "0 < fd"
    and "drv_create D fd (create_name ch) d2 = (ret, d3)" and "0 \<le> ret"
    and "length ps \<le> 10" and "\<forall>q \<in> set ps. par_reserved q = 0"
  shows "\<exists>d4. omaprpc_restart D (dvp_rpc_restart_callback c (remote_restart D E ps r)) (Live ch) d =
     Some (Live (ch\<lparr>device := fd\<rparr>), d4)"
proof -
  let ?c = "c\<lparr>channel := Live (ch\<lparr>device := fd, in_restart := True\<rparr>)\<rparr>"
  obtain d4 where "remote_restart D E ps r ?c d3 = Some (?c, d4)"
    using restart_call[of ?c "ch\<lparr>device := fd, in_restart := True\<rparr>" ps D E r d3] assms(9,10) by auto
  moreover have "ch\<lparr>device := fd, in_restart := False\<rparr> = ch\<lparr>device := fd\<rparr>" using assms(4) by (cases ch) simp
  moreover have "(if retries ch = 0 then 1 else unat (retries ch)) - 1 = unat (retries ch) - 1" by simp
  ultimately show ?thesis using assms
    by (simp add: omaprpc_restart_def dvp_rpc_restart_callback_def Let_def)
qed

lemma restart_frees:
  assumes "has_restart ch" and "0 < num_funcs ch"
    and "reopen D (dev_name ch) (unat (retries ch) - 1) (drv_close D (device ch) d) = (fd, d2)" and "0 < fd"
    and "drv_create D fd (create_name ch) d2 = (ret, d3)" and "ret < 0"
  shows "\<exists>d4. omaprpc_restart D rf (Live ch) d = Some (Freed, d4)"
proof -
  have "(if retries ch = 0 then 1 else unat (retries ch)) - 1 = unat (retries ch) - 1" by simp
  then show ?thesis using assms by (simp add: omaprpc_restart_def omaprpc_close_def Let_def)
qed

lemma simcop_return_listed: "simcop_return V k d = None \<longleftrightarrow> \<not> simcop_listed V k"
  using simcop_places[of V k d] simcop_prepare_listed[of V k d] by (metis map_option_is_None)

section \<open>The lock\<close>

lemma prepare_nodes_known:
  assumes "\<And>k. i \<le> k \<Longrightarrow> k < i + n \<Longrightarrow> prep (kernel (nodes ! k)) (n_data (nodes ! k)) \<noteq> None"
    and "prepare_nodes E r prep nodes i n s = Some (known, s')"
  shows known
  using assms
proof (induction n arbitrary: i s)
  case (Suc n)
  have "prep (kernel (nodes ! i)) (n_data (nodes ! i)) \<noteq> None" using Suc.prems(1)[of i] by simp
  then obtain xs where "prep (kernel (nodes ! i)) (n_data (nodes ! i)) = Some xs" by blast
  with Suc.prems(2) obtain s1 where "prepare_nodes E r prep nodes (Suc i) n s1 = Some (known, s')"
    by (auto simp: nth_chk_def split: if_splits bind_splits)
  then show ?case using Suc.prems(1) by (intro Suc.IH[of "Suc i" s1]) simp_all
qed simp

lemma remote_manager_lock:
  assumes "remote_manager D restart E prep ret after addr (Some ns) start num S d = Some (Returns rr)"
    and "\<And>k. unat start \<le> k \<Longrightarrow> k < unat (start + num) \<Longrightarrow> prep (kernel (ns ! k)) (n_data (ns ! k)) \<noteq> None"
  shows "coreLock (rr_kgm rr) = coreLock S"
proof -
  have "prepare_nodes E r prep ns (unat start) (unat (start + num) - unat start) s \<noteq> Some (False, s')" for r s s'
    using assms(2) prepare_nodes_known[of "unat start" "unat (start + num) - unat start" prep ns E r s False s'] by fastforce
  then show ?thesis using assms(1)
    by (auto simp: remote_manager_def Let_def split: if_splits option.splits bind_splits)
qed

text \<open>Verification counts the nodes that pass, and changes nothing but their errors.\<close>

definition simcop_good :: "u32 \<Rightarrow> remote_views \<Rightarrow> DVP_KernelNode_t \<Rightarrow> bool" where
  "simcop_good mt V node \<longleftrightarrow> simcop_check mt V (kernel node) (n_data node) = Some (Some False)"

lemma simcop_good_listed: "simcop_good mt V node \<Longrightarrow> simcop_listed V (kernel node)"
  using simcop_check_listed[of mt V "kernel node" "n_data node"] by (simp add: simcop_good_def)

interpretation simcop_verifier: node_verifier "simcop_verify_node mt V" "simcop_good mt V" for mt V
proof
  fix i v ns v' ns'
  assume "simcop_verify_node mt V i (v, ns) = Some (v', ns')"
  then show "unat i < length ns \<and> (\<exists>err. ns' = ns[unat i := (ns ! unat i)\<lparr>n_error := err\<rparr>]) \<and>
      (v' = v \<or> v' = v + 1 \<and> simcop_good mt V (ns ! unat i))"
    by (auto simp: simcop_verify_node_def simcop_good_def nth_chk_def upd_chk_def split: if_splits option.splits bind_splits)
qed (simp add: simcop_good_def)

lemma simcop_verified_listed:
  assumes "DVP_KernelGraphManagerVerify_SIMCOP mt V ns start num = Some (num, ns')"
    and "unat start \<le> k" and "k < unat (start + num)"
  shows "k < length ns' \<and> simcop_listed V (kernel (ns' ! k))"
proof -
  have r: "same_nodes ns' ns" "k < length ns" "simcop_good mt V (ns ! k)"
    using simcop_verifier.result[OF assms(1)[unfolded DVP_KernelGraphManagerVerify_SIMCOP_def]] assms(2,3) by blast+
  then have "kernel (ns' ! k) = kernel (ns ! k)" using same_nodes_nth[OF r(1)] by (metis clear_error_fields(1))
  then show ?thesis using r same_nodes_length[OF r(1)] simcop_good_listed[OF r(3)] by simp
qed

end
