(* ===== verification/Dvp_ImageCopy.thy ===== *)
theory Dvp_ImageCopy
  imports Dvp_ImageMem
begin

text \<open>
  What the pixel-moving functions do: blocks of memory and lists of block copies, the rows of a patch,
  and the correctness of \<open>DVP_Image_Copy\<close> between images of one colour.
\<close>

section \<open>Blocks of memory\<close>

definition cells :: "u32 \<Rightarrow> nat \<Rightarrow> u32 set" where
  "cells a n = (\<lambda>i. a + of_nat i) ` {..<n}"

lemma cells_0 [simp]: "cells a 0 = {}"
  by (simp add: cells_def)

lemma cells_Suc: "cells a (Suc n) = insert a (cells (a + 1) n)"
  by (auto simp: cells_def image_iff lessThan_Suc_eq_insert_0 ac_simps)

lemma of_nat_u32_inj: "i < size_max \<Longrightarrow> j < size_max \<Longrightarrow> (of_nat i :: u32) = of_nat j \<Longrightarrow> i = j"
  by (metis unat_of_nat_u32)

lemma cells_first: "n < size_max \<Longrightarrow> a \<notin> cells (a + 1) n"
proof
  assume n: "n < size_max" and "a \<in> cells (a + 1) n"
  then obtain i where i: "i < n" "a = a + 1 + of_nat i" by (auto simp: cells_def)
  then have z: "(of_nat (Suc i) :: u32) = of_nat 0" by (simp add: add.assoc)
  have "Suc i = 0" using n i(1) by (intro of_nat_u32_inj[OF _ _ z]) simp_all
  then show False by simp
qed

lemma cells_interval: "unat a + n \<le> size_max \<Longrightarrow> b \<in> cells a n \<Longrightarrow> unat a \<le> unat b \<and> unat b < unat a + n"
proof -
  assume n: "unat a + n \<le> size_max" and "b \<in> cells a n"
  then obtain i where i: "i < n" "b = a + of_nat i" by (auto simp: cells_def)
  have k: "unat (of_nat i :: u32) = i" using n i(1) by (intro unat_of_nat_u32) simp
  have "unat b = unat a + i" using i n k by (simp add: unat_add_small)
  then show ?thesis using i(1) by simp
qed

lemma read_bytes_cong: "(\<And>b. b \<in> cells a n \<Longrightarrow> m' b = m b) \<Longrightarrow> read_bytes m' a n = read_bytes m a n"
  by (induction n arbitrary: a) (simp_all add: cells_Suc cong: Option.bind_cong)

lemma read_bytes_total: "cells a n \<subseteq> dom m \<Longrightarrow> \<exists>bs. read_bytes m a n = Some bs \<and> length bs = n"
proof (induction n arbitrary: a)
  case (Suc n)
  then have "cells (a + 1) n \<subseteq> dom m" "a \<in> dom m" by (simp_all add: cells_Suc)
  from Suc.IH[OF this(1)] this(2) show ?case by auto
qed simp

lemma write_bytes_spec:
  assumes "cells a (length bs) \<subseteq> dom m" "length bs \<le> size_max"
  shows "\<exists>m'. write_bytes a bs m = Some m' \<and> dom m' = dom m \<and> read_bytes m' a (length bs) = Some bs \<and>
    (\<forall>b. b \<notin> cells a (length bs) \<longrightarrow> m' b = m b)"
  using assms
proof (induction bs arbitrary: a m)
  case (Cons b bs)
  let ?m = "m(a \<mapsto> b)"
  have a: "m a \<noteq> None" using Cons.prems(1) by (auto simp: cells_Suc)
  have "cells (a + 1) (length bs) \<subseteq> dom ?m" using Cons.prems(1) by (auto simp: cells_Suc)
  moreover have "length bs \<le> size_max" using Cons.prems(2) by simp
  ultimately have "\<exists>m'. write_bytes (a + 1) bs ?m = Some m' \<and> dom m' = dom ?m \<and>
    read_bytes m' (a + 1) (length bs) = Some bs \<and> (\<forall>c. c \<notin> cells (a + 1) (length bs) \<longrightarrow> m' c = ?m c)"
    by (rule Cons.IH)
  then obtain m' where m': "write_bytes (a + 1) bs ?m = Some m'" "dom m' = dom ?m"
    "read_bytes m' (a + 1) (length bs) = Some bs" "\<forall>c. c \<notin> cells (a + 1) (length bs) \<longrightarrow> m' c = ?m c" by blast
  have "a \<notin> cells (a + 1) (length bs)" using Cons.prems(2) by (intro cells_first) simp
  then have "m' a = Some b" using m'(4) by simp
  then show ?case using m' a by (auto simp: store_def cells_Suc)
qed simp

lemma memcpy_spec:
  assumes "cells s (unat n) \<subseteq> dom m" "cells d (unat n) \<subseteq> dom m"
  shows "\<exists>m'. memcpy d s n m = Some m' \<and> dom m' = dom m \<and> read_bytes m' d (unat n) = read_bytes m s (unat n) \<and>
    (\<forall>b. b \<notin> cells d (unat n) \<longrightarrow> m' b = m b)"
proof -
  obtain bs where bs: "read_bytes m s (unat n) = Some bs" "length bs = unat n" using read_bytes_total[OF assms(1)] by blast
  have "length bs \<le> size_max" using bs(2) unat_u32_less[of n] by simp
  from write_bytes_spec[of d bs m, OF _ this] bs assms(2) show ?thesis by (auto simp: memcpy_def)
qed

section \<open>Lists of block copies\<close>

type_synonym job = "u32 \<times> u32 \<times> u32" \<comment> \<open>destination, source, length\<close>

fun copy_jobs :: "job list \<Rightarrow> memory \<Rightarrow> memory option" where
  "copy_jobs [] m = Some m"
| "copy_jobs ((d, s, l) # js) m = do { m' \<leftarrow> memcpy d s l m; copy_jobs js m' }"

lemma copy_jobs_append: "copy_jobs (js @ ks) m = Option.bind (copy_jobs js m) (copy_jobs ks)"
  by (induction js m rule: copy_jobs.induct) (auto split: bind_splits)

text \<open>A loop whose rounds are lists of copies is one list of copies.\<close>

lemma for_range_jobs:
  "(\<And>k m. i \<le> k \<Longrightarrow> k < i + n \<Longrightarrow> f (of_nat k) m = copy_jobs (g k) m) \<Longrightarrow>
   for_range i n f m = copy_jobs (concat (map g [i..<i + n])) m"
proof (induction n arbitrary: i m)
  case (Suc n)
  have "for_range (Suc i) n f m1 = copy_jobs (concat (map g [Suc i..<Suc i + n])) m1" for m1
    by (rule Suc.IH) (use Suc.prems in simp)
  then have "for_range i (Suc n) f m = Option.bind (copy_jobs (g i) m) (copy_jobs (concat (map g [Suc i..<Suc i + n])))"
    using Suc.prems[of i m] by (simp cong: Option.bind_cong)
  also have "\<dots> = copy_jobs (concat (map g (i # [Suc i..<Suc i + n]))) m" by (simp add: copy_jobs_append)
  also have "i # [Suc i..<Suc i + n] = [i..<i + Suc n]" by (simp add: upt_conv_Cons)
  finally show ?case .
qed simp

abbreviation job_dst :: "job \<Rightarrow> u32 set" where "job_dst j \<equiv> cells (fst j) (unat (snd (snd j)))"
abbreviation job_src :: "job \<Rightarrow> u32 set" where "job_src j \<equiv> cells (fst (snd j)) (unat (snd (snd j)))"

text \<open>Copies into disjoint blocks, none of which is a source, do not disturb each other.\<close>

lemma copy_jobs_spec:
  assumes "\<forall>j\<in>set js. job_dst j \<subseteq> dom m \<and> job_src j \<subseteq> dom m"
    and "sorted_wrt (\<lambda>j k. job_dst j \<inter> job_dst k = {}) js"
    and "\<forall>j\<in>set js. \<forall>k\<in>set js. job_dst j \<inter> job_src k = {}"
  shows "\<exists>m'. copy_jobs js m = Some m' \<and> dom m' = dom m \<and>
    (\<forall>j\<in>set js. read_bytes m' (fst j) (unat (snd (snd j))) = read_bytes m (fst (snd j)) (unat (snd (snd j)))) \<and>
    (\<forall>b. (\<forall>j\<in>set js. b \<notin> job_dst j) \<longrightarrow> m' b = m b)"
  using assms
proof (induction js arbitrary: m)
  case (Cons j js)
  obtain d s l where j: "j = (d, s, l)" by (cases j) auto
  obtain m1 where m1: "memcpy d s l m = Some m1" "dom m1 = dom m"
    "read_bytes m1 d (unat l) = read_bytes m s (unat l)" "\<forall>b. b \<notin> cells d (unat l) \<longrightarrow> m1 b = m b"
    using memcpy_spec[of s l m d] Cons.prems(1) j by auto
  obtain m' where m': "copy_jobs js m1 = Some m'" "dom m' = dom m1"
    "\<forall>k\<in>set js. read_bytes m' (fst k) (unat (snd (snd k))) = read_bytes m1 (fst (snd k)) (unat (snd (snd k)))"
    "\<forall>b. (\<forall>k\<in>set js. b \<notin> job_dst k) \<longrightarrow> m' b = m1 b"
    using Cons.IH[of m1] Cons.prems m1(2) by auto
  have "read_bytes m1 (fst (snd k)) (unat (snd (snd k))) = read_bytes m (fst (snd k)) (unat (snd (snd k)))"
    if "k \<in> set js" for k
    using that Cons.prems(3) m1(4) j by (intro read_bytes_cong) auto
  moreover have "read_bytes m' d (unat l) = read_bytes m1 d (unat l)"
    using Cons.prems(2) m'(4) j by (intro read_bytes_cong) fastforce
  ultimately show ?case using j m1 m' by auto
qed simp

section \<open>The rows of a patch\<close>

definition plane_area :: "DVP_Image_t \<Rightarrow> u32 \<Rightarrow> u32 set" where
  "plane_area im p = {a. unat (pBuffer im ! unat p) \<le> unat a \<and>
     unat a < unat (pBuffer im ! unat p) + unat (DVP_Image_PlaneRange (Some im) p)}"

definition image_area :: "DVP_Image_t \<Rightarrow> u32 set" where
  "image_area im = (\<Union>p\<in>{p. p < planes im}. plane_area im p)"

text \<open>
  A well-formed patch: its corner is a multiple of the subsampling, it lies inside the buffer, its plane
  pointers point at the corner, the planes do not wrap around the address space and do not overlap.
\<close>

definition patch_ok :: "DVP_Image_t \<Rightarrow> bool" where
  "patch_ok im \<longleftrightarrow> unat (planes im) \<le> length (pData im) \<and> unat (planes im) \<le> length (pBuffer im) \<and>
     0 < width im \<and> 0 < height im \<and>
     unat (x_start im) + unat (width im) \<le> unat (bufWidth im) \<and>
     unat (y_start im) + unat (height im) \<le> unat (bufHeight im) \<and>
     (\<forall>p<planes im. plane_ok im p \<and>
        unat (x_start im) mod unat (DVP_Image_WidthDiv (Some im) p) = 0 \<and>
        unat (y_start im) mod unat (DVP_Image_HeightDiv (Some im) p) = 0 \<and>
        pData im ! unat p \<noteq> 0 \<and>
        pData im ! unat p = pBuffer im ! unat p + DVP_Image_Offset (Some im) (x_start im) (y_start im) p \<and>
        unat (pBuffer im ! unat p) + unat (DVP_Image_PlaneRange (Some im) p) < size_max) \<and>
     (\<forall>p<planes im. \<forall>q<planes im. p \<noteq> q \<longrightarrow> plane_area im p \<inter> plane_area im q = {})"

text \<open>Rows, columns, bytes of a line and of a sample as numbers.\<close>

definition n_rows :: "DVP_Image_t \<Rightarrow> u32 \<Rightarrow> nat" where
  "n_rows im p = unat (height im) div unat (DVP_Image_HeightDiv (Some im) p)"

definition n_cols :: "DVP_Image_t \<Rightarrow> u32 \<Rightarrow> nat" where
  "n_cols im p = unat (width im) div unat (DVP_Image_WidthDiv (Some im) p)"

definition row_base :: "DVP_Image_t \<Rightarrow> u32 \<Rightarrow> nat \<Rightarrow> nat" where
  "row_base im p k = unat (pBuffer im ! unat p) +
     (unat (y_start im) div unat (DVP_Image_HeightDiv (Some im) p) + k) * unat (DVP_Image_LineRange (Some im) p) +
     unat (x_start im) div unat (DVP_Image_WidthDiv (Some im) p) * unat (sample im p)"

lemma div_add_le:
  fixes a b n d :: nat
  assumes "a + b \<le> n" "a mod d = 0" "n mod d = 0" "0 < d"
  shows "a div d + b div d \<le> n div d"
proof -
  have "d dvd a" using assms(2) by auto
  then have "a div d + b div d = (a + b) div d" by (simp add: div_plus_div_distrib_dvd_left)
  also have "\<dots> \<le> n div d" using assms(1) by (rule div_le_mono)
  finally show ?thesis .
qed

lemma patch_grid:
  assumes ok: "patch_ok im" and p: "p < planes im"
  shows "unat (y_start im) div unat (DVP_Image_HeightDiv (Some im) p) + n_rows im p
      \<le> unat (bufHeight im) div unat (DVP_Image_HeightDiv (Some im) p)"
    and "(unat (x_start im) div unat (DVP_Image_WidthDiv (Some im) p) + n_cols im p) * unat (sample im p)
      \<le> unat (DVP_Image_LineRange (Some im) p)"
proof -
  have pk: "plane_ok im p" using ok p by (simp add: patch_ok_def)
  show "unat (y_start im) div unat (DVP_Image_HeightDiv (Some im) p) + n_rows im p
      \<le> unat (bufHeight im) div unat (DVP_Image_HeightDiv (Some im) p)"
    unfolding n_rows_def using ok p pk divisors_pos by (intro div_add_le) (auto simp: patch_ok_def plane_ok_def)
  have "unat (x_start im) div unat (DVP_Image_WidthDiv (Some im) p) + n_cols im p
      \<le> unat (bufWidth im) div unat (DVP_Image_WidthDiv (Some im) p)"
    unfolding n_cols_def using ok p pk divisors_pos by (intro div_add_le) (auto simp: patch_ok_def plane_ok_def)
  then have "(unat (x_start im) div unat (DVP_Image_WidthDiv (Some im) p) + n_cols im p) * unat (sample im p)
      \<le> unat (bufWidth im) div unat (DVP_Image_WidthDiv (Some im) p) * unat (sample im p)" by (rule mult_right_mono) simp
  then show "(unat (x_start im) div unat (DVP_Image_WidthDiv (Some im) p) + n_cols im p) * unat (sample im p)
      \<le> unat (DVP_Image_LineRange (Some im) p)" using pk unfolding plane_ok_def by linarith
qed

text \<open>A row of at most the patch's width stays in its line and in its plane.\<close>

lemma row_fit:
  assumes ok: "patch_ok im" and p: "p < planes im" and k: "k < n_rows im p" and n: "n \<le> n_cols im p"
  shows "row_base im p k + n * unat (sample im p) \<le> unat (pBuffer im ! unat p) + unat (DVP_Image_PlaneRange (Some im) p)"
    and "k < k' \<Longrightarrow> row_base im p k + n * unat (sample im p) \<le> row_base im p k'"
proof -
  let ?L = "unat (DVP_Image_LineRange (Some im) p)" and ?s = "unat (sample im p)" and ?B = "unat (pBuffer im ! unat p)"
  let ?r = "unat (y_start im) div unat (DVP_Image_HeightDiv (Some im) p)"
  let ?c = "unat (x_start im) div unat (DVP_Image_WidthDiv (Some im) p)"
  have "(?c + n) * ?s \<le> (?c + n_cols im p) * ?s" using n by (intro mult_right_mono) simp_all
  then have cs: "(?c + n) * ?s \<le> ?L" using patch_grid(2)[OF ok p] by linarith
  have e: "row_base im p k + n * ?s = ?B + (?r + k) * ?L + (?c + n) * ?s" by (simp add: row_base_def add_mult_distrib)
  have line: "row_base im p k + n * ?s \<le> ?B + (?r + k + 1) * ?L" using cs unfolding e by simp
  have "?r + k + 1 \<le> unat (bufHeight im) div unat (DVP_Image_HeightDiv (Some im) p)"
    using k patch_grid(1)[OF ok p] by simp
  then have "(?r + k + 1) * ?L \<le> unat (bufHeight im) div unat (DVP_Image_HeightDiv (Some im) p) * ?L"
    by (rule mult_right_mono) simp
  moreover have "plane_ok im p" using ok p by (simp add: patch_ok_def)
  ultimately have "(?r + k + 1) * ?L \<le> unat (DVP_Image_PlaneRange (Some im) p)" by (simp only: PlaneRange_unat)
  then show "row_base im p k + n * ?s \<le> ?B + unat (DVP_Image_PlaneRange (Some im) p)" using line by linarith
  assume "k < k'"
  then have "(?r + k + 1) * ?L \<le> (?r + k') * ?L" by (intro mult_right_mono) simp_all
  then show "row_base im p k + n * ?s \<le> row_base im p k'" using line by (simp add: row_base_def)
qed

lemma row_address:
  assumes ok: "patch_ok im" and p: "p < planes im" and k: "k < n_rows im p"
  shows "\<exists>a. DVP_Image_PatchAddressing (Some im) 0 (of_nat k * DVP_Image_HeightDiv (Some im) p) p = Some a \<and>
    unat a = row_base im p k"
proof -
  let ?L = "DVP_Image_LineRange (Some im) p" and ?d = "DVP_Image_HeightDiv (Some im) p" and ?B = "pBuffer im ! unat p"
  have pk: "plane_ok im p" and wh: "0 < width im" "0 < height im" using ok p by (simp_all add: patch_ok_def)
  have "(k + 1) * unat ?d \<le> n_rows im p * unat ?d" using k by (intro mult_right_mono) simp_all
  also have "\<dots> \<le> unat (height im)" by (simp add: n_rows_def)
  finally have "k * unat ?d < unat (height im)" using divisors_pos(2)[of "Some im" p] by simp
  note kh = this
  have "n_rows im p \<le> unat (height im)" unfolding n_rows_def by (rule div_le_dividend)
  then have k32: "unat (of_nat k :: u32) = k" using k unat_u32_less[of "height im"] by (intro unat_of_nat_u32) linarith
  then have kd0: "k * unat ?d < 2 ^ 32 \<and> unat (of_nat k :: u32) = k"
    using kh unat_u32_less[of "height im"] by simp
  then have kd: "unat (of_nat k * ?d) = k * unat ?d"
    by (subst unat_mult_small) simp_all
  then have y: "of_nat k * ?d < height im" using kh by (simp add: word_less_nat_alt)
  have "unat (of_nat k * ?d div ?d) = k" using kd divisors_pos(2)[of "Some im" p] by (simp add: unat_div)
  then have q: "of_nat k * ?d div ?d = of_nat k" using k32 by (simp add: word_unat_eq_iff)
  have off: "DVP_Image_PatchOffset (Some im) 0 (of_nat k * ?d) p = of_nat k * ?L"
    using p y wh q by (simp add: DVP_Image_PatchOffset_def Let_def)
  have start: "x_start im < bufWidth im" "y_start im < bufHeight im"
    using ok wh by (auto simp: patch_ok_def word_less_nat_alt)
  let ?o = "DVP_Image_Offset (Some im) (x_start im) (y_start im) p"
  have total: "unat ?B + unat ?o + k * unat ?L = row_base im p k"
    by (simp add: offset_value(1)[OF pk start] row_base_def add_mult_distrib)
  have bound: "row_base im p k < size_max"
    using row_fit(1)[OF ok p k, of 0] ok p by (fastforce simp: patch_ok_def)
  have kl: "unat (of_nat k * ?L) = k * unat ?L" using total bound k32 by (subst unat_mult_small) simp_all
  have data: "pData im ! unat p = ?B + ?o" "unat p < length (pData im)"
    using ok p by (auto simp: patch_ok_def word_less_nat_alt)
  have bo: "unat (?B + ?o) = unat ?B + unat ?o" using total bound by (intro unat_add_small) simp
  have "unat (?B + ?o + of_nat k * ?L) = row_base im p k"
    using total bound bo kl by (subst unat_add_small) simp_all
  then show ?thesis using p data off by (simp add: DVP_Image_PatchAddressing_def nth_chk_def)
qed

definition row_at :: "DVP_Image_t \<Rightarrow> u32 \<Rightarrow> nat \<Rightarrow> u32" where
  "row_at im p k = the (DVP_Image_PatchAddressing (Some im) 0 (of_nat k * DVP_Image_HeightDiv (Some im) p) p)"

lemma row_at_addr:
  assumes "patch_ok im" "p < planes im" "k < n_rows im p"
  shows "DVP_Image_PatchAddressing (Some im) 0 (of_nat k * DVP_Image_HeightDiv (Some im) p) p = Some (row_at im p k)"
    and "unat (row_at im p k) = row_base im p k"
  using row_address[OF assms] unfolding row_at_def by auto

lemma row_cells:
  assumes ok: "patch_ok im" and p: "p < planes im" and k: "k < n_rows im p" and n: "n \<le> n_cols im p"
  shows "cells (row_at im p k) (n * unat (sample im p)) \<subseteq>
    {a. row_base im p k \<le> unat a \<and> unat a < row_base im p k + n * unat (sample im p)}"
    and "cells (row_at im p k) (n * unat (sample im p)) \<subseteq> plane_area im p"
proof -
  have a: "unat (row_at im p k) = row_base im p k" using row_at_addr(2)[OF ok p k] .
  have fit: "row_base im p k + n * unat (sample im p) \<le> unat (pBuffer im ! unat p) + unat (DVP_Image_PlaneRange (Some im) p)"
    by (rule row_fit(1)[OF ok p k n])
  then have lim: "unat (row_at im p k) + n * unat (sample im p) \<le> size_max"
    using ok p a by (fastforce simp: patch_ok_def)
  show i: "cells (row_at im p k) (n * unat (sample im p)) \<subseteq>
    {a. row_base im p k \<le> unat a \<and> unat a < row_base im p k + n * unat (sample im p)}"
    using cells_interval[OF lim] a by auto
  have "unat (pBuffer im ! unat p) \<le> row_base im p k" by (simp add: row_base_def)
  then show "cells (row_at im p k) (n * unat (sample im p)) \<subseteq> plane_area im p"
    using i fit unfolding plane_area_def by fastforce
qed

text \<open>Different rows of an image have no byte in common.\<close>

lemma rows_disjoint:
  assumes ok: "patch_ok im" and pq: "p < planes im" "q < planes im" "k < n_rows im p" "j < n_rows im q"
    and n: "n \<le> n_cols im p" "i \<le> n_cols im q" and ne: "(p, k) \<noteq> (q, j)"
  shows "cells (row_at im p k) (n * unat (sample im p)) \<inter> cells (row_at im q j) (i * unat (sample im q)) = {}"
proof (cases "p = q")
  case False
  then have "plane_area im p \<inter> plane_area im q = {}" using ok pq by (simp add: patch_ok_def)
  then show ?thesis using row_cells(2)[OF ok pq(1,3) n(1)] row_cells(2)[OF ok pq(2,4) n(2)] by blast
next
  case True
  then have "k < j \<or> j < k" using ne by auto
  then show ?thesis
    using row_cells(1)[OF ok pq(1,3) n(1)] row_cells(1)[OF ok pq(2,4) n(2)]
      row_fit(2)[OF ok pq(1,3) n(1), of j] row_fit(2)[OF ok pq(2,4) n(2), of k] True by fastforce
qed

lemma PatchLineSize_unat:
  assumes ok: "patch_ok im" and p: "p < planes im"
  shows "unat (DVP_Image_PatchLineSize (Some im) p) = n_cols im p * unat (sample im p)"
proof -
  have "n_cols im p * unat (sample im p) \<le> unat (DVP_Image_LineRange (Some im) p)"
    using patch_grid(2)[OF ok p] by (simp add: add_mult_distrib)
  then have "unat (sample im p) * unat (width im div DVP_Image_WidthDiv (Some im) p) < 2 ^ 32"
    using unat_u32_less[of "DVP_Image_LineRange (Some im) p"] by (simp add: n_cols_def unat_div mult.commute)
  then show ?thesis using p
    by (simp add: DVP_Image_PatchLineSize_def sample_def unat_mult_small n_cols_def unat_div)
qed

lemma n_rows_unat: "unat (height im div DVP_Image_HeightDiv (Some im) p) = n_rows im p"
  by (simp add: n_rows_def unat_div)

lemma planes_set_ok: "patch_ok im \<Longrightarrow> planes_set im = Some True"
  unfolding planes_set_def
proof (rule all_range_True)
  fix k assume ok: "patch_ok im" and k: "k < 0 + unat (planes im)"
  then have k32: "unat (of_nat k :: u32) = k" using unat_u32_less[of "planes im"] by (intro unat_of_nat_u32) simp
  then have "of_nat k < planes im" using k by (simp add: word_less_nat_alt)
  then have "pData im ! unat (of_nat k :: u32) \<noteq> 0" using ok unfolding patch_ok_def by blast
  then show "do { d \<leftarrow> nth_chk (pData im) (unat (of_nat k :: u32)); Some (d \<noteq> 0) } = Some True"
    using ok k k32 by (simp add: patch_ok_def nth_chk_def)
qed

section \<open>Copying a patch\<close>

text \<open>Two patches of one layout in separate allocations, the source no larger than the destination.\<close>

definition copy_ready :: "DVP_Image_t \<Rightarrow> DVP_Image_t \<Rightarrow> memory \<Rightarrow> bool" where
  "copy_ready dst src m \<longleftrightarrow> patch_ok src \<and> patch_ok dst \<and> color dst = color src \<and> planes dst = planes src \<and>
     x_stride dst = x_stride src \<and> width src \<le> width dst \<and> height src \<le> height dst \<and>
     image_area src \<inter> image_area dst = {} \<and> image_area src \<union> image_area dst \<subseteq> dom m"

lemma same_layout:
  assumes "color dst = color src" "planes dst = planes src"
  shows "DVP_Image_WidthStep (Some dst) p = DVP_Image_WidthStep (Some src) p"
    "DVP_Image_WidthDiv (Some dst) p = DVP_Image_WidthDiv (Some src) p"
    "DVP_Image_HeightDiv (Some dst) p = DVP_Image_HeightDiv (Some src) p"
  using assms by (simp_all add: DVP_Image_WidthStep_def DVP_Image_WidthDiv_def DVP_Image_HeightDiv_def)

lemma copy_ready_rows:
  assumes "copy_ready dst src m"
  shows "sample dst p = sample src p" "n_rows src p \<le> n_rows dst p" "n_cols src p \<le> n_cols dst p"
  using assms same_layout[of dst src] unfolding copy_ready_def
  by (auto simp: sample_def n_rows_def n_cols_def word_le_nat_alt intro: div_le_mono)

definition row_job :: "DVP_Image_t \<Rightarrow> DVP_Image_t \<Rightarrow> u32 \<Rightarrow> nat \<Rightarrow> job" where
  "row_job dst src p k = (row_at dst p k, row_at src p k, DVP_Image_PatchLineSize (Some src) p)"

definition plane_jobs :: "DVP_Image_t \<Rightarrow> DVP_Image_t \<Rightarrow> u32 \<Rightarrow> job list" where
  "plane_jobs dst src p = concat (map (\<lambda>k. [row_job dst src p k]) [0..<n_rows src p])"

definition patch_jobs :: "DVP_Image_t \<Rightarrow> DVP_Image_t \<Rightarrow> job list" where
  "patch_jobs dst src = concat (map (\<lambda>p. plane_jobs dst src (of_nat p)) [0..<unat (planes src)])"

lemma plane_index: "k < unat (n :: u32) \<Longrightarrow> unat (of_nat k :: u32) = k \<and> of_nat k < n"
  using unat_u32_less[of n] by (simp add: unat_of_nat_u32 word_less_nat_alt)

lemma copy_plane_jobs:
  assumes c: "copy_ready dst src m" and p: "p < planes src"
  shows "copy_plane dst src p m' = copy_jobs (plane_jobs dst src p) m'"
proof -
  have ok: "patch_ok src" "patch_ok dst" "p < planes dst" using c p by (simp_all add: copy_ready_def)
  have h: "DVP_Image_HeightDiv (Some dst) p = DVP_Image_HeightDiv (Some src) p"
    using c by (intro same_layout) (simp_all add: copy_ready_def)
  have "for_range 0 (n_rows src p) (\<lambda>y m. do {
       d \<leftarrow> DVP_Image_PatchAddressing (Some dst) 0 (y * DVP_Image_HeightDiv (Some src) p) p;
       s \<leftarrow> DVP_Image_PatchAddressing (Some src) 0 (y * DVP_Image_HeightDiv (Some src) p) p;
       memcpy d s (DVP_Image_PatchLineSize (Some src) p) m }) m'
    = copy_jobs (concat (map (\<lambda>k. [row_job dst src p k]) [0..<0 + n_rows src p])) m'"
  proof (rule for_range_jobs)
    fix k m'' assume "k < 0 + n_rows src p"
    then have k: "k < n_rows src p" "k < n_rows dst p" using copy_ready_rows(2)[OF c, of p] by simp_all
    show "do {
       d \<leftarrow> DVP_Image_PatchAddressing (Some dst) 0 (of_nat k * DVP_Image_HeightDiv (Some src) p) p;
       s \<leftarrow> DVP_Image_PatchAddressing (Some src) 0 (of_nat k * DVP_Image_HeightDiv (Some src) p) p;
       memcpy d s (DVP_Image_PatchLineSize (Some src) p) m'' } = copy_jobs [row_job dst src p k] m''"
      using row_at_addr(1)[OF ok(1) p k(1)] row_at_addr(1)[OF ok(2,3) k(2)] h
      by (cases "memcpy (row_at dst p k) (row_at src p k) (DVP_Image_PatchLineSize (Some src) p) m''") (simp_all add: row_job_def)
  qed
  then show ?thesis by (simp add: copy_plane_def copy_rows_def Let_def n_rows_unat plane_jobs_def)
qed

lemma copy_patch_jobs:
  assumes c: "copy_ready dst src m"
  shows "for_range 0 (unat (planes src)) (copy_plane dst src) m' = copy_jobs (patch_jobs dst src) m'"
  unfolding patch_jobs_def
  using for_range_jobs[of 0 "unat (planes src)" "copy_plane dst src" "\<lambda>p. plane_jobs dst src (of_nat p)" m']
    copy_plane_jobs[OF c] plane_index[of _ "planes src"] by simp

lemma sorted_wrt_concat_map:
  assumes "\<And>p. p < n \<Longrightarrow> sorted_wrt R (g p)" "\<And>p q x y. p < q \<Longrightarrow> q < n \<Longrightarrow> x \<in> set (g p) \<Longrightarrow> y \<in> set (g q) \<Longrightarrow> R x y"
  shows "sorted_wrt R (concat (map g [0..<n]))"
  using assms by (induction n) (auto simp: sorted_wrt_append)

lemma plane_jobs_map: "plane_jobs dst src p = map (row_job dst src p) [0..<n_rows src p]"
  by (simp add: plane_jobs_def concat_map_singleton)

lemma plane_jobs_set: "j \<in> set (plane_jobs dst src p) \<longleftrightarrow> (\<exists>k<n_rows src p. j = row_job dst src p k)"
  by (auto simp: plane_jobs_map)

lemma patch_jobs_set:
  "j \<in> set (patch_jobs dst src) \<longleftrightarrow> (\<exists>p<planes src. \<exists>k<n_rows src p. j = row_job dst src p k)"
proof
  assume "j \<in> set (patch_jobs dst src)"
  then obtain q where q: "q < unat (planes src)" "j \<in> set (plane_jobs dst src (of_nat q))" by (auto simp: patch_jobs_def)
  then show "\<exists>p<planes src. \<exists>k<n_rows src p. j = row_job dst src p k"
    using plane_index[OF q(1)] unfolding plane_jobs_set by blast
next
  assume "\<exists>p<planes src. \<exists>k<n_rows src p. j = row_job dst src p k"
  then obtain p where p: "p < planes src" "j \<in> set (plane_jobs dst src p)" unfolding plane_jobs_set by blast
  then have "unat p < unat (planes src)" by (simp add: word_less_nat_alt)
  then show "j \<in> set (patch_jobs dst src)" using p(2) unfolding patch_jobs_def
    by (auto intro!: bexI[of _ "unat p"])
qed

lemma row_job_cells:
  assumes c: "copy_ready dst src m" and p: "p < planes src" and k: "k < n_rows src p"
  shows "job_dst (row_job dst src p k) = cells (row_at dst p k) (n_cols src p * unat (sample dst p))"
    and "job_src (row_job dst src p k) = cells (row_at src p k) (n_cols src p * unat (sample src p))"
    and "job_dst (row_job dst src p k) \<subseteq> image_area dst" and "job_src (row_job dst src p k) \<subseteq> image_area src"
proof -
  have ok: "patch_ok src" "patch_ok dst" "p < planes dst" using c p by (simp_all add: copy_ready_def)
  have r: "sample dst p = sample src p" "k < n_rows dst p" "n_cols src p \<le> n_cols dst p"
    using copy_ready_rows[OF c, of p] k by simp_all
  show d: "job_dst (row_job dst src p k) = cells (row_at dst p k) (n_cols src p * unat (sample dst p))"
    and s: "job_src (row_job dst src p k) = cells (row_at src p k) (n_cols src p * unat (sample src p))"
    using PatchLineSize_unat[OF ok(1) p] r by (simp_all add: row_job_def)
  show "job_dst (row_job dst src p k) \<subseteq> image_area dst"
    unfolding d image_area_def using row_cells(2)[OF ok(2,3) r(2,3)] ok(3) by blast
  show "job_src (row_job dst src p k) \<subseteq> image_area src"
    unfolding s image_area_def using row_cells(2)[OF ok(1) p k order_refl] p by blast
qed

lemma patch_jobs_sorted:
  assumes c: "copy_ready dst src m"
  shows "sorted_wrt (\<lambda>j k. job_dst j \<inter> job_dst k = {}) (patch_jobs dst src)"
proof -
  have disj: "job_dst (row_job dst src p k) \<inter> job_dst (row_job dst src q j) = {}"
    if "p < planes src" "q < planes src" "k < n_rows src p" "j < n_rows src q" "(p, k) \<noteq> (q, j)" for p q k j
  proof -
    have ok: "patch_ok dst" "p < planes dst" "q < planes dst" using c that by (simp_all add: copy_ready_def)
    show ?thesis unfolding row_job_cells(1)[OF c that(1,3)] row_job_cells(1)[OF c that(2,4)]
      using copy_ready_rows(2,3)[OF c, of p] copy_ready_rows(2,3)[OF c, of q] that
      by (intro rows_disjoint[OF ok]) simp_all
  qed
  show ?thesis unfolding patch_jobs_def
  proof (rule sorted_wrt_concat_map)
    fix p assume p: "p < unat (planes src)"
    show "sorted_wrt (\<lambda>j k. job_dst j \<inter> job_dst k = {}) (plane_jobs dst src (of_nat p))"
      unfolding plane_jobs_map sorted_wrt_map
      by (rule sorted_wrt_mono_rel[OF _ sorted_wrt_upt], rule disj) (use plane_index[OF p] in simp_all)
  next
    fix p q x y assume pq: "p < q" "q < unat (planes src)"
      and x: "x \<in> set (plane_jobs dst src (of_nat p))" and y: "y \<in> set (plane_jobs dst src (of_nat q))"
    have i: "unat (of_nat p :: u32) = p" "of_nat p < planes src" "unat (of_nat q :: u32) = q" "of_nat q < planes src"
      using plane_index[of p "planes src"] plane_index[of q "planes src"] pq by simp_all
    then have "(of_nat p :: u32) \<noteq> of_nat q" using pq(1) by (metis less_irrefl)
    then show "job_dst x \<inter> job_dst y = {}" using x y i disj unfolding plane_jobs_set by blast
  qed
qed

lemma copy_same_color:
  assumes c: "copy_ready dst src m"
  shows "\<exists>m'. DVP_Image_Copy (Some dst) (Some src) m = Some (True, m') \<and> dom m' = dom m \<and>
    (\<forall>p<planes src. \<forall>k<n_rows src p.
       read_bytes m' (row_at dst p k) (n_cols src p * unat (sample src p)) =
       read_bytes m (row_at src p k) (n_cols src p * unat (sample src p))) \<and>
    (\<forall>a. a \<notin> image_area dst \<longrightarrow> m' a = m a)"
proof -
  have ok: "patch_ok src" "patch_ok dst" "image_area src \<inter> image_area dst = {}" "image_area src \<union> image_area dst \<subseteq> dom m"
    using c by (simp_all add: copy_ready_def)
  have jobs: "\<And>j. j \<in> set (patch_jobs dst src) \<Longrightarrow> job_dst j \<subseteq> image_area dst \<and> job_src j \<subseteq> image_area src"
    using row_job_cells(3,4)[OF c] unfolding patch_jobs_set by blast
  obtain m' where m': "copy_jobs (patch_jobs dst src) m = Some m'" "dom m' = dom m"
    "\<forall>j\<in>set (patch_jobs dst src). read_bytes m' (fst j) (unat (snd (snd j))) = read_bytes m (fst (snd j)) (unat (snd (snd j)))"
    "\<forall>b. (\<forall>j\<in>set (patch_jobs dst src). b \<notin> job_dst j) \<longrightarrow> m' b = m b"
  proof -
    have "\<forall>j\<in>set (patch_jobs dst src). job_dst j \<subseteq> dom m \<and> job_src j \<subseteq> dom m" using jobs ok(4) by blast
    moreover have "\<forall>j\<in>set (patch_jobs dst src). \<forall>k\<in>set (patch_jobs dst src). job_dst j \<inter> job_src k = {}"
      using jobs ok(3) by blast
    ultimately show thesis using copy_jobs_spec[OF _ patch_jobs_sorted[OF c]] that by blast
  qed
  have rows: "read_bytes m' (row_at dst p k) (n_cols src p * unat (sample src p)) =
       read_bytes m (row_at src p k) (n_cols src p * unat (sample src p))" if "p < planes src" "k < n_rows src p" for p k
  proof -
    have "row_job dst src p k \<in> set (patch_jobs dst src)" unfolding patch_jobs_set using that by blast
    from m'(3)[rule_format, OF this] show ?thesis by (simp add: row_job_def PatchLineSize_unat[OF ok(1) that(1)])
  qed
  have "DVP_Image_Copy (Some dst) (Some src) m = Some (True, m')"
    using c m'(1) copy_patch_jobs[OF c] planes_set_ok[OF ok(1)] planes_set_ok[OF ok(2)]
    by (simp add: DVP_Image_Copy_def copy_ready_def not_less)
  then show ?thesis using m'(2,4) rows jobs by blast
qed

text \<open>Comparing the two patches row by row.\<close>

lemma patch_equal_rows:
  assumes c: "copy_ready dst src m" and wh: "width dst = width src" "height dst = height src"
    and rows: "\<And>p k. p < planes src \<Longrightarrow> k < n_rows src p \<Longrightarrow>
      memcmp_eq m' (row_at dst p k) (row_at src p k) (DVP_Image_PatchLineSize (Some src) p) = Some True"
  shows "DVP_Image_PatchEqual (Some dst) (Some src) m' = Some True"
proof -
  have ok: "patch_ok src" "patch_ok dst" "color dst = color src" "planes dst = planes src"
    using c by (simp_all add: copy_ready_def)
  have inside: "x_start im + width im \<le> bufWidth im \<and> y_start im + height im \<le> bufHeight im" if "patch_ok im" for im
  proof -
    have "unat (x_start im) + unat (width im) \<le> unat (bufWidth im)" "unat (y_start im) + unat (height im) \<le> unat (bufHeight im)"
      using that by (simp_all add: patch_ok_def)
    moreover from this have "unat (x_start im + width im) = unat (x_start im) + unat (width im)"
      "unat (y_start im + height im) = unat (y_start im) + unat (height im)"
      using unat_u32_less[of "bufWidth im"] unat_u32_less[of "bufHeight im"] by (auto intro!: unat_add_small)
    ultimately show ?thesis by (simp add: word_le_nat_alt)
  qed
  have plane: "equal_rows m' (\<lambda>y. DVP_Image_PatchAddressing (Some src) 0 y p) (\<lambda>y. DVP_Image_PatchAddressing (Some dst) 0 y p)
      (height src div DVP_Image_HeightDiv (Some src) p) (DVP_Image_HeightDiv (Some src) p) (DVP_Image_PatchLineSize (Some src) p)
    = Some True" if p: "p < planes src" for p
    unfolding equal_rows_def n_rows_unat
  proof (rule all_range_True)
    fix k assume "k < 0 + n_rows src p"
    then have k: "k < n_rows src p" "k < n_rows dst p" using copy_ready_rows(2)[OF c, of p] by simp_all
    have h: "DVP_Image_HeightDiv (Some dst) p = DVP_Image_HeightDiv (Some src) p" by (rule same_layout(3)[OF ok(3,4)])
    have q: "p < planes dst" using p ok(4) by simp
    show "do { s \<leftarrow> DVP_Image_PatchAddressing (Some src) 0 (of_nat k * DVP_Image_HeightDiv (Some src) p) p;
        d \<leftarrow> DVP_Image_PatchAddressing (Some dst) 0 (of_nat k * DVP_Image_HeightDiv (Some src) p) p;
        memcmp_eq m' d s (DVP_Image_PatchLineSize (Some src) p) } = Some True"
      using row_at_addr(1)[OF ok(1) p k(1)] row_at_addr(1)[OF ok(2) q k(2)] h rows[OF p k(1)] by simp
  qed
  have "all_range 0 (unat (planes src)) (\<lambda>p.
      let ydiv = DVP_Image_HeightDiv (Some src) p in
      equal_rows m' (\<lambda>y. DVP_Image_PatchAddressing (Some src) 0 y p) (\<lambda>y. DVP_Image_PatchAddressing (Some dst) 0 y p)
        (height src div ydiv) ydiv (DVP_Image_PatchLineSize (Some src) p)) = Some True"
    by (rule all_range_True) (simp add: Let_def plane plane_index)
  then show ?thesis
    using ok(3) wh inside[OF ok(1)] inside[OF ok(2)] planes_set_ok[OF ok(1)] planes_set_ok[OF ok(2)]
    by (simp add: DVP_Image_PatchEqual_def not_less)
qed

text \<open>
  C20. \<open>DVP_Image_Copy\<close> between two well-formed patches of one colour in separate buffers succeeds without
  a fault: every row of every plane of the destination holds the source's bytes, no byte outside the
  destination's buffers changes, and patches of the same size then compare equal.
\<close>

theorem image_copy_correct:
  assumes "copy_ready dst src m"
  shows "\<exists>m'. DVP_Image_Copy (Some dst) (Some src) m = Some (True, m') \<and>
    (\<forall>p k. p < planes src \<and> k < n_rows src p \<longrightarrow>
       read_bytes m' (row_at dst p k) (n_cols src p * unat (sample src p)) =
       read_bytes m (row_at src p k) (n_cols src p * unat (sample src p))) \<and>
    (\<forall>a. a \<notin> image_area dst \<longrightarrow> m' a = m a) \<and>
    (width dst = width src \<and> height dst = height src \<longrightarrow> DVP_Image_PatchEqual (Some dst) (Some src) m' = Some True)"
proof -
  obtain m' where m': "DVP_Image_Copy (Some dst) (Some src) m = Some (True, m')" "dom m' = dom m"
    "\<forall>p<planes src. \<forall>k<n_rows src p.
       read_bytes m' (row_at dst p k) (n_cols src p * unat (sample src p)) =
       read_bytes m (row_at src p k) (n_cols src p * unat (sample src p))"
    "\<forall>a. a \<notin> image_area dst \<longrightarrow> m' a = m a"
    using copy_same_color[OF assms] by blast
  have ok: "patch_ok src" "image_area src \<inter> image_area dst = {}" "image_area src \<subseteq> dom m"
    using assms by (simp_all add: copy_ready_def)
  have cmp: "memcmp_eq m' (row_at dst p k) (row_at src p k) (DVP_Image_PatchLineSize (Some src) p) = Some True"
    if p: "p < planes src" and k: "k < n_rows src p" for p k
  proof -
    let ?n = "n_cols src p * unat (sample src p)"
    have src: "cells (row_at src p k) ?n \<subseteq> image_area src"
      using row_cells(2)[OF ok(1) p k order_refl] p unfolding image_area_def by blast
    have "read_bytes m' (row_at src p k) ?n = read_bytes m (row_at src p k) ?n"
      using src ok(2) m'(4) by (intro read_bytes_cong) blast
    moreover obtain bs where "read_bytes m (row_at src p k) ?n = Some bs"
      using read_bytes_total[of "row_at src p k" ?n m] src ok(3) by blast
    ultimately show ?thesis using m'(3) p k by (simp add: memcmp_eq_def PatchLineSize_unat[OF ok(1) p])
  qed
  show ?thesis using m' patch_equal_rows[OF assms _ _ cmp] by blast
qed

text \<open>A second NV12 image further up, and a memory that holds both.\<close>

definition ex_dst :: DVP_Image_t where
  "ex_dst = ex_nv12\<lparr>pData := [2000, 2064, 0, 0], pBuffer := [2000, 2064, 0, 0]\<rparr>"

definition ex_memory :: memory where
  "ex_memory a = (if 1000 \<le> a \<and> a < 1096 \<or> 2000 \<le> a \<and> a < 2096 then Some (ucast a) else None)"

lemma less_2_u32: "(p :: u32) < 2 \<longleftrightarrow> p = 0 \<or> p = 1"
  by (auto simp: word_less_nat_alt word_unat_eq_iff)

lemma ex_layout:
  "DVP_Image_PlaneRange (Some ex_nv12) 0 = 64" "DVP_Image_PlaneRange (Some ex_nv12) 1 = 32"
  "DVP_Image_PlaneRange (Some ex_dst) 0 = 64" "DVP_Image_PlaneRange (Some ex_dst) 1 = 32"
  "planes ex_nv12 = 2" "planes ex_dst = 2"
  by (simp_all add: ex_nv12_def ex_dst_def geometry_defs DVP_Image_PlaneRange_def DVP_Image_LineRange_def abs32_def word_sless_alt)

lemma ex_areas:
  "plane_area ex_nv12 0 = {a. 1000 \<le> unat a \<and> unat a < 1064}" "plane_area ex_nv12 1 = {a. 1064 \<le> unat a \<and> unat a < 1096}"
  "plane_area ex_dst 0 = {a. 2000 \<le> unat a \<and> unat a < 2064}" "plane_area ex_dst 1 = {a. 2064 \<le> unat a \<and> unat a < 2096}"
  by (simp_all add: plane_area_def ex_layout) (simp_all add: ex_nv12_def ex_dst_def)

lemma ex_fields:
  "pData ex_nv12 = [1000, 1064, 0, 0]" "pBuffer ex_nv12 = [1000, 1064, 0, 0]" "width ex_nv12 = 8" "height ex_nv12 = 8"
  "bufWidth ex_nv12 = 8" "bufHeight ex_nv12 = 8" "x_start ex_nv12 = 0" "y_start ex_nv12 = 0" "color ex_nv12 = FOURCC_NV12"
  "pData ex_dst = [2000, 2064, 0, 0]" "pBuffer ex_dst = [2000, 2064, 0, 0]" "width ex_dst = 8" "height ex_dst = 8"
  "bufWidth ex_dst = 8" "bufHeight ex_dst = 8" "x_start ex_dst = 0" "y_start ex_dst = 0" "color ex_dst = FOURCC_NV12"
  "x_stride ex_dst = x_stride ex_nv12"
  by (simp_all add: ex_nv12_def ex_dst_def zero_image_def)

lemma ex_patch_ok: "patch_ok ex_nv12" "patch_ok ex_dst"
proof -
  have o: "plane_ok ex_dst 1" "plane_ok ex_dst 0"
    by (simp_all add: plane_ok_def ex_nv12_def ex_dst_def geometry_defs DVP_Image_LineRange_def abs32_def word_sless_alt)
  have z: "DVP_Image_Offset (Some im) 0 0 p = 0" for im p by (simp add: DVP_Image_Offset_def)
  have all2: "(\<forall>p<2. P p) \<longleftrightarrow> P 0 \<and> P 1" for P :: "u32 \<Rightarrow> bool" by (auto simp: less_2_u32)
  show "patch_ok ex_nv12" unfolding patch_ok_def ex_layout all2 ex_fields ex_areas z
    using ex_nv12_ok by auto
  show "patch_ok ex_dst" unfolding patch_ok_def ex_layout all2 ex_fields ex_areas z
    using o by auto
qed

lemma ex_copy_ready: "copy_ready ex_dst ex_nv12 ex_memory"
proof -
  have two: "{p :: u32. p = 0 \<or> p = 1} = {0, 1}" by blast
  have cut: "{a :: u32. 1000 \<le> unat a \<and> unat a < 1064} \<union> {a. 1064 \<le> unat a \<and> unat a < 1096} = {a. 1000 \<le> unat a \<and> unat a < 1096}"
    "{a :: u32. 2000 \<le> unat a \<and> unat a < 2064} \<union> {a. 2064 \<le> unat a \<and> unat a < 2096} = {a. 2000 \<le> unat a \<and> unat a < 2096}"
    by force+
  have src: "image_area ex_nv12 = {a. 1000 \<le> unat a \<and> unat a < 1096}"
    unfolding image_area_def ex_layout less_2_u32 two by (simp add: ex_areas cut)
  have dst: "image_area ex_dst = {a. 2000 \<le> unat a \<and> unat a < 2096}"
    unfolding image_area_def ex_layout less_2_u32 two by (simp add: ex_areas cut)
  have "{a. 1000 \<le> unat a \<and> unat a < 1096} \<union> {a :: u32. 2000 \<le> unat a \<and> unat a < 2096} \<subseteq> dom ex_memory"
    by (auto simp: ex_memory_def word_le_nat_alt word_less_nat_alt)
  then show ?thesis unfolding copy_ready_def src dst using ex_patch_ok
    by (auto simp: ex_fields ex_layout)
qed

theorem image_copy_correct_witness:
  "\<exists>m'. DVP_Image_Copy (Some ex_dst) (Some ex_nv12) ex_memory = Some (True, m') \<and>
     DVP_Image_PatchEqual (Some ex_dst) (Some ex_nv12) m' = Some True"
  using image_copy_correct[OF ex_copy_ready] by (auto simp: ex_fields)

end
