(* ===== verification/Dvp_CpuRun.thy ===== *)
theory Dvp_CpuRun
  imports Dvp_Cpu Dvp_ImageCopy Dvp_Verifier
begin

text \<open>
  The CPU manager: what verification and execution do to the nodes they are given, that the counts
  they return are the numbers of nodes without an error, and where the two disagree.
\<close>

section \<open>Walking over the nodes\<close>

text \<open>
  A round that replaces one node by a node computed from it, counts it if it is good and changes a
  further state \<open>m\<close>; \<open>walk\<close> is the loop over a list of nodes.
\<close>

fun walk :: "(nat \<Rightarrow> 'n \<Rightarrow> 'm \<Rightarrow> (bool \<times> 'n \<times> 'm) option) \<Rightarrow> nat \<Rightarrow> 'n list \<Rightarrow> 'm \<Rightarrow> (nat \<times> 'n list \<times> 'm) option" where
  "walk f i [] m = Some (0, [], m)"
| "walk f i (x # xs) m = do {
     (good, y, m') \<leftarrow> f i x m;
     (c, ys, m'') \<leftarrow> walk f (Suc i) xs m';
     Some ((if good then 1 else 0) + c, y # ys, m'') }"

lemma walk_length: "walk f i xs m = Some (c, ys, m') \<Longrightarrow> length ys = length xs \<and> c \<le> length xs"
  by (induction xs arbitrary: i m c ys) (fastforce simp: bind_eq_Some_conv split: prod.splits)+

text \<open>The loop of the code, which indexes the array and counts in 32 bits, is the walk over its part.\<close>

lemma for_range_walk:
  assumes round: "\<And>k c nodes m. k < size_max \<Longrightarrow> g (of_nat k) (c, nodes, m) = do {
      node \<leftarrow> nth_chk nodes k;
      (good, y, m') \<leftarrow> f k node m;
      Some (if good then c + 1 else c :: u32, nodes[k := y], m') }"
    and "i + n \<le> length nodes" "i + n \<le> size_max"
  shows "for_range i n g (c, nodes, m) = do {
      (k, ys, m') \<leftarrow> walk f i (take n (drop i nodes)) m;
      Some (c + of_nat k, take i nodes @ ys @ drop (i + n) nodes, m') }"
  using assms(2,3)
proof (induction n arbitrary: i c nodes m)
  case 0
  then show ?case by simp
next
  case (Suc n)
  then have i: "i < length nodes" "i < size_max" by simp_all
  have split: "take (Suc n) (drop i nodes) = nodes ! i # take n (drop (Suc i) nodes)"
    using i(1) by (simp add: Cons_nth_drop_Suc[symmetric])
  show ?case
  proof (cases "f i (nodes ! i) m")
    case None
    then show ?thesis using i by (simp add: round split nth_chk_def)
  next
    case (Some r)
    then obtain good y m1 where r: "f i (nodes ! i) m = Some (good, y, m1)" by (cases r) auto
    let ?nodes = "nodes[i := y]" and ?c = "if good then c + 1 else c"
    have "for_range (Suc i) n g (?c, ?nodes, m1) = do {
        (k, ys, m') \<leftarrow> walk f (Suc i) (take n (drop (Suc i) ?nodes)) m1;
        Some (?c + of_nat k, take (Suc i) ?nodes @ ys @ drop (Suc i + n) ?nodes, m') }"
      using Suc.prems by (intro Suc.IH) simp_all
    moreover have "take (Suc i) ?nodes = take i nodes @ [y]"
      using i(1) by (simp add: take_Suc_conv_app_nth)
    ultimately show ?thesis using i r
      by (cases "walk f (Suc i) (take n (drop (Suc i) nodes)) m1") (auto simp: round split nth_chk_def)
  qed
qed

section \<open>Verification\<close>

definition verify_round :: "u32 \<Rightarrow> knode_views \<Rightarrow> nat \<Rightarrow> DVP_KernelNode_t \<Rightarrow> unit \<Rightarrow> (bool \<times> DVP_KernelNode_t \<times> unit) option" where
  "verify_round mt V i node u = do {
     bad \<leftarrow> verify_convert mt V (n_data node) (kernel node);
     Some (\<not> bad, node\<lparr>n_error := (if bad then INVALID_PARAMETER_code else SUCCESS_code)\<rparr>, u) }"

text \<open>Every image a node's structures can hold has at most four planes, so that no check faults.\<close>

definition checks_return :: "u32 \<Rightarrow> knode_views \<Rightarrow> DVP_KernelNode_t \<Rightarrow> bool" where
  "checks_return mt V node \<longleftrightarrow> verify_convert mt V (n_data node) (kernel node) \<noteq> None"

definition passes :: "u32 \<Rightarrow> knode_views \<Rightarrow> DVP_KernelNode_t \<Rightarrow> bool" where
  "passes mt V node \<longleftrightarrow> verify_convert mt V (n_data node) (kernel node) = Some False"

interpretation cpu_verifier: node_verifier "verify_node mt V" "passes mt V" for mt V
proof
  fix i v ns v' ns'
  assume "verify_node mt V i (v, ns) = Some (v', ns')"
  then show "unat i < length ns \<and> (\<exists>err. ns' = ns[unat i := (ns ! unat i)\<lparr>n_error := err\<rparr>]) \<and>
      (v' = v \<or> v' = v + 1 \<and> passes mt V (ns ! unat i))"
    by (auto simp: verify_node_def passes_def nth_chk_def upd_chk_def split: if_splits option.splits bind_splits)
qed (simp add: passes_def)

lemma walk_verify:
  "\<forall>node\<in>set xs. checks_return mt V node \<Longrightarrow>
   walk (verify_round mt V) i xs () = Some (length (filter (passes mt V) xs),
     map (\<lambda>node. node\<lparr>n_error := (if passes mt V node then SUCCESS_code else INVALID_PARAMETER_code)\<rparr>) xs, ())"
proof (induction xs arbitrary: i)
  case (Cons x xs)
  then obtain bad where "verify_convert mt V (n_data x) (kernel x) = Some bad" by (auto simp: checks_return_def)
  then show ?case using Cons by (simp add: verify_round_def passes_def)
qed simp

lemma verify_node_round:
  assumes "k < size_max"
  shows "map_option (\<lambda>(c, ns). (c, ns, ())) (verify_node mt V (of_nat k) (c, nodes)) = do {
      node \<leftarrow> nth_chk nodes k;
      (good, y, u) \<leftarrow> verify_round mt V k node ();
      Some (if good then c + 1 else c, nodes[k := y], u) }"
  using assms
  by (auto simp: verify_node_def verify_round_def unat_of_nat_u32 nth_chk_def upd_chk_def split: bind_splits)

lemma for_range_map:
  "(\<And>k s. i \<le> k \<Longrightarrow> k < i + n \<Longrightarrow> map_option h (f (of_nat k) s) = g (of_nat k) (h s)) \<Longrightarrow>
   map_option h (for_range i n f s) = for_range i n g (h s)"
proof (induction n arbitrary: i s)
  case (Suc n)
  have step: "g (of_nat i) (h s) = map_option h (f (of_nat i) s)" using Suc.prems[of i s] by simp
  have "map_option h (for_range (Suc i) n f s') = for_range (Suc i) n g (h s')" for s'
    by (rule Suc.IH) (use Suc.prems in simp)
  then show ?case unfolding for_range.simps step by (cases "f (of_nat i) s") simp_all
qed simp

lemma cpu_verify_eq:
  assumes range: "unat start + unat num \<le> length nodes" "unat start + unat num < size_max"
    and total: "\<forall>node\<in>set nodes. checks_return mt V node"
  shows "DVP_KernelGraphManagerVerify mt V nodes start num =
    (let part = take (unat num) (drop (unat start) nodes) in
     Some (of_nat (length (filter (passes mt V) part)),
       take (unat start) nodes @
       map (\<lambda>node. node\<lparr>n_error := (if passes mt V node then SUCCESS_code else INVALID_PARAMETER_code)\<rparr>) part @
       drop (unat start + unat num) nodes))"
proof -
  let ?i = "unat start" and ?n = "unat num" and ?part = "take (unat num) (drop (unat start) nodes)"
  let ?h = "\<lambda>(c, ns). (c, ns, ())"
  define g where "g = (\<lambda>k (s :: u32 \<times> DVP_KernelNode_t list \<times> unit). case s of (c, ns, u) \<Rightarrow> map_option ?h (verify_node mt V k (c, ns)))"
  have stop: "unat (start + num) = ?i + ?n" using range(2) by (intro unat_add_small) simp
  have "map_option ?h (for_range ?i ?n (verify_node mt V) (0, nodes)) = for_range ?i ?n g (?h (0, nodes))"
    by (rule for_range_map) (auto simp: g_def)
  also have "\<dots> = for_range ?i ?n g (0, nodes, ())" by simp
  also have "\<dots> = do {
      (k, ys, m') \<leftarrow> walk (verify_round mt V) ?i ?part ();
      Some (0 + of_nat k, take ?i nodes @ ys @ drop (?i + ?n) nodes, m') }"
    by (rule for_range_walk) (use range in \<open>auto simp: g_def verify_node_round\<close>)
  also have "walk (verify_round mt V) ?i ?part () = Some (length (filter (passes mt V) ?part),
     map (\<lambda>node. node\<lparr>n_error := (if passes mt V node then SUCCESS_code else INVALID_PARAMETER_code)\<rparr>) ?part, ())"
    by (rule walk_verify) (use total in \<open>meson in_set_takeD in_set_dropD\<close>)
  finally show ?thesis unfolding DVP_KernelGraphManagerVerify_def stop
    by (cases "for_range ?i ?n (verify_node mt V) (0, nodes)") (auto simp: Let_def)
qed

text \<open>
  Verification of nodes whose images have at most four planes returns, whatever the kernels are: it
  returns the number of the nodes in the range that pass, sets the error of those to \<open>DVP_SUCCESS\<close> and
  of the others to \<open>DVP_ERROR_INVALID_PARAMETER\<close>, and changes nothing else of any node.
\<close>

theorem cpu_verify_counts:
  assumes "unat start + unat num \<le> length nodes" "unat start + unat num < size_max"
    and "\<forall>node\<in>set nodes. checks_return mt V node"
  shows "DVP_KernelGraphManagerVerify mt V nodes start num =
    (let part = take (unat num) (drop (unat start) nodes) in
     Some (of_nat (length (filter (passes mt V) part)),
       take (unat start) nodes @
       map (\<lambda>node. node\<lparr>n_error := (if passes mt V node then SUCCESS_code else INVALID_PARAMETER_code)\<rparr>) part @
       drop (unat start + unat num) nodes))"
  by (rule cpu_verify_eq[OF assms])

section \<open>Execution\<close>

definition exec_round ::
  "knode_views \<Rightarrow> (nat \<Rightarrow> rtime \<times> rtime) \<Rightarrow> rtime \<Rightarrow> nat \<Rightarrow> DVP_KernelNode_t \<Rightarrow> memory \<Rightarrow> (bool \<times> DVP_KernelNode_t \<times> memory) option" where
  "exec_round V clock freq k node m = do {
     (ok, m') \<leftarrow> exec_kernel V (n_data node) (kernel node) m;
     perf \<leftarrow> DVP_PerformanceStop (snd (clock k)) (DVP_PerformanceStart (fst (clock k)) ((n_perf node)\<lparr>rate := freq\<rparr>));
     Some (ok, node\<lparr>n_error := (if ok then SUCCESS_code else INVALID_PARAMETER_code), n_perf := perf\<rparr>, m') }"

lemma exec_node_round:
  assumes "k < size_max"
  shows "exec_node V clock freq (of_nat k) (c, nodes, m) = do {
      node \<leftarrow> nth_chk nodes k;
      (good, y, m') \<leftarrow> exec_round V clock freq k node m;
      Some (if good then c + 1 else c, nodes[k := y], m') }"
  using assms
  by (auto simp: exec_node_def exec_round_def unat_of_nat_u32 nth_chk_def upd_chk_def Let_def split: bind_splits prod.splits)

lemma exec_round_error:
  "exec_round V clock freq k node m = Some (good, y, m') \<Longrightarrow>
   good = (n_error y = SUCCESS_code) \<and> kernel y = kernel node \<and> n_data y = n_data node"
  by (cases good) (auto simp: exec_round_def bind_eq_Some_conv)

lemma walk_counts_good:
  assumes "\<And>k x m y m' good. f k x m = Some (good, y, m') \<Longrightarrow> good = P y"
  shows "walk f i xs m = Some (c, ys, m') \<Longrightarrow> c = length (filter P ys)"
  by (induction xs arbitrary: i m c ys) (auto simp: bind_eq_Some_conv split: prod.splits dest: assms)

text \<open>
  C34. A synchronous execution is the execution of its nodes one after the other in the order of the array,
  each on the memory its predecessor left; nodes outside the range are untouched, and the call returns
  how many nodes succeeded, since a failing kernel takes back the node that the loop then counts.
\<close>

theorem cpu_runs_in_order:
  assumes "unat start + unat num \<le> length nodes" "unat start + unat num < size_max"
  shows "DVP_KernelGraphManager_CPU V clock freq (Some nodes) start num m = do {
      (c, ys, m') \<leftarrow> walk (exec_round V clock freq) (unat start) (take (unat num) (drop (unat start) nodes)) m;
      Some (of_nat (length (filter (\<lambda>y. n_error y = SUCCESS_code) ys)),
        Some (take (unat start) nodes @ ys @ drop (unat start + unat num) nodes), m') }"
proof -
  let ?w = "walk (exec_round V clock freq) (unat start) (take (unat num) (drop (unat start) nodes)) m"
  have stop: "unat (start + num) = unat start + unat num" using assms(2) by (intro unat_add_small) simp
  have run: "for_range (unat start) (unat num) (exec_node V clock freq) (0, nodes, m) = do {
      (k, ys, m') \<leftarrow> ?w; Some (0 + of_nat k, take (unat start) nodes @ ys @ drop (unat start + unat num) nodes, m') }"
    by (rule for_range_walk) (use assms in \<open>simp_all add: exec_node_round\<close>)
  show ?thesis
  proof (cases ?w)
    case (Some r)
    obtain c ys m' where r: "r = (c, ys, m')" by (cases r)
    have "c = length (filter (\<lambda>y. n_error y = SUCCESS_code) ys)"
      by (rule walk_counts_good[where f = "exec_round V clock freq"]) (use Some r exec_round_error in \<open>auto\<close>)
    then show ?thesis using run Some r by (simp add: DVP_KernelGraphManager_CPU_def stop)
  qed (use run in \<open>simp add: DVP_KernelGraphManager_CPU_def stop\<close>)
qed

text \<open>Nodes that copy between disjoint, mapped images, or do nothing, and whose counters do not wrap.\<close>

definition copies :: "knode_views \<Rightarrow> memory \<Rightarrow> DVP_KernelNode_t \<Rightarrow> bool" where
  "copies V m node \<longleftrightarrow> numTimes (n_perf node) + 1 \<noteq> 0 \<and>
     (kernel node = DVP_KN_NOOP \<or> kernel node = DVP_KN_COPY \<and>
      copy_ready (tr_output (to_Transform V (n_data node))) (tr_input (to_Transform V (n_data node))) m)"

definition writes :: "knode_views \<Rightarrow> DVP_KernelNode_t \<Rightarrow> u32 set" where
  "writes V node = (if kernel node = DVP_KN_COPY then image_area (tr_output (to_Transform V (n_data node))) else {})"

lemma copies_dom: "dom m' = dom m \<Longrightarrow> copies V m' node = copies V m node"
  by (simp add: copies_def copy_ready_def)

lemma perf_stop_total: "numTimes p + 1 \<noteq> 0 \<Longrightarrow> \<exists>q. DVP_PerformanceStop b (DVP_PerformanceStart a (p\<lparr>rate := r\<rparr>)) = Some q"
  by (simp add: DVP_PerformanceStop_def DVP_PerformanceStart_def Let_def)

lemma exec_round_copies:
  assumes "copies V m node"
  shows "\<exists>y m'. exec_round V clock freq k node m = Some (True, y, m') \<and> n_error y = SUCCESS_code \<and>
    dom m' = dom m \<and> (\<forall>a. a \<notin> writes V node \<longrightarrow> m' a = m a)"
proof -
  have "\<exists>m'. exec_kernel V (n_data node) (kernel node) m = Some (True, m') \<and> dom m' = dom m \<and>
      (\<forall>a. a \<notin> writes V node \<longrightarrow> m' a = m a)"
  proof (cases "kernel node = DVP_KN_COPY")
    case True
    then have "copy_ready (tr_output (to_Transform V (n_data node))) (tr_input (to_Transform V (n_data node))) m"
      using assms by (simp add: copies_def)
    from copy_same_color[OF this] show ?thesis using True by (auto simp: exec_kernel_def writes_def)
  next
    case False
    then show ?thesis using assms by (auto simp: copies_def exec_kernel_def)
  qed
  then obtain m' where m': "exec_kernel V (n_data node) (kernel node) m = Some (True, m')" "dom m' = dom m"
      "\<forall>a. a \<notin> writes V node \<longrightarrow> m' a = m a" by blast
  obtain q where "DVP_PerformanceStop (snd (clock k)) (DVP_PerformanceStart (fst (clock k)) ((n_perf node)\<lparr>rate := freq\<rparr>)) = Some q"
    using perf_stop_total[of "n_perf node"] assms unfolding copies_def by blast
  then show ?thesis using m' by (simp add: exec_round_def)
qed

lemma walk_copies:
  "\<forall>node\<in>set xs. copies V m node \<Longrightarrow>
   \<exists>ys m'. walk (exec_round V clock freq) i xs m = Some (length xs, ys, m') \<and> (\<forall>y\<in>set ys. n_error y = SUCCESS_code) \<and>
     (\<forall>a. (\<forall>node\<in>set xs. a \<notin> writes V node) \<longrightarrow> m' a = m a)"
proof (induction xs arbitrary: i m)
  case (Cons x xs)
  then obtain y m1 where 1: "exec_round V clock freq i x m = Some (True, y, m1)" "n_error y = SUCCESS_code"
      "dom m1 = dom m" "\<forall>a. a \<notin> writes V x \<longrightarrow> m1 a = m a"
    using exec_round_copies[of V m x clock freq i] by auto
  have "\<forall>node\<in>set xs. copies V m1 node" using Cons.prems copies_dom[OF 1(3)] by simp
  from Cons.IH[OF this, of "Suc i"] 1 show ?case by auto
qed simp

text \<open>
  Executing nodes that copy between well-formed images in mapped memory, or do nothing, returns: every
  node is processed and reports success, and no byte outside the destinations of the copies changes.
\<close>

theorem cpu_copies_all:
  assumes "unat start + unat num \<le> length nodes" "unat start + unat num < size_max"
    and "\<forall>node\<in>set (take (unat num) (drop (unat start) nodes)). copies V m node"
  shows "\<exists>ys m'. DVP_KernelGraphManager_CPU V clock freq (Some nodes) start num m =
      Some (num, Some (take (unat start) nodes @ ys @ drop (unat start + unat num) nodes), m') \<and>
    length ys = unat num \<and> (\<forall>y\<in>set ys. n_error y = SUCCESS_code) \<and>
    (\<forall>a. (\<forall>node\<in>set (take (unat num) (drop (unat start) nodes)). a \<notin> writes V node) \<longrightarrow> m' a = m a)"
proof -
  let ?g = "exec_node V clock freq" and ?part = "take (unat num) (drop (unat start) nodes)"
  have stop: "unat (start + num) = unat start + unat num" using assms(2) by (intro unat_add_small) simp
  have run: "for_range (unat start) (unat num) ?g (0, nodes, m) = do {
      (k, ys, m') \<leftarrow> walk (exec_round V clock freq) (unat start) ?part m;
      Some (0 + of_nat k, take (unat start) nodes @ ys @ drop (unat start + unat num) nodes, m') }"
    by (rule for_range_walk) (use assms in \<open>simp_all add: exec_node_round\<close>)
  obtain ys m' where w: "walk (exec_round V clock freq) (unat start) ?part m = Some (length ?part, ys, m')"
    "\<forall>y\<in>set ys. n_error y = SUCCESS_code" "\<forall>a. (\<forall>node\<in>set ?part. a \<notin> writes V node) \<longrightarrow> m' a = m a"
    using walk_copies[OF assms(3)] by blast
  have "length ?part = unat num" using assms(1) by simp
  then show ?thesis using w walk_length[OF w(1)] run by (auto simp: DVP_KernelGraphManager_CPU_def stop)
qed

section \<open>Where verification and execution disagree\<close>

text \<open>
  Only the kernels that the manager offers can be executed: any other kernel fails without touching
  memory, although verification passes a kernel that it does not know.
\<close>

theorem unsupported_kernels_fail:
  assumes "k \<notin> cf_kernel ` set (snd DVP_GetSupportedKernels)"
  shows "exec_kernel V d k m = Some (False, m)"
  using assms by (simp add: DVP_GetSupportedKernels_def local_kernels_def exec_kernel_def)

text \<open>
  A threshold node whose output is larger than its input passes verification when its images are
  valid, but its execution always fails: it demands equal sizes.
\<close>

theorem threshold_verified_then_fails:
  assumes "kernel node = DVP_KN_THRESHOLD" "passes mt V node"
    and "height (tr_input (to_Transform V (n_data node))) < height (tr_output (to_Transform V (n_data node)))"
  shows "exec_kernel V (n_data node) (kernel node) m = Some (False, m)"
  using assms by (auto simp: exec_kernel_def exec_threshold_def)

section \<open>Examples\<close>

definition ex_y800 :: "u32 \<Rightarrow> u32 \<Rightarrow> DVP_Image_t" where
  "ex_y800 a h = zero_image\<lparr>pData := [a, 0, 0, 0], pBuffer := [a, 0, 0, 0], planes := 1, width := 2, height := h,
     bufWidth := 2, bufHeight := h, x_stride := 1, y_stride := 2, color := FOURCC_Y800, numBytes := 2 * h, memType := 1\<rparr>"

text \<open>The data region \<open>[1]\<close> is read as a pair of Y800 images, any other as the pair of NV12 images.\<close>

definition ex_views :: knode_views where
  "ex_views = \<lparr>to_ImageDebug = \<lambda>_. \<lparr>dbg_image = ex_nv12\<rparr>,
     to_BufferDebug = \<lambda>_. \<lparr>dbg_buffer = \<lparr>buf_pData = 0, buf_elemSize = 0, buf_numBytes = 0, buf_memType = 0,
       buf_reserved = 0, buf_skipCacheOpInval = 0, buf_skipCacheOpFlush = 0\<rparr>\<rparr>,
     to_Transform = \<lambda>d. if d = [1] then \<lparr>tr_input = ex_y800 64 1, tr_output = ex_y800 128 2\<rparr>
                       else \<lparr>tr_input = ex_nv12, tr_output = ex_dst\<rparr>,
     to_Morphology = \<lambda>_. \<lparr>mo_input = ex_nv12, mo_output = ex_nv12, mo_mask = ex_nv12\<rparr>,
     to_IIR = \<lambda>_. \<lparr>iir_input = ex_nv12, iir_output = ex_nv12, iir_bounds = [], iir_scratch = ex_nv12, iir_weight = 0\<rparr>,
     to_ImageConvolution = \<lambda>_. \<lparr>conv_input = ex_nv12, conv_output = ex_nv12, conv_mask = ex_nv12, conv_shiftMask = 0\<rparr>,
     to_Canny2dGradient = \<lambda>_. \<lparr>cg_input = ex_nv12, cg_outGradX = ex_nv12, cg_outGradY = ex_nv12, cg_outMag = ex_nv12\<rparr>,
     to_Threshold = \<lambda>_. \<lparr>th_input = ex_nv12, th_output = ex_nv12, th_thresh = 0\<rparr>,
     to_Gamma = \<lambda>_. \<lparr>ga_input = ex_nv12, ga_output = ex_nv12, ga_gammaLut = []\<rparr>\<rparr>"

definition ex_cpu_node :: "int \<Rightarrow> u8 list \<Rightarrow> DVP_KernelNode_t" where
  "ex_cpu_node k d = \<lparr>kernel = k, affinity = 0, n_error = 0, configured = True, mgrIndex = 0, funcIndex = 0,
     n_perf = \<lparr>numTimes = 0, tmpTime = 0, minTime = 0, maxTime = 0, avgTime = 0, sumTime = 0, rate = 1\<rparr>, n_data = d\<rparr>"

lemmas ex_cpu_defs = ex_views_def ex_cpu_node_def ex_y800_def zero_image_def

lemmas validate_defs = image_bad_def DVP_Image_Validate_def validate_plane_def match_colors_def nth_chk_def
  geometry_defs DVP_Image_PlaneRange_def DVP_Image_LineRange_def DVP_Image_LineSize_def abs32_def word_sless_alt

lemma ex_threshold_passes: "passes 1 ex_views (ex_cpu_node DVP_KN_THRESHOLD [1])"
  by (simp add: passes_def verify_convert_def verify_transform_def ex_cpu_defs validate_defs Let_def)

lemma ex_unknown_passes: "passes 1 ex_views (ex_cpu_node 0x12345 [])"
  by (simp add: passes_def verify_convert_def verify_transform_def verify_area_def verify_filters_def ex_cpu_node_def Let_def)

theorem cpu_verify_counts_witness:
  "DVP_KernelGraphManagerVerify 1 ex_views
     [ex_cpu_node 0 [], ex_cpu_node DVP_KN_THRESHOLD [1], ex_cpu_node DVP_KN_BUFFER_DEBUG [], ex_cpu_node 0 []] 1 2 =
   Some (1, [ex_cpu_node 0 [], (ex_cpu_node DVP_KN_THRESHOLD [1])\<lparr>n_error := SUCCESS_code\<rparr>,
     (ex_cpu_node DVP_KN_BUFFER_DEBUG [])\<lparr>n_error := INVALID_PARAMETER_code\<rparr>, ex_cpu_node 0 []])"
proof -
  have k: "kernel (ex_cpu_node k d) = k" "n_data (ex_cpu_node k d) = d" for k d by (simp_all add: ex_cpu_node_def)
  have buf: "verify_convert 1 ex_views [] DVP_KN_BUFFER_DEBUG = Some True"
    by (simp add: verify_convert_def verify_transform_def ex_views_def DVP_Buffer_Validate_def Let_def)
  have zero: "verify_convert 1 ex_views [] 0 = Some False"
    by (simp add: verify_convert_def verify_transform_def verify_area_def verify_filters_def Let_def)
  have thr: "verify_convert 1 ex_views [1] DVP_KN_THRESHOLD = Some False"
    using ex_threshold_passes by (simp add: passes_def k)
  show ?thesis
    using cpu_verify_counts[of 1 2 "[ex_cpu_node 0 [], ex_cpu_node DVP_KN_THRESHOLD [1], ex_cpu_node DVP_KN_BUFFER_DEBUG [], ex_cpu_node 0 []]" 1 ex_views]
    by (simp add: checks_return_def passes_def k buf zero thr Let_def ex_bool_eq)
qed

theorem cpu_runs_in_order_witness:
  "DVP_KernelGraphManager_CPU ex_views (\<lambda>_. (0, 5)) 1 (Some [ex_cpu_node 0 [], ex_cpu_node DVP_KN_NOOP []]) 0 2 Map.empty = do {
      (c, ys, m') \<leftarrow> walk (exec_round ex_views (\<lambda>_. (0, 5)) 1) 0 [ex_cpu_node 0 [], ex_cpu_node DVP_KN_NOOP []] Map.empty;
      Some (of_nat (length (filter (\<lambda>y. n_error y = SUCCESS_code) ys)), Some ys, m') }"
  by (subst cpu_runs_in_order) simp_all

theorem cpu_copies_all_witness:
  "\<exists>ys m'. DVP_KernelGraphManager_CPU ex_views (\<lambda>_. (0, 5)) 1
     (Some [ex_cpu_node DVP_KN_COPY [], ex_cpu_node DVP_KN_NOOP []]) 0 2 ex_memory = Some (2, Some ys, m') \<and>
     length ys = 2 \<and> (\<forall>y\<in>set ys. n_error y = SUCCESS_code)"
proof -
  have "copies ex_views ex_memory (ex_cpu_node DVP_KN_COPY [])" "copies ex_views ex_memory (ex_cpu_node DVP_KN_NOOP [])"
    using ex_copy_ready by (simp_all add: copies_def ex_cpu_node_def ex_views_def)
  then show ?thesis
    using cpu_copies_all[of 0 2 "[ex_cpu_node DVP_KN_COPY [], ex_cpu_node DVP_KN_NOOP []]" ex_views ex_memory "\<lambda>_. (0, 5)" 1]
    by auto
qed

theorem unsupported_kernels_fail_witness:
  "exec_kernel ex_views [] 0x12345 Map.empty = Some (False, Map.empty) \<and> passes 1 ex_views (ex_cpu_node 0x12345 [])"
  using unsupported_kernels_fail[of "0x12345" ex_views "[]" Map.empty] ex_unknown_passes
  by (simp add: DVP_GetSupportedKernels_def local_kernels_def)

theorem threshold_verified_then_fails_witness:
  "exec_kernel ex_views [1] DVP_KN_THRESHOLD Map.empty = Some (False, Map.empty)"
  using threshold_verified_then_fails[OF _ ex_threshold_passes, of Map.empty] by (simp add: ex_cpu_defs)

end
