(* ===== verification/Dvp_RemoteProps.thy ===== *)
theory Dvp_RemoteProps
  imports Dvp_RemoteSpec Dvp_CpuRun
begin

text \<open>
  The managers of the remote cores: their tables agree, nodes are run with exactly the translations of their pointers, what an unknown
  kernel does to the lock, how many nodes fit into a call, and what becomes of the channel when a core crashes.
\<close>

section \<open>SIMCOP and the DSP\<close>

lemma simcop_left:
  assumes "nodes_ready A E (simcop_prepare V) ns p fd addr i n" and "map kernel ns' = map kernel ns"
    and "\<forall>k. i \<le> k \<longrightarrow> k < i + n \<longrightarrow> list_all operand_shape (node_operands (simcop_return V) (ns' ! k))"
  shows "nodes_left (simcop_return V) ns' i n"
proof -
  have len: "length ns' = length ns" using arg_cong[OF assms(2), of length] by simp
  have "simcop_return V (kernel (ns' ! k)) (n_data (ns' ! k)) \<noteq> None" if "i \<le> k" "k < i + n" for k
  proof -
    have "k < length ns" using assms(1) that(2) by (simp add: nodes_ready_def)
    then have "kernel (ns' ! k) = kernel (ns ! k)" using assms(2) len by (metis nth_map)
    moreover have "simcop_prepare V (kernel (ns ! k)) (n_data (ns ! k)) \<noteq> None"
      using assms(1) that by (auto simp: nodes_ready_def node_shared_def)
    ultimately show ?thesis by (simp add: simcop_return_listed simcop_prepare_listed)
  qed
  then show ?thesis using assms(1,3) len by (simp add: nodes_left_def nodes_ready_def)
qed

lemma dsp_unknown_returns:
  assumes "\<not> dsp_listed (kernel (ns ! unat start))" and "unat start < length ns" and "unat start < unat (start + num)"
    and "kgm_rpc S = Some r" and "kgm_core S = Some c" and "coreLock S > 0"
    and "dvp_rpc_get_handle (en_fd_at E) (Some r) addr = Some fd"
  shows "DVP_KernelGraphManager_DSP D E V after addr (Some ns) start num S d =
     Some (Returns \<lparr>rr_processed = 0, rr_before = [], rr_after = [], rr_kgm = S\<lparr>coreLock := coreLock S - 1\<rparr>, rr_driver = d\<rparr>)"
proof -
  obtain n where n: "unat (start + num) - unat start = Suc n" using assms(3) by (metis Suc_diff_Suc)
  have "dsp_prepare V (kernel (ns ! unat start)) (n_data (ns ! unat start)) = None" using assms(1) by (simp add: dsp_prepare_listed)
  then show ?thesis using assms(2,4-7)
    by (simp add: DVP_KernelGraphManager_DSP_def remote_manager_def Let_def n nth_chk_Some)
qed

lemma dsp_verify_loop:
  assumes "i + n \<le> length ns" and "i + n \<le> 2 ^ 32"
  shows "\<exists>ns'. for_range i n (\<lambda>n ns. do { node \<leftarrow> nth_chk ns (unat n); upd_chk ns (unat n) (node\<lparr>n_error := SUCCESS_code\<rparr>) }) ns =
     Some ns' \<and> map kernel ns' = map kernel ns"
  using assms
proof (induction n arbitrary: i ns)
  case (Suc n)
  let ?ns = "ns[i := (ns ! i)\<lparr>n_error := SUCCESS_code\<rparr>]"
  have "unat (of_nat i :: u32) = i" using Suc.prems by (simp add: unat_of_nat take_bit_nat_eq_self)
  moreover have "map kernel ?ns = map kernel ns" using Suc.prems(1) by (simp add: map_update list_update_same_conv)
  ultimately show ?case using Suc.IH[of "Suc i" ?ns] Suc.prems by (simp add: nth_chk_Some upd_chk_Some)
qed simp

section \<open>How many nodes fit\<close>

fun operand_planes_ok :: "operand \<Rightarrow> bool" where
  "operand_planes_ok (Img im off c) = (planes im \<le> 4)"
| "operand_planes_ok _ = True"

fun operand_weight :: "operand \<Rightarrow> nat" where
  "operand_weight (Img im off c) = 4"
| "operand_weight _ = 1"

lemma operand_pointers_weight: "operand_planes_ok x \<Longrightarrow> length (operand_pointers x) \<le> operand_weight x"
  by (cases x) (auto simp: word_le_nat_alt)

lemma pointers_weight:
  "list_all operand_planes_ok xs \<Longrightarrow> length (concat (map operand_pointers xs)) \<le> sum_list (map operand_weight xs)"
  by (induction xs) (auto dest!: operand_pointers_weight)

lemma simcop_weight: "simcop_prepare V k d = Some xs \<Longrightarrow> sum_list (map operand_weight xs) \<le> 24"
  by (auto simp: simcop_prepares Let_def comp_def case_prod_unfold sum_list_triv split: if_splits)

lemma dsp_weight: "dsp_prepare V k d = Some xs \<Longrightarrow> sum_list (map operand_weight xs) \<le> 11"
  by (auto simp: dsp_prepares Let_def split: if_splits)

lemma nodes_translations_bound:
  assumes "\<And>k. i \<le> k \<Longrightarrow> k < i + n \<Longrightarrow> length (concat (map operand_pointers (node_operands prep (ns ! k)))) \<le> b"
  shows "length (nodes_translations A fd_at prep ns i n) \<le> b * n"
  using assms
proof (induction n arbitrary: i)
  case (Suc n)
  have "length (nodes_translations A fd_at prep ns (Suc i) n) \<le> b * n" using Suc.prems by (intro Suc.IH) simp_all
  then show ?case using Suc.prems[of i] by (simp add: nodes_lists_Suc)
qed simp

section \<open>Examples\<close>

text \<open>
  Two nodes at \<open>0x10200\<close>, in a block from \<open>0x10000\<close> whose handle \<open>0x80\<close> has the file descriptor 7; the images of a copy are in the same
  block. The driver counts the calls; the other one has crashed at first and reopens its device as 5.
\<close>

definition ex_remote_env :: remote_env where
  "ex_remote_env = \<lparr>en_fd_at = (\<lambda>h. if h = 0x80 then Some 7 else None), en_readable = (\<lambda>_. True), en_memory = True\<rparr>"

definition ex_shared :: "u32 \<Rightarrow> (u32 \<times> u32) option" where
  "ex_shared = Map.empty(0x10000 \<mapsto> (0x11000, 0x80))"

definition ex_plane :: DVP_Image_t where
  "ex_plane = (ex_y800 0x10000 2)\<lparr>memType := DVP_MTYPE_MPUCACHED_1DTILED\<rparr>"

definition ex_buffer :: DVP_Buffer_t where
  "ex_buffer = \<lparr>buf_pData = 0x10000, buf_elemSize = 1, buf_numBytes = 16, buf_memType = 0, buf_reserved = 0,
     buf_skipCacheOpInval = 0, buf_skipCacheOpFlush = 0\<rparr>"

definition ex_remote_views :: remote_views where
  "ex_remote_views = knode_views.extend (ex_views\<lparr>to_Transform := \<lambda>_. \<lparr>tr_input = ex_plane, tr_output = ex_plane\<rparr>\<rparr>)
     (remote_views.fields
       (\<lambda>_. \<lparr>cn_inMag = ex_plane, cn_inGradX = ex_plane, cn_inGradY = ex_plane, cn_output = ex_plane\<rparr>)
       (\<lambda>_. \<lparr>ch_inMag = ex_plane, ch_inEdgeMap = ex_plane, ch_output = ex_plane, ch_loThresh = 0, ch_hiThresh = 0, ch_numEdges = 0\<rparr>)
       (\<lambda>_. \<lparr>sad_input = ex_plane, sad_output = ex_plane, sad_refImg = ex_plane, sad_shiftMask = 0, sad_refPitch = 0, sad_refStartOffset = 0\<rparr>)
       (\<lambda>_. \<lparr>py_input = ex_plane, py_output = ex_buffer\<rparr>)
       (\<lambda>_. \<lparr>ldc_input = ex_plane, ldc_output = ex_plane, ldc_ldcLut = ex_buffer\<rparr>)
       (\<lambda>_. \<lparr>hc_input = ex_plane, hc_output = ex_plane, hc_tempBuf1 = ex_plane, hc_tempBuf2 = ex_plane, hc_tempBuf3 = ex_plane,
          hc_tempBuf4 = ex_plane, hc_nplus1 = 0, hc_k = 0\<rparr>)
       (\<lambda>_. \<lparr>ha_input = ex_plane, ha_harrisScore = ex_plane, ha_k = 0\<rparr>)
       (\<lambda>_. \<lparr>bm_input = ex_plane, bm_blockMaximaX = ex_plane, bm_blockMaximaY = ex_plane, bm_blockMaximaMAX = ex_plane, bm_nplus1 = 0\<rparr>)
       (\<lambda>_. \<lparr>nms_X = ex_plane, nms_Y = ex_plane, nms_Dst = ex_plane, nms_nplus1 = 0\<rparr>)
       (\<lambda>_. \<lparr>df_input0 = ex_buffer, df_input1 = ex_buffer, df_twoway = ex_buffer, df_output0 = ex_buffer, df_output1 = ex_buffer,
          df_val1 = 0, df_val2 = 0, df_val3 = 0\<rparr>)
       (\<lambda>_. \<lparr>mm_input0 = ex_buffer, mm_input1 = ex_buffer, mm_output0 = ex_buffer, mm_r1 = 0, mm_c1 = 0, mm_r2 = 0, mm_c2 = 0, mm_qs = 0\<rparr>)
       (\<lambda>_. \<lparr>de_phy_fld_in_current = ex_plane, de_phy_fld_in_prev = ex_plane, de_phy_luma_d0 = ex_buffer, de_phy_luma_d1 = ex_buffer,
          de_phy_luma_d2 = ex_buffer, de_phy_virt_flag = 0\<rparr>))"

lemma ex_remote_transform: "to_Transform ex_remote_views = (\<lambda>_. \<lparr>tr_input = ex_plane, tr_output = ex_plane\<rparr>)"
  by (simp add: ex_remote_views_def knode_views.defs)

definition ex_remote_nodes :: "DVP_KernelNode_t list" where
  "ex_remote_nodes = [ex_cpu_node DVP_KN_COPY [], ex_cpu_node DVP_KN_NOOP []]"

definition ex_remote_driver :: "nat driver" where
  "ex_remote_driver = \<lparr>drv_open = (\<lambda>_ d. (5, d)), drv_create = (\<lambda>_ _ d. (0, d)), drv_destroy = (\<lambda>_ d. d), drv_close = (\<lambda>_ d. d),
     drv_write = (\<lambda>_ _ d. (1, ENXIO, Suc d)), drv_read = (\<lambda>_ d. (1, ENXIO, 2, d))\<rparr>"

definition ex_crashed_driver :: "int \<Rightarrow> nat driver" where
  "ex_crashed_driver ret = ex_remote_driver\<lparr>drv_create := (\<lambda>_ _ d. (ret, d)),
     drv_write := (\<lambda>fd _ d. (if fd = 5 then 1 else -1, ENXIO, Suc d))\<rparr>"

definition ex_channel :: omaprpc_t where
  "ex_channel = \<lparr>device = 3, dev_name = ''/dev/dvp_kgm_simcop'', create_name = ''dvp_kgm_simcop'', retries = 100, num_funcs = 3,
     has_restart = True, in_restart = False\<rparr>"

definition ex_core :: DVP_RPC_Core_t where
  "ex_core = \<lparr>coreEnum = 1, channel = Live ex_channel, callback = True\<rparr>"

lemmas ex_remote_defs = ex_remote_env_def ex_shared_def ex_remote_nodes_def ex_remote_driver_def ex_crashed_driver_def
  ex_channel_def ex_core_def

lemma ex_rpc: obtains r where "rpc_repr r ex_shared"
proof -
  obtain r where r: "rpc_repr r Map.empty" "rpc_room r 0x10000" "range_nodes r = (\<lambda>_. None)"
    using rpc_init_repr by blast
  obtain f where f: "hndl_hash r = Some f" using r(1) unfolding rpc_repr_def by blast
  have "\<exists>e \<in> set (fph_block f (the (fph_hash f 0x10000))). kv_key e = 0x10000 \<or> kv_key e = 0"
    using r(2) by (simp add: rpc_room_def f list_ex_iff)
  then show thesis
    using that rpc_associate_stored[OF r(1) f, of "0x10000" "0x1000" DVP_MTYPE_MPUCACHED_1DTILED 0 "0x80"] r(3)
    by (auto simp: remote_memory_def ex_shared_def)
qed

lemma ex_node_operands:
  "simcop_prepare ex_remote_views DVP_KN_COPY [] = Some [Img ex_plane 0 True, Img ex_plane 92 False]"
  "simcop_prepare ex_remote_views DVP_KN_NOOP [] = Some []"
  "simcop_return ex_remote_views DVP_KN_COPY [] = Some [Img ex_plane 0 False, Img ex_plane 92 True]"
  "simcop_return ex_remote_views DVP_KN_NOOP [] = Some []"
  by (simp_all add: simcop_prepare_def simcop_return_def simcop_nothing_def ex_remote_transform)

lemma ex_upt: "[0..<2] = [0, 1]"
  by (auto simp: upt_rec)

lemma ex_plane_operand:
  "planes ex_plane = 1" "planes ex_plane \<le> 4" "pBuffer ex_plane = [0x10000, 0, 0, 0]" "memType ex_plane = DVP_MTYPE_MPUCACHED_1DTILED"
  by (simp_all add: ex_plane_def ex_y800_def)

lemma ex_nodes_ready: "nodes_ready ex_shared ex_remote_env (simcop_prepare ex_remote_views) ex_remote_nodes 0x10000 7 0x10200 0 2"
  by (simp add: nodes_ready_def ex_upt All_less_Suc ex_remote_nodes_def node_shared_def node_operands_def ex_cpu_node_def ex_node_operands
    operand_shared_def ex_plane_operand image_pointer_def shared_pointer_def ex_remote_env_def ex_shared_def nodes_translations_def)

lemma ex_shapes: "\<forall>k. 0 \<le> k \<longrightarrow> k < 0 + 2 \<longrightarrow> list_all operand_shape (node_operands (simcop_return ex_remote_views) (ex_remote_nodes ! k))"
  by (simp add: ex_upt All_less_Suc ex_remote_nodes_def node_operands_def ex_cpu_node_def ex_node_operands ex_plane_operand)

section \<open>Properties\<close>

text \<open>C28. The tables of a remote manager agree. SIMCOP advertises exactly the kernels that its two switches and its verification know, and the
  second switch takes back the same operands at the same places as the first has prepared. For every advertised kernel each operand has
  its \<open>cacheOp\<close> set in the first switch (flushed before the call) or in the second (invalidated after it); the only exceptions are the
  scratch image of the four IIR filters, at 208, and the input of the block maxima, at 0. The DSP advertises what its two switches know,
  which name the same operands in another order, and of its operands none is left out.\<close>

theorem remote_tables_agree:
  "(simcop_prepare V k d \<noteq> None \<longleftrightarrow> k \<in> cf_kernel ` set (simcop_kernels V)) \<and>
   (simcop_check mt V k d \<noteq> None \<longleftrightarrow> k \<in> cf_kernel ` set (simcop_kernels V)) \<and>
   map_option (map operand_place) (simcop_prepare V k d) = map_option (map operand_place) (simcop_return V k d) \<and>
   left_uncovered (simcop_prepare V k d) (simcop_return V k d) =
     (if k \<in> cf_kernel ` set (simcop_kernels V)
      then Some (if simcop_iir k then [208] else if k = DVP_KN_VRUN_BLOCK_MAXIMA then [0] else []) else None) \<and>
   (dsp_prepare V k d \<noteq> None \<longleftrightarrow> k \<in> cf_kernel ` set dsp_kernels) \<and>
   map_option (\<lambda>xs. mset (map operand_place xs)) (dsp_prepare V k d) =
     map_option (\<lambda>xs. mset (map operand_place xs)) (dsp_return V k d) \<and>
   left_uncovered (dsp_prepare V k d) (dsp_return V k d) = (if k \<in> cf_kernel ` set dsp_kernels then Some [] else None)"
proof -
  have listed: "simcop_listed V k \<longleftrightarrow> k \<in> cf_kernel ` set (simcop_kernels V)" "dsp_listed k \<longleftrightarrow> k \<in> cf_kernel ` set dsp_kernels"
    by (auto simp: simcop_listed_def dsp_listed_def list_ex_iff)
  have simcop: "left_uncovered (simcop_prepare V k d) (simcop_return V k d) = None \<longleftrightarrow> \<not> simcop_listed V k"
    by (rule left_uncovered_None[OF simcop_places simcop_prepare_listed])
  have dsp: "left_uncovered (dsp_prepare V k d) (dsp_return V k d) = None \<longleftrightarrow> \<not> dsp_listed k"
    by (rule left_uncovered_None[OF dsp_places dsp_prepare_listed])
  show ?thesis
    unfolding simcop_prepare_listed simcop_check_listed dsp_prepare_listed listed[symmetric]
    using simcop_places dsp_places simcop dsp simcop_uncovered[of V k d] dsp_uncovered[of V k d] by auto
qed

text \<open>C7. Nodes whose operands are shared are run with exactly one message to the driver: it holds the nodes with their block and file
  descriptor, and for every pointer of every operand, in order, its place, its value and its handle. Before it the operands are flushed,
  after it invalidated, as the two switches say. The call returns, the lock is free again, and the result is the count of the remote core.\<close>

theorem simcop_run_exact:
  fixes start num :: u32
  assumes "rpc_repr r A" and "kgm_rpc S = Some r" and "kgm_core S = Some c" and "coreLock S > 0"
    and "channel c = Live ch" and "2 < num_funcs ch" and n: "n = unat (start + num) - unat start"
    and ready: "nodes_ready A E (simcop_prepare V) ns p fd addr (unat start) n"
    and ts: "ts = nodes_translations A (en_fd_at E) (simcop_prepare V) ns (unat start) n"
    and "drv_write D (device ch) (exec_message p addr fd start num ts) d = (w, ew, dw)" and "0 \<le> w"
    and "drv_read D (device ch) dw = (rd, er, status, dr)" and "0 \<le> rd"
    and left: "map kernel (after dr) = map kernel ns"
      "\<forall>k. unat start \<le> k \<longrightarrow> k < unat start + n \<longrightarrow> list_all operand_shape (node_operands (simcop_return V) (after dr ! k))"
  shows "DVP_KernelGraphManager_SIMCOP D E V after addr (Some ns) start num S d =
     Some (Returns \<lparr>rr_processed = if 0 \<le>s status then status else 0, rr_before = nodes_flushes (simcop_prepare V) ns (unat start) n,
       rr_after = nodes_invalidates (simcop_return V) (after dr) (unat start) n, rr_kgm = S, rr_driver = dr\<rparr>)"
proof -
  have "S\<lparr>kgm_core := Some c\<rparr> = S" using assms(3) by (cases S) simp
  then show ?thesis
    using remote_run_with[where restart = "DVP_KernelGraphManagerRestart_SIMCOP D E" and after = after, OF assms(1-4) ready[unfolded n]
      ts[unfolded n] execute_passes[OF assms(1) ready ts assms(5,6,10-13)] simcop_left[OF ready left, unfolded n]]
    by (simp add: DVP_KernelGraphManager_SIMCOP_def n)
qed

theorem simcop_run_exact_witness:
  "\<exists>r. DVP_KernelGraphManager_SIMCOP ex_remote_driver ex_remote_env ex_remote_views (\<lambda>_. ex_remote_nodes) 0x10200 (Some ex_remote_nodes)
     0 2 \<lparr>kgm_rpc = Some r, kgm_core = Some ex_core, coreLock = 1\<rparr> 0 =
     Some (Returns \<lparr>rr_processed = 2, rr_before = nodes_flushes (simcop_prepare ex_remote_views) ex_remote_nodes 0 2,
       rr_after = nodes_invalidates (simcop_return ex_remote_views) ex_remote_nodes 0 2,
       rr_kgm = \<lparr>kgm_rpc = Some r, kgm_core = Some ex_core, coreLock = 1\<rparr>, rr_driver = 1\<rparr>) \<and>
     length (nodes_translations ex_shared (en_fd_at ex_remote_env) (simcop_prepare ex_remote_views) ex_remote_nodes 0 2) = 2"
proof -
  obtain r where r: "rpc_repr r ex_shared" by (rule ex_rpc)
  let ?S = "\<lparr>kgm_rpc = Some r, kgm_core = Some ex_core, coreLock = 1\<rparr>"
  have "DVP_KernelGraphManager_SIMCOP ex_remote_driver ex_remote_env ex_remote_views (\<lambda>_. ex_remote_nodes) 0x10200 (Some ex_remote_nodes)
     0 2 ?S 0 =
     Some (Returns \<lparr>rr_processed = if 0 \<le>s (2 :: u32) then 2 else 0,
       rr_before = nodes_flushes (simcop_prepare ex_remote_views) ex_remote_nodes (unat (0 :: u32)) 2,
       rr_after = nodes_invalidates (simcop_return ex_remote_views) ex_remote_nodes (unat (0 :: u32)) 2, rr_kgm = ?S, rr_driver = 1\<rparr>)"
    by (rule simcop_run_exact[OF r, where c = ex_core and ch = ex_channel and p = "0x10000" and fd = 7 and w = 1 and ew = ENXIO
        and rd = 1 and er = ENXIO and dw = 1])
      (use ex_nodes_ready ex_shapes in \<open>simp_all add: ex_core_def ex_channel_def ex_remote_driver_def\<close>)
  moreover have "length (nodes_translations ex_shared (en_fd_at ex_remote_env) (simcop_prepare ex_remote_views) ex_remote_nodes 0 2) = 2"
    by (simp add: nodes_translations_def ex_upt ex_remote_nodes_def ex_cpu_node_def node_operands_def ex_node_operands ex_plane_operand)
  ultimately show ?thesis by (intro exI[of _ r]) (simp add: word_sle_eq)
qed

text \<open>After a verification of SIMCOP that has passed all nodes, a run that returns has released the lock, whatever the driver, the
  memory and the channel do: the return in the middle of the first loop, which keeps the lock, is for kernels that verification rejects.\<close>

theorem simcop_verified_keeps_lock:
  assumes "DVP_KernelGraphManagerVerify_SIMCOP mt V ns start num = Some (num, ns')"
    and "DVP_KernelGraphManager_SIMCOP D E V after addr (Some ns') start num S d = Some (Returns rr)"
  shows "coreLock (rr_kgm rr) = coreLock S"
  using simcop_verified_listed[OF assms(1)] assms(2)
  by (intro remote_manager_lock[OF assms(2)[unfolded DVP_KernelGraphManager_SIMCOP_def]]) (simp add: simcop_prepare_listed)

text \<open>C39. The DSP verifies every node, and the first unknown kernel of a section locks its manager for ever: the call returns 0 without
  posting the semaphore, and every later call waits.\<close>

theorem dsp_unknown_locks:
  assumes "k \<notin> cf_kernel ` set dsp_kernels" and "kernel (ns ! unat start) = k"
    and "unat start < unat (start + num)" and "unat (start + num) \<le> length ns"
    and "kgm_rpc S = Some r" and "kgm_core S = Some c" and "coreLock S = 1"
    and "dvp_rpc_get_handle (en_fd_at E) (Some r) addr = Some fd"
  shows "\<exists>ns' rr. DVP_KernelGraphManagerVerify_DSP ns start num = Some (num, ns') \<and>
     DVP_KernelGraphManager_DSP D E V after addr (Some ns') start num S d = Some (Returns rr) \<and>
     rr_processed rr = 0 \<and> rr_driver rr = d \<and>
     (\<forall>D' E' V' after' addr' nodes start' num' d'.
        DVP_KernelGraphManager_DSP D' E' V' after' addr' nodes start' num' (rr_kgm rr) (d' :: 'd) = Some Blocks)"
proof -
  have "unat (start + num) < 2 ^ 32" by (rule order_less_le_trans[OF unsigned_less]) simp
  then obtain ns' where v: "DVP_KernelGraphManagerVerify_DSP ns start num = Some (num, ns')" "map kernel ns' = map kernel ns"
    using dsp_verify_loop[of "unat start" "unat (start + num) - unat start" ns] assms(3,4)
    by (auto simp: DVP_KernelGraphManagerVerify_DSP_def)
  have len: "length ns' = length ns" using arg_cong[OF v(2), of length] by simp
  then have "kernel (ns' ! unat start) = k" using assms(2-4) v(2) by (metis nth_map order_less_le_trans)
  then have "\<not> dsp_listed (kernel (ns' ! unat start))" using assms(1) by (auto simp: dsp_listed_def list_ex_iff intro: rev_image_eqI)
  then have "DVP_KernelGraphManager_DSP D E V after addr (Some ns') start num S d =
      Some (Returns \<lparr>rr_processed = 0, rr_before = [], rr_after = [], rr_kgm = S\<lparr>coreLock := coreLock S - 1\<rparr>, rr_driver = d\<rparr>)"
    using assms(3-8) len by (intro dsp_unknown_returns) simp_all
  then show ?thesis using v(1) assms(7)
    by (simp add: DVP_KernelGraphManager_DSP_def remote_manager_def)
qed

text \<open>A call has room for 1024 pointers, which the code does not check. 42 nodes of SIMCOP, or 93 of the DSP, never need more: a kernel
  of SIMCOP has at most 24 pointers (six images of four planes), one of the DSP at most 11.\<close>

theorem remote_translations_fit:
  assumes "prep = simcop_prepare V \<and> n \<le> 42 \<and> b = 24 \<or> prep = dsp_prepare V \<and> n \<le> 93 \<and> b = 11"
    and "rpc_repr r A" and "i + n \<le> length ns"
    and "\<And>k. i \<le> k \<Longrightarrow> k < i + n \<Longrightarrow>
      node_shared A (en_fd_at E) prep (ns ! k) \<and> list_all operand_planes_ok (node_operands prep (ns ! k))"
  shows "\<exists>ts. prepare_nodes E r prep ns i n ([], []) = Some (True, ts, nodes_flushes prep ns i n) \<and> length ts \<le> b * n \<and> b * n \<le> 1024"
proof -
  let ?ts = "nodes_translations A (en_fd_at E) prep ns i n"
  have "length (concat (map operand_pointers (node_operands prep (ns ! k)))) \<le> b" if "i \<le> k" "k < i + n" for k
  proof -
    have ok: "prep (kernel (ns ! k)) (n_data (ns ! k)) = Some (node_operands prep (ns ! k))"
      using assms(4)[OF that] by (intro node_operands_known) (simp add: node_shared_def)
    then have "sum_list (map operand_weight (node_operands prep (ns ! k))) \<le> b"
      using assms(1) simcop_weight[of V] dsp_weight[of V] by (elim disjE conjE) simp_all
    then show ?thesis using pointers_weight assms(4)[OF that] order_trans by blast
  qed
  then have len: "length ?ts \<le> b * n" by (rule nodes_translations_bound)
  have "b * n \<le> 1024" using assms(1) by auto
  then show ?thesis
    using prepare_nodes_shared[OF assms(2,3), of E prep "[]" "[]"] assms(4) len by (simp add: Let_def)
qed

theorem remote_translations_fit_witness:
  "\<exists>r ts. prepare_nodes ex_remote_env r (simcop_prepare ex_remote_views) ex_remote_nodes 0 2 ([], []) =
     Some (True, ts, nodes_flushes (simcop_prepare ex_remote_views) ex_remote_nodes 0 2) \<and> length ts \<le> 48"
proof -
  obtain r where r: "rpc_repr r ex_shared" by (rule ex_rpc)
  have "\<forall>k < 2. list_all operand_planes_ok (node_operands (simcop_prepare ex_remote_views) (ex_remote_nodes ! k))"
    by (simp add: All_less_Suc numeral_2_eq_2 ex_remote_nodes_def node_operands_def ex_cpu_node_def ex_node_operands
      ex_plane_operand(2))
  moreover have "\<forall>k < 2. node_shared ex_shared (en_fd_at ex_remote_env) (simcop_prepare ex_remote_views) (ex_remote_nodes ! k)"
    using ex_nodes_ready by (simp add: nodes_ready_def)
  moreover have "length ex_remote_nodes = 2" by (simp add: ex_remote_nodes_def)
  ultimately show ?thesis
    using remote_translations_fit[OF _ r, of "simcop_prepare ex_remote_views" ex_remote_views 2 24 0 ex_remote_nodes ex_remote_env]
    by auto
qed

text \<open>A section of one node that does nothing, on an initialised manager.\<close>

lemma ex_noop_run:
  assumes "kernel node = DVP_KN_NOOP"
  obtains r rr where "DVP_KernelGraphManager_SIMCOP ex_remote_driver ex_remote_env ex_remote_views (\<lambda>_. ex_remote_nodes) 0x10200
      (Some [node]) 0 1 \<lparr>kgm_rpc = Some r, kgm_core = Some ex_core, coreLock = 1\<rparr> 0 = Some (Returns rr)"
proof -
  obtain r where r: "rpc_repr r ex_shared" by (rule ex_rpc)
  let ?S = "\<lparr>kgm_rpc = Some r, kgm_core = Some ex_core, coreLock = 1\<rparr>"
  have ready: "nodes_ready ex_shared ex_remote_env (simcop_prepare ex_remote_views) [node] 0x10000 7 0x10200 (unat (0 :: u32))
      (unat (0 + 1 :: u32) - unat (0 :: u32))"
    using assms by (simp add: nodes_ready_def node_shared_def node_operands_def simcop_prepare_def simcop_nothing_def
      ex_remote_env_def ex_shared_def nodes_translations_def)
  have left: "nodes_left (simcop_return ex_remote_views) ex_remote_nodes (unat (0 :: u32)) (unat (0 + 1 :: u32) - unat (0 :: u32))"
    by (simp add: nodes_left_def ex_remote_nodes_def node_operands_def ex_cpu_node_def ex_node_operands ex_plane_operand)
  have "dvp_rpc_remote_execute ex_remote_driver rf True (en_readable ex_remote_env) (Some r) (Some ex_core) 2
      (remote_exec_params 0x10200 7 0 1) (nodes_translations ex_shared (en_fd_at ex_remote_env) (simcop_prepare ex_remote_views) [node]
        (unat (0 :: u32)) (unat (0 + 1 :: u32) - unat (0 :: u32))) 0 = Some (2, Some ex_core, 1)" for rf
    by (rule execute_passes[OF r ready refl, where ch = ex_channel and w = 1 and rd = 1])
      (simp_all add: ex_core_def ex_channel_def ex_remote_driver_def)
  note run = remote_run_with[OF r, where S = ?S and restart = "DVP_KernelGraphManagerRestart_SIMCOP ex_remote_driver ex_remote_env"
      and ret = "simcop_return ex_remote_views" and after = "\<lambda>_. ex_remote_nodes", OF _ _ _ ready refl this left]
  obtain rr where "remote_manager ex_remote_driver (DVP_KernelGraphManagerRestart_SIMCOP ex_remote_driver ex_remote_env) ex_remote_env
      (simcop_prepare ex_remote_views) (simcop_return ex_remote_views) (\<lambda>_. ex_remote_nodes) 0x10200 (Some [node]) 0 1 ?S 0 =
      Some (Returns rr)"
    using run by simp
  then show thesis by (intro that[of r rr]) (simp add: DVP_KernelGraphManager_SIMCOP_def)
qed

theorem simcop_verified_keeps_lock_witness:
  "\<exists>r rr. DVP_KernelGraphManager_SIMCOP ex_remote_driver ex_remote_env ex_remote_views (\<lambda>_. ex_remote_nodes) 0x10200
      (Some [(ex_cpu_node DVP_KN_NOOP [])\<lparr>n_error := SUCCESS_code\<rparr>]) 0 1
      \<lparr>kgm_rpc = Some r, kgm_core = Some ex_core, coreLock = 1\<rparr> 0 = Some (Returns rr) \<and> coreLock (rr_kgm rr) = 1"
proof -
  let ?node = "(ex_cpu_node DVP_KN_NOOP [])\<lparr>n_error := SUCCESS_code\<rparr>"
  have "kernel ?node = DVP_KN_NOOP" by (simp add: ex_cpu_node_def)
  then obtain r rr where "DVP_KernelGraphManager_SIMCOP ex_remote_driver ex_remote_env ex_remote_views (\<lambda>_. ex_remote_nodes) 0x10200
      (Some [?node]) 0 1 \<lparr>kgm_rpc = Some r, kgm_core = Some ex_core, coreLock = 1\<rparr> 0 = Some (Returns rr)"
    by (rule ex_noop_run)
  moreover have "DVP_KernelGraphManagerVerify_SIMCOP 1 ex_remote_views [ex_cpu_node DVP_KN_NOOP []] 0 1 = Some (1, [?node])"
    by (simp add: DVP_KernelGraphManagerVerify_SIMCOP_def simcop_verify_node_def simcop_check_def simcop_nothing_def ex_cpu_node_def
      nth_chk_def upd_chk_def)
  ultimately show ?thesis using simcop_verified_keeps_lock by fastforce
qed

theorem dsp_unknown_locks_witness:
  "\<exists>r rr. DVP_KernelGraphManager_DSP ex_remote_driver ex_remote_env ex_remote_views (\<lambda>_. ex_remote_nodes) 0x10200
      (Some [(ex_cpu_node DVP_KN_SOBEL_3x3_8 [])\<lparr>n_error := SUCCESS_code\<rparr>]) 0 1
      \<lparr>kgm_rpc = Some r, kgm_core = Some ex_core, coreLock = 1\<rparr> 0 = Some (Returns rr) \<and>
     DVP_KernelGraphManager_DSP ex_remote_driver ex_remote_env ex_remote_views (\<lambda>_. ex_remote_nodes) 0x10200
      (Some ex_remote_nodes) 0 2 (rr_kgm rr) (0 :: nat) = Some Blocks"
proof -
  obtain r where r: "rpc_repr r ex_shared" by (rule ex_rpc)
  have handle: "dvp_rpc_get_handle (en_fd_at ex_remote_env) (Some r) 0x10200 = Some 7"
    using rpc_handle_inside[OF r, of "0x10000" "0x11000" "0x80" "0x10200"] by (simp add: ex_shared_def ex_remote_env_def)
  have "DVP_KN_SOBEL_3x3_8 \<notin> cf_kernel ` set dsp_kernels" by (simp add: dsp_kernels_def)
  then have "\<exists>ns' rr. DVP_KernelGraphManagerVerify_DSP [ex_cpu_node DVP_KN_SOBEL_3x3_8 []] 0 1 = Some (1, ns') \<and>
      DVP_KernelGraphManager_DSP ex_remote_driver ex_remote_env ex_remote_views (\<lambda>_. ex_remote_nodes) 0x10200 (Some ns') 0 1
        \<lparr>kgm_rpc = Some r, kgm_core = Some ex_core, coreLock = 1\<rparr> 0 = Some (Returns rr) \<and>
      rr_processed rr = 0 \<and> rr_driver rr = 0 \<and>
      (\<forall>D' E' V' after' addr' nodes start' num' d'.
        DVP_KernelGraphManager_DSP D' E' V' after' addr' nodes start' num' (rr_kgm rr) (d' :: nat) = Some Blocks)"
    by (rule dsp_unknown_locks[OF _ _ _ _ _ _ _ handle]) (simp_all add: ex_cpu_node_def)
  moreover have "DVP_KernelGraphManagerVerify_DSP [ex_cpu_node DVP_KN_SOBEL_3x3_8 []] 0 1 =
      Some (1, [(ex_cpu_node DVP_KN_SOBEL_3x3_8 [])\<lparr>n_error := SUCCESS_code\<rparr>])"
    by (simp add: DVP_KernelGraphManagerVerify_DSP_def nth_chk_def upd_chk_def)
  ultimately obtain rr where rr: "DVP_KernelGraphManager_DSP ex_remote_driver ex_remote_env ex_remote_views (\<lambda>_. ex_remote_nodes) 0x10200
      (Some [(ex_cpu_node DVP_KN_SOBEL_3x3_8 [])\<lparr>n_error := SUCCESS_code\<rparr>]) 0 1
      \<lparr>kgm_rpc = Some r, kgm_core = Some ex_core, coreLock = 1\<rparr> 0 = Some (Returns rr)"
      "\<forall>D' E' V' after' addr' nodes start' num' d'.
        DVP_KernelGraphManager_DSP D' E' V' after' addr' nodes start' num' (rr_kgm rr) (d' :: nat) = Some Blocks"
    by auto
  then show ?thesis by (intro exI[of _ r] exI[of _ rr]) simp
qed

section \<open>A remote core that crashes\<close>

text \<open>C29. When the remote core has crashed and its service can be reached again, a run counts no node, but it returns, releases the lock and
  leaves the channel open on the new device, whatever the driver answers to the initialisation in between.\<close>

theorem simcop_crash_recovers:
  fixes start num :: u32
  assumes "rpc_repr r A" and "kgm_rpc S = Some r" and "kgm_core S = Some c" and "coreLock S > 0"
    and chan: "channel c = Live ch" "2 < num_funcs ch" "callback c" "has_restart ch" "\<not> in_restart ch"
    and n: "n = unat (start + num) - unat start"
    and ready: "nodes_ready A E (simcop_prepare V) ns p fd addr (unat start) n"
    and ts: "ts = nodes_translations A (en_fd_at E) (simcop_prepare V) ns (unat start) n"
    and crash: "drv_write D (device ch) (exec_message p addr fd start num ts) d = (w, ew, dw)" "w < 0" "OMAPRPC_RESTART_CONDITION ew"
    and again: "reopen D (dev_name ch) (unat (retries ch) - 1) (drv_close D (device ch) dw) = (fd', dr)" "0 < fd'"
      "drv_create D fd' (create_name ch) dr = (answer, dc)" "0 \<le> answer"
    and left: "\<And>x. nodes_left (simcop_return V) (after x) (unat start) n"
  shows "\<exists>rr. DVP_KernelGraphManager_SIMCOP D E V after addr (Some ns) start num S d = Some (Returns rr) \<and> rr_processed rr = 0 \<and>
     rr_kgm rr = S\<lparr>kgm_core := Some (c\<lparr>channel := Live (ch\<lparr>device := fd'\<rparr>)\<rparr>)\<rparr>"
proof -
  obtain d2 where "omaprpc_restart D (dvp_rpc_restart_callback c (remote_restart D E simcop_restart_params r)) (Live ch) dw =
      Some (Live (ch\<lparr>device := fd'\<rparr>), d2)"
    using restart_reopens[OF chan(1,3-5) again, of simcop_restart_params E r] by (auto simp: simcop_restart_params_def)
  from execute_crashes[OF assms(1) ready ts chan(1,2,5) crash this] show ?thesis
    using remote_run_with[where restart = "DVP_KernelGraphManagerRestart_SIMCOP D E" and after = after, OF assms(1-4) ready[unfolded n]
      ts[unfolded n] _ left[unfolded n]]
    by (simp add: DVP_KernelGraphManager_SIMCOP_def DVP_KernelGraphManagerRestart_SIMCOP_def word_sle_eq)
qed

text \<open>C40. When the service of the crashed core cannot be reached again, the run still returns 0 and releases the lock, but the channel has
  been freed and the core keeps its address: running nodes again uses freed memory.\<close>

theorem simcop_crash_dangles:
  fixes start num :: u32
  assumes "rpc_repr r A" and "kgm_rpc S = Some r" and "kgm_core S = Some c" and "coreLock S > 0"
    and chan: "channel c = Live ch" "2 < num_funcs ch" "has_restart ch" "\<not> in_restart ch"
    and n: "n = unat (start + num) - unat start"
    and ready: "nodes_ready A E (simcop_prepare V) ns p fd addr (unat start) n"
    and ts: "ts = nodes_translations A (en_fd_at E) (simcop_prepare V) ns (unat start) n"
    and crash: "drv_write D (device ch) (exec_message p addr fd start num ts) d = (w, ew, dw)" "w < 0" "OMAPRPC_RESTART_CONDITION ew"
    and again: "reopen D (dev_name ch) (unat (retries ch) - 1) (drv_close D (device ch) dw) = (fd', dr)" "0 < fd'"
      "drv_create D fd' (create_name ch) dr = (answer, dc)" "answer < 0"
    and left: "\<And>x. nodes_left (simcop_return V) (after x) (unat start) n"
  shows "\<exists>rr. DVP_KernelGraphManager_SIMCOP D E V after addr (Some ns) start num S d = Some (Returns rr) \<and> rr_processed rr = 0 \<and>
     coreLock (rr_kgm rr) = coreLock S \<and>
     DVP_KernelGraphManager_SIMCOP D E V after addr (Some ns) start num (rr_kgm rr) (rr_driver rr) = None"
proof -
  have "0 < num_funcs ch" using chan(2) by (metis word_gt_0 word_not_simps(1))
  then obtain d2 where "omaprpc_restart D (dvp_rpc_restart_callback c (DVP_KernelGraphManagerRestart_SIMCOP D E r)) (Live ch) dw =
      Some (Freed, d2)"
    using restart_frees[OF chan(3) _ again] by blast
  from execute_crashes[OF assms(1) ready ts chan(1,2,4) crash this]
  have run: "DVP_KernelGraphManager_SIMCOP D E V after addr (Some ns) start num S d =
      Some (Returns \<lparr>rr_processed = 0, rr_before = nodes_flushes (simcop_prepare V) ns (unat start) n,
        rr_after = nodes_invalidates (simcop_return V) (after d2) (unat start) n,
        rr_kgm = S\<lparr>kgm_core := Some (c\<lparr>channel := Freed\<rparr>)\<rparr>, rr_driver = d2\<rparr>)"
    using remote_run_with[where restart = "DVP_KernelGraphManagerRestart_SIMCOP D E" and after = after, OF assms(1-4) ready[unfolded n]
      ts[unfolded n] _ left[unfolded n]]
    by (simp add: DVP_KernelGraphManager_SIMCOP_def word_sle_eq n)
  note built = message_built[OF assms(1) ready ts]
  have "dvp_rpc_remote_execute D rf True (en_readable E) (Some r) (Some (c\<lparr>channel := Freed\<rparr>)) 2 (remote_exec_params addr fd start num) ts x =
      None" for rf x
    using built(2,3)[of start num]
    by (simp add: dvp_rpc_remote_execute_def remote_exec_params_def OMAPRPC_MAX_PARAMETERS_def omaprpc_call_def)
  moreover have "en_memory E" using ready by (simp add: nodes_ready_def)
  ultimately have "DVP_KernelGraphManager_SIMCOP D E V after addr (Some ns) start num (S\<lparr>kgm_core := Some (c\<lparr>channel := Freed\<rparr>)\<rparr>) x = None" for x
    using assms(2,4) built(1,4) by (simp add: DVP_KernelGraphManager_SIMCOP_def remote_manager_def Let_def flip: n)
  with run show ?thesis by simp
qed

lemma ex_left: "nodes_left (simcop_return ex_remote_views) ex_remote_nodes (unat (0 :: u32)) 2"
  using ex_shapes
  by (simp add: nodes_left_def All_less_Suc numeral_2_eq_2 ex_remote_nodes_def ex_cpu_node_def ex_node_operands)

theorem simcop_crash_recovers_witness:
  "\<exists>r rr. DVP_KernelGraphManager_SIMCOP (ex_crashed_driver 0) ex_remote_env ex_remote_views (\<lambda>_. ex_remote_nodes) 0x10200
      (Some ex_remote_nodes) 0 2 \<lparr>kgm_rpc = Some r, kgm_core = Some ex_core, coreLock = 1\<rparr> 0 = Some (Returns rr) \<and>
     rr_processed rr = 0 \<and> coreLock (rr_kgm rr) = 1"
proof -
  obtain r where r: "rpc_repr r ex_shared" by (rule ex_rpc)
  let ?S = "\<lparr>kgm_rpc = Some r, kgm_core = Some ex_core, coreLock = 1\<rparr>"
  have open5: "reopen (ex_crashed_driver 0) x 99 d = (5, d)" for x d
    by (simp add: eval_nat_numeral ex_crashed_driver_def ex_remote_driver_def)
  have "\<exists>rr. DVP_KernelGraphManager_SIMCOP (ex_crashed_driver 0) ex_remote_env ex_remote_views (\<lambda>_. ex_remote_nodes) 0x10200
      (Some ex_remote_nodes) 0 2 ?S 0 = Some (Returns rr) \<and> rr_processed rr = 0 \<and>
      rr_kgm rr = ?S\<lparr>kgm_core := Some (ex_core\<lparr>channel := Live (ex_channel\<lparr>device := 5\<rparr>)\<rparr>)\<rparr>"
    by (rule simcop_crash_recovers[OF r, where p = "0x10000" and fd = 7 and w = "-1" and ew = ENXIO and dw = 1 and dr = 1 and dc = 1
        and answer = 0 and n = 2])
      (use ex_nodes_ready ex_left open5 in \<open>simp_all add: ex_core_def ex_channel_def ex_crashed_driver_def ex_remote_driver_def
        OMAPRPC_RESTART_CONDITION_def\<close>)
  then show ?thesis by (intro exI[of _ r]) auto
qed

theorem simcop_crash_dangles_witness:
  "\<exists>r rr. DVP_KernelGraphManager_SIMCOP (ex_crashed_driver (-1)) ex_remote_env ex_remote_views (\<lambda>_. ex_remote_nodes) 0x10200
      (Some ex_remote_nodes) 0 2 \<lparr>kgm_rpc = Some r, kgm_core = Some ex_core, coreLock = 1\<rparr> 0 = Some (Returns rr) \<and>
     DVP_KernelGraphManager_SIMCOP (ex_crashed_driver (-1)) ex_remote_env ex_remote_views (\<lambda>_. ex_remote_nodes) 0x10200
      (Some ex_remote_nodes) 0 2 (rr_kgm rr) (rr_driver rr) = None"
proof -
  obtain r where r: "rpc_repr r ex_shared" by (rule ex_rpc)
  let ?S = "\<lparr>kgm_rpc = Some r, kgm_core = Some ex_core, coreLock = 1\<rparr>"
  have open5: "reopen (ex_crashed_driver (-1)) x 99 d = (5, d)" for x d
    by (simp add: eval_nat_numeral ex_crashed_driver_def ex_remote_driver_def)
  have "\<exists>rr. DVP_KernelGraphManager_SIMCOP (ex_crashed_driver (-1)) ex_remote_env ex_remote_views (\<lambda>_. ex_remote_nodes) 0x10200
      (Some ex_remote_nodes) 0 2 ?S 0 = Some (Returns rr) \<and> rr_processed rr = 0 \<and> coreLock (rr_kgm rr) = coreLock ?S \<and>
      DVP_KernelGraphManager_SIMCOP (ex_crashed_driver (-1)) ex_remote_env ex_remote_views (\<lambda>_. ex_remote_nodes) 0x10200
      (Some ex_remote_nodes) 0 2 (rr_kgm rr) (rr_driver rr) = None"
    by (rule simcop_crash_dangles[OF r, where c = ex_core and ch = ex_channel and p = "0x10000" and fd = 7 and w = "-1" and ew = ENXIO
        and dw = 1 and fd' = 5 and dr = 1 and dc = 1 and answer = "-1" and n = 2])
      (use ex_nodes_ready ex_left open5 in \<open>simp_all add: ex_core_def ex_channel_def ex_crashed_driver_def ex_remote_driver_def
        OMAPRPC_RESTART_CONDITION_def\<close>)
  then show ?thesis by (intro exI[of _ r]) auto
qed

end
