(* ===== verification/Dvp_System.thy ===== *)
theory Dvp_System
  imports Dvp_KgbRun Dvp_RemoteProps
begin

text \<open>
  The boss together with the managers: the verification of \<open>dvp_kgb.c\<close> over those of \<open>dvp_kgm_cpu.c\<close>, \<open>dvp_kgm_simcop.c\<close> and
  \<open>dvp_kgm_dsp.c\<close>, and what it gives the runs on SIMCOP.
\<close>

section \<open>The managers as the boss calls them\<close>

text \<open>The verification of the module for a core: 6 is the CPU, 1 SIMCOP, 0 the DSP.\<close>

definition module_verify ::
  "u32 \<Rightarrow> remote_views \<Rightarrow> int \<Rightarrow> DVP_KernelNode_t list \<Rightarrow> u32 \<Rightarrow> u32 \<Rightarrow> (u32 \<times> DVP_KernelNode_t list) option" where
  "module_verify mt V core =
     (if core = 6 then DVP_KernelGraphManagerVerify mt (knode_views.truncate V)
      else if core = DVP_GetSupportedRemoteCore_SIMCOP then DVP_KernelGraphManagerVerify_SIMCOP mt V
      else DVP_KernelGraphManagerVerify_DSP)"

text \<open>The boss passes indices and gets a number back. A fault in a module verifies nothing.\<close>

definition boss_verify ::
  "(DVP_KernelNode_t list \<Rightarrow> u32 \<Rightarrow> u32 \<Rightarrow> (u32 \<times> DVP_KernelNode_t list) option) \<Rightarrow>
   DVP_KernelNode_t list \<Rightarrow> nat \<Rightarrow> nat \<Rightarrow> nat \<times> DVP_KernelNode_t list" where
  "boss_verify f nodes n num =
     (case f nodes (of_nat n) (of_nat num) of None \<Rightarrow> (0, nodes) | Some (k, nodes') \<Rightarrow> (unat k, nodes'))"

definition modules_installed :: "u32 \<Rightarrow> remote_views \<Rightarrow> DVP_t \<Rightarrow> bool" where
  "modules_installed mt V d \<longleftrightarrow>
     list_all (\<lambda>m. case calls m of None \<Rightarrow> False | Some c \<Rightarrow> verify c = boss_verify (module_verify mt V (getCore c))) (managers d)"

text \<open>What the module for a core accepts: the DSP everything.\<close>

definition accepted :: "u32 \<Rightarrow> remote_views \<Rightarrow> int \<Rightarrow> DVP_KernelNode_t \<Rightarrow> bool" where
  "accepted mt V core node =
     (if core = 6 then passes mt (knode_views.truncate V) node
      else if core = DVP_GetSupportedRemoteCore_SIMCOP then simcop_good mt V node else True)"

abbreviation node_core :: "DVP_t \<Rightarrow> DVP_KernelNode_t \<Rightarrow> int" where
  "node_core d node \<equiv> getCore (the (calls (managers d ! mgrIndex node)))"

section \<open>One run\<close>

lemma accepted_clear: "accepted mt V core (clear_error node) = accepted mt V core node"
  by (simp add: accepted_def passes_def simcop_good_def)

lemma dsp_verify_same:
  "for_range i n (\<lambda>n ns. do { node \<leftarrow> nth_chk ns (unat n); upd_chk ns (unat n) (node\<lparr>n_error := SUCCESS_code\<rparr>) }) ns = Some ns' \<Longrightarrow>
   same_nodes ns' ns"
proof (induction n arbitrary: i ns)
  case (Suc n)
  then obtain j where "for_range (Suc i) n (\<lambda>n ns. do { node \<leftarrow> nth_chk ns (unat n); upd_chk ns (unat n) (node\<lparr>n_error := SUCCESS_code\<rparr>) })
      (ns[j := (ns ! j)\<lparr>n_error := SUCCESS_code\<rparr>]) = Some ns'"
    by (auto simp: nth_chk_def upd_chk_def split: if_splits bind_splits)
  from Suc.IH[OF this] show ?case using same_nodes_trans same_nodes_update by blast
qed simp

text \<open>A module counts at most what it gets, keeps the nodes, and when it counts all of them it has accepted them.\<close>

lemma module_verify_result:
  assumes "module_verify mt V core ns start num = Some (v, ns')"
  shows "v \<le> num \<and> same_nodes ns' ns \<and>
    (v = num \<longrightarrow> (\<forall>k. unat start \<le> k \<longrightarrow> k < unat (start + num) \<longrightarrow> k < length ns \<longrightarrow> accepted mt V core (ns ! k)))"
proof -
  consider "core = 6" | "core = 1" | "core \<noteq> 6" "core \<noteq> 1" by blast
  then show ?thesis
  proof cases
    case 1
    then show ?thesis using cpu_verifier.result[of start num mt "knode_views.truncate V" ns v ns'] assms
      by (auto simp: module_verify_def accepted_def DVP_KernelGraphManagerVerify_def)
  next
    case 2
    then show ?thesis using simcop_verifier.result[of start num mt V ns v ns'] assms
      by (auto simp: module_verify_def accepted_def DVP_KernelGraphManagerVerify_SIMCOP_def DVP_GetSupportedRemoteCore_SIMCOP_def)
  next
    case 3
    then show ?thesis using assms
      by (auto simp: module_verify_def accepted_def DVP_KernelGraphManagerVerify_DSP_def DVP_GetSupportedRemoteCore_SIMCOP_def
        dest: dsp_verify_same split: bind_splits)
  qed
qed

lemma boss_verify_result:
  assumes "boss_verify (module_verify mt V core) ns n num = (k, ns')"
  shows "k \<le> num \<and> same_nodes ns' ns \<and>
    (k = num \<and> n + num \<le> length ns \<and> n + num < 2 ^ 32 \<longrightarrow> (\<forall>j. n \<le> j \<longrightarrow> j < n + num \<longrightarrow> accepted mt V core (ns ! j)))"
proof (cases "module_verify mt V core ns (of_nat n) (of_nat num)")
  case None
  then show ?thesis using assms by (auto simp: boss_verify_def)
next
  case (Some r)
  obtain v where r: "r = (v, ns')" "k = unat v" using assms Some by (cases r) (simp add: boss_verify_def)
  note res = module_verify_result[OF Some[unfolded r(1)]]
  have "unat (of_nat num :: u32) \<le> num" by (simp add: unat_of_nat mod_less_eq_dividend take_bit_eq_mod)
  then have "k \<le> num" using res r(2) by (metis le_trans word_le_nat_alt)
  moreover have "accepted mt V core (ns ! j)" if "k = num" "n + num \<le> length ns" "n + num < 2 ^ 32" "n \<le> j" "j < n + num" for j
  proof -
    have u: "unat (of_nat n :: u32) = n" "unat (of_nat n + of_nat num :: u32) = n + num"
      using that(3) by (simp_all add: unat_of_nat take_bit_nat_eq_self flip: of_nat_add)
    have "v = of_nat num" by (simp flip: that(1) add: r(2))
    then show ?thesis using res that u by auto
  qed
  ultimately show ?thesis using res by blast
qed

section \<open>All runs\<close>

text \<open>The runs of a section cover each node, on its manager, and stay inside it.\<close>

lemma mgr_runs_inside: "(n, l, m) \<in> set (mgr_runs i ms) \<Longrightarrow> i \<le> n \<and> n + l \<le> i + length ms"
proof (induction i ms rule: mgr_runs.induct)
  case (2 i x ms)
  let ?l = "length (takeWhile ((=) x) ms)"
  have l: "?l \<le> length ms" by (rule length_takeWhile_le)
  from 2(2) consider "n = i" "l = Suc ?l" | "(n, l, m) \<in> set (mgr_runs (i + Suc ?l) (drop ?l ms))" by (auto simp: Let_def)
  then show ?case using 2(1)[OF refl] l by cases auto
qed simp

lemma mgr_runs_index: "k < length ms \<Longrightarrow> \<exists>n l. (n, l, ms ! k) \<in> set (mgr_runs i ms) \<and> n \<le> i + k \<and> i + k < n + l"
proof (induction i ms arbitrary: k rule: mgr_runs.induct)
  case (2 i x ms)
  let ?l = "length (takeWhile ((=) x) ms)"
  show ?case
  proof (cases "k \<le> ?l")
    case True
    have "(x # ms) ! k = x"
    proof (cases k)
      case (Suc j)
      then have "takeWhile ((=) x) ms ! j \<in> set (takeWhile ((=) x) ms)" "takeWhile ((=) x) ms ! j = ms ! j"
        using True by (auto intro: takeWhile_nth)
      then show ?thesis using Suc by (auto dest: set_takeWhileD)
    qed simp
    with True show ?thesis by (intro exI[of _ i] exI[of _ "Suc ?l"]) (simp add: Let_def)
  next
    case False
    then have "k - Suc ?l < length (drop ?l ms)" using 2(2) by simp
    from 2(1)[OF refl this] obtain n l where
      "(n, l, drop ?l ms ! (k - Suc ?l)) \<in> set (mgr_runs (i + Suc ?l) (drop ?l ms))"
      "n \<le> i + Suc ?l + (k - Suc ?l)" "i + Suc ?l + (k - Suc ?l) < n + l"
      by blast
    moreover have "drop ?l ms ! (k - Suc ?l) = (x # ms) ! k" using False length_takeWhile_le[of "(=) x" ms] by (cases k) simp_all
    ultimately show ?thesis using False by (intro exI[of _ n] exI[of _ l]) (simp add: Let_def)
  qed
qed simp

lemma runs_accepted:
  assumes res: "\<And>m ns n l k ns'. m \<in> M \<Longrightarrow> run m ns n l = (k, ns') \<Longrightarrow> k \<le> l \<and> same_nodes ns' ns \<and>
      (k = l \<and> n + l \<le> length ns \<and> n + l < size_max \<longrightarrow> (\<forall>j. n \<le> j \<longrightarrow> j < n + l \<longrightarrow> acc m (ns ! j)))"
    and acc: "\<And>m node. acc m (clear_error node) = acc m node"
    and "\<forall>(n, l, m) \<in> set rs. m \<in> M \<and> n + l \<le> length ns \<and> n + l < size_max" and "v + run_total rs < size_max"
    and "verify_runs run rs (v, ns) = (u, ns')"
  shows "u \<le> v + run_total rs \<and> same_nodes ns' ns \<and>
    (u = v + run_total rs \<longrightarrow> (\<forall>(n, l, m) \<in> set rs. \<forall>j. n \<le> j \<longrightarrow> j < n + l \<longrightarrow> acc m (ns ! j)))"
  using assms(3-5)
proof (induction rs arbitrary: v ns)
  case (Cons r rs)
  obtain n l m where r: "r = (n, l, m)" by (cases r)
  obtain k ns1 where k: "run m ns n l = (k, ns1)" by fastforce
  have bounds: "m \<in> M" "n + l \<le> length ns" "n + l < size_max" using Cons.prems(1) r by auto
  note now = res[OF bounds(1) k]
  have add: "size_add v k = v + k" using now Cons.prems(2) r by (intro size_add_eq) simp
  have len: "length ns1 = length ns" using now same_nodes_length by blast
  have later: "verify_runs run rs (v + k, ns1) = (u, ns')" using Cons.prems(3) r k add by (simp add: verify_runs_def)
  have IH: "u \<le> v + k + run_total rs \<and> same_nodes ns' ns1 \<and>
      (u = v + k + run_total rs \<longrightarrow> (\<forall>(n, l, m) \<in> set rs. \<forall>j. n \<le> j \<longrightarrow> j < n + l \<longrightarrow> acc m (ns1 ! j)))"
    using Cons.prems(1,2) now r len by (intro Cons.IH[OF _ _ later]) auto
  have same: "acc m' (ns1 ! j) = acc m' (ns ! j)" if "j < length ns" for m' j
    using same_nodes_nth[of ns1 ns j] now that acc by metis
  show ?case
  proof (intro conjI impI)
    show "u \<le> v + run_total (r # rs)" using IH now r by simp
    show "same_nodes ns' ns" using IH now same_nodes_trans by blast
    assume full: "u = v + run_total (r # rs)"
    then have "k = l" "u = v + k + run_total rs" using IH now r by simp_all
    then show "\<forall>(n, l, m) \<in> set (r # rs). \<forall>j. n \<le> j \<longrightarrow> j < n + l \<longrightarrow> acc m (ns ! j)"
      using IH now r bounds(2,3) same Cons.prems(1) by fastforce
  qed
qed (simp add: verify_runs_def)

text \<open>The verification of a section that counts all its nodes.\<close>

lemma boss_verified:
  assumes "dvp_wf d" and calls: "calls_ok d" and "section_ok d s" and small: "numNodes s < size_max"
    and modules: "modules_installed mt V d"
    and verified: "DVP_KernelGraphBoss_Verify d s = Some (numNodes s, s')" and k: "k < numNodes s"
  shows "k < length (pNodes s') \<and> mgrIndex (pNodes s' ! k) < numMgrs d \<and> accepted mt V (node_core d (pNodes s' ! k)) (pNodes s' ! k)"
proof -
  obtain f s1 where c: "DVP_ConfigureNodes (Some d) (Some s) False = Some (f, Some s1)" "same_shape s s1" "f = 0 \<Longrightarrow> section_ready d s1"
    using ConfigureNodes_spec[OF assms(1,3), of False] by metis
  have "f = 0" using verified c(1) k by (cases "f = 0") (auto simp: DVP_KernelGraphBoss_Verify_def)
  note ready = c(3)[OF this]
  have n: "numNodes s1 = numNodes s" using c(2) by (simp add: same_shape_def)
  obtain u ns where run: "verify_runs (verifier d) (section_runs s1) (0, pNodes s1) = (u, ns)"
    by fastforce
  have u: "u = numNodes s" "s' = s1\<lparr>pNodes := ns\<rparr>"
    using Verify_eq[OF calls ready] c(1) \<open>f = 0\<close> verified run by auto
  note on = section_ready_nodes_on[OF ready]
  have len: "numNodes s \<le> length (pNodes s1)" using on n by (simp add: nodes_on_def)
  let ?acc = "\<lambda>m. accepted mt V (getCore (the (calls (managers d ! m))))"
  have step: "k \<le> l \<and> same_nodes ns' ns \<and> (k = l \<and> n + l \<le> length ns \<and> n + l < size_max \<longrightarrow>
      (\<forall>j. n \<le> j \<longrightarrow> j < n + l \<longrightarrow> ?acc m (ns ! j)))"
    if "m \<in> {..<numMgrs d}" "verifier d m ns n l = (k, ns')" for m ns n l k ns'
  proof -
    have "verifier d m = boss_verify (module_verify mt V (getCore (the (calls (managers d ! m)))))"
      using modules that(1) by (auto simp: modules_installed_def list_all_length split: option.splits)
    then show ?thesis using boss_verify_result[of mt V _ ns n l k ns'] that(2) by simp
  qed
  have inside: "\<forall>(n, l, m) \<in> set (section_runs s1). m \<in> {..<numMgrs d} \<and> n + l \<le> length (pNodes s1) \<and> n + l < size_max"
    using section_runs_mgr[OF on] mgr_runs_inside[of _ _ _ 0 "map mgrIndex (take (numNodes s1) (pNodes s1))"] len n small by fastforce
  have total: "run_total (section_runs s1) = numNodes s" using section_runs_total[of s1] len unfolding n .
  have all: "same_nodes ns (pNodes s1)" "\<forall>(n, l, m) \<in> set (section_runs s1). \<forall>j. n \<le> j \<longrightarrow> j < n + l \<longrightarrow> ?acc m (pNodes s1 ! j)"
    using runs_accepted[of "{..<numMgrs d}" "verifier d" ?acc, OF step accepted_clear inside _ run] total small u(1) by auto
  have kn: "k < length (pNodes s1)" using k len by simp
  obtain a l where "(a, l, mgrIndex (pNodes s1 ! k)) \<in> set (section_runs s1)" "a \<le> k" "k < a + l"
    using mgr_runs_index[of k "map mgrIndex (take (numNodes s1) (pNodes s1))" 0] k len n by auto
  with all(2) have acc: "?acc (mgrIndex (pNodes s1 ! k)) (pNodes s1 ! k)" by fastforce
  have same: "clear_error (ns ! k) = clear_error (pNodes s1 ! k)" using same_nodes_nth[OF all(1) kn] .
  then have "mgrIndex (ns ! k) = mgrIndex (pNodes s1 ! k)" by (metis clear_error_fields(3))
  moreover from same have "?acc (mgrIndex (pNodes s1 ! k)) (ns ! k)" using acc accepted_clear by metis
  moreover have "mgrIndex (pNodes s1 ! k) < numMgrs d" using on k n by (simp add: nodes_on_def)
  ultimately show ?thesis using u(2) same_nodes_length[OF all(1)] kn by simp
qed

section \<open>Properties\<close>

text \<open>C5. When the verification of the boss counts all nodes of a section, every node is assigned to one of the managers, and the module of
  that manager - the CPU, SIMCOP or the DSP - has accepted exactly this node, however the section was cut into runs.\<close>

theorem graph_verified_accepted:
  assumes "dvp_wf d" and "calls_ok d" and "section_ok d s" and "numNodes s < size_max" and "modules_installed mt V d"
    and "DVP_KernelGraphBoss_Verify d s = Some (numNodes s, s')" and "k < numNodes s"
  shows "mgrIndex (pNodes s' ! k) < numMgrs d \<and>
    accepted mt V (getCore (the (calls (managers d ! mgrIndex (pNodes s' ! k))))) (pNodes s' ! k)"
  using boss_verified[OF assms] by blast

text \<open>C6. The composition of the boss with SIMCOP never loses the lock: after the boss has verified a section, any run of its nodes that are
  assigned to SIMCOP leaves the lock as it was when it returns, whatever the remote core, the driver and the memory do.\<close>

theorem verified_graph_keeps_lock:
  assumes "dvp_wf d" and "calls_ok d" and "section_ok d s" and "numNodes s < size_max" and "modules_installed mt V d"
    and "DVP_KernelGraphBoss_Verify d s = Some (numNodes s, s')" and "unat (start + num) \<le> numNodes s"
    and "\<And>k. unat start \<le> k \<Longrightarrow> k < unat (start + num) \<Longrightarrow>
      getCore (the (calls (managers d ! mgrIndex (pNodes s' ! k)))) = DVP_GetSupportedRemoteCore_SIMCOP"
    and "DVP_KernelGraphManager_SIMCOP D E V after addr (Some (pNodes s')) start num S x = Some (Returns rr)"
  shows "coreLock (rr_kgm rr) = coreLock S"
proof (rule remote_manager_lock[OF assms(9)[unfolded DVP_KernelGraphManager_SIMCOP_def]])
  fix k assume k: "unat start \<le> k" "k < unat (start + num)"
  then have "accepted mt V DVP_GetSupportedRemoteCore_SIMCOP (pNodes s' ! k)"
    using boss_verified[OF assms(1-6), of k] assms(7) assms(8)[OF k] by simp
  then have "simcop_good mt V (pNodes s' ! k)" by (simp add: accepted_def DVP_GetSupportedRemoteCore_SIMCOP_def)
  then show "simcop_prepare V (kernel (pNodes s' ! k)) (DVP_KernelNode_t.n_data (pNodes s' ! k)) \<noteq> None"
    using simcop_good_listed by (simp add: simcop_prepare_listed)
qed

section \<open>An example\<close>

text \<open>One manager, SIMCOP, with one kernel, and one node for it.\<close>

definition ex_system :: DVP_t where
  "ex_system = \<lparr>managers = [(ex_mgr 1 1 DVP_KN_NOOP)\<lparr>calls := Some \<lparr>manager = (\<lambda>nodes n num sync. (num, nodes)),
       verify = boss_verify (module_verify 1 ex_remote_views 1), getCore = 1, getLoad = 200\<rparr>\<rparr>], loads = Some ex_table\<rparr>"

definition ex_system_section :: DVP_KernelGraphSection_t where
  "ex_system_section = \<lparr>pNodes = [ex_node DVP_KN_NOOP (-1)], numNodes = 1, sec_perf = ex_perf, coreLoad = (\<lambda>_. 0), skipSection = False\<rparr>"

lemma ex_system_wf: "dvp_wf ex_system" "section_ok ex_system ex_system_section" "modules_installed 1 ex_remote_views ex_system"
  by (simp_all add: dvp_wf_def ex_system_def ex_mgr_def mgr_wf_def section_ok_def ex_system_section_def ex_node_def node_ok_def
    modules_installed_def)

lemma ex_system_calls: "calls_ok ex_system"
proof -
  have "runner_ok (boss_verify (module_verify 1 ex_remote_views 1))"
    unfolding runner_ok_def using boss_verify_result same_nodes_mgrIndex by (metis prod.collapse)
  then show ?thesis by (simp add: calls_ok_def ex_system_def runner_ok_def)
qed

definition ex_system_verified :: DVP_KernelGraphSection_t where
  "ex_system_verified = ex_system_section\<lparr>pNodes := [(ex_node DVP_KN_NOOP (-1))\<lparr>configured := True, n_error := SUCCESS_code\<rparr>],
     coreLoad := (\<lambda>_. 0)(1 := 10)\<rparr>"

lemma ex_system_verify: "DVP_KernelGraphBoss_Verify ex_system ex_system_section = Some (1, ex_system_verified)"
  by (simp add: DVP_KernelGraphBoss_Verify_def DVP_ConfigureNodes_def ex_system_section_def ex_system_def ex_mgr_def ex_node_def
    configure_node_def nth_chk_def place_node_def priority_loop.simps DVP_GetNextManagerIndex_def DVP_GetManagerKernelIndex_def
    verify_loop.simps boss_verify_def module_verify_def DVP_GetSupportedRemoteCore_SIMCOP_def DVP_KernelGraphManagerVerify_SIMCOP_def
    simcop_verify_node_def simcop_check_def simcop_nothing_def upd_chk_def ex_system_verified_def
    size_add_def)

theorem graph_verified_accepted_witness:
  "accepted 1 ex_remote_views 1 (pNodes ex_system_verified ! 0)"
  using graph_verified_accepted[OF ex_system_wf(1) ex_system_calls ex_system_wf(2) _ ex_system_wf(3), of ex_system_verified 0]
    ex_system_verify
  by (simp add: ex_system_section_def ex_system_def ex_system_verified_def ex_node_def)

theorem verified_graph_keeps_lock_witness:
  "\<exists>r rr. DVP_KernelGraphManager_SIMCOP ex_remote_driver ex_remote_env ex_remote_views (\<lambda>_. ex_remote_nodes) 0x10200
      (Some (pNodes ex_system_verified)) 0 1 \<lparr>kgm_rpc = Some r, kgm_core = Some ex_core, coreLock = 1\<rparr> 0 = Some (Returns rr) \<and>
     coreLock (rr_kgm rr) = 1"
proof -
  have "kernel (hd (pNodes ex_system_verified)) = DVP_KN_NOOP" by (simp add: ex_system_verified_def ex_node_def)
  moreover have "[hd (pNodes ex_system_verified)] = pNodes ex_system_verified" by (simp add: ex_system_verified_def)
  ultimately obtain r rr where rr: "DVP_KernelGraphManager_SIMCOP ex_remote_driver ex_remote_env ex_remote_views (\<lambda>_. ex_remote_nodes) 0x10200
      (Some (pNodes ex_system_verified)) 0 1 \<lparr>kgm_rpc = Some r, kgm_core = Some ex_core, coreLock = 1\<rparr> 0 = Some (Returns rr)"
    using ex_noop_run by metis
  have "coreLock (rr_kgm rr) = coreLock \<lparr>kgm_rpc = Some r, kgm_core = Some ex_core, coreLock = 1\<rparr>"
    by (rule verified_graph_keeps_lock[OF ex_system_wf(1) ex_system_calls ex_system_wf(2) _ ex_system_wf(3) _ _ _ rr])
      (use ex_system_verify in \<open>simp_all add: ex_system_section_def ex_system_def ex_system_verified_def ex_node_def
        DVP_GetSupportedRemoteCore_SIMCOP_def\<close>)
  then show ?thesis using rr by auto
qed

end
