(* ===== verification/Dvp_KgbAdmin.thy ===== *)
theory Dvp_KgbAdmin
  imports Dvp_KgbRun
begin

text \<open>
  The rest of the Kernel Graph Boss: loading and unloading managers (\<open>dvp_kmdl.c\<close>), start-up and
  shut-down of the boss, the limits of the load table, and the queries. A module is what
  \<open>module_load\<close> and \<open>module_symbol\<close> give for its file; the results of the other services the boss
  starts (shared memory, RPC, memory manager) are boolean or optional arguments.
\<close>

section \<open>Limits of the load table\<close>

definition valid_core :: "int \<Rightarrow> bool" where
  "valid_core core \<longleftrightarrow> DVP_CORE_MIN < core \<and> core < int DVP_CORE_MAX"

text \<open>The managers the functions of this section look at: enabled, on the given core.\<close>

definition on_core :: "int \<Rightarrow> DVP_GraphManager_t \<Rightarrow> bool option" where
  "on_core core m = (if enabled m then map_option (\<lambda>c. getCore c = core) (calls m) else Some False)"

fun set_max_loop :: "int \<Rightarrow> u32 \<Rightarrow> DVP_GraphManager_t list \<Rightarrow> DVP_t \<Rightarrow> DVP_t option" where
  "set_max_loop core load [] dvp = Some dvp"
| "set_max_loop core load (m # ms) dvp = do {
     here \<leftarrow> on_core core m;
     if here then do {
       l \<leftarrow> loads dvp;
       if ld_initialized l then
         if valid_core core then
           set_max_loop core load ms (dvp\<lparr>loads := Some (l\<lparr>ld_cores :=
             (ld_cores l)(nat core := (ld_cores l (nat core))\<lparr>maximumLoad := load\<rparr>)\<rparr>)\<rparr>)
         else None
       else set_max_loop core load ms dvp }
     else set_max_loop core load ms dvp }"

definition DVP_SetMaxLoad :: "DVP_t option \<Rightarrow> int \<Rightarrow> u32 \<Rightarrow> DVP_t option option" where
  "DVP_SetMaxLoad dvp core load =
     (case dvp of None \<Rightarrow> Some None
      | Some d \<Rightarrow> map_option Some (set_max_loop core load (managers d) d))"

text \<open>The pair is the value returned and the value stored through \<open>pCoreMax\<close>.\<close>

fun get_max_loop ::
  "int \<Rightarrow> DVP_Load_t option \<Rightarrow> DVP_GraphManager_t list \<Rightarrow> u32 \<times> u32 \<Rightarrow> (u32 \<times> u32) option" where
  "get_max_loop core table [] r = Some r"
| "get_max_loop core table (m # ms) (load, coreMax) = do {
     here \<leftarrow> on_core core m;
     if here then do {
       c \<leftarrow> calls m;
       l \<leftarrow> table;
       if ld_initialized l then
         if valid_core core
         then get_max_loop core table ms (maximumLoad (ld_cores l (nat core)), getLoad c)
         else None
       else get_max_loop core table ms (load, getLoad c) }
     else get_max_loop core table ms (load, coreMax) }"

definition DVP_GetMaxLoad :: "DVP_t option \<Rightarrow> int \<Rightarrow> u32 \<Rightarrow> (u32 \<times> u32) option" where
  "DVP_GetMaxLoad dvp core coreMax =
     (case dvp of None \<Rightarrow> Some (0, coreMax)
      | Some d \<Rightarrow> get_max_loop core (loads d) (managers d) (0, coreMax))"

section \<open>Queries\<close>

record DVP_CoreInfo_t =
  ci_enabled :: bool
  ci_libraries :: "nat \<Rightarrow> bool"
  ci_kernels :: "DVP_CoreFunction_t list option"
  ci_numKernels :: u32

abbreviation DVP_KL_LIBRARY_MAX :: nat where
  "DVP_KL_LIBRARY_MAX \<equiv> 0xFF"

definition DVP_KN_LIBRARY_MASK :: "int \<Rightarrow> nat" where
  "DVP_KN_LIBRARY_MASK k = nat ((k div 4096) mod 256)"

fun library_scan :: "DVP_CoreFunction_t list \<Rightarrow> nat list \<Rightarrow> (nat \<Rightarrow> bool) \<Rightarrow> (nat \<Rightarrow> bool) option" where
  "library_scan ks [] libs = Some libs"
| "library_scan ks (k # ns) libs = do {
     f \<leftarrow> nth_chk ks k;
     if cf_kernel f > 0x40000000 then
       if DVP_KN_LIBRARY_MASK (cf_kernel f) < DVP_KL_LIBRARY_MAX
       then library_scan ks ns (libs(DVP_KN_LIBRARY_MASK (cf_kernel f) := True))
       else None
     else library_scan ks ns libs }"

fun query_loop ::
  "int \<Rightarrow> DVP_GraphManager_t list \<Rightarrow> DVP_CoreInfo_t \<times> bool \<Rightarrow> (DVP_CoreInfo_t \<times> bool) option" where
  "query_loop core [] r = Some r"
| "query_loop core (m # ms) (info, found) = do {
     here \<leftarrow> on_core core m;
     if here then do {
       libs \<leftarrow> (case kernels m of
                  None \<Rightarrow> if numSupportedKernels m = 0 then Some (ci_libraries info) else None
                | Some ks \<Rightarrow> library_scan ks [0..<numSupportedKernels m] (ci_libraries info));
       query_loop core ms (info\<lparr>ci_enabled := True,
         ci_numKernels := ci_numKernels info + of_nat (numSupportedKernels m),
         ci_kernels := kernels m, ci_libraries := libs\<rparr>, True) }
     else query_loop core ms (info, found) }"

text \<open>With a null \<open>info\<close> nothing is found and the code writes through the null pointer.\<close>

definition DVP_QueryCore :: "DVP_t \<Rightarrow> int \<Rightarrow> DVP_CoreInfo_t option \<Rightarrow> DVP_CoreInfo_t option" where
  "DVP_QueryCore dvp core info = do {
     i \<leftarrow> info;
     (i', found) \<leftarrow> query_loop core (managers dvp) (i, False);
     Some (if found then i' else i'\<lparr>ci_enabled := False\<rparr>) }"

fun query_kernel_loop :: "int \<Rightarrow> int \<Rightarrow> DVP_GraphManager_t list \<Rightarrow> bool option" where
  "query_kernel_loop k core [] = Some False"
| "query_kernel_loop k core (m # ms) = do {
     here \<leftarrow> on_core core m;
     if here then do {
       r \<leftarrow> (case kernels m of
                None \<Rightarrow> if numSupportedKernels m = 0 then Some None else None
              | Some ks \<Rightarrow> kernel_scan ks k [0..<numSupportedKernels m]);
       (case r of Some _ \<Rightarrow> Some True | None \<Rightarrow> query_kernel_loop k core ms) }
     else query_kernel_loop k core ms }"

definition DVP_QueryCoreForKernel :: "DVP_t \<Rightarrow> int \<Rightarrow> int \<Rightarrow> bool option" where
  "DVP_QueryCoreForKernel dvp k core = query_kernel_loop k core (managers dvp)"

section \<open>Managers as loadable modules\<close>

text \<open>
  A module file: \<open>km_calls\<close> is \<open>None\<close> when one of the symbols the loader tests is missing, \<open>km_init\<close> is
  what its initialisation function returns.
\<close>

record kgm_module =
  km_calls :: "DVP_GraphManager_Calls_t option"
  km_kernels :: "DVP_CoreFunction_t list option"
  km_numKernels :: nat
  km_init :: bool

definition DVP_KernelGraphManagerLoad ::
  "kgm_module option \<Rightarrow> DVP_GraphManager_t \<Rightarrow> bool \<times> DVP_GraphManager_t" where
  "DVP_KernelGraphManagerLoad module m =
     (case module of
        None \<Rightarrow> (False, m\<lparr>m_handle := False\<rparr>)
      | Some km \<Rightarrow>
          (case km_calls km of
             None \<Rightarrow> (False, m\<lparr>m_handle := False, calls := None\<rparr>)
           | Some c \<Rightarrow> (True, m\<lparr>m_handle := True, calls := Some c\<rparr>)))"

definition DVP_KernelGraphManagerUnload :: "DVP_GraphManager_t \<Rightarrow> DVP_GraphManager_t" where
  "DVP_KernelGraphManagerUnload m =
     (if m_handle m
      then m\<lparr>calls := None, m_handle := False, enabled := False, kernels := None, numSupportedKernels := 0\<rparr>
      else m)"

section \<open>Starting the boss\<close>

definition priorities_omap4 :: "(int \<times> u32) list" where
  "priorities_omap4 = [(0, 2), (1, 1), (2, 0), (3, 0), (5, 0), (4, 0), (6, 0xFFFFFFFE)]"

definition priorities_omap6 :: "(int \<times> u32) list" where
  "priorities_omap6 = [(0, 3), (1, 2), (2, 0), (3, 0), (5, 1), (4, 0), (6, 0xFFFFFFFE)]"

definition priorities_pc :: "(int \<times> u32) list" where
  "priorities_pc = [(0, 0), (1, 0), (2, 0), (3, 0), (5, 0), (4, 1), (6, 0xFFFFFFFE)]"

definition core_priority :: "(int \<times> u32) list \<Rightarrow> int \<Rightarrow> u32" where
  "core_priority table core = fold (\<lambda>(c, p) prio. if core = c then p else prio) table 1000"

text \<open>One entry of the zero-filled array the boss allocates.\<close>

definition blank_mgr :: DVP_GraphManager_t where
  "blank_mgr = \<lparr>enabled = False, m_handle = False, calls = None, kernels = None,
                numSupportedKernels = 0, priority = 0\<rparr>"

definition zero_table :: DVP_Load_t where
  "zero_table = \<lparr>ld_initialized = True, ld_cores = (\<lambda>_. \<lparr>maximumLoad = 0, currentLoad = 0\<rparr>)\<rparr>"

text \<open>One iteration of the loop over the managers: the manager, the load table and the new errors.\<close>

definition init_manager ::
  "(int \<times> u32) list \<Rightarrow> kgm_module option \<Rightarrow> DVP_Load_t option \<Rightarrow>
   (DVP_GraphManager_t \<times> DVP_Load_t option \<times> nat) option" where
  "init_manager table module l =
     (case DVP_KernelGraphManagerLoad module blank_mgr of
        (False, m) \<Rightarrow> Some (m, l, 1)
      | (True, m) \<Rightarrow> do {
          km \<leftarrow> module;
          c \<leftarrow> calls m;
          let m1 = m\<lparr>numSupportedKernels := km_numKernels km, kernels := km_kernels km,
                     priority := core_priority table (getCore c)\<rparr>;
          l' \<leftarrow> (case l of
                   None \<Rightarrow> Some None
                 | Some t \<Rightarrow>
                     if valid_core (getCore c)
                     then Some (Some (t\<lparr>ld_cores := (ld_cores t)(nat (getCore c) :=
                            (ld_cores t (nat (getCore c)))\<lparr>maximumLoad := getLoad c\<rparr>)\<rparr>))
                     else None);
          if km_init km then Some (m1\<lparr>enabled := True\<rparr>, l', 0)
          else Some (m1\<lparr>enabled := False\<rparr>, l', 1) })"

fun init_managers ::
  "(int \<times> u32) list \<Rightarrow> kgm_module option list \<Rightarrow> DVP_Load_t option \<Rightarrow>
   (DVP_GraphManager_t list \<times> DVP_Load_t option \<times> nat) option" where
  "init_managers table [] l = Some ([], l, 0)"
| "init_managers table (x # xs) l = do {
     (m, l1, e) \<leftarrow> init_manager table x l;
     (ms, l2, es) \<leftarrow> init_managers table xs l1;
     Some (m # ms, l2, e + es) }"

text \<open>The shared load table if there is one, else one of this process.\<close>

definition init_table :: "DVP_Load_t option \<Rightarrow> bool \<Rightarrow> DVP_Load_t option" where
  "init_table shared heap_ok =
     (case shared of
        Some t \<Rightarrow> Some (t\<lparr>ld_initialized := True\<rparr>)
      | None \<Rightarrow> if heap_ok then Some zero_table else None)"

text \<open>
  \<open>DVP_KernelGraphBossInit\<close> outside Android, for a mask with \<open>DVP_KGB_INIT_KGMS\<close> (\<open>kgms\<close>) and/or
  \<open>DVP_KGB_INIT_MEM_MGR\<close> (\<open>memmgr\<close>). \<open>found\<close> are the module files, \<open>arr_ok\<close> that the array of managers
  could be allocated. When it could not, the boss is torn down by a loop over an array that is null.
  The inner option is the pointer returned.
\<close>

definition DVP_KernelGraphBossInit ::
  "(int \<times> u32) list \<Rightarrow> bool \<Rightarrow> bool \<Rightarrow> bool \<Rightarrow> bool \<Rightarrow> kgm_module option list \<Rightarrow>
   DVP_Load_t option \<Rightarrow> bool \<Rightarrow> bool \<Rightarrow> bool \<Rightarrow> DVP_t option option" where
  "DVP_KernelGraphBossInit table kgms memmgr dvp_ok arr_ok found shared heap_ok rpc_ok mem_ok =
     (if \<not> dvp_ok then Some None
      else do {
        (ms, l, m, errors) \<leftarrow>
          (if kgms \<and> arr_ok then
             if rpc_ok then do {
               (ms, l, e) \<leftarrow> init_managers table found (init_table shared heap_ok);
               Some (ms, l, length found, e) }
             else None
           else Some ([], None, 0, 0));
        let errors1 = (if memmgr \<and> \<not> mem_ok then
                         if kgms then size_add errors (length found) else errors + 1
                       else errors);
        if (m \<le> errors1 \<and> kgms) \<or> (errors1 > 0 \<and> \<not> kgms) then
          if kgms \<and> \<not> arr_ok \<and> found \<noteq> [] then None else Some None
        else Some (Some \<lparr>managers = ms, loads = l\<rparr>) })"

text \<open>What the tear-down does to the managers, in order.\<close>

datatype kgm_event = KgmDeinit nat | RpcCoreDeinit nat | ModuleUnload nat

fun deinit_events :: "DVP_GraphManager_t list \<Rightarrow> nat \<Rightarrow> kgm_event list" where
  "deinit_events [] i = []"
| "deinit_events (m # ms) i =
     (if enabled m then [KgmDeinit i, RpcCoreDeinit i] else []) @
     (if m_handle m then [ModuleUnload i] else []) @ deinit_events ms (Suc i)"

definition DVP_KernelGraphBossDeinit :: "DVP_t option \<Rightarrow> kgm_event list" where
  "DVP_KernelGraphBossDeinit dvp = (case dvp of None \<Rightarrow> [] | Some d \<Rightarrow> deinit_events (managers d) 0)"

section \<open>Facts about the loops\<close>

text \<open>Every enabled manager has its function pointers, which the start-up guarantees.\<close>

definition mgrs_linked :: "DVP_t \<Rightarrow> bool" where
  "mgrs_linked d \<longleftrightarrow> (\<forall>m\<in>set (managers d). enabled m \<longrightarrow> calls m \<noteq> None)"

definition works_on :: "int \<Rightarrow> DVP_GraphManager_t \<Rightarrow> bool" where
  "works_on core m \<longleftrightarrow> enabled m \<and> getCore (the (calls m)) = core"

lemma on_core_eq: "(enabled m \<longrightarrow> calls m \<noteq> None) \<Longrightarrow> on_core core m = Some (works_on core m)"
  by (auto simp: on_core_def works_on_def)

abbreviation set_max :: "nat \<Rightarrow> u32 \<Rightarrow> core_table \<Rightarrow> core_table" where
  "set_max c load cores \<equiv> cores(c := (cores c)\<lparr>maximumLoad := load\<rparr>)"

lemma set_max_loop_eq:
  assumes "\<forall>m\<in>set ms. enabled m \<longrightarrow> calls m \<noteq> None" "valid_core core"
    and "loads d = Some l" "ld_initialized l"
  shows "set_max_loop core load ms d =
    Some (if \<exists>m\<in>set ms. works_on core m then with_cores d l (set_max (nat core) load (ld_cores l)) else d)"
  using assms
proof (induction ms arbitrary: d l)
  case (Cons m ms)
  show ?case
  proof (cases "works_on core m")
    case True
    let ?l = "l\<lparr>ld_cores := set_max (nat core) load (ld_cores l)\<rparr>"
    have idem: "set_max (nat core) load (set_max (nat core) load (ld_cores l)) = set_max (nat core) load (ld_cores l)"
      by (simp add: fun_eq_iff)
    have "set_max_loop core load ms (d\<lparr>loads := Some ?l\<rparr>) =
        Some (if \<exists>m\<in>set ms. works_on core m
              then with_cores (d\<lparr>loads := Some ?l\<rparr>) ?l (set_max (nat core) load (ld_cores ?l)) else d\<lparr>loads := Some ?l\<rparr>)"
      using Cons.prems by (intro Cons.IH) simp_all
    then have "set_max_loop core load ms (d\<lparr>loads := Some ?l\<rparr>) = Some (d\<lparr>loads := Some ?l\<rparr>)"
      unfolding DVP_Load_t.select_convs DVP_Load_t.simps idem by (simp only: idem DVP_Load_t.simps DVP_t.simps) simp
    then show ?thesis using True Cons.prems by (simp add: on_core_eq)
  next
    case False
    then show ?thesis using Cons.IH[of d l] Cons.prems by (simp add: on_core_eq)
  qed
qed simp

lemma get_max_loop_eq:
  assumes "\<forall>m\<in>set ms. enabled m \<longrightarrow> calls m \<noteq> None" "valid_core core" "ld_initialized l"
    and "\<forall>m\<in>set ms. works_on core m \<longrightarrow> getLoad (the (calls m)) = hw"
  shows "get_max_loop core (Some l) ms r =
    Some (if \<exists>m\<in>set ms. works_on core m then (maximumLoad (ld_cores l (nat core)), hw) else r)"
  using assms
proof (induction ms arbitrary: r)
  case (Cons m ms)
  obtain a b where r: "r = (a, b)" by (cases r)
  show ?case
  proof (cases "works_on core m")
    case True
    then obtain c where "calls m = Some c" "getLoad c = hw"
      using Cons.prems(1,4) by (auto simp: works_on_def)
    then show ?thesis
      using True r Cons.IH[of "(maximumLoad (ld_cores l (nat core)), hw)"] Cons.prems
      by (auto simp: on_core_eq)
  next
    case False
    then show ?thesis using r Cons.IH[of r] Cons.prems by (simp add: on_core_eq)
  qed
qed simp

lemma query_kernel_loop_eq:
  assumes "\<forall>m\<in>set ms. mgr_wf m \<and> kernels m \<noteq> None"
  shows "query_kernel_loop k core ms =
    Some (\<exists>m\<in>set ms. works_on core m \<and> (\<exists>f < numSupportedKernels m. cf_kernel (the (kernels m) ! f) = k))"
  using assms
proof (induction ms)
  case (Cons m ms)
  have here: "on_core core m = Some (works_on core m)"
    using Cons.prems by (intro on_core_eq) (auto simp: mgr_wf_def)
  obtain ks where ks: "kernels m = Some ks" "numSupportedKernels m \<le> length ks"
    using Cons.prems by (auto simp: mgr_wf_def)
  obtain r where r: "kernel_scan ks k [0..<numSupportedKernels m] = Some r"
    "case r of None \<Rightarrow> \<forall>j. 0 \<le> j \<and> j < numSupportedKernels m \<longrightarrow> cf_kernel (ks ! j) \<noteq> k
     | Some f \<Rightarrow> 0 \<le> f \<and> f < numSupportedKernels m \<and> cf_kernel (ks ! f) = k"
    using kernel_scan_range[OF ks(2), of k 0] by blast
  have found: "(\<exists>f < numSupportedKernels m. cf_kernel (the (kernels m) ! f) = k) \<longleftrightarrow> r \<noteq> None"
    using r(2) ks by (cases r) auto
  show ?case
  proof (cases "works_on core m \<and> r \<noteq> None")
    case True
    then show ?thesis using here ks r(1) found by auto
  next
    case False
    then have "query_kernel_loop k core (m # ms) = query_kernel_loop k core ms"
      using here ks r(1) by auto
    then show ?thesis using Cons.IH Cons.prems False found by auto
  qed
qed simp

text \<open>The start-up: one error for each manager that is not enabled.\<close>

lemma init_manager_spec:
  assumes "init_manager table x l = Some (m, l', e)"
  shows "e = (if enabled m then 0 else 1)"
    and "enabled m \<Longrightarrow> m_handle m \<and> calls m \<noteq> None \<and> priority m = core_priority table (getCore (the (calls m)))"
  using assms
  by (auto simp: init_manager_def DVP_KernelGraphManagerLoad_def blank_mgr_def Let_def bind_eq_Some_conv
      split: option.splits if_splits)

lemma init_managers_spec:
  assumes "init_managers table xs l = Some (ms, l', e)"
  shows "length ms = length xs \<and> e = length (filter (\<lambda>m. \<not> enabled m) ms) \<and>
    (\<forall>m\<in>set ms. enabled m \<longrightarrow> m_handle m \<and> calls m \<noteq> None \<and> priority m = core_priority table (getCore (the (calls m))))"
  using assms
proof (induction xs arbitrary: l ms e)
  case (Cons x xs)
  obtain m l1 e1 ms' l2 e2 where parts: "init_manager table x l = Some (m, l1, e1)"
    "init_managers table xs l1 = Some (ms', l2, e2)" "ms = m # ms'" "e = e1 + e2" "l' = l2"
    using Cons.prems by (auto simp: bind_eq_Some_conv)
  then show ?case
    using init_manager_spec[OF parts(1)] Cons.IH[of l1 ms' e2] by auto
qed simp

section \<open>Properties\<close>

text \<open>
  If the boss starts with its managers, at least one manager is enabled, every enabled manager has
  been loaded, and its priority is the one of the target's table for its core.
\<close>

theorem boss_init_manager:
  assumes init: "DVP_KernelGraphBossInit table True memmgr dvp_ok arr_ok found shared heap_ok rpc_ok mem_ok = Some (Some d)"
    and num: "length found < 2 ^ 31"
  shows "(\<exists>m\<in>set (managers d). enabled m) \<and>
    (\<forall>m\<in>set (managers d). enabled m \<longrightarrow> m_handle m \<and> calls m \<noteq> None \<and>
        priority m = core_priority table (getCore (the (calls m))))"
proof -
  obtain l e where im: "init_managers table found (init_table shared heap_ok) = Some (managers d, l, e)"
    and few: "\<not> length found \<le> (if memmgr \<and> \<not> mem_ok then size_add e (length found) else e)"
    using init unfolding DVP_KernelGraphBossInit_def
    by (auto simp: Let_def bind_eq_Some_conv split: if_splits)
  note spec = init_managers_spec[OF im]
  have "e \<le> length found" using spec by (metis length_filter_le)
  then have "size_add e (length found) = e + length found" using num by (intro size_add_eq) simp
  then have "length (filter (\<lambda>m. \<not> enabled m) (managers d)) < length (managers d)"
    using few spec by (auto split: if_splits)
  then have "\<exists>m\<in>set (managers d). enabled m" by (metis filter_True nat_less_le)
  then show ?thesis using spec by blast
qed

definition ex_module :: "int \<Rightarrow> kgm_module" where
  "ex_module core = \<lparr>km_calls = calls (ex_mgr core 0 5), km_kernels = kernels (ex_mgr core 0 5), km_numKernels = 1, km_init = True\<rparr>"

lemma ex_init:
  obtains d where
    "DVP_KernelGraphBossInit priorities_omap4 True True True True [None, Some (ex_module 6)] None True True True = Some (Some d)"
    "managers d = [blank_mgr, ex_mgr 6 0xFFFFFFFE 5]"
  by (simp add: DVP_KernelGraphBossInit_def init_table_def zero_table_def init_manager_def Let_def
      DVP_KernelGraphManagerLoad_def ex_module_def ex_mgr_def valid_core_def core_priority_def priorities_omap4_def blank_mgr_def)

theorem boss_init_manager_witness:
  "\<exists>d. DVP_KernelGraphBossInit priorities_omap4 True True True True [None, Some (ex_module 6)] None True True True = Some (Some d) \<and>
     (\<exists>m\<in>set (managers d). enabled m)"
proof (rule ex_init)
  fix d assume d: "DVP_KernelGraphBossInit priorities_omap4 True True True True [None, Some (ex_module 6)] None True True True = Some (Some d)"
  have "length [None, Some (ex_module 6)] < 2 ^ 31" by simp
  from boss_init_manager[OF d this] d show ?thesis by blast
qed

text \<open>
  When one manager failed to load, the boss still starts, and then a node that asks for a core
  makes the configuration call a function pointer of the manager that was never loaded: the search by
  affinity does not test whether a manager is enabled.
\<close>

theorem affinity_calls_unloaded_manager:
  "\<exists>d. DVP_KernelGraphBossInit priorities_omap4 True True True True [None, Some (ex_module 6)] None True True True = Some (Some d) \<and>
     DVP_ConfigureNodes (Some d) (Some ex_section) False = None"
proof (rule ex_init)
  fix d assume d: "DVP_KernelGraphBossInit priorities_omap4 True True True True [None, Some (ex_module 6)] None True True True = Some (Some d)"
    "managers d = [blank_mgr, ex_mgr 6 0xFFFFFFFE 5]"
  then have "DVP_ConfigureNodes (Some d) (Some ex_section) False = None"
    by (simp add: DVP_ConfigureNodes_def ex_section_def configure_node_def nth_chk_def ex_node_def
        blank_mgr_def upt_rec)
  then show ?thesis using d by blast
qed

text \<open>
  A limit that is set is read back: after \<open>DVP_SetMaxLoad\<close> on a core that an enabled manager
  drives, \<open>DVP_GetMaxLoad\<close> returns that limit and the hardware maximum of the manager, and no other
  entry of the table and no current load has changed.
\<close>

theorem max_load_roundtrip:
  assumes linked: "mgrs_linked d" and l: "loads d = Some l" "ld_initialized l" and core: "valid_core core"
    and ex: "m \<in> set (managers d)" "works_on core m"
    and hw: "\<forall>m\<in>set (managers d). works_on core m \<longrightarrow> getLoad (the (calls m)) = hw"
  shows "\<exists>l'. DVP_SetMaxLoad (Some d) core load = Some (Some (d\<lparr>loads := Some l'\<rparr>)) \<and>
    DVP_GetMaxLoad (Some (d\<lparr>loads := Some l'\<rparr>)) core x = Some (load, hw) \<and>
    (\<forall>c. currentLoad (ld_cores l' c) = currentLoad (ld_cores l c)) \<and>
    (\<forall>c. c \<noteq> nat core \<longrightarrow> maximumLoad (ld_cores l' c) = maximumLoad (ld_cores l c))"
proof -
  let ?l = "l\<lparr>ld_cores := set_max (nat core) load (ld_cores l)\<rparr>"
  have ms: "\<forall>m\<in>set (managers d). enabled m \<longrightarrow> calls m \<noteq> None" using linked by (simp add: mgrs_linked_def)
  have some: "\<exists>m\<in>set (managers d). works_on core m" using ex by blast
  have "DVP_SetMaxLoad (Some d) core load = Some (Some (d\<lparr>loads := Some ?l\<rparr>))"
    using set_max_loop_eq[OF ms core l] some by (simp add: DVP_SetMaxLoad_def)
  moreover have "DVP_GetMaxLoad (Some (d\<lparr>loads := Some ?l\<rparr>)) core x = Some (load, hw)"
    using get_max_loop_eq[OF ms core, of ?l hw "(0, x)"] l(2) hw some by (simp add: DVP_GetMaxLoad_def)
  ultimately show ?thesis by (intro exI[of _ ?l]) simp
qed

theorem max_load_roundtrip_witness:
  "\<exists>l'. DVP_SetMaxLoad (Some ex_dvp) 6 55 = Some (Some (ex_dvp\<lparr>loads := Some l'\<rparr>)) \<and>
     DVP_GetMaxLoad (Some (ex_dvp\<lparr>loads := Some l'\<rparr>)) 6 0 = Some (55, 100)"
proof -
  have "mgrs_linked ex_dvp" "loads ex_dvp = Some ex_table" "ld_initialized ex_table" "valid_core 6"
    "ex_mgr 6 0xFFFFFFFE 5 \<in> set (managers ex_dvp)" "works_on 6 (ex_mgr 6 0xFFFFFFFE 5)"
    "\<forall>m\<in>set (managers ex_dvp). works_on 6 m \<longrightarrow> getLoad (the (calls m)) = 100"
    by (simp_all add: mgrs_linked_def ex_dvp_def ex_table_def valid_core_def works_on_def ex_mgr_def)
  from max_load_roundtrip[OF this, of 55 0] show ?thesis by blast
qed

text \<open>
  \<open>DVP_QueryCoreForKernel\<close> answers true exactly when an enabled manager of the core lists the
  kernel.
\<close>

theorem query_kernel_correct:
  assumes "dvp_wf d" "\<forall>m\<in>set (managers d). kernels m \<noteq> None"
  shows "DVP_QueryCoreForKernel d k core =
    Some (\<exists>m\<in>set (managers d). enabled m \<and> getCore (the (calls m)) = core \<and>
            (\<exists>f < numSupportedKernels m. cf_kernel (the (kernels m) ! f) = k))"
  using query_kernel_loop_eq[of "managers d" k core] assms
  by (simp add: DVP_QueryCoreForKernel_def dvp_wf_def works_on_def)

theorem query_kernel_correct_witness:
  "DVP_QueryCoreForKernel ex_dvp 5 0 = Some True \<and> DVP_QueryCoreForKernel ex_dvp 5 1 = Some False"
proof -
  have "\<forall>m\<in>set (managers ex_dvp). kernels m \<noteq> None" by (simp add: ex_dvp_def ex_mgr_def)
  from query_kernel_correct[OF ex_dvp_wf this] show ?thesis by (simp add: ex_dvp_def ex_mgr_def)
qed

end
