(* ===== verification/Dvp_Kgraph.thy ===== *)
theory Dvp_Kgraph
  imports Dvp_KgbAdmin Sosal_Event Sosal_ThreadPool
begin

text \<open>
  The kernel graph interface of \<open>dvp_kgraph/dvp_kgraph.c\<close>: the lock that keeps the library alive while
  graphs run, verification and processing of a graph section by section and order by order, where the
  sections of one order run on the workers of the thread pool of \<open>Sosal_ThreadPool\<close>, and the small services around them (capacity of a core, performance counters, allocation of graphs,
  accumulation of image shifts).
\<close>

section \<open>The graph lock\<close>

record DVP_GraphLock_t =
  m_enabled :: bool
  m_wait :: event_t
  m_count :: u32

definition dvp_graphlock_init :: DVP_GraphLock_t where
  "dvp_graphlock_init = \<lparr>m_enabled = True, m_wait = event_set (event_init False), m_count = 0\<rparr>"

definition dvp_graph_lock :: "DVP_GraphLock_t \<Rightarrow> bool \<times> DVP_GraphLock_t" where
  "dvp_graph_lock gl =
     (let gl' = (if m_enabled gl
                 then gl\<lparr>m_count := m_count gl + 1, m_wait := event_reset (m_wait gl)\<rparr> else gl) in
      (m_enabled gl', gl'))"

definition dvp_graph_unlock :: "DVP_GraphLock_t \<Rightarrow> DVP_GraphLock_t" where
  "dvp_graph_unlock gl =
     (if m_enabled gl then
        gl\<lparr>m_count := m_count gl - 1,
           m_wait := (if m_count gl - 1 = 0 then event_set (m_wait gl) else m_wait gl)\<rparr>
      else gl)"

text \<open>
  \<open>dvp_graphlock_wait\<close> first sleeps on the event and then, in a second step, takes the mutex and
  disables the lock: between the two, other threads run.
\<close>

definition dvp_graphlock_wait_returns :: "DVP_GraphLock_t \<Rightarrow> bool" where
  "dvp_graphlock_wait_returns gl \<longleftrightarrow> ev_set (m_wait gl)"

definition dvp_graphlock_disable :: "DVP_GraphLock_t \<Rightarrow> DVP_GraphLock_t" where
  "dvp_graphlock_disable gl = gl\<lparr>m_enabled := False\<rparr>"

section \<open>Graphs\<close>

record DVP_KernelGraph_t =
  sections :: "DVP_KernelGraphSection_t list"
  numSections :: nat
  order :: "nat list"
  totalperf :: DVP_Perf_t
  verified :: bool

abbreviation MAX_SECTIONS :: nat where
  "MAX_SECTIONS \<equiv> 4"

abbreviation MAX_QUEUE_DEPTH :: nat where
  "MAX_QUEUE_DEPTH \<equiv> 2"

text \<open>The thread pool as \<open>DVP_KernelGraph_Init\<close> creates it; its items are the sections, by their index in the graph.\<close>

definition graph_pool_init :: "nat threadpool_t" where
  "graph_pool_init = threadpool_create MAX_SECTIONS MAX_QUEUE_DEPTH []"

text \<open>
  What the calls on a graph change: the boss, the lock, the graph, the thread pool, the counter of its
  workers and, oldest first, the callbacks made, as section index and number of nodes executed.
\<close>

record kg_ctx =
  kc_dvp :: DVP_t
  kc_lock :: DVP_GraphLock_t
  kc_graph :: DVP_KernelGraph_t
  kc_pool :: "nat threadpool_t"
  kc_count :: u32
  kc_log :: "(nat \<times> nat) list"

fun verify_sections ::
  "DVP_t \<Rightarrow> DVP_KernelGraphSection_t list \<Rightarrow> nat list \<Rightarrow> nat \<times> nat \<Rightarrow>
   (DVP_KernelGraphSection_t list \<times> nat \<times> nat) option" where
  "verify_sections dvp secs [] (nodes, ver) = Some (secs, nodes, ver)"
| "verify_sections dvp secs (s # ss) (nodes, ver) = do {
     sec \<leftarrow> nth_chk secs s;
     (v, sec') \<leftarrow> DVP_KernelGraphBoss_Verify dvp sec;
     verify_sections dvp (secs[s := sec']) ss (size_add nodes (numNodes sec), size_add ver v) }"

text \<open>The verification of a graph, once the handle and the graph are known not to be null.\<close>

definition verify_graph :: "kg_ctx \<Rightarrow> (bool \<times> kg_ctx) option" where
  "verify_graph c =
     (case dvp_graph_lock (kc_lock c) of
        (False, gl) \<Rightarrow> Some (False, c\<lparr>kc_lock := gl\<rparr>)
      | (True, gl) \<Rightarrow> do {
          let g = kc_graph c;
          g' \<leftarrow> (if \<not> verified g then do {
                    (secs, nodes, ver) \<leftarrow> verify_sections (kc_dvp c) (sections g) [0..<numSections g] (0, 0);
                    Some (g\<lparr>sections := secs, verified := (if nodes = ver then True else verified g)\<rparr>) }
                  else Some g);
          Some (verified g', c\<lparr>kc_lock := dvp_graph_unlock gl, kc_graph := g'\<rparr>) })"

definition DVP_KernelGraph_Verify :: "kg_ctx option \<Rightarrow> (bool \<times> kg_ctx option) option" where
  "DVP_KernelGraph_Verify c =
     (case c of None \<Rightarrow> Some (False, None) | Some x \<Rightarrow> map_option (\<lambda>(b, y). (b, Some y)) (verify_graph x))"

section \<open>Processing a graph\<close>

text \<open>
  The inputs that do not come from the graph: what other processes do to the load table while a
  section runs (\<open>ke_env\<close>, by section), the readings of the clock (\<open>ke_stamp\<close> by section, \<open>ke_total\<close> for
  the graph), and the scheduling of threads: \<open>ke_pick\<close> chooses, for the sections of an order, the thread
  that takes the \<open>k\<close>-th step, among those that can take one.
\<close>

record kg_env =
  ke_env :: "nat \<Rightarrow> nat \<Rightarrow> DVP_t \<Rightarrow> DVP_t"
  ke_stamp :: "nat \<Rightarrow> rtime \<times> rtime"
  ke_total :: "rtime \<times> rtime"
  ke_pick :: "nat list \<Rightarrow> nat \<Rightarrow> nat"

text \<open>
  The sections of an order; \<open>Inl\<close> is the early return when a further section comes after
  \<open>MAX_SECTIONS\<close> have been collected.
\<close>

fun collect_order ::
  "DVP_KernelGraph_t \<Rightarrow> nat \<Rightarrow> nat list \<Rightarrow> nat list \<Rightarrow> (unit + nat list) option" where
  "collect_order g ord [] acc = Some (Inr acc)"
| "collect_order g ord (s # ss) acc = do {
     o_s \<leftarrow> nth_chk (order g) s;
     sec \<leftarrow> nth_chk (sections g) s;
     if o_s = ord \<and> length acc < MAX_SECTIONS \<and> \<not> skipSection sec then collect_order g ord ss (acc @ [s])
     else if length acc \<ge> MAX_SECTIONS then Some (Inl ())
     else collect_order g ord ss acc }"

text \<open>One section run by the boss, followed by the callback if there is one.\<close>

definition run_section :: "kg_env \<Rightarrow> bool \<Rightarrow> bool \<Rightarrow> nat \<Rightarrow> kg_ctx \<Rightarrow> (nat \<times> kg_ctx) option" where
  "run_section e callback sync s c = do {
     sec \<leftarrow> nth_chk (sections (kc_graph c)) s;
     (n, d', sec') \<leftarrow> DVP_KernelGraphBoss_Process (ke_env e s) (ke_stamp e s) sync (kc_dvp c) sec;
     Some (n, c\<lparr>kc_dvp := d',
                kc_graph := (kc_graph c)\<lparr>sections := (sections (kc_graph c))[s := sec']\<rparr>,
                kc_log := kc_log c @ (if callback then [(s, n)] else [])\<rparr>) }"

text \<open>
  A worker of the pool runs \<open>dvp_kernelgraph_worker\<close>, while other workers run other sections. Its steps:
  before \<open>DVP_KernelGraphBoss_Process\<close>, then the places of that function, as far as other threads
  can tell them apart - before the \<open>i\<close>-th attempt to commit the load, before the reconfiguration of a section
  that was refused, before the execution, before the load is given back, before the stop of the
  counter - then before the count and the callback, which the semaphore makes one step, and behind them.
\<close>

datatype worker_at = BStart | BTry nat | BConf nat | BExec nat | BFree nat nat | BStop nat | BCount nat | BDone

definition boss_step ::
  "(nat \<Rightarrow> DVP_t \<Rightarrow> DVP_t) \<Rightarrow> rtime \<times> rtime \<Rightarrow> bool \<Rightarrow> worker_at \<Rightarrow> DVP_t \<Rightarrow> DVP_KernelGraphSection_t \<Rightarrow>
   (worker_at \<times> DVP_t \<times> DVP_KernelGraphSection_t) option" where
  "boss_step env stamps sync w dvp section =
     (case w of
        BStart \<Rightarrow> Some (BTry 0, dvp, section\<lparr>sec_perf := DVP_PerformanceStart (fst stamps) (sec_perf section)\<rparr>)
      | BTry i \<Rightarrow> do {
          (ok, d) \<leftarrow> DVP_CommitLoad (Some (env i dvp)) (Some section);
          dvp1 \<leftarrow> d;
          Some (if ok then BExec i else BConf i, dvp1, section) }
      | BConf i \<Rightarrow> do {
          (faults, s) \<leftarrow> DVP_ConfigureNodes (Some dvp) (Some section) True;
          section' \<leftarrow> s;
          Some (if faults = 0 then BTry (Suc i) else BStop 0, dvp, section') }
      | BExec i \<Rightarrow> do {
          (processed, nodes) \<leftarrow> execute_loop dvp sync (pNodes section) (numNodes section) 0 0;
          Some (BFree i processed, dvp, section\<lparr>pNodes := nodes\<rparr>) }
      | BFree i processed \<Rightarrow> do {
          d \<leftarrow> DVP_DecommitLoad (Some (env (Suc i) dvp)) (Some section);
          dvp2 \<leftarrow> d;
          Some (BStop processed, dvp2, section) }
      | BStop processed \<Rightarrow> do {
          perf \<leftarrow> DVP_PerformanceStop (snd stamps) (sec_perf section);
          Some (BCount processed, dvp, section\<lparr>sec_perf := perf\<rparr>) }
      | _ \<Rightarrow> None)"

text \<open>One step of the worker that has section \<open>s\<close>; \<open>None\<close> is a fault, or that the function has returned.\<close>

definition dvp_kernelgraph_worker :: "kg_env \<Rightarrow> bool \<Rightarrow> nat \<Rightarrow> worker_at \<Rightarrow> kg_ctx \<Rightarrow> (worker_at \<times> kg_ctx) option" where
  "dvp_kernelgraph_worker e callback s w c =
     (case w of
        BDone \<Rightarrow> None
      | BCount n \<Rightarrow> Some (BDone, c\<lparr>kc_count := kc_count c + 1, kc_log := kc_log c @ (if callback then [(s, n)] else [])\<rparr>)
      | _ \<Rightarrow> do {
          sec \<leftarrow> nth_chk (sections (kc_graph c)) s;
          (w', d', sec') \<leftarrow> boss_step (ke_env e s) (ke_stamp e s) False w (kc_dvp c) sec;
          Some (w', c\<lparr>kc_dvp := d', kc_graph := (kc_graph c)\<lparr>sections := (sections (kc_graph c))[s := sec']\<rparr>\<rparr>) })"

text \<open>
  The pool and its workers while an order runs. \<open>kp_at\<close> is where the function of the workers is, for each
  section; the other steps of the workers are those of \<open>Sosal_ThreadPool\<close>. Thread \<open>i\<close> is worker \<open>i\<close>, and the
  thread behind the last worker is the caller in \<open>threadpool_issue\<close>.
\<close>

record kg_par =
  kp_ctx :: kg_ctx
  kp_at :: "nat \<Rightarrow> worker_at"

abbreviation kp_pool :: "kg_par \<Rightarrow> nat threadpool_t" where
  "kp_pool p \<equiv> kc_pool (kp_ctx p)"

definition par_pool_turn :: "nat \<Rightarrow> nat threadpool_t \<Rightarrow> nat threadpool_t option" where
  "par_pool_turn i t = (if i < tp_numWorkers t then threadpool_worker i t else threadpool_issue 0 t)"

text \<open>The section whose function thread \<open>i\<close> is in.\<close>

definition par_section :: "nat \<Rightarrow> kg_par \<Rightarrow> nat option" where
  "par_section i p =
     (if i < tp_numWorkers (kp_pool p)
      then (case tp_workers (kp_pool p) ! i of TWork s \<Rightarrow> if kp_at p s = BDone then None else Some s | _ \<Rightarrow> None)
      else None)"

definition par_turn :: "kg_env \<Rightarrow> bool \<Rightarrow> nat \<Rightarrow> kg_par \<Rightarrow> kg_par option" where
  "par_turn e callback i p =
     (case par_section i p of
        Some s \<Rightarrow> do {
          (w, c) \<leftarrow> dvp_kernelgraph_worker e callback s (kp_at p s) (kp_ctx p);
          Some \<lparr>kp_ctx = c, kp_at = (kp_at p)(s := w)\<rparr> }
      | None \<Rightarrow> do {
          t \<leftarrow> par_pool_turn i (kp_pool p);
          Some (p\<lparr>kp_ctx := (kp_ctx p)\<lparr>kc_pool := t\<rparr>\<rparr>) })"

text \<open>A thread in the function of the workers does not wait for other threads; one in the pool may.\<close>

definition par_ready :: "kg_par \<Rightarrow> nat list" where
  "par_ready p = filter (\<lambda>i. par_section i p \<noteq> None \<or> par_pool_turn i (kp_pool p) \<noteq> None) [0..<Suc (tp_numWorkers (kp_pool p))]"

text \<open>The caller has returned from \<open>threadpool_issue\<close>, and the event that \<open>threadpool_complete\<close> waits for is set.\<close>

definition par_complete :: "kg_par \<Rightarrow> bool" where
  "par_complete p \<longleftrightarrow> list_all returned (tp_issuers (kp_pool p)) \<and> tp_completed (kp_pool p)"

text \<open>\<open>None\<close> also when the event is not set and no thread can take a step: the caller waits for ever.\<close>

partial_function (option) par_loop :: "kg_env \<Rightarrow> bool \<Rightarrow> nat list \<Rightarrow> nat \<Rightarrow> kg_par \<Rightarrow> kg_par option" where
  "par_loop e callback secs k p =
     (if par_complete p then Some p
      else let is = par_ready p in
        if is = [] then None
        else do {
          p' \<leftarrow> par_turn e callback (is ! (ke_pick e secs k mod length is)) p;
          par_loop e callback secs (Suc k) p' })"

text \<open>
  The caller enters \<open>threadpool_issue\<close> with the sections; the record of what was accepted and has finished starts anew. An item
  stands for its collector, whose index is that of the section as long as no two sections have the same array of nodes.
\<close>

definition issue_sections :: "nat list \<Rightarrow> nat threadpool_t \<Rightarrow> nat threadpool_t" where
  "issue_sections secs t = t\<lparr>tp_issuers := [IWait secs], tp_accepted := [], tp_finished := []\<rparr>"

definition run_parallel :: "kg_env \<Rightarrow> bool \<Rightarrow> nat list \<Rightarrow> kg_ctx \<Rightarrow> kg_ctx option" where
  "run_parallel e callback secs c = do {
     p \<leftarrow> par_loop e callback secs 0 \<lparr>kp_ctx = c\<lparr>kc_pool := issue_sections secs (kc_pool c)\<rparr>, kp_at = (\<lambda>_. BStart)\<rparr>;
     Some (kp_ctx p) }"

text \<open>The body of the loop for one order: \<open>None\<close> inside is the loop's break.\<close>

definition run_order ::
  "kg_env \<Rightarrow> bool \<Rightarrow> nat list \<Rightarrow> nat \<Rightarrow> kg_ctx \<Rightarrow> (nat \<times> kg_ctx) option option" where
  "run_order e callback secs nrun c =
     (case secs of
        [] \<Rightarrow> Some None
      | [s] \<Rightarrow> do {
          (_, c') \<leftarrow> run_section e callback True s c;
          Some (Some (size_add nrun 1, c')) }
      | _ \<Rightarrow> do {
          c' \<leftarrow> run_parallel e callback secs c;
          Some (Some (size_add nrun (length secs), c')) })"

text \<open>
  The loop over the orders. The boolean of the result says that the loop was left by its break, not
  by the early return. \<open>fuel\<close> bounds the orders that can still occur: each round uses up a section.
\<close>

fun order_loop :: "kg_env \<Rightarrow> bool \<Rightarrow> nat \<Rightarrow> nat \<Rightarrow> nat \<Rightarrow> kg_ctx \<Rightarrow> (bool \<times> nat \<times> kg_ctx) option" where
  "order_loop e callback 0 ord nrun c = None"
| "order_loop e callback (Suc fuel) ord nrun c = do {
     secs \<leftarrow> collect_order (kc_graph c) ord [0..<numSections (kc_graph c)] [];
     (case secs of
        Inl _ \<Rightarrow> Some (False, nrun, c)
      | Inr ss \<Rightarrow> do {
          r \<leftarrow> run_order e callback ss nrun c;
          (case r of
             None \<Rightarrow> Some (True, nrun, c)
           | Some (nrun', c') \<Rightarrow> order_loop e callback fuel (Suc ord) nrun' c') }) }"

definition DVP_KernelGraph_Process :: "kg_env \<Rightarrow> bool \<Rightarrow> kg_ctx \<Rightarrow> (nat \<times> kg_ctx) option" where
  "DVP_KernelGraph_Process e callback c =
     (case dvp_graph_lock (kc_lock c) of
        (False, gl) \<Rightarrow> Some (0, c\<lparr>kc_lock := gl\<rparr>)
      | (True, gl) \<Rightarrow> do {
          let c1 = c\<lparr>kc_lock := gl\<rparr>;
          (ok, c2) \<leftarrow> (if \<not> verified (kc_graph c1) then do {
                         (v, r) \<leftarrow> DVP_KernelGraph_Verify (Some (c1\<lparr>kc_lock := dvp_graph_unlock gl\<rparr>));
                         c' \<leftarrow> r;
                         Some (v, if v then c'\<lparr>kc_lock := snd (dvp_graph_lock (kc_lock c'))\<rparr> else c') }
                       else Some (True, c1));
          if \<not> ok then Some (0, c2)
          else do {
            let g = kc_graph c2;
            let c3 = c2\<lparr>kc_graph := g\<lparr>totalperf := DVP_PerformanceStart (fst (ke_total e)) (totalperf g)\<rparr>\<rparr>;
            (broke, nrun, c4) \<leftarrow> order_loop e callback (Suc (numSections g)) 0 0 c3;
            if broke then do {
              perf \<leftarrow> DVP_PerformanceStop (snd (ke_total e)) (totalperf (kc_graph c4));
              Some (nrun, c4\<lparr>kc_graph := (kc_graph c4)\<lparr>totalperf := perf\<rparr>,
                            kc_lock := dvp_graph_unlock (kc_lock c4)\<rparr>) }
            else Some (nrun, c4) } })"

section \<open>Services\<close>

definition DVP_GetCoreCapacity :: "DVP_t option \<Rightarrow> int \<Rightarrow> u32 option" where
  "DVP_GetCoreCapacity handle core =
     (case handle of
        None \<Rightarrow> Some 0
      | Some d \<Rightarrow> do {
          (newMax, hwMax) \<leftarrow> DVP_GetMaxLoad (Some d) core 0;
          Some (if hwMax \<noteq> 0 then (newMax * 1000) div hwMax else 0) })"

definition DVP_SetCoreCapacity :: "DVP_t option \<Rightarrow> int \<Rightarrow> u32 \<Rightarrow> DVP_t option option" where
  "DVP_SetCoreCapacity handle core limit =
     (case handle of
        None \<Rightarrow> Some None
      | Some d \<Rightarrow> do {
          (_, hwMax) \<leftarrow> DVP_GetMaxLoad (Some d) core 0;
          let limit' = (if limit > 1000 then 1000 else limit);
          DVP_SetMaxLoad (Some d) core ((limit' * hwMax) div 1000) })"

definition DVP_Perf_Clear :: "rtime \<Rightarrow> DVP_Perf_t" where
  "DVP_Perf_Clear freq = \<lparr>numTimes = 0, tmpTime = 0, minTime = - 1, maxTime = 0, avgTime = 0, sumTime = 0, rate = freq\<rparr>"

fun perf_clear_nodes :: "rtime \<Rightarrow> DVP_KernelNode_t list \<Rightarrow> nat list \<Rightarrow> DVP_KernelNode_t list option" where
  "perf_clear_nodes freq nodes [] = Some nodes"
| "perf_clear_nodes freq nodes (i # is) = do {
     node \<leftarrow> nth_chk nodes i;
     perf_clear_nodes freq (nodes[i := node\<lparr>n_perf := DVP_Perf_Clear freq\<rparr>]) is }"

definition DVP_PerformanceClear :: "rtime \<Rightarrow> DVP_KernelNode_t list \<Rightarrow> nat \<Rightarrow> DVP_KernelNode_t list option" where
  "DVP_PerformanceClear freq nodes num = perf_clear_nodes freq nodes [0..<num]"

fun query_cores :: "DVP_t \<Rightarrow> nat list \<Rightarrow> (nat \<Rightarrow> DVP_CoreInfo_t) \<Rightarrow> (nat \<Rightarrow> DVP_CoreInfo_t) option" where
  "query_cores dvp [] info = Some info"
| "query_cores dvp (c # cs) info = do {
     i \<leftarrow> DVP_QueryCore dvp (int c) (Some (info c));
     query_cores dvp cs (info(c := i)) }"

definition DVP_QuerySystem :: "DVP_t \<Rightarrow> (nat \<Rightarrow> DVP_CoreInfo_t) \<Rightarrow> (nat \<Rightarrow> DVP_CoreInfo_t) option" where
  "DVP_QuerySystem dvp info = query_cores dvp [0..<DVP_CORE_MAX] info"

fun query_kernel_cores :: "DVP_t \<Rightarrow> int \<Rightarrow> nat list \<Rightarrow> (nat \<Rightarrow> bool) \<Rightarrow> (nat \<Rightarrow> bool) option" where
  "query_kernel_cores dvp k [] present = Some present"
| "query_kernel_cores dvp k (c # cs) present = do {
     b \<leftarrow> DVP_QueryCoreForKernel dvp k (int c);
     query_kernel_cores dvp k cs (present(c := b)) }"

definition DVP_QueryKernel :: "DVP_t \<Rightarrow> int \<Rightarrow> (nat \<Rightarrow> bool) \<Rightarrow> (nat \<Rightarrow> bool) option" where
  "DVP_QueryKernel dvp k present = query_kernel_cores dvp k [0..<DVP_CORE_MAX] present"

datatype dvp_error = DVP_SUCCESS | DVP_ERROR_INVALID_PARAMETER

definition DVP_KernelGraphSection_Init ::
  "DVP_t option \<Rightarrow> DVP_KernelGraph_t option \<Rightarrow> nat \<Rightarrow> DVP_KernelNode_t list \<Rightarrow> nat \<Rightarrow>
   (dvp_error \<times> DVP_KernelGraph_t option) option" where
  "DVP_KernelGraphSection_Init handle graph i nodes num =
     (case (handle, graph) of
        (Some _, Some g) \<Rightarrow>
          if i < numSections g then do {
            sec \<leftarrow> nth_chk (sections g) i;
            Some (DVP_SUCCESS, Some (g\<lparr>sections := (sections g)[i := sec\<lparr>pNodes := nodes, numNodes := num\<rparr>]\<rparr>)) }
          else Some (DVP_ERROR_INVALID_PARAMETER, graph)
      | _ \<Rightarrow> Some (DVP_ERROR_INVALID_PARAMETER, graph))"

text \<open>
  \<open>perf0\<close> is \<open>DVP_PERF_INIT\<close>; the booleans are the outcomes of the three allocations. A graph asked for
  with no sections is the zero-filled structure.
\<close>

definition DVP_KernelGraph_Alloc ::
  "DVP_Perf_t \<Rightarrow> DVP_Perf_t \<Rightarrow> bool \<Rightarrow> bool \<Rightarrow> bool \<Rightarrow> DVP_t option \<Rightarrow> nat \<Rightarrow> DVP_KernelGraph_t option" where
  "DVP_KernelGraph_Alloc zero_perf perf0 ok_graph ok_sections ok_order handle n =
     (if handle = None \<or> \<not> ok_graph then None
      else if n > 0 then
        if \<not> ok_sections \<or> \<not> ok_order then None
        else Some \<lparr>sections = replicate n \<lparr>pNodes = [], numNodes = 0, sec_perf = perf0, coreLoad = (\<lambda>_. 0),
                                          skipSection = False\<rparr>,
                   numSections = n, order = replicate n 0, totalperf = perf0, verified = False\<rparr>
      else Some \<lparr>sections = [], numSections = 0, order = [], totalperf = zero_perf, verified = False\<rparr>)"

definition add_shift :: "dvp_image_shift_t \<Rightarrow> dvp_image_shift_t \<Rightarrow> dvp_image_shift_t" where
  "add_shift shift s = \<lparr>
     centerShiftHorz = centerShiftHorz shift + centerShiftHorz s,
     centerShiftVert = centerShiftVert shift + centerShiftVert s,
     topBorder = topBorder shift + topBorder s, rightBorder = rightBorder shift + rightBorder s,
     bottomBorder = bottomBorder shift + bottomBorder s, leftBorder = leftBorder shift + leftBorder s\<rparr>"

text \<open>
  The test of the indices is the code's: the manager index against the number of cores, the function
  index with \<open>\<le>\<close>. What they let through is looked up with the bounds of the arrays.
\<close>

definition DVP_KernelGraph_ImageShiftAccum ::
  "DVP_t option \<Rightarrow> DVP_KernelNode_t option \<Rightarrow> dvp_image_shift_t option \<Rightarrow> dvp_image_shift_t option option" where
  "DVP_KernelGraph_ImageShiftAccum handle node shift =
     (case (handle, node, shift) of
        (Some d, Some nd, Some sh) \<Rightarrow>
          if mgrIndex nd < DVP_CORE_MAX then do {
            m \<leftarrow> nth_chk (managers d) (mgrIndex nd);
            if funcIndex nd \<le> numSupportedKernels m then do {
              ks \<leftarrow> kernels m;
              f \<leftarrow> nth_chk ks (funcIndex nd);
              Some (Some (case cf_shift f of
                 Some s \<Rightarrow> add_shift sh s
               | None \<Rightarrow> (case cf_shift_func f of Some fn \<Rightarrow> fn nd sh | None \<Rightarrow> sh))) }
            else Some shift }
          else Some shift
      | _ \<Rightarrow> Some shift)"

end
