(* ===== verification/Dvp_KgraphPar.thy ===== *)
theory Dvp_KgraphPar
  imports Dvp_Kgraph "HOL-Library.Multiset"
begin

text \<open>
  The sections of one order on the workers of the thread pool, step by step: a worker alone does what
  \<open>DVP_KernelGraphBoss_Process\<close> does, and from an idle pool, with loads that fit on the cores together, the caller
  returns under every schedule, after each section has been run exactly once.
\<close>

section \<open>A worker alone\<close>

definition boss_move ::
  "(nat \<Rightarrow> DVP_t \<Rightarrow> DVP_t) \<Rightarrow> rtime \<times> rtime \<Rightarrow> bool \<Rightarrow> worker_at \<times> DVP_t \<times> DVP_KernelGraphSection_t \<Rightarrow>
   worker_at \<times> DVP_t \<times> DVP_KernelGraphSection_t \<Rightarrow> bool" where
  "boss_move env stamps sync x y = (case x of (w, d, s) \<Rightarrow> boss_step env stamps sync w d s = Some y)"

abbreviation boss_moves ::
  "(nat \<Rightarrow> DVP_t \<Rightarrow> DVP_t) \<Rightarrow> rtime \<times> rtime \<Rightarrow> bool \<Rightarrow> worker_at \<times> DVP_t \<times> DVP_KernelGraphSection_t \<Rightarrow>
   worker_at \<times> DVP_t \<times> DVP_KernelGraphSection_t \<Rightarrow> bool" where
  "boss_moves env stamps sync \<equiv> (boss_move env stamps sync)\<^sup>*\<^sup>*"

lemma boss_moves_step: "boss_step env stamps sync w d s = Some y \<Longrightarrow> boss_moves env stamps sync y z \<Longrightarrow> boss_moves env stamps sync (w, d, s) z"
  by (rule converse_rtranclp_into_rtranclp) (simp_all add: boss_move_def)

lemma process_loop_moves:
  assumes "process_loop env i sync d s = Some r"
  shows "boss_moves env stamps sync (BTry i, d, s) (BStop (fst r), snd r)"
proof (rule process_loop.raw_induct[where P = "\<lambda>env i sync d s r. boss_moves env stamps sync (BTry i, d, s) (BStop (fst r), snd r)", OF _ assms],
    goal_cases)
  case (1 f env i sync d s r)
  obtain ok d1 where c: "DVP_CommitLoad (Some (env i d)) (Some s) = Some (ok, Some d1)"
    using 1(2) by (auto simp: bind_eq_Some_conv)
  then have commit: "boss_step env stamps sync (BTry i) d s = Some (if ok then BExec i else BConf i, d1, s)"
    by (simp add: boss_step_def)
  show ?case
  proof (cases ok)
    case True
    obtain p nodes d2 where e: "execute_loop d1 sync (pNodes s) (numNodes s) 0 0 = Some (p, nodes)"
      "DVP_DecommitLoad (Some (env (Suc i) d1)) (Some s) = Some (Some d2)" "r = (p, d2, s\<lparr>pNodes := nodes\<rparr>)"
      using 1(2) c True by (auto simp: bind_eq_Some_conv)
    have "DVP_DecommitLoad (Some (env (Suc i) d1)) (Some (s\<lparr>pNodes := nodes\<rparr>)) = Some (Some d2)"
      using e(2) by (simp add: DVP_DecommitLoad_def)
    then have "boss_step env stamps sync (BExec i) d1 s = Some (BFree i p, d1, s\<lparr>pNodes := nodes\<rparr>)"
      "boss_step env stamps sync (BFree i p) d1 (s\<lparr>pNodes := nodes\<rparr>) = Some (BStop p, d2, s\<lparr>pNodes := nodes\<rparr>)"
      using e(1) by (simp_all add: boss_step_def)
    then show ?thesis using commit True e(3) by (auto intro!: boss_moves_step)
  next
    case False
    obtain n s1 where q: "DVP_ConfigureNodes (Some d1) (Some s) True = Some (n, Some s1)"
      "(if n = 0 then f env (Suc i) sync d1 s1 else Some (0, d1, s1)) = Some r"
      using 1(2) c False by (auto simp: bind_eq_Some_conv)
    then have conf: "boss_step env stamps sync (BConf i) d1 s = Some (if n = 0 then BTry (Suc i) else BStop 0, d1, s1)"
      by (simp add: boss_step_def)
    have "boss_moves env stamps sync (if n = 0 then BTry (Suc i) else BStop 0, d1, s1) (BStop (fst r), snd r)"
      using q(2) 1(1)[of env "Suc i" sync d1 s1 r] by (auto split: if_splits)
    then show ?thesis using commit False conf by (auto intro!: boss_moves_step)
  qed
qed

text \<open>Without other threads the steps of a worker are the call of the boss.\<close>

lemma boss_process_moves:
  assumes "DVP_KernelGraphBoss_Process env stamps sync d s = Some (n, d', s')"
  shows "boss_moves env stamps sync (BStart, d, s) (BCount n, d', s')"
proof -
  let ?s0 = "s\<lparr>sec_perf := DVP_PerformanceStart (fst stamps) (sec_perf s)\<rparr>"
  obtain s1 pf where p: "process_loop env 0 sync d ?s0 = Some (n, d', s1)" "DVP_PerformanceStop (snd stamps) (sec_perf s1) = Some pf"
    "s' = s1\<lparr>sec_perf := pf\<rparr>"
    using assms by (auto simp: DVP_KernelGraphBoss_Process_def Let_def bind_eq_Some_conv)
  have "boss_step env stamps sync BStart d s = Some (BTry 0, d, ?s0)"
    "boss_step env stamps sync (BStop n) d' s1 = Some (BCount n, d', s')"
    using p(2,3) by (simp_all add: boss_step_def)
  note ends = this
  have "boss_moves env stamps sync (BTry 0, d, ?s0) (BCount n, d', s')"
    using process_loop_moves[OF p(1), of stamps] ends(2)
    by (auto simp: boss_move_def intro: rtranclp.rtrancl_into_rtrancl)
  then show ?thesis by (rule boss_moves_step[OF ends(1)])
qed

section \<open>What the running sections hold\<close>

text \<open>The loads of the sections are not negative, and fit on every core together.\<close>

definition fit_together :: "DVP_KernelGraph_t \<Rightarrow> DVP_Load_t \<Rightarrow> nat list \<Rightarrow> bool" where
  "fit_together g l ss \<longleftrightarrow> (\<forall>c < DVP_CORE_MAX. (\<forall>s \<in> set ss. 0 \<le> sint (coreLoad (sections g ! s) c)) \<and>
     sint (currentLoad (ld_cores l c)) + sum_list (map (\<lambda>s. sint (coreLoad (sections g ! s) c)) ss) \<le> sint (maximumLoad (ld_cores l c)))"

text \<open>A worker holds the load of its section between its commit and its release.\<close>

fun holds_load :: "worker_at \<Rightarrow> bool" where
  "holds_load (BExec i) = True"
| "holds_load (BFree i n) = True"
| "holds_load _ = False"

definition holders :: "nat list \<Rightarrow> (nat \<Rightarrow> worker_at) \<Rightarrow> nat set" where
  "holders ss at = {s \<in> set ss. holds_load (at s)}"

definition held_load :: "DVP_KernelGraph_t \<Rightarrow> nat set \<Rightarrow> core_loads" where
  "held_load g H c = (\<Sum>s\<in>H. coreLoad (sections g ! s) c)"

abbreviation table_with :: "DVP_t \<Rightarrow> DVP_Load_t \<Rightarrow> core_loads \<Rightarrow> DVP_t" where
  "table_with d l L \<equiv> with_cores d l (loaded L all_cores (ld_cores l))"

lemma loaded_zero [simp]: "loaded (\<lambda>_. 0) S cores = cores"
  by (auto simp: loaded_def fun_eq_iff)

lemma loaded_more:
  "loaded k S (loaded L S cores) = loaded (\<lambda>c. L c + k c) S cores"
  "unloaded k S (loaded L S cores) = loaded (\<lambda>c. L c - k c) S cores"
  by (auto simp: loaded_def unloaded_def fun_eq_iff)

lemma holders_finite [simp]: "finite (holders ss at)"
  by (simp add: holders_def)

lemma held_load_step:
  assumes "s \<in> set ss"
  shows "held_load g (holders ss (at(s := w))) =
    (if holds_load w = holds_load (at s) then held_load g (holders ss at)
     else if holds_load w then (\<lambda>c. held_load g (holders ss at) c + coreLoad (sections g ! s) c)
     else (\<lambda>c. held_load g (holders ss at) c - coreLoad (sections g ! s) c))"
proof -
  have "holders ss (at(s := w)) = (if holds_load w then insert s (holders ss at) else holders ss at - {s})"
    using assms by (auto simp: holders_def)
  moreover have "s \<in> holders ss at \<longleftrightarrow> holds_load (at s)" using assms by (simp add: holders_def)
  ultimately show ?thesis
    by (auto simp: held_load_def fun_eq_iff sum.insert_if sum_diff1 insert_absorb)
qed

lemma sint_sum:
  fixes a :: s32 and f :: "nat \<Rightarrow> s32"
  assumes "finite A" and "\<forall>s \<in> A. 0 \<le> sint (f s)" and "sint a + (\<Sum>s\<in>A. sint (f s)) < 2 ^ 31"
  shows "sint (a + (\<Sum>s\<in>A. f s)) = sint a + (\<Sum>s\<in>A. sint (f s))"
  using assms
proof (induction A rule: finite_induct)
  case (insert x A)
  have pos: "0 \<le> sint (f x)" "0 \<le> (\<Sum>s\<in>A. sint (f s))" using insert.prems(1) by (auto intro: sum_nonneg)
  then have IH: "sint (a + (\<Sum>s\<in>A. f s)) = sint a + (\<Sum>s\<in>A. sint (f s))" using insert by simp
  have "- (2 ^ 31) \<le> sint a" using sint_ge[of a] by simp
  then have "sint (f x + (a + (\<Sum>s\<in>A. f s))) = sint (f x) + sint (a + (\<Sum>s\<in>A. f s))"
    using pos insert.prems(2) insert.hyps unfolding IH by (intro sint_add_range[of "f x" "a + (\<Sum>s\<in>A. f s)", unfolded IH]) simp_all
  then show ?case using insert.hyps IH by (simp add: algebra_simps)
qed simp

lemma held_load_fits:
  assumes "fit_together g l ss" and "distinct ss" and "s \<in> set ss" and "s \<notin> H" and "H \<subseteq> set ss"
  shows "fits (coreLoad (sections g ! s)) all_cores (loaded (held_load g H) all_cores (ld_cores l))"
  unfolding fits_def
proof
  fix c assume "c \<in> all_cores"
  then have c: "c < DVP_CORE_MAX" by simp
  let ?f = "\<lambda>s. coreLoad (sections g ! s) c"
  have fin: "finite H" using assms(5) finite_subset by blast
  have pos: "\<forall>s \<in> set ss. 0 \<le> sint (?f s)" using assms(1) c by (simp add: fit_together_def)
  have "(\<Sum>s\<in>insert s H. sint (?f s)) \<le> (\<Sum>s\<in>set ss. sint (?f s))" using assms(3,5) pos by (intro sum_mono2) auto
  moreover have "sint (currentLoad (ld_cores l c)) + (\<Sum>s\<in>set ss. sint (?f s)) \<le> sint (maximumLoad (ld_cores l c))"
    using assms(1,2) c by (simp add: fit_together_def sum_list_distinct_conv_sum_set)
  ultimately have le: "sint (currentLoad (ld_cores l c)) + (\<Sum>s\<in>insert s H. sint (?f s)) \<le> sint (maximumLoad (ld_cores l c))" by linarith
  moreover have "sint (maximumLoad (ld_cores l c)) < 2 ^ 31" using sint_lt[of "maximumLoad (ld_cores l c)"] by simp
  moreover have "\<forall>s \<in> insert s H. 0 \<le> sint (?f s)" using assms(3,5) pos by blast
  ultimately have "sint (currentLoad (ld_cores l c) + (\<Sum>s\<in>insert s H. ?f s)) \<le> sint (maximumLoad (ld_cores l c))"
    using sint_sum[of "insert s H" ?f "currentLoad (ld_cores l c)"] fin by simp
  then show "sint (currentLoad (loaded (held_load g H) all_cores (ld_cores l) c) + ?f s) \<le>
      sint (maximumLoad (loaded (held_load g H) all_cores (ld_cores l) c))"
    using c assms(4) fin by (simp add: loaded_def held_load_def add.assoc add.commute[of "sum _ _"])
qed

section \<open>One step of a worker\<close>

text \<open>What executing a section returns and leaves of its nodes: the runs go to their managers.\<close>

definition section_result :: "DVP_t \<Rightarrow> bool \<Rightarrow> DVP_KernelGraphSection_t \<Rightarrow> nat \<times> DVP_KernelNode_t list" where
  "section_result d sync s =
     execute_runs (\<lambda>m nodes n num. manager (the (calls (managers d ! m))) nodes n num sync)
       (mgr_runs 0 (map mgrIndex (take (numNodes s) (pNodes s)))) (0, pNodes s)"

text \<open>A section as a worker finds it at a place, from what it was when the order was issued.\<close>

definition sec_at :: "DVP_t \<Rightarrow> DVP_KernelGraphSection_t \<Rightarrow> worker_at \<Rightarrow> DVP_KernelGraphSection_t \<Rightarrow> bool" where
  "sec_at d s0 w s \<longleftrightarrow> s = s0\<lparr>pNodes := pNodes s, sec_perf := sec_perf s\<rparr> \<and>
     (case w of
        BStart \<Rightarrow> s = s0
      | BTry i \<Rightarrow> pNodes s = pNodes s0 \<and> numTimes (sec_perf s) = numTimes (sec_perf s0)
      | BConf i \<Rightarrow> False
      | BExec i \<Rightarrow> pNodes s = pNodes s0 \<and> numTimes (sec_perf s) = numTimes (sec_perf s0)
      | BFree i n \<Rightarrow> (n, pNodes s) = section_result d False s0 \<and> numTimes (sec_perf s) = numTimes (sec_perf s0)
      | BStop n \<Rightarrow> (n, pNodes s) = section_result d False s0 \<and> numTimes (sec_perf s) = numTimes (sec_perf s0)
      | BCount n \<Rightarrow> (n, pNodes s) = section_result d False s0
      | BDone \<Rightarrow> pNodes s = snd (section_result d False s0))"

fun boss_left :: "worker_at \<Rightarrow> nat" where
  "boss_left BStart = 6"
| "boss_left (BTry i) = 5"
| "boss_left (BConf i) = 4"
| "boss_left (BExec i) = 4"
| "boss_left (BFree i n) = 3"
| "boss_left (BStop n) = 2"
| "boss_left (BCount n) = 1"
| "boss_left BDone = 0"

text \<open>The load table after the step, from the load \<open>L\<close> that the workers hold before it.\<close>

definition load_after :: "DVP_KernelGraphSection_t \<Rightarrow> worker_at \<Rightarrow> worker_at \<Rightarrow> core_loads \<Rightarrow> core_loads" where
  "load_after s0 w w' L =
     (if holds_load w' = holds_load w then L
      else if holds_load w' then (\<lambda>c. L c + coreLoad s0 c) else (\<lambda>c. L c - coreLoad s0 c))"

lemma boss_step_ok:
  assumes run: "section_runnable d l s0" and calls: "calls_ok d" and l: "loads d = Some l" and at: "sec_at d s0 w s"
    and fit: "\<not> holds_load w \<Longrightarrow> fits (coreLoad s0) all_cores (loaded L all_cores (ld_cores l))"
    and w: "w \<noteq> BDone" "\<And>n. w \<noteq> BCount n"
  obtains w' s' where "boss_step alone stamps False w (table_with d l L) s = Some (w', table_with d l (load_after s0 w w' L), s')"
    "sec_at d s0 w' s'" "boss_left w' < boss_left w" "w' \<noteq> BDone"
proof -
  let ?d = "table_with d l L"
  obtain ns pf where s: "s = s0\<lparr>pNodes := ns, sec_perf := pf\<rparr>" using at unfolding sec_at_def by blast
  have table: "loads ?d = Some (l\<lparr>ld_cores := loaded L all_cores (ld_cores l)\<rparr>)" "managers ?d = managers d" by simp_all
  show ?thesis
  proof (cases w)
    case BStart
    then show ?thesis using at that[of "BTry 0" "s\<lparr>sec_perf := DVP_PerformanceStart (fst stamps) (sec_perf s)\<rparr>"]
      by (simp add: boss_step_def sec_at_def load_after_def DVP_PerformanceStart_def)
  next
    case (BTry i)
    have "DVP_CommitLoad (Some ?d) (Some s) = Some (True, Some (table_with d l (\<lambda>c. L c + coreLoad s0 c)))"
      using fit run BTry CommitLoad_eq[OF table(1), of s] by (simp add: section_runnable_def loaded_more s)
    moreover have "sec_at d s0 (BExec i) s" using at unfolding BTry sec_at_def worker_at.case .
    ultimately show ?thesis using BTry that[of "BExec i" s] by (simp add: boss_step_def load_after_def)
  next
    case (BConf i)
    then show ?thesis using at by (simp add: sec_at_def)
  next
    case (BExec i)
    have ns: "ns = pNodes s0" using at BExec by (simp add: sec_at_def s)
    have "nodes_on d (pNodes s0) (numNodes s0)" using run by (simp add: section_runnable_def section_ready_nodes_on)
    then have on: "nodes_on ?d ns (numNodes s0)" "calls_ok ?d" using calls by (simp_all add: nodes_on_def calls_ok_def ns)
    have "execute_loop ?d False ns (numNodes s0) 0 0 = Some (section_result d False s0)"
      using execute_loop_runs[OF on(2,1), of False 0 0] by (simp add: section_result_def ns take_map)
    moreover obtain n nodes where "section_result d False s0 = (n, nodes)" by fastforce
    ultimately have "execute_loop ?d False ns (numNodes s0) 0 0 = Some (n, nodes)" "section_result d False s0 = (n, nodes)" by simp_all
    then show ?thesis using at BExec that[of "BFree i n" "s\<lparr>pNodes := nodes\<rparr>"]
      by (simp add: boss_step_def sec_at_def load_after_def s)
  next
    case (BFree i n)
    have "DVP_DecommitLoad (Some ?d) (Some s) = Some (Some (table_with d l (\<lambda>c. L c - coreLoad s0 c)))"
      using DecommitLoad_eq[OF table(1), of s] by (simp add: loaded_more s)
    moreover have "sec_at d s0 (BStop n) s" using at unfolding BFree sec_at_def worker_at.case .
    ultimately show ?thesis using BFree that[of "BStop n" s] by (simp add: boss_step_def load_after_def)
  next
    case (BStop n)
    have "numTimes pf + 1 \<noteq> 0" using run at BStop by (simp add: section_runnable_def sec_at_def s)
    then obtain pf' where "DVP_PerformanceStop (snd stamps) pf = Some pf'"
      by (simp add: DVP_PerformanceStop_def Let_def)
    then show ?thesis using at BStop that[of "BCount n" "s\<lparr>sec_perf := pf'\<rparr>"]
      by (simp add: boss_step_def sec_at_def load_after_def s)
  qed (use w in simp_all)
qed

section \<open>The pool while an order runs\<close>

text \<open>Between two calls: no item anywhere, and nobody inside.\<close>

definition pool_idle :: "nat threadpool_t \<Rightarrow> bool" where
  "pool_idle t \<longleftrightarrow> tp_queues t = replicate MAX_SECTIONS [] \<and> tp_workers t = replicate MAX_SECTIONS TIdle \<and>
     tp_numWorkItems t = MAX_QUEUE_DEPTH \<and> tp_numCurrentItems t = 0 \<and> tp_nextWorkerIndex t < MAX_SECTIONS \<and>
     \<not> tp_sem t"

lemma pool_idle_init: "pool_idle graph_pool_init"
  by (simp add: pool_idle_def graph_pool_init_def threadpool_create_def)

text \<open>
  The items go to the workers in turn, and there are fewer of them than workers: a queue that holds an item has had
  its turn, so the next one is empty and no write fails.
\<close>

definition in_turn :: "nat threadpool_t \<Rightarrow> bool" where
  "in_turn t \<longleftrightarrow> (\<forall>j < MAX_SECTIONS. length (tp_queues t ! j) \<le> 1 \<and>
     (tp_queues t ! j \<noteq> [] \<longrightarrow>
        MAX_SECTIONS \<le> (j + MAX_SECTIONS - tp_nextWorkerIndex t) mod MAX_SECTIONS + length (tp_accepted t)))"

text \<open>What the caller has not written yet, and that it fails for none.\<close>

fun to_issue :: "'a issuer \<Rightarrow> 'a list \<Rightarrow> 'a list \<Rightarrow> bool" where
  "to_issue (IWait items) acc ss \<longleftrightarrow> acc = [] \<and> items = ss"
| "to_issue (ILoop items cnt) acc ss \<longleftrightarrow> acc @ items = ss"
| "to_issue (IFinish b) acc ss \<longleftrightarrow> acc = ss"
| "to_issue (IDone b) acc ss \<longleftrightarrow> acc = ss"

definition issuing :: "nat list \<Rightarrow> nat threadpool_t \<Rightarrow> bool" where
  "issuing ss t \<longleftrightarrow> pool_inv t \<and> tp_numWorkers t = MAX_SECTIONS \<and> tp_numWorkItems t = MAX_QUEUE_DEPTH \<and> in_turn t \<and>
     (\<exists>u. tp_issuers t = [u] \<and> to_issue u (tp_accepted t) ss)"

lemma turn_step:
  assumes "j < 4" and "n < (4 :: nat)"
  shows "(j + 4 - (n + 1) mod 4) mod 4 = (if j = n then 3 else (j + 4 - n) mod 4 - 1)" "j \<noteq> n \<Longrightarrow> 1 \<le> (j + 4 - n) mod 4"
proof -
  have "j = 0 \<or> j = 1 \<or> j = 2 \<or> j = 3" "n = 0 \<or> n = 1 \<or> n = 2 \<or> n = 3" using assms by auto
  then show "(j + 4 - (n + 1) mod 4) mod 4 = (if j = n then 3 else (j + 4 - n) mod 4 - 1)" "j \<noteq> n \<Longrightarrow> 1 \<le> (j + 4 - n) mod 4"
    by (elim disjE; simp)+
qed

lemma issuing_start:
  assumes "pool_idle t"
  shows "issuing ss (issue_sections ss t)"
proof -
  have "pool_inv (issue_sections ss t)"
    using assms by (intro pool_invI)
      (auto simp: pool_idle_def issue_sections_def tp_numWorkers_def outstanding_def busy_def inside_def waiting_def
        sum_list_replicate map_replicate_const)
  moreover have "in_turn (issue_sections ss t)"
    using assms by (simp add: in_turn_def pool_idle_def issue_sections_def)
  ultimately show ?thesis using assms
    by (auto simp: issuing_def pool_idle_def issue_sections_def tp_numWorkers_def)
qed

lemma issuing_worker:
  assumes "issuing ss t" and "i < tp_numWorkers t" and "threadpool_worker i t = Some t'"
  shows "issuing ss t'"
proof -
  have inv: "pool_inv t" "in_turn t" "length (tp_queues t) = MAX_SECTIONS"
    using assms(1) pool_invD(1)[of t] by (auto simp: issuing_def)
  have "pool_inv t'" using pool_inv_worker[OF inv(1) _ assms(3)] assms(2) by (simp add: tp_numWorkers_def)
  moreover have same: "tp_nextWorkerIndex t' = tp_nextWorkerIndex t" "tp_accepted t' = tp_accepted t" "tp_issuers t' = tp_issuers t"
    "tp_numWorkItems t' = tp_numWorkItems t" "tp_numWorkers t' = tp_numWorkers t"
    using assms(3) by (auto simp: threadpool_worker_def tp_numWorkers_def Let_def split: tworker.splits list.splits if_splits)
  moreover have shorter: "length (tp_queues t' ! j) \<le> length (tp_queues t ! j)" for j
    using assms(3) by (cases "j = i"; cases "i < length (tp_queues t)")
      (auto simp: threadpool_worker_def Let_def list_update_beyond split: tworker.splits list.splits if_splits)
  then have "tp_queues t ! j \<noteq> []" if "tp_queues t' ! j \<noteq> []" for j
    using that by (metis le_zero_eq length_0_conv)
  then have "in_turn t'"
    using inv(2) shorter unfolding in_turn_def same by (meson order_trans)
  ultimately show ?thesis using assms(1) by (simp add: issuing_def)
qed

text \<open>The queue whose turn it is has room.\<close>

lemma issuing_next:
  assumes "issuing ss t" and "length (tp_accepted t) < MAX_SECTIONS"
  shows "tp_queues t ! tp_nextWorkerIndex t = []" "tp_nextWorkerIndex t < MAX_SECTIONS"
proof -
  show turn: "tp_nextWorkerIndex t < MAX_SECTIONS" using assms(1) pool_invD(2)[of t] by (auto simp: issuing_def)
  then show "tp_queues t ! tp_nextWorkerIndex t = []" using assms by (auto simp: issuing_def in_turn_def)
qed

lemma in_turn_write:
  assumes "in_turn t" and "tp_queues t ! n = []" and n: "n = tp_nextWorkerIndex t" "n < MAX_SECTIONS"
    and "length (tp_queues t) = MAX_SECTIONS"
    and t': "tp_queues t' = (tp_queues t)[n := tp_queues t ! n @ [x]]" "tp_nextWorkerIndex t' = (n + 1) mod MAX_SECTIONS"
      "tp_accepted t' = tp_accepted t @ [x]"
  shows "in_turn t'"
  unfolding in_turn_def
proof (intro allI impI conjI)
  fix j :: nat assume j: "j < MAX_SECTIONS"
  note turn = turn_step[OF j n(2)]
  show "length (tp_queues t' ! j) \<le> 1" using assms j by (cases "j = n") (auto simp: in_turn_def)
  assume "tp_queues t' ! j \<noteq> []"
  then have "j = n \<or> MAX_SECTIONS \<le> (j + MAX_SECTIONS - n) mod MAX_SECTIONS + length (tp_accepted t)"
    using assms(1,2) n(1) t'(1) j assms(5) by (cases "j = n") (auto simp: in_turn_def)
  then show "MAX_SECTIONS \<le> (j + MAX_SECTIONS - tp_nextWorkerIndex t') mod MAX_SECTIONS + length (tp_accepted t')"
    using turn unfolding t'(2,3) by (cases "j = n") auto
qed

lemma issuing_issue:
  assumes iss: "issuing ss t" and few: "length ss < MAX_SECTIONS" and step: "threadpool_issue 0 t = Some t'"
  shows "issuing ss t'"
proof -
  obtain u where u: "tp_issuers t = [u]" "to_issue u (tp_accepted t) ss" using iss by (auto simp: issuing_def)
  have inv: "pool_inv t" "in_turn t" "length (tp_queues t) = MAX_SECTIONS" "tp_numWorkers t = MAX_SECTIONS" "tp_numWorkItems t = MAX_QUEUE_DEPTH"
    using iss pool_invD(1)[of t] by (auto simp: issuing_def)
  have inv': "pool_inv t'" using pool_inv_issuer[OF inv(1) _ step] u(1) by simp
  show ?thesis
  proof (cases u)
    case (IWait items)
    have "t' = t\<lparr>tp_sem := True, tp_completed := False, tp_issuers := [if items = [] then IFinish False else ILoop items 0]\<rparr>"
      using step IWait u(1) by (auto simp: threadpool_issue_def split: if_splits)
    then show ?thesis using inv inv' u(2) IWait by (auto simp: issuing_def tp_numWorkers_def in_turn_def)
  next
    case (ILoop items cnt)
    then obtain x xs where x: "items = x # xs" using step u(1) by (auto simp: threadpool_issue_def split: list.splits)
    have "length (tp_accepted t) < MAX_SECTIONS" using u(2) ILoop few by (auto dest!: arg_cong[of _ _ length])
    note room = issuing_next[OF iss this]
    let ?n = "tp_nextWorkerIndex t"
    have t': "t' = t\<lparr>tp_nextWorkerIndex := (?n + 1) mod MAX_SECTIONS, tp_numCurrentItems := tp_numCurrentItems t + 1,
        tp_queues := (tp_queues t)[?n := tp_queues t ! ?n @ [x]], tp_accepted := tp_accepted t @ [x],
        tp_issuers := [if xs = [] then IFinish True else ILoop xs 0]\<rparr>"
      using step ILoop u(1) x room inv(4,5) by (simp add: threadpool_issue_def Let_def)
    then have "in_turn t'" using in_turn_write[OF inv(2) room(1) refl room(2) inv(3), of t' x] by simp
    then show ?thesis using inv inv' u(2) ILoop x t' by (auto simp: issuing_def tp_numWorkers_def)
  next
    case (IFinish b)
    have "t' = t\<lparr>tp_completed := (tp_numCurrentItems t = 0 \<or> tp_completed t), tp_sem := False, tp_issuers := [IDone b]\<rparr>"
      using step IFinish u(1) by (simp add: threadpool_issue_def)
    then show ?thesis using inv inv' u(2) IFinish by (auto simp: issuing_def tp_numWorkers_def in_turn_def)
  qed (use step u(1) in \<open>simp add: threadpool_issue_def\<close>)
qed

text \<open>When the caller is let go, the pool is idle again and has run what was issued.\<close>

lemma issuing_done:
  assumes "issuing ss t" and "list_all returned (tp_issuers t)" and "tp_completed t"
  shows "pool_idle t" "mset (tp_finished t) = mset ss"
proof -
  have inv: "pool_inv t" "tp_numWorkers t = MAX_SECTIONS" "tp_numWorkItems t = MAX_QUEUE_DEPTH"
    using assms(1) by (simp_all add: issuing_def)
  have out: "outstanding t = 0" "\<not> tp_sem t" using pool_invD(7)[OF inv(1) assms(3)] by simp_all
  have "\<forall>q \<in> set (tp_queues t). q = []" "\<forall>w \<in> set (tp_workers t). w = TIdle"
    using out(1) by (auto simp: outstanding_def busy_def split: if_splits)
  then have idle: "tp_queues t = replicate MAX_SECTIONS []" "tp_workers t = replicate MAX_SECTIONS TIdle"
    using pool_invD(1)[OF inv(1)] inv(2) by (auto simp: tp_numWorkers_def intro!: replicate_eqI)
  show "pool_idle t" using idle inv out pool_invD(2,3)[OF inv(1)] by (simp add: pool_idle_def)
  obtain u where "tp_issuers t = [u]" "to_issue u (tp_accepted t) ss" using assms(1) by (auto simp: issuing_def)
  then have "tp_accepted t = ss" using assms(2) by (cases u) (simp_all add: returned_def)
  then show "mset (tp_finished t) = mset ss" using pool_invD(9)[OF inv(1)] idle by (simp add: concat_replicate_trivial)
qed

lemma issuing_stuck:
  assumes "issuing ss t" and "pool_stuck t"
  shows "list_all returned (tp_issuers t) \<and> tp_completed t"
proof -
  have inv: "pool_inv t" "tp_numWorkers t = MAX_SECTIONS" using assms(1) by (simp_all add: issuing_def)
  obtain u where u: "tp_issuers t = [u]" using assms(1) by (auto simp: issuing_def)
  have iss: "\<not> tp_sem t" "returned u" using stuck_issuers[OF inv(1) _ assms(2)] inv(2) u by auto
  have wrk: "\<forall>w \<in> set (tp_workers t). w = TIdle" "\<forall>q \<in> set (tp_queues t). q = []"
    using stuck_workers[OF inv(1) iss(1) assms(2)] by auto
  then have "outstanding t = 0" by (auto simp: outstanding_def busy_def)
  moreover have "\<not> waiting u" using iss(2) by (cases u) (simp_all add: returned_def waiting_def)
  ultimately show ?thesis using pool_invD(8)[OF inv(1) iss(1)] u iss(2) by auto
qed

section \<open>The invariant\<close>

definition runnable_at :: "kg_ctx \<Rightarrow> DVP_Load_t \<Rightarrow> nat \<Rightarrow> bool" where
  "runnable_at c l s \<longleftrightarrow> s < length (sections (kc_graph c)) \<and>
     section_runnable (kc_dvp c) l (sections (kc_graph c) ! s)"

text \<open>A section that waits has not been started, and one that has finished has been run to the end.\<close>

definition items_placed :: "nat list \<Rightarrow> nat threadpool_t \<Rightarrow> (nat \<Rightarrow> worker_at) \<Rightarrow> bool" where
  "items_placed ss t at \<longleftrightarrow>
     (\<forall>s \<in> set ss. s \<notin> set (tp_finished t) \<and> s \<notin> set (concat (map working (tp_workers t))) \<longrightarrow> at s = BStart) \<and>
     (\<forall>s \<in> set (tp_finished t). at s = BDone)"

definition results_of :: "kg_ctx \<Rightarrow> (nat \<Rightarrow> bool) \<Rightarrow> (nat \<times> nat) list \<Rightarrow> bool" where
  "results_of c sync log \<longleftrightarrow> (\<forall>(s, n) \<in> set log. n = fst (section_result (kc_dvp c) (sync s) (sections (kc_graph c) ! s)))"

definition logged :: "bool \<Rightarrow> kg_ctx \<Rightarrow> nat set \<Rightarrow> kg_ctx \<Rightarrow> bool" where
  "logged callback c S c' \<longleftrightarrow>
     (\<exists>log ts. kc_log c' = kc_log c @ log \<and> map fst log = (if callback then ts else []) \<and> distinct ts \<and> set ts = S \<and>
        results_of c (\<lambda>_. False) log)"

lemma sec_at_count: "sec_at d s0 (BCount n) s \<Longrightarrow> sec_at d s0 BDone s \<and> n = fst (section_result d False s0)"
  unfolding sec_at_def worker_at.case by (metis fst_conv snd_conv)

lemma logged_snoc:
  assumes "logged callback c S c'" and "s \<notin> S" and "kc_log c'' = kc_log c' @ (if callback then [(s, n)] else [])"
    and "n = fst (section_result (kc_dvp c) False (sections (kc_graph c) ! s))"
  shows "logged callback c (insert s S) c''"
proof -
  obtain log ts where l: "kc_log c' = kc_log c @ log" "map fst log = (if callback then ts else [])" "distinct ts" "set ts = S"
    "results_of c (\<lambda>_. False) log"
    using assms(1) by (auto simp: logged_def)
  then show ?thesis using assms(2-) unfolding logged_def
    by (intro exI[of _ "log @ (if callback then [(s, n)] else [])"] exI[of _ "ts @ [s]"]) (auto simp: results_of_def)
qed

definition par_inv :: "bool \<Rightarrow> kg_ctx \<Rightarrow> DVP_Load_t \<Rightarrow> nat list \<Rightarrow> kg_par \<Rightarrow> bool" where
  "par_inv callback c l ss p \<longleftrightarrow> (let c' = kp_ctx p; secs = sections (kc_graph c') in
     issuing ss (kc_pool c') \<and> items_placed ss (kc_pool c') (kp_at p) \<and> kc_lock c' = kc_lock c \<and>
     kc_dvp c' = table_with (kc_dvp c) l (held_load (kc_graph c) (holders ss (kp_at p))) \<and>
     kc_graph c' = (kc_graph c)\<lparr>sections := secs\<rparr> \<and> length secs = length (sections (kc_graph c)) \<and>
     (\<forall>s. s \<notin> set ss \<longrightarrow> secs ! s = sections (kc_graph c) ! s) \<and>
     (\<forall>s \<in> set ss. sec_at (kc_dvp c) (sections (kc_graph c) ! s) (kp_at p s) (secs ! s)) \<and>
     logged callback c {s \<in> set ss. kp_at p s = BDone} c')"

definition par_left :: "nat list \<Rightarrow> kg_par \<Rightarrow> nat" where
  "par_left ss p = work_left (kp_pool p) + (\<Sum>s\<in>set ss. boss_left (kp_at p s))"

lemma par_inv_start:
  assumes "pool_idle (kc_pool c)" and "loads (kc_dvp c) = Some l"
  shows "par_inv callback c l ss \<lparr>kp_ctx = c\<lparr>kc_pool := issue_sections ss (kc_pool c)\<rparr>, kp_at = (\<lambda>_. BStart)\<rparr>"
proof -
  have "held_load (kc_graph c) (holders ss (\<lambda>_. BStart)) = (\<lambda>_. 0)" by (auto simp: held_load_def holders_def fun_eq_iff)
  then show ?thesis using issuing_start[OF assms(1)] assms(2)
    by (auto simp: par_inv_def items_placed_def issue_sections_def sec_at_def logged_def results_of_def Let_def)
qed

lemma in_set_concat_map: "x \<in> set (concat (map f xs)) \<longleftrightarrow> (\<exists>y \<in> set xs. x \<in> set (f y))"
  by auto

text \<open>What a worker has was issued, and has not finished.\<close>

lemma issuing_working:
  assumes "issuing ss t" and "distinct ss" and "i < tp_numWorkers t" and "tp_workers t ! i = TWork s"
  shows "s \<in> set ss \<and> s \<notin> set (tp_finished t)"
proof -
  obtain u where u: "to_issue u (tp_accepted t) ss" "pool_inv t" using assms(1) by (auto simp: issuing_def)
  have acc: "distinct (tp_accepted t)" "set (tp_accepted t) \<subseteq> set ss" using u(1) assms(2) by (cases u; auto)+
  have "TWork s \<in> set (tp_workers t)" using assms(3,4) unfolding tp_numWorkers_def by (metis nth_mem)
  then have s: "s \<in># mset (concat (map working (tp_workers t)))" by force
  note all = pool_invD(9)[OF u(2)]
  have "s \<in># mset (tp_accepted t)" unfolding all using s by simp
  then have in_acc: "s \<in> set (tp_accepted t)" by simp
  have "count (mset (tp_accepted t)) s \<le> 1" using acc(1) by (simp add: distinct_count_atmost_1)
  moreover have "0 < count (mset (concat (map working (tp_workers t)))) s" using s by (simp only: count_greater_zero_iff)
  ultimately have "count (mset (tp_finished t)) s = 0" unfolding all count_union by linarith
  then show ?thesis using acc(2) in_acc by (auto simp: count_eq_zero_iff)
qed

text \<open>A step of the pool itself.\<close>

abbreviation at_work :: "nat threadpool_t \<Rightarrow> nat set" where
  "at_work t \<equiv> set (concat (map working (tp_workers t)))"

lemma placed_mono:
  assumes "items_placed ss t at" and "set (tp_finished t) \<subseteq> set (tp_finished t')" and "\<forall>s \<in> set (tp_finished t'). at s = BDone"
    and "at_work t \<subseteq> at_work t' \<union> set (tp_finished t')"
  shows "items_placed ss t' at"
  using assms unfolding items_placed_def by blast

lemma at_work_update:
  assumes "i < length (tp_workers t)" and "tp_workers t' = (tp_workers t)[i := w]"
  shows "at_work t \<subseteq> at_work t' \<union> set (working (tp_workers t ! i))"
proof
  fix s assume "s \<in> at_work t"
  then obtain y where "y \<in> set (tp_workers t)" "s \<in> set (working y)" by (metis in_set_concat_map)
  then obtain k where k: "k < length (tp_workers t)" "s \<in> set (working (tp_workers t ! k))" by (metis in_set_conv_nth)
  show "s \<in> at_work t' \<union> set (working (tp_workers t ! i))"
  proof (cases "k = i")
    case False
    then have same: "tp_workers t' ! k = tp_workers t ! k" using assms(2) by simp
    have "tp_workers t' ! k \<in> set (tp_workers t')" using k(1) assms(2) by (intro nth_mem) simp
    moreover have "s \<in> set (working (tp_workers t' ! k))" using k(2) same by simp
    ultimately show ?thesis by (metis UnI1 in_set_concat_map)
  qed (use k in simp)
qed

lemma placed_worker:
  assumes items_placed: "items_placed ss t at" and "i < tp_numWorkers t" and finished: "\<And>s. tp_workers t ! i = TWork s \<Longrightarrow> at s = BDone"
    and step: "threadpool_worker i t = Some t'"
  shows "items_placed ss t' at"
proof -
  have i: "i < length (tp_workers t)" using assms(2) by (simp add: tp_numWorkers_def)
  obtain w where w: "tp_workers t' = (tp_workers t)[i := w]" "tp_finished t' = tp_finished t @ working (tp_workers t ! i)"
    using step by (auto simp: threadpool_worker_def Let_def split: tworker.splits list.splits if_splits)
  have "\<forall>s \<in> set (tp_finished t'). at s = BDone"
    using items_placed finished unfolding w(2) items_placed_def by (cases "tp_workers t ! i") auto
  then show ?thesis using placed_mono[OF items_placed, of t'] at_work_update[OF i w(1)] unfolding w(2) by auto
qed

text \<open>A step in the pool keeps the invariant and leaves less to do.\<close>

lemma par_pool_step:
  assumes inv: "par_inv callback c l ss p" and few: "length ss < MAX_SECTIONS"
    and none: "par_section i p = None" and turn: "par_pool_turn i (kp_pool p) = Some t'"
  shows "par_inv callback c l ss (p\<lparr>kp_ctx := (kp_ctx p)\<lparr>kc_pool := t'\<rparr>\<rparr>) \<and> work_left t' < work_left (kp_pool p)"
proof -
  let ?t = "kp_pool p"
  have iss: "issuing ss ?t" and items_placed: "items_placed ss ?t (kp_at p)" using inv by (simp_all add: par_inv_def Let_def)
  then have pool: "pool_inv ?t" "0 < length (tp_issuers ?t)" by (auto simp: issuing_def)
  have "issuing ss t' \<and> items_placed ss t' (kp_at p) \<and> work_left t' < work_left ?t"
  proof (cases "i < tp_numWorkers ?t")
    case True
    then have step: "threadpool_worker i ?t = Some t'" using turn by (simp add: par_pool_turn_def)
    have "kp_at p s = BDone" if "tp_workers ?t ! i = TWork s" for s
      using none True that by (simp add: par_section_def split: if_splits)
    then show ?thesis
      using issuing_worker[OF iss True step] placed_worker[OF items_placed True _ step] worker_step_less[OF pool(1) _ step] True
      by (simp add: tp_numWorkers_def)
  next
    case False
    then have step: "threadpool_issue 0 ?t = Some t'" using turn by (simp add: par_pool_turn_def)
    then have "tp_workers t' = tp_workers ?t" "tp_finished t' = tp_finished ?t"
      by (auto simp: threadpool_issue_def Let_def split: issuer.splits list.splits if_splits)
    then show ?thesis
      using issuing_issue[OF iss few step] items_placed issuer_step_less[OF pool step] by (simp add: items_placed_def)
  qed
  then show ?thesis using inv by (simp add: par_inv_def Let_def logged_def)
qed

text \<open>A step of the function of the workers, which does not fail.\<close>

lemma par_section_step:
  assumes inv: "par_inv callback c l ss p" and dist: "distinct ss"
    and d: "calls_ok (kc_dvp c)" "loads (kc_dvp c) = Some l" and run: "\<forall>s \<in> set ss. runnable_at c l s"
    and fit: "fit_together (kc_graph c) l ss" and env: "\<forall>s i d. ke_env e s i d = d"
    and sec: "par_section i p = Some s"
  obtains w c' where "dvp_kernelgraph_worker e callback s (kp_at p s) (kp_ctx p) = Some (w, c')"
    "par_inv callback c l ss \<lparr>kp_ctx = c', kp_at = (kp_at p)(s := w)\<rparr>" "boss_left w < boss_left (kp_at p s)" "kc_pool c' = kp_pool p"
    "s \<in> set ss"
proof -
  let ?t = "kp_pool p" and ?g = "kc_graph c" and ?w = "kp_at p s" and ?secs = "sections (kc_graph (kp_ctx p))"
  have at: "tp_workers ?t ! i = TWork s" "?w \<noteq> BDone" "i < tp_numWorkers ?t"
    using sec by (auto simp: par_section_def split: tworker.splits if_splits)
  have iss: "issuing ss ?t" and items_placed: "items_placed ss ?t (kp_at p)" using inv by (simp_all add: par_inv_def Let_def)
  have s: "s \<in> set ss" "s \<notin> set (tp_finished ?t)" using issuing_working[OF iss dist at(3,1)] by simp_all
  have "TWork s \<in> set (tp_workers ?t)" using at unfolding tp_numWorkers_def by (metis nth_mem)
  then have "s \<in> at_work ?t" by force
  then have placed': "items_placed ss ?t ((kp_at p)(s := w))" for w using items_placed s(2) by (auto simp: items_placed_def)
  have secs: "s < length ?secs" "sec_at (kc_dvp c) (sections ?g ! s) ?w (?secs ! s)"
    using inv run s(1) by (simp_all add: par_inv_def runnable_at_def Let_def)
  show ?thesis
  proof (cases "\<exists>n. ?w = BCount n")
    case True
    then obtain n where n: "?w = BCount n" by blast
    let ?c' = "(kp_ctx p)\<lparr>kc_count := kc_count (kp_ctx p) + 1, kc_log := kc_log (kp_ctx p) @ (if callback then [(s, n)] else [])\<rparr>"
    have "{x \<in> set ss. ((kp_at p)(s := BDone)) x = BDone} = insert s {x \<in> set ss. kp_at p x = BDone}" using s(1) by auto
    moreover have "logged callback c (insert s {x \<in> set ss. kp_at p x = BDone}) ?c'"
      using inv n sec_at_count[OF secs(2)[unfolded n]]
      by (intro logged_snoc[of _ _ _ "kp_ctx p" _ _ n]) (simp_all add: par_inv_def Let_def)
    ultimately have log: "logged callback c {x \<in> set ss. ((kp_at p)(s := BDone)) x = BDone} ?c'" by simp
    have "held_load ?g (holders ss ((kp_at p)(s := BDone))) = held_load ?g (holders ss (kp_at p))"
      using held_load_step[OF s(1), of ?g "kp_at p" BDone] n by simp
    then have "par_inv callback c l ss \<lparr>kp_ctx = ?c', kp_at = (kp_at p)(s := BDone)\<rparr>"
      using inv placed'[of BDone] log sec_at_count[OF secs(2)[unfolded n]] by (simp add: par_inv_def Let_def)
    then show ?thesis using n s(1) that[of BDone ?c'] by (simp add: dvp_kernelgraph_worker_def)
  next
    case False
    let ?L = "held_load ?g (holders ss (kp_at p))"
    have "section_runnable (kc_dvp c) l (sections ?g ! s)" using run s(1) by (simp add: runnable_at_def)
    moreover have "fits (coreLoad (sections ?g ! s)) all_cores (loaded ?L all_cores (ld_cores l))" if "\<not> holds_load ?w"
      using that by (intro held_load_fits[OF fit dist s(1)]) (auto simp: holders_def)
    ultimately obtain w' s' where step: "boss_step alone (ke_stamp e s) False ?w (table_with (kc_dvp c) l ?L) (?secs ! s) =
        Some (w', table_with (kc_dvp c) l (load_after (sections ?g ! s) ?w w' ?L), s')"
      "sec_at (kc_dvp c) (sections ?g ! s) w' s'" "boss_left w' < boss_left ?w" "w' \<noteq> BDone"
      by (rule boss_step_ok[OF _ d secs(2) _ at(2)]) (use False in auto)
    let ?c' = "(kp_ctx p)\<lparr>kc_dvp := table_with (kc_dvp c) l (load_after (sections ?g ! s) ?w w' ?L),
        kc_graph := (kc_graph (kp_ctx p))\<lparr>sections := ?secs[s := s']\<rparr>\<rparr>"
    have "ke_env e s = alone" using env by (simp add: fun_eq_iff)
    moreover have "kc_dvp (kp_ctx p) = table_with (kc_dvp c) l ?L" using inv by (simp add: par_inv_def Let_def)
    ultimately have "dvp_kernelgraph_worker e callback s ?w (kp_ctx p) = Some (w', ?c')"
      using step(1) False at(2) secs(1) by (cases ?w) (simp_all add: dvp_kernelgraph_worker_def nth_chk_Some)
    moreover have "load_after (sections ?g ! s) ?w w' ?L = held_load ?g (holders ss ((kp_at p)(s := w')))"
      using held_load_step[OF s(1), of ?g "kp_at p" w'] by (simp add: load_after_def)
    moreover have "{x \<in> set ss. ((kp_at p)(s := w')) x = BDone} = {x \<in> set ss. kp_at p x = BDone}"
      using step(4) at(2) by auto
    moreover have "kc_graph (kp_ctx p) = ?g\<lparr>sections := ?secs\<rparr>" using inv by (simp add: par_inv_def Let_def)
    then have "(kc_graph (kp_ctx p))\<lparr>sections := xs\<rparr> = ?g\<lparr>sections := xs\<rparr>" for xs
      by (metis DVP_KernelGraph_t.update_convs(1) DVP_KernelGraph_t.cases)
    ultimately have "par_inv callback c l ss \<lparr>kp_ctx = ?c', kp_at = (kp_at p)(s := w')\<rparr>"
      using inv placed'[of w'] step(2) secs(1) s(1) by (auto simp: par_inv_def Let_def logged_def nth_list_update)
    then show ?thesis using \<open>dvp_kernelgraph_worker e callback s ?w (kp_ctx p) = Some (w', ?c')\<close> step(3) s(1) that by simp
  qed
qed

section \<open>Running an order\<close>

lemma par_turn_step:
  assumes inv: "par_inv callback c l ss p" and few: "length ss < MAX_SECTIONS" and dist: "distinct ss"
    and d: "calls_ok (kc_dvp c)" "loads (kc_dvp c) = Some l" and run: "\<forall>s \<in> set ss. runnable_at c l s"
    and fit: "fit_together (kc_graph c) l ss" and env: "\<forall>s i d. ke_env e s i d = d"
    and ready: "i \<in> set (par_ready p)"
  obtains p' where "par_turn e callback i p = Some p'" "par_inv callback c l ss p'" "par_left ss p' < par_left ss p"
proof (cases "par_section i p")
  case None
  then obtain t' where t': "par_pool_turn i (kp_pool p) = Some t'" using ready by (auto simp: par_ready_def simp del: upt_Suc)
  from par_pool_step[OF inv few None t'] show ?thesis
    using None t' that[of "p\<lparr>kp_ctx := (kp_ctx p)\<lparr>kc_pool := t'\<rparr>\<rparr>"] by (simp add: par_turn_def par_left_def)
next
  case (Some s)
  obtain w c' where w: "dvp_kernelgraph_worker e callback s (kp_at p s) (kp_ctx p) = Some (w, c')"
    "par_inv callback c l ss \<lparr>kp_ctx = c', kp_at = (kp_at p)(s := w)\<rparr>" "boss_left w < boss_left (kp_at p s)" "kc_pool c' = kp_pool p"
    "s \<in> set ss"
    by (rule par_section_step[OF inv dist d run fit env Some])
  have "(\<Sum>x\<in>set ss. boss_left (((kp_at p)(s := w)) x)) < (\<Sum>x\<in>set ss. boss_left (kp_at p x))"
    using w(3,5) by (intro sum_strict_mono_ex1) auto
  then show ?thesis using Some w that[of "\<lparr>kp_ctx = c', kp_at = (kp_at p)(s := w)\<rparr>"]
    by (simp add: par_turn_def par_left_def)
qed

text \<open>If nobody can take a step, the caller has been let go.\<close>

lemma par_progress:
  assumes "par_inv callback c l ss p" and "par_ready p = []"
  shows "par_complete p"
proof -
  let ?t = "kp_pool p"
  have iss: "issuing ss ?t" using assms(1) by (simp add: par_inv_def Let_def)
  then have one: "length (tp_issuers ?t) = 1" by (auto simp: issuing_def)
  have none: "par_section i p = None \<and> par_pool_turn i ?t = None" if "i \<le> tp_numWorkers ?t" for i
    using assms(2) that by (auto simp: par_ready_def filter_empty_conv simp del: upt_Suc)
  have "threadpool_worker i ?t = None" if "i < tp_numWorkers ?t" for i
    using none[of i] that by (simp add: par_pool_turn_def)
  moreover have "threadpool_issue 0 ?t = None" using none[of "tp_numWorkers ?t"] by (simp add: par_pool_turn_def)
  ultimately have "pool_stuck ?t" using one by (simp add: pool_stuck_def tp_numWorkers_def)
  then show ?thesis using issuing_stuck[OF iss] by (simp add: par_complete_def)
qed

lemma par_loop_ends:
  assumes inv: "par_inv callback c l ss p" and few: "length ss < MAX_SECTIONS" and dist: "distinct ss"
    and d: "calls_ok (kc_dvp c)" "loads (kc_dvp c) = Some l" and run: "\<forall>s \<in> set ss. runnable_at c l s"
    and fit: "fit_together (kc_graph c) l ss" and env: "\<forall>s i d. ke_env e s i d = d"
  shows "\<exists>q. par_loop e callback ss k p = Some q \<and> par_inv callback c l ss q \<and> par_complete q"
  using inv
proof (induction "par_left ss p" arbitrary: k p rule: less_induct)
  case less
  show ?case
  proof (cases "par_complete p")
    case True
    then show ?thesis using less.prems by (simp add: par_loop.simps)
  next
    case False
    let ?is = "par_ready p"
    have some: "?is \<noteq> []" using par_progress[OF less.prems] False by blast
    then have "?is ! (ke_pick e ss k mod length ?is) \<in> set ?is" by (intro nth_mem mod_less_divisor) simp
    then obtain p' where "par_turn e callback (?is ! (ke_pick e ss k mod length ?is)) p = Some p'"
      "par_inv callback c l ss p'" "par_left ss p' < par_left ss p"
      by (rule par_turn_step[OF less.prems few dist d run fit env])
    then show ?thesis using less.hyps[of p' "Suc k"] False some by (simp add: par_loop.simps Let_def)
  qed
qed

text \<open>
  What running the sections \<open>ss\<close>, in this order, may change of a context: the nodes and counters of these sections, the
  count of the workers and the log of callbacks. \<open>sync s\<close> is the mode that section \<open>s\<close> is run in.
\<close>

definition stepped :: "(nat \<Rightarrow> bool) \<Rightarrow> bool \<Rightarrow> kg_ctx \<Rightarrow> nat list \<Rightarrow> kg_ctx \<Rightarrow> bool" where
  "stepped sync callback c ss c' \<longleftrightarrow>
     kc_dvp c' = kc_dvp c \<and> kc_lock c' = kc_lock c \<and>
     numSections (kc_graph c') = numSections (kc_graph c) \<and> order (kc_graph c') = order (kc_graph c) \<and>
     totalperf (kc_graph c') = totalperf (kc_graph c) \<and> verified (kc_graph c') = verified (kc_graph c) \<and>
     map skipSection (sections (kc_graph c')) = map skipSection (sections (kc_graph c)) \<and>
     (\<forall>i. i \<notin> set ss \<longrightarrow> sections (kc_graph c') ! i = sections (kc_graph c) ! i) \<and>
     (\<forall>i \<in> set ss. pNodes (sections (kc_graph c') ! i) = snd (section_result (kc_dvp c) (sync i) (sections (kc_graph c) ! i))) \<and>
     (\<exists>log. kc_log c' = kc_log c @ log \<and> map fst log = (if callback then ss else []) \<and> results_of c sync log)"

lemma stepped_refl: "stepped sync callback c [] c"
  by (simp add: stepped_def results_of_def)

lemma stepped_trans:
  assumes "stepped sync callback c ss c'" "stepped sync callback c' ts c''" "set ss \<inter> set ts = {}"
  shows "stepped sync callback c (ss @ ts) c''"
proof -
  obtain l1 l2 where l: "kc_log c' = kc_log c @ l1" "map fst l1 = (if callback then ss else [])" "results_of c sync l1"
    "kc_log c'' = kc_log c' @ l2" "map fst l2 = (if callback then ts else [])" "results_of c' sync l2"
    using assms(1,2) unfolding stepped_def by blast
  have same: "sections (kc_graph c') ! i = sections (kc_graph c) ! i" if "i \<in> set ts" for i
    using assms(1,3) that unfolding stepped_def by (metis disjoint_iff)
  have "fst ` set l2 \<subseteq> set ts" using arg_cong[OF l(5), of set] by (auto split: if_splits)
  then have "results_of c sync l2" using l(6) same assms(1) unfolding results_of_def stepped_def by fastforce
  then have "\<exists>log. kc_log c'' = kc_log c @ log \<and> map fst log = (if callback then ss @ ts else []) \<and> results_of c sync log"
    using l by (intro exI[of _ "l1 @ l2"]) (auto simp: results_of_def)
  moreover have "pNodes (sections (kc_graph c'') ! i) = snd (section_result (kc_dvp c) (sync i) (sections (kc_graph c) ! i))"
    if "i \<in> set (ss @ ts)" for i
    using assms that same unfolding stepped_def by (cases "i \<in> set ts") auto
  ultimately show ?thesis using assms(1,2) unfolding stepped_def by simp
qed

lemma stepped_mode:
  assumes "stepped sync callback c ss c'" "\<forall>s \<in> set ss. sync' s = sync s"
  shows "stepped sync' callback c ss c'"
proof -
  obtain log where l: "kc_log c' = kc_log c @ log" "map fst log = (if callback then ss else [])" "results_of c sync log"
    using assms(1) unfolding stepped_def by blast
  have "fst ` set log \<subseteq> set ss" using arg_cong[OF l(2), of set] by (auto split: if_splits)
  then have "results_of c sync' log" using l(3) assms(2) unfolding results_of_def by fastforce
  then show ?thesis using assms l unfolding stepped_def by auto
qed

lemma stepped_length:
  "stepped sync callback c ss c' \<Longrightarrow> length (sections (kc_graph c')) = length (sections (kc_graph c))"
  unfolding stepped_def by (metis length_map)

text \<open>
  From an idle pool the caller of an order returns under every schedule, and has run each section of the order
  exactly once; load table and pool are as before.
\<close>

lemma run_parallel_runs:
  assumes idle: "pool_idle (kc_pool c)" and few: "length ss < MAX_SECTIONS" and dist: "distinct ss"
    and d: "calls_ok (kc_dvp c)" "loads (kc_dvp c) = Some l" and run: "\<forall>s \<in> set ss. runnable_at c l s"
    and fit: "fit_together (kc_graph c) l ss" and env: "\<forall>s i d. ke_env e s i d = d"
  obtains c' ts where "run_parallel e callback ss c = Some c'" "mset ts = mset ss" "stepped (\<lambda>_. False) callback c ts c'" "pool_idle (kc_pool c')"
proof -
  obtain q where q: "par_loop e callback ss 0 \<lparr>kp_ctx = c\<lparr>kc_pool := issue_sections ss (kc_pool c)\<rparr>, kp_at = (\<lambda>_. BStart)\<rparr> = Some q"
    "par_inv callback c l ss q" "par_complete q"
    using par_loop_ends[OF par_inv_start[OF idle d(2)] few dist d run fit env] by blast
  let ?c = "kp_ctx q"
  have inv: "issuing ss (kc_pool ?c)" "items_placed ss (kc_pool ?c) (kp_at q)" "kc_lock ?c = kc_lock c"
    "kc_dvp ?c = table_with (kc_dvp c) l (held_load (kc_graph c) (holders ss (kp_at q)))"
    "kc_graph ?c = (kc_graph c)\<lparr>sections := sections (kc_graph ?c)\<rparr>" "length (sections (kc_graph ?c)) = length (sections (kc_graph c))"
    "\<forall>s. s \<notin> set ss \<longrightarrow> sections (kc_graph ?c) ! s = sections (kc_graph c) ! s"
    "\<forall>s \<in> set ss. sec_at (kc_dvp c) (sections (kc_graph c) ! s) (kp_at q s) (sections (kc_graph ?c) ! s)"
    "logged callback c {s \<in> set ss. kp_at q s = BDone} ?c"
    using q(2) by (simp_all add: par_inv_def Let_def)
  have pool: "pool_idle (kc_pool ?c)" "mset (tp_finished (kc_pool ?c)) = mset ss"
    using issuing_done[OF inv(1)] q(3) by (simp_all add: par_complete_def)
  have "set (tp_finished (kc_pool ?c)) = set ss" by (rule mset_eq_setD[OF pool(2)])
  then have ended: "\<forall>s \<in> set ss. kp_at q s = BDone" using inv(2) by (simp add: items_placed_def)
  then have "holders ss (kp_at q) = {}" by (simp add: holders_def)
  then have "held_load (kc_graph c) (holders ss (kp_at q)) = (\<lambda>_. 0)" by (simp add: held_load_def fun_eq_iff)
  then have dvp: "kc_dvp ?c = kc_dvp c" using inv(4) d(2) by simp
  have "{s \<in> set ss. kp_at q s = BDone} = set ss" using ended by blast
  then obtain log ts where log: "kc_log ?c = kc_log c @ log" "map fst log = (if callback then ts else [])" "distinct ts" "set ts = set ss"
    "results_of c (\<lambda>_. False) log"
    using inv(9) by (auto simp: logged_def)
  have ts: "mset ts = mset ss" using log(3,4) dist set_eq_iff_mset_eq_distinct by blast
  have "skipSection (sections (kc_graph ?c) ! s) = skipSection (sections (kc_graph c) ! s)" if "s < length (sections (kc_graph c))" for s
    using inv(7,8) that unfolding sec_at_def by (metis DVP_KernelGraphSection_t.select_convs(5) DVP_KernelGraphSection_t.update_convs(1,3) DVP_KernelGraphSection_t.cases)
  then have skip: "map skipSection (sections (kc_graph ?c)) = map skipSection (sections (kc_graph c))"
    using inv(6) by (intro nth_equalityI) simp_all
  have graph: "numSections (kc_graph ?c) = numSections (kc_graph c)" "order (kc_graph ?c) = order (kc_graph c)"
    "totalperf (kc_graph ?c) = totalperf (kc_graph c)" "verified (kc_graph ?c) = verified (kc_graph c)"
    by (subst inv(5), simp)+
  have "\<forall>s \<in> set ts. pNodes (sections (kc_graph ?c) ! s) = snd (section_result (kc_dvp c) False (sections (kc_graph c) ! s))"
    using inv(8) ended log(4) by (simp add: sec_at_def)
  then have "stepped (\<lambda>_. False) callback c ts ?c"
    using dvp inv(3,7) graph skip log(1,2,4,5) unfolding stepped_def by auto
  then show ?thesis using q(1) that[OF _ ts _ pool(1)] by (simp add: run_parallel_def)
qed

end
