(* ===== verification/Dvp_KgraphRun.thy ===== *)
theory Dvp_KgraphRun
  imports Dvp_KgraphPar
begin

text \<open>
  Correctness of the kernel graph interface: the invariant of the graph lock under any interleaving,
  the order in which sections run, the lock around a call, and the capacity of a core.
\<close>

section \<open>The graph lock\<close>

text \<open>
  Threads that process graphs take and release the lock; one thread tears the library down, first
  waking from its wait (\<open>Woken\<close>), then disabling the lock (\<open>Down\<close>). \<open>h\<close> counts the graphs inside.
\<close>

datatype gl_phase = Running | Woken | Down

inductive gl_reach :: "DVP_GraphLock_t \<Rightarrow> nat \<Rightarrow> gl_phase \<Rightarrow> bool" where
  gl_init: "gl_reach dvp_graphlock_init 0 Running"
| gl_lock: "gl_reach gl h ph \<Longrightarrow> Suc h < 2 ^ 32 \<Longrightarrow> dvp_graph_lock gl = (True, gl') \<Longrightarrow> gl_reach gl' (Suc h) ph"
| gl_refuse: "gl_reach gl h ph \<Longrightarrow> dvp_graph_lock gl = (False, gl') \<Longrightarrow> gl_reach gl' h ph"
| gl_unlock: "gl_reach gl (Suc h) ph \<Longrightarrow> gl_reach (dvp_graph_unlock gl) h ph"
| gl_wake: "gl_reach gl h Running \<Longrightarrow> dvp_graphlock_wait_returns gl \<Longrightarrow> gl_reach gl h Woken"
| gl_disable: "gl_reach gl h Woken \<Longrightarrow> gl_reach (dvp_graphlock_disable gl) h Down"

definition gl_inv :: "DVP_GraphLock_t \<Rightarrow> nat \<Rightarrow> gl_phase \<Rightarrow> bool" where
  "gl_inv gl h ph \<longleftrightarrow> h < 2 ^ 32 \<and> (m_enabled gl \<longleftrightarrow> ph \<noteq> Down) \<and>
     (ph \<noteq> Down \<longrightarrow> m_count gl = of_nat h \<and> (ev_set (m_wait gl) \<longleftrightarrow> h = 0))"

lemma of_nat_u32_0: "h < 2 ^ 32 \<Longrightarrow> (of_nat h :: u32) = 0 \<longleftrightarrow> h = 0"
  by (auto simp: word_of_nat_eq_0_iff dest: dvd_imp_le)

lemma gl_reach_inv: "gl_reach gl h ph \<Longrightarrow> gl_inv gl h ph"
proof (induction rule: gl_reach.induct)
  case gl_init
  then show ?case by (simp add: gl_inv_def dvp_graphlock_init_def)
next
  case (gl_lock gl h ph gl')
  then show ?case by (auto simp: gl_inv_def dvp_graph_lock_def Let_def split: if_splits)
next
  case (gl_refuse gl h ph gl')
  then show ?case by (auto simp: gl_inv_def dvp_graph_lock_def Let_def split: if_splits)
next
  case (gl_unlock gl h ph)
  then have "h < 2 ^ 32" by (simp add: gl_inv_def)
  then show ?case
    using gl_unlock.IH of_nat_u32_0[of h] by (auto simp: gl_inv_def dvp_graph_unlock_def)
next
  case (gl_wake gl h)
  then show ?case by (simp add: gl_inv_def)
next
  case (gl_disable gl h)
  then show ?case by (simp add: gl_inv_def dvp_graphlock_disable_def)
qed

lemma graph_lock_True: "m_enabled gl \<Longrightarrow> dvp_graph_lock gl =
    (True, gl\<lparr>m_count := m_count gl + 1, m_wait := event_reset (m_wait gl)\<rparr>)"
  by (simp add: dvp_graph_lock_def)

text \<open>Taking the lock and releasing it again leaves an idle lock idle.\<close>

lemma lock_unlock_idle:
  assumes "m_enabled gl" "m_count gl = 0" "ev_set (m_wait gl)"
  shows "dvp_graph_unlock (snd (dvp_graph_lock gl)) = gl"
  using assms by (cases gl) (simp add: dvp_graph_lock_def dvp_graph_unlock_def event_set_def event_reset_def)

section \<open>Running the sections of a graph\<close>

definition selected :: "DVP_KernelGraph_t \<Rightarrow> nat \<Rightarrow> nat list" where
  "selected g ord = filter (\<lambda>s. order g ! s = ord \<and> \<not> skipSection (sections g ! s)) [0..<numSections g]"

definition graph_wf :: "DVP_KernelGraph_t \<Rightarrow> bool" where
  "graph_wf g \<longleftrightarrow> numSections g \<le> length (sections g) \<and> numSections g \<le> length (order g) \<and>
     numSections g < size_max"

lemma collect_order_acc:
  assumes "\<forall>s\<in>set ss. s < length (order g) \<and> s < length (sections g)"
    and "length acc + length (filter (\<lambda>s. order g ! s = ord \<and> \<not> skipSection (sections g ! s)) ss) < MAX_SECTIONS"
  shows "collect_order g ord ss acc =
    Some (Inr (acc @ filter (\<lambda>s. order g ! s = ord \<and> \<not> skipSection (sections g ! s)) ss))"
  using assms by (induction ss arbitrary: acc) (auto simp: nth_chk_Some)

lemma collect_order_eq:
  assumes "graph_wf g" "length (selected g ord) < MAX_SECTIONS"
  shows "collect_order g ord [0..<numSections g] [] = Some (Inr (selected g ord))"
  using collect_order_acc[of "[0..<numSections g]" g "[]" ord] assms by (auto simp: selected_def graph_wf_def)

lemma stepped_selected:
  assumes "stepped sync callback c ss c'" "graph_wf (kc_graph c)"
  shows "selected (kc_graph c') ord = selected (kc_graph c) ord" "graph_wf (kc_graph c')"
proof -
  have len: "length (sections (kc_graph c')) = length (sections (kc_graph c))"
    by (rule stepped_length[OF assms(1)])
  have "skipSection (sections (kc_graph c') ! i) = skipSection (sections (kc_graph c) ! i)"
    if "i < length (sections (kc_graph c))" for i
    using assms(1) that len unfolding stepped_def by (metis nth_map)
  then show "selected (kc_graph c') ord = selected (kc_graph c) ord"
    using assms unfolding selected_def stepped_def graph_wf_def by (auto intro!: filter_cong)
  show "graph_wf (kc_graph c')" using assms len by (simp add: stepped_def graph_wf_def)
qed

lemma run_section_step:
  assumes e: "\<forall>s i d. ke_env e s i d = d" and d: "calls_ok (kc_dvp c)" "loads (kc_dvp c) = Some l"
    and s: "runnable_at c l s"
  obtains n c' where "run_section e callback sync s c = Some (n, c')" "stepped (\<lambda>_. sync) callback c [s] c'" "kc_pool c' = kc_pool c"
proof -
  let ?sec = "sections (kc_graph c) ! s"
  have len: "s < length (sections (kc_graph c))" and run: "section_runnable (kc_dvp c) l ?sec"
    using s by (simp_all add: runnable_at_def)
  have env: "ke_env e s = alone" using e by (simp add: fun_eq_iff)
  obtain p nodes pf where p: "DVP_KernelGraphBoss_Process alone (ke_stamp e s) sync (kc_dvp c) ?sec =
      Some (p, kc_dvp c, ?sec\<lparr>pNodes := nodes, sec_perf := pf\<rparr>)" "section_result (kc_dvp c) sync ?sec = (p, nodes)"
    unfolding section_result_def by (rule Process_runnable[OF run d])
  have skip: "map skipSection ((sections (kc_graph c))[s := ?sec\<lparr>pNodes := nodes, sec_perf := pf\<rparr>]) =
      map skipSection (sections (kc_graph c))"
    using len by (simp add: map_update list_update_same_conv)
  let ?c' = "c\<lparr>kc_dvp := kc_dvp c,
     kc_graph := (kc_graph c)\<lparr>sections := (sections (kc_graph c))[s := ?sec\<lparr>pNodes := nodes, sec_perf := pf\<rparr>]\<rparr>,
     kc_log := kc_log c @ (if callback then [(s, p)] else [])\<rparr>"
  have "run_section e callback sync s c = Some (p, ?c')"
    using len p env by (simp add: run_section_def nth_chk_Some)
  moreover have "stepped (\<lambda>_. sync) callback c [s] ?c'" using skip len p(2) by (simp add: stepped_def results_of_def)
  moreover have "kc_pool ?c' = kc_pool c" by simp
  ultimately show ?thesis by (rule that)
qed

lemma stepped_runnable:
  assumes "stepped sync callback c ss c'" "runnable_at c l s" "s \<notin> set ss"
  shows "runnable_at c' l s"
proof -
  have "sections (kc_graph c') ! s = sections (kc_graph c) ! s" "kc_dvp c' = kc_dvp c"
    using assms(1,3) by (simp_all add: stepped_def)
  then show ?thesis using assms(2) stepped_length[OF assms(1)] by (simp add: runnable_at_def)
qed

lemma run_order_step:
  assumes e: "\<forall>s i d. ke_env e s i d = d" and d: "calls_ok (kc_dvp c)" "loads (kc_dvp c) = Some l"
    and pool: "pool_idle (kc_pool c)"
    and ss: "\<forall>s\<in>set ss. runnable_at c l s" "distinct ss" "ss \<noteq> []" "length ss < MAX_SECTIONS"
    and fit: "1 < length ss \<Longrightarrow> fit_together (kc_graph c) l ss"
    and small: "nrun + length ss < size_max" and mode: "\<forall>s \<in> set ss. sync s \<longleftrightarrow> length ss = 1"
  obtains c' ts where "run_order e callback ss nrun c = Some (Some (nrun + length ss, c'))"
    "mset ts = mset ss" "stepped sync callback c ts c'" "pool_idle (kc_pool c')"
proof (cases "length ss = 1")
  case True
  then obtain s where s: "ss = [s]" by (auto simp: length_Suc_conv)
  obtain n c' where r: "run_section e callback True s c = Some (n, c')" "stepped (\<lambda>_. True) callback c [s] c'" "kc_pool c' = kc_pool c"
    by (rule run_section_step[OF e d, of s callback True]) (use ss s in simp_all)
  have "stepped sync callback c [s] c'" by (rule stepped_mode[OF r(2)]) (use mode s in simp)
  then show ?thesis using r(1,3) s small pool that[of c' "[s]"] by (simp add: run_order_def size_add_eq)
next
  case False
  have "2 \<le> length ss" using False ss(3) by (cases ss rule: list.exhaust; cases "tl ss") simp_all
  then obtain a b r where ab: "ss = a # b # r" by (cases ss; cases "tl ss") auto
  obtain c' ts where r: "run_parallel e callback ss c = Some c'" "mset ts = mset ss" "stepped (\<lambda>_. False) callback c ts c'" "pool_idle (kc_pool c')"
    by (rule run_parallel_runs[OF pool ss(4,2) d ss(1) fit e, of callback]) (simp add: ab)
  have "stepped sync callback c ts c'"
    by (rule stepped_mode[OF r(3)]) (use mode mset_eq_setD[OF r(2)] False in simp)
  moreover have "run_order e callback ss nrun c = Some (Some (nrun + length ss, c'))"
    using r(1) small unfolding ab by (simp add: run_order_def size_add_eq)
  ultimately show ?thesis using r(2,4) that by blast
qed

lemma stepped_fit:
  "stepped sync callback c ts c' \<Longrightarrow> fit_together (kc_graph c) l ss \<Longrightarrow> (\<And>s. s \<in> set ss \<Longrightarrow> s \<notin> set ts) \<Longrightarrow>
   fit_together (kc_graph c') l ss"
  by (simp add: stepped_def fit_together_def cong: map_cong)

text \<open>The sections whose turn is still to come; the loop uses one up in every round.\<close>

definition to_come :: "DVP_KernelGraph_t \<Rightarrow> nat \<Rightarrow> nat set" where
  "to_come g ord = {s. s < numSections g \<and> ord \<le> order g ! s}"

lemma to_come_finite [simp]: "finite (to_come g ord)"
  by (simp add: to_come_def)

lemma to_come_next: "card (to_come g (Suc ord)) + length (selected g ord) \<le> card (to_come g ord)"
proof -
  have dist: "distinct (selected g ord)" by (simp add: selected_def)
  have "card (to_come g (Suc ord) \<union> set (selected g ord)) = card (to_come g (Suc ord)) + card (set (selected g ord))"
    by (intro card_Un_disjoint) (auto simp: to_come_def selected_def)
  moreover have "to_come g (Suc ord) \<union> set (selected g ord) \<subseteq> to_come g ord"
    by (auto simp: to_come_def selected_def)
  ultimately show ?thesis
    using card_mono[OF to_come_finite[of g ord]] distinct_card[OF dist] by metis
qed

lemma selected_order: "s \<in> set (selected g ord) \<Longrightarrow> order g ! s = ord"
  by (simp add: selected_def)

lemma order_loop_runs:
  assumes e: "\<forall>s i d. ke_env e s i d = d" and "calls_ok (kc_dvp c)" "loads (kc_dvp c) = Some l" "graph_wf (kc_graph c)"
    and "\<forall>k. length (selected (kc_graph c) k) < MAX_SECTIONS"
    and "\<forall>k \<ge> ord. \<forall>s\<in>set (selected (kc_graph c) k). runnable_at c l s"
    and "\<forall>k \<ge> ord. 1 < length (selected (kc_graph c) k) \<longrightarrow> fit_together (kc_graph c) l (selected (kc_graph c) k)"
    and "pool_idle (kc_pool c)"
    and "\<forall>k \<ge> ord. \<forall>s\<in>set (selected (kc_graph c) k). sync s \<longleftrightarrow> length (selected (kc_graph c) k) = 1"
    and "card (to_come (kc_graph c) ord) < fuel" "nrun + card (to_come (kc_graph c) ord) < size_max"
  shows "\<exists>K ts c'. order_loop e callback fuel ord nrun c = Some (True, nrun + length ts, c') \<and>
    stepped sync callback c ts c' \<and> pool_idle (kc_pool c') \<and> ord \<le> K \<and> selected (kc_graph c) K = [] \<and>
    (\<forall>k. ord \<le> k \<and> k < K \<longrightarrow> selected (kc_graph c) k \<noteq> []) \<and>
    mset ts = mset (concat (map (selected (kc_graph c)) [ord..<K])) \<and>
    sorted (map (\<lambda>s. order (kc_graph c) ! s) ts) \<and> (\<forall>s\<in>set ts. ord \<le> order (kc_graph c) ! s)"
  using assms(2-)
proof (induction fuel arbitrary: ord nrun c)
  case (Suc fuel)
  let ?g = "kc_graph c" and ?ss = "selected (kc_graph c) ord"
  have col: "collect_order ?g ord [0..<numSections ?g] [] = Some (Inr ?ss)"
    using collect_order_eq Suc.prems(3,4) by blast
  show ?case
  proof (cases "?ss = []")
    case True
    then show ?thesis using col Suc.prems(7)
      by (intro exI[of _ ord] exI[of _ "[]"] exI[of _ c]) (auto simp: run_order_def stepped_refl)
  next
    case False
    have small: "nrun + length ?ss < size_max" using to_come_next[of ?g ord] Suc.prems(10) by linarith
    have run: "\<forall>s\<in>set ?ss. runnable_at c l s" using Suc.prems(5) by blast
    have dist: "distinct ?ss" by (simp add: selected_def)
    have few1: "length ?ss < MAX_SECTIONS" and fit1: "1 < length ?ss \<Longrightarrow> fit_together ?g l ?ss"
      and mode1: "\<forall>s\<in>set ?ss. sync s \<longleftrightarrow> length ?ss = 1"
      using Suc.prems(4,6,8) by blast+
    obtain c1 ts where one: "run_order e callback ?ss nrun c = Some (Some (nrun + length ?ss, c1))"
      "mset ts = mset ?ss" "stepped sync callback c ts c1" "pool_idle (kc_pool c1)"
      by (rule run_order_step[OF e Suc.prems(1,2,7) run dist False few1 fit1 small mode1])
    have set_ts: "set ts = set ?ss" using one(2) by (metis set_mset_mset)
    have sel: "selected (kc_graph c1) k = selected ?g k" for k
      by (rule stepped_selected(1)[OF one(3) Suc.prems(3)])
    have come: "to_come (kc_graph c1) k = to_come ?g k" for k
      using one(3) by (simp add: stepped_def to_come_def)
    have d1: "kc_dvp c1 = kc_dvp c" "order (kc_graph c1) = order ?g" using one(3) by (simp_all add: stepped_def)
    have later: "s \<notin> set ts" if k: "Suc ord \<le> k" "s \<in> set (selected ?g k)" for k s
    proof -
      have "order ?g ! s = k" using selected_order k(2) by blast
      then show ?thesis using selected_order[of s ?g ord] k(1) unfolding set_ts by auto
    qed
    have "\<forall>k \<ge> Suc ord. \<forall>s\<in>set (selected (kc_graph c1) k). runnable_at c1 l s"
      using stepped_runnable[OF one(3)] later Suc.prems(5) unfolding sel by (metis Suc_leD)
    moreover have "\<forall>k \<ge> Suc ord. 1 < length (selected (kc_graph c1) k) \<longrightarrow> fit_together (kc_graph c1) l (selected (kc_graph c1) k)"
      using stepped_fit[OF one(3)] later Suc.prems(6) unfolding sel by (metis Suc_leD)
    moreover have "\<forall>k \<ge> Suc ord. \<forall>s\<in>set (selected (kc_graph c1) k). sync s \<longleftrightarrow> length (selected (kc_graph c1) k) = 1"
      using Suc.prems(8) unfolding sel by (metis Suc_leD)
    moreover have "card (to_come (kc_graph c1) (Suc ord)) < fuel"
      "nrun + length ?ss + card (to_come (kc_graph c1) (Suc ord)) < size_max"
      using to_come_next[of ?g ord] Suc.prems(9,10) False unfolding come by (cases ?ss; simp)+
    ultimately obtain K us c' where rest:
      "order_loop e callback fuel (Suc ord) (nrun + length ?ss) c1 = Some (True, nrun + length ?ss + length us, c')"
      "stepped sync callback c1 us c'" "pool_idle (kc_pool c')" "Suc ord \<le> K" "selected ?g K = []"
      "\<forall>k. Suc ord \<le> k \<and> k < K \<longrightarrow> selected ?g k \<noteq> []"
      "mset us = mset (concat (map (selected ?g) [Suc ord..<K]))"
      "sorted (map (\<lambda>s. order ?g ! s) us)" "\<forall>s\<in>set us. Suc ord \<le> order ?g ! s"
      using Suc.IH[of c1 "Suc ord" "nrun + length ?ss"] Suc.prems(1,2,4) stepped_selected(2)[OF one(3) Suc.prems(3)] one(4)
      unfolding sel d1 by auto
    have up: "[ord..<K] = ord # [Suc ord..<K]" using rest(4) by (simp add: upt_rec)
    have ts_ord: "\<forall>s\<in>set ts. order ?g ! s = ord" using set_ts selected_order by auto
    have loop: "order_loop e callback (Suc fuel) ord nrun c = Some (True, nrun + length (ts @ us), c')"
      using col one(1) rest(1) mset_eq_length[OF one(2)] by simp
    have "set ts \<inter> set us = {}" using ts_ord rest(9) by fastforce
    then have st: "stepped sync callback c (ts @ us) c'" by (rule stepped_trans[OF one(3) rest(2)])
    have all: "\<forall>k. ord \<le> k \<and> k < K \<longrightarrow> selected ?g k \<noteq> []"
      using rest(6) False by (metis Suc_leI le_neq_implies_less)
    have perm: "mset (ts @ us) = mset (concat (map (selected ?g) [ord..<K]))"
      unfolding up using one(2) rest(7) by simp
    have srt: "sorted (map (\<lambda>s. order ?g ! s) (ts @ us))"
    proof -
      have "map (\<lambda>s. order ?g ! s) ts = replicate (length ts) ord"
        using ts_ord by (simp add: map_replicate_const[symmetric] cong: map_cong)
      then show ?thesis using rest(8,9) by (auto simp: sorted_append)
    qed
    have ge: "\<forall>s\<in>set (ts @ us). ord \<le> order ?g ! s" using ts_ord rest(9) by auto
    show ?thesis
      using loop st rest(3-5) all perm srt ge by (intro exI[of _ K] exI[of _ "ts @ us"] exI[of _ c'] conjI) auto
  qed
qed simp

declare order_loop.simps [simp del]

section \<open>Properties\<close>

text \<open>
  In every interleaving of graphs that take and release the lock, until the lock is disabled its
  counter is the number of graphs inside and its event is set exactly when there is none, so the wait
  of the tear-down returns only when no graph is inside.
\<close>

theorem graph_lock_counts:
  assumes "gl_reach gl h ph" "ph \<noteq> Down"
  shows "m_enabled gl \<and> unat (m_count gl) = h \<and> (dvp_graphlock_wait_returns gl \<longleftrightarrow> h = 0)"
  using gl_reach_inv[OF assms(1)] assms(2)
  by (auto simp: gl_inv_def dvp_graphlock_wait_returns_def unat_of_nat take_bit_nat_eq_self)

lemma ex_locked:
  "gl_reach (snd (dvp_graph_lock dvp_graphlock_init)) 1 Running"
  using gl_reach.gl_lock[OF gl_reach.gl_init, of "snd (dvp_graph_lock dvp_graphlock_init)"]
  by (simp add: dvp_graph_lock_def dvp_graphlock_init_def)

theorem graph_lock_counts_witness:
  "gl_reach (snd (dvp_graph_lock dvp_graphlock_init)) 1 Running \<and>
   \<not> dvp_graphlock_wait_returns (snd (dvp_graph_lock dvp_graphlock_init))"
proof -
  have "Running \<noteq> Down" by simp
  from graph_lock_counts[OF ex_locked this] ex_locked show ?thesis by simp
qed

text \<open>
  The wait and the disabling are two steps, and a graph can enter between them: the library can
  be torn down while a graph is inside.
\<close>

theorem graph_lock_race: "\<exists>gl. gl_reach gl 1 Down \<and> \<not> m_enabled gl"
proof -
  have w: "gl_reach dvp_graphlock_init 0 Woken"
    by (rule gl_reach.gl_wake[OF gl_reach.gl_init])
       (simp add: dvp_graphlock_wait_returns_def dvp_graphlock_init_def)
  have "gl_reach (snd (dvp_graph_lock dvp_graphlock_init)) 1 Woken"
    using gl_reach.gl_lock[OF w, of "snd (dvp_graph_lock dvp_graphlock_init)"]
    by (simp add: dvp_graph_lock_def dvp_graphlock_init_def)
  from gl_reach.gl_disable[OF this] show ?thesis
    by (intro exI conjI, assumption) (simp add: dvp_graphlock_disable_def)
qed

text \<open>
  C4. Processing a verified graph, with fewer than four sections of an order, an idle thread pool and no other
  user of the load table: the sections can run and, where an order has several, their loads fit on the cores
  together. Then the call returns under every schedule of the pool's workers, among which each sees the load that the
  others hold at that moment. It has run each section that is not skipped, of the orders from 0 up to the
  first that has none, exactly once, order after order, and reported for each the nodes that its managers have executed, which also
  left the nodes as they are then. It returns the number of sections; the lock, the load table and the pool are as before the call.
\<close>

theorem graph_process_in_order:
  assumes alone: "\<forall>s i d. ke_env e s i d = d" and calls: "calls_ok (kc_dvp c)" and l: "loads (kc_dvp c) = Some l"
    and pool: "pool_idle (kc_pool c)"
    and g: "graph_wf (kc_graph c)" "verified (kc_graph c)" "numTimes (totalperf (kc_graph c)) + 1 \<noteq> 0"
    and lock: "m_enabled (kc_lock c)" "m_count (kc_lock c) = 0" "ev_set (m_wait (kc_lock c))"
    and few: "\<forall>k. length (selected (kc_graph c) k) < MAX_SECTIONS"
    and run: "\<forall>k. \<forall>s\<in>set (selected (kc_graph c) k). runnable_at c l s"
    and fit: "\<forall>k. 1 < length (selected (kc_graph c) k) \<longrightarrow> fit_together (kc_graph c) l (selected (kc_graph c) k)"
  shows "\<exists>K c' log. DVP_KernelGraph_Process e True c = Some (length log, c') \<and>
    kc_log c' = kc_log c @ log \<and> selected (kc_graph c) K = [] \<and>
    (\<forall>k < K. selected (kc_graph c) k \<noteq> []) \<and>
    mset (map fst log) = mset (concat (map (selected (kc_graph c)) [0..<K])) \<and>
    sorted (map (\<lambda>(s, n). order (kc_graph c) ! s) log) \<and>
    (\<forall>(s, n)\<in>set log. (n, pNodes (sections (kc_graph c') ! s)) =
       section_result (kc_dvp c) (length (selected (kc_graph c) (order (kc_graph c) ! s)) = 1) (sections (kc_graph c) ! s)) \<and>
    kc_lock c' = kc_lock c \<and> kc_dvp c' = kc_dvp c \<and> pool_idle (kc_pool c')"
proof -
  let ?g = "kc_graph c"
  obtain gl where gl: "dvp_graph_lock (kc_lock c) = (True, gl)" using lock(1) by (simp add: graph_lock_True)
  have restored: "dvp_graph_unlock gl = kc_lock c" using lock_unlock_idle[OF lock] gl by simp
  let ?c3 = "c\<lparr>kc_lock := gl, kc_graph := ?g\<lparr>totalperf := DVP_PerformanceStart (fst (ke_total e)) (totalperf ?g)\<rparr>\<rparr>"
  have sel: "selected (kc_graph ?c3) = selected ?g" "order (kc_graph ?c3) = order ?g"
    by (simp_all add: selected_def fun_eq_iff)
  have come: "card (to_come (kc_graph ?c3) 0) \<le> numSections ?g"
    using card_mono[of "{..<numSections ?g}" "to_come (kc_graph ?c3) 0"] by (auto simp: to_come_def)
  have runs: "\<forall>k \<ge> 0. \<forall>s\<in>set (selected (kc_graph ?c3) k). runnable_at ?c3 l s"
    using run unfolding sel by (simp add: runnable_at_def)
  have wf3: "graph_wf (kc_graph ?c3)" "calls_ok (kc_dvp ?c3)" "loads (kc_dvp ?c3) = Some l"
    using g calls l by (simp_all add: graph_wf_def)
  have fit3: "\<forall>k \<ge> 0. 1 < length (selected (kc_graph ?c3) k) \<longrightarrow> fit_together (kc_graph ?c3) l (selected (kc_graph ?c3) k)"
    using fit unfolding sel by (simp add: fit_together_def)
  let ?sync = "\<lambda>s. length (selected ?g (order ?g ! s)) = 1"
  have mode: "\<forall>k \<ge> 0. \<forall>s\<in>set (selected (kc_graph ?c3) k). ?sync s \<longleftrightarrow> length (selected (kc_graph ?c3) k) = 1"
    using selected_order[of _ ?g] unfolding sel by auto
  have pool3: "pool_idle (kc_pool ?c3)" using pool by simp
  have few3: "\<forall>k. length (selected (kc_graph ?c3) k) < MAX_SECTIONS" using few unfolding sel .
  have fuel: "card (to_come (kc_graph ?c3) 0) < Suc (numSections ?g)" "0 + card (to_come (kc_graph ?c3) 0) < size_max"
    using come g(1) by (auto simp: graph_wf_def)
  obtain K ts c' where r: "order_loop e True (Suc (numSections ?g)) 0 0 ?c3 = Some (True, 0 + length ts, c')"
    "stepped ?sync True ?c3 ts c'" "pool_idle (kc_pool c')" "selected ?g K = []" "\<forall>k. 0 \<le> k \<and> k < K \<longrightarrow> selected ?g k \<noteq> []"
    "mset ts = mset (concat (map (selected ?g) [0..<K]))" "sorted (map (\<lambda>s. order ?g ! s) ts)"
    using order_loop_runs[OF alone wf3(2,3,1) few3 runs fit3 pool3 mode fuel, of True, unfolded sel] by (elim exE conjE) (rule that)
  obtain log where log: "kc_log c' = kc_log c @ log" "map fst log = ts" "results_of ?c3 ?sync log"
    using r(2) by (auto simp: stepped_def)
  have res: "\<forall>(s, n)\<in>set log. (n, pNodes (sections (kc_graph c') ! s)) = section_result (kc_dvp c) (?sync s) (sections ?g ! s)"
  proof clarify
    fix s n assume sn: "(s, n) \<in> set log"
    then have "s \<in> set ts" unfolding log(2)[symmetric] by force
    then have "pNodes (sections (kc_graph c') ! s) = snd (section_result (kc_dvp c) (?sync s) (sections ?g ! s))"
      using r(2) by (simp add: stepped_def)
    then show "(n, pNodes (sections (kc_graph c') ! s)) = section_result (kc_dvp c) (?sync s) (sections ?g ! s)"
      using log(3) sn by (auto simp: results_of_def)
  qed
  have keep: "kc_lock c' = gl" "kc_dvp c' = kc_dvp c"
    "totalperf (kc_graph c') = DVP_PerformanceStart (fst (ke_total e)) (totalperf ?g)"
    using r(2) by (simp_all add: stepped_def)
  obtain pf where pf: "DVP_PerformanceStop (snd (ke_total e)) (totalperf (kc_graph c')) = Some pf"
    using g(3) keep(3) by (simp add: DVP_PerformanceStop_def DVP_PerformanceStart_def Let_def)
  have call: "DVP_KernelGraph_Process e True c = Some (length ts,
      c'\<lparr>kc_graph := (kc_graph c')\<lparr>totalperf := pf\<rparr>, kc_lock := dvp_graph_unlock gl\<rparr>)"
    using gl g(2) r(1) pf keep(1) by (simp add: DVP_KernelGraph_Process_def Let_def)
  have ord: "map (\<lambda>(s, n). order ?g ! s) log = map (\<lambda>s. order ?g ! s) ts"
    using log(2) by (auto simp: case_prod_beta')
  show ?thesis
    using call res r log keep ord restored length_map[of fst log]
    by (intro exI[of _ K] exI[of _ "c'\<lparr>kc_graph := (kc_graph c')\<lparr>totalperf := pf\<rparr>, kc_lock := dvp_graph_unlock gl\<rparr>"]
        exI[of _ log]) simp
qed

definition ex_env :: kg_env where
  "ex_env = \<lparr>ke_env = (\<lambda>_ _ d. d), ke_stamp = (\<lambda>_. (1, 5)), ke_total = (0, 9), ke_pick = (\<lambda>ss k. 3 * k + k div 5)\<rparr>"

definition ex_graph :: "DVP_KernelGraphSection_t list \<Rightarrow> nat list \<Rightarrow> DVP_KernelGraph_t" where
  "ex_graph secs ords = \<lparr>sections = secs, numSections = length secs, order = ords, totalperf = ex_perf, verified = True\<rparr>"

definition ex_ctx :: "DVP_KernelGraphSection_t list \<Rightarrow> nat list \<Rightarrow> kg_ctx" where
  "ex_ctx secs ords = \<lparr>kc_dvp = ex_dvp, kc_lock = dvp_graphlock_init, kc_graph = ex_graph secs ords, kc_pool = graph_pool_init, kc_count = 0, kc_log = []\<rparr>"

text \<open>Two of these sections fit on a core together, three would not.\<close>

definition ex_loaded :: DVP_KernelGraphSection_t where
  "ex_loaded = ex_ready\<lparr>coreLoad := (\<lambda>_. 40)\<rparr>"

theorem graph_process_in_order_witness:
  "\<exists>c'. DVP_KernelGraph_Process ex_env True (ex_ctx [ex_loaded, ex_loaded, ex_loaded] [1, 0, 0]) = Some (3, c') \<and>
     kc_lock c' = dvp_graphlock_init \<and> kc_dvp c' = ex_dvp \<and> pool_idle (kc_pool c')"
proof -
  let ?c = "ex_ctx [ex_loaded, ex_loaded, ex_loaded] [1, 0, 0]"
  have sel: "selected (kc_graph ?c) k = (if k = 0 then [1, 2] else if k = 1 then [0] else [])" for k
    by (auto simp: selected_def ex_ctx_def ex_graph_def ex_loaded_def ex_ready_def ex_section_def upt_rec)
  have facts: "\<forall>s i d. ke_env ex_env s i d = d" "calls_ok (kc_dvp ?c)" "loads (kc_dvp ?c) = Some ex_table" "pool_idle (kc_pool ?c)"
    "graph_wf (kc_graph ?c)"
    "verified (kc_graph ?c)" "numTimes (totalperf (kc_graph ?c)) + 1 \<noteq> 0"
    "m_enabled (kc_lock ?c)" "m_count (kc_lock ?c) = 0" "ev_set (m_wait (kc_lock ?c))"
    using ex_calls_ok pool_idle_init
    by (simp_all add: ex_env_def ex_ctx_def ex_graph_def graph_wf_def ex_dvp_def ex_perf_def dvp_graphlock_init_def)
  have few: "\<forall>k. length (selected (kc_graph ?c) k) < MAX_SECTIONS" unfolding sel by simp
  have "section_ready ex_dvp ex_loaded" using ex_ready_ready by (simp add: section_ready_def ex_loaded_def)
  then have rdy: "section_runnable ex_dvp ex_table ex_loaded"
    by (simp add: section_runnable_def fits_def ex_table_def ex_loaded_def ex_ready_def ex_section_def ex_perf_def)
  have "runnable_at ?c ex_table s" if "s < 3" for s
  proof -
    have "s = 0 \<or> s = 1 \<or> s = 2" using that by auto
    then show ?thesis using rdy by (auto simp: runnable_at_def ex_ctx_def ex_graph_def)
  qed
  then have run: "\<forall>k. \<forall>s\<in>set (selected (kc_graph ?c) k). runnable_at ?c ex_table s" unfolding sel by simp
  have "fit_together (kc_graph ?c) ex_table [1, 2]"
    by (simp add: fit_together_def ex_ctx_def ex_graph_def ex_loaded_def ex_table_def)
  then have fit: "\<forall>k. 1 < length (selected (kc_graph ?c) k) \<longrightarrow> fit_together (kc_graph ?c) ex_table (selected (kc_graph ?c) k)"
    unfolding sel by simp
  from graph_process_in_order[OF facts few run fit] show ?thesis
  proof (elim exE conjE)
    fix K c' log
    assume r: "DVP_KernelGraph_Process ex_env True ?c = Some (length log, c')"
      "selected (kc_graph ?c) K = []" "\<forall>k < K. selected (kc_graph ?c) k \<noteq> []"
      "mset (map fst log) = mset (concat (map (selected (kc_graph ?c)) [0..<K]))" "kc_lock c' = kc_lock ?c" "kc_dvp c' = kc_dvp ?c" "pool_idle (kc_pool c')"
    have "K \<noteq> 0" "K \<noteq> 1" using r(2) unfolding sel by (auto split: if_splits)
    moreover have "\<not> 2 < K" using r(3)[rule_format, of 2] unfolding sel by auto
    ultimately have "K = 2" by linarith
    have "length (map fst log) = length (concat (map (selected (kc_graph ?c)) [0..<K]))"
      by (rule mset_eq_length[OF r(4)])
    then have "length log = 3" using \<open>K = 2\<close> unfolding sel by (simp add: upt_rec)
    then show ?thesis using r(1,5,6,7) by (auto simp: ex_ctx_def)
  qed
qed

text \<open>
  A graph with five sections of the same order makes the call return at once without releasing
  the lock, so the tear-down waits for ever.
\<close>

theorem graph_process_leaks_lock:
  "\<exists>c'. DVP_KernelGraph_Process ex_env True (ex_ctx (replicate 5 ex_ready) (replicate 5 0)) = Some (0, c') \<and>
     m_count (kc_lock c') = 1 \<and> \<not> dvp_graphlock_wait_returns (kc_lock c')"
  by (simp add: DVP_KernelGraph_Process_def ex_ctx_def ex_graph_def dvp_graph_lock_def dvp_graphlock_init_def
      dvp_graphlock_wait_returns_def nth_chk_def ex_ready_def ex_section_def upt_rec Let_def numeral_eq_Suc
      order_loop.simps)

text \<open>Scaling a limit to a load and back loses less than one part in a thousand.\<close>

lemma capacity_arith:
  fixes L H :: nat
  assumes "1000 \<le> H"
  shows "L * H div 1000 * 1000 div H \<le> L" "L \<le> L * H div 1000 * 1000 div H + 1"
proof -
  let ?N = "L * H div 1000"
  have le: "?N * 1000 \<le> L * H" by simp
  show "?N * 1000 div H \<le> L" using div_le_mono[OF le, of H] assms by simp
  have "L * H < ?N * 1000 + 1000" using mod_less_divisor[of 1000 "L * H"] div_mult_mod_eq[of "L * H" 1000] by linarith
  then have "(L - 1) * H \<le> ?N * 1000" using assms by (cases L) auto
  then have "L - 1 \<le> ?N * 1000 div H" using assms by (simp add: less_eq_div_iff_mult_less_eq)
  then show "L \<le> ?N * 1000 div H + 1" by simp
qed

lemma capacity_word:
  fixes limit hw :: u32
  assumes hw: "1000 \<le> unat hw" "unat hw * 1000 < 2 ^ 32" and lim: "unat limit \<le> 1000"
  shows "unat (limit * hw div 1000 * 1000 div hw) \<le> unat limit \<and>
         unat limit \<le> unat (limit * hw div 1000 * 1000 div hw) + 1"
proof -
  have "unat limit * unat hw \<le> 1000 * unat hw" using lim by (rule mult_le_mono1)
  then have small: "unat limit * unat hw < 2 ^ 32" using hw(2) by linarith
  have n: "unat (limit * hw div 1000) = unat limit * unat hw div 1000"
    using unat_mult_small[OF small] by (simp add: unat_div)
  have "unat (limit * hw div 1000) * unat (1000 :: u32) < 2 ^ 32"
    unfolding n using small by (simp add: le_less_trans[OF div_times_less_eq_dividend])
  then have "unat (limit * hw div 1000 * 1000 div hw) = unat limit * unat hw div 1000 * 1000 div unat hw"
    using unat_mult_small[of "limit * hw div 1000" 1000] n by (simp add: unat_div)
  then show ?thesis using capacity_arith[OF hw(1), of "unat limit"] by simp
qed

text \<open>
  A capacity set in thousandths of the hardware maximum is read back to within one thousandth,
  never larger, when the hardware maximum is at least 1000 and the products fit in 32 bits; a request
  above 1000 counts as 1000.
\<close>

theorem core_capacity_roundtrip:
  assumes linked: "mgrs_linked d" and l: "loads d = Some l" "ld_initialized l" and core: "valid_core core"
    and ex: "m \<in> set (managers d)" "works_on core m"
    and same: "\<forall>m\<in>set (managers d). works_on core m \<longrightarrow> getLoad (the (calls m)) = hw"
    and hw: "1000 \<le> unat hw" "unat hw * 1000 < 2 ^ 32"
  shows "\<exists>d' q. DVP_SetCoreCapacity (Some d) core limit = Some (Some d') \<and>
    DVP_GetCoreCapacity (Some d') core = Some q \<and>
    unat q \<le> min (unat limit) 1000 \<and> min (unat limit) 1000 \<le> unat q + 1"
proof -
  let ?lim = "if limit > 1000 then 1000 else limit"
  let ?new = "?lim * hw div 1000"
  let ?l = "l\<lparr>ld_cores := set_max (nat core) ?new (ld_cores l)\<rparr>"
  have ms: "\<forall>m\<in>set (managers d). enabled m \<longrightarrow> calls m \<noteq> None" using linked by (simp add: mgrs_linked_def)
  have some: "\<exists>m\<in>set (managers d). works_on core m" using ex by blast
  have lim: "unat ?lim = min (unat limit) 1000"
    by (auto simp: word_less_nat_alt)
  have q: "unat (?new * 1000 div hw) \<le> unat ?lim" "unat ?lim \<le> unat (?new * 1000 div hw) + 1"
    using capacity_word[OF hw, of ?lim] lim by simp_all
  have "hw \<noteq> 0" using hw(1) by auto
  moreover have "DVP_SetCoreCapacity (Some d) core limit = Some (Some (d\<lparr>loads := Some ?l\<rparr>))"
    using get_max_loop_eq[OF ms core l(2) same, of "(0, 0)"] set_max_loop_eq[OF ms core l, of ?new] some l(1)
    by (simp add: DVP_SetCoreCapacity_def DVP_GetMaxLoad_def DVP_SetMaxLoad_def Let_def)
  moreover have "DVP_GetMaxLoad (Some (d\<lparr>loads := Some ?l\<rparr>)) core 0 = Some (?new, hw)"
    using get_max_loop_eq[OF ms core, of ?l hw "(0, 0)"] l(2) same some by (simp add: DVP_GetMaxLoad_def)
  ultimately show ?thesis
    using q unfolding lim
    by (intro exI[of _ "d\<lparr>loads := Some ?l\<rparr>"] exI[of _ "?new * 1000 div hw"]) (simp add: DVP_GetCoreCapacity_def)
qed

definition ex_fast :: DVP_t where
  "ex_fast = \<lparr>managers = [(ex_mgr 6 0xFFFFFFFE 5)\<lparr>calls := map_option (\<lambda>c. c\<lparr>getLoad := 1200\<rparr>) (calls (ex_mgr 6 0xFFFFFFFE 5))\<rparr>],
              loads = Some ex_table\<rparr>"

theorem core_capacity_roundtrip_witness:
  "\<exists>d' q. DVP_SetCoreCapacity (Some ex_fast) 6 755 = Some (Some d') \<and> DVP_GetCoreCapacity (Some d') 6 = Some q \<and>
     unat q \<le> 755 \<and> 755 \<le> unat q + 1"
proof -
  have facts: "mgrs_linked ex_fast" "loads ex_fast = Some ex_table" "ld_initialized ex_table" "valid_core 6"
    "hd (managers ex_fast) \<in> set (managers ex_fast)" "works_on 6 (hd (managers ex_fast))"
    "\<forall>m\<in>set (managers ex_fast). works_on 6 m \<longrightarrow> getLoad (the (calls m)) = 1200"
    "1000 \<le> unat (1200 :: u32)" "unat (1200 :: u32) * 1000 < 2 ^ 32"
    by (simp_all add: mgrs_linked_def ex_fast_def ex_table_def valid_core_def works_on_def ex_mgr_def)
  have "min (unat (755 :: u32)) 1000 = 755" by simp
  with core_capacity_roundtrip[OF facts, of 755] show ?thesis by metis
qed

text \<open>
  The accumulation of image shifts tests the function index with one entry too many: a node whose
  function index is the number of kernels of its manager is not refused but looked up past the end of
  the kernel table.
\<close>

theorem image_shift_overrun:
  assumes "mgrIndex nd < DVP_CORE_MAX" "mgrIndex nd < numMgrs d" "kernels (managers d ! mgrIndex nd) = Some ks"
    and "length ks = numSupportedKernels (managers d ! mgrIndex nd)" "funcIndex nd = numSupportedKernels (managers d ! mgrIndex nd)"
  shows "DVP_KernelGraph_ImageShiftAccum (Some d) (Some nd) (Some shift) = None"
  using assms by (simp add: DVP_KernelGraph_ImageShiftAccum_def nth_chk_def)

theorem image_shift_overrun_witness:
  "DVP_KernelGraph_ImageShiftAccum (Some ex_dvp) (Some ((ex_node 5 6)\<lparr>funcIndex := 1\<rparr>))
     (Some \<lparr>centerShiftHorz = 0, centerShiftVert = 0, topBorder = 0, rightBorder = 0, bottomBorder = 0, leftBorder = 0\<rparr>) = None"
  by (rule image_shift_overrun[where ks = "[\<lparr>cf_kernel = 5, cf_load = 10, cf_shift = None, cf_shift_func = None\<rparr>]"])
     (simp_all add: ex_dvp_def ex_mgr_def ex_node_def)

end
