(* ===== verification/Dvp_CpuQueue.thy ===== *)
theory Dvp_CpuQueue
  imports Dvp_Cpu "HOL-Library.Multiset"
begin

text \<open>
  The queued mode of the CPU manager: \<open>DVP_KernelGraphManager\<close> with \<open>sync\<close> false, the worker threads
  \<open>DVP_KernelGraphManagerThread_CPU\<close> and the two queues of ten items that \<open>DVP_KernelGraphManagerInit\<close>
  creates. Any number of clients and workers interleave. A blocking queue operation is two steps, as in
  \<open>queue.c\<close>: it passes the event, which other threads may pass at the same time, and then takes the mutex,
  where a write that finds the queue full and a read that finds it empty fail.
\<close>

section \<open>The threads\<close>

record DVP_KGM_Thread_t =
  kt_pSubNodes :: nat
  kt_startNode :: u32
  kt_numNodes :: u32
  kt_numNodesExecuted :: u32

type_synonym work_key = "nat \<times> u32 \<times> u32"

text \<open>What a client compares to recognise its own result.\<close>

definition work_key :: "DVP_KGM_Thread_t \<Rightarrow> work_key" where
  "work_key t = (kt_pSubNodes t, kt_startNode t, kt_numNodes t)"

definition QUEUE_ITEMS :: nat where
  "QUEUE_ITEMS = 10"

text \<open>
  A client: before the wait for room, before its write, before the wait for a result, before its read,
  before the wait to put a foreign result back, before that write, and returned with a value.
\<close>

datatype client =
    CStart DVP_KGM_Thread_t | CWrite DVP_KGM_Thread_t
  | CWait DVP_KGM_Thread_t | CRead DVP_KGM_Thread_t
  | CBack DVP_KGM_Thread_t DVP_KGM_Thread_t | CBackWrite DVP_KGM_Thread_t DVP_KGM_Thread_t
  | CDone DVP_KGM_Thread_t u32

datatype worker =
    WWait | WRead | WRun DVP_KGM_Thread_t | WOut DVP_KGM_Thread_t | WOutWrite DVP_KGM_Thread_t | WExit

record cpu_sys =
  workq :: "DVP_KGM_Thread_t list"
  retq :: "DVP_KGM_Thread_t list"
  clients :: "client list"
  workers :: "worker list"

definition cpu_init :: "DVP_KGM_Thread_t list \<Rightarrow> nat \<Rightarrow> cpu_sys" where
  "cpu_init ks n = \<lparr>workq = [], retq = [], clients = map CStart ks, workers = replicate n WWait\<rparr>"

text \<open>
  One step of \<open>DVP_KernelGraphManager\<close>. The result of the write to the work queue decides between waiting
  and returning 0; that of putting a foreign result back is ignored, so the result is dropped when the
  queue has become full.
\<close>

fun client_step :: "client \<Rightarrow> DVP_KGM_Thread_t list \<Rightarrow> DVP_KGM_Thread_t list \<Rightarrow>
  (client \<times> DVP_KGM_Thread_t list \<times> DVP_KGM_Thread_t list) option" where
  "client_step (CStart t) wq rq = (if length wq < QUEUE_ITEMS then Some (CWrite t, wq, rq) else None)"
| "client_step (CWrite t) wq rq =
     (if length wq < QUEUE_ITEMS then Some (CWait t, wq @ [t], rq) else Some (CDone t 0, wq, rq))"
| "client_step (CWait t) wq rq = (if rq \<noteq> [] then Some (CRead t, wq, rq) else None)"
| "client_step (CRead t) wq rq =
     (case rq of
        [] \<Rightarrow> Some (CWait t, wq, rq)
      | r # rs \<Rightarrow>
          if work_key t = work_key r then Some (CDone t (kt_numNodesExecuted r), wq, rs)
          else Some (CBack t r, wq, rs))"
| "client_step (CBack t r) wq rq = (if length rq < QUEUE_ITEMS then Some (CBackWrite t r, wq, rq) else None)"
| "client_step (CBackWrite t r) wq rq =
     (if length rq < QUEUE_ITEMS then Some (CWait t, wq, rq @ [r]) else Some (CWait t, wq, rq))"
| "client_step (CDone t n) wq rq = None"

text \<open>
  One step of a worker, which leaves its loop when a read fails. \<open>n\<close> is what \<open>DVP_KernelGraphManager_CPU\<close>
  returns for the item.
\<close>

fun worker_step :: "u32 \<Rightarrow> worker \<Rightarrow> DVP_KGM_Thread_t list \<Rightarrow> DVP_KGM_Thread_t list \<Rightarrow>
  (worker \<times> DVP_KGM_Thread_t list \<times> DVP_KGM_Thread_t list) option" where
  "worker_step n WWait wq rq = (if wq \<noteq> [] then Some (WRead, wq, rq) else None)"
| "worker_step n WRead wq rq =
     (case wq of [] \<Rightarrow> Some (WExit, wq, rq) | x # xs \<Rightarrow> Some (WRun (x\<lparr>kt_numNodesExecuted := 0\<rparr>), xs, rq))"
| "worker_step n (WRun x) wq rq = Some (WOut (x\<lparr>kt_numNodesExecuted := n\<rparr>), wq, rq)"
| "worker_step n (WOut x) wq rq = (if length rq < QUEUE_ITEMS then Some (WOutWrite x, wq, rq) else None)"
| "worker_step n (WOutWrite x) wq rq =
     (if length rq < QUEUE_ITEMS then Some (WWait, wq, rq @ [x]) else Some (WWait, wq, rq))"
| "worker_step n WExit wq rq = None"

text \<open>\<open>runs k n\<close>: executing the nodes of key \<open>k\<close> may return \<open>n\<close>.\<close>

inductive cpu_step :: "(work_key \<Rightarrow> u32 \<Rightarrow> bool) \<Rightarrow> cpu_sys \<Rightarrow> cpu_sys \<Rightarrow> bool" for runs where
  client: "i < length (clients s) \<Longrightarrow> client_step (clients s ! i) (workq s) (retq s) = Some (c, wq, rq) \<Longrightarrow>
     cpu_step runs s (s\<lparr>workq := wq, retq := rq, clients := (clients s)[i := c]\<rparr>)"
| worker: "i < length (workers s) \<Longrightarrow> worker_step n (workers s ! i) (workq s) (retq s) = Some (w, wq, rq) \<Longrightarrow>
     (\<And>x. workers s ! i = WRun x \<Longrightarrow> runs (work_key x) n) \<Longrightarrow>
     cpu_step runs s (s\<lparr>workq := wq, retq := rq, workers := (workers s)[i := w]\<rparr>)"

inductive cpu_reach :: "(work_key \<Rightarrow> u32 \<Rightarrow> bool) \<Rightarrow> cpu_sys \<Rightarrow> cpu_sys \<Rightarrow> bool" for runs s0 where
  start: "cpu_reach runs s0 s0"
| step: "cpu_reach runs s0 s \<Longrightarrow> cpu_step runs s t \<Longrightarrow> cpu_reach runs s0 t"

inductive_cases cpu_stepE: "cpu_step runs s t"

section \<open>Items in flight\<close>

fun client_holds :: "client \<Rightarrow> DVP_KGM_Thread_t list" where
  "client_holds (CBack t r) = [r]"
| "client_holds (CBackWrite t r) = [r]"
| "client_holds _ = []"

fun client_waits :: "client \<Rightarrow> DVP_KGM_Thread_t list" where
  "client_waits (CWait t) = [t]"
| "client_waits (CRead t) = [t]"
| "client_waits (CBack t r) = [t]"
| "client_waits (CBackWrite t r) = [t]"
| "client_waits _ = []"

fun worker_holds :: "worker \<Rightarrow> DVP_KGM_Thread_t list" where
  "worker_holds (WRun x) = [x]"
| "worker_holds (WOut x) = [x]"
| "worker_holds (WOutWrite x) = [x]"
| "worker_holds _ = []"

fun worker_result :: "worker \<Rightarrow> DVP_KGM_Thread_t list" where
  "worker_result (WOut x) = [x]"
| "worker_result (WOutWrite x) = [x]"
| "worker_result _ = []"

definition keys_of :: "('a \<Rightarrow> DVP_KGM_Thread_t list) \<Rightarrow> 'a list \<Rightarrow> work_key multiset" where
  "keys_of f xs = mset (map work_key (concat (map f xs)))"

definition in_flight :: "cpu_sys \<Rightarrow> work_key multiset" where
  "in_flight s = mset (map work_key (workq s @ retq s)) + keys_of client_holds (clients s) + keys_of worker_holds (workers s)"

definition awaited :: "cpu_sys \<Rightarrow> work_key multiset" where
  "awaited s = keys_of client_waits (clients s)"

lemma keys_of_update:
  assumes "i < length xs"
  shows "keys_of f (xs[i := y]) + mset (map work_key (f (xs ! i))) = keys_of f xs + mset (map work_key (f y))"
proof -
  have "xs = take i xs @ xs ! i # drop (Suc i) xs" using assms by (rule id_take_nth_drop)
  moreover have "xs[i := y] = take i xs @ y # drop (Suc i) xs" using assms by (rule upd_conv_take_nth_drop)
  ultimately have "keys_of f xs = keys_of f (take i xs) + mset (map work_key (f (xs ! i))) + keys_of f (drop (Suc i) xs)"
    "keys_of f (xs[i := y]) = keys_of f (take i xs) + mset (map work_key (f y)) + keys_of f (drop (Suc i) xs)"
    by (metis (no_types, lifting) concat.simps(2) concat_append keys_of_def list.simps(9) map_append mset_append union_assoc)+
  then show ?thesis by (simp add: ac_simps)
qed

lemma work_key_executed [simp]: "work_key (x\<lparr>kt_numNodesExecuted := n\<rparr>) = work_key x"
  by (simp add: work_key_def)

lemma size_keys_le:
  assumes "\<And>x. length (f x) \<le> 1"
  shows "size (keys_of f xs) \<le> length xs"
  by (induction xs) (use assms in \<open>auto simp: keys_of_def intro: add_le_mono[of _ 1, simplified]\<close>)

lemma size_keys_nth: "i < length xs \<Longrightarrow> length (f (xs ! i)) \<le> size (keys_of f xs)"
proof (induction xs arbitrary: i)
  case (Cons x xs)
  then show ?case by (cases i) (auto simp: keys_of_def intro: trans_le_add2)
qed simp

lemma size_keys_less:
  assumes "\<And>x. length (f x) \<le> 1" "i < length xs" "f (xs ! i) = []"
  shows "size (keys_of f xs) < length xs"
  using assms(2,3)
proof (induction xs arbitrary: i)
  case (Cons x xs)
  show ?case
  proof (cases i)
    case 0
    then show ?thesis using Cons.prems size_keys_le[of f xs] assms(1) by (simp add: keys_of_def)
  next
    case (Suc j)
    then have "size (keys_of f xs) < length xs" using Cons by simp
    then show ?thesis using assms(1)[of x] by (simp add: keys_of_def)
  qed
qed simp

lemma holds_le_1 [simp]: "length (client_waits c) \<le> Suc 0" "length (client_holds c) \<le> Suc 0" "length (worker_holds w) \<le> Suc 0"
  by (cases c; simp)+ (cases w; simp)

lemma size_in_flight:
  "size (in_flight s) = length (workq s) + length (retq s) + size (keys_of client_holds (clients s)) +
     size (keys_of worker_holds (workers s))"
  by (simp add: in_flight_def)

text \<open>With at most as many clients as a queue has room, every awaited result is in flight and no queue overflows.\<close>

definition balanced :: "cpu_sys \<Rightarrow> bool" where
  "balanced s \<longleftrightarrow> length (clients s) \<le> QUEUE_ITEMS \<and> in_flight s = awaited s"

lemma balanced_room:
  assumes "balanced s"
  shows "i < length (clients s) \<Longrightarrow> client_waits (clients s ! i) = [] \<Longrightarrow> length (workq s) < QUEUE_ITEMS"
    and "i < length (clients s) \<Longrightarrow> client_holds (clients s ! i) \<noteq> [] \<Longrightarrow> length (retq s) < QUEUE_ITEMS"
    and "i < length (workers s) \<Longrightarrow> worker_holds (workers s ! i) \<noteq> [] \<Longrightarrow> length (retq s) < QUEUE_ITEMS"
proof -
  have b: "length (clients s) \<le> QUEUE_ITEMS" "size (in_flight s) = size (awaited s)"
    using assms by (simp_all add: balanced_def)
  have le: "size (awaited s) \<le> length (clients s)" unfolding awaited_def by (rule size_keys_le) simp
  show "length (workq s) < QUEUE_ITEMS" if "i < length (clients s)" "client_waits (clients s ! i) = []"
    using size_keys_less[of client_waits i "clients s"] that b size_in_flight[of s] by (simp add: awaited_def)
  show "length (retq s) < QUEUE_ITEMS" if "i < length (clients s)" "client_holds (clients s ! i) \<noteq> []"
    using size_keys_nth[of i "clients s" client_holds] that(2)[folded length_greater_0_conv] that(1) b le size_in_flight[of s] by linarith
  show "length (retq s) < QUEUE_ITEMS" if "i < length (workers s)" "worker_holds (workers s ! i) \<noteq> []"
    using size_keys_nth[of i "workers s" worker_holds] that(2)[folded length_greater_0_conv] that(1) b le size_in_flight[of s] by linarith
qed

lemma client_step_balance:
  assumes "client_step c wq rq = Some (c', wq', rq')"
    and "client_waits c = [] \<Longrightarrow> length wq < QUEUE_ITEMS" "client_holds c \<noteq> [] \<Longrightarrow> length rq < QUEUE_ITEMS"
  shows "mset (map work_key (wq' @ rq')) + mset (map work_key (client_holds c')) + mset (map work_key (client_waits c)) =
    mset (map work_key (wq @ rq)) + mset (map work_key (client_holds c)) + mset (map work_key (client_waits c'))"
  using assms by (cases c) (auto split: if_splits list.splits)

lemma worker_step_balance:
  assumes "worker_step n w wq rq = Some (w', wq', rq')" "worker_holds w \<noteq> [] \<Longrightarrow> length rq < QUEUE_ITEMS"
  shows "mset (map work_key (wq' @ rq')) + mset (map work_key (worker_holds w')) =
    mset (map work_key (wq @ rq)) + mset (map work_key (worker_holds w))"
  using assms by (cases w) (auto split: if_splits list.splits)

lemma in_flight_update:
  "in_flight (s\<lparr>workq := wq, retq := rq, clients := cs\<rparr>) =
   mset (map work_key (wq @ rq)) + keys_of client_holds cs + keys_of worker_holds (workers s)"
  "in_flight (s\<lparr>workq := wq, retq := rq, workers := ws\<rparr>) =
   mset (map work_key (wq @ rq)) + keys_of client_holds (clients s) + keys_of worker_holds ws"
  "awaited (s\<lparr>workq := wq, retq := rq, clients := cs\<rparr>) = keys_of client_waits cs"
  "awaited (s\<lparr>workq := wq, retq := rq, workers := ws\<rparr>) = awaited s"
  by (simp_all add: in_flight_def awaited_def)

text \<open>Moving keys between sums of multisets, one key at a time.\<close>

lemma exchange:
  fixes q q' h h' w w' H H' W W' K :: "'k multiset"
  assumes "q' + h' + w = q + h + w'" "H' + h = H + h'" "W' + w = W + w'" "q + H + K = W"
  shows "q' + H' + K = W'"
proof (rule multiset_eqI)
  fix k
  have "count q' k + count h' k + count w k = count q k + count h k + count w' k"
    "count H' k + count h k = count H k + count h' k" "count W' k + count w k = count W k + count w' k"
    "count q k + count H k + count K k = count W k"
    using assms[THEN arg_cong[where f = "\<lambda>M. count M k"]] by simp_all
  then show "count (q' + H' + K) k = count W' k" by simp
qed

lemma swap_last: "a + b + c = (d :: 'k multiset) \<Longrightarrow> a + c + b = d"
  by (simp add: ac_simps)

lemma step_balanced:
  assumes "cpu_step runs s t" "balanced s"
  shows "balanced t"
  using assms
proof (induction rule: cpu_step.induct)
  case (client i s c wq rq)
  have room: "client_waits (clients s ! i) = [] \<Longrightarrow> length (workq s) < QUEUE_ITEMS"
    "client_holds (clients s ! i) \<noteq> [] \<Longrightarrow> length (retq s) < QUEUE_ITEMS"
    using balanced_room(1,2)[OF client.prems client.hyps(1)] by blast+
  have "mset (map work_key (wq @ rq)) + keys_of client_holds ((clients s)[i := c]) + keys_of worker_holds (workers s) =
      keys_of client_waits ((clients s)[i := c])"
    by (rule exchange[OF client_step_balance[OF client.hyps(2) room] keys_of_update[OF client.hyps(1)] keys_of_update[OF client.hyps(1)]])
      (use client.prems in \<open>simp_all add: balanced_def in_flight_def awaited_def\<close>)
  then show ?case using client.prems by (simp add: balanced_def in_flight_update)
next
  case (worker i s n w wq rq)
  have room: "worker_holds (workers s ! i) \<noteq> [] \<Longrightarrow> length (retq s) < QUEUE_ITEMS"
    using balanced_room(3)[OF worker.prems worker.hyps(1)] by blast
  have base: "mset (map work_key (workq s @ retq s)) + keys_of worker_holds (workers s) + keys_of client_holds (clients s) =
      keys_of client_waits (clients s)"
    by (rule swap_last) (use worker.prems in \<open>simp only: balanced_def in_flight_def awaited_def\<close>)
  have "mset (map work_key (wq @ rq)) + keys_of worker_holds ((workers s)[i := w]) + keys_of client_holds (clients s) =
      keys_of client_waits (clients s)"
    by (rule exchange[where w = "{#}" and w' = "{#}", OF _ keys_of_update[OF worker.hyps(1)] _ base])
      (use worker_step_balance[OF worker.hyps(2) room] in simp_all)
  then show ?case using worker.prems by (simp add: balanced_def in_flight_update awaited_def ac_simps)
qed

lemma reach_balanced: "cpu_reach runs s0 s \<Longrightarrow> balanced s0 \<Longrightarrow> balanced s"
  by (induction rule: cpu_reach.induct) (blast intro: step_balanced)+

lemma init_balanced: "length ks \<le> QUEUE_ITEMS \<Longrightarrow> balanced (cpu_init ks n)"
  by (simp add: balanced_def in_flight_def awaited_def cpu_init_def keys_of_def comp_def)

section \<open>Results and workers\<close>

text \<open>Every result on its way was computed for its key; a client returns one of its own, or 0 unserved.\<close>

definition computed :: "(work_key \<Rightarrow> u32 \<Rightarrow> bool) \<Rightarrow> DVP_KGM_Thread_t \<Rightarrow> bool" where
  "computed runs x \<longleftrightarrow> runs (work_key x) (kt_numNodesExecuted x)"

definition client_ok :: "(work_key \<Rightarrow> u32 \<Rightarrow> bool) \<Rightarrow> client \<Rightarrow> bool" where
  "client_ok runs c \<longleftrightarrow> (\<forall>x\<in>set (client_holds c). computed runs x) \<and> (\<forall>t n. c = CDone t n \<longrightarrow> n = 0 \<or> runs (work_key t) n)"

definition worker_ok :: "(work_key \<Rightarrow> u32 \<Rightarrow> bool) \<Rightarrow> worker \<Rightarrow> bool" where
  "worker_ok runs w \<longleftrightarrow> (\<forall>x\<in>set (worker_result w). computed runs x)"

definition results_computed :: "(work_key \<Rightarrow> u32 \<Rightarrow> bool) \<Rightarrow> cpu_sys \<Rightarrow> bool" where
  "results_computed runs s \<longleftrightarrow> (\<forall>x\<in>set (retq s). computed runs x) \<and> (\<forall>c\<in>set (clients s). client_ok runs c) \<and>
     (\<forall>w\<in>set (workers s). worker_ok runs w)"

lemma ball_update: "\<forall>x\<in>set xs. P x \<Longrightarrow> P y \<Longrightarrow> \<forall>x\<in>set (xs[i := y]). P x"
  using set_update_subset_insert by fastforce

lemma client_step_results:
  "client_step c wq rq = Some (c', wq', rq') \<Longrightarrow> \<forall>x\<in>set rq. computed runs x \<Longrightarrow> client_ok runs c \<Longrightarrow>
   (\<forall>x\<in>set rq'. computed runs x) \<and> client_ok runs c'"
  by (cases c) (auto simp: client_ok_def computed_def split: if_splits list.splits)

lemma worker_step_results:
  assumes "worker_step n w wq rq = Some (w', wq', rq')" "\<And>x. w = WRun x \<Longrightarrow> runs (work_key x) n"
    and "\<forall>x\<in>set rq. computed runs x" "worker_ok runs w"
  shows "(\<forall>x\<in>set rq'. computed runs x) \<and> worker_ok runs w'"
  using assms by (cases w) (auto simp: worker_ok_def computed_def split: if_splits list.splits)

lemma step_results: "cpu_step runs s t \<Longrightarrow> results_computed runs s \<Longrightarrow> results_computed runs t"
proof (induction rule: cpu_step.induct)
  case (client i s c wq rq)
  have "client_ok runs (clients s ! i)" "\<forall>x\<in>set (retq s). computed runs x"
    using client.prems nth_mem[OF client.hyps(1)] unfolding results_computed_def by blast+
  from client_step_results[OF client.hyps(2) this(2,1)] have "(\<forall>x\<in>set rq. computed runs x) \<and> client_ok runs c" .
  then have "Ball (set ((clients s)[i := c])) (client_ok runs)" "\<forall>x\<in>set rq. computed runs x"
    using client.prems ball_update[of "clients s" "client_ok runs"] unfolding results_computed_def by blast+
  then show ?case using client.prems by (simp add: results_computed_def)
next
  case (worker i s n w wq rq)
  have "worker_ok runs (workers s ! i)" "\<forall>x\<in>set (retq s). computed runs x"
    using worker.prems nth_mem[OF worker.hyps(1)] unfolding results_computed_def by blast+
  from worker_step_results[OF worker.hyps(2,3) this(2,1)] have "(\<forall>x\<in>set rq. computed runs x) \<and> worker_ok runs w" .
  then have "Ball (set ((workers s)[i := w])) (worker_ok runs)" "\<forall>x\<in>set rq. computed runs x"
    using worker.prems ball_update[of "workers s" "worker_ok runs"] unfolding results_computed_def by blast+
  then show ?case using worker.prems by (simp add: results_computed_def)
qed

lemma reach_results: "cpu_reach runs (cpu_init ks n) s \<Longrightarrow> results_computed runs s"
proof (induction rule: cpu_reach.induct)
  case start
  show ?case by (auto simp: results_computed_def cpu_init_def client_ok_def worker_ok_def)
qed (rule step_results)

text \<open>
  A worker exits only when others took what it had seen; so there is always a worker that has not passed
  the wait, or something in the queue for those that have.
\<close>

definition worker_left :: "cpu_sys \<Rightarrow> bool" where
  "worker_left s \<longleftrightarrow> (\<exists>w\<in>set (workers s). w \<noteq> WExit) \<and> (workq s \<noteq> [] \<or> (\<exists>w\<in>set (workers s). w \<noteq> WExit \<and> w \<noteq> WRead))"

lemma client_step_workq: "client_step c wq rq = Some (c', wq', rq') \<Longrightarrow> wq \<noteq> [] \<Longrightarrow> wq' \<noteq> []"
  by (cases c) (auto split: if_splits list.splits)

lemma worker_step_left:
  assumes "worker_step n w wq rq = Some (w', wq', rq')"
  shows "(w' = WExit \<longrightarrow> w = WRead \<and> wq = [] \<and> wq' = []) \<and> (w' = WRead \<longrightarrow> wq' \<noteq> [])"
  using assms by (cases w) (auto split: if_splits list.splits)

lemma set_update_other: "i < length xs \<Longrightarrow> x \<in> set xs \<Longrightarrow> x \<noteq> xs ! i \<Longrightarrow> x \<in> set (xs[i := y])"
  by (metis in_set_conv_nth length_list_update nth_list_update_neq)

lemma step_worker_left: "cpu_step runs s t \<Longrightarrow> worker_left s \<Longrightarrow> worker_left t"
proof (induction rule: cpu_step.induct)
  case (client i s c wq rq)
  then show ?case using client_step_workq[OF client.hyps(2)] by (auto simp: worker_left_def)
next
  case (worker i s n w wq rq)
  note st = worker_step_left[OF worker.hyps(2)]
  have w: "w \<in> set ((workers s)[i := w])" using worker.hyps(1) by (rule set_update_memI)
  show ?case
  proof (cases "w = WExit")
    case True
    then have e: "workers s ! i = WRead" "workq s = []" using st by simp_all
    then obtain v where v: "v \<in> set (workers s)" "v \<noteq> WExit" "v \<noteq> WRead" using worker.prems by (auto simp: worker_left_def)
    then have "v \<in> set ((workers s)[i := w])" using set_update_other[OF worker.hyps(1) v(1)] e(1) by metis
    then show ?thesis using v by (auto simp: worker_left_def)
  next
    case False
    then show ?thesis using st w by (auto simp: worker_left_def)
  qed
qed

section \<open>Properties\<close>

text \<open>
  C23. Whatever the number of clients and workers and however they interleave, a client of the queued CPU
  manager that returns has the result that some worker computed for its own nodes, or 0 when its request
  was refused; foreign results are never handed out.
\<close>

theorem queued_results_own:
  assumes "cpu_reach runs (cpu_init ks n) s" "CDone t r \<in> set (clients s)"
  shows "r = 0 \<or> runs (work_key t) r"
  using reach_results[OF assms(1)] assms(2) unfolding results_computed_def client_ok_def by blast

text \<open>
  C22. With at least one worker and at most ten clients, the capacity of the queues, the queued CPU manager
  never gets stuck and loses nothing: until every client has returned some thread can take a step, a client
  that waits has its request or its result in flight, and no request is refused.
\<close>

theorem queued_no_deadlock:
  assumes reach: "cpu_reach runs (cpu_init ks n) s" and "length ks \<le> QUEUE_ITEMS" "0 < n"
    and runs: "\<forall>k. \<exists>r. runs k r"
  shows "((\<forall>c\<in>set (clients s). \<exists>t r. c = CDone t r) \<or> (\<exists>s'. cpu_step runs s s')) \<and> in_flight s = awaited s"
proof -
  have bal: "balanced s" by (rule reach_balanced[OF reach init_balanced[OF assms(2)]])
  have "worker_left (cpu_init ks n)" using assms(3) by (cases n) (auto simp: worker_left_def cpu_init_def)
  with reach have left: "worker_left s" by (induction rule: cpu_reach.induct) (blast intro: step_worker_left)+
  have "\<exists>s'. cpu_step runs s s'" if c_in: "c \<in> set (clients s)" and c_open: "\<nexists>t r. c = CDone t r" for c
  proof (rule ccontr)
    assume stuck: "\<nexists>s'. cpu_step runs s s'"
    have cs: "client_step (clients s ! i) (workq s) (retq s) = None" if "i < length (clients s)" for i
      using stuck cpu_step.client[OF that] by (metis not_None_eq prod_cases3)
    have waits: "\<exists>t. clients s ! i = CWait t \<or> (\<exists>r. clients s ! i = CDone t r)" if "i < length (clients s)" for i
      using cs[OF that] balanced_room(1,2)[OF bal that] by (cases "clients s ! i") (auto split: if_splits list.splits)
    obtain i where i: "i < length (clients s)" "c = clients s ! i" using c_in by (auto simp: in_set_conv_nth)
    then obtain t where c: "c = CWait t" using waits[of i] c_open by auto
    then have rq: "retq s = []" using cs[OF i(1)] i(2) by (simp split: if_splits)
    have ws: "worker_step r (workers s ! j) (workq s) (retq s) = None"
      if j: "j < length (workers s)" and r: "\<And>x. workers s ! j = WRun x \<Longrightarrow> runs (work_key x) r" for j r
    proof (cases "worker_step r (workers s ! j) (workq s) (retq s)")
      case (Some p)
      then obtain w wq rq where "worker_step r (workers s ! j) (workq s) (retq s) = Some (w, wq, rq)" by (cases p) auto
      from cpu_step.worker[where runs = runs, OF j this r] stuck show ?thesis by blast
    qed
    have idle: "workers s ! j = WExit \<or> workers s ! j = WWait \<and> workq s = []" if j: "j < length (workers s)" for j
    proof -
      obtain r where "\<And>x. workers s ! j = WRun x \<Longrightarrow> runs (work_key x) r"
        using runs by (metis worker.inject(1))
      from ws[OF j this] show ?thesis by (cases "workers s ! j") (auto simp: rq QUEUE_ITEMS_def split: if_splits list.splits)
    qed
    have empty: "workq s = []" using left idle unfolding worker_left_def by (metis in_set_conv_nth)
    have "concat (map worker_holds (workers s)) = []"
      using idle by (auto simp: concat_eq_Nil_conv in_set_conv_nth) (metis worker_holds.simps(4,6))
    moreover have "concat (map client_holds (clients s)) = []"
      using waits by (auto simp: concat_eq_Nil_conv in_set_conv_nth) (metis client_holds.simps(5,7))
    ultimately have "in_flight s = {#}" using empty rq by (simp add: in_flight_def keys_of_def)
    moreover have "clients s ! i = CWait t" using i(2) c by simp
    then have "0 < size (awaited s)" using size_keys_nth[OF i(1), of client_waits] by (simp add: awaited_def)
    ultimately show False using bal by (simp add: balanced_def)
  qed
  then show ?thesis using bal unfolding balanced_def by blast
qed

text \<open>
  The pool of workers of the CPU manager shrinks but never dies out: a worker leaves its loop when
  another one took the item that both had been woken for, yet some worker is always left.
\<close>

theorem worker_pool_survives:
  assumes "cpu_reach runs (cpu_init ks n) s" "0 < n"
  shows "\<exists>w\<in>set (workers s). w \<noteq> WExit"
proof -
  have "worker_left (cpu_init ks n)" using assms(2) by (cases n) (auto simp: worker_left_def cpu_init_def)
  with assms(1) have "worker_left s" by (induction rule: cpu_reach.induct) (blast intro: step_worker_left)+
  then show ?thesis by (simp add: worker_left_def)
qed

section \<open>Examples\<close>

text \<open>Steps by the index of the thread that moves: \<open>Inl\<close> a client, \<open>Inr\<close> a worker, whose executions return 3.\<close>

fun cpu_move :: "nat + nat \<Rightarrow> cpu_sys \<Rightarrow> cpu_sys option" where
  "cpu_move (Inl i) s = (if i < length (clients s) then do {
     (c, wq, rq) \<leftarrow> client_step (clients s ! i) (workq s) (retq s);
     Some (s\<lparr>workq := wq, retq := rq, clients := (clients s)[i := c]\<rparr>) } else None)"
| "cpu_move (Inr i) s = (if i < length (workers s) then do {
     (w, wq, rq) \<leftarrow> worker_step 3 (workers s ! i) (workq s) (retq s);
     Some (s\<lparr>workq := wq, retq := rq, workers := (workers s)[i := w]\<rparr>) } else None)"

fun cpu_moves :: "(nat + nat) list \<Rightarrow> cpu_sys \<Rightarrow> cpu_sys option" where
  "cpu_moves [] s = Some s"
| "cpu_moves (x # xs) s = do { t \<leftarrow> cpu_move x s; cpu_moves xs t }"

lemma cpu_move_step: "cpu_move x s = Some t \<Longrightarrow> cpu_step (\<lambda>_ n. n = 3) s t"
  by (cases "(x, s)" rule: cpu_move.cases)
    (auto simp: bind_eq_Some_conv split: if_splits intro: cpu_step.client cpu_step.worker)

lemma cpu_moves_reach:
  "cpu_moves xs s = Some t \<Longrightarrow> cpu_reach (\<lambda>_ n. n = 3) s0 s \<Longrightarrow> cpu_reach (\<lambda>_ n. n = 3) s0 t"
proof (induction xs arbitrary: s)
  case (Cons x xs)
  then obtain s1 where "cpu_move x s = Some s1" "cpu_moves xs s1 = Some t" by (auto simp: bind_eq_Some_conv)
  then show ?case using Cons.IH cpu_reach.step[OF Cons.prems(2) cpu_move_step] by blast
qed simp

definition ex_item :: "nat \<Rightarrow> DVP_KGM_Thread_t" where
  "ex_item a = \<lparr>kt_pSubNodes = a, kt_startNode = 0, kt_numNodes = 3, kt_numNodesExecuted = 0\<rparr>"

text \<open>
  Two clients and two workers: both workers are woken for the first item, the first one serves it and the
  second one exits; the second client reads its result, puts it back, and the first client returns with it.
\<close>

definition ex_trace :: "(nat + nat) list" where
  "ex_trace = [Inl 0, Inl 0, Inr 0, Inr 1, Inr 0, Inr 1, Inl 1, Inl 1, Inr 0, Inr 0, Inr 0,
     Inl 1, Inl 1, Inl 1, Inl 1, Inl 0, Inl 0]"

definition ex_final :: cpu_sys where
  "ex_final = \<lparr>workq = [ex_item 20], retq = [], clients = [CDone (ex_item 10) 3, CWait (ex_item 20)], workers = [WWait, WExit]\<rparr>"

lemma ex_final_reach: "cpu_reach (\<lambda>_ n. n = 3) (cpu_init [ex_item 10, ex_item 20] 2) ex_final"
  by (rule cpu_moves_reach[of ex_trace, OF _ cpu_reach.start])
    (simp add: ex_trace_def ex_final_def cpu_init_def ex_item_def work_key_def QUEUE_ITEMS_def numeral_2_eq_2)

theorem queued_results_own_witness:
  "CDone (ex_item 10) 3 \<in> set (clients ex_final) \<and> ((3 :: u32) = 0 \<or> (3 :: u32) = 3)"
  using queued_results_own[OF ex_final_reach, of "ex_item 10" 3] by (simp add: ex_final_def)

theorem queued_no_deadlock_witness:
  "((\<forall>c\<in>set (clients ex_final). \<exists>t r. c = CDone t r) \<or> (\<exists>s'. cpu_step (\<lambda>_ n. n = 3) ex_final s')) \<and>
   in_flight ex_final = awaited ex_final"
  by (rule queued_no_deadlock[OF ex_final_reach]) (simp_all add: QUEUE_ITEMS_def)

theorem worker_pool_survives_witness: "\<exists>w\<in>set (workers ex_final). w \<noteq> WExit"
  by (rule worker_pool_survives[OF ex_final_reach]) simp

text \<open>
  Two workers woken for one item: the worker that comes second finds the work queue empty, leaves its
  loop and exits although the queue is in use and nothing was torn down.
\<close>

theorem idle_worker_exits:
  "\<exists>s. cpu_reach (\<lambda>_ n. n = 3) (cpu_init [ex_item 10, ex_item 20] 2) s \<and> WExit \<in> set (workers s) \<and>
     (\<exists>c\<in>set (clients s). \<forall>t r. c \<noteq> CDone t r)"
  using ex_final_reach by (intro exI[of _ ex_final]) (simp add: ex_final_def)

end
