(* ===== verification/Dvp_CpuDeinit.thy ===== *)
theory Dvp_CpuDeinit
  imports Dvp_CpuQueue
begin

text \<open>
  The end of the queued mode of the CPU manager: \<open>DVP_KernelGraphManagerDeinit\<close> pops the work queue and the queue of results,
  joins the worker threads one after the other and destroys the queues, while the clients and workers of \<open>Dvp_CpuQueue\<close> go on. Reads
  and writes of a popped queue no longer wait, and fail; those of a destroyed queue are a use after free.
\<close>

section \<open>Threads on popped queues\<close>

text \<open>\<open>pw\<close> and \<open>pr\<close> tell whether the work queue and the queue of results are popped. All else is as on queues in use.\<close>

definition popped_client_step :: "bool \<Rightarrow> bool \<Rightarrow> client \<Rightarrow> DVP_KGM_Thread_t list \<Rightarrow> DVP_KGM_Thread_t list \<Rightarrow>
  (client \<times> DVP_KGM_Thread_t list \<times> DVP_KGM_Thread_t list) option" where
  "popped_client_step pw pr c wq rq =
     (case c of
        CStart t \<Rightarrow> if pw then Some (CWrite t, wq, rq) else client_step c wq rq
      | CWrite t \<Rightarrow> if pw then Some (CDone t 0, wq, rq) else client_step c wq rq
      | CWait t \<Rightarrow> if pr then Some (CRead t, wq, rq) else client_step c wq rq
      | CRead t \<Rightarrow> if pr then Some (CWait t, wq, rq) else client_step c wq rq
      | CBack t r \<Rightarrow> if pr then Some (CBackWrite t r, wq, rq) else client_step c wq rq
      | CBackWrite t r \<Rightarrow> if pr then Some (CWait t, wq, rq) else client_step c wq rq
      | CDone t n \<Rightarrow> None)"

definition popped_worker_step :: "bool \<Rightarrow> bool \<Rightarrow> u32 \<Rightarrow> worker \<Rightarrow> DVP_KGM_Thread_t list \<Rightarrow> DVP_KGM_Thread_t list \<Rightarrow>
  (worker \<times> DVP_KGM_Thread_t list \<times> DVP_KGM_Thread_t list) option" where
  "popped_worker_step pw pr n w wq rq =
     (case w of
        WWait \<Rightarrow> if pw then Some (WRead, wq, rq) else worker_step n w wq rq
      | WRead \<Rightarrow> if pw then Some (WExit, wq, rq) else worker_step n w wq rq
      | WRun x \<Rightarrow> worker_step n w wq rq
      | WOut x \<Rightarrow> if pr then Some (WOutWrite x, wq, rq) else worker_step n w wq rq
      | WOutWrite x \<Rightarrow> if pr then Some (WWait, wq, rq) else worker_step n w wq rq
      | WExit \<Rightarrow> None)"

text \<open>On queues that are not popped the threads are those of the queued mode.\<close>

lemma popped_steps_False:
  "popped_client_step False False = client_step" "popped_worker_step False False = worker_step"
proof -
  show "popped_client_step False False = client_step"
  proof (intro ext)
    show "popped_client_step False False c wq rq = client_step c wq rq" for c wq rq
      by (cases c) (simp_all add: popped_client_step_def)
  qed
  show "popped_worker_step False False = worker_step"
  proof (intro ext)
    show "popped_worker_step False False n w wq rq = worker_step n w wq rq" for n w wq rq
      by (cases w) (simp_all add: popped_worker_step_def)
  qed
qed

text \<open>The queue that the next step of a thread works on.\<close>

definition client_on_workq :: "client \<Rightarrow> bool" where
  "client_on_workq c = (case c of CStart t \<Rightarrow> True | CWrite t \<Rightarrow> True | _ \<Rightarrow> False)"

definition client_on_retq :: "client \<Rightarrow> bool" where
  "client_on_retq c = (case c of CWait t \<Rightarrow> True | CRead t \<Rightarrow> True | CBack t r \<Rightarrow> True | CBackWrite t r \<Rightarrow> True | _ \<Rightarrow> False)"

definition worker_on_workq :: "worker \<Rightarrow> bool" where
  "worker_on_workq w = (case w of WWait \<Rightarrow> True | WRead \<Rightarrow> True | _ \<Rightarrow> False)"

definition worker_on_retq :: "worker \<Rightarrow> bool" where
  "worker_on_retq w = (case w of WOut x \<Rightarrow> True | WOutWrite x \<Rightarrow> True | _ \<Rightarrow> False)"

section \<open>The manager while it is taken down\<close>

text \<open>The places of \<open>DVP_KernelGraphManagerDeinit\<close>: before the two pops, in the join of a worker, before the two calls of
  \<open>queue_destroy\<close>, and returned.\<close>

datatype deinit = DPopWork | DPopRet | DJoinWorker nat | DDestroyWork | DDestroyRet | DReturned

text \<open>Of each queue: it has been popped, and its memory has been given back.\<close>

record cpu_down =
  cd_sys :: cpu_sys
  cd_popw :: bool
  cd_popr :: bool
  cd_gonew :: bool
  cd_goner :: bool
  cd_at :: deinit

definition cpu_down_start :: "cpu_sys \<Rightarrow> cpu_down" where
  "cpu_down_start s = \<lparr>cd_sys = s, cd_popw = False, cd_popr = False, cd_gonew = False, cd_goner = False, cd_at = DPopWork\<rparr>"

text \<open>\<open>None\<close> in a join means that it waits.\<close>

definition DVP_KernelGraphManagerDeinit_CPU :: "cpu_down \<Rightarrow> cpu_down option" where
  "DVP_KernelGraphManagerDeinit_CPU d =
     (case cd_at d of
        DPopWork \<Rightarrow> Some (d\<lparr>cd_popw := True, cd_at := DPopRet\<rparr>)
      | DPopRet \<Rightarrow> Some (d\<lparr>cd_popr := True, cd_at := DJoinWorker 0\<rparr>)
      | DJoinWorker i \<Rightarrow>
          if i < length (workers (cd_sys d)) then
            if workers (cd_sys d) ! i = WExit then Some (d\<lparr>cd_at := DJoinWorker (i + 1)\<rparr>) else None
          else Some (d\<lparr>cd_at := DDestroyWork\<rparr>)
      | DDestroyWork \<Rightarrow> Some (d\<lparr>cd_gonew := True, cd_at := DDestroyRet\<rparr>)
      | DDestroyRet \<Rightarrow> Some (d\<lparr>cd_goner := True, cd_at := DReturned\<rparr>)
      | DReturned \<Rightarrow> None)"

text \<open>A thread waits (or has ended), touches a queue that has been destroyed, or takes a step.\<close>

datatype 'a advance = Waits | Faults | Moves 'a

definition client_turn :: "nat \<Rightarrow> cpu_down \<Rightarrow> cpu_down advance" where
  "client_turn i d = (let s = cd_sys d; c = clients s ! i in
     if client_on_workq c \<and> cd_gonew d \<or> client_on_retq c \<and> cd_goner d then Faults
     else case popped_client_step (cd_popw d) (cd_popr d) c (workq s) (retq s) of
        None \<Rightarrow> Waits
      | Some (c', wq, rq) \<Rightarrow> Moves (d\<lparr>cd_sys := s\<lparr>workq := wq, retq := rq, clients := (clients s)[i := c']\<rparr>\<rparr>))"

definition worker_turn :: "u32 \<Rightarrow> nat \<Rightarrow> cpu_down \<Rightarrow> cpu_down advance" where
  "worker_turn n i d = (let s = cd_sys d; w = workers s ! i in
     if worker_on_workq w \<and> cd_gonew d \<or> worker_on_retq w \<and> cd_goner d then Faults
     else case popped_worker_step (cd_popw d) (cd_popr d) n w (workq s) (retq s) of
        None \<Rightarrow> Waits
      | Some (w', wq, rq) \<Rightarrow> Moves (d\<lparr>cd_sys := s\<lparr>workq := wq, retq := rq, workers := (workers s)[i := w']\<rparr>\<rparr>))"

lemma client_turn_Moves:
  assumes "client_turn i d = Moves e"
  obtains c wq rq where "popped_client_step (cd_popw d) (cd_popr d) (clients (cd_sys d) ! i) (workq (cd_sys d)) (retq (cd_sys d)) = Some (c, wq, rq)"
    "e = d\<lparr>cd_sys := (cd_sys d)\<lparr>workq := wq, retq := rq, clients := (clients (cd_sys d))[i := c]\<rparr>\<rparr>"
  using assms by (auto simp: client_turn_def Let_def split: if_splits option.splits)

lemma worker_turn_Moves:
  assumes "worker_turn n i d = Moves e"
  obtains w wq rq where "popped_worker_step (cd_popw d) (cd_popr d) n (workers (cd_sys d) ! i) (workq (cd_sys d)) (retq (cd_sys d)) = Some (w, wq, rq)"
    "e = d\<lparr>cd_sys := (cd_sys d)\<lparr>workq := wq, retq := rq, workers := (workers (cd_sys d))[i := w]\<rparr>\<rparr>"
  using assms by (auto simp: worker_turn_def Let_def split: if_splits option.splits)

inductive down_step :: "cpu_down \<Rightarrow> cpu_down \<Rightarrow> bool" where
  client: "i < length (clients (cd_sys d)) \<Longrightarrow> client_turn i d = Moves e \<Longrightarrow> down_step d e"
| worker: "i < length (workers (cd_sys d)) \<Longrightarrow> worker_turn n i d = Moves e \<Longrightarrow> down_step d e"
| deinit: "DVP_KernelGraphManagerDeinit_CPU d = Some e \<Longrightarrow> down_step d e"

inductive_cases down_stepE: "down_step d e"

abbreviation down_reach :: "cpu_sys \<Rightarrow> cpu_down \<Rightarrow> bool" where
  "down_reach s d \<equiv> down_step\<^sup>*\<^sup>* (cpu_down_start s) d"

text \<open>Neither the manager nor a worker can take a step. What a node returns makes no difference to that.\<close>

definition down_rest :: "cpu_down \<Rightarrow> bool" where
  "down_rest d \<longleftrightarrow> DVP_KernelGraphManagerDeinit_CPU d = None \<and>
     (\<forall>i \<in> set [0..<length (workers (cd_sys d))]. worker_turn 0 i d = Waits)"

section \<open>Progress\<close>

definition down_inv :: "cpu_down \<Rightarrow> bool" where
  "down_inv d \<longleftrightarrow> (cd_gonew d \<longleftrightarrow> cd_at d = DDestroyRet \<or> cd_at d = DReturned) \<and> (cd_goner d \<longleftrightarrow> cd_at d = DReturned) \<and>
     (case cd_at d of
       DPopWork \<Rightarrow> True
     | DPopRet \<Rightarrow> cd_popw d
     | DJoinWorker k \<Rightarrow> cd_popw d \<and> cd_popr d \<and> k \<le> length (workers (cd_sys d)) \<and> (\<forall>i < k. workers (cd_sys d) ! i = WExit)
     | _ \<Rightarrow> cd_popw d \<and> cd_popr d \<and> (\<forall>w \<in> set (workers (cd_sys d)). w = WExit))"

definition client_out :: "client \<Rightarrow> bool" where
  "client_out c \<longleftrightarrow> (case c of CDone _ _ \<Rightarrow> True | _ \<Rightarrow> False)"

lemma client_out_stays: "client_out c \<Longrightarrow> popped_client_step pw pr c wq rq = None"
  by (cases c) (simp_all add: client_out_def popped_client_step_def)

lemma exited_stays: "popped_worker_step pw pr n WExit wq rq = None"
  by (simp add: popped_worker_step_def)

lemma popped_worker_moves: "w \<noteq> WExit \<Longrightarrow> popped_worker_step True True n w wq rq \<noteq> None"
  by (cases w) (simp_all add: popped_worker_step_def)

lemma down_inv_worker:
  assumes "down_inv d" and "worker_turn n i d = Moves e"
  shows "down_inv e"
  using assms(2)
proof (cases rule: worker_turn_Moves)
  case (1 w wq rq)
  have live: "workers (cd_sys d) ! i \<noteq> WExit" using 1(1) exited_stays by auto
  show ?thesis
  proof (cases "i < length (workers (cd_sys d))")
    case True
    then show ?thesis using assms(1) live
      by (auto simp: 1(2) down_inv_def nth_list_update split: deinit.splits dest: nth_mem)
  qed (use assms(1) in \<open>simp add: 1(2) down_inv_def list_update_beyond split: deinit.splits\<close>)
qed

lemma down_inv_client: "down_inv d \<Longrightarrow> client_turn i d = Moves e \<Longrightarrow> down_inv e"
  by (erule client_turn_Moves) (simp add: down_inv_def split: deinit.splits)

lemma down_inv_deinit: "down_inv d \<Longrightarrow> DVP_KernelGraphManagerDeinit_CPU d = Some e \<Longrightarrow> down_inv e"
  by (auto simp: DVP_KernelGraphManagerDeinit_CPU_def down_inv_def less_Suc_eq in_set_conv_nth split: deinit.splits if_splits)

lemma down_inv_step: "down_inv d \<Longrightarrow> down_step d e \<Longrightarrow> down_inv e"
  by (auto elim!: down_stepE intro: down_inv_worker down_inv_client down_inv_deinit)

lemma down_reach_inv: "down_reach s d \<Longrightarrow> down_inv d"
  by (induction rule: rtranclp_induct) (simp add: cpu_down_start_def down_inv_def, rule down_inv_step)

lemma down_step_clients:
  assumes "down_step d e" and "list_all client_out (clients (cd_sys d))"
  shows "clients (cd_sys e) = clients (cd_sys d) \<and> length (workers (cd_sys e)) = length (workers (cd_sys d))"
  using assms(1)
proof (cases rule: down_step.cases)
  case (client i)
  then have "client_out (clients (cd_sys d) ! i)" using assms(2) by (simp add: list_all_length)
  then show ?thesis using client(2) client_out_stays by (auto elim: client_turn_Moves)
next
  case (worker i n)
  then show ?thesis by (auto elim: worker_turn_Moves)
qed (auto simp: DVP_KernelGraphManagerDeinit_CPU_def split: deinit.splits if_splits)

lemma down_reach_clients:
  "down_reach s d \<Longrightarrow> list_all client_out (clients s) \<Longrightarrow>
     clients (cd_sys d) = clients s \<and> length (workers (cd_sys d)) = length (workers s)"
  by (induction rule: rtranclp_induct) (auto simp: cpu_down_start_def dest: down_step_clients)

text \<open>What a worker has left to do, and what the manager has.\<close>

fun down_worker_left :: "worker \<Rightarrow> nat" where
  "down_worker_left WExit = 0"
| "down_worker_left WRead = 1"
| "down_worker_left WWait = 2"
| "down_worker_left (WOutWrite x) = 3"
| "down_worker_left (WOut x) = 4"
| "down_worker_left (WRun x) = 5"

definition deinit_left :: "nat \<Rightarrow> deinit \<Rightarrow> nat" where
  "deinit_left n p = (case p of DPopWork \<Rightarrow> n + 5 | DPopRet \<Rightarrow> n + 4 | DJoinWorker k \<Rightarrow> n + 3 - k | DDestroyWork \<Rightarrow> 2 | DDestroyRet \<Rightarrow> 1
     | DReturned \<Rightarrow> 0)"

definition down_left :: "cpu_down \<Rightarrow> nat" where
  "down_left d = 5 * length (workq (cd_sys d)) + sum_list (map down_worker_left (workers (cd_sys d))) +
     deinit_left (length (workers (cd_sys d))) (cd_at d)"

lemma worker_left_less:
  "popped_worker_step pw pr n w wq rq = Some (w', wq', rq') \<Longrightarrow> 5 * length wq' + down_worker_left w' < 5 * length wq + down_worker_left w"
  by (cases w) (auto simp: popped_worker_step_def split: if_splits list.splits)

lemma down_step_less:
  assumes "down_inv d" and "down_step d e" and "list_all client_out (clients (cd_sys d))"
  shows "down_left e < down_left d"
  using assms(2)
proof (cases rule: down_step.cases)
  case (client i)
  then have "client_out (clients (cd_sys d) ! i)" using assms(3) by (simp add: list_all_length)
  then show ?thesis using client(2) client_out_stays by (auto elim: client_turn_Moves)
next
  case (worker i n)
  obtain w wq rq where w: "popped_worker_step (cd_popw d) (cd_popr d) n (workers (cd_sys d) ! i) (workq (cd_sys d)) (retq (cd_sys d)) =
      Some (w, wq, rq)"
      "e = d\<lparr>cd_sys := (cd_sys d)\<lparr>workq := wq, retq := rq, workers := (workers (cd_sys d))[i := w]\<rparr>\<rparr>"
    using worker(2) by (rule worker_turn_Moves)
  show ?thesis using worker_left_less[OF w(1)] sum_list_update_nat[OF worker(1), of down_worker_left w] by (simp add: down_left_def w(2))
next
  case deinit
  then show ?thesis using assms(1)
    by (auto simp: DVP_KernelGraphManagerDeinit_CPU_def down_left_def deinit_left_def down_inv_def split: deinit.splits if_splits)
qed

lemma down_rest_returned:
  assumes "down_inv d" and "down_rest d"
  shows "cd_at d = DReturned"
proof (cases "cd_at d")
  case (DJoinWorker k)
  show ?thesis
  proof (cases "k < length (workers (cd_sys d))")
    case True
    have "cd_popw d" "cd_popr d" "\<not> cd_gonew d" "\<not> cd_goner d" using assms(1) DJoinWorker by (simp_all add: down_inv_def)
    moreover have "worker_turn 0 k d = Waits" using assms(2) True by (simp add: down_rest_def)
    ultimately have "popped_worker_step True True 0 (workers (cd_sys d) ! k) (workq (cd_sys d)) (retq (cd_sys d)) = None"
      by (simp add: worker_turn_def Let_def split: option.splits prod.splits)
    then have "workers (cd_sys d) ! k = WExit" using popped_worker_moves by blast
    then show ?thesis using assms(2) DJoinWorker True by (simp add: down_rest_def DVP_KernelGraphManagerDeinit_CPU_def)
  qed (use assms(2) DJoinWorker in \<open>simp add: down_rest_def DVP_KernelGraphManagerDeinit_CPU_def\<close>)
qed (use assms(2) in \<open>simp_all add: down_rest_def DVP_KernelGraphManagerDeinit_CPU_def\<close>)

text \<open>The workers have ended before a queue is destroyed, and a client that has returned works on no queue.\<close>

lemma worker_turn_safe:
  assumes "down_inv d" and "i < length (workers (cd_sys d))"
  shows "worker_turn n i d \<noteq> Faults"
proof (cases "cd_gonew d \<or> cd_goner d")
  case True
  then have "workers (cd_sys d) ! i = WExit" using assms by (auto simp: down_inv_def)
  then show ?thesis by (simp add: worker_turn_def worker_on_workq_def worker_on_retq_def exited_stays)
qed (simp add: worker_turn_def Let_def split: option.splits prod.splits)

lemma client_turn_out: "client_out (clients (cd_sys d) ! i) \<Longrightarrow> client_turn i d = Waits"
  by (auto simp: client_turn_def client_out_def client_on_workq_def client_on_retq_def popped_client_step_def split: client.splits)

section \<open>Properties\<close>

text \<open>
  C26. Taking down the queued mode when every client has returned always comes to an end: each step of a worker or of the manager leaves less
  to do, whatever items still wait and however full the queues are, and when none is left the manager has returned, which it does
  only after every worker thread has ended. No thread ever works on a queue that has been destroyed.
\<close>

theorem cpu_deinit_ends:
  assumes "list_all client_out (clients s)" and "down_reach s d"
  shows "(\<forall>e. down_step d e \<longrightarrow> down_left e < down_left d) \<and>
    (cd_at d = DReturned \<longrightarrow> list_all (\<lambda>w. w = WExit) (workers (cd_sys d)) \<and> length (workers (cd_sys d)) = length (workers s) \<and>
       cd_gonew d \<and> cd_goner d) \<and>
    (down_rest d \<longrightarrow> cd_at d = DReturned) \<and>
    (\<forall>n. \<forall>i < length (workers (cd_sys d)). worker_turn n i d \<noteq> Faults) \<and>
    (\<forall>i < length (clients (cd_sys d)). client_turn i d \<noteq> Faults)"
proof -
  have inv: "down_inv d" using down_reach_inv[OF assms(2)] .
  have out: "clients (cd_sys d) = clients s" "length (workers (cd_sys d)) = length (workers s)"
    using down_reach_clients[OF assms(2,1)] by auto
  have "list_all (\<lambda>w. w = WExit) (workers (cd_sys d)) \<and> cd_gonew d \<and> cd_goner d" if "cd_at d = DReturned"
    using inv that by (simp add: down_inv_def list_all_iff)
  moreover have "client_turn i d \<noteq> Faults" if "i < length (clients (cd_sys d))" for i
    using assms(1) that client_turn_out[of d i] by (simp add: out(1) list_all_length)
  ultimately show ?thesis
    using down_step_less[OF inv] down_rest_returned[OF inv] worker_turn_safe[OF inv] assms(1) out by auto
qed

text \<open>Turns: \<open>Inl None\<close> is the manager, \<open>Inl (Some i)\<close> worker \<open>i\<close>, whose nodes return 0, and \<open>Inr i\<close> client \<open>i\<close>.\<close>

fun on_move :: "('a \<Rightarrow> 'b option) \<Rightarrow> 'a advance \<Rightarrow> 'b option" where
  "on_move f (Moves d) = f d"
| "on_move f _ = None"

fun down_run :: "(nat option + nat) list \<Rightarrow> cpu_down \<Rightarrow> cpu_down option" where
  "down_run [] d = Some d"
| "down_run (Inl None # ts) d = Option.bind (DVP_KernelGraphManagerDeinit_CPU d) (down_run ts)"
| "down_run (Inl (Some i) # ts) d =
     (if i < length (workers (cd_sys d)) then on_move (down_run ts) (worker_turn 0 i d) else None)"
| "down_run (Inr i # ts) d =
     (if i < length (clients (cd_sys d)) then on_move (down_run ts) (client_turn i d) else None)"

lemma on_move_Some: "on_move f a = Some b \<longleftrightarrow> (\<exists>d. a = Moves d \<and> f d = Some b)"
  by (cases a) simp_all

lemma on_move_cong [fundef_cong]: "a = b \<Longrightarrow> (\<And>d. b = Moves d \<Longrightarrow> f d = g d) \<Longrightarrow> on_move f a = on_move g b"
  by (cases b) simp_all

lemma down_run_reach: "down_run ts d = Some e \<Longrightarrow> down_step\<^sup>*\<^sup>* d e"
proof (induction ts arbitrary: d)
  case (Cons t ts)
  have "\<exists>d'. down_step d d' \<and> down_run ts d' = Some e"
  proof (cases t)
    case (Inl i)
    then show ?thesis using Cons.prems
      by (cases i) (auto simp: on_move_Some split: bind_splits if_splits intro: down_step.worker down_step.deinit)
  next
    case (Inr i)
    then show ?thesis using Cons.prems by (auto simp: on_move_Some split: if_splits intro: down_step.client)
  qed
  then show ?case using Cons.IH by (blast intro: converse_rtranclp_into_rtranclp)
qed simp

definition down_item :: DVP_KGM_Thread_t where
  "down_item = \<lparr>kt_pSubNodes = 1, kt_startNode = 0, kt_numNodes = 2, kt_numNodesExecuted = 0\<rparr>"

text \<open>A client has returned unserved; one worker waits and one has just read an item.\<close>

definition down_sys :: cpu_sys where
  "down_sys = \<lparr>workq = [], retq = [], clients = [CDone down_item 0], workers = [WWait, WRun down_item]\<rparr>"

definition down_end :: cpu_down where
  "down_end = \<lparr>cd_sys = down_sys\<lparr>workers := [WExit, WExit]\<rparr>, cd_popw = True, cd_popr = True,
     cd_gonew = True, cd_goner = True, cd_at = DReturned\<rparr>"

lemma down_end_reach: "down_reach down_sys down_end"
proof (rule down_run_reach)
  show "down_run (map Inl [None, Some 0, Some 0, None, None, Some 1, Some 1, Some 1, Some 1, Some 1, None, None, None, None])
      (cpu_down_start down_sys) = Some down_end"
    by code_simp
qed

theorem cpu_deinit_ends_witness: "workers (cd_sys down_end) = [WExit, WExit] \<and> \<not> down_step down_end down_end"
proof -
  have "list_all client_out (clients down_sys)" by code_simp
  note fin = cpu_deinit_ends[OF this down_end_reach]
  have "cd_at down_end = DReturned" "length (workers down_sys) = 2" by (simp_all add: down_end_def down_sys_def)
  then have "list_all (\<lambda>w. w = WExit) (workers (cd_sys down_end))" "length (workers (cd_sys down_end)) = 2" using fin by auto
  then show ?thesis using fin by (auto simp: numeral_2_eq_2 length_Suc_conv)
qed

text \<open>
  C27. A client that still waits for a result when the queue of results is popped never leaves \<open>DVP_KernelGraphManager\<close> again. As long
  as the queue exists its reads fail and it tries again; once the manager has destroyed the queue and returned, the very next step of
  that client is a use after free. There is no interleaving in which it returns or waits.
\<close>

theorem deinit_strands_clients:
  assumes "down_reach s d" and "down_step\<^sup>*\<^sup>* d e" and "cd_popr d" and "i < length (clients (cd_sys d))"
    and "client_waits (clients (cd_sys d) ! i) \<noteq> []"
  shows "client_waits (clients (cd_sys e) ! i) = client_waits (clients (cd_sys d) ! i) \<and>
    (if cd_at e = DReturned then client_turn i e = Faults
     else \<exists>f. client_turn i e = Moves f \<and> client_waits (clients (cd_sys f) ! i) = client_waits (clients (cd_sys d) ! i))"
proof -
  have retry: "client_waits c = client_waits (clients (cd_sys e) ! i)"
    if "popped_client_step (cd_popw e) (cd_popr e) (clients (cd_sys e) ! i) wq rq = Some (c, wq', rq')" "cd_popr e"
      "client_waits (clients (cd_sys e) ! i) \<noteq> []" for c wq rq wq' rq' e
    using that by (cases "clients (cd_sys e) ! i") (auto simp: popped_client_step_def)
  have kept: "cd_popr e \<and> i < length (clients (cd_sys e)) \<and> client_waits (clients (cd_sys e) ! i) = client_waits (clients (cd_sys d) ! i)"
    using assms(2)
  proof (induction rule: rtranclp_induct)
    case (step e f)
    note here = step.IH assms(5)
    show ?case using step.hyps(2)
    proof (cases rule: down_step.cases)
      case (client k)
      show ?thesis using client(2)
      proof (cases rule: client_turn_Moves)
        case (1 c wq rq)
        show ?thesis
        proof (cases "k = i")
          case True
          then have "client_waits c = client_waits (clients (cd_sys e) ! i)" using 1(1) here by (intro retry) simp_all
          then show ?thesis using 1(2) here True by simp
        qed (use 1(2) here in simp)
      qed
    next
      case (worker k n)
      then show ?thesis using here by (auto elim: worker_turn_Moves)
    qed (use here in \<open>auto simp: DVP_KernelGraphManagerDeinit_CPU_def split: deinit.splits if_splits\<close>)
  qed (use assms(3,4) in simp)
  have "down_inv e" using assms(1,2) by (intro down_reach_inv) (rule rtranclp_trans)
  then have "cd_goner e \<longleftrightarrow> cd_at e = DReturned" by (simp add: down_inv_def)
  then show ?thesis using kept assms(5)
    by (cases "clients (cd_sys e) ! i") (auto simp: client_turn_def popped_client_step_def client_on_workq_def client_on_retq_def Let_def)
qed

text \<open>Such a state is reached from one client and one worker: the worker ends without looking at the item, and the queue that the client
  reads next is gone.\<close>

definition stranded :: cpu_down where
  "stranded = \<lparr>cd_sys = \<lparr>workq = [down_item], retq = [], clients = [CWait down_item], workers = [WExit]\<rparr>,
     cd_popw = True, cd_popr = True, cd_gonew = True, cd_goner = True, cd_at = DReturned\<rparr>"

theorem deinit_strands_clients_witness:
  "down_reach (cpu_init [down_item] 1) stranded \<and> client_turn 0 stranded = Faults"
proof -
  have "down_run [Inr 0, Inr 0, Inl None, Inl (Some 0), Inl (Some 0), Inl None, Inl None, Inl None, Inl None, Inl None]
      (cpu_down_start (cpu_init [down_item] 1)) = Some stranded"
    by code_simp
  then have r: "down_reach (cpu_init [down_item] 1) stranded" by (rule down_run_reach)
  moreover have "cd_popr stranded" "0 < length (clients (cd_sys stranded))" "client_waits (clients (cd_sys stranded) ! 0) \<noteq> []"
    "cd_at stranded = DReturned"
    by (simp_all add: stranded_def)
  ultimately show ?thesis using deinit_strands_clients[OF r rtranclp.rtrancl_refl, of 0] by simp
qed

end
