(* ===== verification/Sosal_Allocator.thy ===== *)
theory Sosal_Allocator
  imports Dvp_Image
begin

unbundle bit_operations_syntax

text \<open>
  The memory allocator \<open>source/sosal/allocator.c\<close> and the shared memory of \<open>source/sosal/shared.c\<close>, in the Linux configuration of
  \<open>concerto/target.mak\<close> for a PANDA board: \<open>SOSAL_USE_BO\<close> and \<open>SOSAL_USE_SHARED_T\<close> are defined, \<open>SOSAL_USE_TILER\<close>, \<open>SOSAL_USE_ION\<close>
  and \<open>SOSAL_USE_GRALLOC\<close> are not, and shared memory is that of System V. Memory is plain virtual memory, buffer objects of the
  kernel, or shared segments; what the C library, the kernel and \<open>libdrm\<close> answer is a parameter. The callers pass
  arrays of their own, so that none of the arrays is a null pointer.
\<close>

section \<open>What a process owns\<close>

text \<open>The private handle of a buffer object, and the structure of a shared segment.\<close>

record alloc_omap_bo_t =
  bot_bo :: u32
  bot_dmabuf_fd :: u32

record shared_t =
  sh_un :: u32
  sh_size :: u32
  sh_shmid :: s32
  sh_data :: u32

text \<open>
  Blocks of the heap by their address, with their size; the structures above by their address; live buffer objects with the address they
  are mapped to, 0 when they are not; open file descriptors of buffer objects; and the addresses of attached segments.
\<close>

record process_t =
  blocks :: "u32 \<Rightarrow> nat option"
  bots :: "u32 \<Rightarrow> alloc_omap_bo_t option"
  shms :: "u32 \<Rightarrow> shared_t option"
  bos :: "u32 \<Rightarrow> u32 option"
  open_fds :: "u32 set"
  segments :: "u32 set"

text \<open>
  The platform. \<open>pl_memalign\<close> is \<open>posix_memalign\<close>, \<open>None\<close> for an error; \<open>pl_calloc_bot\<close> and \<open>pl_calloc_shm\<close> are the heap for the two
  structures; the other operations answer 0 or a negative number for an error, as the originals do. \<open>pl_rand n\<close> is the \<open>n\<close>-th of a series of
  random numbers. The bits of the flags are those of \<open>omap_drm.h\<close>.
\<close>

record platform_t =
  pl_memalign :: "process_t \<Rightarrow> u32 \<Rightarrow> u32 option"
  pl_calloc_bot :: "process_t \<Rightarrow> u32 option"
  pl_calloc_shm :: "process_t \<Rightarrow> u32 option"
  pl_bo_new :: "process_t \<Rightarrow> u32 \<Rightarrow> u32 \<Rightarrow> u32"
  pl_bo_new_tiled :: "process_t \<Rightarrow> u32 \<Rightarrow> u32 \<Rightarrow> u32 \<Rightarrow> u32"
  pl_bo_map :: "process_t \<Rightarrow> u32 \<Rightarrow> u32"
  pl_bo_dmabuf :: "process_t \<Rightarrow> u32 \<Rightarrow> u32"
  pl_dup :: "process_t \<Rightarrow> u32 \<Rightarrow> u32"
  pl_shmget :: "process_t \<Rightarrow> u32 \<Rightarrow> u32 \<Rightarrow> s32"
  pl_shmat :: "process_t \<Rightarrow> s32 \<Rightarrow> u32"
  pl_rand :: "process_t \<Rightarrow> nat \<Rightarrow> u32"
  BO_SCANOUT :: u32
  BO_CACHED :: u32
  BO_WC :: u32
  BO_TILED_8 :: u32
  BO_TILED_16 :: u32
  BO_TILED_32 :: u32

text \<open>Freeing what is not there is a fault. Closing is not.\<close>

definition block_free :: "u32 \<Rightarrow> process_t \<Rightarrow> process_t option" where
  "block_free ptr s =
     (if ptr = 0 then Some s else if blocks s ptr = None then None else Some (s\<lparr>blocks := (blocks s)(ptr := None)\<rparr>))"

definition bot_free :: "u32 \<Rightarrow> process_t \<Rightarrow> process_t option" where
  "bot_free a s = (if bots s a = None then None else Some (s\<lparr>bots := (bots s)(a := None)\<rparr>))"

definition shm_free :: "u32 \<Rightarrow> process_t \<Rightarrow> process_t option" where
  "shm_free a s = (if shms s a = None then None else Some (s\<lparr>shms := (shms s)(a := None)\<rparr>))"

definition omap_bo_del :: "u32 \<Rightarrow> process_t \<Rightarrow> process_t option" where
  "omap_bo_del b s = (if bos s b = None then None else Some (s\<lparr>bos := (bos s)(b := None)\<rparr>))"

definition close_fd :: "u32 \<Rightarrow> process_t \<Rightarrow> process_t" where
  "close_fd f s = s\<lparr>open_fds := open_fds s - {f}\<rparr>"

section \<open>The allocator\<close>

datatype allocator_memory_type_e =
  AM_VIRTUAL | AM_TILED_1D_UNCACHED | AM_TILED_1D_CACHED | AM_TILED_2D_UNCACHED | AM_TILED_2D_CACHED
  | AM_GFX_2D_UNCACHED | AM_VIRTUAL_SHARED

text \<open>The memory that buffer objects serve, and the part of it that is tiled.\<close>

definition bo_memory :: "allocator_memory_type_e \<Rightarrow> bool" where
  "bo_memory t \<longleftrightarrow> t \<in> {AM_TILED_1D_CACHED, AM_TILED_1D_UNCACHED, AM_TILED_2D_UNCACHED, AM_GFX_2D_UNCACHED}"

definition tiled_2d :: "allocator_memory_type_e \<Rightarrow> bool" where
  "tiled_2d t \<longleftrightarrow> t \<in> {AM_TILED_2D_UNCACHED, AM_GFX_2D_UNCACHED}"

record allocator_t =
  drm_fd :: s32
  drm_dev :: u32

text \<open>
  The device is only closed together with the structure made for it: a device that was opened in vain stays open.
  The second component is the descriptor that is closed.
\<close>

definition allocator_deinit :: "allocator_t option \<Rightarrow> allocator_t option \<times> s32 option" where
  "allocator_deinit alloc =
     (None, case alloc of None \<Rightarrow> None | Some a \<Rightarrow> if drm_dev a \<noteq> 0 then Some (drm_fd a) else None)"

definition allocator_init :: "bool \<Rightarrow> s32 \<Rightarrow> u32 \<Rightarrow> allocator_t option" where
  "allocator_init ok fd dev =
     (if \<not> ok then None
      else
        let a = \<lparr>drm_fd = fd, drm_dev = (if fd <s 0 then 0 else dev)\<rparr>
        in if fd <s 0 \<or> dev = 0 then fst (allocator_deinit (Some a)) else Some a)"

definition PAGE_BYTES :: u32 where
  "PAGE_BYTES = 4096"

definition allocator_page_align_size :: "u32 \<Rightarrow> u32" where
  "allocator_page_align_size sz =
     (let rem = sz AND (PAGE_BYTES - 1) in if 0 < rem then sz + (PAGE_BYTES - rem) else sz)"

text \<open>No cache is maintained in this configuration.\<close>

definition allocator_flush :: "bool \<Rightarrow> s32 \<Rightarrow> s32 \<Rightarrow> bool" where
  "allocator_flush alloc nptrs ndims \<longleftrightarrow> alloc \<and> 0 <s nptrs \<and> 0 <s ndims"

definition allocator_invalidate :: "bool \<Rightarrow> s32 \<Rightarrow> s32 \<Rightarrow> bool" where
  "allocator_invalidate alloc nptrs ndims \<longleftrightarrow> alloc \<and> 0 <s nptrs \<and> 0 <s ndims"

section \<open>Dimensions\<close>

definition dim_get :: "DVP_Dim_t \<Rightarrow> nat \<Rightarrow> u32 option" where
  "dim_get d n = nth_chk [bpp d, dim_width d, dim_height d] n"

definition dim_put :: "DVP_Dim_t \<Rightarrow> nat \<Rightarrow> u32 \<Rightarrow> DVP_Dim_t option" where
  "dim_put d n v = (if n = 0 then Some (d\<lparr>bpp := v\<rparr>) else if n = 1 then Some (d\<lparr>dim_width := v\<rparr>)
     else if n = 2 then Some (d\<lparr>dim_height := v\<rparr>) else None)"

text \<open>The product of the dimensions, and its partial products as the strides.\<close>

definition dims_size :: "DVP_Dim_t \<Rightarrow> s32 \<Rightarrow> u32 option" where
  "dims_size d ndims = for_range 0 (unat ndims) (\<lambda>n sz. map_option ((*) sz) (dim_get d (unat n))) 1"

definition dims_strides :: "DVP_Dim_t \<Rightarrow> s32 \<Rightarrow> DVP_Dim_t \<Rightarrow> (u32 \<times> DVP_Dim_t) option" where
  "dims_strides d ndims str =
     for_range 0 (unat ndims) (\<lambda>n (sz, str). do {
        v \<leftarrow> dim_get d (unat n);
        str' \<leftarrow> dim_put str (unat n) (sz * v);
        Some (sz * v, str') }) (1, str)"

section \<open>Shared segments\<close>

definition shared_free :: "u32 \<Rightarrow> process_t \<Rightarrow> process_t option" where
  "shared_free shm s =
     (if shm = 0 then Some s
      else do {
        sh \<leftarrow> shms s shm;
        shm_free shm (s\<lparr>segments := segments s - {sh_data sh}\<rparr>) })"

text \<open>A segment that cannot be had leaves a structure without data, which is returned all the same.\<close>

definition shared_alloc :: "platform_t \<Rightarrow> u32 \<Rightarrow> u32 \<Rightarrow> process_t \<Rightarrow> (u32 \<times> process_t) option" where
  "shared_alloc pl un sz s =
     (case pl_calloc_shm pl s of
        None \<Rightarrow> Some (0, s)
      | Some shm \<Rightarrow>
          let shmid = pl_shmget pl s un sz;
              sh = \<lparr>sh_un = un, sh_size = sz, sh_shmid = shmid, sh_data = 0\<rparr>;
              s1 = s\<lparr>shms := (shms s)(shm \<mapsto> sh)\<rparr>
          in if -1 <s shmid then
               let data = pl_shmat pl s shmid;
                   s2 = s1\<lparr>shms := (shms s1)(shm \<mapsto> sh\<lparr>sh_data := data\<rparr>)\<rparr>
               in if data = -1 then map_option (Pair 0) (shared_free shm s2)
                  else Some (shm, s2\<lparr>segments := insert data (segments s2)\<rparr>)
             else Some (shm, s1))"

definition allocator_rand :: "platform_t \<Rightarrow> process_t \<Rightarrow> u32" where
  "allocator_rand pl s =
     foldl (\<lambda>un n. un OR push_bit (n * 8) (pl_rand pl s n AND 0xFF)) 0 [0..<4]"

section \<open>Allocation\<close>

text \<open>The arrays of the caller and what the process owns.\<close>

record alloc_st =
  a_ptrs :: "u32 list"
  a_hdls :: "u32 list"
  a_strides :: "DVP_Dim_t list"
  a_proc :: process_t

text \<open>Gives back the blocks of the planes before \<open>p\<close>, from the last to the first.\<close>

fun free_back :: "nat \<Rightarrow> alloc_st \<Rightarrow> alloc_st option" where
  "free_back 0 a = Some a"
| "free_back (Suc p) a = do {
     ptr \<leftarrow> nth_chk (a_ptrs a) p;
     s \<leftarrow> block_free ptr (a_proc a);
     ptrs \<leftarrow> upd_chk (a_ptrs a) p 0;
     free_back p (a\<lparr>a_ptrs := ptrs, a_proc := s\<rparr>) }"

text \<open>The loops over the planes: the body goes on, or ends the loop with a result.\<close>

datatype 'a turn = Stop bool 'a | Next 'a

fun plane_loop :: "(nat \<Rightarrow> 'a \<Rightarrow> 'a turn option) \<Rightarrow> nat \<Rightarrow> nat \<Rightarrow> 'a \<Rightarrow> (bool \<times> 'a) option" where
  "plane_loop f p 0 a = Some (True, a)"
| "plane_loop f p (Suc k) a =
     (case f p a of
        None \<Rightarrow> None
      | Some (Stop b a') \<Rightarrow> Some (b, a')
      | Some (Next a') \<Rightarrow> plane_loop f (Suc p) k a')"

text \<open>
  Plain virtual memory. An error of \<open>posix_memalign\<close> returns at once; a null block gives back the blocks before it.
\<close>

definition virtual_plane :: "platform_t \<Rightarrow> s32 \<Rightarrow> DVP_Dim_t list \<Rightarrow> nat \<Rightarrow> alloc_st \<Rightarrow> alloc_st turn option" where
  "virtual_plane pl ndims dims p a = do {
     d \<leftarrow> nth_chk dims p;
     str \<leftarrow> nth_chk (a_strides a) p;
     (sz, str') \<leftarrow> dims_strides d ndims str;
     strs \<leftarrow> upd_chk (a_strides a) p str';
     let rsize = allocator_page_align_size sz;
     (case pl_memalign pl (a_proc a) rsize of
        None \<Rightarrow> do { ptrs \<leftarrow> upd_chk (a_ptrs a) p 0; Some (Stop False (a\<lparr>a_strides := strs, a_ptrs := ptrs\<rparr>)) }
      | Some ptr \<Rightarrow> do {
          ptrs \<leftarrow> upd_chk (a_ptrs a) p ptr;
          let a1 = a\<lparr>a_strides := strs, a_ptrs := ptrs\<rparr>;
          (if ptr = 0 then map_option (Stop False) (free_back p a1)
           else Some (Next (a1\<lparr>a_proc := (a_proc a)\<lparr>blocks := (blocks (a_proc a))(ptr \<mapsto> unat rsize)\<rparr>\<rparr>))) }) }"

definition align_page :: "u32 \<Rightarrow> u32" where
  "align_page x = (x + (push_bit 12 1 - 1)) AND NOT (push_bit 12 1 - 1)"

definition tiled_flag :: "platform_t \<Rightarrow> u32 \<Rightarrow> u32" where
  "tiled_flag pl b = (if b = 1 then BO_TILED_8 pl else if b = 2 then BO_TILED_16 pl
     else if b \<in> {3, 4} then BO_TILED_32 pl else 0)"

text \<open>
  Buffer objects; the flags go from plane to plane, each adding its own. Without memory for a handle the loop ends and the
  result is still true; the other failures end it with false, and nothing that was allocated is given back, except for the object
  that could not be mapped.
\<close>

definition bo_plane ::
  "platform_t \<Rightarrow> bool \<Rightarrow> s32 \<Rightarrow> DVP_Dim_t list \<Rightarrow> nat \<Rightarrow> alloc_st \<times> u32 \<Rightarrow> (alloc_st \<times> u32) turn option" where
  "bo_plane pl tiled ndims dims p = (\<lambda>(a, flags).
     case pl_calloc_bot pl (a_proc a) of
       None \<Rightarrow> Some (Stop True (a, flags))
     | Some bt \<Rightarrow> do {
         d \<leftarrow> nth_chk dims p;
         str \<leftarrow> nth_chk (a_strides a) p;
         sz \<leftarrow> (if tiled then Some 1 else dims_size d ndims);
         let flags' = (if tiled then flags OR tiled_flag pl (bpp d) else flags);
         let str1 = str\<lparr>bpp := (if tiled \<and> bpp d = 3 then 4 else bpp d)\<rparr>;
         strs1 \<leftarrow> upd_chk (a_strides a) p str1;
         let s1 = (a_proc a)\<lparr>bots := (bots (a_proc a))(bt \<mapsto> \<lparr>bot_bo = 0, bot_dmabuf_fd = 0\<rparr>)\<rparr>;
         let b = (if tiled then pl_bo_new_tiled pl s1 (dim_width d) (dim_height d) flags' else pl_bo_new pl s1 sz flags');
         (if b = 0 then Some (Stop False (a\<lparr>a_strides := strs1, a_proc := s1\<rparr>, flags'))
          else do {
            let s2 = s1\<lparr>bos := (bos s1)(b \<mapsto> 0), bots := (bots s1)(bt \<mapsto> \<lparr>bot_bo = b, bot_dmabuf_fd = 0\<rparr>)\<rparr>;
            let ptr = pl_bo_map pl s2 b;
            ptrs \<leftarrow> upd_chk (a_ptrs a) p ptr;
            (if ptr = 0 then do {
               s3 \<leftarrow> omap_bo_del b s2;
               Some (Stop False (a\<lparr>a_strides := strs1, a_ptrs := ptrs, a_proc := s3\<rparr>, flags')) }
             else do {
               let s3 = s2\<lparr>bos := (bos s2)(b \<mapsto> ptr)\<rparr>;
               let line = dim_width d * bpp d;
               let line' = (if tiled then align_page line else line);
               let fd = pl_bo_dmabuf pl s3 b;
               let s4 = s3\<lparr>bots := (bots s3)(bt \<mapsto> \<lparr>bot_bo = b, bot_dmabuf_fd = fd\<rparr>), open_fds := insert fd (open_fds s3)\<rparr>;
               hdls \<leftarrow> upd_chk (a_hdls a) p bt;
               Some (Next (\<lparr>a_ptrs = ptrs, a_hdls = hdls,
                  a_strides = strs1[p := str1\<lparr>dim_width := line', dim_height := line' * dim_height d\<rparr>], a_proc = s4\<rparr>, flags')) }) }) })"

definition shared_plane :: "platform_t \<Rightarrow> s32 \<Rightarrow> DVP_Dim_t list \<Rightarrow> nat \<Rightarrow> alloc_st \<Rightarrow> alloc_st turn option" where
  "shared_plane pl ndims dims p a = do {
     d \<leftarrow> nth_chk dims p;
     str \<leftarrow> nth_chk (a_strides a) p;
     (sz, str') \<leftarrow> dims_strides d ndims str;
     strs \<leftarrow> upd_chk (a_strides a) p str';
     (shm, s) \<leftarrow> shared_alloc pl (allocator_rand pl (a_proc a)) sz (a_proc a);
     let a1 = a\<lparr>a_strides := strs, a_proc := s\<rparr>;
     (if shm = 0 then Some (Stop False a1)
      else do {
        sh \<leftarrow> shms s shm;
        hdls \<leftarrow> upd_chk (a_hdls a) p shm;
        ptrs \<leftarrow> upd_chk (a_ptrs a) p (sh_data sh);
        Some (Next (a1\<lparr>a_hdls := hdls, a_ptrs := ptrs\<rparr>)) }) }"

definition allocator_calloc ::
  "platform_t \<Rightarrow> bool \<Rightarrow> allocator_memory_type_e \<Rightarrow> s32 \<Rightarrow> s32 \<Rightarrow> DVP_Dim_t list \<Rightarrow> alloc_st \<Rightarrow> (bool \<times> alloc_st) option" where
  "allocator_calloc pl alloc mtype nptrs ndims dims a =
     (if \<not> alloc \<or> nptrs \<le>s 0 \<or> ndims \<le>s 0 then Some (False, a)
      else if bo_memory mtype then
        map_option (apsnd fst) (plane_loop (bo_plane pl (tiled_2d mtype) ndims dims) 0 (unat nptrs)
          (a, BO_SCANOUT pl OR (if mtype = AM_TILED_1D_CACHED then BO_CACHED pl else BO_WC pl)))
      else if mtype = AM_VIRTUAL then plane_loop (virtual_plane pl ndims dims) 0 (unat nptrs) a
      else if mtype = AM_VIRTUAL_SHARED then plane_loop (shared_plane pl ndims dims) 0 (unat nptrs) a
      else Some (False, a))"

section \<open>Freeing, sharing and importing\<close>

text \<open>One plane of each kind of memory.\<close>

definition free_bo_plane :: "u32 \<Rightarrow> u32 list \<times> u32 list \<times> process_t \<Rightarrow> (u32 list \<times> u32 list \<times> process_t) option" where
  "free_bo_plane p = (\<lambda>(ptrs, hdls, s). do {
     h \<leftarrow> nth_chk hdls (unat p);
     (if h = 0 then Some (ptrs, hdls, s)
      else do {
        bt \<leftarrow> bots s h;
        s1 \<leftarrow> omap_bo_del (bot_bo bt) (close_fd (bot_dmabuf_fd bt) s);
        s2 \<leftarrow> bot_free h s1;
        ptrs' \<leftarrow> upd_chk ptrs (unat p) 0;
        Some (ptrs', hdls[unat p := 0], s2) }) })"

definition free_virtual_plane :: "u32 \<Rightarrow> u32 list \<times> u32 list \<times> process_t \<Rightarrow> (u32 list \<times> u32 list \<times> process_t) option" where
  "free_virtual_plane p = (\<lambda>(ptrs, hdls, s). do {
     ptr \<leftarrow> nth_chk ptrs (unat p);
     (if ptr = 0 then Some (ptrs, hdls, s)
      else do { s1 \<leftarrow> block_free ptr s; Some (ptrs[unat p := 0], hdls, s1) }) })"

definition free_shared_plane :: "u32 \<Rightarrow> u32 list \<times> u32 list \<times> process_t \<Rightarrow> (u32 list \<times> u32 list \<times> process_t) option" where
  "free_shared_plane p = (\<lambda>(ptrs, hdls, s). do {
     h \<leftarrow> nth_chk hdls (unat p);
     s1 \<leftarrow> shared_free h s;
     ptrs' \<leftarrow> upd_chk ptrs (unat p) 0;
     Some (ptrs', hdls[unat p := 0], s1) })"

definition allocator_free ::
  "bool \<Rightarrow> allocator_memory_type_e \<Rightarrow> s32 \<Rightarrow> u32 list \<Rightarrow> u32 list \<Rightarrow> process_t \<Rightarrow> (bool \<times> u32 list \<times> u32 list \<times> process_t) option" where
  "allocator_free alloc mtype nptrs ptrs hdls s =
     (if \<not> alloc \<or> nptrs \<le>s 0 then Some (False, ptrs, hdls, s)
      else if mtype = AM_TILED_2D_CACHED then Some (False, ptrs, hdls, s)
      else map_option (Pair True)
        (for_range 0 (unat nptrs)
           (if bo_memory mtype then free_bo_plane else if mtype = AM_VIRTUAL then free_virtual_plane else free_shared_plane)
           (ptrs, hdls, s)))"

text \<open>Sharing hands out a duplicate of the descriptor of a buffer object, or the identifier of a segment.\<close>

definition allocator_share ::
  "platform_t \<Rightarrow> bool \<Rightarrow> allocator_memory_type_e \<Rightarrow> s32 \<Rightarrow> u32 list \<Rightarrow> u32 list \<Rightarrow> process_t \<Rightarrow> (bool \<times> u32 list) option" where
  "allocator_share pl alloc mtype nptrs hdls fds s =
     (if \<not> alloc \<or> nptrs \<le>s 0 then Some (False, fds)
      else if bo_memory mtype \<or> mtype = AM_TILED_2D_CACHED then
        map_option (Pair True) (for_range 0 (unat nptrs) (\<lambda>p fds. do {
          h \<leftarrow> nth_chk hdls (unat p);
          bt \<leftarrow> bots s h;
          upd_chk fds (unat p) (pl_dup pl s (bot_dmabuf_fd bt)) }) fds)
      else if mtype = AM_VIRTUAL_SHARED then
        map_option (Pair True) (for_range 0 (unat nptrs) (\<lambda>p fds. do {
          h \<leftarrow> nth_chk hdls (unat p);
          sh \<leftarrow> shms s h;
          upd_chk fds (unat p) (sh_un sh) }) fds)
      else Some (False, fds))"

text \<open>An import ends at the first segment that cannot be had, and returns true all the same.\<close>

definition import_plane :: "platform_t \<Rightarrow> s32 \<Rightarrow> DVP_Dim_t list \<Rightarrow> u32 list \<Rightarrow> nat \<Rightarrow> alloc_st \<Rightarrow> alloc_st turn option" where
  "import_plane pl ndims dims fds p a = do {
     d \<leftarrow> nth_chk dims p;
     str \<leftarrow> nth_chk (a_strides a) p;
     (sz, str') \<leftarrow> dims_strides d ndims str;
     strs \<leftarrow> upd_chk (a_strides a) p str';
     un \<leftarrow> nth_chk fds p;
     (shm, s) \<leftarrow> shared_alloc pl un sz (a_proc a);
     let a1 = a\<lparr>a_strides := strs, a_proc := s\<rparr>;
     (if shm = 0 then Some (Stop True a1)
      else do {
        sh \<leftarrow> shms s shm;
        hdls \<leftarrow> upd_chk (a_hdls a) p shm;
        ptrs \<leftarrow> upd_chk (a_ptrs a) p (sh_data sh);
        Some (Next (a1\<lparr>a_hdls := hdls, a_ptrs := ptrs\<rparr>)) }) }"

definition allocator_import ::
  "platform_t \<Rightarrow> bool \<Rightarrow> allocator_memory_type_e \<Rightarrow> s32 \<Rightarrow> s32 \<Rightarrow> DVP_Dim_t list \<Rightarrow> u32 list \<Rightarrow> alloc_st \<Rightarrow> (bool \<times> alloc_st) option" where
  "allocator_import pl alloc mtype nptrs ndims dims fds a =
     (if \<not> alloc \<or> nptrs \<le>s 0 \<or> ndims \<le>s 0 then Some (False, a)
      else if mtype = AM_VIRTUAL_SHARED then
        plane_loop (import_plane pl ndims dims fds) 0 (unat nptrs) a
      else Some (False, a))"

section \<open>Memory descriptors\<close>

record allocator_memory_t =
  am_allocated :: bool
  am_memtype :: allocator_memory_type_e
  am_ptrs :: "u32 list"
  am_nptrs :: s32
  am_ndims :: s32
  am_dims :: "DVP_Dim_t list"
  am_strides :: "DVP_Dim_t list"
  am_hdls :: "u32 list"
  am_fds :: "u32 list"

definition am_filled :: "bool \<Rightarrow> alloc_st \<Rightarrow> allocator_memory_t \<Rightarrow> allocator_memory_t" where
  "am_filled ret a m = m\<lparr>am_allocated := ret, am_ptrs := a_ptrs a, am_hdls := a_hdls a, am_strides := a_strides a\<rparr>"

definition allocator_memory_calloc ::
  "platform_t \<Rightarrow> bool \<Rightarrow> allocator_memory_t option \<Rightarrow> process_t \<Rightarrow> (bool \<times> allocator_memory_t option \<times> process_t) option" where
  "allocator_memory_calloc pl alloc memory s =
     (case memory of
        Some m \<Rightarrow>
          if alloc \<and> \<not> am_allocated m then do {
            (ret, a) \<leftarrow> allocator_calloc pl alloc (am_memtype m) (am_nptrs m) (am_ndims m) (am_dims m)
              \<lparr>a_ptrs = am_ptrs m, a_hdls = am_hdls m, a_strides = am_strides m, a_proc = s\<rparr>;
            Some (ret, Some (am_filled ret a m), a_proc a) }
          else Some (False, memory, s)
      | None \<Rightarrow> Some (False, None, s))"

definition allocator_memory_free ::
  "bool \<Rightarrow> allocator_memory_t option \<Rightarrow> process_t \<Rightarrow> (bool \<times> allocator_memory_t option \<times> process_t) option" where
  "allocator_memory_free alloc memory s =
     (case memory of
        Some m \<Rightarrow>
          if alloc \<and> am_allocated m then do {
            (ret, ptrs, hdls, s1) \<leftarrow> allocator_free alloc (am_memtype m) (am_nptrs m) (am_ptrs m) (am_hdls m) s;
            let m1 = m\<lparr>am_ptrs := ptrs, am_hdls := hdls\<rparr>;
            (if ret then do {
               s2 \<leftarrow> (if am_memtype m \<in> {AM_TILED_1D_CACHED, AM_TILED_1D_UNCACHED}
                 then for_range 0 (unat (am_nptrs m)) (\<lambda>f s. map_option (\<lambda>d. close_fd d s) (nth_chk (am_fds m) (unat f))) s1
                 else Some s1);
               Some (True, Some (m1\<lparr>am_allocated := False\<rparr>), s2) }
             else Some (False, Some m1, s1)) }
          else Some (False, memory, s)
      | None \<Rightarrow> Some (False, None, s))"

definition allocator_memory_share ::
  "platform_t \<Rightarrow> bool \<Rightarrow> allocator_memory_t option \<Rightarrow> process_t \<Rightarrow> (bool \<times> allocator_memory_t option) option" where
  "allocator_memory_share pl alloc memory s =
     (case memory of
        Some m \<Rightarrow>
          if alloc \<and> am_allocated m then do {
            (ret, fds) \<leftarrow> allocator_share pl alloc (am_memtype m) (am_nptrs m) (am_hdls m) (am_fds m) s;
            Some (ret, Some (m\<lparr>am_fds := fds\<rparr>)) }
          else Some (False, memory)
      | None \<Rightarrow> Some (False, None))"

definition allocator_memory_import ::
  "platform_t \<Rightarrow> bool \<Rightarrow> allocator_memory_t option \<Rightarrow> process_t \<Rightarrow> (bool \<times> allocator_memory_t option \<times> process_t) option" where
  "allocator_memory_import pl alloc memory s =
     (case memory of
        Some m \<Rightarrow>
          if alloc \<and> \<not> am_allocated m then do {
            (ret, a) \<leftarrow> allocator_import pl alloc (am_memtype m) (am_nptrs m) (am_ndims m) (am_dims m) (am_fds m)
              \<lparr>a_ptrs = am_ptrs m, a_hdls = am_hdls m, a_strides = am_strides m, a_proc = s\<rparr>;
            Some (ret, Some (am_filled ret a m), a_proc a) }
          else Some (False, memory, s)
      | None \<Rightarrow> Some (False, None, s))"

end
