(* ===== verification/Dvp_Mem.thy ===== *)
theory Dvp_Mem
  imports Sosal_Allocator Dvp_Rpc Dvp_KernelTypes
begin

text \<open>
  The memory of images, buffers and nodes: \<open>source/dvp/dvp_kgraph/dvp_mem_int.c\<close>, which allocates it and associates it with the
  remote cores, and the operations of \<open>dvp_mem.c\<close> that use it. The configuration is that of \<open>Sosal_Allocator\<close> and \<open>Dvp_Rpc\<close>:
  \<open>DVP_USE_BO\<close> and \<open>DVP_USE_SHARED_T\<close> are defined, \<open>DVP_USE_TILER\<close>, \<open>DVP_USE_ION\<close>, \<open>DVP_USE_GRALLOC\<close> and \<open>DVP_USE_CAMERA_SERVICE\<close> are not.
  The mutex around the static dimensions makes the operations on images atomic.
\<close>

section \<open>The context\<close>

text \<open>
  What a handle leads to: \<open>dvp->rpc\<close>, whether there is an allocator in \<open>dvp->mem\<close>, and what the process owns. \<open>env_associate\<close> and \<open>env_dissociate\<close> are
  the outcomes of the allocations inside the two operations of the registry, with the address of a new range, \<open>env_calloc\<close> is the heap.
\<close>

record mem_sys =
  dvp_rpc :: "DVP_RPC_t option"
  dvp_mem :: bool
  dvp_proc :: process_t

record mem_env =
  env_pl :: platform_t
  env_associate :: "DVP_RPC_t option \<Rightarrow> (bool \<times> bool \<times> bool) \<times> nat"
  env_dissociate :: "DVP_RPC_t option \<Rightarrow> bool"
  env_calloc :: "process_t \<Rightarrow> u32 \<Rightarrow> u32 option"

text \<open>The second word of the object a handle points to, which is the descriptor for buffer objects and the size for segments.\<close>

definition handle_word :: "process_t \<Rightarrow> u32 \<Rightarrow> u32 option" where
  "handle_word s h = (case bots s h of Some b \<Rightarrow> Some (bot_dmabuf_fd b) | None \<Rightarrow> map_option sh_size (shms s h))"

definition associate :: "mem_env \<Rightarrow> u32 \<Rightarrow> u32 \<Rightarrow> u32 \<Rightarrow> u32 \<Rightarrow> mem_sys \<Rightarrow> (bool \<times> mem_sys) option" where
  "associate E ptr hdl nbytes mtype s = do {
     let (ok, fresh) = env_associate E (dvp_rpc s);
     (b, r) \<leftarrow> dvp_rpc_associate ok fresh (dvp_rpc s) (dvp_mem s) ptr hdl nbytes mtype;
     Some (b, s\<lparr>dvp_rpc := r\<rparr>) }"

definition dissociate :: "mem_env \<Rightarrow> u32 \<Rightarrow> u32 \<Rightarrow> u32 \<Rightarrow> u32 \<Rightarrow> mem_sys \<Rightarrow> (bool \<times> u32 \<times> mem_sys) option" where
  "dissociate E ptr hdl nbytes mtype s = do {
     (b, h, r) \<leftarrow> dvp_rpc_dissociate (env_dissociate E (dvp_rpc s)) (dvp_rpc s) (dvp_mem s) ptr hdl nbytes mtype;
     Some (b, h, s\<lparr>dvp_rpc := r\<rparr>) }"

section \<open>Memory types\<close>

abbreviation DVP_MTYPE_DEFAULT :: u32 where "DVP_MTYPE_DEFAULT \<equiv> DVP_MTYPE_MPUCACHED_1DTILED"
abbreviation DVP_MTYPE_KERNELGRAPH :: u32 where "DVP_MTYPE_KERNELGRAPH \<equiv> DVP_MTYPE_MPUNONCACHED_1DTILED"

definition mem_correlation :: "(allocator_memory_type_e \<times> u32) list" where
  "mem_correlation =
     [(AM_VIRTUAL, DVP_MTYPE_MPUCACHED_VIRTUAL), (AM_TILED_1D_CACHED, DVP_MTYPE_MPUCACHED_1DTILED),
      (AM_TILED_1D_UNCACHED, DVP_MTYPE_MPUNONCACHED_1DTILED), (AM_TILED_2D_UNCACHED, DVP_MTYPE_MPUNONCACHED_2DTILED),
      (AM_GFX_2D_UNCACHED, DVP_MTYPE_GRALLOC_2DTILED), (AM_VIRTUAL_SHARED, DVP_MTYPE_MPUCACHED_VIRTUAL_SHARED)]"

definition dvp_mem_type_xlate :: "u32 \<Rightarrow> allocator_memory_type_e" where
  "dvp_mem_type_xlate mtype =
     (case find (\<lambda>c. mtype = snd c) mem_correlation of Some c \<Rightarrow> fst c | None \<Rightarrow> AM_VIRTUAL)"

definition dvp_mem_type_cached :: "u32 \<Rightarrow> bool" where
  "dvp_mem_type_cached mtype =
     (if mtype = DVP_MTYPE_MPUCACHED_1DTILED then True
      else mtype \<notin> {DVP_MTYPE_MPUNONCACHED_1DTILED, DVP_MTYPE_MPUNONCACHED_2DTILED, DVP_MTYPE_DISPLAY_2DTILED, DVP_MTYPE_GRALLOC_2DTILED})"

section \<open>Allocating and freeing\<close>

definition zero_hdls :: "u32 list" where
  "zero_hdls = replicate DVP_MAX_PLANES 0"

definition zero_strides :: "DVP_Dim_t list" where
  "zero_strides = replicate DVP_MAX_PLANES (dim3 0 0 0)"

text \<open>The handles of the pointers, one by one. A handle that cannot be read is a fault.\<close>

definition plane_handles :: "s32 \<Rightarrow> u32 list \<Rightarrow> mem_sys \<Rightarrow> u32 list option" where
  "plane_handles nptrs ptrs s =
     for_range 0 (unat nptrs) (\<lambda>p hdls. do {
       ptr \<leftarrow> nth_chk ptrs (unat p);
       h \<leftarrow> dvp_rpc_get_handle (handle_word (dvp_proc s)) (dvp_rpc s) ptr;
       upd_chk hdls (unat p) h }) zero_hdls"

definition dvp_mem_flush :: "bool \<Rightarrow> u32 \<Rightarrow> s32 \<Rightarrow> s32 \<Rightarrow> u32 list \<Rightarrow> mem_sys \<Rightarrow> bool option" where
  "dvp_mem_flush handle mtype nptrs ndims ptrs s =
     (if handle \<and> 0 <s nptrs then map_option (\<lambda>_. allocator_flush (dvp_mem s) nptrs ndims) (plane_handles nptrs ptrs s)
      else Some True)"

definition dvp_mem_invalidate :: "bool \<Rightarrow> u32 \<Rightarrow> s32 \<Rightarrow> s32 \<Rightarrow> u32 list \<Rightarrow> mem_sys \<Rightarrow> bool option" where
  "dvp_mem_invalidate handle mtype nptrs ndims ptrs s =
     (if handle \<and> 0 <s nptrs then map_option (\<lambda>_. allocator_invalidate (dvp_mem s) nptrs ndims) (plane_handles nptrs ptrs s)
      else Some True)"

text \<open>Dissociates the pointers; the result has the handles they were associated with.\<close>

definition dissociate_planes ::
  "mem_env \<Rightarrow> u32 \<Rightarrow> s32 \<Rightarrow> s32 \<Rightarrow> DVP_Dim_t list \<Rightarrow> u32 list \<Rightarrow> mem_sys \<Rightarrow> (u32 list \<times> mem_sys) option" where
  "dissociate_planes E mtype nptrs ndims dims ptrs s =
     for_range 0 (unat nptrs) (\<lambda>p (hdls, s). do {
       d \<leftarrow> nth_chk dims (unat p);
       sz \<leftarrow> dims_size d ndims;
       ptr \<leftarrow> nth_chk ptrs (unat p);
       h \<leftarrow> nth_chk hdls (unat p);
       (_, h', s') \<leftarrow> dissociate E ptr h sz mtype s;
       Some (hdls[unat p := h'], s') }) (zero_hdls, s)"

definition release_planes :: "u32 \<Rightarrow> s32 \<Rightarrow> u32 list \<Rightarrow> u32 list \<Rightarrow> mem_sys \<Rightarrow> (bool \<times> u32 list \<times> u32 list \<times> mem_sys) option" where
  "release_planes mtype nptrs ptrs hdls s = do {
     (b, ptrs', hdls', pr) \<leftarrow> allocator_free (dvp_mem s) (dvp_mem_type_xlate mtype) nptrs ptrs hdls (dvp_proc s);
     Some (b, ptrs', hdls', s\<lparr>dvp_proc := pr\<rparr>) }"

definition dvp_mem_free ::
  "mem_env \<Rightarrow> bool \<Rightarrow> u32 \<Rightarrow> s32 \<Rightarrow> s32 \<Rightarrow> DVP_Dim_t list \<Rightarrow> u32 list \<Rightarrow> mem_sys \<Rightarrow> (bool \<times> u32 list \<times> mem_sys) option" where
  "dvp_mem_free E handle mtype nptrs ndims dims ptrs s =
     (if \<not> handle \<or> nptrs \<le>s 0 \<or> ndims \<le>s 0 then Some (False, ptrs, s)
      else do {
        (hdls, s1) \<leftarrow> dissociate_planes E mtype nptrs ndims dims ptrs s;
        (b, ptrs', _, s2) \<leftarrow> release_planes mtype nptrs ptrs hdls s1;
        Some (b, ptrs', s2) })"

text \<open>Associates the pointers; whether that succeeds makes no difference.\<close>

definition associate_planes ::
  "mem_env \<Rightarrow> u32 \<Rightarrow> s32 \<Rightarrow> s32 \<Rightarrow> u32 list \<Rightarrow> u32 list \<Rightarrow> DVP_Dim_t list \<Rightarrow> mem_sys \<Rightarrow> mem_sys option" where
  "associate_planes E mtype nptrs ndims ptrs hdls strides s =
     for_range 0 (unat nptrs) (\<lambda>p s. do {
       str \<leftarrow> nth_chk strides (unat p);
       sz \<leftarrow> dim_get str (unat (ndims - 1));
       ptr \<leftarrow> nth_chk ptrs (unat p);
       h \<leftarrow> nth_chk hdls (unat p);
       (_, s') \<leftarrow> associate E ptr h sz mtype s;
       Some s' }) s"

text \<open>The handle is dereferenced before anything is tested.\<close>

definition dvp_mem_calloc ::
  "mem_env \<Rightarrow> bool \<Rightarrow> u32 \<Rightarrow> s32 \<Rightarrow> s32 \<Rightarrow> DVP_Dim_t list \<Rightarrow> u32 list \<Rightarrow> DVP_Dim_t list \<Rightarrow> mem_sys \<Rightarrow>
     (bool \<times> u32 list \<times> DVP_Dim_t list \<times> mem_sys) option" where
  "dvp_mem_calloc E handle mtype nptrs ndims dims ptrs strides s =
     (if \<not> handle then None
      else if nptrs \<le>s 0 \<or> ndims \<le>s 0 then Some (False, ptrs, strides, s)
      else do {
        (ret, a) \<leftarrow> allocator_calloc (env_pl E) (dvp_mem s) (dvp_mem_type_xlate mtype) nptrs ndims dims
          \<lparr>a_ptrs = ptrs, a_hdls = zero_hdls, a_strides = strides, a_proc = dvp_proc s\<rparr>;
        let s1 = s\<lparr>dvp_proc := a_proc a\<rparr>;
        s2 \<leftarrow> (if ret then associate_planes E mtype nptrs ndims (a_ptrs a) (a_hdls a) (a_strides a) s1 else Some s1);
        Some (ret, a_ptrs a, a_strides a, s2) })"

definition dvp_mem_share ::
  "mem_env \<Rightarrow> bool \<Rightarrow> u32 \<Rightarrow> s32 \<Rightarrow> u32 list \<Rightarrow> u32 list \<Rightarrow> mem_sys \<Rightarrow> (bool \<times> u32 list) option" where
  "dvp_mem_share E handle mtype nptrs ptrs fds s =
     (if handle \<and> 0 <s nptrs then do {
        hdls \<leftarrow> plane_handles nptrs ptrs s;
        allocator_share (env_pl E) (dvp_mem s) (dvp_mem_type_xlate mtype) nptrs hdls fds (dvp_proc s) }
      else Some (True, fds))"

definition dvp_mem_import ::
  "mem_env \<Rightarrow> bool \<Rightarrow> u32 \<Rightarrow> s32 \<Rightarrow> s32 \<Rightarrow> DVP_Dim_t list \<Rightarrow> u32 list \<Rightarrow> DVP_Dim_t list \<Rightarrow> u32 list \<Rightarrow> u32 list \<Rightarrow> mem_sys \<Rightarrow>
     (bool \<times> u32 list \<times> DVP_Dim_t list \<times> u32 list \<times> mem_sys) option" where
  "dvp_mem_import E handle mtype nptrs ndims dims ptrs strides fds hdls s =
     (if handle \<and> 0 <s nptrs \<and> 0 <s ndims then do {
        (ret, a) \<leftarrow> allocator_import (env_pl E) (dvp_mem s) (dvp_mem_type_xlate mtype) nptrs ndims dims fds
          \<lparr>a_ptrs = ptrs, a_hdls = hdls, a_strides = strides, a_proc = dvp_proc s\<rparr>;
        let s1 = s\<lparr>dvp_proc := a_proc a\<rparr>;
        s2 \<leftarrow> (if ret \<and> dvp_rpc s \<noteq> None
          then associate_planes E mtype nptrs ndims (a_ptrs a) (a_hdls a) (a_strides a) s1 else Some s1);
        Some (ret, a_ptrs a, a_strides a, a_hdls a, s2) }
      else Some (False, ptrs, strides, hdls, s))"

text \<open>What was imported is freed through the handles of the caller; those of the registry are not used.\<close>

definition dvp_mem_free_import ::
  "mem_env \<Rightarrow> bool \<Rightarrow> u32 \<Rightarrow> s32 \<Rightarrow> DVP_Dim_t list \<Rightarrow> s32 \<Rightarrow> u32 list \<Rightarrow> u32 list \<Rightarrow> mem_sys \<Rightarrow>
     (bool \<times> u32 list \<times> u32 list \<times> mem_sys) option" where
  "dvp_mem_free_import E handle mtype ndims dims nptrs ptrs hdls s =
     (if \<not> handle \<or> nptrs \<le>s 0 \<or> ndims \<le>s 0 then Some (False, ptrs, hdls, s)
      else do {
        (_, s1) \<leftarrow> (if dvp_rpc s \<noteq> None then dissociate_planes E mtype nptrs ndims dims ptrs s else Some ([], s));
        release_planes mtype nptrs ptrs hdls s1 })"

section \<open>Plain blocks\<close>

definition dvp_free :: "mem_env \<Rightarrow> bool \<Rightarrow> u32 \<Rightarrow> u32 \<Rightarrow> u32 \<Rightarrow> mem_sys \<Rightarrow> mem_sys option" where
  "dvp_free E handle ptr numElem sizeElem s = do {
     (_, _, s') \<leftarrow> dvp_mem_free E handle DVP_MTYPE_DEFAULT 1 2 [dim3 sizeElem numElem 1] [ptr] s;
     Some s' }"

definition dvp_malloc :: "mem_env \<Rightarrow> bool \<Rightarrow> u32 \<Rightarrow> mem_sys \<Rightarrow> (u32 \<times> mem_sys) option" where
  "dvp_malloc E handle sz s = do {
     (_, ptrs, _, s') \<leftarrow> dvp_mem_calloc E handle DVP_MTYPE_DEFAULT 1 1 [dim3 sz 1 1] [0] [dim3 0 0 0] s;
     ptr \<leftarrow> nth_chk ptrs 0;
     Some (ptr, s') }"

definition dvp_calloc :: "mem_env \<Rightarrow> bool \<Rightarrow> u32 \<Rightarrow> u32 \<Rightarrow> mem_sys \<Rightarrow> (u32 \<times> mem_sys) option" where
  "dvp_calloc E handle numElem sizeElem s = do {
     (_, ptrs, _, s') \<leftarrow> dvp_mem_calloc E handle DVP_MTYPE_DEFAULT 1 2 [dim3 sizeElem numElem 1] [0] [dim3 0 0 0] s;
     ptr \<leftarrow> nth_chk ptrs 0;
     Some (ptr, s') }"

section \<open>Images\<close>

definition reserved_memory :: "u32 \<Rightarrow> bool" where
  "reserved_memory mtype \<longleftrightarrow> mtype = DVP_MTYPE_GRALLOC_2DTILED \<or> mtype = DVP_MTYPE_MPUNONCACHED_2DTILED"

text \<open>Each plane starts where its memory does.\<close>

definition assign_planes :: "DVP_Image_t \<Rightarrow> DVP_Image_t option" where
  "assign_planes im = map_option (\<lambda>d. im\<lparr>pData := d\<rparr>)
     (for_range 0 (unat (planes im)) (\<lambda>p d. do { b \<leftarrow> nth_chk (pBuffer im) (unat p); upd_chk d (unat p) b }) (pData im))"

text \<open>The array of handles that tiled images keep in \<open>reserved\<close>.\<close>

definition alloc_reserved :: "mem_env \<Rightarrow> DVP_Image_t \<Rightarrow> mem_sys \<Rightarrow> (DVP_Image_t \<times> mem_sys) option" where
  "alloc_reserved E im s =
     (let bytes = planes im * 4 in
      case env_calloc E (dvp_proc s) bytes of
        None \<Rightarrow> Some (im, s)
      | Some a \<Rightarrow> do {
          _ \<leftarrow> for_range 0 (unat (planes im)) (\<lambda>p u. do {
            b \<leftarrow> nth_chk (pBuffer im) (unat p);
            map_option (\<lambda>_. u) (dvp_rpc_get_handle (handle_word (dvp_proc s)) (dvp_rpc s) b) }) ();
          Some (im\<lparr>reserved := a\<rparr>, s\<lparr>dvp_proc := (dvp_proc s)\<lparr>blocks := (blocks (dvp_proc s))(a \<mapsto> unat bytes)\<rparr>\<rparr>) })"

definition DVP_Image_Alloc ::
  "mem_env \<Rightarrow> bool \<Rightarrow> DVP_Image_t option \<Rightarrow> u32 \<Rightarrow> mem_sys \<Rightarrow> (bool \<times> DVP_Image_t option \<times> mem_sys) option" where
  "DVP_Image_Alloc E handle pImage mtype s =
     (case pImage of
        Some im \<Rightarrow>
          if \<not> handle then Some (False, pImage, s)
          else if mtype \<noteq> DVP_MTYPE_DISPLAY_2DTILED then do {
            dims \<leftarrow> DVP_Image_Dims False im;
            (ret, ptrs, strides, s1) \<leftarrow> dvp_mem_calloc E handle mtype (planes im) 3 dims (pBuffer im) zero_strides s;
            let im1 = im\<lparr>pBuffer := ptrs\<rparr>;
            (if ret then do {
               im2 \<leftarrow> assign_planes im1;
               str \<leftarrow> nth_chk strides 0;
               let im3 = im2\<lparr>memType := mtype, x_stride := bpp str, y_stride := dim_width str\<rparr>;
               let im4 = im3\<lparr>numBytes := DVP_Image_Range (Some im3)\<rparr>;
               (im5, s2) \<leftarrow> (if reserved_memory mtype then alloc_reserved E im4 s1 else Some (im4, s1));
               Some (True, Some im5, s2) }
             else Some (False, Some im1, s1)) }
          else if color im \<in> {FOURCC_UYVY, FOURCC_NV12} then do {
            b \<leftarrow> nth_chk (pBuffer im) 0;
            (ret, s1) \<leftarrow> associate E b (reserved im) (numBytes im) mtype s;
            Some (ret, pImage, s1) }
          else Some (False, pImage, s)
      | None \<Rightarrow> Some (False, None, s))"

definition DVP_Image_Free ::
  "mem_env \<Rightarrow> bool \<Rightarrow> DVP_Image_t option \<Rightarrow> mem_sys \<Rightarrow> (bool \<times> DVP_Image_t option \<times> mem_sys) option" where
  "DVP_Image_Free E handle pImage s =
     (case pImage of
        Some im \<Rightarrow>
          if \<not> handle then Some (False, pImage, s)
          else if memType im \<noteq> DVP_MTYPE_DISPLAY_2DTILED then do {
            dims \<leftarrow> DVP_Image_Dims False im;
            pr \<leftarrow> (if reserved_memory (memType im) then block_free (reserved im) (dvp_proc s) else Some (dvp_proc s));
            (ret, ptrs, s1) \<leftarrow> dvp_mem_free E handle (memType im) (planes im) 3 dims (pBuffer im) (s\<lparr>dvp_proc := pr\<rparr>);
            Some (ret, Some (im\<lparr>pBuffer := ptrs\<rparr>), s1) }
          else do {
            (ret, _, s1) \<leftarrow> for_range 0 (unat (planes im)) (\<lambda>p (ret, hdls, s). do {
              b \<leftarrow> nth_chk (pBuffer im) (unat p);
              h \<leftarrow> nth_chk hdls (unat p);
              (ret', h', s') \<leftarrow> dissociate E b h (numBytes im) (memType im) s;
              Some (ret', hdls[unat p := h'], s') }) (False, zero_hdls, s);
            Some (ret, pImage, s1) }
      | None \<Rightarrow> Some (False, None, s))"

definition DVP_Image_Share ::
  "mem_env \<Rightarrow> bool \<Rightarrow> DVP_Image_t option \<Rightarrow> u32 list \<Rightarrow> mem_sys \<Rightarrow> (bool \<times> u32 list) option" where
  "DVP_Image_Share E handle pImage fds s =
     (case pImage of
        Some im \<Rightarrow>
          if handle \<and> memType im \<noteq> DVP_MTYPE_DISPLAY_2DTILED
          then dvp_mem_share E handle (memType im) (planes im) (pBuffer im) fds s else Some (False, fds)
      | None \<Rightarrow> Some (False, fds))"

definition DVP_Image_Import ::
  "mem_env \<Rightarrow> bool \<Rightarrow> DVP_Image_t option \<Rightarrow> u32 list \<Rightarrow> u32 list \<Rightarrow> mem_sys \<Rightarrow>
     (bool \<times> DVP_Image_t option \<times> u32 list \<times> mem_sys) option" where
  "DVP_Image_Import E handle pImage fds hdls s =
     (case pImage of
        Some im \<Rightarrow>
          if handle \<and> memType im \<noteq> DVP_MTYPE_DISPLAY_2DTILED then do {
            dims \<leftarrow> DVP_Image_Dims False im;
            (ret, ptrs, strides, hdls', s1) \<leftarrow> dvp_mem_import E handle (memType im) (planes im) 3 dims (pBuffer im) zero_strides fds hdls s;
            let im1 = im\<lparr>pBuffer := ptrs\<rparr>;
            (if ret then do {
               im2 \<leftarrow> assign_planes im1;
               str \<leftarrow> nth_chk strides 0;
               Some (True, Some (im2\<lparr>x_stride := bpp str, y_stride := dim_width str, numBytes := dim_height str\<rparr>), hdls', s1) }
             else Some (False, Some im1, hdls', s1)) }
          else Some (False, pImage, hdls, s)
      | None \<Rightarrow> Some (False, None, hdls, s))"

definition DVP_Image_Free_Import ::
  "mem_env \<Rightarrow> bool \<Rightarrow> DVP_Image_t option \<Rightarrow> u32 list \<Rightarrow> mem_sys \<Rightarrow> (bool \<times> DVP_Image_t option \<times> u32 list \<times> mem_sys) option" where
  "DVP_Image_Free_Import E handle pImage hdls s =
     (case pImage of
        Some im \<Rightarrow>
          if handle \<and> memType im \<noteq> DVP_MTYPE_DISPLAY_2DTILED then do {
            dims \<leftarrow> DVP_Image_Dims False im;
            (ret, ptrs, hdls', s1) \<leftarrow> dvp_mem_free_import E handle (memType im) 3 dims (planes im) (pBuffer im) hdls s;
            Some (ret, Some (im\<lparr>pBuffer := ptrs\<rparr>), hdls', s1) }
          else Some (False, pImage, hdls, s)
      | None \<Rightarrow> Some (False, None, hdls, s))"

section \<open>Buffers\<close>

text \<open>The dimensions of a buffer; an element size of zero is a division by zero.\<close>

definition buffer_dims :: "DVP_Buffer_t \<Rightarrow> DVP_Dim_t list option" where
  "buffer_dims b = (if buf_elemSize b = 0 then None else Some [dim3 (buf_elemSize b) (buf_numBytes b div buf_elemSize b) 1])"

definition DVP_Buffer_Alloc ::
  "mem_env \<Rightarrow> bool \<Rightarrow> DVP_Buffer_t option \<Rightarrow> u32 \<Rightarrow> mem_sys \<Rightarrow> (bool \<times> DVP_Buffer_t option \<times> mem_sys) option" where
  "DVP_Buffer_Alloc E handle pBuf mtype s =
     (case pBuf of
        Some b \<Rightarrow>
          if handle then do {
            dims \<leftarrow> buffer_dims b;
            (ret, ptrs, _, s1) \<leftarrow> dvp_mem_calloc E handle mtype 1 2 dims [0] [dim3 0 0 0] s;
            ptr \<leftarrow> nth_chk ptrs 0;
            Some (ret, Some (if ret then b\<lparr>buf_memType := mtype, buf_pData := ptr\<rparr> else b), s1) }
          else Some (False, pBuf, s)
      | None \<Rightarrow> Some (False, None, s))"

definition DVP_Buffer_Free ::
  "mem_env \<Rightarrow> bool \<Rightarrow> DVP_Buffer_t option \<Rightarrow> mem_sys \<Rightarrow> (bool \<times> DVP_Buffer_t option \<times> mem_sys) option" where
  "DVP_Buffer_Free E handle pBuf s =
     (case pBuf of
        Some b \<Rightarrow>
          if handle then do {
            dims \<leftarrow> buffer_dims b;
            (ret, ptrs, s1) \<leftarrow> dvp_mem_free E handle (buf_memType b) 1 2 dims [buf_pData b] s;
            ptr \<leftarrow> nth_chk ptrs 0;
            Some (ret, Some (b\<lparr>buf_pData := ptr\<rparr>), s1) }
          else Some (False, pBuf, s)
      | None \<Rightarrow> Some (False, None, s))"

definition DVP_Buffer_Share ::
  "mem_env \<Rightarrow> bool \<Rightarrow> DVP_Buffer_t option \<Rightarrow> u32 list \<Rightarrow> mem_sys \<Rightarrow> (bool \<times> u32 list) option" where
  "DVP_Buffer_Share E handle pBuf fds s =
     (case pBuf of
        Some b \<Rightarrow> if handle then dvp_mem_share E handle (buf_memType b) 1 [buf_pData b] fds s else Some (False, fds)
      | None \<Rightarrow> Some (False, fds))"

definition DVP_Buffer_Import ::
  "mem_env \<Rightarrow> bool \<Rightarrow> DVP_Buffer_t option \<Rightarrow> u32 \<Rightarrow> u32 \<Rightarrow> mem_sys \<Rightarrow> (bool \<times> DVP_Buffer_t option \<times> u32 \<times> mem_sys) option" where
  "DVP_Buffer_Import E handle pBuf fd hdl s =
     (case pBuf of
        Some b \<Rightarrow>
          if handle then do {
            dims \<leftarrow> buffer_dims b;
            (ret, ptrs, _, hdls, s1) \<leftarrow> dvp_mem_import E handle (buf_memType b) 1 2 dims [0] [dim3 0 0 0] [fd] [hdl] s;
            ptr \<leftarrow> nth_chk ptrs 0;
            h \<leftarrow> nth_chk hdls 0;
            Some (ret, Some (if ret then b\<lparr>buf_pData := ptr\<rparr> else b), h, s1) }
          else Some (False, pBuf, hdl, s)
      | None \<Rightarrow> Some (False, None, hdl, s))"

definition DVP_Buffer_Free_Import ::
  "mem_env \<Rightarrow> bool \<Rightarrow> DVP_Buffer_t option \<Rightarrow> u32 \<Rightarrow> mem_sys \<Rightarrow> (bool \<times> DVP_Buffer_t option \<times> mem_sys) option" where
  "DVP_Buffer_Free_Import E handle pBuf hdl s =
     (case pBuf of
        Some b \<Rightarrow>
          if handle then do {
            dims \<leftarrow> buffer_dims b;
            (ret, ptrs, _, s1) \<leftarrow> dvp_mem_free_import E handle (buf_memType b) 2 dims 1 [buf_pData b] [hdl] s;
            ptr \<leftarrow> nth_chk ptrs 0;
            Some (ret, Some (b\<lparr>buf_pData := ptr\<rparr>), s1) }
          else Some (False, pBuf, s)
      | None \<Rightarrow> Some (False, None, s))"

end
