(* ===== verification/Dvp_MemSpec.thy ===== *)
theory Dvp_MemSpec
  imports Dvp_Mem Dvp_ImageGeo
begin

text \<open>
  What the memory of images and buffers promises: the planes of an allocated image have blocks of their own that hold every sample,
  freeing gives back exactly what was allocated, and memory for the remote cores is registered for as long as it lives. The platform is
  an argument; \<open>memalign_ok\<close> states what its documentation promises.
\<close>

section \<open>Blocks\<close>

text \<open>\<open>posix_memalign\<close> returns page-aligned memory that nothing else uses.\<close>

definition memalign_ok :: "platform_t \<Rightarrow> bool" where
  "memalign_ok pl \<longleftrightarrow> (\<forall>s n p. pl_memalign pl s n = Some p \<longrightarrow> p \<noteq> 0 \<longrightarrow>
     unat p + unat n \<le> size_max \<and> unat p mod 4096 = 0 \<and> blocks s p = None \<and>
     (\<forall>q m. blocks s q = Some m \<longrightarrow> unat q + m \<le> unat p \<or> unat p + unat n \<le> unat q))"

definition heap_apart :: "(u32 \<Rightarrow> nat option) \<Rightarrow> bool" where
  "heap_apart B \<longleftrightarrow> (\<forall>p n. B p = Some n \<longrightarrow> p \<noteq> 0 \<and> unat p + n \<le> size_max) \<and>
     (\<forall>p q m n. B p = Some m \<longrightarrow> B q = Some n \<longrightarrow> p \<noteq> q \<longrightarrow> unat p + m \<le> unat q \<or> unat q + n \<le> unat p)"

lemma heap_apart_new:
  assumes "memalign_ok pl" and "heap_apart (blocks s)" and "pl_memalign pl s n = Some p" and "p \<noteq> 0"
  shows "heap_apart ((blocks s)(p \<mapsto> unat n))" and "blocks s p = None"
proof -
  note new = assms(1)[unfolded memalign_ok_def, rule_format, OF assms(3,4)]
  show "blocks s p = None" using new by blast
  show "heap_apart ((blocks s)(p \<mapsto> unat n))"
    unfolding heap_apart_def
  proof (intro conjI allI impI)
    fix q m assume "((blocks s)(p \<mapsto> unat n)) q = Some m"
    then show "q \<noteq> 0" "unat q + m \<le> size_max"
      using new assms(2,4) by (auto simp: heap_apart_def split: if_splits)
  next
    fix q r k m assume "((blocks s)(p \<mapsto> unat n)) q = Some k" "((blocks s)(p \<mapsto> unat n)) r = Some m" "q \<noteq> r"
    then show "unat q + k \<le> unat r \<or> unat r + m \<le> unat q"
      using new assms(2) by (auto simp: heap_apart_def split: if_splits)
  qed
qed

lemma page_align_ge: "unat n + 4096 \<le> size_max \<Longrightarrow> unat n \<le> unat (allocator_page_align_size n)"
proof -
  assume n: "unat n + 4096 \<le> size_max"
  let ?r = "n AND (PAGE_BYTES - 1)"
  have r: "unat ?r = unat n mod 4096"
  proof -
    have "unat n AND mask 12 = unat n mod 2 ^ 12" by (simp only: take_bit_eq_mask[symmetric] take_bit_eq_mod)
    then have "unat n AND 4095 = unat n mod 4096" by (simp add: mask_eq_exp_minus_1)
    then show ?thesis by (simp add: PAGE_BYTES_def unsigned_and_eq)
  qed
  then have "?r < PAGE_BYTES" by (simp add: word_less_nat_alt PAGE_BYTES_def)
  then have "unat (PAGE_BYTES - ?r) = 4096 - unat n mod 4096" using r by (simp add: unat_sub PAGE_BYTES_def word_le_nat_alt)
  then have "unat (n + (PAGE_BYTES - ?r)) = unat n + (4096 - unat n mod 4096)" if "0 < ?r"
    using n r that by (subst unat_add_small) (auto simp: word_less_nat_alt)
  then show ?thesis by (auto simp: allocator_page_align_size_def Let_def)
qed

section \<open>Loops over planes\<close>

lemma plane_loop_inv:
  assumes "plane_loop f p k a = Some (True, a')" and "I p a"
    and "\<And>q a b. p \<le> q \<Longrightarrow> q < p + k \<Longrightarrow> I q a \<Longrightarrow> f q a = Some (Next b) \<Longrightarrow> I (Suc q) b"
    and "\<And>q a b. f q a \<noteq> Some (Stop True b)"
  shows "I (p + k) a'"
  using assms(1-3)
proof (induction k arbitrary: p a)
  case (Suc k)
  from Suc.prems(1) obtain b where b: "f p a = Some (Next b)" "plane_loop f (Suc p) k b = Some (True, a')"
    using assms(4)[of p a] by (auto split: option.splits turn.splits)
  have "I (Suc p + k) a'"
  proof (rule Suc.IH[OF b(2)])
    show "I (Suc p) b" using Suc.prems(3)[of p a b] Suc.prems(2) b(1) by simp
  qed (use Suc.prems(3) in simp)
  then show ?case by simp
qed simp

lemma for_range_frame:
  assumes "\<And>k. i \<le> k \<Longrightarrow> k < i + n \<Longrightarrow> f (of_nat k) s = Some s"
  shows "for_range i n f s = Some s"
  using assms by (induction n arbitrary: i) auto

text \<open>The three strides of a plane in plain memory, and the bytes of its block.\<close>

definition plain_strides :: "DVP_Dim_t \<Rightarrow> DVP_Dim_t" where
  "plain_strides d = dim3 (bpp d) (bpp d * dim_width d) (bpp d * dim_width d * dim_height d)"

definition plain_bytes :: "DVP_Dim_t \<Rightarrow> u32" where
  "plain_bytes d = allocator_page_align_size (bpp d * dim_width d * dim_height d)"

lemma for_range_3: "for_range 0 3 f s = Option.bind (f 0 s) (\<lambda>s. Option.bind (f 1 s) (f 2))"
  by (cases "f 0 s") (simp_all add: numeral_3_eq_3 numeral_2_eq_2 cong: Option.bind_cong)

lemma dims_strides_3: "dims_strides d 3 str = Some (bpp d * dim_width d * dim_height d, plain_strides d)"
  by (cases d; cases str) (simp add: for_range_3 dims_strides_def dim_get_def dim_put_def nth_chk_def plain_strides_def dim3_def)

lemma dims_size_3: "dims_size d 3 = Some (bpp d * dim_width d * dim_height d)"
  by (simp add: for_range_3 dims_size_def dim_get_def nth_chk_def)

lemma virtual_plane_next:
  assumes "virtual_plane pl 3 dims q a = Some (Next b)"
  obtains ptr where "ptr \<noteq> 0" "pl_memalign pl (a_proc a) (plain_bytes (dims ! q)) = Some ptr" "q < length dims"
    "q < length (a_ptrs a)" "q < length (a_strides a)"
    "b = a\<lparr>a_strides := (a_strides a)[q := plain_strides (dims ! q)], a_ptrs := (a_ptrs a)[q := ptr],
       a_proc := (a_proc a)\<lparr>blocks := (blocks (a_proc a))(ptr \<mapsto> unat (plain_bytes (dims ! q)))\<rparr>\<rparr>"
  using assms
  by (auto simp: virtual_plane_def dims_strides_3 nth_chk_def upd_chk_def plain_bytes_def Let_def split: if_splits option.splits bind_splits)

lemma virtual_plane_stop: "virtual_plane pl ndims dims q a \<noteq> Some (Stop True b)"
  by (auto simp: virtual_plane_def Let_def split: option.splits bind_splits if_splits)

section \<open>Plain images\<close>

text \<open>After \<open>p\<close> planes: their blocks are new and of their size, and without them the process is as it was.\<close>

definition plain_inv :: "alloc_st \<Rightarrow> DVP_Dim_t list \<Rightarrow> nat \<Rightarrow> alloc_st \<Rightarrow> bool" where
  "plain_inv a0 dims p a \<longleftrightarrow>
     length (a_ptrs a) = length (a_ptrs a0) \<and> length (a_strides a) = length (a_strides a0) \<and> p \<le> length (a_ptrs a) \<and> p \<le> length (a_strides a) \<and>
     a_hdls a = a_hdls a0 \<and> a_proc a0 = (a_proc a)\<lparr>blocks := blocks (a_proc a) |` (- set (take p (a_ptrs a)))\<rparr> \<and>
     heap_apart (blocks (a_proc a)) \<and> distinct (take p (a_ptrs a)) \<and>
     (\<forall>q < p. a_ptrs a ! q \<noteq> 0 \<and> blocks (a_proc a) (a_ptrs a ! q) = Some (unat (plain_bytes (dims ! q))) \<and>
        a_strides a ! q = plain_strides (dims ! q))"

lemma plain_inv_step:
  assumes ok: "memalign_ok pl" and inv: "plain_inv a0 dims q a" and step: "virtual_plane pl 3 dims q a = Some (Next b)"
  shows "plain_inv a0 dims (Suc q) b"
proof -
  obtain ptr where ptr: "ptr \<noteq> 0" "pl_memalign pl (a_proc a) (plain_bytes (dims ! q)) = Some ptr" "q < length dims"
    "q < length (a_ptrs a)" "q < length (a_strides a)"
    "b = a\<lparr>a_strides := (a_strides a)[q := plain_strides (dims ! q)], a_ptrs := (a_ptrs a)[q := ptr],
       a_proc := (a_proc a)\<lparr>blocks := (blocks (a_proc a))(ptr \<mapsto> unat (plain_bytes (dims ! q)))\<rparr>\<rparr>"
    using virtual_plane_next[OF step] .
  note new = heap_apart_new[OF ok _ ptr(2,1)]
  have i: "heap_apart (blocks (a_proc a))" "distinct (take q (a_ptrs a))"
      "a_proc a0 = (a_proc a)\<lparr>blocks := blocks (a_proc a) |` (- set (take q (a_ptrs a)))\<rparr>"
      "\<And>r. r < q \<Longrightarrow> a_ptrs a ! r \<noteq> 0 \<and> blocks (a_proc a) (a_ptrs a ! r) = Some (unat (plain_bytes (dims ! r))) \<and>
        a_strides a ! r = plain_strides (dims ! r)"
    using inv by (simp_all add: plain_inv_def)
  have pre: "take (Suc q) (a_ptrs b) = take q (a_ptrs a) @ [ptr]" using ptr(4,6) by (simp add: take_Suc_conv_app_nth)
  have other: "ptr \<noteq> a_ptrs a ! r" if "r < q" for r using i(4)[OF that] new(2)[OF i(1)] by auto
  then have notin: "ptr \<notin> set (take q (a_ptrs a))" using ptr(4) by (auto simp: in_set_conv_nth)
  have "(blocks (a_proc a))(ptr \<mapsto> n) |` (- insert ptr S) = blocks (a_proc a) |` (- S)" if "ptr \<notin> S" for n S
    using new(2)[OF i(1)] that by (intro ext) (auto simp: restrict_map_def)
  then have old: "a_proc a0 = (a_proc b)\<lparr>blocks := blocks (a_proc b) |` (- set (take (Suc q) (a_ptrs b)))\<rparr>"
    unfolding pre using i(3) notin ptr(6) by simp
  have all: "a_ptrs b ! r \<noteq> 0 \<and> blocks (a_proc b) (a_ptrs b ! r) = Some (unat (plain_bytes (dims ! r))) \<and>
      a_strides b ! r = plain_strides (dims ! r)" if "r < Suc q" for r
    using i(4)[of r] other[of r] that ptr by (cases "r = q") (auto simp: less_Suc_eq)
  show ?thesis unfolding plain_inv_def
    using inv ptr(4,5,6) old all new(1)[OF i(1)] notin i(2) pre by (simp add: plain_inv_def)
qed

lemma plain_loop:
  assumes "memalign_ok pl" and "heap_apart (blocks (a_proc a0))" and "plane_loop (virtual_plane pl 3 dims) 0 k a0 = Some (True, a)"
  shows "plain_inv a0 dims k a"
proof -
  have "plain_inv a0 dims 0 a0" using assms(2) by (simp add: plain_inv_def restrict_map_def)
  from plane_loop_inv[OF assms(3), of "plain_inv a0 dims", OF this plain_inv_step[OF assms(1)] virtual_plane_stop] show ?thesis by simp
qed

subsection \<open>The dimensions of an initialised image\<close>

lemma init_planes_le: "DVP_Image_Init im0 w h c = Some im \<Longrightarrow> planes im = 1 \<or> planes im = 2 \<or> planes im = 3"
  by (simp add: init_fields(1) init_planes_cases)

text \<open>The block of a plane is as large as its subsampled lines need.\<close>

definition dim_bytes :: "DVP_Dim_t \<Rightarrow> nat" where
  "dim_bytes d = unat (bpp d) * unat (dim_width d) * unat (dim_height d)"

definition rows_fit :: "DVP_Image_t \<Rightarrow> DVP_Dim_t \<Rightarrow> u32 \<Rightarrow> bool" where
  "rows_fit im d p \<longleftrightarrow>
     unat (bufHeight im) div unat (DVP_Image_HeightDiv (Some im) p) *
       (unat (sample im p) * (unat (bufWidth im) div unat (DVP_Image_WidthDiv (Some im) p))) \<le> dim_bytes d \<and>
     dim_bytes d \<le> 8 * (unat (bufWidth im) * unat (bufHeight im))"

lemma div_mul_le: "(a :: nat) div k * (b div m) \<le> a * b"
  by (intro mult_le_mono) simp_all

lemma dim_bytes_dim3: "dim_bytes (dim3 b x y) = unat b * unat x * unat y"
  by (simp add: dim_bytes_def dim3_def)

lemma rows_fitI:
  assumes "DVP_Image_WidthDiv (Some im) p = kw" "DVP_Image_HeightDiv (Some im) p = kh" "sample im p = sm"
    and "unat sm \<le> unat b" "unat b \<le> 8" "unat x = unat (bufWidth im) div k" "unat (bufWidth im) div unat kw \<le> unat x"
    and "unat y = unat (bufHeight im) div m" "unat (bufHeight im) div unat kh \<le> unat y"
  shows "rows_fit im (dim3 b x y) p"
proof -
  have "unat (bufHeight im) div unat kh * (unat sm * (unat (bufWidth im) div unat kw)) \<le> unat y * (unat b * unat x)"
    by (intro mult_le_mono assms)
  moreover have "unat b * unat x * unat y \<le> 8 * (unat (bufWidth im) * unat (bufHeight im))"
    using mult_le_mono[OF assms(5) div_mul_le[of "unat (bufWidth im)" k "unat (bufHeight im)" m]] assms(6,8) by (simp add: mult.assoc)
  ultimately show ?thesis using assms(1-3) by (simp add: rows_fit_def dim_bytes_dim3 mult.commute mult.left_commute)
qed

lemma init_dims:
  assumes "DVP_Image_Init im0 w h c = Some im"
  obtains ds where "DVP_Image_Dims False im = Some ds" "length ds = 4" "ds ! 0 = dim3 (x_stride im) w h"
    "\<And>p. p < planes im \<Longrightarrow> rows_fit im (ds ! unat p) p"
proof -
  note f = init_fields(1-5)[OF assms]
  note g = init_geometry[OF assms]
  let ?z = "dim3 0 0 0"
  have xs: "unat (x_stride im) \<le> 8" using init_x_stride_le f(2) by simp
  have p01: "p = 0 \<or> p = 1" if "p < 2" for p :: u32
    using that by (auto simp: word_less_nat_alt word_unat_eq_iff)
  have p012: "p = 0 \<or> p = 1 \<or> p = 2" if "p < 3" for p :: u32
    using that by (auto simp: word_less_nat_alt word_unat_eq_iff)
  have whole: "rows_fit im (dim3 b w h) p"
    if "DVP_Image_WidthDiv (Some im) p = kw" "DVP_Image_HeightDiv (Some im) p = 1" "sample im p = b" "unat b \<le> 8" for b kw p
    by (rule rows_fitI[OF that(1-3) order_refl that(4), where k = 1 and m = 1]) (simp_all add: f)
  consider (nv) "c \<in> {FOURCC_NV12, FOURCC_NV21}" | (yuv9) "c \<in> {FOURCC_YUV9, FOURCC_YVU9}"
    | (p420) "c \<in> {FOURCC_IYUV, FOURCC_YV12}" | (p422) "c \<in> {FOURCC_YU16, FOURCC_YV16}" | (bin) "c = FOURCC_BIN1"
    | (iso) "c \<notin> {FOURCC_YUV9, FOURCC_YVU9, FOURCC_NV12, FOURCC_NV21, FOURCC_IYUV, FOURCC_YV12, FOURCC_YU16, FOURCC_YV16, FOURCC_BIN1}"
    by blast
  then show thesis
  proof cases
    case nv
    have "DVP_Image_Dims False im = Some [dim3 1 w h, dim3 2 (w div 2) (h div 2), ?z, ?z]"
      using nv by (auto simp: DVP_Image_Dims_def f Let_def)
    moreover have "rows_fit im (dim3 1 w h) 0" using whole[of 0 1 1] g(1)[OF nv] by simp
    moreover have "rows_fit im (dim3 2 (w div 2) (h div 2)) 1"
      using g(1)[OF nv] by (intro rows_fitI[where k = 2 and m = 2]) (auto simp: f unat_div)
    moreover have "x_stride im = 1" using init_planar_stride[of c] nv f(2) by auto
    ultimately show ?thesis using that g(1)[OF nv] p01 by force
  next
    case yuv9
    have "DVP_Image_Dims False im = Some [dim3 1 w h, dim3 1 (w div 4) (h div 4), dim3 1 (w div 4) (h div 4), ?z]"
      using yuv9 by (auto simp: DVP_Image_Dims_def f Let_def)
    moreover have "rows_fit im (dim3 1 w h) 0" using whole[of 0 1 1] g(4)[OF yuv9] by simp
    moreover have "rows_fit im (dim3 1 (w div 4) (h div 4)) p" if "p \<in> {1, 2}" for p
      using g(4)[OF yuv9] that by (intro rows_fitI[where k = 4 and m = 4]) (auto simp: f unat_div)
    moreover have "x_stride im = 1" using init_planar_stride[of c] yuv9 f(2) by auto
    ultimately show ?thesis using that g(4)[OF yuv9] p012 by force
  next
    case p420
    have "DVP_Image_Dims False im = Some [dim3 1 w h, dim3 1 (w div 2) (h div 2), dim3 1 (w div 2) (h div 2), ?z]"
      using p420 by (auto simp: DVP_Image_Dims_def f Let_def)
    moreover have "rows_fit im (dim3 1 w h) 0" using whole[of 0 1 1] g(2)[OF p420] by simp
    moreover have "rows_fit im (dim3 1 (w div 2) (h div 2)) p" if "p \<in> {1, 2}" for p
      using g(2)[OF p420] that by (intro rows_fitI[where k = 2 and m = 2]) (auto simp: f unat_div)
    moreover have "x_stride im = 1" using init_planar_stride[of c] p420 f(2) by auto
    ultimately show ?thesis using that g(2)[OF p420] p012 by force
  next
    case p422
    have "DVP_Image_Dims False im = Some [dim3 1 w h, dim3 2 (w div 2) h, dim3 2 (w div 2) h, ?z]"
      using p422 by (auto simp: DVP_Image_Dims_def f Let_def)
    moreover have "rows_fit im (dim3 1 w h) 0" using whole[of 0 1 1] g(3)[OF p422] by simp
    moreover have "rows_fit im (dim3 2 (w div 2) h) p" if "p \<in> {1, 2}" for p
      using g(3)[OF p422] that by (intro rows_fitI[where k = 2 and m = 1]) (auto simp: f unat_div)
    moreover have "x_stride im = 1" using init_planar_stride[of c] p422 f(2) by auto
    ultimately show ?thesis using that g(3)[OF p422] p012 by force
  next
    case bin
    have "DVP_Image_Dims False im = Some [dim3 (x_stride im) w h, ?z, ?z, ?z]"
      using bin g(5)[OF bin] by (simp add: DVP_Image_Dims_def f(3-5) Let_def upd_chk_def)
    moreover have "rows_fit im (dim3 (x_stride im) w h) 0"
      using whole[of 0 8 "x_stride im"] g(5)[OF bin] xs init_planar_stride[of c] bin f(2) by simp
    ultimately show ?thesis using that g(5)[OF bin] by fastforce
  next
    case iso
    have iso': "planes im = 1 \<or> planes im = 3" "\<And>p. rows_fit im (dim3 (x_stride im) w h) p"
      using g(6)[OF iso] whole[of _ 1 "x_stride im"] xs f(2) by auto
    have "DVP_Image_Dims False im =
        Some (if planes im = 1 then [dim3 (x_stride im) w h, ?z, ?z, ?z]
          else [dim3 (x_stride im) w h, dim3 (x_stride im) w h, dim3 (x_stride im) w h, ?z])"
      using iso iso'(1) by (auto simp: DVP_Image_Dims_def f(3-5) Let_def upd_chk_def for_range_3)
    moreover have "rows_fit im ([dim3 (x_stride im) w h, dim3 (x_stride im) w h, dim3 (x_stride im) w h, ?z] ! unat p) p"
      if "p < 3" for p using p012[OF that] iso'(2) by auto
    ultimately show ?thesis using that iso' by (cases "planes im = 1") auto
  qed
qed

subsection \<open>The geometry of an allocated image\<close>

text \<open>The image as the allocation leaves it: only the pointers, the line stride, the type and the number of bytes are new.\<close>

definition allocated :: "DVP_Image_t \<Rightarrow> u32 list \<Rightarrow> u32 \<Rightarrow> DVP_Image_t" where
  "allocated im ptrs mtype =
     (let n = unat (planes im);
          i = im\<lparr>pBuffer := ptrs, pData := take n ptrs @ drop n (pData im), memType := mtype, y_stride := x_stride im * bufWidth im\<rparr>
      in i\<lparr>numBytes := DVP_Image_Range (Some i)\<rparr>)"

lemma allocated_same:
  "DVP_Image_WidthStep (Some (allocated im ptrs m)) p = DVP_Image_WidthStep (Some im) p"
  "DVP_Image_WidthDiv (Some (allocated im ptrs m)) p = DVP_Image_WidthDiv (Some im) p"
  "DVP_Image_HeightDiv (Some (allocated im ptrs m)) p = DVP_Image_HeightDiv (Some im) p"
  "planes (allocated im ptrs m) = planes im" "x_stride (allocated im ptrs m) = x_stride im" "bufWidth (allocated im ptrs m) = bufWidth im"
  "bufHeight (allocated im ptrs m) = bufHeight im" "y_stride (allocated im ptrs m) = x_stride im * bufWidth im"
  "pBuffer (allocated im ptrs m) = ptrs" "sample (allocated im ptrs m) p = sample im p"
  "memType (allocated im ptrs m) = m" "color (allocated im ptrs m) = color im"
  by (simp_all add: allocated_def Let_def DVP_Image_WidthStep_def DVP_Image_WidthDiv_def DVP_Image_HeightDiv_def sample_def)

lemma init_many_planes:
  assumes "DVP_Image_Init im0 w h c = Some im" and "0 < p" and "p < planes im"
  shows "x_stride im = 1" "c \<noteq> FOURCC_BIN1" "unat (sample im p) \<le> 2"
proof -
  have "planes im \<noteq> 1" using assms(2,3) by (auto simp: word_less_nat_alt)
  then have "c \<in> {FOURCC_NV12, FOURCC_NV21, FOURCC_YUV9, FOURCC_YVU9, FOURCC_YV12, FOURCC_IYUV, FOURCC_YU16, FOURCC_YV16,
      FOURCC_YU24, FOURCC_YV24, FOURCC_RGBP, FOURCC_HSLP}"
    using init_fields(1)[OF assms(1)] by (auto simp: init_planes_cases split: if_splits)
  then show "x_stride im = 1" "c \<noteq> FOURCC_BIN1" using init_planar_stride[of c] init_fields(2)[OF assms(1)] by auto
  then show "unat (sample im p) \<le> 2" by (simp add: sample_def DVP_Image_WidthStep_def)
qed

lemma init_first_plane:
  assumes "DVP_Image_Init im0 w h c = Some im"
  shows "sample im 0 = x_stride im" "DVP_Image_HeightDiv (Some im) 0 = 1" "DVP_Image_WidthStep (Some im) 0 = 1"
    "c \<noteq> FOURCC_BIN1 \<Longrightarrow> DVP_Image_WidthDiv (Some im) 0 = 1" "unat (x_stride im) \<le> 8"
  using init_fields[OF assms] init_x_stride_le[of c]
  by (simp_all add: sample_def DVP_Image_WidthStep_def DVP_Image_HeightDiv_def DVP_Image_WidthDiv_def)

lemma abs32_small:
  assumes "unat x < 2 ^ 31"
  shows "abs32 x = x"
proof -
  have "uint x < 2 ^ 31" using nat_less_iff[OF uint_nonnegative, of x "2 ^ 31"] assms by simp
  moreover have "- (2 ^ 31) \<le> uint x" by (rule order_trans[OF _ uint_nonnegative]) simp
  ultimately have "signed_take_bit 31 (uint x) = uint x" by (intro signed_take_bit_int_eq_self)
  then have "sint x = uint x" by (simp add: sint_uint)
  then show ?thesis using uint_nonnegative[of x] by (simp add: abs32_def word_sless_alt)
qed

lemma allocated_line:
  assumes "DVP_Image_Init im0 w h c = Some im" and "0 < h" and "unat w * unat h * 8 < 2 ^ 31" and "p < planes im"
  shows "unat (DVP_Image_LineRange (Some (allocated im ptrs m)) p) =
    (if p = 0 then unat (x_stride im) * unat w
     else unat (sample im p) * (unat w div unat (DVP_Image_WidthDiv (Some im) p)))"
proof -
  note f = init_fields(3,4,5)[OF assms(1)]
  note first = init_first_plane[OF assms(1)]
  have "unat w * 1 \<le> unat w * unat h" using assms(2) by (intro mult_le_mono2) (simp add: word_less_nat_alt Suc_leI)
  then have w: "unat w * 8 < 2 ^ 31" using assms(3) by linarith
  have "unat (x_stride im) * unat w \<le> 8 * unat w" using first(5) by (rule mult_le_mono1)
  then have small: "unat (x_stride im) * unat w < 2 ^ 31" using w by linarith
  then have xw: "unat (x_stride im * w) = unat (x_stride im) * unat w" by (intro unat_mult_small) simp
  then have xw: "unat (x_stride im * w) = unat (x_stride im) * unat w" "unat (x_stride im * w) < 2 ^ 31" using small by simp_all
  show ?thesis
  proof (cases "p = 0")
    case True
    then show ?thesis using assms(4) abs32_small[OF xw(2)] xw(1) by (simp add: DVP_Image_LineRange_def allocated_same f)
  next
    case False
    then have pos: "0 < p" by (simp add: word_greater_zero_iff)
    note many = init_many_planes[OF assms(1) pos assms(4)]
    have "unat (sample im p) * (unat w div unat (DVP_Image_WidthDiv (Some im) p)) \<le> 2 * unat w"
      using many(3) by (intro mult_le_mono) simp_all
    then have "unat (sample im p * (w div DVP_Image_WidthDiv (Some im) p)) =
        unat (sample im p) * (unat w div unat (DVP_Image_WidthDiv (Some im) p))"
      using w by (subst unat_mult_small) (simp_all add: unat_div)
    moreover have "DVP_Image_LineRange (Some (allocated im ptrs m)) p = sample im p * (w div DVP_Image_WidthDiv (Some im) p)"
      using pos assms(4) abs32_small[OF xw(2)] first(3,4) many(1,2)
      by (simp add: DVP_Image_LineRange_def allocated_same f Let_def sample_def)
    ultimately show ?thesis using False by simp
  qed
qed

lemma allocated_plane:
  assumes "DVP_Image_Init im0 w h c = Some im" and "0 < h" and "unat w * unat h * 8 < 2 ^ 31"
    and "unat w mod 8 = 0" and "unat h mod 4 = 0" and "p < planes im" and "rows_fit im d p" and "p = 0 \<Longrightarrow> d = dim3 (x_stride im) w h"
  shows "plane_ok (allocated im ptrs m) p" "unat (DVP_Image_PlaneRange (Some (allocated im ptrs m)) p) \<le> dim_bytes d"
proof -
  note f = init_fields(3,4,5)[OF assms(1)]
  note first = init_first_plane[OF assms(1)]
  note line = allocated_line[OF assms(1-3,6), of ptrs m]
  have "unat w * 1 \<le> unat w * unat h" using assms(2) by (intro mult_le_mono2) (simp add: word_less_nat_alt Suc_leI)
  have wk: "unat w mod k = 0" if "k \<in> {1, 2, 4, 8}" for k using that assms(4) by (elim insertE emptyE) (simp_all, presburger+)
  have hk: "unat h mod k = 0" if "k \<in> {1, 2, 4}" for k using that assms(5) by (elim insertE emptyE) (simp_all, presburger)
  have wm: "unat (DVP_Image_WidthDiv (Some im) p) \<in> {1, 2, 4, 8}" using WidthDiv_cases[of "Some im" p] by (elim insertE emptyE) simp_all
  have hm: "unat (DVP_Image_HeightDiv (Some im) p) \<in> {1, 2, 4}" using HeightDiv_cases[of "Some im" p] by (elim insertE emptyE) simp_all
  have div: "unat w mod unat (DVP_Image_WidthDiv (Some im) p) = 0" "unat h mod unat (DVP_Image_HeightDiv (Some im) p) = 0"
    by (fact wk[OF wm], fact hk[OF hm])
  have le: "unat (DVP_Image_LineRange (Some (allocated im ptrs m)) p) \<le> 8 * unat w"
  proof (cases "p = 0")
    case True
    then show ?thesis using line first(5) by (simp add: mult_le_mono1)
  next
    case False
    then have "unat (sample im p) \<le> 8" using init_many_planes(3)[OF assms(1) _ assms(6)] by (simp add: word_greater_zero_iff)
    then have "unat (sample im p) * (unat w div unat (DVP_Image_WidthDiv (Some im) p)) \<le> 8 * unat w" by (intro mult_le_mono) simp_all
    then show ?thesis using line False by simp
  qed
  have "unat (DVP_Image_LineRange (Some (allocated im ptrs m)) p) * unat h \<le> unat w * unat h * 8"
    using mult_le_mono1[OF le, of "unat h"] by (simp add: mult.commute mult.left_commute)
  moreover have "unat w * unat h * 8 < 2 ^ 32" using assms(3) by simp
  ultimately have small: "unat (DVP_Image_LineRange (Some (allocated im ptrs m)) p) * unat h < 2 ^ 32" by (rule order.strict_trans1)
  have fits: "unat w div unat (DVP_Image_WidthDiv (Some im) p) * unat (sample im p) \<le> unat (DVP_Image_LineRange (Some (allocated im ptrs m)) p)"
    using line first(1) by (cases "p = 0") (simp_all add: mult.commute)
  show ok: "plane_ok (allocated im ptrs m) p"
    using assms(6) div fits small by (simp add: plane_ok_def allocated_same f)
  show "unat (DVP_Image_PlaneRange (Some (allocated im ptrs m)) p) \<le> dim_bytes d"
    using PlaneRange_unat[OF ok] line first(2) assms(7,8)
    by (cases "p = 0") (simp_all add: allocated_same f rows_fit_def dim_bytes_dim3 mult.commute)
qed

subsection \<open>Allocation and release\<close>

lemma plain_memory:
  assumes "dvp_mem_type_xlate mtype = AM_VIRTUAL"
  shows "\<not> remote_memory mtype" "\<not> reserved_memory mtype"
  using assms by (auto simp: dvp_mem_type_xlate_def mem_correlation_def remote_memory_def reserved_memory_def)

lemma associate_plain: "\<not> remote_memory mtype \<Longrightarrow> associate E ptr hdl n mtype s = Some (False, s)"
  by (cases "env_associate E (dvp_rpc s)"; cases "dvp_rpc s")
    (auto simp: associate_def dvp_rpc_associate_def split: prod.splits)

lemma dissociate_plain: "\<not> remote_memory mtype \<Longrightarrow> dissociate E ptr hdl n mtype s = Some (False, hdl, s)"
  by (cases "dvp_rpc s") (simp_all add: dissociate_def dvp_rpc_dissociate_def)

lemma associate_planes_plain:
  assumes "\<not> remote_memory mtype" and "unat n \<le> length ptrs" and "unat n \<le> length hdls" and "unat n \<le> length strides"
  shows "associate_planes E mtype n 3 ptrs hdls strides s = Some s"
  unfolding associate_planes_def
proof (rule for_range_frame)
  fix k assume "k < 0 + unat n"
  then have k: "unat (of_nat k :: u32) = k" "k < unat n" using unat_u32_less[of n] by (simp_all add: unat_of_nat_u32)
  then show "(do {
       str \<leftarrow> nth_chk strides (unat (of_nat k :: u32));
       sz \<leftarrow> dim_get str (unat ((3 :: s32) - 1));
       ptr \<leftarrow> nth_chk ptrs (unat (of_nat k :: u32));
       h \<leftarrow> nth_chk hdls (unat (of_nat k :: u32));
       (_, s') \<leftarrow> associate E ptr h sz mtype s;
       Some s' }) = Some s"
    using assms by (simp add: nth_chk_def dim_get_def associate_plain)
qed

lemma dissociate_planes_plain:
  assumes "\<not> remote_memory mtype" and "unat n \<le> length ptrs" and "unat n \<le> length dims" and "unat n \<le> 4"
  shows "dissociate_planes E mtype n 3 dims ptrs s = Some (zero_hdls, s)"
  unfolding dissociate_planes_def
proof (rule for_range_frame)
  fix k assume "k < 0 + unat n"
  then have k: "unat (of_nat k :: u32) = k" "k < unat n" using unat_u32_less[of n] by (simp_all add: unat_of_nat_u32)
  then have "zero_hdls[k := 0] = zero_hdls" "nth_chk zero_hdls k = Some 0"
    using assms(4) by (simp_all add: zero_hdls_def DVP_MAX_PLANES_def nth_chk_def list_update_same_conv)
  then show "(case (zero_hdls, s) of (hdls, s) \<Rightarrow> do {
       d \<leftarrow> nth_chk dims (unat (of_nat k :: u32));
       sz \<leftarrow> dims_size d 3;
       ptr \<leftarrow> nth_chk ptrs (unat (of_nat k :: u32));
       h \<leftarrow> nth_chk hdls (unat (of_nat k :: u32));
       (_, h', s') \<leftarrow> dissociate E ptr h sz mtype s;
       Some (hdls[unat (of_nat k :: u32) := h'], s') }) = Some (zero_hdls, s)"
    using assms k by (simp add: nth_chk_def dims_size_3 dissociate_plain)
qed

lemma assign_planes_eq:
  assumes "unat (planes im) \<le> length (pBuffer im)" and "unat (planes im) \<le> length (pData im)"
  shows "assign_planes im = Some (im\<lparr>pData := take (unat (planes im)) (pBuffer im) @ drop (unat (planes im)) (pData im)\<rparr>)"
proof -
  let ?f = "\<lambda>(p :: u32) d. do { b \<leftarrow> nth_chk (pBuffer im) (unat p); upd_chk d (unat p) b }"
  let ?I = "\<lambda>k d. d = take k (pBuffer im) @ drop k (pData im)"
  have "\<exists>d. for_range 0 (unat (planes im)) ?f (pData im) = Some d \<and> ?I (0 + unat (planes im)) d"
  proof (rule for_range_inv[where I = ?I])
    fix k d assume k: "k < 0 + unat (planes im)" and d: "?I k d"
    have u: "unat (of_nat k :: u32) = k" using k unat_u32_less[of "planes im"] by (simp add: unat_of_nat_u32)
    have "d[k := pBuffer im ! k] = take (Suc k) (pBuffer im) @ drop (Suc k) (pData im)"
      using k assms d by (simp add: list_update_append take_Suc_conv_app_nth Cons_nth_drop_Suc[symmetric])
    then show "\<exists>d'. ?f (of_nat k) d = Some d' \<and> ?I (Suc k) d'"
      using k assms d u by (simp add: nth_chk_def upd_chk_def)
  qed simp
  then show ?thesis by (simp add: assign_planes_def)
qed

lemma dims_allocated: "DVP_Image_Dims t (allocated im ptrs m) = DVP_Image_Dims t im"
  by (auto simp: DVP_Image_Dims_def allocated_def Let_def)

text \<open>
  An allocation in plain memory in terms of the loop of the allocator: when the loop succeeds the allocation does, and the other way round.
\<close>

lemma plain_alloc_eq:
  assumes init: "DVP_Image_Init im0 w h c = Some im" and dims: "DVP_Image_Dims False im = Some ds" "ds ! 0 = dim3 (x_stride im) w h"
    and plain: "dvp_mem_type_xlate mtype = AM_VIRTUAL" "mtype \<noteq> DVP_MTYPE_DISPLAY_2DTILED" and mem: "dvp_mem s"
    and loop: "plane_loop (virtual_plane (env_pl E) 3 ds) 0 (unat (planes im))
      \<lparr>a_ptrs = replicate 4 0, a_hdls = zero_hdls, a_strides = zero_strides, a_proc = dvp_proc s\<rparr> = Some (True, a)"
    and len: "length (a_ptrs a) = 4" "length (a_strides a) = 4" "length (a_hdls a) = 4"
    and first: "a_strides a ! 0 = plain_strides (ds ! 0)"
  shows "DVP_Image_Alloc E True (Some im) mtype s = Some (True, Some (allocated im (a_ptrs a) mtype), s\<lparr>dvp_proc := a_proc a\<rparr>)"
proof -
  note f = init_fields[OF init]
  have n: "planes im = 1 \<or> planes im = 2 \<or> planes im = 3" using init_planes_le[OF init] .
  then have pos: "\<not> planes im \<le>s 0" "unat (planes im) \<le> 3" by (auto simp: word_sle_eq)
  have "associate_planes E mtype (planes im) 3 (a_ptrs a) (a_hdls a) (a_strides a) (s\<lparr>dvp_proc := a_proc a\<rparr>) = Some (s\<lparr>dvp_proc := a_proc a\<rparr>)"
    using plain_memory(1)[OF plain(1)] len pos(2) by (intro associate_planes_plain) simp_all
  then have calloc: "dvp_mem_calloc E True mtype (planes im) 3 ds (pBuffer im) zero_strides s =
      Some (True, a_ptrs a, a_strides a, s\<lparr>dvp_proc := a_proc a\<rparr>)"
    using loop mem plain(1) pos(1) f(10) by (simp add: dvp_mem_calloc_def allocator_calloc_def bo_memory_def DVP_MAX_PLANES_def word_sle_eq)
  have "assign_planes (im\<lparr>pBuffer := a_ptrs a\<rparr>) =
      Some (im\<lparr>pBuffer := a_ptrs a, pData := take (unat (planes im)) (a_ptrs a) @ drop (unat (planes im)) (pData im)\<rparr>)"
    using assign_planes_eq[of "im\<lparr>pBuffer := a_ptrs a\<rparr>"] len(1) pos(2) f(9) by (simp add: DVP_MAX_PLANES_def)
  moreover have "nth_chk (a_strides a) 0 = Some (plain_strides (ds ! 0))" using len(2) first by (simp add: nth_chk_def)
  ultimately show ?thesis
    using plain dims calloc plain_memory(2)[OF plain(1)] f(3)
    by (simp add: DVP_Image_Alloc_def plain_strides_def dim3_def allocated_def Let_def)
qed

lemma plain_image_alloc:
  assumes init: "DVP_Image_Init im0 w h c = Some im" and "DVP_Image_Dims False im = Some ds"
    and plain: "dvp_mem_type_xlate mtype = AM_VIRTUAL" "mtype \<noteq> DVP_MTYPE_DISPLAY_2DTILED"
    and ok: "memalign_ok (env_pl E)" "heap_apart (blocks (dvp_proc s))" and ds: "ds ! 0 = dim3 (x_stride im) w h"
    and res: "DVP_Image_Alloc E True (Some im) mtype s = Some (True, r, s')"
  obtains a where "plain_inv \<lparr>a_ptrs = replicate 4 0, a_hdls = zero_hdls, a_strides = zero_strides, a_proc = dvp_proc s\<rparr> ds (unat (planes im)) a"
    "r = Some (allocated im (a_ptrs a) mtype)" "s' = s\<lparr>dvp_proc := a_proc a\<rparr>" "dvp_mem s"
proof -
  let ?a0 = "\<lparr>a_ptrs = replicate 4 0, a_hdls = zero_hdls, a_strides = zero_strides, a_proc = dvp_proc s\<rparr>"
  have n: "planes im = 1 \<or> planes im = 2 \<or> planes im = 3" using init_planes_le[OF init] .
  then have pos: "\<not> planes im \<le>s 0" "1 \<le> unat (planes im)" by (auto simp: word_sle_eq)
  obtain ret a where call: "allocator_calloc (env_pl E) (dvp_mem s) AM_VIRTUAL (planes im) 3 ds ?a0 = Some (ret, a)" "ret"
    using res plain pos(1) assms(2) init_fields(10)[OF init]
    by (auto simp: DVP_Image_Alloc_def dvp_mem_calloc_def DVP_MAX_PLANES_def Let_def split: bind_splits if_splits)
  then have mem: "dvp_mem s" and loop: "plane_loop (virtual_plane (env_pl E) 3 ds) 0 (unat (planes im)) ?a0 = Some (True, a)"
    using pos(1) by (auto simp: allocator_calloc_def bo_memory_def split: if_splits)
  have inv: "plain_inv ?a0 ds (unat (planes im)) a" using plain_loop[OF ok(1) _ loop] ok(2) by simp
  then have "length (a_ptrs a) = 4" "length (a_strides a) = 4" "length (a_hdls a) = 4" "a_strides a ! 0 = plain_strides (ds ! 0)"
    using pos(2) by (simp_all add: plain_inv_def zero_strides_def zero_hdls_def DVP_MAX_PLANES_def)
  then show thesis using plain_alloc_eq[OF init assms(2) ds plain mem loop] res that inv mem by simp
qed

lemma unat_mult3:
  assumes "unat a * unat b * unat c < 2 ^ 32"
  shows "unat ((a :: u32) * b * c) = unat a * unat b * unat c"
proof (cases "unat c = 0")
  case False
  then have "unat a * unat b * 1 \<le> unat a * unat b * unat c" by (intro mult_le_mono2) simp
  then have "unat a * unat b < 2 ^ 32" using assms by linarith
  then have "unat (a * b) = unat a * unat b" by (rule unat_mult_small)
  then show ?thesis using assms unat_mult_small[of "a * b" c] by simp
qed (simp add: unat_eq_0)

lemma restrict_drop: "p \<notin> S \<Longrightarrow> (B |` (- S))(p := None) = B |` (- insert p S)"
  by (auto simp: restrict_map_def)

text \<open>Freeing the planes one after the other removes their blocks and nothing else.\<close>

lemma plain_free_loop:
  assumes inv: "plain_inv a0 ds n a" and "n < size_max"
  shows "\<exists>ptrs. for_range 0 n free_virtual_plane (a_ptrs a, hdls, a_proc a) = Some (ptrs, hdls, a_proc a0) \<and>
    take n ptrs = replicate n 0"
proof -
  let ?S = "\<lambda>k. set (take k (a_ptrs a))"
  let ?I = "\<lambda>k (ptrs, h, pr). ptrs = replicate k 0 @ drop k (a_ptrs a) \<and> h = hdls \<and>
     pr = (a_proc a)\<lparr>blocks := blocks (a_proc a) |` (- ?S k)\<rparr>"
  have len: "n \<le> length (a_ptrs a)" and dist: "distinct (take n (a_ptrs a))"
    and blk: "\<And>q. q < n \<Longrightarrow> a_ptrs a ! q \<noteq> 0 \<and> blocks (a_proc a) (a_ptrs a ! q) \<noteq> None"
    and old: "a_proc a0 = (a_proc a)\<lparr>blocks := blocks (a_proc a) |` (- ?S n)\<rparr>"
    using inv by (simp_all add: plain_inv_def)
  have "\<exists>r. for_range 0 n free_virtual_plane (a_ptrs a, hdls, a_proc a) = Some r \<and> ?I (0 + n) r"
  proof (rule for_range_inv[where I = ?I])
    show "?I 0 (a_ptrs a, hdls, a_proc a)" by (simp add: restrict_map_def)
  next
    fix k r assume k: "k < 0 + n" and r: "?I k r"
    obtain ptrs pr where rr: "r = (ptrs, hdls, pr)" "ptrs = replicate k 0 @ drop k (a_ptrs a)"
        "pr = (a_proc a)\<lparr>blocks := blocks (a_proc a) |` (- ?S k)\<rparr>"
      using r by (cases r) auto
    have u: "unat (of_nat k :: u32) = k" using k assms(2) by (simp add: unat_of_nat_u32)
    have here: "ptrs ! k = a_ptrs a ! k" "k < length ptrs" using k len rr(2) by (simp_all add: nth_append)
    have "take (Suc k) (a_ptrs a) = take k (a_ptrs a) @ [a_ptrs a ! k]" using k len by (simp add: take_Suc_conv_app_nth)
    moreover have "distinct (take (Suc k) (a_ptrs a))" using distinct_take[OF dist, of "Suc k"] k by (simp add: min_def)
    ultimately have new: "a_ptrs a ! k \<notin> ?S k" "?S (Suc k) = insert (a_ptrs a ! k) (?S k)" by simp_all
    have "block_free (a_ptrs a ! k) pr = Some ((a_proc a)\<lparr>blocks := blocks (a_proc a) |` (- ?S (Suc k))\<rparr>)"
      using blk[of k] k new rr(3) restrict_drop[OF new(1), of "blocks (a_proc a)"] by (simp add: block_free_def)
    moreover have "ptrs[k := 0] = replicate (Suc k) 0 @ drop (Suc k) (a_ptrs a)"
      using k len rr(2) by (simp add: list_update_append Cons_nth_drop_Suc[symmetric] replicate_append_same[symmetric])
    ultimately show "\<exists>r'. free_virtual_plane (of_nat k) r = Some r' \<and> ?I (Suc k) r'"
      using blk[of k] k u here rr(1) by (simp add: free_virtual_plane_def nth_chk_def)
  qed
  then show ?thesis using old len by auto
qed

section \<open>Buffer objects\<close>

lemma associate_null: "associate E 0 hdl n mtype s = Some (False, s)"
  by (cases "dvp_rpc s") (auto simp: associate_def dvp_rpc_associate_def Let_def split: prod.splits)

lemma associate_null_planes:
  assumes "unat n \<le> 4"
  shows "associate_planes E mtype n 3 (replicate 4 0) zero_hdls zero_strides s = Some s"
  unfolding associate_planes_def
proof (rule for_range_frame)
  fix k assume "k < 0 + unat n"
  then have k: "unat (of_nat k :: u32) = k" "k < 4" using unat_u32_less[of n] assms by (simp_all add: unat_of_nat_u32)
  then show "(do { str \<leftarrow> nth_chk zero_strides (unat (of_nat k :: u32));
       sz \<leftarrow> dim_get str (unat (3 - 1 :: s32));
       ptr \<leftarrow> nth_chk (replicate 4 0) (unat (of_nat k :: u32));
       h \<leftarrow> nth_chk zero_hdls (unat (of_nat k :: u32));
       (_, s') \<leftarrow> associate E ptr h sz mtype s;
       Some s' }) = Some s"
    by (simp add: nth_chk_def dim_get_def associate_null zero_hdls_def zero_strides_def DVP_MAX_PLANES_def)
qed

section \<open>An example\<close>

text \<open>A platform with memory for two blocks of a page, and an NV12 image of 8 by 4 pixels.\<close>

definition ex_memalign :: "process_t \<Rightarrow> u32 \<Rightarrow> u32 option" where
  "ex_memalign s n = (if 4096 < unat n then None else if blocks s = Map.empty then Some 0x1000
     else if blocks s = [0x1000 \<mapsto> 4096] then Some 0x2000 else None)"

definition ex_mem_env :: mem_env where
  "ex_mem_env = \<lparr>env_pl = \<lparr>pl_memalign = ex_memalign, pl_calloc_bot = \<lambda>_. None, pl_calloc_shm = \<lambda>_. None, pl_bo_new = \<lambda>_ _ _. 0,
      pl_bo_new_tiled = \<lambda>_ _ _ _. 0, pl_bo_map = \<lambda>_ _. 0, pl_bo_dmabuf = \<lambda>_ _. 0, pl_dup = \<lambda>_ _. 0, pl_shmget = \<lambda>_ _ _. -1,
      pl_shmat = \<lambda>_ _. -1, pl_rand = \<lambda>_ _. 0, BO_SCANOUT = 1, BO_CACHED = 2, BO_WC = 4, BO_TILED_8 = 8, BO_TILED_16 = 16,
      BO_TILED_32 = 32\<rparr>,
    env_associate = \<lambda>_. ((True, True, True), 0), env_dissociate = \<lambda>_. True, env_calloc = \<lambda>_ _. None\<rparr>"

definition ex_mem_sys :: mem_sys where
  "ex_mem_sys = \<lparr>dvp_rpc = None, dvp_mem = True, dvp_proc = \<lparr>blocks = Map.empty, bots = Map.empty, shms = Map.empty, bos = Map.empty,
     open_fds = {}, segments = {}\<rparr>\<rparr>"

definition ex_mem_image :: DVP_Image_t where
  "ex_mem_image = the (DVP_Image_Init (Some zero_image) 8 4 FOURCC_NV12)"

definition ex_allocated :: alloc_st where
  "ex_allocated = \<lparr>a_ptrs = [0x1000, 0x2000, 0, 0], a_hdls = zero_hdls,
     a_strides = [dim3 1 8 32, dim3 2 8 16, dim3 0 0 0, dim3 0 0 0],
     a_proc = (dvp_proc ex_mem_sys)\<lparr>blocks := [0x1000 \<mapsto> 4096, 0x2000 \<mapsto> 4096]\<rparr>\<rparr>"

lemma ex_memalign_ok: "memalign_ok (env_pl ex_mem_env)"
  by (auto simp: memalign_ok_def ex_mem_env_def ex_memalign_def split: if_splits)

lemma ex_mem_init: "DVP_Image_Init (Some zero_image) 8 4 FOURCC_NV12 = Some ex_mem_image"
  by (simp add: ex_mem_image_def DVP_Image_Init_def Let_def)

lemma ex_dims: "DVP_Image_Dims False ex_mem_image = Some [dim3 1 8 4, dim3 2 4 2, dim3 0 0 0, dim3 0 0 0]"
  by (simp add: ex_mem_image_def DVP_Image_Init_def Let_def DVP_Image_Dims_def)

lemma ex_planes: "planes ex_mem_image = 2" "x_stride ex_mem_image = 1"
  by (simp_all add: ex_mem_image_def DVP_Image_Init_def Let_def init_planes_def init_x_stride_def)

lemma ex_bytes: "plain_bytes (dim3 1 8 4) = 4096" "plain_bytes (dim3 2 4 2) = 4096"
  by (simp_all add: plain_bytes_def dim3_def allocator_page_align_size_def PAGE_BYTES_def)

lemma replicate_4: "replicate 4 x = [x, x, x, x]" "replicate 2 x = [x, x]"
  by (simp_all add: numeral_eq_Suc)

lemma ex_strides: "plain_strides (dim3 1 8 4) = dim3 1 8 32" "plain_strides (dim3 2 4 2) = dim3 2 8 16"
  by (simp_all add: plain_strides_def dim3_def)

lemma plane_loop_numeral:
  "plane_loop f p (numeral k) a =
     (case f p a of None \<Rightarrow> None | Some (Stop b a') \<Rightarrow> Some (b, a') | Some (Next a') \<Rightarrow> plane_loop f (Suc p) (pred_numeral k) a')"
  by (simp add: numeral_eq_Suc)

lemma ex_loop:
  "plane_loop (virtual_plane (env_pl ex_mem_env) 3 [dim3 1 8 4, dim3 2 4 2, dim3 0 0 0, dim3 0 0 0]) 0 2
     \<lparr>a_ptrs = replicate 4 0, a_hdls = zero_hdls, a_strides = zero_strides, a_proc = dvp_proc ex_mem_sys\<rparr> = Some (True, ex_allocated)"
  by (simp add: plane_loop_numeral virtual_plane_def nth_chk_def upd_chk_def dims_strides_3 plain_bytes_def [symmetric] ex_bytes
    ex_strides replicate_4 zero_strides_def DVP_MAX_PLANES_def Let_def ex_mem_env_def ex_memalign_def ex_mem_sys_def ex_allocated_def)

lemma ex_alloc:
  "DVP_Image_Alloc ex_mem_env True (Some ex_mem_image) DVP_MTYPE_MPUCACHED_VIRTUAL ex_mem_sys =
     Some (True, Some (allocated ex_mem_image (a_ptrs ex_allocated) DVP_MTYPE_MPUCACHED_VIRTUAL), ex_mem_sys\<lparr>dvp_proc := a_proc ex_allocated\<rparr>)"
proof (rule plain_alloc_eq[OF ex_mem_init ex_dims])
  show "plane_loop (virtual_plane (env_pl ex_mem_env) 3 [dim3 1 8 4, dim3 2 4 2, dim3 0 0 0, dim3 0 0 0]) 0 (unat (planes ex_mem_image))
     \<lparr>a_ptrs = replicate 4 0, a_hdls = zero_hdls, a_strides = zero_strides, a_proc = dvp_proc ex_mem_sys\<rparr> = Some (True, ex_allocated)"
    using ex_loop by (simp add: ex_planes)
qed (simp_all add: ex_planes ex_strides ex_allocated_def ex_mem_sys_def zero_hdls_def DVP_MAX_PLANES_def dvp_mem_type_xlate_def
  mem_correlation_def)

lemma ex_heap_apart: "heap_apart (blocks (dvp_proc ex_mem_sys))"
  by (simp add: heap_apart_def ex_mem_sys_def)

section \<open>Properties\<close>

text \<open>
  C15. An image whose size fits and is a multiple of the subsampling, allocated in plain memory: each of its planes has a block of
  its own, new, not shared with another plane and not overlapping anything, the plane starts there, and every sample of every pixel of the
  buffer lies inside it. The rest of the process and the registry of the remote cores are untouched.
\<close>

theorem image_alloc_holds:
  assumes "memalign_ok (env_pl E)" and "heap_apart (blocks (dvp_proc s))"
    and "DVP_Image_Init im0 w h c = Some im" and "0 < h" and "unat w * unat h * 8 < 2 ^ 31" and "unat w mod 8 = 0" and "unat h mod 4 = 0"
    and "dvp_mem_type_xlate mtype = AM_VIRTUAL" and "mtype \<noteq> DVP_MTYPE_DISPLAY_2DTILED"
    and "DVP_Image_Alloc E True (Some im) mtype s = Some (True, Some im', s')"
  shows "heap_apart (blocks (dvp_proc s')) \<and> distinct (take (unat (planes im)) (pBuffer im')) \<and> dvp_rpc s' = dvp_rpc s \<and>
    dvp_proc s = (dvp_proc s')\<lparr>blocks := blocks (dvp_proc s') |` (- set (take (unat (planes im)) (pBuffer im')))\<rparr> \<and>
    (\<forall>p < planes im. pData im' ! unat p = pBuffer im' ! unat p \<and>
       (\<exists>n. blocks (dvp_proc s') (pBuffer im' ! unat p) = Some n \<and>
          (\<forall>x < w. \<forall>y < h. unat (DVP_Image_Offset (Some im') x y p) + unat (sample im' p) \<le> n)))"
proof -
  obtain ds where ds: "DVP_Image_Dims False im = Some ds" "length ds = 4" "ds ! 0 = dim3 (x_stride im) w h"
    "\<And>p. p < planes im \<Longrightarrow> rows_fit im (ds ! unat p) p"
    using init_dims[OF assms(3)] by blast
  let ?n = "unat (planes im)"
  obtain a where a: "plain_inv \<lparr>a_ptrs = replicate 4 0, a_hdls = zero_hdls, a_strides = zero_strides, a_proc = dvp_proc s\<rparr> ds ?n a"
    "Some im' = Some (allocated im (a_ptrs a) mtype)" "s' = s\<lparr>dvp_proc := a_proc a\<rparr>"
    using plain_image_alloc[OF assms(3) ds(1) assms(8,9,1,2) ds(3) assms(10)] by metis
  note f = init_fields[OF assms(3)]
  have "pData im' ! unat p = pBuffer im' ! unat p \<and> (\<exists>n. blocks (dvp_proc s') (pBuffer im' ! unat p) = Some n \<and>
      (\<forall>x < w. \<forall>y < h. unat (DVP_Image_Offset (Some im') x y p) + unat (sample im' p) \<le> n))" if p: "p < planes im" for p
  proof -
    have k: "unat p < ?n" using p by (simp add: word_less_nat_alt)
    let ?d = "ds ! unat p"
    have blk: "blocks (dvp_proc s') (pBuffer im' ! unat p) = Some (unat (plain_bytes ?d))" and len: "length (a_ptrs a) = 4" "?n \<le> 4"
      using a(1,2,3) k by (simp_all add: plain_inv_def allocated_same)
    note geo = allocated_plane[OF assms(3-7) p ds(4)[OF p], of "a_ptrs a" mtype]
    have plane: "plane_ok im' p" "unat (DVP_Image_PlaneRange (Some im') p) \<le> dim_bytes ?d" using geo ds(3) a(2) by auto
    have "dim_bytes ?d \<le> 8 * (unat w * unat h)" using ds(4)[OF p] f(3,4) by (simp add: rows_fit_def)
    moreover have "8 * (unat w * unat h) < 2 ^ 31" using assms(5) by (simp only: mult.commute)
    ultimately have small: "dim_bytes ?d < 2 ^ 31" by (rule order.strict_trans1)
    then have "unat (bpp ?d * dim_width ?d * dim_height ?d) = dim_bytes ?d"
      unfolding dim_bytes_def by (intro unat_mult3) simp
    then have "dim_bytes ?d \<le> unat (plain_bytes ?d)"
      using page_align_ge[of "bpp ?d * dim_width ?d * dim_height ?d"] small by (simp add: plain_bytes_def)
    then have "unat (DVP_Image_Offset (Some im') x y p) + unat (sample im' p) \<le> unat (plain_bytes ?d)" if "x < w" "y < h" for x y
      using offset_bound[OF plane(1), of x y] that plane(2) a(2) f(3,4) by (simp add: allocated_same)
    moreover have "pData im' ! unat p = pBuffer im' ! unat p"
      using a(2) k len by (simp add: allocated_def Let_def nth_append)
    ultimately show ?thesis using blk by blast
  qed
  then show ?thesis using a by (simp add: plain_inv_def allocated_same)
qed

theorem image_alloc_holds_witness:
  "\<exists>im' s'. DVP_Image_Alloc ex_mem_env True (Some ex_mem_image) DVP_MTYPE_MPUCACHED_VIRTUAL ex_mem_sys = Some (True, Some im', s') \<and>
     distinct (take 2 (pBuffer im')) \<and>
     (\<exists>n. blocks (dvp_proc s') (pBuffer im' ! 1) = Some n \<and> unat (DVP_Image_Offset (Some im') 7 3 1) + unat (sample im' 1) \<le> n)"
proof -
  have "dvp_mem_type_xlate DVP_MTYPE_MPUCACHED_VIRTUAL = AM_VIRTUAL" by (simp add: dvp_mem_type_xlate_def mem_correlation_def)
  from image_alloc_holds[OF ex_memalign_ok ex_heap_apart ex_mem_init _ _ _ _ this _ ex_alloc]
  have all: "distinct (take (unat (planes ex_mem_image)) (pBuffer (allocated ex_mem_image (a_ptrs ex_allocated) DVP_MTYPE_MPUCACHED_VIRTUAL)))"
    "\<forall>p < planes ex_mem_image. \<exists>n. blocks (dvp_proc (ex_mem_sys\<lparr>dvp_proc := a_proc ex_allocated\<rparr>))
        (pBuffer (allocated ex_mem_image (a_ptrs ex_allocated) DVP_MTYPE_MPUCACHED_VIRTUAL) ! unat p) = Some n \<and>
      (\<forall>x < 8. \<forall>y < 4. unat (DVP_Image_Offset (Some (allocated ex_mem_image (a_ptrs ex_allocated) DVP_MTYPE_MPUCACHED_VIRTUAL)) x y p) +
        unat (sample (allocated ex_mem_image (a_ptrs ex_allocated) DVP_MTYPE_MPUCACHED_VIRTUAL) p) \<le> n)"
    by (simp_all add: ex_mem_sys_def)
  from all(2)[rule_format, of 1] all(1) show ?thesis using ex_alloc by (fastforce simp: ex_planes)
qed

text \<open>
  C24. Freeing an image that was allocated in plain memory succeeds and gives back exactly what the allocation took: the process, the
  registry and the allocator are as they were before it. The buffer pointers of the image become null.
\<close>

theorem image_alloc_free:
  assumes "memalign_ok (env_pl E)" and "heap_apart (blocks (dvp_proc s))" and "DVP_Image_Init im0 w h c = Some im"
    and "dvp_mem_type_xlate mtype = AM_VIRTUAL" and "mtype \<noteq> DVP_MTYPE_DISPLAY_2DTILED"
    and "DVP_Image_Alloc E True (Some im) mtype s = Some (True, Some im', s')"
  shows "\<exists>im''. DVP_Image_Free E True (Some im') s' = Some (True, Some im'', s) \<and>
    take (unat (planes im)) (pBuffer im'') = replicate (unat (planes im)) 0"
proof -
  obtain ds where ds: "DVP_Image_Dims False im = Some ds" "length ds = 4" "ds ! 0 = dim3 (x_stride im) w h"
    using init_dims[OF assms(3)] by metis
  let ?n = "unat (planes im)"
  obtain a where a: "plain_inv \<lparr>a_ptrs = replicate 4 0, a_hdls = zero_hdls, a_strides = zero_strides, a_proc = dvp_proc s\<rparr> ds ?n a"
    "Some im' = Some (allocated im (a_ptrs a) mtype)" "s' = s\<lparr>dvp_proc := a_proc a\<rparr>" "dvp_mem s"
    using plain_image_alloc[OF assms(3) ds(1) assms(4,5,1,2) ds(3) assms(6)] by metis
  have pos: "\<not> planes im \<le>s 0" "?n \<le> 3" using init_planes_le[OF assms(3)] by (auto simp: word_sle_eq)
  have len: "length (a_ptrs a) = 4" using a(1) by (simp add: plain_inv_def)
  obtain ptrs where ptrs: "for_range 0 ?n free_virtual_plane (a_ptrs a, zero_hdls, a_proc a) = Some (ptrs, zero_hdls, dvp_proc s)"
      "take ?n ptrs = replicate ?n 0"
    using plain_free_loop[OF a(1), of zero_hdls] unat_u32_less[of "planes im"] by auto
  have "dissociate_planes E mtype (planes im) 3 ds (a_ptrs a) s' = Some (zero_hdls, s')"
    using plain_memory(1)[OF assms(4)] len ds(2) pos(2) by (intro dissociate_planes_plain) simp_all
  then have "dvp_mem_free E True mtype (planes im) 3 ds (a_ptrs a) s' = Some (True, ptrs, s)"
    using ptrs(1) pos(1) a(3,4) assms(4)
    by (simp add: dvp_mem_free_def release_planes_def allocator_free_def bo_memory_def word_sle_eq)
  moreover have "s'\<lparr>dvp_proc := dvp_proc s'\<rparr> = s'" by simp
  ultimately have "DVP_Image_Free E True (Some im') s' = Some (True, Some (im'\<lparr>pBuffer := ptrs\<rparr>), s)"
    using a(2) assms(5) ds(1) plain_memory(2)[OF assms(4)]
    by (simp add: DVP_Image_Free_def allocated_same dims_allocated)
  then show ?thesis using ptrs(2) by (intro exI[of _ "im'\<lparr>pBuffer := ptrs\<rparr>"]) simp
qed

theorem image_alloc_free_witness:
  "\<exists>im' s' im''. DVP_Image_Alloc ex_mem_env True (Some ex_mem_image) DVP_MTYPE_MPUCACHED_VIRTUAL ex_mem_sys = Some (True, Some im', s') \<and>
     s' \<noteq> ex_mem_sys \<and> DVP_Image_Free ex_mem_env True (Some im') s' = Some (True, Some im'', ex_mem_sys) \<and>
     take 2 (pBuffer im'') = [0, 0]"
proof -
  have "dvp_mem_type_xlate DVP_MTYPE_MPUCACHED_VIRTUAL = AM_VIRTUAL" by (simp add: dvp_mem_type_xlate_def mem_correlation_def)
  from image_alloc_free[OF ex_memalign_ok ex_heap_apart ex_mem_init this _ ex_alloc]
  obtain im'' where "DVP_Image_Free ex_mem_env True (Some (allocated ex_mem_image (a_ptrs ex_allocated) DVP_MTYPE_MPUCACHED_VIRTUAL))
      (ex_mem_sys\<lparr>dvp_proc := a_proc ex_allocated\<rparr>) = Some (True, Some im'', ex_mem_sys)" "take 2 (pBuffer im'') = [0, 0]"
    by (auto simp: ex_planes replicate_4)
  moreover have "a_proc ex_allocated \<noteq> dvp_proc ex_mem_sys"
  proof
    assume "a_proc ex_allocated = dvp_proc ex_mem_sys"
    then have "blocks (a_proc ex_allocated) 0x1000 = blocks (dvp_proc ex_mem_sys) 0x1000" by simp
    then show False by (simp add: ex_allocated_def ex_mem_sys_def)
  qed
  then have "ex_mem_sys\<lparr>dvp_proc := a_proc ex_allocated\<rparr> \<noteq> ex_mem_sys" by (auto dest: arg_cong[where f = dvp_proc])
  ultimately show ?thesis using ex_alloc by blast
qed

text \<open>
  C38. Without memory for the first handle an image for the remote cores is allocated all the same: the result is true, its planes and their
  data are null, and its strides are zero.
\<close>

theorem image_alloc_null_planes:
  assumes "DVP_Image_Init im0 w h c = Some im" and "mtype = DVP_MTYPE_MPUCACHED_1DTILED \<or> mtype = DVP_MTYPE_MPUNONCACHED_1DTILED"
    and "dvp_mem s" and "pl_calloc_bot (env_pl E) (dvp_proc s) = None"
  shows "\<exists>im'. DVP_Image_Alloc E True (Some im) mtype s = Some (True, Some im', s) \<and> pBuffer im' = replicate 4 0 \<and>
    pData im' = replicate 4 0 \<and> x_stride im' = 0 \<and> y_stride im' = 0 \<and> memType im' = mtype"
proof -
  obtain ds where ds: "DVP_Image_Dims False im = Some ds" using init_dims[OF assms(1)] by blast
  note f = init_fields[OF assms(1)]
  have n: "\<not> planes im \<le>s 0" "unat (planes im) \<le> 3" "0 < unat (planes im)" using init_planes_le[OF assms(1)] by (auto simp: word_sle_eq)
  have ty: "bo_memory (dvp_mem_type_xlate mtype)" "\<not> reserved_memory mtype" "mtype \<noteq> DVP_MTYPE_DISPLAY_2DTILED"
    using assms(2) by (auto simp: bo_memory_def dvp_mem_type_xlate_def mem_correlation_def reserved_memory_def)
  let ?a = "\<lparr>a_ptrs = replicate 4 0, a_hdls = zero_hdls, a_strides = zero_strides, a_proc = dvp_proc s\<rparr>"
  have "allocator_calloc (env_pl E) True (dvp_mem_type_xlate mtype) (planes im) 3 ds ?a = Some (True, ?a)"
    using n(1,3) ty(1) assms(4) by (cases "unat (planes im)") (simp_all add: allocator_calloc_def bo_plane_def word_sle_eq)
  then have "dvp_mem_calloc E True mtype (planes im) 3 ds (pBuffer im) zero_strides s = Some (True, replicate 4 0, zero_strides, s)"
    using n assms(3) f(10) associate_null_planes[of "planes im" E mtype s]
    by (simp add: dvp_mem_calloc_def DVP_MAX_PLANES_def word_sle_eq)
  moreover have "assign_planes (im\<lparr>pBuffer := replicate 4 0\<rparr>) = Some (im\<lparr>pBuffer := replicate 4 0, pData := replicate 4 0\<rparr>)"
  proof -
    have "take (unat (planes im)) (replicate 4 (0 :: u32)) @ drop (unat (planes im)) (replicate 4 0) = replicate 4 0"
      by (rule append_take_drop_id)
    then show ?thesis using assign_planes_eq[of "im\<lparr>pBuffer := replicate 4 0\<rparr>"] n f(9) by (simp add: DVP_MAX_PLANES_def)
  qed
  ultimately show ?thesis using ds ty by (simp add: DVP_Image_Alloc_def nth_chk_def zero_strides_def DVP_MAX_PLANES_def dim3_def Let_def)
qed

theorem image_alloc_null_planes_witness:
  "\<exists>im'. DVP_Image_Alloc ex_mem_env True (Some ex_mem_image) DVP_MTYPE_MPUCACHED_1DTILED ex_mem_sys = Some (True, Some im', ex_mem_sys) \<and>
     pData im' = [0, 0, 0, 0]"
  using image_alloc_null_planes[OF ex_mem_init, of DVP_MTYPE_MPUCACHED_1DTILED ex_mem_sys ex_mem_env]
  by (auto simp: ex_mem_sys_def ex_mem_env_def replicate_4)

end
