(* ===== verification/Spec2Isabelle.thy ===== *)
theory Spec2Isabelle
  imports Sosal_Queue Sosal_HashSpec Sosal_HeapInit Sosal_BTreeSpec Sosal_Ini Sosal_Fph Sosal_Bits
    Sosal_PoolDestroy Dvp_System Dvp_KgraphRun Dvp_CpuRun Dvp_CpuDeinit Dvp_MemSpec
begin

text \<open>
  A verification development for DVP, the Distributed Vision Processing library: a C runtime that
  executes graphs of image-processing kernels on the cores of an OMAP processor (CPU, SIMCOP, DSP) or a PC.

  The program. A client builds a \<open>DVP_KernelGraph_t\<close>: sections of nodes, a node being a kernel number, a
  core affinity, and its operands. \<open>DVP_KernelGraph_Verify\<close> and \<open>DVP_KernelGraph_Process\<close>
  (\<open>source/dvp/dvp_kgraph/dvp_kgraph.c\<close>) enter the library under a graph lock and hand every section to the Kernel Graph
  Boss (\<open>dvp_kgb.c\<close>). The boss reserves load on the cores in a table shared by all processes, assigns every node to a
  Kernel Graph Manager (a plug-in per core, \<open>dvp_kmdl.c\<close>), and passes maximal runs of nodes of one manager to
  that manager. The CPU manager (\<open>dvp_kgm_cpu.c\<close>) verifies and executes nodes itself or queues them for worker
  threads; its kernels work on images (\<open>dvp_mem.c\<close>). Under all this is \<open>sosal\<close>, the operating-system layer: events,
  ring buffers, message queues, linked lists, search trees, hash tables, a heap, a thread pool and a parser of settings files.

  Theories and sources (directories under \<open>src/source\<close>, records and constants under \<open>src/include\<close>).

  \<^item> \<open>Dvp_Prelude\<close>: the integer types of the C sources, the 32-bit \<open>size_t\<close>, blocks of bytes, and the
    collections \<open>size_simps\<close> and \<open>mem_simps\<close>.
  \<^item> \<open>Sosal_Fifo\<close> is the contract of a byte FIFO (locale \<open>byte_fifo\<close>); \<open>Sosal_Ring\<close> (\<open>sosal/ring.c\<close>) provides it,
    \<open>Sosal_Queue\<close> (\<open>sosal/queue.c\<close>) and \<open>Sosal_Event\<close> (\<open>sosal/event.c\<close>) use it. The pointers of a ring are offsets
    from its start; a mutex is the atomicity of the critical section it protects.
  \<^item> \<open>Sosal_List\<close> is \<open>sosal/list.c\<close> on an explicit heap of nodes; \<open>Sosal_ListSpec\<close> shows that it refines sequences
    of addresses (locales \<open>node_order\<close>, \<open>deque\<close>). \<open>Sosal_Hash\<close> and \<open>Sosal_HashSpec\<close> do the same for
    \<open>sosal/hash.c\<close>, against finite maps, on top of the lists.
  \<^item> \<open>Sosal_BTree\<close> is \<open>sosal/btreelist.c\<close>, a sorted list with a search tree rebuilt after every change;
    \<open>Sosal_BTreeSpec\<close> shows that adding and removing act on the sorted sequence of its nodes (locale \<open>btree_order\<close>).
    \<open>Sosal_Fph\<close> is the hash table of pointers \<open>sosal/fph.c\<close>, against finite maps (locale \<open>fph_keys\<close>). \<open>Sosal_Bits\<close> holds
    \<open>sosal/bitfield.c\<close>, \<open>histogram.c\<close> and \<open>fourcc.c\<close>; \<open>Sosal_Ini\<close> the parser of settings files, \<open>sosal/ini.c\<close>,
    with its round trip.
  \<^item> \<open>Dvp_Rpc\<close>: the registry of the memory that the remote cores reach, \<open>dvp_rpc_omaprpc.c\<close>, on top of the pointer hash
    and a searchable list of address ranges (an interpretation of \<open>btree_order\<close>), against a map of disjoint blocks.
  \<^item> \<open>Omaprpc\<close> is \<open>omaprpc/omaprpc.c\<close>, the user side of the driver that reaches the remote cores (the driver is a record of
    system calls, a parameter); \<open>Dvp_RpcCall\<close> is the rest of \<open>dvp_rpc_omaprpc.c\<close>: cores, cache maintenance, pointer
    translations and calls, for a PANDA board (OMAP4) with \<open>DVP_USE_BO\<close>.
  \<^item> \<open>Dvp_RemoteTypes\<close> has the kernels and structures of VRUN, DSPLIB and the deinterlacer; \<open>Dvp_RemoteKgm\<close> the text that the
    managers of the remote cores share, parameterised by the two switches that prepare operands and take them back;
    \<open>Dvp_Simcop\<close> (\<open>dvp_kgm_simcop.c\<close>) and \<open>Dvp_Dsp\<close> (\<open>dvp_kgm_dsp.c\<close>) the managers themselves. \<open>Dvp_RemoteRun\<close> and
    \<open>Dvp_RemoteSpec\<close> compute what a run sends, flushes and invalidates, in terms of the map of associated memory;
    \<open>Dvp_RemoteProps\<close> has the properties: the tables agree, runs are exact, the lock, the bound on the translations,
    and crashes of a remote core.
  \<^item> \<open>Dvp_Verifier\<close> is the contract of the loops that verify nodes (locale \<open>node_verifier\<close>), which the CPU and SIMCOP
    managers provide; \<open>Dvp_System\<close> puts the boss and the three managers together: a section that the boss verifies
    has been accepted node by node, and its runs on SIMCOP never lose the lock.
  \<^item> \<open>Sosal_ThreadPool\<close> is \<open>sosal/threadpool.c\<close>: issuing threads and workers as an interleaved step relation, its
    invariant, and a measure that every step decreases; \<open>Sosal_PoolDestroy\<close> is \<open>threadpool_destroy\<close>, run against the workers.
  \<^item> \<open>Sosal_Heap\<close> is the allocator \<open>sosal/heap.c\<close>; \<open>Sosal_HeapSpec\<close>, \<open>Sosal_HeapFree\<close>, \<open>Sosal_HeapInit\<close> hold its
    invariant and what allocation, freeing and initialisation do, against a map from pointers in use to sizes and a set
    of free bytes.
  \<^item> \<open>Dvp_Load\<close>, \<open>Dvp_Kgb\<close>, \<open>Dvp_KgbAdmin\<close>: the load table, the boss and its administration; \<open>Dvp_KgbLoad\<close>,
    \<open>Dvp_KgbConfig\<close>, \<open>Dvp_KgbRun\<close>: commit and decommit under any interleaving (locale \<open>resource_pool\<close>), the
    assignment of nodes to managers, verification and execution by runs.
  \<^item> \<open>Dvp_Kgraph\<close>: the public interface and its lock. The sections of one order are issued to the thread pool of
    \<open>Sosal_ThreadPool\<close>, whose workers run them step by step (commit, execute, release, callback) under any schedule;
    \<open>Dvp_KgraphPar\<close> shows that this ends, with each section run once, and that a worker alone is the call of the boss;
    \<open>Dvp_KgraphRun\<close> the order in which sections run.
  \<^item> \<open>Dvp_Image\<close>, \<open>Dvp_ImageMem\<close> are \<open>dvp_mem.c\<close>; \<open>Dvp_ImageGeo\<close> and \<open>Dvp_ImageCopy\<close> its geometry (addresses inside
    planes, distinct samples disjoint) and the correctness of the copy.
  \<^item> \<open>Dvp_KernelTypes\<close>, \<open>Dvp_Cpu\<close>, \<open>Dvp_CpuRun\<close>: the CPU manager, verification and synchronous execution;
    \<open>Dvp_CpuQueue\<close>: its clients and worker threads as an interleaved step relation; \<open>Dvp_CpuDeinit\<close>: how they are taken down,
    with the destruction of the queues and what still uses them then.
  \<^item> \<open>Sosal_Allocator\<close> is \<open>sosal/allocator.c\<close> and \<open>shared.c\<close>: plain memory, buffer objects and shared segments of a process, for
    Linux with \<open>SOSAL_USE_BO\<close>; the kernel and \<open>libdrm\<close> are the record \<open>platform_t\<close>, a parameter. \<open>Dvp_Mem\<close> is
    \<open>dvp_mem_int.c\<close> and the operations of \<open>dvp_mem.c\<close> on memory; \<open>Dvp_MemSpec\<close> shows that the planes of an allocated image have
    blocks of their own that hold every sample, that freeing restores what was there, and what happens without memory for a handle.

  Representation. A struct is a record, a pointer to a shared object an address in an explicit map, an error
  return a value; \<open>None\<close> as the result of a function with loops over pointers is a fault (a dereference of
  null or of memory that is not there) or an endless loop, so a theorem that says \<open>Some\<close> says that neither happens.
  Loops are structural recursion, or \<open>partial_function (option)\<close> where they follow pointers. The only fuel is in
  \<open>heap_calc_overhead\<close>, whose loop decreases the number of elements: the fuel is that number plus one. Machine
  integers are words where their width matters; \<open>size_t\<close> and pointers have 32 bits, as on the OMAP targets, so that
  \<open>sizeof(node_t)\<close> is 12 and \<open>sizeof(block_t)\<close> is 8. Functions that the code receives as pointers (the calls of a manager, the
  comparison of a list, the key function of a hash table) are arguments of the definitions, with the contract the callers rely on as a hypothesis.

  Not modelled. The kernels of \<open>dvp_kgm_cpu.c\<close> that call the optional libraries (VLIB, IMGLIB, YUV, imgfilter: the build
  switches are off in the configuration modelled, and the libraries are assembly or not in the repository); the cases of the
  DSP manager for libraries whose headers are not in the repository (VLIB, IMGLIB, RVM, ORB, TISMO); the queued mode of the remote
  managers, the same loop as in \<open>Dvp_CpuQueue\<close>; the OpenCL manager; the transports other than OMAPRPC; allocation with TILER, ION or GRALLOC; options, which call \<open>sscanf\<close>,
  and vectors of floating-point numbers; the thin wrappers of the operating system; the printing
  functions; the camera and engine classes in C++, displays, demos, tests and tools. The manifest lists them one by one.
\<close>

end
